(* ===== verification/Prelude.thy ===== *)
theory Prelude
  imports Complex_Main "HOL-Library.List_Lexorder" "HOL-Library.Char_ord"
begin

text \<open>
  Shared vocabulary of the development.

  Fallible Python code is a sum: \<open>Inl e\<close> is the exception \<open>e\<close> leaving the function,
  \<open>Inr x\<close> is the value it returns.  \<open>bindE\<close>, \<open>guardE\<close>, \<open>traverseE\<close> and \<open>forE\<close>
  are the four ways the sources sequence such code: one statement after another, an
  \<open>if not ...: raise\<close>, a comprehension over a raising expression, and a \<open>for\<close> loop whose
  body may raise.  \<open>Decimal\<close> quantities are exact, so they are rationals; a timezone-aware
  \<open>datetime\<close> is its UTC instant in microseconds, the resolution Python keeps.
\<close>

section \<open>Names for the model's base types\<close>

type_synonym uuid = nat
type_synonym instant = int
type_synonym decimal = rat
type_synonym 'a strmap = "(string \<times> 'a) list"

datatype datetime = Aware instant | Naive instant

abbreviation seconds :: "int \<Rightarrow> int" where
  "seconds n \<equiv> n * 1000000"

named_theorems res_simps \<open>inversion of the error monad\<close>
named_theorems wf_simps \<open>unfolding of validators\<close>
named_theorems step_simps \<open>unfolding of state-changing operations\<close>

section \<open>The error monad\<close>

fun bindE :: "'e + 'a \<Rightarrow> ('a \<Rightarrow> 'e + 'b) \<Rightarrow> 'e + 'b" where
  "bindE (Inl e) f = Inl e"
| "bindE (Inr x) f = f x"

definition guardE :: "bool \<Rightarrow> 'e \<Rightarrow> 'e + unit" where
  "guardE b e = (if b then Inr () else Inl e)"

primrec traverseE :: "('a \<Rightarrow> 'e + 'b) \<Rightarrow> 'a list \<Rightarrow> 'e + 'b list" where
  "traverseE f [] = Inr []"
| "traverseE f (x # xs) = bindE (f x) (\<lambda>y. bindE (traverseE f xs) (\<lambda>ys. Inr (y # ys)))"

primrec forE :: "('a \<Rightarrow> 'e + unit) \<Rightarrow> 'a list \<Rightarrow> 'e + unit" where
  "forE f [] = Inr ()"
| "forE f (x # xs) = bindE (f x) (\<lambda>_. forE f xs)"

definition is_ok :: "'e + 'a \<Rightarrow> bool" where
  "is_ok r = (case r of Inl _ \<Rightarrow> False | Inr _ \<Rightarrow> True)"

lemma bindE_Inr_iff [simp, res_simps]:
  "bindE m f = Inr y \<longleftrightarrow> (\<exists>x. m = Inr x \<and> f x = Inr y)"
  by (cases m) auto

lemma bindE_Inl_iff [res_simps]:
  "bindE m f = Inl e \<longleftrightarrow> m = Inl e \<or> (\<exists>x. m = Inr x \<and> f x = Inl e)"
  by (cases m) auto

lemma guardE_Inr_iff [simp, res_simps]: "guardE b e = Inr u \<longleftrightarrow> b"
  by (simp add: guardE_def)

lemma guardE_Inl_iff [simp, res_simps]: "guardE b e = Inl e' \<longleftrightarrow> \<not> b \<and> e' = e"
  by (auto simp: guardE_def)

lemma guardE_True [simp]: "guardE True e = Inr ()"
  by (simp add: guardE_def)

lemma guardE_False [simp]: "guardE False e = Inl e"
  by (simp add: guardE_def)

lemma is_ok_simps [simp, res_simps]: "is_ok (Inr x)" "\<not> is_ok (Inl e)"
  by (simp_all add: is_ok_def)

lemma is_ok_iff: "is_ok r \<longleftrightarrow> (\<exists>x. r = Inr x)"
  by (cases r) auto

lemma forE_Inr_iff [simp, res_simps]: "forE f xs = Inr u \<longleftrightarrow> (\<forall>x \<in> set xs. f x = Inr ())"
  by (induction xs) auto

lemma traverseE_Inr_iff [res_simps]:
  "traverseE f xs = Inr ys \<longleftrightarrow> list_all2 (\<lambda>x y. f x = Inr y) xs ys"
proof (induction xs arbitrary: ys)
  case Nil
  then show ?case by auto
next
  case (Cons x xs)
  then show ?case by (cases ys) auto
qed

lemma traverseE_set: "traverseE f xs = Inr ys \<Longrightarrow> y \<in> set ys \<longleftrightarrow> (\<exists>x \<in> set xs. f x = Inr y)"
proof (induction xs arbitrary: ys)
  case Nil
  then show ?case by simp
next
  case (Cons x xs)
  from Cons.prems obtain z zs where "f x = Inr z" "traverseE f xs = Inr zs" "ys = z # zs" by auto
  then show ?case using Cons.IH by auto
qed

lemma traverseE_total: "traverseE f xs = Inr ys \<Longrightarrow> x \<in> set xs \<Longrightarrow> \<exists>y. f x = Inr y"
  by (induction xs arbitrary: ys) auto

section \<open>Options as bounds that may be absent\<close>

text \<open>The fold \<open>v if acc is None else f acc v\<close> that the sources repeat for every bound.\<close>

definition combine :: "('a \<Rightarrow> 'a \<Rightarrow> 'a) \<Rightarrow> 'a option \<Rightarrow> 'a \<Rightarrow> 'a option" where
  "combine f acc v = Some (case acc of None \<Rightarrow> v | Some a \<Rightarrow> f a v)"

definition within_opt :: "('a \<Rightarrow> bool) \<Rightarrow> 'a option \<Rightarrow> bool" where
  "within_opt P b = (case b of None \<Rightarrow> True | Some v \<Rightarrow> P v)"

lemma within_opt_simps [simp]:
  "within_opt P None" "within_opt P (Some v) \<longleftrightarrow> P v"
  by (simp_all add: within_opt_def)

lemma within_combine_min [simp]:
  "within_opt (\<lambda>b. x \<le> b) (combine min acc v) \<longleftrightarrow>
     x \<le> (v :: 'a :: linorder) \<and> within_opt (\<lambda>b. x \<le> b) acc"
  by (cases acc) (auto simp: combine_def)

lemma within_combine_min_strict [simp]:
  "within_opt (\<lambda>b. x < b) (combine min acc v) \<longleftrightarrow>
     x < (v :: 'a :: linorder) \<and> within_opt (\<lambda>b. x < b) acc"
  by (cases acc) (auto simp: combine_def)

lemma within_combine_max [simp]:
  "within_opt (\<lambda>b. b \<le> x) (combine max acc v) \<longleftrightarrow>
     (v :: 'a :: linorder) \<le> x \<and> within_opt (\<lambda>b. b \<le> x) acc"
  by (cases acc) (auto simp: combine_def)

lemma within_combine_inter [simp]:
  "within_opt (\<lambda>S. x \<in> S) (combine (\<inter>) acc V) \<longleftrightarrow> x \<in> V \<and> within_opt (\<lambda>S. x \<in> S) acc"
  by (cases acc) (auto simp: combine_def)

section \<open>Association lists\<close>

lemma map_of_SomeD_key: "map_of xs k = Some v \<Longrightarrow> k \<in> fst ` set xs"
  by (metis map_of_eq_None_iff option.distinct(1))

lemma sum_list_map_cong:
  "(\<And>x. x \<in> set xs \<Longrightarrow> f x = g x) \<Longrightarrow> sum_list (map f xs) = sum_list (map g xs)"
  by (simp cong: map_cong)

lemma sum_list_nonneg_map:
  "(\<And>x. x \<in> set xs \<Longrightarrow> 0 \<le> f x) \<Longrightarrow> 0 \<le> sum_list (map f xs :: 'a :: ordered_comm_monoid_add list)"
  by (induction xs) auto

section \<open>Decimals\<close>

text \<open>\<open>d == d.to_integral_value()\<close>: a decimal equals its rounding exactly when it is whole.\<close>

definition whole :: "decimal \<Rightarrow> bool" where
  "whole d = (of_int \<lfloor>d\<rfloor> = d)"

lemma whole_iff: "whole d \<longleftrightarrow> (\<exists>n. d = of_int n)"
  by (metis floor_of_int whole_def)

lemma whole_of_int [simp]: "whole (of_int n)"
  by (simp add: whole_def)

lemma whole_of_int_mult [simp]: "whole (of_int n * 10000)"
  using whole_of_int[of "n * 10000"] by simp

end
