(* ===== verification/Models.thy ===== *)
theory Models
  imports Prelude
begin

text \<open>
  The domain models of \<open>agentiam_core/models.py\<close> and the error vocabulary of
  \<open>agentiam_core/errors.py\<close>.

  Each pydantic class is a record or datatype together with its validator: \<open>mk_x\<close> is the
  constructor call, which raises \<open>ValueError\<close> (pydantic's \<open>ValidationError\<close> is one) when a
  field or model validator refuses.  The lemmas give the well-formedness of everything that
  was constructed, the scaling round trip of \<open>Budget\<close> and its lattice operations.
\<close>

section \<open>errors.py\<close>

datatype reason_code =
    OK
  | TOKEN_INVALID_SIGNATURE | TOKEN_EXPIRED | TOKEN_NOT_YET_VALID | TOKEN_TOO_LARGE
  | MALFORMED_REQUEST
  | TOKEN_REVOKED | ANCESTOR_REVOKED
  | SCOPE_NOT_GRANTED | SCOPE_ATTENUATED_AWAY | TOOL_DENIED | ARG_PREDICATE_FAILED
  | DEPTH_EXCEEDED | INTENT_MISMATCH
  | BUDGET_EXHAUSTED_MANDATE | BUDGET_EXHAUSTED_CAVEAT | LEASE_UNAVAILABLE
  | LEASE_NOT_ACTIVE | RATE_LIMITED
  | POLICY_DENIED | POLICY_BUNDLE_STALE | DRIFT_ESCALATION | APPROVAL_REQUIRED
  | CONTROL_PLANE_UNAVAILABLE_FAIL_CLOSED | UPSTREAM_ERROR | VERIFICATION_LIMIT_EXCEEDED

text \<open>
  The exceptions that leave the modelled functions: Python's own, biscuit's, and the hierarchy
  of \<open>errors.py\<close>.  The two that carry a per-instance code (\<open>AgentIAMError(..., reason_code=c)\<close>)
  are values of the modules that raise them.
\<close>

datatype exc =
    ValueError | TypeError | KeyError | InvalidOperation | BiscuitAuthorizationError
  | AttenuationError
  | MalformedTokenError | InvalidSignatureError | TokenExpiredError | TokenNotYetValidError
  | TokenTooLargeError | DepthExceededError | VerificationLimitError
  | CaveatError | BudgetError | ScaleError | CanonicalizationError | SinkRejectedRecord

fun exc_reason_code :: "exc \<Rightarrow> reason_code option" where
  "exc_reason_code MalformedTokenError = Some MALFORMED_REQUEST"
| "exc_reason_code InvalidSignatureError = Some TOKEN_INVALID_SIGNATURE"
| "exc_reason_code TokenExpiredError = Some TOKEN_EXPIRED"
| "exc_reason_code TokenNotYetValidError = Some TOKEN_NOT_YET_VALID"
| "exc_reason_code TokenTooLargeError = Some TOKEN_TOO_LARGE"
| "exc_reason_code DepthExceededError = Some DEPTH_EXCEEDED"
| "exc_reason_code VerificationLimitError = Some VERIFICATION_LIMIT_EXCEEDED"
| "exc_reason_code _ = None"

type_synonym 'a py = "exc + 'a"

section \<open>Constants and the identifier grammars\<close>

definition BUDGET_SCALE :: int where "BUDGET_SCALE = 10000"
definition MAX_DELEGATION_DEPTH :: int where "MAX_DELEGATION_DEPTH = 8"
definition MAX_LABEL_LENGTH :: nat where "MAX_LABEL_LENGTH = 128"

definition newline :: char where "newline = CHR 0x0A"

text \<open>
  \<open>re.match(r"^core$", s)\<close>: without \<open>MULTILINE\<close>, Python's \<open>$\<close> also matches just before a
  final newline, so the text the core must cover is \<open>s\<close> less one trailing newline.
\<close>

definition dollar :: "string \<Rightarrow> string" where
  "dollar s = (if s \<noteq> [] \<and> last s = newline then butlast s else s)"

definition lower_char :: "char \<Rightarrow> bool" where
  "lower_char c = (CHR ''a'' \<le> c \<and> c \<le> CHR ''z'')"

definition digit_char :: "char \<Rightarrow> bool" where
  "digit_char c = (CHR ''0'' \<le> c \<and> c \<le> CHR ''9'')"

definition ident_char :: "char \<Rightarrow> bool" where
  "ident_char c = (lower_char c \<or> digit_char c \<or> c = CHR ''_'')"

fun ident :: "string \<Rightarrow> bool" where
  "ident [] = False"
| "ident (c # cs) = (lower_char c \<and> list_all ident_char cs)"

definition scope_core :: "string \<Rightarrow> bool" where
  "scope_core s =
     (case dropWhile (\<lambda>c. c \<noteq> CHR '':'') s of
        [] \<Rightarrow> False
      | _ # v \<Rightarrow> ident (takeWhile (\<lambda>c. c \<noteq> CHR '':'') s) \<and> ident v)"

definition scope_re :: "string \<Rightarrow> bool" where
  "scope_re s = scope_core (dollar s)"

definition hex_char :: "char \<Rightarrow> bool" where
  "hex_char c = (digit_char c \<or> (CHR ''a'' \<le> c \<and> c \<le> CHR ''f''))"

definition hex64_re :: "string \<Rightarrow> bool" where
  "hex64_re s = (length (dollar s) = 64 \<and> list_all hex_char (dollar s))"

text \<open>
  \<open>_UNSAFE_LABEL_RE\<close> over Unicode code points: the quote and the backslash, the C0 and C1
  controls, and the bidi marks, embeddings, overrides and isolates.
\<close>

definition unsafe_label_code :: "nat \<Rightarrow> bool" where
  "unsafe_label_code c =
     (c = 0x22 \<or> c = 0x5C \<or> c \<le> 0x1F \<or> (0x7F \<le> c \<and> c \<le> 0x9F)
      \<or> c = 0x200E \<or> c = 0x200F \<or> (0x202A \<le> c \<and> c \<le> 0x202E) \<or> (0x2066 \<le> c \<and> c \<le> 0x2069))"

definition validate_label :: "nat list \<Rightarrow> (nat list) py" where
  "validate_label value =
     (if value = [] then Inl ValueError
      else if length value > MAX_LABEL_LENGTH then Inl ValueError
      else if list_ex unsafe_label_code value then Inl ValueError
      else Inr value)"

text \<open>The code points of a string literal of the model (its characters are Latin-1).\<close>

definition code_points :: "string \<Rightarrow> nat list" where
  "code_points s = map of_char s"

abbreviation label_ok :: "string \<Rightarrow> bool" where
  "label_ok s \<equiv> is_ok (validate_label (code_points s))"

section \<open>Enumerations\<close>

datatype budget_dimension = SPEND_BDT | TOOL_CALLS | ROWS_READ | EXTERNAL_EMAILS | WALL_CLOCK_S

definition all_dimensions :: "budget_dimension list" where
  "all_dimensions = [SPEND_BDT, TOOL_CALLS, ROWS_READ, EXTERNAL_EMAILS, WALL_CLOCK_S]"

fun dimension_value :: "budget_dimension \<Rightarrow> string" where
  "dimension_value SPEND_BDT = ''spend_bdt''"
| "dimension_value TOOL_CALLS = ''tool_calls''"
| "dimension_value ROWS_READ = ''rows_read''"
| "dimension_value EXTERNAL_EMAILS = ''external_emails''"
| "dimension_value WALL_CLOCK_S = ''wall_clock_s''"

datatype caveat_kind =
    SCOPE_SUBSET | BUDGET_CEILING | TIME_WINDOW | TOOL_ALLOW | TOOL_DENY | ARG_PREDICATE
  | DEPTH_LIMIT | INTENT_BOUND | REQUIRES_APPROVAL

datatype arg_operator = LE | LT | GE | GT | EQ | NE | IN | NOT_IN

definition membership_operator :: "arg_operator \<Rightarrow> bool" where
  "membership_operator op = (op = IN \<or> op = NOT_IN)"

datatype outcome = ALLOW | DENY | ESCALATE | ALLOW_WITH_FLAG

datatype lease_state = ACTIVE | RELEASED | EXPIRED | REVOKED

datatype drift_mode = DRIFT_OFF | DRIFT_LOG_ONLY | DRIFT_STRICT

section \<open>Budget\<close>

text \<open>
  \<open>Money\<close> is \<open>NUMERIC(20,4)\<close>: not negative, four decimal places, twenty digits of which
  sixteen may stand before the point.
\<close>

definition money :: "decimal \<Rightarrow> bool" where
  "money v = (0 \<le> v \<and> whole (v * 10000) \<and> v < 10 ^ 16)"

definition to_scaled :: "decimal \<Rightarrow> int py" where
  "to_scaled v =
     (let scaled = v * of_int BUDGET_SCALE in
      if \<not> whole scaled then Inl ScaleError else Inr \<lfloor>scaled\<rfloor>)"

record budget =
  spend_bdt :: decimal
  tool_calls :: int
  rows_read :: int
  external_emails :: int
  wall_clock_s :: int

definition budget_wf :: "budget \<Rightarrow> bool" where
  "budget_wf b =
     (money (spend_bdt b) \<and> 0 \<le> tool_calls b \<and> 0 \<le> rows_read b
      \<and> 0 \<le> external_emails b \<and> 0 \<le> wall_clock_s b)"

definition mk_budget :: "budget \<Rightarrow> budget py" where
  "mk_budget b = (if budget_wf b then Inr b else Inl ValueError)"

fun budget_get :: "budget \<Rightarrow> budget_dimension \<Rightarrow> decimal" where
  "budget_get b SPEND_BDT = spend_bdt b"
| "budget_get b TOOL_CALLS = of_int (tool_calls b)"
| "budget_get b ROWS_READ = of_int (rows_read b)"
| "budget_get b EXTERNAL_EMAILS = of_int (external_emails b)"
| "budget_get b WALL_CLOCK_S = of_int (wall_clock_s b)"

definition budget_scaled :: "budget \<Rightarrow> budget_dimension \<Rightarrow> int py" where
  "budget_scaled b d = to_scaled (budget_get b d)"

text \<open>
  \<open>Budget.from_scaled\<close>: a dimension missing from the dict keeps the field's default of zero;
  a count that does not divide evenly is a \<open>ScaleError\<close>, raised before the model validates.
\<close>

definition scaled_count :: "(budget_dimension \<rightharpoonup> int) \<Rightarrow> budget_dimension \<Rightarrow> int py" where
  "scaled_count vals d =
     (case vals d of
        None \<Rightarrow> Inr 0
      | Some s \<Rightarrow>
          (let exact = of_int s / of_int BUDGET_SCALE :: decimal in
           if \<not> whole exact then Inl ScaleError else Inr \<lfloor>exact\<rfloor>))"

definition budget_from_scaled :: "(budget_dimension \<rightharpoonup> int) \<Rightarrow> budget py" where
  "budget_from_scaled vals =
     bindE (scaled_count vals TOOL_CALLS) (\<lambda>tc.
     bindE (scaled_count vals ROWS_READ) (\<lambda>rr.
     bindE (scaled_count vals EXTERNAL_EMAILS) (\<lambda>ee.
     bindE (scaled_count vals WALL_CLOCK_S) (\<lambda>wc.
     mk_budget
       \<lparr>spend_bdt = (case vals SPEND_BDT of None \<Rightarrow> 0
                     | Some s \<Rightarrow> of_int s / of_int BUDGET_SCALE),
        tool_calls = tc, rows_read = rr, external_emails = ee, wall_clock_s = wc\<rparr>))))"

definition budget_covers :: "budget \<Rightarrow> budget \<Rightarrow> bool" where
  "budget_covers b other = list_all (\<lambda>d. budget_get b d \<ge> budget_get other d) all_dimensions"

text \<open>A dict comprehension over every dimension whose values may raise.\<close>

definition scaled_dict :: "(budget_dimension \<Rightarrow> int py) \<Rightarrow> (budget_dimension \<rightharpoonup> int) py" where
  "scaled_dict f =
     bindE (traverseE (\<lambda>d. bindE (f d) (\<lambda>v. Inr (d, v))) all_dimensions) (\<lambda>kvs. Inr (map_of kvs))"

definition budget_min :: "budget \<Rightarrow> budget \<Rightarrow> budget py" where
  "budget_min b other =
     bindE (scaled_dict (\<lambda>d.
        bindE (budget_scaled b d) (\<lambda>x. bindE (budget_scaled other d) (\<lambda>y. Inr (min x y)))))
       budget_from_scaled"

section \<open>Mandate\<close>

record mandate =
  mandate_id :: uuid
  md_task_id :: uuid
  md_principal_id :: string
  md_intent_hash :: string
  md_scopes :: "string set"
  md_budget :: budget
  md_max_depth :: int
  md_not_before :: instant
  md_expires_at :: instant

text \<open>The instant of a datetime the \<open>_aware\<close> validators accept.\<close>

fun aware :: "datetime \<Rightarrow> instant py" where
  "aware (Aware t) = Inr t"
| "aware (Naive t) = Inl ValueError"

text \<open>A \<open>UUID\<close> is a 128-bit number.\<close>

definition uuid_ok :: "uuid \<Rightarrow> bool" where
  "uuid_ok u = (u < 2 ^ 128)"

definition mandate_wf :: "mandate \<Rightarrow> bool" where
  "mandate_wf m =
     (uuid_ok (mandate_id m) \<and> uuid_ok (md_task_id m)
      \<and> label_ok (md_principal_id m) \<and> hex64_re (md_intent_hash m)
      \<and> (\<forall>s \<in> md_scopes m. scope_re s) \<and> budget_wf (md_budget m)
      \<and> 1 \<le> md_max_depth m \<and> md_max_depth m \<le> MAX_DELEGATION_DEPTH
      \<and> md_not_before m < md_expires_at m)"

definition mk_mandate ::
  "uuid \<Rightarrow> uuid \<Rightarrow> string \<Rightarrow> string \<Rightarrow> string set \<Rightarrow> budget \<Rightarrow> int \<Rightarrow> datetime \<Rightarrow> datetime \<Rightarrow> mandate py"
  where
  "mk_mandate mid tid pid ihash scopes b depth nbf expiry =
     bindE (aware nbf) (\<lambda>nb. bindE (aware expiry) (\<lambda>ex.
       (let m = \<lparr>mandate_id = mid, md_task_id = tid, md_principal_id = pid,
                 md_intent_hash = ihash, md_scopes = scopes, md_budget = b,
                 md_max_depth = depth, md_not_before = nb, md_expires_at = ex\<rparr>
        in if mandate_wf m then Inr m else Inl ValueError)))"

section \<open>Caveats\<close>

datatype arg_value = VNum decimal | VStr string

datatype pred_value = PScalar arg_value | PSet "string set"

datatype caveat =
    ScopeSubset "string set"
  | BudgetCeiling budget_dimension decimal
  | TimeWindow "instant option" "instant option"
  | ToolAllow "string set"
  | ToolDeny "string set"
  | ArgPredicate string arg_operator pred_value
  | DepthLimit int
  | IntentBound string
  | RequiresApproval "string set"

fun caveat_kind_of :: "caveat \<Rightarrow> caveat_kind" where
  "caveat_kind_of (ScopeSubset _) = SCOPE_SUBSET"
| "caveat_kind_of (BudgetCeiling _ _) = BUDGET_CEILING"
| "caveat_kind_of (TimeWindow _ _) = TIME_WINDOW"
| "caveat_kind_of (ToolAllow _) = TOOL_ALLOW"
| "caveat_kind_of (ToolDeny _) = TOOL_DENY"
| "caveat_kind_of (ArgPredicate _ _ _) = ARG_PREDICATE"
| "caveat_kind_of (DepthLimit _) = DEPTH_LIMIT"
| "caveat_kind_of (IntentBound _) = INTENT_BOUND"
| "caveat_kind_of (RequiresApproval _) = REQUIRES_APPROVAL"

text \<open>What the constructors of the nine caveat classes accept.\<close>

fun time_window_ok :: "instant option \<Rightarrow> instant option \<Rightarrow> bool" where
  "time_window_ok None None = False"
| "time_window_ok (Some nb) (Some na) = (nb < na)"
| "time_window_ok _ _ = True"

fun pred_value_ok :: "arg_operator \<Rightarrow> pred_value \<Rightarrow> bool" where
  "pred_value_ok op (PSet _) = membership_operator op"
| "pred_value_ok op (PScalar _) = (\<not> membership_operator op)"

fun caveat_wf :: "caveat \<Rightarrow> bool" where
  "caveat_wf (ScopeSubset scopes) = (\<forall>s \<in> scopes. scope_re s)"
| "caveat_wf (BudgetCeiling _ v) = money v"
| "caveat_wf (TimeWindow nb na) = time_window_ok nb na"
| "caveat_wf (ToolAllow _) = True"
| "caveat_wf (ToolDeny _) = True"
| "caveat_wf (ArgPredicate path op v) = (path \<noteq> [] \<and> pred_value_ok op v)"
| "caveat_wf (DepthLimit d) = (0 \<le> d \<and> d \<le> MAX_DELEGATION_DEPTH)"
| "caveat_wf (IntentBound h) = hex64_re h"
| "caveat_wf (RequiresApproval _) = True"

definition mk_caveat :: "caveat \<Rightarrow> caveat py" where
  "mk_caveat c = (if caveat_wf c then Inr c else Inl ValueError)"

record caveat_ref =
  ref_block_index :: nat
  ref_kind :: caveat_kind
  ref_detail :: "string option"

section \<open>Request context\<close>

record request_context =
  operation :: string
  requested :: "budget_dimension \<Rightarrow> decimal"
  current_depth :: int
  request_intent :: string
  now :: instant
  tool :: "string option"
  args :: "arg_value strmap"
  task_intent_text :: "string option"
  action_intent_text :: "string option"
  drift_mode_of :: drift_mode

text \<open>
  The constructor of \<open>RequestContext\<close>: \<open>requested\<close> is a dict, and the model validator refuses
  one that misses a dimension, so the validated context carries a total function.
\<close>

definition request_context_wf :: "request_context \<Rightarrow> bool" where
  "request_context_wf ctx =
     (list_all (\<lambda>d. money (requested ctx d)) all_dimensions \<and> 0 \<le> current_depth ctx
      \<and> distinct (map fst (args ctx)))"

definition mk_requested :: "(budget_dimension \<rightharpoonup> decimal) \<Rightarrow> (budget_dimension \<Rightarrow> decimal) py" where
  "mk_requested m =
     (if list_all (\<lambda>d. case m d of None \<Rightarrow> False | Some v \<Rightarrow> money v) all_dimensions
      then Inr (\<lambda>d. case m d of None \<Rightarrow> 0 | Some v \<Rightarrow> v)
      else Inl ValueError)"

section \<open>Decision record\<close>

record recorded_authority =
  ra_scopes :: "string list option"
  ra_ceilings :: "budget_dimension \<rightharpoonup> decimal"
  ra_not_after :: "instant option"
  ra_max_depth :: "int option"

record decision_record =
  decision_id :: uuid
  trace_id :: string
  timestamp :: instant
  pep_id :: string
  token_chain_ids :: "string list"
  dr_principal_id :: string
  dr_task_id :: uuid
  dr_agent_id :: string
  dr_role :: string
  dr_depth :: int
  dr_scope :: string
  dr_tool_id :: string
  arg_digest :: string
  dr_outcome :: outcome
  dr_reason_code :: reason_code
  dr_reason_detail :: string
  dr_failing_caveat :: "caveat_ref option"
  dr_policy_version :: string
  budget_before :: budget
  budget_after :: budget
  dr_reservation_id :: "uuid option"
  dr_drift_score :: "decimal option"
  dr_drift_features :: "decimal strmap option"
  latency_us :: int
  elevated_by :: "string option"
  authority :: "recorded_authority option"

definition outcome_matches_reason :: "outcome \<Rightarrow> reason_code \<Rightarrow> bool" where
  "outcome_matches_reason oc rc =
     (\<not> (oc = ALLOW \<and> rc \<noteq> OK) \<and> \<not> (oc \<noteq> ALLOW \<and> rc = OK))"

definition decision_record_wf :: "decision_record \<Rightarrow> bool" where
  "decision_record_wf r =
     (trace_id r \<noteq> [] \<and> pep_id r \<noteq> [] \<and> dr_principal_id r \<noteq> [] \<and> dr_agent_id r \<noteq> []
      \<and> 0 \<le> dr_depth r \<and> hex64_re (arg_digest r) \<and> budget_wf (budget_before r)
      \<and> budget_wf (budget_after r) \<and> 0 \<le> latency_us r
      \<and> outcome_matches_reason (dr_outcome r) (dr_reason_code r))"

definition mk_decision_record :: "decision_record \<Rightarrow> decision_record py" where
  "mk_decision_record r = (if decision_record_wf r then Inr r else Inl ValueError)"

section \<open>Lemmas\<close>

lemma all_dimensions_complete [simp]: "set all_dimensions = UNIV"
proof -
  have "d \<in> set all_dimensions" for d by (cases d) (simp_all add: all_dimensions_def)
  then show ?thesis by blast
qed

lemma distinct_all_dimensions [simp]: "distinct all_dimensions"
  by (simp add: all_dimensions_def)

lemma list_all_dimensions [simp]: "list_all P all_dimensions \<longleftrightarrow> (\<forall>d. P d)"
  by (simp add: list_all_iff)

text \<open>The dimensions are enumerable, so a quantifier over them evaluates.\<close>

instantiation budget_dimension :: enum
begin

definition enum_budget_dimension :: "budget_dimension list" where
  "enum_budget_dimension = all_dimensions"

definition enum_all_budget_dimension :: "(budget_dimension \<Rightarrow> bool) \<Rightarrow> bool" where
  "enum_all_budget_dimension P = list_all P all_dimensions"

definition enum_ex_budget_dimension :: "(budget_dimension \<Rightarrow> bool) \<Rightarrow> bool" where
  "enum_ex_budget_dimension P = list_ex P all_dimensions"

instance
  by standard
    (simp_all add: enum_budget_dimension_def enum_all_budget_dimension_def enum_ex_budget_dimension_def list_ex_iff)

end

lemma dimension_value_inj: "dimension_value d = dimension_value d' \<longleftrightarrow> d = d'"
  by (cases d; cases d') simp_all

lemmas budget_defs [wf_simps] = budget_wf_def money_def

lemma budget_get_ge0: "budget_wf b \<Longrightarrow> 0 \<le> budget_get b d"
  by (cases d) (simp_all add: wf_simps)

lemma budget_get_scales: "budget_wf b \<Longrightarrow> whole (budget_get b d * 10000)"
  by (cases d) (simp_all add: wf_simps)

lemma to_scaled_ok: "whole (v * 10000) \<Longrightarrow> to_scaled v = Inr \<lfloor>v * 10000\<rfloor>"
  by (simp add: to_scaled_def BUDGET_SCALE_def)

lemma to_scaled_Inr_iff: "to_scaled v = Inr n \<longleftrightarrow> v * 10000 = of_int n"
  by (auto simp: to_scaled_def BUDGET_SCALE_def whole_def Let_def)

lemma budget_scaled_ok:
  "budget_wf b \<Longrightarrow> budget_scaled b d = Inr \<lfloor>budget_get b d * 10000\<rfloor>"
  by (simp add: budget_scaled_def to_scaled_ok budget_get_scales)

lemma map_of_dimensions: "map_of (map (\<lambda>d. (d, g d)) all_dimensions) = (\<lambda>d. Some (g d))"
proof
  fix d show "map_of (map (\<lambda>d. (d, g d)) all_dimensions) d = Some (g d)"
    by (cases d) (simp_all add: all_dimensions_def)
qed

lemma scaled_dict_ok: "(\<And>d. f d = Inr (g d)) \<Longrightarrow> scaled_dict f = Inr (\<lambda>d. Some (g d))"
proof -
  assume f: "\<And>d. f d = Inr (g d)"
  have "traverseE (\<lambda>d. bindE (f d) (\<lambda>v. Inr (d, v))) xs = Inr (map (\<lambda>d. (d, g d)) xs)" for xs
    by (induction xs) (simp_all add: f)
  then show ?thesis by (simp add: scaled_dict_def map_of_dimensions)
qed

lemma scaled_count_of_int:
  "vals d = Some (n * 10000) \<Longrightarrow> scaled_count vals d = Inr n"
  by (simp add: scaled_count_def BUDGET_SCALE_def)

lemma floor_of_int_mult [simp]: "\<lfloor>of_int n * 10000 :: decimal\<rfloor> = n * 10000"
  using floor_of_int[where 'a = decimal, of "n * 10000"] by simp

lemma money_unscale: "money v \<Longrightarrow> of_int \<lfloor>v * 10000\<rfloor> / 10000 = v"
  by (auto simp: money_def whole_def)

lemma budget_from_scaled_ok:
  assumes wf: "budget_wf b" and vals: "\<And>d. vals d = Some \<lfloor>budget_get b d * 10000\<rfloor>"
  shows "budget_from_scaled vals = Inr b"
proof -
  have "money (spend_bdt b)" using wf by (simp add: budget_wf_def)
  then have spend: "of_int \<lfloor>spend_bdt b * 10000\<rfloor> / 10000 = spend_bdt b"
    by (rule money_unscale)
  have counts: "scaled_count vals TOOL_CALLS = Inr (tool_calls b)"
    "scaled_count vals ROWS_READ = Inr (rows_read b)"
    "scaled_count vals EXTERNAL_EMAILS = Inr (external_emails b)"
    "scaled_count vals WALL_CLOCK_S = Inr (wall_clock_s b)"
    by (rule scaled_count_of_int, simp add: vals)+
  show ?thesis
    using wf by (simp add: budget_from_scaled_def counts vals spend BUDGET_SCALE_def mk_budget_def
        budget_wf_def)
qed

text \<open>The pointwise minimum of two budgets, the record \<open>Budget.min\<close> has to build.\<close>

lemma budget_min_spec:
  assumes a: "budget_wf a" and b: "budget_wf b"
  obtains m where "budget_min a b = Inr m" "budget_wf m"
    "\<And>d. budget_get m d = min (budget_get a d) (budget_get b d)"
proof -
  define m where "m = \<lparr>spend_bdt = min (spend_bdt a) (spend_bdt b),
    tool_calls = min (tool_calls a) (tool_calls b), rows_read = min (rows_read a) (rows_read b),
    external_emails = min (external_emails a) (external_emails b),
    wall_clock_s = min (wall_clock_s a) (wall_clock_s b)\<rparr>"
  have wf: "budget_wf m" using a b by (simp add: m_def wf_simps min_def)
  have get: "budget_get m d = min (budget_get a d) (budget_get b d)" for d
    by (cases d) (simp_all add: m_def of_int_min)
  have floor_min: "min \<lfloor>x * 10000\<rfloor> \<lfloor>y * 10000\<rfloor> = \<lfloor>min x y * 10000\<rfloor>" for x y :: decimal
    by (cases "x \<le> y") (simp_all add: min_def floor_mono antisym)
  have "scaled_dict (\<lambda>d. bindE (budget_scaled a d) (\<lambda>x. bindE (budget_scaled b d) (\<lambda>y. Inr (min x y))))
      = Inr (\<lambda>d. Some \<lfloor>budget_get m d * 10000\<rfloor>)"
    by (rule scaled_dict_ok) (simp add: budget_scaled_ok a b get floor_min)
  then have "budget_min a b = Inr m"
    by (simp add: budget_min_def budget_from_scaled_ok[OF wf])
  then show ?thesis using wf get that by blast
qed

lemma budget_covers_iff: "budget_covers a b \<longleftrightarrow> (\<forall>d. budget_get b d \<le> budget_get a d)"
  by (simp add: budget_covers_def)

section \<open>Properties\<close>

text \<open>
  Scaling a validated budget into token units and rebuilding it gives the same budget:
  \<open>Budget.scaled\<close> never raises on a constructed budget and \<open>Budget.from_scaled\<close> inverts it, so
  no allowance is rounded on its way into or out of a token.
\<close>
theorem budget_scaled_roundtrip:
  assumes "mk_budget b = Inr b'"
  shows "bindE (scaled_dict (budget_scaled b)) budget_from_scaled = Inr b \<and> b' = b"
proof -
  from assms have wf: "budget_wf b" and eq: "b' = b" by (auto simp: mk_budget_def split: if_splits)
  have "scaled_dict (budget_scaled b) = Inr (\<lambda>d. Some \<lfloor>budget_get b d * 10000\<rfloor>)"
    by (rule scaled_dict_ok) (rule budget_scaled_ok[OF wf])
  then show ?thesis by (simp add: budget_from_scaled_ok[OF wf] eq)
qed

text \<open>
  On validated budgets \<open>Budget.min\<close> returns, never raises, and is the greatest lower
  bound of the order \<open>covers\<close> decides: both arguments cover it, and every budget both
  arguments cover is covered by it.
\<close>
theorem budget_min_glb:
  assumes a: "budget_wf a" and b: "budget_wf b"
  shows "\<exists>m. budget_min a b = Inr m \<and> budget_wf m \<and> budget_covers a m \<and> budget_covers b m
           \<and> (\<forall>c. budget_covers a c \<and> budget_covers b c \<longrightarrow> budget_covers m c)"
  using budget_min_spec[OF a b] by (metis budget_covers_iff min.bounded_iff min.cobounded1 min.cobounded2)

section \<open>Witnesses\<close>

abbreviation demo_budget :: budget where
  "demo_budget \<equiv> \<lparr>spend_bdt = 5/2, tool_calls = 3, rows_read = 40, external_emails = 0,
                  wall_clock_s = 60\<rparr>"

abbreviation small_budget :: budget where
  "small_budget \<equiv> \<lparr>spend_bdt = 1/4, tool_calls = 9, rows_read = 0, external_emails = 2,
                   wall_clock_s = 10\<rparr>"

lemma demo_budget_ok: "mk_budget demo_budget = Inr demo_budget"
  by code_simp

lemma budgets_wf: "budget_wf demo_budget" "budget_wf small_budget"
  by code_simp+

theorem budget_scaled_roundtrip_witness:
  "mk_budget demo_budget = Inr demo_budget \<and>
   bindE (scaled_dict (budget_scaled demo_budget)) budget_from_scaled = Inr demo_budget"
  using budget_scaled_roundtrip[OF demo_budget_ok] demo_budget_ok by blast

theorem budget_min_glb_witness:
  "\<exists>m. budget_min demo_budget small_budget = Inr m \<and> budget_covers demo_budget m
      \<and> budget_covers small_budget m \<and> \<not> budget_covers small_budget demo_budget"
proof -
  have "\<not> budget_covers small_budget demo_budget" by code_simp
  then show ?thesis using budget_min_glb[OF budgets_wf] by blast
qed

end
