(* ===== verification/Caveats.thy ===== *)
theory Caveats
  imports Models
begin

text \<open>
  The caveat language of \<open>agentiam_core/caveats.py\<close>: compilation to biscuit Datalog
  (\<open>to_datalog\<close>, \<open>request_context_datalog\<close>, \<open>block_datalog\<close>) and evaluation in Python
  (\<open>evaluate\<close>).

  A compiled statement is kept as its syntax tree, one constructor field per hole of the
  f-string that prints it.  The Datalog engine is a separate package: it is the parameter
  \<open>passes\<close> of the locale \<open>datalog_engine\<close>, whose laws are the documented meaning of
  \<open>check if\<close> (some fact matches) and \<open>reject if\<close> (none does).  The agreement of the two
  readings of a caveat is proved once inside the locale; \<open>clause_holds\<close> is the reference
  engine it is interpreted on.  \<open>scale\<close> multiplies exactly, where Python's context keeps 28 digits,
  and a \<open>TInt\<close> is unbounded, where a term of biscuit is a signed 64-bit integer.
\<close>

section \<open>Terms and statements\<close>

datatype dl_term = TStr string | TInt int | TDate int | TSet "string set"

datatype dl_cmp = CLe | CLt | CGe | CGt | CEq | CNe

datatype dl_guard =
    GContains "string set"
  | GNotContains "string set"
  | GCmp dl_cmp dl_term

text \<open>
  \<open>CheckIf p ts g\<close> is \<open>check if p(ts, $v), g($v);\<close>, \<open>RejectIf\<close> the same with \<open>reject if\<close>;
  \<open>CheckJoin p q\<close> is \<open>check if p($x), q($x);\<close> and \<open>Fact p ts\<close> is \<open>p(ts);\<close>.
\<close>

datatype dl_stmt =
    Fact string "dl_term list"
  | CheckIf string "dl_term list" dl_guard
  | CheckJoin string string
  | RejectIf string "dl_term list" dl_guard

section \<open>Rendering primitives\<close>

fun replace_char :: "char \<Rightarrow> string \<Rightarrow> string \<Rightarrow> string" where
  "replace_char c r [] = []"
| "replace_char c r (x # xs) = (if x = c then r @ replace_char c r xs else x # replace_char c r xs)"

abbreviation quote_char :: char where "quote_char \<equiv> CHR 0x22"
abbreviation backslash :: char where "backslash \<equiv> CHR 0x5C"

definition quote_string :: "string \<Rightarrow> string" where
  "quote_string v =
     (let escaped = replace_char quote_char [backslash, quote_char]
                      (replace_char backslash [backslash, backslash] v)
      in [quote_char] @ escaped @ [quote_char])"

text \<open>\<open>strftime("%Y-%m-%dT%H:%M:%SZ")\<close> drops the microseconds: the term is a whole second.\<close>

definition datalog_date :: "instant \<Rightarrow> dl_term" where
  "datalog_date t = TDate (t div 1000000)"

definition scale :: "decimal \<Rightarrow> int py" where
  "scale v =
     (let scaled = v * of_int BUDGET_SCALE in
      if \<not> whole scaled then Inl CaveatError else Inr \<lfloor>scaled\<rfloor>)"

fun dl_term_of :: "arg_value \<Rightarrow> dl_term py" where
  "dl_term_of (VStr s) = Inr (TStr s)"
| "dl_term_of (VNum v) = bindE (scale v) (\<lambda>n. Inr (TInt n))"

text \<open>\<open>_NEGATED\<close>; the membership operators are not keys of the table.\<close>

fun negated :: "arg_operator \<Rightarrow> dl_cmp py" where
  "negated LE = Inr CGt"
| "negated LT = Inr CGe"
| "negated GE = Inr CLt"
| "negated GT = Inr CLe"
| "negated EQ = Inr CNe"
| "negated NE = Inr CEq"
| "negated IN = Inl KeyError"
| "negated NOT_IN = Inl KeyError"

section \<open>Compilation\<close>

definition string_facts :: "string \<Rightarrow> string set \<Rightarrow> dl_stmt list" where
  "string_facts p S = map (\<lambda>s. Fact p [TStr s]) (sorted_list_of_set S)"

text \<open>
  A membership operator always carries a set and a comparison a scalar (the validator of
  \<open>ArgPredicate\<close>), which is what makes the source's casts no-ops; \<open>CaveatError\<close> stands for the
  cast that would be wrong.
\<close>

fun arg_predicate_datalog :: "string \<Rightarrow> arg_operator \<Rightarrow> pred_value \<Rightarrow> (dl_stmt list) py" where
  "arg_predicate_datalog path IN (PSet S) = Inr [RejectIf ''arg'' [TStr path] (GNotContains S)]"
| "arg_predicate_datalog path NOT_IN (PSet S) = Inr [RejectIf ''arg'' [TStr path] (GContains S)]"
| "arg_predicate_datalog path op (PScalar v) =
     bindE (negated op) (\<lambda>neg. bindE (dl_term_of v) (\<lambda>t.
       Inr [RejectIf ''arg'' [TStr path] (GCmp neg t)]))"
| "arg_predicate_datalog path op (PSet S) = Inl CaveatError"

fun to_datalog :: "caveat \<Rightarrow> (dl_stmt list) py" where
  "to_datalog (ScopeSubset scopes) = Inr [CheckIf ''operation'' [] (GContains scopes)]"
| "to_datalog (BudgetCeiling d v) =
     bindE (scale v) (\<lambda>n.
       Inr [CheckIf ''requested'' [TStr (dimension_value d)] (GCmp CLe (TInt n))])"
| "to_datalog (TimeWindow nb na) =
     Inr ((case nb of None \<Rightarrow> []
           | Some t \<Rightarrow> [CheckIf ''time'' [] (GCmp CGe (datalog_date t))]) @
          (case na of None \<Rightarrow> []
           | Some t \<Rightarrow> [CheckIf ''time'' [] (GCmp CLt (datalog_date t))]))"
| "to_datalog (ToolAllow tools) = Inr [CheckIf ''tool'' [] (GContains tools)]"
| "to_datalog (ToolDeny tools) = Inr [RejectIf ''tool'' [] (GContains tools)]"
| "to_datalog (ArgPredicate path op v) = arg_predicate_datalog path op v"
| "to_datalog (DepthLimit d) = Inr [CheckIf ''current_depth'' [] (GCmp CLe (TInt d))]"
| "to_datalog (IntentBound h) = Inr [CheckIf ''request_intent'' [] (GCmp CEq (TStr h))]"
| "to_datalog (RequiresApproval scopes) = Inr (string_facts ''requires_approval'' scopes)"

text \<open>
  The facts the verifier supplies: four that are always there, one per budget dimension, the
  tool when there is one, and one per argument in path order.
\<close>

definition request_context_datalog :: "request_context \<Rightarrow> (dl_stmt list) py" where
  "request_context_datalog ctx =
     (let lines = [Fact ''operation'' [TStr (operation ctx)],
                   Fact ''current_depth'' [TInt (current_depth ctx)],
                   Fact ''request_intent'' [TStr (request_intent ctx)],
                   Fact ''time'' [datalog_date (now ctx)]]
      in bindE (traverseE (\<lambda>d. bindE (scale (requested ctx d))
                  (\<lambda>n. Inr (Fact ''requested'' [TStr (dimension_value d), TInt n]))) all_dimensions)
           (\<lambda>reqs.
         bindE (traverseE (\<lambda>(path, v). bindE (dl_term_of v) (\<lambda>t. Inr (Fact ''arg'' [TStr path, t])))
                  (sort_key fst (args ctx))) (\<lambda>as.
         Inr (lines @ reqs
              @ (case tool ctx of None \<Rightarrow> [] | Some t \<Rightarrow> [Fact ''tool'' [TStr t]])
              @ as))))"

definition block_datalog :: "caveat list \<Rightarrow> (dl_stmt list) py" where
  "block_datalog cs = bindE (traverseE to_datalog cs) (\<lambda>bs. Inr (concat bs))"

section \<open>Evaluation\<close>

record caveat_result =
  res_outcome :: outcome
  res_reason :: reason_code

definition allow_result :: caveat_result where
  "allow_result = \<lparr>res_outcome = ALLOW, res_reason = OK\<rparr>"

definition deny_result :: "reason_code \<Rightarrow> caveat_result" where
  "deny_result rc = \<lparr>res_outcome = DENY, res_reason = rc\<rparr>"

definition escalate_result :: caveat_result where
  "escalate_result = \<lparr>res_outcome = ESCALATE, res_reason = APPROVAL_REQUIRED\<rparr>"

text \<open>
  \<open>Decimal(str(x))\<close>.  A number survives the trip exactly.  A string is read by the grammar
  of the \<open>decimal\<close> module (surrounding white space stripped, underscores dropped): an optional
  sign, then digits with an optional point and exponent, or an infinity, or a NaN; anything
  else is \<open>InvalidOperation\<close>.  The ordering operators order infinities and raise
  \<open>InvalidOperation\<close> on a NaN.
\<close>

datatype dec = NegInf | Fin decimal | PosInf | NaN

definition space_char :: "char \<Rightarrow> bool" where
  "space_char c =
     (let n = of_char c :: nat in (9 \<le> n \<and> n \<le> 13) \<or> (28 \<le> n \<and> n \<le> 32) \<or> n = 0x85 \<or> n = 0xA0)"

definition strip :: "string \<Rightarrow> string" where
  "strip s = rev (dropWhile space_char (rev (dropWhile space_char s)))"

definition digits_value :: "string \<Rightarrow> int" where
  "digits_value ds = foldl (\<lambda>n c. 10 * n + (of_char c - 48)) 0 ds"

fun split_sign :: "string \<Rightarrow> bool \<times> string" where
  "split_sign (c # cs) = (if c = CHR ''-'' then (True, cs)
                          else if c = CHR ''+'' then (False, cs) else (False, c # cs))"
| "split_sign [] = (False, [])"

definition lower_case :: "string \<Rightarrow> string" where
  "lower_case s = map (\<lambda>c. if CHR ''A'' \<le> c \<and> c \<le> CHR ''Z'' then char_of (of_char c + (32 :: nat)) else c) s"

definition power10 :: "int \<Rightarrow> decimal" where
  "power10 e = (if 0 \<le> e then 10 ^ nat e else 1 / 10 ^ nat (- e))"

text \<open>The exponent part: absent, or \<open>e\<close>, a sign and at least one digit, to the end.\<close>

fun parse_exponent :: "string \<Rightarrow> int option" where
  "parse_exponent [] = Some 0"
| "parse_exponent (c # cs) =
     (if c = CHR ''e''
      then (let (neg, ds) = split_sign cs in
            if ds \<noteq> [] \<and> list_all digit_char ds
            then Some (if neg then - digits_value ds else digits_value ds) else None)
      else None)"

definition parse_unsigned :: "string \<Rightarrow> decimal option" where
  "parse_unsigned s =
     (let whole_part = takeWhile digit_char s;
          rest = dropWhile digit_char s;
          dotted = (rest \<noteq> [] \<and> hd rest = CHR ''.'');
          frac = (if dotted then takeWhile digit_char (tl rest) else []);
          rest' = (if dotted then dropWhile digit_char (tl rest) else rest)
      in if whole_part = [] \<and> frac = [] then None
         else map_option (\<lambda>e. of_int (digits_value (whole_part @ frac))
                              * power10 (e - int (length frac))) (parse_exponent rest'))"

definition is_nan_text :: "string \<Rightarrow> bool" where
  "is_nan_text s =
     ((take 3 s = ''nan'' \<and> list_all digit_char (drop 3 s))
      \<or> (take 4 s = ''snan'' \<and> list_all digit_char (drop 4 s)))"

definition decimal_of_string :: "string \<Rightarrow> dec py" where
  "decimal_of_string str =
     (let s = lower_case (filter (\<lambda>c. c \<noteq> CHR ''_'') (strip str));
          (neg, u) = split_sign s
      in if u = ''inf'' \<or> u = ''infinity'' then Inr (if neg then NegInf else PosInf)
         else if is_nan_text u then Inr NaN
         else (case parse_unsigned u of
                 Some d \<Rightarrow> Inr (Fin (if neg then - d else d))
               | None \<Rightarrow> Inl InvalidOperation))"

fun decimal_of :: "arg_value \<Rightarrow> dec py" where
  "decimal_of (VNum d) = Inr (Fin d)"
| "decimal_of (VStr s) = decimal_of_string s"

fun dec_le :: "dec \<Rightarrow> dec \<Rightarrow> bool py" where
  "dec_le NaN _ = Inl InvalidOperation"
| "dec_le _ NaN = Inl InvalidOperation"
| "dec_le NegInf _ = Inr True"
| "dec_le _ PosInf = Inr True"
| "dec_le (Fin x) (Fin y) = Inr (x \<le> y)"
| "dec_le _ _ = Inr False"

definition dec_lt :: "dec \<Rightarrow> dec \<Rightarrow> bool py" where
  "dec_lt x y = bindE (dec_le y x) (\<lambda>b. Inr (\<not> b))"

fun compare :: "arg_value \<Rightarrow> arg_operator \<Rightarrow> arg_value \<Rightarrow> bool py" where
  "compare l EQ r = Inr (l = r)"
| "compare l NE r = Inr (l \<noteq> r)"
| "compare l op r =
     bindE (decimal_of l) (\<lambda>lhs. bindE (decimal_of r) (\<lambda>rhs.
       (case op of LE \<Rightarrow> dec_le lhs rhs
        | LT \<Rightarrow> dec_lt lhs rhs
        | GE \<Rightarrow> dec_le rhs lhs
        | GT \<Rightarrow> dec_lt rhs lhs
        | _ \<Rightarrow> Inl CaveatError)))"

fun member_of :: "arg_value \<Rightarrow> string set \<Rightarrow> bool" where
  "member_of (VStr s) S = (s \<in> S)"
| "member_of (VNum _) S = False"

fun arg_satisfied :: "arg_value \<Rightarrow> arg_operator \<Rightarrow> pred_value \<Rightarrow> bool py" where
  "arg_satisfied actual IN (PSet S) = Inr (member_of actual S)"
| "arg_satisfied actual NOT_IN (PSet S) = Inr (\<not> member_of actual S)"
| "arg_satisfied actual op (PScalar v) = compare actual op v"
| "arg_satisfied actual op (PSet S) = Inl CaveatError"

fun evaluate :: "caveat \<Rightarrow> request_context \<Rightarrow> caveat_result py" where
  "evaluate (ScopeSubset scopes) ctx =
     Inr (if operation ctx \<in> scopes then allow_result else deny_result SCOPE_ATTENUATED_AWAY)"
| "evaluate (BudgetCeiling d v) ctx =
     Inr (if requested ctx d \<le> v then allow_result else deny_result BUDGET_EXHAUSTED_CAVEAT)"
| "evaluate (TimeWindow nb na) ctx =
     Inr (if nb \<noteq> None \<and> now ctx < the nb then deny_result TOKEN_NOT_YET_VALID
          else if na \<noteq> None \<and> now ctx \<ge> the na then deny_result TOKEN_EXPIRED
          else allow_result)"
| "evaluate (ToolAllow tools) ctx =
     Inr (case tool ctx of
            Some t \<Rightarrow> (if t \<in> tools then allow_result else deny_result TOOL_DENIED)
          | None \<Rightarrow> deny_result TOOL_DENIED)"
| "evaluate (ToolDeny tools) ctx =
     Inr (case tool ctx of
            None \<Rightarrow> allow_result
          | Some t \<Rightarrow> (if t \<notin> tools then allow_result else deny_result TOOL_DENIED))"
| "evaluate (ArgPredicate path op v) ctx =
     (case map_of (args ctx) path of
        None \<Rightarrow> Inr allow_result
      | Some actual \<Rightarrow>
          bindE (arg_satisfied actual op v) (\<lambda>ok.
            Inr (if ok then allow_result else deny_result ARG_PREDICATE_FAILED)))"
| "evaluate (DepthLimit d) ctx =
     Inr (if current_depth ctx \<le> d then allow_result else deny_result DEPTH_EXCEEDED)"
| "evaluate (IntentBound h) ctx =
     Inr (if request_intent ctx = h then allow_result else deny_result INTENT_MISMATCH)"
| "evaluate (RequiresApproval scopes) ctx =
     Inr (if operation ctx \<in> scopes then escalate_result else allow_result)"

section \<open>The reference reading of a clause\<close>

text \<open>
  A guard on a term of the type it is written for.  On any other type biscuit's behaviour
  depends on its version, so the value is \<open>None\<close> and the engine's laws say nothing.
\<close>

fun cmp_int :: "dl_cmp \<Rightarrow> int \<Rightarrow> int \<Rightarrow> bool" where
  "cmp_int CLe a b = (a \<le> b)"
| "cmp_int CLt a b = (a < b)"
| "cmp_int CGe a b = (a \<ge> b)"
| "cmp_int CGt a b = (a > b)"
| "cmp_int CEq a b = (a = b)"
| "cmp_int CNe a b = (a \<noteq> b)"

fun guard_holds :: "dl_guard \<Rightarrow> dl_term \<Rightarrow> bool option" where
  "guard_holds (GContains S) (TStr s) = Some (s \<in> S)"
| "guard_holds (GNotContains S) (TStr s) = Some (s \<notin> S)"
| "guard_holds (GCmp c (TInt b)) (TInt a) = Some (cmp_int c a b)"
| "guard_holds (GCmp c (TDate b)) (TDate a) = Some (cmp_int c a b)"
| "guard_holds (GCmp CEq (TStr b)) (TStr a) = Some (a = b)"
| "guard_holds (GCmp CNe (TStr b)) (TStr a) = Some (a \<noteq> b)"
| "guard_holds _ _ = None"

fun fact_arg :: "string \<Rightarrow> dl_term list \<Rightarrow> dl_stmt \<Rightarrow> dl_term option" where
  "fact_arg p ts (Fact q us) =
     (if q = p \<and> us \<noteq> [] \<and> butlast us = ts then Some (last us) else None)"
| "fact_arg p ts _ = None"

definition matching :: "dl_stmt list \<Rightarrow> string \<Rightarrow> dl_term list \<Rightarrow> dl_term list" where
  "matching F p ts = List.map_filter (fact_arg p ts) F"

fun clause_holds :: "dl_stmt list \<Rightarrow> dl_stmt \<Rightarrow> bool" where
  "clause_holds F (Fact _ _) = True"
| "clause_holds F (CheckIf p ts g) = list_ex (\<lambda>t. guard_holds g t = Some True) (matching F p ts)"
| "clause_holds F (CheckJoin p q) = list_ex (\<lambda>t. t \<in> set (matching F q [])) (matching F p [])"
| "clause_holds F (RejectIf p ts g) = (\<not> list_ex (\<lambda>t. guard_holds g t = Some True) (matching F p ts))"

text \<open>The inputs on which an argument and its predicate have the same type.\<close>

fun arg_comparable :: "arg_value \<Rightarrow> arg_operator \<Rightarrow> pred_value \<Rightarrow> bool" where
  "arg_comparable (VStr _) op (PSet _) = membership_operator op"
| "arg_comparable (VNum _) op (PScalar (VNum _)) = (\<not> membership_operator op)"
| "arg_comparable (VStr _) op (PScalar (VStr _)) = (op = EQ \<or> op = NE)"
| "arg_comparable _ _ _ = False"

fun caveat_comparable :: "caveat \<Rightarrow> request_context \<Rightarrow> bool" where
  "caveat_comparable (ArgPredicate path op v) ctx =
     (case map_of (args ctx) path of None \<Rightarrow> True | Some a \<Rightarrow> arg_comparable a op v)"
| "caveat_comparable _ ctx = True"

fun whole_second_bounds :: "caveat \<Rightarrow> bool" where
  "whole_second_bounds (TimeWindow nb na) =
     (within_opt (\<lambda>t. t mod 1000000 = 0) nb \<and> within_opt (\<lambda>t. t mod 1000000 = 0) na)"
| "whole_second_bounds _ = True"

fun_cases arg_comparable_cases: "arg_comparable a op v"

text \<open>
  Reading a quoted literal back: after the opening quote, a backslash takes the next character
  literally and the first bare quote closes the literal; the rest of the text is returned.
\<close>

fun scan_body :: "string \<Rightarrow> (string \<times> string) option" where
  "scan_body [] = None"
| "scan_body (c # cs) =
     (if c = quote_char then Some ([], cs)
      else if c = backslash
      then (case cs of [] \<Rightarrow> None
            | d # ds \<Rightarrow> map_option (\<lambda>(v, rest). (d # v, rest)) (scan_body ds))
      else map_option (\<lambda>(v, rest). (c # v, rest)) (scan_body cs))"

fun scan_literal :: "string \<Rightarrow> (string \<times> string) option" where
  "scan_literal [] = None"
| "scan_literal (c # cs) = (if c = quote_char then scan_body cs else None)"

section \<open>Lemmas on scaling and on the request facts\<close>

lemmas result_defs [simp] = allow_result_def deny_result_def escalate_result_def

lemma fact_arg_iff: "fact_arg p ts s = Some t \<longleftrightarrow> s = Fact p (ts @ [t])"
proof (cases s)
  case (Fact q us)
  then show ?thesis by (cases us rule: rev_cases) auto
qed simp_all

lemma matching_iff: "t \<in> set (matching F p ts) \<longleftrightarrow> Fact p (ts @ [t]) \<in> set F"
  by (induction F) (auto simp: matching_def map_filter_simps fact_arg_iff split: option.splits)

lemma scale_Inr_iff: "scale v = Inr n \<longleftrightarrow> v * 10000 = of_int n"
  by (auto simp: scale_def BUDGET_SCALE_def whole_def Let_def)

lemma scale_le: "scale a = Inr m \<Longrightarrow> scale b = Inr n \<Longrightarrow> m \<le> n \<longleftrightarrow> a \<le> b"
  unfolding scale_Inr_iff by (metis mult_le_cancel_right_pos of_int_le_iff zero_less_numeral)

lemma scale_eq: "scale a = Inr m \<Longrightarrow> scale b = Inr n \<Longrightarrow> m = n \<longleftrightarrow> a = b"
  by (metis antisym order_refl scale_le)

lemma scale_money: "money v \<Longrightarrow> scale v = Inr \<lfloor>v * 10000\<rfloor>"
  by (simp add: scale_def money_def BUDGET_SCALE_def)

lemma div_second_less: "b mod 1000000 = 0 \<Longrightarrow> (a :: int) div 1000000 < b div 1000000 \<longleftrightarrow> a < b"
  by auto

lemma request_facts_iff:
  assumes F: "request_context_datalog ctx = Inr F"
  shows "Fact p us \<in> set F \<longleftrightarrow>
     (p = ''operation'' \<and> us = [TStr (operation ctx)]) \<or>
     (p = ''current_depth'' \<and> us = [TInt (current_depth ctx)]) \<or>
     (p = ''request_intent'' \<and> us = [TStr (request_intent ctx)]) \<or>
     (p = ''time'' \<and> us = [datalog_date (now ctx)]) \<or>
     (p = ''tool'' \<and> (\<exists>t. tool ctx = Some t \<and> us = [TStr t])) \<or>
     (p = ''requested'' \<and> (\<exists>d n. scale (requested ctx d) = Inr n
                              \<and> us = [TStr (dimension_value d), TInt n])) \<or>
     (p = ''arg'' \<and> (\<exists>path v t. (path, v) \<in> set (args ctx) \<and> dl_term_of v = Inr t
                        \<and> us = [TStr path, t]))"
proof -
  from F obtain reqs as where
    reqs: "traverseE (\<lambda>d. bindE (scale (requested ctx d))
        (\<lambda>n. Inr (Fact ''requested'' [TStr (dimension_value d), TInt n]))) all_dimensions = Inr reqs" and
    as: "traverseE (\<lambda>(path, v). bindE (dl_term_of v) (\<lambda>t. Inr (Fact ''arg'' [TStr path, t])))
        (sort_key fst (args ctx)) = Inr as" and
    F': "F = [Fact ''operation'' [TStr (operation ctx)], Fact ''current_depth'' [TInt (current_depth ctx)],
        Fact ''request_intent'' [TStr (request_intent ctx)], Fact ''time'' [datalog_date (now ctx)]]
        @ reqs @ (case tool ctx of None \<Rightarrow> [] | Some t \<Rightarrow> [Fact ''tool'' [TStr t]]) @ as"
    by (auto simp: request_context_datalog_def Let_def)
  have r: "Fact p us \<in> set reqs \<longleftrightarrow> p = ''requested'' \<and>
      (\<exists>d n. scale (requested ctx d) = Inr n \<and> us = [TStr (dimension_value d), TInt n])"
    unfolding traverseE_set[OF reqs] by auto
  have a: "Fact p us \<in> set as \<longleftrightarrow> p = ''arg'' \<and>
      (\<exists>path v t. (path, v) \<in> set (args ctx) \<and> dl_term_of v = Inr t \<and> us = [TStr path, t])"
    unfolding traverseE_set[OF as] by (force split: prod.splits)
  show ?thesis by (cases "tool ctx") (simp_all add: F' r a disj_assoc)
qed

section \<open>The engine's contract and the agreement of the two readings\<close>

locale datalog_engine =
  fixes passes :: "dl_stmt list \<Rightarrow> dl_stmt \<Rightarrow> bool"
  assumes fact_passes: "passes F (Fact p ts)"
    and check_passes:
      "(\<And>t. Fact p (ts @ [t]) \<in> set F \<Longrightarrow> guard_holds g t \<noteq> None) \<Longrightarrow>
       passes F (CheckIf p ts g) \<longleftrightarrow> (\<exists>t. Fact p (ts @ [t]) \<in> set F \<and> guard_holds g t = Some True)"
    and join_passes:
      "passes F (CheckJoin p q) \<longleftrightarrow> (\<exists>t. Fact p [t] \<in> set F \<and> Fact q [t] \<in> set F)"
    and reject_passes:
      "(\<And>t. Fact p (ts @ [t]) \<in> set F \<Longrightarrow> guard_holds g t \<noteq> None) \<Longrightarrow>
       passes F (RejectIf p ts g) \<longleftrightarrow> \<not> (\<exists>t. Fact p (ts @ [t]) \<in> set F \<and> guard_holds g t = Some True)"
begin

lemma check_one:
  assumes "\<And>t. Fact p (ts @ [t]) \<in> set F \<longleftrightarrow> t = u" and "guard_holds g u = Some b"
  shows "passes F (CheckIf p ts g) \<longleftrightarrow> b"
  using assms by (subst check_passes) auto

lemma reject_one:
  assumes "\<And>t. Fact p (ts @ [t]) \<in> set F \<longleftrightarrow> t = u" and "guard_holds g u = Some b"
  shows "passes F (RejectIf p ts g) \<longleftrightarrow> \<not> b"
  using assms by (subst reject_passes) auto

lemma none_matches:
  assumes "\<And>t. Fact p (ts @ [t]) \<notin> set F"
  shows "\<not> passes F (CheckIf p ts g)" "passes F (RejectIf p ts g)"
  using check_passes[of p ts F g] reject_passes[of p ts F g] assms by blast+

lemma budget_agrees:
  assumes F: "request_context_datalog ctx = Inr F" and v: "scale v = Inr n"
  shows "passes F (CheckIf ''requested'' [TStr (dimension_value d)] (GCmp CLe (TInt n)))
           \<longleftrightarrow> requested ctx d \<le> v"
proof -
  obtain m where m: "scale (requested ctx d) = Inr m"
  proof -
    have "\<exists>m. scale (requested ctx d) = Inr m"
      using F by (cases d) (auto simp: request_context_datalog_def all_dimensions_def Let_def)
    then show ?thesis using that by blast
  qed
  have "Fact ''requested'' ([TStr (dimension_value d)] @ [t]) \<in> set F \<longleftrightarrow> t = TInt m" for t
    using m by (auto simp: request_facts_iff[OF F] dimension_value_inj)
  then have "passes F (CheckIf ''requested'' [TStr (dimension_value d)] (GCmp CLe (TInt n))) \<longleftrightarrow> m \<le> n"
    by (rule check_one) simp
  then show ?thesis using scale_le[OF m v] by simp
qed

lemma arg_agrees:
  assumes F: "request_context_datalog ctx = Inr F" and dist: "distinct (map fst (args ctx))"
    and a: "map_of (args ctx) path = Some a" and comp: "arg_comparable a op v"
    and cs: "arg_predicate_datalog path op v = Inr cs"
  shows "\<exists>b. arg_satisfied a op v = Inr b \<and> (list_all (passes F) cs \<longleftrightarrow> b)"
proof -
  have mem: "(path, a') \<in> set (args ctx) \<longleftrightarrow> a' = a" for a'
    using map_of_eq_Some_iff[OF dist] a by (metis option.inject)
  obtain u where u: "dl_term_of a = Inr u"
  proof -
    have "(path, a) \<in> set (sort_key fst (args ctx))" using mem by simp
    moreover from F obtain as where
      "traverseE (\<lambda>(path, v). bindE (dl_term_of v) (\<lambda>t. Inr (Fact ''arg'' [TStr path, t])))
        (sort_key fst (args ctx)) = Inr as" by (auto simp: request_context_datalog_def Let_def)
    ultimately show ?thesis using that by (fastforce dest: traverseE_total)
  qed
  have one: "Fact ''arg'' ([TStr path] @ [t]) \<in> set F \<longleftrightarrow> t = u" for t
    using u by (auto simp: request_facts_iff[OF F] mem)
  have rej: "guard_holds g u \<noteq> None \<Longrightarrow>
      passes F (RejectIf ''arg'' [TStr path] g) \<longleftrightarrow> guard_holds g u \<noteq> Some True" for g
    using reject_one[of "''arg''" "[TStr path]" F u g, OF one] by auto
  show ?thesis using comp
  proof (rule arg_comparable_cases)
    fix s S assume "a = VStr s" "v = PSet S" "membership_operator op"
    then show ?thesis using cs u by (auto simp: membership_operator_def rej)
  next
    fix x y assume "a = VNum x" "v = PScalar (VNum y)" "\<not> membership_operator op"
    then show ?thesis using cs u
      by (cases op) (auto simp: rej membership_operator_def scale_le scale_eq dec_lt_def not_less not_le
                          simp flip: not_le)
  next
    fix s t assume "a = VStr s" "v = PScalar (VStr t)" "op = EQ \<or> op = NE"
    then show ?thesis using cs u by (auto simp: rej)
  qed
qed

text \<open>Allow and deny agree; an approval requirement is the one verdict Datalog cannot give.\<close>

lemma evaluate_agrees:
  assumes ctx: "request_context_wf ctx" and F: "request_context_datalog ctx = Inr F"
    and c: "to_datalog c = Inr cs" and comp: "caveat_comparable c ctx" and sec: "whole_second_bounds c"
  shows "\<exists>r. evaluate c ctx = Inr r \<and> (list_all (passes F) cs \<longleftrightarrow> res_outcome r \<noteq> DENY)"
proof -
  note facts = request_facts_iff[OF F]
  have op: "passes F (CheckIf ''operation'' [] (GContains S)) \<longleftrightarrow> operation ctx \<in> S" for S
    by (rule check_one[where u = "TStr (operation ctx)"]) (auto simp: facts)
  have time: "passes F (CheckIf ''time'' [] (GCmp k (datalog_date t))) \<longleftrightarrow>
      cmp_int k (now ctx div 1000000) (t div 1000000)" for k t
    by (rule check_one[where u = "datalog_date (now ctx)"]) (auto simp: facts datalog_date_def)
  have depth: "passes F (CheckIf ''current_depth'' [] (GCmp CLe (TInt d))) \<longleftrightarrow> current_depth ctx \<le> d" for d
    by (rule check_one[where u = "TInt (current_depth ctx)"]) (auto simp: facts)
  have intent: "passes F (CheckIf ''request_intent'' [] (GCmp CEq (TStr h))) \<longleftrightarrow> request_intent ctx = h" for h
    by (rule check_one[where u = "TStr (request_intent ctx)"]) (auto simp: facts)
  have tool: "tool ctx = Some t \<Longrightarrow> Fact ''tool'' ([] @ [u]) \<in> set F \<longleftrightarrow> u = TStr t"
    "tool ctx = None \<Longrightarrow> Fact ''tool'' ([] @ [u]) \<notin> set F" for t u
    by (auto simp: facts)
  have noarg: "map_of (args ctx) path = None \<Longrightarrow> Fact ''arg'' ([TStr path] @ [u]) \<notin> set F" for path u
    by (auto simp: facts map_of_eq_None_iff image_iff)
  show ?thesis
    using c comp sec
  proof (cases c)
    case (BudgetCeiling d v)
    then show ?thesis using c by (auto simp: budget_agrees[OF F])
  next
    case (TimeWindow nb na)
    then show ?thesis using c sec
      by (cases nb; cases na) (auto simp: time div_second_less simp flip: not_less)
  next
    case (ToolAllow S)
    then show ?thesis using c tool check_one[of "''tool''" "[]" F _ "GContains S"]
      by (cases "tool ctx") (auto simp: none_matches)
  next
    case (ToolDeny S)
    then show ?thesis using c tool reject_one[of "''tool''" "[]" F _ "GContains S"]
      by (cases "tool ctx") (auto simp: none_matches)
  next
    case (ArgPredicate path op v)
    show ?thesis
    proof (cases "map_of (args ctx) path")
      case None
      then have "list_all (passes F) cs" using c ArgPredicate noarg none_matches(2)
        by (cases v; cases op) (auto)
      then show ?thesis using None ArgPredicate by simp
    next
      case (Some a)
      then show ?thesis
        using arg_agrees[OF F _ Some, of op v cs] ctx c comp ArgPredicate
        by (auto simp: request_context_wf_def)
    qed
  next
    case (RequiresApproval S)
    then show ?thesis using c by (auto simp: string_facts_def list_all_iff fact_passes)
  qed (auto simp: op depth intent)
qed

end

interpretation reference_engine: datalog_engine clause_holds
proof
  fix F p ts show "clause_holds F (Fact p ts)" by simp
next
  fix F p ts g
  show "clause_holds F (CheckIf p ts g) \<longleftrightarrow> (\<exists>t. Fact p (ts @ [t]) \<in> set F \<and> guard_holds g t = Some True)"
    by (auto simp: list_ex_iff matching_iff)
next
  fix F p q
  show "clause_holds F (CheckJoin p q) \<longleftrightarrow> (\<exists>t. Fact p [t] \<in> set F \<and> Fact q [t] \<in> set F)"
    by (auto simp: list_ex_iff matching_iff)
next
  fix F p ts g
  show "clause_holds F (RejectIf p ts g) \<longleftrightarrow> \<not> (\<exists>t. Fact p (ts @ [t]) \<in> set F \<and> guard_holds g t = Some True)"
    by (auto simp: list_ex_iff matching_iff)
qed

lemma escape_replaces:
  "replace_char quote_char [backslash, quote_char] (replace_char backslash [backslash, backslash] v) =
   concat (map (\<lambda>c. if c = backslash then [backslash, backslash]
                    else if c = quote_char then [backslash, quote_char] else [c]) v)"
  by (induction v) auto

lemma scan_body_escaped:
  "scan_body (concat (map (\<lambda>c. if c = backslash then [backslash, backslash]
                    else if c = quote_char then [backslash, quote_char] else [c]) v)
              @ quote_char # rest) = Some (v, rest)"
  by (induction v) auto

section \<open>Properties\<close>

text \<open>
  C12: For every engine with biscuit's documented meaning of checks, rejections and facts, a validated
  request whose facts compile and a caveat that compiles: if the argument has the type its predicate
  compares and the bounds of a time window are whole seconds, the clauses of \<open>to_datalog\<close> all pass
  exactly when \<open>evaluate\<close> returns without denying.  \<open>now\<close> may have any resolution.
\<close>
theorem evaluate_agrees_with_datalog:
  assumes "datalog_engine passes" and "request_context_wf ctx"
    and "request_context_datalog ctx = Inr F" and "to_datalog c = Inr cs"
    and "caveat_comparable c ctx" and "whole_second_bounds c"
  shows "\<exists>r. evaluate c ctx = Inr r \<and> (list_all (passes F) cs \<longleftrightarrow> res_outcome r \<noteq> DENY)"
  using datalog_engine.evaluate_agrees[OF assms(1)] assms(2-) by blast

text \<open>
  The agreement that \<open>evaluate\<close> promises for every input fails on bounds finer than a
  second, because \<open>datalog_date\<close> prints whole seconds: with \<open>not_before\<close> half a second past a
  full second, a request 300 ms too early is denied by \<open>evaluate\<close> and passes every clause of
  \<open>to_datalog\<close>, whatever engine runs them.
\<close>
theorem subsecond_window_diverges:
  assumes engine: "datalog_engine passes" and F: "request_context_datalog ctx = Inr F"
    and t: "now ctx = seconds n + 200000"
  shows "evaluate (TimeWindow (Some (seconds n + 500000)) None) ctx = Inr (deny_result TOKEN_NOT_YET_VALID)
         \<and> (\<exists>cs. to_datalog (TimeWindow (Some (seconds n + 500000)) None) = Inr cs
                \<and> list_all (passes F) cs)"
proof -
  have "passes F (CheckIf ''time'' [] (GCmp CGe (datalog_date (seconds n + 500000)))) \<longleftrightarrow> True"
    by (rule datalog_engine.check_one[OF engine, where u = "datalog_date (now ctx)"])
       (auto simp: request_facts_iff[OF F] datalog_date_def t)
  then show ?thesis by (simp add: t)
qed

text \<open>
  A quoted string cannot be broken out of: whatever the value and whatever text follows it,
  reading \<open>quote_string(value)\<close> back stops exactly at the closing quote and gives the value.
\<close>
theorem quote_string_scans_back: "scan_literal (quote_string v @ rest) = Some (v, rest)"
  by (simp add: quote_string_def escape_replaces scan_body_escaped)

section \<open>Witnesses\<close>

definition demo_context :: request_context where
  "demo_context =
     \<lparr>operation = ''orders:read'', requested = (\<lambda>d. if d = SPEND_BDT then 3/2 else 0),
      current_depth = 1, request_intent = ''task'', now = seconds 10 + 200000,
      tool = Some ''db'', args = [(''limit'', VNum 50), (''city'', VStr ''dhaka'')],
      task_intent_text = None, action_intent_text = None, drift_mode_of = DRIFT_STRICT\<rparr>"

definition demo_facts :: "dl_stmt list" where
  "demo_facts = (case request_context_datalog demo_context of Inr F \<Rightarrow> F | Inl _ \<Rightarrow> [])"

lemma demo_facts_ok: "request_context_datalog demo_context = Inr demo_facts"
  by code_simp

lemma demo_context_wf: "request_context_wf demo_context"
  by code_simp

theorem evaluate_agrees_with_datalog_witness:
  "\<exists>r. evaluate (ArgPredicate ''limit'' LE (PScalar (VNum 40))) demo_context = Inr r \<and>
     (list_all (clause_holds demo_facts) [RejectIf ''arg'' [TStr ''limit''] (GCmp CGt (TInt 400000))]
      \<longleftrightarrow> res_outcome r \<noteq> DENY)"
  by (rule evaluate_agrees_with_datalog[OF reference_engine.datalog_engine_axioms demo_context_wf
        demo_facts_ok]) code_simp+

theorem subsecond_window_diverges_witness:
  "evaluate (TimeWindow (Some (seconds 10 + 500000)) None) demo_context
     = Inr (deny_result TOKEN_NOT_YET_VALID)
   \<and> (\<exists>cs. to_datalog (TimeWindow (Some (seconds 10 + 500000)) None) = Inr cs
          \<and> list_all (clause_holds demo_facts) cs)"
  by (rule subsecond_window_diverges[OF reference_engine.datalog_engine_axioms demo_facts_ok]) code_simp

end
