(* ===== verification/Tokens.thy ===== *)
theory Tokens
  imports Caveats
begin

text \<open>
  \<open>agentiam_core/tokens.py\<close>: minting a root token, verifying one, and asking a verified
  token's own checks about a request.

  The biscuit library is a parameter: a record of the operations the module calls, with the
  type \<open>'b\<close> of parsed tokens and \<open>'k\<close> of keys left open.  Its text interfaces are the ones
  the source uses: a block is built from Datalog statements, a query returns rows of terms (or
  the library's \<open>AuthorizationError\<close> when a limit is hit), and a refused authorization is an
  error message, which \<open>first_failure\<close> reads with the source's regular expression.
\<close>

section \<open>The library the module calls\<close>

datatype auth_outcome = Authorized_ok | AuthorizationFailed string

record ('b, 'k) biscuit_lib =
  bl_build :: "dl_stmt list \<Rightarrow> 'k \<Rightarrow> 'b"
  bl_append :: "'b \<Rightarrow> dl_stmt list \<Rightarrow> 'b"
  bl_to_base64 :: "'b \<Rightarrow> string"
  bl_from_base64 :: "string \<Rightarrow> 'k \<Rightarrow> 'b option"
  bl_query :: "'b \<Rightarrow> string \<Rightarrow> (dl_term list) list option"
  bl_block_count :: "'b \<Rightarrow> int"
  bl_revocation_ids :: "'b \<Rightarrow> string list"
  bl_authorize :: "'b \<Rightarrow> dl_stmt list \<Rightarrow> auth_outcome"
  bl_str :: "dl_term \<Rightarrow> string"

definition WARN_SIZE_LIMIT_B64 :: nat where "WARN_SIZE_LIMIT_B64 = 4096"
definition HARD_SIZE_LIMIT_B64 :: nat where "HARD_SIZE_LIMIT_B64 = 8192"

definition mk_root_key_set :: "'k list \<Rightarrow> ('k list) py" where
  "mk_root_key_set keys = (if keys = [] then Inl ValueError else Inr keys)"

record 'b verified_token =
  vt_biscuit :: 'b
  vt_mandate_id :: uuid
  vt_task_id :: uuid
  vt_principal_id :: string
  vt_intent_hash :: string
  vt_scopes :: "string set"
  vt_budget :: budget
  vt_scaled_budget :: "budget_dimension \<rightharpoonup> int"
  vt_max_depth :: int
  vt_not_before :: instant
  vt_expires_at :: instant
  vt_depth :: int
  vt_revocation_ids :: "string list"
  vt_size_b64 :: nat
  vt_size_warning :: bool

section \<open>Identifiers as text\<close>

text \<open>
  A UUID is its 128-bit number.  \<open>str(uuid)\<close> is 32 lowercase hex digits in groups of
  8-4-4-4-12; \<open>UUID(text)\<close> drops \<open>urn:\<close> and \<open>uuid:\<close>, strips braces, drops hyphens and then
  needs 32 characters that \<open>int(_, 16)\<close> reads.
\<close>

definition hex_digit :: "nat \<Rightarrow> char" where
  "hex_digit n = (if n < 10 then char_of (48 + n) else char_of (87 + n))"

fun hex_digits :: "nat \<Rightarrow> nat \<Rightarrow> string" where
  "hex_digits 0 n = []"
| "hex_digits (Suc k) n = hex_digits k (n div 16) @ [hex_digit (n mod 16)]"

definition uuid_str :: "uuid \<Rightarrow> string" where
  "uuid_str n =
     (let h = hex_digits 32 n
      in take 8 h @ ''-'' @ take 4 (drop 8 h) @ ''-'' @ take 4 (drop 12 h) @ ''-''
         @ take 4 (drop 16 h) @ ''-'' @ drop 20 h)"

definition hex_value :: "char \<Rightarrow> nat option" where
  "hex_value c =
     (let n = of_char c :: nat in
      if 48 \<le> n \<and> n \<le> 57 then Some (n - 48)
      else if 97 \<le> n \<and> n \<le> 102 then Some (n - 87)
      else if 65 \<le> n \<and> n \<le> 70 then Some (n - 55) else None)"

definition split_prefix :: "string \<Rightarrow> string \<Rightarrow> string option" where
  "split_prefix p s = (if take (length p) s = p then Some (drop (length p) s) else None)"

text \<open>\<open>s.replace(p, "")\<close> for a non-empty \<open>p\<close>.\<close>

function remove_all :: "string \<Rightarrow> string \<Rightarrow> string" where
  "remove_all p [] = []"
| "remove_all p (c # cs) =
     (if p \<noteq> [] \<and> take (length p) (c # cs) = p then remove_all p (drop (length p) (c # cs))
      else c # remove_all p cs)"
  by pat_completeness auto
termination by (relation "measure (\<lambda>(p, s). length s)") auto

definition strip_braces :: "string \<Rightarrow> string" where
  "strip_braces s =
     (let brace = (\<lambda>c. c = CHR ''{'' \<or> c = CHR ''}'')
      in rev (dropWhile brace (rev (dropWhile brace s))))"

text \<open>
  \<open>int(s, 16)\<close>: white space stripped, a sign, an optional \<open>0x\<close>, then hex digits that single
  underscores may separate.
\<close>

fun hex_int_digits :: "nat \<Rightarrow> bool \<Rightarrow> string \<Rightarrow> nat option" where
  "hex_int_digits acc seen [] = (if seen then Some acc else None)"
| "hex_int_digits acc seen (c # cs) =
     (if c = CHR ''_'' then (if seen \<and> cs \<noteq> [] then hex_int_digits acc False cs else None)
      else (case hex_value c of None \<Rightarrow> None
            | Some d \<Rightarrow> hex_int_digits (16 * acc + d) True cs))"

definition hex_int :: "string \<Rightarrow> int option" where
  "hex_int s =
     (let (neg, u) = split_sign (strip s);
          prefixed = (take 2 u = ''0x'' \<or> take 2 u = ''0X'');
          body = (if prefixed then drop 2 u else u);
          body' = (if prefixed \<and> take 1 body = ''_'' then drop 1 body else body)
      in map_option (\<lambda>n. if neg then - int n else int n) (hex_int_digits 0 False body'))"

definition uuid_of_string :: "string \<Rightarrow> uuid option" where
  "uuid_of_string s =
     (let h = remove_all ''-'' (strip_braces (remove_all ''uuid:'' (remove_all ''urn:'' s)))
      in if length h \<noteq> 32 then None
         else (case hex_int h of
                 None \<Rightarrow> None
               | Some n \<Rightarrow> if 0 \<le> n \<and> n < 2 ^ 128 then Some (nat n) else None))"

definition as_uuid :: "('b, 'k) biscuit_lib \<Rightarrow> dl_term \<Rightarrow> uuid py" where
  "as_uuid lib v =
     (case uuid_of_string (bl_str lib v) of None \<Rightarrow> Inl MalformedTokenError | Some u \<Rightarrow> Inr u)"

section \<open>Minting\<close>

text \<open>
  The authority block: facts, then checks.  The two membership checks join a request fact with
  a fact of the block itself.  \<open>sorted(BudgetDimension)\<close> sorts by the enum's string values.
\<close>

definition sorted_dimensions :: "budget_dimension list" where
  "sorted_dimensions = [EXTERNAL_EMAILS, ROWS_READ, SPEND_BDT, TOOL_CALLS, WALL_CLOCK_S]"

definition authority_facts :: "mandate \<Rightarrow> (dl_stmt list) py" where
  "authority_facts m =
     bindE (traverseE (\<lambda>d. bindE (budget_scaled (md_budget m) d) (\<lambda>n.
              Inr (Fact ''budget'' [TStr (dimension_value d), TInt n]))) sorted_dimensions) (\<lambda>budgets.
     Inr ([Fact ''mandate'' [TStr (uuid_str (mandate_id m))],
           Fact ''task'' [TStr (uuid_str (md_task_id m))],
           Fact ''principal'' [TStr (md_principal_id m)],
           Fact ''intent'' [TStr (md_intent_hash m)],
           Fact ''issued_at'' [datalog_date (md_not_before m)],
           Fact ''not_before'' [datalog_date (md_not_before m)],
           Fact ''expires_at'' [datalog_date (md_expires_at m)],
           Fact ''max_depth'' [TInt (md_max_depth m)]]
          @ string_facts ''scope'' (md_scopes m) @ budgets))"

definition authority_checks :: "mandate \<Rightarrow> (dl_stmt list) py" where
  "authority_checks m =
     bindE (traverseE (\<lambda>d. bindE (budget_scaled (md_budget m) d) (\<lambda>n.
              Inr (CheckIf ''requested'' [TStr (dimension_value d)] (GCmp CLe (TInt n)))))
            sorted_dimensions) (\<lambda>budgets.
     Inr ([CheckJoin ''operation'' ''scope'',
           CheckIf ''current_depth'' [] (GCmp CLe (TInt (md_max_depth m))),
           CheckJoin ''request_intent'' ''intent'']
          @ budgets
          @ [CheckIf ''time'' [] (GCmp CGe (datalog_date (md_not_before m))),
             CheckIf ''time'' [] (GCmp CLt (datalog_date (md_expires_at m)))]))"

definition mint_root :: "('b, 'k) biscuit_lib \<Rightarrow> mandate \<Rightarrow> 'k \<Rightarrow> string py" where
  "mint_root lib m private_key =
     bindE (authority_facts m) (\<lambda>facts. bindE (authority_checks m) (\<lambda>checks.
       (let token = bl_to_base64 lib (bl_build lib (facts @ checks) private_key)
        in if length token > HARD_SIZE_LIMIT_B64 then Inl TokenTooLargeError else Inr token)))"

section \<open>Verification\<close>

fun try_keys :: "('b, 'k) biscuit_lib \<Rightarrow> string \<Rightarrow> 'k list \<Rightarrow> 'b py" where
  "try_keys lib tok [] = Inl InvalidSignatureError"
| "try_keys lib tok (k # ks) =
     (case bl_from_base64 lib tok k of Some b \<Rightarrow> Inr b | None \<Rightarrow> try_keys lib tok ks)"

definition parse_biscuit :: "('b, 'k) biscuit_lib \<Rightarrow> string \<Rightarrow> 'k list \<Rightarrow> 'b py" where
  "parse_biscuit lib tok keys =
     (if tok = [] \<or> strip tok = [] then Inl MalformedTokenError else try_keys lib tok keys)"

definition query_one :: "('b, 'k) biscuit_lib \<Rightarrow> 'b \<Rightarrow> string \<Rightarrow> (dl_term option) py" where
  "query_one lib b p =
     (case bl_query lib b p of
        None \<Rightarrow> Inl VerificationLimitError
      | Some [] \<Rightarrow> Inr None
      | Some (row # _) \<Rightarrow> Inr (Some (hd row)))"

definition require :: "dl_term option \<Rightarrow> dl_term py" where
  "require v = (case v of None \<Rightarrow> Inl MalformedTokenError | Some t \<Rightarrow> Inr t)"

definition required_fact :: "('b, 'k) biscuit_lib \<Rightarrow> 'b \<Rightarrow> string \<Rightarrow> dl_term py" where
  "required_fact lib b p = bindE (query_one lib b p) require"

fun as_date :: "dl_term \<Rightarrow> instant py" where
  "as_date (TDate s) = Inr (seconds s)"
| "as_date _ = Inl MalformedTokenError"

fun as_int :: "dl_term \<Rightarrow> int py" where
  "as_int (TInt n) = Inr n"
| "as_int _ = Inl MalformedTokenError"

text \<open>
  The comprehensions at the end of \<open>verify\<close> call \<open>authorizer.query\<close> directly, so a limit hit
  there leaves as the library's own exception.
\<close>

definition query_all :: "('b, 'k) biscuit_lib \<Rightarrow> 'b \<Rightarrow> string \<Rightarrow> ((dl_term list) list) py" where
  "query_all lib b p =
     (case bl_query lib b p of None \<Rightarrow> Inl BiscuitAuthorizationError | Some rows \<Rightarrow> Inr rows)"

fun dimension_of_value :: "string \<Rightarrow> budget_dimension py" where
  "dimension_of_value s =
     (case find (\<lambda>d. dimension_value d = s) all_dimensions of
        None \<Rightarrow> Inl ValueError | Some d \<Rightarrow> Inr d)"

text \<open>\<open>int(s)\<close> on text: white space, a sign, then digits that single underscores may separate.\<close>

fun int_digits :: "int \<Rightarrow> bool \<Rightarrow> string \<Rightarrow> int py" where
  "int_digits acc seen [] = (if seen then Inr acc else Inl ValueError)"
| "int_digits acc seen (c # cs) =
     (if c = CHR ''_'' then (if seen \<and> cs \<noteq> [] then int_digits acc False cs else Inl ValueError)
      else if digit_char c then int_digits (10 * acc + (of_char c - 48)) True cs
      else Inl ValueError)"

fun py_int :: "dl_term \<Rightarrow> int py" where
  "py_int (TInt n) = Inr n"
| "py_int (TStr s) =
     (let (neg, u) = split_sign (strip s)
      in bindE (int_digits 0 False u) (\<lambda>n. Inr (if neg then - n else n)))"
| "py_int _ = Inl TypeError"

definition budget_entry ::
  "('b, 'k) biscuit_lib \<Rightarrow> dl_term list \<Rightarrow> (budget_dimension \<times> int) py" where
  "budget_entry lib row =
     bindE (dimension_of_value (bl_str lib (row ! 0))) (\<lambda>d. bindE (py_int (row ! 1)) (\<lambda>n. Inr (d, n)))"

definition verify ::
  "('b, 'k) biscuit_lib \<Rightarrow> string \<Rightarrow> 'k list \<Rightarrow> datetime \<Rightarrow> ('b verified_token) py" where
  "verify lib tok keys dt =
     bindE (aware dt) (\<lambda>now_t.
     bindE (guardE (length tok \<le> HARD_SIZE_LIMIT_B64) TokenTooLargeError) (\<lambda>_.
     bindE (parse_biscuit lib tok keys) (\<lambda>b.
     bindE (required_fact lib b ''mandate'') (\<lambda>mid.
     bindE (required_fact lib b ''task'') (\<lambda>tid.
     bindE (required_fact lib b ''principal'') (\<lambda>pid.
     bindE (required_fact lib b ''intent'') (\<lambda>ihash.
     bindE (required_fact lib b ''max_depth'') (\<lambda>mdep.
     bindE (required_fact lib b ''not_before'') (\<lambda>nbf.
     bindE (required_fact lib b ''expires_at'') (\<lambda>exp_t.
     bindE (as_date nbf) (\<lambda>nb.
     bindE (as_date exp_t) (\<lambda>ex.
     bindE (as_int mdep) (\<lambda>maxd.
     bindE (guardE (\<not> now_t < nb) TokenNotYetValidError) (\<lambda>_.
     bindE (guardE (\<not> now_t \<ge> ex) TokenExpiredError) (\<lambda>_.
     (let depth = bl_block_count lib b - 1 in
     bindE (guardE (\<not> depth > maxd) DepthExceededError) (\<lambda>_.
     bindE (query_all lib b ''scope'') (\<lambda>scope_rows.
     bindE (query_all lib b ''budget'') (\<lambda>budget_rows.
     bindE (traverseE (budget_entry lib) budget_rows) (\<lambda>entries.
     bindE (as_uuid lib mid) (\<lambda>m.
     bindE (as_uuid lib tid) (\<lambda>t.
     bindE (budget_from_scaled (map_of (rev entries))) (\<lambda>bud.
     Inr \<lparr>vt_biscuit = b, vt_mandate_id = m, vt_task_id = t,
          vt_principal_id = bl_str lib pid, vt_intent_hash = bl_str lib ihash,
          vt_scopes = set (map (\<lambda>row. bl_str lib (hd row)) scope_rows),
          vt_budget = bud, vt_scaled_budget = map_of (rev entries), vt_max_depth = maxd,
          vt_not_before = nb, vt_expires_at = ex, vt_depth = depth,
          vt_revocation_ids = bl_revocation_ids lib b, vt_size_b64 = length tok,
          vt_size_warning = (length tok > WARN_SIZE_LIMIT_B64)\<rparr>)))))))))))))))))))))))"

section \<open>Authorizing a request against the token's own checks\<close>

definition fact_reasons :: "(string \<times> reason_code) list" where
  "fact_reasons =
     [(''operation('', SCOPE_ATTENUATED_AWAY), (''requested('', BUDGET_EXHAUSTED_CAVEAT),
      (''tool('', TOOL_DENIED), (''arg('', ARG_PREDICATE_FAILED),
      (''current_depth('', DEPTH_EXCEEDED), (''request_intent('', INTENT_MISMATCH),
      (''time('', TOKEN_EXPIRED)]"

definition authority_fact_reasons :: "(string \<times> reason_code) list" where
  "authority_fact_reasons =
     [(''operation('', SCOPE_NOT_GRANTED), (''requested('', BUDGET_EXHAUSTED_MANDATE),
      (''tool('', TOOL_DENIED), (''arg('', ARG_PREDICATE_FAILED),
      (''current_depth('', DEPTH_EXCEEDED), (''request_intent('', INTENT_MISMATCH),
      (''time('', TOKEN_EXPIRED)]"

record authority_failure =
  af_block :: int
  af_source :: string
  af_reason_code :: reason_code

fun contains_sub :: "string \<Rightarrow> string \<Rightarrow> bool" where
  "contains_sub p [] = (p = [])"
| "contains_sub p (c # cs) = (take (length p) (c # cs) = p \<or> contains_sub p cs)"

text \<open>One or more digits, greedily, with the number they spell.\<close>

definition read_digits :: "string \<Rightarrow> (int \<times> string) option" where
  "read_digits s =
     (let ds = takeWhile digit_char s
      in if ds = [] then None else Some (digits_value ds, dropWhile digit_char s))"

definition any_char :: "string \<Rightarrow> string option" where
  "any_char s = (case s of [] \<Rightarrow> None | c # cs \<Rightarrow> if c = newline then None else Some cs)"

text \<open>\<open>_FAILED_CHECK_RE\<close> at the front of the text: the block number and what follows the match.\<close>

definition failed_check_at :: "string \<Rightarrow> (int \<times> string) option" where
  "failed_check_at s =
     Option.bind (split_prefix ''Check n'' s) (\<lambda>s1.
     Option.bind (any_char s1) (\<lambda>s2.
     Option.bind (read_digits s2) (\<lambda>(_, s3).
     Option.bind (split_prefix '' in block n'' s3) (\<lambda>s4.
     Option.bind (any_char s4) (\<lambda>s5.
     Option.bind (read_digits s5) (\<lambda>(blk, s6).
     Option.bind (split_prefix '': '' s6) (\<lambda>s7. Some (blk, s7))))))))"

text \<open>The first match anywhere in the text, and the text before the next one.\<close>

fun find_failed_check :: "string \<Rightarrow> (int \<times> string) option" where
  "find_failed_check [] = None"
| "find_failed_check (c # cs) =
     (case failed_check_at (c # cs) of Some r \<Rightarrow> Some r | None \<Rightarrow> find_failed_check cs)"

fun until_failed_check :: "string \<Rightarrow> string" where
  "until_failed_check [] = []"
| "until_failed_check (c # cs) =
     (if failed_check_at (c # cs) \<noteq> None then [] else c # until_failed_check cs)"

definition rstrip_commas :: "string \<Rightarrow> string" where
  "rstrip_commas s = rev (dropWhile (\<lambda>c. c = CHR '','' \<or> c = CHR '' '') (rev s))"

definition first_failure :: "string \<Rightarrow> authority_failure" where
  "first_failure detail =
     (case find_failed_check detail of
        None \<Rightarrow> \<lparr>af_block = 0, af_source = detail, af_reason_code = MALFORMED_REQUEST\<rparr>
      | Some (blk, rest) \<Rightarrow>
          (let check_source = rstrip_commas (until_failed_check rest);
               reasons = (if blk = 0 then authority_fact_reasons else fact_reasons)
           in case find (\<lambda>(fact, _). contains_sub fact check_source) reasons of
                Some (_, code) \<Rightarrow>
                  \<lparr>af_block = blk, af_source = check_source, af_reason_code = code\<rparr>
              | None \<Rightarrow>
                  \<lparr>af_block = blk, af_source = check_source,
                   af_reason_code = SCOPE_ATTENUATED_AWAY\<rparr>))"

definition authorize_request ::
  "('b, 'k) biscuit_lib \<Rightarrow> 'b verified_token \<Rightarrow> request_context \<Rightarrow> (authority_failure option) py"
  where
  "authorize_request lib tok ctx =
     bindE (request_context_datalog ctx) (\<lambda>facts.
       (case bl_authorize lib (vt_biscuit tok) facts of
          Authorized_ok \<Rightarrow> Inr None
        | AuthorizationFailed detail \<Rightarrow>
            (if contains_sub ''execution limits'' detail then Inl VerificationLimitError
             else Inr (Some (first_failure detail)))))"

section \<open>Lemmas on identifiers\<close>

lemma hex_digits_length [simp]: "length (hex_digits k n) = k"
  by (induction k n rule: hex_digits.induct) simp_all

lemma hex_value_digit: "n < 16 \<Longrightarrow> hex_value (hex_digit n) = Some n"
  by (auto simp: hex_value_def hex_digit_def Let_def)

lemma hex_digits_hex: "c \<in> set (hex_digits k n) \<Longrightarrow> \<exists>d < 16. c = hex_digit d"
proof (induction k n rule: hex_digits.induct)
  case (2 k n)
  then show ?case by (cases "c = hex_digit (n mod 16)") (auto intro: exI[of _ "n mod 16"])
qed simp

lemma hex_digit_plain:
  "n < 16 \<Longrightarrow> hex_digit n \<notin> {CHR ''-'', CHR ''+'', CHR ''u'', CHR ''{'', CHR ''}'', CHR ''_'', CHR ''x'', CHR ''X''}
            \<and> \<not> space_char (hex_digit n)"
proof -
  have "\<forall>n \<in> set [0..<16]. hex_digit n \<notin> {CHR ''-'', CHR ''+'', CHR ''u'', CHR ''{'', CHR ''}'', CHR ''_'', CHR ''x'', CHR ''X''}
            \<and> \<not> space_char (hex_digit n)" by code_simp
  then show "n < 16 \<Longrightarrow> ?thesis" by auto
qed

lemma hex_int_digits_all:
  "list_all (\<lambda>c. hex_value c \<noteq> None \<and> c \<noteq> CHR ''_'') s \<Longrightarrow> s \<noteq> [] \<or> seen \<Longrightarrow>
   hex_int_digits acc seen s = Some (foldl (\<lambda>a c. 16 * a + the (hex_value c)) acc s)"
  by (induction s arbitrary: acc seen) auto

lemma foldl_hex_digits:
  "foldl (\<lambda>a c. 16 * a + the (hex_value c)) acc (hex_digits k n) = acc * 16 ^ k + n mod 16 ^ k"
proof (induction k n rule: hex_digits.induct)
  case (1 n)
  then show ?case by simp
next
  case (2 k n)
  have "16 * (n div 16 mod 16 ^ k) + n mod 16 = n mod (16 * 16 ^ k)"
    by (simp add: mod_mult2_eq)
  then show ?case using 2 by (simp add: hex_value_digit algebra_simps)
qed

lemma remove_all_absent: "p \<noteq> [] \<Longrightarrow> hd p \<notin> set s \<Longrightarrow> remove_all p s = s"
proof (induction s)
  case (Cons c cs)
  then have "take (length p) (c # cs) \<noteq> p" by (cases p) auto
  with Cons show ?case by simp
qed simp

lemma remove_all_char: "remove_all [x] s = filter (\<lambda>c. c \<noteq> x) s"
  by (induction s) auto

lemma strip_none:
  assumes "\<And>c. c \<in> set s \<Longrightarrow> \<not> P c"
  shows "rev (dropWhile P (rev (dropWhile P s))) = s"
proof -
  have none: "dropWhile P xs = xs" if "set xs \<subseteq> set s" for xs
    using that assms by (cases xs) auto
  show ?thesis by (simp add: none)
qed

lemma hex_digits_clean:
  assumes "c \<in> set (hex_digits k n)"
  shows "c \<noteq> CHR ''-'' \<and> c \<noteq> CHR ''+'' \<and> c \<noteq> CHR ''u'' \<and> c \<noteq> CHR ''{'' \<and> c \<noteq> CHR ''}'' \<and> c \<noteq> CHR ''_''
       \<and> c \<noteq> CHR ''x'' \<and> c \<noteq> CHR ''X'' \<and> \<not> space_char c \<and> hex_value c \<noteq> None"
proof -
  obtain d where "d < 16" "c = hex_digit d" using hex_digits_hex[OF assms] by blast
  then show ?thesis using hex_digit_plain[of d] hex_value_digit[of d] by simp
qed

lemma hex_int_hex_digits:
  assumes "0 < k" shows "hex_int (hex_digits k n) = Some (int (n mod 16 ^ k))"
proof -
  let ?h = "hex_digits k n"
  note clean = hex_digits_clean[of _ k n]
  have strip: "strip ?h = ?h"
    unfolding strip_def by (rule strip_none) (use clean in blast)
  obtain c cs where h: "?h = c # cs" using assms hex_digits_length[of k n] by (cases ?h) auto
  have sign: "split_sign ?h = (False, ?h)" using clean[of c] by (simp add: h)
  have pre: "take 2 ?h \<noteq> ''0x'' \<and> take 2 ?h \<noteq> ''0X''"
    using clean in_set_takeD[of _ 2 ?h] by (metis list.set_intros(1) list.set_intros(2))
  have "list_all (\<lambda>c. hex_value c \<noteq> None \<and> c \<noteq> CHR ''_'') ?h"
    using clean by (auto simp only: list_all_iff)
  then have "hex_int_digits 0 False ?h = Some (n mod 16 ^ k)"
    by (subst hex_int_digits_all) (simp_all only: foldl_hex_digits, simp_all add: h)
  then show ?thesis using pre by (simp add: hex_int_def strip sign)
qed

lemma uuid_roundtrip: "uuid_ok u \<Longrightarrow> uuid_of_string (uuid_str u) = Some u"
proof -
  assume u: "uuid_ok u"
  let ?h = "hex_digits 32 u"
  have chars: "c \<in> set (uuid_str u) \<Longrightarrow> c \<in> set ?h \<or> c = CHR ''-''" for c
    by (auto simp: uuid_str_def Let_def dest: in_set_takeD in_set_dropD)
  note clean = hex_digits_clean[of _ 32 u]
  have urn: "remove_all ''urn:'' (uuid_str u) = uuid_str u"
    by (rule remove_all_absent) (use chars clean in auto)
  have uuid: "remove_all ''uuid:'' (uuid_str u) = uuid_str u"
    by (rule remove_all_absent) (use chars clean in auto)
  have braces: "strip_braces (uuid_str u) = uuid_str u"
    unfolding strip_braces_def Let_def by (rule strip_none) (use chars clean in force)
  have plain: "filter (\<lambda>c. c \<noteq> CHR ''-'') xs = xs" if "set xs \<subseteq> set ?h" for xs
    using that clean by (auto simp: filter_id_conv)
  have sub: "set (take i (drop j ?h)) \<subseteq> set ?h" "set (drop j ?h) \<subseteq> set ?h" "set (take i ?h) \<subseteq> set ?h" for i j
    by (auto dest: in_set_takeD in_set_dropD)
  have "filter (\<lambda>c. c \<noteq> CHR ''-'') (uuid_str u) =
      take 8 ?h @ take 4 (drop 8 ?h) @ take 4 (drop 12 ?h) @ take 4 (drop 16 ?h) @ drop 20 ?h"
    by (simp add: uuid_str_def Let_def plain sub)
  also have "\<dots> = ?h"
    using append_take_drop_id[of 4 "drop 16 ?h"] append_take_drop_id[of 4 "drop 12 ?h"]
      append_take_drop_id[of 4 "drop 8 ?h"] append_take_drop_id[of 8 ?h] by simp
  finally have hyphens: "remove_all ''-'' (uuid_str u) = ?h" by (simp add: remove_all_char)
  have "hex_int ?h = Some (int u)" using u by (simp add: hex_int_hex_digits uuid_ok_def)
  then show ?thesis using u
    by (simp add: uuid_of_string_def urn uuid braces hyphens uuid_ok_def Let_def)
qed

section \<open>What the library must do for a minted block\<close>

text \<open>
  The documented behaviour of biscuit a mint-and-verify round trip rests on, for one block
  \<open>stmts\<close> signed with \<open>sk\<close> under the public key \<open>pk\<close>: the encoding parses back under \<open>pk\<close>,
  the token has one block, a query for a predicate returns that predicate's facts, and a string
  term is handed back as the Python string it was.
\<close>

definition fact_rows :: "string \<Rightarrow> dl_stmt list \<Rightarrow> (dl_term list) list" where
  "fact_rows p stmts =
     List.map_filter (\<lambda>s. case s of Fact q ts \<Rightarrow> if q = p then Some ts else None | _ \<Rightarrow> None) stmts"

definition reads_back :: "('b, 'k) biscuit_lib \<Rightarrow> 'k \<Rightarrow> 'k \<Rightarrow> dl_stmt list \<Rightarrow> bool" where
  "reads_back lib sk pk stmts =
     (let b = bl_build lib stmts sk in
      bl_from_base64 lib (bl_to_base64 lib b) pk = Some b \<and> bl_block_count lib b = 1
      \<and> strip (bl_to_base64 lib b) \<noteq> []
      \<and> (\<forall>p. bl_query lib b p = Some (fact_rows p stmts)) \<and> (\<forall>s. bl_str lib (TStr s) = s))"

lemma fact_rows_append: "fact_rows p (xs @ ys) = fact_rows p xs @ fact_rows p ys"
  by (induction xs) (auto simp: fact_rows_def map_filter_simps split: option.splits)

lemma fact_rows_Fact [simp]:
  "fact_rows p (Fact q ts # xs) = (if q = p then ts # fact_rows p xs else fact_rows p xs)"
  "fact_rows p (CheckIf q us g # xs) = fact_rows p xs"
  "fact_rows p (CheckJoin q q' # xs) = fact_rows p xs"
  "fact_rows p [] = []"
  by (simp_all add: fact_rows_def map_filter_simps)

lemma fact_rows_string_facts:
  "fact_rows p (string_facts q S) = (if q = p then map (\<lambda>s. [TStr s]) (sorted_list_of_set S) else [])"
proof -
  have "fact_rows p (map (\<lambda>s. Fact q [TStr s]) xs) = (if q = p then map (\<lambda>s. [TStr s]) xs else [])" for xs
    by (induction xs) auto
  then show ?thesis by (simp add: string_facts_def)
qed

lemma strip_nonempty: "strip s \<noteq> [] \<Longrightarrow> s \<noteq> []"
  by (auto simp: strip_def)

text \<open>The authority block of a validated mandate, written out.\<close>

definition budget_units :: "mandate \<Rightarrow> budget_dimension \<Rightarrow> int" where
  "budget_units m d = \<lfloor>budget_get (md_budget m) d * 10000\<rfloor>"

lemma traverse_sorted_dimensions:
  assumes "budget_wf (md_budget m)"
  shows "traverseE (\<lambda>d. bindE (budget_scaled (md_budget m) d) (\<lambda>n. Inr (f d n))) sorted_dimensions
           = Inr (map (\<lambda>d. f d (budget_units m d)) sorted_dimensions)"
  using assms by (simp add: sorted_dimensions_def budget_scaled_ok budget_units_def)

lemma authority_ok:
  assumes "mandate_wf m"
  obtains facts checks where "authority_facts m = Inr facts" "authority_checks m = Inr checks"
    "\<And>p. fact_rows p checks = []"
    "fact_rows ''budget'' facts = map (\<lambda>d. [TStr (dimension_value d), TInt (budget_units m d)]) sorted_dimensions"
    "fact_rows ''scope'' facts = map (\<lambda>s. [TStr s]) (sorted_list_of_set (md_scopes m))"
    "fact_rows ''mandate'' facts = [[TStr (uuid_str (mandate_id m))]]"
    "fact_rows ''task'' facts = [[TStr (uuid_str (md_task_id m))]]"
    "fact_rows ''principal'' facts = [[TStr (md_principal_id m)]]"
    "fact_rows ''intent'' facts = [[TStr (md_intent_hash m)]]"
    "fact_rows ''max_depth'' facts = [[TInt (md_max_depth m)]]"
    "fact_rows ''not_before'' facts = [[datalog_date (md_not_before m)]]"
    "fact_rows ''expires_at'' facts = [[datalog_date (md_expires_at m)]]"
proof -
  have wf: "budget_wf (md_budget m)" using assms by (simp add: mandate_wf_def)
  note units = traverse_sorted_dimensions[OF wf]
  note facts = authority_facts_def[of m, unfolded units bindE.simps]
  note checks = authority_checks_def[of m, unfolded units bindE.simps]
  show ?thesis
    by (rule that[OF facts checks])
       (simp_all add: fact_rows_append fact_rows_string_facts sorted_dimensions_def)
qed

lemma budget_entries:
  assumes str: "\<And>s. bl_str lib (TStr s) = s"
  shows "traverseE (budget_entry lib)
           (map (\<lambda>d. [TStr (dimension_value d), TInt (u d)]) sorted_dimensions)
           = Inr (map (\<lambda>d. (d, u d)) sorted_dimensions)"
  by (simp add: sorted_dimensions_def budget_entry_def str all_dimensions_def)

lemma map_of_rev_sorted: "map_of (rev (map (\<lambda>d. (d, u d)) sorted_dimensions)) d = Some (u d)"
  by (cases d) (simp_all add: sorted_dimensions_def)

lemma try_keys_Inr: "try_keys lib tok ks = Inr b \<Longrightarrow> \<exists>k \<in> set ks. bl_from_base64 lib tok k = Some b"
  by (induction ks) (auto split: option.splits)

lemma aware_Inr_iff [simp, res_simps]: "aware dt = Inr t \<longleftrightarrow> dt = Aware t"
  by (cases dt) auto

lemma budget_from_scaled_wf: "budget_from_scaled vals = Inr b \<Longrightarrow> budget_wf b"
  by (auto simp: budget_from_scaled_def mk_budget_def split: if_splits)

lemma find_snd_in: "find P xs = Some (f, code) \<Longrightarrow> code \<in> snd ` set xs"
  by (metis find_Some_iff image_eqI nth_mem snd_conv)

lemma ok_not_a_failure: "OK \<notin> snd ` set authority_fact_reasons" "OK \<notin> snd ` set fact_reasons"
  by (simp_all add: authority_fact_reasons_def fact_reasons_def)

lemma find_reason_not_ok:
  "find P authority_fact_reasons = Some (f, code) \<Longrightarrow> code \<noteq> OK"
  "find P fact_reasons = Some (f, code) \<Longrightarrow> code \<noteq> OK"
  using find_snd_in ok_not_a_failure by metis+

lemma first_failure_not_ok: "af_reason_code (first_failure detail) \<noteq> OK"
  by (auto simp: first_failure_def Let_def dest: find_reason_not_ok split: option.splits)

text \<open>The token a freshly minted mandate verifies to.\<close>

definition minted_token :: "('b, 'k) biscuit_lib \<Rightarrow> mandate \<Rightarrow> 'b \<Rightarrow> string \<Rightarrow> 'b verified_token" where
  "minted_token lib m b tok =
     \<lparr>vt_biscuit = b, vt_mandate_id = mandate_id m, vt_task_id = md_task_id m,
      vt_principal_id = md_principal_id m, vt_intent_hash = md_intent_hash m,
      vt_scopes = md_scopes m, vt_budget = md_budget m,
      vt_scaled_budget = (\<lambda>d. Some (budget_units m d)), vt_max_depth = md_max_depth m,
      vt_not_before = seconds (md_not_before m div 1000000),
      vt_expires_at = seconds (md_expires_at m div 1000000), vt_depth = 0,
      vt_revocation_ids = bl_revocation_ids lib b, vt_size_b64 = length tok,
      vt_size_warning = (length tok > WARN_SIZE_LIMIT_B64)\<rparr>"

text \<open>What a biscuit with the authority block of a mandate verifies to, however many blocks follow.\<close>

definition granted_token :: "('b, 'k) biscuit_lib \<Rightarrow> mandate \<Rightarrow> 'b \<Rightarrow> string \<Rightarrow> 'b verified_token" where
  "granted_token lib m b tok = (minted_token lib m b tok)\<lparr>vt_depth := bl_block_count lib b - 1\<rparr>"

definition answers_with :: "('b, 'k) biscuit_lib \<Rightarrow> 'b \<Rightarrow> dl_stmt list \<Rightarrow> bool" where
  "answers_with lib b stmts = (\<forall>p. bl_query lib b p = Some (fact_rows p stmts))"

lemma verify_exact:
  assumes m: "mandate_wf m" and fin: "finite (md_scopes m)"
    and blk: "authority_facts m = Inr facts" "authority_checks m = Inr checks"
    and q: "answers_with lib b (facts @ checks)" and str: "\<And>s. bl_str lib (TStr s) = s"
    and parse: "parse_biscuit lib tok keys = Inr b" and size: "length tok \<le> HARD_SIZE_LIMIT_B64"
  shows "verify lib tok keys (Aware t) =
    (if t < seconds (md_not_before m div 1000000) then Inl TokenNotYetValidError
     else if seconds (md_expires_at m div 1000000) \<le> t then Inl TokenExpiredError
     else if md_max_depth m < bl_block_count lib b - 1 then Inl DepthExceededError
     else Inr (granted_token lib m b tok))"
proof -
  note q' = q[unfolded answers_with_def, rule_format]
  have wf: "budget_wf (md_budget m)" "uuid_ok (mandate_id m)" "uuid_ok (md_task_id m)" "1 \<le> md_max_depth m"
    using m by (simp_all add: mandate_wf_def)
  have bud: "budget_from_scaled (map_of (rev (map (\<lambda>d. (d, budget_units m d)) sorted_dimensions)))
      = Inr (md_budget m)"
    by (rule budget_from_scaled_ok[OF wf(1)]) (simp only: map_of_rev_sorted budget_units_def)
  have units: "map_of (rev (map (\<lambda>d. (d, budget_units m d)) sorted_dimensions))
      = (\<lambda>d. Some (budget_units m d))"
    by (rule ext) (rule map_of_rev_sorted)
  obtain facts' checks' where rows: "authority_facts m = Inr facts'" "authority_checks m = Inr checks'"
    "\<And>p. fact_rows p checks' = []"
    "fact_rows ''budget'' facts' = map (\<lambda>d. [TStr (dimension_value d), TInt (budget_units m d)]) sorted_dimensions"
    "fact_rows ''scope'' facts' = map (\<lambda>s. [TStr s]) (sorted_list_of_set (md_scopes m))"
    "fact_rows ''mandate'' facts' = [[TStr (uuid_str (mandate_id m))]]"
    "fact_rows ''task'' facts' = [[TStr (uuid_str (md_task_id m))]]"
    "fact_rows ''principal'' facts' = [[TStr (md_principal_id m)]]"
    "fact_rows ''intent'' facts' = [[TStr (md_intent_hash m)]]"
    "fact_rows ''max_depth'' facts' = [[TInt (md_max_depth m)]]"
    "fact_rows ''not_before'' facts' = [[datalog_date (md_not_before m)]]"
    "fact_rows ''expires_at'' facts' = [[datalog_date (md_expires_at m)]]"
    using authority_ok[OF m] by blast
  have same: "facts' = facts" "checks' = checks" using rows(1,2) blk by simp_all
  note rows' = rows(3-)[unfolded same]
  have req: "required_fact lib b p = Inr v" if "fact_rows p facts = [[v]]" for p v
    using that by (simp add: required_fact_def query_one_def q' fact_rows_append rows' require_def)
  have all: "query_all lib b p = Inr (fact_rows p facts)" for p
    by (simp add: query_all_def q' fact_rows_append rows')
  have uuids: "as_uuid lib (TStr (uuid_str u)) = Inr u" if "uuid_ok u" for u
    using that by (simp add: as_uuid_def str uuid_roundtrip)
  show ?thesis
    using size wf fin
    by (simp add: verify_def parse req rows' all uuids Let_def datalog_date_def bud[unfolded units] str
        budget_entries[OF str] image_image granted_token_def minted_token_def units not_le)
qed

lemma mint_verify_exact:
  assumes m: "mandate_wf m" and fin: "finite (md_scopes m)"
    and blk: "authority_facts m = Inr facts" "authority_checks m = Inr checks"
    and lib: "reads_back lib sk pk (facts @ checks)"
    and mint: "mint_root lib m sk = Inr tok"
    and t: "seconds (md_not_before m div 1000000) \<le> t" "t < seconds (md_expires_at m div 1000000)"
  shows "verify lib tok [pk] (Aware t)
           = Inr (minted_token lib m (bl_build lib (facts @ checks) sk) tok)"
proof -
  let ?b = "bl_build lib (facts @ checks) sk"
  from mint blk have tok: "tok = bl_to_base64 lib ?b" and size: "length tok \<le> HARD_SIZE_LIMIT_B64"
    by (auto simp: mint_root_def Let_def split: if_splits)
  from lib have parse: "parse_biscuit lib tok [pk] = Inr ?b" and one: "bl_block_count lib ?b = 1"
    and q: "answers_with lib ?b (facts @ checks)" and str: "\<And>s. bl_str lib (TStr s) = s"
    by (auto simp: reads_back_def Let_def parse_biscuit_def answers_with_def tok dest: strip_nonempty)
  have "1 \<le> md_max_depth m" using m by (simp add: mandate_wf_def)
  then show ?thesis using verify_exact[OF m fin blk q str parse size, of t] t one
    by (simp add: granted_token_def minted_token_def)
qed

section \<open>Properties\<close>

lemma verify_accepts:
  assumes "verify lib tok keys dt = Inr vt"
  shows "\<exists>t. dt = Aware t \<and> vt_not_before vt \<le> t \<and> t < vt_expires_at vt
    \<and> length tok \<le> HARD_SIZE_LIMIT_B64 \<and> strip tok \<noteq> []
    \<and> (\<exists>k \<in> set keys. bl_from_base64 lib tok k = Some (vt_biscuit vt))
    \<and> vt_depth vt = bl_block_count lib (vt_biscuit vt) - 1 \<and> vt_depth vt \<le> vt_max_depth vt
    \<and> budget_wf (vt_budget vt) \<and> budget_from_scaled (vt_scaled_budget vt) = Inr (vt_budget vt)"
  using assms
  by (auto simp: verify_def Let_def parse_biscuit_def budget_from_scaled_wf
           dest!: try_keys_Inr split: if_splits)

text \<open>
  C13: A token \<open>verify\<close> accepts was presented at an aware instant inside its validity window
  (start inclusive, end exclusive), is within the size limit, parses under one of the accepted
  root keys, is no deeper than its mandate allows with the depth taken from the block count,
  and carries a valid budget.
\<close>
theorem verify_sound:
  assumes "verify lib tok keys dt = Inr vt"
  shows "\<exists>t. dt = Aware t \<and> vt_not_before vt \<le> t \<and> t < vt_expires_at vt
    \<and> length tok \<le> HARD_SIZE_LIMIT_B64 \<and> strip tok \<noteq> []
    \<and> (\<exists>k \<in> set keys. bl_from_base64 lib tok k = Some (vt_biscuit vt))
    \<and> vt_depth vt = bl_block_count lib (vt_biscuit vt) - 1 \<and> vt_depth vt \<le> vt_max_depth vt
    \<and> budget_wf (vt_budget vt) \<and> budget_from_scaled (vt_scaled_budget vt) = Inr (vt_budget vt)"
  by (rule verify_accepts[OF assms])

text \<open>
  C14: Minting a root token and verifying it under the matching key gives the mandate back:
  with a library that reads back what it signed, any instant in the window the token states
  (the mandate's bounds, cut to whole seconds) verifies to the same identifiers, principal,
  intent, scopes, budget and depth cap, at depth 0.
\<close>
theorem mint_verify_roundtrip:
  assumes m: "mandate_wf m" and fin: "finite (md_scopes m)"
    and blk: "authority_facts m = Inr facts" "authority_checks m = Inr checks"
    and lib: "reads_back lib sk pk (facts @ checks)"
    and mint: "mint_root lib m sk = Inr tok"
    and t: "seconds (md_not_before m div 1000000) \<le> t" "t < seconds (md_expires_at m div 1000000)"
  shows "\<exists>vt. verify lib tok [pk] (Aware t) = Inr vt
    \<and> vt_mandate_id vt = mandate_id m \<and> vt_task_id vt = md_task_id m
    \<and> vt_principal_id vt = md_principal_id m \<and> vt_intent_hash vt = md_intent_hash m
    \<and> vt_scopes vt = md_scopes m \<and> vt_budget vt = md_budget m
    \<and> vt_max_depth vt = md_max_depth m \<and> vt_depth vt = 0"
  using mint_verify_exact[OF assms] by (simp add: minted_token_def)

text \<open>
  \<open>authorize_request\<close> fails closed: it reports no failure exactly when biscuit authorized the
  request, an exhausted engine limit is an error rather than a denial, and every failure it
  reports carries a reason code other than \<open>OK\<close>.
\<close>
theorem authorize_request_fails_closed:
  assumes F: "request_context_datalog ctx = Inr F"
  shows "case bl_authorize lib (vt_biscuit vt) F of
      Authorized_ok \<Rightarrow> authorize_request lib vt ctx = Inr None
    | AuthorizationFailed detail \<Rightarrow>
        (if contains_sub ''execution limits'' detail
         then authorize_request lib vt ctx = Inl VerificationLimitError
         else \<exists>f. authorize_request lib vt ctx = Inr (Some f) \<and> af_reason_code f \<noteq> OK)"
  by (simp add: authorize_request_def F first_failure_not_ok split: auth_outcome.splits)

section \<open>Witnesses\<close>

definition demo_mandate :: mandate where
  "demo_mandate =
     \<lparr>mandate_id = 11, md_task_id = 12, md_principal_id = ''alice'',
      md_intent_hash = replicate 64 CHR ''a'', md_scopes = {''orders:read'', ''orders:write''},
      md_budget = demo_budget, md_max_depth = 3, md_not_before = seconds 5,
      md_expires_at = seconds 100\<rparr>"

definition demo_facts_block :: "dl_stmt list" where
  "demo_facts_block = (case authority_facts demo_mandate of Inr f \<Rightarrow> f | Inl _ \<Rightarrow> [])"

definition demo_checks_block :: "dl_stmt list" where
  "demo_checks_block = (case authority_checks demo_mandate of Inr c \<Rightarrow> c | Inl _ \<Rightarrow> [])"

text \<open>
  A library that holds its blocks in the clear, knows one token and accepts one key; it runs
  the checks of every block with the reference engine.
\<close>

definition demo_lib :: "(dl_stmt list list, nat) biscuit_lib" where
  "demo_lib =
     \<lparr>bl_build = (\<lambda>stmts k. [stmts]), bl_append = (\<lambda>b stmts. b @ [stmts]),
      bl_to_base64 = (\<lambda>b. ''token''),
      bl_from_base64 = (\<lambda>t k. if t = ''token'' \<and> k = 7
                              then Some [demo_facts_block @ demo_checks_block] else None),
      bl_query = (\<lambda>b p. Some (fact_rows p (hd b))), bl_block_count = (\<lambda>b. int (length b)),
      bl_revocation_ids = (\<lambda>b. map (\<lambda>_. ''rid'') b),
      bl_authorize = (\<lambda>b F. if list_all (clause_holds (hd b @ F)) (concat b) then Authorized_ok
                             else AuthorizationFailed ''Check n.0 in block n.1: check if tool($t)''),
      bl_str = (\<lambda>t. case t of TStr s \<Rightarrow> s | _ \<Rightarrow> [])\<rparr>"

lemma demo_mandate_wf: "mandate_wf demo_mandate"
proof -
  have "label_ok ''alice''"
    by (simp add: validate_label_def code_points_def unsafe_label_code_def MAX_LABEL_LENGTH_def)
  moreover have "hex64_re (replicate 64 CHR ''a'')"
    by (simp add: hex64_re_def dollar_def newline_def hex_char_def list_all_iff)
  moreover have "scope_re ''orders:read''" "scope_re ''orders:write''" by code_simp+
  ultimately show ?thesis
    using budgets_wf by (simp add: mandate_wf_def demo_mandate_def uuid_ok_def MAX_DELEGATION_DEPTH_def)
qed

lemma demo_blocks: "authority_facts demo_mandate = Inr demo_facts_block"
  "authority_checks demo_mandate = Inr demo_checks_block"
  using authority_ok[OF demo_mandate_wf]
  by (metis demo_facts_block_def demo_checks_block_def sum.simps(6))+

lemma demo_mint: "mint_root demo_lib demo_mandate 3 = Inr ''token''"
  by (simp add: mint_root_def demo_blocks demo_lib_def HARD_SIZE_LIMIT_B64_def)

lemma demo_reads_back: "reads_back demo_lib 3 7 (demo_facts_block @ demo_checks_block)"
proof -
  have "strip ''token'' \<noteq> []" by code_simp
  then show ?thesis by (simp add: reads_back_def demo_lib_def)
qed

lemma demo_scopes_finite: "finite (md_scopes demo_mandate)"
  by (simp add: demo_mandate_def)

lemma demo_window:
  "seconds (md_not_before demo_mandate div 1000000) \<le> seconds 10"
  "seconds 10 < seconds (md_expires_at demo_mandate div 1000000)"
  by (simp_all add: demo_mandate_def)

theorem mint_verify_roundtrip_witness:
  "\<exists>vt. verify demo_lib ''token'' [7] (Aware (seconds 10)) = Inr vt
     \<and> vt_mandate_id vt = 11 \<and> vt_scopes vt = {''orders:read'', ''orders:write''}
     \<and> vt_budget vt = demo_budget"
  using mint_verify_roundtrip[OF demo_mandate_wf demo_scopes_finite demo_blocks demo_reads_back
      demo_mint demo_window]
  by (auto simp: demo_mandate_def)

definition demo_token :: "(dl_stmt list list) verified_token" where
  "demo_token = minted_token demo_lib demo_mandate [demo_facts_block @ demo_checks_block] ''token''"

lemma demo_verifies: "verify demo_lib ''token'' [7] (Aware (seconds 10)) = Inr demo_token"
proof -
  have "bl_build demo_lib s 3 = [s]" for s by (simp add: demo_lib_def)
  then show ?thesis
    using mint_verify_exact[OF demo_mandate_wf demo_scopes_finite demo_blocks demo_reads_back
        demo_mint demo_window] by (simp add: demo_token_def)
qed

theorem verify_sound_witness:
  "verify demo_lib ''token'' [7] (Aware (seconds 10)) = Inr demo_token
     \<and> vt_not_before demo_token \<le> seconds 10 \<and> seconds 10 < vt_expires_at demo_token
     \<and> vt_depth demo_token \<le> vt_max_depth demo_token"
  using verify_sound[OF demo_verifies] demo_verifies by auto

theorem authorize_request_fails_closed_witness:
  "\<exists>f. authorize_request demo_lib demo_token demo_context = Inr (Some f) \<and> af_reason_code f \<noteq> OK"
proof -
  have "bl_authorize demo_lib (vt_biscuit demo_token) demo_facts
      = AuthorizationFailed ''Check n.0 in block n.1: check if tool($t)''"
    "\<not> contains_sub ''execution limits'' ''Check n.0 in block n.1: check if tool($t)''"
    by code_simp+
  then show ?thesis
    using authorize_request_fails_closed[OF demo_facts_ok, of demo_lib demo_token] by simp
qed

end
