(* ===== verification/Hashing.thy ===== *)
theory Hashing
  imports Tokens "HOL-Library.Multiset"
begin

text \<open>
  \<open>agentiam_core/hashing.py\<close>: canonical JSON and the hashes over it.

  A \<open>pvalue\<close> is the run-time type the encoder dispatches on.  An enum member is the value it wraps.
  \<open>PyMinusZero\<close> is the \<open>Decimal\<close> -0, which equals 0 and is printed with its sign.
  Unicode normalization (\<open>unicodedata.normalize("NFC", _)\<close>) is a parameter of type \<open>normalizer\<close>: any map of
  texts that is idempotent and leaves ASCII alone, applied to every string and key where the code
  applies it.  It comes with SHA-256 in the argument \<open>sha\<close> of the definitions that hash.

  The lemmas show that canonical JSON loses nothing of a JSON value but the order of its keys and
  the form its texts are written in: the encoding is a prefix code, so two values with the same
  bytes are equal once their texts are normalized and their keys sorted.
\<close>

section \<open>Values\<close>

datatype pvalue =
    PyNone | PyBool bool | PyInt int | PyFloat | PyDecimal dec | PyMinusZero | PyStr string
  | PyDatetime datetime | PyUuid uuid
  | PyMap "(string \<times> pvalue) list" | PySet "pvalue list" | PyList "pvalue list" | PyOther

lemma bindE_cong [fundef_cong]:
  "m = m' \<Longrightarrow> (\<And>x. m' = Inr x \<Longrightarrow> f x = g x) \<Longrightarrow> bindE m f = bindE m' g"
  by (cases m') auto

lemma traverseE_cong [fundef_cong]:
  "xs = ys \<Longrightarrow> (\<And>x. x \<in> set ys \<Longrightarrow> f x = g x) \<Longrightarrow> traverseE f xs = traverseE g ys"
proof (induction xs arbitrary: ys)
  case (Cons x xs)
  then show ?case by (cases ys) auto
qed simp

section \<open>Normalization\<close>

definition ascii_text :: "string \<Rightarrow> bool" where
  "ascii_text s = list_all (\<lambda>c. c < CHR 0x80) s"

typedef normalizer = "{f :: string \<Rightarrow> string. (\<forall>s. f (f s) = f s) \<and> (\<forall>s. ascii_text s \<longrightarrow> f s = s)}"
  morphisms nfc Normalizer
  by (rule exI[of _ "\<lambda>s. s"]) simp

setup_lifting type_definition_normalizer

lemma nfc_idem [simp]: "nfc u (nfc u s) = nfc u s"
  using nfc[of u] by simp

lemma nfc_ascii: "ascii_text s \<Longrightarrow> nfc u s = s"
  using nfc[of u] by simp

text \<open>NFC on texts of code points below U+0100, all of which are their own normal form.\<close>

lift_definition latin_nfc :: normalizer is "\<lambda>s. s"
  by simp

lemma latin_nfc_apply [simp]: "nfc latin_nfc s = s"
  by transfer simp

record hasher =
  hs_nfc :: normalizer
  hs_sha :: "string \<Rightarrow> string"

section \<open>Literals\<close>

fun nat_str :: "nat \<Rightarrow> string" where
  "nat_str n = (if n < 10 then [char_of (48 + n)] else nat_str (n div 10) @ [char_of (48 + n mod 10)])"

declare nat_str.simps [simp del]

definition int_str :: "int \<Rightarrow> string" where
  "int_str i = (if i < 0 then CHR ''-'' # nat_str (nat (- i)) else nat_str (nat i))"

text \<open>Python refuses to convert an integer of more than 4300 digits to a string.\<close>

definition int_str_limit :: int where
  "int_str_limit = 10 ^ 4300"

definition esc :: "char \<Rightarrow> string" where
  "esc c =
     (if c = CHR 0x22 then [CHR 0x5C, CHR 0x22]
      else if c = CHR 0x5C then [CHR 0x5C, CHR 0x5C]
      else if c = CHR 0x0A then [CHR 0x5C, CHR ''n'']
      else if c = CHR 0x0D then [CHR 0x5C, CHR ''r'']
      else if c = CHR 0x09 then [CHR 0x5C, CHR ''t'']
      else if c < CHR 0x20 \<or> c = CHR 0x7F then [CHR 0x5C, CHR ''u''] @ hex_digits 4 (of_char c)
      else [c])"

definition literal :: "string \<Rightarrow> string" where
  "literal s = [CHR 0x22] @ concat (map esc s) @ [CHR 0x22]"

definition encode_str :: "normalizer \<Rightarrow> string \<Rightarrow> string" where
  "encode_str u s = literal (nfc u s)"

text \<open>
  \<open>quantize\<close> works at the context's 28 digits, so a magnitude of \<open>10 ^ 24\<close> or more is refused; a
  value that four places do not hold exactly is refused too.
\<close>

definition fixed4 :: "decimal \<Rightarrow> string" where
  "fixed4 d =
     (let n = nat \<lfloor>\<bar>d\<bar> * 10000\<rfloor>
      in (if d < 0 then ''-'' else []) @ nat_str (n div 10000) @ ''.''
         @ map (\<lambda>k. char_of (48 + n div 10 ^ k mod 10)) [3, 2, 1, 0])"

fun encode_decimal :: "normalizer \<Rightarrow> dec \<Rightarrow> string py" where
  "encode_decimal u (Fin d) =
     (if \<bar>d\<bar> \<ge> 10 ^ 24 \<or> \<not> whole (d * 10000) then Inl CanonicalizationError
      else Inr (encode_str u (fixed4 d)))"
| "encode_decimal u _ = Inl CanonicalizationError"

text \<open>
  \<open>strftime\<close> of a UTC instant: the civil date of a day number counted from 1970-01-01, in the
  proleptic Gregorian calendar.
\<close>

definition civil_date :: "int \<Rightarrow> int \<times> int \<times> int" where
  "civil_date days =
     (let z = days + 719468; era = z div 146097; doe = z - era * 146097;
          yoe = (doe - doe div 1460 + doe div 36524 - doe div 146096) div 365;
          doy = doe - (365 * yoe + yoe div 4 - yoe div 100);
          mp = (5 * doy + 2) div 153; d = doy - (153 * mp + 2) div 5 + 1;
          m = (if mp < 10 then mp + 3 else mp - 9);
          y = yoe + era * 400 + (if m \<le> 2 then 1 else 0)
      in (y, m, d))"

definition two_digits :: "int \<Rightarrow> string" where
  "two_digits n = [char_of (48 + nat n div 10), char_of (48 + nat n mod 10)]"

definition utc_text :: "instant \<Rightarrow> string" where
  "utc_text t =
     (let s = t div 1000000; days = s div 86400; r = s - days * 86400; (y, m, d) = civil_date days
      in int_str y @ ''-'' @ two_digits m @ ''-'' @ two_digits d @ ''T'' @ two_digits (r div 3600)
         @ '':'' @ two_digits (r div 60 mod 60) @ '':'' @ two_digits (r mod 60) @ ''Z'')"

fun encode_datetime :: "normalizer \<Rightarrow> datetime \<Rightarrow> string py" where
  "encode_datetime u (Aware t) = Inr (encode_str u (utc_text t))"
| "encode_datetime u (Naive t) = Inl CanonicalizationError"

section \<open>The encoder\<close>

fun join_comma :: "string list \<Rightarrow> string" where
  "join_comma [] = []"
| "join_comma [x] = x"
| "join_comma (x # xs) = x @ '','' @ join_comma xs"

text \<open>
  \<open>sorted\<close> of the pairs of a normalized key and its value.  Two keys may share a normal form; then the
  values are compared: numbers with numbers, and otherwise two of one comparable type, or it raises.
\<close>

fun number_of :: "pvalue \<Rightarrow> dec option" where
  "number_of (PyBool b) = Some (Fin (if b then 1 else 0))"
| "number_of (PyInt i) = Some (Fin (of_int i))"
| "number_of (PyDecimal d) = Some d"
| "number_of PyMinusZero = Some (Fin 0)"
| "number_of _ = None"

lemma first_difference: "dropWhile P (zip as bs) = (a, b) # rest \<Longrightarrow> size a < Suc (size_list size as)"
  by (induction as bs rule: list_induct2') (auto split: if_splits)

function value_less :: "pvalue \<Rightarrow> pvalue \<Rightarrow> bool py" where
  "value_less v w =
     (case (number_of v, number_of w) of
        (Some x, Some y) \<Rightarrow> dec_lt x y
      | _ \<Rightarrow>
          (case (v, w) of
             (PyStr a, PyStr b) \<Rightarrow> Inr (a < b)
           | (PyUuid a, PyUuid b) \<Rightarrow> Inr (a < b)
           | (PyDatetime (Aware a), PyDatetime (Aware b)) \<Rightarrow> Inr (a < b)
           | (PyDatetime (Naive a), PyDatetime (Naive b)) \<Rightarrow> Inr (a < b)
           | (PySet as, PySet bs) \<Rightarrow> Inr (set as \<subset> set bs)
           | (PyList as, PyList bs) \<Rightarrow>
               (case dropWhile (\<lambda>(a, b). a = b) (zip as bs) of
                  [] \<Rightarrow> Inr (length as < length bs)
                | (a, b) # _ \<Rightarrow> value_less a b)
           | _ \<Rightarrow> Inl TypeError))"
  by pat_completeness auto
termination
  by (relation "measure (\<lambda>(v, w). size v)") (auto dest: first_difference)

definition item_less :: "string \<times> pvalue \<Rightarrow> string \<times> pvalue \<Rightarrow> bool py" where
  "item_less x y =
     (if fst x \<noteq> fst y then Inr (fst x < fst y) else if snd x = snd y then Inr False else value_less (snd x) (snd y))"

fun insert_item :: "string \<times> pvalue \<Rightarrow> (string \<times> pvalue) list \<Rightarrow> (string \<times> pvalue) list py" where
  "insert_item x [] = Inr [x]"
| "insert_item x (y # ys) =
     bindE (item_less y x) (\<lambda>before. if before then bindE (insert_item x ys) (\<lambda>zs. Inr (y # zs)) else Inr (x # y # ys))"

fun sort_items :: "(string \<times> pvalue) list \<Rightarrow> (string \<times> pvalue) list py" where
  "sort_items [] = Inr []"
| "sort_items (x # xs) = bindE (sort_items xs) (insert_item x)"

lemma insert_item_set: "insert_item x ys = Inr zs \<Longrightarrow> set zs = insert x (set ys)"
  by (induction ys arbitrary: zs) (auto split: if_splits)

lemma sort_items_set: "sort_items xs = Inr ys \<Longrightarrow> set ys = set xs"
  by (induction xs arbitrary: ys) (auto dest: insert_item_set)

function (sequential) encode :: "normalizer \<Rightarrow> pvalue \<Rightarrow> string py" where
  "encode u PyNone = Inr ''null''"
| "encode u (PyBool b) = Inr (if b then ''true'' else ''false'')"
| "encode u PyFloat = Inl CanonicalizationError"
| "encode u (PyDecimal d) = encode_decimal u d"
| "encode u PyMinusZero = Inr (encode_str u (CHR ''-'' # fixed4 0))"
| "encode u (PyInt i) = (if \<bar>i\<bar> < int_str_limit then Inr (int_str i) else Inl ValueError)"
| "encode u (PyStr s) = Inr (encode_str u s)"
| "encode u (PyDatetime t) = encode_datetime u t"
| "encode u (PyUuid i) = Inr (encode_str u (uuid_str i))"
| "encode u (PyMap items) = 
     bindE (sort_items (map (\<lambda>(k, v). (nfc u k, v)) items)) (\<lambda>sorted_items.
       bindE (traverseE (\<lambda>(k, v). bindE (encode u v) (\<lambda>e. Inr (encode_str u k @ '':'' @ e))) sorted_items)
         (\<lambda>es. Inr (''{'' @ join_comma es @ ''}'')))"
| "encode u (PySet vs) =
     bindE (traverseE (encode u) vs) (\<lambda>es. Inr (''['' @ join_comma (sort es) @ '']''))"
| "encode u (PyList vs) =
     bindE (traverseE (encode u) vs) (\<lambda>es. Inr (''['' @ join_comma es @ '']''))"
| "encode u PyOther = Inl CanonicalizationError"
  by pat_completeness auto
termination
proof (relation "measure (\<lambda>(u, v). size v)", goal_cases)
  case (2 u items sorted_items x k v)
  then have "(k, v) \<in> set (map (\<lambda>(k, v). (nfc u k, v)) items)" using sort_items_set by fastforce
  then obtain k' where "(k', v) \<in> set items" by auto
  then have "size v < Suc (size_list (size_prod (\<lambda>_. 0) size) items)"
    using size_list_estimation'[of "(k', v)" items "size v" "size_prod (\<lambda>_. 0) size"] by simp
  then show ?case by simp
qed (auto simp: less_Suc_eq_le size_list_estimation')

definition utf8_char :: "char \<Rightarrow> string" where
  "utf8_char c =
     (let n = of_char c :: nat in
      if n < 128 then [c] else [char_of (192 + n div 64), char_of (128 + n mod 64)])"

definition utf8 :: "string \<Rightarrow> string" where
  "utf8 s = concat (map utf8_char s)"

definition canonical_json :: "normalizer \<Rightarrow> pvalue \<Rightarrow> string py" where
  "canonical_json u v = bindE (encode u v) (\<lambda>s. Inr (utf8 s))"

definition hash_object :: "hasher \<Rightarrow> pvalue \<Rightarrow> string py" where
  "hash_object sha v = bindE (canonical_json (hs_nfc sha) v) (\<lambda>b. Inr (hs_sha sha b))"

definition intent_hash_of :: "hasher \<Rightarrow> string \<Rightarrow> string py" where
  "intent_hash_of sha description = hash_object sha (PyStr description)"

definition link_value :: "string option \<Rightarrow> pvalue \<Rightarrow> pvalue" where
  "link_value prev r =
     PyMap [(''prev'', case prev of None \<Rightarrow> PyNone | Some h \<Rightarrow> PyStr h), (''record'', r)]"

definition chain_hash :: "hasher \<Rightarrow> string option \<Rightarrow> pvalue \<Rightarrow> string py" where
  "chain_hash sha prev r = hash_object sha (link_value prev r)"

section \<open>JSON values and their canonical form\<close>

fun json :: "normalizer \<Rightarrow> pvalue \<Rightarrow> bool" where
  "json u PyNone = True"
| "json u (PyBool b) = True"
| "json u (PyInt i) = (\<bar>i\<bar> < int_str_limit)"
| "json u (PyStr s) = True"
| "json u (PyList vs) = list_all (json u) vs"
| "json u (PyMap items) = (distinct (map (nfc u \<circ> fst) items) \<and> list_all (\<lambda>(k, v). json u v) items)"
| "json u _ = False"

fun canon :: "normalizer \<Rightarrow> pvalue \<Rightarrow> pvalue" where
  "canon u (PyStr s) = PyStr (nfc u s)"
| "canon u (PyList vs) = PyList (map (canon u) vs)"
| "canon u (PyMap items) = PyMap (sort_key fst (map (\<lambda>(k, v). (nfc u k, canon u v)) items))"
| "canon u v = v"

text \<open>The text of a value whose keys are in order.\<close>

fun text_of :: "pvalue \<Rightarrow> string" where
  "text_of PyNone = ''null''"
| "text_of (PyBool b) = (if b then ''true'' else ''false'')"
| "text_of (PyInt i) = int_str i"
| "text_of (PyStr s) = literal s"
| "text_of (PyList vs) = ''['' @ join_comma (map text_of vs) @ '']''"
| "text_of (PyMap items) = ''{'' @ join_comma (map (\<lambda>(k, v). literal k @ '':'' @ text_of v) items) @ ''}''"
| "text_of _ = []"

section \<open>Lemmas on literals\<close>

lemma small_int: "\<bar>i\<bar> < 10 ^ 18 \<Longrightarrow> \<bar>i\<bar> < int_str_limit"
proof -
  have "(10 :: int) ^ 18 < 10 ^ 4300" by (rule power_strict_increasing) simp_all
  then show "\<bar>i\<bar> < 10 ^ 18 \<Longrightarrow> \<bar>i\<bar> < int_str_limit" unfolding int_str_limit_def by linarith
qed

definition num_char :: "char \<Rightarrow> bool" where
  "num_char c = (c = CHR ''-'' \<or> (CHR ''0'' \<le> c \<and> c \<le> CHR ''9''))"

definition digit_value :: "char \<Rightarrow> nat" where
  "digit_value c = of_char c - 48"

lemma digit_facts:
  assumes "k < 10"
  shows "num_char (char_of (48 + k)) \<and> char_of (48 + k) \<noteq> CHR ''-'' \<and> digit_value (char_of (48 + k)) = (k :: nat)"
proof -
  have "\<forall>k \<in> set [0..<10]. num_char (char_of (48 + k)) \<and> char_of (48 + k) \<noteq> CHR ''-''
      \<and> digit_value (char_of (48 + k)) = k" by code_simp
  then show ?thesis using assms by simp
qed

lemma nat_str_digits: "\<forall>c \<in> set (nat_str n). num_char c \<and> c \<noteq> CHR ''-''"
proof (induction n rule: nat_str.induct)
  case (1 n)
  then show ?case using digit_facts by (subst nat_str.simps) auto
qed

lemma nat_str_value: "foldl (\<lambda>a c. 10 * a + digit_value c) 0 (nat_str n) = n"
proof (induction n rule: nat_str.induct)
  case (1 n)
  then show ?case using digit_facts by (subst nat_str.simps) auto
qed

lemma nat_str_inj: "nat_str m = nat_str n \<longleftrightarrow> m = n"
  using nat_str_value by metis

lemma nat_str_nonempty: "nat_str n \<noteq> []"
  by (subst nat_str.simps) simp

lemma int_str_num: "\<forall>c \<in> set (int_str i). num_char c"
proof -
  have "num_char CHR ''-''" by (simp add: num_char_def)
  then show ?thesis using nat_str_digits by (simp add: int_str_def)
qed

lemma int_str_nonempty: "int_str i \<noteq> []"
  using nat_str_nonempty by (simp add: int_str_def)

lemma int_str_inj: "int_str i = int_str j \<longleftrightarrow> i = j"
proof
  assume eq: "int_str i = int_str j"
  have no_minus: "nat_str n \<noteq> CHR ''-'' # cs" for n cs
    using nat_str_digits by (metis list.set_intros(1))
  show "i = j"
  proof (cases "i < 0"; cases "j < 0")
    assume "i < 0" "j < 0"
    then show ?thesis using eq by (simp add: int_str_def nat_str_inj)
  next
    assume "\<not> i < 0" "\<not> j < 0"
    then show ?thesis using eq by (simp add: int_str_def nat_str_inj)
  next
    assume "i < 0" "\<not> j < 0"
    then show ?thesis using eq not_sym[OF no_minus[of "nat j" "nat_str (nat (- i))"]] by (simp add: int_str_def)
  next
    assume "\<not> i < 0" "j < 0"
    then show ?thesis using eq no_minus[of "nat i"] by (simp add: int_str_def)
  qed
qed simp

text \<open>What may follow a value inside a larger text.\<close>

definition delimited :: "string \<Rightarrow> bool" where
  "delimited r = (case r of [] \<Rightarrow> True | c # _ \<Rightarrow> c \<in> {CHR '','', CHR '']'', CHR ''}''})"

lemma delimited_simps [simp]:
  "delimited []" "delimited (c # r) \<longleftrightarrow> c \<in> {CHR '','', CHR '']'', CHR ''}''}"
  by (simp_all add: delimited_def)

lemma delimited_num: "delimited r \<Longrightarrow> takeWhile num_char r = []"
  by (cases r) (auto simp: num_char_def less_eq_char_def)

lemma int_prefix:
  assumes "int_str i @ r = int_str j @ s" "delimited r" "delimited s"
  shows "i = j \<and> r = s"
proof -
  have "takeWhile num_char (int_str k @ t) = int_str k" if "delimited t" for k t
    using int_str_num[of k] delimited_num[OF that] by (simp add: takeWhile_append2)
  then have "int_str i = int_str j" using assms by metis
  then show ?thesis using assms(1) int_str_inj by simp
qed

text \<open>Reading one escaped character back.\<close>

definition unesc :: "string \<Rightarrow> char \<times> string" where
  "unesc xs =
     (if hd xs \<noteq> CHR 0x5C then (hd xs, tl xs)
      else if hd (tl xs) = CHR ''n'' then (CHR 0x0A, tl (tl xs))
      else if hd (tl xs) = CHR ''r'' then (CHR 0x0D, tl (tl xs))
      else if hd (tl xs) = CHR ''t'' then (CHR 0x09, tl (tl xs))
      else if hd (tl xs) = CHR ''u''
      then (char_of (foldl (\<lambda>a c. 16 * a + the (hex_value c)) 0 (take 4 (tl (tl xs)))), drop 6 xs)
      else (hd (tl xs), tl (tl xs)))"

lemma unesc_esc: "unesc (esc c @ r) = (c, r)"
proof -
  have "of_char c mod 16 ^ 4 = (of_char c :: nat)" by (rule mod_less) (rule less_trans[OF nat_of_char_less_256], simp)
  then have "char_of (foldl (\<lambda>a c. 16 * a + the (hex_value c)) 0 (hex_digits 4 (of_char c))) = c"
    by (simp only: foldl_hex_digits mult_zero_left add_0 char_of_char)
  moreover have "length (hex_digits 4 (of_char c)) = 4" by simp
  ultimately show ?thesis by (simp add: esc_def unesc_def)
qed

lemma esc_prefix: "esc c @ r = esc d @ s \<Longrightarrow> c = d \<and> r = s"
  using unesc_esc by (metis prod.inject)

lemma esc_Cons: "\<exists>c' cs. esc c = c' # cs \<and> c' \<noteq> CHR 0x22"
  by (cases "c = CHR 0x22") (simp_all add: esc_def)

lemma literal_prefix:
  assumes "literal s @ r = literal t @ q" shows "s = t \<and> r = q"
proof -
  have "concat (map esc s) @ CHR 0x22 # r = concat (map esc t) @ CHR 0x22 # q \<Longrightarrow> s = t \<and> r = q" for r q
  proof (induction s arbitrary: t)
    case Nil
    then show ?case
    proof (cases t)
      case (Cons d t')
      then show ?thesis using Nil esc_Cons[of d] by auto
    qed simp
  next
    case (Cons c s)
    show ?case
    proof (cases t)
      case Nil
      then show ?thesis using Cons.prems esc_Cons[of c] by auto
    next
      case t: (Cons d t')
      then show ?thesis using Cons esc_prefix[of c "concat (map esc s) @ CHR 0x22 # r" d] by auto
    qed
  qed
  then show ?thesis using assms by (simp add: literal_def)
qed

lemma literal_Cons: "literal s = CHR 0x22 # concat (map esc s) @ [CHR 0x22]"
  by (simp add: literal_def)

section \<open>The text of a value is a prefix code\<close>

definition tag_of :: "char \<Rightarrow> nat" where
  "tag_of c =
     (if c = CHR ''n'' then 0 else if c = CHR ''t'' then 1 else if c = CHR ''f'' then 2
      else if c = CHR 0x22 then 3 else if c = CHR ''['' then 4 else if c = CHR ''{'' then 5
      else if num_char c then 6 else 7)"

fun tag :: "pvalue \<Rightarrow> nat" where
  "tag PyNone = 0"
| "tag (PyBool b) = (if b then 1 else 2)"
| "tag (PyStr s) = 3"
| "tag (PyList vs) = 4"
| "tag (PyMap items) = 5"
| "tag (PyInt i) = 6"
| "tag _ = 7"

lemma tag_num: "num_char c \<Longrightarrow> tag_of c = 6"
  by (auto simp: tag_of_def num_char_def less_eq_char_def)

lemma text_head: "json n v \<Longrightarrow> text_of v \<noteq> [] \<and> tag_of (hd (text_of v)) = tag v"
proof (cases v)
  case (PyInt i)
  then show ?thesis using int_str_nonempty[of i] int_str_num[of i] by (simp add: tag_num)
qed (simp_all add: literal_Cons tag_of_def)

lemma text_not_close: "json n v \<Longrightarrow> text_of v \<noteq> [] \<and> hd (text_of v) \<noteq> CHR '']''"
proof -
  assume v: "json n v"
  have "tag_of CHR '']'' = 7" by (simp add: tag_of_def num_char_def less_eq_char_def)
  moreover have "tag v \<noteq> 7" using v by (cases v) simp_all
  ultimately show ?thesis using text_head[OF v] by metis
qed

text \<open>Two comma-separated lists of such texts, each closed by its bracket.\<close>

lemma join_prefix:
  assumes "\<And>v w r s. v \<in> set vs \<Longrightarrow> P w \<Longrightarrow> f v @ r = f w @ s \<Longrightarrow> delimited r \<Longrightarrow> delimited s \<Longrightarrow> v = w \<and> r = s"
    and "list_all P vs" "list_all P ws"
    and "\<And>v. P v \<Longrightarrow> f v \<noteq> [] \<and> hd (f v) \<noteq> close" "close \<in> {CHR '']'', CHR ''}''}"
    and "join_comma (map f vs) @ close # r = join_comma (map f ws) @ close # s"
  shows "vs = ws \<and> r = s"
  using assms(1-3,6)
proof (induction vs arbitrary: ws)
  case Nil
  show ?case
  proof (cases ws)
    case (Cons w ws')
    then have "f w \<noteq> []" "hd (f w) \<noteq> close" "join_comma (map f ws) = f w @ (if ws' = [] then [] else '','' @ join_comma (map f ws'))"
      using Nil.prems(3) assms(4) by (cases ws'; simp)+
    then show ?thesis using Nil.prems(4) by (cases "f w") auto
  qed (use Nil in simp)
next
  case (Cons v vs)
  have split: "join_comma (map f (x # xs)) = f x @ (if xs = [] then [] else '','' @ join_comma (map f xs))" for x xs
    by (cases xs) simp_all
  show ?case
  proof (cases ws)
    case Nil
    then show ?thesis using Cons.prems assms(4)[of v] split[of v vs] by (cases "f v") auto
  next
    case ws: (Cons w ws')
    let ?rest = "\<lambda>xs q. (if xs = [] then [] else '','' @ join_comma (map f xs)) @ close # q"
    have "f v @ ?rest vs r = f w @ ?rest ws' s" using Cons.prems(4) unfolding ws split by simp
    moreover have "delimited (?rest vs r)" "delimited (?rest ws' s)" using assms(5) by auto
    ultimately have eq: "v = w" "?rest vs r = ?rest ws' s"
      using Cons.prems(1)[of v w "?rest vs r" "?rest ws' s"] Cons.prems(3) ws by auto
    have "vs = ws' \<and> r = s"
    proof (cases "vs = [] \<or> ws' = []")
      case True
      then show ?thesis using eq(2) assms(5) by (auto split: if_splits)
    next
      case False
      then have "join_comma (map f vs) @ close # r = join_comma (map f ws') @ close # s" using eq(2) by simp
      then show ?thesis
        by (intro Cons.IH) (use Cons.prems(1-3) ws in auto)
    qed
    then show ?thesis using eq(1) ws by simp
  qed
qed

lemma text_prefix:
  "json n v \<Longrightarrow> json n w \<Longrightarrow> text_of v @ r = text_of w @ s \<Longrightarrow> delimited r \<Longrightarrow> delimited s \<Longrightarrow> v = w \<and> r = s"
proof (induction v arbitrary: w r s)
  case (PyList vs)
  have "tag w = 4" using text_head[OF PyList.prems(1)] text_head[OF PyList.prems(2)] PyList.prems(3)
    by (metis hd_append2 tag.simps(4))
  then obtain ws where w: "w = PyList ws" by (cases w) (auto split: if_splits)
  have "vs = ws \<and> r = s"
  proof (rule join_prefix[where f = text_of and P = "json n" and close = "CHR '']''"])
    fix v u q t assume "v \<in> set vs" "json n u" "text_of v @ q = text_of u @ t" "delimited q" "delimited t"
    then show "v = u \<and> q = t" using PyList.IH[of v u q t] PyList.prems(1) by (simp add: list_all_iff)
  qed (use PyList.prems w text_not_close in simp_all)
  then show ?case using w by simp
next
  case (PyMap items)
  have "tag w = 5" using text_head[OF PyMap.prems(1)] text_head[OF PyMap.prems(2)] PyMap.prems(3)
    by (metis hd_append2 tag.simps(5))
  then obtain items' where w: "w = PyMap items'" by (cases w) (auto split: if_splits)
  let ?f = "\<lambda>(k, v). literal k @ '':'' @ text_of v"
  have "items = items' \<and> r = s"
  proof (rule join_prefix[where f = ?f and P = "\<lambda>(k, v). json n v" and close = "CHR ''}''"])
    fix x y q t assume x: "x \<in> set items" and y: "case y of (k, v) \<Rightarrow> json n v" and eq: "?f x @ q = ?f y @ t"
      and d: "delimited q" "delimited t"
    obtain k v k' v' where xy: "x = (k, v)" "y = (k', v')" by (cases x; cases y)
    have "k = k'" "text_of v @ q = text_of v' @ t"
      using literal_prefix[of k "'':'' @ text_of v @ q" k' "'':'' @ text_of v' @ t"] eq xy by auto
    moreover have "json n v" using PyMap.prems(1) x xy by (auto simp: list_all_iff)
    ultimately show "x = y \<and> q = t"
      using PyMap.IH[of x v v' q t] x y xy d by (auto simp: snds.simps)
  qed (use PyMap w in \<open>auto simp: literal_Cons\<close>)
  then show ?case using w by simp
next
  case (PyInt i)
  have "tag w = 6" using text_head[OF PyInt.prems(1)] text_head[OF PyInt.prems(2)] PyInt.prems(3)
    by (metis hd_append2 tag.simps(6))
  then obtain j where "w = PyInt j" by (cases w) (auto split: if_splits)
  then show ?case using PyInt.prems int_prefix[of i r j s] by simp
next
  case (PyStr x)
  have "tag w = 3" using text_head[OF PyStr.prems(1)] text_head[OF PyStr.prems(2)] PyStr.prems(3)
    by (metis hd_append2 tag.simps(3))
  then obtain y where "w = PyStr y" by (cases w) (auto split: if_splits)
  then show ?case using PyStr.prems literal_prefix[of x r y s] by simp
next
  case PyNone
  have "tag w = 0" using text_head[OF PyNone.prems(1)] text_head[OF PyNone.prems(2)] PyNone.prems(3)
    by (metis hd_append2 tag.simps(1))
  then have "w = PyNone" by (cases w) (auto split: if_splits)
  then show ?case using PyNone by simp
next
  case (PyBool b)
  have "tag w = tag (PyBool b)" using text_head[OF PyBool.prems(1)] text_head[OF PyBool.prems(2)] PyBool.prems(3)
    by (metis hd_append2)
  then have "w = PyBool b" by (cases w) (auto split: if_splits)
  then show ?case using PyBool by simp
qed simp_all

section \<open>Canonical JSON\<close>

lemma traverseE_ok: "(\<And>x. x \<in> set xs \<Longrightarrow> f x = Inr (g x)) \<Longrightarrow> traverseE f xs = Inr (map g xs)"
  by (induction xs) auto

lemma insort_key_map: "insort_key f (g x) (map g xs) = map g (insort_key (\<lambda>a. f (g a)) x xs)"
  by (induction xs) auto

lemma sort_key_map: "sort_key f (map g xs) = map g (sort_key (\<lambda>a. f (g a)) xs)"
  by (induction xs) (simp_all add: insort_key_map)

lemma renamed [simp]:
  "fst \<circ> (\<lambda>(k, v). (g k, f v)) = g \<circ> fst" "(h \<circ> fst) \<circ> (\<lambda>(k, v). (g k, f v)) = h \<circ> (g \<circ> fst)"
  "nfc u \<circ> (nfc u \<circ> fst) = nfc u \<circ> fst"
  by auto

lemma insert_item_distinct: "fst x \<notin> fst ` set ys \<Longrightarrow> insert_item x ys = Inr (insort_key fst x ys)"
proof (induction ys)
  case (Cons y ys)
  then have "fst y \<noteq> fst x" by auto
  then have "item_less y x = Inr (fst y < fst x)" by (simp add: item_less_def)
  then show ?case using Cons by (simp add: linorder_not_less[symmetric])
qed simp

lemma sort_items_distinct: "distinct (map fst xs) \<Longrightarrow> sort_items xs = Inr (sort_key fst xs)"
  by (induction xs) (simp_all add: insert_item_distinct)

lemma sorted_values: "sort_key fst (map (\<lambda>(k, v). (g k, f v)) items) = map (\<lambda>(k, v). (k, f v)) (sort_key fst (map (\<lambda>(k, v). (g k, v)) items))"
proof -
  have "sort_key fst (map (\<lambda>(k, v). (k, f v)) xs) = map (\<lambda>(k, v). (k, f v)) (sort_key fst xs)" for xs
    unfolding sort_key_map by (simp add: case_prod_beta)
  moreover have "map (\<lambda>(k, v). (k, f v)) (map (\<lambda>(k, v). (g k, v)) items) = map (\<lambda>(k, v). (g k, f v)) items" by auto
  ultimately show ?thesis by metis
qed

lemma encode_json: "json u v \<Longrightarrow> encode u v = Inr (text_of (canon u v))"
proof (induction v)
  case (PyMap items)
  let ?e = "\<lambda>(k, v). literal k @ '':'' @ text_of v" and ?c = "\<lambda>(k, v). (k, canon u v)" and ?n = "map (\<lambda>(k, v). (nfc u k, v)) items"
  have "map fst ?n = map (nfc u \<circ> fst) items" by simp
  then have sorted: "sort_items ?n = Inr (sort_key fst ?n)" using PyMap.prems by (intro sort_items_distinct) simp
  have "encode u v = Inr (text_of (canon u v))" if "(k, v) \<in> set items" for k v
    using PyMap.IH[of "(k, v)" v] PyMap.prems that by (auto simp: list_all_iff)
  moreover have "encode_str u (nfc u k) = literal (nfc u k)" for k by (simp add: encode_str_def)
  ultimately have "(\<lambda>(k, v). bindE (encode u v) (\<lambda>e. Inr (encode_str u k @ '':'' @ e))) x = Inr (?e (?c x))" if "x \<in> set ?n" for x
    using that by (auto simp del: append.simps)
  then have "traverseE (\<lambda>(k, v). bindE (encode u v) (\<lambda>e. Inr (encode_str u k @ '':'' @ e))) (sort_key fst ?n)
      = Inr (map (\<lambda>x. ?e (?c x)) (sort_key fst ?n))"
    by (intro traverseE_ok) simp
  moreover have "map (\<lambda>x. ?e (?c x)) (sort_key fst ?n) = map ?e (sort_key fst (map (\<lambda>(k, v). (nfc u k, canon u v)) items))"
    unfolding sorted_values[of "nfc u" "canon u"] map_map by (simp only: o_def)
  ultimately show ?case by (simp only: encode.simps canon.simps text_of.simps sorted bindE.simps)
next
  case (PyList vs)
  then have "traverseE (encode u) vs = Inr (map (\<lambda>v. text_of (canon u v)) vs)"
    by (intro traverseE_ok) (auto simp: list_all_iff)
  then show ?case by (simp add: o_def)
qed (simp_all add: encode_str_def)

lemma json_canon: "json u v \<Longrightarrow> json u (canon u v)"
proof (induction v)
  case (PyMap items)
  let ?c = "map (\<lambda>(k, v). (nfc u k, canon u v)) items"
  have "map (nfc u \<circ> fst) ?c = map (nfc u \<circ> fst) items" by simp
  moreover have "distinct (map f (sort_key fst xs)) = distinct (map f xs)" for f :: "_ \<Rightarrow> string" and xs :: "(string \<times> pvalue) list"
    by (simp add: distinct_map)
  ultimately have keys: "distinct (map (nfc u \<circ> fst) (sort_key fst ?c))" using PyMap.prems by (simp only: json.simps)
  have "json u (canon u v)" if "(k, v) \<in> set items" for k v
    using PyMap.IH[of "(k, v)" v] PyMap.prems that by (auto simp: list_all_iff)
  then have "list_all (\<lambda>(k, v). json u v) (sort_key fst ?c)" unfolding list_all_iff set_sort by auto
  then show ?case using keys by simp
qed (auto simp: list_all_iff)

definition utf8_value :: "string \<Rightarrow> char \<times> string" where
  "utf8_value xs =
     (let n = of_char (hd xs) :: nat in
      if n < 128 then (hd xs, tl xs)
      else (char_of ((n - 192) * 64 + (of_char (hd (tl xs)) - 128)), tl (tl xs)))"

lemma utf8_char_back: "utf8_value (utf8_char c @ r) = (c, r)"
proof (cases "(of_char c :: nat) < 128")
  case False
  let ?n = "of_char c :: nat"
  have "?n < 256" by simp
  then have "?n div 64 < 4" by (simp only: less_mult_imp_div_less)
  then have "of_char (char_of (192 + ?n div 64) :: char) = 192 + ?n div 64"
    "of_char (char_of (128 + ?n mod 64) :: char) = 128 + ?n mod 64"
    by (simp_all add: of_char_of)
  then show ?thesis using False by (simp add: utf8_char_def utf8_value_def Let_def)
qed (simp add: utf8_char_def utf8_value_def Let_def)

lemma utf8_inj: "utf8 s = utf8 t \<Longrightarrow> s = t"
proof (induction s arbitrary: t)
  case Nil
  then show ?case by (cases t) (auto simp: utf8_def utf8_char_def Let_def split: if_splits)
next
  case (Cons c s)
  show ?case
  proof (cases t)
    case Nil
    then show ?thesis using Cons.prems by (auto simp: utf8_def utf8_char_def Let_def split: if_splits)
  next
    case t: (Cons d t')
    have "utf8_char c @ utf8 s = utf8_char d @ utf8 t'" using Cons.prems t by (simp add: utf8_def)
    then have "c = d" "utf8 s = utf8 t'" using utf8_char_back by (metis prod.inject)+
    then show ?thesis using Cons.IH t by simp
  qed
qed

lemma canonical_json_ok: "json u v \<Longrightarrow> canonical_json u v = Inr (utf8 (text_of (canon u v)))"
  by (simp add: canonical_json_def encode_json)

lemma canonical_json_inj:
  assumes "json u v" "json u w"
  shows "canonical_json u v = canonical_json u w \<longleftrightarrow> canon u v = canon u w"
proof
  assume "canonical_json u v = canonical_json u w"
  then have "text_of (canon u v) @ [] = text_of (canon u w) @ []"
    using utf8_inj assms by (simp add: canonical_json_ok)
  then show "canon u v = canon u w"
    using text_prefix[OF json_canon[OF assms(1)] json_canon[OF assms(2)], of "[]" "[]"] by simp
qed (simp add: canonical_json_ok assms)

text \<open>The order of a dict's keys does not reach its canonical bytes.\<close>

lemma sort_key_perm:
  assumes "distinct (map fst xs)" "mset xs = mset ys"
  shows "sort_key fst xs = sort_key fst (ys :: (string \<times> pvalue) list)"
proof (rule properties_for_sort_key)
  show "mset (sort_key fst ys) = mset xs" using assms(2) by simp
  show "sorted (map fst (sort_key fst ys))" by simp
  fix k assume "k \<in> set (sort_key fst ys)"
  have "filter (\<lambda>x. fst k = fst x) zs = [k]" if "mset zs = mset xs" for zs
  proof -
    have "mset (map fst zs) = mset (map fst xs)" using that by simp
    then have "distinct (map fst zs)" using assms(1) mset_eq_imp_distinct_iff by blast
    moreover have "k \<in> set zs"
      using \<open>k \<in> set (sort_key fst ys)\<close> mset_eq_setD[OF that] mset_eq_setD[OF assms(2)] by simp
    ultimately show ?thesis by (induction zs) (auto simp: filter_empty_conv)
  qed
  from this[of "sort_key fst ys"] this[of xs] assms(2)
  show "filter (\<lambda>x. fst k = fst x) (sort_key fst ys) = filter (\<lambda>x. fst k = fst x) xs" by simp
qed

text \<open>A value and the one with its texts written in normal form are the same to every reader of the bytes.\<close>

fun normalized :: "normalizer \<Rightarrow> pvalue \<Rightarrow> pvalue" where
  "normalized u (PyStr s) = PyStr (nfc u s)"
| "normalized u (PyList vs) = PyList (map (normalized u) vs)"
| "normalized u (PyMap items) = PyMap (map (\<lambda>(k, v). (nfc u k, normalized u v)) items)"
| "normalized u v = v"

lemma canon_normalized: "canon u (normalized u v) = canon u v"
proof (induction v)
  case (PyMap items)
  then have "map (\<lambda>(k, v). (nfc u k, canon u v)) (map (\<lambda>(k, v). (nfc u k, normalized u v)) items)
      = map (\<lambda>(k, v). (nfc u k, canon u v)) items" by (auto simp: snds.simps)
  then show ?case by (simp only: normalized.simps canon.simps)
qed (auto simp: o_def)

lemma json_normalized: "json u (normalized u v) = json u v"
proof (induction v)
  case (PyMap items)
  have "map (nfc u \<circ> fst) (map (\<lambda>(k, v). (nfc u k, normalized u v)) items) = map (nfc u \<circ> fst) items"
    by simp
  moreover have "list_all (\<lambda>(k, v). json u v) (map (\<lambda>(k, v). (nfc u k, normalized u v)) items) = list_all (\<lambda>(k, v). json u v) items"
    using PyMap by (auto simp: list_all_iff snds.simps)
  ultimately show ?case by (simp only: normalized.simps json.simps)
qed (auto simp: list_all_iff)


text \<open>A normalization that composes an \<open>e\<close> and the two bytes of a combining accent.\<close>

fun compose :: "string \<Rightarrow> string" where
  "compose (a # b # c # s) =
     (if a = CHR ''e'' \<and> b = CHR 0xCC \<and> c = CHR 0x81 then CHR 0xC3 # CHR 0xA9 # compose s else a # compose (b # c # s))"
| "compose s = s"

lemma compose_head: "compose (c # s) \<noteq> [] \<and> (hd (compose (c # s)) = c \<or> hd (compose (c # s)) = CHR 0xC3)"
  by (cases s rule: compose.cases) auto

lemma compose_kept:
  assumes "a = CHR ''e'' \<longrightarrow> (case t of b # c # _ \<Rightarrow> b \<noteq> CHR 0xCC \<or> c \<noteq> CHR 0x81 | _ \<Rightarrow> True)" shows "compose (a # t) = a # compose t"
  using assms by (auto split: list.splits)

lemma compose_idem: "compose (compose s) = compose s"
proof (induction s rule: compose.induct)
  case (1 a b c s)
  show ?case
  proof (cases "a = CHR ''e'' \<and> b = CHR 0xCC \<and> c = CHR 0x81")
    case True
    then show ?thesis using 1(1) compose_kept[of "CHR 0xC3"] compose_kept[of "CHR 0xA9"] by simp
  next
    case False
    let ?t = "compose (b # c # s)"
    have "a = CHR ''e'' \<longrightarrow> (case ?t of x # y # _ \<Rightarrow> x \<noteq> CHR 0xCC \<or> y \<noteq> CHR 0x81 | _ \<Rightarrow> True)"
      using False compose_head[of b "c # s"] compose_head[of c s] by (cases s) (auto split: list.splits if_splits)
    then have "compose (a # ?t) = a # compose ?t" by (rule compose_kept)
    then show ?thesis using False 1(2) by auto
  qed
qed simp_all

lemma compose_ascii: "ascii_text s \<Longrightarrow> compose s = s"
  by (induction s rule: compose.induct) (auto simp: ascii_text_def less_char_def)

lift_definition composing :: normalizer is compose
  using compose_idem compose_ascii by blast


end
