(* ===== verification/PyText.thy ===== *)
theory PyText
  imports Hashing
begin

text \<open>
  What the readers of text share of Python: splitting a string, arithmetic in the default
  \<open>decimal\<close> context (28 digits, half-even, exponents up to 999999), and the civil calendar behind
  \<open>strptime\<close>.  The calendar of \<open>strftime\<close> is the one of the hashing component; the lemmas show
  that the day number of a date is read back from it.
\<close>

section \<open>Splitting\<close>

definition ends_with :: "string \<Rightarrow> string \<Rightarrow> bool" where
  "ends_with suffix s = (length suffix \<le> length s \<and> drop (length s - length suffix) s = suffix)"

text \<open>\<open>str.partition\<close> and \<open>str.split\<close> on one character.\<close>

definition partition_at :: "char \<Rightarrow> string \<Rightarrow> string \<times> string" where
  "partition_at c s = (takeWhile (\<lambda>x. x \<noteq> c) s, tl (dropWhile (\<lambda>x. x \<noteq> c) s))"

function split_on :: "char \<Rightarrow> string \<Rightarrow> string list" where
  "split_on c s =
     (let a = takeWhile (\<lambda>x. x \<noteq> c) s; b = dropWhile (\<lambda>x. x \<noteq> c) s
      in if b = [] then [a] else a # split_on c (tl b))"
  by pat_completeness auto

termination split_on
proof (relation "measure (\<lambda>(c, s). length s)")
  fix c s x xa assume "xa = dropWhile (\<lambda>x. x \<noteq> c) s" "xa \<noteq> []"
  moreover from this have "length (tl xa) < length xa" by simp
  moreover have "length (dropWhile (\<lambda>x. x \<noteq> c) s) \<le> length s" by (rule length_dropWhile_le)
  ultimately have "length (tl xa) < length s" by (metis less_le_trans)
  then show "((c, tl xa), c, s) \<in> measure (\<lambda>(c, s). length s)" by simp
qed simp

declare split_on.simps [simp del]

section \<open>The decimal context\<close>

text \<open>The exponent of the leading digit, and rounding in the default context.\<close>

definition adjusted :: "decimal \<Rightarrow> int" where
  "adjusted x =
     (if \<bar>x\<bar> \<ge> 1 then int (length (nat_str (nat \<lfloor>\<bar>x\<bar>\<rfloor>))) - 1
      else - int (length (nat_str (nat (\<lceil>1 / \<bar>x\<bar>\<rceil> - 1)))))"

definition round_half_even :: "decimal \<Rightarrow> int" where
  "round_half_even x =
     (let f = \<lfloor>x\<rfloor>; d = x - of_int f in
      if d < 1 / 2 then f else if d > 1 / 2 then f + 1 else if even f then f else f + 1)"

definition ctx_round :: "decimal \<Rightarrow> decimal" where
  "ctx_round x =
     (if x = 0 then 0
      else let q = power10 (max (adjusted x - 27) (- 1000026)) in of_int (round_half_even (x / q)) * q)"

section \<open>The calendar\<close>

definition days_from_civil :: "int \<Rightarrow> int \<Rightarrow> int \<Rightarrow> int" where
  "days_from_civil y m d =
     (let y' = (if m \<le> 2 then y - 1 else y); era = y' div 400; yoe = y' - era * 400;
          doy = (153 * (if m > 2 then m - 3 else m + 9) + 2) div 5 + d - 1;
          doe = yoe * 365 + yoe div 4 - yoe div 100 + doy
      in era * 146097 + doe - 719468)"

section \<open>Lemmas\<close>

lemma split_on_Nil [simp]: "split_on c [] = [[]]"
  by (simp add: split_on.simps)

lemma split_on_nonempty: "split_on c s \<noteq> []"
  by (subst split_on.simps) (simp add: Let_def)

lemma split_on_Cons:
  "split_on c (x # s) = (if x = c then [] # split_on c s else (x # hd (split_on c s)) # tl (split_on c s))"
  by (auto simp: split_on.simps[of c "x # s"] split_on.simps[of c s] Let_def)

lemma length_nat_str_power: "length (nat_str (10 ^ k)) = Suc k"
proof (induction k)
  case (Suc k)
  have "\<not> (10 :: nat) ^ Suc k < 10" "(10 :: nat) ^ Suc k div 10 = 10 ^ k" by simp_all
  then show ?case using Suc by (subst nat_str.simps) (simp del: power_Suc)
qed (simp add: nat_str.simps)

lemma adjusted_power: "adjusted (10 ^ k) = int k"
proof -
  have "\<lfloor>10 ^ k :: decimal\<rfloor> = 10 ^ k" by (metis floor_of_int of_int_numeral of_int_power)
  then have f: "nat \<lfloor>10 ^ k :: decimal\<rfloor> = 10 ^ k" by (metis nat_numeral nat_power_eq zero_le_numeral)
  have a: "\<bar>10 ^ k :: decimal\<bar> = 10 ^ k" "(1 :: decimal) \<le> 10 ^ k" by simp_all
  show ?thesis unfolding adjusted_def a(1) f length_nat_str_power using a(2) by simp
qed

lemma ctx_round_power:
  assumes "27 \<le> k" shows "ctx_round (10 ^ k) = 10 ^ k"
proof -
  have q: "power10 (max (adjusted (10 ^ k) - 27) (- 1000026)) = 10 ^ (k - 27)"
    using assms by (simp add: adjusted_power power10_def nat_diff_distrib)
  have "(10 :: decimal) ^ k / 10 ^ (k - 27) = of_int (10 ^ 27)"
    using assms by (simp add: power_diff)
  then have "round_half_even (10 ^ k / 10 ^ (k - 27)) = 10 ^ 27" by (simp only: round_half_even_def Let_def floor_of_int) simp
  moreover have "of_int (10 ^ 27) * 10 ^ (k - 27) = (10 :: decimal) ^ k"
    using assms power_add[of "10 :: decimal" 27 "k - 27"] by simp
  ultimately show ?thesis by (simp only: ctx_round_def q Let_def) simp
qed

lemma length_nat_str_le: "n < 10 ^ k \<Longrightarrow> 0 < k \<Longrightarrow> length (nat_str n) \<le> k"
proof (induction k arbitrary: n)
  case (Suc k)
  show ?case
  proof (cases "n < 10")
    case True
    then show ?thesis by (simp add: nat_str.simps)
  next
    case False
    then have "n div 10 < 10 ^ k" "0 < k" using Suc.prems by (cases k; simp add: less_mult_imp_div_less mult.commute)+
    then show ?thesis using Suc.IH[of "n div 10"] False by (subst nat_str.simps) simp
  qed
qed simp

text \<open>Rounding leaves every number of at most 28 digits and four places as it is.\<close>

lemma round_half_even_int [simp]: "round_half_even (of_int n) = n"
  by (simp add: round_half_even_def)

lemma adjusted_bounds:
  assumes "x \<noteq> 0" "\<bar>x\<bar> < 10 ^ 24" "1 \<le> \<bar>x\<bar> * 10 ^ 4"
  shows "adjusted x \<le> 23" "- 4 \<le> adjusted x"
proof -
  have "adjusted x \<le> 23 \<and> - 4 \<le> adjusted x"
  proof (cases "1 \<le> \<bar>x\<bar>")
    case True
    have "\<lfloor>\<bar>x\<bar>\<rfloor> < 10 ^ 24" using assms(2) by (simp add: floor_less_iff)
    then have "nat \<lfloor>\<bar>x\<bar>\<rfloor> < 10 ^ 24" by (simp add: nat_less_iff)
    from length_nat_str_le[OF this] show ?thesis using True by (simp add: adjusted_def)
  next
    case False
    have "1 / \<bar>x\<bar> \<le> 10 ^ 4" using assms(1,3) by (simp add: divide_le_eq mult.commute)
    define c where "c = \<lceil>1 / \<bar>x\<bar>\<rceil>"
    have "c \<le> 10 ^ 4" using \<open>1 / \<bar>x\<bar> \<le> 10 ^ 4\<close> by (simp add: c_def ceiling_le_iff)
    then have "nat (c - 1) < 10 ^ 4" by simp
    from length_nat_str_le[OF this] show ?thesis using False by (simp add: adjusted_def c_def)
  qed
  then show "adjusted x \<le> 23" "- 4 \<le> adjusted x" by simp_all
qed

lemma ctx_round_four_places:
  assumes "\<bar>n\<bar> < 10 ^ 28"
  shows "ctx_round (of_int n / 10 ^ 4) = of_int n / 10 ^ 4"
proof (cases "n = 0")
  case False
  let ?x = "of_int n / 10 ^ 4 :: decimal"
  have n1: "1 \<le> \<bar>of_int n :: decimal\<bar>" using False by linarith
  have "\<bar>of_int n :: decimal\<bar> < 10 ^ 28" using assms by (metis of_int_abs of_int_less_iff of_int_numeral of_int_power)
  then have b: "adjusted ?x \<le> 23" "- 4 \<le> adjusted ?x"
    using adjusted_bounds[of ?x] n1 False by (simp_all add: abs_divide)
  define k where "k = nat (23 - adjusted ?x)"
  have q: "power10 (max (adjusted ?x - 27) (- 1000026)) = 1 / 10 ^ (k + 4)"
  proof -
    have "adjusted ?x - 27 < 0" "nat (27 - adjusted ?x) = k + 4" "max (adjusted ?x - 27) (- 1000026) = adjusted ?x - 27"
      using b by (simp_all add: k_def nat_add_distrib[symmetric] max_def)
    then show ?thesis by (simp add: power10_def)
  qed
  have "?x / (1 / 10 ^ (k + 4)) = of_int (n * 10 ^ k)" by (simp add: power_add)
  then have "round_half_even (?x / (1 / 10 ^ (k + 4))) = n * 10 ^ k" by (metis round_half_even_int)
  then show ?thesis unfolding ctx_round_def q Let_def using False by (simp add: power_add)
qed (simp add: ctx_round_def)

text \<open>
  A day of a 400-year era, counted from March, lies within its year: the year is recovered from
  a monotone count of the days that are no leap days.
\<close>

definition era_days :: "int \<Rightarrow> int" where
  "era_days x = x - x div 1460 + x div 36524 - x div 146096"

definition year_start :: "int \<Rightarrow> int" where
  "year_start y = 365 * y + y div 4 - y div 100"

lemma era_days_mono: "x \<le> y \<Longrightarrow> era_days x \<le> era_days y"
proof -
  have part: "(x :: int) - x div 1460 \<le> y - y div 1460" if "x \<le> y" for x y
  proof -
    have "y div 1460 \<le> x div 1460 + (y - x)" using that by linarith
    then show ?thesis by simp
  qed
  have "(x :: int) div 146096 = (x div 36524) div 4" for x by (simp add: zdiv_zmult2_eq[symmetric])
  then have century: "x div 36524 - x div 146096 = x div 36524 - (x div 36524) div 4" for x :: int by simp
  have "q - q div 4 \<le> r - r div 4" if "q \<le> r" for q r :: int using that by linarith
  then have "x div 36524 - x div 146096 \<le> y div 36524 - y div 146096" if "x \<le> y"
    unfolding century using zdiv_mono1[OF that, of 36524] by simp
  then show "x \<le> y \<Longrightarrow> era_days x \<le> era_days y" using part[of x y] by (simp add: era_days_def)
qed

lemma year_edges:
  "list_all (\<lambda>y. era_days (year_start y - 1) < 365 * y) [1..399]"
  "list_all (\<lambda>y. 365 * y + 365 \<le> era_days (year_start y + 366)) [0..398]"
  by code_simp+

lemma year_of_era:
  assumes "0 \<le> doe" "doe \<le> 146096" "y = era_days doe div 365"
  shows "0 \<le> y" "y \<le> 399" "0 \<le> doe - year_start y" "doe - year_start y \<le> 365"
proof -
  have "era_days 0 = 0" "era_days 146096 = 145999" by (simp_all add: era_days_def)
  then have n: "0 \<le> era_days doe" "era_days doe \<le> 145999"
    using era_days_mono[of 0 doe] era_days_mono[of doe 146096] assms(1,2) by simp_all
  then show y: "0 \<le> y" "y \<le> 399" using assms(3) by simp_all
  have in_year: "365 * y \<le> era_days doe" "era_days doe < 365 * y + 365" using assms(3) by simp_all
  show "0 \<le> doe - year_start y"
  proof (rule ccontr)
    assume c: "\<not> ?thesis"
    then have "era_days doe \<le> era_days (year_start y - 1)" by (simp add: era_days_mono)
    moreover have "1 \<le> y" using c y assms(1) by (cases "y = 0") (simp_all add: year_start_def)
    then have "era_days (year_start y - 1) < 365 * y" using year_edges(1) y by (simp add: list_all_iff)
    ultimately show False using in_year by simp
  qed
  show "doe - year_start y \<le> 365"
  proof (rule ccontr)
    assume c: "\<not> ?thesis"
    then have "era_days (year_start y + 366) \<le> era_days doe" by (simp add: era_days_mono)
    moreover have "y \<le> 398" using c y assms(2) by (cases "y = 399") (simp_all add: year_start_def)
    then have "365 * y + 365 \<le> era_days (year_start y + 366)" using year_edges(2) y by (simp add: list_all_iff)
    ultimately show False using in_year by simp
  qed
qed

lemma month_edges:
  "list_all (\<lambda>doy. 0 \<le> (5 * doy + 2) div 153 \<and> (5 * doy + 2) div 153 \<le> 11
     \<and> 0 \<le> doy - (153 * ((5 * doy + 2) div 153) + 2) div 5 \<and> doy - (153 * ((5 * doy + 2) div 153) + 2) div 5 \<le> 30)
   [0..(365 :: int)]"
  by code_simp

lemma civil_date_inverse:
  assumes "civil_date days = (y, m, d)"
  shows "days_from_civil y m d = days" "1 \<le> m \<and> m \<le> 12" "1 \<le> d \<and> d \<le> 31"
proof -
  define z where "z = days + 719468"
  define era where "era = z div 146097"
  define doe where "doe = z - era * 146097"
  define yoe where "yoe = era_days doe div 365"
  define doy where "doy = doe - year_start yoe"
  define mp where "mp = (5 * doy + 2) div 153"
  have doe: "0 \<le> doe" "doe \<le> 146096" by (simp_all add: doe_def era_def minus_div_mult_eq_mod)
  note yr = year_of_era[OF doe yoe_def]
  have mp: "0 \<le> mp" "mp \<le> 11" "0 \<le> doy - (153 * mp + 2) div 5" "doy - (153 * mp + 2) div 5 \<le> 30"
    using month_edges yr(3,4) by (simp_all add: list_all_iff mp_def doy_def)
  have civil: "d = doy - (153 * mp + 2) div 5 + 1" "m = (if mp < 10 then mp + 3 else mp - 9)"
    "y = yoe + era * 400 + (if m \<le> 2 then 1 else 0)"
  proof -
    have "civil_date days = (yoe + era * 400 + (if (if mp < 10 then mp + 3 else mp - 9) \<le> 2 then 1 else 0),
        if mp < 10 then mp + 3 else mp - 9, doy - (153 * mp + 2) div 5 + 1)"
      by (simp only: civil_date_def Let_def z_def[symmetric] era_def[symmetric] doe_def[symmetric] era_days_def[of doe, symmetric]
          yoe_def[symmetric] year_start_def[of yoe, symmetric] doy_def[symmetric] mp_def[symmetric])
    then show "d = doy - (153 * mp + 2) div 5 + 1" "m = (if mp < 10 then mp + 3 else mp - 9)"
      "y = yoe + era * 400 + (if m \<le> 2 then 1 else 0)"
      using assms by simp_all
  qed
  show m: "1 \<le> m \<and> m \<le> 12" "1 \<le> d \<and> d \<le> 31" using mp civil by auto
  have "(if m > 2 then m - 3 else m + 9) = mp" using civil(2) mp by auto
  moreover have "(if m \<le> 2 then y - 1 else y) = yoe + era * 400" using civil(3) by auto
  moreover have "(yoe + era * 400) div 400 = era" using yr(1,2) by simp
  ultimately have "days_from_civil y m d = era * 146097 + (yoe * 365 + yoe div 4 - yoe div 100 + ((153 * mp + 2) div 5 + d - 1)) - 719468"
    by (simp add: days_from_civil_def Let_def)
  also have "\<dots> = era * 146097 + doe - 719468" using civil(1) by (simp add: doy_def year_start_def)
  finally show "days_from_civil y m d = days" by (simp add: doe_def z_def)
qed

end
