(* ===== verification/Extractor.thy ===== *)
theory Extractor
  imports PyText
begin

text \<open>
  \<open>agentiam_pep/extractor.py\<close> and \<open>agentiam_pep/headers.py\<close>: how an HTTP request becomes a
  scope, a tool and arguments, and which headers cross the proxy.

  Parameters of the model: \<open>compile\<close> (Starlette's \<open>compile_path\<close>: a matcher for a path and the
  names of its parameters), \<open>sha\<close> (SHA-256, and the normalization texts are read in), \<open>unquote\<close> (percent-decoding of UTF-8) and \<open>loads\<close>, the decoding of
  a body's bytes by \<open>json.loads\<close> into the tree of pairs that \<open>object_pairs_hook\<close> sees.  Method and
  header names are ASCII.  A \<open>Decimal\<close> product is computed in the default context: 28 digits,
  half-even, exponents up to 999999.
\<close>

section \<open>Bodies\<close>

text \<open>
  A decoded body.  A number is its sign, coefficient and exponent (\<open>parse_float\<close> and \<open>parse_int\<close>
  are \<open>Decimal\<close>); \<open>NaN\<close> and the infinities, which \<open>json\<close> accepts, arrive as floats.
\<close>

datatype jval =
    JNull | JBool bool | JNum bool nat int | JFloat | JStr string | JList "jval list"
  | JObj "(string \<times> jval) list"

text \<open>\<open>_object_pairs_hook\<close>: the last value of each key, and the keys that arrived twice.\<close>

fun object_pairs :: "(string \<times> jval) list \<Rightarrow> (string \<rightharpoonup> jval) \<Rightarrow> string set \<Rightarrow> (string \<rightharpoonup> jval) \<times> string set" where
  "object_pairs [] seen duplicates = (seen, duplicates)"
| "object_pairs ((k, v) # pairs) seen duplicates =
     object_pairs pairs (seen(k \<mapsto> v)) (if seen k = None then duplicates else insert k duplicates)"

definition object_pairs_hook :: "(string \<times> jval) list \<Rightarrow> (string \<rightharpoonup> jval) \<times> string set" where
  "object_pairs_hook pairs = object_pairs pairs Map.empty {}"

section \<open>Sources and rules\<close>

datatype source_kind = KPath | KQuery | KBody | KHeader

record source =
  sc_kind :: source_kind
  sc_keys :: "string list"
  sc_numeric :: bool

definition sc_name :: "source \<Rightarrow> string" where
  "sc_name s = hd (sc_keys s)"

definition source_kind_of :: "string \<Rightarrow> source_kind option" where
  "source_kind_of s =
     (if s = ''path'' then Some KPath else if s = ''query'' then Some KQuery
      else if s = ''body'' then Some KBody else if s = ''header'' then Some KHeader else None)"

definition parse_source :: "string \<Rightarrow> source py" where
  "parse_source expression =
     (let numeric = ends_with '':number'' expression;
          body = (if numeric then take (length expression - 7) expression else expression);
          (kind, rest) = partition_at CHR ''.'' body
      in case source_kind_of kind of
           None \<Rightarrow> Inl ValueError
         | Some k \<Rightarrow>
             if rest = [] then Inl ValueError
             else if k = KBody
             then (let keys = split_on CHR ''.'' rest in
                   if [] \<in> set keys then Inl ValueError
                   else Inr \<lparr>sc_kind = k, sc_keys = keys, sc_numeric = numeric\<rparr>)
             else if k = KHeader
             then Inr \<lparr>sc_kind = k, sc_keys = [lower_case rest], sc_numeric = numeric\<rparr>
             else if CHR ''.'' \<in> set rest then Inl ValueError
             else Inr \<lparr>sc_kind = k, sc_keys = [rest], sc_numeric = numeric\<rparr>)"

type_synonym path_matcher = "string \<Rightarrow> string strmap option"

record route_rule =
  rr_method :: string
  rr_path :: string
  rr_scope :: string
  rr_tool :: string
  rr_sources :: "source strmap"
  rr_regex :: path_matcher
  rr_drift_mode :: drift_mode

definition needs_body :: "route_rule \<Rightarrow> bool" where
  "needs_body r = list_ex (\<lambda>(_, s). sc_kind s = KBody) (rr_sources r)"

definition rule_matches :: "route_rule \<Rightarrow> string \<Rightarrow> string \<Rightarrow> string strmap option" where
  "rule_matches r m p = (if rr_method r \<noteq> ''ANY'' \<and> rr_method r \<noteq> m then None else rr_regex r p)"

record route_table =
  rt_rules :: "route_rule list"
  rt_deny_unmapped :: bool
  rt_max_extract_body_bytes :: int
  rt_mapping_version :: string

section \<open>Loading a mapping\<close>

definition upper_case :: "string \<Rightarrow> string" where
  "upper_case s = map (\<lambda>c. if CHR ''a'' \<le> c \<and> c \<le> CHR ''z'' then char_of (of_char c - (32 :: nat)) else c) s"

text \<open>\<open>raw.get(key, default)\<close> on a mapping, and the strings a rule must have.\<close>

definition get_or :: "(string \<times> pvalue) list \<Rightarrow> string \<Rightarrow> pvalue \<Rightarrow> pvalue" where
  "get_or m k d = (case map_of m k of None \<Rightarrow> d | Some v \<Rightarrow> v)"

fun drift_mode_value :: "pvalue \<Rightarrow> drift_mode py" where
  "drift_mode_value (PyStr s) =
     (if s = ''off'' then Inr DRIFT_OFF else if s = ''log_only'' then Inr DRIFT_LOG_ONLY
      else if s = ''strict'' then Inr DRIFT_STRICT else Inl ValueError)"
| "drift_mode_value _ = Inl ValueError"

fun nonempty_string :: "pvalue \<Rightarrow> string py" where
  "nonempty_string (PyStr s) = (if s = [] then Inl ValueError else Inr s)"
| "nonempty_string _ = Inl ValueError"

type_synonym path_compiler = "string \<Rightarrow> (path_matcher \<times> string set) py"

definition compile_source :: "string set \<Rightarrow> string \<times> pvalue \<Rightarrow> (string \<times> source) py" where
  "compile_source params x = (case x of (label, expression) \<Rightarrow>
     if label = [] then Inl ValueError
     else (case expression of
             PyStr e \<Rightarrow>
               bindE (parse_source e) (\<lambda>s.
                 if sc_kind s = KPath \<and> sc_name s \<notin> params then Inl ValueError else Inr (label, s))
           | _ \<Rightarrow> Inl ValueError))"

definition compile_rule :: "path_compiler \<Rightarrow> pvalue \<Rightarrow> route_rule py" where
  "compile_rule compile raw =
     (case raw of
        PyMap m \<Rightarrow>
          bindE (drift_mode_value (get_or m ''drift_mode'' (PyStr ''strict''))) (\<lambda>drift.
          bindE (nonempty_string (get_or m ''method'' (PyStr []))) (\<lambda>method.
          bindE (nonempty_string (get_or m ''path'' (PyStr []))) (\<lambda>path.
          bindE (nonempty_string (get_or m ''scope'' (PyStr []))) (\<lambda>scope.
          bindE (nonempty_string (get_or m ''tool'' (PyStr []))) (\<lambda>tool.
          bindE (guardE (hd path = CHR ''/'') ValueError) (\<lambda>_.
          bindE (compile path) (\<lambda>(regex, params).
            case get_or m ''args'' (PyMap []) of
              PyMap raw_args \<Rightarrow>
                bindE (traverseE (compile_source params) raw_args) (\<lambda>sources.
                  Inr \<lparr>rr_method = upper_case method, rr_path = path, rr_scope = scope, rr_tool = tool,
                       rr_sources = sources, rr_regex = regex, rr_drift_mode = drift\<rparr>)
            | _ \<Rightarrow> Inl ValueError)))))))
      | _ \<Rightarrow> Inl ValueError)"

fun kind_text :: "source_kind \<Rightarrow> string" where
  "kind_text KPath = ''path''"
| "kind_text KQuery = ''query''"
| "kind_text KBody = ''body''"
| "kind_text KHeader = ''header''"

fun join_with :: "string \<Rightarrow> string list \<Rightarrow> string" where
  "join_with sep [] = []"
| "join_with sep [x] = x"
| "join_with sep (x # xs) = x @ sep @ join_with sep xs"

definition source_text :: "source \<Rightarrow> string" where
  "source_text s =
     kind_text (sc_kind s) @ ''.'' @ join_with ''.'' (sc_keys s) @ (if sc_numeric s then '':number'' else [])"

definition rule_shape :: "route_rule \<Rightarrow> pvalue" where
  "rule_shape r =
     PyMap [(''method'', PyStr (rr_method r)), (''path'', PyStr (rr_path r)), (''scope'', PyStr (rr_scope r)),
            (''tool'', PyStr (rr_tool r)),
            (''args'', PyMap (map (\<lambda>(label, s). (label, PyStr (source_text s))) (sort_key fst (rr_sources r))))]"

definition mapping_version :: "hasher \<Rightarrow> route_rule list \<Rightarrow> string \<Rightarrow> int \<Rightarrow> string py" where
  "mapping_version sha rules action max_body =
     hash_object sha (PyMap [(''default'', PyStr action), (''max_extract_body_bytes'', PyInt max_body),
                             (''routes'', PyList (map rule_shape rules))])"

definition DEFAULT_MAX_EXTRACT_BODY_BYTES :: int where
  "DEFAULT_MAX_EXTRACT_BODY_BYTES = 2 ^ 20"

definition from_config :: "hasher \<Rightarrow> path_compiler \<Rightarrow> (string \<times> pvalue) list \<Rightarrow> route_table py" where
  "from_config sha compile config =
     (case get_or config ''routes'' (PyList []) of
        PyList raw_rules \<Rightarrow>
          bindE (traverseE (compile_rule compile) raw_rules) (\<lambda>rules.
            let action = (case get_or config ''default'' (PyMap []) of
                            PyMap m \<Rightarrow> get_or m ''action'' (PyStr ''deny'') | _ \<Rightarrow> PyStr ''deny'') in
            case action of
              PyStr a \<Rightarrow>
                if a \<noteq> ''deny'' \<and> a \<noteq> ''allow_unmapped'' then Inl ValueError
                else (case get_or config ''max_extract_body_bytes'' (PyInt DEFAULT_MAX_EXTRACT_BODY_BYTES) of
                        PyInt max_body \<Rightarrow>
                          if max_body \<le> 0 then Inl ValueError
                          else bindE (mapping_version sha rules a max_body) (\<lambda>v.
                                 Inr \<lparr>rt_rules = rules, rt_deny_unmapped = (a = ''deny''),
                                      rt_max_extract_body_bytes = max_body, rt_mapping_version = v\<rparr>)
                      | _ \<Rightarrow> Inl ValueError)
            | _ \<Rightarrow> Inl (case action of PyList _ \<Rightarrow> TypeError | PyMap _ \<Rightarrow> TypeError | PySet _ \<Rightarrow> TypeError | _ \<Rightarrow> ValueError))
      | _ \<Rightarrow> Inl ValueError)"

section \<open>Numbers\<close>

definition jnum_value :: "bool \<Rightarrow> nat \<Rightarrow> int \<Rightarrow> decimal" where
  "jnum_value neg c e = (if neg then - 1 else 1) * of_nat c * power10 e"

text \<open>\<open>str(Decimal)\<close>: plain notation unless the exponent is positive or the number is small.\<close>

definition decimal_str :: "bool \<Rightarrow> nat \<Rightarrow> int \<Rightarrow> string" where
  "decimal_str neg c e =
     (let ds = nat_str c; n = int (length ds); leftdigits = e + n;
          dotplace = (if e \<le> 0 \<and> leftdigits > -6 then leftdigits else 1);
          (intpart, fracpart) =
            (if dotplace \<le> 0 then (''0'', ''.'' @ replicate (nat (- dotplace)) CHR ''0'' @ ds)
             else if dotplace \<ge> n then (ds @ replicate (nat (dotplace - n)) CHR ''0'', [])
             else (take (nat dotplace) ds, ''.'' @ drop (nat dotplace) ds));
          x = leftdigits - dotplace
      in (if neg then ''-'' else []) @ intpart @ fracpart
         @ (if x = 0 then [] else ''E'' @ (if x < 0 then [] else ''+'') @ int_str x))"

text \<open>
  What extraction can end in: the error it raises on purpose, or one of the exceptions the code
  does not turn into it, an exponent overflow or a refusal of the hash.
\<close>

datatype ext_error = ExtractionError reason_code | DecimalOverflow | HashFailed exc

definition malformed :: ext_error where
  "malformed = ExtractionError MALFORMED_REQUEST"

text \<open>The end of \<open>_to_scaled\<close>, from a number.\<close>

fun scale_dec :: "dec \<Rightarrow> ext_error + int" where
  "scale_dec (Fin d) =
     (let scaled = ctx_round (d * 10000) in
      if scaled \<noteq> 0 \<and> adjusted scaled > 999999 then Inl DecimalOverflow
      else if whole scaled then Inr \<lfloor>scaled\<rfloor> else Inl malformed)"
| "scale_dec _ = Inl malformed"

fun ext_to_scaled :: "jval \<Rightarrow> ext_error + int" where
  "ext_to_scaled (JNum neg c e) = scale_dec (Fin (jnum_value neg c e))"
| "ext_to_scaled (JStr s) = (case decimal_of_string s of Inl _ \<Rightarrow> Inl malformed | Inr d \<Rightarrow> scale_dec d)"
| "ext_to_scaled _ = Inl malformed"

fun ext_to_text :: "normalizer \<Rightarrow> jval \<Rightarrow> ext_error + string" where
  "ext_to_text u (JBool b) = Inr (if b then ''true'' else ''false'')"
| "ext_to_text u (JNum neg c e) = Inr (decimal_str neg c e)"
| "ext_to_text u (JStr s) = Inr (nfc u s)"
| "ext_to_text u _ = Inl malformed"

section \<open>Reading a request\<close>

text \<open>
  \<open>parse_qsl(..., keep_blank_values=True)\<close>: fields between ampersands, empty ones skipped, each split
  at its first equals sign, plus signs read as spaces, then percent-decoded.
\<close>

definition plus_to_space :: "string \<Rightarrow> string" where
  "plus_to_space s = map (\<lambda>c. if c = CHR ''+'' then CHR '' '' else c) s"

definition parse_qsl :: "(string \<Rightarrow> string) \<Rightarrow> string \<Rightarrow> string strmap" where
  "parse_qsl unquote q =
     map (\<lambda>f. case partition_at CHR ''='' f of (k, v) \<Rightarrow> (unquote (plus_to_space k), unquote (plus_to_space v)))
       (filter (\<lambda>f. f \<noteq> []) (if q = [] then [] else split_on CHR ''&'' q))"

text \<open>The values collected for a name, in order.\<close>

definition collect_query :: "(string \<Rightarrow> string) \<Rightarrow> string \<Rightarrow> string \<Rightarrow> string list" where
  "collect_query unquote q name = map snd (filter (\<lambda>(k, _). k = name) (parse_qsl unquote q))"

definition collect_headers :: "string strmap \<Rightarrow> string \<Rightarrow> string list" where
  "collect_headers headers name = map snd (filter (\<lambda>(k, _). lower_case k = name) headers)"

definition one_of :: "string list \<Rightarrow> ext_error + string option" where
  "one_of vs = (case vs of [] \<Rightarrow> Inr None | [v] \<Rightarrow> Inr (Some v) | _ \<Rightarrow> Inl malformed)"

fun resolve_body :: "jval option \<Rightarrow> string list \<Rightarrow> ext_error + jval option" where
  "resolve_body current [] = Inr current"
| "resolve_body (Some (JObj pairs)) (key # keys) =
     (let (seen, duplicates) = object_pairs_hook pairs in
      if key \<in> duplicates then Inl malformed
      else case seen key of None \<Rightarrow> Inr None | Some v \<Rightarrow> resolve_body (Some v) keys)"
| "resolve_body _ (key # keys) = Inr None"

text \<open>A body is parsed only for a route that maps it, and only up to the limit.\<close>

definition parse_body :: "(string \<Rightarrow> jval option) \<Rightarrow> string option \<Rightarrow> jval option" where
  "parse_body loads body = (case body of None \<Rightarrow> None | Some b \<Rightarrow> if b = [] then None else loads b)"

record http_request =
  hr_method :: string
  hr_path :: string
  hr_query :: string
  hr_headers :: "string strmap"
  hr_body :: "string option"

record extraction =
  ex_scope :: string
  ex_tool :: string
  ex_args :: "arg_value strmap"
  ex_arg_digest :: string
  ex_drift_mode :: drift_mode

fun arg_pvalue :: "arg_value \<Rightarrow> pvalue" where
  "arg_pvalue (VNum d) = PyInt \<lfloor>d\<rfloor>"
| "arg_pvalue (VStr s) = PyStr s"

definition hash_args :: "hasher \<Rightarrow> arg_value strmap \<Rightarrow> ext_error + string" where
  "hash_args sha as =
     (case hash_object sha (PyMap (map (\<lambda>(l, v). (l, arg_pvalue v)) as)) of
        Inl e \<Rightarrow> Inl (HashFailed e) | Inr h \<Rightarrow> Inr h)"

definition raw_value ::
  "normalizer \<Rightarrow> (string \<Rightarrow> string) \<Rightarrow> string strmap \<Rightarrow> http_request \<Rightarrow> jval option \<Rightarrow> source \<Rightarrow> ext_error + jval option" where
  "raw_value u unquote path_params req parsed s =
     (case sc_kind s of
        KPath \<Rightarrow> Inr (map_option (\<lambda>v. JStr (nfc u (unquote v))) (map_of path_params (sc_name s)))
      | KQuery \<Rightarrow> bindE (one_of (collect_query unquote (hr_query req) (sc_name s))) (\<lambda>v. Inr (map_option (\<lambda>t. JStr (nfc u t)) v))
      | KHeader \<Rightarrow> bindE (one_of (collect_headers (hr_headers req) (sc_name s))) (\<lambda>v. Inr (map_option (\<lambda>t. JStr (nfc u t)) v))
      | KBody \<Rightarrow> resolve_body parsed (sc_keys s))"

text \<open>A JSON \<open>null\<close> is Python's \<open>None\<close>, so it reads as an absent argument.\<close>

definition convert_arg :: "normalizer \<Rightarrow> source \<Rightarrow> jval \<Rightarrow> ext_error + arg_value" where
  "convert_arg u s v =
     (if sc_numeric s then bindE (ext_to_scaled v) (\<lambda>n. Inr (VNum (of_int n)))
      else bindE (ext_to_text u v) (\<lambda>t. Inr (VStr t)))"

fun extract_args ::
  "normalizer \<Rightarrow> (string \<Rightarrow> string) \<Rightarrow> string strmap \<Rightarrow> http_request \<Rightarrow> jval option \<Rightarrow> source strmap \<Rightarrow> ext_error + arg_value strmap" where
  "extract_args u unquote pp req parsed [] = Inr []"
| "extract_args u unquote pp req parsed ((label, s) # sources) =
     bindE (raw_value u unquote pp req parsed s) (\<lambda>raw.
       case raw of
         None \<Rightarrow> extract_args u unquote pp req parsed sources
       | Some JNull \<Rightarrow> extract_args u unquote pp req parsed sources
       | Some v \<Rightarrow>
           bindE (convert_arg u s v) (\<lambda>a.
             bindE (extract_args u unquote pp req parsed sources) (\<lambda>as. Inr ((label, a) # as))))"

fun first_match :: "route_rule list \<Rightarrow> string \<Rightarrow> string \<Rightarrow> (route_rule \<times> string strmap) option" where
  "first_match [] m p = None"
| "first_match (r # rs) m p =
     (case rule_matches r m p of Some found \<Rightarrow> Some (r, found) | None \<Rightarrow> first_match rs m p)"

definition body_too_large :: "route_table \<Rightarrow> http_request \<Rightarrow> bool" where
  "body_too_large t req =
     (case hr_body req of None \<Rightarrow> False | Some b \<Rightarrow> int (length b) > rt_max_extract_body_bytes t)"

definition extract_request ::
  "hasher \<Rightarrow> (string \<Rightarrow> jval option) \<Rightarrow> (string \<Rightarrow> string) \<Rightarrow> route_table \<Rightarrow> http_request
    \<Rightarrow> ext_error + extraction" where
  "extract_request sha loads unquote t req =
     (case first_match (rt_rules t) (upper_case (hr_method req)) (hr_path req) of
        None \<Rightarrow>
          if rt_deny_unmapped t then Inl malformed
          else bindE (hash_args sha []) (\<lambda>h.
                 Inr \<lparr>ex_scope = [], ex_tool = [], ex_args = [], ex_arg_digest = h, ex_drift_mode = DRIFT_STRICT\<rparr>)
      | Some (r, pp) \<Rightarrow>
          if needs_body r \<and> body_too_large t req then Inl malformed
          else let parsed = (if needs_body r then parse_body loads (hr_body req) else None) in
               bindE (extract_args (hs_nfc sha) unquote pp req parsed (rr_sources r)) (\<lambda>as.
                 bindE (hash_args sha as) (\<lambda>h.
                   Inr \<lparr>ex_scope = rr_scope r, ex_tool = rr_tool r, ex_args = as, ex_arg_digest = h,
                        ex_drift_mode = rr_drift_mode r\<rparr>)))"

section \<open>Headers across the proxy\<close>

definition HOP_BY_HOP :: "string set" where
  "HOP_BY_HOP = {''connection'', ''keep-alive'', ''proxy-authenticate'', ''proxy-authorization'', ''te'',
                 ''trailer'', ''transfer-encoding'', ''upgrade''}"

definition SERVER_OWNED :: "string set" where "SERVER_OWNED = {''date'', ''server''}"
definition FRAMING :: "string set" where "FRAMING = {''content-length''}"
definition REQUEST_ONLY :: "string set" where "REQUEST_ONLY = {''host''}"

definition without :: "string strmap \<Rightarrow> string set \<Rightarrow> string strmap" where
  "without headers excluded = filter (\<lambda>(name, _). lower_case name \<notin> excluded) headers"

definition filter_request_headers :: "string strmap \<Rightarrow> string strmap" where
  "filter_request_headers headers = without headers (HOP_BY_HOP \<union> FRAMING \<union> REQUEST_ONLY)"

definition filter_response_headers :: "string strmap \<Rightarrow> string strmap" where
  "filter_response_headers headers = without headers (HOP_BY_HOP \<union> FRAMING \<union> SERVER_OWNED)"

section \<open>One reading\<close>

text \<open>Every value some parser could read at a path, whichever of two equal keys it prefers.\<close>

fun readings :: "jval \<Rightarrow> string list \<Rightarrow> jval list" where
  "readings v [] = [v]"
| "readings (JObj pairs) (k # ks) = concat (map (\<lambda>(k', w). if k' = k then readings w ks else []) pairs)"
| "readings _ (k # ks) = []"

definition source_readings ::
  "normalizer \<Rightarrow> (string \<Rightarrow> string) \<Rightarrow> string strmap \<Rightarrow> http_request \<Rightarrow> jval option \<Rightarrow> source \<Rightarrow> jval list" where
  "source_readings u unquote pp req parsed s =
     (case sc_kind s of
        KPath \<Rightarrow> (case map_of pp (sc_name s) of None \<Rightarrow> [] | Some v \<Rightarrow> [JStr (nfc u (unquote v))])
      | KQuery \<Rightarrow> map (\<lambda>t. JStr (nfc u t)) (collect_query unquote (hr_query req) (sc_name s))
      | KHeader \<Rightarrow> map (\<lambda>t. JStr (nfc u t)) (collect_headers (hr_headers req) (sc_name s))
      | KBody \<Rightarrow> (case parsed of None \<Rightarrow> [] | Some v \<Rightarrow> readings v (sc_keys s)))"

lemma object_pairs_spec:
  assumes "object_pairs pairs seen dups = (seen', dups')" "k \<notin> dups'"
  shows "map snd (filter (\<lambda>p. fst p = k) pairs)
    = (case seen k of None \<Rightarrow> (case seen' k of None \<Rightarrow> [] | Some v \<Rightarrow> [v]) | Some v \<Rightarrow> [])
    \<and> (seen k \<noteq> None \<longrightarrow> seen' k = seen k)"
  using assms
proof (induction pairs seen dups rule: object_pairs.induct)
  case (2 k' v pairs seen dups)
  have grow: "dups \<subseteq> dups'" if "object_pairs pairs seen dups = (seen', dups')" for pairs seen dups
    using that by (induction pairs seen dups rule: object_pairs.induct) (auto split: if_splits)
  show ?case
  proof (cases "k' = k")
    case True
    then have "seen k = None" using 2 grow[of pairs "seen(k' \<mapsto> v)" "insert k' dups"] by (auto split: if_splits)
    have "object_pairs pairs (seen(k' \<mapsto> v)) (if seen k' = None then dups else insert k' dups) = (seen', dups')"
      using 2(2) by simp
    from 2(1)[OF this 2(3)] show ?thesis using True \<open>seen k = None\<close> by simp
  next
    case False
    have "object_pairs pairs (seen(k' \<mapsto> v)) (if seen k' = None then dups else insert k' dups) = (seen', dups')"
      using 2(2) by simp
    from 2(1)[OF this 2(3)] show ?thesis using False by simp
  qed
qed (simp split: option.splits)

lemma hook_reading:
  assumes "object_pairs_hook pairs = (seen, dups)" "k \<notin> dups"
  shows "map snd (filter (\<lambda>p. fst p = k) pairs) = (case seen k of None \<Rightarrow> [] | Some v \<Rightarrow> [v])"
  using object_pairs_spec[of pairs Map.empty "{}" seen dups k] assms by (simp add: object_pairs_hook_def)

lemma concat_if: "concat (map (\<lambda>(k', w). if k' = k then f w else []) xs) = concat (map f (map snd (filter (\<lambda>p. fst p = k) xs)))"
  by (induction xs) auto

lemma resolve_one_reading:
  "resolve_body (Some v) keys = Inr r \<Longrightarrow> readings v keys = (case r of None \<Rightarrow> [] | Some w \<Rightarrow> [w])"
proof (induction "Some v" keys arbitrary: v r rule: resolve_body.induct)
  case (2 pairs key keys)
  obtain seen dups where h: "object_pairs_hook pairs = (seen, dups)" by (cases "object_pairs_hook pairs")
  have nd: "key \<notin> dups" using 2(2) h by auto
  show ?case
  proof (cases "seen key")
    case None
    then show ?thesis using 2(2) h nd hook_reading[OF h nd] by (auto simp: concat_if)
  next
    case (Some w)
    then have "readings w keys = (case r of None \<Rightarrow> [] | Some w \<Rightarrow> [w])" using 2(1)[OF h[symmetric] refl nd Some] 2(2) h nd by simp
    then show ?thesis using Some hook_reading[OF h nd] by (simp add: concat_if)
  qed
qed (auto split: option.splits)

lemma raw_one_reading:
  assumes "raw_value u unquote pp req parsed s = Inr r"
  shows "source_readings u unquote pp req parsed s = (case r of None \<Rightarrow> [] | Some v \<Rightarrow> [v])"
proof (cases "sc_kind s")
  case KBody
  then show ?thesis
  proof (cases parsed)
    case None
    then show ?thesis using assms KBody by (cases "sc_keys s") (auto simp: raw_value_def source_readings_def)
  next
    case (Some v)
    then show ?thesis using assms KBody resolve_one_reading by (simp add: raw_value_def source_readings_def)
  qed
qed (use assms in \<open>auto simp: raw_value_def source_readings_def one_of_def split: list.splits option.splits\<close>)

lemma extract_args_spec:
  assumes "extract_args u unquote pp req parsed sources = Inr as"
  shows "as = concat (map (\<lambda>(label, s). case source_readings u unquote pp req parsed s of
            [v] \<Rightarrow> if v = JNull then [] else (case convert_arg u s v of Inr a \<Rightarrow> [(label, a)] | Inl _ \<Rightarrow> [])
          | _ \<Rightarrow> []) sources)
    \<and> (\<forall>(label, s) \<in> set sources. \<exists>r. raw_value u unquote pp req parsed s = Inr r
         \<and> (\<forall>v. r = Some v \<and> v \<noteq> JNull \<longrightarrow> is_ok (convert_arg u s v)))"
  using assms
proof (induction sources arbitrary: as)
  case (Cons x sources)
  obtain label s where x: "x = (label, s)" by (cases x)
  from Cons.prems x obtain r where r: "raw_value u unquote pp req parsed s = Inr r" by auto
  note one = raw_one_reading[OF r]
  show ?case
  proof (cases "r = None \<or> r = Some JNull")
    case True
    then have "extract_args u unquote pp req parsed sources = Inr as" using Cons.prems x r by auto
    from Cons.IH[OF this] show ?thesis using True x r one by auto
  next
    case False
    then obtain v where v: "r = Some v" "v \<noteq> JNull" by (cases r) auto
    then obtain a rest where a: "convert_arg u s v = Inr a" "extract_args u unquote pp req parsed sources = Inr rest"
        "as = (label, a) # rest"
      using Cons.prems x r by (cases v) auto
    from Cons.IH[OF a(2)] show ?thesis using a v x r one by auto
  qed
qed simp

section \<open>Numbers beyond the context\<close>

lemma scale_power:
  assumes "27 \<le> k" "k \<le> 999999" shows "scale_dec (Fin (10 ^ (k - 4))) = Inr (10 ^ k)"
proof -
  have e: "(10 :: decimal) ^ (k - 4) * 10000 = 10 ^ k"
    using assms(1) power_add[of "10 :: decimal" "k - 4" 4] by simp
  have "whole (10 ^ k)" using whole_of_int[of "10 ^ k"] by simp
  moreover have "\<lfloor>10 ^ k :: decimal\<rfloor> = 10 ^ k" by (metis floor_of_int of_int_numeral of_int_power)
  ultimately show ?thesis using assms by (simp add: e ctx_round_power adjusted_power Let_def)
qed

lemma scale_power_overflow:
  assumes "999999 < k" shows "scale_dec (Fin (10 ^ (k - 4))) = Inl DecimalOverflow"
proof -
  have e: "(10 :: decimal) ^ (k - 4) * 10000 = 10 ^ k"
    using assms power_add[of "10 :: decimal" "k - 4" 4] by simp
  show ?thesis using assms by (simp add: e ctx_round_power adjusted_power Let_def)
qed

lemma scale_exact:
  assumes "ctx_round (d * 10000) = d * 10000" "d = 0 \<or> adjusted (d * 10000) \<le> 999999"
  shows "scale_dec (Fin d) = (if whole (d * 10000) then Inr \<lfloor>d * 10000\<rfloor> else Inl malformed)"
  using assms by (auto simp: Let_def)

lemma fine_number_rounded: "ext_to_scaled (JNum False (10 ^ 29 + 1) (- 29)) = Inr 10000"
proof -
  let ?x = "10000 + 1 / 10 ^ 25 :: decimal"
  have x: "jnum_value False (10 ^ 29 + 1) (- 29) * 10000 = ?x" by (simp add: jnum_value_def power10_def)
  have "\<lfloor>?x\<rfloor> = 10000" by (simp add: floor_eq_iff)
  moreover have "length (nat_str 10000) = 5" using length_nat_str_power[of 4] by simp
  ultimately have a: "adjusted ?x = 4" by (simp add: adjusted_def)
  have q: "power10 (max (adjusted ?x - 27) (- 1000026)) = 1 / 10 ^ 23" unfolding a by (simp add: power10_def)
  have "?x / (1 / 10 ^ 23) = 10 ^ 27 + 1 / 100" by simp
  moreover have "\<lfloor>10 ^ 27 + 1 / 100 :: decimal\<rfloor> = 10 ^ 27" by (simp add: floor_eq_iff)
  ultimately have "round_half_even (?x / (1 / 10 ^ 23)) = 10 ^ 27" by (simp add: round_half_even_def)
  then have c: "ctx_round ?x = 10000" unfolding ctx_round_def Let_def q by simp
  moreover have "adjusted 10000 = 4" using adjusted_power[of 4] by simp
  moreover have "whole 10000" using whole_of_int[of 10000] by simp
  ultimately show ?thesis unfolding ext_to_scaled.simps scale_dec.simps x Let_def by simp
qed

section \<open>Properties\<close>

text \<open>
  C22: What the gateway checks is what any upstream would read.  When extraction succeeds, the
  scope and tool are those of the first rule that matches, and every declared source has at
  most one reading, whichever of several equal query parameters, headers or JSON keys a parser
  prefers; the arguments are the conversions of exactly those readings (texts in their normal form), in
  the order of the rule.
\<close>

theorem extracted_arguments_have_one_reading:
  assumes "extract_request sha loads unquote t req = Inr x"
    "first_match (rt_rules t) (upper_case (hr_method req)) (hr_path req) = Some (r, pp)"
    "parsed = (if needs_body r then parse_body loads (hr_body req) else None)"
  shows "ex_scope x = rr_scope r \<and> ex_tool x = rr_tool r \<and> ex_drift_mode x = rr_drift_mode r
    \<and> (\<forall>(label, s) \<in> set (rr_sources r). length (source_readings (hs_nfc sha) unquote pp req parsed s) \<le> 1)
    \<and> ex_args x = concat (map (\<lambda>(label, s). case source_readings (hs_nfc sha) unquote pp req parsed s of
            [v] \<Rightarrow> if v = JNull then [] else (case convert_arg (hs_nfc sha) s v of Inr a \<Rightarrow> [(label, a)] | Inl _ \<Rightarrow> [])
          | _ \<Rightarrow> []) (rr_sources r))"
proof -
  from assms(1,2) have as: "extract_args (hs_nfc sha) unquote pp req parsed (rr_sources r) = Inr (ex_args x)"
      and x: "ex_scope x = rr_scope r" "ex_tool x = rr_tool r" "ex_drift_mode x = rr_drift_mode r"
    unfolding assms(3) by (auto simp: extract_request_def Let_def split: if_splits)
  note spec = extract_args_spec[OF as]
  have "length (source_readings (hs_nfc sha) unquote pp req parsed s) \<le> 1" if "(label, s) \<in> set (rr_sources r)" for label s
  proof -
    have "\<forall>(label, s) \<in> set (rr_sources r). \<exists>rv. raw_value (hs_nfc sha) unquote pp req parsed s = Inr rv" using spec by blast
    from bspec[OF this that] obtain rv where "raw_value (hs_nfc sha) unquote pp req parsed s = Inr rv" by auto
    from raw_one_reading[OF this] show ?thesis by (simp split: option.splits)
  qed
  then show ?thesis using spec x by blast
qed

text \<open>
  Numbers the extractor neither scales exactly nor refuses.  A power of ten from \<open>1e4296\<close> on in a
  numeric body field is accepted and then raises an error of the hash, and from \<open>1e999996\<close> on an
  overflow; neither is the \<open>ExtractionError\<close> the pipeline turns into a refusal.  And a
  value finer than four places, when it has more digits than the context, is rounded and accepted.
\<close>

theorem oversized_numbers_escape:
  assumes "first_match (rt_rules t) (upper_case (hr_method req)) (hr_path req) = Some (r, pp)"
    "rr_sources r = [(label, \<lparr>sc_kind = KBody, sc_keys = [k], sc_numeric = True\<rparr>)]"
    "hr_body req = Some b" "b \<noteq> []" "int (length b) \<le> rt_max_extract_body_bytes t"
    "loads b = Some (JObj [(k, JNum False 1 e)])" "4296 \<le> e"
  shows "extract_request sha loads unquote t req
      = Inl (if e \<le> 999995 then HashFailed ValueError else DecimalOverflow)
    \<and> ext_to_scaled (JNum False (10 ^ 29 + 1) (- 29)) = Inr 10000"
proof
  let ?s = "\<lparr>sc_kind = KBody, sc_keys = [k], sc_numeric = True\<rparr>"
  let ?k = "nat e + 4"
  have raw: "raw_value (hs_nfc sha) unquote pp req (Some (JObj [(k, JNum False 1 e)])) ?s = Inr (Some (JNum False 1 e))"
    by (simp add: raw_value_def object_pairs_hook_def)
  have num: "ext_to_scaled (JNum False 1 e) = scale_dec (Fin (10 ^ (?k - 4)))"
    using assms(7) by (simp add: jnum_value_def power10_def)
  have parsed: "needs_body r" "parse_body loads (hr_body req) = Some (JObj [(k, JNum False 1 e)])"
      "\<not> body_too_large t req"
    using assms by (simp_all add: needs_body_def parse_body_def body_too_large_def)
  show "extract_request sha loads unquote t req
      = Inl (if e \<le> 999995 then HashFailed ValueError else DecimalOverflow)"
  proof (cases "e \<le> 999995")
    case True
    then have ok: "ext_to_scaled (JNum False 1 e) = Inr (10 ^ ?k)" using num scale_power[of ?k] assms(7) by simp
    have "int_str_limit \<le> 10 ^ ?k" unfolding int_str_limit_def by (rule power_increasing) (use assms(7) in simp_all)
    then have "\<not> \<bar>10 ^ ?k\<bar> < int_str_limit" by simp
    then have "hash_args sha [(label, VNum (of_int (10 ^ ?k)))] = Inl (HashFailed ValueError)"
      by (simp only: hash_args_def hash_object_def canonical_json_def list.map prod.case arg_pvalue.simps floor_of_int)
        (simp del: power_add)
    then show ?thesis using True parsed raw ok assms(1,2) by (simp add: extract_request_def Let_def convert_arg_def)
  next
    case False
    then have "ext_to_scaled (JNum False 1 e) = Inl DecimalOverflow" using num scale_power_overflow[of ?k] by simp
    then show ?thesis using False parsed raw assms(1,2) by (simp add: extract_request_def Let_def convert_arg_def)
  qed
  show "ext_to_scaled (JNum False (10 ^ 29 + 1) (- 29)) = Inr 10000" by (rule fine_number_rounded)
qed

section \<open>Witnesses\<close>

definition plain_sha :: hasher where
  "plain_sha = \<lparr>hs_nfc = latin_nfc, hs_sha = \<lambda>b. b\<rparr>"

definition demo_rule :: route_rule where
  "demo_rule =
     \<lparr>rr_method = ''POST'', rr_path = ''/pay'', rr_scope = ''payment:create'', rr_tool = ''pay'',
      rr_sources = [(''payment.amount'', \<lparr>sc_kind = KBody, sc_keys = [''amount''], sc_numeric = True\<rparr>)],
      rr_regex = (\<lambda>p. if p = ''/pay'' then Some [] else None), rr_drift_mode = DRIFT_STRICT\<rparr>"

definition demo_table :: route_table where
  "demo_table =
     \<lparr>rt_rules = [demo_rule], rt_deny_unmapped = True, rt_max_extract_body_bytes = 1024, rt_mapping_version = []\<rparr>"

definition demo_request :: http_request where
  "demo_request =
     \<lparr>hr_method = ''POST'', hr_path = ''/pay'', hr_query = [], hr_headers = [], hr_body = Some ''{}''\<rparr>"

lemma demo_match:
  "first_match (rt_rules demo_table) (upper_case (hr_method demo_request)) (hr_path demo_request) = Some (demo_rule, [])"
  by (simp add: demo_table_def demo_request_def demo_rule_def rule_matches_def upper_case_def less_eq_char_def)

lemma demo_extract:
  "\<exists>x. extract_request plain_sha (\<lambda>b. Some (JObj [(''amount'', JStr '' 5 '')])) (\<lambda>u. u) demo_table demo_request = Inr x"
proof -
  have "decimal_of_string '' 5 '' = Inr (Fin 5)" by code_simp
  moreover have "scale_dec (Fin 5) = Inr 50000"
  proof -
    have l: "length (nat_str 50000) = 5" by (simp add: nat_str.simps)
    have a: "adjusted 50000 = 4" by (simp add: adjusted_def l)
    have "ctx_round 50000 = 50000" by (simp add: ctx_round_def a power10_def round_half_even_def)
    then show ?thesis using a whole_of_int[of 50000] by simp
  qed
  moreover have "\<exists>h. hash_args plain_sha [(''payment.amount'', VNum 50000)] = Inr h"
    using small_int[of 50000] canonical_json_ok[of latin_nfc "PyMap [(''payment.amount'', PyInt 50000)]"]
    by (simp add: hash_args_def hash_object_def plain_sha_def)
  ultimately show ?thesis
    using demo_match by (auto simp: extract_request_def demo_table_def demo_rule_def demo_request_def needs_body_def
        body_too_large_def parse_body_def raw_value_def object_pairs_hook_def convert_arg_def plain_sha_def)
qed

theorem extracted_arguments_have_one_reading_witness:
  "\<exists>x. extract_request plain_sha (\<lambda>b. Some (JObj [(''amount'', JStr '' 5 '')])) (\<lambda>u. u) demo_table demo_request = Inr x
     \<and> ex_scope x = ''payment:create''"
proof -
  obtain x where x: "extract_request plain_sha (\<lambda>b. Some (JObj [(''amount'', JStr '' 5 '')])) (\<lambda>u. u) demo_table demo_request = Inr x"
    using demo_extract by blast
  have "ex_scope x = rr_scope demo_rule"
    using extracted_arguments_have_one_reading[OF x demo_match refl] by blast
  then show ?thesis using x by (simp add: demo_rule_def)
qed

theorem oversized_numbers_escape_witness:
  "extract_request plain_sha (\<lambda>b. Some (JObj [(''amount'', JNum False 1 5000)])) (\<lambda>u. u) demo_table demo_request
     = Inl (HashFailed ValueError)"
  using oversized_numbers_escape[OF demo_match, where k = "''amount''" and e = 5000 and label = "''payment.amount''"
      and b = "''{}''" and loads = "\<lambda>b. Some (JObj [(''amount'', JNum False 1 5000)])" and unquote = "\<lambda>u. u" and sha = plain_sha]
  by (simp add: demo_rule_def demo_request_def demo_table_def)

end
