(* ===== verification/Attenuation.thy ===== *)
theory Attenuation
  imports Tokens
begin

text \<open>
  \<open>agentiam_core/attenuation.py\<close>: the narrowing algebra on caveats, the mint-time check, the
  offline attenuation of a token, and the fold of a caveat chain into the authority it leaves.

  The lemmas show that \<open>narrows\<close> is a partial order within a comparability slot and that it is
  sound for \<open>evaluate\<close> (whatever a narrower caveat allows, the wider one allows); that
  \<open>check_narrowing\<close> compares every proposed atom with every ancestor of its slot; and that
  \<open>effective_bound\<close> describes exactly the requests a chain allows.  The locale
  \<open>narrowing_order\<close> is the contract a chain of delegations rests on.
\<close>

section \<open>Slots and atoms\<close>

datatype op_family = FUpper | FLower | FOp arg_operator

datatype window_side = BothSides | LowerSide | UpperSide

datatype slot =
    SlotKind caveat_kind
  | SlotBudget budget_dimension
  | SlotArg string op_family
  | SlotTime window_side

fun op_family_of :: "arg_operator \<Rightarrow> op_family" where
  "op_family_of LE = FUpper"
| "op_family_of LT = FUpper"
| "op_family_of GE = FLower"
| "op_family_of GT = FLower"
| "op_family_of op = FOp op"

fun comparability_slot :: "caveat \<Rightarrow> slot" where
  "comparability_slot (BudgetCeiling d _) = SlotBudget d"
| "comparability_slot (ArgPredicate path op _) = SlotArg path (op_family_of op)"
| "comparability_slot (TimeWindow nb na) =
     SlotTime (if nb \<noteq> None \<and> na \<noteq> None then BothSides
               else if nb \<noteq> None then LowerSide else UpperSide)"
| "comparability_slot c = SlotKind (caveat_kind_of c)"

fun atoms :: "caveat \<Rightarrow> caveat list" where
  "atoms (TimeWindow (Some nb) (Some na)) = [TimeWindow (Some nb) None, TimeWindow None (Some na)]"
| "atoms c = [c]"

section \<open>The order\<close>

text \<open>Decimal equality: a NaN equals nothing.\<close>

fun dec_eq :: "dec \<Rightarrow> dec \<Rightarrow> bool" where
  "dec_eq NaN _ = False"
| "dec_eq _ NaN = False"
| "dec_eq x y = (x = y)"

text \<open>A bound is a value and whether it is inclusive; \<open>cinc <= pinc\<close> on Python's booleans is implication.\<close>

definition bound_narrows :: "dec \<times> bool \<Rightarrow> dec \<times> bool \<Rightarrow> bool \<Rightarrow> bool py" where
  "bound_narrows child parent upper =
     (let (cv, cinc) = child; (pv, pinc) = parent
      in if dec_eq cv pv then Inr (cinc \<longrightarrow> pinc)
         else if upper then dec_lt cv pv else dec_lt pv cv)"

text \<open>\<open>_UPPER[op]\<close> and \<open>_LOWER[op]\<close>: whether the bound is inclusive.\<close>

definition inclusive :: "arg_operator \<Rightarrow> bool" where
  "inclusive op = (op = LE \<or> op = GE)"

text \<open>
  \<open>Decimal(str(value))\<close> of a predicate's value; a comparison operator never carries a set, so
  the last equation is the reading of a set's text, which is no number.
\<close>

fun pred_decimal :: "pred_value \<Rightarrow> dec py" where
  "pred_decimal (PScalar v) = decimal_of v"
| "pred_decimal (PSet _) = Inl InvalidOperation"

fun pred_subset :: "pred_value \<Rightarrow> pred_value \<Rightarrow> bool py" where
  "pred_subset (PSet S) (PSet T) = Inr (S \<subseteq> T)"
| "pred_subset _ _ = Inl TypeError"

definition arg_narrows ::
  "arg_operator \<Rightarrow> pred_value \<Rightarrow> arg_operator \<Rightarrow> pred_value \<Rightarrow> bool py" where
  "arg_narrows cop cv pop pv =
     (if op_family_of cop = FUpper
      then bindE (pred_decimal cv) (\<lambda>c. bindE (pred_decimal pv) (\<lambda>p.
             bound_narrows (c, inclusive cop) (p, inclusive pop) True))
      else if op_family_of cop = FLower
      then bindE (pred_decimal cv) (\<lambda>c. bindE (pred_decimal pv) (\<lambda>p.
             bound_narrows (c, inclusive cop) (p, inclusive pop) False))
      else if cop = IN then pred_subset cv pv
      else if cop = NOT_IN then pred_subset pv cv
      else Inr (cv = pv))"

definition narrows_same_slot :: "caveat \<Rightarrow> caveat \<Rightarrow> bool py" where
  "narrows_same_slot child parent =
     (case (child, parent) of
        (ScopeSubset c, ScopeSubset p) \<Rightarrow> Inr (c \<subseteq> p)
      | (BudgetCeiling _ c, BudgetCeiling _ p) \<Rightarrow> Inr (c \<le> p)
      | (TimeWindow cnb cna, TimeWindow pnb pna) \<Rightarrow>
          (let lower_ok = (pnb = None \<or> (cnb \<noteq> None \<and> the cnb \<ge> the pnb));
               upper_ok = (pna = None \<or> (cna \<noteq> None \<and> the cna \<le> the pna))
           in Inr (lower_ok \<and> upper_ok))
      | (ToolAllow c, ToolAllow p) \<Rightarrow> Inr (c \<subseteq> p)
      | (ToolDeny c, ToolDeny p) \<Rightarrow> Inr (p \<subseteq> c)
      | (ArgPredicate _ cop cv, ArgPredicate _ pop pv) \<Rightarrow> arg_narrows cop cv pop pv
      | (DepthLimit c, DepthLimit p) \<Rightarrow> Inr (c \<le> p)
      | (IntentBound c, IntentBound p) \<Rightarrow> Inr (c = p)
      | (RequiresApproval c, RequiresApproval p) \<Rightarrow> Inr (p \<subseteq> c)
      | _ \<Rightarrow> Inl CaveatError)"

definition narrows :: "caveat \<Rightarrow> caveat \<Rightarrow> bool py" where
  "narrows child parent =
     (if comparability_slot child \<noteq> comparability_slot parent then Inl CaveatError
      else narrows_same_slot child parent)"

section \<open>The mint-time check\<close>

definition grant_caveats :: "'b verified_token \<Rightarrow> caveat list" where
  "grant_caveats parent =
     [ScopeSubset (vt_scopes parent), DepthLimit (vt_max_depth parent),
      IntentBound (vt_intent_hash parent),
      TimeWindow (Some (vt_not_before parent)) (Some (vt_expires_at parent))]
     @ map (\<lambda>d. BudgetCeiling d (budget_get (vt_budget parent) d)) all_dimensions"

text \<open>\<open>by_slot.get(slot, [])\<close>: the ancestors' atoms of one slot, in order.\<close>

definition by_slot :: "caveat list \<Rightarrow> slot \<Rightarrow> caveat list" where
  "by_slot ancestors s = filter (\<lambda>a. comparability_slot a = s) (concat (map atoms ancestors))"

definition check_narrowing :: "caveat list \<Rightarrow> caveat list \<Rightarrow> unit py" where
  "check_narrowing caveats ancestors =
     forE (\<lambda>c. forE (\<lambda>atom. forE (\<lambda>ancestor.
        bindE (narrows atom ancestor) (\<lambda>ok. guardE ok AttenuationError))
          (by_slot ancestors (comparability_slot atom))) (atoms c)) caveats"

text \<open>\<open>TimeWindow(...)\<close> and the other constructors validate while the grant is rendered.\<close>

definition attenuate ::
  "('b, 'k) biscuit_lib \<Rightarrow> 'b verified_token \<Rightarrow> caveat list \<Rightarrow> string \<Rightarrow> string \<Rightarrow> caveat list \<Rightarrow> string py"
  where
  "attenuate lib parent caveats agent_id role ancestor_caveats =
     bindE (validate_label (code_points agent_id)) (\<lambda>_.
     bindE (validate_label (code_points role)) (\<lambda>_.
     bindE (traverseE mk_caveat (grant_caveats parent)) (\<lambda>grant.
     bindE (check_narrowing caveats (grant @ ancestor_caveats)) (\<lambda>_.
     bindE (block_datalog caveats) (\<lambda>body.
       (let lines = [Fact ''agent'' [TStr agent_id], Fact ''role'' [TStr role],
                     Fact ''declared_depth'' [TInt (vt_depth parent + 1)]];
            child = bl_to_base64 lib (bl_append lib (vt_biscuit parent) (lines @ body))
        in if length child > HARD_SIZE_LIMIT_B64 then Inl AttenuationError else Inr child))))))"

section \<open>Effective bound\<close>

record effective_authority =
  ea_scopes :: "string set option"
  ea_budget :: "budget_dimension \<rightharpoonup> decimal"
  ea_not_before :: "instant option"
  ea_not_after :: "instant option"
  ea_tools_allowed :: "string set option"
  ea_tools_denied :: "string set"
  ea_max_depth :: "int option"
  ea_intent_hash :: "string option"
  ea_approval_required :: "string set"

definition is_dead :: "effective_authority \<Rightarrow> bool" where
  "is_dead ea =
     (if ea_scopes ea = Some {} then True
      else (case (ea_not_before ea, ea_not_after ea) of
              (Some nb, Some na) \<Rightarrow> na \<le> nb
            | _ \<Rightarrow> False))"

definition unbounded :: effective_authority where
  "unbounded =
     \<lparr>ea_scopes = None, ea_budget = Map.empty, ea_not_before = None, ea_not_after = None,
      ea_tools_allowed = None, ea_tools_denied = {}, ea_max_depth = None, ea_intent_hash = None,
      ea_approval_required = {}\<rparr>"

fun fold_caveat :: "caveat \<Rightarrow> effective_authority \<Rightarrow> effective_authority" where
  "fold_caveat (ScopeSubset S) ea = ea\<lparr>ea_scopes := combine (\<inter>) (ea_scopes ea) S\<rparr>"
| "fold_caveat (BudgetCeiling d v) ea =
     ea\<lparr>ea_budget := (ea_budget ea)(d := combine min (ea_budget ea d) v)\<rparr>"
| "fold_caveat (TimeWindow nb na) ea =
     ea\<lparr>ea_not_before := (case nb of None \<Rightarrow> ea_not_before ea
                          | Some t \<Rightarrow> combine max (ea_not_before ea) t),
        ea_not_after := (case na of None \<Rightarrow> ea_not_after ea
                         | Some t \<Rightarrow> combine min (ea_not_after ea) t)\<rparr>"
| "fold_caveat (ToolAllow S) ea = ea\<lparr>ea_tools_allowed := combine (\<inter>) (ea_tools_allowed ea) S\<rparr>"
| "fold_caveat (ToolDeny S) ea = ea\<lparr>ea_tools_denied := ea_tools_denied ea \<union> S\<rparr>"
| "fold_caveat (DepthLimit d) ea = ea\<lparr>ea_max_depth := combine min (ea_max_depth ea) d\<rparr>"
| "fold_caveat (IntentBound h) ea = ea\<lparr>ea_intent_hash := Some h\<rparr>"
| "fold_caveat (RequiresApproval S) ea = ea\<lparr>ea_approval_required := ea_approval_required ea \<union> S\<rparr>"
| "fold_caveat (ArgPredicate _ _ _) ea = ea"

definition effective_bound :: "caveat list \<Rightarrow> effective_authority" where
  "effective_bound caveats = fold fold_caveat caveats unbounded"

definition effective_budget :: "caveat list \<Rightarrow> budget \<Rightarrow> budget py" where
  "effective_budget caveats start =
     (let bound = effective_bound caveats in
      bindE (scaled_dict (\<lambda>d. bindE (budget_scaled start d) (\<lambda>c.
               (case ea_budget bound d of
                  None \<Rightarrow> Inr c
                | Some v \<Rightarrow> bindE (scale v) (\<lambda>s. Inr (min c s))))))
        budget_from_scaled)"

section \<open>The order, case by case\<close>

text \<open>
  One rule for every way two caveats can share a slot.  The order is stated on caveats whose
  ordering predicates carry numbers: a string such as \<open>nan\<close> raises instead of comparing.
\<close>

fun numeric_bounds :: "caveat \<Rightarrow> bool" where
  "numeric_bounds (ArgPredicate _ op v) =
     (pred_value_ok op v \<and>
      (op_family_of op = FUpper \<or> op_family_of op = FLower \<longrightarrow> (\<exists>x. v = PScalar (VNum x))))"
| "numeric_bounds _ = True"

lemma same_slot_cases [consumes 1, case_names scope budget window allow deny arg depth intent approval]:
  assumes "comparability_slot c = comparability_slot p"
  obtains (scope) S T where "c = ScopeSubset S" "p = ScopeSubset T"
  | (budget) d x y where "c = BudgetCeiling d x" "p = BudgetCeiling d y"
  | (window) nb na nb' na' where "c = TimeWindow nb na" "p = TimeWindow nb' na'"
      "(nb = None) = (nb' = None) \<or> (na = None \<and> na' = None)" "(na = None) = (na' = None) \<or> (nb = None \<and> nb' = None)"
  | (allow) S T where "c = ToolAllow S" "p = ToolAllow T"
  | (deny) S T where "c = ToolDeny S" "p = ToolDeny T"
  | (arg) path op v op' v' where "c = ArgPredicate path op v" "p = ArgPredicate path op' v'"
      "op_family_of op = op_family_of op'"
  | (depth) d d' where "c = DepthLimit d" "p = DepthLimit d'"
  | (intent) h h' where "c = IntentBound h" "p = IntentBound h'"
  | (approval) S T where "c = RequiresApproval S" "p = RequiresApproval T"
proof (cases c)
  case (TimeWindow nb na)
  then show ?thesis using assms that(3) by (cases p) (auto split: if_splits)
qed (use assms in \<open>cases p; simp add: that split: if_splits\<close>)+

lemma narrows_slot: "narrows c p = Inr b \<Longrightarrow> comparability_slot c = comparability_slot p"
  by (simp add: narrows_def split: if_splits)

lemma op_family_of_cases:
  "op_family_of op = FUpper \<longleftrightarrow> op = LE \<or> op = LT"
  "op_family_of op = FLower \<longleftrightarrow> op = GE \<or> op = GT"
  by (cases op; simp)+

lemma op_family_eq:
  "op_family_of op = op_family_of op' \<Longrightarrow> op_family_of op \<noteq> FUpper \<Longrightarrow> op_family_of op \<noteq> FLower \<Longrightarrow> op = op'"
  by (cases op; cases op') simp_all

lemma arg_narrows_num:
  "op_family_of op = FUpper \<Longrightarrow>
     arg_narrows op (PScalar (VNum x)) op' (PScalar (VNum y))
       = Inr (x < y \<or> (x = y \<and> (inclusive op \<longrightarrow> inclusive op')))"
  "op_family_of op = FLower \<Longrightarrow>
     arg_narrows op (PScalar (VNum x)) op' (PScalar (VNum y))
       = Inr (y < x \<or> (x = y \<and> (inclusive op \<longrightarrow> inclusive op')))"
  by (auto simp: arg_narrows_def bound_narrows_def dec_lt_def)

lemma narrows_simps [simp]:
  "narrows (ScopeSubset S) (ScopeSubset T) = Inr (S \<subseteq> T)"
  "narrows (BudgetCeiling d x) (BudgetCeiling d y) = Inr (x \<le> y)"
  "narrows (ToolAllow S) (ToolAllow T) = Inr (S \<subseteq> T)"
  "narrows (ToolDeny S) (ToolDeny T) = Inr (T \<subseteq> S)"
  "narrows (DepthLimit n) (DepthLimit n') = Inr (n \<le> n')"
  "narrows (IntentBound h) (IntentBound h') = Inr (h = h')"
  "narrows (RequiresApproval S) (RequiresApproval T) = Inr (T \<subseteq> S)"
  "op_family_of op = op_family_of op' \<Longrightarrow>
     narrows (ArgPredicate path op v) (ArgPredicate path op' v') = arg_narrows op v op' v'"
  "narrows (TimeWindow None (Some t)) (TimeWindow None (Some t')) = Inr (t \<le> t')"
  "narrows (TimeWindow (Some t) None) (TimeWindow (Some t') None) = Inr (t' \<le> t)"
  "narrows (TimeWindow (Some a) (Some b)) (TimeWindow (Some a') (Some b')) = Inr (a' \<le> a \<and> b \<le> b')"
  "narrows (TimeWindow None None) (TimeWindow None None) = Inr True"
  by (simp_all add: narrows_def narrows_same_slot_def)

lemma arg_narrows_other:
  "op_family_of op \<noteq> FUpper \<Longrightarrow> op_family_of op \<noteq> FLower \<Longrightarrow>
   arg_narrows op v op v' =
     (if op = IN then pred_subset v v' else if op = NOT_IN then pred_subset v' v else Inr (v = v'))"
  by (simp add: arg_narrows_def)

lemma narrows_refl: "numeric_bounds c \<Longrightarrow> narrows c c = Inr True"
proof (cases c)
  case (ArgPredicate path op v)
  moreover assume "numeric_bounds c"
  ultimately show ?thesis
    by (cases op; cases v) (auto simp: arg_narrows_num arg_narrows_other membership_operator_def)
next
  case (TimeWindow nb na)
  then show ?thesis by (cases nb; cases na) simp_all
qed simp_all

lemma window_slot_cases [consumes 1]:
  assumes "comparability_slot (TimeWindow nb na) = comparability_slot (TimeWindow nb' na')"
    and "time_window_ok nb na" "time_window_ok nb' na'"
  obtains t t' where "nb = None" "na = Some t" "nb' = None" "na' = Some t'"
  | t t' where "nb = Some t" "na = None" "nb' = Some t'" "na' = None"
  | a b a' b' where "nb = Some a" "na = Some b" "nb' = Some a'" "na' = Some b'"
  using assms by (cases nb; cases na; cases nb'; cases na') auto

lemma arg_slot_num_cases [consumes 3]:
  assumes "op_family_of op = op_family_of op'" "numeric_bounds (ArgPredicate path op v)"
    "numeric_bounds (ArgPredicate path op' v')"
  obtains (upper) x y where "op_family_of op = FUpper" "op_family_of op' = FUpper"
      "v = PScalar (VNum x)" "v' = PScalar (VNum y)"
  | (lower) x y where "op_family_of op = FLower" "op_family_of op' = FLower"
      "v = PScalar (VNum x)" "v' = PScalar (VNum y)"
  | (member) S T where "op' = op" "op = IN \<or> op = NOT_IN" "v = PSet S" "v' = PSet T"
  | (equal) "op' = op" "op = EQ \<or> op = NE"
  using assms by (cases op; cases op'; cases v; cases v') (auto simp: membership_operator_def)

lemma narrows_antisym:
  assumes c: "numeric_bounds c" "caveat_wf c" and p: "numeric_bounds p" "caveat_wf p"
    and cp: "narrows c p = Inr True" and pc: "narrows p c = Inr True"
  shows "c = p"
  using narrows_slot[OF cp]
proof (cases rule: same_slot_cases)
  case (window nb na nb' na')
  then have "comparability_slot (TimeWindow nb na) = comparability_slot (TimeWindow nb' na')"
    using narrows_slot[OF cp] by simp
  then show ?thesis using window c p cp pc
    by (elim window_slot_cases) simp_all
next
  case (arg path op v op' v')
  have num: "numeric_bounds (ArgPredicate path op v)" "numeric_bounds (ArgPredicate path op' v')"
    using arg c p by simp_all
  from arg(3) num show ?thesis
  proof (cases rule: arg_slot_num_cases)
    case (upper x y)
    then show ?thesis using arg cp pc by (auto simp: arg_narrows_num op_family_of_cases inclusive_def)
  next
    case (lower x y)
    then show ?thesis using arg cp pc by (auto simp: arg_narrows_num op_family_of_cases inclusive_def)
  next
    case (member S T)
    then show ?thesis using arg cp pc by (auto simp: arg_narrows_other)
  next
    case equal
    then show ?thesis using arg cp pc by (auto simp: arg_narrows_other)
  qed
qed (use cp pc in auto)

lemma narrows_trans:
  assumes num: "numeric_bounds a" "numeric_bounds b" "numeric_bounds c"
    and wf: "caveat_wf a" "caveat_wf b" "caveat_wf c"
    and ab: "narrows a b = Inr True" and bc: "narrows b c = Inr True"
  shows "narrows a c = Inr True"
  using narrows_slot[OF ab]
proof (cases rule: same_slot_cases)
  case (window nb na nb' na')
  obtain nb'' na'' where c: "c = TimeWindow nb'' na''"
    using narrows_slot[OF bc] window by (cases c) (auto split: if_splits)
  have "comparability_slot (TimeWindow nb na) = comparability_slot (TimeWindow nb' na')"
    "comparability_slot (TimeWindow nb' na') = comparability_slot (TimeWindow nb'' na'')"
    using narrows_slot[OF ab] narrows_slot[OF bc] window c by simp_all
  moreover have "time_window_ok nb na" "time_window_ok nb' na'" "time_window_ok nb'' na''"
    using window wf c by simp_all
  ultimately show ?thesis using window(1,2) ab bc c
    by (cases nb; cases na; cases nb'; cases na'; cases nb''; cases na'') auto
next
  case (arg path op v op' v')
  obtain op'' v'' where c: "c = ArgPredicate path op'' v''" "op_family_of op' = op_family_of op''"
    using narrows_slot[OF bc] arg by (cases c) (auto split: if_splits)
  have n: "numeric_bounds (ArgPredicate path op v)" "numeric_bounds (ArgPredicate path op' v')"
    "numeric_bounds (ArgPredicate path op'' v'')"
    using arg num c by simp_all
  from arg(3) n(1,2) show ?thesis
  proof (cases rule: arg_slot_num_cases)
    case (upper x y)
    then show ?thesis using arg c n(3) ab bc
      by (auto simp: arg_narrows_num op_family_of_cases inclusive_def)
  next
    case (lower x y)
    then show ?thesis using arg c n(3) ab bc
      by (auto simp: arg_narrows_num op_family_of_cases inclusive_def)
  next
    case (member S T)
    then have "op'' = op" using c(2) by (cases op'') auto
    then show ?thesis using member arg c n(3) ab bc by (cases v'') (auto simp: arg_narrows_other, blast+)
  next
    case equal
    then have "op'' = op" using c(2) by (cases op'') auto
    then show ?thesis using equal arg c ab bc by (auto simp: arg_narrows_other)
  qed
qed (use ab bc narrows_slot[OF bc] in \<open>cases c; auto\<close>)+

section \<open>Soundness of the order for evaluation\<close>

definition permits :: "caveat \<Rightarrow> request_context \<Rightarrow> bool" where
  "permits c ctx = (evaluate c ctx = Inr allow_result)"

lemma dec_le_trans: "dec_le x y = Inr True \<Longrightarrow> dec_le y z = Inr True \<Longrightarrow> dec_le x z = Inr True"
  by (cases x; cases y; cases z) auto

lemma dec_le_total: "dec_le x y = Inr b \<Longrightarrow> \<exists>b'. dec_le y x = Inr b'"
  by (cases x; cases y) auto

lemma bound_narrows_upper:
  assumes "bound_narrows (c, cinc) (p, pinc) True = Inr True"
    and "(if cinc then dec_le x c else dec_lt x c) = Inr True"
  shows "(if pinc then dec_le x p else dec_lt x p) = Inr True"
  using assms by (cases x; cases c; cases p) (auto simp: bound_narrows_def dec_lt_def split: if_splits)

lemma bound_narrows_lower:
  assumes "bound_narrows (c, cinc) (p, pinc) False = Inr True"
    and "(if cinc then dec_le c x else dec_lt c x) = Inr True"
  shows "(if pinc then dec_le p x else dec_lt p x) = Inr True"
  using assms by (cases x; cases c; cases p) (auto simp: bound_narrows_def dec_lt_def split: if_splits)

lemma compare_upper:
  "op_family_of op = FUpper \<Longrightarrow> compare a op v =
     bindE (decimal_of a) (\<lambda>x. bindE (decimal_of v) (\<lambda>y. if inclusive op then dec_le x y else dec_lt x y))"
  by (cases op) (simp_all add: inclusive_def)

lemma compare_lower:
  "op_family_of op = FLower \<Longrightarrow> compare a op v =
     bindE (decimal_of a) (\<lambda>x. bindE (decimal_of v) (\<lambda>y. if inclusive op then dec_le y x else dec_lt y x))"
  by (cases op) (simp_all add: inclusive_def)

lemma arg_satisfied_scalar: "\<not> membership_operator op \<Longrightarrow> arg_satisfied a op (PScalar v) = compare a op v"
  by (cases op) (simp_all add: membership_operator_def)

lemma arg_narrows_sound:
  assumes fam: "op_family_of cop = op_family_of pop"
    and ok: "pred_value_ok cop cv" "pred_value_ok pop pv"
    and nar: "arg_narrows cop cv pop pv = Inr True" and sat: "arg_satisfied a cop cv = Inr True"
  shows "arg_satisfied a pop pv = Inr True"
proof -
  consider "op_family_of cop = FUpper" | "op_family_of cop = FLower"
    | "op_family_of cop \<noteq> FUpper" "op_family_of cop \<noteq> FLower" by blast
  then show ?thesis
  proof cases
    case 1
    then obtain c p where v: "cv = PScalar c" "pv = PScalar p" "\<not> membership_operator cop" "\<not> membership_operator pop"
      using ok fam by (cases cv; cases pv) (auto simp: op_family_of_cases membership_operator_def)
    then obtain x y z where "decimal_of a = Inr x" "decimal_of c = Inr y" "decimal_of p = Inr z"
      "bound_narrows (y, inclusive cop) (z, inclusive pop) True = Inr True"
      "(if inclusive cop then dec_le x y else dec_lt x y) = Inr True"
      using sat nar 1 by (auto simp: arg_satisfied_scalar compare_upper arg_narrows_def)
    then show ?thesis using bound_narrows_upper v 1 fam
      by (simp add: arg_satisfied_scalar compare_upper)
  next
    case 2
    then obtain c p where v: "cv = PScalar c" "pv = PScalar p" "\<not> membership_operator cop" "\<not> membership_operator pop"
      using ok fam by (cases cv; cases pv) (auto simp: op_family_of_cases membership_operator_def)
    then obtain x y z where "decimal_of a = Inr x" "decimal_of c = Inr y" "decimal_of p = Inr z"
      "bound_narrows (y, inclusive cop) (z, inclusive pop) False = Inr True"
      "(if inclusive cop then dec_le y x else dec_lt y x) = Inr True"
      using sat nar 2 by (auto simp: arg_satisfied_scalar compare_lower arg_narrows_def)
    then show ?thesis using bound_narrows_lower v 2 fam
      by (simp add: arg_satisfied_scalar compare_lower)
  next
    case 3
    then have op: "pop = cop" using op_family_eq[OF fam] by simp
    show ?thesis
    proof (cases "membership_operator cop")
      case True
      then obtain S T where "cv = PSet S" "pv = PSet T" "cop = IN \<or> cop = NOT_IN"
        using ok op by (cases cv; cases pv) (auto simp: membership_operator_def)
      then show ?thesis using nar sat op 3 by (cases a) (auto simp: arg_narrows_other)
    next
      case False
      then show ?thesis using nar sat op 3 by (auto simp: arg_narrows_other membership_operator_def)
    qed
  qed
qed

lemma narrows_sound:
  assumes wf: "caveat_wf c" "caveat_wf p" and nar: "narrows c p = Inr True" and allow: "permits c ctx"
  shows "permits p ctx"
  using narrows_slot[OF nar]
proof (cases rule: same_slot_cases)
  case (window nb na nb' na')
  then have "comparability_slot (TimeWindow nb na) = comparability_slot (TimeWindow nb' na')"
    using narrows_slot[OF nar] by simp
  then show ?thesis using window(1,2) wf nar allow
    by (cases nb; cases na; cases nb'; cases na') (auto simp: permits_def split: if_splits)
next
  case (arg path op v op' v')
  then show ?thesis using wf nar allow arg_narrows_sound[of op op' v v']
    by (auto simp: permits_def split: option.splits if_splits)
qed (use nar allow in \<open>auto simp: permits_def split: option.splits if_splits\<close>)

section \<open>Chains of delegation\<close>

text \<open>
  What a chain of delegations relies on: an order on restrictions that is reflexive and
  transitive on the restrictions in use and sound for what a restriction permits.  A chain in
  which each link narrows the one before it then permits nothing its root does not.
\<close>

locale narrowing_order =
  fixes valid :: "'c \<Rightarrow> bool" and le :: "'c \<Rightarrow> 'c \<Rightarrow> bool" and allows :: "'c \<Rightarrow> 'x \<Rightarrow> bool"
  assumes le_refl: "valid c \<Longrightarrow> le c c"
    and le_trans: "valid a \<Longrightarrow> valid b \<Longrightarrow> valid c \<Longrightarrow> le a b \<Longrightarrow> le b c \<Longrightarrow> le a c"
    and le_sound: "valid a \<Longrightarrow> valid b \<Longrightarrow> le a b \<Longrightarrow> allows a x \<Longrightarrow> allows b x"
begin

fun chain :: "'c \<Rightarrow> 'c list \<Rightarrow> bool" where
  "chain r [] = True"
| "chain r (c # cs) = (le c r \<and> chain c cs)"

lemma chain_below_root:
  "valid r \<Longrightarrow> list_all valid cs \<Longrightarrow> chain r cs \<Longrightarrow> c \<in> set cs \<Longrightarrow> le c r"
proof (induction cs arbitrary: r)
  case (Cons d ds)
  show ?case
  proof (cases "c = d")
    case False
    then have "le c d" using Cons by simp
    then show ?thesis using Cons.prems le_trans[of c d r] by (auto simp: list_all_iff)
  qed (use Cons.prems in simp)
qed simp

lemma chain_allows_root:
  "valid r \<Longrightarrow> list_all valid cs \<Longrightarrow> chain r cs \<Longrightarrow> allows (last (r # cs)) x \<Longrightarrow> allows r x"
  using chain_below_root[of r cs "last cs"] le_sound[of "last cs" r x]
  by (auto simp: list_all_iff split: if_splits)

end

definition comparable_caveat :: "caveat \<Rightarrow> bool" where
  "comparable_caveat c = (caveat_wf c \<and> numeric_bounds c)"

interpretation caveats: narrowing_order comparable_caveat "\<lambda>c p. narrows c p = Inr True" permits
proof
  show "narrows c c = Inr True" if "comparable_caveat c" for c
    using that by (simp add: comparable_caveat_def narrows_refl)
  show "narrows a c = Inr True" if "comparable_caveat a" "comparable_caveat b" "comparable_caveat c"
    "narrows a b = Inr True" "narrows b c = Inr True" for a b c
    using that narrows_trans by (auto simp: comparable_caveat_def)
  show "permits b x" if "comparable_caveat a" "comparable_caveat b" "narrows a b = Inr True" "permits a x"
    for a b x
    using that narrows_sound by (auto simp: comparable_caveat_def)
qed

section \<open>The mint-time check\<close>

lemma check_narrowing_Inr_iff:
  "check_narrowing cs anc = Inr u \<longleftrightarrow>
     (\<forall>c \<in> set cs. \<forall>x \<in> set (atoms c). \<forall>a \<in> set anc. \<forall>y \<in> set (atoms a).
        comparability_slot y = comparability_slot x \<longrightarrow> narrows x y = Inr True)"
  by (fastforce simp: check_narrowing_def by_slot_def)

lemma grant_in:
  "ScopeSubset (vt_scopes vt) \<in> set (grant_caveats vt)"
  "DepthLimit (vt_max_depth vt) \<in> set (grant_caveats vt)"
  "IntentBound (vt_intent_hash vt) \<in> set (grant_caveats vt)"
  "TimeWindow (Some (vt_not_before vt)) (Some (vt_expires_at vt)) \<in> set (grant_caveats vt)"
  "BudgetCeiling d (budget_get (vt_budget vt) d) \<in> set (grant_caveats vt)"
  by (auto simp: grant_caveats_def)

lemma traverse_mk_caveat: "traverseE mk_caveat cs = Inr cs' \<Longrightarrow> cs' = cs \<and> list_all caveat_wf cs"
proof (induction cs arbitrary: cs')
  case (Cons c cs)
  then show ?case by (auto simp: mk_caveat_def split: if_splits)
qed simp

text \<open>What a proposed caveat must satisfy against the grant of the parent token.\<close>

fun within_grant :: "'b verified_token \<Rightarrow> caveat \<Rightarrow> bool" where
  "within_grant vt (ScopeSubset S) = (S \<subseteq> vt_scopes vt)"
| "within_grant vt (BudgetCeiling d v) = (v \<le> budget_get (vt_budget vt) d)"
| "within_grant vt (TimeWindow nb na) =
     (within_opt (\<lambda>t. vt_not_before vt \<le> t) nb \<and> within_opt (\<lambda>t. t \<le> vt_expires_at vt) na)"
| "within_grant vt (DepthLimit d) = (d \<le> vt_max_depth vt)"
| "within_grant vt (IntentBound h) = (h = vt_intent_hash vt)"
| "within_grant vt _ = True"

lemma check_narrowing_grant:
  assumes ok: "check_narrowing cs (grant_caveats vt @ anc) = Inr u" and c: "c \<in> set cs"
    and wf: "caveat_wf c"
  shows "within_grant vt c"
proof -
  have nar: "narrows x y = Inr True"
    if "x \<in> set (atoms c)" "a \<in> set (grant_caveats vt)" "y \<in> set (atoms a)"
      "comparability_slot y = comparability_slot x" for x a y
    using ok c that unfolding check_narrowing_Inr_iff by fastforce
  show ?thesis
  proof (cases c)
    case (TimeWindow nb na)
    note w = nar[OF _ grant_in(4)]
    show ?thesis
      using TimeWindow wf w[of "TimeWindow nb None" "TimeWindow (Some (vt_not_before vt)) None"]
        w[of "TimeWindow None na" "TimeWindow None (Some (vt_expires_at vt))"]
      by (cases nb; cases na) simp_all
  qed (use nar[of c, OF _ grant_in(1)] nar[of c, OF _ grant_in(2)] nar[of c, OF _ grant_in(3)]
      nar[of c, OF _ grant_in(5)] in auto)
qed

section \<open>The fold\<close>

text \<open>The requests an effective authority describes.\<close>

definition admits :: "effective_authority \<Rightarrow> request_context \<Rightarrow> bool" where
  "admits ea ctx \<longleftrightarrow>
     within_opt (\<lambda>S. operation ctx \<in> S) (ea_scopes ea)
   \<and> (\<forall>d. within_opt (\<lambda>v. requested ctx d \<le> v) (ea_budget ea d))
   \<and> within_opt (\<lambda>t. t \<le> now ctx) (ea_not_before ea)
   \<and> within_opt (\<lambda>t. now ctx < t) (ea_not_after ea)
   \<and> within_opt (\<lambda>S. tool ctx \<in> Some ` S) (ea_tools_allowed ea)
   \<and> tool ctx \<notin> Some ` ea_tools_denied ea
   \<and> within_opt (\<lambda>d. current_depth ctx \<le> d) (ea_max_depth ea)
   \<and> within_opt (\<lambda>h. request_intent ctx = h) (ea_intent_hash ea)
   \<and> operation ctx \<notin> ea_approval_required ea"

fun foldable :: "caveat \<Rightarrow> bool" where
  "foldable (ArgPredicate _ _ _) = False"
| "foldable _ = True"

text \<open>The one field the fold overwrites instead of combining.\<close>

definition intents_agree :: "caveat list \<Rightarrow> bool" where
  "intents_agree cs = (\<forall>h h'. IntentBound h \<in> set cs \<longrightarrow> IntentBound h' \<in> set cs \<longrightarrow> h = h')"

lemma within_combine_some_inter [simp]:
  "within_opt (\<lambda>S. x \<in> Some ` S) (combine (\<inter>) acc V) \<longleftrightarrow> x \<in> Some ` V \<and> within_opt (\<lambda>S. x \<in> Some ` S) acc"
  by (cases acc) (auto simp: combine_def)

lemma all_fun_upd: "(\<forall>d. P d ((f(a := v)) d)) \<longleftrightarrow> P a v \<and> (\<forall>d. d \<noteq> a \<longrightarrow> P d (f d))"
  by (metis fun_upd_other fun_upd_same)

lemma admits_fold_caveat:
  assumes "foldable c" and "\<And>h. c = IntentBound h \<Longrightarrow> within_opt (\<lambda>h'. h' = h) (ea_intent_hash ea)"
  shows "admits (fold_caveat c ea) ctx \<longleftrightarrow> permits c ctx \<and> admits ea ctx"
proof (cases c)
  case (BudgetCeiling d v)
  have "(\<forall>d'. within_opt (\<lambda>b. requested ctx d' \<le> b) (((ea_budget ea)(d := combine min (ea_budget ea d) v)) d'))
     \<longleftrightarrow> requested ctx d \<le> v \<and> (\<forall>d'. within_opt (\<lambda>b. requested ctx d' \<le> b) (ea_budget ea d'))"
    unfolding all_fun_upd by auto
  then show ?thesis by (auto simp: BudgetCeiling admits_def permits_def)
next
  case (TimeWindow nb na)
  then show ?thesis by (cases nb; cases na) (auto simp: admits_def permits_def)
next
  case (ToolAllow S)
  have "permits (ToolAllow S) ctx \<longleftrightarrow> tool ctx \<in> Some ` S"
    by (auto simp: permits_def split: option.splits)
  then show ?thesis by (auto simp: ToolAllow admits_def)
next
  case (ToolDeny S)
  have "permits (ToolDeny S) ctx \<longleftrightarrow> tool ctx \<notin> Some ` S"
    by (auto simp: permits_def split: option.splits)
  then show ?thesis by (auto simp: ToolDeny admits_def)
next
  case (IntentBound h)
  then show ?thesis using assms(2)[OF IntentBound]
    by (cases "ea_intent_hash ea") (auto simp: admits_def permits_def)
qed (use assms in \<open>auto simp: admits_def permits_def\<close>)

lemma admits_fold_sound:
  assumes "permits c ctx" and "admits ea ctx" shows "admits (fold_caveat c ea) ctx"
proof (cases "foldable c \<and> (\<forall>h. c = IntentBound h \<longrightarrow> within_opt (\<lambda>h'. h' = h) (ea_intent_hash ea))")
  case True
  then show ?thesis using assms by (simp add: admits_fold_caveat)
next
  case False
  then show ?thesis using assms by (cases c) (auto simp: admits_def permits_def split: if_splits)
qed

lemma admits_fold_sound_list:
  "list_all (\<lambda>c. permits c ctx) cs \<Longrightarrow> admits ea ctx \<Longrightarrow> admits (fold fold_caveat cs ea) ctx"
  by (induction cs arbitrary: ea) (simp_all add: admits_fold_sound)

lemma admits_fold_exact:
  "list_all foldable cs \<Longrightarrow> intents_agree cs \<Longrightarrow>
   (\<And>h. IntentBound h \<in> set cs \<Longrightarrow> within_opt (\<lambda>h'. h' = h) (ea_intent_hash ea)) \<Longrightarrow>
   admits (fold fold_caveat cs ea) ctx \<longleftrightarrow> list_all (\<lambda>c. permits c ctx) cs \<and> admits ea ctx"
proof (induction cs arbitrary: ea)
  case (Cons c cs)
  have "admits (fold fold_caveat cs (fold_caveat c ea)) ctx \<longleftrightarrow>
      list_all (\<lambda>c. permits c ctx) cs \<and> admits (fold_caveat c ea) ctx"
  proof (rule Cons.IH)
    show "intents_agree cs" using Cons.prems(2) by (simp add: intents_agree_def)
    fix h assume h: "IntentBound h \<in> set cs"
    show "within_opt (\<lambda>h'. h' = h) (ea_intent_hash (fold_caveat c ea))"
    proof (cases "\<exists>k. c = IntentBound k")
      case True
      then show ?thesis using h Cons.prems(2) by (auto simp: intents_agree_def)
    next
      case False
      then have "ea_intent_hash (fold_caveat c ea) = ea_intent_hash ea" by (cases c) simp_all
      then show ?thesis using h Cons.prems(3) by simp
    qed
  qed (use Cons.prems in simp)
  moreover have "admits (fold_caveat c ea) ctx \<longleftrightarrow> permits c ctx \<and> admits ea ctx"
    by (rule admits_fold_caveat) (use Cons.prems in auto)
  ultimately show ?case by auto
qed simp

lemma admits_unbounded: "admits unbounded ctx"
  by (simp add: admits_def unbounded_def)

lemma admits_alive: "admits ea ctx \<Longrightarrow> \<not> is_dead ea"
  by (auto simp: admits_def is_dead_def split: option.splits)

section \<open>The authority block and the grant\<close>

lemma set_string_facts: "finite S \<Longrightarrow> set (string_facts p S) = (\<lambda>s. Fact p [TStr s]) ` S"
  by (simp add: string_facts_def)

lemma authority_block_shape:
  assumes m: "mandate_wf m" and fin: "finite (md_scopes m)"
    and facts: "authority_facts m = Inr facts" and checks: "authority_checks m = Inr checks"
  shows "p \<in> {''operation'', ''current_depth'', ''request_intent'', ''time'', ''requested''} \<Longrightarrow> Fact p us \<notin> set facts"
    and "Fact ''scope'' us \<in> set facts \<longleftrightarrow> (\<exists>s \<in> md_scopes m. us = [TStr s])"
    and "Fact ''intent'' us \<in> set facts \<longleftrightarrow> us = [TStr (md_intent_hash m)]"
    and "set checks =
      {CheckJoin ''operation'' ''scope'', CheckIf ''current_depth'' [] (GCmp CLe (TInt (md_max_depth m))),
       CheckJoin ''request_intent'' ''intent'',
       CheckIf ''time'' [] (GCmp CGe (datalog_date (md_not_before m))),
       CheckIf ''time'' [] (GCmp CLt (datalog_date (md_expires_at m)))}
      \<union> range (\<lambda>d. CheckIf ''requested'' [TStr (dimension_value d)] (GCmp CLe (TInt (budget_units m d))))"
proof -
  have wf: "budget_wf (md_budget m)" using m by (simp add: mandate_wf_def)
  note units = traverse_sorted_dimensions[OF wf]
  note f = facts[unfolded authority_facts_def units bindE.simps, simplified, symmetric]
  note c = checks[unfolded authority_checks_def units bindE.simps, simplified, symmetric]
  have dims: "set sorted_dimensions = UNIV"
    using all_dimensions_complete by (auto simp: all_dimensions_def sorted_dimensions_def)
  show "p \<in> {''operation'', ''current_depth'', ''request_intent'', ''time'', ''requested''} \<Longrightarrow> Fact p us \<notin> set facts"
    using fin by (auto simp: f set_string_facts)
  show "Fact ''scope'' us \<in> set facts \<longleftrightarrow> (\<exists>s \<in> md_scopes m. us = [TStr s])"
    using fin by (auto simp: f set_string_facts)
  show "Fact ''intent'' us \<in> set facts \<longleftrightarrow> us = [TStr (md_intent_hash m)]"
    using fin by (auto simp: f set_string_facts)
  show "set checks =
      {CheckJoin ''operation'' ''scope'', CheckIf ''current_depth'' [] (GCmp CLe (TInt (md_max_depth m))),
       CheckJoin ''request_intent'' ''intent'',
       CheckIf ''time'' [] (GCmp CGe (datalog_date (md_not_before m))),
       CheckIf ''time'' [] (GCmp CLt (datalog_date (md_expires_at m)))}
      \<union> range (\<lambda>d. CheckIf ''requested'' [TStr (dimension_value d)] (GCmp CLe (TInt (budget_units m d))))"
    by (auto simp: c dims)
qed

lemma join_one:
  assumes "datalog_engine passes" and "\<And>t. Fact p [t] \<in> set F \<longleftrightarrow> t = u"
  shows "passes F (CheckJoin p q) \<longleftrightarrow> Fact q [u] \<in> set F"
  using datalog_engine.join_passes[OF assms(1), of F p q] assms(2) by auto

lemma authority_checks_exact:
  assumes engine: "datalog_engine passes" and m: "mandate_wf m" and fin: "finite (md_scopes m)"
    and facts: "authority_facts m = Inr facts" and checks: "authority_checks m = Inr checks"
    and F: "request_context_datalog ctx = Inr F"
  shows "list_all (passes (facts @ F)) checks \<longleftrightarrow>
     operation ctx \<in> md_scopes m \<and> current_depth ctx \<le> md_max_depth m
   \<and> request_intent ctx = md_intent_hash m
   \<and> md_not_before m div 1000000 \<le> now ctx div 1000000
   \<and> now ctx div 1000000 < md_expires_at m div 1000000
   \<and> (\<forall>d. requested ctx d \<le> budget_get (md_budget m) d)"
proof -
  note shape = authority_block_shape[OF m fin facts checks]
  note req = request_facts_iff[OF F]
  note one = datalog_engine.check_one[OF engine]
  have wf: "budget_wf (md_budget m)" using m by (simp add: mandate_wf_def)
  have op: "passes (facts @ F) (CheckJoin ''operation'' ''scope'') \<longleftrightarrow> operation ctx \<in> md_scopes m"
    by (subst join_one[OF engine, where u = "TStr (operation ctx)"]) (auto simp: shape req)
  have intent: "passes (facts @ F) (CheckJoin ''request_intent'' ''intent'') \<longleftrightarrow> request_intent ctx = md_intent_hash m"
    by (subst join_one[OF engine, where u = "TStr (request_intent ctx)"]) (auto simp: shape req)
  have depth: "passes (facts @ F) (CheckIf ''current_depth'' [] (GCmp CLe (TInt n))) \<longleftrightarrow> current_depth ctx \<le> n" for n
    by (rule one[where u = "TInt (current_depth ctx)"]) (auto simp: shape req)
  have time: "passes (facts @ F) (CheckIf ''time'' [] (GCmp k (datalog_date t))) \<longleftrightarrow>
      cmp_int k (now ctx div 1000000) (t div 1000000)" for k t
    by (rule one[where u = "datalog_date (now ctx)"]) (auto simp: shape req datalog_date_def)
  have budget: "passes (facts @ F) (CheckIf ''requested'' [TStr (dimension_value d)] (GCmp CLe (TInt (budget_units m d))))
      \<longleftrightarrow> requested ctx d \<le> budget_get (md_budget m) d" for d
  proof -
    obtain k where k: "scale (requested ctx d) = Inr k"
    proof -
      have "\<exists>k. scale (requested ctx d) = Inr k"
        using F by (cases d) (auto simp: request_context_datalog_def all_dimensions_def Let_def)
      then show ?thesis using that by blast
    qed
    have u: "scale (budget_get (md_budget m) d) = Inr (budget_units m d)"
      using budget_get_scales[OF wf, of d] by (simp add: scale_def BUDGET_SCALE_def budget_units_def)
    have "passes (facts @ F) (CheckIf ''requested'' [TStr (dimension_value d)] (GCmp CLe (TInt (budget_units m d))))
        \<longleftrightarrow> k \<le> budget_units m d"
      by (rule one[where u = "TInt k"]) (use k in \<open>auto simp: shape req dimension_value_inj\<close>)
    then show ?thesis using scale_le[OF k u] by simp
  qed
  show ?thesis
    unfolding list_all_iff shape(4) by (auto simp: op intent depth time budget)
qed

section \<open>Properties\<close>

text \<open>
  \<open>narrows\<close> is a partial order on the validated caveats whose ordering predicates carry
  numbers: every caveat narrows itself, two caveats that narrow each other are equal, and
  narrowing composes.
\<close>
theorem narrows_partial_order:
  assumes "comparable_caveat a" "comparable_caveat b" "comparable_caveat c"
  shows "narrows a a = Inr True
    \<and> (narrows a b = Inr True \<and> narrows b a = Inr True \<longrightarrow> a = b)
    \<and> (narrows a b = Inr True \<and> narrows b c = Inr True \<longrightarrow> narrows a c = Inr True)"
  using assms narrows_refl[of a] narrows_antisym[of a b] narrows_trans[of a b c]
  by (simp add: comparable_caveat_def)

text \<open>
  C4: Authority only shrinks along a delegation chain: if each caveat of a chain narrows the
  one before it, every request the last one allows is allowed by the first, including under the
  two reversed orders (\<open>ToolDeny\<close>, \<open>RequiresApproval\<close>).
\<close>
theorem delegation_chain_narrows:
  assumes "comparable_caveat r" and "list_all comparable_caveat cs" and "caveats.chain r cs"
    and "evaluate (last (r # cs)) ctx = Inr allow_result"
  shows "evaluate r ctx = Inr allow_result"
  using caveats.chain_allows_root[OF assms(1-3), of ctx] assms(4) unfolding permits_def by blast

lemma attenuate_grants:
  assumes "attenuate lib parent cs agent_id role anc = Inr child"
  shows "label_ok agent_id \<and> label_ok role \<and> length child \<le> HARD_SIZE_LIMIT_B64
    \<and> (\<forall>c \<in> set cs. caveat_wf c \<longrightarrow> within_grant parent c)"
proof -
  from assms obtain grant where grant: "traverseE mk_caveat (grant_caveats parent) = Inr grant"
    and chk: "check_narrowing cs (grant @ anc) = Inr ()"
    and rest: "label_ok agent_id" "label_ok role" "length child \<le> HARD_SIZE_LIMIT_B64"
    by (auto simp: attenuate_def Let_def is_ok_iff split: if_splits)
  have "check_narrowing cs (grant_caveats parent @ anc) = Inr ()"
    using chk traverse_mk_caveat[OF grant] by simp
  then show ?thesis using rest check_narrowing_grant by blast
qed

text \<open>
  C11: Whatever \<open>attenuate\<close> mints stays inside the parent's grant: a child token is produced
  only when both labels are safe, the token fits the size limit, and every well-formed caveat it
  declares is within the grant: no scope the parent lacks, no raised ceiling in any dimension,
  no extended window, no deeper delegation, no other intent.
\<close>
theorem attenuate_within_grant:
  assumes "attenuate lib parent cs agent_id role anc = Inr child"
  shows "label_ok agent_id \<and> label_ok role \<and> length child \<le> HARD_SIZE_LIMIT_B64
    \<and> (\<forall>c \<in> set cs. caveat_wf c \<longrightarrow> within_grant parent c)"
  by (rule attenuate_grants[OF assms])

text \<open>
  The checks of the authority block \<open>mint_root\<close> signs accept exactly the requests inside
  the mandate: operation granted, depth and intent bound, the window at the second's resolution
  Datalog dates have, and every budget dimension inside its own ceiling, so that a dimension
  below its ceiling cannot stand in for one above it.
\<close>
theorem authority_checks_bound_every_dimension:
  assumes "datalog_engine passes" and "mandate_wf m" and "finite (md_scopes m)"
    and "authority_facts m = Inr facts" and "authority_checks m = Inr checks"
    and "request_context_datalog ctx = Inr F"
  shows "list_all (passes (facts @ F)) checks \<longleftrightarrow>
     operation ctx \<in> md_scopes m \<and> current_depth ctx \<le> md_max_depth m
   \<and> request_intent ctx = md_intent_hash m
   \<and> md_not_before m div 1000000 \<le> now ctx div 1000000
   \<and> now ctx div 1000000 < md_expires_at m div 1000000
   \<and> (\<forall>d. requested ctx d \<le> budget_get (md_budget m) d)"
  using authority_checks_exact[OF assms] .

text \<open>
  \<open>effective_bound\<close> is an upper bound of every chain (a request all caveats allow is
  admitted by the fold, and a dead authority means no request is allowed), and it is exact on
  chains without argument predicates whose intent bindings agree.
\<close>
theorem effective_bound_exact:
  shows "(list_all (\<lambda>c. permits c ctx) cs \<longrightarrow>
            admits (effective_bound cs) ctx \<and> \<not> is_dead (effective_bound cs))
    \<and> (list_all foldable cs \<and> intents_agree cs \<longrightarrow>
         (admits (effective_bound cs) ctx \<longleftrightarrow> list_all (\<lambda>c. permits c ctx) cs))"
  using admits_fold_sound_list[OF _ admits_unbounded] admits_alive
    admits_fold_exact[of cs unbounded ctx]
  by (auto simp: effective_bound_def admits_unbounded unbounded_def)

section \<open>Witnesses\<close>

lemma demo_caveats_comparable:
  "comparable_caveat (ToolDeny {''shell''})" "comparable_caveat (ToolDeny {''shell'', ''mail''})"
  "comparable_caveat (ArgPredicate ''limit'' LE (PScalar (VNum 50)))"
  "comparable_caveat (ArgPredicate ''limit'' LT (PScalar (VNum 50)))"
  "comparable_caveat (ArgPredicate ''limit'' LE (PScalar (VNum 60)))"
  by (simp_all add: comparable_caveat_def membership_operator_def)

theorem narrows_partial_order_witness:
  "narrows (ArgPredicate ''limit'' LT (PScalar (VNum 50))) (ArgPredicate ''limit'' LE (PScalar (VNum 60)))
     = Inr True"
  using narrows_partial_order[OF demo_caveats_comparable(4) demo_caveats_comparable(3)
      demo_caveats_comparable(5)]
  by (simp add: arg_narrows_num inclusive_def)

theorem delegation_chain_narrows_witness:
  "evaluate (ToolDeny {''shell''}) demo_context = Inr allow_result"
proof (rule delegation_chain_narrows[where cs = "[ToolDeny {''shell'', ''mail''}]"])
  show "comparable_caveat (ToolDeny {''shell''})" by (rule demo_caveats_comparable)
  show "list_all comparable_caveat [ToolDeny {''shell'', ''mail''}]"
    using demo_caveats_comparable by simp
  show "caveats.chain (ToolDeny {''shell''}) [ToolDeny {''shell'', ''mail''}]" by simp
  show "evaluate (last [ToolDeny {''shell''}, ToolDeny {''shell'', ''mail''}]) demo_context = Inr allow_result"
    by (simp add: demo_context_def)
qed

lemma demo_token_fields:
  "vt_scopes demo_token = {''orders:read'', ''orders:write''}" "vt_max_depth demo_token = 3"
  "vt_intent_hash demo_token = replicate 64 CHR ''a''" "vt_budget demo_token = demo_budget"
  "vt_not_before demo_token = seconds 5" "vt_expires_at demo_token = seconds 100" "vt_depth demo_token = 0"
  "vt_principal_id demo_token = ''alice''"
  by (simp_all add: demo_token_def minted_token_def demo_mandate_def demo_lib_def)

lemma demo_grant_ok: "traverseE mk_caveat (grant_caveats demo_token) = Inr (grant_caveats demo_token)"
proof -
  have "hex64_re (replicate 64 CHR ''a'')" "scope_re ''orders:read''" "scope_re ''orders:write''"
    using demo_mandate_wf by (simp_all add: mandate_wf_def demo_mandate_def)
  then have "list_all caveat_wf (grant_caveats demo_token)"
    by (simp add: grant_caveats_def demo_token_fields all_dimensions_def MAX_DELEGATION_DEPTH_def money_def whole_def)
  then show ?thesis
    by (simp add: traverseE_Inr_iff list_all2_same mk_caveat_def list_all_iff)
qed

lemma demo_attenuates:
  "attenuate demo_lib demo_token [ScopeSubset {''orders:read''}, BudgetCeiling SPEND_BDT 1]
     ''worker'' ''reader'' [] = Inr ''token''"
proof -
  have labels: "is_ok (validate_label (code_points ''worker''))" "is_ok (validate_label (code_points ''reader''))"
    by (simp_all add: validate_label_def code_points_def unsafe_label_code_def MAX_LABEL_LENGTH_def)
  have chk: "check_narrowing [ScopeSubset {''orders:read''}, BudgetCeiling SPEND_BDT 1]
      (grant_caveats demo_token @ []) = Inr ()"
    by (simp add: check_narrowing_def by_slot_def grant_caveats_def demo_token_fields all_dimensions_def)
  have "is_ok (block_datalog [ScopeSubset {''orders:read''}, BudgetCeiling SPEND_BDT 1])"
    by (simp add: block_datalog_def scale_def BUDGET_SCALE_def whole_def is_ok_iff)
  then show ?thesis using labels demo_grant_ok chk
    by (auto simp: attenuate_def is_ok_iff demo_lib_def HARD_SIZE_LIMIT_B64_def)
qed

theorem attenuate_within_grant_witness:
  "{''orders:read''} \<subseteq> vt_scopes demo_token \<and> 1 \<le> budget_get (vt_budget demo_token) SPEND_BDT"
proof -
  have "caveat_wf (ScopeSubset {''orders:read''})" "caveat_wf (BudgetCeiling SPEND_BDT 1)"
    by code_simp+
  then show ?thesis using attenuate_within_grant[OF demo_attenuates] by fastforce
qed

definition granted_context :: request_context where
  "granted_context = demo_context\<lparr>request_intent := replicate 64 CHR ''a''\<rparr>"

definition granted_facts :: "dl_stmt list" where
  "granted_facts = (case request_context_datalog granted_context of Inr F \<Rightarrow> F | Inl _ \<Rightarrow> [])"

lemma granted_facts_ok: "request_context_datalog granted_context = Inr granted_facts"
  by code_simp

theorem authority_checks_bound_every_dimension_witness:
  "list_all (clause_holds (demo_facts_block @ granted_facts)) demo_checks_block"
  using authority_checks_bound_every_dimension[OF reference_engine.datalog_engine_axioms demo_mandate_wf
      demo_scopes_finite demo_blocks granted_facts_ok]
  by (simp add: granted_context_def demo_context_def demo_mandate_def)
     (metis (full_types) budget_get_ge0 budgets_wf(1))

theorem effective_bound_exact_witness:
  "admits (effective_bound [ScopeSubset {''orders:read''}, ToolDeny {''shell''}]) demo_context"
  using effective_bound_exact[of demo_context "[ScopeSubset {''orders:read''}, ToolDeny {''shell''}]"]
  by (simp add: permits_def demo_context_def)

end
