(* ===== verification/Decision.thy ===== *)
theory Decision
  imports Attenuation
begin

text \<open>
  \<open>agentiam_core/decision.py\<close>: the authorization pipeline of one request, from revocation to
  budget, first failure wins.

  The four injected protocols are functions.  \<open>None\<close> is \<open>OracleUnavailable\<close>, the answer being
  unknown, which is distinct from an oracle that says no.  What the client needs of a provider
  is a locale: \<open>revocation_provider\<close> (a revoked id is never reported clean) and
  \<open>budget_provider\<close> (an amount it covers can be reserved).  Their lemmas are proved here
  and interpreted by the theories that model the providers.
\<close>

section \<open>Verdicts and decisions\<close>

definition DRIFT_ESCALATION_THRESHOLD :: decimal where
  "DRIFT_ESCALATION_THRESHOLD = 7 / 10"

type_synonym revocation_oracle = "string \<Rightarrow> bool option"

record policy_verdict =
  pv_allowed :: bool
  pv_statement :: "string option"
  pv_version :: string
  pv_stale :: bool

type_synonym policy_engine = "request_context \<Rightarrow> policy_verdict option"

record budget_verdict =
  bv_ok :: bool
  bv_exhausted_dimension :: "budget_dimension option"
  bv_mandate_exhausted :: bool

type_synonym budget_oracle = "(budget_dimension \<Rightarrow> decimal) \<Rightarrow> budget_verdict option"

text \<open>A score, \<open>None\<close> inside for "not assessed", \<open>None\<close> outside for an unavailable oracle.\<close>

type_synonym drift_oracle = "request_context \<Rightarrow> decimal option option"

record decision =
  de_outcome :: outcome
  de_reason_code :: reason_code
  de_failing_caveat :: "(nat \<times> caveat_kind) option"
  de_drift_score :: "decimal option"

definition decision_allowed :: "decision \<Rightarrow> bool" where
  "decision_allowed d = (de_outcome d = ALLOW)"

definition mk_deny :: "reason_code \<Rightarrow> (nat \<times> caveat_kind) option \<Rightarrow> decision" where
  "mk_deny code ref =
     \<lparr>de_outcome = DENY, de_reason_code = code, de_failing_caveat = ref, de_drift_score = None\<rparr>"

abbreviation deny :: "reason_code \<Rightarrow> decision" where
  "deny code \<equiv> mk_deny code None"

section \<open>Token errors\<close>

fun token_error_codes :: "exc \<Rightarrow> reason_code option" where
  "token_error_codes MalformedTokenError = Some MALFORMED_REQUEST"
| "token_error_codes InvalidSignatureError = Some TOKEN_INVALID_SIGNATURE"
| "token_error_codes TokenExpiredError = Some TOKEN_EXPIRED"
| "token_error_codes TokenNotYetValidError = Some TOKEN_NOT_YET_VALID"
| "token_error_codes TokenTooLargeError = Some TOKEN_TOO_LARGE"
| "token_error_codes DepthExceededError = Some DEPTH_EXCEEDED"
| "token_error_codes _ = None"

definition decision_for_token_error :: "exc \<Rightarrow> decision" where
  "decision_for_token_error e =
     deny (case token_error_codes e of
             Some c \<Rightarrow> c
           | None \<Rightarrow> (case exc_reason_code e of Some c \<Rightarrow> c | None \<Rightarrow> MALFORMED_REQUEST))"

section \<open>Step 4's caveat loop\<close>

text \<open>
  The loop carries its index and the first escalation it met; a deny leaves at once, an
  escalation only after the list is exhausted.
\<close>

fun evaluate_caveats_from ::
  "nat \<Rightarrow> decision option \<Rightarrow> caveat list \<Rightarrow> request_context \<Rightarrow> (decision option) py" where
  "evaluate_caveats_from i esc [] ctx = Inr esc"
| "evaluate_caveats_from i esc (c # cs) ctx =
     bindE (evaluate c ctx) (\<lambda>r.
       if res_outcome r = ALLOW then evaluate_caveats_from (Suc i) esc cs ctx
       else if res_outcome r = DENY
       then Inr (Some (mk_deny (res_reason r) (Some (i, caveat_kind_of c))))
       else evaluate_caveats_from (Suc i)
              (case esc of
                 Some e \<Rightarrow> Some e
               | None \<Rightarrow> Some \<lparr>de_outcome = res_outcome r, de_reason_code = res_reason r,
                              de_failing_caveat = Some (i, caveat_kind_of c),
                              de_drift_score = None\<rparr>) cs ctx)"

definition evaluate_caveats :: "caveat list \<Rightarrow> request_context \<Rightarrow> (decision option) py" where
  "evaluate_caveats cs ctx = evaluate_caveats_from 0 None cs ctx"

section \<open>The decision\<close>

text \<open>Step 3: the ids in chain order; the last one is the token's own.\<close>

fun check_revocation :: "revocation_oracle \<Rightarrow> string list \<Rightarrow> decision option" where
  "check_revocation revoc [] = None"
| "check_revocation revoc (r # rs) =
     (case revoc r of
        None \<Rightarrow> Some (deny CONTROL_PLANE_UNAVAILABLE_FAIL_CLOSED)
      | Some True \<Rightarrow> Some (deny (if rs = [] then TOKEN_REVOKED else ANCESTOR_REVOKED))
      | Some False \<Rightarrow> check_revocation revoc rs)"

definition check_policy :: "policy_engine \<Rightarrow> request_context \<Rightarrow> decision option" where
  "check_policy policy ctx =
     (case policy ctx of
        None \<Rightarrow> Some (deny CONTROL_PLANE_UNAVAILABLE_FAIL_CLOSED)
      | Some v \<Rightarrow>
          (if pv_stale v then Some (deny POLICY_BUNDLE_STALE)
           else if \<not> pv_allowed v then Some (deny POLICY_DENIED) else None))"

definition drift_score_of :: "drift_oracle option \<Rightarrow> request_context \<Rightarrow> decimal option" where
  "drift_score_of drift ctx =
     (case drift of
        None \<Rightarrow> None
      | Some score_for \<Rightarrow>
          (if drift_mode_of ctx = DRIFT_OFF then None
           else (case score_for ctx of None \<Rightarrow> None | Some s \<Rightarrow> s)))"

definition drift_escalates :: "request_context \<Rightarrow> decimal option \<Rightarrow> bool" where
  "drift_escalates ctx score =
     (case score of None \<Rightarrow> False
      | Some s \<Rightarrow> s > DRIFT_ESCALATION_THRESHOLD \<and> drift_mode_of ctx = DRIFT_STRICT)"

definition check_budget :: "budget_oracle \<Rightarrow> request_context \<Rightarrow> decimal option \<Rightarrow> decision" where
  "check_budget budget ctx score =
     (case budget (requested ctx) of
        None \<Rightarrow> deny CONTROL_PLANE_UNAVAILABLE_FAIL_CLOSED
      | Some v \<Rightarrow>
          (if \<not> bv_ok v
           then (if bv_mandate_exhausted v then deny BUDGET_EXHAUSTED_MANDATE
                 else deny LEASE_UNAVAILABLE)
           else \<lparr>de_outcome = ALLOW, de_reason_code = OK, de_failing_caveat = None,
                 de_drift_score = score\<rparr>))"

text \<open>Steps 4b to 7, entered with the escalation the caveat loop may have left.\<close>

definition decide_after_caveats ::
  "('b, 'k) biscuit_lib \<Rightarrow> 'b verified_token \<Rightarrow> request_context \<Rightarrow> decision option
   \<Rightarrow> policy_engine \<Rightarrow> budget_oracle \<Rightarrow> drift_oracle option \<Rightarrow> decision py" where
  "decide_after_caveats lib tok ctx caveat_decision policy budget drift =
     (case authorize_request lib tok ctx of
        Inl err \<Rightarrow>
          (if err = VerificationLimitError then Inr (deny VERIFICATION_LIMIT_EXCEEDED) else Inl err)
      | Inr (Some failure) \<Rightarrow> Inr (deny (af_reason_code failure))
      | Inr None \<Rightarrow>
          (case check_policy policy ctx of
             Some d \<Rightarrow> Inr d
           | None \<Rightarrow>
              (let score = drift_score_of drift ctx in
               if drift_escalates ctx score
               then Inr \<lparr>de_outcome = ESCALATE, de_reason_code = DRIFT_ESCALATION,
                        de_failing_caveat = None, de_drift_score = score\<rparr>
               else (case caveat_decision of
                       Some d \<Rightarrow> Inr (d\<lparr>de_drift_score := score\<rparr>)
                     | None \<Rightarrow> Inr (check_budget budget ctx score)))))"

definition decide ::
  "('b, 'k) biscuit_lib \<Rightarrow> 'b verified_token \<Rightarrow> request_context \<Rightarrow> caveat list \<Rightarrow> revocation_oracle
   \<Rightarrow> policy_engine \<Rightarrow> budget_oracle \<Rightarrow> drift_oracle option \<Rightarrow> decision py" where
  "decide lib tok ctx caveats revoc policy budget drift =
     (case check_revocation revoc (vt_revocation_ids tok) of
        Some d \<Rightarrow> Inr d
      | None \<Rightarrow>
        if operation ctx \<notin> vt_scopes tok then Inr (deny SCOPE_NOT_GRANTED)
        else if request_intent ctx \<noteq> vt_intent_hash tok then Inr (deny INTENT_MISMATCH)
        else if current_depth ctx > vt_max_depth tok then Inr (deny DEPTH_EXCEEDED)
        else bindE (evaluate_caveats caveats ctx) (\<lambda>cd.
          (case cd of
             Some d \<Rightarrow>
               (if de_outcome d = DENY then Inr d
                else decide_after_caveats lib tok ctx cd policy budget drift)
           | None \<Rightarrow> decide_after_caveats lib tok ctx cd policy budget drift)))"

section \<open>Lemmas\<close>

lemma check_revocation_None_iff:
  "check_revocation revoc ids = None \<longleftrightarrow> (\<forall>r \<in> set ids. revoc r = Some False)"
  by (induction ids) (auto split: option.splits bool.splits)

lemma check_revocation_deny:
  "check_revocation revoc ids = Some d \<Longrightarrow> de_outcome d = DENY \<and> de_reason_code d \<noteq> OK"
  by (induction ids) (auto simp: mk_deny_def split: option.splits bool.splits if_splits)

lemma evaluate_reason:
  "evaluate c ctx = Inr r \<Longrightarrow>
     (res_outcome r = ALLOW \<and> res_reason r = OK) \<or> (res_outcome r = DENY \<and> res_reason r \<noteq> OK)
     \<or> (res_outcome r = ESCALATE \<and> res_reason r = APPROVAL_REQUIRED)"
  by (cases c) (auto split: option.splits if_splits)

lemma evaluate_allow_iff: "evaluate c ctx = Inr r \<Longrightarrow> res_outcome r = ALLOW \<longleftrightarrow> permits c ctx"
  using evaluate_reason[of c ctx r] by (auto simp: permits_def)

lemma evaluate_caveats_None_iff:
  "evaluate_caveats_from i esc cs ctx = Inr None \<longleftrightarrow> esc = None \<and> list_all (\<lambda>c. permits c ctx) cs"
proof (induction cs arbitrary: i esc)
  case (Cons c cs)
  show ?case
  proof (cases "evaluate c ctx")
    case (Inr r)
    then show ?thesis using evaluate_allow_iff[OF Inr] Cons.IH by (auto split: option.splits)
  qed (simp add: permits_def)
qed simp

definition escalation_shape :: "decision option \<Rightarrow> bool" where
  "escalation_shape esc = within_opt (\<lambda>d. de_outcome d = ESCALATE \<and> de_reason_code d = APPROVAL_REQUIRED) esc"

lemma evaluate_caveats_Some:
  "evaluate_caveats_from i esc cs ctx = Inr (Some d) \<Longrightarrow> escalation_shape esc \<Longrightarrow>
     (de_outcome d = DENY \<and> de_reason_code d \<noteq> OK)
     \<or> (de_outcome d = ESCALATE \<and> de_reason_code d = APPROVAL_REQUIRED
        \<and> (\<forall>c \<in> set cs. \<exists>r. evaluate c ctx = Inr r \<and> res_outcome r \<noteq> DENY))"
proof (induction cs arbitrary: i esc)
  case Nil
  then show ?case by (simp add: escalation_shape_def)
next
  case (Cons c cs)
  then obtain r where r: "evaluate c ctx = Inr r" by auto
  show ?case
  proof (cases "res_outcome r = DENY")
    case True
    then show ?thesis using Cons.prems r evaluate_reason[OF r] by (auto simp: mk_deny_def)
  next
    case False
    obtain esc' where "evaluate_caveats_from (Suc i) esc' cs ctx = Inr (Some d)" "escalation_shape esc'"
      using Cons.prems r False evaluate_reason[OF r]
      by (fastforce simp: escalation_shape_def split: if_splits option.splits)
    then show ?thesis using Cons.IH r False by fastforce
  qed
qed

lemma check_policy_deny:
  "check_policy policy ctx = Some d \<Longrightarrow> de_outcome d = DENY \<and> de_reason_code d \<noteq> OK"
  by (auto simp: check_policy_def mk_deny_def split: option.splits if_splits)

lemma check_budget_outcome:
  "(de_outcome (check_budget budget ctx s) = ALLOW \<and> de_reason_code (check_budget budget ctx s) = OK)
   \<or> (de_outcome (check_budget budget ctx s) = DENY \<and> de_reason_code (check_budget budget ctx s) \<noteq> OK)"
  by (auto simp: check_budget_def mk_deny_def split: option.splits)

lemma authorize_failure_not_ok:
  assumes "authorize_request lib tok ctx = Inr (Some f)" shows "af_reason_code f \<noteq> OK"
proof -
  obtain F where "request_context_datalog ctx = Inr F"
    using assms by (cases "request_context_datalog ctx") (simp_all add: authorize_request_def)
  then show ?thesis using assms
    by (cases "bl_authorize lib (vt_biscuit tok) F")
       (auto simp: authorize_request_def first_failure_not_ok split: if_splits)
qed

lemma decide_after_caveats_outcome:
  assumes d: "decide_after_caveats lib tok ctx cd policy budget drift = Inr d"
    and cd: "within_opt (\<lambda>e. de_outcome e = ESCALATE \<and> de_reason_code e = APPROVAL_REQUIRED) cd"
  shows "(de_outcome d = ALLOW \<and> de_reason_code d = OK)
    \<or> (de_outcome d = DENY \<and> de_reason_code d \<noteq> OK)
    \<or> (de_outcome d = ESCALATE \<and> de_reason_code d \<in> {DRIFT_ESCALATION, APPROVAL_REQUIRED}
       \<and> authorize_request lib tok ctx = Inr None \<and> check_policy policy ctx = None)"
proof -
  consider (err) e where "authorize_request lib tok ctx = Inl e"
    | (fail) f where "authorize_request lib tok ctx = Inr (Some f)"
    | (pol) p where "authorize_request lib tok ctx = Inr None" "check_policy policy ctx = Some p"
    | (late) "authorize_request lib tok ctx = Inr None" "check_policy policy ctx = None"
    by (metis not_None_eq old.sum.exhaust)
  then show ?thesis
  proof cases
    case err
    then show ?thesis using d by (auto simp: decide_after_caveats_def mk_deny_def split: if_splits)
  next
    case fail
    then show ?thesis using d authorize_failure_not_ok[OF fail]
      by (auto simp: decide_after_caveats_def mk_deny_def)
  next
    case pol
    then show ?thesis using d check_policy_deny[OF pol(2)] by (auto simp: decide_after_caveats_def)
  next
    case late
    then show ?thesis using d cd check_budget_outcome
      by (cases cd) (auto simp: decide_after_caveats_def Let_def split: if_splits)
  qed
qed

lemma decide_after_caveats_allow_iff:
  assumes cd: "within_opt (\<lambda>e. de_outcome e = ESCALATE) cd"
  shows "(\<exists>d. decide_after_caveats lib tok ctx cd policy budget drift = Inr d \<and> decision_allowed d) \<longleftrightarrow>
     cd = None \<and> authorize_request lib tok ctx = Inr None \<and> check_policy policy ctx = None
     \<and> \<not> drift_escalates ctx (drift_score_of drift ctx)
     \<and> (\<exists>v. budget (requested ctx) = Some v \<and> bv_ok v)"
proof (cases "authorize_request lib tok ctx")
  case (Inl e)
  then show ?thesis by (simp add: decide_after_caveats_def decision_allowed_def mk_deny_def)
next
  case (Inr r)
  show ?thesis
  proof (cases r)
    case None
    show ?thesis
    proof (cases "check_policy policy ctx")
      case (Some p)
      then show ?thesis using Inr None check_policy_deny[OF Some]
        by (simp add: decide_after_caveats_def decision_allowed_def)
    next
      case pol: None
      then show ?thesis using Inr None cd
        by (cases cd; cases "budget (requested ctx)")
           (auto simp: decide_after_caveats_def decision_allowed_def Let_def check_budget_def mk_deny_def)
    qed
  next
    case (Some f)
    then show ?thesis using Inr by (simp add: decide_after_caveats_def decision_allowed_def mk_deny_def)
  qed
qed

text \<open>The request gets past revocation, the grant and the caveat loop with \<open>cd\<close> left over.\<close>

definition reaches_authorizer ::
  "'b verified_token \<Rightarrow> request_context \<Rightarrow> caveat list \<Rightarrow> revocation_oracle \<Rightarrow> decision option \<Rightarrow> bool" where
  "reaches_authorizer tok ctx caveats revoc cd \<longleftrightarrow>
     check_revocation revoc (vt_revocation_ids tok) = None \<and> operation ctx \<in> vt_scopes tok
   \<and> request_intent ctx = vt_intent_hash tok \<and> current_depth ctx \<le> vt_max_depth tok
   \<and> evaluate_caveats caveats ctx = Inr cd \<and> within_opt (\<lambda>d. de_outcome d \<noteq> DENY) cd"

lemma decide_cases:
  obtains (early) d where "\<And>policy budget drift. decide lib tok ctx caveats revoc policy budget drift = Inr d"
      "de_outcome d = DENY" "de_reason_code d \<noteq> OK" "\<And>cd. \<not> reaches_authorizer tok ctx caveats revoc cd"
  | (raised) e where "\<And>policy budget drift. decide lib tok ctx caveats revoc policy budget drift = Inl e"
      "\<And>cd. \<not> reaches_authorizer tok ctx caveats revoc cd"
  | (late) cd where "reaches_authorizer tok ctx caveats revoc cd"
      "within_opt (\<lambda>e. de_outcome e = ESCALATE \<and> de_reason_code e = APPROVAL_REQUIRED) cd"
      "\<And>policy budget drift. decide lib tok ctx caveats revoc policy budget drift
         = decide_after_caveats lib tok ctx cd policy budget drift"
proof (cases "check_revocation revoc (vt_revocation_ids tok) = None \<and> operation ctx \<in> vt_scopes tok
    \<and> request_intent ctx = vt_intent_hash tok \<and> current_depth ctx \<le> vt_max_depth tok")
  case False
  then have no: "\<not> reaches_authorizer tok ctx caveats revoc cd" for cd
    by (auto simp: reaches_authorizer_def)
  define d where "d = (case check_revocation revoc (vt_revocation_ids tok) of Some d \<Rightarrow> d
    | None \<Rightarrow> if operation ctx \<notin> vt_scopes tok then deny SCOPE_NOT_GRANTED
      else if request_intent ctx \<noteq> vt_intent_hash tok then deny INTENT_MISMATCH else deny DEPTH_EXCEEDED)"
  have "decide lib tok ctx caveats revoc policy budget drift = Inr d" for policy budget drift
    using False by (auto simp: decide_def d_def split: option.splits)
  moreover have "de_outcome d = DENY" "de_reason_code d \<noteq> OK"
    using check_revocation_deny by (auto simp: d_def mk_deny_def split: option.splits)
  ultimately show ?thesis using early no by blast
next
  case grant: True
  show ?thesis
  proof (cases "evaluate_caveats caveats ctx")
    case (Inl e)
    then show ?thesis using raised[of e] grant by (simp add: decide_def reaches_authorizer_def)
  next
    case (Inr cd)
    then have shape: "within_opt (\<lambda>d. (de_outcome d = DENY \<and> de_reason_code d \<noteq> OK)
        \<or> (de_outcome d = ESCALATE \<and> de_reason_code d = APPROVAL_REQUIRED)) cd"
      using evaluate_caveats_Some[of 0 None caveats ctx]
      by (cases cd) (auto simp: evaluate_caveats_def escalation_shape_def)
    show ?thesis
    proof (cases "\<exists>d. cd = Some d \<and> de_outcome d = DENY")
      case True
      then obtain d where "cd = Some d" "de_outcome d = DENY" by blast
      then show ?thesis using grant Inr shape
        by (intro early[of d]) (auto simp: decide_def reaches_authorizer_def)
    next
      case False
      then show ?thesis using late[of cd] grant Inr shape
        by (cases cd) (auto simp: decide_def reaches_authorizer_def)
    qed
  qed
qed

section \<open>What a decision needs of its oracles\<close>

locale revocation_provider =
  fixes lookup :: revocation_oracle and revoked :: "string \<Rightarrow> bool"
  assumes no_false_negative: "revoked r \<Longrightarrow> lookup r \<noteq> Some False"
begin

lemma revoked_chain_denied:
  assumes "r \<in> set (vt_revocation_ids tok)" and "revoked r"
  shows "\<exists>d. decide lib tok ctx caveats lookup policy budget drift = Inr d \<and> de_outcome d = DENY
    \<and> de_reason_code d \<in> {TOKEN_REVOKED, ANCESTOR_REVOKED, CONTROL_PLANE_UNAVAILABLE_FAIL_CLOSED}"
proof -
  have codes: "check_revocation lookup ids = Some d \<Longrightarrow> de_outcome d = DENY
    \<and> de_reason_code d \<in> {TOKEN_REVOKED, ANCESTOR_REVOKED, CONTROL_PLANE_UNAVAILABLE_FAIL_CLOSED}" for ids d
    by (induction ids) (auto simp: mk_deny_def split: option.splits bool.splits if_splits)
  have "check_revocation lookup (vt_revocation_ids tok) \<noteq> None"
    using assms no_false_negative by (auto simp: check_revocation_None_iff)
  then show ?thesis using codes by (auto simp: decide_def)
qed

end

lemma allowed_has_budget:
  assumes "decide lib tok ctx caveats revoc policy budget drift = Inr d" "decision_allowed d"
  shows "\<exists>v. budget (requested ctx) = Some v \<and> bv_ok v"
proof (cases rule: decide_cases[of lib tok ctx caveats revoc])
  case (late cd)
  then have "within_opt (\<lambda>e. de_outcome e = ESCALATE) cd" by (cases cd) simp_all
  then show ?thesis using decide_after_caveats_allow_iff assms late(3) by metis
qed (use assms in \<open>auto simp: decision_allowed_def\<close>)

locale budget_provider =
  fixes verdict :: "(budget_dimension \<Rightarrow> decimal) \<Rightarrow> budget_verdict"
    and reservable :: "budget_dimension \<Rightarrow> decimal \<Rightarrow> bool"
  assumes ok_is_reservable: "bv_ok (verdict req) \<Longrightarrow> 0 < req k \<Longrightarrow> reservable k (req k)"
begin

lemma allowed_is_reservable:
  assumes "decide lib tok ctx caveats revoc policy (\<lambda>req. Some (verdict req)) drift = Inr d"
    and "decision_allowed d" "0 < requested ctx k"
  shows "reservable k (requested ctx k)"
  using allowed_has_budget[OF assms(1,2)] ok_is_reservable assms(3) by blast

end

lemma decide_allowed_iff:
  "(\<exists>d. decide lib tok ctx caveats revoc policy budget drift = Inr d \<and> decision_allowed d) \<longleftrightarrow>
     (\<forall>r \<in> set (vt_revocation_ids tok). revoc r = Some False)
   \<and> operation ctx \<in> vt_scopes tok \<and> request_intent ctx = vt_intent_hash tok
   \<and> current_depth ctx \<le> vt_max_depth tok
   \<and> list_all (\<lambda>c. evaluate c ctx = Inr allow_result) caveats
   \<and> authorize_request lib tok ctx = Inr None
   \<and> (\<exists>v. policy ctx = Some v \<and> \<not> pv_stale v \<and> pv_allowed v)
   \<and> \<not> drift_escalates ctx (drift_score_of drift ctx)
   \<and> (\<exists>v. budget (requested ctx) = Some v \<and> bv_ok v)"
  (is "?lhs \<longleftrightarrow> ?rhs")
proof -
  have pol: "check_policy policy ctx = None \<longleftrightarrow> (\<exists>v. policy ctx = Some v \<and> \<not> pv_stale v \<and> pv_allowed v)"
    by (auto simp: check_policy_def split: option.splits if_splits)
  have none: "reaches_authorizer tok ctx caveats revoc None \<longleftrightarrow>
      (\<forall>r \<in> set (vt_revocation_ids tok). revoc r = Some False)
    \<and> operation ctx \<in> vt_scopes tok \<and> request_intent ctx = vt_intent_hash tok
    \<and> current_depth ctx \<le> vt_max_depth tok \<and> list_all (\<lambda>c. evaluate c ctx = Inr allow_result) caveats"
    by (auto simp: reaches_authorizer_def check_revocation_None_iff evaluate_caveats_def
        evaluate_caveats_None_iff permits_def)
  show ?thesis
  proof (cases rule: decide_cases[of lib tok ctx caveats revoc])
    case (early d)
    then show ?thesis using none by (auto simp: decision_allowed_def)
  next
    case (raised e)
    then show ?thesis using none by auto
  next
    case (late cd)
    then have "within_opt (\<lambda>e. de_outcome e = ESCALATE) cd" by (cases cd) auto
    then have "?lhs \<longleftrightarrow> cd = None \<and> authorize_request lib tok ctx = Inr None \<and> check_policy policy ctx = None
        \<and> \<not> drift_escalates ctx (drift_score_of drift ctx) \<and> (\<exists>v. budget (requested ctx) = Some v \<and> bv_ok v)"
      using decide_after_caveats_allow_iff late(3) by simp
    moreover have "cd = None \<longleftrightarrow> reaches_authorizer tok ctx caveats revoc None"
      using late(1) by (auto simp: reaches_authorizer_def)
    ultimately show ?thesis using none pol by auto
  qed
qed

section \<open>Properties\<close>

text \<open>
  C2: \<open>decide\<close> allows a request exactly when every step passes: no id of the chain revoked and
  the revocation cache consulted for each, the operation granted, the intent matched, the depth
  within the mandate, every caveat satisfied outright, biscuit's own checks authorized, a policy
  bundle that is fresh and allows, no drift above the threshold in strict mode, and a lease
  that covers the amounts.  An unavailable revocation, policy or budget oracle is none of these, so
  it cannot allow.  The drift step fails open: without a score it never escalates.
\<close>
theorem decide_allow_iff:
  "((\<exists>d. decide lib tok ctx caveats revoc policy budget drift = Inr d \<and> decision_allowed d) \<longleftrightarrow>
     (\<forall>r \<in> set (vt_revocation_ids tok). revoc r = Some False)
   \<and> operation ctx \<in> vt_scopes tok \<and> request_intent ctx = vt_intent_hash tok
   \<and> current_depth ctx \<le> vt_max_depth tok
   \<and> list_all (\<lambda>c. evaluate c ctx = Inr allow_result) caveats
   \<and> authorize_request lib tok ctx = Inr None
   \<and> (\<exists>v. policy ctx = Some v \<and> \<not> pv_stale v \<and> pv_allowed v)
   \<and> \<not> drift_escalates ctx (drift_score_of drift ctx)
   \<and> (\<exists>v. budget (requested ctx) = Some v \<and> bv_ok v))
   \<and> \<not> drift_escalates ctx None"
  using decide_allowed_iff[of lib tok ctx caveats revoc policy budget drift] by (simp add: drift_escalates_def)

text \<open>
  Every decision names its cause: an allow carries \<open>OK\<close>, a deny or an escalation never
  does, and no other outcome is produced, so each decision satisfies the validator
  \<open>DecisionRecord\<close> applies to it.
\<close>
theorem decide_names_its_cause:
  assumes "decide lib tok ctx caveats revoc policy budget drift = Inr d"
  shows "outcome_matches_reason (de_outcome d) (de_reason_code d) \<and> de_outcome d \<noteq> ALLOW_WITH_FLAG"
proof (cases rule: decide_cases[of lib tok ctx caveats revoc])
  case (late cd)
  then show ?thesis using decide_after_caveats_outcome[of lib tok ctx cd policy budget drift d] assms
    by (auto simp: outcome_matches_reason_def)
qed (use assms in \<open>auto simp: outcome_matches_reason_def\<close>)

text \<open>
  Deny beats escalate.  A request is sent to a human only when approval could help: its
  chain is not revoked, its scope, intent and depth are granted, no supplied caveat denies it,
  biscuit's own checks authorize it and the policy allows it.
\<close>
theorem escalation_only_when_authorized:
  assumes "decide lib tok ctx caveats revoc policy budget drift = Inr d" and "de_outcome d = ESCALATE"
  shows "de_reason_code d \<in> {DRIFT_ESCALATION, APPROVAL_REQUIRED}
   \<and> (\<forall>r \<in> set (vt_revocation_ids tok). revoc r = Some False)
   \<and> operation ctx \<in> vt_scopes tok \<and> request_intent ctx = vt_intent_hash tok
   \<and> current_depth ctx \<le> vt_max_depth tok
   \<and> (\<forall>c \<in> set caveats. \<exists>r. evaluate c ctx = Inr r \<and> res_outcome r \<noteq> DENY)
   \<and> authorize_request lib tok ctx = Inr None
   \<and> (\<exists>v. policy ctx = Some v \<and> \<not> pv_stale v \<and> pv_allowed v)"
proof (cases rule: decide_cases[of lib tok ctx caveats revoc])
  case (late cd)
  have out: "de_reason_code d \<in> {DRIFT_ESCALATION, APPROVAL_REQUIRED} \<and> authorize_request lib tok ctx = Inr None
      \<and> check_policy policy ctx = None"
    using decide_after_caveats_outcome[of lib tok ctx cd policy budget drift d] late assms by auto
  have cav: "\<forall>c \<in> set caveats. \<exists>r. evaluate c ctx = Inr r \<and> res_outcome r \<noteq> DENY"
  proof (cases cd)
    case None
    then have "list_all (\<lambda>c. permits c ctx) caveats"
      using late(1) by (simp add: reaches_authorizer_def evaluate_caveats_def evaluate_caveats_None_iff)
    then show ?thesis by (auto simp: list_all_iff permits_def)
  next
    case (Some e)
    then show ?thesis using late(1,2) evaluate_caveats_Some[of 0 None caveats ctx e]
      by (auto simp: reaches_authorizer_def evaluate_caveats_def escalation_shape_def)
  qed
  show ?thesis using late(1) out cav
    by (auto simp: reaches_authorizer_def check_revocation_None_iff check_policy_def
        split: option.splits if_splits)
qed (use assms in auto)

text \<open>
  Drift never denies and never rescues: with any drift oracle, a denied request is denied
  with the same decision when no drift oracle is wired, and an allowed one is allowed.
\<close>
theorem drift_never_denies:
  assumes "decide lib tok ctx caveats revoc policy budget drift = Inr d"
  shows "(de_outcome d = DENY \<longrightarrow> decide lib tok ctx caveats revoc policy budget None = Inr d)
    \<and> (de_outcome d = ALLOW \<longrightarrow>
         (\<exists>d'. decide lib tok ctx caveats revoc policy budget None = Inr d' \<and> de_outcome d' = ALLOW))"
proof (cases rule: decide_cases[of lib tok ctx caveats revoc])
  case (late cd)
  have none: "\<not> drift_escalates ctx (drift_score_of None ctx)"
    by (simp add: drift_escalates_def drift_score_of_def)
  show ?thesis
  proof (cases "authorize_request lib tok ctx = Inr None \<and> check_policy policy ctx = None")
    case True
    then show ?thesis using assms late none
      by (cases cd; cases "budget (requested ctx)")
         (auto simp: decide_after_caveats_def Let_def check_budget_def mk_deny_def split: if_splits)
  next
    case False
    then have "decide_after_caveats lib tok ctx cd policy budget drift
        = decide_after_caveats lib tok ctx cd policy budget None"
      by (auto simp: decide_after_caveats_def split: sum.splits option.splits)
    then show ?thesis using assms late by auto
  qed
qed (use assms in auto)

section \<open>Witnesses\<close>

abbreviation open_policy :: policy_engine where
  "open_policy \<equiv> (\<lambda>_. Some \<lparr>pv_allowed = True, pv_statement = None, pv_version = ''v1'', pv_stale = False\<rparr>)"

abbreviation ample_budget :: budget_oracle where
  "ample_budget \<equiv> (\<lambda>_. Some \<lparr>bv_ok = True, bv_exhausted_dimension = None, bv_mandate_exhausted = False\<rparr>)"

abbreviation empty_budget :: budget_oracle where
  "empty_budget \<equiv> (\<lambda>_. Some \<lparr>bv_ok = False, bv_exhausted_dimension = Some SPEND_BDT, bv_mandate_exhausted = True\<rparr>)"

lemma granted_authorized: "authorize_request demo_lib demo_token granted_context = Inr None"
proof -
  have "list_all (clause_holds (demo_facts_block @ demo_checks_block @ granted_facts))
      (demo_facts_block @ demo_checks_block)"
    by code_simp
  then show ?thesis
    by (simp add: authorize_request_def granted_facts_ok demo_lib_def demo_token_def minted_token_def)
qed

lemma granted_fields:
  "vt_revocation_ids demo_token = [''rid'']" "operation granted_context \<in> vt_scopes demo_token"
  "request_intent granted_context = vt_intent_hash demo_token"
  "\<not> vt_max_depth demo_token < current_depth granted_context" "drift_mode_of granted_context = DRIFT_STRICT"
  by (simp_all add: demo_token_def minted_token_def demo_lib_def granted_context_def demo_context_def
      demo_mandate_def)

lemmas demo_decide_simps = decide_def decide_after_caveats_def granted_authorized granted_fields
  evaluate_caveats_def check_policy_def check_budget_def drift_score_of_def drift_escalates_def
  DRIFT_ESCALATION_THRESHOLD_def mk_deny_def

lemma demo_approval_escalates:
  "evaluate_caveats [RequiresApproval {''orders:read''}] granted_context =
     Inr (Some \<lparr>de_outcome = ESCALATE, de_reason_code = APPROVAL_REQUIRED,
               de_failing_caveat = Some (0, REQUIRES_APPROVAL), de_drift_score = None\<rparr>)"
  by (simp add: evaluate_caveats_def granted_context_def demo_context_def)

lemma demo_denied:
  "decide demo_lib demo_token granted_context [] (\<lambda>_. Some False) open_policy empty_budget
     (Some (\<lambda>_. Some (Some (1/2)))) = Inr (deny BUDGET_EXHAUSTED_MANDATE)"
  by (simp add: demo_decide_simps)

lemma demo_escalated:
  "decide demo_lib demo_token granted_context [RequiresApproval {''orders:read''}] (\<lambda>_. Some False)
     open_policy empty_budget None =
     Inr \<lparr>de_outcome = ESCALATE, de_reason_code = APPROVAL_REQUIRED,
          de_failing_caveat = Some (0, REQUIRES_APPROVAL), de_drift_score = None\<rparr>"
  using demo_approval_escalates
  by (simp add: decide_def decide_after_caveats_def granted_authorized granted_fields check_policy_def
      drift_score_of_def drift_escalates_def)

theorem decide_allow_iff_witness:
  "\<exists>d. decide demo_lib demo_token granted_context [] (\<lambda>_. Some False) open_policy ample_budget None = Inr d
     \<and> decision_allowed d"
  using decide_allow_iff[of demo_lib demo_token granted_context "[]" "\<lambda>_. Some False" open_policy ample_budget None]
  by (simp add: granted_authorized granted_fields granted_fields(4)[unfolded not_less]
      drift_score_of_def drift_escalates_def)

theorem decide_names_its_cause_witness:
  "outcome_matches_reason DENY BUDGET_EXHAUSTED_MANDATE"
  using decide_names_its_cause[OF demo_denied] by (simp add: mk_deny_def)

theorem escalation_only_when_authorized_witness:
  "operation granted_context \<in> vt_scopes demo_token
   \<and> authorize_request demo_lib demo_token granted_context = Inr None"
  using escalation_only_when_authorized[OF demo_escalated] by simp

theorem drift_never_denies_witness:
  "decide demo_lib demo_token granted_context [] (\<lambda>_. Some False) open_policy empty_budget None
     = Inr (deny BUDGET_EXHAUSTED_MANDATE)"
  using drift_never_denies[OF demo_denied] by (simp add: mk_deny_def)

end
