(* ===== verification/Policy.thy ===== *)
theory Policy
  imports Decision Hashing
begin

text \<open>
  The policy layer: signed bundles (\<open>agentiam_core/bundles.py\<close>), the Cedar engine
  (\<open>agentiam_pep/policy.py\<close>), the cache that decides which bundle is enforced
  (\<open>agentiam_pep/policy_cache.py\<close>), policy tests (\<open>agentiam_core/policy_testing.py\<close>) and the
  activation gate (\<open>agentiam_pep/activation.py\<close>).

  Parameters: \<open>cedar\<close> (parsing a policy source and answering a request over a parsed set),
  \<open>check\<close> (normalization, and Ed25519 verification of a signature over bytes) and \<open>str_of\<close> (\<open>str\<close> of a value that is
  not a string, used for a catalogue's \<open>tool_id\<close> only).  The cache's fields change only inside
  \<open>load\<close> and \<open>activate_bundle\<close>, which do not await.
\<close>

section \<open>Bundles\<close>

record policy_bundle =
  pb_version :: string
  pb_cedar_source :: string
  pb_serial :: int
  pb_entity_schema :: "string option"
  pb_created_at :: "datetime option"
  pb_tools :: "(string \<times> pvalue) list option"

definition opt_value :: "('a \<Rightarrow> pvalue) \<Rightarrow> 'a option \<Rightarrow> pvalue" where
  "opt_value f x = (case x of None \<Rightarrow> PyNone | Some v \<Rightarrow> f v)"

definition bundle_body :: "policy_bundle \<Rightarrow> pvalue" where
  "bundle_body b =
     PyMap [(''serial'', PyInt (pb_serial b)), (''version'', PyStr (pb_version b)),
            (''cedar_source'', PyStr (pb_cedar_source b)), (''entity_schema'', opt_value PyStr (pb_entity_schema b)),
            (''created_at'', opt_value PyDatetime (pb_created_at b)), (''tools'', opt_value PyMap (pb_tools b))]"

definition signing_payload :: "normalizer \<Rightarrow> policy_bundle \<Rightarrow> string py" where
  "signing_payload u b = canonical_json u (bundle_body b)"

text \<open>What verifying takes from outside: normalization, and Ed25519 over bytes.\<close>

record 'pk verifier =
  vf_nfc :: normalizer
  vf_check :: "'pk \<Rightarrow> string \<Rightarrow> string \<Rightarrow> bool"

text \<open>Verification: the check of \<open>sig\<close> over the payload, false when the signature does not verify.\<close>

definition verify_bundle :: "'pk verifier \<Rightarrow> policy_bundle \<Rightarrow> string \<Rightarrow> 'pk \<Rightarrow> bool py" where
  "verify_bundle check b sig key =
     bindE (signing_payload (vf_nfc check) b) (\<lambda>payload. Inr (vf_check check key sig payload))"

section \<open>The Cedar engine\<close>

record tool_facts =
  tf_tool_id :: string
  tf_server :: string
  tf_sensitivity :: string
  tf_is_external :: bool

record agent_principal =
  ap_agent_id :: string
  ap_role :: string
  ap_principal_id :: string
  ap_task_id :: uuid
  ap_declared_role :: string

definition UNKNOWN_TOOL :: tool_facts where
  "UNKNOWN_TOOL = \<lparr>tf_tool_id = [], tf_server = [], tf_sensitivity = ''low'', tf_is_external = False\<rparr>"

definition TOOL_ATTRIBUTES :: "string set" where
  "TOOL_ATTRIBUTES = {''tool_id'', ''server'', ''sensitivity'', ''is_external''}"

text \<open>One entry of the catalogue; \<open>None\<close> is \<open>PolicyBundleError\<close>.\<close>

definition catalogue_entry :: "(pvalue \<Rightarrow> string) \<Rightarrow> string \<times> pvalue \<Rightarrow> (string \<times> tool_facts) option" where
  "catalogue_entry str_of x = (case x of (tool_id, entry) \<Rightarrow>
     (case entry of
        PyMap m \<Rightarrow>
          if \<not> set (map fst m) \<subseteq> TOOL_ATTRIBUTES then None
          else (case (map_of m ''server'', map_of m ''sensitivity'', map_of m ''is_external'') of
                  (server, sensitivity, is_external) \<Rightarrow>
                    (case (case is_external of None \<Rightarrow> PyBool False | Some v \<Rightarrow> v,
                           case server of None \<Rightarrow> PyStr [] | Some v \<Rightarrow> v,
                           case sensitivity of None \<Rightarrow> PyStr ''low'' | Some v \<Rightarrow> v) of
                       (PyBool ext, PyStr srv, PyStr sens) \<Rightarrow>
                         let tid = (case map_of m ''tool_id'' of
                                      None \<Rightarrow> tool_id | Some (PyStr s) \<Rightarrow> s | Some v \<Rightarrow> str_of v)
                         in Some (tool_id, \<lparr>tf_tool_id = (if tid = [] then tool_id else tid), tf_server = srv,
                                           tf_sensitivity = sens, tf_is_external = ext\<rparr>)
                     | _ \<Rightarrow> None))
      | _ \<Rightarrow> None))"

fun tool_entries :: "(pvalue \<Rightarrow> string) \<Rightarrow> (string \<times> pvalue) list \<Rightarrow> tool_facts strmap option" where
  "tool_entries str_of [] = Some []"
| "tool_entries str_of (x # xs) =
     (case catalogue_entry str_of x of
        None \<Rightarrow> None
      | Some y \<Rightarrow> map_option (\<lambda>ys. y # ys) (tool_entries str_of xs))"

definition tool_catalogue :: "(pvalue \<Rightarrow> string) \<Rightarrow> (string \<times> pvalue) list option \<Rightarrow> tool_facts strmap option" where
  "tool_catalogue str_of raw = (case raw of None \<Rightarrow> Some [] | Some m \<Rightarrow> tool_entries str_of m)"

datatype cedar_decision = CedarAllow | CedarDeny | CedarNoDecision

record cedar_request =
  cr_principal :: string
  cr_action :: string
  cr_resource :: string
  cr_amount :: string
  cr_elevated :: bool
  cr_environment :: string

record cedar_entities =
  ce_agent_id :: string
  ce_role :: string
  ce_depth :: int
  ce_task_id :: string
  ce_principal_id :: string
  ce_tool_uid :: string
  ce_tool :: tool_facts

record 'ps cedar_lib =
  cl_parse :: "string \<Rightarrow> 'ps option"
  cl_is_authorized :: "cedar_request \<Rightarrow> 'ps \<Rightarrow> cedar_entities \<Rightarrow> cedar_decision \<times> string list"

text \<open>An engine without a policy set is one that was built unavailable.\<close>

record 'ps cedar_engine =
  cg_bundle :: policy_bundle
  cg_tools :: "tool_facts strmap"
  cg_stale :: bool
  cg_policy_set :: "'ps option"

definition mk_engine ::
  "'ps cedar_lib \<Rightarrow> (pvalue \<Rightarrow> string) \<Rightarrow> policy_bundle \<Rightarrow> tool_facts strmap option \<Rightarrow> bool \<Rightarrow> ('ps cedar_engine) option" where
  "mk_engine cedar str_of b tools stale =
     (case (case tools of Some t \<Rightarrow> Some t | None \<Rightarrow> tool_catalogue str_of (pb_tools b)) of
        None \<Rightarrow> None
      | Some t \<Rightarrow>
          (case cl_parse cedar (pb_cedar_source b) of
             None \<Rightarrow> None
           | Some ps \<Rightarrow> Some \<lparr>cg_bundle = b, cg_tools = t, cg_stale = stale, cg_policy_set = Some ps\<rparr>))"

definition unavailable_engine :: "'ps cedar_engine" where
  "unavailable_engine =
     \<lparr>cg_bundle = \<lparr>pb_version = [], pb_cedar_source = [], pb_serial = 0, pb_entity_schema = None,
                   pb_created_at = None, pb_tools = None\<rparr>,
      cg_tools = [], cg_stale = False, cg_policy_set = None\<rparr>"

definition facts_for :: "'ps cedar_engine \<Rightarrow> string option \<Rightarrow> tool_facts" where
  "facts_for e t =
     (case t of None \<Rightarrow> UNKNOWN_TOOL
      | Some name \<Rightarrow> (case map_of (cg_tools e) name of None \<Rightarrow> UNKNOWN_TOOL | Some f \<Rightarrow> f))"

definition verdict_from :: "'ps cedar_engine \<Rightarrow> cedar_decision \<Rightarrow> string list \<Rightarrow> policy_verdict" where
  "verdict_from e d reasons =
     \<lparr>pv_allowed = (d = CedarAllow), pv_statement = (case reasons of [] \<Rightarrow> None | r # _ \<Rightarrow> Some r),
      pv_version = pb_version (cg_bundle e), pv_stale = cg_stale e\<rparr>"

definition entities_for :: "'ps cedar_engine \<Rightarrow> agent_principal \<Rightarrow> request_context \<Rightarrow> cedar_entities" where
  "entities_for e p ctx =
     \<lparr>ce_agent_id = ap_agent_id p, ce_role = ap_role p, ce_depth = current_depth ctx,
      ce_task_id = uuid_str (ap_task_id p), ce_principal_id = ap_principal_id p,
      ce_tool_uid = (case tool ctx of None \<Rightarrow> [] | Some t \<Rightarrow> t), ce_tool = facts_for e (tool ctx)\<rparr>"

definition cedar_request_for :: "agent_principal \<Rightarrow> request_context \<Rightarrow> cedar_request" where
  "cedar_request_for p ctx =
     (let q = [CHR 0x22]; t = (case tool ctx of None \<Rightarrow> [] | Some t \<Rightarrow> t) in
      \<lparr>cr_principal = ''Agent::'' @ q @ ap_agent_id p @ q, cr_action = ''Action::'' @ q @ operation ctx @ q,
       cr_resource = ''Tool::'' @ q @ t @ q, cr_amount = fixed4 (requested ctx SPEND_BDT),
       cr_elevated = False, cr_environment = ''production''\<rparr>)"

definition bound_evaluate :: "'ps cedar_lib \<Rightarrow> 'ps cedar_engine \<Rightarrow> agent_principal \<Rightarrow> policy_engine" where
  "bound_evaluate cedar e p ctx =
     (case cg_policy_set e of
        None \<Rightarrow> None
      | Some ps \<Rightarrow>
          (case cl_is_authorized cedar (cedar_request_for p ctx) ps (entities_for e p ctx) of
             (d, reasons) \<Rightarrow> Some (verdict_from e d reasons)))"

section \<open>The cache\<close>

record ('ps, 'pk) policy_cache =
  cc_public_key :: 'pk
  cc_tools :: "tool_facts strmap"
  cc_max_staleness :: int
  cc_engine :: "('ps cedar_engine) option"
  cc_serial :: "int option"
  cc_loaded_at :: "instant option"
  cc_rejected :: nat
  cc_loaded :: nat

definition new_cache :: "'pk \<Rightarrow> tool_facts strmap option \<Rightarrow> int \<Rightarrow> ('ps, 'pk) policy_cache" where
  "new_cache key tools max_staleness =
     \<lparr>cc_public_key = key, cc_tools = (case tools of None \<Rightarrow> [] | Some t \<Rightarrow> t), cc_max_staleness = max_staleness,
      cc_engine = None, cc_serial = None, cc_loaded_at = None, cc_rejected = 0, cc_loaded = 0\<rparr>"

definition cache_stale :: "instant \<Rightarrow> ('ps, 'pk) policy_cache \<Rightarrow> bool" where
  "cache_stale now_t c =
     (case cc_loaded_at c of None \<Rightarrow> False | Some t \<Rightarrow> now_t - t > cc_max_staleness c)"

datatype load_error = BundleRejected | ActivationFailed | LoadRaised exc

definition reject :: "('ps, 'pk) policy_cache \<Rightarrow> ('ps, 'pk) policy_cache" where
  "reject c = c\<lparr>cc_rejected := cc_rejected c + 1\<rparr>"

definition make_current :: "'ps cedar_engine \<Rightarrow> int \<Rightarrow> instant \<Rightarrow> ('ps, 'pk) policy_cache \<Rightarrow> ('ps, 'pk) policy_cache" where
  "make_current e serial now_t c =
     c\<lparr>cc_engine := Some e, cc_serial := Some serial, cc_loaded_at := Some now_t, cc_loaded := cc_loaded c + 1\<rparr>"

definition does_not_advance :: "('ps, 'pk) policy_cache \<Rightarrow> policy_bundle \<Rightarrow> bool" where
  "does_not_advance c b = (case cc_serial c of None \<Rightarrow> False | Some s \<Rightarrow> pb_serial b \<le> s)"

text \<open>The three gates that \<open>load\<close> and \<open>activate_bundle\<close> share: signature, serial, parse.\<close>

definition candidate ::
  "'ps cedar_lib \<Rightarrow> (pvalue \<Rightarrow> string) \<Rightarrow> 'pk verifier \<Rightarrow> policy_bundle \<Rightarrow> string
    \<Rightarrow> ('ps, 'pk) policy_cache \<Rightarrow> load_error + 'ps cedar_engine" where
  "candidate cedar str_of check b sig c =
     (case verify_bundle check b sig (cc_public_key c) of
        Inl e \<Rightarrow> Inl (LoadRaised e)
      | Inr False \<Rightarrow> Inl BundleRejected
      | Inr True \<Rightarrow>
          if does_not_advance c b then Inl BundleRejected
          else (case mk_engine cedar str_of b (Some (cc_tools c)) False of
                  None \<Rightarrow> Inl BundleRejected | Some e \<Rightarrow> Inr e))"

definition after_refusal :: "load_error \<Rightarrow> ('ps, 'pk) policy_cache \<Rightarrow> ('ps, 'pk) policy_cache" where
  "after_refusal e c = (if e = BundleRejected then reject c else c)"

definition load ::
  "'ps cedar_lib \<Rightarrow> (pvalue \<Rightarrow> string) \<Rightarrow> 'pk verifier \<Rightarrow> instant \<Rightarrow> policy_bundle \<Rightarrow> string
    \<Rightarrow> ('ps, 'pk) policy_cache \<Rightarrow> ('ps, 'pk) policy_cache \<times> load_error option" where
  "load cedar str_of check now_t b sig c =
     (case candidate cedar str_of check b sig c of
        Inl e \<Rightarrow> (after_refusal e c, Some e)
      | Inr e \<Rightarrow> (make_current e (pb_serial b) now_t c, None))"

text \<open>
  A stale cache serves the same bundle with its staleness flag set.  The source of a held engine
  has parsed before, so building it again does not fail.
\<close>

definition cache_bound ::
  "'ps cedar_lib \<Rightarrow> (pvalue \<Rightarrow> string) \<Rightarrow> instant \<Rightarrow> ('ps, 'pk) policy_cache \<Rightarrow> agent_principal \<Rightarrow> policy_engine" where
  "cache_bound cedar str_of now_t c p =
     (case cc_engine c of
        None \<Rightarrow> bound_evaluate cedar unavailable_engine p
      | Some e \<Rightarrow>
          if cache_stale now_t c
          then (case mk_engine cedar str_of (cg_bundle e) (Some (cc_tools c)) True of
                  None \<Rightarrow> bound_evaluate cedar unavailable_engine p
                | Some e' \<Rightarrow> bound_evaluate cedar e' p)
          else bound_evaluate cedar e p)"

section \<open>Policy tests and the activation gate\<close>

record policy_test_case =
  tc_name :: string
  tc_description :: string
  tc_operation :: string
  tc_expected :: bool
  tc_role :: string
  tc_tool :: "string option"
  tc_amount :: decimal
  tc_depth :: int
  tc_agent_id :: string
  tc_principal_id :: string
  tc_task_id :: string
  tc_tags :: "string list"
  tc_elevated :: bool
  tc_environment :: string

record policy_test_result =
  tr_case :: policy_test_case
  tr_actual :: bool
  tr_passed :: bool
  tr_statement :: "string option"
  tr_error :: bool

record policy_test_summary =
  ts_total :: nat
  ts_passed :: nat
  ts_failed :: nat
  ts_errors :: nat
  ts_all_passed :: bool
  ts_failures :: "policy_test_result list"

definition run_one :: "(policy_test_case \<Rightarrow> policy_verdict option) \<Rightarrow> policy_test_case \<Rightarrow> policy_test_result" where
  "run_one evaluate_fn tc =
     (case evaluate_fn tc of
        Some v \<Rightarrow> \<lparr>tr_case = tc, tr_actual = pv_allowed v, tr_passed = (pv_allowed v = tc_expected tc),
                  tr_statement = pv_statement v, tr_error = False\<rparr>
      | None \<Rightarrow> \<lparr>tr_case = tc, tr_actual = (\<not> tc_expected tc), tr_passed = False,
                tr_statement = None, tr_error = True\<rparr>)"

definition run_policy_tests ::
  "policy_test_case list \<Rightarrow> (policy_test_case \<Rightarrow> policy_verdict option) \<Rightarrow> policy_test_result list" where
  "run_policy_tests cases evaluate_fn = map (run_one evaluate_fn) cases"

definition summarize :: "policy_test_result list \<Rightarrow> policy_test_summary" where
  "summarize results =
     (let passed = length (filter tr_passed results); failed = length results - passed in
      \<lparr>ts_total = length results, ts_passed = passed, ts_failed = failed,
       ts_errors = length (filter tr_error results), ts_all_passed = (failed = 0),
       ts_failures = filter (\<lambda>r. \<not> tr_passed r) results\<rparr>)"

text \<open>
  \<open>_evaluate_case\<close>: \<open>None\<close> is any exception, a task id that is no UUID or a context that does not
  validate included.
\<close>

definition evaluate_case ::
  "'ps cedar_lib \<Rightarrow> 'ps cedar_engine \<Rightarrow> instant \<Rightarrow> policy_test_case \<Rightarrow> policy_verdict option" where
  "evaluate_case cedar e now_t tc =
     (case uuid_of_string (tc_task_id tc) of
        None \<Rightarrow> None
      | Some tid \<Rightarrow>
          let ctx = \<lparr>operation = tc_operation tc, requested = (\<lambda>d. 0)(SPEND_BDT := tc_amount tc),
                     current_depth = tc_depth tc, request_intent = replicate 64 CHR ''a'', now = now_t,
                     tool = tc_tool tc, args = [], task_intent_text = None, action_intent_text = None,
                     drift_mode_of = DRIFT_STRICT\<rparr>
          in if request_context_wf ctx
             then bound_evaluate cedar e
                    \<lparr>ap_agent_id = tc_agent_id tc, ap_role = tc_role tc, ap_principal_id = tc_principal_id tc,
                     ap_task_id = tid, ap_declared_role = []\<rparr> ctx
             else None)"

definition activate_bundle ::
  "'ps cedar_lib \<Rightarrow> (pvalue \<Rightarrow> string) \<Rightarrow> 'pk verifier \<Rightarrow> instant \<Rightarrow> policy_bundle \<Rightarrow> string
    \<Rightarrow> policy_test_case list \<Rightarrow> ('ps, 'pk) policy_cache
    \<Rightarrow> ('ps, 'pk) policy_cache \<times> (load_error + policy_test_summary)" where
  "activate_bundle cedar str_of check now_t b sig cases c =
     (case candidate cedar str_of check b sig c of
        Inl e \<Rightarrow> (after_refusal e c, Inl e)
      | Inr e \<Rightarrow>
          let summary = summarize (run_policy_tests cases (evaluate_case cedar e now_t)) in
          if \<not> ts_all_passed summary then (c, Inl ActivationFailed)
          else (make_current e (pb_serial b) now_t c, Inr summary))"

section \<open>What the cache enforces\<close>

lemma summarize_all_passed: "ts_all_passed (summarize rs) \<longleftrightarrow> (\<forall>r \<in> set rs. tr_passed r)"
proof -
  have "length rs - length (filter tr_passed rs) = 0 \<longleftrightarrow> filter tr_passed rs = rs"
    by (metis diff_is_0_eq' diff_self_eq_0 filter_id_conv length_filter_less le_refl linorder_not_less zero_less_diff neq0_conv)
  then show ?thesis by (simp add: summarize_def Let_def filter_id_conv)
qed

lemma candidate_Inr:
  "candidate cedar str_of check b sig c = Inr e \<Longrightarrow>
     (\<exists>payload. signing_payload (vf_nfc check) b = Inr payload \<and> vf_check check (cc_public_key c) sig payload) \<and> \<not> does_not_advance c b
     \<and> cg_bundle e = b \<and> cg_tools e = cc_tools c \<and> \<not> cg_stale e \<and> cg_policy_set e = cl_parse cedar (pb_cedar_source b)
     \<and> cg_policy_set e \<noteq> None"
  by (auto simp: candidate_def verify_bundle_def mk_engine_def split: sum.splits bool.splits if_splits option.splits)

text \<open>
  The caches reachable by loads and activations, with the bundles accepted so far, newest first,
  each with its signature and the instant it became current.
\<close>

inductive cache_run ::
  "'ps cedar_lib \<Rightarrow> (pvalue \<Rightarrow> string) \<Rightarrow> 'pk verifier \<Rightarrow> ('ps, 'pk) policy_cache
    \<Rightarrow> (policy_bundle \<times> string \<times> instant) list \<Rightarrow> ('ps, 'pk) policy_cache \<Rightarrow> bool"
  for cedar str_of check c0 where
  init: "cache_run cedar str_of check c0 [] c0"
| loaded: "cache_run cedar str_of check c0 hist c \<Longrightarrow> load cedar str_of check now_t b sig c = (c', None)
    \<Longrightarrow> cache_run cedar str_of check c0 ((b, sig, now_t) # hist) c'"
| refused: "cache_run cedar str_of check c0 hist c \<Longrightarrow> load cedar str_of check now_t b sig c = (c', Some e)
    \<Longrightarrow> cache_run cedar str_of check c0 hist c'"
| activated: "cache_run cedar str_of check c0 hist c
    \<Longrightarrow> activate_bundle cedar str_of check now_t b sig cases c = (c', Inr summary)
    \<Longrightarrow> cache_run cedar str_of check c0 ((b, sig, now_t) # hist) c'"
| not_activated: "cache_run cedar str_of check c0 hist c
    \<Longrightarrow> activate_bundle cedar str_of check now_t b sig cases c = (c', Inl e)
    \<Longrightarrow> cache_run cedar str_of check c0 hist c'"

definition current_from :: "'ps cedar_lib \<Rightarrow> (policy_bundle \<times> string \<times> instant) list \<Rightarrow> ('ps, 'pk) policy_cache \<Rightarrow> bool" where
  "current_from cedar hist c \<longleftrightarrow>
     (case hist of
        [] \<Rightarrow> cc_engine c = None \<and> cc_serial c = None \<and> cc_loaded_at c = None
      | (b, sig, t) # _ \<Rightarrow>
          (\<exists>e. cc_engine c = Some e \<and> cg_bundle e = b \<and> cg_tools e = cc_tools c \<and> \<not> cg_stale e
             \<and> cg_policy_set e = cl_parse cedar (pb_cedar_source b) \<and> cg_policy_set e \<noteq> None)
          \<and> cc_serial c = Some (pb_serial b) \<and> cc_loaded_at c = Some t)"

definition cache_inv ::
  "'ps cedar_lib \<Rightarrow> 'pk verifier \<Rightarrow> ('ps, 'pk) policy_cache
    \<Rightarrow> (policy_bundle \<times> string \<times> instant) list \<Rightarrow> ('ps, 'pk) policy_cache \<Rightarrow> bool" where
  "cache_inv cedar check c0 hist c \<longleftrightarrow>
     current_from cedar hist c \<and> cc_public_key c = cc_public_key c0 \<and> cc_max_staleness c = cc_max_staleness c0
     \<and> cc_tools c = cc_tools c0 \<and> cc_loaded c = length hist
     \<and> sorted_wrt (\<lambda>x y. pb_serial (fst y) < pb_serial (fst x)) hist
     \<and> (\<forall>x \<in> set hist. \<exists>payload. signing_payload (vf_nfc check) (fst x) = Inr payload \<and> vf_check check (cc_public_key c0) (fst (snd x)) payload)"

lemma cache_inv_current:
  assumes "cache_inv cedar check c0 hist c" "candidate cedar str_of check b sig c = Inr e"
  shows "cache_inv cedar check c0 ((b, sig, now_t) # hist) (make_current e (pb_serial b) now_t c)"
proof -
  note e = candidate_Inr[OF assms(2)]
  then obtain ps where 1: "cg_policy_set e = Some ps" by blast
  have ps: "cg_policy_set e = Some ps" "cl_parse cedar (pb_cedar_source b) = Some ps" using 1 e by metis+
  have "pb_serial (fst x) < pb_serial b" if "x \<in> set hist" for x
  proof (cases hist)
    case (Cons y ys)
    then have "cc_serial c = Some (pb_serial (fst y))" using assms(1) by (cases y) (auto simp: cache_inv_def current_from_def)
    then have "pb_serial (fst y) < pb_serial b" using e by (simp add: does_not_advance_def)
    moreover have "x = y \<or> pb_serial (fst x) < pb_serial (fst y)"
      using assms(1) that Cons by (auto simp: cache_inv_def)
    ultimately show ?thesis by auto
  qed (use that in simp)
  then show ?thesis using assms(1) e ps by (simp add: cache_inv_def current_from_def make_current_def)
qed

lemma cache_inv_refusal:
  "cache_inv cedar check c0 hist c \<Longrightarrow> cache_inv cedar check c0 hist (after_refusal e c)"
  by (auto simp: cache_inv_def current_from_def after_refusal_def reject_def split: list.splits)

lemma cache_run_inv:
  assumes "cache_run cedar str_of check (new_cache key tools ms) hist c"
  shows "cache_inv cedar check (new_cache key tools ms) hist c"
  using assms
proof induction
  case init
  then show ?case by (simp add: cache_inv_def current_from_def new_cache_def)
next
  case (loaded hist c now_t b sig c')
  then show ?case using cache_inv_current by (fastforce simp: load_def split: sum.splits)
next
  case (refused hist c now_t b sig c' e)
  then show ?case using cache_inv_refusal by (fastforce simp: load_def split: sum.splits)
next
  case (activated hist c now_t b sig cases c' summary)
  then show ?case using cache_inv_current by (fastforce simp: activate_bundle_def Let_def split: sum.splits if_splits)
next
  case (not_activated hist c now_t b sig cases c' e)
  then show ?case using cache_inv_refusal by (fastforce simp: activate_bundle_def Let_def split: sum.splits if_splits)
qed

text \<open>What a decision needs of its policy engine.\<close>

lemma allowed_has_policy:
  assumes "decide lib tok ctx caveats revoc policy budget drift = Inr d" "decision_allowed d"
  shows "\<exists>v. policy ctx = Some v \<and> \<not> pv_stale v \<and> pv_allowed v"
proof (cases rule: decide_cases[of lib tok ctx caveats revoc])
  case (late cd)
  then have "within_opt (\<lambda>e. de_outcome e = ESCALATE) cd" by (cases cd) simp_all
  then have "check_policy policy ctx = None" using decide_after_caveats_allow_iff assms late(3) by metis
  then show ?thesis by (auto simp: check_policy_def split: option.splits if_splits)
qed (use assms in \<open>auto simp: decision_allowed_def\<close>)

locale policy_provider =
  fixes verdict :: policy_engine and permitted :: "request_context \<Rightarrow> bool"
  assumes fresh_allow_is_permitted: "verdict ctx = Some v \<Longrightarrow> \<not> pv_stale v \<Longrightarrow> pv_allowed v \<Longrightarrow> permitted ctx"
begin

lemma allowed_is_permitted:
  assumes "decide lib tok ctx caveats revoc verdict budget drift = Inr d" "decision_allowed d"
  shows "permitted ctx"
  using allowed_has_policy[OF assms] fresh_allow_is_permitted by blast

end

text \<open>The bundle a cache enforces permits a request: held, fresh, and allowed by Cedar.\<close>

definition cache_permits ::
  "'ps cedar_lib \<Rightarrow> instant \<Rightarrow> ('ps, 'pk) policy_cache \<Rightarrow> agent_principal \<Rightarrow> request_context \<Rightarrow> bool" where
  "cache_permits cedar now_t c p ctx =
     (\<not> cache_stale now_t c \<and>
      (case cc_engine c of
         None \<Rightarrow> False
       | Some e \<Rightarrow> (case cg_policy_set e of
                     None \<Rightarrow> False
                   | Some ps \<Rightarrow> fst (cl_is_authorized cedar (cedar_request_for p ctx) ps (entities_for e p ctx)) = CedarAllow)))"

interpretation pc: policy_provider "cache_bound cedar str_of now_t c p" "cache_permits cedar now_t c p"
  for cedar :: "'ps cedar_lib" and str_of now_t and c :: "('ps, 'pk) policy_cache" and p
  by unfold_locales
    (auto simp: cache_bound_def bound_evaluate_def cache_permits_def unavailable_engine_def verdict_from_def mk_engine_def
      split: option.splits prod.splits if_splits)

section \<open>Properties\<close>

text \<open>
  C19: The cache enforces only verified bundles and never goes back.  Over any sequence of loads
  and activations, the accepted bundles are all signed by the configured key and their serials
  strictly increase, the one being served is the newest of them, and a refused candidate,
  forged, rolled back, unparseable or failing its tests, leaves what is served untouched.
\<close>

theorem policy_cache_never_rolls_back:
  assumes "cache_run cedar str_of check (new_cache key tools ms) hist c"
  shows "(\<forall>x \<in> set hist. \<exists>payload. signing_payload (vf_nfc check) (fst x) = Inr payload \<and> vf_check check key (fst (snd x)) payload)
    \<and> sorted_wrt (\<lambda>x y. pb_serial (fst y) < pb_serial (fst x)) hist
    \<and> (case hist of
         [] \<Rightarrow> cc_engine c = None
       | (b, sig, t) # _ \<Rightarrow> cc_serial c = Some (pb_serial b) \<and> cc_loaded_at c = Some t
           \<and> (\<exists>e. cc_engine c = Some e \<and> cg_bundle e = b \<and> cg_policy_set e = cl_parse cedar (pb_cedar_source b)))
    \<and> (\<forall>now_t b sig c' err. load cedar str_of check now_t b sig c = (c', Some err) \<longrightarrow>
         cc_engine c' = cc_engine c \<and> cc_serial c' = cc_serial c \<and> cc_loaded_at c' = cc_loaded_at c)"
proof -
  note inv = cache_run_inv[OF assms]
  have "cc_engine c' = cc_engine c \<and> cc_serial c' = cc_serial c \<and> cc_loaded_at c' = cc_loaded_at c"
    if "load cedar str_of check now_t b sig c = (c', Some err)" for now_t b sig c' err
    using that by (auto simp: load_def after_refusal_def reject_def split: sum.splits if_splits)
  then show ?thesis using inv by (auto simp: cache_inv_def current_from_def new_cache_def split: list.splits)
qed

text \<open>
  The activation gate.  An activation succeeds only when every policy test gives its
  expected verdict on the engine that is then served, and otherwise changes nothing of what is
  served; a test that raises counts as failed, and with no tests the gate is that of \<open>load\<close>.
\<close>

theorem activation_requires_every_test:
  assumes "activate_bundle cedar str_of check now_t b sig cases c = (c', r)"
  shows "case r of
      Inr summary \<Rightarrow> ts_total summary = length cases \<and> ts_failures summary = []
        \<and> (\<exists>e. cc_engine c' = Some e \<and> cg_bundle e = b
             \<and> (\<forall>tc \<in> set cases. \<exists>v. evaluate_case cedar e now_t tc = Some v \<and> pv_allowed v = tc_expected tc))
    | Inl err \<Rightarrow> cc_engine c' = cc_engine c \<and> cc_serial c' = cc_serial c \<and> cc_loaded_at c' = cc_loaded_at c
        \<and> (err = ActivationFailed \<longrightarrow> cases \<noteq> [])"
proof (cases "candidate cedar str_of check b sig c")
  case (Inl e)
  then have "e \<noteq> ActivationFailed" by (auto simp: candidate_def split: sum.splits bool.splits if_splits option.splits)
  then show ?thesis using Inl assms by (auto simp: activate_bundle_def after_refusal_def reject_def)
next
  case (Inr e)
  let ?rs = "run_policy_tests cases (evaluate_case cedar e now_t)"
  have passed: "tr_passed (run_one f tc) \<longleftrightarrow> (\<exists>v. f tc = Some v \<and> pv_allowed v = tc_expected tc)" for f tc
    by (simp add: run_one_def split: option.splits)
  show ?thesis
  proof (cases "ts_all_passed (summarize ?rs)")
    case True
    then have all: "\<forall>tc \<in> set cases. tr_passed (run_one (evaluate_case cedar e now_t) tc)"
      by (simp add: summarize_all_passed run_policy_tests_def)
    then have "ts_failures (summarize ?rs) = []" by (simp add: summarize_def Let_def run_policy_tests_def filter_empty_conv)
    then show ?thesis using True Inr assms all passed candidate_Inr[OF Inr]
      by (auto simp: activate_bundle_def Let_def make_current_def summarize_def run_policy_tests_def)
  next
    case False
    then have "cases \<noteq> []" by (auto simp: summarize_all_passed run_policy_tests_def)
    then show ?thesis using False Inr assms by (auto simp: activate_bundle_def Let_def)
  qed
qed

text \<open>
  What is allowed was allowed by the newest bundle, fresh.  A decision made on the cache's
  engine allows only when some verified bundle has been accepted, it is no older than the
  staleness bound, and Cedar answered \<open>Allow\<close> on it; an empty or stale cache and Cedar's \<open>NoDecision\<close>
  never allow.
\<close>

theorem allowed_by_the_current_bundle:
  assumes "cache_run cedar str_of check (new_cache key tools ms) hist c"
    "decide lib tok ctx caveats revoc (cache_bound cedar str_of now_t c p) budget drift = Inr d" "decision_allowed d"
  shows "\<exists>b sig t rest e ps. hist = (b, sig, t) # rest \<and> now_t - t \<le> ms
    \<and> cc_engine c = Some e \<and> cg_bundle e = b \<and> cl_parse cedar (pb_cedar_source b) = Some ps
    \<and> fst (cl_is_authorized cedar (cedar_request_for p ctx) ps (entities_for e p ctx)) = CedarAllow"
proof -
  note inv = cache_run_inv[OF assms(1)]
  have perm: "cache_permits cedar now_t c p ctx" by (rule pc.allowed_is_permitted[OF assms(2,3)])
  then obtain e ps where e: "cc_engine c = Some e" "cg_policy_set e = Some ps"
      "fst (cl_is_authorized cedar (cedar_request_for p ctx) ps (entities_for e p ctx)) = CedarAllow" "\<not> cache_stale now_t c"
    by (auto simp: cache_permits_def split: option.splits)
  then obtain b sig t rest where h: "hist = (b, sig, t) # rest"
    using inv by (auto simp: cache_inv_def current_from_def split: list.splits)
  then have "cc_loaded_at c = Some t" "cg_bundle e = b" "cl_parse cedar (pb_cedar_source b) = Some ps" "cc_max_staleness c = ms"
    using inv e by (auto simp: cache_inv_def current_from_def new_cache_def)
  then show ?thesis using h e by (auto simp: cache_stale_def)
qed

text \<open>
  Inputs the policy layer drops.  A cache built without a catalogue passes an explicit empty
  one to every engine, so the signed catalogue of the bundle is never consulted and every tool has the
  attributes of an unknown one; and a policy test's \<open>elevated\<close> and \<open>environment\<close> do not reach the
  evaluation.
\<close>

theorem bundle_catalogue_ignored:
  assumes "cache_run cedar str_of check (new_cache key None ms) hist c"
  shows "(\<forall>e t. cc_engine c = Some e \<longrightarrow> facts_for e t = UNKNOWN_TOOL)
    \<and> evaluate_case cedar e' now_t (tc\<lparr>tc_elevated := x, tc_environment := env\<rparr>) = evaluate_case cedar e' now_t tc"
proof -
  have "cc_engine c = Some e \<Longrightarrow> cg_tools e = []" for e
    using cache_run_inv[OF assms] by (auto simp: cache_inv_def current_from_def new_cache_def split: list.splits)
  then show ?thesis by (auto simp: facts_for_def evaluate_case_def Let_def split: option.splits)
qed

section \<open>Witnesses\<close>

definition demo_bundle :: policy_bundle where
  "demo_bundle =
     \<lparr>pb_version = ''v'', pb_cedar_source = ''permit'', pb_serial = 3, pb_entity_schema = None, pb_created_at = None,
      pb_tools = Some [(''shell'', PyMap [(''sensitivity'', PyStr ''critical'')])]\<rparr>"

definition demo_cedar :: "unit cedar_lib" where
  "demo_cedar = \<lparr>cl_parse = (\<lambda>s. Some ()), cl_is_authorized = (\<lambda>r ps e. (CedarAllow, []))\<rparr>"

abbreviation demo_check :: "unit verifier" where
  "demo_check \<equiv> \<lparr>vf_nfc = latin_nfc, vf_check = \<lambda>k sig payload. True\<rparr>"

abbreviation demo_str :: "pvalue \<Rightarrow> string" where
  "demo_str \<equiv> (\<lambda>v. [])"

definition loaded_cache :: "(unit, unit) policy_cache" where
  "loaded_cache = fst (load demo_cedar demo_str demo_check 0 demo_bundle [] (new_cache () None (seconds 60)))"

lemma demo_payload: "\<exists>b. signing_payload latin_nfc demo_bundle = Inr b"
  using small_int[of 3] canonical_json_ok[of latin_nfc "bundle_body demo_bundle"]
  by (simp add: signing_payload_def bundle_body_def demo_bundle_def opt_value_def)

lemma demo_load: "load demo_cedar demo_str demo_check 0 demo_bundle [] (new_cache () None (seconds 60)) = (loaded_cache, None)"
  using demo_payload
  by (auto simp: loaded_cache_def load_def candidate_def verify_bundle_def does_not_advance_def new_cache_def mk_engine_def demo_cedar_def)

lemma demo_run: "cache_run demo_cedar demo_str demo_check (new_cache () None (seconds 60)) [(demo_bundle, [], 0)] loaded_cache"
  by (rule cache_run.loaded[OF cache_run.init demo_load])

theorem policy_cache_never_rolls_back_witness:
  "cc_serial loaded_cache = Some 3 \<and> cc_loaded_at loaded_cache = Some 0"
  using policy_cache_never_rolls_back[OF demo_run] by (simp add: demo_bundle_def)

theorem bundle_catalogue_ignored_witness:
  "\<exists>e. cc_engine loaded_cache = Some e
     \<and> pb_tools (cg_bundle e) = Some [(''shell'', PyMap [(''sensitivity'', PyStr ''critical'')])]
     \<and> facts_for e (Some ''shell'') = UNKNOWN_TOOL"
proof -
  obtain e where "cc_engine loaded_cache = Some e" "cg_bundle e = demo_bundle"
    using demo_payload
    by (auto simp: loaded_cache_def load_def candidate_def verify_bundle_def does_not_advance_def new_cache_def mk_engine_def
        demo_cedar_def make_current_def)
  then show ?thesis using bundle_catalogue_ignored[OF demo_run] by (simp add: demo_bundle_def)
qed

theorem activation_requires_every_test_witness:
  "cc_engine (reject loaded_cache) = cc_engine loaded_cache"
proof -
  have "activate_bundle demo_cedar demo_str demo_check 9 demo_bundle [] [] loaded_cache = (reject loaded_cache, Inl BundleRejected)"
    using demo_payload demo_load
    by (auto simp: activate_bundle_def candidate_def verify_bundle_def does_not_advance_def after_refusal_def
        loaded_cache_def load_def make_current_def new_cache_def mk_engine_def demo_cedar_def demo_bundle_def)
  from activation_requires_every_test[OF this] show ?thesis by simp
qed

theorem allowed_by_the_current_bundle_witness:
  "\<exists>b (sig :: string) (t :: instant) rest. [(demo_bundle, [], 0)] = (b, sig, t) # rest \<and> seconds 10 - t \<le> seconds 60"
proof -
  let ?p = "\<lparr>ap_agent_id = [], ap_role = [], ap_principal_id = [], ap_task_id = 2, ap_declared_role = []\<rparr>"
  have "cache_bound demo_cedar demo_str (seconds 10) loaded_cache ?p granted_context
      = Some \<lparr>pv_allowed = True, pv_statement = None, pv_version = ''v'', pv_stale = False\<rparr>"
    using demo_payload
    by (auto simp: cache_bound_def bound_evaluate_def loaded_cache_def load_def candidate_def verify_bundle_def
        does_not_advance_def new_cache_def mk_engine_def demo_cedar_def make_current_def cache_stale_def
        verdict_from_def demo_bundle_def)
  then have "\<exists>d. decide demo_lib demo_token granted_context [] (\<lambda>_. Some False)
      (cache_bound demo_cedar demo_str (seconds 10) loaded_cache ?p) ample_budget None = Inr d \<and> decision_allowed d"
    by (simp add: demo_decide_simps decision_allowed_def)
  then obtain d where "decide demo_lib demo_token granted_context [] (\<lambda>_. Some False)
      (cache_bound demo_cedar demo_str (seconds 10) loaded_cache ?p) ample_budget None = Inr d" "decision_allowed d"
    by (elim exE conjE)
  from allowed_by_the_current_bundle[OF demo_run this] show ?thesis
    by (elim exE conjE) (intro exI conjI, assumption+)
qed

end
