(* ===== verification/AuditChain.thy ===== *)
theory AuditChain
  imports Hashing
begin

text \<open>
  \<open>agentiam_controlplane/db/audit.py\<close>, its tables in \<open>db/models.py\<close> and the sink of
  \<open>db/audit_sink.py\<close>: the hash chain over decision records.

  Three parameters stand for code outside the sources: \<open>sha\<close> (normalization, and SHA-256 in hex), \<open>dump\<close>
  (\<open>DecisionRecord.model_dump(mode="json")\<close>) and \<open>jsonb\<close>, what PostgreSQL hands back for a body
  stored in a \<open>JSONB\<close> column, or \<open>None\<close> when it refuses the body.  \<open>append\<close> holds the lock on the
  head row for its whole transaction, so it is one step; an error leaves the tables as they were.
  What a link pins of a row is \<open>row_content\<close>; bodies are compared by \<open>canon\<close>, up to key order and the
  normal form of their texts.
\<close>

section \<open>Tables\<close>

record audit_row =
  ar_seq :: int
  ar_decision_id :: uuid
  ar_record :: pvalue
  ar_prev_hash :: "string option"
  ar_record_hash :: string
  ar_created_at :: instant

record chain_head =
  ch_last_seq :: int
  ch_last_hash :: "string option"

record audit_db =
  ad_rows :: "audit_row list"
  ad_head :: "chain_head option"

text \<open>What a statement can raise: SQLAlchemy's errors, or an error of the code itself.\<close>

datatype db_error = DataError | IntegrityError | ProgrammingError | OperationalError | CodeError exc

text \<open>The constraints of one row: \<open>seq > 0\<close>, and only the genesis row has no predecessor.\<close>

definition audit_row_ok :: "audit_row \<Rightarrow> bool" where
  "audit_row_ok r =
     (ar_seq r > 0 \<and> (ar_seq r = 1 \<and> ar_prev_hash r = None \<or> ar_seq r > 1 \<and> ar_prev_hash r \<noteq> None))"

definition hash_fits :: "audit_row \<Rightarrow> bool" where
  "hash_fits r =
     (length (ar_record_hash r) \<le> 64 \<and> (case ar_prev_hash r of None \<Rightarrow> True | Some h \<Rightarrow> length h \<le> 64))"

text \<open>Flushing the added rows and the head: the column types first, then the constraints.\<close>

definition insert_rows :: "(pvalue \<Rightarrow> pvalue option) \<Rightarrow> audit_row list \<Rightarrow> chain_head \<Rightarrow> audit_db \<Rightarrow> db_error + audit_db" where
  "insert_rows jsonb new h db =
     bindE (traverseE (\<lambda>r. case jsonb (ar_record r) of
                             None \<Rightarrow> Inl DataError
                           | Some b \<Rightarrow> if hash_fits r then Inr (r\<lparr>ar_record := b\<rparr>) else Inl DataError) new)
       (\<lambda>stored. let rows = ad_rows db @ stored in
          if list_all audit_row_ok stored \<and> distinct (map ar_seq rows) \<and> distinct (map ar_decision_id rows)
             \<and> 0 \<le> ch_last_seq h
          then Inr \<lparr>ad_rows = rows, ad_head = Some h\<rparr>
          else Inl IntegrityError)"

section \<open>Appending\<close>

definition head_row :: "audit_db \<Rightarrow> chain_head" where
  "head_row db = (case ad_head db of None \<Rightarrow> \<lparr>ch_last_seq = 0, ch_last_hash = None\<rparr> | Some h \<Rightarrow> h)"

text \<open>The loop of \<open>append\<close>: the rows it adds and the head it leaves.\<close>

fun append_loop ::
  "hasher \<Rightarrow> (decision_record \<Rightarrow> pvalue) \<Rightarrow> instant \<Rightarrow> uuid set \<Rightarrow> int \<Rightarrow> string option
    \<Rightarrow> decision_record list \<Rightarrow> (audit_row list \<times> int \<times> string option) py" where
  "append_loop sha dump stamped existing last_seq last_hash [] = Inr ([], last_seq, last_hash)"
| "append_loop sha dump stamped existing last_seq last_hash (r # rs) =
     (if decision_id r \<in> existing then append_loop sha dump stamped existing last_seq last_hash rs
      else bindE (chain_hash sha last_hash (dump r)) (\<lambda>record_hash.
             bindE (append_loop sha dump stamped existing (last_seq + 1) (Some record_hash) rs)
               (\<lambda>(rows, s, h).
                  Inr (\<lparr>ar_seq = last_seq + 1, ar_decision_id = decision_id r, ar_record = dump r,
                        ar_prev_hash = last_hash, ar_record_hash = record_hash, ar_created_at = stamped\<rparr> # rows,
                       s, h))))"

definition append_records ::
  "hasher \<Rightarrow> (decision_record \<Rightarrow> pvalue) \<Rightarrow> (pvalue \<Rightarrow> pvalue option) \<Rightarrow> instant
    \<Rightarrow> decision_record list \<Rightarrow> audit_db \<Rightarrow> db_error + (string list \<times> audit_db)" where
  "append_records sha dump jsonb stamped records db =
     (if records = [] then Inr ([], db)
      else let h = head_row db;
               existing = set (filter (\<lambda>d. d \<in> set (map decision_id records)) (map ar_decision_id (ad_rows db)))
           in (case append_loop sha dump stamped existing (ch_last_seq h) (ch_last_hash h) records of
                 Inl e \<Rightarrow> Inl (CodeError e)
               | Inr (rows, s, lh) \<Rightarrow>
                   bindE (insert_rows jsonb rows \<lparr>ch_last_seq = s, ch_last_hash = lh\<rparr> db)
                     (\<lambda>db'. Inr (map ar_record_hash rows, db'))))"

section \<open>Verifying\<close>

datatype chain_break = SequenceJump | PrevHashMismatch | RecordAltered | ChainTruncated

record chain_verification =
  cv_ok :: bool
  cv_checked :: int
  cv_first_bad_seq :: "int option"
  cv_detail :: "chain_break option"

definition broken_at :: "int \<Rightarrow> int \<Rightarrow> chain_break \<Rightarrow> chain_verification" where
  "broken_at checked bad why =
     \<lparr>cv_ok = False, cv_checked = checked, cv_first_bad_seq = Some bad, cv_detail = Some why\<rparr>"

text \<open>The loop of \<open>verify_chain\<close>: the break it returns, or the last sequence number it reached.\<close>

fun verify_rows ::
  "hasher \<Rightarrow> string option \<Rightarrow> int \<Rightarrow> audit_row list \<Rightarrow> (chain_verification + int) py" where
  "verify_rows sha previous_hash previous_seq [] = Inr (Inr previous_seq)"
| "verify_rows sha previous_hash previous_seq (row # rows) =
     (if ar_seq row \<noteq> previous_seq + 1 then Inr (Inl (broken_at previous_seq (ar_seq row) SequenceJump))
      else if ar_prev_hash row \<noteq> previous_hash
      then Inr (Inl (broken_at previous_seq (ar_seq row) PrevHashMismatch))
      else bindE (chain_hash sha previous_hash (ar_record row)) (\<lambda>recomputed.
             if recomputed \<noteq> ar_record_hash row
             then Inr (Inl (broken_at previous_seq (ar_seq row) RecordAltered))
             else verify_rows sha (Some (ar_record_hash row)) (ar_seq row) rows))"

definition ordered_rows :: "audit_db \<Rightarrow> audit_row list" where
  "ordered_rows db = sort_key ar_seq (ad_rows db)"

text \<open>\<open>max(seq)\<close> is NULL on an empty table, and \<open>or 0\<close> reads that as 0.\<close>

definition highest_seq :: "audit_db \<Rightarrow> int" where
  "highest_seq db = (case map ar_seq (ad_rows db) of [] \<Rightarrow> 0 | s # ss \<Rightarrow> fold max ss s)"

definition verify_chain :: "hasher \<Rightarrow> audit_db \<Rightarrow> chain_verification py" where
  "verify_chain sha db =
     bindE (verify_rows sha None 0 (ordered_rows db)) (\<lambda>r.
       case r of
         Inl cv \<Rightarrow> Inr cv
       | Inr previous_seq \<Rightarrow>
           if ch_last_seq (head_row db) \<noteq> highest_seq db
           then Inr (broken_at previous_seq (highest_seq db + 1) ChainTruncated)
           else Inr \<lparr>cv_ok = True, cv_checked = previous_seq, cv_first_bad_seq = None, cv_detail = None\<rparr>)"

text \<open>
  \<open>scripts/verify_audit_chain.py\<close>: the exit code tells a broken chain from a database that could
  not be read; only SQLAlchemy's errors are caught, so any other one escapes.
\<close>

definition EXIT_OK :: int where "EXIT_OK = 0"
definition EXIT_BROKEN :: int where "EXIT_BROKEN = 1"
definition EXIT_UNAVAILABLE :: int where "EXIT_UNAVAILABLE = 2"

definition run_verify :: "hasher \<Rightarrow> bool \<Rightarrow> audit_db \<Rightarrow> int py" where
  "run_verify sha up db =
     (if \<not> up then Inr EXIT_UNAVAILABLE
      else bindE (verify_chain sha db) (\<lambda>result. Inr (if cv_ok result then EXIT_OK else EXIT_BROKEN)))"

section \<open>Custody\<close>

text \<open>
  \<open>record["task_id"].astext == str(task_id)\<close>: only a JSON string can read as the text of a UUID.
\<close>

definition task_matches :: "uuid \<Rightarrow> pvalue \<Rightarrow> bool" where
  "task_matches t v =
     (case v of PyMap items \<Rightarrow> map_of items ''task_id'' = Some (PyStr (uuid_str t)) | _ \<Rightarrow> False)"

definition custody :: "uuid \<Rightarrow> audit_db \<Rightarrow> (int \<times> pvalue) list" where
  "custody t db =
     map (\<lambda>r. (ar_seq r, ar_record r)) (filter (\<lambda>r. task_matches t (ar_record r)) (ordered_rows db))"

section \<open>The sink\<close>

record audit_sink =
  as_db :: audit_db
  as_rejected_batches :: nat

datatype sink_result = SinkWritten | SinkRejected | SinkFailed

definition permanent_error :: "db_error \<Rightarrow> bool" where
  "permanent_error e = (e \<in> {DataError, IntegrityError, ProgrammingError})"

text \<open>\<open>LedgerAuditSink.write\<close>.  \<open>up\<close> is false when the database cannot be reached.\<close>

definition audit_sink_write ::
  "hasher \<Rightarrow> (decision_record \<Rightarrow> pvalue) \<Rightarrow> (pvalue \<Rightarrow> pvalue option) \<Rightarrow> instant \<Rightarrow> bool
    \<Rightarrow> audit_sink \<Rightarrow> decision_record list \<Rightarrow> audit_sink \<times> sink_result" where
  "audit_sink_write sha dump jsonb stamped up s batch =
     (case (if up \<or> batch = [] then append_records sha dump jsonb stamped batch (as_db s) else Inl OperationalError) of
        Inr (_, db) \<Rightarrow> (s\<lparr>as_db := db\<rparr>, SinkWritten)
      | Inl e \<Rightarrow> if permanent_error e
                then (s\<lparr>as_rejected_batches := as_rejected_batches s + 1\<rparr>, SinkRejected)
                else (s, SinkFailed))"

section \<open>Linked rows\<close>

fun linked :: "hasher \<Rightarrow> string option \<Rightarrow> int \<Rightarrow> audit_row list \<Rightarrow> bool" where
  "linked sha p s [] = True"
| "linked sha p s (r # rs) =
     (ar_seq r = s + 1 \<and> ar_prev_hash r = p \<and> chain_hash sha p (ar_record r) = Inr (ar_record_hash r)
      \<and> linked sha (Some (ar_record_hash r)) (s + 1) rs)"

definition last_link :: "string option \<Rightarrow> audit_row list \<Rightarrow> string option" where
  "last_link p rs = (if rs = [] then p else Some (ar_record_hash (last rs)))"

lemma last_link_simps [simp]:
  "last_link p [] = p" "last_link p (r # rs) = last_link (Some (ar_record_hash r)) rs"
  "last_link p (rs @ [r]) = Some (ar_record_hash r)"
  by (simp_all add: last_link_def)

lemma linked_append:
  "linked sha p s (xs @ ys) \<longleftrightarrow>
     linked sha p s xs \<and> linked sha (last_link p xs) (s + int (length xs)) ys"
  by (induction xs arbitrary: p s) (auto simp: algebra_simps)

lemma linked_seqs: "linked sha p s rs \<Longrightarrow> map ar_seq rs = [s + 1..s + int (length rs)]"
proof (induction rs arbitrary: p s)
  case (Cons r rs)
  then have "linked sha (Some (ar_record_hash r)) (s + 1) rs" by simp
  then have "map ar_seq rs = [s + 1 + 1..s + 1 + int (length rs)]" by (rule Cons.IH)
  then show ?case using Cons.prems upto_rec1[of "s + 1" "s + 1 + int (length rs)"] by (simp add: algebra_simps)
qed simp

lemma linked_ordered: "linked sha p s (ad_rows db) \<Longrightarrow> ordered_rows db = ad_rows db"
  by (simp add: ordered_rows_def sorted_sort_id sort_key_id_if_sorted linked_seqs)

lemma fold_max_last: "sorted (x # xs) \<Longrightarrow> fold max xs x = last (x # (xs :: int list))"
  by (induction xs arbitrary: x) (auto simp: max_def)

lemma linked_highest: "linked sha None 0 (ad_rows db) \<Longrightarrow> highest_seq db = int (length (ad_rows db))"
proof -
  assume l: "linked sha None 0 (ad_rows db)"
  show ?thesis
  proof (cases "ad_rows db")
    case (Cons r rs)
    let ?ss = "map ar_seq (ad_rows db)"
    have ss: "?ss = [1..int (length (ad_rows db))]" using linked_seqs[OF l] by simp
    then have "sorted (ar_seq r # map ar_seq rs)" using Cons by (metis list.simps(9) sorted_upto)
    then have "highest_seq db = last ?ss" using fold_max_last Cons by (simp add: highest_seq_def)
    also have "\<dots> = int (length (ad_rows db))"
      unfolding ss using Cons by (subst upto_rec2) simp_all
    finally show ?thesis .
  qed (simp add: highest_seq_def)
qed

lemma verify_rows_linked:
  "verify_rows sha p s rs = Inr (Inr n) \<longleftrightarrow> linked sha p s rs \<and> n = s + int (length rs)"
  by (induction rs arbitrary: p s) (auto simp: broken_at_def)

text \<open>Only a table whose links all recompute, with as many rows as its head says, verifies.\<close>

lemma verify_chain_ok_iff:
  "(\<exists>v. verify_chain sha db = Inr v \<and> cv_ok v) \<longleftrightarrow>
     linked sha None 0 (ordered_rows db) \<and> ch_last_seq (head_row db) = highest_seq db"
proof -
  have broken: "cv_ok v \<Longrightarrow> verify_rows sha p s rs \<noteq> Inr (Inl v)" for v p s rs
    by (induction rs arbitrary: p s) (auto simp: broken_at_def)
  consider (raised) e where "verify_rows sha None 0 (ordered_rows db) = Inl e"
    | (broken) v where "verify_rows sha None 0 (ordered_rows db) = Inr (Inl v)"
    | (linked) n where "verify_rows sha None 0 (ordered_rows db) = Inr (Inr n)"
    by (metis sum.exhaust)
  then show ?thesis
  proof cases
    case raised
    then show ?thesis using verify_rows_linked[of sha None 0 "ordered_rows db" "0 + int (length (ordered_rows db))"]
      by (simp add: verify_chain_def)
  next
    case broken
    then show ?thesis
      using verify_rows_linked[of sha None 0 "ordered_rows db" "0 + int (length (ordered_rows db))"]
        \<open>\<And>v p s rs. cv_ok v \<Longrightarrow> verify_rows sha p s rs \<noteq> Inr (Inl v)\<close>[of v None 0 "ordered_rows db"]
      by (auto simp: verify_chain_def)
  next
    case linked
    then show ?thesis using verify_rows_linked[of sha None 0 "ordered_rows db" n]
      by (simp add: verify_chain_def broken_at_def)
  qed
qed

lemma verify_linked:
  assumes "linked sha None 0 (ad_rows db)" "ch_last_seq (head_row db) = int (length (ad_rows db))"
  shows "verify_chain sha db =
    Inr \<lparr>cv_ok = True, cv_checked = int (length (ad_rows db)), cv_first_bad_seq = None, cv_detail = None\<rparr>"
proof -
  have "verify_rows sha None 0 (ordered_rows db) = Inr (Inr (int (length (ad_rows db))))"
    using assms(1) by (simp add: linked_ordered verify_rows_linked)
  then show ?thesis using assms linked_highest by (simp add: verify_chain_def)
qed

section \<open>Appending keeps the chain\<close>

lemma link_keys [simp]: "nfc u ''prev'' = ''prev''" "nfc u ''record'' = ''record''"
  by (rule nfc_ascii, code_simp)+

lemma json_link [simp]: "json u (link_value p r) = json u r"
  by (cases p) (simp_all add: link_value_def)

lemma sort_one: "sort_items [x] = Inr [x]"
  by simp

lemma sort_link: "sort_items [(''prev'', a), (''record'', b)] = Inr [(''prev'', a), (''record'', b)]"
proof -
  have "\<not> ''record'' < (''prev'' :: string)" by code_simp
  then show ?thesis by (simp add: item_less_def)
qed

lemma chain_hash_ok: "json (hs_nfc sha) r \<Longrightarrow> \<exists>h. chain_hash sha p r = Inr h"
  by (simp add: chain_hash_def hash_object_def canonical_json_ok)

text \<open>The hash of the row before reaches the bytes as a text, so up to normalization.\<close>

lemma canon_link:
  "canon u (link_value p r) = canon u (link_value q s) \<longleftrightarrow> map_option (nfc u) p = map_option (nfc u) q \<and> canon u r = canon u s"
  by (cases p; cases q) (auto simp: link_value_def)

lemma chain_hash_canon:
  assumes "json (hs_nfc sha) a" "json (hs_nfc sha) b" "canon (hs_nfc sha) a = canon (hs_nfc sha) b"
  shows "chain_hash sha p a = chain_hash sha p b"
  using canonical_json_inj[of "hs_nfc sha" "link_value p a" "link_value p b"] assms
  by (simp add: chain_hash_def hash_object_def canon_link)

text \<open>What the code relies on of pydantic and of a \<open>JSONB\<close> column.\<close>

definition stores_json :: "hasher \<Rightarrow> (decision_record \<Rightarrow> pvalue) \<Rightarrow> (pvalue \<Rightarrow> pvalue option) \<Rightarrow> bool" where
  "stores_json sha dump jsonb \<longleftrightarrow>
     (\<forall>r. json (hs_nfc sha) (dump r) \<and> (\<forall>b. jsonb (dump r) = Some b \<longrightarrow> json (hs_nfc sha) b \<and> canon (hs_nfc sha) b = canon (hs_nfc sha) (dump r)))"

definition chain_inv :: "hasher \<Rightarrow> audit_db \<Rightarrow> bool" where
  "chain_inv sha db \<longleftrightarrow>
     linked sha None 0 (ad_rows db) \<and> list_all (\<lambda>r. json (hs_nfc sha) (ar_record r)) (ad_rows db)
     \<and> distinct (map ar_decision_id (ad_rows db))
     \<and> head_row db = \<lparr>ch_last_seq = int (length (ad_rows db)), ch_last_hash = last_link None (ad_rows db)\<rparr>"

lemma append_loop_spec:
  assumes "\<And>r. json (hs_nfc sha) (dump r)"
  shows "\<exists>rows. append_loop sha dump stamped existing ls lh recs
           = Inr (rows, ls + int (length rows), last_link lh rows) \<and> linked sha lh ls rows
         \<and> map ar_decision_id rows = filter (\<lambda>d. d \<notin> existing) (map decision_id recs)
         \<and> map ar_record rows = map dump (filter (\<lambda>r. decision_id r \<notin> existing) recs)"
proof (induction recs arbitrary: ls lh)
  case (Cons r recs)
  show ?case
  proof (cases "decision_id r \<in> existing")
    case False
    obtain h where h: "chain_hash sha lh (dump r) = Inr h" using chain_hash_ok assms by blast
    obtain rows where "append_loop sha dump stamped existing (ls + 1) (Some h) recs
          = Inr (rows, ls + 1 + int (length rows), last_link (Some h) rows)" "linked sha (Some h) (ls + 1) rows"
        "map ar_decision_id rows = filter (\<lambda>d. d \<notin> existing) (map decision_id recs)"
        "map ar_record rows = map dump (filter (\<lambda>r. decision_id r \<notin> existing) recs)"
      using Cons.IH by blast
    then show ?thesis using False h by auto
  qed (use Cons.IH in simp)
qed simp

text \<open>A body read back from the table hashes as the body that was written.\<close>

definition stored_as :: "hasher \<Rightarrow> audit_row \<Rightarrow> audit_row \<Rightarrow> bool" where
  "stored_as sha r r' \<longleftrightarrow>
     (\<exists>b. r' = r\<lparr>ar_record := b\<rparr> \<and> json (hs_nfc sha) b \<and> json (hs_nfc sha) (ar_record r) \<and> canon (hs_nfc sha) b = canon (hs_nfc sha) (ar_record r))"

lemma stored_rows:
  "list_all2 (stored_as sha) rows stored \<Longrightarrow>
     linked sha p s stored = linked sha p s rows \<and> map ar_record_hash stored = map ar_record_hash rows
     \<and> last_link p stored = last_link p rows \<and> map ar_decision_id stored = map ar_decision_id rows
     \<and> map (\<lambda>r. canon (hs_nfc sha) (ar_record r)) stored = map (\<lambda>r. canon (hs_nfc sha) (ar_record r)) rows
     \<and> list_all (\<lambda>r. json (hs_nfc sha) (ar_record r)) stored"
proof (induction rows stored arbitrary: p s rule: list_all2_induct)
  case (Cons r rows r' stored)
  then obtain b where b: "r' = r\<lparr>ar_record := b\<rparr>" "json (hs_nfc sha) b" "json (hs_nfc sha) (ar_record r)" "canon (hs_nfc sha) b = canon (hs_nfc sha) (ar_record r)"
    by (auto simp: stored_as_def)
  have "chain_hash sha p b = chain_hash sha p (ar_record r)" by (rule chain_hash_canon[OF b(2-4)])
  then show ?case using Cons.IH b by simp
qed simp

lemma insert_rows_spec:
  assumes "stores_json sha dump jsonb" "map ar_record rows = map dump recs" "insert_rows jsonb rows h db = Inr db'"
  shows "\<exists>stored. ad_rows db' = ad_rows db @ stored \<and> list_all2 (stored_as sha) rows stored
           \<and> ad_head db' = Some h \<and> distinct (map ar_decision_id (ad_rows db'))"
proof -
  from assms(3) obtain stored where t: "traverseE (\<lambda>r. case jsonb (ar_record r) of None \<Rightarrow> Inl DataError
        | Some b \<Rightarrow> if hash_fits r then Inr (r\<lparr>ar_record := b\<rparr>) else Inl DataError) rows = Inr stored"
    and db': "db' = \<lparr>ad_rows = ad_rows db @ stored, ad_head = Some h\<rparr>"
      "distinct (map ar_decision_id (ad_rows db @ stored))"
    by (auto simp: insert_rows_def Let_def split: if_splits)
  have dumped: "\<exists>x. ar_record r = dump x" if "r \<in> set rows" for r
  proof -
    have "ar_record r \<in> set (map dump recs)" using that unfolding assms(2)[symmetric] by simp
    then show ?thesis by auto
  qed
  have "stored_as sha r r'" if "r \<in> set rows" "(case jsonb (ar_record r) of None \<Rightarrow> Inl DataError
      | Some b \<Rightarrow> if hash_fits r then Inr (r\<lparr>ar_record := b\<rparr>) else Inl DataError) = Inr r'" for r r'
    using that(2) dumped[OF that(1)] assms(1)
    by (auto simp: stored_as_def stores_json_def split: option.splits if_splits)
  then have "list_all2 (stored_as sha) rows stored"
    by (intro list.rel_mono_strong[OF t[unfolded traverseE_Inr_iff]]) blast
  then show ?thesis using db' by auto
qed

lemma append_spec:
  assumes "stores_json sha dump jsonb" "chain_inv sha db" "append_records sha dump jsonb stamped recs db = Inr (hs, db')"
  shows "chain_inv sha db' \<and>
    (\<exists>new. ad_rows db' = ad_rows db @ new \<and> hs = map ar_record_hash new
       \<and> map ar_decision_id new
           = filter (\<lambda>d. d \<notin> set (map ar_decision_id (ad_rows db))) (map decision_id recs)
       \<and> map (\<lambda>r. canon (hs_nfc sha) (ar_record r)) new
           = map (\<lambda>r. canon (hs_nfc sha) (dump r)) (filter (\<lambda>r. decision_id r \<notin> set (map ar_decision_id (ad_rows db))) recs))"
proof (cases "recs = []")
  case True
  then show ?thesis using assms by (simp add: append_records_def)
next
  case False
  let ?ids = "set (map ar_decision_id (ad_rows db))" and ?n = "int (length (ad_rows db))"
  let ?lh = "last_link None (ad_rows db)"
  let ?ex = "set (filter (\<lambda>d. d \<in> set (map decision_id recs)) (map ar_decision_id (ad_rows db)))"
  have inv: "linked sha None 0 (ad_rows db)" "list_all (\<lambda>r. json (hs_nfc sha) (ar_record r)) (ad_rows db)"
    "head_row db = \<lparr>ch_last_seq = ?n, ch_last_hash = ?lh\<rparr>"
    using assms(2) by (simp_all add: chain_inv_def)
  have "\<And>r. json (hs_nfc sha) (dump r)" using assms(1) by (simp add: stores_json_def)
  from append_loop_spec[of sha dump stamped ?ex ?n ?lh recs, OF this] obtain rows where rows:
    "append_loop sha dump stamped ?ex ?n ?lh recs = Inr (rows, ?n + int (length rows), last_link ?lh rows)"
    "linked sha ?lh ?n rows" "map ar_decision_id rows = filter (\<lambda>d. d \<notin> ?ex) (map decision_id recs)"
    "map ar_record rows = map dump (filter (\<lambda>r. decision_id r \<notin> ?ex) recs)"
    by blast
  from assms(3) False inv(3) rows(1) have ins:
    "insert_rows jsonb rows \<lparr>ch_last_seq = ?n + int (length rows), ch_last_hash = last_link ?lh rows\<rparr> db = Inr db'"
    and hs: "hs = map ar_record_hash rows"
    by (simp_all add: append_records_def Let_def)
  from insert_rows_spec[OF assms(1) rows(4) ins] obtain new where new: "ad_rows db' = ad_rows db @ new"
    "list_all2 (stored_as sha) rows new" "distinct (map ar_decision_id (ad_rows db'))"
    "ad_head db' = Some \<lparr>ch_last_seq = ?n + int (length rows), ch_last_hash = last_link ?lh rows\<rparr>"
    by blast
  note same = stored_rows[OF new(2)] and len = list_all2_lengthD[OF new(2)]
  have last: "last_link None (ad_rows db @ new) = last_link ?lh new" by (simp add: last_link_def)
  have "linked sha None 0 (ad_rows db')" using inv(1) same rows(2) new(1) by (simp add: linked_append)
  moreover have "list_all (\<lambda>r. json (hs_nfc sha) (ar_record r)) (ad_rows db')" using inv(2) same new(1) by simp
  moreover have "head_row db' = \<lparr>ch_last_seq = int (length (ad_rows db')), ch_last_hash = last_link None (ad_rows db')\<rparr>"
    using same new(1,4) len last by (simp add: head_row_def)
  ultimately have "chain_inv sha db'" using new(3) by (simp only: chain_inv_def)
  moreover have "filter (\<lambda>d. d \<notin> ?ex) (map decision_id recs) = filter (\<lambda>d. d \<notin> ?ids) (map decision_id recs)"
    "filter (\<lambda>r. decision_id r \<notin> ?ex) recs = filter (\<lambda>r. decision_id r \<notin> ?ids) recs"
    by (auto intro!: filter_cong)
  moreover have "map (\<lambda>r. canon (hs_nfc sha) (ar_record r)) rows
      = map (\<lambda>r. canon (hs_nfc sha) (dump r)) (filter (\<lambda>r. decision_id r \<notin> ?ex) recs)"
    using arg_cong[OF rows(4), of "map (canon (hs_nfc sha))"] by (simp add: o_def)
  ultimately show ?thesis using new(1) hs same rows(3) by metis
qed

text \<open>The tables the code can reach: appends of any batches, from the empty tables.\<close>

definition empty_audit :: audit_db where
  "empty_audit = \<lparr>ad_rows = [], ad_head = None\<rparr>"

inductive audit_reachable ::
  "hasher \<Rightarrow> (decision_record \<Rightarrow> pvalue) \<Rightarrow> (pvalue \<Rightarrow> pvalue option) \<Rightarrow> audit_db \<Rightarrow> bool"
  for sha dump jsonb where
  start: "audit_reachable sha dump jsonb empty_audit"
| append: "audit_reachable sha dump jsonb db \<Longrightarrow> append_records sha dump jsonb stamped recs db = Inr (hs, db')
    \<Longrightarrow> audit_reachable sha dump jsonb db'"

lemma reachable_inv:
  "audit_reachable sha dump jsonb db \<Longrightarrow> stores_json sha dump jsonb \<Longrightarrow> chain_inv sha db"
proof (induction rule: audit_reachable.induct)
  case start
  then show ?case by (simp add: chain_inv_def empty_audit_def head_row_def)
next
  case append
  then show ?case using append_spec by blast
qed

section \<open>When an append succeeds\<close>

lemma chain_hash_sha: "chain_hash sha p r = Inr h \<Longrightarrow> h \<in> range (hs_sha sha)"
  by (auto simp: chain_hash_def hash_object_def)

lemma linked_rows_ok:
  "linked sha p s rows \<Longrightarrow> (s = 0 \<longleftrightarrow> p = None) \<Longrightarrow> 0 \<le> s \<Longrightarrow> list_all audit_row_ok rows"
  by (induction rows arbitrary: p s) (force simp: audit_row_ok_def)+

lemma linked_hash_fits:
  assumes "\<forall>b. length (hs_sha sha b) = 64"
  shows "linked sha p s rows \<Longrightarrow> (case p of None \<Rightarrow> True | Some h \<Rightarrow> length h \<le> 64) \<Longrightarrow> list_all hash_fits rows"
proof (induction rows arbitrary: p s)
  case (Cons r rows)
  then have "length (ar_record_hash r) = 64" using chain_hash_sha assms by fastforce
  moreover from this have "list_all hash_fits rows"
    using Cons.IH[of "Some (ar_record_hash r)" "s + 1"] Cons.prems(1) by simp
  moreover have "hash_fits r" using Cons.prems \<open>length (ar_record_hash r) = 64\<close> by (simp add: hash_fits_def)
  ultimately show ?case by simp
qed simp

lemma last_link_fits:
  assumes "\<forall>b. length (hs_sha sha b) = 64" "linked sha None s rows"
  shows "case last_link None rows of None \<Rightarrow> True | Some h \<Rightarrow> length h \<le> 64"
proof (cases rows rule: rev_cases)
  case (snoc ys r)
  then have "hash_fits r" using linked_hash_fits[OF assms] by simp
  then show ?thesis using snoc by (simp add: hash_fits_def)
qed simp

lemma linked_seqs_disjoint:
  assumes "linked sha None 0 xs" "linked sha p (int (length xs)) ys"
  shows "distinct (map ar_seq (xs @ ys))"
  using linked_seqs[OF assms(1)] linked_seqs[OF assms(2)] by (auto simp flip: set_map simp: distinct_map)

lemma insert_rows_ok:
  assumes "\<forall>b. length (hs_sha sha b) = 64" "chain_inv sha db"
    "linked sha (last_link None (ad_rows db)) (int (length (ad_rows db))) rows" "0 \<le> ch_last_seq h"
    and storable: "\<forall>r \<in> set rows. jsonb (ar_record r) \<noteq> None"
  shows "insert_rows jsonb rows h db =
    (if distinct (map ar_decision_id (ad_rows db @ rows))
     then Inr \<lparr>ad_rows = ad_rows db @ map (\<lambda>r. r\<lparr>ar_record := the (jsonb (ar_record r))\<rparr>) rows, ad_head = Some h\<rparr>
     else Inl IntegrityError)"
proof -
  let ?stored = "map (\<lambda>r. r\<lparr>ar_record := the (jsonb (ar_record r))\<rparr>) rows"
  have l: "linked sha None 0 (ad_rows db)" using assms(2) by (simp add: chain_inv_def)
  have fits: "list_all hash_fits rows"
    by (rule linked_hash_fits[OF assms(1,3) last_link_fits[OF assms(1) l]])
  have "traverseE (\<lambda>r. case jsonb (ar_record r) of None \<Rightarrow> Inl DataError
      | Some b \<Rightarrow> if hash_fits r then Inr (r\<lparr>ar_record := b\<rparr>) else Inl DataError) rows = Inr ?stored"
    using storable fits by (intro traverseE_ok) (force simp: list_all_iff)
  moreover have "list_all audit_row_ok rows"
    using assms(3) by (rule linked_rows_ok) (auto simp: last_link_def)
  then have "list_all audit_row_ok ?stored" by (simp add: list_all_iff audit_row_ok_def)
  moreover have "map ar_seq (ad_rows db @ ?stored) = map ar_seq (ad_rows db @ rows)"
    "map ar_decision_id (ad_rows db @ ?stored) = map ar_decision_id (ad_rows db @ rows)" by simp_all
  ultimately show ?thesis using linked_seqs_disjoint[OF l assms(3)] assms(4)
    by (simp only: insert_rows_def bindE.simps Let_def) simp
qed

lemma append_ok:
  assumes "stores_json sha dump jsonb" "\<forall>b. length (hs_sha sha b) = 64" "chain_inv sha db" "recs \<noteq> []"
    and storable: "\<And>r. r \<in> set recs \<Longrightarrow> jsonb (dump r) \<noteq> None"
  shows "(\<exists>e. append_records sha dump jsonb stamped recs db = Inl e) \<longleftrightarrow>
      \<not> distinct (filter (\<lambda>d. d \<notin> set (map ar_decision_id (ad_rows db))) (map decision_id recs))"
    and "append_records sha dump jsonb stamped recs db = Inl e \<Longrightarrow> e = IntegrityError"
proof -
  let ?n = "int (length (ad_rows db))" and ?lh = "last_link None (ad_rows db)"
  let ?ids = "map ar_decision_id (ad_rows db)"
  let ?ex = "set (filter (\<lambda>d. d \<in> set (map decision_id recs)) ?ids)"
  have dumps: "\<And>r. json (hs_nfc sha) (dump r)" using assms(1) by (simp add: stores_json_def)
  have head: "head_row db = \<lparr>ch_last_seq = ?n, ch_last_hash = ?lh\<rparr>" using assms(3) by (simp add: chain_inv_def)
  from append_loop_spec[of sha dump stamped ?ex ?n ?lh recs, OF dumps] obtain rows where rows:
    "append_loop sha dump stamped ?ex ?n ?lh recs = Inr (rows, ?n + int (length rows), last_link ?lh rows)"
    "linked sha ?lh ?n rows" "map ar_decision_id rows = filter (\<lambda>d. d \<notin> ?ex) (map decision_id recs)"
    "map ar_record rows = map dump (filter (\<lambda>r. decision_id r \<notin> ?ex) recs)"
    by blast
  have "jsonb (ar_record r) \<noteq> None" if "r \<in> set rows" for r
  proof -
    have "ar_record r \<in> set (map dump (filter (\<lambda>r. decision_id r \<notin> ?ex) recs))"
      using that unfolding rows(4)[symmetric] by simp
    then show ?thesis using storable by auto
  qed
  then have "\<forall>r \<in> set rows. jsonb (ar_record r) \<noteq> None" by blast
  then have ins: "insert_rows jsonb rows \<lparr>ch_last_seq = ?n + int (length rows), ch_last_hash = last_link ?lh rows\<rparr> db
      = (if distinct (map ar_decision_id (ad_rows db @ rows))
         then Inr \<lparr>ad_rows = ad_rows db @ map (\<lambda>r. r\<lparr>ar_record := the (jsonb (ar_record r))\<rparr>) rows,
                   ad_head = Some \<lparr>ch_last_seq = ?n + int (length rows), ch_last_hash = last_link ?lh rows\<rparr>\<rparr>
         else Inl IntegrityError)"
    by (intro insert_rows_ok[OF assms(2,3) rows(2)]) simp_all
  have run: "append_records sha dump jsonb stamped recs db =
      bindE (insert_rows jsonb rows \<lparr>ch_last_seq = ?n + int (length rows), ch_last_hash = last_link ?lh rows\<rparr> db)
        (\<lambda>db'. Inr (map ar_record_hash rows, db'))"
    using assms(4) head rows(1) by (simp add: append_records_def Let_def)
  have "filter (\<lambda>d. d \<notin> ?ex) (map decision_id recs) = filter (\<lambda>d. d \<notin> set ?ids) (map decision_id recs)"
    by (auto intro!: filter_cong)
  then have ids: "map ar_decision_id rows = filter (\<lambda>d. d \<notin> set ?ids) (map decision_id recs)" using rows(3) by simp
  have "distinct ?ids" using assms(3) by (simp add: chain_inv_def)
  then have dup: "distinct (map ar_decision_id (ad_rows db @ rows)) \<longleftrightarrow>
      distinct (filter (\<lambda>d. d \<notin> set ?ids) (map decision_id recs))"
    unfolding map_append ids by auto
  show "(\<exists>e. append_records sha dump jsonb stamped recs db = Inl e) \<longleftrightarrow>
      \<not> distinct (filter (\<lambda>d. d \<notin> set ?ids) (map decision_id recs))"
    unfolding run dup[symmetric] using ins by simp
  show "append_records sha dump jsonb stamped recs db = Inl e \<Longrightarrow> e = IntegrityError"
    unfolding run using ins by (simp split: if_splits)
qed

section \<open>Tampering\<close>

text \<open>The bytes a table's links are hashed over.\<close>

definition link_bytes :: "hasher \<Rightarrow> audit_row list \<Rightarrow> string set" where
  "link_bytes sha rs = {b. \<exists>r \<in> set rs. canonical_json (hs_nfc sha) (link_value (ar_prev_hash r) (ar_record r)) = Inr b}"

lemma same_link:
  assumes "json (hs_nfc sha) (ar_record x)" "json (hs_nfc sha) (ar_record y)" "inj_on (hs_sha sha) (link_bytes sha [x, y])"
    "chain_hash sha (ar_prev_hash x) (ar_record x) = chain_hash sha (ar_prev_hash y) (ar_record y)"
  shows "map_option (nfc (hs_nfc sha)) (ar_prev_hash x) = map_option (nfc (hs_nfc sha)) (ar_prev_hash y)
    \<and> canon (hs_nfc sha) (ar_record x) = canon (hs_nfc sha) (ar_record y)"
proof -
  obtain b where b: "canonical_json (hs_nfc sha) (link_value (ar_prev_hash x) (ar_record x)) = Inr b"
    using canonical_json_ok[of "hs_nfc sha" "link_value (ar_prev_hash x) (ar_record x)"] assms(1) by simp
  obtain c where c: "canonical_json (hs_nfc sha) (link_value (ar_prev_hash y) (ar_record y)) = Inr c"
    using canonical_json_ok[of "hs_nfc sha" "link_value (ar_prev_hash y) (ar_record y)"] assms(2) by simp
  have "hs_sha sha b = hs_sha sha c" using assms(4) b c by (simp add: chain_hash_def hash_object_def)
  moreover have "b \<in> link_bytes sha [x, y]" "c \<in> link_bytes sha [x, y]" using b c by (simp_all add: link_bytes_def)
  ultimately have "b = c" using inj_onD[OF assms(3)] by blast
  then have "canonical_json (hs_nfc sha) (link_value (ar_prev_hash x) (ar_record x))
      = canonical_json (hs_nfc sha) (link_value (ar_prev_hash y) (ar_record y))" using b c by (simp only:)
  then have "canon (hs_nfc sha) (link_value (ar_prev_hash x) (ar_record x)) = canon (hs_nfc sha) (link_value (ar_prev_hash y) (ar_record y))"
    by (subst (asm) canonical_json_inj) (simp_all only: json_link assms(1,2))
  then show ?thesis by (simp only: canon_link)
qed

lemma linked_snoc:
  "linked sha None 0 (xs @ [x]) \<longleftrightarrow>
     linked sha None 0 xs \<and> ar_seq x = int (length xs) + 1 \<and> ar_prev_hash x = last_link None xs
     \<and> chain_hash sha (last_link None xs) (ar_record x) = Inr (ar_record_hash x)"
  by (auto simp: linked_append)

text \<open>A hash is hex digits, so the one a row names is its own normal form.\<close>

lemma linked_prev:
  assumes "linked sha None 0 xs" "\<forall>b. ascii_text (hs_sha sha b)" shows "map_option (nfc (hs_nfc sha)) (last_link None xs) = last_link None xs"
proof (cases xs rule: rev_cases)
  case (snoc ys r)
  then have "ar_record_hash r \<in> range (hs_sha sha)" using assms(1) chain_hash_sha by (simp add: linked_append) blast
  then show ?thesis using snoc assms(2) nfc_ascii by auto
qed simp

text \<open>
  What a link pins of a row: its number, its body up to key order and normalization of texts, and the
  two hashes.  The columns \<open>decision_id\<close> and \<open>created_at\<close> are in no link.
\<close>

definition row_content :: "hasher \<Rightarrow> audit_row \<Rightarrow> int \<times> pvalue \<times> string option \<times> string" where
  "row_content sha r = (ar_seq r, canon (hs_nfc sha) (ar_record r), ar_prev_hash r, ar_record_hash r)"

definition relabel :: "(audit_row \<Rightarrow> uuid) \<Rightarrow> (audit_row \<Rightarrow> instant) \<Rightarrow> audit_row \<Rightarrow> audit_row" where
  "relabel f g r = r\<lparr>ar_decision_id := f r, ar_created_at := g r\<rparr>"

lemma relabelled [simp]:
  "ar_seq (relabel f g r) = ar_seq r" "ar_record (relabel f g r) = ar_record r"
  "ar_prev_hash (relabel f g r) = ar_prev_hash r" "ar_record_hash (relabel f g r) = ar_record_hash r"
  by (simp_all add: relabel_def)

lemma verify_relabelled: "verify_chain sha (db\<lparr>ad_rows := map (relabel f g) (ad_rows db)\<rparr>) = verify_chain sha db"
proof -
  have rows: "verify_rows sha p s (map (relabel f g) rs) = verify_rows sha p s rs" for p s rs
    by (induction rs arbitrary: p s) (simp_all cong: if_cong)
  have ordered: "ordered_rows (db\<lparr>ad_rows := map (relabel f g) (ad_rows db)\<rparr>) = map (relabel f g) (ordered_rows db)"
    by (simp add: ordered_rows_def sort_key_map)
  have highest: "highest_seq (db\<lparr>ad_rows := map (relabel f g) (ad_rows db)\<rparr>) = highest_seq db"
    by (simp add: highest_seq_def o_def)
  have "head_row (db\<lparr>ad_rows := rs\<rparr>) = head_row db" for rs by (simp add: head_row_def)
  then show ?thesis unfolding verify_chain_def ordered rows highest by (simp only:)
qed

lemma linked_same_head:
  assumes "\<forall>b. ascii_text (hs_sha sha b)" "linked sha None 0 xs" "linked sha None 0 ys" "last_link None xs = last_link None ys"
    "inj_on (hs_sha sha) (link_bytes sha (xs @ ys))" "\<forall>r \<in> set (xs @ ys). json (hs_nfc sha) (ar_record r)"
  shows "map (row_content sha) xs = map (row_content sha) ys"
  using assms
proof (induction xs arbitrary: ys rule: rev_induct)
  case Nil
  then show ?case by (cases ys rule: rev_cases) simp_all
next
  case (snoc x xs)
  then obtain ys' y where ys: "ys = ys' @ [y]" by (cases ys rule: rev_cases) simp_all
  have sub: "link_bytes sha [x, y] \<subseteq> link_bytes sha ((xs @ [x]) @ ys)" "link_bytes sha (xs @ ys') \<subseteq> link_bytes sha ((xs @ [x]) @ ys)"
    unfolding ys link_bytes_def by auto
  have hash: "ar_record_hash x = ar_record_hash y" using snoc.prems(4) ys by simp
  have x: "ar_prev_hash x = last_link None xs" "chain_hash sha (ar_prev_hash x) (ar_record x) = Inr (ar_record_hash x)"
    and y: "ar_prev_hash y = last_link None ys'" "chain_hash sha (ar_prev_hash y) (ar_record y) = Inr (ar_record_hash y)"
    using snoc.prems(2,3) unfolding ys linked_snoc by simp_all
  have "map_option (nfc (hs_nfc sha)) (ar_prev_hash x) = map_option (nfc (hs_nfc sha)) (ar_prev_hash y)
      \<and> canon (hs_nfc sha) (ar_record x) = canon (hs_nfc sha) (ar_record y)"
  proof (rule same_link)
    show "json (hs_nfc sha) (ar_record x)" "json (hs_nfc sha) (ar_record y)" using snoc.prems(6) ys by simp_all
    show "inj_on (hs_sha sha) (link_bytes sha [x, y])" by (rule inj_on_subset[OF snoc.prems(5) sub(1)])
    show "chain_hash sha (ar_prev_hash x) (ar_record x) = chain_hash sha (ar_prev_hash y) (ar_record y)"
      using x(2) y(2) hash by (simp only:)
  qed
  then have same: "ar_prev_hash x = ar_prev_hash y \<and> canon (hs_nfc sha) (ar_record x) = canon (hs_nfc sha) (ar_record y)"
    using linked_prev[OF _ snoc.prems(1)] snoc.prems(2,3) x y unfolding ys linked_snoc by metis
  have before: "map (row_content sha) xs = map (row_content sha) ys'"
    by (rule snoc.IH)
      (use snoc.prems(1-3,6) ys same x y inj_on_subset[OF snoc.prems(5) sub(2)] in \<open>simp_all add: linked_snoc\<close>)
  then have "length xs = length ys'" by (metis length_map)
  then have "ar_seq x = ar_seq y" using snoc.prems(2,3) unfolding ys linked_snoc by simp
  then have "row_content sha x = row_content sha y" using same hash by (simp add: row_content_def)
  then show ?case using before ys by simp
qed

lemma verify_rows_prefix:
  "linked sha p s xs \<Longrightarrow>
     verify_rows sha p s (xs @ zs) = verify_rows sha (last_link p xs) (s + int (length xs)) zs"
  by (induction xs arbitrary: p s) (simp_all add: algebra_simps)

lemma ordered_if_sorted: "sorted (map ar_seq (ad_rows db)) \<Longrightarrow> ordered_rows db = ad_rows db"
  by (simp add: ordered_rows_def sort_key_id_if_sorted)

lemma verify_break:
  assumes "sorted (map ar_seq (ad_rows db))" "ad_rows db = xs @ zs" "linked sha None 0 xs"
    "verify_rows sha (last_link None xs) (int (length xs)) zs = Inr (Inl v)"
  shows "verify_chain sha db = Inr v"
  using assms verify_rows_prefix[of sha None 0 xs zs] by (simp add: verify_chain_def ordered_if_sorted)

section \<open>Properties\<close>

text \<open>
  Every audit table the code can write verifies.  After any sequence of appended batches,
  \<open>verify_chain\<close> reports the chain intact over all of its rows, no decision is in it twice, and
  the head carries the hash of its last row.  The body of a row is what \<open>JSONB\<close> hands back, so
  this holds although the column reorders a body's keys.
\<close>

theorem audit_chain_verifies:
  assumes "stores_json sha dump jsonb" "audit_reachable sha dump jsonb db"
  shows "verify_chain sha db =
      Inr \<lparr>cv_ok = True, cv_checked = int (length (ad_rows db)), cv_first_bad_seq = None, cv_detail = None\<rparr>
    \<and> distinct (map ar_decision_id (ad_rows db))
    \<and> ch_last_hash (head_row db) = last_link None (ad_rows db)"
  using reachable_inv[OF assms(2,1)] by (simp add: chain_inv_def verify_linked)

text \<open>
  A batch is appended exactly once.  On a reachable table an append of bodies the database can
  store fails only when the batch repeats a new decision id, and then as a whole with an integrity
  error; when it succeeds it adds, in order and at the end, one row per record that was not there
  yet, whose body is the record's, and returns their hashes.
\<close>

theorem append_exactly_once:
  assumes "stores_json sha dump jsonb" "\<forall>b. length (hs_sha sha b) = 64" "audit_reachable sha dump jsonb db"
    "recs \<noteq> []" "\<forall>r \<in> set recs. jsonb (dump r) \<noteq> None"
  shows "case append_records sha dump jsonb stamped recs db of
      Inl e \<Rightarrow> e = IntegrityError \<and>
        \<not> distinct (filter (\<lambda>d. d \<notin> set (map ar_decision_id (ad_rows db))) (map decision_id recs))
    | Inr (hs, db') \<Rightarrow>
        distinct (filter (\<lambda>d. d \<notin> set (map ar_decision_id (ad_rows db))) (map decision_id recs)) \<and>
        (\<exists>new. ad_rows db' = ad_rows db @ new \<and> hs = map ar_record_hash new
           \<and> map ar_decision_id new = filter (\<lambda>d. d \<notin> set (map ar_decision_id (ad_rows db))) (map decision_id recs)
           \<and> map (\<lambda>r. canon (hs_nfc sha) (ar_record r)) new
             = map (\<lambda>r. canon (hs_nfc sha) (dump r)) (filter (\<lambda>r. decision_id r \<notin> set (map ar_decision_id (ad_rows db))) recs))"
proof -
  note inv = reachable_inv[OF assms(3,1)]
  have st: "\<And>r. r \<in> set recs \<Longrightarrow> jsonb (dump r) \<noteq> None" using assms(5) by blast
  note ok = append_ok[OF assms(1,2) inv assms(4) st, where stamped = stamped]
  show ?thesis
  proof (cases "append_records sha dump jsonb stamped recs db")
    case (Inl e)
    then show ?thesis using ok(1) ok(2)[OF _ Inl] by simp
  next
    case (Inr x)
    obtain hs db' where x: "x = (hs, db')" by (cases x)
    show ?thesis using append_spec[OF assms(1) inv Inr[unfolded x]] ok(1) Inr x by simp
  qed
qed

text \<open>
  C7: The chain is tamper-evident.  Two tables that both verify and end in the same hash hold the
  same links: row for row the same number, the same body up to key order and Unicode normalization,
  and the same previous and own hash.  The premises: SHA-256 prints hex digits and has no collision
  among the links of the two, and bodies are JSON with keys that stay distinct when normalized.  A
  head hash written down elsewhere thus pins every record.  The columns \<open>decision_id\<close> and
  \<open>created_at\<close> lie outside the chain: \<open>verify_chain\<close> answers the same whatever they hold.
\<close>

theorem audit_chain_tamper_evident:
  assumes "verify_chain sha db = Inr v" "cv_ok v" "verify_chain sha db' = Inr v'" "cv_ok v'"
    "last_link None (ordered_rows db) = last_link None (ordered_rows db')"
    "inj_on (hs_sha sha) (link_bytes sha (ordered_rows db @ ordered_rows db'))" "\<forall>b. ascii_text (hs_sha sha b)"
    "\<forall>r \<in> set (ordered_rows db @ ordered_rows db'). json (hs_nfc sha) (ar_record r)"
  shows "map (row_content sha) (ordered_rows db) = map (row_content sha) (ordered_rows db')
    \<and> verify_chain sha (db\<lparr>ad_rows := map (relabel f g) (ad_rows db)\<rparr>) = verify_chain sha db"
proof
  have "linked sha None 0 (ordered_rows db)" "linked sha None 0 (ordered_rows db')"
    using assms(1-4) verify_chain_ok_iff by blast+
  then show "map (row_content sha) (ordered_rows db) = map (row_content sha) (ordered_rows db')"
    using assms(5-8) linked_same_head by blast
qed (rule verify_relabelled)

text \<open>
  A tampered record is located.  In a reachable table, replacing one body by a different one
  is reported at that row with every row before it checked, and deleting a row is reported at the
  gap it leaves, or as a truncation at its own number when it was the newest, given that SHA-256
  tells the two bodies apart.
\<close>

theorem tampering_is_located:
  assumes "stores_json sha dump jsonb" "audit_reachable sha dump jsonb db" "ad_rows db = xs @ r # ys"
    "json (hs_nfc sha) b" "canon (hs_nfc sha) b \<noteq> canon (hs_nfc sha) (ar_record r)" "inj_on (hs_sha sha) (link_bytes sha [r, r\<lparr>ar_record := b\<rparr>])"
  shows "verify_chain sha (db\<lparr>ad_rows := xs @ r\<lparr>ar_record := b\<rparr> # ys\<rparr>)
      = Inr (broken_at (int (length xs)) (int (length xs) + 1) RecordAltered)
    \<and> verify_chain sha (db\<lparr>ad_rows := xs @ ys\<rparr>)
      = Inr (if ys = [] then broken_at (int (length xs)) (int (length xs) + 1) ChainTruncated
             else broken_at (int (length xs)) (int (length xs) + 2) SequenceJump)"
proof
  have inv: "linked sha None 0 (xs @ r # ys)" "json (hs_nfc sha) (ar_record r)"
      "ch_last_seq (head_row db) = int (length xs + Suc (length ys))"
    using reachable_inv[OF assms(2,1)] assms(3) by (simp_all add: chain_inv_def)
  have xs: "linked sha None 0 xs" and r: "ar_seq r = int (length xs) + 1" "ar_prev_hash r = last_link None xs"
      "chain_hash sha (last_link None xs) (ar_record r) = Inr (ar_record_hash r)"
    and ys: "linked sha (Some (ar_record_hash r)) (int (length xs) + 1) ys"
    using inv(1) by (simp_all add: linked_append)
  have sorted: "sorted (map ar_seq (xs @ r # ys))" using linked_seqs[OF inv(1)] by simp
  obtain h where h: "chain_hash sha (last_link None xs) b = Inr h" using chain_hash_ok assms(4) by blast
  have "h \<noteq> ar_record_hash r"
    using same_link[of sha r "r\<lparr>ar_record := b\<rparr>"] inv(2) assms(4-6) r h by auto
  then have "verify_rows sha (last_link None xs) (int (length xs)) (r\<lparr>ar_record := b\<rparr> # ys)
      = Inr (Inl (broken_at (int (length xs)) (int (length xs) + 1) RecordAltered))" using r h by simp
  then show "verify_chain sha (db\<lparr>ad_rows := xs @ r\<lparr>ar_record := b\<rparr> # ys\<rparr>)
      = Inr (broken_at (int (length xs)) (int (length xs) + 1) RecordAltered)"
    by (intro verify_break[where xs = xs and zs = "r\<lparr>ar_record := b\<rparr> # ys"]) (use sorted xs in simp_all)
  show "verify_chain sha (db\<lparr>ad_rows := xs @ ys\<rparr>)
      = Inr (if ys = [] then broken_at (int (length xs)) (int (length xs) + 1) ChainTruncated
             else broken_at (int (length xs)) (int (length xs) + 2) SequenceJump)"
  proof (cases ys)
    case Nil
    let ?d = "db\<lparr>ad_rows := xs\<rparr>"
    have "verify_rows sha None 0 (ordered_rows ?d) = Inr (Inr (int (length xs)))"
      using xs by (simp add: linked_ordered verify_rows_linked)
    moreover have "highest_seq ?d = int (length xs)" using linked_highest[of sha ?d] xs by simp
    ultimately show ?thesis using Nil inv(3) by (simp add: verify_chain_def head_row_def)
  next
    case (Cons y ys')
    then have "ar_seq y = int (length xs) + 2" using ys by simp
    then have "verify_rows sha (last_link None xs) (int (length xs)) ys
        = Inr (Inl (broken_at (int (length xs)) (int (length xs) + 2) SequenceJump))" using Cons by simp
    then show ?thesis
      using verify_break[where xs = xs and zs = ys and db = "db\<lparr>ad_rows := xs @ ys\<rparr>"] sorted xs Cons
      by (simp add: sorted_append)
  qed
qed

text \<open>
  Two things \<open>verify_chain\<close> does not report.  A body altered to hold a float is not located:
  the recomputation raises \<open>CanonicalizationError\<close>.  And the hash in the head row is never
  compared, so a newest row rewritten together with its own hash verifies, although the head
  still holds the hash of the row it replaced.
\<close>

theorem verify_chain_blind_spots:
  assumes "stores_json sha dump jsonb" "audit_reachable sha dump jsonb db" "ad_rows db = xs @ r # ys"
    "json (hs_nfc sha) b" "chain_hash sha (ar_prev_hash r) b = Inr h" "h \<noteq> ar_record_hash r"
  shows "verify_chain sha (db\<lparr>ad_rows := xs @ r\<lparr>ar_record := PyMap [(k, PyFloat)]\<rparr> # ys\<rparr>) = Inl CanonicalizationError
    \<and> (ys = [] \<longrightarrow>
        verify_chain sha (db\<lparr>ad_rows := xs @ [r\<lparr>ar_record := b, ar_record_hash := h\<rparr>]\<rparr>)
          = Inr \<lparr>cv_ok = True, cv_checked = int (length xs) + 1, cv_first_bad_seq = None, cv_detail = None\<rparr>
        \<and> ch_last_hash (head_row (db\<lparr>ad_rows := xs @ [r\<lparr>ar_record := b, ar_record_hash := h\<rparr>]\<rparr>)) \<noteq> Some h)"
proof -
  have inv: "linked sha None 0 (xs @ r # ys)"
      "head_row db = \<lparr>ch_last_seq = int (length xs + Suc (length ys)), ch_last_hash = last_link None (xs @ r # ys)\<rparr>"
    using reachable_inv[OF assms(2,1)] assms(3) by (simp_all add: chain_inv_def)
  have xs: "linked sha None 0 xs" and r: "ar_seq r = int (length xs) + 1" "ar_prev_hash r = last_link None xs"
    using inv(1) by (simp_all add: linked_append)
  let ?d = "db\<lparr>ad_rows := xs @ r\<lparr>ar_record := PyMap [(k, PyFloat)]\<rparr> # ys\<rparr>"
  have "sorted (map ar_seq (ad_rows ?d))" using linked_seqs[OF inv(1)] by simp
  then have "ordered_rows ?d = ad_rows ?d" by (rule ordered_if_sorted)
  moreover have "chain_hash sha p (PyMap [(k, PyFloat)]) = Inl CanonicalizationError" for p
    by (cases p) (simp_all add: chain_hash_def hash_object_def canonical_json_def link_value_def sort_link sort_one del: sort_items.simps)
  ultimately have "verify_chain sha ?d = Inl CanonicalizationError"
    using verify_rows_prefix[OF xs] r by (simp add: verify_chain_def)
  moreover
  let ?e = "db\<lparr>ad_rows := xs @ [r\<lparr>ar_record := b, ar_record_hash := h\<rparr>]\<rparr>"
  have head: "head_row ?e = head_row db" by (simp add: head_row_def)
  have "ys = [] \<Longrightarrow> verify_chain sha ?e
      = Inr \<lparr>cv_ok = True, cv_checked = int (length xs) + 1, cv_first_bad_seq = None, cv_detail = None\<rparr>"
    by (subst verify_linked) (use xs r assms(5) head inv(2) in \<open>simp_all add: linked_append\<close>)
  moreover have "ys = [] \<Longrightarrow> ch_last_hash (head_row ?e) \<noteq> Some h" using inv(2) assms(6) head by simp
  ultimately show ?thesis by blast
qed

section \<open>Witnesses\<close>

definition demo_record :: "nat \<Rightarrow> decision_record" where
  "demo_record k =
     \<lparr>decision_id = k, trace_id = ''t'', timestamp = 0, pep_id = ''p'', token_chain_ids = [],
      dr_principal_id = ''u'', dr_task_id = 2, dr_agent_id = ''a'', dr_role = [], dr_depth = 0,
      dr_scope = ''s'', dr_tool_id = ''s'', arg_digest = [], dr_outcome = ALLOW, dr_reason_code = OK,
      dr_reason_detail = [], dr_failing_caveat = None, dr_policy_version = ''v'',
      budget_before = demo_budget, budget_after = demo_budget, dr_reservation_id = None,
      dr_drift_score = None, dr_drift_features = None, latency_us = 0, elevated_by = None, authority = None\<rparr>"

definition demo_dump :: "decision_record \<Rightarrow> pvalue" where
  "demo_dump r = PyMap [(''scope'', PyStr (dr_scope r)), (''decision'', PyStr (nat_str (decision_id r)))]"

text \<open>A column that sorts the keys it stores.\<close>

definition demo_jsonb :: "pvalue \<Rightarrow> pvalue option" where
  "demo_jsonb v = Some (canon latin_nfc v)"

text \<open>A stand-in for SHA-256 that tells one link from all others.\<close>

definition demo_sha :: hasher where
  "demo_sha =
     \<lparr>hs_nfc = latin_nfc,
      hs_sha = \<lambda>b. replicate 64 (if canonical_json latin_nfc (link_value None PyNone) = Inr b then CHR ''1'' else CHR ''0'')\<rparr>"

lemma demo_sha_nfc [simp]: "hs_nfc demo_sha = latin_nfc"
  by (simp add: demo_sha_def)

definition demo_audit :: audit_db where
  "demo_audit =
     (case append_records demo_sha demo_dump demo_jsonb 0 [demo_record 2, demo_record 3] empty_audit of
        Inr (_, db) \<Rightarrow> db | Inl _ \<Rightarrow> empty_audit)"

lemma canon_idem: "canon u (canon u v) = canon u v"
proof (induction v)
  case (PyMap items)
  let ?f = "\<lambda>(k, v). (nfc u k, canon u v)"
  have fixed: "?f x = x" if x: "x \<in> set (map ?f items)" for x
  proof -
    obtain k v where "(k, v) \<in> set items" "x = (nfc u k, canon u v)" using x by auto
    then show ?thesis using PyMap.IH[of "(k, v)" v] by simp
  qed
  have again: "map ?f (sort_key fst (map ?f items)) = sort_key fst (map ?f items)"
    by (rule map_idI, rule fixed) (simp only: set_sort)
  have "canon u (canon u (PyMap items)) = PyMap (sort_key fst (sort_key fst (map ?f items)))"
    by (simp only: canon.simps again)
  then show ?case by (simp only: canon.simps sort_key_id_if_sorted sorted_sort_key)
qed simp_all

lemma demo_stores: "stores_json demo_sha demo_dump demo_jsonb"
proof -
  have "json latin_nfc (demo_dump r)" for r by (simp add: demo_dump_def)
  then show ?thesis by (simp add: stores_json_def demo_jsonb_def json_canon canon_idem)
qed

lemma demo_fits: "\<forall>b. length (hs_sha demo_sha b) = 64"
  by (simp add: demo_sha_def)

lemma demo_append:
  "\<exists>hs. append_records demo_sha demo_dump demo_jsonb 0 [demo_record 2, demo_record 3] empty_audit = Inr (hs, demo_audit)"
proof -
  have "chain_inv demo_sha empty_audit" by (simp add: chain_inv_def empty_audit_def head_row_def)
  from append_ok(1)[OF demo_stores demo_fits this, of "[demo_record 2, demo_record 3]" 0]
  have "\<nexists>e. append_records demo_sha demo_dump demo_jsonb 0 [demo_record 2, demo_record 3] empty_audit = Inl e"
    by (simp add: demo_jsonb_def empty_audit_def demo_record_def)
  then show ?thesis by (cases "append_records demo_sha demo_dump demo_jsonb 0 [demo_record 2, demo_record 3] empty_audit")
      (auto simp: demo_audit_def)
qed

lemma demo_audit_reachable: "audit_reachable demo_sha demo_dump demo_jsonb demo_audit"
  using demo_append audit_reachable.intros by blast

lemma demo_rows:
  "\<exists>r r'. ad_rows demo_audit = [r, r'] \<and> ar_prev_hash r = None \<and> json latin_nfc (ar_record r) \<and> canon latin_nfc (ar_record r) \<noteq> PyNone
     \<and> map ar_decision_id (ad_rows demo_audit) = [2, 3]"
proof -
  have inv0: "chain_inv demo_sha empty_audit" by (simp add: chain_inv_def empty_audit_def head_row_def)
  obtain hs where run: "append_records demo_sha demo_dump demo_jsonb 0 [demo_record 2, demo_record 3] empty_audit
      = Inr (hs, demo_audit)" using demo_append by blast
  have ids: "map ar_decision_id (ad_rows demo_audit) = [2, 3]"
    and bodies: "map (\<lambda>r. canon latin_nfc (ar_record r)) (ad_rows demo_audit)
      = [canon latin_nfc (demo_dump (demo_record 2)), canon latin_nfc (demo_dump (demo_record 3))]"
    using append_spec[OF demo_stores inv0 run] by (auto simp: empty_audit_def demo_record_def)
  then obtain r r' where rows: "ad_rows demo_audit = [r, r']" by auto
  moreover have "ar_prev_hash r = None" "json latin_nfc (ar_record r)"
    using reachable_inv[OF demo_audit_reachable demo_stores] rows by (simp_all add: chain_inv_def)
  moreover have "canon latin_nfc (ar_record r) \<noteq> PyNone" using bodies rows by (simp add: demo_dump_def)
  ultimately show ?thesis using ids by (intro exI conjI)
qed

lemma demo_distinguishes:
  assumes "ar_prev_hash r = None" "json latin_nfc (ar_record r)" "canon latin_nfc (ar_record r) \<noteq> PyNone"
  shows "inj_on (hs_sha demo_sha) (link_bytes demo_sha [r, r\<lparr>ar_record := PyNone\<rparr>])"
proof -
  let ?a = "canonical_json latin_nfc (link_value None (ar_record r))" and ?b = "canonical_json latin_nfc (link_value None PyNone)"
  have "?a \<noteq> ?b" using canonical_json_inj[of latin_nfc "link_value None (ar_record r)" "link_value None PyNone"] assms
    by (simp add: canon_link)
  moreover have "link_bytes demo_sha [r, r\<lparr>ar_record := PyNone\<rparr>] = {b. ?a = Inr b \<or> ?b = Inr b}"
    using assms(1) by (auto simp: link_bytes_def)
  ultimately show ?thesis by (auto simp: inj_on_def demo_sha_def)
qed

theorem audit_chain_verifies_witness:
  "verify_chain demo_sha demo_audit =
      Inr \<lparr>cv_ok = True, cv_checked = 2, cv_first_bad_seq = None, cv_detail = None\<rparr>"
  using audit_chain_verifies[OF demo_stores demo_audit_reachable] demo_rows by auto

theorem append_exactly_once_witness:
  "\<exists>hs db'. append_records demo_sha demo_dump demo_jsonb 5 [demo_record 3, demo_record 4] demo_audit = Inr (hs, db')
     \<and> map ar_decision_id (ad_rows db') = [2, 3, 4]"
proof -
  have "\<forall>r \<in> set [demo_record 3, demo_record 4]. demo_jsonb (demo_dump r) \<noteq> None" by (simp add: demo_jsonb_def)
  moreover have "filter (\<lambda>d. d \<notin> set (map ar_decision_id (ad_rows demo_audit))) (map decision_id [demo_record 3, demo_record 4]) = [4]"
    "map ar_decision_id (ad_rows demo_audit) = [2, 3]"
    using demo_rows by (auto simp: demo_record_def)
  ultimately show ?thesis
    using append_exactly_once[OF demo_stores demo_fits demo_audit_reachable, of "[demo_record 3, demo_record 4]" 5]
    by (auto split: sum.splits)
qed

theorem tampering_is_located_witness:
  "verify_chain demo_sha (demo_audit\<lparr>ad_rows := [] @ (hd (ad_rows demo_audit))\<lparr>ar_record := PyNone\<rparr> # tl (ad_rows demo_audit)\<rparr>)
     = Inr (broken_at 0 1 RecordAltered)
   \<and> verify_chain demo_sha (demo_audit\<lparr>ad_rows := tl (ad_rows demo_audit)\<rparr>) = Inr (broken_at 0 2 SequenceJump)"
proof -
  obtain r r' where rows: "ad_rows demo_audit = [r, r']" "ar_prev_hash r = None" "json latin_nfc (ar_record r)"
    "canon latin_nfc (ar_record r) \<noteq> PyNone" using demo_rows by blast
  show ?thesis
    using tampering_is_located[OF demo_stores demo_audit_reachable, of "[]" r "[r']" PyNone]
      demo_distinguishes[OF rows(2-4)] rows by simp
qed

theorem verify_chain_blind_spots_witness:
  "verify_chain demo_sha (demo_audit\<lparr>ad_rows := (hd (ad_rows demo_audit))\<lparr>ar_record := PyMap [(''x'', PyFloat)]\<rparr> # tl (ad_rows demo_audit)\<rparr>)
     = Inl CanonicalizationError"
proof -
  obtain r r' where rows: "ad_rows demo_audit = [r, r']" "ar_prev_hash r = None" "json latin_nfc (ar_record r)"
    "canon latin_nfc (ar_record r) \<noteq> PyNone" using demo_rows by blast
  obtain h where h: "chain_hash demo_sha None PyNone = Inr h" using chain_hash_ok[of demo_sha PyNone] by auto
  have "chain_hash demo_sha None (ar_record r) = Inr (ar_record_hash r)"
    using reachable_inv[OF demo_audit_reachable demo_stores] rows by (simp add: chain_inv_def)
  then have "h \<noteq> ar_record_hash r"
    using same_link[of demo_sha r "r\<lparr>ar_record := PyNone\<rparr>"] demo_distinguishes[OF rows(2-4)] rows h by auto
  then show ?thesis
    using verify_chain_blind_spots[OF demo_stores demo_audit_reachable, of "[]" r "[r']" PyNone h "''x''"] rows h by simp
qed

text \<open>Two tables with one row each, which write one body in two orders and two normal forms.\<close>

definition composing_sha :: hasher where
  "composing_sha = demo_sha\<lparr>hs_nfc := composing\<rparr>"

definition one_row :: "pvalue \<Rightarrow> audit_db" where
  "one_row v =
     (case chain_hash composing_sha None v of
        Inl _ \<Rightarrow> empty_audit
      | Inr h \<Rightarrow> \<lparr>ad_rows = [\<lparr>ar_seq = 1, ar_decision_id = 2, ar_record = v, ar_prev_hash = None,
                             ar_record_hash = h, ar_created_at = 0\<rparr>],
                 ad_head = Some \<lparr>ch_last_seq = 1, ch_last_hash = Some h\<rparr>\<rparr>)"

theorem audit_chain_tamper_evident_witness:
  "map (row_content composing_sha) (ordered_rows (one_row (PyMap [(''b'', PyStr [CHR ''e'', CHR 0xCC, CHR 0x81]), (''a'', PyInt 2)])))
     = map (row_content composing_sha) (ordered_rows (one_row (PyMap [(''a'', PyInt 2), (''b'', PyStr [CHR 0xC3, CHR 0xA9])])))"
proof -
  let ?v = "PyMap [(''b'', PyStr [CHR ''e'', CHR 0xCC, CHR 0x81]), (''a'', PyInt 2)]"
    and ?w = "PyMap [(''a'', PyInt 2), (''b'', PyStr [CHR 0xC3, CHR 0xA9])]"
  have n: "hs_nfc composing_sha = composing" "nfc composing s = compose s" for s
    by (simp add: composing_sha_def) (transfer, simp)
  have jv: "json (hs_nfc composing_sha) ?v" "json (hs_nfc composing_sha) ?w"
    and same: "canon (hs_nfc composing_sha) ?v = canon (hs_nfc composing_sha) ?w" using small_int[of 2] by (simp_all add: n)
  then have "chain_hash composing_sha None ?v = chain_hash composing_sha None ?w" by (intro chain_hash_canon)
  then obtain h where h: "chain_hash composing_sha None ?v = Inr h" "chain_hash composing_sha None ?w = Inr h"
    using chain_hash_ok[OF jv(1)] by metis
  have "verify_chain composing_sha (one_row v) =
      Inr \<lparr>cv_ok = True, cv_checked = 1, cv_first_bad_seq = None, cv_detail = None\<rparr>"
    if "chain_hash composing_sha None v = Inr h" for v
    using that verify_linked[of composing_sha "one_row v"] by (simp add: one_row_def head_row_def)
  note ok = this[OF h(1)] this[OF h(2)]
  have bytes: "inj_on (hs_sha composing_sha) (link_bytes composing_sha (ordered_rows (one_row ?v) @ ordered_rows (one_row ?w)))"
  proof -
    have "canonical_json (hs_nfc composing_sha) (link_value None ?v) = canonical_json (hs_nfc composing_sha) (link_value None ?w)"
      by (subst canonical_json_inj) (simp_all only: json_link canon_link jv same)
    then show ?thesis using h by (auto simp: inj_on_def link_bytes_def one_row_def ordered_rows_def)
  qed
  have hex: "\<forall>b. ascii_text (hs_sha composing_sha b)"
    by (simp add: composing_sha_def demo_sha_def ascii_text_def list_all_iff less_char_def)
  show ?thesis
    using audit_chain_tamper_evident[OF ok(1) _ ok(2) _ _ bytes hex] h jv by (simp add: one_row_def ordered_rows_def)
qed

end
