(* ===== verification/Emitter.thy ===== *)
theory Emitter
  imports AuditChain
begin

text \<open>
  \<open>agentiam_pep/emitter.py\<close>: the bounded buffer between a decision and the audit chain.

  \<open>write_batch\<close> holds the writer's lock for a whole batch, so it is one step; between two steps
  requests may emit.  A sink maps its own state and a batch to the state it leaves and one of
  three results: written, rejected for good (\<open>SinkRejectedRecord\<close>), or failed in any other way.
  \<open>flush\<close> is a loop over what the sink does, so it is a \<open>partial_function\<close>; with the positive
  batch size the settings demand it always returns.
\<close>

section \<open>Settings and state\<close>

datatype emit_error = AuditBufferFullError

fun emit_error_reason_code :: "emit_error \<Rightarrow> reason_code" where
  "emit_error_reason_code AuditBufferFullError = CONTROL_PLANE_UNAVAILABLE_FAIL_CLOSED"

datatype back_pressure = BpDeny | BpDrop

record emitter_settings =
  et_capacity :: int
  et_back_pressure :: back_pressure
  et_batch_max :: int
  et_flush_interval_s :: decimal
  et_tracing :: bool

definition mk_emitter_settings :: "emitter_settings \<Rightarrow> emitter_settings py" where
  "mk_emitter_settings s =
     (if et_capacity s \<le> 0 then Inl ValueError
      else if et_batch_max s \<le> 0 then Inl ValueError
      else if et_flush_interval_s s \<le> 0 then Inl ValueError
      else Inr s)"

record emitter =
  em_settings :: emitter_settings
  em_queue :: "decision_record list"
  em_drain :: bool
  em_closed :: bool
  em_pending :: "decision_record list option"
  em_attempts :: nat
  em_dropped :: nat
  em_failed_batches :: nat
  em_lost_records :: nat

definition new_emitter :: "emitter_settings \<Rightarrow> emitter" where
  "new_emitter s =
     \<lparr>em_settings = s, em_queue = [], em_drain = False, em_closed = False, em_pending = None,
      em_attempts = 0, em_dropped = 0, em_failed_batches = 0, em_lost_records = 0\<rparr>"

definition start_emitter :: "emitter \<Rightarrow> emitter" where
  "start_emitter em = em\<lparr>em_drain := True\<rparr>"

section \<open>The hot path\<close>

text \<open>\<open>put_nowait\<close> on an \<open>asyncio.Queue\<close> with a positive \<open>maxsize\<close>.\<close>

definition queue_full :: "emitter \<Rightarrow> bool" where
  "queue_full em = (0 < et_capacity (em_settings em) \<and> et_capacity (em_settings em) \<le> int (length (em_queue em)))"

definition emit :: "decision_record \<Rightarrow> emitter \<Rightarrow> emit_error + emitter" where
  "emit r em =
     (if em_closed em then Inl AuditBufferFullError
      else if queue_full em
      then (if et_back_pressure (em_settings em) = BpDrop then Inr (em\<lparr>em_dropped := em_dropped em + 1\<rparr>)
            else Inl AuditBufferFullError)
      else Inr (em\<lparr>em_queue := em_queue em @ [r]\<rparr>))"

section \<open>Draining\<close>

type_synonym 'w record_sink = "'w \<Rightarrow> decision_record list \<Rightarrow> 'w \<times> sink_result"

definition finish_pending :: "emitter \<Rightarrow> emitter" where
  "finish_pending em = em\<lparr>em_pending := None, em_attempts := 0\<rparr>"

text \<open>The batch \<open>_write_batch_locked\<close> takes from the queue when it holds none.\<close>

definition claim_batch :: "emitter \<Rightarrow> emitter" where
  "claim_batch em =
     (case em_pending em of
        Some b \<Rightarrow> em
      | None \<Rightarrow>
          let n = nat (et_batch_max (em_settings em)); batch = take n (em_queue em) in
          if batch = [] then em
          else em\<lparr>em_queue := drop n (em_queue em), em_pending := Some batch, em_attempts := 0\<rparr>)"

definition write_batch :: "'w record_sink \<Rightarrow> emitter \<times> 'w \<Rightarrow> emitter \<times> 'w" where
  "write_batch sink x = (case x of (em0, w) \<Rightarrow>
     (let em = claim_batch em0 in
      case em_pending em of
        None \<Rightarrow> (em, w)
      | Some batch \<Rightarrow>
          (case sink w batch of
             (w', SinkRejected) \<Rightarrow>
               (finish_pending (em\<lparr>em_failed_batches := em_failed_batches em + 1,
                                   em_lost_records := em_lost_records em + length batch\<rparr>), w')
           | (w', SinkFailed) \<Rightarrow>
               (em\<lparr>em_failed_batches := em_failed_batches em + 1, em_attempts := em_attempts em + 1\<rparr>, w')
           | (w', SinkWritten) \<Rightarrow> (finish_pending em, w'))))"

definition no_progress :: "emitter \<Rightarrow> emitter \<Rightarrow> bool" where
  "no_progress em em' =
     (em_pending em' \<noteq> None \<and> (em_pending em' = em_pending em \<or> length (em_queue em') = length (em_queue em)))"

partial_function (option) flush_emitter :: "'w record_sink \<Rightarrow> emitter \<times> 'w \<Rightarrow> (emitter \<times> 'w) option" where
  "flush_emitter sink x =
     (if em_queue (fst x) = [] \<and> em_pending (fst x) = None then Some x
      else let y = write_batch sink x in
           if no_progress (fst x) (fst y) then Some y else flush_emitter sink y)"

declare flush_emitter.simps [code]

definition aclose_emitter :: "'w record_sink \<Rightarrow> emitter \<times> 'w \<Rightarrow> (emitter \<times> 'w) option" where
  "aclose_emitter sink x = (case x of (em, w) \<Rightarrow>
     (if em_closed em then Some (em, w)
      else map_option (\<lambda>(em', w'). (em'\<lparr>em_drain := False\<rparr>, w')) (flush_emitter sink (em\<lparr>em_closed := True\<rparr>, w))))"

text \<open>One turn of the drain task, after its sleep.\<close>

definition drain_tick :: "'w record_sink \<Rightarrow> emitter \<times> 'w \<Rightarrow> emitter \<times> 'w" where
  "drain_tick sink x = (if em_drain (fst x) then write_batch sink x else x)"

section \<open>A flush always returns\<close>

definition backlog :: "emitter \<Rightarrow> nat" where
  "backlog em = 2 * length (em_queue em) + (if em_pending em = None then 0 else 1)"

lemma claim_batch_cases:
  assumes "0 < et_batch_max (em_settings em)"
  obtains (held) b where "em_pending em = Some b" "claim_batch em = em"
  | (empty) "em_pending em = None" "em_queue em = []" "claim_batch em = em"
  | (claimed) b rest where "em_pending em = None" "b \<noteq> []" "em_queue em = b @ rest"
      "int (length b) \<le> et_batch_max (em_settings em)"
      "claim_batch em = em\<lparr>em_queue := rest, em_pending := Some b, em_attempts := 0\<rparr>"
proof (cases "em_pending em")
  case None
  let ?n = "nat (et_batch_max (em_settings em))"
  show ?thesis
  proof (cases "em_queue em")
    case Nil
    then show ?thesis using empty None by (simp add: claim_batch_def)
  next
    case (Cons r rs)
    have "int (length (take ?n (em_queue em))) \<le> et_batch_max (em_settings em)" using assms by simp
    then show ?thesis
      using claimed[of "take ?n (em_queue em)" "drop ?n (em_queue em)"] None assms Cons
      by (simp add: claim_batch_def Let_def)
  qed
qed (use held in \<open>simp add: claim_batch_def\<close>)

text \<open>What a write leaves, from the batch in hand after claiming.\<close>

lemma write_batch_cases:
  assumes "write_batch sink (em, w) = (em', w')"
  obtains (idle) "em_pending (claim_batch em) = None" "em' = claim_batch em" "w' = w"
  | (finished) b res where "em_pending (claim_batch em) = Some b" "sink w b = (w', res)" "res \<noteq> SinkFailed"
      "em_pending em' = None" "em_queue em' = em_queue (claim_batch em)" "em_settings em' = em_settings (claim_batch em)"
      "em_lost_records em' = em_lost_records (claim_batch em) + (if res = SinkRejected then length b else 0)"
      "em_dropped em' = em_dropped (claim_batch em)" "em_closed em' = em_closed (claim_batch em)"
  | (failed) b where "em_pending (claim_batch em) = Some b" "sink w b = (w', SinkFailed)"
      "em_pending em' = Some b" "em_queue em' = em_queue (claim_batch em)" "em_settings em' = em_settings (claim_batch em)"
      "em_lost_records em' = em_lost_records (claim_batch em)" "em_dropped em' = em_dropped (claim_batch em)"
      "em_closed em' = em_closed (claim_batch em)"
proof (cases "em_pending (claim_batch em)")
  case None
  then show ?thesis using idle assms by (simp add: write_batch_def Let_def)
next
  case (Some b)
  obtain w1 res where s: "sink w b = (w1, res)" by (cases "sink w b")
  show ?thesis
  proof (cases res)
    case SinkFailed
    then show ?thesis using failed[OF Some] assms Some s by (auto simp: write_batch_def Let_def)
  qed (use finished[OF Some] assms Some s in \<open>auto simp: write_batch_def Let_def finish_pending_def\<close>)
qed

lemma claim_keeps [simp]:
  "em_settings (claim_batch em) = em_settings em" "em_lost_records (claim_batch em) = em_lost_records em"
  "em_dropped (claim_batch em) = em_dropped em" "em_closed (claim_batch em) = em_closed em"
  by (simp_all add: claim_batch_def Let_def split: option.splits)

lemma write_keeps_settings: "em_settings (fst (write_batch sink x)) = em_settings (fst x)"
  by (cases x; cases "write_batch sink x") (auto elim: write_batch_cases)

lemma write_progress:
  assumes "0 < et_batch_max (em_settings em)" "em_queue em \<noteq> [] \<or> em_pending em \<noteq> None"
    "write_batch sink (em, w) = (em', w')" "\<not> no_progress em em'"
  shows "backlog em' < backlog em"
proof (rule claim_batch_cases[OF assms(1)])
  fix b assume "em_pending em = Some b" "claim_batch em = em"
  then show ?thesis using assms(4) by (cases rule: write_batch_cases[OF assms(3)]) (simp_all add: backlog_def no_progress_def)
next
  fix b rest assume "em_pending em = None" "b \<noteq> []" "em_queue em = b @ rest"
    "claim_batch em = em\<lparr>em_queue := rest, em_pending := Some b, em_attempts := 0\<rparr>"
  moreover from this have "Suc 0 < 2 * length b" by (cases b) simp_all
  ultimately show ?thesis by (cases rule: write_batch_cases[OF assms(3)]) (simp_all add: backlog_def)
qed (use assms(2) in simp)

lemma write_never_fails:
  assumes "\<forall>w b. snd (sink w b) \<noteq> SinkFailed"
  shows "em_pending (fst (write_batch sink x)) = None"
proof -
  obtain em w where x: "x = (em, w)" by (cases x)
  obtain em' w' where y: "write_batch sink x = (em', w')" by (cases "write_batch sink x")
  show ?thesis using y[unfolded x]
  proof (cases rule: write_batch_cases)
    case (failed b)
    then show ?thesis using assms by (metis snd_conv)
  qed (use x y in simp_all)
qed

lemma flush_returns:
  "0 < et_batch_max (em_settings (fst x)) \<Longrightarrow>
     \<exists>n. let y = (write_batch sink ^^ n) x in
       flush_emitter sink x = Some y \<and> (em_pending (fst y) = None \<longrightarrow> em_queue (fst y) = [])
       \<and> (n = 0 \<longrightarrow> em_pending (fst x) = None)"
proof (induction "backlog (fst x)" arbitrary: x rule: less_induct)
  case less
  let ?y = "write_batch sink x"
  consider (empty) "em_queue (fst x) = [] \<and> em_pending (fst x) = None"
    | (stuck) "\<not> (em_queue (fst x) = [] \<and> em_pending (fst x) = None)" "no_progress (fst x) (fst ?y)"
    | (more) "\<not> (em_queue (fst x) = [] \<and> em_pending (fst x) = None)" "\<not> no_progress (fst x) (fst ?y)"
    by blast
  then show ?case
  proof cases
    case empty
    then show ?thesis by (intro exI[of _ 0], subst flush_emitter.simps) simp
  next
    case stuck
    then show ?thesis
      by (intro exI[of _ "Suc 0"], subst flush_emitter.simps) (auto simp: Let_def no_progress_def)
  next
    case more
    then have "backlog (fst ?y) < backlog (fst x)"
      using write_progress[of "fst x" sink "snd x" "fst ?y" "snd ?y"] less.prems by simp
    then obtain n where n: "let y = (write_batch sink ^^ n) ?y in
       flush_emitter sink ?y = Some y \<and> (em_pending (fst y) = None \<longrightarrow> em_queue (fst y) = [])
       \<and> (n = 0 \<longrightarrow> em_pending (fst ?y) = None)"
      using less.hyps[of ?y] less.prems by (auto simp: write_keeps_settings simp del: split_paired_All)
    have "flush_emitter sink x = flush_emitter sink ?y"
      using more by (subst flush_emitter.simps) (simp add: Let_def del: de_Morgan_conj)
    moreover have "(write_batch sink ^^ Suc n) x = (write_batch sink ^^ n) ?y" by (simp add: funpow_swap1)
    ultimately show ?thesis using n by (intro exI[of _ "Suc n"]) (simp add: Let_def del: funpow.simps)
  qed
qed

lemma flush_runs:
  assumes "0 < et_batch_max (em_settings em)"
  obtains n y where "y = (write_batch sink ^^ n) (em, w)" "flush_emitter sink (em, w) = Some y"
    "em_pending (fst y) = None \<longrightarrow> em_queue (fst y) = []" "n = 0 \<longrightarrow> em_pending em = None"
  using flush_returns[of "(em, w)" sink] assms unfolding Let_def fst_conv by metis

section \<open>Every accepted record is accounted for\<close>

definition em_held :: "emitter \<Rightarrow> decision_record list" where
  "em_held em = (case em_pending em of None \<Rightarrow> [] | Some b \<Rightarrow> b) @ em_queue em"

lemma write_held:
  assumes "0 < et_batch_max (em_settings em)" "write_batch sink (em, w) = (em', w')"
  obtains (idle) "w' = w" "em_held em' = em_held em" "em_lost_records em' = em_lost_records em"
  | (failed) b rest where "em_pending (claim_batch em) = Some b" "sink w b = (w', SinkFailed)"
      "em_held em = b @ rest" "em_held em' = em_held em" "em_lost_records em' = em_lost_records em"
  | (finished) b res where "em_pending (claim_batch em) = Some b" "sink w b = (w', res)"
      "res \<noteq> SinkFailed" "em_held em = b @ em_held em'"
      "em_lost_records em' = em_lost_records em + (if res = SinkRejected then length b else 0)"
proof -
  have claim: "em_held (claim_batch em) = em_held em"
    by (rule claim_batch_cases[OF assms(1)]) (simp_all add: em_held_def)
  from assms(2) show thesis
  proof (cases rule: write_batch_cases)
    case idle
    then show thesis using that(1) claim by simp
  next
    case (finished b res)
    then show thesis using that(3)[of b res] claim by (simp add: em_held_def)
  next
    case (failed b)
    then show thesis using that(2)[of b "em_queue em'"] claim by (simp add: em_held_def)
  qed
qed

text \<open>
  The states an emitter can be in, with the records whose \<open>emit\<close> took them and the state of its
  sink: emits, single writes (the drain task's or a flush's), flushes and the close, in any order.
\<close>

inductive em_reachable ::
  "'w record_sink \<Rightarrow> emitter_settings \<Rightarrow> 'w \<Rightarrow> decision_record list \<Rightarrow> emitter \<Rightarrow> 'w \<Rightarrow> bool"
  for sink st w0 where
  init: "em_reachable sink st w0 [] (new_emitter st) w0"
| started: "em_reachable sink st w0 acc em w \<Longrightarrow> em_reachable sink st w0 acc (start_emitter em) w"
| emitted: "em_reachable sink st w0 acc em w \<Longrightarrow> emit r em = Inr em' \<Longrightarrow> em_dropped em' = em_dropped em
    \<Longrightarrow> em_reachable sink st w0 (acc @ [r]) em' w"
| dropped: "em_reachable sink st w0 acc em w \<Longrightarrow> emit r em = Inr em' \<Longrightarrow> em_dropped em' \<noteq> em_dropped em
    \<Longrightarrow> em_reachable sink st w0 acc em' w"
| wrote: "em_reachable sink st w0 acc em w \<Longrightarrow> write_batch sink (em, w) = (em', w')
    \<Longrightarrow> em_reachable sink st w0 acc em' w'"
| flushed: "em_reachable sink st w0 acc em w \<Longrightarrow> flush_emitter sink (em, w) = Some (em', w')
    \<Longrightarrow> em_reachable sink st w0 acc em' w'"
| closed: "em_reachable sink st w0 acc em w \<Longrightarrow> aclose_emitter sink (em, w) = Some (em', w')
    \<Longrightarrow> em_reachable sink st w0 acc em' w'"

text \<open>
  An invariant of emits and single writes is an invariant of every reachable state: a flush is a
  sequence of writes, and opening or closing only sets a flag.
\<close>

lemma em_reachable_inv:
  assumes "em_reachable sink st w0 acc em w" "0 < et_batch_max st"
    and init: "I [] (new_emitter st) w0"
    and flags: "\<And>acc em w d c. I acc em w \<Longrightarrow> I acc (em\<lparr>em_drain := d, em_closed := c\<rparr>) w"
    and emits: "\<And>acc em w r. I acc em w \<Longrightarrow> \<not> em_closed em \<Longrightarrow> \<not> queue_full em \<Longrightarrow> I (acc @ [r]) (em\<lparr>em_queue := em_queue em @ [r]\<rparr>) w"
    and drops: "\<And>acc em w. I acc em w \<Longrightarrow> et_back_pressure (em_settings em) = BpDrop \<Longrightarrow> I acc (em\<lparr>em_dropped := em_dropped em + 1\<rparr>) w"
    and writes: "\<And>acc em w em' w'. I acc em w \<Longrightarrow> em_settings em = st \<Longrightarrow> write_batch sink (em, w) = (em', w') \<Longrightarrow> I acc em' w'"
  shows "I acc em w \<and> em_settings em = st"
proof -
  have iterate: "I acc (fst ((write_batch sink ^^ n) x)) (snd ((write_batch sink ^^ n) x))
      \<and> em_settings (fst ((write_batch sink ^^ n) x)) = st"
    if "I acc (fst x) (snd x)" "em_settings (fst x) = st" for n x acc
  proof (induction n)
    case (Suc n)
    let ?y = "(write_batch sink ^^ n) x"
    show ?case using writes[of acc "fst ?y" "snd ?y" "fst (write_batch sink ?y)" "snd (write_batch sink ?y)"]
        Suc write_keeps_settings[of sink ?y] by simp
  qed (use that in simp)
  have flush: "I acc em' w' \<and> em_settings em' = st"
    if h: "I acc em w" "em_settings em = st" "flush_emitter sink (em, w) = Some (em', w')" for acc em w em' w'
  proof -
    obtain n where "flush_emitter sink (em, w) = Some ((write_batch sink ^^ n) (em, w))"
      by (rule flush_runs[of em sink w]) (use h(2) assms(2) in simp_all)
    then have "(write_batch sink ^^ n) (em, w) = (em', w')" using h(3) by simp
    then show ?thesis using iterate[of acc "(em, w)" n] h(1,2) by simp
  qed
  show ?thesis using assms(1)
  proof induction
    case init
    then show ?case using assms(3) by (simp add: new_emitter_def)
  next
    case (started acc em w)
    then show ?case using flags[where em = em and d = True and c = "em_closed em"] by (simp add: start_emitter_def)
  next
    case (emitted acc em w r em')
    then show ?case using emits by (auto simp: emit_def split: if_splits)
  next
    case (dropped acc em w r em')
    then show ?case using drops by (auto simp: emit_def split: if_splits)
  next
    case (wrote acc em w em' w')
    then show ?case using writes write_keeps_settings[of sink "(em, w)"] by auto
  next
    case (flushed acc em w em' w')
    then show ?case using flush by blast
  next
    case (closed acc em w em' w')
    show ?case
    proof (cases "em_closed em")
      case True
      then show ?thesis using closed by (simp add: aclose_emitter_def)
    next
      case False
      then obtain em1 where em1: "flush_emitter sink (em\<lparr>em_closed := True\<rparr>, w) = Some (em1, w')"
          "em' = em1\<lparr>em_drain := False\<rparr>"
        using closed.hyps(2) by (auto simp: aclose_emitter_def)
      have "I acc (em\<lparr>em_drain := em_drain em, em_closed := True\<rparr>) w" by (rule flags) (use closed.IH in blast)
      then have "I acc (em\<lparr>em_closed := True\<rparr>) w" by simp
      from flush[OF this _ em1(1)] have 1: "I acc em1 w' \<and> em_settings em1 = st" using closed.IH by simp
      then have "I acc (em1\<lparr>em_drain := False, em_closed := em_closed em1\<rparr>) w'" by (intro flags) blast
      then show ?thesis using 1 em1(2) by simp
    qed
  qed
qed

text \<open>A sink that also keeps the batches it was given, with what became of each.\<close>

definition traced :: "'w record_sink \<Rightarrow> ('w \<times> (decision_record list \<times> sink_result) list) record_sink" where
  "traced sink x batch = (case x of (w, hist) \<Rightarrow>
     (case sink w batch of (w', res) \<Rightarrow> ((w', hist @ [(batch, res)]), res)))"

definition settled :: "(decision_record list \<times> sink_result) list \<Rightarrow> decision_record list" where
  "settled hist = concat (map fst (filter (\<lambda>(b, res). res \<noteq> SinkFailed) hist))"

definition rejected :: "(decision_record list \<times> sink_result) list \<Rightarrow> decision_record list" where
  "rejected hist = concat (map fst (filter (\<lambda>(b, res). res = SinkRejected) hist))"

definition accounted ::
  "decision_record list \<Rightarrow> emitter \<Rightarrow> 'w \<times> (decision_record list \<times> sink_result) list \<Rightarrow> bool" where
  "accounted acc em x \<longleftrightarrow>
     acc = settled (snd x) @ em_held em \<and> em_lost_records em = length (rejected (snd x))
     \<and> (et_back_pressure (em_settings em) = BpDeny \<longrightarrow> em_dropped em = 0)"

lemma accounted_write:
  assumes "accounted acc em x" "0 < et_batch_max (em_settings em)" "write_batch (traced sink) (em, x) = (em', x')"
  shows "accounted acc em' x'"
proof -
  have keep: "em_settings em' = em_settings em" "em_dropped em' = em_dropped em"
    using write_keeps_settings[of "traced sink" "(em, x)"] assms(3) by (auto elim: write_batch_cases)
  show ?thesis using assms(2,3)
  proof (cases rule: write_held)
    case idle
    then show ?thesis using assms(1) keep by (simp add: accounted_def)
  next
    case (failed b rest)
    then show ?thesis using assms(1) keep
      by (auto simp: accounted_def traced_def settled_def rejected_def split: prod.splits)
  next
    case (finished b res)
    then show ?thesis using assms(1) keep
      by (auto simp: accounted_def traced_def settled_def rejected_def split: prod.splits)
  qed
qed

text \<open>The buffer never holds more than its settings allow.\<close>

definition bounded_buffer :: "emitter \<Rightarrow> bool" where
  "bounded_buffer em \<longleftrightarrow>
     int (length (em_queue em)) \<le> et_capacity (em_settings em)
     \<and> (\<forall>b. em_pending em = Some b \<longrightarrow> b \<noteq> [] \<and> int (length b) \<le> et_batch_max (em_settings em))"

lemma buffer_unchanged [simp]:
  "bounded_buffer (em\<lparr>em_drain := d, em_closed := c\<rparr>) = bounded_buffer em"
  "bounded_buffer (em\<lparr>em_dropped := n\<rparr>) = bounded_buffer em"
  "em_held (em\<lparr>em_drain := d, em_closed := c\<rparr>) = em_held em" "em_held (em\<lparr>em_dropped := n\<rparr>) = em_held em"
  by (simp_all add: bounded_buffer_def em_held_def)

lemma bounded_write:
  assumes "bounded_buffer em" "0 < et_batch_max (em_settings em)" "write_batch sink (em, w) = (em', w')"
  shows "bounded_buffer em'"
proof -
  have "bounded_buffer (claim_batch em)"
    using assms(1) by (cases rule: claim_batch_cases[OF assms(2)]) (auto simp: bounded_buffer_def)
  then show ?thesis by (cases rule: write_batch_cases[OF assms(3)]) (auto simp: bounded_buffer_def)
qed

section \<open>On the audit chain\<close>

text \<open>
  The production sink over a database that comes and goes: each write consumes one entry of a
  schedule, whether the database is up and what its clock says; after the schedule it is up.
\<close>

definition scheduled_sink ::
  "hasher \<Rightarrow> (decision_record \<Rightarrow> pvalue) \<Rightarrow> (pvalue \<Rightarrow> pvalue option)
    \<Rightarrow> (audit_sink \<times> (bool \<times> instant) list) record_sink" where
  "scheduled_sink sha dump jsonb x batch = (case x of (s, sched) \<Rightarrow>
     (case sched of
        [] \<Rightarrow> (case audit_sink_write sha dump jsonb 0 True s batch of (s', res) \<Rightarrow> ((s', []), res))
      | (up, t) # rest \<Rightarrow>
          (case audit_sink_write sha dump jsonb t up s batch of (s', res) \<Rightarrow> ((s', rest), res))))"

definition table_ids :: "audit_sink \<Rightarrow> uuid list" where
  "table_ids s = map ar_decision_id (ad_rows (as_db s))"

lemma audit_write_spec:
  assumes "stores_json sha dump jsonb" "\<forall>b. length (hs_sha sha b) = 64" "chain_inv sha (as_db s)" "batch \<noteq> []"
    "\<forall>r \<in> set batch. jsonb (dump r) \<noteq> None" "distinct (table_ids s @ map decision_id batch)"
    "audit_sink_write sha dump jsonb t up s batch = (s', res)"
  shows "if up then res = SinkWritten \<and> chain_inv sha (as_db s') \<and> table_ids s' = table_ids s @ map decision_id batch
         else res = SinkFailed \<and> s' = s"
proof (cases up)
  case True
  have new: "filter (\<lambda>d. d \<notin> set (map ar_decision_id (ad_rows (as_db s)))) (map decision_id batch) = map decision_id batch"
    using assms(6) by (auto simp: table_ids_def filter_id_conv)
  have "\<And>r. r \<in> set batch \<Longrightarrow> jsonb (dump r) \<noteq> None" using assms(5) by blast
  from append_ok(1)[OF assms(1-4) this, of t] have "\<nexists>e. append_records sha dump jsonb t batch (as_db s) = Inl e"
    unfolding new using assms(6) by simp
  then obtain hs db where run: "append_records sha dump jsonb t batch (as_db s) = Inr (hs, db)"
    by (metis sum.exhaust prod.exhaust)
  then have "s' = s\<lparr>as_db := db\<rparr>" "res = SinkWritten" using assms(7) True by (simp_all add: audit_sink_write_def)
  then show ?thesis using append_spec[OF assms(1,3) run] new True by (auto simp: table_ids_def)
next
  case False
  then show ?thesis using assms(4,7) by (simp add: audit_sink_write_def permanent_error_def)
qed

definition delivered ::
  "hasher \<Rightarrow> decision_record list \<Rightarrow> emitter \<Rightarrow> audit_sink \<times> (bool \<times> instant) list \<Rightarrow> bool" where
  "delivered sha acc em x \<longleftrightarrow>
     map decision_id acc = table_ids (fst x) @ map decision_id (em_held em) \<and> set (em_held em) \<subseteq> set acc
     \<and> chain_inv sha (as_db (fst x)) \<and> em_lost_records em = 0 \<and> bounded_buffer em"

text \<open>For batches that the claimed records can form: new ids, storable bodies.\<close>

definition deliverable :: "(decision_record \<Rightarrow> pvalue) \<Rightarrow> (pvalue \<Rightarrow> pvalue option) \<Rightarrow> decision_record list \<Rightarrow> bool" where
  "deliverable dump jsonb acc \<longleftrightarrow>
     distinct (map decision_id acc) \<and> (\<forall>r \<in> set acc. jsonb (dump r) \<noteq> None)"

lemma scheduled_write:
  assumes "stores_json sha dump jsonb" "\<forall>b. length (hs_sha sha b) = 64" "deliverable dump jsonb acc" "delivered sha acc em x"
    "scheduled_sink sha dump jsonb x b = (y, res)" "em_held em = b @ rest" "b \<noteq> []"
  shows "snd y = tl (snd x) \<and>
    ((res = SinkWritten \<and> chain_inv sha (as_db (fst y)) \<and> table_ids (fst y) = table_ids (fst x) @ map decision_id b)
     \<or> (res = SinkFailed \<and> fst y = fst x \<and> snd x \<noteq> []))"
proof -
  obtain s sched where x: "x = (s, sched)" by (cases x)
  obtain t up s' where w: "audit_sink_write sha dump jsonb t up s b = (s', res)" "fst y = s'" "snd y = tl sched"
      "sched = [] \<longrightarrow> up"
    using assms(5) x by (auto simp: scheduled_sink_def split: list.splits prod.splits)
  have "\<forall>r \<in> set b. jsonb (dump r) \<noteq> None" "distinct (table_ids s @ map decision_id b)"
    using assms(3,4,6) x by (auto simp: deliverable_def delivered_def)
  from audit_write_spec[OF assms(1,2) _ assms(7) this w(1)] show ?thesis
    using assms(4) x w(2-4) by (auto simp: delivered_def split: if_splits)
qed

lemma claimed_nonempty:
  assumes "0 < et_batch_max (em_settings em)" "bounded_buffer em" "em_pending (claim_batch em) = Some b"
  shows "b \<noteq> []"
  using assms(2,3) by (cases rule: claim_batch_cases[OF assms(1)]) (auto simp: bounded_buffer_def)

lemma delivered_write:
  assumes "stores_json sha dump jsonb" "\<forall>b. length (hs_sha sha b) = 64" "0 < et_batch_max (em_settings em)"
    "deliverable dump jsonb acc" "delivered sha acc em x"
    "write_batch (scheduled_sink sha dump jsonb) (em, x) = (em', x')"
  shows "delivered sha acc em' x' \<and> (snd x = [] \<longrightarrow> snd x' = [] \<and> em_pending em' = None)"
proof -
  have bb: "bounded_buffer em" "bounded_buffer em'"
    using assms(5) bounded_write[OF _ assms(3,6)] by (simp_all add: delivered_def)
  note step = scheduled_write[OF assms(1,2,4,5)] and ne = claimed_nonempty[OF assms(3) bb(1)]
  have claim: "em_held (claim_batch em) = em_held em" by (rule claim_batch_cases[OF assms(3)]) (simp_all add: em_held_def)
  have "snd x = [] \<Longrightarrow> snd x' = [] \<and> em_pending em' = None" using assms(6)
  proof (cases rule: write_batch_cases)
    case (finished b res)
    moreover assume "snd x = []"
    ultimately show ?thesis
      using step[OF finished(2) _ ne[OF finished(1)], of "em_queue (claim_batch em)"] claim by (simp add: em_held_def)
  next
    case (failed b)
    moreover assume "snd x = []"
    ultimately show ?thesis
      using step[OF failed(2) _ ne[OF failed(1)], of "em_queue (claim_batch em)"] claim by (simp add: em_held_def)
  qed simp
  moreover
  from assms(3,6) have "delivered sha acc em' x'"
  proof (cases rule: write_held)
    case idle
    then show ?thesis using assms(5) bb(2) by (simp add: delivered_def)
  next
    case (failed b rest)
    then show ?thesis using step[OF failed(2,3) ne[OF failed(1)]] assms(5) bb(2) by (simp add: delivered_def)
  next
    case (finished b res)
    from step[OF finished(2,4) ne[OF finished(1)]] finished(3) have
      "res = SinkWritten" "chain_inv sha (as_db (fst x'))" "table_ids (fst x') = table_ids (fst x) @ map decision_id b"
      by auto
    then show ?thesis using finished assms(5) bb(2) by (simp add: delivered_def)
  qed
  ultimately show ?thesis by blast
qed

text \<open>
  A batch size and a capacity the settings accept.
\<close>

lemma mk_emitter_settings_ok:
  "mk_emitter_settings s = Inr s' \<longleftrightarrow>
     s' = s \<and> 0 < et_capacity s \<and> 0 < et_batch_max s \<and> 0 < et_flush_interval_s s"
  by (auto simp: mk_emitter_settings_def)

section \<open>Properties\<close>

text \<open>
  No accepted decision record goes missing.  Under any interleaving of emits, drains, flushes
  and the close, and whatever the sink does, the records whose emit returned are, in the order
  they were emitted, those of the batches the sink settled followed by those still held; the
  records counted lost are exactly those of the batches it rejected for good, so an outage loses
  none, and under the deny policy none is dropped.
\<close>

theorem emitter_accounts_for_every_record:
  assumes "mk_emitter_settings st = Inr st" "em_reachable (traced sink) st (w0, []) acc em (w, hist)"
  shows "acc = settled hist @ em_held em \<and> em_lost_records em = length (rejected hist)
    \<and> (et_back_pressure st = BpDeny \<longrightarrow> em_dropped em = 0)"
proof -
  have pos: "0 < et_batch_max st" using assms(1) by (simp add: mk_emitter_settings_ok)
  have "accounted acc em (w, hist) \<and> em_settings em = st"
  proof (rule em_reachable_inv[OF assms(2) pos])
    show "accounted [] (new_emitter st) (w0, [])"
      by (simp add: accounted_def new_emitter_def em_held_def settled_def rejected_def)
    fix acc em w d c assume "accounted acc em (w :: 'a \<times> _)"
    then show "accounted acc (em\<lparr>em_drain := d, em_closed := c\<rparr>) w" by (simp add: accounted_def em_held_def)
  next
    fix acc em r and w :: "'a \<times> _" assume "accounted acc em w"
    then show "accounted (acc @ [r]) (em\<lparr>em_queue := em_queue em @ [r]\<rparr>) w" by (simp add: accounted_def em_held_def)
  next
    fix acc em and w :: "'a \<times> _" assume "accounted acc em w" "et_back_pressure (em_settings em) = BpDrop"
    then show "accounted acc (em\<lparr>em_dropped := em_dropped em + 1\<rparr>) w" by (simp add: accounted_def em_held_def)
  qed (use accounted_write pos in blast)
  then show ?thesis by (simp add: accounted_def)
qed

text \<open>
  C39: The audit buffer is bounded.  Its queue never exceeds the capacity and the batch in hand
  never exceeds the batch size; a full or closed buffer under the deny policy refuses the
  record, with the reason code that fails closed.
\<close>

theorem emitter_buffer_bounded:
  assumes "mk_emitter_settings st = Inr st" "em_reachable sink st w0 acc em w"
  shows "int (length (em_queue em)) \<le> et_capacity st
    \<and> (\<forall>b. em_pending em = Some b \<longrightarrow> b \<noteq> [] \<and> int (length b) \<le> et_batch_max st)
    \<and> (et_back_pressure st = BpDeny \<longrightarrow>
        (case emit r em of
           Inr em' \<Rightarrow> em_held em' = em_held em @ [r] \<and> int (length (em_queue em)) < et_capacity st
         | Inl e \<Rightarrow> emit_error_reason_code e = CONTROL_PLANE_UNAVAILABLE_FAIL_CLOSED
                   \<and> (em_closed em \<or> int (length (em_queue em)) = et_capacity st)))"
proof -
  have pos: "0 < et_batch_max st" "0 < et_capacity st" using assms(1) by (simp_all add: mk_emitter_settings_ok)
  have "(bounded_buffer em \<and> em_settings em = st) \<and> em_settings em = st"
  proof (rule em_reachable_inv[where I = "\<lambda>acc em w. bounded_buffer em \<and> em_settings em = st", OF assms(2) pos(1)])
    show "bounded_buffer (new_emitter st) \<and> em_settings (new_emitter st) = st"
      using pos by (simp add: bounded_buffer_def new_emitter_def)
    fix em :: emitter and r assume "bounded_buffer em \<and> em_settings em = st" "\<not> queue_full em"
    then show "bounded_buffer (em\<lparr>em_queue := em_queue em @ [r]\<rparr>) \<and> em_settings (em\<lparr>em_queue := em_queue em @ [r]\<rparr>) = st"
      using pos by (auto simp: bounded_buffer_def queue_full_def)
  next
    fix em em' :: emitter and w w' assume a: "bounded_buffer em \<and> em_settings em = st" "write_batch sink (em, w) = (em', w')"
    then have "bounded_buffer em'" using pos bounded_write[of em sink w em' w'] by simp
    then show "bounded_buffer em' \<and> em_settings em' = st" using a write_keeps_settings[of sink "(em, w)"] by simp
  qed simp_all
  then show ?thesis using pos by (auto simp: bounded_buffer_def emit_def queue_full_def em_held_def)
qed

text \<open>
  C38: A flush always returns.  Whatever the sink does, \<open>flush\<close> ends after finitely many writes,
  with the buffer empty unless a batch is still in hand because the sink failed to write it;
  against a sink that never fails it empties the buffer.
\<close>

theorem emitter_flush_terminates:
  assumes "mk_emitter_settings (em_settings em) = Inr (em_settings em)"
  shows "\<exists>em' w'. flush_emitter sink (em, w) = Some (em', w')
    \<and> (em_pending em' = None \<longrightarrow> em_held em' = [])
    \<and> ((\<forall>w b. snd (sink w b) \<noteq> SinkFailed) \<longrightarrow> em_held em' = [])"
proof -
  have "0 < et_batch_max (em_settings em)" using assms by (simp add: mk_emitter_settings_ok)
  then obtain n y where y: "y = (write_batch sink ^^ n) (em, w)" "flush_emitter sink (em, w) = Some y"
    "em_pending (fst y) = None \<longrightarrow> em_queue (fst y) = []" "n = 0 \<longrightarrow> em_pending em = None"
    by (rule flush_runs)
  have "(\<forall>w b. snd (sink w b) \<noteq> SinkFailed) \<longrightarrow> em_pending (fst y) = None"
    using y(1,4) write_never_fails[of sink "(write_batch sink ^^ (n - 1)) (em, w)"] by (cases n) auto
  then show ?thesis using y(2,3) by (cases y) (auto simp: em_held_def)
qed

text \<open>
  C10: Every decision the policy enforcement point accepted reaches the audit chain, through
  outages.  With fresh decision ids and bodies the database can store, the ids in the audit
  table followed by those still buffered are the accepted ids in order, nothing is lost, and the
  table verifies; a flush once the database is back leaves the buffer empty and every accepted
  decision in the table exactly once.
\<close>

theorem accepted_decisions_reach_the_chain:
  assumes "mk_emitter_settings st = Inr st" "stores_json sha dump jsonb" "\<forall>b. length (hs_sha sha b) = 64"
    "deliverable dump jsonb acc"
    "em_reachable (scheduled_sink sha dump jsonb) st (\<lparr>as_db = empty_audit, as_rejected_batches = 0\<rparr>, sched) acc em (s, rest)"
  shows "map decision_id acc = table_ids s @ map decision_id (em_held em) \<and> em_lost_records em = 0
    \<and> (\<exists>v. verify_chain sha (as_db s) = Inr v \<and> cv_ok v)
    \<and> (rest = [] \<longrightarrow> (\<exists>em' s'. flush_emitter (scheduled_sink sha dump jsonb) (em, (s, rest)) = Some (em', (s', []))
          \<and> table_ids s' = map decision_id acc \<and> em_held em' = []))"
proof -
  let ?sink = "scheduled_sink sha dump jsonb"
  have pos: "0 < et_batch_max st" "0 < et_capacity st" using assms(1) by (simp_all add: mk_emitter_settings_ok)
  let ?I = "\<lambda>acc em x. em_settings em = st \<and> (deliverable dump jsonb acc \<longrightarrow> delivered sha acc em x)"
  have reach: "?I acc em (s, rest) \<and> em_settings em = st"
  proof (rule em_reachable_inv[where I = ?I, OF assms(5) pos(1)])
    show "?I [] (new_emitter st) (\<lparr>as_db = empty_audit, as_rejected_batches = 0\<rparr>, sched)"
      using pos by (simp add: delivered_def new_emitter_def em_held_def table_ids_def empty_audit_def chain_inv_def
          head_row_def bounded_buffer_def)
  next
    fix acc em x d c assume "?I acc em x"
    then show "?I acc (em\<lparr>em_drain := d, em_closed := c\<rparr>) x" by (simp add: delivered_def)
  next
    fix acc em x r assume "?I acc em x" "\<not> queue_full em"
    then show "?I (acc @ [r]) (em\<lparr>em_queue := em_queue em @ [r]\<rparr>) x"
      using pos by (auto simp: delivered_def em_held_def bounded_buffer_def queue_full_def deliverable_def)
  next
    fix acc em x assume "?I acc em x"
    then show "?I acc (em\<lparr>em_dropped := em_dropped em + 1\<rparr>) x" by (simp add: delivered_def)
  next
    fix acc em x em' x' assume "?I acc em x" "write_batch ?sink (em, x) = (em', x')"
    then show "?I acc em' x'"
      using delivered_write[OF assms(2,3), of em acc x em' x'] pos write_keeps_settings[of ?sink "(em, x)"] by auto
  qed
  then have now: "delivered sha acc em (s, rest)" and set: "em_settings em = st" using assms(4) by simp_all
  have iter: "delivered sha acc (fst y) (snd y) \<and> em_settings (fst y) = st
      \<and> snd (snd y) = [] \<and> (0 < n \<longrightarrow> em_pending (fst y) = None)"
    if "rest = []" "y = (write_batch ?sink ^^ n) (em, (s, rest))" for n y
    using that(2)
  proof (induction n arbitrary: y)
    case 0
    then show ?case using now set that(1) by simp
  next
    case (Suc n)
    let ?z = "(write_batch ?sink ^^ n) (em, (s, rest))"
    have z: "delivered sha acc (fst ?z) (snd ?z)" "em_settings (fst ?z) = st" "snd (snd ?z) = []"
      using Suc.IH by blast+
    then show ?case
      using delivered_write[OF assms(2,3) _ assms(4), of "fst ?z" "snd ?z" "fst y" "snd y"] Suc.prems pos
        write_keeps_settings[of ?sink ?z] by simp
  qed
  have "\<exists>em' s'. flush_emitter ?sink (em, (s, rest)) = Some (em', (s', []))
      \<and> table_ids s' = map decision_id acc \<and> em_held em' = []" if r: "rest = []"
  proof -
    obtain n y where y: "y = (write_batch ?sink ^^ n) (em, (s, rest))" "flush_emitter ?sink (em, (s, rest)) = Some y"
      "em_pending (fst y) = None \<longrightarrow> em_queue (fst y) = []" "n = 0 \<longrightarrow> em_pending em = None"
      by (rule flush_runs[of em ?sink "(s, rest)"]) (use set pos in simp)
    from iter[OF r y(1)] have d: "delivered sha acc (fst y) (snd y)" "snd (snd y) = []" "0 < n \<longrightarrow> em_pending (fst y) = None"
      by blast+
    have "em_held (fst y) = []" using y d(3) by (cases "n = 0") (simp_all add: em_held_def)
    then show ?thesis using d(1,2) y(2) by (cases y) (auto simp: delivered_def)
  qed
  moreover have "map decision_id acc = table_ids s @ map decision_id (em_held em)" "em_lost_records em = 0"
    "\<exists>v. verify_chain sha (as_db s) = Inr v \<and> cv_ok v"
    using now by (simp_all add: delivered_def chain_inv_def verify_linked)
  ultimately show ?thesis by blast
qed

section \<open>Witnesses\<close>

definition demo_emitter_settings :: emitter_settings where
  "demo_emitter_settings = \<lparr>et_capacity = 2, et_back_pressure = BpDeny, et_batch_max = 2, et_flush_interval_s = 1 / 2, et_tracing = False\<rparr>"

definition one_queued :: emitter where
  "one_queued = (new_emitter demo_emitter_settings)\<lparr>em_queue := [demo_record 2]\<rparr>"

lemma demo_emitter_settings_ok: "mk_emitter_settings demo_emitter_settings = Inr demo_emitter_settings"
  by (simp add: mk_emitter_settings_def demo_emitter_settings_def)

lemma one_queued_reachable: "em_reachable sink demo_emitter_settings w0 [demo_record 2] one_queued w0"
proof -
  have "emit (demo_record 2) (new_emitter demo_emitter_settings) = Inr one_queued"
    by (simp add: emit_def queue_full_def new_emitter_def demo_emitter_settings_def one_queued_def)
  from em_reachable.emitted[OF em_reachable.init this] show ?thesis by (simp add: one_queued_def)
qed

lemma one_queued_held: "em_held one_queued = [demo_record 2]"
  by (simp add: em_held_def one_queued_def new_emitter_def)

theorem emitter_accounts_for_every_record_witness:
  "[demo_record 2] = settled [] @ em_held one_queued \<and> em_lost_records one_queued = length (rejected [])
   \<and> em_dropped one_queued = 0"
  using emitter_accounts_for_every_record[where sink = "\<lambda>u b. ((), SinkWritten)" and w = "()" and ?w0.0 = "()",
        OF demo_emitter_settings_ok one_queued_reachable]
  by (simp add: demo_emitter_settings_def)

theorem emitter_buffer_bounded_witness:
  "int (length (em_queue one_queued)) \<le> et_capacity demo_emitter_settings"
  using emitter_buffer_bounded[OF demo_emitter_settings_ok one_queued_reachable[where sink = "\<lambda>u b. ((), SinkFailed)"]]
  by blast

theorem emitter_flush_terminates_witness:
  "\<exists>em' w'. flush_emitter (\<lambda>u b. ((), SinkWritten)) (one_queued, ()) = Some (em', w') \<and> em_held em' = []"
  using emitter_flush_terminates[of one_queued "\<lambda>u b. ((), SinkWritten)" "()"] demo_emitter_settings_ok
  by (simp add: one_queued_def new_emitter_def) blast

theorem accepted_decisions_reach_the_chain_witness:
  "\<exists>em' s'. flush_emitter (scheduled_sink demo_sha demo_dump demo_jsonb)
       (one_queued, (\<lparr>as_db = empty_audit, as_rejected_batches = 0\<rparr>, [])) = Some (em', (s', []))
     \<and> table_ids s' = [2]"
proof -
  have "deliverable demo_dump demo_jsonb [demo_record 2]" by (simp add: deliverable_def demo_jsonb_def)
  from accepted_decisions_reach_the_chain[OF demo_emitter_settings_ok demo_stores demo_fits this one_queued_reachable]
  have "\<exists>em' s'. flush_emitter (scheduled_sink demo_sha demo_dump demo_jsonb)
       (one_queued, (\<lparr>as_db = empty_audit, as_rejected_batches = 0\<rparr>, [])) = Some (em', (s', []))
     \<and> table_ids s' = map decision_id [demo_record 2]" by blast
  then show ?thesis by (simp add: demo_record_def)
qed

end
