(* ===== verification/Ledger.thy ===== *)
theory Ledger
  imports Models
begin

text \<open>
  The budget ledger: the tables of \<open>agentiam_controlplane/db/models.py\<close> and the operations of
  \<open>db/ledger.py\<close> (\<open>split_budget\<close>, \<open>acquire\<close>, \<open>release\<close>, \<open>reap\<close>, \<open>ledger_commit\<close>,
  \<open>ledger_commit_batch\<close>).

  A table is the list of its rows.  An operation maps a database to the database it leaves and
  to its result; a transaction whose rows break a constraint of the schema leaves the database
  as it was and raises \<open>IntegrityError\<close>.  Every operation locks the rows it reads before it
  decides, so a transaction is one atomic step and concurrent callers are interleavings of
  steps: \<open>ledger_step\<close> and its closure \<open>ledger_reachable\<close>.  Generated primary keys are
  arguments.  Amounts are \<open>NUMERIC(20,4)\<close> values, on which the arithmetic is exact.

  The lemmas show that the books balance in every reachable state, that commits are idempotent
  and clamped, that each lease returns its outstanding amount exactly once, and that a batch
  means what its single commits mean.
\<close>

section \<open>Rows\<close>

record budget_row =
  br_id :: uuid
  br_mandate_id :: uuid
  br_dimension :: string
  br_total :: decimal
  br_committed :: decimal
  br_leased :: decimal
  br_allocated :: decimal
  br_parent_budget_id :: "uuid option"
  br_agent_id :: "string option"
  br_version :: int

definition available :: "budget_row \<Rightarrow> decimal" where
  "available b = br_total b - br_committed b - br_leased b - br_allocated b"

record lease_row =
  lr_id :: uuid
  lr_budget_id :: uuid
  lr_pep_id :: string
  lr_granted :: decimal
  lr_settled :: decimal
  lr_granted_at :: instant
  lr_expires_at :: instant
  lr_state :: lease_state

definition outstanding :: "lease_row \<Rightarrow> decimal" where
  "outstanding l = lr_granted l - lr_settled l"

record reservation_row =
  rr_id :: uuid
  rr_lease_id :: uuid
  rr_amount :: decimal
  rr_created_at :: instant

record anomaly_row =
  an_lease_id :: uuid
  an_reservation_id :: uuid
  an_reported_amount :: decimal
  an_lease_state :: lease_state
  an_created_at :: instant

record ledger_db =
  budgets :: "budget_row list"
  leases :: "lease_row list"
  reservations :: "reservation_row list"
  anomalies :: "anomaly_row list"

section \<open>The constraints of the schema\<close>

definition ck_budgets_invariant :: "budget_row \<Rightarrow> bool" where
  "ck_budgets_invariant b =
     (br_committed b \<ge> 0 \<and> br_leased b \<ge> 0 \<and> br_allocated b \<ge> 0
      \<and> br_committed b + br_leased b + br_allocated b \<le> br_total b)"

definition ck_budgets_split_shape :: "budget_row \<Rightarrow> bool" where
  "ck_budgets_split_shape b = ((br_parent_budget_id b = None) = (br_agent_id b = None))"

definition ck_leases_outstanding :: "lease_row \<Rightarrow> bool" where
  "ck_leases_outstanding l = (lr_granted l \<ge> 0 \<and> lr_settled l \<ge> 0 \<and> lr_settled l \<le> lr_granted l)"

definition uq_budgets_pool :: "budget_row list \<Rightarrow> bool" where
  "uq_budgets_pool bs =
     distinct (map (\<lambda>b. (br_mandate_id b, br_dimension b))
                   (filter (\<lambda>b. br_parent_budget_id b = None) bs))"

definition uq_budgets_allocation :: "budget_row list \<Rightarrow> bool" where
  "uq_budgets_allocation bs =
     distinct (map (\<lambda>b. (br_parent_budget_id b, br_agent_id b, br_dimension b))
                   (filter (\<lambda>b. br_parent_budget_id b \<noteq> None \<and> br_agent_id b \<noteq> None) bs))"

definition db_ok :: "ledger_db \<Rightarrow> bool" where
  "db_ok db =
     (distinct (map br_id (budgets db)) \<and> distinct (map lr_id (leases db))
      \<and> distinct (map rr_id (reservations db))
      \<and> list_all ck_budgets_invariant (budgets db)
      \<and> list_all ck_budgets_split_shape (budgets db)
      \<and> list_all ck_leases_outstanding (leases db)
      \<and> uq_budgets_pool (budgets db) \<and> uq_budgets_allocation (budgets db)
      \<and> list_all (\<lambda>b. within_opt (\<lambda>p. p \<in> set (map br_id (budgets db))) (br_parent_budget_id b))
                  (budgets db)
      \<and> list_all (\<lambda>l. lr_budget_id l \<in> set (map br_id (budgets db))) (leases db)
      \<and> list_all (\<lambda>r. rr_lease_id r \<in> set (map lr_id (leases db))) (reservations db)
      \<and> list_all (\<lambda>a. an_lease_id a \<in> set (map lr_id (leases db))) (anomalies db))"

datatype ledger_error =
    LedgerValueError | AllocationError | LeaseUnavailableError | LeaseNotActiveError lease_state
  | NoResultFound | MultipleResultsFound | IntegrityError

type_synonym 'a ledger_result = "ledger_db \<times> (ledger_error + 'a)"

text \<open>The end of a \<open>session.begin()\<close> block: commit if the schema accepts the rows, else roll back.\<close>

definition commit_tx :: "ledger_db \<Rightarrow> ledger_db \<Rightarrow> 'a \<Rightarrow> 'a ledger_result" where
  "commit_tx old new r = (if db_ok new then (new, Inr r) else (old, Inl IntegrityError))"

definition update_budget :: "uuid \<Rightarrow> (budget_row \<Rightarrow> budget_row) \<Rightarrow> ledger_db \<Rightarrow> ledger_db" where
  "update_budget i f db =
     db\<lparr>budgets := map (\<lambda>b. if br_id b = i then f b else b) (budgets db)\<rparr>"

definition update_lease :: "uuid \<Rightarrow> (lease_row \<Rightarrow> lease_row) \<Rightarrow> ledger_db \<Rightarrow> ledger_db" where
  "update_lease i f db =
     db\<lparr>leases := map (\<lambda>l. if lr_id l = i then f l else l) (leases db)\<rparr>"

text \<open>\<open>scalar_one()\<close>: exactly one row, or the exception of the driver.\<close>

fun scalar_one :: "'a list \<Rightarrow> ledger_error + 'a" where
  "scalar_one [] = Inl NoResultFound"
| "scalar_one [x] = Inr x"
| "scalar_one _ = Inl MultipleResultsFound"

definition budget_by_id :: "ledger_db \<Rightarrow> uuid \<Rightarrow> ledger_error + budget_row" where
  "budget_by_id db i = scalar_one (filter (\<lambda>b. br_id b = i) (budgets db))"

definition lease_by_id :: "ledger_db \<Rightarrow> uuid \<Rightarrow> ledger_error + lease_row" where
  "lease_by_id db i = scalar_one (filter (\<lambda>l. lr_id l = i) (leases db))"

section \<open>Operations\<close>

definition SKEW_ALLOWANCE :: int where "SKEW_ALLOWANCE = seconds 5"

definition child_row :: "budget_row \<Rightarrow> string \<Rightarrow> uuid \<Rightarrow> string \<Rightarrow> decimal \<Rightarrow> budget_row" where
  "child_row parent dimension fresh agent_id amount =
     \<lparr>br_id = fresh, br_mandate_id = br_mandate_id parent, br_dimension = dimension,
      br_total = amount, br_committed = 0, br_leased = 0, br_allocated = 0,
      br_parent_budget_id = Some (br_id parent), br_agent_id = Some agent_id, br_version = 0\<rparr>"

definition split_budget ::
  "uuid list \<Rightarrow> uuid \<Rightarrow> string \<Rightarrow> decimal strmap \<Rightarrow> ledger_db \<Rightarrow> (uuid strmap) ledger_result" where
  "split_budget fresh parent_budget_id dimension allocations db =
     (if allocations = [] then (db, Inl LedgerValueError)
      else if list_ex (\<lambda>(_, amount). amount \<le> 0) allocations then (db, Inl LedgerValueError)
      else
       (let requested_total = sum_list (map snd allocations) in
        case budget_by_id db parent_budget_id of
          Inl e \<Rightarrow> (db, Inl e)
        | Inr parent \<Rightarrow>
            (if requested_total > available parent then (db, Inl AllocationError)
             else
              (let children = map (\<lambda>(i, agent_id, amount). child_row parent dimension i agent_id amount)
                                  (zip fresh allocations);
                   db1 = db\<lparr>budgets := budgets db @ children\<rparr>;
                   db2 = update_budget (br_id parent)
                           (\<lambda>b. b\<lparr>br_allocated := br_allocated b + requested_total\<rparr>) db1
               in commit_tx db db2 (zip (map fst allocations) fresh)))))"

definition acquire ::
  "uuid \<Rightarrow> uuid \<Rightarrow> string \<Rightarrow> decimal \<Rightarrow> string \<Rightarrow> int \<Rightarrow> instant \<Rightarrow> string option \<Rightarrow> ledger_db
   \<Rightarrow> lease_row ledger_result" where
  "acquire fresh mid dimension requested_amount pep ttl now_t agent_id db =
     (case scalar_one (filter (\<lambda>b. br_mandate_id b = mid \<and> br_dimension b = dimension
                 \<and> (case agent_id of Some a \<Rightarrow> br_agent_id b = Some a
                    | None \<Rightarrow> br_parent_budget_id b = None)) (budgets db)) of
        Inl e \<Rightarrow> (db, Inl e)
      | Inr b \<Rightarrow>
          (let grant = min requested_amount (available b) in
           if grant \<le> 0 then (db, Inl LeaseUnavailableError)
           else
            (let lease = \<lparr>lr_id = fresh, lr_budget_id = br_id b, lr_pep_id = pep,
                          lr_granted = grant, lr_settled = 0, lr_granted_at = now_t,
                          lr_expires_at = now_t + ttl, lr_state = ACTIVE\<rparr>;
                 db1 = update_budget (br_id b) (\<lambda>r. r\<lparr>br_leased := br_leased r + grant\<rparr>) db
             in commit_tx db (db1\<lparr>leases := leases db1 @ [lease]\<rparr>) lease)))"

definition retire :: "uuid \<Rightarrow> lease_state \<Rightarrow> ledger_db \<Rightarrow> bool ledger_result" where
  "retire lease_id next_state db =
     (case lease_by_id db lease_id of
        Inl e \<Rightarrow> (db, Inl e)
      | Inr l \<Rightarrow>
          (if lr_state l \<noteq> ACTIVE then (db, Inr False)
           else (case budget_by_id db (lr_budget_id l) of
                   Inl e \<Rightarrow> (db, Inl e)
                 | Inr b \<Rightarrow>
                     (let db1 = update_budget (br_id b)
                                  (\<lambda>r. r\<lparr>br_leased := br_leased r - outstanding l\<rparr>) db;
                          db2 = update_lease lease_id (\<lambda>r. r\<lparr>lr_state := next_state\<rparr>) db1
                      in commit_tx db db2 True))))"

definition release :: "uuid \<Rightarrow> ledger_db \<Rightarrow> bool ledger_result" where
  "release lease_id db = retire lease_id RELEASED db"

text \<open>
  \<open>reap\<close> reads its candidates in one transaction and retires each in a transaction of its own;
  an exception of one ends the pass.
\<close>

definition reap_candidates :: "instant \<Rightarrow> ledger_db \<Rightarrow> uuid list" where
  "reap_candidates now_t db =
     (let cutoff = now_t - SKEW_ALLOWANCE
      in map lr_id (filter (\<lambda>l. lr_state l = ACTIVE \<and> lr_expires_at l < cutoff) (leases db)))"

fun reap_each :: "uuid list \<Rightarrow> uuid list \<Rightarrow> ledger_db \<Rightarrow> (uuid list) ledger_result" where
  "reap_each [] reclaimed db = (db, Inr reclaimed)"
| "reap_each (i # is) reclaimed db =
     (case retire i EXPIRED db of
        (db', Inl e) \<Rightarrow> (db', Inl e)
      | (db', Inr True) \<Rightarrow> reap_each is (reclaimed @ [i]) db'
      | (db', Inr False) \<Rightarrow> reap_each is reclaimed db')"

definition reap :: "instant \<Rightarrow> ledger_db \<Rightarrow> (uuid list) ledger_result" where
  "reap now_t db = reap_each (reap_candidates now_t db) [] db"

type_synonym commit_item = "uuid \<times> decimal \<times> instant"

text \<open>One applied item: the amount moves from \<open>leased\<close> to \<open>committed\<close> and is recorded.\<close>

definition apply_settlement :: "lease_row \<Rightarrow> uuid \<Rightarrow> decimal \<Rightarrow> instant \<Rightarrow> ledger_db \<Rightarrow> ledger_db" where
  "apply_settlement l reservation_id applied now_t db =
     (let db1 = update_budget (lr_budget_id l)
                  (\<lambda>b. b\<lparr>br_committed := br_committed b + applied,
                         br_leased := br_leased b - applied\<rparr>) db;
          db2 = update_lease (lr_id l) (\<lambda>r. r\<lparr>lr_settled := lr_settled r + applied\<rparr>) db1
      in db2\<lparr>reservations := reservations db2 @
               [\<lparr>rr_id = reservation_id, rr_lease_id = lr_id l, rr_amount = applied,
                 rr_created_at = now_t\<rparr>]\<rparr>)"

text \<open>The loop of \<open>ledger_commit_batch\<close>, with the dedup set it grows.\<close>

fun settle_items ::
  "uuid \<Rightarrow> commit_item list \<Rightarrow> uuid set \<Rightarrow> ledger_db \<Rightarrow> ledger_error + (ledger_db \<times> bool list)" where
  "settle_items lease_id [] already db = Inr (db, [])"
| "settle_items lease_id ((rid, amount, t) # items) already db =
     (if rid \<in> already
      then bindE (settle_items lease_id items already db) (\<lambda>(db', rs). Inr (db', False # rs))
      else bindE (lease_by_id db lease_id) (\<lambda>l.
        (let applied = min amount (outstanding l) in
         if applied \<le> 0
         then bindE (settle_items lease_id items (insert rid already) db)
                (\<lambda>(db', rs). Inr (db', False # rs))
         else bindE (budget_by_id db (lr_budget_id l)) (\<lambda>_.
                bindE (settle_items lease_id items (insert rid already)
                         (apply_settlement l rid applied t db))
                  (\<lambda>(db', rs). Inr (db', True # rs))))))"

definition record_anomalies :: "lease_row \<Rightarrow> commit_item list \<Rightarrow> ledger_db \<Rightarrow> ledger_db" where
  "record_anomalies l items db =
     db\<lparr>anomalies := anomalies db @
        map (\<lambda>(rid, amount, t). \<lparr>an_lease_id = lr_id l, an_reservation_id = rid,
               an_reported_amount = amount, an_lease_state = lr_state l, an_created_at = t\<rparr>) items\<rparr>"

definition already_settled :: "commit_item list \<Rightarrow> ledger_db \<Rightarrow> uuid set" where
  "already_settled items db =
     set (filter (\<lambda>i. i \<in> set (map fst items)) (map rr_id (reservations db)))"

definition ledger_commit_batch ::
  "uuid \<Rightarrow> commit_item list \<Rightarrow> ledger_db \<Rightarrow> (bool list) ledger_result" where
  "ledger_commit_batch lease_id items db =
     (if items = [] then (db, Inr [])
      else (case lease_by_id db lease_id of
              Inl e \<Rightarrow> (db, Inl e)
            | Inr l \<Rightarrow>
                (if lr_state l \<noteq> ACTIVE
                 then (case commit_tx db (record_anomalies l items db) () of
                         (db', Inl e) \<Rightarrow> (db', Inl e)
                       | (db', Inr _) \<Rightarrow> (db', Inl (LeaseNotActiveError (lr_state l))))
                 else (case settle_items lease_id items (already_settled items db) db of
                         Inl e \<Rightarrow> (db, Inl e)
                       | Inr (db', results) \<Rightarrow> commit_tx db db' results))))"

definition ledger_commit ::
  "uuid \<Rightarrow> uuid \<Rightarrow> decimal \<Rightarrow> instant \<Rightarrow> ledger_db \<Rightarrow> bool ledger_result" where
  "ledger_commit lease_id reservation_id amount now_t db =
     (case ledger_commit_batch lease_id [(reservation_id, amount, now_t)] db of
        (db', Inl e) \<Rightarrow> (db', Inl e)
      | (db', Inr applied) \<Rightarrow> (db', Inr (hd applied)))"

section \<open>Runs\<close>

text \<open>
  Every transaction any caller can run, in any order: the operations above and the insertion of
  a new pool row, as the seeding scripts do.  A pass of the reaper is a sequence of \<open>retire\<close>
  steps with other callers' steps between them.
\<close>

inductive ledger_step :: "ledger_db \<Rightarrow> ledger_db \<Rightarrow> bool" where
  split: "split_budget fresh parent dimension allocs db = (db', r) \<Longrightarrow> length fresh = length allocs
          \<Longrightarrow> ledger_step db db'"
| acquire: "acquire fresh mid dimension amount pep ttl t agent db = (db', r) \<Longrightarrow> ledger_step db db'"
| retire: "retire i next db = (db', r) \<Longrightarrow> next \<noteq> ACTIVE \<Longrightarrow> ledger_step db db'"
| commit: "ledger_commit_batch i items db = (db', r) \<Longrightarrow> ledger_step db db'"
| new_pool: "br_parent_budget_id b = None \<Longrightarrow> br_committed b = 0 \<Longrightarrow> br_leased b = 0 \<Longrightarrow> br_allocated b = 0
             \<Longrightarrow> commit_tx db (db\<lparr>budgets := budgets db @ [b]\<rparr>) () = (db', r) \<Longrightarrow> ledger_step db db'"

text \<open>A fresh ledger: pools that nothing has drawn on.\<close>

definition ledger_init :: "ledger_db \<Rightarrow> bool" where
  "ledger_init db =
     (db_ok db \<and> leases db = [] \<and> reservations db = [] \<and> anomalies db = []
      \<and> list_all (\<lambda>b. br_parent_budget_id b = None \<and> br_committed b = 0 \<and> br_leased b = 0
                      \<and> br_allocated b = 0) (budgets db))"

inductive ledger_reachable :: "ledger_db \<Rightarrow> bool" where
  init: "ledger_init db \<Longrightarrow> ledger_reachable db"
| step: "ledger_reachable db \<Longrightarrow> ledger_step db db' \<Longrightarrow> ledger_reachable db'"

inductive_cases ledger_stepE: "ledger_step db db'"

section \<open>The books\<close>

definition res_total :: "ledger_db \<Rightarrow> uuid \<Rightarrow> decimal" where
  "res_total db i =
     sum_list (map (\<lambda>r. if list_ex (\<lambda>l. lr_id l = rr_lease_id r \<and> lr_budget_id l = i) (leases db)
                        then rr_amount r else 0) (reservations db))"

definition active_total :: "ledger_db \<Rightarrow> uuid \<Rightarrow> decimal" where
  "active_total db i =
     sum_list (map (\<lambda>l. if lr_budget_id l = i \<and> lr_state l = ACTIVE then outstanding l else 0) (leases db))"

definition child_total :: "ledger_db \<Rightarrow> uuid \<Rightarrow> decimal" where
  "child_total db i =
     sum_list (map (\<lambda>b. if br_parent_budget_id b = Some i then br_total b else 0) (budgets db))"

definition lease_res_total :: "ledger_db \<Rightarrow> uuid \<Rightarrow> decimal" where
  "lease_res_total db i =
     sum_list (map (\<lambda>r. if rr_lease_id r = i then rr_amount r else 0) (reservations db))"

definition budget_balanced :: "ledger_db \<Rightarrow> budget_row \<Rightarrow> bool" where
  "budget_balanced db b \<longleftrightarrow> br_committed b = res_total db (br_id b)
     \<and> br_leased b = active_total db (br_id b) \<and> br_allocated b = child_total db (br_id b)"

definition books :: "ledger_db \<Rightarrow> bool" where
  "books db \<longleftrightarrow> db_ok db \<and> (\<forall>b \<in> set (budgets db). budget_balanced db b)
     \<and> (\<forall>l \<in> set (leases db). lr_settled l = lease_res_total db (lr_id l))
     \<and> (\<forall>r \<in> set (reservations db). 0 < rr_amount r)"

section \<open>Lemmas on rows\<close>

lemma distinct_head_key: "distinct (map key (a # xs)) \<Longrightarrow> y \<in> set xs \<Longrightarrow> key y \<noteq> key a"
  by (auto simp: image_iff)

lemma disjoint_keys: "key ` A \<inter> key ` B = {} \<Longrightarrow> x \<in> A \<Longrightarrow> y \<in> B \<Longrightarrow> key y \<noteq> key x"
  by (metis disjoint_iff imageI)

lemma sum_update:
  fixes g :: "'a \<Rightarrow> 'b :: ab_group_add"
  assumes "distinct (map key xs)" "x \<in> set xs"
  shows "sum_list (map (\<lambda>y. g (if key y = key x then f y else y)) xs) = sum_list (map g xs) + (g (f x) - g x)"
  using assms
proof (induction xs)
  case (Cons a xs)
  show ?case
  proof (cases "x = a")
    case True
    then have "sum_list (map (\<lambda>y. g (if key y = key x then f y else y)) xs) = sum_list (map g xs)"
      using distinct_head_key[OF Cons.prems(1)] by (intro sum_list_map_cong) auto
    then show ?thesis using True by simp
  next
    case False
    then have "key a \<noteq> key x" using Cons.prems by auto
    then show ?thesis using Cons False by simp
  qed
qed simp

lemma update_same:
  assumes "\<And>y. y \<in> set xs \<Longrightarrow> key y = k \<Longrightarrow> g (f y) = g y"
  shows "map (\<lambda>y. g (if key y = k then f y else y)) xs = map g xs"
  using assms by auto

lemma scalar_one_Inr: "scalar_one xs = Inr x \<longleftrightarrow> xs = [x]"
  by (cases xs rule: scalar_one.cases) auto

lemma filter_one_mem: "filter P xs = [x] \<Longrightarrow> x \<in> set xs \<and> P x"
  by (metis filter_eq_Cons_iff in_set_conv_decomp)

lemma budget_by_idD: "budget_by_id db i = Inr b \<Longrightarrow> b \<in> set (budgets db) \<and> br_id b = i"
  unfolding budget_by_id_def scalar_one_Inr by (drule filter_one_mem) simp

lemma lease_by_idD: "lease_by_id db i = Inr l \<Longrightarrow> l \<in> set (leases db) \<and> lr_id l = i"
  unfolding lease_by_id_def scalar_one_Inr by (drule filter_one_mem) simp

lemma filter_key_one: "distinct (map key xs) \<Longrightarrow> x \<in> set xs \<Longrightarrow> filter (\<lambda>y. key y = key x) xs = [x]"
proof (induction xs)
  case (Cons a xs)
  show ?case
  proof (cases "x = a")
    case True
    then have "filter (\<lambda>y. key y = key x) xs = []"
      using distinct_head_key[OF Cons.prems(1)] by (simp add: filter_empty_conv)
    then show ?thesis using True by simp
  next
    case False
    then have "key a \<noteq> key x" using Cons.prems by auto
    then show ?thesis using Cons False by simp
  qed
qed simp

lemma budget_by_id_mem: "db_ok db \<Longrightarrow> b \<in> set (budgets db) \<Longrightarrow> budget_by_id db (br_id b) = Inr b"
  using filter_key_one[of br_id "budgets db" b] by (simp add: budget_by_id_def db_ok_def)

lemma lease_by_id_mem: "db_ok db \<Longrightarrow> l \<in> set (leases db) \<Longrightarrow> lease_by_id db (lr_id l) = Inr l"
  using filter_key_one[of lr_id "leases db" l] by (simp add: lease_by_id_def db_ok_def)

lemma foreign_keys:
  assumes "db_ok db"
  shows "r \<in> set (reservations db) \<Longrightarrow> rr_lease_id r \<in> lr_id ` set (leases db)"
    and "l \<in> set (leases db) \<Longrightarrow> lr_budget_id l \<in> br_id ` set (budgets db)"
    and "b \<in> set (budgets db) \<Longrightarrow> br_parent_budget_id b = Some p \<Longrightarrow> p \<in> br_id ` set (budgets db)"
proof -
  have fk: "\<forall>r \<in> set (reservations db). rr_lease_id r \<in> lr_id ` set (leases db)"
    "\<forall>l \<in> set (leases db). lr_budget_id l \<in> br_id ` set (budgets db)"
    "\<forall>b \<in> set (budgets db). within_opt (\<lambda>p. p \<in> br_id ` set (budgets db)) (br_parent_budget_id b)"
    using assms by (simp_all add: db_ok_def list_all_iff)
  show "r \<in> set (reservations db) \<Longrightarrow> rr_lease_id r \<in> lr_id ` set (leases db)" using fk(1) by blast
  show "l \<in> set (leases db) \<Longrightarrow> lr_budget_id l \<in> br_id ` set (budgets db)" using fk(2) by blast
  show "b \<in> set (budgets db) \<Longrightarrow> br_parent_budget_id b = Some p \<Longrightarrow> p \<in> br_id ` set (budgets db)"
    using fk(3) by fastforce
qed

lemma lease_budget_found:
  assumes "db_ok db" "l \<in> set (leases db)"
  obtains b where "b \<in> set (budgets db)" "br_id b = lr_budget_id l" "budget_by_id db (lr_budget_id l) = Inr b"
proof -
  have "lr_budget_id l \<in> br_id ` set (budgets db)" using assms by (simp add: db_ok_def list_all_iff)
  then obtain b where "b \<in> set (budgets db)" "br_id b = lr_budget_id l" by auto
  then show ?thesis using that budget_by_id_mem[OF assms(1)] by metis
qed

lemma update_simps [simp]:
  "leases (update_budget i f db) = leases db" "reservations (update_budget i f db) = reservations db"
  "anomalies (update_budget i f db) = anomalies db" "budgets (update_lease i g db) = budgets db"
  "reservations (update_lease i g db) = reservations db" "anomalies (update_lease i g db) = anomalies db"
  "budgets (update_budget i f db) = map (\<lambda>b. if br_id b = i then f b else b) (budgets db)"
  "leases (update_lease i g db) = map (\<lambda>l. if lr_id l = i then g l else l) (leases db)"
  by (simp_all add: update_budget_def update_lease_def)

lemma map_update_keys:
  assumes "\<And>x. h (f x) = h x"
  shows "map h (map (\<lambda>y. if P y then f y else y) xs) = map h xs"
  using assms by simp

lemma list_ex_update:
  assumes "\<And>x. Q (f x) = Q x"
  shows "list_ex Q (map (\<lambda>y. if P y then f y else y) xs) = list_ex Q xs"
  using assms by (induction xs) auto

lemma active_total_ge:
  assumes "db_ok db" "l \<in> set (leases db)" "lr_state l = ACTIVE"
  shows "outstanding l \<le> active_total db (lr_budget_id l)"
proof -
  let ?g = "\<lambda>k. if lr_budget_id k = lr_budget_id l \<and> lr_state k = ACTIVE then outstanding k else 0"
  have "?g l \<le> sum_list (map ?g (leases db))"
  proof (rule member_le_sum_list)
    show "?g l \<in> set (map ?g (leases db))" unfolding set_map by (rule imageI[OF assms(2)])
    show "\<And>x. x \<in> set (map ?g (leases db)) \<Longrightarrow> 0 \<le> x"
      using assms(1) by (auto simp: db_ok_def list_all_iff ck_leases_outstanding_def outstanding_def)
  qed
  then show ?thesis using assms by (simp add: active_total_def)
qed

section \<open>Effects on the totals\<close>

lemma sum_list_update:
  fixes g :: "'a \<Rightarrow> 'b :: ab_group_add"
  assumes "distinct (map key xs)" "x \<in> set xs"
  shows "sum_list (map g (map (\<lambda>y. if key y = key x then f y else y) xs)) = sum_list (map g xs) + (g (f x) - g x)"
  using sum_update[OF assms, of g f] by (simp add: comp_def)

lemma update_lease_totals:
  assumes "\<And>l. lr_id (f l) = lr_id l" "\<And>l. lr_budget_id (f l) = lr_budget_id l"
  shows "res_total (update_lease i f db) j = res_total db j"
    and "child_total (update_lease i f db) j = child_total db j"
    and "lease_res_total (update_lease i f db) j = lease_res_total db j"
proof -
  have "list_ex (\<lambda>l. lr_id l = k \<and> lr_budget_id l = j) (map (\<lambda>l. if lr_id l = i then f l else l) (leases db))
      = list_ex (\<lambda>l. lr_id l = k \<and> lr_budget_id l = j) (leases db)" for k
    by (rule list_ex_update) (simp add: assms)
  then show "res_total (update_lease i f db) j = res_total db j" by (simp add: res_total_def)
qed (simp_all add: child_total_def lease_res_total_def)

lemma update_budget_totals:
  assumes "\<And>b. br_parent_budget_id (f b) = br_parent_budget_id b" "\<And>b. br_total (f b) = br_total b"
  shows "res_total (update_budget i f db) j = res_total db j"
    and "active_total (update_budget i f db) j = active_total db j"
    and "child_total (update_budget i f db) j = child_total db j"
    and "lease_res_total (update_budget i f db) j = lease_res_total db j"
proof -
  have "map (\<lambda>b. if br_parent_budget_id b = Some j then br_total b else 0) (map (\<lambda>b. if br_id b = i then f b else b) (budgets db))
      = map (\<lambda>b. if br_parent_budget_id b = Some j then br_total b else 0) (budgets db)"
    by (rule map_update_keys) (simp add: assms)
  then show "child_total (update_budget i f db) j = child_total db j"
    by (simp only: child_total_def update_simps)
qed (simp_all add: res_total_def active_total_def lease_res_total_def)

lemma update_lease_active:
  assumes "db_ok db" "l \<in> set (leases db)" "lr_budget_id (f l) = lr_budget_id l"
  shows "active_total (update_lease (lr_id l) f db) j = active_total db j
    + (if lr_budget_id l = j then (if lr_state (f l) = ACTIVE then outstanding (f l) else 0)
         - (if lr_state l = ACTIVE then outstanding l else 0) else 0)"
proof -
  have "distinct (map lr_id (leases db))" using assms(1) by (simp add: db_ok_def)
  then show ?thesis
    using sum_list_update[of lr_id "leases db" l "\<lambda>l. if lr_budget_id l = j \<and> lr_state l = ACTIVE then outstanding l else 0" f]
      assms by (simp add: active_total_def)
qed

text \<open>The parts of \<open>db_ok\<close> that an update of one budget and one lease row can touch.\<close>

lemma db_ok_update:
  assumes ok: "db_ok db"
    and fb: "\<And>b. br_id (f b) = br_id b" "\<And>b. br_mandate_id (f b) = br_mandate_id b"
      "\<And>b. br_dimension (f b) = br_dimension b" "\<And>b. br_parent_budget_id (f b) = br_parent_budget_id b"
      "\<And>b. br_agent_id (f b) = br_agent_id b"
    and gl: "\<And>l. lr_id (g l) = lr_id l" "\<And>l. lr_budget_id (g l) = lr_budget_id l"
    and ckb: "\<And>b. b \<in> set (budgets db) \<Longrightarrow> br_id b = i \<Longrightarrow> ck_budgets_invariant (f b)"
    and ckl: "\<And>l. l \<in> set (leases db) \<Longrightarrow> lr_id l = j \<Longrightarrow> ck_leases_outstanding (g l)"
  shows "db_ok (update_lease j g (update_budget i f db))"
proof -
  have pool: "map (\<lambda>b. (br_mandate_id b, br_dimension b)) (filter (\<lambda>b. br_parent_budget_id b = None)
        (map (\<lambda>b. if br_id b = i then f b else b) bs))
      = map (\<lambda>b. (br_mandate_id b, br_dimension b)) (filter (\<lambda>b. br_parent_budget_id b = None) bs)" for bs
    by (induction bs) (auto simp: fb)
  have alloc: "map (\<lambda>b. (br_parent_budget_id b, br_agent_id b, br_dimension b))
        (filter (\<lambda>b. br_parent_budget_id b \<noteq> None \<and> br_agent_id b \<noteq> None)
           (map (\<lambda>b. if br_id b = i then f b else b) bs))
      = map (\<lambda>b. (br_parent_budget_id b, br_agent_id b, br_dimension b))
        (filter (\<lambda>b. br_parent_budget_id b \<noteq> None \<and> br_agent_id b \<noteq> None) bs)" for bs
    by (induction bs) (auto simp: fb)
  have ids: "map br_id (map (\<lambda>b. if br_id b = i then f b else b) (budgets db)) = map br_id (budgets db)"
    "map lr_id (map (\<lambda>l. if lr_id l = j then g l else l) (leases db)) = map lr_id (leases db)"
    by (rule map_update_keys, simp add: fb gl)+
  show ?thesis
    using ok unfolding db_ok_def uq_budgets_pool_def uq_budgets_allocation_def update_simps pool alloc ids
    by (auto simp: list_all_iff ckb ckl ck_budgets_split_shape_def fb gl)
qed

lemma db_ok_add_reservation:
  assumes "db_ok db" "rr_id r \<notin> set (map rr_id (reservations db))" "rr_lease_id r \<in> set (map lr_id (leases db))"
  shows "db_ok (db\<lparr>reservations := reservations db @ [r]\<rparr>)"
  using assms by (simp add: db_ok_def)

lemma db_ok_add_lease:
  assumes "db_ok db" "lr_id l \<notin> set (map lr_id (leases db))" "lr_budget_id l \<in> set (map br_id (budgets db))"
    "ck_leases_outstanding l"
  shows "db_ok (db\<lparr>leases := leases db @ [l]\<rparr>)"
  using assms by (auto simp: db_ok_def list_all_iff)

section \<open>Every operation keeps the books\<close>

lemma books_settled:
  assumes b: "books db" and l: "l \<in> set (leases db)" "lr_state l = ACTIVE"
    and amt: "0 < a" "a \<le> outstanding l" and new: "rid \<notin> set (map rr_id (reservations db))"
  shows "books (apply_settlement l rid a t db)"
proof -
  let ?f = "\<lambda>b. b\<lparr>br_committed := br_committed b + a, br_leased := br_leased b - a\<rparr>"
  let ?g = "\<lambda>r. r\<lparr>lr_settled := lr_settled r + a\<rparr>"
  let ?db = "update_lease (lr_id l) ?g (update_budget (lr_budget_id l) ?f db)"
  let ?r = "\<lparr>rr_id = rid, rr_lease_id = lr_id l, rr_amount = a, rr_created_at = t\<rparr>"
  have new_db: "apply_settlement l rid a t db = ?db\<lparr>reservations := reservations ?db @ [?r]\<rparr>"
    by (simp add: apply_settlement_def Let_def)
  have ok: "db_ok db" using b by (simp add: books_def)
  have uniq: "k = l" if "k \<in> set (leases db)" "lr_id k = lr_id l" for k
    using lease_by_id_mem[OF ok that(1)] lease_by_id_mem[OF ok l(1)] that(2) by (metis sum.inject(2))
  have "db_ok ?db"
  proof (rule db_ok_update[OF ok])
    fix c assume c: "c \<in> set (budgets db)" "br_id c = lr_budget_id l"
    then have "br_leased c = active_total db (lr_budget_id l)" "ck_budgets_invariant c"
      using b ok by (auto simp: books_def budget_balanced_def db_ok_def list_all_iff)
    then show "ck_budgets_invariant (?f c)"
      using active_total_ge[OF ok l] amt by (auto simp: ck_budgets_invariant_def)
  next
    fix k assume k: "k \<in> set (leases db)" "lr_id k = lr_id l"
    then have "k = l" by (rule uniq)
    moreover have "ck_leases_outstanding l" using ok l by (simp add: db_ok_def list_all_iff)
    ultimately show "ck_leases_outstanding (?g k)"
      using amt by (auto simp: ck_leases_outstanding_def outstanding_def)
  qed simp_all
  moreover have "map lr_id (leases ?db) = map lr_id (leases db)"
    unfolding update_simps by (rule map_update_keys) simp
  ultimately have ok': "db_ok (apply_settlement l rid a t db)"
    unfolding new_db using new l(1) by (intro db_ok_add_reservation) simp_all
  have ex: "list_ex (\<lambda>k. lr_id k = lr_id l \<and> lr_budget_id k = j) (leases ?db) \<longleftrightarrow> j = lr_budget_id l" for j
  proof -
    have eq: "list_ex (\<lambda>k. lr_id k = lr_id l \<and> lr_budget_id k = j) (leases ?db)
        = list_ex (\<lambda>k. lr_id k = lr_id l \<and> lr_budget_id k = j) (leases db)"
      unfolding update_simps by (rule list_ex_update) simp
    have "(\<exists>k \<in> set (leases db). lr_id k = lr_id l \<and> lr_budget_id k = j) \<longleftrightarrow> j = lr_budget_id l"
    proof
      assume "\<exists>k \<in> set (leases db). lr_id k = lr_id l \<and> lr_budget_id k = j"
      then obtain k where k: "k \<in> set (leases db)" "lr_id k = lr_id l" "lr_budget_id k = j" by blast
      show "j = lr_budget_id l" using k(3) uniq[OF k(1,2)] by simp
    qed (use l(1) in auto)
    then show ?thesis using eq by (simp only: list_ex_iff)
  qed
  have res: "res_total (apply_settlement l rid a t db) j = res_total db j + (if j = lr_budget_id l then a else 0)" for j
  proof -
    have "res_total (apply_settlement l rid a t db) j = res_total ?db j + (if j = lr_budget_id l then a else 0)"
      unfolding new_db using ex[of j] by (simp add: res_total_def)
    then show ?thesis by (simp add: update_lease_totals update_budget_totals)
  qed
  have act: "active_total (apply_settlement l rid a t db) j = active_total db j - (if j = lr_budget_id l then a else 0)" for j
  proof -
    have "active_total (apply_settlement l rid a t db) j = active_total (update_lease (lr_id l) ?g db) j"
      unfolding new_db by (simp add: active_total_def)
    then show ?thesis using update_lease_active[OF ok l(1), of ?g j] l(2) by (auto simp: outstanding_def)
  qed
  have chi: "child_total (apply_settlement l rid a t db) j = child_total db j" for j
  proof -
    have "child_total (apply_settlement l rid a t db) j = child_total ?db j"
      unfolding new_db by (simp add: child_total_def)
    then show ?thesis by (simp add: update_lease_totals update_budget_totals)
  qed
  have lres: "lease_res_total (apply_settlement l rid a t db) j = lease_res_total db j + (if j = lr_id l then a else 0)" for j
    unfolding new_db by (simp add: lease_res_total_def)
  have "budget_balanced (apply_settlement l rid a t db) c" if "c \<in> set (budgets ?db)" for c
  proof -
    obtain c0 where "c0 \<in> set (budgets db)" and c: "c = (if br_id c0 = lr_budget_id l then ?f c0 else c0)"
      using \<open>c \<in> set (budgets ?db)\<close> by auto
    then have "budget_balanced db c0" using b by (simp add: books_def)
    then show ?thesis unfolding c by (simp add: budget_balanced_def res act chi)
  qed
  moreover have "lr_settled k = lease_res_total (apply_settlement l rid a t db) (lr_id k)" if "k \<in> set (leases ?db)" for k
  proof -
    obtain k0 where "k0 \<in> set (leases db)" and k: "k = (if lr_id k0 = lr_id l then ?g k0 else k0)"
      using \<open>k \<in> set (leases ?db)\<close> by auto
    then have "lr_settled k0 = lease_res_total db (lr_id k0)" using b by (simp add: books_def)
    then show ?thesis unfolding k by (simp add: lres)
  qed
  moreover have "budgets (apply_settlement l rid a t db) = budgets ?db"
    "leases (apply_settlement l rid a t db) = leases ?db"
    "set (reservations (apply_settlement l rid a t db)) = insert ?r (set (reservations db))"
    unfolding new_db by simp_all
  moreover have "0 < rr_amount r" if "r \<in> insert ?r (set (reservations db))" for r
    using that b amt(1) by (auto simp: books_def)
  ultimately show ?thesis using ok' unfolding books_def by metis
qed

lemma booksI:
  assumes "db_ok db" "\<And>b. b \<in> set (budgets db) \<Longrightarrow> budget_balanced db b"
    "\<And>l. l \<in> set (leases db) \<Longrightarrow> lr_settled l = lease_res_total db (lr_id l)"
    "\<And>r. r \<in> set (reservations db) \<Longrightarrow> 0 < rr_amount r"
  shows "books db"
  using assms by (simp add: books_def)

lemma booksD:
  assumes "books db"
  shows "db_ok db" "\<And>b. b \<in> set (budgets db) \<Longrightarrow> budget_balanced db b"
    "\<And>l. l \<in> set (leases db) \<Longrightarrow> lr_settled l = lease_res_total db (lr_id l)"
    "\<And>r. r \<in> set (reservations db) \<Longrightarrow> 0 < rr_amount r"
  using assms by (simp_all add: books_def)

lemma books_retired:
  assumes b: "books db" and l: "l \<in> set (leases db)" "lr_state l = ACTIVE" and nxt: "st \<noteq> ACTIVE"
  shows "books (update_lease (lr_id l) (\<lambda>r. r\<lparr>lr_state := st\<rparr>)
           (update_budget (lr_budget_id l) (\<lambda>b. b\<lparr>br_leased := br_leased b - outstanding l\<rparr>) db))"
    (is "books ?db")
proof (rule booksI)
  let ?f = "\<lambda>b. b\<lparr>br_leased := br_leased b - outstanding l\<rparr>"
  let ?g = "\<lambda>r. r\<lparr>lr_state := st\<rparr>"
  note ok = booksD(1)[OF b]
  show "db_ok ?db"
  proof (rule db_ok_update[OF ok])
    fix c assume c: "c \<in> set (budgets db)" "br_id c = lr_budget_id l"
    then have "br_leased c = active_total db (lr_budget_id l)" "ck_budgets_invariant c"
      using booksD(2)[OF b c(1)] ok by (auto simp: budget_balanced_def db_ok_def list_all_iff)
    moreover have "0 \<le> outstanding l"
      using ok l by (simp add: db_ok_def list_all_iff ck_leases_outstanding_def outstanding_def)
    ultimately show "ck_budgets_invariant (?f c)"
      using active_total_ge[OF ok l] by (auto simp: ck_budgets_invariant_def)
  next
    fix k assume "k \<in> set (leases db)"
    then show "ck_leases_outstanding (?g k)" using ok by (simp add: db_ok_def list_all_iff ck_leases_outstanding_def)
  qed simp_all
  have act: "active_total ?db j = active_total db j - (if j = lr_budget_id l then outstanding l else 0)" for j
  proof -
    have "active_total ?db j = active_total (update_lease (lr_id l) ?g db) j" by (simp add: active_total_def)
    then show ?thesis using update_lease_active[OF ok l(1), of ?g j] l(2) nxt by simp
  qed
  show "budget_balanced ?db c" if "c \<in> set (budgets ?db)" for c
  proof -
    obtain c0 where "c0 \<in> set (budgets db)" and c: "c = (if br_id c0 = lr_budget_id l then ?f c0 else c0)"
      using \<open>c \<in> set (budgets ?db)\<close> by auto
    then have "budget_balanced db c0" using booksD(2)[OF b] by simp
    then show ?thesis unfolding c by (simp add: budget_balanced_def act update_lease_totals update_budget_totals)
  qed
  show "lr_settled k = lease_res_total ?db (lr_id k)" if "k \<in> set (leases ?db)" for k
    using that booksD(3)[OF b] by (auto simp: update_lease_totals update_budget_totals split: if_splits)
qed (use booksD(4)[OF b] in simp)

lemma books_leased:
  assumes b: "books db" and c: "c \<in> set (budgets db)"
    and l: "lr_budget_id l = br_id c" "lr_state l = ACTIVE" "lr_settled l = 0"
    and ok': "db_ok (update_budget (br_id c) (\<lambda>b. b\<lparr>br_leased := br_leased b + lr_granted l\<rparr>) db
                \<lparr>leases := leases db @ [l]\<rparr>)" (is "db_ok ?db")
  shows "books ?db"
proof (rule booksI[OF ok'])
  let ?f = "\<lambda>b. b\<lparr>br_leased := br_leased b + lr_granted l\<rparr>"
  note ok = booksD(1)[OF b]
  have new: "lr_id l \<notin> lr_id ` set (leases db)" using ok' by (simp add: db_ok_def)
  have fk: "rr_lease_id r \<noteq> lr_id l" if "r \<in> set (reservations db)" for r
    using foreign_keys(1)[OF ok that] new by metis
  have res: "res_total ?db j = res_total db j" for j
  proof -
    have "list_ex (\<lambda>k. lr_id k = rr_lease_id r \<and> lr_budget_id k = j) (leases ?db)
        = list_ex (\<lambda>k. lr_id k = rr_lease_id r \<and> lr_budget_id k = j) (leases db)"
      if "r \<in> set (reservations db)" for r
      using fk[OF that] by auto
    then show ?thesis unfolding res_total_def by (simp cong: map_cong)
  qed
  have lres: "lease_res_total ?db j = lease_res_total db j" for j by (simp add: lease_res_total_def)
  have none: "lease_res_total db (lr_id l) = 0"
  proof -
    have "lease_res_total db (lr_id l) = sum_list (map (\<lambda>_. 0) (reservations db))"
      unfolding lease_res_total_def by (rule sum_list_map_cong) (simp add: fk)
    then show ?thesis by simp
  qed
  have act: "active_total ?db j = active_total db j + (if j = br_id c then lr_granted l else 0)" for j
    using l by (simp add: active_total_def outstanding_def)
  have chi: "child_total ?db j = child_total db j" for j
    using update_budget_totals(3)[of ?f "br_id c" db j] by (simp add: child_total_def)
  show "budget_balanced ?db d" if "d \<in> set (budgets ?db)" for d
  proof -
    obtain d0 where "d0 \<in> set (budgets db)" and d: "d = (if br_id d0 = br_id c then ?f d0 else d0)"
      using \<open>d \<in> set (budgets ?db)\<close> by auto
    then have "budget_balanced db d0" using booksD(2)[OF b] by simp
    then show ?thesis unfolding d by (simp add: budget_balanced_def act res chi)
  qed
  show "lr_settled k = lease_res_total ?db (lr_id k)" if "k \<in> set (leases ?db)" for k
    using that booksD(3)[OF b] none l by (auto simp: lres)
qed (use booksD(4)[OF b] in simp)

lemma books_new_rows:
  assumes b: "books db" and ok': "db_ok (db\<lparr>budgets := map u (budgets db) @ cs\<rparr>)" (is "db_ok ?db")
    and u: "\<And>x. br_id (u x) = br_id x" "\<And>x. br_committed (u x) = br_committed x" "\<And>x. br_leased (u x) = br_leased x"
      "\<And>x. br_parent_budget_id (u x) = br_parent_budget_id x" "\<And>x. br_total (u x) = br_total x"
      "\<And>x. x \<in> set (budgets db) \<Longrightarrow>
         br_allocated (u x) = br_allocated x + sum_list (map (\<lambda>c. if br_parent_budget_id c = Some (br_id x) then br_total c else 0) cs)"
    and cs: "\<And>c. c \<in> set cs \<Longrightarrow> br_committed c = 0 \<and> br_leased c = 0 \<and> br_allocated c = 0"
      "\<And>c c'. c \<in> set cs \<Longrightarrow> c' \<in> set cs \<Longrightarrow> br_parent_budget_id c \<noteq> Some (br_id c')"
  shows "books ?db"
proof (rule booksI[OF ok'])
  note ok = booksD(1)[OF b]
  have same: "res_total ?db j = res_total db j" "active_total ?db j = active_total db j"
    "lease_res_total ?db j = lease_res_total db j" for j
    by (simp_all add: res_total_def active_total_def lease_res_total_def)
  have chi: "child_total ?db j = child_total db j
      + sum_list (map (\<lambda>c. if br_parent_budget_id c = Some j then br_total c else 0) cs)" for j
    by (simp add: child_total_def comp_def u cong: if_cong)
  have fresh: "br_id c \<notin> br_id ` set (budgets db)" if "c \<in> set cs" for c
  proof -
    have "distinct (map br_id (budgets db) @ map br_id cs)" using ok' by (simp add: db_ok_def comp_def u)
    then show ?thesis using that by (auto simp: image_iff)
  qed
  show "budget_balanced ?db d" if d: "d \<in> set (budgets ?db)" for d
  proof (cases "d \<in> set cs")
    case False
    then obtain x where x: "x \<in> set (budgets db)" "d = u x" using d by auto
    then show ?thesis using booksD(2)[OF b x(1)] by (simp add: budget_balanced_def same chi u)
  next
    case True
    note new = fresh[OF True]
    have nolease: "lr_budget_id l \<noteq> br_id d" if "l \<in> set (leases db)" for l
      using foreign_keys(2)[OF ok that] new by metis
    have noparent: "br_parent_budget_id x \<noteq> Some (br_id d)" if "x \<in> set (budgets db)" for x
      using foreign_keys(3)[OF ok that] new by metis
    have "list_ex (\<lambda>l. lr_id l = k \<and> lr_budget_id l = br_id d) (leases db) = False" for k
      using nolease by (auto simp: list_ex_iff)
    then have "res_total db (br_id d) = 0" by (simp add: res_total_def)
    moreover have "active_total db (br_id d) = sum_list (map (\<lambda>_. 0) (leases db))"
      unfolding active_total_def by (rule sum_list_map_cong) (simp add: nolease)
    moreover have "child_total db (br_id d) = sum_list (map (\<lambda>_. 0) (budgets db))"
      unfolding child_total_def by (rule sum_list_map_cong) (simp add: noparent)
    moreover have "sum_list (map (\<lambda>c. if br_parent_budget_id c = Some (br_id d) then br_total c else 0) cs)
        = sum_list (map (\<lambda>_. 0) cs)"
      by (rule sum_list_map_cong) (simp add: cs(2)[OF _ True])
    ultimately show ?thesis using cs(1)[OF True] by (simp add: budget_balanced_def same chi)
  qed
  show "lr_settled k = lease_res_total ?db (lr_id k)" if "k \<in> set (leases ?db)" for k
    using that booksD(3)[OF b] by (simp add: same)
qed (use booksD(4)[OF b] in simp)

lemma commit_tx_books:
  assumes "commit_tx db new x = (db', r)" "books db" "db_ok new \<Longrightarrow> books new"
  shows "books db'"
  using assms by (auto simp: commit_tx_def split: if_splits)

lemma books_acquire:
  assumes b: "books db" and s: "acquire fresh mid dmn amt pep ttl t agent db = (db', r)"
  shows "books db'"
proof (cases "scalar_one (filter (\<lambda>b. br_mandate_id b = mid \<and> br_dimension b = dmn
    \<and> (case agent of Some a \<Rightarrow> br_agent_id b = Some a | None \<Rightarrow> br_parent_budget_id b = None)) (budgets db))")
  case (Inl e)
  then show ?thesis using s b by (auto simp: acquire_def)
next
  case (Inr c)
  then have c: "c \<in> set (budgets db)" unfolding scalar_one_Inr by (auto dest: filter_one_mem)
  show ?thesis
  proof (cases "min amt (available c) \<le> 0")
    case False
    let ?l = "\<lparr>lr_id = fresh, lr_budget_id = br_id c, lr_pep_id = pep, lr_granted = min amt (available c),
      lr_settled = 0, lr_granted_at = t, lr_expires_at = t + ttl, lr_state = ACTIVE\<rparr>"
    have "commit_tx db (update_budget (br_id c) (\<lambda>r. r\<lparr>br_leased := br_leased r + min amt (available c)\<rparr>) db
        \<lparr>leases := leases db @ [?l]\<rparr>) ?l = (db', r)"
      using s Inr False by (simp add: acquire_def Let_def)
    then show ?thesis using b by (rule commit_tx_books) (use books_leased[OF b c, of ?l] in simp)
  qed (use s Inr b in \<open>auto simp: acquire_def Let_def\<close>)
qed

lemma books_retire:
  assumes b: "books db" and s: "retire i st db = (db', r)" and st: "st \<noteq> ACTIVE"
  shows "books db'"
proof (cases "lease_by_id db i")
  case (Inl e)
  then show ?thesis using s b by (simp add: retire_def)
next
  case (Inr l)
  note l = lease_by_idD[OF Inr]
  show ?thesis
  proof (cases "lr_state l = ACTIVE")
    case True
    obtain c where c: "br_id c = lr_budget_id l" "budget_by_id db (lr_budget_id l) = Inr c"
      using lease_budget_found[OF booksD(1)[OF b], of l] l by blast
    have "commit_tx db (update_lease (lr_id l) (\<lambda>r. r\<lparr>lr_state := st\<rparr>)
           (update_budget (lr_budget_id l) (\<lambda>b. b\<lparr>br_leased := br_leased b - outstanding l\<rparr>) db)) True = (db', r)"
      using s Inr True c l by (simp add: retire_def Let_def)
    then show ?thesis using b by (rule commit_tx_books) (use books_retired[OF b _ True st] l in blast)
  qed (use s Inr b in \<open>simp add: retire_def\<close>)
qed

lemma children_total:
  "length fresh = length allocs \<Longrightarrow>
   sum_list (map (\<lambda>c. if br_parent_budget_id c = Some j then br_total c else 0)
      (map (\<lambda>(i, agent_id, amount). child_row p dmn i agent_id amount) (zip fresh allocs)))
     = (if j = br_id p then sum_list (map snd allocs) else 0)"
  by (induction fresh allocs rule: list_induct2) (auto simp: child_row_def)

lemma books_split:
  assumes b: "books db" and s: "split_budget fresh pid dmn allocs db = (db', r)"
    and len: "length fresh = length allocs"
  shows "books db'"
proof (cases "allocs = [] \<or> list_ex (\<lambda>(_, amount). amount \<le> 0) allocs")
  case True
  then show ?thesis using s b by (auto simp: split_budget_def split: if_splits)
next
  case args: False
  let ?total = "sum_list (map snd allocs)"
  show ?thesis
  proof (cases "budget_by_id db pid")
    case (Inl e)
    then show ?thesis using s b args by (auto simp: split_budget_def Let_def split: if_splits)
  next
    case (Inr p)
    note p = budget_by_idD[OF Inr]
    let ?f = "\<lambda>b. b\<lparr>br_allocated := br_allocated b + ?total\<rparr>"
    let ?u = "\<lambda>b. if br_id b = br_id p then ?f b else b"
    let ?cs = "map (\<lambda>(i, agent_id, amount). child_row p dmn i agent_id amount) (zip fresh allocs)"
    let ?new = "update_budget (br_id p) ?f (db\<lparr>budgets := budgets db @ ?cs\<rparr>)"
    show ?thesis
    proof (cases "?total > available p")
      case True
      then show ?thesis using s b args Inr by (auto simp: split_budget_def Let_def split: if_splits)
    next
      case False
      then have tx: "commit_tx db ?new (zip (map fst allocs) fresh) = (db', r)"
        using s args Inr by (simp add: split_budget_def Let_def)
      show ?thesis
      proof (rule commit_tx_books[OF tx b])
        assume ok: "db_ok ?new"
        have "map br_id (budgets ?new) = map br_id (budgets db) @ map br_id ?cs"
          unfolding update_simps by (subst map_update_keys) simp_all
        moreover have "distinct (map br_id (budgets ?new))"
          using ok unfolding db_ok_def by (rule conjunct1)
        ultimately have "distinct (map br_id (budgets db) @ map br_id ?cs)" by (simp only:)
        then have "br_id ` set (budgets db) \<inter> br_id ` set ?cs = {}"
          by (simp only: distinct_append set_map)
        then have noparent: "br_id c \<noteq> br_id p" if "c \<in> set ?cs" for c
          using p[THEN conjunct1] that by (rule disjoint_keys)
        then have "map ?u ?cs = ?cs" by (intro map_idI) simp
        then have new: "?new = db\<lparr>budgets := map ?u (budgets db) @ ?cs\<rparr>"
          by (simp add: update_budget_def)
        have parent: "br_parent_budget_id c = Some (br_id p)" "br_committed c = 0 \<and> br_leased c = 0 \<and> br_allocated c = 0"
          if "c \<in> set ?cs" for c
          using that by (auto simp: child_row_def)
        show "books ?new" unfolding new
        proof (rule books_new_rows[OF b ok[unfolded new]])
          fix x
          show "br_allocated (?u x) = br_allocated x
              + sum_list (map (\<lambda>c. if br_parent_budget_id c = Some (br_id x) then br_total c else 0) ?cs)"
            by (simp del: map_map add: children_total[OF len])
        next
          fix c c' assume "c \<in> set ?cs" "c' \<in> set ?cs"
          then show "br_parent_budget_id c \<noteq> Some (br_id c')"
            using parent(1)[of c] noparent[of c'] by simp
        qed (simp_all add: parent(2))
      qed
    qed
  qed
qed

text \<open>The loop of a batch never fails on balanced books, and leaves them balanced.\<close>

lemma settle_items_books:
  assumes "books db" "l \<in> set (leases db)" "lr_id l = lid" "lr_state l = ACTIVE"
    and "\<And>i. i \<in> fst ` set items \<Longrightarrow> i \<in> rr_id ` set (reservations db) \<Longrightarrow> i \<in> already"
  shows "\<exists>db' rs. settle_items lid items already db = Inr (db', rs) \<and> books db' \<and> length rs = length items"
  using assms
proof (induction items arbitrary: already db l)
  case (Cons item items)
  obtain rid a t where item: "item = (rid, a, t)" by (cases item)
  note ok = booksD(1)[OF Cons.prems(1)]
  have found: "lease_by_id db lid = Inr l" using lease_by_id_mem[OF ok] Cons.prems by blast
  consider (dup) "rid \<in> already" | (nil) "rid \<notin> already" "min a (outstanding l) \<le> 0"
    | (pos) "rid \<notin> already" "0 < min a (outstanding l)" by fastforce
  then show ?case
  proof cases
    case dup
    then show ?thesis using Cons.IH[of db l already] Cons.prems item by force
  next
    case nil
    then show ?thesis using Cons.IH[of db l "insert rid already"] Cons.prems item found by force
  next
    case pos
    let ?a = "min a (outstanding l)"
    let ?db = "apply_settlement l rid ?a t db"
    obtain c where c: "budget_by_id db (lr_budget_id l) = Inr c"
      using lease_budget_found[OF ok Cons.prems(2)] by blast
    have "rid \<notin> rr_id ` set (reservations db)" using Cons.prems(5)[of rid] pos item by force
    then have b': "books ?db" using Cons.prems pos by (intro books_settled) auto
    have l': "l\<lparr>lr_settled := lr_settled l + ?a\<rparr> \<in> set (leases ?db)"
      using Cons.prems(2) by (force simp: apply_settlement_def Let_def)
    have "\<exists>db' rs. settle_items lid items (insert rid already) ?db = Inr (db', rs) \<and> books db' \<and> length rs = length items"
    proof (rule Cons.IH[OF b' l'])
      fix i assume i: "i \<in> fst ` set items" "i \<in> rr_id ` set (reservations ?db)"
      then have "i = rid \<or> i \<in> rr_id ` set (reservations db)" by (auto simp: apply_settlement_def Let_def)
      then show "i \<in> insert rid already" using Cons.prems(5) i(1) by auto
    qed (use Cons.prems in auto)
    then show ?thesis using pos item found c by (auto simp: Let_def)
  qed
qed simp

lemma books_anomalies:
  assumes "books db" and "db_ok (record_anomalies l items db)"
  shows "books (record_anomalies l items db)"
  using assms(2)
  by (rule booksI)
     (use booksD[OF assms(1)] in \<open>simp_all add: record_anomalies_def budget_balanced_def res_total_def
        active_total_def child_total_def lease_res_total_def\<close>)

lemma books_commit:
  assumes b: "books db" and s: "ledger_commit_batch i items db = (db', r)"
  shows "books db'"
proof (cases "items = []")
  case False
  show ?thesis
  proof (cases "lease_by_id db i")
    case (Inr l)
    note l = lease_by_idD[OF Inr]
    show ?thesis
    proof (cases "lr_state l = ACTIVE")
      case True
      have "\<exists>new rs. settle_items i items (already_settled items db) db = Inr (new, rs) \<and> books new
          \<and> length rs = length items"
        by (rule settle_items_books[OF b, of l]) (use l True in \<open>auto simp: already_settled_def\<close>)
      then obtain new rs where "settle_items i items (already_settled items db) db = Inr (new, rs)" "books new"
        by blast
      then show ?thesis using s b False Inr True
        by (auto simp: ledger_commit_batch_def commit_tx_def split: if_splits)
    next
      case stopped: False
      then show ?thesis using s False Inr b books_anomalies[OF b]
        by (auto simp: ledger_commit_batch_def commit_tx_def split: if_splits)
    qed
  qed (use s b False in \<open>simp add: ledger_commit_batch_def\<close>)
qed (use s b in \<open>simp add: ledger_commit_batch_def\<close>)

lemma books_step: "ledger_step db db' \<Longrightarrow> books db \<Longrightarrow> books db'"
proof (induction rule: ledger_step.induct)
  case (new_pool b db db' r)
  show ?case
  proof (rule commit_tx_books[OF new_pool(5,6)])
    assume "db_ok (db\<lparr>budgets := budgets db @ [b]\<rparr>)"
    then show "books (db\<lparr>budgets := budgets db @ [b]\<rparr>)"
      using books_new_rows[OF new_pool(6), of "\<lambda>x. x" "[b]"] new_pool by simp
  qed
qed (blast intro: books_split books_acquire books_retire books_commit)+

lemma books_init: "ledger_init db \<Longrightarrow> books db"
proof (rule booksI)
  assume i: "ledger_init db"
  then show "db_ok db" by (simp add: ledger_init_def)
  fix b assume bm: "b \<in> set (budgets db)"
  have "child_total db (br_id b) = sum_list (map (\<lambda>_. 0) (budgets db))"
    unfolding child_total_def by (rule sum_list_map_cong) (use i in \<open>auto simp: ledger_init_def list_all_iff\<close>)
  then show "budget_balanced db b"
    using i bm by (simp add: ledger_init_def list_all_iff budget_balanced_def res_total_def active_total_def)
qed (simp_all add: ledger_init_def)

lemma reachable_books: "ledger_reachable db \<Longrightarrow> books db"
  by (induction rule: ledger_reachable.induct) (simp_all add: books_init books_step)

section \<open>The operations on balanced books\<close>

lemma db_ok_anomalies:
  assumes "db_ok db" "l \<in> set (leases db)" shows "db_ok (record_anomalies l items db)"
proof -
  have "list_all (\<lambda>a. an_lease_id a \<in> set (map lr_id (leases db)))
      (map (\<lambda>(rid, amount, t). \<lparr>an_lease_id = lr_id l, an_reservation_id = rid,
               an_reported_amount = amount, an_lease_state = lr_state l, an_created_at = t\<rparr>) items)"
    using assms(2) by (auto simp: list_all_iff)
  then show ?thesis using assms(1) by (simp add: db_ok_def record_anomalies_def)
qed

lemma commit_inactive:
  assumes b: "books db" and l: "l \<in> set (leases db)" "lr_id l = i" "lr_state l \<noteq> ACTIVE" and items: "items \<noteq> []"
  shows "ledger_commit_batch i items db = (record_anomalies l items db, Inl (LeaseNotActiveError (lr_state l)))"
  using lease_by_id_mem[OF booksD(1)[OF b] l(1)] l items db_ok_anomalies[OF booksD(1)[OF b] l(1)]
  by (simp add: ledger_commit_batch_def commit_tx_def)

lemma commit_active:
  assumes b: "books db" and l: "l \<in> set (leases db)" "lr_id l = i" "lr_state l = ACTIVE"
  obtains db' rs where "settle_items i items (already_settled items db) db = Inr (db', rs)" "books db'"
    "length rs = length items" "ledger_commit_batch i items db = (db', Inr rs)"
proof -
  have "\<exists>db' rs. settle_items i items (already_settled items db) db = Inr (db', rs) \<and> books db'
      \<and> length rs = length items"
    by (rule settle_items_books[OF b l]) (auto simp: already_settled_def)
  then obtain db' rs where "settle_items i items (already_settled items db) db = Inr (db', rs)" "books db'"
    "length rs = length items" by blast
  then show ?thesis
    using that lease_by_id_mem[OF booksD(1)[OF b] l(1)] l booksD(1)
    by (cases "items = []") (auto simp: ledger_commit_batch_def commit_tx_def)
qed

lemma commit_single:
  assumes b: "books db" and l: "l \<in> set (leases db)" "lr_id l = i" "lr_state l = ACTIVE"
  shows "ledger_commit i rid a t db =
     (if rid \<in> rr_id ` set (reservations db) \<or> min a (outstanding l) \<le> 0 then (db, Inr False)
      else (apply_settlement l rid (min a (outstanding l)) t db, Inr True))"
proof -
  note ok = booksD(1)[OF b]
  have found: "lease_by_id db i = Inr l" using lease_by_id_mem[OF ok l(1)] l(2) by simp
  obtain c where c: "budget_by_id db (lr_budget_id l) = Inr c" using lease_budget_found[OF ok l(1)] by blast
  have dup: "rid \<in> already_settled [(rid, a, t)] db \<longleftrightarrow> rid \<in> rr_id ` set (reservations db)"
    by (auto simp: already_settled_def)
  obtain db' rs where "settle_items i [(rid, a, t)] (already_settled [(rid, a, t)] db) db = Inr (db', rs)"
    "ledger_commit_batch i [(rid, a, t)] db = (db', Inr rs)"
    using commit_active[OF b l] by blast
  then show ?thesis using found c dup by (auto simp: ledger_commit_def Let_def split: if_splits)
qed

lemma retire_active:
  assumes b: "books db" and l: "l \<in> set (leases db)" "lr_id l = i" "lr_state l = ACTIVE" and st: "st \<noteq> ACTIVE"
  shows "retire i st db =
     (update_lease i (\<lambda>r. r\<lparr>lr_state := st\<rparr>)
        (update_budget (lr_budget_id l) (\<lambda>c. c\<lparr>br_leased := br_leased c - outstanding l\<rparr>) db), Inr True)"
proof -
  note ok = booksD(1)[OF b]
  have found: "lease_by_id db i = Inr l" using lease_by_id_mem[OF ok l(1)] l(2) by simp
  obtain c where c: "br_id c = lr_budget_id l" "budget_by_id db (lr_budget_id l) = Inr c"
    using lease_budget_found[OF ok l(1)] by blast
  show ?thesis using found c l booksD(1)[OF books_retired[OF b l(1,3) st]]
    by (simp add: retire_def Let_def commit_tx_def)
qed

lemma retire_inactive:
  assumes "books db" "l \<in> set (leases db)" "lr_id l = i" "lr_state l \<noteq> ACTIVE"
  shows "retire i st db = (db, Inr False)"
  using assms lease_by_id_mem[OF booksD(1)[OF assms(1)] assms(2)] by (simp add: retire_def)

lemma acquire_grants:
  assumes b: "books db" and one: "filter (\<lambda>b. br_mandate_id b = mid \<and> br_dimension b = dmn
      \<and> (case agent of Some a \<Rightarrow> br_agent_id b = Some a | None \<Rightarrow> br_parent_budget_id b = None)) (budgets db) = [c]"
    and fresh: "fresh \<notin> lr_id ` set (leases db)" and pos: "0 < amt" "0 < available c"
  shows "\<exists>db' l. acquire fresh mid dmn amt pep ttl t agent db = (db', Inr l) \<and> l \<in> set (leases db')
     \<and> lr_granted l = min amt (available c) \<and> lr_budget_id l = br_id c \<and> lr_expires_at l = t + ttl"
proof -
  have c: "c \<in> set (budgets db)" using filter_one_mem[OF one] by blast
  note ok = booksD(1)[OF b]
  let ?g = "min amt (available c)"
  let ?l = "\<lparr>lr_id = fresh, lr_budget_id = br_id c, lr_pep_id = pep, lr_granted = ?g,
      lr_settled = 0, lr_granted_at = t, lr_expires_at = t + ttl, lr_state = ACTIVE\<rparr>"
  let ?db = "update_budget (br_id c) (\<lambda>r. r\<lparr>br_leased := br_leased r + ?g\<rparr>) db"
  have "db_ok (update_lease fresh (\<lambda>k. k) ?db)"
  proof (rule db_ok_update[OF ok])
    fix d assume d: "d \<in> set (budgets db)" "br_id d = br_id c"
    have "d = c" using budget_by_id_mem[OF ok d(1)] budget_by_id_mem[OF ok c] d(2) by (metis sum.inject(2))
    moreover have "ck_budgets_invariant c" using ok c by (simp add: db_ok_def list_all_iff)
    moreover have "br_leased c + ?g \<le> br_leased c + available c" by simp
    ultimately show "ck_budgets_invariant (d\<lparr>br_leased := br_leased d + ?g\<rparr>)"
      using pos by (auto simp: ck_budgets_invariant_def available_def)
  next
    fix k assume "k \<in> set (leases db)"
    then show "ck_leases_outstanding k" using ok by (simp add: db_ok_def list_all_iff)
  qed simp_all
  moreover have "update_lease fresh (\<lambda>k. k) ?db = ?db" by (simp add: update_lease_def update_budget_def)
  ultimately have "db_ok ?db" by simp
  moreover have "br_id c \<in> set (map br_id (budgets ?db))"
  proof -
    have "map br_id (budgets ?db) = map br_id (budgets db)"
      unfolding update_simps by (rule map_update_keys) simp
    then show ?thesis using c by simp
  qed
  ultimately have "db_ok (?db\<lparr>leases := leases ?db @ [?l]\<rparr>)"
    using fresh pos by (intro db_ok_add_lease) (auto simp: ck_leases_outstanding_def)
  then show ?thesis using one pos by (simp add: acquire_def Let_def commit_tx_def)
qed

section \<open>A batch and its single commits\<close>

fun commit_each :: "uuid \<Rightarrow> commit_item list \<Rightarrow> ledger_db \<Rightarrow> (bool list) ledger_result" where
  "commit_each i [] db = (db, Inr [])"
| "commit_each i ((rid, a, t) # items) db =
     (case ledger_commit i rid a t db of
        (db', Inl e) \<Rightarrow> (db', Inl e)
      | (db', Inr b) \<Rightarrow>
          (case commit_each i items db' of
             (db'', Inl e) \<Rightarrow> (db'', Inl e)
           | (db'', Inr bs) \<Rightarrow> (db'', Inr (b # bs))))"

lemma apply_settlement_lease:
  "l \<in> set (leases db) \<Longrightarrow> l\<lparr>lr_settled := lr_settled l + a\<rparr> \<in> set (leases (apply_settlement l rid a t db))"
  by (force simp: apply_settlement_def Let_def)

lemma apply_settlement_res:
  "rr_id ` set (reservations (apply_settlement l rid a t db)) = insert rid (rr_id ` set (reservations db))"
  by (simp add: apply_settlement_def Let_def)

lemma settle_items_each:
  assumes "books db" "l \<in> set (leases db)" "lr_id l = i" "lr_state l = ACTIVE"
    and "\<And>rid a t. (rid, a, t) \<in> set items \<Longrightarrow> 0 < a"
    and "\<And>r. r \<in> fst ` set items \<Longrightarrow> r \<in> rr_id ` set (reservations db) \<Longrightarrow> r \<in> already"
    and "\<And>r. r \<in> fst ` set items \<Longrightarrow> r \<in> already \<Longrightarrow> r \<in> rr_id ` set (reservations db) \<or> outstanding l \<le> 0"
    and "settle_items i items already db = Inr (db', rs)"
  shows "commit_each i items db = (db', Inr rs)"
  using assms
proof (induction items arbitrary: already db l db' rs)
  case (Cons item items)
  obtain rid a t where item: "item = (rid, a, t)" by (cases item)
  note single = commit_single[OF Cons.prems(1-4), of rid a t]
  have found: "lease_by_id db i = Inr l"
    using lease_by_id_mem[OF booksD(1)[OF Cons.prems(1)]] Cons.prems by blast
  have a: "0 < a" using Cons.prems(5) item by force
  consider (dup) "rid \<in> already" | (nil) "rid \<notin> already" "outstanding l \<le> 0"
    | (pos) "rid \<notin> already" "0 < outstanding l" by fastforce
  then show ?case
  proof cases
    case dup
    then obtain rs' where rs': "settle_items i items already db = Inr (db', rs')" "rs = False # rs'"
      using Cons.prems(8) item by auto
    have "commit_each i items db = (db', Inr rs')"
      by (rule Cons.IH[OF Cons.prems(1-4) _ _ _ rs'(1)]) (use Cons.prems(5-7) in auto)
    moreover have "rid \<in> rr_id ` set (reservations db) \<or> min a (outstanding l) \<le> 0"
      using Cons.prems(7)[of rid] dup item by auto
    ultimately show ?thesis using item rs'(2) single by simp
  next
    case nil
    then have zero: "min a (outstanding l) \<le> 0" by simp
    then obtain rs' where rs': "settle_items i items (insert rid already) db = Inr (db', rs')" "rs = False # rs'"
      using Cons.prems(8) item found nil(1) by (auto simp: Let_def)
    have "commit_each i items db = (db', Inr rs')"
      by (rule Cons.IH[OF Cons.prems(1-4) _ _ _ rs'(1)]) (use Cons.prems(5-7) nil(2) in auto)
    then show ?thesis using item rs'(2) single zero by simp
  next
    case pos
    let ?a = "min a (outstanding l)"
    let ?db = "apply_settlement l rid ?a t db"
    obtain c where c: "budget_by_id db (lr_budget_id l) = Inr c"
      using lease_budget_found[OF booksD(1)[OF Cons.prems(1)] Cons.prems(2)] by blast
    have new: "rid \<notin> rr_id ` set (reservations db)" using Cons.prems(6)[of rid] pos item by force
    have positive: "\<not> ?a \<le> 0" using a pos by simp
    then obtain rs' where rs': "settle_items i items (insert rid already) ?db = Inr (db', rs')" "rs = True # rs'"
      using Cons.prems(8) item found pos(1) c by (auto simp: Let_def)
    have b': "books ?db" using Cons.prems new a pos by (intro books_settled) auto
    have "commit_each i items ?db = (db', Inr rs')"
    proof (rule Cons.IH[OF b' apply_settlement_lease[OF Cons.prems(2)] _ _ _ _ _ rs'(1)])
      fix r assume "r \<in> fst ` set items" "r \<in> insert rid already"
      then show "r \<in> rr_id ` set (reservations ?db)
          \<or> outstanding (l\<lparr>lr_settled := lr_settled l + ?a\<rparr>) \<le> 0"
        using Cons.prems(7)[of r] pos(2) by (auto simp: apply_settlement_res)
    next
      fix r assume "r \<in> fst ` set items" "r \<in> rr_id ` set (reservations ?db)"
      then show "r \<in> insert rid already" using Cons.prems(6)[of r] by (auto simp: apply_settlement_res)
    qed (use Cons.prems(3-5) in auto)
    then show ?thesis using item rs'(2) single new positive by simp
  qed
qed simp

section \<open>The reaper\<close>

lemma reap_each_all:
  assumes "books db" "distinct is" "\<And>i. i \<in> set is \<Longrightarrow> \<exists>l \<in> set (leases db). lr_id l = i \<and> lr_state l = ACTIVE"
  shows "\<exists>db'. reap_each is acc db = (db', Inr (acc @ is)) \<and> books db'
    \<and> leases db' = map (\<lambda>l. if lr_id l \<in> set is then l\<lparr>lr_state := EXPIRED\<rparr> else l) (leases db)"
  using assms
proof (induction "is" arbitrary: db acc)
  case (Cons i "is")
  obtain l where l: "l \<in> set (leases db)" "lr_id l = i" "lr_state l = ACTIVE" using Cons.prems(3) by auto
  let ?db = "update_lease i (\<lambda>r. r\<lparr>lr_state := EXPIRED\<rparr>)
        (update_budget (lr_budget_id l) (\<lambda>c. c\<lparr>br_leased := br_leased c - outstanding l\<rparr>) db)"
  have ret: "retire i EXPIRED db = (?db, Inr True)" using retire_active[OF Cons.prems(1) l] by simp
  have b': "books ?db" using books_retired[OF Cons.prems(1) l(1,3), of EXPIRED] l(2) by simp
  have act: "\<exists>k \<in> set (leases ?db). lr_id k = j \<and> lr_state k = ACTIVE" if j: "j \<in> set is" for j
  proof -
    obtain k where "k \<in> set (leases db)" "lr_id k = j" "lr_state k = ACTIVE" using Cons.prems(3) j by auto
    moreover have "j \<noteq> i" using Cons.prems(2) j by auto
    ultimately have "k \<in> set (leases ?db)" by (auto simp: image_iff intro!: bexI[of _ k])
    then show ?thesis using \<open>lr_id k = j\<close> \<open>lr_state k = ACTIVE\<close> by blast
  qed
  obtain db' where "reap_each is (acc @ [i]) ?db = (db', Inr ((acc @ [i]) @ is))" "books db'"
    "leases db' = map (\<lambda>l. if lr_id l \<in> set is then l\<lparr>lr_state := EXPIRED\<rparr> else l) (leases ?db)"
    using Cons.IH[OF b' _ act, of "acc @ [i]"] Cons.prems(2) by auto
  then show ?case using ret by (auto simp: comp_def intro!: map_cong)
qed simp

lemma reap_exact:
  assumes b: "books db"
  shows "\<exists>db'. reap t db = (db', Inr (reap_candidates t db)) \<and> books db'
    \<and> leases db' = map (\<lambda>l. if lr_state l = ACTIVE \<and> lr_expires_at l < t - SKEW_ALLOWANCE
                            then l\<lparr>lr_state := EXPIRED\<rparr> else l) (leases db)"
proof -
  have dist: "distinct (map lr_id (leases db))" using booksD(1)[OF b] by (simp add: db_ok_def)
  then have d: "distinct (reap_candidates t db)" by (auto simp: reap_candidates_def Let_def intro: distinct_map_filter)
  have mem: "lr_id l \<in> set (reap_candidates t db) \<longleftrightarrow> lr_state l = ACTIVE \<and> lr_expires_at l < t - SKEW_ALLOWANCE"
    if "l \<in> set (leases db)" for l
  proof
    assume "lr_id l \<in> set (reap_candidates t db)"
    then obtain k where k: "k \<in> set (leases db)" "lr_id k = lr_id l" "lr_state k = ACTIVE" "lr_expires_at k < t - SKEW_ALLOWANCE"
      by (auto simp: reap_candidates_def Let_def)
    then have "k = l" using that dist by (metis eq_key_imp_eq_value inj_on_def distinct_map)
    then show "lr_state l = ACTIVE \<and> lr_expires_at l < t - SKEW_ALLOWANCE" using k by simp
  qed (use that in \<open>auto simp: reap_candidates_def Let_def\<close>)
  obtain db' where "reap_each (reap_candidates t db) [] db = (db', Inr ([] @ reap_candidates t db))" "books db'"
    "leases db' = map (\<lambda>l. if lr_id l \<in> set (reap_candidates t db) then l\<lparr>lr_state := EXPIRED\<rparr> else l) (leases db)"
    using reap_each_all[OF b d, of "[]"] by (force simp: reap_candidates_def Let_def)
  then show ?thesis using mem by (auto simp: reap_def)
qed

section \<open>Properties\<close>

text \<open>
  C5: In every state any interleaving of splits, acquires, commits, releases, reaper passes
  and new pools can reach, the books balance: each budget's \<open>committed\<close> is the sum of its
  settled reservations, \<open>leased\<close> the outstanding total of its active leases, \<open>allocated\<close> the total
  of its child allocations, none is negative, and together they never exceed \<open>total\<close>, so a
  budget is never overspent.
\<close>
theorem reachable_ledger_balances:
  assumes "ledger_reachable db" and "b \<in> set (budgets db)"
  shows "br_committed b = res_total db (br_id b) \<and> br_leased b = active_total db (br_id b)
    \<and> br_allocated b = child_total db (br_id b)
    \<and> 0 \<le> br_committed b \<and> 0 \<le> br_leased b \<and> 0 \<le> br_allocated b
    \<and> br_committed b + br_leased b + br_allocated b \<le> br_total b"
proof -
  have b: "books db" using reachable_books[OF assms(1)] .
  have "ck_budgets_invariant b" using booksD(1)[OF b] assms(2) by (simp add: db_ok_def list_all_iff)
  then show ?thesis using booksD(2)[OF b assms(2)] by (simp add: budget_balanced_def ck_budgets_invariant_def)
qed

text \<open>
  A commit on a reachable ledger does exactly what the specification of \<open>LEDGER_COMMIT\<close>
  says, on every branch: against an active lease a new reservation moves the clamped amount from
  \<open>leased\<close> to \<open>committed\<close> and returns \<open>True\<close>; a reservation already settled, or one with nothing
  left to apply, changes nothing and returns \<open>False\<close>; against a lease that left \<open>active\<close> the
  report becomes an anomaly row and \<open>LeaseNotActiveError\<close>.  The schema is never violated.
\<close>
theorem ledger_commit_exact:
  assumes "ledger_reachable db" and "l \<in> set (leases db)"
  shows "ledger_commit (lr_id l) rid a t db =
    (if lr_state l \<noteq> ACTIVE
     then (record_anomalies l [(rid, a, t)] db, Inl (LeaseNotActiveError (lr_state l)))
     else if rid \<in> rr_id ` set (reservations db) \<or> min a (outstanding l) \<le> 0 then (db, Inr False)
     else (apply_settlement l rid (min a (outstanding l)) t db, Inr True))"
  using commit_single[OF reachable_books[OF assms(1)] assms(2) refl, of rid a t]
    commit_inactive[OF reachable_books[OF assms(1)] assms(2) refl, of "[(rid, a, t)]"]
  by (cases "lr_state l = ACTIVE") (simp_all add: ledger_commit_def)

text \<open>
  Commits are idempotent by reservation id: after a commit that applied, repeating the
  reservation with any amount at any time leaves the ledger as it is and reports \<open>False\<close>.
\<close>
theorem ledger_commit_idempotent:
  assumes "ledger_reachable db" and "l \<in> set (leases db)"
    and "ledger_commit (lr_id l) rid a t db = (db', Inr True)"
  shows "ledger_commit (lr_id l) rid a' t' db' = (db', Inr False)"
proof -
  have b: "books db" using reachable_books[OF assms(1)] .
  have act: "lr_state l = ACTIVE"
    using assms(3) commit_inactive[OF b assms(2) refl, of "[(rid, a, t)]"]
    by (cases "lr_state l = ACTIVE") (auto simp: ledger_commit_def)
  let ?x = "min a (outstanding l)"
  have app: "db' = apply_settlement l rid ?x t db" and new: "rid \<notin> rr_id ` set (reservations db)" and "0 < ?x"
    using assms(3) commit_single[OF b assms(2) refl act, of rid a t] by (auto split: if_splits)
  then have b': "books db'" using books_settled[OF b assms(2) act, of ?x rid t] by simp
  show ?thesis
    using commit_single[OF b', of "l\<lparr>lr_settled := lr_settled l + ?x\<rparr>" "lr_id l" rid a' t']
      apply_settlement_lease[OF assms(2)] act by (simp add: app apply_settlement_res)
qed

lemma batch_each:
  assumes b: "books db" and l: "l \<in> set (leases db)" "lr_id l = i" "lr_state l = ACTIVE"
    and pos: "\<forall>(rid, a, t) \<in> set items. 0 < a"
  shows "ledger_commit_batch i items db = commit_each i items db"
proof -
  obtain db' rs where s: "settle_items i items (already_settled items db) db = Inr (db', rs)"
    "ledger_commit_batch i items db = (db', Inr rs)"
    using commit_active[OF b l] by blast
  have "commit_each i items db = (db', Inr rs)"
    by (rule settle_items_each[OF b l _ _ _ s(1)]) (use pos in \<open>auto simp: already_settled_def\<close>)
  then show ?thesis using s(2) by simp
qed

text \<open>
  A batch of settlements against one active lease is its single commits in order, results
  included, when every reported amount is positive: the cumulative clamp and the dedup set of
  the batch do exactly what the repeated reads of the single commits do.
\<close>
theorem commit_batch_is_sequence:
  assumes "ledger_reachable db" and "l \<in> set (leases db)" and "lr_state l = ACTIVE"
    and "\<forall>(rid, a, t) \<in> set items. 0 < a"
  shows "ledger_commit_batch (lr_id l) items db = commit_each (lr_id l) items db"
  using batch_each[OF reachable_books[OF assms(1)] assms(2) refl assms(3,4)] .

text \<open>
  A lease returns its outstanding amount exactly once.  Releasing an active lease of a
  reachable ledger takes its \<open>outstanding\<close> off the budget's \<open>leased\<close> and reports \<open>True\<close>; a second
  release, or a reaper reaching the same lease, changes nothing and reports \<open>False\<close>.
\<close>
theorem release_exactly_once:
  assumes "ledger_reachable db" and "l \<in> set (leases db)" and "lr_state l = ACTIVE"
  shows "\<exists>db'. release (lr_id l) db = (db', Inr True)
    \<and> (\<forall>b \<in> set (budgets db). br_id b = lr_budget_id l \<longrightarrow>
         b\<lparr>br_leased := br_leased b - outstanding l\<rparr> \<in> set (budgets db'))
    \<and> release (lr_id l) db' = (db', Inr False) \<and> retire (lr_id l) EXPIRED db' = (db', Inr False)"
proof -
  have b: "books db" using reachable_books[OF assms(1)] .
  let ?db = "update_lease (lr_id l) (\<lambda>r. r\<lparr>lr_state := RELEASED\<rparr>)
      (update_budget (lr_budget_id l) (\<lambda>c. c\<lparr>br_leased := br_leased c - outstanding l\<rparr>) db)"
  have rel: "release (lr_id l) db = (?db, Inr True)"
    using retire_active[OF b assms(2) refl assms(3), of RELEASED] by (simp add: release_def)
  have b': "books ?db" using books_retired[OF b assms(2,3), of RELEASED] by simp
  have l': "l\<lparr>lr_state := RELEASED\<rparr> \<in> set (leases ?db)" using assms(2) by force
  have again: "retire (lr_id l) st ?db = (?db, Inr False)" for st
    using retire_inactive[OF b' l', of "lr_id l" st] by simp
  have "c\<lparr>br_leased := br_leased c - outstanding l\<rparr> \<in> set (budgets ?db)"
    if "c \<in> set (budgets db)" "br_id c = lr_budget_id l" for c
    using that by force
  then show ?thesis using rel again by (auto simp: release_def)
qed

text \<open>
  A pass of the reaper over a reachable ledger succeeds and expires exactly the active
  leases whose expiry is more than the skew allowance past: none earlier, so no lease a lagging
  PEP may still be using is handed out again, and none of those is left behind.
\<close>
theorem reap_expires_exactly:
  assumes "ledger_reachable db"
  shows "\<exists>db'. reap t db = (db', Inr (reap_candidates t db))
    \<and> leases db' = map (\<lambda>l. if lr_state l = ACTIVE \<and> lr_expires_at l + SKEW_ALLOWANCE < t
                            then l\<lparr>lr_state := EXPIRED\<rparr> else l) (leases db)"
proof -
  have "x < t - SKEW_ALLOWANCE \<longleftrightarrow> x + SKEW_ALLOWANCE < t" for x by linarith
  then show ?thesis using reap_exact[OF reachable_books[OF assms], of t] by auto
qed

text \<open>
  An acquire on a reachable ledger with a fresh lease id grants the smaller of the request
  and what is available, expiring after its time to live; the schema never refuses it.
\<close>
theorem acquire_grants_minimum:
  assumes "ledger_reachable db"
    and "filter (\<lambda>b. br_mandate_id b = mid \<and> br_dimension b = dmn
      \<and> (case agent of Some a \<Rightarrow> br_agent_id b = Some a | None \<Rightarrow> br_parent_budget_id b = None)) (budgets db) = [c]"
    and "fresh \<notin> lr_id ` set (leases db)" and "0 < amt" and "0 < available c"
  shows "\<exists>db' l. acquire fresh mid dmn amt pep ttl t agent db = (db', Inr l) \<and> l \<in> set (leases db')
     \<and> lr_granted l = min amt (available c) \<and> lr_budget_id l = br_id c \<and> lr_expires_at l = t + ttl"
  using acquire_grants[OF reachable_books[OF assms(1)] assms(2-5)] .

section \<open>Witnesses\<close>

definition demo_pool :: budget_row where
  "demo_pool = \<lparr>br_id = 1, br_mandate_id = 11, br_dimension = ''spend_bdt'', br_total = 100,
     br_committed = 0, br_leased = 0, br_allocated = 0, br_parent_budget_id = None,
     br_agent_id = None, br_version = 0\<rparr>"

definition demo_ledger :: ledger_db where
  "demo_ledger = \<lparr>budgets = [demo_pool], leases = [], reservations = [], anomalies = []\<rparr>"

definition demo_leased :: ledger_db where
  "demo_leased = fst (acquire 5 11 ''spend_bdt'' 40 ''pep'' (seconds 60) 0 None demo_ledger)"

definition demo_lease :: lease_row where
  "demo_lease = \<lparr>lr_id = 5, lr_budget_id = 1, lr_pep_id = ''pep'', lr_granted = 40, lr_settled = 0,
     lr_granted_at = 0, lr_expires_at = seconds 60, lr_state = ACTIVE\<rparr>"

lemma demo_reachable: "ledger_reachable demo_ledger" "ledger_reachable demo_leased"
proof -
  have "ledger_init demo_ledger" by code_simp
  then show "ledger_reachable demo_ledger" by (rule ledger_reachable.init)
  then show "ledger_reachable demo_leased" unfolding demo_leased_def
    by (rule ledger_reachable.step) (rule ledger_step.acquire[OF prod.collapse[symmetric]])
qed

lemma demo_lease_in: "demo_lease \<in> set (leases demo_leased)" "lr_state demo_lease = ACTIVE"
  by code_simp+

lemma demo_commit:
  "ledger_commit (lr_id demo_lease) 7 50 0 demo_leased
     = (fst (ledger_commit (lr_id demo_lease) 7 50 0 demo_leased), Inr True)"
  by code_simp

theorem reachable_ledger_balances_witness:
  "\<exists>b \<in> set (budgets demo_leased). br_leased b = 40 \<and> br_leased b = active_total demo_leased (br_id b)
     \<and> br_committed b + br_leased b + br_allocated b \<le> br_total b"
proof -
  have m: "demo_pool\<lparr>br_leased := 40\<rparr> \<in> set (budgets demo_leased)" by code_simp
  show ?thesis
    by (rule bexI[OF _ m]) (use reachable_ledger_balances[OF demo_reachable(2) m] in simp)
qed

theorem ledger_commit_exact_witness:
  "ledger_commit 5 7 50 0 demo_leased = (apply_settlement demo_lease 7 40 0 demo_leased, Inr True)"
proof -
  have "7 \<notin> rr_id ` set (reservations demo_leased)" "lr_id demo_lease = 5" "min 50 (outstanding demo_lease) = 40"
    by code_simp+
  then show ?thesis
    using ledger_commit_exact[OF demo_reachable(2) demo_lease_in(1), of 7 50 0] demo_lease_in(2) by simp
qed

theorem ledger_commit_idempotent_witness:
  "\<exists>db'. ledger_commit (lr_id demo_lease) 7 50 0 demo_leased = (db', Inr True)
     \<and> ledger_commit (lr_id demo_lease) 7 10 1 db' = (db', Inr False)"
  using demo_commit ledger_commit_idempotent[OF demo_reachable(2) demo_lease_in(1) demo_commit] by blast

theorem commit_batch_is_sequence_witness:
  "ledger_commit_batch (lr_id demo_lease) [(7, 30, 0), (8, 30, 0), (7, 5, 0)] demo_leased
     = commit_each (lr_id demo_lease) [(7, 30, 0), (8, 30, 0), (7, 5, 0)] demo_leased"
  by (rule commit_batch_is_sequence[OF demo_reachable(2) demo_lease_in]) simp

theorem release_exactly_once_witness:
  "\<exists>db'. release (lr_id demo_lease) demo_leased = (db', Inr True)
     \<and> release (lr_id demo_lease) db' = (db', Inr False)"
  using release_exactly_once[OF demo_reachable(2) demo_lease_in] by blast

theorem reap_expires_exactly_witness:
  "\<exists>db'. reap (seconds 66) demo_leased = (db', Inr [5])"
proof -
  have "reap_candidates (seconds 66) demo_leased = [5]" by code_simp
  then show ?thesis using reap_expires_exactly[OF demo_reachable(2), of "seconds 66"] by auto
qed

theorem acquire_grants_minimum_witness:
  "\<exists>db' l. acquire 5 11 ''spend_bdt'' 140 ''pep'' (seconds 60) 0 None demo_ledger = (db', Inr l)
     \<and> lr_granted l = 100"
proof -
  have "filter (\<lambda>b. br_mandate_id b = 11 \<and> br_dimension b = ''spend_bdt''
      \<and> (case None of Some a \<Rightarrow> br_agent_id b = Some a | None \<Rightarrow> br_parent_budget_id b = None))
      (budgets demo_ledger) = [demo_pool]"
    "(5 :: uuid) \<notin> lr_id ` set (leases demo_ledger)" "0 < available demo_pool" "available demo_pool = 100"
    by (simp_all add: demo_ledger_def demo_pool_def available_def)
  then show ?thesis
    using acquire_grants_minimum[OF demo_reachable(1), of 11 "''spend_bdt''" None demo_pool 5 140] by fastforce
qed

text \<open>
  The claim that a batch is identical to one commit per item does not extend to amounts
  that clamp to nothing: the batch remembers such a reservation id and skips a later item with
  the same id, which its single commit would apply.
\<close>
theorem batch_skips_repeat_after_zero:
  "snd (ledger_commit_batch 5 [(7, 0, 0), (7, 10, 0)] demo_leased) = Inr [False, False]
   \<and> snd (commit_each 5 [(7, 0, 0), (7, 10, 0)] demo_leased) = Inr [False, True]"
proof
  show "snd (ledger_commit_batch 5 [(7, 0, 0), (7, 10, 0)] demo_leased) = Inr [False, False]" by code_simp
  show "snd (commit_each 5 [(7, 0, 0), (7, 10, 0)] demo_leased) = Inr [False, True]" by code_simp
qed

end
