(* ===== verification/Pool.thy ===== *)
theory Pool
  imports Decision Ledger
begin

text \<open>
  The budget an enforcement point holds: \<open>agentiam_pep/lease.py\<close> (\<open>reserve\<close> and \<open>commit\<close> on one
  local lease) and \<open>agentiam_pep/pool.py\<close> (the pool of leases \<open>decide\<close> asks and the pipeline
  reserves from).

  The synchronous methods are functions of the pool and the clock.  A top-up is asynchronous:
  \<open>schedule_topup\<close> marks it as running, \<open>pool_acquire\<close> is what happens when the ledger's answer
  arrives (the pool and the lease it hands back), \<open>topup_done\<close> its \<open>finally\<close>.  Between them any
  synchronous call may run.  \<open>loop\<close> says whether an event loop is running.
\<close>

section \<open>Local leases\<close>

record local_lease =
  ll_id :: uuid
  ll_granted :: decimal
  ll_remaining_local :: decimal
  ll_expires_at :: instant
  ll_state :: lease_state

record reservation =
  rz_id :: uuid
  rz_lease_id :: uuid
  rz_amount :: decimal

record commit_outcome =
  co_reservation_id :: uuid
  co_lease_id :: uuid
  co_amount :: decimal
  co_escalated :: bool

datatype pool_error = ReservationInsufficientError | PoolValueError

definition reserve_local ::
  "uuid \<Rightarrow> local_lease \<Rightarrow> decimal \<Rightarrow> instant \<Rightarrow> int \<Rightarrow> local_lease \<times> (pool_error + reservation)" where
  "reserve_local fresh lease amount now_t skew =
     (if amount < 0 then (lease, Inl PoolValueError)
      else if ll_state lease \<noteq> ACTIVE then (lease, Inl ReservationInsufficientError)
      else if now_t \<ge> ll_expires_at lease - skew then (lease, Inl ReservationInsufficientError)
      else if ll_remaining_local lease < amount then (lease, Inl ReservationInsufficientError)
      else (lease\<lparr>ll_remaining_local := ll_remaining_local lease - amount\<rparr>,
            Inr \<lparr>rz_id = fresh, rz_lease_id = ll_id lease, rz_amount = amount\<rparr>))"

text \<open>The reservation that covers a shortfall is made for its effect on the lease only.\<close>

definition commit_local ::
  "local_lease \<Rightarrow> reservation \<Rightarrow> decimal \<Rightarrow> instant \<Rightarrow> int \<Rightarrow> local_lease \<times> commit_outcome" where
  "commit_local lease r actual now_t skew =
     (let delta = actual - rz_amount r;
          (lease', escalated) =
            (if delta > 0
             then (case reserve_local 0 lease delta now_t skew of
                     (l, Inr _) \<Rightarrow> (l, False)
                   | (l, Inl _) \<Rightarrow> (l, True))
             else if delta < 0
             then (lease\<lparr>ll_remaining_local := ll_remaining_local lease + - delta\<rparr>, False)
             else (lease, False))
      in (lease', \<lparr>co_reservation_id = rz_id r, co_lease_id = ll_id lease, co_amount = actual,
                   co_escalated = escalated\<rparr>))"

section \<open>The pool\<close>

record pool_settings =
  ps_pep_id :: string
  ps_lease_size :: decimal
  ps_ttl :: int
  ps_skew :: int
  ps_low_water :: decimal

definition mk_pool_settings :: "pool_settings \<Rightarrow> pool_error + pool_settings" where
  "mk_pool_settings p =
     (if ps_lease_size p \<le> 0 then Inl PoolValueError
      else if \<not> (0 \<le> ps_low_water p \<and> ps_low_water p < 1) then Inl PoolValueError
      else if ps_ttl p \<le> 2 * ps_skew p then Inl PoolValueError
      else Inr p)"

record held =
  hd_lease :: local_lease
  hd_topping_up :: bool
  hd_mandate_exhausted :: bool

record lease_pool =
  pl_settings :: pool_settings
  pl_held :: "budget_dimension \<Rightarrow> held option"
  pl_closed :: bool
  pl_renewer :: bool

record lease_grant =
  lg_id :: uuid
  lg_granted :: decimal
  lg_expires_at :: instant

definition new_lease :: "lease_grant \<Rightarrow> local_lease" where
  "new_lease g =
     \<lparr>ll_id = lg_id g, ll_granted = lg_granted g, ll_remaining_local = lg_granted g,
      ll_expires_at = lg_expires_at g, ll_state = ACTIVE\<rparr>"

definition new_pool :: "pool_settings \<Rightarrow> lease_pool" where
  "new_pool settings = \<lparr>pl_settings = settings, pl_held = (\<lambda>_. None), pl_closed = False, pl_renewer = False\<rparr>"

definition set_held :: "budget_dimension \<Rightarrow> held \<Rightarrow> lease_pool \<Rightarrow> lease_pool" where
  "set_held d h p = p\<lparr>pl_held := (pl_held p)(d \<mapsto> h)\<rparr>"

text \<open>
  The second half of \<open>_acquire\<close>, on the ledger's answer: the pool, the lease to release (after
  \<open>before_release\<close>), and the grant.
\<close>

definition pool_acquire ::
  "budget_dimension \<Rightarrow> lease_grant option \<Rightarrow> lease_pool \<Rightarrow> lease_pool \<times> uuid option \<times> lease_grant option" where
  "pool_acquire d answer p =
     (case answer of
        None \<Rightarrow>
          (case pl_held p d of
             None \<Rightarrow> (p, None, None)
           | Some h \<Rightarrow> (set_held d (h\<lparr>hd_mandate_exhausted := True\<rparr>) p, None, None))
      | Some g \<Rightarrow>
          (case pl_held p d of
             None \<Rightarrow>
               (set_held d \<lparr>hd_lease = new_lease g, hd_topping_up = False, hd_mandate_exhausted = False\<rparr> p,
                None, Some g)
           | Some h \<Rightarrow>
               (set_held d (h\<lparr>hd_lease := new_lease g, hd_mandate_exhausted := False\<rparr>) p,
                Some (ll_id (hd_lease h)), Some g)))"

definition prime :: "budget_dimension \<Rightarrow> lease_grant option \<Rightarrow> lease_pool \<Rightarrow> lease_pool \<times> bool" where
  "prime d answer p =
     (if pl_held p d \<noteq> None then (p, True)
      else (case pool_acquire d answer p of (p', _, g) \<Rightarrow> (p', g \<noteq> None)))"

definition schedule_topup :: "bool \<Rightarrow> budget_dimension \<Rightarrow> held \<Rightarrow> lease_pool \<Rightarrow> lease_pool" where
  "schedule_topup loop d h p =
     (if hd_topping_up h \<or> pl_closed p then p
      else if \<not> loop then p
      else set_held d (h\<lparr>hd_topping_up := True\<rparr>) p)"

definition maybe_schedule_topup :: "bool \<Rightarrow> instant \<Rightarrow> budget_dimension \<Rightarrow> held \<Rightarrow> lease_pool \<Rightarrow> lease_pool" where
  "maybe_schedule_topup loop now_t d h p =
     (if hd_topping_up h \<or> pl_closed p then p
      else
       (let lease = hd_lease h;
            drained = ll_remaining_local lease \<le> ll_granted lease * ps_low_water (pl_settings p);
            stale = ll_state lease \<noteq> ACTIVE \<or> now_t \<ge> ll_expires_at lease - ps_skew (pl_settings p)
        in if \<not> (drained \<or> stale) then p else schedule_topup loop d h p))"

definition topup_done :: "budget_dimension \<Rightarrow> lease_pool \<Rightarrow> lease_pool" where
  "topup_done d p =
     (case pl_held p d of None \<Rightarrow> p | Some h \<Rightarrow> set_held d (h\<lparr>hd_topping_up := False\<rparr>) p)"

definition pool_reserve ::
  "uuid \<Rightarrow> bool \<Rightarrow> instant \<Rightarrow> budget_dimension \<Rightarrow> decimal \<Rightarrow> lease_pool
   \<Rightarrow> lease_pool \<times> (pool_error + reservation)" where
  "pool_reserve fresh loop now_t d amount p =
     (case pl_held p d of
        None \<Rightarrow> (p, Inl ReservationInsufficientError)
      | Some h \<Rightarrow>
          (if pl_closed p then (p, Inl ReservationInsufficientError)
           else (case reserve_local fresh (hd_lease h) amount now_t (ps_skew (pl_settings p)) of
                   (_, Inl e) \<Rightarrow> (p, Inl e)
                 | (lease, Inr r) \<Rightarrow>
                     (let h' = h\<lparr>hd_lease := lease\<rparr>
                      in (maybe_schedule_topup loop now_t d h' (set_held d h' p), Inr r)))))"

definition pool_commit ::
  "instant \<Rightarrow> budget_dimension \<Rightarrow> reservation \<Rightarrow> decimal \<Rightarrow> lease_pool
   \<Rightarrow> lease_pool \<times> (pool_error + commit_outcome)" where
  "pool_commit now_t d r actual p =
     (case pl_held p d of
        None \<Rightarrow> (p, Inl ReservationInsufficientError)
      | Some h \<Rightarrow>
          (case commit_local (hd_lease h) r actual now_t (ps_skew (pl_settings p)) of
             (lease, out) \<Rightarrow> (set_held d (h\<lparr>hd_lease := lease\<rparr>) p, Inr out)))"

text \<open>\<open>check\<close> walks the requested dimensions in order and asks for a top-up when it refuses.\<close>

fun check_dims ::
  "bool \<Rightarrow> instant \<Rightarrow> budget_dimension list \<Rightarrow> (budget_dimension \<Rightarrow> decimal) \<Rightarrow> lease_pool
   \<Rightarrow> lease_pool \<times> budget_verdict" where
  "check_dims loop now_t [] req p =
     (p, \<lparr>bv_ok = True, bv_exhausted_dimension = None, bv_mandate_exhausted = False\<rparr>)"
| "check_dims loop now_t (d # ds) req p =
     (if req d \<le> 0 then check_dims loop now_t ds req p
      else (case pl_held p d of
              None \<Rightarrow> (p, \<lparr>bv_ok = False, bv_exhausted_dimension = Some d, bv_mandate_exhausted = False\<rparr>)
            | Some h \<Rightarrow>
                (if pl_closed p
                 then (p, \<lparr>bv_ok = False, bv_exhausted_dimension = Some d, bv_mandate_exhausted = False\<rparr>)
                 else
                  (let lease = hd_lease h in
                   if ll_state lease \<noteq> ACTIVE
                      \<or> now_t \<ge> ll_expires_at lease - ps_skew (pl_settings p)
                      \<or> ll_remaining_local lease < req d
                   then (maybe_schedule_topup loop now_t d h p,
                         \<lparr>bv_ok = False, bv_exhausted_dimension = Some d,
                          bv_mandate_exhausted = hd_mandate_exhausted h\<rparr>)
                   else check_dims loop now_t ds req p))))"

definition pool_check ::
  "bool \<Rightarrow> instant \<Rightarrow> (budget_dimension \<Rightarrow> decimal) \<Rightarrow> lease_pool \<Rightarrow> lease_pool \<times> budget_verdict" where
  "pool_check loop now_t req p = check_dims loop now_t all_dimensions req p"

definition remaining :: "budget_dimension \<Rightarrow> lease_pool \<Rightarrow> decimal" where
  "remaining d p = (case pl_held p d of None \<Rightarrow> 0 | Some h \<Rightarrow> ll_remaining_local (hd_lease h))"

text \<open>
  Renewal: \<open>start\<close> launches the sweep once; a sweep replaces every lease past half its time to
  live, a \<open>timedelta\<close> division that rounds half to even.
\<close>

definition pool_start :: "lease_pool \<Rightarrow> lease_pool" where
  "pool_start p = (if \<not> pl_renewer p \<and> \<not> pl_closed p then p\<lparr>pl_renewer := True\<rparr> else p)"

definition renew_margin :: "pool_settings \<Rightarrow> int" where
  "renew_margin settings =
     (let q = ps_ttl settings div 2 in if even (ps_ttl settings) \<or> even q then q else q + 1)"

definition renew_due :: "instant \<Rightarrow> pool_settings \<Rightarrow> held \<Rightarrow> bool" where
  "renew_due now_t settings h =
     (ll_state (hd_lease h) \<noteq> ACTIVE
      \<or> now_t \<ge> ll_expires_at (hd_lease h) - renew_margin settings)"

definition renew_sweep :: "bool \<Rightarrow> instant \<Rightarrow> lease_pool \<Rightarrow> lease_pool" where
  "renew_sweep loop now_t p =
     (if pl_closed p \<or> \<not> pl_renewer p then p
      else fold (\<lambda>d q. case pl_held p d of
                          None \<Rightarrow> q
                        | Some h \<Rightarrow> if renew_due now_t (pl_settings p) h then schedule_topup loop d h q else q)
             all_dimensions p)"

text \<open>\<open>aclose\<close>, once the top-ups in flight are drained: the pool and the leases to release.\<close>

definition pool_aclose :: "lease_pool \<Rightarrow> lease_pool \<times> uuid list" where
  "pool_aclose p =
     (p\<lparr>pl_renewer := False, pl_closed := True,
        pl_held := (\<lambda>d. map_option (\<lambda>h. if ll_state (hd_lease h) = ACTIVE
                                          then h\<lparr>hd_lease := (hd_lease h)\<lparr>ll_state := RELEASED\<rparr>\<rparr> else h)
                                   (pl_held p d))\<rparr>,
      List.map_filter (\<lambda>d. case pl_held p d of
                              None \<Rightarrow> None
                            | Some h \<Rightarrow> if ll_state (hd_lease h) = ACTIVE then Some (ll_id (hd_lease h)) else None)
        all_dimensions)"

section \<open>Runs of one lease\<close>

text \<open>
  One local lease under any sequence of reservations and settlements.  The state keeps the
  reservations that are open and what has been settled of the lease: the reported amount, or
  the reserved one when the shortfall could not be covered (\<open>escalated\<close>).
\<close>

type_synonym lease_run = "local_lease \<times> reservation list \<times> decimal"

inductive lease_step :: "int \<Rightarrow> lease_run \<Rightarrow> lease_run \<Rightarrow> bool" for skew where
  reserve: "reserve_local fresh l amount now_t skew = (l', Inr r)
            \<Longrightarrow> lease_step skew (l, rs, settled) (l', r # rs, settled)"
| refused: "reserve_local fresh l amount now_t skew = (l', Inl e)
            \<Longrightarrow> lease_step skew (l, rs, settled) (l', rs, settled)"
| commit: "r \<in> set rs \<Longrightarrow> 0 \<le> actual \<Longrightarrow> commit_local l r actual now_t skew = (l', out)
           \<Longrightarrow> lease_step skew (l, rs, settled)
                 (l', remove1 r rs, settled + (if co_escalated out then rz_amount r else actual))"
| retire: "lease_step skew (l, rs, settled) (l\<lparr>ll_state := st\<rparr>, rs, settled)"

inductive lease_run_from :: "int \<Rightarrow> lease_grant \<Rightarrow> lease_run \<Rightarrow> bool" for skew g where
  start: "lease_run_from skew g (new_lease g, [], 0)"
| step: "lease_run_from skew g x \<Longrightarrow> lease_step skew x y \<Longrightarrow> lease_run_from skew g y"

definition open_total :: "reservation list \<Rightarrow> decimal" where
  "open_total rs = sum_list (map rz_amount rs)"

definition lease_run_inv :: "lease_grant \<Rightarrow> lease_run \<Rightarrow> bool" where
  "lease_run_inv g x = (case x of (l, rs, settled) \<Rightarrow>
     ll_id l = lg_id g \<and> ll_granted l = lg_granted g
     \<and> ll_remaining_local l + open_total rs + settled = lg_granted g
     \<and> 0 \<le> ll_remaining_local l \<and> 0 \<le> settled
     \<and> (\<forall>r \<in> set rs. 0 \<le> rz_amount r \<and> rz_lease_id r = lg_id g))"

section \<open>Lemmas\<close>

lemma reserve_local_Inr:
  assumes "reserve_local fresh l amount now_t skew = (l', Inr r)"
  shows "0 \<le> amount" "ll_state l = ACTIVE" "now_t < ll_expires_at l - skew" "amount \<le> ll_remaining_local l"
    "l' = l\<lparr>ll_remaining_local := ll_remaining_local l - amount\<rparr>"
    "r = \<lparr>rz_id = fresh, rz_lease_id = ll_id l, rz_amount = amount\<rparr>"
  using assms by (auto simp: reserve_local_def not_less not_le split: if_splits)

lemma reserve_local_Inl: "reserve_local fresh l amount now_t skew = (l', Inl e) \<Longrightarrow> l' = l"
  by (auto simp: reserve_local_def split: if_splits)

lemma reserve_local_ok_iff:
  "is_ok (snd (reserve_local fresh l amount now_t skew)) \<longleftrightarrow>
     0 \<le> amount \<and> ll_state l = ACTIVE \<and> now_t < ll_expires_at l - skew \<and> amount \<le> ll_remaining_local l"
  by (auto simp: reserve_local_def not_less not_le)

lemma commit_local_cases:
  assumes "commit_local l r actual now_t skew = (l', out)"
  obtains (covered) "ll_remaining_local l' = ll_remaining_local l + rz_amount r - actual" "\<not> co_escalated out"
      "actual \<le> ll_remaining_local l + rz_amount r \<or> actual \<le> rz_amount r"
      "l' = l\<lparr>ll_remaining_local := ll_remaining_local l'\<rparr>"
  | (escalated) "l' = l" "co_escalated out" "rz_amount r < actual"
proof (cases "actual - rz_amount r > 0")
  case True
  show ?thesis
  proof (cases "reserve_local 0 l (actual - rz_amount r) now_t skew")
    case (Pair l1 res)
    show ?thesis
    proof (cases res)
      case (Inl e)
      then show ?thesis using escalated True Pair assms reserve_local_Inl
        by (fastforce simp: commit_local_def)
    next
      case (Inr r1)
      have l1: "l1 = l\<lparr>ll_remaining_local := ll_remaining_local l - (actual - rz_amount r)\<rparr>"
        "actual - rz_amount r \<le> ll_remaining_local l"
        using reserve_local_Inr[of 0 l "actual - rz_amount r" now_t skew l1 r1] Pair Inr by simp_all
      have "l' = l1" "\<not> co_escalated out" using True Pair Inr assms by (auto simp: commit_local_def)
      then show ?thesis using covered l1 by simp
    qed
  qed
next
  case False
  then show ?thesis using covered assms by (auto simp: commit_local_def Let_def split: if_splits)
qed

lemma open_total_remove1: "r \<in> set rs \<Longrightarrow> open_total (remove1 r rs) = open_total rs - rz_amount r"
  by (simp add: open_total_def sum_list_map_remove1)

lemma lease_step_inv: "lease_step skew x y \<Longrightarrow> lease_run_inv g x \<Longrightarrow> lease_run_inv g y"
proof (induction rule: lease_step.induct)
  case (reserve fresh l amount now_t l' r rs settled)
  then show ?case using reserve_local_Inr[OF reserve(1)] by (auto simp: lease_run_inv_def open_total_def)
next
  case (refused fresh l amount now_t l' e rs settled)
  then show ?case using reserve_local_Inl[OF refused(1)] by simp
next
  case (commit r rs actual l now_t l' out settled)
  have amounts: "0 \<le> rz_amount r" using commit by (auto simp: lease_run_inv_def)
  from commit(3) show ?case
  proof (cases rule: commit_local_cases)
    case covered
    have "ll_id l' = ll_id l" "ll_granted l' = ll_granted l" by (subst covered(4), simp)+
    then show ?thesis using commit covered amounts
      by (auto simp: lease_run_inv_def open_total_remove1 dest: notin_set_remove1 set_remove1_subset[THEN subsetD])
  next
    case escalated
    then show ?thesis using commit amounts
      by (auto simp: lease_run_inv_def open_total_remove1 dest: set_remove1_subset[THEN subsetD])
  qed
next
  case (retire l rs settled st)
  then show ?case by (simp add: lease_run_inv_def)
qed

lemma check_dims_ok:
  assumes "check_dims loop now_t ds req p = (p', v)" "bv_ok v"
  shows "p' = p \<and> (\<forall>d \<in> set ds. 0 < req d \<longrightarrow> \<not> pl_closed p \<and>
    (\<exists>h. pl_held p d = Some h \<and> ll_state (hd_lease h) = ACTIVE
       \<and> now_t < ll_expires_at (hd_lease h) - ps_skew (pl_settings p)
       \<and> req d \<le> ll_remaining_local (hd_lease h)))"
  using assms by (induction ds) (auto simp: Let_def not_le not_less split: if_splits option.splits)

text \<open>Scheduling a top-up marks the dimension and leaves its lease alone.\<close>

lemma schedule_keeps_lease:
  assumes "pl_held p d = Some h"
  shows "\<exists>h'. pl_held (maybe_schedule_topup loop now_t d h p) d = Some h' \<and> hd_lease h' = hd_lease h"
proof -
  have "maybe_schedule_topup loop now_t d h p \<in> {p, set_held d (h\<lparr>hd_topping_up := True\<rparr>) p}"
    by (auto simp: maybe_schedule_topup_def schedule_topup_def Let_def)
  then show ?thesis using assms by (auto simp: set_held_def)
qed

lemma pool_reserve_ok:
  assumes "pl_held p d = Some h" "\<not> pl_closed p" "0 \<le> amount" "ll_state (hd_lease h) = ACTIVE"
    and "now_t < ll_expires_at (hd_lease h) - ps_skew (pl_settings p)" "amount \<le> ll_remaining_local (hd_lease h)"
  shows "is_ok (snd (pool_reserve fresh loop now_t d amount p))"
  using assms by (simp add: pool_reserve_def reserve_local_def not_less Let_def)

text \<open>The pool keeps the contract \<open>decide\<close> relies on: what \<open>check\<close> covers, \<open>reserve\<close> gives.\<close>

interpretation lp: budget_provider "\<lambda>req. snd (pool_check loop now_t req p)"
  "\<lambda>d amount. is_ok (snd (pool_reserve fresh loop now_t d amount p))" for loop now_t p fresh
proof unfold_locales
  fix req k assume ok: "bv_ok (snd (pool_check loop now_t req p))" and pos: "0 < req k"
  then obtain h where "pl_held p k = Some h" "\<not> pl_closed p" "ll_state (hd_lease h) = ACTIVE"
      "now_t < ll_expires_at (hd_lease h) - ps_skew (pl_settings p)" "req k \<le> ll_remaining_local (hd_lease h)"
    using check_dims_ok[of loop now_t all_dimensions req p "fst (pool_check loop now_t req p)"]
    by (force simp: pool_check_def)
  then show "is_ok (snd (pool_reserve fresh loop now_t k (req k) p))"
    using pos by (intro pool_reserve_ok) simp_all
qed

lemma lease_run_inv: "lease_run_from skew g x \<Longrightarrow> 0 \<le> lg_granted g \<Longrightarrow> lease_run_inv g x"
proof (induction rule: lease_run_from.induct)
  case start
  then show ?case by (simp add: lease_run_inv_def new_lease_def open_total_def)
next
  case (step x y)
  then show ?case using lease_step_inv by blast
qed

section \<open>What a pool has remaining\<close>

lemma remaining_set_held:
  "remaining k (set_held d h p) = (if k = d then ll_remaining_local (hd_lease h) else remaining k p)"
  by (simp add: remaining_def set_held_def)

lemma remaining_schedule: "pl_held p d = Some h \<Longrightarrow> remaining k (schedule_topup loop d h p) = remaining k p"
  by (auto simp: schedule_topup_def remaining_def set_held_def)

lemma remaining_maybe_schedule:
  "pl_held p d = Some h \<Longrightarrow> remaining k (maybe_schedule_topup loop t d h p) = remaining k p"
  by (auto simp: maybe_schedule_topup_def Let_def remaining_schedule)

lemma held_maybe_schedule:
  "pl_held p d = Some h \<Longrightarrow> \<exists>h'. pl_held (maybe_schedule_topup loop t d h p) d = Some h' \<and> hd_lease h' = hd_lease h"
  by (auto simp: maybe_schedule_topup_def schedule_topup_def set_held_def Let_def)

lemma remaining_check: "remaining k (fst (pool_check loop t req p)) = remaining k p"
proof -
  have "remaining k (fst (check_dims loop t ds req p)) = remaining k p" for ds
    by (induction ds) (auto simp: remaining_schedule remaining_maybe_schedule Let_def split: option.splits if_splits)
  then show ?thesis by (simp add: pool_check_def)
qed

text \<open>A reservation is covered by what the lease has left.\<close>

lemma reserve_covered:
  assumes "pool_reserve i loop t d amount p = (p', r)" "0 \<le> remaining k p" shows "0 \<le> remaining k p'"
proof (cases "pl_held p d")
  case (Some h)
  obtain l y where ly: "reserve_local i (hd_lease h) amount t (ps_skew (pl_settings p)) = (l, y)" by fastforce
  show ?thesis
  proof (cases "pl_closed p \<or> (\<exists>e. y = Inl e)")
    case False
    then obtain z where "y = Inr z" by (cases y) auto
    with ly have "reserve_local i (hd_lease h) amount t (ps_skew (pl_settings p)) = (l, Inr z)" by simp
    then have "0 \<le> ll_remaining_local l" using reserve_local_Inr by fastforce
    moreover have "remaining k p' = remaining k (set_held d (h\<lparr>hd_lease := l\<rparr>) p)"
      using assms(1) Some False ly \<open>y = Inr z\<close> remaining_maybe_schedule[of "set_held d (h\<lparr>hd_lease := l\<rparr>) p" d "h\<lparr>hd_lease := l\<rparr>" k loop t]
      by (auto simp: pool_reserve_def Let_def set_held_def)
    ultimately show ?thesis using assms(2) by (simp add: remaining_set_held)
  next
    case True
    then have "p' = p" using assms(1) Some ly by (auto simp: pool_reserve_def split: if_splits)
    then show ?thesis using assms(2) by simp
  qed
qed (use assms in \<open>auto simp: pool_reserve_def\<close>)

lemma reserve_result:
  assumes "pool_reserve i loop t d amount p = (p', r)"
  shows "case r of
      Inl _ \<Rightarrow> (\<forall>k. remaining k p' = remaining k p)
    | Inr z \<Rightarrow> rz_id z = i \<and> rz_amount z = amount \<and> (\<forall>k. remaining k p' = (if k = d then remaining k p - amount else remaining k p))
        \<and> (\<exists>h. pl_held p' d = Some h \<and> ll_id (hd_lease h) = rz_lease_id z)"
proof (cases "pl_held p d")
  case (Some h)
  show ?thesis
  proof (cases "pl_closed p")
    case True
    then show ?thesis using assms Some by (auto simp: pool_reserve_def)
  next
    case False
    obtain l y where ly: "reserve_local i (hd_lease h) amount t (ps_skew (pl_settings p)) = (l, y)" by fastforce
    show ?thesis
    proof (cases y)
      case (Inl e)
      then show ?thesis using assms Some False ly
        by (auto simp: pool_reserve_def remaining_schedule remaining_maybe_schedule split: if_splits)
    next
      case (Inr z)
      then have lz: "reserve_local i (hd_lease h) amount t (ps_skew (pl_settings p)) = (l, Inr z)" using ly by simp
    let ?h = "h\<lparr>hd_lease := l\<rparr>" let ?q = "set_held d ?h p"
    have q: "pl_held ?q d = Some ?h" by (simp add: set_held_def)
    have p': "p' = maybe_schedule_topup loop t d ?h ?q" "r = Inr z" using assms Some False lz by (simp_all add: pool_reserve_def Let_def)
    have "ll_remaining_local l = ll_remaining_local (hd_lease h) - amount" "rz_id z = i" "rz_amount z = amount" "rz_lease_id z = ll_id l"
      using lz by (auto simp: reserve_local_def split: if_splits)
    moreover have "remaining d p = ll_remaining_local (hd_lease h)" using Some by (simp add: remaining_def)
    ultimately show ?thesis using p' q held_maybe_schedule[OF q] by (auto simp: remaining_maybe_schedule[OF q] remaining_set_held)
    qed
  qed
qed (use assms in \<open>auto simp: pool_reserve_def\<close>)

lemma commit_nothing:
  assumes "pool_commit t d r 0 p = (p', Inr out)" "0 < rz_amount r"
  shows "remaining k p' = (if k = d then remaining k p + rz_amount r else remaining k p)"
proof -
  obtain h where h: "pl_held p d = Some h" using assms(1) by (cases "pl_held p d") (simp_all add: pool_commit_def)
  then show ?thesis using assms by (auto simp: pool_commit_def commit_local_def Let_def remaining_def set_held_def)
qed

section \<open>Properties\<close>

text \<open>
  A local lease conserves its grant under any sequence of reservations, refusals and
  settlements: what remains, what is reserved and what was settled add up to the grant, so
  nothing beyond it is ever reserved or settled without the outcome saying \<open>escalated\<close>.
\<close>
theorem local_lease_conserved:
  assumes "lease_run_from skew g (l, rs, settled)" "0 \<le> lg_granted g"
  shows "ll_remaining_local l + open_total rs + settled = lg_granted g
    \<and> 0 \<le> ll_remaining_local l \<and> 0 \<le> settled \<and> open_total rs + settled \<le> lg_granted g"
  using lease_run_inv[OF assms] by (simp add: lease_run_inv_def)

text \<open>
  A request \<open>decide\<close> allows on the pool's verdict can be reserved: at the same instant, with
  nothing in between, \<open>reserve\<close> succeeds for every dimension the request asks a positive
  amount of, and \<open>check\<close> has not changed the pool.
\<close>
theorem allowed_request_reserves:
  assumes "decide lib tok ctx caveats revoc policy (\<lambda>req. Some (snd (pool_check loop now_t req p))) drift = Inr d"
    and "decision_allowed d" "0 < requested ctx k"
  shows "is_ok (snd (pool_reserve fresh loop now_t k (requested ctx k) p))
    \<and> fst (pool_check loop now_t (requested ctx) p) = p"
proof
  show "is_ok (snd (pool_reserve fresh loop now_t k (requested ctx k) p))"
    by (rule lp.allowed_is_reservable[OF assms])
  show "fst (pool_check loop now_t (requested ctx) p) = p"
    using allowed_has_budget[OF assms(1,2)]
      check_dims_ok[of loop now_t all_dimensions "requested ctx" p "fst (pool_check loop now_t (requested ctx) p)"
        "snd (pool_check loop now_t (requested ctx) p)"]
    by (simp add: pool_check_def)
qed

text \<open>
  A settlement that arrives after a top-up is charged to the wrong lease.  A reservation
  taken from one lease and settled for less after the pool has swapped it goes to the ledger
  under the new lease's id, and the refund makes the new lease hold more than it was granted,
  while the lease that was reserved from is released.
\<close>
theorem settlement_after_topup_charges_new_lease:
  assumes r: "pool_reserve fresh loop t1 d amount p = (p1, Inr r)"
    and swap: "pool_acquire d (Some g) p1 = (p2, old, got)"
    and commit: "pool_commit t2 d r actual p2 = (p3, Inr out)" and less: "actual < amount"
  shows "old = Some (rz_lease_id r) \<and> co_lease_id out = lg_id g
    \<and> remaining d p3 = lg_granted g + (amount - actual) \<and> lg_granted g < remaining d p3"
proof -
  obtain h l where h: "pl_held p d = Some h"
    and l: "reserve_local fresh (hd_lease h) amount t1 (ps_skew (pl_settings p)) = (l, Inr r)"
    and p1: "p1 = maybe_schedule_topup loop t1 d (h\<lparr>hd_lease := l\<rparr>) (set_held d (h\<lparr>hd_lease := l\<rparr>) p)"
    using r by (auto simp: pool_reserve_def Let_def split: option.splits if_splits prod.splits sum.splits)
  note l' = reserve_local_Inr[OF l]
  obtain h1 where h1: "pl_held p1 d = Some h1" "hd_lease h1 = l"
    using schedule_keeps_lease[of "set_held d (h\<lparr>hd_lease := l\<rparr>) p" d "h\<lparr>hd_lease := l\<rparr>" loop t1]
    by (auto simp: p1 set_held_def)
  have p2: "p2 = set_held d (h1\<lparr>hd_lease := new_lease g, hd_mandate_exhausted := False\<rparr>) p1"
    and old: "old = Some (ll_id l)"
    using swap h1 by (auto simp: pool_acquire_def)
  have out: "co_lease_id out = lg_id g" "remaining d p3 = lg_granted g + (amount - actual)"
    using commit less l'(6)
    by (auto simp: p2 pool_commit_def commit_local_def set_held_def remaining_def new_lease_def Let_def)
  then show ?thesis using old less l'(5,6) by simp
qed

text \<open>
  The enforcement point stops before the reaper starts.  A reservation made from a lease at
  a local instant is never made from a lease the reaper would reclaim, for any ledger clock up
  to the pool's skew margin plus the reaper's allowance ahead of the local one.
\<close>
theorem reserve_before_reap:
  assumes "reserve_local fresh l amount now_t skew = (l', Inr r)"
    and "db_ok db" "row \<in> set (leases db)" "lr_id row = ll_id l" "lr_expires_at row = ll_expires_at l"
    and "t \<le> now_t + skew + SKEW_ALLOWANCE"
  shows "ll_id l \<notin> set (reap_candidates t db)"
proof
  assume "ll_id l \<in> set (reap_candidates t db)"
  then obtain row' where row': "row' \<in> set (leases db)" "lr_id row' = ll_id l" "lr_expires_at row' < t - SKEW_ALLOWANCE"
    by (auto simp: reap_candidates_def Let_def)
  have "inj_on lr_id (set (leases db))" using assms(2) by (simp add: db_ok_def distinct_map)
  then have "row' = row" using row'(1,2) assms(3,4) by (metis inj_onD)
  then show False using row'(3) assms(5,6) reserve_local_Inr(3)[OF assms(1)] by simp
qed

section \<open>Witnesses\<close>

abbreviation pool_demo_settings :: pool_settings where
  "pool_demo_settings \<equiv> \<lparr>ps_pep_id = ''pep'', ps_lease_size = 100, ps_ttl = seconds 60, ps_skew = seconds 5,
                         ps_low_water = 1/4\<rparr>"

abbreviation demo_lease_grant :: "uuid \<Rightarrow> lease_grant" where
  "demo_lease_grant i \<equiv> \<lparr>lg_id = i, lg_granted = 100, lg_expires_at = seconds 60\<rparr>"

definition primed_pool :: lease_pool where
  "primed_pool = fst (prime SPEND_BDT (Some (demo_lease_grant 21)) (new_pool pool_demo_settings))"

definition demo_reserved :: local_lease where
  "demo_reserved = (new_lease (demo_lease_grant 21))\<lparr>ll_remaining_local := 10\<rparr>"

lemma demo_reserve_local:
  "reserve_local 8 (new_lease (demo_lease_grant 21)) 90 (seconds 10) (seconds 5)
     = (demo_reserved, Inr \<lparr>rz_id = 8, rz_lease_id = 21, rz_amount = 90\<rparr>)"
  by (simp add: reserve_local_def new_lease_def demo_reserved_def)

theorem local_lease_conserved_witness:
  "ll_remaining_local demo_reserved + open_total [\<lparr>rz_id = 8, rz_lease_id = 21, rz_amount = 90\<rparr>] + 0 = 100"
proof -
  have "lease_run_from (seconds 5) (demo_lease_grant 21)
      (demo_reserved, [\<lparr>rz_id = 8, rz_lease_id = 21, rz_amount = 90\<rparr>], 0)"
    by (rule lease_run_from.step[OF lease_run_from.start lease_step.reserve[OF demo_reserve_local]])
  from local_lease_conserved[OF this] show ?thesis by simp
qed

theorem reserve_before_reap_witness:
  "21 \<notin> set (reap_candidates (seconds 20)
      \<lparr>budgets = [\<lparr>br_id = 3, br_mandate_id = 4, br_dimension = ''spend_bdt'', br_total = 500, br_committed = 0,
                    br_leased = 100, br_allocated = 0, br_parent_budget_id = None, br_agent_id = None,
                    br_version = 0\<rparr>],
       leases = [\<lparr>lr_id = 21, lr_budget_id = 3, lr_pep_id = ''pep'', lr_granted = 100, lr_settled = 0,
                   lr_granted_at = 0, lr_expires_at = seconds 60, lr_state = ACTIVE\<rparr>],
       reservations = [], anomalies = []\<rparr>)"
  using reserve_before_reap[OF demo_reserve_local, of
      "\<lparr>budgets = [\<lparr>br_id = 3, br_mandate_id = 4, br_dimension = ''spend_bdt'', br_total = 500, br_committed = 0,
                    br_leased = 100, br_allocated = 0, br_parent_budget_id = None, br_agent_id = None,
                    br_version = 0\<rparr>],
       leases = [\<lparr>lr_id = 21, lr_budget_id = 3, lr_pep_id = ''pep'', lr_granted = 100, lr_settled = 0,
                   lr_granted_at = 0, lr_expires_at = seconds 60, lr_state = ACTIVE\<rparr>],
       reservations = [], anomalies = []\<rparr>"
      "\<lparr>lr_id = 21, lr_budget_id = 3, lr_pep_id = ''pep'', lr_granted = 100, lr_settled = 0,
                   lr_granted_at = 0, lr_expires_at = seconds 60, lr_state = ACTIVE\<rparr>" "seconds 20"]
  by (simp add: db_ok_def ck_budgets_invariant_def ck_budgets_split_shape_def ck_leases_outstanding_def
      uq_budgets_pool_def uq_budgets_allocation_def new_lease_def SKEW_ALLOWANCE_def)

lemma primed_pool_held:
  "pl_held primed_pool SPEND_BDT = Some \<lparr>hd_lease = new_lease (demo_lease_grant 21), hd_topping_up = False,
                                       hd_mandate_exhausted = False\<rparr>"
  "pl_closed primed_pool = False" "pl_settings primed_pool = pool_demo_settings"
  by (simp_all add: primed_pool_def prime_def pool_acquire_def new_pool_def set_held_def)

lemma primed_pool_reserves:
  "\<exists>p1. pool_reserve 8 True (seconds 10) SPEND_BDT 90 primed_pool
     = (p1, Inr \<lparr>rz_id = 8, rz_lease_id = 21, rz_amount = 90\<rparr>)"
  using demo_reserve_local by (simp add: pool_reserve_def primed_pool_held Let_def)

theorem settlement_after_topup_charges_new_lease_witness:
  "\<exists>p1 p2 p3 old got out.
     pool_reserve 8 True (seconds 10) SPEND_BDT 90 primed_pool
       = (p1, Inr \<lparr>rz_id = 8, rz_lease_id = 21, rz_amount = 90\<rparr>)
   \<and> pool_acquire SPEND_BDT (Some (demo_lease_grant 22)) p1 = (p2, old, got)
   \<and> pool_commit (seconds 11) SPEND_BDT \<lparr>rz_id = 8, rz_lease_id = 21, rz_amount = 90\<rparr> 0 p2 = (p3, Inr out)
   \<and> old = Some 21 \<and> co_lease_id out = 22 \<and> remaining SPEND_BDT p3 = 190"
proof -
  obtain p1 where r: "pool_reserve 8 True (seconds 10) SPEND_BDT 90 primed_pool
      = (p1, Inr \<lparr>rz_id = 8, rz_lease_id = 21, rz_amount = 90\<rparr>)" using primed_pool_reserves by blast
  obtain p2 old got where a: "pool_acquire SPEND_BDT (Some (demo_lease_grant 22)) p1 = (p2, old, got)"
    by (metis prod.exhaust)
  then obtain h2 where h2: "pl_held p2 SPEND_BDT = Some h2"
    by (auto simp: pool_acquire_def set_held_def split: option.splits)
  obtain l2 out where "commit_local (hd_lease h2) \<lparr>rz_id = 8, rz_lease_id = 21, rz_amount = 90\<rparr> 0 (seconds 11)
      (ps_skew (pl_settings p2)) = (l2, out)" by (metis prod.exhaust)
  with h2 obtain p3 where c: "pool_commit (seconds 11) SPEND_BDT \<lparr>rz_id = 8, rz_lease_id = 21, rz_amount = 90\<rparr> 0 p2
      = (p3, Inr out)"
    by (simp add: pool_commit_def)
  from settlement_after_topup_charges_new_lease[OF r a c] show ?thesis
    using r a c by auto
qed

lemma primed_pool_allows:
  "\<exists>d. decide demo_lib demo_token granted_context [] (\<lambda>_. Some False) open_policy
         (\<lambda>req. Some (snd (pool_check True (seconds 10) req primed_pool))) None = Inr d \<and> decision_allowed d"
proof -
  have "snd (pool_check True (seconds 10) (requested granted_context) primed_pool)
      = \<lparr>bv_ok = True, bv_exhausted_dimension = None, bv_mandate_exhausted = False\<rparr>"
    by (simp add: pool_check_def all_dimensions_def granted_context_def demo_context_def primed_pool_held
        new_lease_def)
  then show ?thesis
    by (simp add: demo_decide_simps decision_allowed_def)
qed

theorem allowed_request_reserves_witness:
  "is_ok (snd (pool_reserve 8 True (seconds 10) SPEND_BDT (3/2) primed_pool))"
proof -
  obtain d where "decide demo_lib demo_token granted_context [] (\<lambda>_. Some False) open_policy
         (\<lambda>req. Some (snd (pool_check True (seconds 10) req primed_pool))) None = Inr d" "decision_allowed d"
    using primed_pool_allows by blast
  from allowed_request_reserves[OF this, of SPEND_BDT 8] show ?thesis
    by (simp add: granted_context_def demo_context_def)
qed

end
