(* ===== verification/Settlement.thy ===== *)
theory Settlement
  imports Pool Ledger
begin

text \<open>
  Settled reservations on their way to the ledger: the queue of \<open>agentiam_pep/settlement.py\<close> and
  the sink of \<open>agentiam_controlplane/db/settlement_sink.py\<close> that turns a batch into one
  \<open>ledger_commit_batch\<close>.

  \<open>flush\<close> holds the queue's lock, so it is one step; a sink maps its own state and a batch to the
  state it leaves and its verdicts, \<open>None\<close> when it raises.  \<open>drain\<close> loops only while a flush
  makes progress, so it is total.
\<close>

section \<open>The queue\<close>

record settlement_settings =
  st_capacity :: int
  st_flush_interval :: decimal
  st_batch_max :: int
  st_retry_pause :: decimal

definition mk_settlement_settings :: "settlement_settings \<Rightarrow> settlement_settings py" where
  "mk_settlement_settings s =
     (if st_capacity s \<le> 0 then Inl ValueError
      else if st_batch_max s \<le> 0 then Inl ValueError
      else if st_flush_interval s \<le> 0 then Inl ValueError
      else if st_retry_pause s < 0 then Inl ValueError
      else Inr s)"

record pending_settlement =
  pd_lease_id :: uuid
  pd_reservation_id :: uuid
  pd_amount :: decimal
  pd_now :: instant

record settlement_queue =
  sq_settings :: settlement_settings
  sq_pending :: "pending_settlement list"
  sq_drain_task :: bool
  sq_closed :: bool
  sq_applied :: nat
  sq_declined :: nat
  sq_dropped :: nat
  sq_failed_attempts :: nat

definition new_queue :: "settlement_settings \<Rightarrow> settlement_queue" where
  "new_queue s =
     \<lparr>sq_settings = s, sq_pending = [], sq_drain_task = False, sq_closed = False, sq_applied = 0,
      sq_declined = 0, sq_dropped = 0, sq_failed_attempts = 0\<rparr>"

definition start_queue :: "settlement_queue \<Rightarrow> settlement_queue" where
  "start_queue q = q\<lparr>sq_drain_task := True\<rparr>"

definition enqueue :: "commit_outcome \<Rightarrow> instant \<Rightarrow> settlement_queue \<Rightarrow> settlement_queue" where
  "enqueue out now_t q =
     (if sq_closed q then q\<lparr>sq_dropped := sq_dropped q + 1\<rparr>
      else if int (length (sq_pending q)) \<ge> st_capacity (sq_settings q)
      then q\<lparr>sq_dropped := sq_dropped q + 1\<rparr>
      else q\<lparr>sq_pending := sq_pending q @
               [\<lparr>pd_lease_id = co_lease_id out, pd_reservation_id = co_reservation_id out,
                 pd_amount = co_amount out, pd_now = now_t\<rparr>]\<rparr>)"

text \<open>The loop of \<open>_next_batch\<close>, with the batch it has so far.\<close>

fun take_batch :: "uuid \<Rightarrow> int \<Rightarrow> pending_settlement list \<Rightarrow> pending_settlement list \<Rightarrow> pending_settlement list" where
  "take_batch lease_id batch_max batch [] = batch"
| "take_batch lease_id batch_max batch (item # items) =
     (if pd_lease_id item \<noteq> lease_id \<or> int (length batch) \<ge> batch_max then batch
      else take_batch lease_id batch_max (batch @ [item]) items)"

definition next_batch :: "settlement_queue \<Rightarrow> pending_settlement list" where
  "next_batch q =
     (case sq_pending q of
        [] \<Rightarrow> []
      | item # _ \<Rightarrow> take_batch (pd_lease_id item) (st_batch_max (sq_settings q)) [] (sq_pending q))"

type_synonym 'w sink = "'w \<Rightarrow> pending_settlement list \<Rightarrow> 'w \<times> (bool list) option"

definition flush :: "'w sink \<Rightarrow> settlement_queue \<times> 'w \<Rightarrow> settlement_queue \<times> 'w" where
  "flush sink x = (case x of (q, w) \<Rightarrow>
     (let batch = next_batch q in
      if batch = [] then (q, w)
      else (case sink w batch of
              (w', None) \<Rightarrow> (q\<lparr>sq_failed_attempts := sq_failed_attempts q + 1\<rparr>, w')
            | (w', Some verdicts) \<Rightarrow>
                (q\<lparr>sq_pending := drop (length verdicts) (sq_pending q),
                   sq_applied := sq_applied q + length (filter (\<lambda>v. v) verdicts),
                   sq_declined := sq_declined q + length (filter (\<lambda>v. \<not> v) verdicts)\<rparr>, w'))))"

function drain :: "'w sink \<Rightarrow> settlement_queue \<times> 'w \<Rightarrow> settlement_queue \<times> 'w" where
  "drain sink (q, w) =
     (if sq_pending q = [] then (q, w)
      else (let y = flush sink (q, w) in
            if length (sq_pending (fst y)) \<ge> length (sq_pending q) then y else drain sink y))"
  by pat_completeness auto

termination drain
  by (relation "measure (\<lambda>(_, x). length (sq_pending (fst x)))") auto

definition aclose_queue :: "'w sink \<Rightarrow> settlement_queue \<times> 'w \<Rightarrow> settlement_queue \<times> 'w" where
  "aclose_queue sink x = (case x of (q, w) \<Rightarrow>
     (if sq_closed q then (q, w)
      else (case drain sink (q\<lparr>sq_closed := True\<rparr>, w) of
              (q', w') \<Rightarrow> (q'\<lparr>sq_drain_task := False\<rparr>, w'))))"

section \<open>The ledger's sink\<close>

record sink_state =
  ss_db :: ledger_db
  ss_rejected_leases :: nat

text \<open>
  \<open>LedgerSettlementSink.commit\<close>.  A lease that has left \<open>active\<close> declines the whole batch; any
  other error, an unreachable database included (\<open>up\<close> false), is raised.
\<close>

definition ledger_sink :: "bool \<Rightarrow> sink_state sink" where
  "ledger_sink up w batch =
     (case batch of
        [] \<Rightarrow> (w, Some [])
      | item # _ \<Rightarrow>
          (if \<not> up then (w, None)
           else (case ledger_commit_batch (pd_lease_id item)
                        (map (\<lambda>i. (pd_reservation_id i, pd_amount i, pd_now i)) batch) (ss_db w) of
                   (db', Inr verdicts) \<Rightarrow> (w\<lparr>ss_db := db'\<rparr>, Some verdicts)
                 | (db', Inl (LeaseNotActiveError _)) \<Rightarrow>
                     (w\<lparr>ss_db := db', ss_rejected_leases := ss_rejected_leases w + 1\<rparr>,
                      Some (replicate (length batch) False))
                 | (db', Inl _) \<Rightarrow> (w\<lparr>ss_db := db'\<rparr>, None))))"

text \<open>What the queue stands for: one \<open>LEDGER_COMMIT\<close> per settlement, in order.\<close>

definition settle_one :: "pending_settlement \<Rightarrow> ledger_db \<Rightarrow> ledger_db" where
  "settle_one i db = fst (ledger_commit (pd_lease_id i) (pd_reservation_id i) (pd_amount i) (pd_now i) db)"

section \<open>Lemmas\<close>

lemma take_batch_prefix:
  "\<exists>k. take_batch i m batch items = batch @ take k items
     \<and> (\<forall>x \<in> set (take k items). pd_lease_id x = i)"
proof (induction items arbitrary: batch)
  case Nil
  then show ?case by simp
next
  case (Cons item items)
  show ?case
  proof (cases "pd_lease_id item \<noteq> i \<or> int (length batch) \<ge> m")
    case True
    then show ?thesis by (intro exI[of _ 0]) simp
  next
    case False
    then obtain k where "take_batch i m (batch @ [item]) items = (batch @ [item]) @ take k items"
      "\<forall>x \<in> set (take k items). pd_lease_id x = i" using Cons.IH by blast
    then show ?thesis using False by (intro exI[of _ "Suc k"]) auto
  qed
qed

lemma next_batch_prefix:
  assumes "sq_pending q = item # items" "0 < st_batch_max (sq_settings q)"
  obtains k where "next_batch q = take (Suc k) (sq_pending q)"
    "\<forall>x \<in> set (next_batch q). pd_lease_id x = pd_lease_id item"
proof -
  obtain k where k: "take_batch (pd_lease_id item) (st_batch_max (sq_settings q)) [item] items
      = [item] @ take k items" "\<forall>x \<in> set (take k items). pd_lease_id x = pd_lease_id item"
    using take_batch_prefix by blast
  show ?thesis by (rule that[of k]) (use assms k in \<open>auto simp: next_batch_def\<close>)
qed

text \<open>A batch, on an active lease or on one that has left \<open>active\<close>, leaves what its items leave.\<close>

abbreviation commits :: "uuid \<Rightarrow> commit_item list \<Rightarrow> ledger_db \<Rightarrow> ledger_db" where
  "commits i items db \<equiv> fold (\<lambda>(rid, a, t) d. fst (ledger_commit i rid a t d)) items db"

lemma commit_each_fold: "commit_each i items db = (db', Inr rs) \<Longrightarrow> db' = commits i items db"
  by (induction items arbitrary: db rs) (auto split: prod.splits sum.splits)

lemma inactive_fold:
  assumes "books db" "l \<in> set (leases db)" "lr_id l = i" "lr_state l \<noteq> ACTIVE"
  shows "record_anomalies l items db = commits i items db"
  using assms
proof (induction items arbitrary: db)
  case Nil
  then show ?case by (simp add: record_anomalies_def)
next
  case (Cons item items)
  obtain rid a t where item: "item = (rid, a, t)" by (cases item)
  let ?db = "record_anomalies l [item] db"
  have "fst (ledger_commit i rid a t db) = ?db"
    using commit_inactive[OF Cons.prems, of "[item]"] by (simp add: ledger_commit_def item)
  moreover have "record_anomalies l (item # items) db = record_anomalies l items ?db"
    by (simp add: record_anomalies_def)
  moreover have "l \<in> set (leases ?db)" using Cons.prems by (simp add: record_anomalies_def)
  moreover have "books ?db"
    using Cons.prems books_anomalies db_ok_anomalies[of db l] booksD(1) by blast
  ultimately show ?case using Cons.IH Cons.prems item by simp
qed

lemma batch_fold:
  assumes b: "books db" and l: "l \<in> set (leases db)" "lr_id l = i" and items: "items \<noteq> []"
    and pos: "\<forall>(rid, a, t) \<in> set items. 0 < a"
  obtains rs where "ledger_commit_batch i items db = (commits i items db, Inr rs)" "length rs = length items"
  | "ledger_commit_batch i items db = (commits i items db, Inl (LeaseNotActiveError (lr_state l)))"
proof (cases "lr_state l = ACTIVE")
  case True
  obtain db' rs where "ledger_commit_batch i items db = (db', Inr rs)" "length rs = length items"
    using commit_active[OF b l True] by metis
  moreover have "ledger_commit_batch i items db = commit_each i items db" using batch_each[OF b l True pos] .
  ultimately show ?thesis using that(1) commit_each_fold by metis
next
  case False
  then show ?thesis using that(2) commit_inactive[OF b l False items] inactive_fold[OF b l False] by metis
qed

lemma commits_fold_settle:
  "\<forall>x \<in> set batch. pd_lease_id x = i \<Longrightarrow>
   commits i (map (\<lambda>x. (pd_reservation_id x, pd_amount x, pd_now x)) batch) db = fold settle_one batch db"
  by (induction batch arbitrary: db) (auto simp: settle_one_def)

lemma apply_settlement_ids [simp]:
  "map lr_id (leases (apply_settlement l rid a t db)) = map lr_id (leases db)"
  by (simp add: apply_settlement_def update_lease_def update_budget_def Let_def)

lemma settle_items_ids:
  "settle_items i items already db = Inr (db', rs) \<Longrightarrow> map lr_id (leases db') = map lr_id (leases db)"
proof (induction items arbitrary: already db rs)
  case (Cons item items)
  obtain rid a t where item: "item = (rid, a, t)" by (cases item)
  obtain already' db1 rs' where "settle_items i items already' db1 = Inr (db', rs')"
    "map lr_id (leases db1) = map lr_id (leases db)"
    using Cons.prems item apply_settlement_ids by (auto simp: Let_def simp del: apply_settlement_ids split: if_splits)
  then show ?case using Cons.IH by simp
qed simp

lemma batch_keeps_leases:
  assumes "ledger_commit_batch i items db = (db', res)"
  shows "map lr_id (leases db') = map lr_id (leases db)"
  using assms settle_items_ids[of i items "already_settled items db" db]
  by (auto simp: ledger_commit_batch_def commit_tx_def record_anomalies_def
           split: if_splits sum.splits)

text \<open>One flush against a reachable ledger that answers: the head batch is settled, in order.\<close>

lemma flush_settles:
  assumes reach: "ledger_reachable (ss_db w)" and max: "0 < st_batch_max (sq_settings q)"
    and items: "\<forall>i \<in> set (sq_pending q). 0 < pd_amount i \<and> pd_lease_id i \<in> lr_id ` set (leases (ss_db w))"
    and some: "sq_pending q \<noteq> []"
  obtains k q' w' where "flush (ledger_sink True) (q, w) = (q', w')" "sq_settings q' = sq_settings q"
    "sq_pending q' = drop (Suc k) (sq_pending q)"
    "ss_db w' = fold settle_one (take (Suc k) (sq_pending q)) (ss_db w)"
    "sq_applied q' + sq_declined q' = sq_applied q + sq_declined q + length (take (Suc k) (sq_pending q))"
    "ledger_reachable (ss_db w')" "map lr_id (leases (ss_db w')) = map lr_id (leases (ss_db w))"
proof -
  obtain item rest where p: "sq_pending q = item # rest" using some by (cases "sq_pending q") auto
  obtain k where k: "next_batch q = take (Suc k) (sq_pending q)"
    "\<forall>x \<in> set (next_batch q). pd_lease_id x = pd_lease_id item" using next_batch_prefix[OF p max] by metis
  let ?batch = "take (Suc k) (sq_pending q)"
  let ?items = "map (\<lambda>x. (pd_reservation_id x, pd_amount x, pd_now x)) ?batch"
  let ?db = "fold settle_one ?batch (ss_db w)"
  have batch: "?batch = item # take k rest" by (simp add: p)
  obtain l where l: "l \<in> set (leases (ss_db w))" "lr_id l = pd_lease_id item" using items p by auto
  have pos: "\<forall>(rid, a, t) \<in> set ?items. 0 < a" using items by (auto dest: in_set_takeD)
  have same: "commits (pd_lease_id item) ?items (ss_db w) = ?db"
    by (rule commits_fold_settle) (use k in simp)
  have nonempty: "?items \<noteq> []" by (simp add: p)
  have drops: "drop (length ?batch) (sq_pending q) = drop (Suc k) (sq_pending q)"
    by (cases "Suc k \<le> length (sq_pending q)") simp_all
  have result: "\<exists>q' w'. flush (ledger_sink True) (q, w) = (q', w') \<and> sq_settings q' = sq_settings q
      \<and> sq_pending q' = drop (Suc k) (sq_pending q) \<and> ss_db w' = ?db
      \<and> sq_applied q' + sq_declined q' = sq_applied q + sq_declined q + length ?batch
      \<and> (\<exists>res. ledger_commit_batch (pd_lease_id item) ?items (ss_db w) = (?db, res))"
    using batch_fold[OF reachable_books[OF reach] l nonempty pos]
  proof cases
    case (1 rs)
    have "length (filter (\<lambda>v. v) rs) + length (filter (\<lambda>v. \<not> v) rs) = length ?batch"
      using 1(2) sum_length_filter_compl[of "\<lambda>v. v" rs] by simp
    then show ?thesis
      using 1 k(1) drops same batch by (simp add: flush_def ledger_sink_def Let_def)
  next
    case 2
    then show ?thesis
      using k(1) drops same batch by (simp add: flush_def ledger_sink_def Let_def)
  qed
  then obtain q' w' res where r: "flush (ledger_sink True) (q, w) = (q', w')" "sq_settings q' = sq_settings q"
    "sq_pending q' = drop (Suc k) (sq_pending q)" "ss_db w' = ?db"
    "sq_applied q' + sq_declined q' = sq_applied q + sq_declined q + length ?batch"
    "ledger_commit_batch (pd_lease_id item) ?items (ss_db w) = (?db, res)" by blast
  have "ledger_reachable (ss_db w')" "map lr_id (leases (ss_db w')) = map lr_id (leases (ss_db w))"
    unfolding r(4) using ledger_reachable.step[OF reach ledger_step.commit[OF r(6)]] batch_keeps_leases[OF r(6)]
    by simp_all
  then show ?thesis by (rule that[OF r(1,2,3,4,5)])
qed

lemma drain_settles:
  assumes "ledger_reachable (ss_db w)" "0 < st_batch_max (sq_settings q)"
    and "\<forall>i \<in> set (sq_pending q). 0 < pd_amount i \<and> pd_lease_id i \<in> lr_id ` set (leases (ss_db w))"
  shows "\<exists>q' w'. drain (ledger_sink True) (q, w) = (q', w') \<and> sq_pending q' = []
    \<and> ss_db w' = fold settle_one (sq_pending q) (ss_db w)
    \<and> sq_applied q' + sq_declined q' = sq_applied q + sq_declined q + length (sq_pending q)
    \<and> ledger_reachable (ss_db w')"
  using assms
proof (induction "length (sq_pending q)" arbitrary: q w rule: less_induct)
  case less
  show ?case
  proof (cases "sq_pending q = []")
    case True
    then show ?thesis using less.prems by simp
  next
    case False
    obtain k q1 w1 where f: "flush (ledger_sink True) (q, w) = (q1, w1)" "sq_settings q1 = sq_settings q"
      "sq_pending q1 = drop (Suc k) (sq_pending q)"
      "ss_db w1 = fold settle_one (take (Suc k) (sq_pending q)) (ss_db w)"
      "sq_applied q1 + sq_declined q1 = sq_applied q + sq_declined q + length (take (Suc k) (sq_pending q))"
      "ledger_reachable (ss_db w1)" "map lr_id (leases (ss_db w1)) = map lr_id (leases (ss_db w))"
      using flush_settles[OF less.prems False] by metis
    have shorter: "length (sq_pending q1) < length (sq_pending q)" using f(3) False by simp
    have known: "lr_id ` set (leases (ss_db w1)) = lr_id ` set (leases (ss_db w))"
      using f(7) by (metis set_map)
    have "\<exists>q' w'. drain (ledger_sink True) (q1, w1) = (q', w') \<and> sq_pending q' = []
      \<and> ss_db w' = fold settle_one (sq_pending q1) (ss_db w1)
      \<and> sq_applied q' + sq_declined q' = sq_applied q1 + sq_declined q1 + length (sq_pending q1)
      \<and> ledger_reachable (ss_db w')"
      by (rule less.hyps[OF shorter f(6)])
         (use less.prems(2,3) f(2,3) known in \<open>auto dest: in_set_dropD\<close>)
    moreover have "drain (ledger_sink True) (q, w) = drain (ledger_sink True) (q1, w1)"
      using False shorter f(1) by (simp add: Let_def)
    moreover have "fold settle_one (sq_pending q1) (ss_db w1) = fold settle_one (sq_pending q) (ss_db w)"
      using f(3,4) by (metis append_take_drop_id fold_append comp_apply)
    moreover have "length (take (Suc k) (sq_pending q)) + length (sq_pending q1) = length (sq_pending q)"
      using f(3) by (metis append_take_drop_id length_append)
    ultimately show ?thesis using f(5) by auto
  qed
qed

section \<open>Properties\<close>

text \<open>
  C16: Draining the queue means one \<open>LEDGER_COMMIT\<close> per settlement, in the order they were
  enqueued: against a reachable ledger that answers, the drain ends with an empty queue, the
  ledger is what the single commits leave, and every settlement is counted once; against one
  that does not answer, it ends with the queue and the ledger unchanged.
\<close>
theorem drain_settles_in_order:
  assumes "ledger_reachable (ss_db w)" "0 < st_batch_max (sq_settings q)"
    and "\<forall>i \<in> set (sq_pending q). 0 < pd_amount i \<and> pd_lease_id i \<in> lr_id ` set (leases (ss_db w))"
  shows "(\<exists>q' w'. drain (ledger_sink True) (q, w) = (q', w') \<and> sq_pending q' = []
      \<and> ss_db w' = fold settle_one (sq_pending q) (ss_db w)
      \<and> sq_applied q' + sq_declined q' = sq_applied q + sq_declined q + length (sq_pending q)
      \<and> ledger_reachable (ss_db w'))
    \<and> (\<exists>q'. drain (ledger_sink False) (q, w) = (q', w) \<and> sq_pending q' = sq_pending q
         \<and> sq_applied q' = sq_applied q \<and> sq_declined q' = sq_declined q)"
proof
  show "\<exists>q'. drain (ledger_sink False) (q, w) = (q', w) \<and> sq_pending q' = sq_pending q
         \<and> sq_applied q' = sq_applied q \<and> sq_declined q' = sq_declined q"
    by (cases "sq_pending q"; cases "next_batch q")
       (simp_all add: flush_def ledger_sink_def Let_def)
qed (rule drain_settles[OF assms])

section \<open>Witnesses\<close>

abbreviation demo_queue :: settlement_queue where
  "demo_queue \<equiv>
     (new_queue \<lparr>st_capacity = 8192, st_flush_interval = 1/4, st_batch_max = 64, st_retry_pause = 1/2\<rparr>)
       \<lparr>sq_pending := [\<lparr>pd_lease_id = lr_id demo_lease, pd_reservation_id = 7, pd_amount = 30, pd_now = 0\<rparr>,
                       \<lparr>pd_lease_id = lr_id demo_lease, pd_reservation_id = 8, pd_amount = 30, pd_now = 1\<rparr>]\<rparr>"

theorem drain_settles_in_order_witness:
  "\<exists>q' w'. drain (ledger_sink True) (demo_queue, \<lparr>ss_db = demo_leased, ss_rejected_leases = 0\<rparr>) = (q', w')
     \<and> sq_pending q' = [] \<and> sq_applied q' + sq_declined q' = 2"
  using drain_settles_in_order[of "\<lparr>ss_db = demo_leased, ss_rejected_leases = 0\<rparr>" demo_queue]
    demo_reachable(2) demo_lease_in(1)
  by (auto simp: new_queue_def)

end
