(* ===== verification/Pipeline.thy ===== *)
theory Pipeline
  imports Extractor Policy Emitter Settlement Attenuation "HOL-Library.AList"
begin

text \<open>
  \<open>agentiam_pep/pipeline.py\<close>: one request through extraction, verification, the decision,
  escalation, reservation, the record and its emission, and the settlement afterwards.

  The only \<open>await\<close> of \<open>authorize\<close> is the call of the escalation sink, so the sink is a function
  that may also change the state of the enforcement point in any way, which is what other
  requests do meanwhile; everything else is one step.  Each reading of the clock is an argument of
  its own.  The texts of details are arguments too.  The hooks that read a principal and the caveats
  off a token may raise, which \<open>authorize\<close> lets through; they are resolved once and carried.
\<close>

section \<open>Statuses\<close>

fun pep_status_for :: "reason_code \<Rightarrow> int py" where
  "pep_status_for MALFORMED_REQUEST = Inr 401"
| "pep_status_for TOKEN_INVALID_SIGNATURE = Inr 401"
| "pep_status_for TOKEN_EXPIRED = Inr 401"
| "pep_status_for TOKEN_NOT_YET_VALID = Inr 401"
| "pep_status_for TOKEN_TOO_LARGE = Inr 401"
| "pep_status_for TOKEN_REVOKED = Inr 401"
| "pep_status_for ANCESTOR_REVOKED = Inr 401"
| "pep_status_for SCOPE_NOT_GRANTED = Inr 403"
| "pep_status_for SCOPE_ATTENUATED_AWAY = Inr 403"
| "pep_status_for TOOL_DENIED = Inr 403"
| "pep_status_for ARG_PREDICATE_FAILED = Inr 403"
| "pep_status_for INTENT_MISMATCH = Inr 403"
| "pep_status_for DEPTH_EXCEEDED = Inr 403"
| "pep_status_for POLICY_DENIED = Inr 403"
| "pep_status_for APPROVAL_REQUIRED = Inr 403"
| "pep_status_for DRIFT_ESCALATION = Inr 403"
| "pep_status_for BUDGET_EXHAUSTED_MANDATE = Inr 429"
| "pep_status_for BUDGET_EXHAUSTED_CAVEAT = Inr 429"
| "pep_status_for LEASE_UNAVAILABLE = Inr 429"
| "pep_status_for RATE_LIMITED = Inr 429"
| "pep_status_for CONTROL_PLANE_UNAVAILABLE_FAIL_CLOSED = Inr 503"
| "pep_status_for POLICY_BUNDLE_STALE = Inr 503"
| "pep_status_for VERIFICATION_LIMIT_EXCEEDED = Inr 503"
| "pep_status_for LEASE_NOT_ACTIVE = Inr 503"
| "pep_status_for UPSTREAM_ERROR = Inr 502"
| "pep_status_for OK = Inl KeyError"

section \<open>State, configuration and results\<close>

record pep_state =
  px_pool :: lease_pool
  px_emitter :: emitter
  px_settlement :: "settlement_queue option"

record escalation_call =
  ec_decision_id :: uuid
  ec_task_id :: uuid
  ec_agent_id :: string
  ec_principal_id :: string
  ec_intent_hash :: string
  ec_requested_scopes :: "string set"
  ec_requested_amount :: decimal
  ec_reason :: string
  ec_now :: instant
  ec_ttl_s :: int

text \<open>The sink answers the id of the escalation it opened, or \<open>None\<close> when it raised.\<close>

type_synonym escalation_sink = "escalation_call \<Rightarrow> pep_state \<Rightarrow> pep_state \<times> uuid option"

record ('b, 'k) pipeline =
  pp_sha :: hasher
  pp_loads :: "string \<Rightarrow> jval option"
  pp_unquote :: "string \<Rightarrow> string"
  pp_lib :: "('b, 'k) biscuit_lib"
  pp_routes :: route_table
  pp_key_set :: "'k list"
  pp_policy :: "agent_principal \<Rightarrow> policy_engine"
  pp_bundle_version :: string
  pp_principal_for :: "'b verified_token \<Rightarrow> agent_principal py"
  pp_caveats_for :: "'b verified_token \<Rightarrow> (caveat list) py"
  pp_revocation :: revocation_oracle
  pp_pep_id :: string
  pp_policy_version_fallback :: string
  pp_escalation_ttl_s :: int
  pp_drift :: "drift_oracle option"
  pp_features :: "(request_context \<Rightarrow> (decimal strmap) option) option"
  pp_escalation_sink :: "escalation_sink option"
  pp_detail :: "decision \<Rightarrow> string"
  pp_ref_detail :: "decision \<Rightarrow> string option"
  pp_refusal_detail :: "reason_code \<Rightarrow> string"

record call_env =
  cv_decision_id :: uuid
  cv_reservation_id :: uuid
  cv_span_trace_id :: "string option"
  cv_latency_us :: int
  cv_t_verify :: instant
  cv_t_context :: instant
  cv_t_check :: instant
  cv_t_escalate :: instant
  cv_t_reserve :: instant
  cv_t_record :: instant
  cv_t_commit :: instant

record 'b authorized =
  au_extraction :: extraction
  au_token :: "'b verified_token"
  au_reservation :: "reservation option"
  au_decision_id :: uuid
  au_trace_id :: string

record refused =
  rf_status :: int
  rf_reason_code :: reason_code
  rf_decision_id :: "uuid option"
  rf_trace_id :: string
  rf_escalation_id :: "uuid option"

datatype 'b auth_result = Authorized "'b authorized" | Refused refused

text \<open>An exception \<open>authorize\<close> lets through.\<close>

datatype pep_raise = PepRaised exc | ExtractRaised ext_error | PoolRaised pool_error

section \<open>Headers, token and context\<close>

text \<open>\<open>{name.lower(): value for name, value in headers}\<close>.\<close>

definition header_map :: "string strmap \<Rightarrow> string strmap" where
  "header_map headers = fold (\<lambda>(n, v) m. AList.update (lower_case n) v m) headers []"

definition bearer_token :: "string strmap \<Rightarrow> string option" where
  "bearer_token hm =
     (let raw = strip (case map_of hm ''authorization'' of None \<Rightarrow> [] | Some v \<Rightarrow> v) in
      if take 7 (lower_case raw) = ''bearer '' then Some (strip (drop 7 raw)) else None)"

definition header_text :: "string strmap \<Rightarrow> string \<Rightarrow> string option" where
  "header_text hm name = (case map_of hm name of Some v \<Rightarrow> if v = [] then None else Some v | None \<Rightarrow> None)"

definition trace_of :: "call_env \<Rightarrow> string" where
  "trace_of ce =
     (case cv_span_trace_id ce of Some t \<Rightarrow> if t = [] then uuid_str (cv_decision_id ce) else t
      | None \<Rightarrow> uuid_str (cv_decision_id ce))"

text \<open>\<open>requested\<close> is zero but for the spend, read from the scaled argument when that is an integer.\<close>

definition requested_spend :: "extraction \<Rightarrow> decimal" where
  "requested_spend x =
     (case map_of (ex_args x) ''payment.amount'' of Some (VNum d) \<Rightarrow> ctx_round (d / 10000) | _ \<Rightarrow> 0)"

definition context_for ::
  "('b, 'k) pipeline \<Rightarrow> call_env \<Rightarrow> extraction \<Rightarrow> 'b verified_token \<Rightarrow> string strmap \<Rightarrow> request_context py" where
  "context_for cfg ce x tok hm =
     (let task_text = header_text hm ''agentiam-task-intent'';
          action_text = header_text hm ''agentiam-action-intent'' in
      bindE (case task_text of
               Some t \<Rightarrow> intent_hash_of (pp_sha cfg) t
             | None \<Rightarrow> Inr (case map_of hm ''x-agentiam-intent'' of Some h \<Rightarrow> h | None \<Rightarrow> vt_intent_hash tok))
        (\<lambda>intent.
           let ctx = \<lparr>operation = ex_scope x, requested = (\<lambda>d. 0)(SPEND_BDT := requested_spend x),
                      current_depth = vt_depth tok, request_intent = intent, now = cv_t_context ce,
                      tool = (if ex_tool x = [] then None else Some (ex_tool x)), args = ex_args x,
                      task_intent_text = task_text, action_intent_text = action_text,
                      drift_mode_of = ex_drift_mode x\<rparr>
           in if request_context_wf ctx then Inr ctx else Inl ValueError))"

section \<open>The record\<close>

definition spend_budget :: "decimal \<Rightarrow> budget" where
  "spend_budget v = \<lparr>spend_bdt = v, tool_calls = 0, rows_read = 0, external_emails = 0, wall_clock_s = 0\<rparr>"

definition recorded_authority_of :: "'b verified_token \<Rightarrow> caveat list option \<Rightarrow> recorded_authority option py" where
  "recorded_authority_of tok caveats =
     (case caveats of
        None \<Rightarrow> Inr None
      | Some cs \<Rightarrow>
          bindE (traverseE mk_caveat (grant_caveats tok)) (\<lambda>grant.
            let bound = effective_bound (grant @ cs) in
            Inr (Some \<lparr>ra_scopes = map_option sorted_list_of_set (ea_scopes bound), ra_ceilings = ea_budget bound,
                      ra_not_after = ea_not_after bound, ra_max_depth = ea_max_depth bound\<rparr>)))"

definition feature_vector :: "('b, 'k) pipeline \<Rightarrow> request_context option \<Rightarrow> (decimal strmap) option" where
  "feature_vector cfg ctx =
     (case (pp_features cfg, ctx) of
        (Some f, Some c) \<Rightarrow> (case f c of Some (x # xs) \<Rightarrow> Some (x # xs) | _ \<Rightarrow> None)
      | _ \<Rightarrow> None)"

definition build_record ::
  "('b, 'k) pipeline \<Rightarrow> call_env \<Rightarrow> extraction \<Rightarrow> 'b verified_token \<Rightarrow> agent_principal \<Rightarrow> reason_code \<Rightarrow> outcome \<Rightarrow> string
    \<Rightarrow> reservation option \<Rightarrow> decimal option \<Rightarrow> caveat_ref option \<Rightarrow> request_context option \<Rightarrow> caveat list option
    \<Rightarrow> lease_pool \<Rightarrow> decision_record py" where
  "build_record cfg ce x tok pr reason oc detail reservation score failing fctx caveats pool =
     (let before = remaining SPEND_BDT pool;
          spent = (case reservation of None \<Rightarrow> 0 | Some r \<Rightarrow> rz_amount r) in
      bindE (mk_budget (spend_budget (before + spent))) (\<lambda>bb.
      bindE (mk_budget (spend_budget before)) (\<lambda>ba.
      bindE (recorded_authority_of tok caveats) (\<lambda>auth.
        mk_decision_record
          \<lparr>decision_id = cv_decision_id ce, trace_id = trace_of ce, timestamp = cv_t_record ce,
           pep_id = pp_pep_id cfg, token_chain_ids = vt_revocation_ids tok,
           dr_principal_id = vt_principal_id tok, dr_task_id = vt_task_id tok, dr_agent_id = ap_agent_id pr,
           dr_role = ap_declared_role pr, dr_depth = vt_depth tok, dr_scope = ex_scope x, dr_tool_id = ex_tool x,
           arg_digest = ex_arg_digest x, dr_outcome = oc, dr_reason_code = reason, dr_reason_detail = detail,
           dr_failing_caveat = failing,
           dr_policy_version = (if pp_bundle_version cfg = [] then pp_policy_version_fallback cfg else pp_bundle_version cfg),
           budget_before = bb, budget_after = ba, dr_reservation_id = map_option rz_id reservation,
           dr_drift_score = score, dr_drift_features = feature_vector cfg fctx, latency_us = cv_latency_us ce,
           elevated_by = None, authority = auth\<rparr>))))"

section \<open>Refusing\<close>

definition refuse :: "reason_code \<Rightarrow> string \<Rightarrow> pep_raise + 'b auth_result" where
  "refuse reason trace =
     (case pep_status_for reason of
        Inl e \<Rightarrow> Inl (PepRaised e)
      | Inr st \<Rightarrow> Inr (Refused \<lparr>rf_status = st, rf_reason_code = reason, rf_decision_id = None,
                                rf_trace_id = trace, rf_escalation_id = None\<rparr>))"

text \<open>A refusal after verification is recorded; a full buffer does not make it worse.\<close>

definition record_and_refuse ::
  "('b, 'k) pipeline \<Rightarrow> call_env \<Rightarrow> reason_code \<Rightarrow> extraction \<Rightarrow> 'b verified_token \<Rightarrow> agent_principal \<Rightarrow> pep_state
    \<Rightarrow> pep_state \<times> (pep_raise + 'b auth_result)" where
  "record_and_refuse cfg ce reason x tok pr st =
     (case build_record cfg ce x tok pr reason DENY (pp_refusal_detail cfg reason) None None None None None (px_pool st) of
        Inl e \<Rightarrow> (st, Inl (PepRaised e))
      | Inr rec \<Rightarrow>
          (case emit rec (px_emitter st) of
             Inl _ \<Rightarrow> (st, refuse reason (trace_of ce))
           | Inr em \<Rightarrow> (st\<lparr>px_emitter := em\<rparr>, refuse reason (trace_of ce))))"

section \<open>authorize\<close>

text \<open>
  \<open>LeasePool.check\<close> may schedule a top-up when it refuses.  \<open>decide\<close> consults the pool exactly
  when an unavailable pool would have changed its answer.
\<close>

definition pool_oracle :: "call_env \<Rightarrow> lease_pool \<Rightarrow> budget_oracle" where
  "pool_oracle ce pool req = Some (snd (pool_check True (cv_t_check ce) req pool))"

definition run_decide ::
  "('b, 'k) pipeline \<Rightarrow> 'b verified_token \<Rightarrow> agent_principal \<Rightarrow> caveat list \<Rightarrow> request_context \<Rightarrow> budget_oracle \<Rightarrow> decision py" where
  "run_decide cfg tok pr cs ctx budget =
     decide (pp_lib cfg) tok ctx cs (pp_revocation cfg)
       (pp_policy cfg pr) budget (pp_drift cfg)"

definition pool_after_decide ::
  "('b, 'k) pipeline \<Rightarrow> call_env \<Rightarrow> 'b verified_token \<Rightarrow> agent_principal \<Rightarrow> caveat list \<Rightarrow> request_context \<Rightarrow> lease_pool \<Rightarrow> lease_pool" where
  "pool_after_decide cfg ce tok pr cs ctx pool =
     (if run_decide cfg tok pr cs ctx (pool_oracle ce pool) = run_decide cfg tok pr cs ctx (\<lambda>_. None) then pool
      else fst (pool_check True (cv_t_check ce) (requested ctx) pool))"

text \<open>The end of \<open>authorize\<close>: record, emit, answer.\<close>

definition finish_authorize ::
  "('b, 'k) pipeline \<Rightarrow> call_env \<Rightarrow> extraction \<Rightarrow> 'b verified_token \<Rightarrow> agent_principal \<Rightarrow> caveat list \<Rightarrow> request_context \<Rightarrow> decision
    \<Rightarrow> uuid option \<Rightarrow> reservation option \<Rightarrow> pep_state \<Rightarrow> pep_state \<times> (pep_raise + 'b auth_result)" where
  "finish_authorize cfg ce x tok pr cs ctx d esc_id reservation st =
     (case build_record cfg ce x tok pr (de_reason_code d) (de_outcome d) (pp_detail cfg d) reservation (de_drift_score d)
             (map_option (\<lambda>(i, k). \<lparr>ref_block_index = i, ref_kind = k, ref_detail = pp_ref_detail cfg d\<rparr>) (de_failing_caveat d))
             (Some ctx) (Some cs) (px_pool st) of
        Inl e \<Rightarrow> (st, Inl (PepRaised e))
      | Inr rec \<Rightarrow>
          (case emit rec (px_emitter st) of
             Inl _ \<Rightarrow>
               (case reservation of
                  None \<Rightarrow> (st, refuse CONTROL_PLANE_UNAVAILABLE_FAIL_CLOSED (trace_of ce))
                | Some r \<Rightarrow>
                    (case pool_commit (cv_t_commit ce) SPEND_BDT r 0 (px_pool st) of
                       (pool', Inl e) \<Rightarrow> (st\<lparr>px_pool := pool'\<rparr>, Inl (PoolRaised e))
                     | (pool', Inr _) \<Rightarrow>
                         (st\<lparr>px_pool := pool'\<rparr>, refuse CONTROL_PLANE_UNAVAILABLE_FAIL_CLOSED (trace_of ce))))
           | Inr em \<Rightarrow>
               (st\<lparr>px_emitter := em\<rparr>,
                if de_outcome d \<noteq> ALLOW
                then (case pep_status_for (de_reason_code d) of
                        Inl e \<Rightarrow> Inl (PepRaised e)
                      | Inr s \<Rightarrow> Inr (Refused \<lparr>rf_status = s, rf_reason_code = de_reason_code d,
                                               rf_decision_id = Some (cv_decision_id ce), rf_trace_id = trace_of ce,
                                               rf_escalation_id = esc_id\<rparr>))
                else Inr (Authorized \<lparr>au_extraction = x, au_token = tok, au_reservation = reservation,
                                      au_decision_id = cv_decision_id ce, au_trace_id = trace_of ce\<rparr>))))"

definition escalation_call_for ::
  "('b, 'k) pipeline \<Rightarrow> call_env \<Rightarrow> 'b verified_token \<Rightarrow> agent_principal \<Rightarrow> request_context \<Rightarrow> decision \<Rightarrow> escalation_call" where
  "escalation_call_for cfg ce tok pr ctx d =
     \<lparr>ec_decision_id = cv_decision_id ce, ec_task_id = vt_task_id tok,
      ec_agent_id = ap_agent_id pr, ec_principal_id = vt_principal_id tok,
      ec_intent_hash = request_intent ctx, ec_requested_scopes = {operation ctx},
      ec_requested_amount = requested ctx SPEND_BDT, ec_reason = pp_detail cfg d, ec_now = cv_t_escalate ce,
      ec_ttl_s = pp_escalation_ttl_s cfg\<rparr>"

text \<open>From the decision on.\<close>

definition after_decision ::
  "('b, 'k) pipeline \<Rightarrow> call_env \<Rightarrow> extraction \<Rightarrow> 'b verified_token \<Rightarrow> agent_principal \<Rightarrow> caveat list \<Rightarrow> request_context \<Rightarrow> decision \<Rightarrow> pep_state
    \<Rightarrow> pep_state \<times> (pep_raise + 'b auth_result)" where
  "after_decision cfg ce x tok pr cs ctx d st =
     (if de_outcome d = ESCALATE
      then (case pp_escalation_sink cfg of
              None \<Rightarrow> finish_authorize cfg ce x tok pr cs ctx d None None st
            | Some sink \<Rightarrow>
                (case sink (escalation_call_for cfg ce tok pr ctx d) st of
                   (st', None) \<Rightarrow> record_and_refuse cfg ce CONTROL_PLANE_UNAVAILABLE_FAIL_CLOSED x tok pr st'
                 | (st', Some i) \<Rightarrow> finish_authorize cfg ce x tok pr cs ctx d (Some i) None st'))
      else if de_outcome d = ALLOW \<and> requested ctx SPEND_BDT > 0
      then (case pool_reserve (cv_reservation_id ce) True (cv_t_reserve ce) SPEND_BDT (requested ctx SPEND_BDT) (px_pool st) of
              (pool', Inl ReservationInsufficientError) \<Rightarrow>
                record_and_refuse cfg ce LEASE_UNAVAILABLE x tok pr (st\<lparr>px_pool := pool'\<rparr>)
            | (pool', Inl e) \<Rightarrow> (st\<lparr>px_pool := pool'\<rparr>, Inl (PoolRaised e))
            | (pool', Inr r) \<Rightarrow> finish_authorize cfg ce x tok pr cs ctx d None (Some r) (st\<lparr>px_pool := pool'\<rparr>))
      else finish_authorize cfg ce x tok pr cs ctx d None None st)"

definition authorize ::
  "('b, 'k) pipeline \<Rightarrow> call_env \<Rightarrow> http_request \<Rightarrow> pep_state \<Rightarrow> pep_state \<times> (pep_raise + 'b auth_result)" where
  "authorize cfg ce req st =
     (let hm = header_map (hr_headers req) in
      case extract_request (pp_sha cfg) (pp_loads cfg) (pp_unquote cfg) (pp_routes cfg) (req\<lparr>hr_headers := hm\<rparr>) of
        Inl (ExtractionError reason) \<Rightarrow> (st, refuse reason (trace_of ce))
      | Inl e \<Rightarrow> (st, Inl (ExtractRaised e))
      | Inr x \<Rightarrow>
          (case bearer_token hm of
             None \<Rightarrow> (st, refuse MALFORMED_REQUEST (trace_of ce))
           | Some text \<Rightarrow>
               (case verify (pp_lib cfg) text (pp_key_set cfg) (Aware (cv_t_verify ce)) of
                  Inl e \<Rightarrow> (case exc_reason_code e of
                             Some reason \<Rightarrow> (st, refuse reason (trace_of ce))
                           | None \<Rightarrow> (st, Inl (PepRaised e)))
                | Inr tok \<Rightarrow>
                    (case context_for cfg ce x tok hm of
                       Inl e \<Rightarrow> (st, Inl (PepRaised e))
                     | Inr ctx \<Rightarrow>
                     (case pp_principal_for cfg tok of
                        Inl e \<Rightarrow> (st, Inl (PepRaised e))
                      | Inr pr \<Rightarrow>
                     (case pp_caveats_for cfg tok of
                        Inl e \<Rightarrow> (st, Inl (PepRaised e))
                      | Inr cs \<Rightarrow>
                         (case run_decide cfg tok pr cs ctx (pool_oracle ce (px_pool st)) of
                            Inl e \<Rightarrow> (st, Inl (PepRaised e))
                          | Inr d \<Rightarrow>
                              after_decision cfg ce x tok pr cs ctx d
                                (st\<lparr>px_pool := pool_after_decide cfg ce tok pr cs ctx (px_pool st)\<rparr>))))))))"

section \<open>settle\<close>

definition settle ::
  "instant \<Rightarrow> instant \<Rightarrow> 'b authorized \<Rightarrow> decimal option \<Rightarrow> pep_state \<Rightarrow> pep_state \<times> pool_error option" where
  "settle t_commit t_enqueue a actual st =
     (case au_reservation a of
        None \<Rightarrow> (st, None)
      | Some r \<Rightarrow>
          (case pool_commit t_commit SPEND_BDT r (case actual of None \<Rightarrow> rz_amount r | Some v \<Rightarrow> v) (px_pool st) of
             (pool', Inl e) \<Rightarrow> (st\<lparr>px_pool := pool'\<rparr>, Some e)
           | (pool', Inr out) \<Rightarrow>
               (st\<lparr>px_pool := pool', px_settlement := map_option (enqueue out t_enqueue) (px_settlement st)\<rparr>, None)))"

section \<open>The branches of authorize\<close>

lemma remaining_after_decide: "remaining k (pool_after_decide cfg ce tok pr cs ctx p) = remaining k p"
  by (simp add: pool_after_decide_def remaining_check)

lemma refuse_cases:
  "refuse reason trace = Inr y \<Longrightarrow>
     \<exists>s. pep_status_for reason = Inr s \<and> y = Refused \<lparr>rf_status = s, rf_reason_code = reason, rf_decision_id = None,
                                                  rf_trace_id = trace, rf_escalation_id = None\<rparr>"
  by (auto simp: refuse_def split: sum.splits)

lemma refuse_never_authorizes [simp]: "refuse reason trace \<noteq> Inr (Authorized a)"
  by (simp add: refuse_def split: sum.splits)

lemma refuse_Refused:
  "refuse reason trace = (Inr (Refused f) :: pep_raise + 'b auth_result) \<Longrightarrow> pep_status_for (rf_reason_code f) = Inr (rf_status f)"
  by (auto simp: refuse_def split: sum.splits)

lemma record_and_refuse_cases:
  assumes "record_and_refuse cfg ce reason x tok pr st = (st', Inr y)"
  shows "px_pool st' = px_pool st \<and> refuse reason (trace_of ce) = Inr y"
  using assms by (auto simp: record_and_refuse_def split: sum.splits)

lemma finish_Authorized:
  assumes "finish_authorize cfg ce x tok pr cs ctx d esc_id rv st = (st', Inr (Authorized a))"
  obtains rec where
    "build_record cfg ce x tok pr (de_reason_code d) (de_outcome d) (pp_detail cfg d) rv (de_drift_score d)
       (map_option (\<lambda>(i, k). \<lparr>ref_block_index = i, ref_kind = k, ref_detail = pp_ref_detail cfg d\<rparr>) (de_failing_caveat d))
       (Some ctx) (Some cs) (px_pool st) = Inr rec"
    "emit rec (px_emitter st) = Inr (px_emitter st')" "px_pool st' = px_pool st" "de_outcome d = ALLOW"
    "a = \<lparr>au_extraction = x, au_token = tok, au_reservation = rv, au_decision_id = cv_decision_id ce, au_trace_id = trace_of ce\<rparr>"
proof -
  let ?rec = "build_record cfg ce x tok pr (de_reason_code d) (de_outcome d) (pp_detail cfg d) rv (de_drift_score d)
       (map_option (\<lambda>(i, k). \<lparr>ref_block_index = i, ref_kind = k, ref_detail = pp_ref_detail cfg d\<rparr>) (de_failing_caveat d))
       (Some ctx) (Some cs) (px_pool st)"
  obtain rec where rec: "?rec = Inr rec" using assms by (cases ?rec) (simp_all add: finish_authorize_def)
  obtain em where em: "emit rec (px_emitter st) = Inr em"
    using assms rec
    by (cases "emit rec (px_emitter st)") (simp_all add: finish_authorize_def split: option.splits prod.splits sum.splits)
  then show ?thesis using assms rec that[OF rec] by (auto simp: finish_authorize_def split: if_splits sum.splits)
qed

lemma finish_Refused:
  assumes fin: "finish_authorize cfg ce x tok pr cs ctx d esc_id rv st = (st', Inr (Refused f))"
    and allowed: "rv \<noteq> None \<longrightarrow> de_outcome d = ALLOW" and pos: "within_opt (\<lambda>r. 0 < rz_amount r) rv"
  shows "pep_status_for (rf_reason_code f) = Inr (rf_status f)
    \<and> remaining k (px_pool st') =
        (case rv of None \<Rightarrow> remaining k (px_pool st)
         | Some r \<Rightarrow> if k = SPEND_BDT then remaining k (px_pool st) + rz_amount r else remaining k (px_pool st))"
proof -
  let ?rec = "build_record cfg ce x tok pr (de_reason_code d) (de_outcome d) (pp_detail cfg d) rv (de_drift_score d)
       (map_option (\<lambda>(i, k). \<lparr>ref_block_index = i, ref_kind = k, ref_detail = pp_ref_detail cfg d\<rparr>) (de_failing_caveat d))
       (Some ctx) (Some cs) (px_pool st)"
  obtain rec where rec: "?rec = Inr rec" using fin by (cases ?rec) (simp_all add: finish_authorize_def)
  show ?thesis
  proof (cases "emit rec (px_emitter st)")
    case (Inr em)
    then have "rv = None" using fin rec allowed by (auto simp: finish_authorize_def split: if_splits)
    then show ?thesis using fin rec Inr by (auto simp: finish_authorize_def split: if_splits sum.splits)
  next
    case full: (Inl e)
    show ?thesis
    proof (cases rv)
      case None
      then show ?thesis using fin rec full by (auto simp: finish_authorize_def dest: refuse_Refused)
    next
      case (Some r)
      obtain p y where c: "pool_commit (cv_t_commit ce) SPEND_BDT r 0 (px_pool st) = (p, y)" by fastforce
      then obtain out where y: "y = Inr out"
        using fin rec full Some by (cases y) (simp_all add: finish_authorize_def)
      have "remaining k p = (if k = SPEND_BDT then remaining k (px_pool st) + rz_amount r else remaining k (px_pool st))"
        using commit_nothing[of "cv_t_commit ce" SPEND_BDT r "px_pool st" p out k] c y pos Some by simp
      moreover have "px_pool st' = p" "pep_status_for (rf_reason_code f) = Inr (rf_status f)"
        using fin rec full Some c y by (auto simp: finish_authorize_def dest: refuse_Refused)
      ultimately show ?thesis using Some by simp
    qed
  qed
qed

lemma after_decision_Authorized:
  assumes "after_decision cfg ce x tok pr cs ctx d st = (st', Inr (Authorized a))"
  obtains rv p where "finish_authorize cfg ce x tok pr cs ctx d None rv (st\<lparr>px_pool := p\<rparr>) = (st', Inr (Authorized a))"
    "case rv of
       None \<Rightarrow> requested ctx SPEND_BDT \<le> 0 \<and> p = px_pool st
     | Some r \<Rightarrow> 0 < requested ctx SPEND_BDT
         \<and> pool_reserve (cv_reservation_id ce) True (cv_t_reserve ce) SPEND_BDT (requested ctx SPEND_BDT) (px_pool st) = (p, Inr r)"
proof -
  have no: "False" if "record_and_refuse cfg ce reason x tok pr s = (st', Inr (Authorized a))" for reason s
    using record_and_refuse_cases[OF that] refuse_cases by fastforce
  have out: "de_outcome d = ALLOW" if "finish_authorize cfg ce x tok pr cs ctx d e rv s = (st', Inr (Authorized a))" for e rv s
    using that by (rule finish_Authorized)
  consider (esc) "de_outcome d = ESCALATE" | (spend) "de_outcome d = ALLOW" "0 < requested ctx SPEND_BDT"
    | (free) "de_outcome d \<noteq> ESCALATE" "\<not> (de_outcome d = ALLOW \<and> 0 < requested ctx SPEND_BDT)"
    by blast
  then show ?thesis
  proof cases
    case esc
    then show ?thesis using assms no out by (fastforce simp: after_decision_def split: option.splits prod.splits)
  next
    case spend
    obtain p y where r: "pool_reserve (cv_reservation_id ce) True (cv_t_reserve ce) SPEND_BDT (requested ctx SPEND_BDT) (px_pool st) = (p, y)"
      by fastforce
    show ?thesis
    proof (cases y)
      case (Inl e)
      then show ?thesis using assms spend r no by (cases e) (fastforce simp: after_decision_def)+
    next
      case (Inr z)
      then show ?thesis using assms spend r that[of "Some z" p] by (simp add: after_decision_def)
    qed
  next
    case free
    then have fin: "finish_authorize cfg ce x tok pr cs ctx d None None st = (st', Inr (Authorized a))"
      using assms by (simp add: after_decision_def del: de_Morgan_conj)
    then show ?thesis using that[of None "px_pool st"] out[OF fin] free by simp
  qed
qed

lemma after_decision_Refused:
  assumes run: "after_decision cfg ce x tok pr cs ctx d st = (st', Inr (Refused f))"
    and sink: "\<forall>sink c s. pp_escalation_sink cfg = Some sink \<longrightarrow> px_pool (fst (sink c s)) = px_pool s"
  shows "pep_status_for (rf_reason_code f) = Inr (rf_status f) \<and> remaining k (px_pool st') = remaining k (px_pool st)"
proof -
  have rr: ?thesis if "record_and_refuse cfg ce reason x tok pr s = (st', Inr (Refused f))"
    "\<forall>k. remaining k (px_pool s) = remaining k (px_pool st)" for reason s
    using record_and_refuse_cases[OF that(1)] that(2) by (auto dest: refuse_Refused)
  have fr: ?thesis if "finish_authorize cfg ce x tok pr cs ctx d e None s = (st', Inr (Refused f))" "px_pool s = px_pool st" for e s
    using finish_Refused[OF that(1), of k] that(2) by simp
  consider (esc) "de_outcome d = ESCALATE" | (spend) "de_outcome d = ALLOW" "0 < requested ctx SPEND_BDT"
    | (free) "de_outcome d \<noteq> ESCALATE" "\<not> (de_outcome d = ALLOW \<and> 0 < requested ctx SPEND_BDT)"
    by blast
  then show ?thesis
  proof cases
    case esc
    show ?thesis
    proof (cases "pp_escalation_sink cfg")
      case None
      then show ?thesis using run esc fr by (simp add: after_decision_def)
    next
      case (Some sk)
      obtain s i where s: "sk (escalation_call_for cfg ce tok pr ctx d) st = (s, i)" by fastforce
      then have "px_pool s = px_pool st" using sink Some by (metis fst_conv)
      then show ?thesis using run esc Some s rr fr by (cases i) (simp_all add: after_decision_def)
    qed
  next
    case spend
    obtain p y where r: "pool_reserve (cv_reservation_id ce) True (cv_t_reserve ce) SPEND_BDT (requested ctx SPEND_BDT) (px_pool st) = (p, y)"
      by fastforce
    show ?thesis
    proof (cases y)
      case (Inl e)
      then show ?thesis using run spend r rr reserve_result[OF r] by (cases e) (simp_all add: after_decision_def)
    next
      case (Inr z)
      then have "finish_authorize cfg ce x tok pr cs ctx d None (Some z) (st\<lparr>px_pool := p\<rparr>) = (st', Inr (Refused f))"
        using run spend r by (simp add: after_decision_def)
      from finish_Refused[OF this, of k] show ?thesis using reserve_result[OF r] Inr spend by auto
    qed
  next
    case free
    then show ?thesis using run fr by (simp add: after_decision_def del: de_Morgan_conj)
  qed
qed

lemma authorize_stages:
  assumes "authorize cfg ce req st = (st', r)"
  obtains (early) "st' = st" "\<And>a. r \<noteq> Inr (Authorized a)" "\<And>f. r = Inr (Refused f) \<Longrightarrow> pep_status_for (rf_reason_code f) = Inr (rf_status f)"
      "\<And>f. r = Inr (Refused f) \<Longrightarrow> rf_escalation_id f = None"
  | (decided) x bt tok ctx d pr cs where
      "extract_request (pp_sha cfg) (pp_loads cfg) (pp_unquote cfg) (pp_routes cfg)
         (req\<lparr>hr_headers := header_map (hr_headers req)\<rparr>) = Inr x"
      "bearer_token (header_map (hr_headers req)) = Some bt"
      "verify (pp_lib cfg) bt (pp_key_set cfg) (Aware (cv_t_verify ce)) = Inr tok"
      "context_for cfg ce x tok (header_map (hr_headers req)) = Inr ctx"
      "pp_principal_for cfg tok = Inr pr" "pp_caveats_for cfg tok = Inr cs"
      "run_decide cfg tok pr cs ctx (pool_oracle ce (px_pool st)) = Inr d"
      "after_decision cfg ce x tok pr cs ctx d (st\<lparr>px_pool := pool_after_decide cfg ce tok pr cs ctx (px_pool st)\<rparr>) = (st', r)"
proof -
  let ?hm = "header_map (hr_headers req)"
  let ?x = "extract_request (pp_sha cfg) (pp_loads cfg) (pp_unquote cfg) (pp_routes cfg) (req\<lparr>hr_headers := ?hm\<rparr>)"
  consider (ext) e where "?x = Inl e" | (tok) x where "?x = Inr x" "bearer_token ?hm = None"
    | (ver) x bt e where "?x = Inr x" "bearer_token ?hm = Some bt" "verify (pp_lib cfg) bt (pp_key_set cfg) (Aware (cv_t_verify ce)) = Inl e"
    | (ctx) x bt tok e where "?x = Inr x" "bearer_token ?hm = Some bt" "verify (pp_lib cfg) bt (pp_key_set cfg) (Aware (cv_t_verify ce)) = Inr tok"
        "context_for cfg ce x tok ?hm = Inl e"
    | (hooks) x bt tok ctx where "?x = Inr x" "bearer_token ?hm = Some bt" "verify (pp_lib cfg) bt (pp_key_set cfg) (Aware (cv_t_verify ce)) = Inr tok"
        "context_for cfg ce x tok ?hm = Inr ctx" "\<nexists>pr cs. pp_principal_for cfg tok = Inr pr \<and> pp_caveats_for cfg tok = Inr cs"
    | (run) x bt tok ctx pr cs where "?x = Inr x" "bearer_token ?hm = Some bt" "verify (pp_lib cfg) bt (pp_key_set cfg) (Aware (cv_t_verify ce)) = Inr tok"
        "context_for cfg ce x tok ?hm = Inr ctx" "pp_principal_for cfg tok = Inr pr" "pp_caveats_for cfg tok = Inr cs"
    by (metis sum.exhaust option.exhaust)
  moreover have refused: thesis if "st' = st" "r = refuse reason (trace_of ce)" for reason
    by (rule early) (use that in \<open>auto dest: refuse_Refused refuse_cases\<close>)
  moreover have raised: thesis if "st' = st" "r = Inl e" for e
    by (rule early) (use that in auto)
  ultimately show ?thesis
  proof cases
    case ext
    then show ?thesis using assms refused raised by (cases e) (auto simp: authorize_def)
  next
    case tok
    then show ?thesis using assms refused raised by (auto simp: authorize_def)
  next
    case ver
    then show ?thesis using assms refused raised by (cases "exc_reason_code e") (auto simp: authorize_def)
  next
    case ctx
    then show ?thesis using assms refused raised by (auto simp: authorize_def)
  next
    case hooks
    then show ?thesis using assms raised by (auto simp: authorize_def split: sum.splits)
  next
    case run
    then show ?thesis using assms raised decided[OF run]
      by (cases "run_decide cfg tok pr cs ctx (pool_oracle ce (px_pool st))") (auto simp: authorize_def)
  qed
qed

lemma build_record_fields:
  assumes "build_record cfg ce x tok pr reason oc detail rv score failing fctx cs p = Inr rec"
  shows "decision_id rec = cv_decision_id ce" "dr_outcome rec = oc" "dr_reason_code rec = reason"
    "dr_scope rec = ex_scope x" "arg_digest rec = ex_arg_digest x" "token_chain_ids rec = vt_revocation_ids tok"
    "dr_reservation_id rec = map_option rz_id rv" "spend_bdt (budget_after rec) = remaining SPEND_BDT p"
    "spend_bdt (budget_before rec) = remaining SPEND_BDT p + (case rv of None \<Rightarrow> 0 | Some r \<Rightarrow> rz_amount r)"
  using assms
  by (auto simp: build_record_def Let_def mk_decision_record_def mk_budget_def spend_budget_def
      split: sum.splits if_splits)

lemma context_for_fields:
  assumes "context_for cfg ce x tok hm = Inr ctx"
  shows "operation ctx = ex_scope x" "requested ctx = (\<lambda>d. 0)(SPEND_BDT := requested_spend x)" "args ctx = ex_args x"
    "current_depth ctx = vt_depth tok" "request_context_wf ctx"
  using assms by (auto simp: context_for_def Let_def split: sum.splits if_splits)

lemma authorized_run:
  assumes "authorize cfg ce req st = (st', Inr (Authorized a))"
  obtains x bt tok ctx d rv p rec pr cs where
    "extract_request (pp_sha cfg) (pp_loads cfg) (pp_unquote cfg) (pp_routes cfg)
       (req\<lparr>hr_headers := header_map (hr_headers req)\<rparr>) = Inr x"
    "bearer_token (header_map (hr_headers req)) = Some bt"
    "verify (pp_lib cfg) bt (pp_key_set cfg) (Aware (cv_t_verify ce)) = Inr tok"
    "context_for cfg ce x tok (header_map (hr_headers req)) = Inr ctx"
    "pp_principal_for cfg tok = Inr pr" "pp_caveats_for cfg tok = Inr cs"
    "run_decide cfg tok pr cs ctx (pool_oracle ce (px_pool st)) = Inr d" "de_outcome d = ALLOW"
    "case rv of
       None \<Rightarrow> requested_spend x \<le> 0 \<and> p = pool_after_decide cfg ce tok pr cs ctx (px_pool st)
     | Some r \<Rightarrow> 0 < requested_spend x
         \<and> pool_reserve (cv_reservation_id ce) True (cv_t_reserve ce) SPEND_BDT (requested_spend x)
              (pool_after_decide cfg ce tok pr cs ctx (px_pool st)) = (p, Inr r)"
    "build_record cfg ce x tok pr (de_reason_code d) ALLOW (pp_detail cfg d) rv (de_drift_score d)
       (map_option (\<lambda>(i, k). \<lparr>ref_block_index = i, ref_kind = k, ref_detail = pp_ref_detail cfg d\<rparr>) (de_failing_caveat d))
       (Some ctx) (Some cs) p = Inr rec"
    "emit rec (px_emitter st) = Inr (px_emitter st')" "px_pool st' = p"
    "a = \<lparr>au_extraction = x, au_token = tok, au_reservation = rv, au_decision_id = cv_decision_id ce, au_trace_id = trace_of ce\<rparr>"
  using assms
proof (cases rule: authorize_stages)
  case (decided x bt tok ctx d pr cs)
  let ?st = "st\<lparr>px_pool := pool_after_decide cfg ce tok pr cs ctx (px_pool st)\<rparr>"
  obtain rv p where fin: "finish_authorize cfg ce x tok pr cs ctx d None rv (?st\<lparr>px_pool := p\<rparr>) = (st', Inr (Authorized a))"
    and rv: "case rv of
       None \<Rightarrow> requested ctx SPEND_BDT \<le> 0 \<and> p = px_pool ?st
     | Some r \<Rightarrow> 0 < requested ctx SPEND_BDT
         \<and> pool_reserve (cv_reservation_id ce) True (cv_t_reserve ce) SPEND_BDT (requested ctx SPEND_BDT) (px_pool ?st) = (p, Inr r)"
    by (rule after_decision_Authorized[OF decided(8)])
  from fin obtain rec where rec:
    "build_record cfg ce x tok pr (de_reason_code d) (de_outcome d) (pp_detail cfg d) rv (de_drift_score d)
       (map_option (\<lambda>(i, k). \<lparr>ref_block_index = i, ref_kind = k, ref_detail = pp_ref_detail cfg d\<rparr>) (de_failing_caveat d))
       (Some ctx) (Some cs) (px_pool (?st\<lparr>px_pool := p\<rparr>)) = Inr rec"
    and em: "emit rec (px_emitter st) = Inr (px_emitter st')" and p: "px_pool st' = p" and ok: "de_outcome d = ALLOW"
    and a: "a = \<lparr>au_extraction = x, au_token = tok, au_reservation = rv, au_decision_id = cv_decision_id ce, au_trace_id = trace_of ce\<rparr>"
    by (rule finish_Authorized) simp
  have "requested ctx SPEND_BDT = requested_spend x" using context_for_fields[OF decided(4)] by simp
  then show ?thesis using that[OF decided(1-7) ok _ _ em p a] rec rv ok by (cases rv) simp_all
next
  case early
  from early(2)[of a] show ?thesis by simp
qed

lemma authorized_pool:
  assumes "case rv of
       None \<Rightarrow> requested_spend x \<le> 0 \<and> p = pool_after_decide cfg ce tok pr cs ctx p0
     | Some r \<Rightarrow> 0 < requested_spend x
         \<and> pool_reserve i True t SPEND_BDT (requested_spend x) (pool_after_decide cfg ce tok pr cs ctx p0) = (p, Inr r)"
  shows "case rv of None \<Rightarrow> requested_spend x \<le> 0 | Some r \<Rightarrow> 0 < rz_amount r \<and> rz_amount r = requested_spend x" (is ?amount)
    "remaining k p = remaining k p0 - (if k = SPEND_BDT then case rv of None \<Rightarrow> 0 | Some r \<Rightarrow> rz_amount r else 0)" (is ?left)
    "rv = Some r \<Longrightarrow> \<exists>h. pl_held p SPEND_BDT = Some h \<and> ll_id (hd_lease h) = rz_lease_id r"
proof -
  have "?amount \<and> ?left \<and> (\<forall>r. rv = Some r \<longrightarrow> (\<exists>h. pl_held p SPEND_BDT = Some h \<and> ll_id (hd_lease h) = rz_lease_id r))"
  proof (cases rv)
    case (Some r)
    then have res: "pool_reserve i True t SPEND_BDT (requested_spend x) (pool_after_decide cfg ce tok pr cs ctx p0) = (p, Inr r)"
      "0 < requested_spend x" using assms by simp_all
    show ?thesis using reserve_result[OF res(1)] res(2) Some by (auto simp: remaining_after_decide)
  qed (use assms in \<open>auto simp: remaining_after_decide\<close>)
  then show ?amount ?left "rv = Some r \<Longrightarrow> \<exists>h. pl_held p SPEND_BDT = Some h \<and> ll_id (hd_lease h) = rz_lease_id r"
    by auto
qed

section \<open>Properties\<close>

text \<open>
  C17: Nothing is spent on a refused request: whatever the reason, on whichever branch and
  however the record fared, a refusal leaves what every dimension has remaining as it was, the
  reservation given back, provided the escalation sink itself leaves the pool alone.  The answer
  carries a 4xx or 5xx status and never the reason \<open>OK\<close>.
\<close>
theorem refusal_spends_nothing:
  assumes run: "authorize cfg ce req st = (st', Inr (Refused f))"
    and sink: "\<forall>sink c s. pp_escalation_sink cfg = Some sink \<longrightarrow> px_pool (fst (sink c s)) = px_pool s"
  shows "(\<forall>k. remaining k (px_pool st') = remaining k (px_pool st))
    \<and> rf_status f \<in> {401, 403, 429, 502, 503} \<and> rf_reason_code f \<noteq> OK"
proof -
  have "pep_status_for (rf_reason_code f) = Inr (rf_status f) \<and> remaining k (px_pool st') = remaining k (px_pool st)" for k
    using run
  proof (cases rule: authorize_stages)
    case (decided x bt tok ctx d pr cs)
    then show ?thesis using after_decision_Refused[OF decided(8) sink, of k] by (simp add: remaining_after_decide)
  qed simp
  then show ?thesis by (cases "rf_reason_code f") auto
qed

text \<open>
  C1: An authorized request has passed everything, is paid for and is on the record.  Its
  arguments were extracted from the request, its token verified, no id of the chain is revoked,
  the scope is granted and every caveat read off the token allows it, biscuit authorized it, the policy in force is
  fresh and allows it.  The spend it asked for is held: a positive amount is reserved and what
  remains has dropped by exactly that, otherwise nothing changed.  A record of the same decision
  id, outcome, scope, argument digest, chain and reservation, whose budget before and after
  differ by the amount reserved, has been accepted by the emitter.
\<close>
theorem authorized_is_allowed_reserved_recorded:
  assumes run: "authorize cfg ce req st = (st', Inr (Authorized a))"
  shows "\<exists>bt ctx rec pr cs.
      extract_request (pp_sha cfg) (pp_loads cfg) (pp_unquote cfg) (pp_routes cfg)
        (req\<lparr>hr_headers := header_map (hr_headers req)\<rparr>) = Inr (au_extraction a)
    \<and> bearer_token (header_map (hr_headers req)) = Some bt
    \<and> verify (pp_lib cfg) bt (pp_key_set cfg) (Aware (cv_t_verify ce)) = Inr (au_token a)
    \<and> context_for cfg ce (au_extraction a) (au_token a) (header_map (hr_headers req)) = Inr ctx
    \<and> (\<forall>i \<in> set (vt_revocation_ids (au_token a)). pp_revocation cfg i = Some False)
    \<and> ex_scope (au_extraction a) \<in> vt_scopes (au_token a)
    \<and> pp_principal_for cfg (au_token a) = Inr pr \<and> pp_caveats_for cfg (au_token a) = Inr cs
    \<and> list_all (\<lambda>c. evaluate c ctx = Inr allow_result) cs
    \<and> authorize_request (pp_lib cfg) (au_token a) ctx = Inr None
    \<and> (\<exists>v. pp_policy cfg pr ctx = Some v \<and> \<not> pv_stale v \<and> pv_allowed v)
    \<and> (case au_reservation a of
         None \<Rightarrow> requested_spend (au_extraction a) \<le> 0
       | Some r \<Rightarrow> 0 < rz_amount r \<and> rz_amount r = requested_spend (au_extraction a))
    \<and> (\<forall>k. remaining k (px_pool st') = remaining k (px_pool st)
             - (if k = SPEND_BDT then case au_reservation a of None \<Rightarrow> 0 | Some r \<Rightarrow> rz_amount r else 0))
    \<and> emit rec (px_emitter st) = Inr (px_emitter st')
    \<and> decision_id rec = au_decision_id a \<and> dr_outcome rec = ALLOW \<and> dr_scope rec = ex_scope (au_extraction a)
    \<and> arg_digest rec = ex_arg_digest (au_extraction a) \<and> token_chain_ids rec = vt_revocation_ids (au_token a)
    \<and> dr_reservation_id rec = map_option rz_id (au_reservation a)
    \<and> spend_bdt (budget_before rec) - spend_bdt (budget_after rec)
        = (case au_reservation a of None \<Rightarrow> 0 | Some r \<Rightarrow> rz_amount r)"
proof -
  obtain x bt tok ctx d rv p rec pr cs where
    st: "extract_request (pp_sha cfg) (pp_loads cfg) (pp_unquote cfg) (pp_routes cfg)
       (req\<lparr>hr_headers := header_map (hr_headers req)\<rparr>) = Inr x"
    "bearer_token (header_map (hr_headers req)) = Some bt"
    "verify (pp_lib cfg) bt (pp_key_set cfg) (Aware (cv_t_verify ce)) = Inr tok"
    "context_for cfg ce x tok (header_map (hr_headers req)) = Inr ctx"
    "pp_principal_for cfg tok = Inr pr" "pp_caveats_for cfg tok = Inr cs"
    and d: "run_decide cfg tok pr cs ctx (pool_oracle ce (px_pool st)) = Inr d" "de_outcome d = ALLOW"
    and rv: "case rv of
       None \<Rightarrow> requested_spend x \<le> 0 \<and> p = pool_after_decide cfg ce tok pr cs ctx (px_pool st)
     | Some r \<Rightarrow> 0 < requested_spend x
         \<and> pool_reserve (cv_reservation_id ce) True (cv_t_reserve ce) SPEND_BDT (requested_spend x)
              (pool_after_decide cfg ce tok pr cs ctx (px_pool st)) = (p, Inr r)"
    and rec: "build_record cfg ce x tok pr (de_reason_code d) ALLOW (pp_detail cfg d) rv (de_drift_score d)
       (map_option (\<lambda>(i, k). \<lparr>ref_block_index = i, ref_kind = k, ref_detail = pp_ref_detail cfg d\<rparr>) (de_failing_caveat d))
       (Some ctx) (Some cs) p = Inr rec"
    and em: "emit rec (px_emitter st) = Inr (px_emitter st')" and p: "px_pool st' = p"
    and a: "a = \<lparr>au_extraction = x, au_token = tok, au_reservation = rv, au_decision_id = cv_decision_id ce, au_trace_id = trace_of ce\<rparr>"
    by (rule authorized_run[OF run])
  note fields = build_record_fields[OF rec]
  have "\<exists>d. run_decide cfg tok pr cs ctx (pool_oracle ce (px_pool st)) = Inr d \<and> decision_allowed d"
    using d by (simp add: decision_allowed_def)
  then have allowed: "(\<forall>i \<in> set (vt_revocation_ids tok). pp_revocation cfg i = Some False)"
    "ex_scope x \<in> vt_scopes tok" "list_all (\<lambda>c. evaluate c ctx = Inr allow_result) cs"
    "authorize_request (pp_lib cfg) tok ctx = Inr None"
    "\<exists>v. pp_policy cfg pr ctx = Some v \<and> \<not> pv_stale v \<and> pv_allowed v"
    unfolding run_decide_def decide_allowed_iff using context_for_fields(1)[OF st(4)] by simp_all
  have "spend_bdt (budget_before rec) - spend_bdt (budget_after rec) = (case rv of None \<Rightarrow> 0 | Some r \<Rightarrow> rz_amount r)"
    using fields by simp
  then show ?thesis unfolding a authorized.select_convs
    using st allowed authorized_pool(1,2)[OF rv] em fields(1,2,4-7) p
    by (intro exI[of _ bt] exI[of _ ctx] exI[of _ rec] exI[of _ pr] exI[of _ cs]) simp
qed

text \<open>
  Authorize, then settle.  When the tool reports no more than was reserved and the pool has
  not replaced the lease meanwhile, settling succeeds, the lease ends with exactly what it had
  less the reported amount, and the queue for the ledger gains one settlement of that amount,
  under the reservation's id and charged to the lease it was reserved from.
\<close>
theorem settle_after_authorize:
  assumes run: "authorize cfg ce req st = (st', Inr (Authorized a))" and r: "au_reservation a = Some r"
    and v: "0 \<le> v" "v \<le> rz_amount r" and q: "px_settlement st' = Some q" "\<not> sq_closed q"
      "int (length (sq_pending q)) < st_capacity (sq_settings q)"
  shows "\<exists>st2 q2. settle t t' a (Some v) st' = (st2, None) \<and> px_settlement st2 = Some q2
    \<and> remaining SPEND_BDT (px_pool st2) = remaining SPEND_BDT (px_pool st) - v
    \<and> sq_pending q2 = sq_pending q @ [\<lparr>pd_lease_id = rz_lease_id r, pd_reservation_id = rz_id r, pd_amount = v, pd_now = t'\<rparr>]"
proof -
  obtain x tok ctx pr cs where rv: "case au_reservation a of
       None \<Rightarrow> requested_spend x \<le> 0 \<and> px_pool st' = pool_after_decide cfg ce tok pr cs ctx (px_pool st)
     | Some r \<Rightarrow> 0 < requested_spend x
         \<and> pool_reserve (cv_reservation_id ce) True (cv_t_reserve ce) SPEND_BDT (requested_spend x)
              (pool_after_decide cfg ce tok pr cs ctx (px_pool st)) = (px_pool st', Inr r)"
    by (rule authorized_run[OF run]) auto
  obtain h where h: "pl_held (px_pool st') SPEND_BDT = Some h" "ll_id (hd_lease h) = rz_lease_id r"
    using authorized_pool(3)[OF rv r] by blast
  have left: "ll_remaining_local (hd_lease h) = remaining SPEND_BDT (px_pool st) - rz_amount r"
    using authorized_pool(2)[OF rv, of SPEND_BDT] r h by (simp add: remaining_def)
  obtain l out where c: "commit_local (hd_lease h) r v t (ps_skew (pl_settings (px_pool st'))) = (l, out)" by fastforce
  have l: "ll_remaining_local l = remaining SPEND_BDT (px_pool st) - v"
    "out = \<lparr>co_reservation_id = rz_id r, co_lease_id = rz_lease_id r, co_amount = v, co_escalated = False\<rparr>"
    using c left h(2) v by (auto simp: commit_local_def Let_def split: if_splits)
  show ?thesis using c l h q r by (simp add: settle_def pool_commit_def enqueue_def remaining_set_held)
qed

text \<open>
  Repeated headers are read, not refused.  Headers reach extraction through a dict, so of two
  headers of one name the last wins before duplicates are looked for: the request is treated as if
  the first had never been sent, while extraction given the headers themselves refuses it.
\<close>
theorem duplicate_headers_hidden:
  assumes "lower_case n = lower_case n'"
  shows "authorize cfg ce (req\<lparr>hr_headers := hs @ (n, v1) # (n', v2) # later\<rparr>) st
      = authorize cfg ce (req\<lparr>hr_headers := hs @ (n', v2) # later\<rparr>) st
    \<and> raw_value u unquote pp (req\<lparr>hr_headers := hs @ (n, v1) # (n', v2) # later\<rparr>) parsed
        \<lparr>sc_kind = KHeader, sc_keys = [lower_case n], sc_numeric = b\<rparr> = Inl malformed"
proof
  have "header_map (hs @ (n, v1) # (n', v2) # later) = header_map (hs @ (n', v2) # later)"
    using assms by (simp add: header_map_def update_last)
  then show "authorize cfg ce (req\<lparr>hr_headers := hs @ (n, v1) # (n', v2) # later\<rparr>) st
      = authorize cfg ce (req\<lparr>hr_headers := hs @ (n', v2) # later\<rparr>) st"
    by (simp add: authorize_def)
  obtain vs ws where "collect_headers (hs @ (n, v1) # (n', v2) # later) (lower_case n) = vs @ v1 # v2 # ws"
    using assms by (simp add: collect_headers_def)
  then show "raw_value u unquote pp (req\<lparr>hr_headers := hs @ (n, v1) # (n', v2) # later\<rparr>) parsed
        \<lparr>sc_kind = KHeader, sc_keys = [lower_case n], sc_numeric = b\<rparr> = Inl malformed"
    by (simp add: raw_value_def sc_name_def one_of_def split: list.splits)
qed

text \<open>
  A numeric argument is scaled twice.  The extractor hands the pipeline ten thousand times
  the amount; the pipeline divides it for the spend but keeps it in the arguments, so a caveat on
  \<open>payment.amount\<close> is compared with the scaled number and, in Datalog, scaled once more: a
  payment within the bound of such a caveat is refused as soon as its scaled amount exceeds it.
\<close>
theorem numeric_argument_scaled_twice:
  assumes ctx: "context_for cfg ce x tok hm = Inr ctx"
    and arg: "map_of (ex_args x) ''payment.amount'' = Some (VNum n)" and bound: "b < n"
  shows "requested ctx SPEND_BDT = ctx_round (n / 10000)
    \<and> evaluate (ArgPredicate ''payment.amount'' LE (PScalar (VNum b))) ctx = Inr (deny_result ARG_PREDICATE_FAILED)"
  using context_for_fields[OF ctx] arg bound
  by (simp add: requested_spend_def)

section \<open>Witnesses\<close>

definition read_rule :: route_rule where
  "read_rule =
     \<lparr>rr_method = ''POST'', rr_path = ''/read'', rr_scope = ''orders:read'', rr_tool = ''db'',
      rr_sources = [(''payment.amount'', \<lparr>sc_kind = KBody, sc_keys = [''amount''], sc_numeric = True\<rparr>)],
      rr_regex = (\<lambda>p. if p = ''/read'' then Some [] else None), rr_drift_mode = DRIFT_STRICT\<rparr>"

definition demo_principal :: agent_principal where
  "demo_principal = \<lparr>ap_agent_id = ''worker'', ap_role = ''reader'', ap_principal_id = ''alice'', ap_task_id = 12,
                    ap_declared_role = ''reader''\<rparr>"

definition demo_hasher :: hasher where
  "demo_hasher = \<lparr>hs_nfc = latin_nfc, hs_sha = \<lambda>_. replicate 64 CHR ''b''\<rparr>"

definition demo_pipeline :: "caveat list \<Rightarrow> (dl_stmt list list, nat) pipeline" where
  "demo_pipeline cs =
     \<lparr>pp_sha = demo_hasher, pp_loads = (\<lambda>_. Some (JObj [(''amount'', JNum False 1 0)])),
      pp_unquote = (\<lambda>u. u), pp_lib = demo_lib,
      pp_routes = \<lparr>rt_rules = [read_rule], rt_deny_unmapped = True, rt_max_extract_body_bytes = 1024, rt_mapping_version = []\<rparr>,
      pp_key_set = [7], pp_policy = (\<lambda>_. open_policy), pp_bundle_version = ''v1'',
      pp_principal_for = (\<lambda>_. Inr demo_principal),
      pp_caveats_for = (\<lambda>_. Inr cs), pp_revocation = (\<lambda>_. Some False), pp_pep_id = ''pep'',
      pp_policy_version_fallback = ''none'', pp_escalation_ttl_s = 900, pp_drift = None, pp_features = None, pp_escalation_sink = None,
      pp_detail = (\<lambda>_. []), pp_ref_detail = (\<lambda>_. None), pp_refusal_detail = (\<lambda>_. [])\<rparr>"

definition demo_env :: call_env where
  "demo_env =
     \<lparr>cv_decision_id = 31, cv_reservation_id = 32, cv_span_trace_id = Some ''t'', cv_latency_us = 5,
      cv_t_verify = seconds 10, cv_t_context = seconds 10, cv_t_check = seconds 10, cv_t_escalate = seconds 10,
      cv_t_reserve = seconds 10, cv_t_record = seconds 10, cv_t_commit = seconds 10\<rparr>"

definition demo_http :: http_request where
  "demo_http =
     \<lparr>hr_method = ''POST'', hr_path = ''/read'', hr_query = [],
      hr_headers = [(''Authorization'', ''Bearer token''), (''Content-Type'', ''application/json'')], hr_body = Some ''{}''\<rparr>"

definition demo_header_map :: "string strmap" where
  "demo_header_map = [(''authorization'', ''Bearer token''), (''content-type'', ''application/json'')]"

definition demo_state :: pep_state where
  "demo_state = \<lparr>px_pool = primed_pool, px_emitter = new_emitter demo_emitter_settings, px_settlement = None\<rparr>"

definition demo_extraction :: extraction where
  "demo_extraction =
     \<lparr>ex_scope = ''orders:read'', ex_tool = ''db'', ex_args = [(''payment.amount'', VNum 10000)],
      ex_arg_digest = replicate 64 CHR ''b'', ex_drift_mode = DRIFT_STRICT\<rparr>"

definition demo_ctx :: request_context where
  "demo_ctx =
     \<lparr>operation = ''orders:read'', requested = (\<lambda>d. 0)(SPEND_BDT := 1), current_depth = 0,
      request_intent = replicate 64 CHR ''a'', now = seconds 10, tool = Some ''db'',
      args = [(''payment.amount'', VNum 10000)], task_intent_text = None, action_intent_text = None,
      drift_mode_of = DRIFT_STRICT\<rparr>"

lemma demo_spend: "requested_spend demo_extraction = 1"
proof -
  have "adjusted 1 = 0" using adjusted_power[of 0] by simp
  then have "ctx_round 1 = 1" by (simp add: ctx_round_def power10_def round_half_even_def)
  then show ?thesis by (simp add: requested_spend_def demo_extraction_def)
qed

lemma demo_headers:
  "header_map (hr_headers demo_http) = demo_header_map"
  "bearer_token demo_header_map = Some ''token''"
  by code_simp+

lemma demo_extracted:
  "extract_request (pp_sha (demo_pipeline cs)) (pp_loads (demo_pipeline cs)) (pp_unquote (demo_pipeline cs))
     (pp_routes (demo_pipeline cs)) (demo_http\<lparr>hr_headers := hs\<rparr>) = Inr demo_extraction"
proof -
  have "scale_dec (Fin 1) = Inr 10000"
  proof -
    have a: "adjusted 10000 = 4" using adjusted_power[of 4] by simp
    have "ctx_round 10000 = 10000" by (simp add: ctx_round_def a power10_def round_half_even_def)
    then show ?thesis using a whole_of_int[of 10000] by simp
  qed
  moreover have "hash_args demo_hasher [(''payment.amount'', VNum 10000)] = Inr (replicate 64 CHR ''b'')"
    using small_int[of 10000] canonical_json_ok[of latin_nfc "PyMap [(''payment.amount'', PyInt 10000)]"]
    by (auto simp: hash_args_def hash_object_def demo_hasher_def)
  ultimately show ?thesis
    by (simp add: extract_request_def demo_pipeline_def read_rule_def demo_http_def rule_matches_def upper_case_def
        less_eq_char_def needs_body_def body_too_large_def parse_body_def raw_value_def object_pairs_hook_def
        convert_arg_def jnum_value_def power10_def demo_extraction_def)
qed

lemma demo_context_built:
  "context_for (demo_pipeline cs) demo_env demo_extraction demo_token demo_header_map = Inr demo_ctx"
proof -
  have "request_context_wf demo_ctx" by code_simp
  moreover have "header_text demo_header_map ''agentiam-task-intent'' = None"
    "header_text demo_header_map ''agentiam-action-intent'' = None" "map_of demo_header_map ''x-agentiam-intent'' = None"
    by (simp_all add: header_text_def demo_header_map_def)
  ultimately show ?thesis
    using demo_spend by (simp add: context_for_def demo_ctx_def demo_env_def demo_extraction_def demo_token_fields)
qed

definition demo_ctx_facts :: "dl_stmt list" where
  "demo_ctx_facts = (case request_context_datalog demo_ctx of Inr F \<Rightarrow> F | Inl _ \<Rightarrow> [])"

lemma demo_request_authorized: "authorize_request demo_lib demo_token demo_ctx = Inr None"
proof -
  have "request_context_datalog demo_ctx = Inr demo_ctx_facts"
    "list_all (clause_holds (demo_facts_block @ demo_checks_block @ demo_ctx_facts)) (demo_facts_block @ demo_checks_block)"
    by code_simp+
  then show ?thesis
    by (simp add: authorize_request_def demo_lib_def demo_token_def minted_token_def)
qed

definition demo_allowed :: decision where
  "demo_allowed = \<lparr>de_outcome = ALLOW, de_reason_code = OK, de_failing_caveat = None, de_drift_score = None\<rparr>"

lemma demo_pool_checked:
  "pool_check True (cv_t_check demo_env) (requested demo_ctx) primed_pool
     = (primed_pool, \<lparr>bv_ok = True, bv_exhausted_dimension = None, bv_mandate_exhausted = False\<rparr>)"
  by (simp add: pool_check_def all_dimensions_def demo_ctx_def demo_env_def primed_pool_held new_lease_def)

lemma demo_decided:
  "run_decide (demo_pipeline []) demo_token demo_principal [] demo_ctx (pool_oracle demo_env primed_pool) = Inr demo_allowed"
  "pool_after_decide (demo_pipeline []) demo_env demo_token demo_principal [] demo_ctx primed_pool = primed_pool"
proof -
  have "vt_revocation_ids demo_token = [''rid'']" "operation demo_ctx \<in> vt_scopes demo_token"
    "request_intent demo_ctx = vt_intent_hash demo_token" "\<not> vt_max_depth demo_token < current_depth demo_ctx"
    "drift_mode_of demo_ctx = DRIFT_STRICT"
    using granted_fields(1) by (simp_all add: demo_token_fields demo_ctx_def)
  then show "run_decide (demo_pipeline []) demo_token demo_principal [] demo_ctx (pool_oracle demo_env primed_pool) = Inr demo_allowed"
    by (simp add: run_decide_def demo_pipeline_def pool_oracle_def demo_pool_checked demo_request_authorized
        demo_decide_simps demo_allowed_def)
  show "pool_after_decide (demo_pipeline []) demo_env demo_token demo_principal [] demo_ctx primed_pool = primed_pool"
    by (simp add: pool_after_decide_def demo_pool_checked)
qed

lemma demo_recorded:
  assumes "remaining SPEND_BDT p = 99" "rz_amount r = 1"
  shows "\<exists>rec. build_record (demo_pipeline []) demo_env demo_extraction demo_token demo_principal OK ALLOW [] (Some r) None None
       (Some demo_ctx) (Some []) p = Inr rec"
proof -
  have "mk_budget (spend_budget 100) = Inr (spend_budget 100)" "mk_budget (spend_budget 99) = Inr (spend_budget 99)"
    "budget_wf (spend_budget 100)" "budget_wf (spend_budget 99)" by code_simp+
  moreover have "hex64_re (replicate 64 CHR ''b'')"
    by (simp add: hex64_re_def dollar_def newline_def hex_char_def list_all_iff)
  ultimately show ?thesis
    using assms by (simp add: build_record_def recorded_authority_of_def demo_grant_ok mk_decision_record_def
        decision_record_wf_def demo_pipeline_def demo_env_def trace_of_def demo_token_fields demo_extraction_def
        outcome_matches_reason_def demo_principal_def Let_def)
qed

lemma demo_finish:
  "de_reason_code demo_allowed = OK" "de_outcome demo_allowed = ALLOW" "de_drift_score demo_allowed = None"
  "de_failing_caveat demo_allowed = None" "pp_detail (demo_pipeline cs) d = []" "pp_caveats_for (demo_pipeline cs) tok = Inr cs"
  "pp_principal_for (demo_pipeline cs) tok = Inr demo_principal"
  "pp_escalation_sink (demo_pipeline cs) = None"
  by (simp_all add: demo_allowed_def demo_pipeline_def)

lemma demo_reaches_record:
  obtains p z rec where "rz_amount z = 1" "\<exists>h. pl_held p SPEND_BDT = Some h"
    "build_record (demo_pipeline []) demo_env demo_extraction demo_token demo_principal OK ALLOW [] (Some z) None None
       (Some demo_ctx) (Some []) p = Inr rec"
    "\<And>em sq. authorize (demo_pipeline []) demo_env demo_http \<lparr>px_pool = primed_pool, px_emitter = em, px_settlement = sq\<rparr>
      = finish_authorize (demo_pipeline []) demo_env demo_extraction demo_token demo_principal [] demo_ctx demo_allowed None (Some z)
          \<lparr>px_pool = p, px_emitter = em, px_settlement = sq\<rparr>"
proof -
  obtain p y where res: "pool_reserve 32 True (seconds 10) SPEND_BDT 1 primed_pool = (p, y)" by fastforce
  moreover obtain l z where "reserve_local 32 (new_lease (demo_lease_grant 21)) 1 (seconds 10) (seconds 5) = (l, Inr z)"
    by (simp add: reserve_local_def new_lease_def)
  ultimately have y: "y = Inr z" by (simp add: pool_reserve_def primed_pool_held Let_def)
  have p: "remaining SPEND_BDT p = 99" "rz_amount z = 1" "\<exists>h. pl_held p SPEND_BDT = Some h"
    using reserve_result[OF res] y primed_pool_held(1) by (auto simp: remaining_def new_lease_def)
  obtain rec where rec: "build_record (demo_pipeline []) demo_env demo_extraction demo_token demo_principal OK ALLOW [] (Some z) None None
       (Some demo_ctx) (Some []) p = Inr rec" using demo_recorded[OF p(1,2)] by blast
  have v: "verify (pp_lib (demo_pipeline [])) ''token'' (pp_key_set (demo_pipeline [])) (Aware (cv_t_verify demo_env)) = Inr demo_token"
    using demo_verifies by (simp add: demo_pipeline_def demo_env_def)
  have "after_decision (demo_pipeline []) demo_env demo_extraction demo_token demo_principal [] demo_ctx demo_allowed
        \<lparr>px_pool = primed_pool, px_emitter = em, px_settlement = sq\<rparr>
      = finish_authorize (demo_pipeline []) demo_env demo_extraction demo_token demo_principal [] demo_ctx demo_allowed None (Some z)
          \<lparr>px_pool = p, px_emitter = em, px_settlement = sq\<rparr>" for em sq
    using res y by (simp add: after_decision_def demo_allowed_def demo_ctx_def demo_env_def)
  then have "authorize (demo_pipeline []) demo_env demo_http \<lparr>px_pool = primed_pool, px_emitter = em, px_settlement = sq\<rparr>
      = finish_authorize (demo_pipeline []) demo_env demo_extraction demo_token demo_principal [] demo_ctx demo_allowed None (Some z)
          \<lparr>px_pool = p, px_emitter = em, px_settlement = sq\<rparr>" for em sq
    by (simp add: authorize_def demo_headers demo_extracted v demo_context_built demo_decided demo_finish)
  then show ?thesis using that p(2,3) rec by blast
qed

lemma demo_run_authorized:
  obtains st' a z where "authorize (demo_pipeline []) demo_env demo_http
       \<lparr>px_pool = primed_pool, px_emitter = new_emitter demo_emitter_settings, px_settlement = sq\<rparr> = (st', Inr (Authorized a))"
    "au_extraction a = demo_extraction" "au_reservation a = Some z" "rz_amount z = 1" "px_settlement st' = sq"
proof -
  obtain p z rec where z: "rz_amount z = 1"
    and rec: "build_record (demo_pipeline []) demo_env demo_extraction demo_token demo_principal OK ALLOW [] (Some z) None None
       (Some demo_ctx) (Some []) p = Inr rec"
    and run: "\<And>em sq. authorize (demo_pipeline []) demo_env demo_http \<lparr>px_pool = primed_pool, px_emitter = em, px_settlement = sq\<rparr>
      = finish_authorize (demo_pipeline []) demo_env demo_extraction demo_token demo_principal [] demo_ctx demo_allowed None (Some z)
          \<lparr>px_pool = p, px_emitter = em, px_settlement = sq\<rparr>"
    by (rule demo_reaches_record) blast
  have "emit rec (new_emitter demo_emitter_settings) = Inr ((new_emitter demo_emitter_settings)\<lparr>em_queue := [rec]\<rparr>)"
    by (simp add: emit_def queue_full_def new_emitter_def demo_emitter_settings_def)
  then show ?thesis using that rec z by (simp add: run finish_authorize_def demo_finish)
qed

theorem authorized_is_allowed_reserved_recorded_witness:
  "\<exists>st' a rec. authorize (demo_pipeline []) demo_env demo_http demo_state = (st', Inr (Authorized a))
     \<and> ''orders:read'' \<in> vt_scopes (au_token a)
     \<and> emit rec (px_emitter demo_state) = Inr (px_emitter st') \<and> decision_id rec = au_decision_id a"
proof -
  obtain st' a where a: "authorize (demo_pipeline []) demo_env demo_http demo_state = (st', Inr (Authorized a))"
    "au_extraction a = demo_extraction"
    by (rule demo_run_authorized[of None]) (simp add: demo_state_def)
  from authorized_is_allowed_reserved_recorded[OF a(1)] show ?thesis
    using a by (auto simp: demo_extraction_def)
qed

theorem settle_after_authorize_witness:
  "\<exists>st' a st2. authorize (demo_pipeline []) demo_env demo_http
       \<lparr>px_pool = primed_pool, px_emitter = new_emitter demo_emitter_settings,
        px_settlement = Some (new_queue \<lparr>st_capacity = 10, st_flush_interval = 1, st_batch_max = 5, st_retry_pause = 1\<rparr>)\<rparr> = (st', Inr (Authorized a))
     \<and> settle (seconds 11) (seconds 11) a (Some (1 / 2)) st' = (st2, None) \<and> remaining SPEND_BDT (px_pool st2) = 199 / 2"
proof -
  let ?q = "new_queue \<lparr>st_capacity = 10, st_flush_interval = 1, st_batch_max = 5, st_retry_pause = 1\<rparr>"
  obtain st' a z where a: "authorize (demo_pipeline []) demo_env demo_http
       \<lparr>px_pool = primed_pool, px_emitter = new_emitter demo_emitter_settings, px_settlement = Some ?q\<rparr> = (st', Inr (Authorized a))"
    and z: "au_reservation a = Some z" "rz_amount z = 1" and q: "px_settlement st' = Some ?q"
    by (rule demo_run_authorized)
  have "remaining SPEND_BDT primed_pool = 100" using primed_pool_held(1) by (simp add: remaining_def new_lease_def)
  then show ?thesis
    using settle_after_authorize[OF a z(1) _ _ q, of "1 / 2" "seconds 11" "seconds 11"] a z(2) by (auto simp: new_queue_def)
qed

text \<open>The emitter is closed: the reservation made for the request is given back.\<close>

theorem refusal_spends_nothing_witness:
  "\<exists>st' f. authorize (demo_pipeline []) demo_env demo_http
       \<lparr>px_pool = primed_pool, px_emitter = (new_emitter demo_emitter_settings)\<lparr>em_closed := True\<rparr>, px_settlement = None\<rparr>
         = (st', Inr (Refused f))
     \<and> remaining SPEND_BDT (px_pool st') = 100"
proof -
  let ?em = "(new_emitter demo_emitter_settings)\<lparr>em_closed := True\<rparr>"
  obtain p z rec h where rec: "build_record (demo_pipeline []) demo_env demo_extraction demo_token demo_principal OK ALLOW [] (Some z) None None
       (Some demo_ctx) (Some []) p = Inr rec" and h: "pl_held p SPEND_BDT = Some h"
    and run: "\<And>em sq. authorize (demo_pipeline []) demo_env demo_http \<lparr>px_pool = primed_pool, px_emitter = em, px_settlement = sq\<rparr>
      = finish_authorize (demo_pipeline []) demo_env demo_extraction demo_token demo_principal [] demo_ctx demo_allowed None (Some z)
          \<lparr>px_pool = p, px_emitter = em, px_settlement = sq\<rparr>"
    by (rule demo_reaches_record) blast
  obtain p' out where "pool_commit (cv_t_commit demo_env) SPEND_BDT z 0 p = (p', Inr out)"
    using h by (cases "commit_local (hd_lease h) z 0 (cv_t_commit demo_env) (ps_skew (pl_settings p))") (simp add: pool_commit_def)
  moreover have "emit rec ?em = Inl AuditBufferFullError" by (simp add: emit_def)
  ultimately obtain st' f where r: "authorize (demo_pipeline []) demo_env demo_http
       \<lparr>px_pool = primed_pool, px_emitter = ?em, px_settlement = None\<rparr> = (st', Inr (Refused f))"
    using rec by (simp add: run finish_authorize_def demo_finish refuse_def)
  have "remaining SPEND_BDT primed_pool = 100" using primed_pool_held(1) by (simp add: remaining_def new_lease_def)
  then show ?thesis using refusal_spends_nothing[OF r] r by (auto simp: demo_finish)
qed

theorem duplicate_headers_hidden_witness:
  "authorize (demo_pipeline []) demo_env
     (demo_http\<lparr>hr_headers := [] @ (''X-Order'', ''1'') # (''x-order'', ''2'') # [(''Authorization'', ''Bearer token'')]\<rparr>) demo_state
   = authorize (demo_pipeline []) demo_env
     (demo_http\<lparr>hr_headers := [] @ (''x-order'', ''2'') # [(''Authorization'', ''Bearer token'')]\<rparr>) demo_state"
proof -
  have "lower_case ''X-Order'' = lower_case ''x-order''" by code_simp
  from duplicate_headers_hidden[OF this] show ?thesis by blast
qed

theorem numeric_argument_scaled_twice_witness:
  "requested demo_ctx SPEND_BDT = 1
   \<and> evaluate (ArgPredicate ''payment.amount'' LE (PScalar (VNum 5000))) demo_ctx = Inr (deny_result ARG_PREDICATE_FAILED)"
  using numeric_argument_scaled_twice[OF demo_context_built[of "[]"], of 10000 5000]
  by (simp add: demo_extraction_def) (simp add: demo_ctx_def)

end
