(* ===== verification/Gateway.thy ===== *)
theory Gateway
  imports Pipeline
begin

text \<open>
  \<open>agentiam_pep/app.py\<close>: the proxy route, which authorizes a request, forwards it upstream, streams
  the answer back and settles the reservation.

  The handler awaits the upstream, and other requests run meanwhile, so it is split there:
  \<open>proxy_begin\<close> is everything up to the send, \<open>proxy_answer\<close> everything from its outcome on, and
  the steps of several requests interleave.  What the upstream has been sent is kept in a log, with
  the authorization behind it.  The answer of the upstream is an argument; connection handling,
  spans and the latency histogram are the library's.  A route built without a pipeline forwards
  everything.
\<close>

section \<open>Requests, answers and state\<close>

record client_request =
  cl_method :: string
  cl_upstream_path :: string
  cl_query :: string
  cl_headers :: "string strmap"
  cl_body :: string

record 'b forwarded =
  fw_method :: string
  fw_path :: string
  fw_query :: string
  fw_headers :: "string strmap"
  fw_body :: string
  fw_authorized :: "'b authorized option"

datatype upstream_answer =
    UpstreamTimeout
  | UpstreamUnreachable
  | UpstreamAnswered int "string strmap" "string list"

record refusal_body =
  rb_reason_code :: reason_code
  rb_detail :: string
  rb_trace_id :: string
  rb_decision_id :: "string option"
  rb_escalation_id :: "string option"

datatype response =
    RefusalResponse int refusal_body
  | GatewayError int reason_code string
  | StreamingResponse int "string strmap" "string list"

record 'b gateway =
  gw_pep :: pep_state
  gw_inflight :: "'b forwarded list"
  gw_sent :: "'b forwarded list"
  gw_counts :: "(string \<times> int) list"

fun response_status :: "response \<Rightarrow> int" where
  "response_status (RefusalResponse s _) = s"
| "response_status (GatewayError s _ _) = s"
| "response_status (StreamingResponse s _ _) = s"

section \<open>The handler\<close>

definition content_type :: "string strmap \<Rightarrow> string" where
  "content_type headers =
     (case filter (\<lambda>(n, _). lower_case n = ''content-type'') headers of [] \<Rightarrow> [] | (_, v) # _ \<Rightarrow> v)"

definition reads_body :: "client_request \<Rightarrow> bool" where
  "reads_body cl =
     (if cl_method cl \<in> {''GET'', ''HEAD'', ''DELETE'', ''OPTIONS''} then False
      else contains_sub ''json'' (lower_case (content_type (cl_headers cl))))"

text \<open>What \<open>pipeline.authorize\<close> is called with.\<close>

definition pipeline_request :: "client_request \<Rightarrow> http_request" where
  "pipeline_request cl =
     \<lparr>hr_method = cl_method cl, hr_path = ''/'' @ cl_upstream_path cl, hr_query = cl_query cl,
      hr_headers = cl_headers cl, hr_body = (if reads_body cl then Some (cl_body cl) else None)\<rparr>"

text \<open>\<open>Refused.body()\<close>; the detail is a text the pipeline model leaves out.\<close>

definition refused_body :: "(refused \<Rightarrow> string) \<Rightarrow> refused \<Rightarrow> refusal_body" where
  "refused_body detail f =
     \<lparr>rb_reason_code = rf_reason_code f, rb_detail = detail f, rb_trace_id = rf_trace_id f,
      rb_decision_id = map_option uuid_str (rf_decision_id f),
      rb_escalation_id = map_option uuid_str (rf_escalation_id f)\<rparr>"

definition count_response :: "string \<Rightarrow> int \<Rightarrow> 'b gateway \<Rightarrow> 'b gateway" where
  "count_response m s g = g\<lparr>gw_counts := gw_counts g @ [(m, s)]\<rparr>"

definition upstream_request :: "client_request \<Rightarrow> 'b authorized option \<Rightarrow> 'b forwarded" where
  "upstream_request cl a =
     \<lparr>fw_method = cl_method cl, fw_path = ''/'' @ cl_upstream_path cl, fw_query = cl_query cl,
      fw_headers = filter_request_headers (cl_headers cl), fw_body = cl_body cl, fw_authorized = a\<rparr>"

definition forward :: "client_request \<Rightarrow> 'b authorized option \<Rightarrow> 'b gateway \<Rightarrow> 'b gateway" where
  "forward cl a g =
     g\<lparr>gw_inflight := gw_inflight g @ [upstream_request cl a], gw_sent := gw_sent g @ [upstream_request cl a]\<rparr>"

text \<open>\<open>None\<close>: the request has been sent and the handler waits for the upstream.\<close>

definition proxy_begin ::
  "('b, 'k) pipeline option \<Rightarrow> (refused \<Rightarrow> string) \<Rightarrow> call_env \<Rightarrow> client_request \<Rightarrow> 'b gateway
    \<Rightarrow> 'b gateway \<times> (pep_raise + response) option" where
  "proxy_begin pl detail ce cl g =
     (case pl of
        None \<Rightarrow> (forward cl None g, None)
      | Some cfg \<Rightarrow>
          (case authorize cfg ce (pipeline_request cl) (gw_pep g) of
             (st, Inl e) \<Rightarrow> (g\<lparr>gw_pep := st\<rparr>, Some (Inl e))
           | (st, Inr (Refused f)) \<Rightarrow>
               (count_response (cl_method cl) (rf_status f) (g\<lparr>gw_pep := st\<rparr>),
                Some (Inr (RefusalResponse (rf_status f) (refused_body detail f))))
           | (st, Inr (Authorized a)) \<Rightarrow> (forward cl (Some a) (g\<lparr>gw_pep := st\<rparr>), None)))"

definition gateway_error :: "int \<Rightarrow> string \<Rightarrow> response" where
  "gateway_error s detail = GatewayError s UPSTREAM_ERROR detail"

definition remove_nth :: "nat \<Rightarrow> 'a list \<Rightarrow> 'a list" where
  "remove_nth i xs = take i xs @ drop (Suc i) xs"

definition proxy_answer ::
  "instant \<Rightarrow> instant \<Rightarrow> nat \<Rightarrow> upstream_answer \<Rightarrow> 'b gateway \<Rightarrow> 'b gateway \<times> (pep_raise + response)" where
  "proxy_answer t_commit t_enqueue i answer g =
     (let call = gw_inflight g ! i;
          g' = g\<lparr>gw_inflight := remove_nth i (gw_inflight g)\<rparr> in
      case answer of
        UpstreamTimeout \<Rightarrow>
          (count_response (fw_method call) 504 g', Inr (gateway_error 504 ''the upstream did not respond in time''))
      | UpstreamUnreachable \<Rightarrow>
          (count_response (fw_method call) 502 g', Inr (gateway_error 502 ''the upstream could not be reached''))
      | UpstreamAnswered status headers chunks \<Rightarrow>
          let g'' = count_response (fw_method call) status g';
              answered = Inr (StreamingResponse status (filter_response_headers headers) chunks) in
          (case fw_authorized call of
             None \<Rightarrow> (g'', answered)
           | Some a \<Rightarrow>
               (case settle t_commit t_enqueue a None (gw_pep g'') of
                  (st, Some e) \<Rightarrow> (g''\<lparr>gw_pep := st\<rparr>, Inl (PoolRaised e))
                | (st, None) \<Rightarrow> (g''\<lparr>gw_pep := st\<rparr>, answered))))"

text \<open>\<open>/readyz\<close>.\<close>

definition enforcing :: "('b, 'k) pipeline option \<Rightarrow> bool" where
  "enforcing pl = (pl \<noteq> None)"

text \<open>Requests begin and are answered in any order.\<close>

inductive gateway_step :: "('b, 'k) pipeline option \<Rightarrow> (refused \<Rightarrow> string) \<Rightarrow> 'b gateway \<Rightarrow> 'b gateway \<Rightarrow> bool"
  for pl detail where
  begins: "proxy_begin pl detail ce cl g = (g', r) \<Longrightarrow> gateway_step pl detail g g'"
| answered: "i < length (gw_inflight g) \<Longrightarrow> proxy_answer t t' i answer g = (g', r) \<Longrightarrow> gateway_step pl detail g g'"

abbreviation gateway_run :: "('b, 'k) pipeline option \<Rightarrow> (refused \<Rightarrow> string) \<Rightarrow> 'b gateway \<Rightarrow> 'b gateway \<Rightarrow> bool" where
  "gateway_run pl detail \<equiv> (gateway_step pl detail)\<^sup>*\<^sup>*"

inductive_cases gateway_stepE: "gateway_step pl detail g g'"

section \<open>What authorize does to the state\<close>

text \<open>A sink that leaves the collaborators of the pipeline alone.\<close>

definition quiet_sink :: "('b, 'k) pipeline \<Rightarrow> bool" where
  "quiet_sink cfg = (\<forall>sink c s. pp_escalation_sink cfg = Some sink \<longrightarrow> fst (sink c s) = s)"

text \<open>Nothing but well-formed records is added to the emitter and the settlement queue is not touched.\<close>

definition only_records :: "pep_state \<Rightarrow> pep_state \<Rightarrow> bool" where
  "only_records st st' =
     (px_settlement st' = px_settlement st
      \<and> (\<forall>r \<in> set (em_queue (px_emitter st')). r \<in> set (em_queue (px_emitter st)) \<or> decision_record_wf r))"

lemma only_records_refl [simp]: "only_records st st" "only_records (st\<lparr>px_pool := p\<rparr>) st' = only_records st st'"
  "only_records st (st'\<lparr>px_pool := p\<rparr>) = only_records st st'"
  by (auto simp: only_records_def)

lemma emit_only: "emit r em = Inr em' \<Longrightarrow> x \<in> set (em_queue em') \<Longrightarrow> x \<in> set (em_queue em) \<or> x = r"
  by (auto simp: emit_def split: if_splits)

lemma build_record_wf: "build_record cfg ce x tok pr reason oc detail rv score failing fctx cs p = Inr rec \<Longrightarrow> decision_record_wf rec"
  by (auto simp: build_record_def Let_def mk_decision_record_def split: sum.splits if_splits)

lemma emit_records:
  assumes "build_record cfg ce x tok pr reason oc detail rv score failing fctx cs p = Inr rec" "emit rec (px_emitter st) = Inr em"
  shows "only_records st (st\<lparr>px_emitter := em\<rparr>)"
  using assms by (auto simp: only_records_def dest: build_record_wf emit_only)

lemma record_and_refuse_effect:
  "record_and_refuse cfg ce reason x tok pr st = (st', r) \<Longrightarrow> only_records st st' \<and> px_pool st' = px_pool st"
  by (auto simp: record_and_refuse_def emit_records split: sum.splits)

lemma finish_effect:
  assumes "finish_authorize cfg ce x tok pr cs ctx d i rv st = (st', r)"
  shows "only_records st st'"
  using assms by (auto simp: finish_authorize_def emit_records split: sum.splits option.splits prod.splits if_splits)

lemma finish_raised:
  assumes "finish_authorize cfg ce x tok pr cs ctx d i rv st = (st', Inl e)"
  shows "px_pool st' = px_pool st"
  using assms
  by (auto simp: finish_authorize_def refuse_def pool_commit_def split: sum.splits option.splits prod.splits if_splits)

lemma after_decision_effect:
  assumes run: "after_decision cfg ce x tok pr cs ctx d st = (st', r)" and quiet: "quiet_sink cfg"
  shows "only_records st st'"
proof -
  have rr: "only_records st st'" if "record_and_refuse cfg ce reason x tok pr (st\<lparr>px_pool := p\<rparr>) = (st', r)" for reason p
    using record_and_refuse_effect[OF that] by simp
  have fin: "only_records st st'" if "finish_authorize cfg ce x tok pr cs ctx d i rv (st\<lparr>px_pool := p\<rparr>) = (st', r)" for i rv p
    using finish_effect[OF that] by simp
  consider (esc) sink where "de_outcome d = ESCALATE" "pp_escalation_sink cfg = Some sink"
    | (spend) "de_outcome d = ALLOW" "0 < requested ctx SPEND_BDT"
    | (free) "finish_authorize cfg ce x tok pr cs ctx d None None st = (st', r)"
    using run by (auto simp: after_decision_def split: if_splits option.splits)
  then show ?thesis
  proof cases
    case esc
    then obtain i where "sink (escalation_call_for cfg ce tok pr ctx d) st = (st, i)"
      using quiet by (metis quiet_sink_def prod.collapse)
    then show ?thesis using run esc rr[of _ "px_pool st"] fin[of _ _ "px_pool st"] by (cases i) (auto simp: after_decision_def)
  next
    case spend
    obtain p y where "pool_reserve (cv_reservation_id ce) True (cv_t_reserve ce) SPEND_BDT (requested ctx SPEND_BDT) (px_pool st) = (p, y)"
      by fastforce
    then show ?thesis using run spend rr fin
      by (auto simp: after_decision_def split: sum.splits pool_error.splits)
  qed (rule finish_effect)
qed

lemma after_decision_raised:
  assumes run: "after_decision cfg ce x tok pr cs ctx d st = (st', Inl e)" and quiet: "quiet_sink cfg"
  shows "remaining k (px_pool st') \<le> remaining k (px_pool st) \<and> (0 \<le> remaining k (px_pool st) \<longrightarrow> 0 \<le> remaining k (px_pool st'))"
proof -
  have rr: "px_pool st' = px_pool s" if "record_and_refuse cfg ce reason x tok pr s = (st', Inl e)" for reason s
    using record_and_refuse_effect[OF that] by simp
  have fin: "px_pool st' = px_pool s" if "finish_authorize cfg ce x tok pr cs ctx d i rv s = (st', Inl e)" for i rv s
    by (rule finish_raised[OF that])
  consider (esc) sink where "de_outcome d = ESCALATE" "pp_escalation_sink cfg = Some sink"
    | (spend) "de_outcome d = ALLOW" "0 < requested ctx SPEND_BDT"
    | (free) "finish_authorize cfg ce x tok pr cs ctx d None None st = (st', Inl e)"
    using run by (auto simp: after_decision_def split: if_splits option.splits)
  then show ?thesis
  proof cases
    case esc
    then obtain i where "sink (escalation_call_for cfg ce tok pr ctx d) st = (st, i)"
      using quiet by (metis quiet_sink_def prod.collapse)
    then show ?thesis using run esc rr fin by (cases i) (auto simp: after_decision_def)
  next
    case spend
    obtain p y where r: "pool_reserve (cv_reservation_id ce) True (cv_t_reserve ce) SPEND_BDT (requested ctx SPEND_BDT) (px_pool st) = (p, y)"
      by fastforce
    then have "px_pool st' = p" using run spend rr fin
      by (auto simp: after_decision_def split: sum.splits pool_error.splits)
    then show ?thesis using reserve_result[OF r] reserve_covered[OF r, of k] spend by (auto split: sum.splits)
  qed (simp add: fin)
qed

lemma authorize_effect:
  assumes "authorize cfg ce req st = (st', r)" "quiet_sink cfg"
  shows "only_records st st'"
  using assms(1)
proof (cases rule: authorize_stages)
  case (decided x bt tok ctx d pr cs)
  then show ?thesis using after_decision_effect[OF decided(8) assms(2)] by simp
qed simp

text \<open>What a request holds once it is authorized.\<close>

definition held_spend :: "'b authorized option \<Rightarrow> decimal" where
  "held_spend a = (case a of None \<Rightarrow> 0 | Some a' \<Rightarrow> (case au_reservation a' of None \<Rightarrow> 0 | Some r \<Rightarrow> rz_amount r))"

lemma authorized_holds:
  assumes run: "authorize cfg ce req st = (st', Inr (Authorized a))"
  shows "remaining SPEND_BDT (px_pool st') + held_spend (Some a) = remaining SPEND_BDT (px_pool st) \<and> 0 \<le> held_spend (Some a)"
proof -
  obtain x tok ctx pr cs rv where rv: "case rv of
       None \<Rightarrow> requested_spend x \<le> 0 \<and> px_pool st' = pool_after_decide cfg ce tok pr cs ctx (px_pool st)
     | Some r \<Rightarrow> 0 < requested_spend x
         \<and> pool_reserve (cv_reservation_id ce) True (cv_t_reserve ce) SPEND_BDT (requested_spend x)
              (pool_after_decide cfg ce tok pr cs ctx (px_pool st)) = (px_pool st', Inr r)" "au_reservation a = rv"
    by (rule authorized_run[OF run]) auto
  show ?thesis using authorized_pool(1,2)[OF rv(1)] rv(2) by (auto simp: held_spend_def split: option.splits)
qed

lemma authorize_outlay:
  assumes run: "authorize cfg ce req st = (st', r)" and quiet: "quiet_sink cfg"
  shows "remaining SPEND_BDT (px_pool st') + (case r of Inr (Authorized a) \<Rightarrow> held_spend (Some a) | _ \<Rightarrow> 0)
           \<le> remaining SPEND_BDT (px_pool st)"
    "r = Inr (Authorized a) \<Longrightarrow> 0 \<le> held_spend (Some a)"
proof -
  have A: "remaining SPEND_BDT (px_pool st') + held_spend (Some a) = remaining SPEND_BDT (px_pool st) \<and> 0 \<le> held_spend (Some a)"
    if "r = Inr (Authorized a)" for a
    using authorized_holds run that by blast
  have B: "remaining SPEND_BDT (px_pool st') \<le> remaining SPEND_BDT (px_pool st)" if not: "\<And>a. r \<noteq> Inr (Authorized a)"
    using run
  proof (cases rule: authorize_stages)
    case (decided x bt tok ctx d pr cs)
    have sink: "\<forall>sink c s. pp_escalation_sink cfg = Some sink \<longrightarrow> px_pool (fst (sink c s)) = px_pool s"
      using quiet by (simp add: quiet_sink_def)
    show ?thesis
    proof (cases r)
      case (Inl e)
      then show ?thesis using after_decision_raised[OF _ quiet] decided(8) by (fastforce simp: remaining_after_decide)
    next
      case (Inr y)
      then obtain f where "r = Inr (Refused f)" using not by (cases y) auto
      then show ?thesis using after_decision_Refused[OF _ sink] decided(8) by (fastforce simp: remaining_after_decide)
    qed
  qed simp
  show "remaining SPEND_BDT (px_pool st') + (case r of Inr (Authorized a) \<Rightarrow> held_spend (Some a) | _ \<Rightarrow> 0)
           \<le> remaining SPEND_BDT (px_pool st)"
    using A B by (cases r) (auto split: auth_result.splits)
  show "r = Inr (Authorized a) \<Longrightarrow> 0 \<le> held_spend (Some a)" using A by blast
qed

lemma authorize_covered:
  assumes run: "authorize cfg ce req st = (st', r)" and quiet: "quiet_sink cfg" and pos: "0 \<le> remaining SPEND_BDT (px_pool st)"
  shows "0 \<le> remaining SPEND_BDT (px_pool st')"
proof (cases "\<exists>a. r = Inr (Authorized a)")
  case True
  then obtain a where a: "authorize cfg ce req st = (st', Inr (Authorized a))" using run by blast
  obtain x tok ctx pr cs rv where rv: "case rv of
       None \<Rightarrow> requested_spend x \<le> 0 \<and> px_pool st' = pool_after_decide cfg ce tok pr cs ctx (px_pool st)
     | Some r \<Rightarrow> 0 < requested_spend x
         \<and> pool_reserve (cv_reservation_id ce) True (cv_t_reserve ce) SPEND_BDT (requested_spend x)
              (pool_after_decide cfg ce tok pr cs ctx (px_pool st)) = (px_pool st', Inr r)"
    by (rule authorized_run[OF a]) auto
  then show ?thesis using pos reserve_covered[of _ _ _ _ _ "pool_after_decide cfg ce tok pr cs ctx (px_pool st)" "px_pool st'" _ SPEND_BDT]
    by (auto simp: remaining_after_decide split: option.splits)
next
  case False
  show ?thesis using run
  proof (cases rule: authorize_stages)
    case (decided x bt tok ctx d pr cs)
    have sink: "\<forall>sink c s. pp_escalation_sink cfg = Some sink \<longrightarrow> px_pool (fst (sink c s)) = px_pool s"
      using quiet by (simp add: quiet_sink_def)
    show ?thesis
    proof (cases r)
      case (Inl e)
      then show ?thesis using after_decision_raised[OF _ quiet] decided(8) pos by (fastforce simp: remaining_after_decide)
    next
      case (Inr y)
      then obtain f where "r = Inr (Refused f)" using False by (cases y) auto
      then show ?thesis using after_decision_Refused[OF _ sink] decided(8) pos by (fastforce simp: remaining_after_decide)
    qed
  qed (simp add: pos)
qed

lemma authorized_amount:
  assumes run: "authorize cfg ce req st = (st', Inr (Authorized a))"
    and x: "extract_request (pp_sha cfg) (pp_loads cfg) (pp_unquote cfg) (pp_routes cfg)
       (req\<lparr>hr_headers := header_map (hr_headers req)\<rparr>) = Inr x"
  shows "case au_reservation a of None \<Rightarrow> requested_spend x \<le> 0 | Some r \<Rightarrow> 0 < requested_spend x"
  by (rule authorized_run[OF run]) (use x in \<open>auto split: option.splits\<close>)

section \<open>Steps\<close>

lemma begin_cases:
  assumes "proxy_begin (Some cfg) detail ce cl g = (g', r)"
  obtains (raised) st e where "authorize cfg ce (pipeline_request cl) (gw_pep g) = (st, Inl e)" "g' = g\<lparr>gw_pep := st\<rparr>" "r = Some (Inl e)"
  | (refused) st f where "authorize cfg ce (pipeline_request cl) (gw_pep g) = (st, Inr (Refused f))"
      "g' = count_response (cl_method cl) (rf_status f) (g\<lparr>gw_pep := st\<rparr>)"
      "r = Some (Inr (RefusalResponse (rf_status f) (refused_body detail f)))"
  | (sent) st a where "authorize cfg ce (pipeline_request cl) (gw_pep g) = (st, Inr (Authorized a))"
      "g' = forward cl (Some a) (g\<lparr>gw_pep := st\<rparr>)" "r = None"
proof -
  obtain st y where run: "authorize cfg ce (pipeline_request cl) (gw_pep g) = (st, y)" by fastforce
  show thesis
  proof (cases y)
    case (Inl e)
    then show ?thesis using raised[of st e] run assms by (simp add: proxy_begin_def)
  next
    case (Inr out)
    then show ?thesis using refused[of st] sent[of st] run assms by (cases out) (simp_all add: proxy_begin_def)
  qed
qed

definition queued_spend :: "pep_state \<Rightarrow> decimal" where
  "queued_spend st = (case px_settlement st of None \<Rightarrow> 0 | Some q \<Rightarrow> sum_list (map pd_amount (sq_pending q)))"

definition inflight_spend :: "'b forwarded list \<Rightarrow> decimal" where
  "inflight_spend ws = sum_list (map (\<lambda>w. held_spend (fw_authorized w)) ws)"

lemma commit_reserved:
  assumes "pool_commit t d r (rz_amount r) p = (p', y)"
  shows "remaining k p' = remaining k p" "y = Inr out \<Longrightarrow> co_amount out = rz_amount r"
proof -
  have "remaining k p' = remaining k p \<and> (\<forall>out. y = Inr out \<longrightarrow> co_amount out = rz_amount r)"
  proof (cases "pl_held p d")
    case (Some h)
    then have "remaining d p = ll_remaining_local (hd_lease h)" by (simp add: remaining_def)
    then show ?thesis using assms Some by (auto simp: pool_commit_def commit_local_def remaining_set_held)
  qed (use assms in \<open>auto simp: pool_commit_def\<close>)
  then show "remaining k p' = remaining k p" "y = Inr out \<Longrightarrow> co_amount out = rz_amount r" by auto
qed

lemma settle_reserved:
  assumes run: "settle t t' a None st = (st', e)" and pos: "0 \<le> held_spend (Some a)"
  shows "remaining k (px_pool st') = remaining k (px_pool st)" "queued_spend st' \<le> queued_spend st + held_spend (Some a)"
    "px_emitter st' = px_emitter st"
proof -
  have "remaining k (px_pool st') = remaining k (px_pool st) \<and> queued_spend st' \<le> queued_spend st + held_spend (Some a)
    \<and> px_emitter st' = px_emitter st"
  proof (cases "au_reservation a")
    case None
    then show ?thesis using run by (simp add: settle_def held_spend_def)
  next
    case (Some r)
    obtain p y where c: "pool_commit t SPEND_BDT r (rz_amount r) (px_pool st) = (p, y)" by fastforce
    then show ?thesis using run Some pos commit_reserved[OF c]
      by (auto simp: settle_def held_spend_def queued_spend_def enqueue_def split: sum.splits option.splits)
  qed
  then show "remaining k (px_pool st') = remaining k (px_pool st)" "queued_spend st' \<le> queued_spend st + held_spend (Some a)"
    "px_emitter st' = px_emitter st" by blast+
qed

lemma answer_effect:
  assumes "proxy_answer t t' i answer g = (g', r)" "0 \<le> held_spend (fw_authorized (gw_inflight g ! i))"
  shows "gw_sent g' = gw_sent g" "gw_inflight g' = remove_nth i (gw_inflight g)"
    "px_emitter (gw_pep g') = px_emitter (gw_pep g)"
    "remaining k (px_pool (gw_pep g')) = remaining k (px_pool (gw_pep g))"
    "queued_spend (gw_pep g') \<le> queued_spend (gw_pep g) + held_spend (fw_authorized (gw_inflight g ! i))"
proof -
  have "gw_sent g' = gw_sent g \<and> gw_inflight g' = remove_nth i (gw_inflight g) \<and> px_emitter (gw_pep g') = px_emitter (gw_pep g)
    \<and> remaining k (px_pool (gw_pep g')) = remaining k (px_pool (gw_pep g))
    \<and> queued_spend (gw_pep g') \<le> queued_spend (gw_pep g) + held_spend (fw_authorized (gw_inflight g ! i))"
  proof (cases "fw_authorized (gw_inflight g ! i)")
    case None
    then show ?thesis using assms
      by (auto simp: proxy_answer_def count_response_def held_spend_def Let_def split: upstream_answer.splits)
  next
    case (Some a)
    obtain st e where c: "settle t t' a None (gw_pep g) = (st, e)" by fastforce
    have nn: "0 \<le> held_spend (Some a)" using assms(2) Some by simp
    note s = settle_reserved(1)[OF c nn, of k] settle_reserved(2,3)[OF c nn]
    show ?thesis using assms c s Some
      by (auto simp: proxy_answer_def count_response_def Let_def split: upstream_answer.splits option.splits)
  qed
  then show "gw_sent g' = gw_sent g" "gw_inflight g' = remove_nth i (gw_inflight g)"
    "px_emitter (gw_pep g') = px_emitter (gw_pep g)"
    "remaining k (px_pool (gw_pep g')) = remaining k (px_pool (gw_pep g))"
    "queued_spend (gw_pep g') \<le> queued_spend (gw_pep g) + held_spend (fw_authorized (gw_inflight g ! i))"
    by blast+
qed

lemma inflight_remove:
  assumes "i < length ws"
  shows "inflight_spend ws = inflight_spend (remove_nth i ws) + held_spend (fw_authorized (ws ! i))"
    "set (remove_nth i ws) \<subseteq> set ws"
proof -
  have "ws = take i ws @ ws ! i # drop (Suc i) ws" using assms by (simp add: id_take_nth_drop)
  then have "inflight_spend ws = inflight_spend (take i ws @ ws ! i # drop (Suc i) ws)" by simp
  then show "inflight_spend ws = inflight_spend (remove_nth i ws) + held_spend (fw_authorized (ws ! i))"
    by (simp add: inflight_spend_def remove_nth_def)
  show "set (remove_nth i ws) \<subseteq> set ws" by (auto simp: remove_nth_def dest: in_set_takeD in_set_dropD)
qed

definition outlay :: "'b gateway \<Rightarrow> decimal" where
  "outlay g = remaining SPEND_BDT (px_pool (gw_pep g)) + inflight_spend (gw_inflight g) + queued_spend (gw_pep g)"

definition holds_nonneg :: "'b gateway \<Rightarrow> bool" where
  "holds_nonneg g = (\<forall>w \<in> set (gw_inflight g). 0 \<le> held_spend (fw_authorized w))"

lemma step_outlay:
  assumes step: "gateway_step (Some cfg) detail g g'" and quiet: "quiet_sink cfg" and pos: "holds_nonneg g"
  shows "outlay g' \<le> outlay g \<and> holds_nonneg g'"
  using step
proof (cases rule: gateway_step.cases)
  case (begins ce cl r)
  from begins(1) show ?thesis
  proof (cases rule: begin_cases)
    case (raised st e)
    then show ?thesis using authorize_outlay(1)[OF raised(1) quiet] authorize_effect[OF raised(1) quiet] pos
      by (simp add: outlay_def holds_nonneg_def queued_spend_def only_records_def)
  next
    case (refused st f)
    then show ?thesis using authorize_outlay(1)[OF refused(1) quiet] authorize_effect[OF refused(1) quiet] pos
      by (simp add: outlay_def holds_nonneg_def queued_spend_def only_records_def count_response_def)
  next
    case (sent st a)
    then show ?thesis using authorize_outlay[OF sent(1) quiet] authorize_effect[OF sent(1) quiet] pos
      by (simp add: outlay_def holds_nonneg_def queued_spend_def only_records_def forward_def inflight_spend_def upstream_request_def)
  qed
next
  case (answered i t t' answer r)
  have nn: "0 \<le> held_spend (fw_authorized (gw_inflight g ! i))" using pos answered(1) by (simp add: holds_nonneg_def)
  note e = answer_effect[OF answered(2) nn]
  show ?thesis using e(2) e(4)[of SPEND_BDT] e(5) inflight_remove[OF answered(1)] pos
    by (auto simp: outlay_def holds_nonneg_def)
qed

lemma step_covered:
  assumes step: "gateway_step (Some cfg) detail g g'" and quiet: "quiet_sink cfg" and pos: "holds_nonneg g"
    and left: "0 \<le> remaining SPEND_BDT (px_pool (gw_pep g))"
  shows "0 \<le> remaining SPEND_BDT (px_pool (gw_pep g'))"
  using step
proof (cases rule: gateway_step.cases)
  case (begins ce cl r)
  then obtain st y where run: "authorize cfg ce (pipeline_request cl) (gw_pep g) = (st, y)" and st: "gw_pep g' = st"
    by (cases rule: begin_cases) (auto simp: count_response_def forward_def)
  then show ?thesis using authorize_covered[OF run quiet left] by simp
next
  case (answered i t t' answer r)
  have "0 \<le> held_spend (fw_authorized (gw_inflight g ! i))" using pos answered(1) by (simp add: holds_nonneg_def)
  from answer_effect(4)[OF answered(2) this] show ?thesis using left by simp
qed

lemma step_records:
  assumes step: "gateway_step (Some cfg) detail g g'" and quiet: "quiet_sink cfg"
    and wf: "\<forall>r \<in> set (em_queue (px_emitter (gw_pep g))). decision_record_wf r"
  shows "\<forall>r \<in> set (em_queue (px_emitter (gw_pep g'))). decision_record_wf r"
  using step
proof (cases rule: gateway_step.cases)
  case (begins ce cl r)
  then obtain st y where run: "authorize cfg ce (pipeline_request cl) (gw_pep g) = (st, y)" and st: "gw_pep g' = st"
    by (cases rule: begin_cases) (auto simp: count_response_def forward_def)
  then show ?thesis using authorize_effect[OF run quiet] wf by (auto simp: only_records_def)
next
  case (answered i t t' answer r)
  then have "px_emitter (gw_pep g') = px_emitter (gw_pep g)"
    by (auto simp: proxy_answer_def count_response_def settle_def Let_def
        split: upstream_answer.splits option.splits prod.splits sum.splits)
  then show ?thesis using wf by simp
qed

lemma step_sent:
  assumes "gateway_step (Some cfg) detail g g'"
  shows "\<forall>w \<in> set (gw_sent g'). w \<in> set (gw_sent g) \<or>
    (\<exists>ce cl st st' a. authorize cfg ce (pipeline_request cl) st = (st', Inr (Authorized a)) \<and> w = upstream_request cl (Some a))"
  using assms
proof (cases rule: gateway_step.cases)
  case (begins ce cl r)
  then show ?thesis
  proof (cases rule: begin_cases)
    case (sent st a)
    then show ?thesis by (simp add: forward_def) blast
  qed (auto simp: count_response_def)
next
  case (answered i t t' answer r)
  then have "gw_sent g' = gw_sent g"
    by (auto simp: proxy_answer_def count_response_def Let_def split: upstream_answer.splits option.splits prod.splits)
  then show ?thesis by simp
qed

section \<open>Properties\<close>

text \<open>
  C3: Nothing reaches the upstream past an enforcing gateway without being authorized: however
  requests interleave, whatever is refused, raised or answered, each request the upstream has been
  sent is the forwarding of a client request which \<open>authorize\<close> answered with that authorization,
  its method, path, query and body as the client sent them.
\<close>
theorem forwarded_only_authorized:
  assumes run: "gateway_run (Some cfg) detail g g'" and fresh: "gw_sent g = []"
  shows "\<forall>w \<in> set (gw_sent g'). \<exists>ce cl st st' a.
      authorize cfg ce (pipeline_request cl) st = (st', Inr (Authorized a)) \<and> fw_authorized w = Some a
    \<and> fw_method w = cl_method cl \<and> fw_path w = hr_path (pipeline_request cl) \<and> fw_query w = cl_query cl
    \<and> fw_body w = cl_body cl \<and> fw_headers w = filter_request_headers (cl_headers cl)"
proof -
  have "\<forall>w \<in> set (gw_sent g').
    \<exists>ce cl st st' a. authorize cfg ce (pipeline_request cl) st = (st', Inr (Authorized a)) \<and> w = upstream_request cl (Some a)"
    using run
  proof (induction rule: rtranclp_induct)
    case (step g1 g2)
    then show ?case using step_sent[OF step(2)] by blast
  qed (simp add: fresh)
  then show ?thesis by (fastforce simp: upstream_request_def pipeline_request_def)
qed

text \<open>
  C18: No interleaving of requests overdraws the lease.  What a lease has left never becomes negative,
  so each reservation was covered when it was made, and between two top-ups what the requests in flight
  hold and what they queued for the ledger stays within what the lease had; what is left, held and
  queued together never grows, whether requests are answered, fail or raise.
\<close>
theorem gateway_never_overdraws:
  assumes run: "gateway_run (Some cfg) detail g g'" and quiet: "quiet_sink cfg" and idle: "gw_inflight g = []"
  shows "(0 \<le> remaining SPEND_BDT (px_pool (gw_pep g)) \<longrightarrow>
        0 \<le> remaining SPEND_BDT (px_pool (gw_pep g'))
        \<and> inflight_spend (gw_inflight g') + (queued_spend (gw_pep g') - queued_spend (gw_pep g)) \<le> remaining SPEND_BDT (px_pool (gw_pep g)))
    \<and> remaining SPEND_BDT (px_pool (gw_pep g')) + inflight_spend (gw_inflight g') + queued_spend (gw_pep g')
      \<le> remaining SPEND_BDT (px_pool (gw_pep g)) + queued_spend (gw_pep g)
    \<and> (\<forall>w \<in> set (gw_inflight g'). 0 \<le> held_spend (fw_authorized w))"
proof -
  have "outlay g' \<le> outlay g \<and> holds_nonneg g'
      \<and> (0 \<le> remaining SPEND_BDT (px_pool (gw_pep g)) \<longrightarrow> 0 \<le> remaining SPEND_BDT (px_pool (gw_pep g')))"
    using run
  proof (induction rule: rtranclp_induct)
    case (step g1 g2)
    then show ?case using step_outlay[OF step(2) quiet] step_covered[OF step(2) quiet] by fastforce
  qed (simp add: holds_nonneg_def idle)
  then show ?thesis using idle by (auto simp: outlay_def inflight_spend_def holds_nonneg_def)
qed

text \<open>
  C37: Every decision record that reaches the emitter is well formed: a digest of 64 hexadecimal
  characters, budgets that are budgets, and \<open>OK\<close> exactly on an allow, whatever requests come and
  however they are decided.
\<close>
theorem emitted_records_well_formed:
  assumes run: "gateway_run (Some cfg) detail g g'" and quiet: "quiet_sink cfg"
    and wf: "\<forall>r \<in> set (em_queue (px_emitter (gw_pep g))). decision_record_wf r"
  shows "\<forall>r \<in> set (em_queue (px_emitter (gw_pep g'))). decision_record_wf r \<and> (dr_outcome r = ALLOW \<longleftrightarrow> dr_reason_code r = OK)"
proof -
  have "\<forall>r \<in> set (em_queue (px_emitter (gw_pep g'))). decision_record_wf r"
    using run
  proof (induction rule: rtranclp_induct)
    case (step g1 g2)
    then show ?case using step_records[OF step(2) quiet] by blast
  qed (rule wf)
  then show ?thesis by (auto simp: decision_record_wf_def outcome_matches_reason_def)
qed

text \<open>
  When the upstream fails, the reservation is stranded.  The request was sent, the answer is a
  timeout or a broken connection, the client gets 504 or 502, and the amount is gone from the
  lease, held by no request in flight and queued for no settlement.
\<close>
theorem upstream_failure_strands_reservation:
  assumes run: "proxy_begin (Some cfg) detail ce cl g = (g1, None)"
    and failed: "answer = UpstreamTimeout \<or> answer = UpstreamUnreachable"
    and quiet: "quiet_sink cfg"
  shows "\<exists>a g2 s text. gw_sent g1 = gw_sent g @ [upstream_request cl (Some a)]
    \<and> proxy_answer t t' (length (gw_inflight g)) answer g1 = (g2, Inr (GatewayError s UPSTREAM_ERROR text)) \<and> s \<in> {502, 504}
    \<and> gw_inflight g2 = gw_inflight g \<and> queued_spend (gw_pep g2) = queued_spend (gw_pep g)
    \<and> remaining SPEND_BDT (px_pool (gw_pep g2)) = remaining SPEND_BDT (px_pool (gw_pep g)) - held_spend (Some a)"
  using run
proof (cases rule: begin_cases)
  case (sent st a)
  have held: "remaining SPEND_BDT (px_pool st) = remaining SPEND_BDT (px_pool (gw_pep g)) - held_spend (Some a)"
    using authorized_holds[OF sent(1)] by simp
  have "queued_spend st = queued_spend (gw_pep g)"
    using authorize_effect[OF sent(1) quiet] by (simp add: queued_spend_def only_records_def)
  then show ?thesis using sent(2) held failed
    by (intro exI[of _ a]) (auto simp: proxy_answer_def forward_def count_response_def gateway_error_def remove_nth_def Let_def)
qed simp_all

lemma resolve_nothing: "resolve_body None ks = Inr None"
  by (cases ks) simp_all

lemma extract_args_absent:
  assumes "extract_args n u pp req None srcs = Inr as" "\<forall>s. (l, s) \<in> set srcs \<longrightarrow> sc_kind s = KBody"
  shows "map_of as l = None"
  using assms
proof (induction srcs arbitrary: as)
  case (Cons x srcs)
  obtain k s where x: "x = (k, s)" by fastforce
  show ?case
  proof (cases "k = l")
    case True
    then have "sc_kind s = KBody" using Cons.prems(2) x by auto
    then show ?thesis using Cons x by (simp add: raw_value_def resolve_nothing)
  next
    case False
    obtain y where y: "raw_value n u pp req None s = Inr y" using Cons.prems(1) x by (cases "raw_value n u pp req None s") simp_all
    have IH: "map_of as' l = None" if "extract_args n u pp req None srcs = Inr as'" for as'
      by (rule Cons.IH[OF that]) (use Cons.prems(2) in simp)
    have rest: ?thesis if v: "y = Some v" "v \<noteq> JNull" for v
    proof -
      have e: "extract_args n u pp req None (x # srcs) =
          bindE (convert_arg n s v) (\<lambda>a. bindE (extract_args n u pp req None srcs) (\<lambda>as. Inr ((k, a) # as)))"
        using v x y by (cases v) simp_all
      show ?thesis using Cons.prems(1) False IH unfolding e by (auto split: sum.splits)
    qed
    have absent: ?thesis if "y = None \<or> y = Some JNull" using that IH Cons.prems(1) x y by auto
    show ?thesis
    proof (cases y)
      case (Some v)
      then show ?thesis using rest[of v] absent by blast
    qed (use absent in blast)
  qed
qed simp

text \<open>
  A body the content type does not call JSON is forwarded unread.  On a route that takes the
  amount of a payment from the body, such a request carries no amount: every predicate on it is
  satisfied, no spend is requested and an authorization holds no reservation, while the upstream
  receives the whole body.
\<close>
theorem unread_body_escapes_authorization:
  assumes unread: "\<not> reads_body cl"
    and route: "first_match (rt_rules (pp_routes cfg)) (upper_case (cl_method cl)) (''/'' @ cl_upstream_path cl) = Some (r, pp)"
    and body: "\<forall>s. (''payment.amount'', s) \<in> set (rr_sources r) \<longrightarrow> sc_kind s = KBody"
    and x: "extract_request (pp_sha cfg) (pp_loads cfg) (pp_unquote cfg) (pp_routes cfg)
       ((pipeline_request cl)\<lparr>hr_headers := header_map (cl_headers cl)\<rparr>) = Inr x"
  shows "map_of (ex_args x) ''payment.amount'' = None \<and> requested_spend x = 0
    \<and> (\<forall>op v ctx. args ctx = ex_args x \<longrightarrow> evaluate (ArgPredicate ''payment.amount'' op v) ctx = Inr allow_result)
    \<and> (\<forall>ce st st' a. authorize cfg ce (pipeline_request cl) st = (st', Inr (Authorized a)) \<longrightarrow>
         au_reservation a = None \<and> fw_body (upstream_request cl (Some a)) = cl_body cl)"
proof -
  let ?req = "(pipeline_request cl)\<lparr>hr_headers := header_map (cl_headers cl)\<rparr>"
  have "extract_args (hs_nfc (pp_sha cfg)) (pp_unquote cfg) pp ?req None (rr_sources r) = Inr (ex_args x)"
    using x unread route
    by (auto simp: extract_request_def pipeline_request_def parse_body_def Let_def split: if_splits sum.splits)
  then have none: "map_of (ex_args x) ''payment.amount'' = None" by (rule extract_args_absent[OF _ body])
  then have spend: "requested_spend x = 0" by (simp add: requested_spend_def)
  have "au_reservation a = None" if "authorize cfg ce (pipeline_request cl) st = (st', Inr (Authorized a))" for ce st st' a
    using authorized_amount[OF that] x spend by (auto simp: pipeline_request_def split: option.splits)
  then show ?thesis using none spend by (simp add: upstream_request_def)
qed

section \<open>Witnesses\<close>

definition demo_client :: client_request where
  "demo_client =
     \<lparr>cl_method = ''POST'', cl_upstream_path = ''read'', cl_query = [],
      cl_headers = [(''Authorization'', ''Bearer token''), (''Content-Type'', ''application/json'')], cl_body = ''{}''\<rparr>"

definition demo_gateway :: "(dl_stmt list list) gateway" where
  "demo_gateway =
     \<lparr>gw_pep = \<lparr>px_pool = primed_pool, px_emitter = new_emitter demo_emitter_settings, px_settlement = None\<rparr>,
      gw_inflight = [], gw_sent = [], gw_counts = []\<rparr>"

lemma demo_client_request: "pipeline_request demo_client = demo_http"
proof -
  have "reads_body demo_client" by code_simp
  then show ?thesis by (simp add: pipeline_request_def demo_http_def) (simp add: demo_client_def)
qed

lemma demo_quiet: "quiet_sink (demo_pipeline cs)"
  by (simp add: quiet_sink_def demo_finish)

lemma demo_sent:
  obtains g a where "proxy_begin (Some (demo_pipeline [])) (\<lambda>_. []) demo_env demo_client demo_gateway = (g, None)"
    "gw_sent g = [upstream_request demo_client (Some a)]" "held_spend (Some a) = 1"
proof -
  obtain st a z where "authorize (demo_pipeline []) demo_env demo_http (gw_pep demo_gateway) = (st, Inr (Authorized a))"
    "au_reservation a = Some z" "rz_amount z = 1"
    by (rule demo_run_authorized[of None]) (simp add: demo_gateway_def)
  then show ?thesis
    using that[of "forward demo_client (Some a) (demo_gateway\<lparr>gw_pep := st\<rparr>)" a]
    by (simp add: proxy_begin_def demo_client_request held_spend_def) (simp add: forward_def demo_gateway_def)
qed

lemma demo_gateway_run:
  obtains g a where "gateway_run (Some (demo_pipeline [])) (\<lambda>_. []) demo_gateway g"
    "gw_sent g = [upstream_request demo_client (Some a)]"
proof -
  obtain g a where g: "proxy_begin (Some (demo_pipeline [])) (\<lambda>_. []) demo_env demo_client demo_gateway = (g, None)"
    "gw_sent g = [upstream_request demo_client (Some a)]" by (rule demo_sent)
  from begins[OF g(1)] show ?thesis by (intro that[OF _ g(2)]) (rule r_into_rtranclp)
qed

theorem forwarded_only_authorized_witness:
  "\<exists>g w. gateway_run (Some (demo_pipeline [])) (\<lambda>_. []) demo_gateway g \<and> gw_sent g = [w] \<and> fw_path w = ''/read''
    \<and> (\<exists>ce cl st st' a. authorize (demo_pipeline []) ce (pipeline_request cl) st = (st', Inr (Authorized a)) \<and> fw_authorized w = Some a)"
proof -
  obtain g a where g: "gateway_run (Some (demo_pipeline [])) (\<lambda>_. []) demo_gateway g"
    "gw_sent g = [upstream_request demo_client (Some a)]" by (rule demo_gateway_run)
  have "gw_sent demo_gateway = []" by (simp add: demo_gateway_def)
  from forwarded_only_authorized[OF g(1) this] show ?thesis
    using g by (fastforce simp: upstream_request_def demo_client_def)
qed

theorem gateway_never_overdraws_witness:
  "\<exists>g. gateway_run (Some (demo_pipeline [])) (\<lambda>_. []) demo_gateway g \<and> gw_sent g \<noteq> []
    \<and> 0 \<le> remaining SPEND_BDT (px_pool (gw_pep g)) \<and> inflight_spend (gw_inflight g) + queued_spend (gw_pep g) \<le> 100"
proof -
  obtain g a where g: "gateway_run (Some (demo_pipeline [])) (\<lambda>_. []) demo_gateway g"
    "gw_sent g = [upstream_request demo_client (Some a)]" by (rule demo_gateway_run)
  have "remaining SPEND_BDT primed_pool = 100" using primed_pool_held(1) by (simp add: remaining_def new_lease_def)
  then show ?thesis using gateway_never_overdraws[OF g(1) demo_quiet] g
    by (auto simp: demo_gateway_def queued_spend_def)
qed

theorem emitted_records_well_formed_witness:
  "\<exists>g. gateway_run (Some (demo_pipeline [])) (\<lambda>_. []) demo_gateway g \<and> gw_sent g \<noteq> []
    \<and> list_all (\<lambda>r. decision_record_wf r) (em_queue (px_emitter (gw_pep g)))"
proof -
  obtain g a where g: "gateway_run (Some (demo_pipeline [])) (\<lambda>_. []) demo_gateway g"
    "gw_sent g = [upstream_request demo_client (Some a)]" by (rule demo_gateway_run)
  then show ?thesis using emitted_records_well_formed[OF g(1) demo_quiet]
    by (auto simp: demo_gateway_def new_emitter_def list_all_iff)
qed

theorem upstream_failure_strands_reservation_witness:
  "\<exists>g1 g2 text. proxy_begin (Some (demo_pipeline [])) (\<lambda>_. []) demo_env demo_client demo_gateway = (g1, None)
    \<and> proxy_answer (seconds 12) (seconds 12) 0 UpstreamTimeout g1 = (g2, Inr (GatewayError 504 UPSTREAM_ERROR text))
    \<and> gw_inflight g2 = [] \<and> remaining SPEND_BDT (px_pool (gw_pep g2)) = 99"
proof -
  obtain g a where g: "proxy_begin (Some (demo_pipeline [])) (\<lambda>_. []) demo_env demo_client demo_gateway = (g, None)"
    "gw_sent g = [upstream_request demo_client (Some a)]" "held_spend (Some a) = 1" by (rule demo_sent)
  have rem: "remaining SPEND_BDT (px_pool (gw_pep demo_gateway)) = 100" "gw_inflight demo_gateway = []"
    using primed_pool_held(1) by (simp_all add: demo_gateway_def remaining_def new_lease_def)
  obtain a' g2 s msg where f: "gw_sent g = gw_sent demo_gateway @ [upstream_request demo_client (Some a')]"
    "proxy_answer (seconds 12) (seconds 12) 0 UpstreamTimeout g = (g2, Inr (GatewayError s UPSTREAM_ERROR msg))"
    "gw_inflight g2 = []" "remaining SPEND_BDT (px_pool (gw_pep g2)) = 100 - held_spend (Some a')"
    using upstream_failure_strands_reservation[OF g(1) _ demo_quiet, of UpstreamTimeout "seconds 12" "seconds 12"] rem by auto
  have "a' = a" using f(1) g(2) by (simp add: demo_gateway_def upstream_request_def)
  moreover have "s = 504" using f(2) by (simp add: proxy_answer_def gateway_error_def Let_def)
  ultimately show ?thesis using g f by auto
qed

definition form_client :: client_request where
  "form_client =
     \<lparr>cl_method = ''POST'', cl_upstream_path = ''read'', cl_query = [],
      cl_headers = [(''Authorization'', ''Bearer token''), (''Content-Type'', ''text/plain'')], cl_body = ''{}''\<rparr>"

theorem unread_body_escapes_authorization_witness:
  "\<exists>x. extract_request (pp_sha (demo_pipeline [])) (pp_loads (demo_pipeline [])) (pp_unquote (demo_pipeline []))
        (pp_routes (demo_pipeline [])) ((pipeline_request form_client)\<lparr>hr_headers := header_map (cl_headers form_client)\<rparr>) = Inr x
     \<and> requested_spend x = 0 \<and> cl_body form_client \<noteq> []"
proof -
  have unread: "\<not> reads_body form_client" by code_simp
  have route: "first_match (rt_rules (pp_routes (demo_pipeline []))) (upper_case (cl_method form_client))
      (''/'' @ cl_upstream_path form_client) = Some (read_rule, [])"
    by (simp add: demo_pipeline_def form_client_def read_rule_def rule_matches_def upper_case_def less_eq_char_def)
  have body: "\<forall>s. (''payment.amount'', s) \<in> set (rr_sources read_rule) \<longrightarrow> sc_kind s = KBody"
    by (simp add: read_rule_def)
  have "hash_args demo_hasher [] = Inr (replicate 64 CHR ''b'')"
    using canonical_json_ok[of latin_nfc "PyMap []"] by (auto simp: demo_hasher_def hash_args_def hash_object_def)
  then obtain x where x: "extract_request (pp_sha (demo_pipeline [])) (pp_loads (demo_pipeline [])) (pp_unquote (demo_pipeline []))
        (pp_routes (demo_pipeline [])) ((pipeline_request form_client)\<lparr>hr_headers := header_map (cl_headers form_client)\<rparr>) = Inr x"
    using unread route
    by (simp add: extract_request_def pipeline_request_def body_too_large_def needs_body_def parse_body_def read_rule_def
        raw_value_def) (simp add: demo_pipeline_def)
  from unread_body_escapes_authorization[OF unread route body x] show ?thesis
    using x by (auto simp: form_client_def)
qed

end
