(* ===== verification/Invariants.thy ===== *)
theory Invariants
  imports Ledger
begin

text \<open>
  The invariant checker of \<open>agentiam_controlplane/db/invariants.py\<close>: the sweep over every
  budget row and the violations it reports.  The lemmas show that the sweep's joins compute the
  ledger's own totals, so the report is green exactly when the books balance.
\<close>

datatype invariant_kind =
    POOL | COMMITTED_VS_RESERVATIONS | LEASED_VS_ACTIVE_LEASES | ALLOCATED_VS_CHILDREN
  | NEGATIVE_BALANCE

record violation =
  vi_kind :: invariant_kind
  vi_budget_id :: uuid
  vi_mandate_id :: uuid
  vi_dimension :: string
  vi_expected :: decimal
  vi_actual :: decimal

definition violation_delta :: "violation \<Rightarrow> decimal" where
  "violation_delta v = vi_actual v - vi_expected v"

record check_report =
  budgets_checked :: nat
  violations :: "violation list"

definition report_holds :: "check_report \<Rightarrow> bool" where
  "report_holds r = (violations r = [])"

definition exit_code :: "check_report \<Rightarrow> int" where
  "exit_code r = (if report_holds r then 0 else 1)"

section \<open>The sweep\<close>

record sweep_row =
  sw_budget_id :: uuid
  sw_mandate_id :: uuid
  sw_dimension :: string
  sw_total :: decimal
  sw_committed :: decimal
  sw_leased :: decimal
  sw_allocated :: decimal
  sw_settled_reservations :: decimal
  sw_active_outstanding :: decimal
  sw_child_totals :: decimal

text \<open>The three left-joined sums; \<open>COALESCE\<close> makes a missing group zero, as the empty sum is.\<close>

definition settled_reservations :: "ledger_db \<Rightarrow> uuid \<Rightarrow> decimal" where
  "settled_reservations db i =
     sum_list (map (\<lambda>(r, l). rr_amount r)
       (filter (\<lambda>(r, l). lr_id l = rr_lease_id r \<and> lr_budget_id l = i)
          (List.product (reservations db) (leases db))))"

definition active_outstanding :: "ledger_db \<Rightarrow> uuid \<Rightarrow> decimal" where
  "active_outstanding db i =
     sum_list (map (\<lambda>l. lr_granted l - lr_settled l)
       (filter (\<lambda>l. lr_state l = ACTIVE \<and> lr_budget_id l = i) (leases db)))"

definition child_totals :: "ledger_db \<Rightarrow> uuid \<Rightarrow> decimal" where
  "child_totals db i =
     sum_list (map br_total (filter (\<lambda>c. br_parent_budget_id c = Some i) (budgets db)))"

definition sweep :: "ledger_db \<Rightarrow> sweep_row list" where
  "sweep db =
     map (\<lambda>b. \<lparr>sw_budget_id = br_id b, sw_mandate_id = br_mandate_id b,
               sw_dimension = br_dimension b, sw_total = br_total b, sw_committed = br_committed b,
               sw_leased = br_leased b, sw_allocated = br_allocated b,
               sw_settled_reservations = settled_reservations db (br_id b),
               sw_active_outstanding = active_outstanding db (br_id b),
               sw_child_totals = child_totals db (br_id b)\<rparr>) (budgets db)"

definition row_violation :: "sweep_row \<Rightarrow> invariant_kind \<Rightarrow> decimal \<Rightarrow> decimal \<Rightarrow> violation" where
  "row_violation row kind expected actual =
     \<lparr>vi_kind = kind, vi_budget_id = sw_budget_id row, vi_mandate_id = sw_mandate_id row,
      vi_dimension = sw_dimension row, vi_expected = expected, vi_actual = actual\<rparr>"

definition violations_for :: "sweep_row \<Rightarrow> violation list" where
  "violations_for row =
     (let committed = sw_committed row; leased = sw_leased row; allocated = sw_allocated row
      in (if committed < 0 \<or> leased < 0 \<or> allocated < 0
          then [row_violation row NEGATIVE_BALANCE 0
                  (if leased < 0 then leased else if committed < 0 then committed else allocated)]
          else [])
       @ (if committed + leased + allocated > sw_total row
          then [row_violation row POOL (sw_total row) (committed + leased + allocated)] else [])
       @ (if committed \<noteq> sw_settled_reservations row
          then [row_violation row COMMITTED_VS_RESERVATIONS (sw_settled_reservations row) committed]
          else [])
       @ (if leased \<noteq> sw_active_outstanding row
          then [row_violation row LEASED_VS_ACTIVE_LEASES (sw_active_outstanding row) leased]
          else [])
       @ (if allocated \<noteq> sw_child_totals row
          then [row_violation row ALLOCATED_VS_CHILDREN (sw_child_totals row) allocated] else []))"

definition check_in_session :: "ledger_db \<Rightarrow> check_report" where
  "check_in_session db =
     (let rows = sweep db
      in \<lparr>budgets_checked = length rows, violations = concat (map violations_for rows)\<rparr>)"

section \<open>The joins compute the totals\<close>

lemma join_one_lease:
  assumes "distinct (map lr_id ls)"
  shows "sum_list (map (\<lambda>l. if lr_id l = k \<and> lr_budget_id l = i then a else 0) ls)
    = (if list_ex (\<lambda>l. lr_id l = k \<and> lr_budget_id l = i) ls then a else (0 :: decimal))"
  using assms
proof (induction ls)
  case (Cons l ls)
  show ?case
  proof (cases "lr_id l = k \<and> lr_budget_id l = i")
    case True
    then have "\<not> list_ex (\<lambda>l. lr_id l = k \<and> lr_budget_id l = i) ls"
      using distinct_head_key[OF Cons.prems] by (auto simp: list_ex_iff)
    then show ?thesis using Cons True by auto
  qed (use Cons in auto)
qed simp

lemma settled_reservations_total:
  assumes "distinct (map lr_id (leases db))"
  shows "settled_reservations db i = res_total db i"
proof -
  have "sum_list (map (\<lambda>(r, l). rr_amount r) (filter (\<lambda>(r, l). lr_id l = rr_lease_id r \<and> lr_budget_id l = i)
      (List.product rs (leases db))))
    = sum_list (map (\<lambda>r. if list_ex (\<lambda>l. lr_id l = rr_lease_id r \<and> lr_budget_id l = i) (leases db)
                        then rr_amount r else 0) rs)" for rs
  proof (induction rs)
    case (Cons r rs)
    have pairs: "sum_list (map (\<lambda>(r, l). rr_amount r) (filter (\<lambda>(r, l). lr_id l = rr_lease_id r \<and> lr_budget_id l = i)
        (map (Pair r) ls))) = sum_list (map (\<lambda>l. if lr_id l = rr_lease_id r \<and> lr_budget_id l = i then rr_amount r else 0) ls)"
      for ls by (induction ls) auto
    show ?case using Cons pairs[of "leases db"] join_one_lease[OF assms, of "rr_lease_id r" i "rr_amount r"]
      by simp
  qed simp
  then show ?thesis by (simp add: settled_reservations_def res_total_def)
qed

lemma active_outstanding_total: "active_outstanding db i = active_total db i"
proof -
  have "sum_list (map (\<lambda>l. lr_granted l - lr_settled l) (filter (\<lambda>l. lr_state l = ACTIVE \<and> lr_budget_id l = i) ls))
    = sum_list (map (\<lambda>l. if lr_budget_id l = i \<and> lr_state l = ACTIVE then outstanding l else 0) ls)" for ls
    by (induction ls) (auto simp: outstanding_def)
  then show ?thesis by (simp add: active_outstanding_def active_total_def)
qed

lemma child_totals_total: "child_totals db i = child_total db i"
proof -
  have "sum_list (map br_total (filter (\<lambda>c. br_parent_budget_id c = Some i) bs))
    = sum_list (map (\<lambda>b. if br_parent_budget_id b = Some i then br_total b else 0) bs)" for bs
    by (induction bs) auto
  then show ?thesis by (simp add: child_totals_def child_total_def)
qed

lemma violations_for_Nil:
  "violations_for row = [] \<longleftrightarrow>
     0 \<le> sw_committed row \<and> 0 \<le> sw_leased row \<and> 0 \<le> sw_allocated row
   \<and> sw_committed row + sw_leased row + sw_allocated row \<le> sw_total row
   \<and> sw_committed row = sw_settled_reservations row \<and> sw_leased row = sw_active_outstanding row
   \<and> sw_allocated row = sw_child_totals row"
  by (auto simp: violations_for_def Let_def)

lemma check_holds_iff:
  assumes "distinct (map lr_id (leases db))"
  shows "report_holds (check_in_session db) \<longleftrightarrow>
    (\<forall>b \<in> set (budgets db). ck_budgets_invariant b \<and> budget_balanced db b)"
  using assms
  by (auto simp: report_holds_def check_in_session_def Let_def sweep_def violations_for_Nil
      ck_budgets_invariant_def budget_balanced_def settled_reservations_total
      active_outstanding_total child_totals_total)

section \<open>Properties\<close>

text \<open>
  The checker is exact: on any ledger whose lease ids are unique, its exit code is 0
  precisely when every budget row satisfies the pool invariant and agrees with the reservations,
  the active leases and the child allocations it summarises.
\<close>
theorem invariant_check_exact:
  assumes "distinct (map lr_id (leases db))"
  shows "exit_code (check_in_session db) = 0 \<longleftrightarrow>
    (\<forall>b \<in> set (budgets db). ck_budgets_invariant b \<and> budget_balanced db b)"
  using check_holds_iff[OF assms] by (simp add: exit_code_def)

text \<open>
  The ledger's code never turns the checker red: every reachable ledger is reported with no
  violation and every budget row checked.
\<close>
theorem reachable_ledger_passes_check:
  assumes "ledger_reachable db"
  shows "report_holds (check_in_session db)
    \<and> budgets_checked (check_in_session db) = length (budgets db)"
proof -
  have b: "books db" using reachable_books[OF assms] .
  then have "distinct (map lr_id (leases db))"
    "\<forall>c \<in> set (budgets db). ck_budgets_invariant c \<and> budget_balanced db c"
    using booksD(1,2)[OF b] by (auto simp: db_ok_def list_all_iff)
  then show ?thesis using check_holds_iff by (simp add: check_in_session_def Let_def sweep_def)
qed

section \<open>Witnesses\<close>

theorem invariant_check_exact_witness:
  "exit_code (check_in_session (demo_leased\<lparr>leases := []\<rparr>)) \<noteq> 0"
proof -
  have "\<not> (\<forall>b \<in> set (budgets (demo_leased\<lparr>leases := []\<rparr>)).
      ck_budgets_invariant b \<and> budget_balanced (demo_leased\<lparr>leases := []\<rparr>) b)" by code_simp
  then show ?thesis using invariant_check_exact[of "demo_leased\<lparr>leases := []\<rparr>"] by simp
qed

theorem reachable_ledger_passes_check_witness:
  "report_holds (check_in_session demo_leased) \<and> budgets_checked (check_in_session demo_leased) = 1"
proof -
  have "length (budgets demo_leased) = 1" by code_simp
  then show ?thesis using reachable_ledger_passes_check[OF demo_reachable(2)] by simp
qed

end
