(* ===== verification/Deployment.thy ===== *)
theory Deployment
  imports Pool Settlement Invariants
begin

text \<open>
  The budget of one enforcement point, put together as \<open>scripts/pep_service.py\<close> does: the lease
  pool draws on the ledger through \<open>SessionLedger\<close>, reservations are settled through the settlement
  queue and its sink, and a lease is released after the queue has drained (\<open>before_release\<close>).

  Two ghost fields record what no part of the program keeps: the reservations made and not yet
  settled, and what the tools have charged.  A top-up is one step here, although it awaits the
  ledger several times.  The enforcement point is the only user of its budget row, and nothing
  reaps its leases.
\<close>

section \<open>The ledger as the pool sees it\<close>

definition session_acquire ::
  "uuid \<Rightarrow> uuid \<Rightarrow> budget_dimension \<Rightarrow> decimal \<Rightarrow> string \<Rightarrow> int \<Rightarrow> instant \<Rightarrow> ledger_db \<Rightarrow> (lease_grant option) ledger_result" where
  "session_acquire fresh mid d amount pep ttl now_t db =
     (case acquire fresh mid (dimension_value d) amount pep ttl now_t None db of
        (db', Inl LeaseUnavailableError) \<Rightarrow> (db', Inr None)
      | (db', Inl e) \<Rightarrow> (db', Inl e)
      | (db', Inr l) \<Rightarrow>
          (db', Inr (if lr_granted l \<le> 0 then None
                     else Some \<lparr>lg_id = lr_id l, lg_granted = lr_granted l, lg_expires_at = lr_expires_at l\<rparr>)))"

definition session_release :: "uuid \<Rightarrow> ledger_db \<Rightarrow> unit ledger_result" where
  "session_release lease_id db =
     (case release lease_id db of (db', Inl e) \<Rightarrow> (db', Inl e) | (db', Inr _) \<Rightarrow> (db', Inr ()))"

section \<open>The deployment\<close>

record deployment =
  dp_mandate_id :: uuid
  dp_pool :: lease_pool
  dp_queue :: settlement_queue
  dp_sink :: sink_state
  dp_open :: "reservation list"
  dp_spent :: decimal

abbreviation dp_db :: "deployment \<Rightarrow> ledger_db" where
  "dp_db dp \<equiv> ss_db (dp_sink dp)"

text \<open>\<open>_release\<close>: \<open>before_release\<close> first.\<close>

definition pool_release :: "bool \<Rightarrow> uuid \<Rightarrow> deployment \<Rightarrow> deployment" where
  "pool_release up i dp =
     (case drain (ledger_sink up) (dp_queue dp, dp_sink dp) of
        (q, w) \<Rightarrow> dp\<lparr>dp_queue := q, dp_sink := w\<lparr>ss_db := fst (session_release i (ss_db w))\<rparr>\<rparr>)"

text \<open>\<open>_acquire\<close>, of the first lease and of a top-up; an exception of the ledger leaves it there.\<close>

definition pool_topup :: "bool \<Rightarrow> uuid \<Rightarrow> instant \<Rightarrow> deployment \<Rightarrow> deployment" where
  "pool_topup up fresh now_t dp =
     (let s = pl_settings (dp_pool dp) in
      case session_acquire fresh (dp_mandate_id dp) SPEND_BDT (ps_lease_size s) (ps_pep_id s) (ps_ttl s) now_t (dp_db dp) of
        (db, Inl e) \<Rightarrow> dp\<lparr>dp_sink := (dp_sink dp)\<lparr>ss_db := db\<rparr>\<rparr>
      | (db, Inr answer) \<Rightarrow>
          (case pool_acquire SPEND_BDT answer (dp_pool dp) of
             (p, old, _) \<Rightarrow>
               (let dp' = dp\<lparr>dp_pool := p, dp_sink := (dp_sink dp)\<lparr>ss_db := db\<rparr>\<rparr> in
                case old of None \<Rightarrow> dp' | Some i \<Rightarrow> pool_release up i dp')))"

definition reserve_spend :: "uuid \<Rightarrow> instant \<Rightarrow> decimal \<Rightarrow> deployment \<Rightarrow> deployment \<times> (pool_error + reservation)" where
  "reserve_spend fresh now_t amount dp =
     (case pool_reserve fresh True now_t SPEND_BDT amount (dp_pool dp) of
        (p, Inl e) \<Rightarrow> (dp\<lparr>dp_pool := p\<rparr>, Inl e)
      | (p, Inr r) \<Rightarrow> (dp\<lparr>dp_pool := p, dp_open := dp_open dp @ [r]\<rparr>, Inr r))"

text \<open>A call that charged \<open>actual\<close> is settled: \<open>commit\<close>, then \<open>enqueue\<close>.\<close>

definition settle_spend :: "instant \<Rightarrow> instant \<Rightarrow> reservation \<Rightarrow> decimal \<Rightarrow> deployment \<Rightarrow> deployment" where
  "settle_spend t_commit t_enqueue r actual dp =
     (case pool_commit t_commit SPEND_BDT r actual (dp_pool dp) of
        (p, Inl e) \<Rightarrow> dp\<lparr>dp_pool := p, dp_open := remove1 r (dp_open dp), dp_spent := dp_spent dp + actual\<rparr>
      | (p, Inr out) \<Rightarrow>
          dp\<lparr>dp_pool := p, dp_queue := enqueue out t_enqueue (dp_queue dp), dp_open := remove1 r (dp_open dp),
             dp_spent := dp_spent dp + actual\<rparr>)"

definition flush_queue :: "bool \<Rightarrow> deployment \<Rightarrow> deployment" where
  "flush_queue up dp =
     (case flush (ledger_sink up) (dp_queue dp, dp_sink dp) of (q, w) \<Rightarrow> dp\<lparr>dp_queue := q, dp_sink := w\<rparr>)"

definition queue_accepts :: "settlement_queue \<Rightarrow> bool" where
  "queue_accepts q = (\<not> sq_closed q \<and> int (length (sq_pending q)) < st_capacity (sq_settings q))"

text \<open>
  What can happen.  With \<open>quiet\<close>, a lease is replaced only when no reservation is open and the
  database answers, and no settlement is dropped by a full queue.
\<close>

inductive deployment_step :: "bool \<Rightarrow> deployment \<Rightarrow> deployment \<Rightarrow> bool" for quiet where
  reserve: "reserve_spend fresh t amount dp = (dp', y) \<Longrightarrow> 0 < amount
    \<Longrightarrow> fresh \<notin> rr_id ` set (reservations (dp_db dp)) \<union> pd_reservation_id ` set (sq_pending (dp_queue dp)) \<union> rz_id ` set (dp_open dp)
    \<Longrightarrow> deployment_step quiet dp dp'"
| settled: "r \<in> set (dp_open dp) \<Longrightarrow> 0 < actual \<Longrightarrow> actual \<le> rz_amount r \<Longrightarrow> quiet \<longrightarrow> queue_accepts (dp_queue dp)
    \<Longrightarrow> deployment_step quiet dp (settle_spend t t' r actual dp)"
| flushed: "deployment_step quiet dp (flush_queue up dp)"
| topup: "fresh \<notin> lr_id ` set (leases (dp_db dp)) \<Longrightarrow> quiet \<longrightarrow> dp_open dp = [] \<and> up
    \<Longrightarrow> deployment_step quiet dp (pool_topup up fresh t dp)"

definition fresh_deployment :: "deployment \<Rightarrow> bool" where
  "fresh_deployment dp =
     (ledger_init (dp_db dp) \<and> pl_held (dp_pool dp) = (\<lambda>_. None) \<and> 0 < ps_lease_size (pl_settings (dp_pool dp))
      \<and> sq_pending (dp_queue dp) = [] \<and> 0 < st_batch_max (sq_settings (dp_queue dp))
      \<and> dp_open dp = [] \<and> dp_spent dp = 0)"

section \<open>One pool row and its leases\<close>

definition pool_row :: "uuid \<Rightarrow> budget_row \<Rightarrow> bool" where
  "pool_row mid b =
     (br_mandate_id b = mid \<and> br_dimension b = dimension_value SPEND_BDT \<and> br_parent_budget_id b = None)"

text \<open>
  The mandate's pool row has so much committed of its total, and these reservations have been
  settled; and an active lease of it has so much granted and settled.
\<close>

definition pool_view :: "ledger_db \<Rightarrow> uuid \<Rightarrow> uuid \<Rightarrow> decimal \<Rightarrow> decimal \<Rightarrow> uuid set \<Rightarrow> bool" where
  "pool_view db mid bid c T R =
     (ledger_reachable db \<and> rr_id ` set (reservations db) = R
      \<and> (\<exists>b \<in> set (budgets db). br_id b = bid \<and> pool_row mid b \<and> br_committed b = c \<and> br_total b = T))"

definition lease_at :: "ledger_db \<Rightarrow> uuid \<Rightarrow> uuid \<Rightarrow> decimal \<Rightarrow> decimal \<Rightarrow> bool" where
  "lease_at db bid i g s =
     (\<exists>l \<in> set (leases db). lr_id l = i \<and> lr_state l = ACTIVE \<and> lr_granted l = g \<and> lr_settled l = s \<and> lr_budget_id l = bid)"

definition keeps_leases :: "uuid \<Rightarrow> uuid \<Rightarrow> ledger_db \<Rightarrow> ledger_db \<Rightarrow> bool" where
  "keeps_leases bid i db db' = (\<forall>j g s. j \<noteq> i \<longrightarrow> lease_at db bid j g s \<longrightarrow> lease_at db' bid j g s)"

lemma settle_one_applies:
  assumes b: "books db" and l: "l \<in> set (leases db)" "lr_id l = i" "lr_state l = ACTIVE"
    and x: "pd_lease_id x = i" "0 < pd_amount x" "pd_amount x \<le> outstanding l"
    and new: "pd_reservation_id x \<notin> rr_id ` set (reservations db)"
  shows "settle_one x db = apply_settlement l (pd_reservation_id x) (pd_amount x) (pd_now x) db"
    "ledger_step db (settle_one x db)"
proof -
  let ?items = "[(pd_reservation_id x, pd_amount x, pd_now x)]"
  have c: "ledger_commit i (pd_reservation_id x) (pd_amount x) (pd_now x) db
      = (apply_settlement l (pd_reservation_id x) (pd_amount x) (pd_now x) db, Inr True)"
    using commit_single[OF b l] x new by (simp add: min_def)
  then show one: "settle_one x db = apply_settlement l (pd_reservation_id x) (pd_amount x) (pd_now x) db"
    using x(1) by (simp add: settle_one_def)
  obtain db' y where "ledger_commit_batch i ?items db = (db', y)" by fastforce
  moreover from this have "db' = settle_one x db" using c one by (auto simp: ledger_commit_def split: sum.splits)
  ultimately show "ledger_step db (settle_one x db)" using ledger_step.commit by blast
qed

lemma view_settle:
  assumes v: "pool_view db mid bid c T R" and la: "lease_at db bid i g s"
    and x: "pd_lease_id x = i" "0 < pd_amount x" "pd_amount x \<le> g - s" and new: "pd_reservation_id x \<notin> R"
  shows "pool_view (settle_one x db) mid bid (c + pd_amount x) T (insert (pd_reservation_id x) R)"
    "lease_at (settle_one x db) bid i g (s + pd_amount x)" "keeps_leases bid i db (settle_one x db)"
proof -
  obtain l where l: "l \<in> set (leases db)" "lr_id l = i" "lr_state l = ACTIVE" "lr_granted l = g" "lr_settled l = s" "lr_budget_id l = bid"
    using la by (auto simp: lease_at_def)
  obtain b where b: "b \<in> set (budgets db)" "br_id b = bid" "pool_row mid b" "br_committed b = c" "br_total b = T"
    and r: "ledger_reachable db" "rr_id ` set (reservations db) = R" using v by (auto simp: pool_view_def)
  have out: "pd_amount x \<le> outstanding l" using x(3) l(4,5) by (simp add: outstanding_def)
  have fresh: "pd_reservation_id x \<notin> rr_id ` set (reservations db)" using new r(2) by simp
  let ?db = "settle_one x db" and ?a = "pd_amount x"
  note app = settle_one_applies[OF reachable_books[OF r(1)] l(1-3) x(1,2) out fresh]
  have rows: "leases ?db = map (\<lambda>k. if lr_id k = i then k\<lparr>lr_settled := lr_settled k + ?a\<rparr> else k) (leases db)"
    "budgets ?db = map (\<lambda>k. if br_id k = bid then k\<lparr>br_committed := br_committed k + ?a, br_leased := br_leased k - ?a\<rparr> else k) (budgets db)"
    "reservations ?db = reservations db @ [\<lparr>rr_id = pd_reservation_id x, rr_lease_id = i, rr_amount = ?a, rr_created_at = pd_now x\<rparr>]"
    using l(2,6) unfolding app(1) by (simp_all add: apply_settlement_def update_budget_def update_lease_def Let_def)
  have "b\<lparr>br_committed := br_committed b + ?a, br_leased := br_leased b - ?a\<rparr> \<in> set (budgets ?db)"
    using b(1,2) by (force simp: rows(2))
  then show "pool_view ?db mid bid (c + ?a) T (insert (pd_reservation_id x) R)"
    unfolding pool_view_def using b r(2) ledger_reachable.step[OF r(1) app(2)]
    by (intro conjI bexI[of _ "b\<lparr>br_committed := br_committed b + ?a, br_leased := br_leased b - ?a\<rparr>"])
       (auto simp: rows(3) pool_row_def)
  have "l\<lparr>lr_settled := lr_settled l + ?a\<rparr> \<in> set (leases ?db)" using l(1,2) by (force simp: rows(1))
  then show "lease_at ?db bid i g (s + ?a)" unfolding lease_at_def
    using l by (intro bexI[of _ "l\<lparr>lr_settled := lr_settled l + ?a\<rparr>"]) simp_all
  show "keeps_leases bid i db ?db" unfolding keeps_leases_def lease_at_def rows(1) by force
qed

lemma view_settles:
  assumes "pool_view db mid bid c T R" "lease_at db bid i g s" "\<forall>x \<in> set xs. pd_lease_id x = i \<and> 0 < pd_amount x"
    and "sum_list (map pd_amount xs) \<le> g - s" "distinct (map pd_reservation_id xs)" "pd_reservation_id ` set xs \<inter> R = {}"
  shows "pool_view (fold settle_one xs db) mid bid (c + sum_list (map pd_amount xs)) T (R \<union> pd_reservation_id ` set xs)
    \<and> lease_at (fold settle_one xs db) bid i g (s + sum_list (map pd_amount xs)) \<and> keeps_leases bid i db (fold settle_one xs db)"
  using assms
proof (induction xs arbitrary: db s c R)
  case Nil
  then show ?case by (simp add: keeps_leases_def)
next
  case (Cons x xs)
  have "0 \<le> sum_list (map pd_amount xs)" using Cons.prems(3) by (intro sum_list_nonneg) auto
  then have x: "pd_lease_id x = i" "0 < pd_amount x" "pd_amount x \<le> g - s" "pd_reservation_id x \<notin> R"
    using Cons.prems by auto
  note v = view_settle[OF Cons.prems(1,2) x]
  have "pool_view (fold settle_one xs (settle_one x db)) mid bid (c + pd_amount x + sum_list (map pd_amount xs)) T
      (insert (pd_reservation_id x) R \<union> pd_reservation_id ` set xs)
    \<and> lease_at (fold settle_one xs (settle_one x db)) bid i g (s + pd_amount x + sum_list (map pd_amount xs))
    \<and> keeps_leases bid i (settle_one x db) (fold settle_one xs (settle_one x db))"
    by (rule Cons.IH[OF v(1,2)]) (use Cons.prems in auto)
  then show ?case using v(3) by (auto simp: algebra_simps keeps_leases_def)
qed

lemma view_bound:
  assumes "pool_view db mid bid c T R" "lease_at db bid i g s"
  shows "c + (g - s) \<le> T" "s \<le> g"
proof -
  obtain l where l: "l \<in> set (leases db)" "lr_state l = ACTIVE" "lr_granted l = g" "lr_settled l = s" "lr_budget_id l = bid"
    using assms(2) by (auto simp: lease_at_def)
  obtain b where b: "b \<in> set (budgets db)" "br_id b = bid" "br_committed b = c" "br_total b = T" and ok: "books db"
    using assms(1) reachable_books by (auto simp: pool_view_def)
  have "outstanding l \<le> active_total db (br_id b)"
    using active_total_ge[OF booksD(1)[OF ok] l(1,2)] b(2) l(5) by simp
  then show "c + (g - s) \<le> T" using booksD(2)[OF ok b(1)] booksD(1)[OF ok] b l
    by (auto simp: budget_balanced_def db_ok_def list_all_iff ck_budgets_invariant_def outstanding_def)
  show "s \<le> g" using booksD(1)[OF ok] l by (auto simp: db_ok_def list_all_iff ck_leases_outstanding_def)
qed

lemma pool_row_unique:
  assumes "db_ok db" "b \<in> set (budgets db)" "b' \<in> set (budgets db)" "pool_row mid b" "pool_row mid b'"
  shows "b = b'"
proof -
  let ?bs = "filter (\<lambda>b. br_parent_budget_id b = None) (budgets db)"
  have "inj_on (\<lambda>b. (br_mandate_id b, br_dimension b)) (set ?bs)"
    using assms(1) by (simp add: db_ok_def uq_budgets_pool_def distinct_map)
  then show ?thesis using assms(2-5) by (auto simp: inj_on_def pool_row_def)
qed

lemma acquire_view:
  assumes v: "pool_view db mid bid c T R" and fresh: "fresh \<notin> lr_id ` set (leases db)"
    and run: "acquire fresh mid (dimension_value SPEND_BDT) amount pep ttl t None db = (db', res)"
  shows "pool_view db' mid bid c T R" "keeps_leases bid fresh db db'"
    "res = Inr l \<Longrightarrow> lr_id l = fresh \<and> 0 < lr_granted l \<and> lease_at db' bid fresh (lr_granted l) 0"
proof -
  obtain b where b: "b \<in> set (budgets db)" "br_id b = bid" "pool_row mid b" "br_committed b = c" "br_total b = T"
    and r: "ledger_reachable db" "rr_id ` set (reservations db) = R" using v by (auto simp: pool_view_def)
  have ok: "db_ok db" using booksD(1)[OF reachable_books[OF r(1)]] .
  have reach: "ledger_reachable db'" using ledger_reachable.step[OF r(1) ledger_step.acquire[OF run]] .
  have fields: "reservations db' = reservations db
    \<and> (\<exists>b' \<in> set (budgets db'). br_id b' = bid \<and> pool_row mid b' \<and> br_committed b' = c \<and> br_total b' = T)
    \<and> (\<forall>l \<in> set (leases db). l \<in> set (leases db'))
    \<and> (\<forall>l. res = Inr l \<longrightarrow> lr_id l = fresh \<and> 0 < lr_granted l \<and> lr_state l = ACTIVE \<and> lr_settled l = 0 \<and> lr_budget_id l = bid
         \<and> l \<in> set (leases db'))"
  proof (cases "\<exists>d g. res = Inr d")
    case False
    then have "db' = db" using run by (auto simp: acquire_def Let_def commit_tx_def split: sum.splits if_splits)
    then show ?thesis using False b by blast
  next
    case True
    then obtain l where l: "res = Inr l" by blast
    obtain d where d: "filter (\<lambda>b. br_mandate_id b = mid \<and> br_dimension b = dimension_value SPEND_BDT \<and> br_parent_budget_id b = None) (budgets db) = [d]"
      using run l by (auto simp: acquire_def scalar_one_Inr split: sum.splits)
    then have "d \<in> set (budgets db) \<and> pool_row mid d" using filter_one_mem[OF d] by (simp add: pool_row_def)
    then have "d = b" using pool_row_unique[OF ok] b(1,3) by blast
    then have upd: "l = \<lparr>lr_id = fresh, lr_budget_id = bid, lr_pep_id = pep, lr_granted = min amount (available b), lr_settled = 0,
          lr_granted_at = t, lr_expires_at = t + ttl, lr_state = ACTIVE\<rparr>" "0 < min amount (available b)"
        "db' = (update_budget bid (\<lambda>r. r\<lparr>br_leased := br_leased r + min amount (available b)\<rparr>) db)\<lparr>leases := leases db @ [l]\<rparr>"
      using run l d b(2) by (auto simp: acquire_def Let_def commit_tx_def split: if_splits)
    have "b\<lparr>br_leased := br_leased b + min amount (available b)\<rparr> \<in> set (budgets db')"
      using b(1,2) by (force simp: upd(3) update_budget_def)
    then have "\<exists>b' \<in> set (budgets db'). br_id b' = bid \<and> pool_row mid b' \<and> br_committed b' = c \<and> br_total b' = T"
      by (rule rev_bexI) (use b in \<open>simp add: pool_row_def\<close>)
    then show ?thesis using upd l by auto
  qed
  show "pool_view db' mid bid c T R" using fields reach r(2) by (simp add: pool_view_def)
  show "keeps_leases bid fresh db db'" using fields by (auto simp: keeps_leases_def lease_at_def)
  show "res = Inr l \<Longrightarrow> lr_id l = fresh \<and> 0 < lr_granted l \<and> lease_at db' bid fresh (lr_granted l) 0"
    using fields by (auto simp: lease_at_def)
qed

lemma release_view:
  assumes v: "pool_view db mid bid c T R" and la: "lease_at db bid i g s"
  shows "pool_view (fst (session_release i db)) mid bid c T R" "keeps_leases bid i db (fst (session_release i db))"
proof -
  obtain l where l: "l \<in> set (leases db)" "lr_id l = i" "lr_state l = ACTIVE" "lr_budget_id l = bid"
    using la by (auto simp: lease_at_def)
  obtain b where b: "b \<in> set (budgets db)" "br_id b = bid" "pool_row mid b" "br_committed b = c" "br_total b = T"
    and r: "ledger_reachable db" "rr_id ` set (reservations db) = R" using v by (auto simp: pool_view_def)
  let ?db = "update_lease i (\<lambda>r. r\<lparr>lr_state := RELEASED\<rparr>) (update_budget bid (\<lambda>c. c\<lparr>br_leased := br_leased c - outstanding l\<rparr>) db)"
  have run: "retire i RELEASED db = (?db, Inr True)"
    using retire_active[OF reachable_books[OF r(1)] l(1-3), of RELEASED] l(4) by simp
  then have db: "fst (session_release i db) = ?db" by (simp add: session_release_def release_def)
  have reach: "ledger_reachable ?db" using ledger_reachable.step[OF r(1) ledger_step.retire[OF run]] by simp
  have "b\<lparr>br_leased := br_leased b - outstanding l\<rparr> \<in> set (budgets ?db)"
    using b(1,2) by (force simp: update_lease_def update_budget_def)
  then have "\<exists>b' \<in> set (budgets ?db). br_id b' = bid \<and> pool_row mid b' \<and> br_committed b' = c \<and> br_total b' = T"
    by (rule rev_bexI) (use b in \<open>simp add: pool_row_def\<close>)
  then show "pool_view (fst (session_release i db)) mid bid c T R"
    using reach r(2) by (simp add: db pool_view_def)
  show "keeps_leases bid i db (fst (session_release i db))"
    by (auto simp: db keeps_leases_def lease_at_def update_lease_def update_budget_def)
qed


section \<open>The account of the held lease\<close>

definition held_id :: "lease_pool \<Rightarrow> uuid option" where
  "held_id p = map_option (\<lambda>h. ll_id (hd_lease h)) (pl_held p SPEND_BDT)"

definition pending_total :: "deployment \<Rightarrow> decimal" where
  "pending_total dp = sum_list (map pd_amount (sq_pending (dp_queue dp)))"

definition open_spend :: "deployment \<Rightarrow> decimal" where
  "open_spend dp = sum_list (map rz_amount (dp_open dp))"

text \<open>Everything open and pending is of lease \<open>i\<close>, and no reservation id is used twice.\<close>

definition owed_to :: "uuid \<Rightarrow> uuid set \<Rightarrow> deployment \<Rightarrow> bool" where
  "owed_to i R dp =
     ((\<forall>r \<in> set (dp_open dp). rz_lease_id r = i \<and> 0 < rz_amount r)
      \<and> (\<forall>x \<in> set (sq_pending (dp_queue dp)). pd_lease_id x = i \<and> 0 < pd_amount x)
      \<and> distinct (map pd_reservation_id (sq_pending (dp_queue dp)) @ map rz_id (dp_open dp))
      \<and> R \<inter> (pd_reservation_id ` set (sq_pending (dp_queue dp)) \<union> rz_id ` set (dp_open dp)) = {})"

text \<open>What was granted is settled, queued, open or left, and what was spent is committed or queued.\<close>

definition accounts :: "uuid \<Rightarrow> decimal \<Rightarrow> uuid \<Rightarrow> deployment \<Rightarrow> bool" where
  "accounts bid T i dp =
     (\<exists>g s c R. pool_view (dp_db dp) (dp_mandate_id dp) bid c T R \<and> lease_at (dp_db dp) bid i g s \<and> owed_to i R dp
        \<and> s + pending_total dp + open_spend dp + remaining SPEND_BDT (dp_pool dp) = g
        \<and> 0 \<le> remaining SPEND_BDT (dp_pool dp) \<and> dp_spent dp = c + pending_total dp)"

definition unprimed :: "uuid \<Rightarrow> decimal \<Rightarrow> deployment \<Rightarrow> bool" where
  "unprimed bid T dp =
     (sq_pending (dp_queue dp) = [] \<and> dp_open dp = [] \<and> (\<exists>R. pool_view (dp_db dp) (dp_mandate_id dp) bid (dp_spent dp) T R))"

definition deployment_inv :: "uuid \<Rightarrow> decimal \<Rightarrow> deployment \<Rightarrow> bool" where
  "deployment_inv bid T dp =
     (0 < st_batch_max (sq_settings (dp_queue dp))
      \<and> (case held_id (dp_pool dp) of None \<Rightarrow> unprimed bid T dp | Some i \<Rightarrow> accounts bid T i dp))"

lemma accountsI:
  assumes "pool_view (dp_db dp) (dp_mandate_id dp) bid c T R" "lease_at (dp_db dp) bid i g s" "owed_to i R dp"
    "s + pending_total dp + open_spend dp + remaining SPEND_BDT (dp_pool dp) = g"
    "0 \<le> remaining SPEND_BDT (dp_pool dp)" "dp_spent dp = c + pending_total dp"
  shows "accounts bid T i dp"
  using assms unfolding accounts_def by blast

lemma accountsE:
  assumes "accounts bid T i dp"
  obtains g s c R where "pool_view (dp_db dp) (dp_mandate_id dp) bid c T R" "lease_at (dp_db dp) bid i g s" "owed_to i R dp"
    "s + pending_total dp + open_spend dp + remaining SPEND_BDT (dp_pool dp) = g"
    "0 \<le> remaining SPEND_BDT (dp_pool dp)" "dp_spent dp = c + pending_total dp"
  using assms unfolding accounts_def by blast

lemma accounts_bound:
  assumes "accounts bid T i dp"
  shows "dp_spent dp + open_spend dp \<le> T"
proof -
  obtain g s c R where v: "pool_view (dp_db dp) (dp_mandate_id dp) bid c T R" "lease_at (dp_db dp) bid i g s"
    and a: "s + pending_total dp + open_spend dp + remaining SPEND_BDT (dp_pool dp) = g"
      "0 \<le> remaining SPEND_BDT (dp_pool dp)" "dp_spent dp = c + pending_total dp"
    using assms by (auto simp: accounts_def)
  then show ?thesis using view_bound(1)[OF v] by linarith
qed

lemma inv_bound:
  assumes "deployment_inv bid T dp"
  shows "dp_spent dp + open_spend dp \<le> T"
proof (cases "held_id (dp_pool dp)")
  case None
  then obtain R where v: "pool_view (dp_db dp) (dp_mandate_id dp) bid (dp_spent dp) T R" and o: "dp_open dp = []"
    using assms by (auto simp: deployment_inv_def unprimed_def)
  then obtain b where b: "b \<in> set (budgets (dp_db dp))" "br_committed b = dp_spent dp" "br_total b = T" and "books (dp_db dp)"
    using reachable_books by (auto simp: pool_view_def)
  then have "ck_budgets_invariant b" using booksD(1) by (auto simp: db_ok_def list_all_iff)
  then show ?thesis using b o by (simp add: ck_budgets_invariant_def open_spend_def)
next
  case (Some i)
  then show ?thesis using assms accounts_bound[of bid T i dp] by (simp add: deployment_inv_def)
qed

section \<open>Reservations and settlements\<close>

lemma held_id_schedule: "pl_held p SPEND_BDT = Some h \<Longrightarrow> held_id (maybe_schedule_topup loop t SPEND_BDT h p) = held_id p"
  using held_maybe_schedule[of p SPEND_BDT h loop t] by (auto simp: held_id_def)

lemma pool_reserve_Inr:
  assumes "pool_reserve fresh loop t SPEND_BDT amount p = (p', Inr r)"
  shows "held_id p' = held_id p" "held_id p = Some (rz_lease_id r)" "rz_id r = fresh" "rz_amount r = amount"
    "remaining SPEND_BDT p' = remaining SPEND_BDT p - amount" "amount \<le> remaining SPEND_BDT p"
proof -
  obtain h l where h: "pl_held p SPEND_BDT = Some h"
    and l: "reserve_local fresh (hd_lease h) amount t (ps_skew (pl_settings p)) = (l, Inr r)"
    and p': "p' = maybe_schedule_topup loop t SPEND_BDT (h\<lparr>hd_lease := l\<rparr>) (set_held SPEND_BDT (h\<lparr>hd_lease := l\<rparr>) p)"
    using assms by (auto simp: pool_reserve_def Let_def split: option.splits if_splits prod.splits sum.splits)
  note l' = reserve_local_Inr[OF l]
  have q: "pl_held (set_held SPEND_BDT (h\<lparr>hd_lease := l\<rparr>) p) SPEND_BDT = Some (h\<lparr>hd_lease := l\<rparr>)" by (simp add: set_held_def)
  have "held_id p' = held_id (set_held SPEND_BDT (h\<lparr>hd_lease := l\<rparr>) p)" unfolding p' by (rule held_id_schedule[OF q])
  then show "held_id p' = held_id p" using l'(5) h by (simp add: held_id_def set_held_def)
  show "held_id p = Some (rz_lease_id r)" "rz_id r = fresh" "rz_amount r = amount" "amount \<le> remaining SPEND_BDT p"
    using l'(4,6) h by (simp_all add: held_id_def remaining_def)
  show "remaining SPEND_BDT p' = remaining SPEND_BDT p - amount"
    using reserve_result[OF assms] l'(6) by simp
qed

lemma pool_reserve_Inl:
  "pool_reserve fresh loop t d amount p = (p', Inl e) \<Longrightarrow> p' = p"
  by (auto simp: pool_reserve_def Let_def split: option.splits if_splits prod.splits sum.splits)

lemma inv_reserve:
  assumes inv: "deployment_inv bid T dp" and run: "reserve_spend fresh t amount dp = (dp', y)" and pos: "0 < amount"
    and fresh: "fresh \<notin> rr_id ` set (reservations (dp_db dp)) \<union> pd_reservation_id ` set (sq_pending (dp_queue dp)) \<union> rz_id ` set (dp_open dp)"
  shows "deployment_inv bid T dp'"
proof -
  obtain p z where r: "pool_reserve fresh True t SPEND_BDT amount (dp_pool dp) = (p, z)" by fastforce
  show ?thesis
  proof (cases z)
    case (Inl e)
    then show ?thesis using run r inv pool_reserve_Inl[OF r[unfolded Inl]] by (simp add: reserve_spend_def)
  next
    case (Inr rz)
    note pr = pool_reserve_Inr[OF r[unfolded Inr]]
    have dp': "dp' = dp\<lparr>dp_pool := p, dp_open := dp_open dp @ [rz]\<rparr>" using run r Inr by (simp add: reserve_spend_def)
    have a: "accounts bid T (rz_lease_id rz) dp" using inv pr(2) by (simp add: deployment_inv_def)
    then obtain g s c R where v: "pool_view (dp_db dp) (dp_mandate_id dp) bid c T R" "lease_at (dp_db dp) bid (rz_lease_id rz) g s"
      and o: "owed_to (rz_lease_id rz) R dp"
      and e: "s + pending_total dp + open_spend dp + remaining SPEND_BDT (dp_pool dp) = g"
      "0 \<le> remaining SPEND_BDT (dp_pool dp)" "dp_spent dp = c + pending_total dp" by (rule accountsE)
    have "R = rr_id ` set (reservations (dp_db dp))" using v(1) by (simp add: pool_view_def)
    then have o': "owed_to (rz_lease_id rz) R dp'" using o pr(3,4) pos fresh by (auto simp: owed_to_def dp')
    have e': "s + pending_total dp' + open_spend dp' + remaining SPEND_BDT (dp_pool dp') = g"
      "0 \<le> remaining SPEND_BDT (dp_pool dp')" "dp_spent dp' = c + pending_total dp'"
      using e pr(4-6) by (simp_all add: dp' pending_total_def open_spend_def)
    have "accounts bid T (rz_lease_id rz) dp'" by (rule accountsI[OF _ _ o' e']) (use v in \<open>simp_all add: dp'\<close>)
    then show ?thesis using inv pr(1,2) by (simp add: deployment_inv_def dp')
  qed
qed

lemma pool_commit_Inr:
  assumes "pool_commit t SPEND_BDT r actual p = (p', y)" "actual \<le> rz_amount r" "held_id p = Some i"
  shows "\<exists>out. y = Inr out \<and> co_reservation_id out = rz_id r \<and> co_lease_id out = i \<and> co_amount out = actual"
    "held_id p' = Some i" "remaining SPEND_BDT p' = remaining SPEND_BDT p + (rz_amount r - actual)"
proof -
  obtain h where h: "pl_held p SPEND_BDT = Some h" "ll_id (hd_lease h) = i" using assms(3) by (auto simp: held_id_def)
  then have "(\<exists>out. y = Inr out \<and> co_reservation_id out = rz_id r \<and> co_lease_id out = i \<and> co_amount out = actual)
    \<and> held_id p' = Some i \<and> remaining SPEND_BDT p' = remaining SPEND_BDT p + (rz_amount r - actual)"
    using assms(1,2)
    by (auto simp: pool_commit_def commit_local_def held_id_def set_held_def remaining_def Let_def split: if_splits)
  then show "\<exists>out. y = Inr out \<and> co_reservation_id out = rz_id r \<and> co_lease_id out = i \<and> co_amount out = actual"
    "held_id p' = Some i" "remaining SPEND_BDT p' = remaining SPEND_BDT p + (rz_amount r - actual)" by blast+
qed

lemma sum_remove1: "r \<in> set xs \<Longrightarrow> sum_list (map rz_amount (remove1 r xs)) = sum_list (map rz_amount xs) - rz_amount r"
  by (induction xs) auto

lemma inv_settle:
  assumes inv: "deployment_inv bid T dp" and r: "r \<in> set (dp_open dp)" and actual: "0 < actual" "actual \<le> rz_amount r"
    and room: "queue_accepts (dp_queue dp)"
  shows "deployment_inv bid T (settle_spend t t' r actual dp)"
proof -
  obtain i where i: "held_id (dp_pool dp) = Some i"
    using inv r by (cases "held_id (dp_pool dp)") (simp_all add: deployment_inv_def unprimed_def)
  then have a: "accounts bid T i dp" using inv by (simp add: deployment_inv_def)
  obtain p y where c: "pool_commit t SPEND_BDT r actual (dp_pool dp) = (p, y)" by fastforce
  note pc = pool_commit_Inr[OF c actual(2) i]
  obtain out where out: "y = Inr out" "co_reservation_id out = rz_id r" "co_lease_id out = i" "co_amount out = actual"
    using pc(1) by blast
  let ?dp = "settle_spend t t' r actual dp"
  let ?x = "\<lparr>pd_lease_id = i, pd_reservation_id = rz_id r, pd_amount = actual, pd_now = t'\<rparr>"
  have dp: "?dp = dp\<lparr>dp_pool := p, dp_queue := (dp_queue dp)\<lparr>sq_pending := sq_pending (dp_queue dp) @ [?x]\<rparr>,
      dp_open := remove1 r (dp_open dp), dp_spent := dp_spent dp + actual\<rparr>"
    using c out room by (simp add: settle_spend_def enqueue_def queue_accepts_def)
  obtain g s c R where v: "pool_view (dp_db dp) (dp_mandate_id dp) bid c T R" "lease_at (dp_db dp) bid i g s"
    and o: "owed_to i R dp"
    and e: "s + pending_total dp + open_spend dp + remaining SPEND_BDT (dp_pool dp) = g"
      "0 \<le> remaining SPEND_BDT (dp_pool dp)" "dp_spent dp = c + pending_total dp" using a by (rule accountsE)
  obtain before after where split: "dp_open dp = before @ r # after" "remove1 r (dp_open dp) = before @ after"
    using r by (metis remove1_split)
  have "owed_to i R (dp\<lparr>dp_pool := p, dp_queue := (dp_queue dp)\<lparr>sq_pending := sq_pending (dp_queue dp) @ [?x]\<rparr>,
      dp_open := before @ after, dp_spent := dp_spent dp + actual\<rparr>)"
    using o actual(1) by (auto simp: owed_to_def split(1))
  then have o': "owed_to i R ?dp" using split(2) by (simp add: dp)
  have e': "s + pending_total ?dp + open_spend ?dp + remaining SPEND_BDT (dp_pool ?dp) = g"
    "0 \<le> remaining SPEND_BDT (dp_pool ?dp)" "dp_spent ?dp = c + pending_total ?dp"
    using e pc(3) actual(2) sum_remove1[OF r] by (simp_all add: dp pending_total_def open_spend_def)
  have "accounts bid T i ?dp" by (rule accountsI[OF _ _ o' e']) (use v in \<open>simp_all add: dp\<close>)
  then show ?thesis using inv pc(2) by (simp add: deployment_inv_def dp)
qed

section \<open>Draining and topping up\<close>

lemma lease_at_known: "lease_at db bid i g s \<Longrightarrow> i \<in> lr_id ` set (leases db)"
  by (auto simp: lease_at_def)

text \<open>The head of the queue settled against a ledger that answers.\<close>

lemma accounts_flushed:
  assumes a: "accounts bid T i dp" and q: "sq_pending q = drop k (sq_pending (dp_queue dp))"
    and w: "ss_db w = fold settle_one (take k (sq_pending (dp_queue dp))) (dp_db dp)"
  shows "accounts bid T i (dp\<lparr>dp_queue := q, dp_sink := w\<rparr>)"
proof -
  obtain g s c R where v: "pool_view (dp_db dp) (dp_mandate_id dp) bid c T R" "lease_at (dp_db dp) bid i g s"
    and o: "owed_to i R dp"
    and e: "s + pending_total dp + open_spend dp + remaining SPEND_BDT (dp_pool dp) = g"
      "0 \<le> remaining SPEND_BDT (dp_pool dp)" "dp_spent dp = c + pending_total dp" using a by (rule accountsE)
  obtain xs ys where xy: "take k (sq_pending (dp_queue dp)) = xs" "sq_pending q = ys" "sq_pending (dp_queue dp) = xs @ ys"
    using q by (metis append_take_drop_id)
  note o2 = o[unfolded owed_to_def xy(3)]
  have total: "pending_total dp = sum_list (map pd_amount xs) + sum_list (map pd_amount ys)" by (simp add: pending_total_def xy(3))
  have "0 \<le> sum_list (map pd_amount ys)" using o2 by (intro sum_list_nonneg) (auto intro: less_imp_le)
  moreover have "0 \<le> open_spend dp" using o2 unfolding open_spend_def by (intro sum_list_nonneg) (auto intro: less_imp_le)
  ultimately have room: "sum_list (map pd_amount xs) \<le> g - s" using e(1,2) total by linarith
  have vs: "pool_view (ss_db w) (dp_mandate_id dp) bid (c + sum_list (map pd_amount xs)) T (R \<union> pd_reservation_id ` set xs)
    \<and> lease_at (ss_db w) bid i g (s + sum_list (map pd_amount xs)) \<and> keeps_leases bid i (dp_db dp) (ss_db w)"
    unfolding w xy(1) by (rule view_settles[OF v]) (use o2 room in auto)
  have e': "s + sum_list (map pd_amount xs) + pending_total (dp\<lparr>dp_queue := q, dp_sink := w\<rparr>) + open_spend (dp\<lparr>dp_queue := q, dp_sink := w\<rparr>)
      + remaining SPEND_BDT (dp_pool (dp\<lparr>dp_queue := q, dp_sink := w\<rparr>)) = g"
    "0 \<le> remaining SPEND_BDT (dp_pool (dp\<lparr>dp_queue := q, dp_sink := w\<rparr>))"
    "dp_spent (dp\<lparr>dp_queue := q, dp_sink := w\<rparr>) = c + sum_list (map pd_amount xs) + pending_total (dp\<lparr>dp_queue := q, dp_sink := w\<rparr>)"
    using e total by (simp_all add: pending_total_def open_spend_def xy(2))
  have o': "owed_to i (R \<union> pd_reservation_id ` set xs) (dp\<lparr>dp_queue := q, dp_sink := w\<rparr>)"
    using o2 by (auto simp: owed_to_def xy(2))
  show ?thesis by (rule accountsI[OF _ _ o' e']) (use vs in simp_all)
qed

lemma accounts_items:
  assumes "accounts bid T i dp"
  shows "ledger_reachable (dp_db dp)"
    "\<forall>x \<in> set (sq_pending (dp_queue dp)). 0 < pd_amount x \<and> pd_lease_id x \<in> lr_id ` set (leases (dp_db dp))"
  using assms by (auto simp: owed_to_def pool_view_def dest: lease_at_known elim!: accountsE)

lemma sink_down:
  "batch \<noteq> [] \<Longrightarrow> ledger_sink False w batch = (w, None)"
  by (cases batch) (simp_all add: ledger_sink_def)

lemma flush_down:
  assumes "flush (ledger_sink False) (q, w) = (q', w')"
  shows "sq_pending q' = sq_pending q" "sq_settings q' = sq_settings q" "w' = w"
  using assms by (auto simp: flush_def sink_down Let_def split: if_splits)

lemma flush_empty: "sq_pending q = [] \<Longrightarrow> flush sink (q, w) = (q, w)"
  by (simp add: flush_def next_batch_def)

lemma inv_flush:
  assumes inv: "deployment_inv bid T dp"
  shows "deployment_inv bid T (flush_queue up dp)"
proof -
  obtain q w where f: "flush (ledger_sink up) (dp_queue dp, dp_sink dp) = (q, w)" by fastforce
  have dp: "flush_queue up dp = dp\<lparr>dp_queue := q, dp_sink := w\<rparr>" using f by (simp add: flush_queue_def)
  show ?thesis
  proof (cases "sq_pending (dp_queue dp) = []")
    case True
    then have "q = dp_queue dp \<and> w = dp_sink dp" using f flush_empty[OF True, of "ledger_sink up" "dp_sink dp"] by auto
    then show ?thesis using inv by (simp add: dp)
  next
    case False
    then obtain i where i: "held_id (dp_pool dp) = Some i" using inv
      by (cases "held_id (dp_pool dp)") (simp_all add: deployment_inv_def unprimed_def)
    then have a: "accounts bid T i dp" and max: "0 < st_batch_max (sq_settings (dp_queue dp))"
      using inv by (simp_all add: deployment_inv_def)
    have "\<exists>k. sq_pending q = drop k (sq_pending (dp_queue dp)) \<and> ss_db w = fold settle_one (take k (sq_pending (dp_queue dp))) (dp_db dp)
      \<and> sq_settings q = sq_settings (dp_queue dp)"
    proof (cases up)
      case True
      obtain k q' w' where "flush (ledger_sink True) (dp_queue dp, dp_sink dp) = (q', w')" "sq_settings q' = sq_settings (dp_queue dp)"
        "sq_pending q' = drop (Suc k) (sq_pending (dp_queue dp))"
        "ss_db w' = fold settle_one (take (Suc k) (sq_pending (dp_queue dp))) (dp_db dp)"
        by (rule flush_settles[OF accounts_items(1)[OF a] max accounts_items(2)[OF a] False])
      then show ?thesis using f True by auto
    next
      case False
      then show ?thesis using f flush_down[of "dp_queue dp" "dp_sink dp" q w] by (intro exI[of _ 0]) simp
    qed
    then show ?thesis using accounts_flushed[OF a] inv i by (auto simp: deployment_inv_def dp)
  qed
qed

lemma drain_settings: "sq_settings (fst (drain sink (q, w))) = sq_settings q"
proof (induction "length (sq_pending q)" arbitrary: q w rule: less_induct)
  case less
  have "sq_settings (fst (flush sink (q, w))) = sq_settings q"
    by (auto simp: flush_def Let_def split: prod.splits option.splits)
  then show ?case using less by (cases "flush sink (q, w)") (simp add: Let_def)
qed

lemma held_id_acquire:
  "pool_acquire SPEND_BDT (Some g) p = (p', old, got) \<Longrightarrow>
     held_id p' = Some (lg_id g) \<and> remaining SPEND_BDT p' = lg_granted g \<and> old = held_id p"
  "pool_acquire SPEND_BDT None p = (p', old, got) \<Longrightarrow>
     held_id p' = held_id p \<and> remaining SPEND_BDT p' = remaining SPEND_BDT p \<and> old = None"
  by (auto simp: pool_acquire_def held_id_def set_held_def new_lease_def remaining_def split: option.splits)

text \<open>A top-up with no reservation open: the old lease is paid off and released, the new one is whole.\<close>

lemma inv_topup:
  assumes inv: "deployment_inv bid T dp" and fresh: "fresh \<notin> lr_id ` set (leases (dp_db dp))" and none: "dp_open dp = []"
  shows "deployment_inv bid T (pool_topup True fresh t dp)"
proof -
  let ?s = "pl_settings (dp_pool dp)" and ?mid = "dp_mandate_id dp"
  obtain db res where run: "acquire fresh ?mid (dimension_value SPEND_BDT) (ps_lease_size ?s) (ps_pep_id ?s) (ps_ttl ?s) t None (dp_db dp) = (db, res)"
    by fastforce
  have max: "0 < st_batch_max (sq_settings (dp_queue dp))" using inv by (simp add: deployment_inv_def)
  have same: "deployment_inv bid T (dp\<lparr>dp_pool := p, dp_sink := (dp_sink dp)\<lparr>ss_db := db\<rparr>\<rparr>)"
    if p: "held_id p = held_id (dp_pool dp)" "remaining SPEND_BDT p = remaining SPEND_BDT (dp_pool dp)" for p
  proof (cases "held_id (dp_pool dp)")
    case None
    then obtain R where "pool_view (dp_db dp) ?mid bid (dp_spent dp) T R" using inv by (auto simp: deployment_inv_def unprimed_def)
    from acquire_view(1)[OF this fresh run] show ?thesis
      using inv None p by (auto simp: deployment_inv_def unprimed_def)
  next
    case (Some i)
    then have "accounts bid T i dp" using inv by (simp add: deployment_inv_def)
    then obtain g s c R where v: "pool_view (dp_db dp) ?mid bid c T R" "lease_at (dp_db dp) bid i g s" "owed_to i R dp"
      and e: "s + pending_total dp + open_spend dp + remaining SPEND_BDT (dp_pool dp) = g"
      "0 \<le> remaining SPEND_BDT (dp_pool dp)" "dp_spent dp = c + pending_total dp" by (rule accountsE)
    have "i \<noteq> fresh" using lease_at_known[OF v(2)] fresh by blast
    then have la: "lease_at db bid i g s" using acquire_view(2)[OF v(1) fresh run] v(2) by (auto simp: keeps_leases_def)
    have "accounts bid T i (dp\<lparr>dp_pool := p, dp_sink := (dp_sink dp)\<lparr>ss_db := db\<rparr>\<rparr>)"
      by (rule accountsI[where s = s and g = g and c = c and R = R])
         (use acquire_view(1)[OF v(1) fresh run] la v(3) e p in \<open>simp_all add: owed_to_def pending_total_def open_spend_def\<close>)
    then show ?thesis using inv Some p by (simp add: deployment_inv_def)
  qed
  consider (err) e where "res = Inl e" "e \<noteq> LeaseUnavailableError" | (empty) "res = Inl LeaseUnavailableError" | (got) l where "res = Inr l"
    by (cases res) auto
  then show ?thesis
  proof cases
    case err
    then have "pool_topup True fresh t dp = dp\<lparr>dp_sink := (dp_sink dp)\<lparr>ss_db := db\<rparr>\<rparr>"
      using run by (cases e) (simp_all add: pool_topup_def session_acquire_def Let_def)
    then show ?thesis using same[of "dp_pool dp"] by simp
  next
    case empty
    obtain p old ans where pa: "pool_acquire SPEND_BDT None (dp_pool dp) = (p, old, ans)" by (metis prod_cases3)
    then have "pool_topup True fresh t dp = dp\<lparr>dp_pool := p, dp_sink := (dp_sink dp)\<lparr>ss_db := db\<rparr>\<rparr>"
      using run empty held_id_acquire(2)[OF pa] by (simp add: pool_topup_def session_acquire_def Let_def)
    then show ?thesis using same[of p] held_id_acquire(2)[OF pa] by simp
  next
    case got
    let ?g = "\<lparr>lg_id = lr_id l, lg_granted = lr_granted l, lg_expires_at = lr_expires_at l\<rparr>"
    obtain p old ans where pa: "pool_acquire SPEND_BDT (Some ?g) (dp_pool dp) = (p, old, ans)" by (metis prod_cases3)
    note h = held_id_acquire(1)[OF pa]
    let ?dp = "dp\<lparr>dp_pool := p, dp_sink := (dp_sink dp)\<lparr>ss_db := db\<rparr>\<rparr>"
    have new: "lr_id l = fresh \<and> 0 < lr_granted l \<and> lease_at db bid fresh (lr_granted l) 0"
      if "pool_view (dp_db dp) ?mid bid c T R" for c R using acquire_view(3)[OF that fresh run] got by simp
    show ?thesis
    proof (cases "held_id (dp_pool dp)")
      case None
      then obtain R where u: "pool_view (dp_db dp) ?mid bid (dp_spent dp) T R" "sq_pending (dp_queue dp) = []"
        using inv by (auto simp: deployment_inv_def unprimed_def)
      note n = new[OF u(1)]
      have td: "pool_topup True fresh t dp = ?dp"
        using run got pa h n None by (simp add: pool_topup_def session_acquire_def Let_def)
      have "accounts bid T fresh ?dp"
        by (rule accountsI[where s = 0 and g = "lr_granted l"]) (use acquire_view(1)[OF u(1) fresh run] n u(2) none h in \<open>simp_all add: owed_to_def pending_total_def open_spend_def\<close>)
      then show ?thesis using h n max by (simp add: td deployment_inv_def)
    next
      case (Some i)
      then have a: "accounts bid T i dp" using inv by (simp add: deployment_inv_def)
      then obtain g s c R where v: "pool_view (dp_db dp) ?mid bid c T R" "lease_at (dp_db dp) bid i g s" "owed_to i R dp"
        and e: "s + pending_total dp + open_spend dp + remaining SPEND_BDT (dp_pool dp) = g"
        "0 \<le> remaining SPEND_BDT (dp_pool dp)" "dp_spent dp = c + pending_total dp" by (rule accountsE)
      note n = new[OF v(1)]
      have ne: "i \<noteq> fresh" using lease_at_known[OF v(2)] fresh by blast
      have pv: "pool_view db ?mid bid c T R" and la: "lease_at db bid i g s"
        using acquire_view(1,2)[OF v(1) fresh run] v(2) ne by (auto simp: keeps_leases_def)
      let ?w = "(dp_sink dp)\<lparr>ss_db := db\<rparr>" and ?xs = "sq_pending (dp_queue dp)"
      have items: "\<forall>x \<in> set ?xs. 0 < pd_amount x \<and> pd_lease_id x \<in> lr_id ` set (leases (ss_db ?w))"
        using v(3) lease_at_known[OF la] by (auto simp: owed_to_def)
      have "ledger_reachable (ss_db ?w)" using pv by (simp add: pool_view_def)
      then obtain q w where d: "drain (ledger_sink True) (dp_queue dp, ?w) = (q, w)" "sq_pending q = []"
        "ss_db w = fold settle_one ?xs db" using drain_settles[OF _ max items] by auto
      have room: "sum_list (map pd_amount ?xs) \<le> g - s" using e(1,2) none by (simp add: pending_total_def open_spend_def)
      have vs: "pool_view (ss_db w) ?mid bid (c + sum_list (map pd_amount ?xs)) T (R \<union> pd_reservation_id ` set ?xs)
        \<and> lease_at (ss_db w) bid i g (s + sum_list (map pd_amount ?xs)) \<and> keeps_leases bid i db (ss_db w)"
        unfolding d(3) by (rule view_settles[OF pv la]) (use v(3) room in \<open>auto simp: owed_to_def\<close>)
      let ?db = "fst (session_release i (ss_db w))"
      have "lease_at (ss_db w) bid fresh (lr_granted l) 0" using vs n ne by (auto simp: keeps_leases_def)
      then have r: "pool_view ?db ?mid bid (c + sum_list (map pd_amount ?xs)) T (R \<union> pd_reservation_id ` set ?xs)"
        "lease_at ?db bid fresh (lr_granted l) 0"
        using release_view[OF conjunct1[OF vs] conjunct1[OF conjunct2[OF vs]]] ne by (auto simp: keeps_leases_def)
      have td: "pool_topup True fresh t dp = ?dp\<lparr>dp_queue := q, dp_sink := w\<lparr>ss_db := ?db\<rparr>\<rparr>"
        using run got pa h n Some d(1) by (simp add: pool_topup_def session_acquire_def pool_release_def Let_def)
      have "accounts bid T fresh (?dp\<lparr>dp_queue := q, dp_sink := w\<lparr>ss_db := ?db\<rparr>\<rparr>)"
        by (rule accountsI[where s = 0 and g = "lr_granted l"])
           (use r n d(2) none h e(3) in \<open>simp_all add: owed_to_def pending_total_def open_spend_def\<close>)
      moreover have "sq_settings q = sq_settings (dp_queue dp)" using drain_settings[of "ledger_sink True" "dp_queue dp" ?w] d(1) by simp
      ultimately show ?thesis using h n max by (simp add: td deployment_inv_def)
    qed
  qed
qed

section \<open>Properties\<close>

abbreviation deployment_run :: "bool \<Rightarrow> deployment \<Rightarrow> deployment \<Rightarrow> bool" where
  "deployment_run quiet \<equiv> (deployment_step quiet)\<^sup>*\<^sup>*"

lemma step_inv: "deployment_step True dp dp' \<Longrightarrow> deployment_inv bid T dp \<Longrightarrow> deployment_inv bid T dp'"
  by (cases rule: deployment_step.cases) (auto intro: inv_reserve inv_settle inv_flush inv_topup)

lemma fresh_inv:
  assumes "fresh_deployment dp" "b \<in> set (budgets (dp_db dp))" "pool_row (dp_mandate_id dp) b"
  shows "deployment_inv (br_id b) (br_total b) dp"
proof -
  have reach: "ledger_reachable (dp_db dp)" using assms(1) by (auto simp: fresh_deployment_def intro: ledger_reachable.init)
  have "br_committed b = 0"
    using booksD(2)[OF reachable_books[OF reach] assms(2)] assms(1)
    by (simp add: budget_balanced_def res_total_def fresh_deployment_def ledger_init_def)
  then show ?thesis using assms reach
    by (auto simp: deployment_inv_def fresh_deployment_def held_id_def unprimed_def pool_view_def)
qed

text \<open>
  C6: A deployment whose leases are replaced only between calls never spends more than its budget.
  From a fresh ledger, through any number of reservations, settlements for any part of what was
  reserved, flushes with the database up or down and top-ups with nothing in flight, what the
  tools have charged and what is reserved stay within the total of the mandate's row.
\<close>
theorem quiet_deployment_within_budget:
  assumes run: "deployment_run True dp dp'" and fresh: "fresh_deployment dp"
    and b: "b \<in> set (budgets (dp_db dp))" "pool_row (dp_mandate_id dp) b"
  shows "dp_spent dp' + open_spend dp' \<le> br_total b"
proof -
  have "deployment_inv (br_id b) (br_total b) dp'" using run
    by (induction rule: rtranclp_induct) (use fresh_inv[OF fresh b] step_inv in auto)
  then show ?thesis by (rule inv_bound)
qed

definition demo_deployment :: deployment where
  "demo_deployment =
     \<lparr>dp_mandate_id = 11,
      dp_pool = new_pool \<lparr>ps_pep_id = ''pep'', ps_lease_size = 50, ps_ttl = seconds 60, ps_skew = seconds 5, ps_low_water = 1 / 4\<rparr>,
      dp_queue = new_queue \<lparr>st_capacity = 100, st_flush_interval = 1, st_batch_max = 10, st_retry_pause = 1\<rparr>,
      dp_sink = \<lparr>ss_db = demo_ledger, ss_rejected_leases = 0\<rparr>, dp_open = [], dp_spent = 0\<rparr>"

definition demo_primed :: deployment where "demo_primed = pool_topup True 5 (seconds 1) demo_deployment"
definition demo_call :: deployment where "demo_call = fst (reserve_spend 101 (seconds 2) 50 demo_primed)"
definition demo_swapped :: deployment where "demo_swapped = pool_topup True 6 (seconds 3) demo_call"
definition demo_charged :: deployment where
  "demo_charged = settle_spend (seconds 4) (seconds 4) (hd (dp_open demo_swapped)) 50 demo_swapped"
definition demo_call2 :: deployment where "demo_call2 = fst (reserve_spend 102 (seconds 5) 50 demo_charged)"
definition demo_charged2 :: deployment where
  "demo_charged2 = settle_spend (seconds 6) (seconds 6) (hd (dp_open demo_call2)) 50 demo_call2"
definition demo_swapped2 :: deployment where "demo_swapped2 = pool_topup True 7 (seconds 7) demo_charged2"
definition demo_call3 :: deployment where "demo_call3 = fst (reserve_spend 103 (seconds 8) 50 demo_swapped2)"
definition demo_charged3 :: deployment where
  "demo_charged3 = settle_spend (seconds 9) (seconds 9) (hd (dp_open demo_call3)) 50 demo_call3"
definition demo_flushed :: deployment where "demo_flushed = flush_queue True demo_charged3"

lemma demo_steps:
  "deployment_step q demo_deployment demo_primed" "deployment_step q demo_primed demo_call"
  "deployment_step False demo_call demo_swapped" "deployment_step False demo_swapped demo_charged"
  "deployment_step False demo_charged demo_call2" "deployment_step False demo_call2 demo_charged2"
  "deployment_step False demo_charged2 demo_swapped2" "deployment_step False demo_swapped2 demo_call3"
  "deployment_step False demo_call3 demo_charged3" "deployment_step False demo_charged3 demo_flushed"
proof -
  show "deployment_step q demo_deployment demo_primed" unfolding demo_primed_def by (rule topup) code_simp+
  show "deployment_step q demo_primed demo_call" unfolding demo_call_def by (rule reserve[OF prod.collapse[symmetric]]) code_simp+
  show "deployment_step False demo_call demo_swapped" unfolding demo_swapped_def by (rule topup) code_simp+
  show "deployment_step False demo_swapped demo_charged" unfolding demo_charged_def by (rule settled) code_simp+
  show "deployment_step False demo_charged demo_call2" unfolding demo_call2_def by (rule reserve[OF prod.collapse[symmetric]]) code_simp+
  show "deployment_step False demo_call2 demo_charged2" unfolding demo_charged2_def by (rule settled) code_simp+
  show "deployment_step False demo_charged2 demo_swapped2" unfolding demo_swapped2_def by (rule topup) code_simp+
  show "deployment_step False demo_swapped2 demo_call3" unfolding demo_call3_def by (rule reserve[OF prod.collapse[symmetric]]) code_simp+
  show "deployment_step False demo_call3 demo_charged3" unfolding demo_charged3_def by (rule settled) code_simp+
  show "deployment_step False demo_charged3 demo_flushed" unfolding demo_flushed_def by (rule flushed)
qed

text \<open>
  A top-up while a call is in flight lets a deployment spend past its budget.  Over a budget of
  100 in leases of 50 there is a run of three calls, each charging what it reserved, that spends
  150: the lease of the first is released with its reservation still open and goes back to the
  pool, and its settlement is charged to the next lease, whose own call is then clamped away.
  The ledger ends with 100 committed, and the invariant checker reports nothing.
\<close>
theorem topup_in_flight_overspends:
  "\<exists>dp b. fresh_deployment demo_deployment \<and> deployment_run False demo_deployment dp
     \<and> budgets (dp_db dp) = [b] \<and> br_total b = 100 \<and> br_committed b = 100
     \<and> dp_spent dp = 150 \<and> exit_code (check_in_session (dp_db dp)) = 0"
proof -
  have "deployment_run False demo_deployment demo_flushed"
    by (meson demo_steps rtranclp.rtrancl_refl rtranclp.rtrancl_into_rtrancl)
  moreover have "fresh_deployment demo_deployment" unfolding fresh_deployment_def
    by (intro conjI ext) (simp_all add: demo_deployment_def new_pool_def new_queue_def, code_simp)
  moreover have "dp_spent demo_flushed = 150" "exit_code (check_in_session (dp_db demo_flushed)) = 0"
    "length (budgets (dp_db demo_flushed)) = 1" "br_total (hd (budgets (dp_db demo_flushed))) = 100"
    "br_committed (hd (budgets (dp_db demo_flushed))) = 100" by code_simp+
  ultimately show ?thesis by (intro exI[of _ demo_flushed] exI[of _ "hd (budgets (dp_db demo_flushed))"])
    (auto simp: length_Suc_conv)
qed

theorem quiet_deployment_within_budget_witness:
  "deployment_run True demo_deployment demo_call \<and> dp_spent demo_call + open_spend demo_call \<le> 100 \<and> open_spend demo_call = 50"
proof -
  have run: "deployment_run True demo_deployment demo_call"
    by (meson demo_steps(1,2) rtranclp.rtrancl_refl rtranclp.rtrancl_into_rtrancl)
  have fresh: "fresh_deployment demo_deployment" unfolding fresh_deployment_def
    by (intro conjI ext) (simp_all add: demo_deployment_def new_pool_def new_queue_def, code_simp)
  have b: "demo_pool \<in> set (budgets (dp_db demo_deployment))" "pool_row (dp_mandate_id demo_deployment) demo_pool" "br_total demo_pool = 100"
    by (simp_all add: demo_deployment_def demo_ledger_def demo_pool_def pool_row_def)
  have "open_spend demo_call = 50" by code_simp
  then show ?thesis using run quiet_deployment_within_budget[OF run fresh b(1,2)] b(3) by simp
qed

end
