(* ===== verification/BlockReader.thy ===== *)
theory BlockReader
  imports PyText Attenuation
begin

text \<open>
  \<open>agentiam_core/datalog.py\<close>: reading the rendered source of a token's blocks back into caveats
  and identities, and the texts \<open>agentiam_core/caveats.py\<close> prints, which it recognizes.

  \<open>Biscuit.block_source\<close> is a parameter; what the code relies on is the locale
  \<open>block_printer\<close>, the documented rendering: the facts of a block, then its checks, in order, each
  as it was written and ended by a semicolon, with strings printed as they are.  A regular
  expression is a function that consumes the text from the left; every pattern is anchored and
  each of its parts is followed by a character it cannot match, so there is one way to match.
  Constructing a caveat validates it, so reading a block may raise.
\<close>

section \<open>What the compiler prints\<close>

fun join_text :: "string \<Rightarrow> string list \<Rightarrow> string" where
  "join_text sep [] = []"
| "join_text sep [x] = x"
| "join_text sep (x # xs) = x @ sep @ join_text sep xs"

definition set_literal :: "string set \<Rightarrow> string" where
  "set_literal S = ''['' @ join_text '', '' (map quote_string (sorted_list_of_set S)) @ '']''"

fun cmp_text :: "dl_cmp \<Rightarrow> string" where
  "cmp_text CLe = ''<=''"
| "cmp_text CLt = ''<''"
| "cmp_text CGe = ''>=''"
| "cmp_text CGt = ''>''"
| "cmp_text CEq = ''==''"
| "cmp_text CNe = ''!=''"

fun term_text :: "dl_term \<Rightarrow> string" where
  "term_text (TStr s) = quote_string s"
| "term_text (TInt i) = int_str i"
| "term_text (TDate n) = utc_text (n * 1000000)"
| "term_text (TSet S) = set_literal S"

text \<open>The variable of a clause depends on its predicate alone.\<close>

definition var_text :: "string \<Rightarrow> string" where
  "var_text p =
     (if p = ''operation'' then ''$op'' else if p = ''time'' \<or> p = ''tool'' then ''$t''
      else if p = ''current_depth'' then ''$d'' else if p = ''request_intent'' then ''$h'' else ''$v'')"

fun guard_text :: "string \<Rightarrow> dl_guard \<Rightarrow> string" where
  "guard_text v (GContains S) = set_literal S @ ''.contains('' @ v @ '')''"
| "guard_text v (GNotContains S) = ''!'' @ set_literal S @ ''.contains('' @ v @ '')''"
| "guard_text v (GCmp c t) = v @ '' '' @ cmp_text c @ '' '' @ term_text t"

fun stmt_text :: "dl_stmt \<Rightarrow> string" where
  "stmt_text (Fact p ts) = p @ ''('' @ join_text '', '' (map term_text ts) @ '')''"
| "stmt_text (CheckIf p ts g) =
     ''check if '' @ p @ ''('' @ join_text '', '' (map term_text ts @ [var_text p]) @ ''), '' @ guard_text (var_text p) g"
| "stmt_text (CheckJoin p q) =
     ''check if '' @ p @ ''('' @ var_text p @ ''), '' @ q @ ''('' @ var_text p @ '')''"
| "stmt_text (RejectIf p ts g) =
     ''reject if '' @ p @ ''('' @ join_text '', '' (map term_text ts @ [var_text p]) @ ''), '' @ guard_text (var_text p) g"

section \<open>Statements\<close>

definition MAX_STATEMENTS_PER_BLOCK :: nat where "MAX_STATEMENTS_PER_BLOCK = 512"
definition MAX_STATEMENT_LENGTH :: nat where "MAX_STATEMENT_LENGTH = 4096"

text \<open>
  \<open>_statements\<close>: the pieces of a segment outside a literal.  \<open>Inl\<close> is the early return once the
  cap is reached, \<open>Inr\<close> the text of the statement under way and those completed.
\<close>

fun push_pieces :: "string \<Rightarrow> string list \<Rightarrow> string list \<Rightarrow> string list + (string \<times> string list)" where
  "push_pieces current [] acc = Inr (current, acc)"
| "push_pieces current (piece # pieces) acc =
     (let acc' = acc @ [strip current] in
      if length acc' \<ge> MAX_STATEMENTS_PER_BLOCK then Inl acc' else push_pieces piece pieces acc')"

fun scan_segments :: "bool \<Rightarrow> string \<Rightarrow> string list \<Rightarrow> string list \<Rightarrow> string list" where
  "scan_segments inside current acc [] = (if strip current = [] then acc else acc @ [strip current])"
| "scan_segments inside current acc (segment # segments) =
     (if inside
      then scan_segments False (current @ [quote_char] @ segment @ (if segments = [] then [] else [quote_char])) acc segments
      else (case split_on CHR '';'' segment of
              [] \<Rightarrow> scan_segments True current acc segments
            | head # pieces \<Rightarrow>
                (case push_pieces (current @ head) pieces acc of
                   Inl done_early \<Rightarrow> done_early
                 | Inr (current', acc') \<Rightarrow> scan_segments True current' acc' segments)))"

definition statements :: "string \<Rightarrow> string list" where
  "statements src = filter (\<lambda>s. s \<noteq> []) (scan_segments False [] [] (split_on quote_char src))"

section \<open>Terms\<close>

text \<open>The fragments of the patterns; each returns what it captures and the rest of the text.\<close>

definition lit :: "string \<Rightarrow> string \<Rightarrow> string option" where
  "lit p s = (if take (length p) s = p then Some (drop (length p) s) else None)"

definition upto_char :: "char \<Rightarrow> string \<Rightarrow> (string \<times> string) option" where
  "upto_char c s =
     (case dropWhile (\<lambda>x. x \<noteq> c) s of [] \<Rightarrow> None | _ # rest \<Rightarrow> Some (takeWhile (\<lambda>x. x \<noteq> c) s, rest))"

definition quoted :: "string \<Rightarrow> (string \<times> string) option" where
  "quoted s = (case lit [quote_char] s of None \<Rightarrow> None | Some r \<Rightarrow> upto_char quote_char r)"

definition bracketed :: "string \<Rightarrow> (string \<times> string) option" where
  "bracketed s = (case lit ''['' s of None \<Rightarrow> None | Some r \<Rightarrow> upto_char CHR '']'' r)"

definition var_start :: "char \<Rightarrow> bool" where
  "var_start c = (lower_char c \<or> (CHR ''A'' \<le> c \<and> c \<le> CHR ''Z'') \<or> c = CHR ''_'')"

definition var_char :: "char \<Rightarrow> bool" where
  "var_char c = (var_start c \<or> digit_char c)"

fun variable :: "string \<Rightarrow> (string \<times> string) option" where
  "variable (d # c # cs) =
     (if d = CHR ''$'' \<and> var_start c then Some (d # c # takeWhile var_char cs, dropWhile var_char cs) else None)"
| "variable _ = None"

definition number :: "string \<Rightarrow> (int \<times> string) option" where
  "number s =
     (let neg = (s \<noteq> [] \<and> hd s = CHR ''-''); r = (if neg then tl s else s); ds = takeWhile digit_char r in
      if ds = [] then None
      else Some (if neg then - digits_value ds else digits_value ds, dropWhile digit_char r))"

definition comparison :: "string \<Rightarrow> (dl_cmp \<times> string) option" where
  "comparison s =
     (case lit ''<='' s of Some r \<Rightarrow> Some (CLe, r)
      | None \<Rightarrow> (case lit ''<'' s of Some r \<Rightarrow> Some (CLt, r)
      | None \<Rightarrow> (case lit ''>='' s of Some r \<Rightarrow> Some (CGe, r)
      | None \<Rightarrow> (case lit ''>'' s of Some r \<Rightarrow> Some (CGt, r)
      | None \<Rightarrow> (case lit ''=='' s of Some r \<Rightarrow> Some (CEq, r)
      | None \<Rightarrow> map_option (\<lambda>r. (CNe, r)) (lit ''!='' s))))))"

text \<open>\<open>\d{4}-\d{2}-\d{2}T\d{2}:\d{2}:\d{2}Z\<close>.\<close>

definition date_shape :: "string \<Rightarrow> bool" where
  "date_shape s =
     list_all2 (\<lambda>p c. if p = CHR ''0'' then digit_char c else c = p) ''0000-00-00T00:00:00Z'' s"

definition date_literal :: "string \<Rightarrow> (string \<times> string) option" where
  "date_literal s = (if date_shape (take 20 s) then Some (take 20 s, drop 20 s) else None)"

text \<open>A dollar also matches before a final newline.\<close>

definition at_end :: "string \<Rightarrow> bool" where
  "at_end s = (s = [] \<or> s = [newline])"

text \<open>\<open>_MEMBER_RE\<close> and \<open>_members\<close>.\<close>

definition member_re :: "string \<Rightarrow> string option" where
  "member_re s = (case quoted s of Some (t, r) \<Rightarrow> if at_end r then Some t else None | None \<Rightarrow> None)"

fun all_members :: "string list \<Rightarrow> string list option" where
  "all_members [] = Some []"
| "all_members (p # ps) =
     (case member_re (strip p) of None \<Rightarrow> None | Some m \<Rightarrow> map_option (\<lambda>ms. m # ms) (all_members ps))"

definition members :: "string \<Rightarrow> string set option" where
  "members rendered =
     (let inner = strip rendered in
      if inner = [] then Some {} else map_option set (all_members (split_on CHR '','' inner)))"

definition unscale :: "int \<Rightarrow> decimal" where
  "unscale n = ctx_round (of_int n / 10 ^ 4)"

text \<open>
  \<open>strptime\<close> on a text of the shape above: a date is valid when the calendar has it.
\<close>

definition parse_date :: "string \<Rightarrow> instant option" where
  "parse_date s =
     (let f = (\<lambda>i n. digits_value (take n (drop i s)));
          y = f 0 4; m = f 5 2; d = f 8 2; h = f 11 2; mi = f 14 2; sec = f 17 2; days = days_from_civil y m d
      in if 1 \<le> y \<and> civil_date days = (y, m, d) \<and> h < 24 \<and> mi < 60 \<and> sec < 60
         then Some ((days * 86400 + h * 3600 + mi * 60 + sec) * 1000000) else None)"

section \<open>Clauses\<close>

datatype clause_match =
    MScopeSubset string | MGrantScope | MBudgetCeiling string int | MTimeLower string | MTimeUpper string
  | MToolAllow string | MToolDeny string | MArgIn string string | MArgNotIn string string
  | MArgNumber string dl_cmp int | MArgString string dl_cmp string | MDepthLimit int
  | MIntentBound string | MGrantIntent

abbreviation thenO :: "'a option \<Rightarrow> ('a \<Rightarrow> 'b option) \<Rightarrow> 'b option" where
  "thenO m f \<equiv> (case m of None \<Rightarrow> None | Some x \<Rightarrow> f x)"

text \<open>\<open>prefix($v), \<close> and the rest of the clause, where \<open>path\<close> says whether a quoted term precedes the variable.\<close>

definition head_var :: "string \<Rightarrow> string \<Rightarrow> (string \<times> string) option" where
  "head_var prefix s =
     thenO (lit prefix s) (\<lambda>r. thenO (variable r) (\<lambda>(v, r). thenO (lit ''), '' r) (\<lambda>r. Some (v, r))))"

definition head_quoted_var :: "string \<Rightarrow> string \<Rightarrow> (string \<times> string \<times> string) option" where
  "head_quoted_var prefix s =
     thenO (lit prefix s) (\<lambda>r. thenO (quoted r) (\<lambda>(t, r). thenO (lit '', '' r) (\<lambda>r.
       thenO (variable r) (\<lambda>(v, r). thenO (lit ''), '' r) (\<lambda>r. Some (t, v, r))))))"

definition contains_tail :: "string \<Rightarrow> string \<Rightarrow> string option" where
  "contains_tail v s =
     thenO (bracketed s) (\<lambda>(ms, r). thenO (lit (''.contains('' @ v @ '')'') r) (\<lambda>r. if at_end r then Some ms else None))"

definition compare_tail :: "string \<Rightarrow> string \<Rightarrow> string \<Rightarrow> string option" where
  "compare_tail v op s = lit (v @ '' '' @ op @ '' '') s"

definition number_end :: "string \<Rightarrow> int option" where
  "number_end s = thenO (number s) (\<lambda>(n, r). if at_end r then Some n else None)"

definition scope_subset_re :: "string \<Rightarrow> clause_match option" where
  "scope_subset_re s = thenO (head_var ''check if operation('' s) (\<lambda>(v, r). map_option MScopeSubset (contains_tail v r))"

definition grant_scope_re :: "string \<Rightarrow> clause_match option" where
  "grant_scope_re s =
     thenO (head_var ''check if operation('' s) (\<lambda>(v, r).
       thenO (lit (''scope('' @ v @ '')'') r) (\<lambda>r. if at_end r then Some MGrantScope else None))"

definition budget_ceiling_re :: "string \<Rightarrow> clause_match option" where
  "budget_ceiling_re s =
     thenO (head_quoted_var ''check if requested('' s) (\<lambda>(d, v, r).
       thenO (compare_tail v ''<='' r) (\<lambda>r. map_option (MBudgetCeiling d) (number_end r)))"

definition time_lower_re :: "string \<Rightarrow> clause_match option" where
  "time_lower_re s =
     thenO (head_var ''check if time('' s) (\<lambda>(v, r). thenO (compare_tail v ''>='' r) (\<lambda>r.
       thenO (date_literal r) (\<lambda>(d, r). if at_end r then Some (MTimeLower d) else None)))"

definition time_upper_re :: "string \<Rightarrow> clause_match option" where
  "time_upper_re s =
     thenO (head_var ''check if time('' s) (\<lambda>(v, r). thenO (compare_tail v ''<'' r) (\<lambda>r.
       thenO (date_literal r) (\<lambda>(d, r). if at_end r then Some (MTimeUpper d) else None)))"

definition tool_allow_re :: "string \<Rightarrow> clause_match option" where
  "tool_allow_re s = thenO (head_var ''check if tool('' s) (\<lambda>(v, r). map_option MToolAllow (contains_tail v r))"

definition tool_deny_re :: "string \<Rightarrow> clause_match option" where
  "tool_deny_re s = thenO (head_var ''reject if tool('' s) (\<lambda>(v, r). map_option MToolDeny (contains_tail v r))"

definition arg_in_re :: "string \<Rightarrow> clause_match option" where
  "arg_in_re s =
     thenO (head_quoted_var ''reject if arg('' s) (\<lambda>(p, v, r).
       thenO (lit ''!'' r) (\<lambda>r. map_option (MArgIn p) (contains_tail v r)))"

definition arg_not_in_re :: "string \<Rightarrow> clause_match option" where
  "arg_not_in_re s =
     thenO (head_quoted_var ''reject if arg('' s) (\<lambda>(p, v, r). map_option (MArgNotIn p) (contains_tail v r))"

definition arg_op :: "string \<Rightarrow> (string \<times> dl_cmp \<times> string) option" where
  "arg_op s =
     thenO (head_quoted_var ''reject if arg('' s) (\<lambda>(p, v, r). thenO (lit (v @ '' '') r) (\<lambda>r.
       thenO (comparison r) (\<lambda>(c, r). thenO (lit '' '' r) (\<lambda>r. Some (p, c, r)))))"

definition arg_number_re :: "string \<Rightarrow> clause_match option" where
  "arg_number_re s = thenO (arg_op s) (\<lambda>(p, c, r). map_option (MArgNumber p c) (number_end r))"

definition arg_string_re :: "string \<Rightarrow> clause_match option" where
  "arg_string_re s =
     thenO (arg_op s) (\<lambda>(p, c, r). thenO (quoted r) (\<lambda>(t, r). if at_end r then Some (MArgString p c t) else None))"

definition depth_limit_re :: "string \<Rightarrow> clause_match option" where
  "depth_limit_re s =
     thenO (head_var ''check if current_depth('' s) (\<lambda>(v, r).
       thenO (compare_tail v ''<='' r) (\<lambda>r. map_option MDepthLimit (number_end r)))"

definition intent_bound_re :: "string \<Rightarrow> clause_match option" where
  "intent_bound_re s =
     thenO (head_var ''check if request_intent('' s) (\<lambda>(v, r).
       thenO (compare_tail v ''=='' r) (\<lambda>r.
         thenO (quoted r) (\<lambda>(t, r). if at_end r then Some (MIntentBound t) else None)))"

definition grant_intent_re :: "string \<Rightarrow> clause_match option" where
  "grant_intent_re s =
     thenO (head_var ''check if request_intent('' s) (\<lambda>(v, r).
       thenO (lit (''intent('' @ v @ '')'') r) (\<lambda>r. if at_end r then Some MGrantIntent else None))"

definition CLAUSE_RES :: "(string \<Rightarrow> clause_match option) list" where
  "CLAUSE_RES =
     [scope_subset_re, grant_scope_re, budget_ceiling_re, time_lower_re, time_upper_re, tool_allow_re, tool_deny_re,
      arg_in_re, arg_not_in_re, arg_number_re, arg_string_re, depth_limit_re, intent_bound_re, grant_intent_re]"

fun first_clause :: "(string \<Rightarrow> clause_match option) list \<Rightarrow> string \<Rightarrow> clause_match option" where
  "first_clause [] s = None"
| "first_clause (re # res) s = (case re s of Some m \<Rightarrow> Some m | None \<Rightarrow> first_clause res s)"

fun denegated :: "dl_cmp \<Rightarrow> arg_operator" where
  "denegated CGt = LE"
| "denegated CGe = LT"
| "denegated CLt = GE"
| "denegated CLe = GT"
| "denegated CNe = EQ"
| "denegated CEq = NE"

definition dimension_of :: "string \<Rightarrow> budget_dimension option" where
  "dimension_of s = List.find (\<lambda>d. dimension_value d = s) all_dimensions"

text \<open>\<open>Recognized\<close>, \<open>Refused\<close>, or a caveat.\<close>

datatype clause_result = Recognized | Refused | IsCaveat caveat

definition built :: "caveat \<Rightarrow> clause_result py" where
  "built c = bindE (mk_caveat c) (\<lambda>c. Inr (IsCaveat c))"

fun build :: "clause_match \<Rightarrow> clause_result py" where
  "build MGrantScope = Inr Recognized"
| "build MGrantIntent = Inr Recognized"
| "build (MScopeSubset ms) = (case members ms of None \<Rightarrow> Inr Refused | Some S \<Rightarrow> built (ScopeSubset S))"
| "build (MBudgetCeiling d n) =
     (case dimension_of d of None \<Rightarrow> Inr Refused | Some dm \<Rightarrow> built (BudgetCeiling dm (unscale n)))"
| "build (MTimeLower d) = (case parse_date d of None \<Rightarrow> Inr Refused | Some t \<Rightarrow> built (TimeWindow (Some t) None))"
| "build (MTimeUpper d) = (case parse_date d of None \<Rightarrow> Inr Refused | Some t \<Rightarrow> built (TimeWindow None (Some t)))"
| "build (MToolAllow ms) = (case members ms of None \<Rightarrow> Inr Refused | Some S \<Rightarrow> built (ToolAllow S))"
| "build (MToolDeny ms) = (case members ms of None \<Rightarrow> Inr Refused | Some S \<Rightarrow> built (ToolDeny S))"
| "build (MArgIn p ms) = (case members ms of None \<Rightarrow> Inr Refused | Some S \<Rightarrow> built (ArgPredicate p IN (PSet S)))"
| "build (MArgNotIn p ms) = (case members ms of None \<Rightarrow> Inr Refused | Some S \<Rightarrow> built (ArgPredicate p NOT_IN (PSet S)))"
| "build (MArgNumber p c n) = built (ArgPredicate p (denegated c) (PScalar (VNum (unscale n))))"
| "build (MArgString p c t) =
     (if denegated c \<notin> {EQ, NE} then Inr Refused else built (ArgPredicate p (denegated c) (PScalar (VStr t))))"
| "build (MDepthLimit n) = (if n < 0 then Inr Refused else built (DepthLimit n))"
| "build (MIntentBound t) = built (IntentBound t)"

definition clause :: "string \<Rightarrow> clause_result py" where
  "clause s = (case first_clause CLAUSE_RES s of None \<Rightarrow> Inr Refused | Some m \<Rightarrow> build m)"

section \<open>Blocks\<close>

definition fact_re :: "string \<Rightarrow> (string \<times> string) option" where
  "fact_re s =
     (let p = takeWhile ident_char s; r = dropWhile ident_char s; e = dollar r in
      if p \<noteq> [] \<and> (lower_char (hd p) \<or> hd p = CHR ''_'') \<and> length e \<ge> 2 \<and> hd e = CHR ''('' \<and> last e = CHR '')''
      then Some (p, butlast (tl e)) else None)"

definition AUTHORITY_FACTS :: "string set" where
  "AUTHORITY_FACTS = {''budget'', ''expires_at'', ''intent'', ''issued_at'', ''mandate'', ''max_depth'', ''not_before'',
                      ''principal'', ''scope'', ''task''}"

definition IDENTITY_STRING_FACTS :: "string set" where
  "IDENTITY_STRING_FACTS = {''agent'', ''role''}"

record block_identity =
  bi_agent_id :: "string option"
  bi_role :: "string option"
  bi_declared_depth :: "int option"

record parsed_block =
  pk_index :: nat
  pk_identity :: block_identity
  pk_caveats :: "caveat list"
  pk_unrecognized :: "string list"
  pk_duplicate_facts :: "string list"

definition complete :: "parsed_block \<Rightarrow> bool" where
  "complete b = (pk_unrecognized b = [])"

text \<open>The loop of \<open>parse_block_source\<close>; the facts are kept in the order they are met.\<close>

record reading =
  rg_caveats :: "caveat list"
  rg_unrecognized :: "string list"
  rg_approval_scopes :: "string set"
  rg_facts :: "(string \<times> string) list"

definition starts_with :: "string \<Rightarrow> string \<Rightarrow> bool" where
  "starts_with p s = (take (length p) s = p)"

definition read_fact :: "string \<Rightarrow> string \<Rightarrow> string \<Rightarrow> reading \<Rightarrow> reading" where
  "read_fact statement p ts r =
     (if p \<in> AUTHORITY_FACTS then r
      else if p \<in> IDENTITY_STRING_FACTS \<or> p = ''requires_approval''
      then (case member_re (strip ts) of
              None \<Rightarrow> r\<lparr>rg_unrecognized := rg_unrecognized r @ [statement]\<rparr>
            | Some m \<Rightarrow>
                if p = ''requires_approval'' then r\<lparr>rg_approval_scopes := insert m (rg_approval_scopes r)\<rparr>
                else r\<lparr>rg_facts := rg_facts r @ [(p, m)]\<rparr>)
      else if p = ''declared_depth'' then r\<lparr>rg_facts := rg_facts r @ [(p, strip ts)]\<rparr>
      else r\<lparr>rg_unrecognized := rg_unrecognized r @ [statement]\<rparr>)"

definition read_statement :: "string \<Rightarrow> reading \<Rightarrow> reading py" where
  "read_statement s r =
     (if length s > MAX_STATEMENT_LENGTH
      then Inr (r\<lparr>rg_unrecognized := rg_unrecognized r @ [take MAX_STATEMENT_LENGTH s]\<rparr>)
      else if starts_with ''check if '' s \<or> starts_with ''reject if '' s
      then bindE (clause s) (\<lambda>c.
             Inr (case c of
                    Refused \<Rightarrow> r\<lparr>rg_unrecognized := rg_unrecognized r @ [s]\<rparr>
                  | Recognized \<Rightarrow> r
                  | IsCaveat x \<Rightarrow> r\<lparr>rg_caveats := rg_caveats r @ [x]\<rparr>))
      else (case fact_re s of
              None \<Rightarrow> Inr (r\<lparr>rg_unrecognized := rg_unrecognized r @ [s]\<rparr>)
            | Some (p, ts) \<Rightarrow> Inr (read_fact s p ts r)))"

fun read_statements :: "string list \<Rightarrow> reading \<Rightarrow> reading py" where
  "read_statements [] r = Inr r"
| "read_statements (s # ss) r = bindE (read_statement s r) (\<lambda>r'. read_statements ss r')"

section \<open>Identity\<close>

definition label_of :: "string \<Rightarrow> string option" where
  "label_of v = (if label_ok v then Some v else None)"

text \<open>\<open>int\<close> of a stripped text: a sign, then digits that single underscores may separate.\<close>

fun grouped_digits :: "string \<Rightarrow> bool" where
  "grouped_digits [] = False"
| "grouped_digits [c] = digit_char c"
| "grouped_digits (c # d # cs) =
     (digit_char c \<and> (if d = CHR ''_'' then cs \<noteq> [] \<and> grouped_digits cs else grouped_digits (d # cs)))"

definition int_of_text :: "string \<Rightarrow> int option" where
  "int_of_text s =
     (let (neg, u) = split_sign s in
      if grouped_digits u
      then let n = digits_value (filter (\<lambda>c. c \<noteq> CHR ''_'') u) in Some (if neg then - n else n)
      else None)"

definition fact_values :: "(string \<times> string) list \<Rightarrow> string \<Rightarrow> string list" where
  "fact_values facts p = map snd (filter (\<lambda>(q, _). q = p) facts)"

text \<open>\<open>one\<close>: the only value, and whether the predicate is ambiguous.\<close>

definition one_value :: "(string \<times> string) list \<Rightarrow> string \<Rightarrow> string option \<times> string list" where
  "one_value facts p =
     (case fact_values facts p of [] \<Rightarrow> (None, []) | [v] \<Rightarrow> (Some v, []) | _ \<Rightarrow> (None, [p]))"

definition refined :: "(string \<Rightarrow> 'a option) \<Rightarrow> string \<Rightarrow> string option \<Rightarrow> 'a option \<times> string list" where
  "refined f p raw =
     (case raw of None \<Rightarrow> (None, []) | Some v \<Rightarrow> (case f v of None \<Rightarrow> (None, [p]) | Some x \<Rightarrow> (Some x, [])))"

definition identity_from :: "(string \<times> string) list \<Rightarrow> block_identity \<times> string list" where
  "identity_from facts =
     (let (agent_raw, a1) = one_value facts ''agent''; (role_raw, a2) = one_value facts ''role'';
          (depth_raw, a3) = one_value facts ''declared_depth'';
          (agent_id, a4) = refined label_of ''agent'' agent_raw; (role, a5) = refined label_of ''role'' role_raw;
          (declared_depth, a6) = refined int_of_text ''declared_depth'' depth_raw
      in (\<lparr>bi_agent_id = agent_id, bi_role = role, bi_declared_depth = declared_depth\<rparr>, a1 @ a2 @ a3 @ a4 @ a5 @ a6))"

definition parse_block_source :: "string \<Rightarrow> nat \<Rightarrow> parsed_block py" where
  "parse_block_source src index =
     bindE (read_statements (statements src)
              \<lparr>rg_caveats = [], rg_unrecognized = [], rg_approval_scopes = {}, rg_facts = []\<rparr>) (\<lambda>r.
     bindE (if rg_approval_scopes r = {} then Inr (rg_caveats r)
            else bindE (mk_caveat (RequiresApproval (rg_approval_scopes r))) (\<lambda>c. Inr (rg_caveats r @ [c]))) (\<lambda>cs.
       let (ident, ambiguous) = identity_from (rg_facts r) in
       Inr \<lparr>pk_index = index, pk_identity = ident, pk_caveats = cs, pk_unrecognized = rg_unrecognized r,
            pk_duplicate_facts = ambiguous\<rparr>))"

section \<open>Tokens\<close>

definition parse_token ::
  "('b \<Rightarrow> nat \<Rightarrow> string) \<Rightarrow> ('b, 'k) biscuit_lib \<Rightarrow> 'b verified_token \<Rightarrow> (parsed_block list) py" where
  "parse_token block_source lib tok =
     traverseE (\<lambda>i. parse_block_source (block_source (vt_biscuit tok) i) i)
       [0 ..< nat (bl_block_count lib (vt_biscuit tok))]"

definition token_caveats ::
  "('b \<Rightarrow> nat \<Rightarrow> string) \<Rightarrow> ('b, 'k) biscuit_lib \<Rightarrow> 'b verified_token \<Rightarrow> (caveat list) py" where
  "token_caveats block_source lib tok =
     bindE (parse_token block_source lib tok) (\<lambda>bs. Inr (concat (map pk_caveats (tl bs))))"

definition no_identity :: block_identity where
  "no_identity = \<lparr>bi_agent_id = None, bi_role = None, bi_declared_depth = None\<rparr>"

record chain_ident =
  ci_terminal :: block_identity
  ci_path :: "string list"

definition chain_identity ::
  "('b \<Rightarrow> nat \<Rightarrow> string) \<Rightarrow> ('b, 'k) biscuit_lib \<Rightarrow> 'b verified_token \<Rightarrow> chain_ident py" where
  "chain_identity block_source lib tok =
     bindE (parse_token block_source lib tok) (\<lambda>bs.
       Inr \<lparr>ci_terminal = (if length bs \<ge> 2 then pk_identity (last bs) else no_identity),
            ci_path = map (\<lambda>b. case bi_agent_id (pk_identity b) of
                                  Some a \<Rightarrow> if a = [] then ''agt-depth-'' @ nat_str (pk_index b) else a
                                | None \<Rightarrow> ''agt-depth-'' @ nat_str (pk_index b)) (tl bs)\<rparr>)"

definition token_identity ::
  "('b \<Rightarrow> nat \<Rightarrow> string) \<Rightarrow> ('b, 'k) biscuit_lib \<Rightarrow> 'b verified_token \<Rightarrow> block_identity py" where
  "token_identity block_source lib tok = bindE (chain_identity block_source lib tok) (\<lambda>c. Inr (ci_terminal c))"

record token_authority =
  ta_bound :: effective_authority
  ta_complete :: bool
  ta_unrecognized :: "string list"

definition effective_authority_of ::
  "('b \<Rightarrow> nat \<Rightarrow> string) \<Rightarrow> ('b, 'k) biscuit_lib \<Rightarrow> 'b verified_token \<Rightarrow> token_authority py" where
  "effective_authority_of block_source lib tok =
     bindE (parse_token block_source lib tok) (\<lambda>bs.
     bindE (traverseE mk_caveat (grant_caveats tok)) (\<lambda>grant.
       let unrecognized = concat (map pk_unrecognized bs) in
       Inr \<lparr>ta_bound = effective_bound (grant @ concat (map pk_caveats (tl bs))), ta_complete = (unrecognized = []),
            ta_unrecognized = unrecognized\<rparr>))"

section \<open>The character loop\<close>

text \<open>
  The scanner \<open>_statements\<close> replaced: one character at a time, a quote toggles, and a semicolon
  outside a literal ends a statement.
\<close>

fun char_scan :: "bool \<Rightarrow> string \<Rightarrow> string list \<Rightarrow> string \<Rightarrow> string list" where
  "char_scan inside current acc [] = (if strip current = [] then acc else acc @ [strip current])"
| "char_scan inside current acc (c # cs) =
     (if c = quote_char then char_scan (\<not> inside) (current @ [c]) acc cs
      else if c = CHR '';'' \<and> \<not> inside
      then (let acc' = acc @ [strip current] in
            if length acc' \<ge> MAX_STATEMENTS_PER_BLOCK then acc' else char_scan False [] acc' cs)
      else char_scan inside (current @ [c]) acc cs)"

lemma scan_outside_Cons:
  assumes "c \<noteq> quote_char" "c \<noteq> CHR '';''"
  shows "scan_segments False current acc ((c # h) # t) = scan_segments False (current @ [c]) acc (h # t)"
  using assms split_on_nonempty[of "CHR '';''" h] by (simp add: split_on_Cons split: list.splits)

lemma scan_semicolon:
  "scan_segments False current acc ((CHR '';'' # h) # t) =
     (let acc' = acc @ [strip current] in
      if length acc' \<ge> MAX_STATEMENTS_PER_BLOCK then acc' else scan_segments False [] acc' (h # t))"
  using split_on_nonempty[of "CHR '';''" h] by (auto simp: split_on_Cons Let_def split: list.splits)

lemma scan_empty_segment: "scan_segments False current acc ([] # t) = scan_segments True current acc t"
  by simp

text \<open>The literal a segment lies in, from its opening quote on.\<close>

definition scan_inside :: "string \<Rightarrow> string list \<Rightarrow> string list \<Rightarrow> string list" where
  "scan_inside current acc segments =
     scan_segments False (current @ hd segments @ (if tl segments = [] then [] else [quote_char])) acc (tl segments)"

lemma scan_segments_chars:
  "scan_segments False current acc (split_on quote_char s) = char_scan False current acc s"
  "scan_inside current acc (split_on quote_char s) = char_scan True current acc s"
proof (induction s arbitrary: current acc)
  case (Cons c s)
  obtain h t where ht: "split_on quote_char s = h # t" using split_on_nonempty by (cases "split_on quote_char s") auto
  {
    case 1
    show ?case
    proof (cases "c = quote_char")
      case True
      then show ?thesis using Cons.IH(2)[of "current @ [quote_char]" acc] ht by (simp add: split_on_Cons scan_inside_def)
    next
      case False
      then show ?thesis
        using Cons.IH(1) ht scan_outside_Cons[of c current acc h t] scan_semicolon[of current acc h t]
        by (auto simp: split_on_Cons Let_def simp del: scan_segments.simps)
    qed
  next
    case 2
    show ?case
    proof (cases "c = quote_char")
      case True
      then show ?thesis using Cons.IH(1)[of "current @ [quote_char]" acc] ht by (simp add: split_on_Cons scan_inside_def)
    next
      case False
      then show ?thesis using Cons.IH(2)[of "current @ [c]" acc] ht by (simp add: split_on_Cons scan_inside_def)
    qed
  }
qed (simp_all add: scan_inside_def)

lemma statements_char_scan: "statements src = filter (\<lambda>s. s \<noteq> []) (char_scan False [] [] src)"
  by (simp add: statements_def scan_segments_chars)

text \<open>
  A statement a scanner cannot cut: semicolons only inside literals, literals closed, nothing to
  strip.
\<close>

fun closed_from :: "bool \<Rightarrow> string \<Rightarrow> bool" where
  "closed_from inside [] = (\<not> inside)"
| "closed_from inside (c # cs) =
     (if c = quote_char then closed_from (\<not> inside) cs else (inside \<or> c \<noteq> CHR '';'') \<and> closed_from inside cs)"

definition whole_statement :: "string \<Rightarrow> bool" where
  "whole_statement s = (s \<noteq> [] \<and> closed_from False s \<and> \<not> space_char (hd s) \<and> \<not> space_char (last s))"

definition source_lines :: "string list \<Rightarrow> string" where
  "source_lines ss = concat (map (\<lambda>s. s @ '';'' @ [newline]) ss)"

lemma char_scan_closed:
  "closed_from inside s \<Longrightarrow> char_scan inside current acc (s @ rest) = char_scan False (current @ s) acc rest"
  by (induction inside s arbitrary: current rule: closed_from.induct) auto

lemma strip_edges: "\<not> space_char (hd s) \<Longrightarrow> \<not> space_char (last s) \<Longrightarrow> strip s = s"
proof -
  assume "\<not> space_char (hd s)" "\<not> space_char (last s)"
  then have "dropWhile space_char s = s" "dropWhile space_char (rev s) = rev s"
    by (simp_all only: dropWhile_eq_self_iff) (auto simp: hd_rev)
  then show ?thesis by (simp add: strip_def)
qed

lemma strip_whole: "whole_statement s \<Longrightarrow> strip s = s"
  by (simp add: whole_statement_def strip_edges)

lemma strip_newline_whole: "whole_statement s \<Longrightarrow> strip (newline # s) = s"
proof -
  have "space_char newline" by code_simp
  then have "strip (newline # s) = strip s" by (simp add: strip_def)
  then show "whole_statement s \<Longrightarrow> strip (newline # s) = s" by (simp add: strip_whole)
qed

lemma char_scan_lines:
  assumes "list_all whole_statement ss" "length acc + length ss \<le> MAX_STATEMENTS_PER_BLOCK" "current = [] \<or> current = [newline]"
  shows "char_scan False current acc (source_lines ss) = acc @ ss"
  using assms
proof (induction ss arbitrary: acc current)
  case Nil
  have "space_char newline" by code_simp
  then show ?case using Nil by (auto simp: source_lines_def strip_def)
next
  case (Cons s ss)
  have st: "strip (current @ s) = s" using Cons.prems strip_whole strip_newline_whole by auto
  have "closed_from False s" using Cons.prems by (simp add: whole_statement_def)
  from char_scan_closed[OF this, of current acc "'';'' @ [newline] @ source_lines ss"]
  have "char_scan False current acc (source_lines (s # ss))
      = char_scan False (current @ s) acc ('';'' @ [newline] @ source_lines ss)"
    by (simp add: source_lines_def)
  also have "\<dots> = acc @ s # ss"
  proof (cases "ss = []")
    case True
    have "space_char newline" by code_simp
    then show ?thesis using True st by (auto simp: source_lines_def Let_def newline_def strip_def)
  next
    case False
    then have "Suc (length acc) < MAX_STATEMENTS_PER_BLOCK" using Cons.prems(2) by (cases ss) simp_all
    then show ?thesis using Cons.IH[of "acc @ [s]" "[newline]"] Cons.prems st by (simp add: Let_def newline_def)
  qed
  finally show ?case by simp
qed

lemma statements_source_lines:
  assumes "list_all whole_statement ss" "length ss \<le> MAX_STATEMENTS_PER_BLOCK"
  shows "statements (source_lines ss) = ss"
proof -
  have "filter (\<lambda>s. s \<noteq> []) ss = ss" using assms(1) by (induction ss) (auto simp: whole_statement_def)
  then show ?thesis using char_scan_lines[OF assms(1), of "[]" "[]"] assms(2) by (simp add: statements_char_scan)
qed

section \<open>Printed terms are read back\<close>

definition plain :: "string \<Rightarrow> bool" where
  "plain s = list_all (\<lambda>c. c \<noteq> quote_char \<and> c \<noteq> backslash) s"

definition plain_member :: "string \<Rightarrow> bool" where
  "plain_member s = (plain s \<and> CHR '']'' \<notin> set s \<and> CHR '','' \<notin> set s)"

lemma replace_absent: "c \<notin> set s \<Longrightarrow> replace_char c r s = s"
  by (induction s) auto

lemma quote_plain: "plain s \<Longrightarrow> quote_string s = quote_char # s @ [quote_char]"
proof -
  assume "plain s"
  then have "backslash \<notin> set s" "quote_char \<notin> set s" by (auto simp: plain_def list_all_iff)
  then show ?thesis by (simp add: quote_string_def replace_absent)
qed

lemma lit_simps [simp]:
  "lit [] s = Some s" "lit (x # p) [] = None" "lit (x # p) (y # s) = (if x = y then lit p s else None)"
  by (simp_all add: lit_def)

lemma upto_char_append: "c \<notin> set a \<Longrightarrow> upto_char c (a @ c # r) = Some (a, r)"
proof -
  assume "c \<notin> set a"
  then have "dropWhile (\<lambda>x. x \<noteq> c) (a @ c # r) = c # r" "takeWhile (\<lambda>x. x \<noteq> c) (a @ c # r) = a"
    by (induction a) auto
  then show ?thesis by (simp add: upto_char_def)
qed

lemma quoted_plain: "plain s \<Longrightarrow> quoted (quote_string s @ r) = Some (s, r)"
proof -
  assume p: "plain s"
  then have "quote_char \<notin> set s" by (auto simp: plain_def list_all_iff)
  then show ?thesis by (simp add: quoted_def quote_plain[OF p] upto_char_append)
qed

lemma quoted_plain_end: "plain s \<Longrightarrow> quoted (quote_string s) = Some (s, [])"
  using quoted_plain[of s "[]"] by simp

lemma member_re_quote: "plain s \<Longrightarrow> member_re (quote_string s) = Some s"
  by (simp add: member_re_def quoted_plain_end at_end_def)

lemma strip_quote: "plain s \<Longrightarrow> strip (quote_string s) = quote_string s" "plain s \<Longrightarrow> strip (CHR '' '' # quote_string s) = quote_string s"
proof -
  have q: "\<not> space_char quote_char" "space_char (CHR '' '')" by code_simp+
  then show "plain s \<Longrightarrow> strip (quote_string s) = quote_string s" "plain s \<Longrightarrow> strip (CHR '' '' # quote_string s) = quote_string s"
    by (simp_all add: strip_def quote_plain)
qed

lemma split_on_append: "c \<notin> set a \<Longrightarrow> split_on c (a @ c # r) = a # split_on c r"
  by (induction a) (auto simp: split_on_Cons)

lemma split_on_absent: "c \<notin> set a \<Longrightarrow> split_on c a = [a]"
  by (induction a) (auto simp: split_on_Cons)

lemma split_join:
  assumes "list_all (\<lambda>x. CHR '','' \<notin> set x) (x # xs)"
  shows "split_on CHR '','' (join_text '', '' (x # xs)) = x # map (\<lambda>y. CHR '' '' # y) xs"
proof -
  have "split_on CHR '','' (CHR '' '' # join_text '', '' (y # ys)) = map (\<lambda>y. CHR '' '' # y) (y # ys)"
    if "list_all (\<lambda>x. CHR '','' \<notin> set x) (y # ys)" for y ys
    using that
  proof (induction ys arbitrary: y)
    case (Cons z zs)
    then show ?case using split_on_append[of "CHR '',''" "CHR '' '' # y"] by simp
  qed (simp add: split_on_absent split_on_Cons)
  then show ?thesis using assms by (cases xs) (simp_all add: split_on_absent split_on_append)
qed

lemma all_members_quoted:
  "list_all plain xs \<Longrightarrow> all_members (map (\<lambda>x. CHR '' '' # quote_string x) xs) = Some xs"
  by (induction xs) (simp_all add: strip_quote member_re_quote)

lemma plain_member_quote: "plain_member s \<Longrightarrow> CHR '','' \<notin> set (quote_string s) \<and> CHR '']'' \<notin> set (quote_string s)"
  by (simp add: plain_member_def quote_plain)

lemma join_edges:
  assumes "xs \<noteq> []" "list_all plain xs"
  shows "\<exists>r. join_text '', '' (map quote_string xs) = quote_char # r @ [quote_char]"
  using assms
proof (induction xs rule: induct_list012)
  case (3 x y zs)
  then obtain r where "join_text '', '' (map quote_string (y # zs)) = quote_char # r @ [quote_char]" by auto
  then show ?case using 3 quote_plain[of x] by simp
qed (auto simp: quote_plain)

lemma members_join:
  assumes "list_all plain_member xs"
  shows "members (join_text '', '' (map quote_string xs)) = Some (set xs)"
proof (cases xs)
  case Nil
  then show ?thesis by (simp add: members_def strip_def)
next
  case (Cons x ys)
  have pl: "list_all plain xs" using assms by (auto simp: list_all_iff plain_member_def)
  obtain r where r: "join_text '', '' (map quote_string xs) = quote_char # r @ [quote_char]" using join_edges[OF _ pl] Cons by auto
  have "\<not> space_char quote_char" by code_simp
  then have st: "strip (join_text '', '' (map quote_string xs)) = join_text '', '' (map quote_string xs)"
    by (simp add: r strip_def)
  have "list_all (\<lambda>z. CHR '','' \<notin> set z) (map quote_string xs)"
    using assms plain_member_quote by (auto simp: list_all_iff)
  then have "split_on CHR '','' (join_text '', '' (map quote_string xs)) = quote_string x # map (\<lambda>y. CHR '' '' # y) (map quote_string ys)"
    using split_join[of "quote_string x" "map quote_string ys"] Cons by simp
  moreover have "all_members (map (\<lambda>y. CHR '' '' # y) (map quote_string ys)) = Some ys"
    using all_members_quoted[of ys] pl Cons by (simp add: comp_def)
  ultimately show ?thesis using st r pl Cons by (simp add: members_def Let_def strip_quote member_re_quote)
qed

lemma bracketed_set:
  assumes "finite S" "\<forall>s \<in> S. plain_member s"
  shows "bracketed (set_literal S @ r) = Some (join_text '', '' (map quote_string (sorted_list_of_set S)), r)"
    "members (join_text '', '' (map quote_string (sorted_list_of_set S))) = Some S"
proof -
  have l: "list_all plain_member (sorted_list_of_set S)" using assms by (simp add: list_all_iff)
  then show "members (join_text '', '' (map quote_string (sorted_list_of_set S))) = Some S"
    using members_join assms(1) by simp
  have "CHR '']'' \<notin> set (join_text '', '' (map quote_string xs))" if "list_all plain_member xs" for xs
    using that by (induction xs rule: induct_list012) (auto simp: plain_member_quote)
  from this[OF l] show "bracketed (set_literal S @ r) = Some (join_text '', '' (map quote_string (sorted_list_of_set S)), r)"
    by (simp add: bracketed_def set_literal_def upto_char_append)
qed

lemma digit_char_facts:
  assumes "k < 10"
  shows "digit_char (char_of (48 + k))" "(of_char (char_of (48 + k)) :: int) = 48 + int k" "char_of (48 + k) \<noteq> quote_char"
    "char_of (48 + k) \<noteq> CHR '';''" "\<not> space_char (char_of (48 + k))"
proof -
  have "\<forall>k \<in> set [0..<10]. digit_char (char_of (48 + k)) \<and> (of_char (char_of (48 + k)) :: int) = 48 + int k
      \<and> char_of (48 + k) \<noteq> quote_char \<and> char_of (48 + k) \<noteq> CHR '';'' \<and> \<not> space_char (char_of (48 + k))" by code_simp
  then show "digit_char (char_of (48 + k))" "(of_char (char_of (48 + k)) :: int) = 48 + int k" "char_of (48 + k) \<noteq> quote_char"
    "char_of (48 + k) \<noteq> CHR '';''" "\<not> space_char (char_of (48 + k))"
    using assms by simp_all
qed

lemma nat_str_reads:
  "list_all digit_char (nat_str n)" "digits_value (nat_str n) = int n"
proof (induction n rule: nat_str.induct)
  case (1 n)
  {
    case 1
    then show ?case using "1.IH"(1) digit_char_facts(1) by (subst nat_str.simps) auto
  next
    case 2
    have "int (n div 10) * 10 + int (n mod 10) = int n" by presburger
    then show ?case using "1.IH"(2) digit_char_facts(2)[of n] digit_char_facts(2)[of "n mod 10"]
      by (subst nat_str.simps) (auto simp: digits_value_def)
  }
qed

lemma takeWhile_digits: "list_all digit_char ds \<Longrightarrow> takeWhile digit_char ds = ds \<and> dropWhile digit_char ds = []"
  by (induction ds) auto

lemma nat_str_scan: "takeWhile digit_char (nat_str n) = nat_str n" "dropWhile digit_char (nat_str n) = []"
  using takeWhile_digits[OF nat_str_reads(1)] by simp_all

lemma number_end_int_str: "number_end (int_str i) = Some i"
proof -
  have minus: "\<not> digit_char CHR ''-''" by code_simp
  have "nat_str n \<noteq> [] \<and> hd (nat_str n) \<noteq> CHR ''-''" for n
    using nat_str_nonempty[of n] nat_str_reads(1)[of n] minus by (cases "nat_str n") auto
  then show ?thesis by (simp add: number_end_def number_def int_str_def at_end_def Let_def nat_str_reads(2) nat_str_reads(1)[unfolded list_all_iff] nat_str_scan)
qed

lemma unscale_exact: "\<bar>n\<bar> < 10 ^ 28 \<Longrightarrow> unscale n = of_int n / 10 ^ 4"
  unfolding unscale_def by (rule ctx_round_four_places)

lemma scale_unscale:
  assumes "scale v = Inr n" "\<bar>v\<bar> < 10 ^ 24"
  shows "unscale n = v"
proof -
  have n: "of_int n = v * 10000" using assms(1) by (auto simp: scale_def whole_def BUDGET_SCALE_def Let_def split: if_splits)
  then have "\<bar>of_int n :: decimal\<bar> < of_int (10 ^ 28)" using assms(2) by (simp add: abs_mult)
  then have "\<bar>n\<bar> < 10 ^ 28" by (simp only: of_int_abs[symmetric] of_int_less_iff)
  then show ?thesis using n by (simp add: unscale_exact)
qed

lemma two_digits_reads:
  assumes "0 \<le> n" "n < 100"
  shows "two_digits n = [char_of (48 + nat n div 10), char_of (48 + nat n mod 10)]"
    "digit_char (char_of (48 + nat n div 10))" "digit_char (char_of (48 + nat n mod 10))" "digits_value (two_digits n) = n"
proof -
  have b: "nat n div 10 < 10" "nat n mod 10 < 10" using assms by simp_all
  show "digit_char (char_of (48 + nat n div 10))" "digit_char (char_of (48 + nat n mod 10))"
    using digit_char_facts(1) b by blast+
  have "10 * int (nat n div 10) + int (nat n mod 10) = n" using assms(1) by (metis int_nat_eq mult_div_mod_eq of_nat_add of_nat_mult of_nat_numeral)
  then show "digits_value (two_digits n) = n"
    using digit_char_facts(2)[OF b(1)] digit_char_facts(2)[OF b(2)] by (simp add: two_digits_def digits_value_def)
qed (simp add: two_digits_def)

definition four_digit_year :: "instant \<Rightarrow> bool" where
  "four_digit_year t = (case civil_date (t div 86400000000) of (y, _, _) \<Rightarrow> 1000 \<le> y \<and> y \<le> 9999)"

lemma four_digits:
  assumes "1000 \<le> y" "y \<le> 9999"
  shows "int_str y = map (\<lambda>k. char_of (48 + nat y div 10 ^ k mod 10)) [3, 2, 1, 0]"
proof -
  define n where "n = nat y"
  have n: "1000 \<le> n" "n \<le> 9999" using assms by (simp_all add: n_def nat_le_iff le_nat_iff)
  have d: "n div 10 div 10 = n div 100" "n div 100 div 10 = n div 1000" "n div 1000 mod 10 = n div 1000" using n by (simp_all add: div_mult2_eq[symmetric])
  have "nat_str n = [char_of (48 + n div 1000), char_of (48 + n div 100 mod 10), char_of (48 + n div 10 mod 10), char_of (48 + n mod 10)]"
  proof -
    have "n div 1000 < 10" "\<not> n div 100 < 10" "\<not> n div 10 < 10" using n by linarith+
    then show ?thesis using n by (simp add: nat_str.simps d)
  qed
  then show ?thesis using assms d by (simp add: int_str_def n_def)
qed

lemma utc_text_shape:
  assumes "four_digit_year t"
  shows "date_shape (utc_text t)" "length (utc_text t) = 20" "parse_date (utc_text t) = Some (t div 1000000 * 1000000)"
proof -
  define s where "s = t div 1000000"
  define days where "days = s div 86400"
  define r where "r = s - days * 86400"
  obtain y m d where c: "civil_date days = (y, m, d)" by (metis prod_cases3)
  have day: "t div 86400000000 = days" by (simp add: days_def s_def zdiv_zmult2_eq[symmetric])
  have y: "1000 \<le> y" "y \<le> 9999" using assms c by (simp_all add: four_digit_year_def day)
  have md: "0 \<le> m" "m < 100" "0 \<le> d" "d < 100" "days_from_civil y m d = days" using civil_date_inverse[OF c] by simp_all
  have r: "0 \<le> r" "r < 86400" by (simp_all add: r_def days_def minus_div_mult_eq_mod)
  define hh where "hh = r div 3600"
  define mi where "mi = r div 60 mod 60"
  define ss where "ss = r mod 60"
  have hms: "0 \<le> hh" "hh < 24" "0 \<le> mi" "mi < 60" "0 \<le> ss" "ss < 60" using r by (simp_all add: hh_def mi_def ss_def)
  have q: "r div 3600 = r div 60 div 60" by (simp add: zdiv_zmult2_eq[symmetric])
  have sum: "hh * 3600 + mi * 60 + ss = r"
    using mult_div_mod_eq[of 60 "r div 60"] mult_div_mod_eq[of 60 r] unfolding hh_def mi_def ss_def q by linarith
  have tx: "utc_text t = int_str y @ ''-'' @ two_digits m @ ''-'' @ two_digits d @ ''T'' @ two_digits hh
         @ '':'' @ two_digits mi @ '':'' @ two_digits ss @ ''Z''"
    using c by (simp add: utc_text_def Let_def s_def[symmetric] days_def[symmetric] r_def[symmetric] hh_def mi_def ss_def)
  obtain y3 y2 y1 y0 where ys: "int_str y = [y3, y2, y1, y0]" "digit_char y3" "digit_char y2" "digit_char y1" "digit_char y0"
    using four_digits[OF y] digit_char_facts(1) by (simp add: mod_less_divisor)
  have yv: "digits_value (int_str y) = y" using nat_str_reads(2)[of "nat y"] y by (simp add: int_str_def)
  have two: "\<exists>a b. two_digits n = [a, b] \<and> digit_char a \<and> digit_char b \<and> digits_value [a, b] = n" if "0 \<le> n" "n < 100" for n
    using two_digits_reads[OF that] by metis
  obtain m1 m0 where m: "two_digits m = [m1, m0]" "digit_char m1" "digit_char m0" "digits_value [m1, m0] = m" using two[of m] md by blast
  obtain d1 d0 where d: "two_digits d = [d1, d0]" "digit_char d1" "digit_char d0" "digits_value [d1, d0] = d" using two[of d] md by blast
  obtain h1 h0 where h: "two_digits hh = [h1, h0]" "digit_char h1" "digit_char h0" "digits_value [h1, h0] = hh"
    using two[of hh] hms(1,2) by auto
  obtain i1 i0 where i: "two_digits mi = [i1, i0]" "digit_char i1" "digit_char i0" "digits_value [i1, i0] = mi"
    using two[of mi] hms(3,4) by auto
  obtain s1 s0 where se: "two_digits ss = [s1, s0]" "digit_char s1" "digit_char s0" "digits_value [s1, s0] = ss"
    using two[of ss] hms(5,6) by auto
  note lists = tx ys(1) m(1) d(1) h(1) i(1) se(1)
  show "date_shape (utc_text t)" using ys m d h i se by (simp add: date_shape_def lists)
  show "length (utc_text t) = 20" by (simp add: lists)
  have "(days * 86400 + hh * 3600 + mi * 60 + ss) * 1000000 = s * 1000000" using sum by (simp add: r_def)
  moreover have "1 \<le> y" using y by simp
  moreover have "digits_value [y3, y2, y1, y0] = y" using yv ys(1) by simp
  ultimately show "parse_date (utc_text t) = Some (t div 1000000 * 1000000)"
    using md(5) c hms m(4) d(4) h(4) i(4) se(4) by (simp add: parse_date_def lists s_def[symmetric])
qed

lemma date_literal_text: "four_digit_year t \<Longrightarrow> date_literal (utc_text t) = Some (utc_text t, [])"
  using utc_text_shape[of t] by (simp add: date_literal_def)

section \<open>Printed statements are whole\<close>

lemma closed_append: "closed_from inside a \<Longrightarrow> closed_from inside (a @ b) = closed_from False b"
  by (induction inside a rule: closed_from.induct) auto

lemma closed_plain_chars:
  "list_all (\<lambda>c. c \<noteq> quote_char \<and> c \<noteq> CHR '';'') s \<Longrightarrow> closed_from False s"
  by (induction s) auto

lemma closed_literal: "plain s \<Longrightarrow> closed_from True (s @ [quote_char])"
  by (induction s) (auto simp: plain_def)

lemma closed_quote: "plain s \<Longrightarrow> closed_from False (quote_string s)"
  by (simp add: quote_plain closed_literal)

lemma closed_join: "list_all (closed_from False) xs \<Longrightarrow> closed_from False (join_text '', '' xs)"
  by (induction xs rule: induct_list012) (auto simp: closed_append)

lemma closed_set: "\<forall>s \<in> S. plain s \<Longrightarrow> finite S \<Longrightarrow> closed_from False (set_literal S)"
  using closed_join[of "map quote_string (sorted_list_of_set S)"]
  by (simp add: set_literal_def list_all_iff closed_quote closed_append)

lemma num_char_closed: "num_char c \<Longrightarrow> c \<noteq> quote_char \<and> c \<noteq> CHR '';'' \<and> \<not> space_char c"
proof -
  have "\<forall>k \<in> set [45..<58]. char_of k \<noteq> quote_char \<and> char_of k \<noteq> CHR '';'' \<and> \<not> space_char (char_of k)" by code_simp
  moreover have "num_char c \<Longrightarrow> of_char c \<in> set [45..<58]" unfolding set_upt by (auto simp: num_char_def less_eq_char_def)
  ultimately show "num_char c \<Longrightarrow> c \<noteq> quote_char \<and> c \<noteq> CHR '';'' \<and> \<not> space_char c" by (metis char_of_char)
qed

lemma closed_int: "closed_from False (int_str i)"
  using int_str_num num_char_closed by (intro closed_plain_chars) (auto simp: list_all_iff)

lemma closed_date: "four_digit_year t \<Longrightarrow> closed_from False (utc_text t)"
proof -
  assume "four_digit_year t"
  then have "list_all2 (\<lambda>p c. if p = CHR ''0'' then digit_char c else c = p) ''0000-00-00T00:00:00Z'' (utc_text t)"
    using utc_text_shape(1) by (simp add: date_shape_def)
  moreover have "digit_char c \<Longrightarrow> c \<noteq> quote_char \<and> c \<noteq> CHR '';''" for c using num_char_closed[of c] by (auto simp: digit_char_def num_char_def)
  ultimately have "list_all (\<lambda>c. c \<noteq> quote_char \<and> c \<noteq> CHR '';'') (utc_text t)"
    by (auto simp: list_all2_Cons1)
  then show ?thesis by (rule closed_plain_chars)
qed

lemmas closed_rules = closed_append closed_quote closed_set closed_int closed_date

section \<open>Printed clauses are recognized\<close>

lemma var_eval: "var_start CHR ''o''" "var_char CHR ''p''" "\<not> var_char CHR '')''" "var_start CHR ''v''" "var_start CHR ''t''"
  "var_start CHR ''d''" "var_start CHR ''h''"
  by code_simp+

lemmas clause_eval = clause_def CLAUSE_RES_def scope_subset_re_def grant_scope_re_def budget_ceiling_re_def time_lower_re_def
  time_upper_re_def tool_allow_re_def tool_deny_re_def arg_in_re_def arg_not_in_re_def arg_number_re_def arg_string_re_def
  depth_limit_re_def intent_bound_re_def grant_intent_re_def head_var_def head_quoted_var_def arg_op_def compare_tail_def
  contains_tail_def at_end_def var_eval

lemma clause_contains:
  assumes "finite S" "\<forall>s \<in> S. plain_member s"
  shows "clause (stmt_text (CheckIf ''operation'' [] (GContains S))) = built (ScopeSubset S)"
    "clause (stmt_text (CheckIf ''tool'' [] (GContains S))) = built (ToolAllow S)"
    "clause (stmt_text (RejectIf ''tool'' [] (GContains S))) = built (ToolDeny S)"
  using bracketed_set[OF assms] by (simp_all add: clause_eval var_text_def)

lemma clause_budget:
  "clause (stmt_text (CheckIf ''requested'' [TStr (dimension_value d)] (GCmp CLe (TInt n)))) = built (BudgetCeiling d (unscale n))"
proof -
  have p: "plain (dimension_value d)" by (cases d) (simp_all add: plain_def)
  have "dimension_of (dimension_value d) = Some d" by (cases d) (simp_all add: dimension_of_def all_dimensions_def)
  then show ?thesis using quoted_plain[OF p] number_end_int_str[of n] by (simp add: clause_eval var_text_def)
qed

lemma clause_time:
  assumes "four_digit_year (n * 1000000)"
  shows "clause (stmt_text (CheckIf ''time'' [] (GCmp CGe (TDate n)))) = built (TimeWindow (Some (n * 1000000)) None)"
    "clause (stmt_text (CheckIf ''time'' [] (GCmp CLt (TDate n)))) = built (TimeWindow None (Some (n * 1000000)))"
  using date_literal_text[OF assms] utc_text_shape(3)[OF assms] by (simp_all add: clause_eval var_text_def)

lemma clause_depth: "clause (stmt_text (CheckIf ''current_depth'' [] (GCmp CLe (TInt n)))) = (if n < 0 then Inr Refused else built (DepthLimit n))"
  using number_end_int_str[of n] by (simp add: clause_eval var_text_def)

lemma clause_intent:
  "plain h \<Longrightarrow> clause (stmt_text (CheckIf ''request_intent'' [] (GCmp CEq (TStr h)))) = built (IntentBound h)"
  using quoted_plain_end[of h] by (simp add: clause_eval var_text_def)

lemma clause_grant:
  "clause (stmt_text (CheckJoin ''operation'' ''scope'')) = Inr Recognized"
  "clause (stmt_text (CheckJoin ''request_intent'' ''intent'')) = Inr Recognized"
  by (simp_all add: clause_eval var_text_def bracketed_def)

lemma clause_arg_member:
  assumes "plain p" "finite S" "\<forall>s \<in> S. plain_member s"
  shows "clause (stmt_text (RejectIf ''arg'' [TStr p] (GNotContains S))) = built (ArgPredicate p IN (PSet S))"
    "clause (stmt_text (RejectIf ''arg'' [TStr p] (GContains S))) = built (ArgPredicate p NOT_IN (PSet S))"
proof -
  have "lit ''!'' (set_literal S @ r) = None" for r by (simp add: set_literal_def)
  then show "clause (stmt_text (RejectIf ''arg'' [TStr p] (GNotContains S))) = built (ArgPredicate p IN (PSet S))"
    "clause (stmt_text (RejectIf ''arg'' [TStr p] (GContains S))) = built (ArgPredicate p NOT_IN (PSet S))"
    using bracketed_set[OF assms(2,3)] quoted_plain[OF assms(1)] by (simp_all add: clause_eval var_text_def)
qed

lemma comparison_text: "comparison (cmp_text c @ CHR '' '' # r) = Some (c, CHR '' '' # r)"
  by (cases c) (simp_all add: comparison_def)

lemma clause_arg_scalar:
  assumes "plain p"
  shows "clause (stmt_text (RejectIf ''arg'' [TStr p] (GCmp c (TInt n)))) = built (ArgPredicate p (denegated c) (PScalar (VNum (unscale n))))"
    "plain t \<Longrightarrow> clause (stmt_text (RejectIf ''arg'' [TStr p] (GCmp c (TStr t)))) =
       (if denegated c \<notin> {EQ, NE} then Inr Refused else built (ArgPredicate p (denegated c) (PScalar (VStr t))))"
proof -
  have no: "lit ''!'' (CHR ''$'' # r) = None" "bracketed (CHR ''$'' # r) = None" for r by (simp_all add: bracketed_def)
  show "clause (stmt_text (RejectIf ''arg'' [TStr p] (GCmp c (TInt n)))) = built (ArgPredicate p (denegated c) (PScalar (VNum (unscale n))))"
    using quoted_plain[OF assms] comparison_text[of c] number_end_int_str[of n] no
    by (simp add: clause_eval var_text_def)
  have "number_end (quote_char # r) = None" for r
  proof -
    have "\<not> digit_char quote_char" by code_simp
    then show ?thesis by (simp add: number_end_def number_def)
  qed
  then show "plain t \<Longrightarrow> clause (stmt_text (RejectIf ''arg'' [TStr p] (GCmp c (TStr t)))) =
       (if denegated c \<notin> {EQ, NE} then Inr Refused else built (ArgPredicate p (denegated c) (PScalar (VStr t))))"
    using quoted_plain[OF assms] comparison_text[of c] quoted_plain_end[of t] quote_plain[of t] no
    by (simp add: clause_eval var_text_def)
qed

declare stmt_text.simps [simp del]

section \<open>A block as it is printed\<close>

fun is_fact :: "dl_stmt \<Rightarrow> bool" where
  "is_fact (Fact p ts) = True"
| "is_fact _ = False"

fun term_strings :: "dl_term \<Rightarrow> string set" where
  "term_strings (TStr s) = {s}"
| "term_strings (TSet S) = S"
| "term_strings _ = {}"

fun guard_strings :: "dl_guard \<Rightarrow> string set" where
  "guard_strings (GContains S) = S"
| "guard_strings (GNotContains S) = S"
| "guard_strings (GCmp c t) = term_strings t"

fun stmt_strings :: "dl_stmt \<Rightarrow> string set" where
  "stmt_strings (Fact p ts) = \<Union> (term_strings ` set ts)"
| "stmt_strings (CheckIf p ts g) = \<Union> (term_strings ` set ts) \<union> guard_strings g"
| "stmt_strings (CheckJoin p q) = {}"
| "stmt_strings (RejectIf p ts g) = \<Union> (term_strings ` set ts) \<union> guard_strings g"

definition plain_stmt :: "dl_stmt \<Rightarrow> bool" where
  "plain_stmt s = (\<forall>x \<in> stmt_strings s. plain x)"

definition canonical_source :: "dl_stmt list \<Rightarrow> string" where
  "canonical_source stmts = source_lines (map stmt_text (filter is_fact stmts @ filter (\<lambda>s. \<not> is_fact s) stmts))"

text \<open>
  What a caveat is read back as, when its strings can be told apart in the text: a window as its
  two bounds at whole seconds, an approval requirement as the scopes it adds.
\<close>

fun read_back :: "caveat \<Rightarrow> caveat list" where
  "read_back (TimeWindow nb na) =
     (case nb of None \<Rightarrow> [] | Some t \<Rightarrow> [TimeWindow (Some (t div 1000000 * 1000000)) None])
     @ (case na of None \<Rightarrow> [] | Some t \<Rightarrow> [TimeWindow None (Some (t div 1000000 * 1000000))])"
| "read_back (RequiresApproval S) = []"
| "read_back c = [c]"

fun approvals :: "caveat \<Rightarrow> string set" where
  "approvals (RequiresApproval S) = S"
| "approvals _ = {}"

fun printable_value :: "arg_operator \<Rightarrow> pred_value \<Rightarrow> bool" where
  "printable_value op (PSet S) = (finite S \<and> (\<forall>s \<in> S. plain_member s))"
| "printable_value op (PScalar (VNum v)) = (\<bar>v\<bar> < 10 ^ 24)"
| "printable_value op (PScalar (VStr s)) = (plain s \<and> (op = EQ \<or> op = NE))"

fun printable :: "caveat \<Rightarrow> bool" where
  "printable (ScopeSubset S) = (finite S \<and> (\<forall>s \<in> S. plain_member s))"
| "printable (ToolAllow S) = (finite S \<and> (\<forall>s \<in> S. plain_member s))"
| "printable (ToolDeny S) = (finite S \<and> (\<forall>s \<in> S. plain_member s))"
| "printable (TimeWindow nb na) = (within_opt four_digit_year nb \<and> within_opt four_digit_year na)"
| "printable (ArgPredicate p op v) = (plain p \<and> printable_value op v)"
| "printable (IntentBound h) = plain h"
| "printable (RequiresApproval S) = (finite S \<and> (\<forall>s \<in> S. plain s))"
| "printable _ = True"

lemma negated_denegated: "negated op = Inr c \<Longrightarrow> denegated c = op"
  by (cases op) auto

lemma year_of_second: "four_digit_year t \<Longrightarrow> four_digit_year (t div 1000000 * 1000000)"
proof -
  have "t div 1000000 * 1000000 div 86400000000 = t div 1000000 div 86400"
    using zdiv_zmult2_eq[of 86400 "t div 1000000 * 1000000" 1000000] by simp
  moreover have "t div 86400000000 = t div 1000000 div 86400" by (simp add: zdiv_zmult2_eq[symmetric])
  ultimately show "four_digit_year t \<Longrightarrow> four_digit_year (t div 1000000 * 1000000)" by (simp add: four_digit_year_def)
qed

lemma built_ok: "caveat_wf c \<Longrightarrow> built c = Inr (IsCaveat c)"
  by (simp add: built_def mk_caveat_def)

text \<open>Reading the clauses of one caveat.\<close>

lemma caveat_clauses:
  assumes "caveat_wf c" "printable c" "to_datalog c = Inr ss"
  shows "traverseE (\<lambda>s. clause (stmt_text s)) (filter (\<lambda>s. \<not> is_fact s) ss) = Inr (map IsCaveat (read_back c))"
  using assms
proof (cases c)
  case (BudgetCeiling d v)
  have "\<bar>v\<bar> < 10 ^ 24" using assms(1) BudgetCeiling by (simp add: money_def)
  then show ?thesis using assms BudgetCeiling scale_unscale by (auto simp: clause_budget built_ok)
next
  case (TimeWindow nb na)
  have wf: "caveat_wf (TimeWindow (Some t) None)" "caveat_wf (TimeWindow None (Some t))" for t by simp_all
  have y: "four_digit_year t \<Longrightarrow> four_digit_year (t div 1000000 * 1000000)" for t by (rule year_of_second)
  show ?thesis
    using assms TimeWindow clause_time[OF y] built_ok[OF wf(1)] built_ok[OF wf(2)]
    by (cases nb; cases na) (auto simp: datalog_date_def)
next
  case (ArgPredicate p op v)
  show ?thesis
  proof (cases v)
    case (PSet S)
    then show ?thesis using assms ArgPredicate clause_arg_member[of p S] built_ok by (cases op) (auto)
  next
    case (PScalar x)
    then obtain neg t where nt: "negated op = Inr neg" "dl_term_of x = Inr t" "ss = [RejectIf ''arg'' [TStr p] (GCmp neg t)]"
      using assms(3) ArgPredicate by (cases op) auto
    have d: "denegated neg = op" by (rule negated_denegated[OF nt(1)])
    show ?thesis
    proof (cases x)
      case (VNum n)
      then obtain k where "t = TInt k" "scale n = Inr k" using nt(2) by auto
      then show ?thesis using assms ArgPredicate PScalar VNum nt d scale_unscale[of n k] clause_arg_scalar(1)[of p neg k] built_ok
        by (auto)
    next
      case (VStr n)
      then show ?thesis using assms ArgPredicate PScalar nt d clause_arg_scalar(2)[of p n neg] built_ok
        by (auto)
    qed
  qed
next
  case (RequiresApproval S)
  then show ?thesis using assms by (auto simp: string_facts_def filter_empty_conv)
qed (auto simp: clause_contains clause_depth clause_intent built_ok)

text \<open>Every statement a plain caveat compiles to is one the scanner keeps whole.\<close>

fun sound_term :: "dl_term \<Rightarrow> bool" where
  "sound_term (TStr s) = plain s"
| "sound_term (TInt i) = True"
| "sound_term (TDate n) = four_digit_year (n * 1000000)"
| "sound_term (TSet S) = (finite S \<and> (\<forall>s \<in> S. plain s))"

fun sound_guard :: "dl_guard \<Rightarrow> bool" where
  "sound_guard (GContains S) = (finite S \<and> (\<forall>s \<in> S. plain s))"
| "sound_guard (GNotContains S) = (finite S \<and> (\<forall>s \<in> S. plain s))"
| "sound_guard (GCmp c t) = sound_term t"

fun sound_stmt :: "dl_stmt \<Rightarrow> bool" where
  "sound_stmt (Fact p ts) = (closed_from False p \<and> p \<noteq> [] \<and> \<not> space_char (hd p) \<and> list_all sound_term ts)"
| "sound_stmt (CheckIf p ts g) = (closed_from False p \<and> list_all sound_term ts \<and> sound_guard g)"
| "sound_stmt (CheckJoin p q) = (closed_from False p \<and> closed_from False q)"
| "sound_stmt (RejectIf p ts g) = (closed_from False p \<and> list_all sound_term ts \<and> sound_guard g)"

lemma space_eval: "\<not> space_char CHR ''c''" "\<not> space_char CHR ''r''" "\<not> space_char CHR '')''" "\<not> space_char CHR ''Z''"
  "\<not> space_char quote_char" "\<not> space_char CHR ''a''" "\<not> space_char CHR ''d''" "\<not> space_char CHR '']''"
  by code_simp+

lemma sound_term_text:
  assumes "sound_term t"
  shows "closed_from False (term_text t) \<and> term_text t \<noteq> [] \<and> \<not> space_char (last (term_text t))"
proof (cases t)
  case (TStr x)
  then show ?thesis using assms space_eval by (auto simp: quote_plain closed_literal)
next
  case (TInt i)
  have "\<not> space_char (last (int_str i))" using int_str_num[of i] int_str_nonempty[of i] num_char_closed by (metis last_in_set)
  then show ?thesis using TInt int_str_nonempty by (simp add: closed_int)
next
  case (TDate n)
  have "last (utc_text t') = CHR ''Z''" "utc_text t' \<noteq> []" for t' by (simp_all add: utc_text_def Let_def split: prod.splits)
  then show ?thesis using TDate assms space_eval by (simp add: closed_date)
next
  case (TSet S)
  have "set_literal S \<noteq> []" "last (set_literal S) = CHR '']''" by (simp_all add: set_literal_def)
  then show ?thesis using TSet assms space_eval by (simp add: closed_set)
qed

lemma sound_guard_text:
  assumes "sound_guard g" "closed_from False v"
  shows "closed_from False (guard_text v g) \<and> guard_text v g \<noteq> [] \<and> \<not> space_char (last (guard_text v g))"
proof (cases g)
  case (GCmp c t)
  have "closed_from False (cmp_text c)" by (cases c) simp_all
  then show ?thesis using GCmp assms sound_term_text[of t] by (auto simp: closed_append)
qed (use assms space_eval in \<open>auto simp: closed_append closed_set\<close>)

lemma var_text_closed: "closed_from False (var_text p)"
  by (simp add: var_text_def)

lemma sound_args: "list_all sound_term ts \<Longrightarrow> list_all (closed_from False) (map term_text ts)"
  using sound_term_text by (auto simp: list_all_iff)

lemma sound_whole: "sound_stmt s \<Longrightarrow> whole_statement (stmt_text s)"
proof (cases s)
  case (Fact p ts)
  moreover assume "sound_stmt s"
  ultimately show ?thesis using space_eval closed_join[OF sound_args, of ts]
    by (simp add: whole_statement_def stmt_text.simps closed_append)
next
  case (CheckIf p ts g)
  moreover assume "sound_stmt s"
  ultimately have "closed_from False p" "closed_from False (join_text '', '' (map term_text ts @ [var_text p]))"
    "closed_from False (guard_text (var_text p) g) \<and> guard_text (var_text p) g \<noteq> [] \<and> \<not> space_char (last (guard_text (var_text p) g))"
    using sound_args[of ts] var_text_closed[of p] sound_guard_text[of g "var_text p"] by (auto intro!: closed_join)
  then show ?thesis using CheckIf space_eval by (simp add: whole_statement_def stmt_text.simps closed_append)
next
  case (CheckJoin p q)
  moreover assume "sound_stmt s"
  ultimately show ?thesis using space_eval var_text_closed[of p]
    by (simp add: whole_statement_def stmt_text.simps closed_append)
next
  case (RejectIf p ts g)
  moreover assume "sound_stmt s"
  ultimately have "closed_from False p" "closed_from False (join_text '', '' (map term_text ts @ [var_text p]))"
    "closed_from False (guard_text (var_text p) g) \<and> guard_text (var_text p) g \<noteq> [] \<and> \<not> space_char (last (guard_text (var_text p) g))"
    using sound_args[of ts] var_text_closed[of p] sound_guard_text[of g "var_text p"] by (auto intro!: closed_join)
  then show ?thesis using RejectIf space_eval by (simp add: whole_statement_def stmt_text.simps closed_append)
qed

lemma sound_plain: "sound_stmt s \<Longrightarrow> plain_stmt s"
proof -
  have t: "sound_term t \<Longrightarrow> x \<in> term_strings t \<Longrightarrow> plain x" for t x by (cases t) auto
  have g: "sound_guard g \<Longrightarrow> x \<in> guard_strings g \<Longrightarrow> plain x" for g x by (cases g) (auto intro: t)
  show "sound_stmt s \<Longrightarrow> plain_stmt s" by (cases s) (auto simp: plain_stmt_def list_all_iff intro: t g)
qed

lemma dimension_plain: "plain (dimension_value d)"
  by (cases d) (simp_all add: plain_def)

lemma caveat_sound:
  assumes "caveat_wf c" "printable c" "to_datalog c = Inr ss"
  shows "list_all sound_stmt ss"
proof (cases c)
  case (ArgPredicate p op v)
  have pm: "plain_member x \<Longrightarrow> plain x" for x by (simp add: plain_member_def)
  show ?thesis
  proof (cases v)
    case (PSet S)
    then show ?thesis using assms ArgPredicate pm by (cases op) auto
  next
    case (PScalar x)
    then show ?thesis using assms ArgPredicate by (cases op; cases x) auto
  qed
next
  case (TimeWindow nb na)
  then show ?thesis using assms year_of_second by (cases nb; cases na) (auto simp: datalog_date_def)
next
  case (RequiresApproval S)
  then show ?thesis using assms space_eval by (auto simp: string_facts_def list_all_iff)
qed (use assms in \<open>auto simp: plain_member_def dimension_plain\<close>)

section \<open>Reading the statements of a block\<close>

definition short_stmt :: "dl_stmt \<Rightarrow> bool" where
  "short_stmt s = (length (stmt_text s) \<le> MAX_STATEMENT_LENGTH)"

lemma read_statements_append:
  "read_statements (a @ b) r = bindE (read_statements a r) (\<lambda>r'. read_statements b r')"
proof (induction a arbitrary: r)
  case (Cons s a)
  then show ?case by (cases "read_statement s r") simp_all
qed simp

lemma read_clauses:
  assumes "list_all short_stmt ss" "list_all (\<lambda>s. \<not> is_fact s) ss" "traverseE (\<lambda>s. clause (stmt_text s)) ss = Inr (map IsCaveat cs)"
  shows "read_statements (map stmt_text ss) r = Inr (r\<lparr>rg_caveats := rg_caveats r @ cs\<rparr>)"
  using assms
proof (induction ss arbitrary: cs r)
  case (Cons s ss)
  then obtain c cs' where c: "clause (stmt_text s) = Inr (IsCaveat c)" "traverseE (\<lambda>s. clause (stmt_text s)) ss = Inr (map IsCaveat cs')" "cs = c # cs'"
    by auto
  have "starts_with ''check if '' (stmt_text s) \<or> starts_with ''reject if '' (stmt_text s)"
    using Cons.prems(2) by (cases s) (simp_all add: starts_with_def stmt_text.simps)
  then have "read_statement (stmt_text s) r = Inr (r\<lparr>rg_caveats := rg_caveats r @ [c]\<rparr>)"
    using Cons.prems(1) c(1) by (auto simp: read_statement_def short_stmt_def)
  then show ?case using Cons.IH[OF _ _ c(2)] Cons.prems c(3) by simp
qed simp

lemma fact_re_text:
  assumes "list_all ident_char p" "p \<noteq> []" "lower_char (hd p)"
  shows "fact_re (p @ ''('' @ ts @ '')'') = Some (p, ts)"
proof -
  have no: "\<not> ident_char CHR ''(''" by code_simp
  have "takeWhile ident_char (p @ ''('' @ ts @ '')'') = p" "dropWhile ident_char (p @ ''('' @ ts @ '')'') = ''('' @ ts @ '')''"
    using assms(1) no by (induction p) auto
  moreover have "dollar (''('' @ ts @ '')'') = ''('' @ ts @ '')''" by (simp add: dollar_def newline_def)
  ultimately show ?thesis using assms(2,3) by (simp add: fact_re_def Let_def)
qed

lemma read_fact_text:
  assumes "short_stmt (Fact p ts)" "list_all ident_char p" "p \<noteq> []" "lower_char (hd p)"
    "\<not> starts_with ''check if '' (stmt_text (Fact p ts))" "\<not> starts_with ''reject if '' (stmt_text (Fact p ts))"
  shows "read_statement (stmt_text (Fact p ts)) r
    = Inr (read_fact (stmt_text (Fact p ts)) p (join_text '', '' (map term_text ts)) r)"
  using assms fact_re_text[OF assms(2-4)] by (simp add: read_statement_def short_stmt_def stmt_text.simps)

lemma read_approval:
  assumes "plain x" "short_stmt (Fact ''requires_approval'' [TStr x])"
  shows "read_statement (stmt_text (Fact ''requires_approval'' [TStr x])) r
    = Inr (r\<lparr>rg_approval_scopes := insert x (rg_approval_scopes r)\<rparr>)"
proof -
  have "list_all ident_char ''requires_approval''" "lower_char (hd ''requires_approval'')" by code_simp+
  from read_fact_text[OF assms(2) this(1) _ this(2)] show ?thesis
    using assms(1) by (simp add: starts_with_def stmt_text.simps read_fact_def AUTHORITY_FACTS_def IDENTITY_STRING_FACTS_def
        strip_quote member_re_quote)
qed

lemma read_approvals:
  assumes "list_all plain xs" "list_all short_stmt (map (\<lambda>x. Fact ''requires_approval'' [TStr x]) xs)"
  shows "read_statements (map stmt_text (map (\<lambda>x. Fact ''requires_approval'' [TStr x]) xs)) r
    = Inr (r\<lparr>rg_approval_scopes := rg_approval_scopes r \<union> set xs\<rparr>)"
  using assms by (induction xs arbitrary: r) (auto simp: read_approval)

lemma caveat_facts:
  assumes "caveat_wf c" "printable c" "to_datalog c = Inr ss" "list_all short_stmt ss"
  shows "read_statements (map stmt_text (filter is_fact ss)) r = Inr (r\<lparr>rg_approval_scopes := rg_approval_scopes r \<union> approvals c\<rparr>)"
proof (cases c)
  case (RequiresApproval S)
  then have ss: "filter is_fact ss = map (\<lambda>x. Fact ''requires_approval'' [TStr x]) (sorted_list_of_set S)"
    using assms(3) by (auto simp: string_facts_def comp_def)
  have "list_all short_stmt (filter is_fact ss)" using assms(4) by (auto simp: list_all_iff)
  then show ?thesis using RequiresApproval assms(2) read_approvals[of "sorted_list_of_set S" r] ss by (simp add: list_all_iff)
next
  case (ArgPredicate p op v)
  then have "filter is_fact ss = []" using assms(1,3) by (cases v; cases op) auto
  then show ?thesis using ArgPredicate by simp
next
  case (TimeWindow nb na)
  then have "filter is_fact ss = []" using assms(3) by (cases nb; cases na) auto
  then show ?thesis using TimeWindow by simp
qed (use assms in auto)

lemma block_reads:
  assumes "list_all caveat_wf cs" "list_all printable cs" "block_datalog cs = Inr body" "list_all short_stmt body"
  shows "read_statements (map stmt_text (filter is_fact body)) r
      = Inr (r\<lparr>rg_approval_scopes := rg_approval_scopes r \<union> \<Union> (approvals ` set cs)\<rparr>)"
    "read_statements (map stmt_text (filter (\<lambda>s. \<not> is_fact s) body)) r = Inr (r\<lparr>rg_caveats := rg_caveats r @ concat (map read_back cs)\<rparr>)"
    "list_all sound_stmt body"
proof -
  have "read_statements (map stmt_text (filter is_fact body)) r
      = Inr (r\<lparr>rg_approval_scopes := rg_approval_scopes r \<union> \<Union> (approvals ` set cs)\<rparr>)
    \<and> read_statements (map stmt_text (filter (\<lambda>s. \<not> is_fact s) body)) r = Inr (r\<lparr>rg_caveats := rg_caveats r @ concat (map read_back cs)\<rparr>)
    \<and> list_all sound_stmt body"
    using assms
  proof (induction cs arbitrary: body r)
    case (Cons c cs)
    then obtain ss rest where ss: "to_datalog c = Inr ss" "block_datalog cs = Inr rest" "body = ss @ rest"
      by (auto simp: block_datalog_def)
    have c: "caveat_wf c" "printable c" "list_all short_stmt ss" "list_all short_stmt rest" using Cons.prems ss(3) by simp_all
    have short: "list_all short_stmt (filter (\<lambda>s. \<not> is_fact s) ss)" using c(3) by (auto simp: list_all_iff)
    have "read_statements (map stmt_text (filter (\<lambda>s. \<not> is_fact s) ss)) r = Inr (r\<lparr>rg_caveats := rg_caveats r @ read_back c\<rparr>)" for r
      using read_clauses[OF short _ caveat_clauses[OF c(1,2) ss(1)]] by (simp add: list_all_iff)
    then show ?case
      using Cons.IH[OF _ _ ss(2) c(4)] Cons.prems caveat_facts[OF c(1,2) ss(1) c(3)] caveat_sound[OF c(1,2) ss(1)] ss(3)
      by (simp add: read_statements_append Un_assoc)
  qed (auto simp: block_datalog_def)
  then show "read_statements (map stmt_text (filter is_fact body)) r
      = Inr (r\<lparr>rg_approval_scopes := rg_approval_scopes r \<union> \<Union> (approvals ` set cs)\<rparr>)"
    "read_statements (map stmt_text (filter (\<lambda>s. \<not> is_fact s) body)) r = Inr (r\<lparr>rg_caveats := rg_caveats r @ concat (map read_back cs)\<rparr>)"
    "list_all sound_stmt body" by blast+
qed

section \<open>The identity of a block\<close>

lemma label_plain: "label_ok x \<Longrightarrow> plain x \<and> x \<noteq> []"
  by (auto simp: validate_label_def code_points_def plain_def list_all_iff list_ex_iff unsafe_label_code_def is_ok_iff split: if_splits)

lemma read_identity_string:
  assumes "plain x" "p = ''agent'' \<or> p = ''role''" "short_stmt (Fact p [TStr x])"
  shows "read_statement (stmt_text (Fact p [TStr x])) r = Inr (r\<lparr>rg_facts := rg_facts r @ [(p, x)]\<rparr>)"
proof -
  have "list_all ident_char ''agent''" "lower_char (hd ''agent'')" "list_all ident_char ''role''" "lower_char (hd ''role'')" by code_simp+
  then have "list_all ident_char p" "lower_char (hd p)" using assms(2) by auto
  from read_fact_text[OF assms(3) this(1) _ this(2)] show ?thesis
    using assms(1,2) by (auto simp: starts_with_def stmt_text.simps read_fact_def AUTHORITY_FACTS_def IDENTITY_STRING_FACTS_def
        strip_quote member_re_quote)
qed

lemma grouped_all_digits: "ds \<noteq> [] \<Longrightarrow> list_all digit_char ds \<Longrightarrow> grouped_digits ds"
proof (induction ds rule: grouped_digits.induct)
  case (3 c d cs)
  have "\<not> digit_char CHR ''_''" by code_simp
  then show ?case using 3 by auto
qed auto

lemma nat_str_int_of_text: "int_of_text (nat_str n) = Some (int n)" "strip (nat_str n) = nat_str n"
proof -
  have sign: "\<not> digit_char CHR ''-''" "\<not> digit_char CHR ''+''" "\<not> digit_char CHR ''_''" by code_simp+
  obtain c cs where c: "nat_str n = c # cs" using nat_str_nonempty by (cases "nat_str n") auto
  have digits: "\<forall>x \<in> set (nat_str n). digit_char x" using nat_str_reads(1)[of n] by (simp add: list_all_iff)
  have "c \<noteq> CHR ''-''" "c \<noteq> CHR ''+''" using digits c sign by auto
  then have "split_sign (nat_str n) = (False, nat_str n)" by (simp add: c)
  moreover have "filter (\<lambda>x. x \<noteq> CHR ''_'') (nat_str n) = nat_str n" using digits sign by (auto simp: filter_id_conv)
  ultimately show "int_of_text (nat_str n) = Some (int n)"
    using grouped_all_digits[OF nat_str_nonempty nat_str_reads(1)] nat_str_reads(2)[of n] by (simp add: int_of_text_def Let_def)
  have "\<not> space_char x" if "x \<in> set (nat_str n)" for x using num_char_closed nat_str_digits that by blast
  then have "\<not> space_char (hd (nat_str n))" "\<not> space_char (last (nat_str n))" using nat_str_nonempty by simp_all
  then show "strip (nat_str n) = nat_str n" by (rule strip_edges)
qed

lemma read_depth:
  assumes "0 \<le> n" "short_stmt (Fact ''declared_depth'' [TInt n])"
  shows "read_statement (stmt_text (Fact ''declared_depth'' [TInt n])) r = Inr (r\<lparr>rg_facts := rg_facts r @ [(''declared_depth'', nat_str (nat n))]\<rparr>)"
proof -
  have "list_all ident_char ''declared_depth''" "lower_char (hd ''declared_depth'')" by code_simp+
  from read_fact_text[OF assms(2) this(1) _ this(2)] show ?thesis
    using assms(1) nat_str_int_of_text(2) by (simp add: starts_with_def stmt_text.simps read_fact_def AUTHORITY_FACTS_def
        IDENTITY_STRING_FACTS_def int_str_def)
qed

definition identity_facts :: "string \<Rightarrow> string \<Rightarrow> int \<Rightarrow> dl_stmt list" where
  "identity_facts agent_id role depth =
     [Fact ''agent'' [TStr agent_id], Fact ''role'' [TStr role], Fact ''declared_depth'' [TInt depth]]"

lemma read_identity:
  assumes "plain a" "plain r" "0 \<le> n" "list_all short_stmt (identity_facts a r n)"
  shows "read_statements (map stmt_text (identity_facts a r n)) rg
    = Inr (rg\<lparr>rg_facts := rg_facts rg @ [(''agent'', a), (''role'', r), (''declared_depth'', nat_str (nat n))]\<rparr>)"
  using assms read_identity_string[of a "''agent''"] read_identity_string[of r "''role''"] read_depth[of n]
  by (simp add: identity_facts_def)

lemma identity_read:
  assumes "label_ok a" "label_ok r" "0 \<le> n"
  shows "identity_from [(''agent'', a), (''role'', r), (''declared_depth'', nat_str (nat n))]
    = (\<lparr>bi_agent_id = Some a, bi_role = Some r, bi_declared_depth = Some n\<rparr>, [])"
  using assms by (simp add: identity_from_def one_value_def fact_values_def refined_def label_of_def nat_str_int_of_text)

section \<open>The printer\<close>

locale block_printer =
  fixes source :: "dl_stmt list \<Rightarrow> string"
  assumes prints: "list_all plain_stmt stmts \<Longrightarrow> source stmts = canonical_source stmts"
begin

lemma reads_back:
  assumes ids: "label_ok a" "label_ok r" "0 \<le> n"
    and cs: "list_all caveat_wf cs" "list_all printable cs" "block_datalog cs = Inr body"
    and size: "list_all short_stmt (identity_facts a r n @ body)" "length (identity_facts a r n @ body) \<le> MAX_STATEMENTS_PER_BLOCK"
  shows "parse_block_source (source (identity_facts a r n @ body)) i =
    Inr \<lparr>pk_index = i, pk_identity = \<lparr>bi_agent_id = Some a, bi_role = Some r, bi_declared_depth = Some n\<rparr>,
         pk_caveats = concat (map read_back cs)
           @ (if \<Union> (approvals ` set cs) = {} then [] else [RequiresApproval (\<Union> (approvals ` set cs))]),
         pk_unrecognized = [], pk_duplicate_facts = []\<rparr>"
proof -
  let ?all = "identity_facts a r n @ body"
  have short: "list_all short_stmt body" "list_all short_stmt (identity_facts a r n)" using size(1) by simp_all
  note b = block_reads[OF cs short(1)]
  have pl: "plain a" "plain r" using ids label_plain by blast+
  have "list_all sound_stmt (identity_facts a r n)" using pl space_eval by (simp add: identity_facts_def)
  then have sound: "list_all sound_stmt ?all" using b(3) by simp
  then have src: "source ?all = canonical_source ?all" using prints sound_plain by (auto simp: list_all_iff)
  let ?order = "filter is_fact ?all @ filter (\<lambda>s. \<not> is_fact s) ?all"
  have "length ?order = length ?all" by (simp add: sum_length_filter_compl del: filter_append)
  then have "statements (canonical_source ?all) = map stmt_text ?order"
    unfolding canonical_source_def using sound size(2) sound_whole
    by (intro statements_source_lines) (auto simp: list_all_iff simp del: filter_append)
  moreover have "map stmt_text ?order = map stmt_text (identity_facts a r n) @ map stmt_text (filter is_fact body)
      @ map stmt_text (filter (\<lambda>s. \<not> is_fact s) body)" by (simp add: identity_facts_def)
  ultimately have lines: "statements (source ?all) = map stmt_text (identity_facts a r n) @ map stmt_text (filter is_fact body)
      @ map stmt_text (filter (\<lambda>s. \<not> is_fact s) body)" using src by metis
  show ?thesis
    using b(1,2) identity_read[OF ids] read_identity[OF pl ids(3) short(2)]
    by (simp add: parse_block_source_def lines read_statements_append mk_caveat_def)
qed

end

interpretation canonical: block_printer canonical_source
  by unfold_locales simp

section \<open>What the caveats read back allow\<close>

lemma read_back_allows:
  assumes "caveat_wf c" "whole_second_bounds c"
  shows "evaluate c ctx = Inr allow_result
    \<longleftrightarrow> list_all (\<lambda>c. evaluate c ctx = Inr allow_result) (read_back c) \<and> operation ctx \<notin> approvals c"
proof (cases c)
  case (TimeWindow nb na)
  have second: "t mod 1000000 = 0 \<Longrightarrow> t div 1000000 * 1000000 = t" for t :: int by (simp add: mod_0_imp_dvd)
  show ?thesis using TimeWindow assms second by (cases nb; cases na) auto
qed auto

lemma read_back_all_allow:
  assumes "list_all caveat_wf cs" "list_all whole_second_bounds cs"
  shows "list_all (\<lambda>c. evaluate c ctx = Inr allow_result)
      (concat (map read_back cs) @ (if \<Union> (approvals ` set cs) = {} then [] else [RequiresApproval (\<Union> (approvals ` set cs))]))
    \<longleftrightarrow> list_all (\<lambda>c. evaluate c ctx = Inr allow_result) cs"
proof -
  have "(\<forall>c \<in> set cs. evaluate c ctx = Inr allow_result) \<longleftrightarrow>
      (\<forall>c \<in> set cs. list_all (\<lambda>c. evaluate c ctx = Inr allow_result) (read_back c) \<and> operation ctx \<notin> approvals c)"
    using assms read_back_allows by (auto simp: list_all_iff)
  then show ?thesis by (auto simp: list_all_iff)
qed

section \<open>Properties\<close>

text \<open>
  C15: What a parent writes into a block is read back from its rendered text.  The premises: a printer
  with the documented behaviour, caveats that are well formed and whose texts are printable (the text
  form keeps them apart), statements within the reader's length limit and at most 512 of them.  Then
  for the block \<open>attenuate\<close> appends the reader recognizes every statement, recovers the agent, the
  role and the depth, and recovers the caveats in order, windows split into their bounds and approval
  scopes collected at the end; and if the bounds are whole seconds, the recovered list allows exactly
  the requests the original allows.
\<close>
theorem delegated_block_reads_back:
  assumes printer: "block_printer source"
    and att: "attenuate lib parent cs a r anc = Inr child" and depth: "0 \<le> vt_depth parent"
    and cs: "list_all caveat_wf cs" "list_all printable cs"
    and size: "\<And>body. block_datalog cs = Inr body \<Longrightarrow> list_all short_stmt (identity_facts a r (vt_depth parent + 1) @ body)
      \<and> length (identity_facts a r (vt_depth parent + 1) @ body) \<le> MAX_STATEMENTS_PER_BLOCK"
  shows "\<exists>stmts b. child = bl_to_base64 lib (bl_append lib (vt_biscuit parent) stmts)
    \<and> parse_block_source (source stmts) i = Inr b \<and> complete b \<and> pk_duplicate_facts b = []
    \<and> pk_identity b = \<lparr>bi_agent_id = Some a, bi_role = Some r, bi_declared_depth = Some (vt_depth parent + 1)\<rparr>
    \<and> pk_caveats b = concat (map read_back cs)
        @ (if \<Union> (approvals ` set cs) = {} then [] else [RequiresApproval (\<Union> (approvals ` set cs))])
    \<and> (list_all whole_second_bounds cs \<longrightarrow>
         (\<forall>ctx. list_all (\<lambda>c. evaluate c ctx = Inr allow_result) (pk_caveats b)
               \<longleftrightarrow> list_all (\<lambda>c. evaluate c ctx = Inr allow_result) cs))"
proof -
  let ?n = "vt_depth parent + 1"
  obtain body where body: "block_datalog cs = Inr body" "label_ok a" "label_ok r"
    "child = bl_to_base64 lib (bl_append lib (vt_biscuit parent) (identity_facts a r ?n @ body))"
    using att by (auto simp: attenuate_def identity_facts_def Let_def is_ok_iff split: if_splits)
  note rb = block_printer.reads_back[OF printer body(2,3) _ cs body(1) conjunct1[OF size[OF body(1)]] conjunct2[OF size[OF body(1)]], of i]
  show ?thesis
    using body(4) rb depth read_back_all_allow[OF cs(1)]
    by (intro exI[of _ "identity_facts a r ?n @ body"]) (simp add: complete_def)
qed

text \<open>
  The cap on statements drops restrictions without saying so.  Once a block has rendered as
  many statements as the cap, whatever follows has no influence on what is read: not on the
  caveats, and not on the list of unrecognized statements that says a reading is incomplete.
\<close>
theorem statements_beyond_cap_dropped:
  assumes "list_all whole_statement ss" "length ss = MAX_STATEMENTS_PER_BLOCK"
  shows "statements (source_lines ss @ rest) = ss
    \<and> parse_block_source (source_lines ss @ rest) i = parse_block_source (source_lines ss) i"
proof -
  have scan: "char_scan False current acc (source_lines xs @ rest) = acc @ xs"
    if "list_all whole_statement xs" "xs \<noteq> []" "length acc + length xs = MAX_STATEMENTS_PER_BLOCK" "current = [] \<or> current = [newline]"
    for xs acc current
    using that
  proof (induction xs arbitrary: acc current)
    case (Cons x xs)
    have st: "strip (current @ x) = x" using Cons.prems strip_whole strip_newline_whole by auto
    have "closed_from False x" using Cons.prems by (simp add: whole_statement_def)
    from char_scan_closed[OF this, of current acc "'';'' @ [newline] @ source_lines xs @ rest"]
    have run: "char_scan False current acc (source_lines (x # xs) @ rest)
        = char_scan False (current @ x) acc ('';'' @ [newline] @ source_lines xs @ rest)"
      by (simp add: source_lines_def)
    show ?case
    proof (cases "xs = []")
      case True
      then show ?thesis using run st Cons.prems(3) by (simp add: Let_def)
    next
      case False
      then have "Suc (length acc) < MAX_STATEMENTS_PER_BLOCK" using Cons.prems(3) by (cases xs) simp_all
      then show ?thesis using run Cons.IH[of "acc @ [x]" "[newline]"] Cons.prems st False by (simp add: Let_def newline_def)
    qed
  qed simp
  have "ss \<noteq> []" using assms(2) by (auto simp: MAX_STATEMENTS_PER_BLOCK_def)
  moreover have "filter (\<lambda>s. s \<noteq> []) ss = ss" using assms(1) by (induction ss) (auto simp: whole_statement_def)
  ultimately have "statements (source_lines ss @ rest) = ss" using scan[OF assms(1), of "[]" "[]"] assms(2) by (simp add: statements_char_scan)
  then show ?thesis using statements_source_lines[OF assms(1)] assms(2) by (simp add: parse_block_source_def)
qed

text \<open>
  A term the caveat model refuses is not reported as unrecognized: reading the block raises.
\<close>
theorem invalid_scope_raises:
  assumes "finite S" "\<forall>s \<in> S. plain_member s" "s \<in> S" "\<not> scope_re s"
    "short_stmt (CheckIf ''operation'' [] (GContains S))"
  shows "parse_block_source (canonical_source [CheckIf ''operation'' [] (GContains S)]) i = Inl ValueError"
proof -
  let ?s = "CheckIf ''operation'' [] (GContains S)"
  have sound: "sound_stmt ?s" using assms(1,2) by (simp add: plain_member_def)
  have "statements (canonical_source [?s]) = [stmt_text ?s]"
    using statements_source_lines[of "[stmt_text ?s]"] sound_whole[OF sound]
    by (simp add: canonical_source_def MAX_STATEMENTS_PER_BLOCK_def)
  moreover have "\<not> caveat_wf (ScopeSubset S)" using assms(3,4) by auto
  then have "clause (stmt_text ?s) = Inl ValueError" using clause_contains(1)[OF assms(1,2)] by (simp add: built_def mk_caveat_def)
  moreover have "starts_with ''check if '' (stmt_text ?s)" by (simp add: starts_with_def stmt_text.simps)
  ultimately show ?thesis using assms(5) by (simp add: parse_block_source_def read_statement_def short_stmt_def)
qed

section \<open>Witnesses\<close>

lemma demo_body:
  "block_datalog [ScopeSubset {''orders:read''}, BudgetCeiling SPEND_BDT 1] =
     Inr [CheckIf ''operation'' [] (GContains {''orders:read''}), CheckIf ''requested'' [TStr ''spend_bdt''] (GCmp CLe (TInt 10000))]"
  by (simp add: block_datalog_def scale_def BUDGET_SCALE_def whole_def)

lemma demo_block_short:
  "list_all short_stmt (identity_facts ''worker'' ''reader'' 1 @
     [CheckIf ''operation'' [] (GContains {''orders:read''}), CheckIf ''requested'' [TStr ''spend_bdt''] (GCmp CLe (TInt 10000))])"
  by (simp add: short_stmt_def identity_facts_def stmt_text.simps var_text_def set_literal_def quote_string_def int_str_def nat_str.simps
      MAX_STATEMENT_LENGTH_def)

theorem delegated_block_reads_back_witness:
  "\<exists>stmts b. parse_block_source (canonical_source stmts) 1 = Inr b \<and> complete b
     \<and> pk_caveats b = [ScopeSubset {''orders:read''}, BudgetCeiling SPEND_BDT 1]
     \<and> pk_identity b = \<lparr>bi_agent_id = Some ''worker'', bi_role = Some ''reader'', bi_declared_depth = Some 1\<rparr>"
proof -
  have wf: "list_all caveat_wf [ScopeSubset {''orders:read''}, BudgetCeiling SPEND_BDT 1]"
    "list_all printable [ScopeSubset {''orders:read''}, BudgetCeiling SPEND_BDT 1]"
    by (code_simp, simp add: plain_member_def plain_def)
  from delegated_block_reads_back[OF canonical.block_printer_axioms demo_attenuates _ wf, of 1]
  show ?thesis using demo_body demo_block_short
    by (auto simp: demo_token_fields MAX_STATEMENTS_PER_BLOCK_def identity_facts_def)
qed

lemma read_filler:
  "read_statements (replicate k ''task()'') r = Inr r"
proof (induction k)
  case (Suc k)
  have "list_all ident_char ''task''" "lower_char (hd ''task'')" by code_simp+
  from fact_re_text[OF this(1) _ this(2), of "[]"] have "fact_re ''task()'' = Some (''task'', [])" by simp
  then have "read_statement ''task()'' r = Inr r"
    by (simp add: read_statement_def starts_with_def read_fact_def AUTHORITY_FACTS_def MAX_STATEMENT_LENGTH_def)
  then show ?case using Suc by simp
qed simp

theorem statements_beyond_cap_dropped_witness:
  "\<exists>b. parse_block_source (source_lines (replicate 512 ''task()'') @ ''check if tool($t), [].contains($t);'') 1 = Inr b
     \<and> complete b \<and> pk_caveats b = []"
proof -
  have "whole_statement ''task()''" by code_simp
  then have w: "list_all whole_statement (replicate 512 ''task()'')" by (simp add: list_all_iff)
  have n: "length (replicate 512 ''task()'') = MAX_STATEMENTS_PER_BLOCK" by (simp add: MAX_STATEMENTS_PER_BLOCK_def)
  have st: "statements (source_lines (replicate 512 ''task()'')) = replicate 512 ''task()''"
    using statements_source_lines[OF w] n by simp
  then have "\<exists>b. parse_block_source (source_lines (replicate 512 ''task()'')) 1 = Inr b \<and> complete b \<and> pk_caveats b = []"
    unfolding parse_block_source_def st read_filler by (simp add: complete_def split: prod.splits)
  then show ?thesis using statements_beyond_cap_dropped[OF w n] by metis
qed

end
