(* ===== verification/Service.thy ===== *)
theory Service
  imports Pipeline BlockReader
begin

text \<open>
  \<open>scripts/pep_service.py\<close>: what the deployed enforcement point is assembled from.  The policy
  bundle is read and verified at boot, the organization's role assignments are read and screened,
  and the principal of a request is derived from the delegation path of its token.

  Reading a file is an argument: it fails, holds no JSON, or holds a value.  The settings taken from
  the environment, and the order in which all this happens, are in \<open>Startup\<close>.
\<close>

section \<open>Files\<close>

datatype 'a file_read = Unreadable | NotJson | FileValue 'a

datatype service_error = ServiceConfigError | ServiceRaised exc

section \<open>Role assignments\<close>

text \<open>\<open>"/".join(segments[:cut])\<close> for \<open>cut\<close> in \<open>range(1, len(segments))\<close>.\<close>

definition ancestors_of :: "string \<Rightarrow> string list" where
  "ancestors_of path =
     (let segments = split_on (CHR ''/'') path in map (\<lambda>cut. join_text ''/'' (take cut segments)) [1..<length segments])"

definition widens :: "string strmap \<Rightarrow> string \<times> string \<Rightarrow> bool" where
  "widens assignments x = (case x of (path, role) \<Rightarrow>
     path \<noteq> [] \<and> list_ex (\<lambda>a. case map_of assignments a of None \<Rightarrow> False | Some r \<Rightarrow> r \<noteq> role) (ancestors_of path))"

definition refuse_widening_roles :: "string strmap \<Rightarrow> service_error + unit" where
  "refuse_widening_roles assignments =
     (if list_ex (widens assignments) assignments then Inl ServiceConfigError else Inr ())"

text \<open>A parsed JSON object: a repeated key keeps its first place and its last value.\<close>

definition py_dict :: "(string \<times> 'v) list \<Rightarrow> 'v strmap" where
  "py_dict pairs = fold (\<lambda>(k, v) m. AList.update k v m) pairs []"

fun role_of_value :: "jval \<Rightarrow> string option" where
  "role_of_value (JStr s) = (if s = [] then None else Some s)"
| "role_of_value _ = None"

fun roles_of :: "jval strmap \<Rightarrow> (string strmap) option" where
  "roles_of [] = Some []"
| "roles_of ((path, v) # m) =
     (case role_of_value v of None \<Rightarrow> None | Some r \<Rightarrow> map_option (\<lambda>rs. (path, r) # rs) (roles_of m))"

text \<open>\<open>None\<close>: no file is configured.\<close>

definition load_role_assignments :: "jval file_read option \<Rightarrow> service_error + string strmap" where
  "load_role_assignments file =
     (case file of
        None \<Rightarrow> Inr []
      | Some (FileValue (JObj pairs)) \<Rightarrow>
          (case roles_of (py_dict pairs) of
             None \<Rightarrow> Inl ServiceConfigError
           | Some roles \<Rightarrow> bindE (refuse_widening_roles roles) (\<lambda>_. Inr roles))
      | Some _ \<Rightarrow> Inl ServiceConfigError)"

section \<open>The principal\<close>

record service_settings =
  sv_default_role :: string
  sv_roles :: "string strmap"

text \<open>\<open>role_assignments.get("/".join(chain.path), settings.default_role)\<close>.\<close>

definition role_for :: "service_settings \<Rightarrow> string list \<Rightarrow> string" where
  "role_for sv path = (case map_of (sv_roles sv) (join_text ''/'' path) of Some r \<Rightarrow> r | None \<Rightarrow> sv_default_role sv)"

definition principal_for ::
  "('b \<Rightarrow> nat \<Rightarrow> string) \<Rightarrow> ('b, 'k) biscuit_lib \<Rightarrow> service_settings \<Rightarrow> 'b verified_token \<Rightarrow> agent_principal py" where
  "principal_for block_source lib sv tok =
     bindE (chain_identity block_source lib tok) (\<lambda>chain.
       Inr \<lparr>ap_agent_id = (case bi_agent_id (ci_terminal chain) of
                             Some a \<Rightarrow> if a = [] then ''agt-depth-'' @ int_str (vt_depth tok) else a
                           | None \<Rightarrow> ''agt-depth-'' @ int_str (vt_depth tok)),
            ap_role = role_for sv (ci_path chain), ap_principal_id = vt_principal_id tok,
            ap_task_id = vt_task_id tok,
            ap_declared_role = (case bi_role (ci_terminal chain) of None \<Rightarrow> [] | Some r \<Rightarrow> r)\<rparr>)"

section \<open>The policy bundle\<close>

text \<open>The key is \<open>None\<close> when \<open>public_key_from_hex\<close> refuses its text.\<close>

definition load_policy ::
  "'pk verifier \<Rightarrow> 'ps cedar_lib \<Rightarrow> (pvalue \<Rightarrow> string) \<Rightarrow> 'pk option
    \<Rightarrow> (policy_bundle \<times> string) file_read \<Rightarrow> service_error + 'ps cedar_engine" where
  "load_policy check cedar str_of key file =
     (case (file, key) of
        (FileValue (b, sig), Some k) \<Rightarrow>
          (case verify_bundle check b sig k of
             Inl e \<Rightarrow> Inl (if e = ValueError then ServiceConfigError else ServiceRaised e)
           | Inr False \<Rightarrow> Inl ServiceConfigError
           | Inr True \<Rightarrow>
               (case mk_engine cedar str_of b None False of
                  None \<Rightarrow> Inl ServiceConfigError | Some g \<Rightarrow> Inr g))
      | _ \<Rightarrow> Inl ServiceConfigError)"

section \<open>Paths\<close>

lemma join_split: "join_text [c] (split_on c s) = s"
proof (induction s)
  case (Cons x s)
  obtain y ys where "split_on c s = y # ys" using split_on_nonempty by (cases "split_on c s") auto
  then show ?case using Cons by (cases ys) (auto simp: split_on_Cons)
qed simp

lemma split_append: "split_on c (a @ c # b) = split_on c a @ split_on c b"
proof (induction a)
  case (Cons x a)
  obtain y ys where "split_on c a = y # ys" using split_on_nonempty by (cases "split_on c a") auto
  then show ?case using Cons by (simp add: split_on_Cons)
qed (simp add: split_on_Cons)

lemma join_text_append: "xs \<noteq> [] \<Longrightarrow> ys \<noteq> [] \<Longrightarrow> join_text sep (xs @ ys) = join_text sep xs @ sep @ join_text sep ys"
proof (induction xs)
  case (Cons x xs)
  then show ?case by (cases xs; cases ys) simp_all
qed simp

lemma ancestor_of_extension:
  assumes "P \<noteq> []" "Q \<noteq> []"
  shows "join_text ''/'' P \<in> set (ancestors_of (join_text ''/'' (P @ Q)))"
proof -
  let ?c = "CHR ''/''" and ?p = "join_text ''/'' P" and ?q = "join_text ''/'' Q"
  have split: "split_on ?c (join_text ''/'' (P @ Q)) = split_on ?c ?p @ split_on ?c ?q"
    using join_text_append[OF assms] split_append by simp
  have "length (split_on ?c ?p) \<in> set [1..<length (split_on ?c ?p @ split_on ?c ?q)]"
    using split_on_nonempty by (auto simp: Suc_le_eq)
  then have "join_text ''/'' (take (length (split_on ?c ?p)) (split_on ?c ?p @ split_on ?c ?q)) \<in> set (ancestors_of (join_text ''/'' (P @ Q)))"
    unfolding ancestors_of_def split Let_def set_map by (rule imageI)
  then show ?thesis by (simp add: join_split)
qed

lemma accepted_roles:
  assumes ok: "load_role_assignments file = Inr roles" and p: "P \<noteq> []"
    and anc: "map_of roles (join_text ''/'' P) = Some r" and desc: "map_of roles (join_text ''/'' (P @ Q)) = Some r'"
  shows "r' = r"
proof (cases "Q = []")
  case False
  have "refuse_widening_roles roles = Inr () \<or> roles = []"
    using ok by (auto simp: load_role_assignments_def split: option.splits file_read.splits jval.splits sum.splits)
  then have "\<not> widens roles (join_text ''/'' (P @ Q), r')"
    using map_of_SomeD[OF desc] by (auto simp: refuse_widening_roles_def list_ex_iff split: if_splits)
  moreover have "join_text ''/'' (P @ Q) \<noteq> []" using join_text_append[OF p False] by simp
  ultimately show ?thesis using ancestor_of_extension[OF p False] anc by (auto simp: widens_def list_ex_iff)
qed (use anc desc in simp)

section \<open>Chains\<close>

text \<open>What appending blocks to a biscuit leaves: its own blocks, in place.\<close>

definition extends_token :: "('b \<Rightarrow> nat \<Rightarrow> string) \<Rightarrow> ('b, 'k) biscuit_lib \<Rightarrow> 'b \<Rightarrow> 'b \<Rightarrow> bool" where
  "extends_token block_source lib b b' =
     (1 \<le> bl_block_count lib b \<and> bl_block_count lib b \<le> bl_block_count lib b'
      \<and> list_all (\<lambda>i. block_source b' i = block_source b i) [0 ..< nat (bl_block_count lib b)])"

lemma traverseE_append:
  "traverseE f (xs @ ys) = Inr zs \<Longrightarrow> \<exists>us vs. traverseE f xs = Inr us \<and> traverseE f ys = Inr vs \<and> zs = us @ vs"
  by (induction xs arbitrary: zs) (auto split: sum.splits)

lemma traverseE_same: "list_all (\<lambda>x. f x = g x) xs \<Longrightarrow> traverseE f xs = traverseE g xs"
  by (induction xs) auto

lemma traverseE_length: "traverseE f xs = Inr ys \<Longrightarrow> length ys = length xs"
  by (induction xs arbitrary: ys) (auto split: sum.splits)

lemma extended_path:
  assumes ext: "extends_token bs lib (vt_biscuit tok) (vt_biscuit tok')"
    and c: "chain_identity bs lib tok = Inr c" and c': "chain_identity bs lib tok' = Inr c'"
  obtains Q where "ci_path c' = ci_path c @ Q"
proof -
  let ?n = "nat (bl_block_count lib (vt_biscuit tok))" and ?n' = "nat (bl_block_count lib (vt_biscuit tok'))"
  let ?f = "\<lambda>b i. parse_block_source (bs b i) i"
  have n: "[0 ..< ?n'] = [0 ..< ?n] @ [?n ..< ?n']" "0 < ?n"
    using ext upt_add_eq_append[of 0 ?n "?n' - ?n"] by (auto simp: extends_token_def)
  obtain zs where zs: "traverseE (?f (vt_biscuit tok')) [0 ..< ?n'] = Inr zs"
    using c' by (auto simp: chain_identity_def parse_token_def split: sum.splits)
  obtain us vs where uv: "traverseE (?f (vt_biscuit tok')) [0 ..< ?n] = Inr us" "zs = us @ vs"
    using traverseE_append zs unfolding n(1) by blast
  have same: "traverseE (?f (vt_biscuit tok)) [0 ..< ?n] = Inr us"
    unfolding uv(1)[symmetric] by (rule traverseE_same) (use ext in \<open>auto simp: extends_token_def list_all_iff\<close>)
  have "us \<noteq> []" using traverseE_length[OF same] n(2) by auto
  then have "tl zs = tl us @ vs" using uv(2) by simp
  then show ?thesis using c c' zs same that by (auto simp: chain_identity_def parse_token_def)
qed

section \<open>Properties\<close>

text \<open>
  C21: An assigned role bounds every descendant.  Once a role map is accepted, an agent whose
  delegation path is assigned a role gets that role, and whatever blocks it appends to its token
  and however it names and describes its children, the principal of the longer chain has the same
  role or the default one.
\<close>
theorem assigned_role_bounds_descendants:
  assumes ok: "load_role_assignments file = Inr (sv_roles sv)"
    and c: "chain_identity bs lib tok = Inr c" and path: "ci_path c \<noteq> []"
    and role: "map_of (sv_roles sv) (join_text ''/'' (ci_path c)) = Some r"
    and ext: "extends_token bs lib (vt_biscuit tok) (vt_biscuit tok')"
    and p: "principal_for bs lib sv tok = Inr p" and p': "principal_for bs lib sv tok' = Inr p'"
  shows "ap_role p = r \<and> ap_role p' \<in> {r, sv_default_role sv}"
proof -
  obtain c' where c': "chain_identity bs lib tok' = Inr c'" "ap_role p' = role_for sv (ci_path c')"
    using p' by (auto simp: principal_for_def split: sum.splits)
  have "ap_role p = role_for sv (ci_path c)" using p c by (auto simp: principal_for_def)
  moreover obtain Q where "ci_path c' = ci_path c @ Q" by (rule extended_path[OF ext c c'(1)])
  ultimately show ?thesis using accepted_roles[OF ok path role, of Q] c'(2) role
    by (auto simp: role_for_def split: option.splits)
qed

text \<open>The role a parent writes into a block is recorded and never decides the role.\<close>

theorem declared_role_ignored:
  assumes "chain_identity bs lib tok = Inr c" "chain_identity bs lib tok' = Inr c'" "ci_path c = ci_path c'"
    and "principal_for bs lib sv tok = Inr p" "principal_for bs lib sv tok' = Inr p'"
  shows "ap_role p = ap_role p'"
  using assms by (auto simp: principal_for_def)

text \<open>
  The deployed policy engine enforces a bundle that verified, with the tool catalogue inside
  its signature, or the service does not start.
\<close>
theorem booted_policy_is_signed:
  assumes "load_policy check cedar str_of key file = Inr g"
  shows "\<exists>b sig k payload. file = FileValue (b, sig) \<and> key = Some k \<and> signing_payload (vf_nfc check) b = Inr payload \<and> vf_check check k sig payload
    \<and> cg_bundle g = b \<and> tool_catalogue str_of (pb_tools b) = Some (cg_tools g)
    \<and> cg_policy_set g = cl_parse cedar (pb_cedar_source b) \<and> cg_policy_set g \<noteq> None \<and> \<not> cg_stale g"
  using assms
  by (auto simp: load_policy_def verify_bundle_def mk_engine_def
      split: file_read.splits option.splits sum.splits bool.splits if_splits prod.splits)

section \<open>Witnesses\<close>

definition chain_lib :: "(nat, nat) biscuit_lib" where
  "chain_lib =
     \<lparr>bl_build = (\<lambda>_ _. 1), bl_append = (\<lambda>b _. Suc b), bl_to_base64 = (\<lambda>_. []), bl_from_base64 = (\<lambda>_ _. None),
      bl_query = (\<lambda>_ _. None), bl_block_count = int, bl_revocation_ids = (\<lambda>_. []),
      bl_authorize = (\<lambda>_ _. Authorized_ok), bl_str = (\<lambda>_. [])\<rparr>"

definition chain_source :: "nat \<Rightarrow> nat \<Rightarrow> string" where
  "chain_source b i = canonical_source (if i = 0 then [] else identity_facts (if i = 1 then ''agt-payer'' else ''agt-x'') ''clerk'' (int i))"

definition chain_token :: "nat \<Rightarrow> nat verified_token" where
  "chain_token b =
     \<lparr>vt_biscuit = b, vt_mandate_id = 1, vt_task_id = 2, vt_principal_id = ''alice'', vt_intent_hash = [],
      vt_scopes = {}, vt_budget = spend_budget 0, vt_scaled_budget = (\<lambda>_. None), vt_max_depth = 3, vt_not_before = 0,
      vt_expires_at = 1, vt_depth = int b - 1, vt_revocation_ids = [], vt_size_b64 = 0, vt_size_warning = False\<rparr>"

definition named :: "string \<Rightarrow> int \<Rightarrow> block_identity" where
  "named a n = \<lparr>bi_agent_id = Some a, bi_role = Some ''clerk'', bi_declared_depth = Some n\<rparr>"

lemma chain_blocks:
  "\<exists>b. parse_block_source (chain_source k 0) 0 = Inr b"
  "\<exists>b. parse_block_source (chain_source k (Suc 0)) (Suc 0) = Inr b \<and> pk_identity b = named ''agt-payer'' 1"
  "\<exists>b. parse_block_source (chain_source k 2) 2 = Inr b \<and> pk_identity b = named ''agt-x'' 2"
proof -
  have root: "chain_source k 0 = []" "statements [] = []" by code_simp+
  show "\<exists>b. parse_block_source (chain_source k 0) 0 = Inr b"
    by (simp add: root parse_block_source_def identity_from_def one_value_def fact_values_def refined_def)
  have labels: "label_ok ''agt-payer''" "label_ok ''agt-x''" "label_ok ''clerk''"
    by (simp_all add: validate_label_def code_points_def unsafe_label_code_def MAX_LABEL_LENGTH_def)
  have sizes: "list_all short_stmt (identity_facts ''agt-payer'' ''clerk'' 1)" "list_all short_stmt (identity_facts ''agt-x'' ''clerk'' 2)"
    by (simp_all add: short_stmt_def identity_facts_def stmt_text.simps quote_string_def int_str_def nat_str.simps
        MAX_STATEMENT_LENGTH_def)
  note reads = canonical.reads_back[where cs = "[]" and body = "[]"]
  show "\<exists>b. parse_block_source (chain_source k (Suc 0)) (Suc 0) = Inr b \<and> pk_identity b = named ''agt-payer'' 1"
    using reads[of "''agt-payer''" "''clerk''" 1 "Suc 0"] labels sizes
    by (simp add: chain_source_def named_def block_datalog_def identity_facts_def MAX_STATEMENTS_PER_BLOCK_def)
  show "\<exists>b. parse_block_source (chain_source k 2) 2 = Inr b \<and> pk_identity b = named ''agt-x'' 2"
    using reads[of "''agt-x''" "''clerk''" 2 2] labels sizes
    by (simp add: chain_source_def named_def block_datalog_def identity_facts_def MAX_STATEMENTS_PER_BLOCK_def)
qed

lemma chain_identities:
  "chain_identity chain_source chain_lib (chain_token 2) = Inr \<lparr>ci_terminal = named ''agt-payer'' 1, ci_path = [''agt-payer'']\<rparr>"
  "chain_identity chain_source chain_lib (chain_token 3) = Inr \<lparr>ci_terminal = named ''agt-x'' 2, ci_path = [''agt-payer'', ''agt-x'']\<rparr>"
proof -
  have "nat (int 2) = 2" "nat (int 3) = 3" by simp_all
  moreover have "[0 ..< 2] = [0, Suc 0]" "[0 ..< 3] = [0, Suc 0, 2]" by (simp_all add: upt_rec numeral_2_eq_2 numeral_3_eq_3)
  ultimately show
    "chain_identity chain_source chain_lib (chain_token 2) = Inr \<lparr>ci_terminal = named ''agt-payer'' 1, ci_path = [''agt-payer'']\<rparr>"
    "chain_identity chain_source chain_lib (chain_token 3) = Inr \<lparr>ci_terminal = named ''agt-x'' 2, ci_path = [''agt-payer'', ''agt-x'']\<rparr>"
    using chain_blocks[of 2] chain_blocks[of 3]
    by (auto simp: chain_identity_def parse_token_def chain_lib_def chain_token_def named_def)
qed

lemma chain_extends: "extends_token chain_source chain_lib (vt_biscuit (chain_token 2)) (vt_biscuit (chain_token 3))"
  by (simp add: extends_token_def chain_lib_def chain_token_def chain_source_def list_all_iff)

text \<open>
  An unassigned agent reaches the role of a descendant it names.  The map that assigns
  \<open>senior\<close> to \<open>agt-payer/agt-x\<close> alone is accepted: the agent \<open>agt-payer\<close> itself holds the
  default role, and by appending one block that names \<open>agt-x\<close> it holds a token whose principal
  is \<open>senior\<close>, whatever the default role is.
\<close>
theorem unassigned_ancestor_reaches_role:
  "\<exists>roles p p'. load_role_assignments (Some (FileValue (JObj [(''agt-payer/agt-x'', JStr ''senior'')]))) = Inr roles
    \<and> extends_token chain_source chain_lib (vt_biscuit (chain_token 2)) (vt_biscuit (chain_token 3))
    \<and> principal_for chain_source chain_lib \<lparr>sv_default_role = d, sv_roles = roles\<rparr> (chain_token 2) = Inr p \<and> ap_role p = d
    \<and> principal_for chain_source chain_lib \<lparr>sv_default_role = d, sv_roles = roles\<rparr> (chain_token 3) = Inr p' \<and> ap_role p' = ''senior''"
proof -
  let ?roles = "[(''agt-payer/agt-x'', ''senior'')]"
  have "load_role_assignments (Some (FileValue (JObj [(''agt-payer/agt-x'', JStr ''senior'')]))) = Inr ?roles"
    by code_simp
  then show ?thesis using chain_extends
    by (intro exI[of _ ?roles]) (simp add: principal_for_def chain_identities role_for_def)
qed

theorem assigned_role_bounds_descendants_witness:
  "\<exists>p p'. principal_for chain_source chain_lib \<lparr>sv_default_role = ''agent'', sv_roles = [(''agt-payer'', ''senior'')]\<rparr> (chain_token 2) = Inr p
     \<and> principal_for chain_source chain_lib \<lparr>sv_default_role = ''agent'', sv_roles = [(''agt-payer'', ''senior'')]\<rparr> (chain_token 3) = Inr p'
     \<and> ap_role p = ''senior'' \<and> ap_role p' \<in> {''senior'', ''agent''}"
proof -
  let ?sv = "\<lparr>sv_default_role = ''agent'', sv_roles = [(''agt-payer'', ''senior'')]\<rparr>"
  obtain p p' where p: "principal_for chain_source chain_lib ?sv (chain_token 2) = Inr p"
    "principal_for chain_source chain_lib ?sv (chain_token 3) = Inr p'"
    by (simp add: principal_for_def chain_identities)
  have ok: "load_role_assignments (Some (FileValue (JObj [(''agt-payer'', JStr ''senior'')]))) = Inr (sv_roles ?sv)" by code_simp
  show ?thesis using assigned_role_bounds_descendants[OF ok chain_identities(1) _ _ chain_extends p] p by simp
qed

theorem booted_policy_is_signed_witness:
  "\<exists>g b sig k payload. load_policy demo_check demo_cedar (\<lambda>_. []) (Some ()) (FileValue (demo_bundle, ''sig'')) = Inr g
     \<and> FileValue (demo_bundle, ''sig'') = FileValue (b, sig) \<and> Some () = Some k \<and> signing_payload latin_nfc b = Inr payload \<and> cg_bundle g = b"
proof -
  obtain payload where payload: "signing_payload latin_nfc demo_bundle = Inr payload" using demo_payload by blast
  have "tool_catalogue demo_str (pb_tools demo_bundle) \<noteq> None" by code_simp
  then obtain g where g: "load_policy demo_check demo_cedar (\<lambda>_. []) (Some ()) (FileValue (demo_bundle, ''sig'')) = Inr g"
    using payload by (auto simp: load_policy_def verify_bundle_def mk_engine_def demo_cedar_def)
  from booted_policy_is_signed[OF g] show ?thesis using g by simp
qed

end
