(* ===== verification/Revocation.thy ===== *)
theory Revocation
  imports Decision
begin

text \<open>
  Revocation, from the control plane to the decision: the store of
  \<open>agentiam_controlplane/db/revocations.py\<close> with the routes of \<open>revocations_api.py\<close>, and the two
  oracles of \<open>agentiam_pep/revocation.py\<close> that \<open>decide\<close> consults.

  The Bloom filter is a library, taken as the record \<open>bloom_lib\<close> with its documented law
  \<open>bloom_ok\<close>: an element that was added is contained, and stays contained.  A pull sees the
  committed rows; the columns \<open>seq\<close> and the cursor are integers.  The network enters as the
  response each pull gets and as the messages the subscription delivers, either of which may
  be missing.
\<close>

section \<open>The store\<close>

record revocation_row =
  rv_id :: uuid
  rv_seq :: int
  rv_block_id :: string
  rv_scope :: string
  rv_reason :: string
  rv_revoked_by :: string
  rv_revoked_at :: instant
  rv_expires_at :: instant

record revocation_db =
  rv_rows :: "revocation_row list"
  rv_identity :: int

datatype revocation_error = RevocationDataError | RevocationIntegrityError

definition VALID_SCOPES :: "string list" where
  "VALID_SCOPES = [''token'', ''subtree'', ''mandate'']"

text \<open>
  One transaction of \<open>revoke\<close>: the insert draws the next identity value, a conflict on
  \<open>block_id\<close> inserts nothing and reads the row that is there.  \<open>announce\<close> is what the publisher
  does: absent, raising, or delivering the message, and the result is the same.
\<close>

definition revoke ::
  "uuid \<Rightarrow> string \<Rightarrow> string \<Rightarrow> string \<Rightarrow> string \<Rightarrow> instant \<Rightarrow> instant \<Rightarrow> bool option \<Rightarrow> revocation_db
   \<Rightarrow> revocation_db \<times> (revocation_error + revocation_row) \<times> (string \<times> int) option" where
  "revoke fresh block scope reason revoked_by expires now_t announce db =
     (let row = \<lparr>rv_id = fresh, rv_seq = rv_identity db, rv_block_id = block, rv_scope = scope,
                 rv_reason = reason, rv_revoked_by = revoked_by, rv_revoked_at = now_t,
                 rv_expires_at = expires\<rparr>;
          db1 = db\<lparr>rv_identity := rv_identity db + 1\<rparr>;
          message = (\<lambda>r. if announce = Some True then Some (rv_block_id r, rv_seq r) else None)
      in if length block > 128 then (db, Inl RevocationDataError, None)
         else if scope \<notin> set VALID_SCOPES then (db1, Inl RevocationIntegrityError, None)
         else (case find (\<lambda>r. rv_block_id r = block) (rv_rows db) of
                 Some r \<Rightarrow> (db1, Inr r, message r)
               | None \<Rightarrow>
                   (if fresh \<in> set (map rv_id (rv_rows db)) then (db1, Inl RevocationIntegrityError, None)
                    else (db1\<lparr>rv_rows := rv_rows db @ [row]\<rparr>, Inr row, message row))))"

definition pull :: "int \<Rightarrow> revocation_db \<Rightarrow> revocation_row list" where
  "pull since_seq db = sort_key rv_seq (filter (\<lambda>r. rv_seq r > since_seq) (rv_rows db))"

section \<open>The routes\<close>

record operator_settings =
  op_approvers :: "string set"
  op_tokens :: "(string \<times> string) list"

text \<open>
  The session's principal if there is one, else the operator whose secret the bearer header
  carries; every entry is compared and the last match stands.
\<close>

definition bearer_operator :: "(string \<times> string) list \<Rightarrow> string \<Rightarrow> string option" where
  "bearer_operator tokens authorization =
     (let scheme = takeWhile (\<lambda>c. c \<noteq> CHR '' '') authorization;
          presented = strip (drop (Suc (length scheme)) authorization)
      in if lower_case scheme \<noteq> ''bearer'' \<or> presented = [] then None
         else foldl (\<lambda>matched (secret, operator). if presented = secret then Some operator else matched)
                None tokens)"

definition acting_principal :: "operator_settings \<Rightarrow> string option \<Rightarrow> string \<Rightarrow> string option" where
  "acting_principal settings session_principal authorization =
     (case session_principal of
        Some p \<Rightarrow> if p \<noteq> [] then Some p else bearer_operator (op_tokens settings) authorization
      | None \<Rightarrow> bearer_operator (op_tokens settings) authorization)"

text \<open>\<open>Inl\<close> is an HTTP error status; 422 is the request model's own check, 500 an uncaught error.\<close>

definition revoke_route ::
  "operator_settings \<Rightarrow> string option \<Rightarrow> string \<Rightarrow> uuid \<Rightarrow> string \<Rightarrow> string \<Rightarrow> string \<Rightarrow> instant \<Rightarrow> instant
   \<Rightarrow> bool option \<Rightarrow> revocation_db \<Rightarrow> revocation_db \<times> (nat + revocation_row)" where
  "revoke_route settings session_principal authorization fresh block scope reason expires now_t announce db =
     (if block = [] then (db, Inl 422)
      else if scope \<notin> set VALID_SCOPES then (db, Inl 400)
      else (case acting_principal settings session_principal authorization of
              None \<Rightarrow> (db, Inl 401)
            | Some revoked_by \<Rightarrow>
                (if revoked_by \<notin> op_approvers settings then (db, Inl 403)
                 else (case revoke fresh block scope reason revoked_by expires now_t announce db of
                         (db', Inl _, _) \<Rightarrow> (db', Inl 500)
                       | (db', Inr r, _) \<Rightarrow> (db', Inr r)))))"

text \<open>A response body as the consumer reads it: a missing key is \<open>None\<close>.\<close>

record pull_body =
  pb_entries :: "(string option) list option"
  pb_next_seq :: "int option"

definition list_revocations :: "int \<Rightarrow> revocation_db \<Rightarrow> pull_body" where
  "list_revocations since db =
     (let entries = pull since db;
          next_seq = (if entries = [] then since else rv_seq (last entries))
      in \<lparr>pb_entries = Some (map (\<lambda>r. Some (rv_block_id r)) entries), pb_next_seq = Some next_seq\<rparr>)"

section \<open>The in-memory oracle\<close>

record in_memory_set =
  im_revoked :: "string set"
  im_unavailable :: "string option"

definition im_new :: "string list \<Rightarrow> string option \<Rightarrow> in_memory_set" where
  "im_new revoked unavailable = \<lparr>im_revoked = set revoked, im_unavailable = unavailable\<rparr>"

definition im_is_revoked :: "in_memory_set \<Rightarrow> revocation_oracle" where
  "im_is_revoked s r = (if im_unavailable s \<noteq> None then None else Some (r \<in> im_revoked s))"

definition im_revoke :: "string \<Rightarrow> in_memory_set \<Rightarrow> in_memory_set" where
  "im_revoke r s = s\<lparr>im_revoked := insert r (im_revoked s)\<rparr>"

section \<open>The Redis-fed oracle\<close>

record 'f bloom_lib =
  bf_new :: 'f
  bf_add :: "string \<Rightarrow> 'f \<Rightarrow> 'f"
  bf_contains :: "'f \<Rightarrow> string \<Rightarrow> bool"

definition bloom_ok :: "'f bloom_lib \<Rightarrow> bool" where
  "bloom_ok bl =
     ((\<forall>f x. bf_contains bl (bf_add bl x f) x)
      \<and> (\<forall>f x y. bf_contains bl f x \<longrightarrow> bf_contains bl (bf_add bl y f) x))"

record 'f redis_set =
  rs_staleness_limit :: int
  rs_revoked :: "string set"
  rs_bloom :: 'f
  rs_since_seq :: int
  rs_last_pull_at :: "instant option"
  rs_subscribe_task :: bool
  rs_pull_task :: bool
  rs_closed :: bool

definition rs_new :: "'f bloom_lib \<Rightarrow> int \<Rightarrow> 'f redis_set" where
  "rs_new bl limit =
     \<lparr>rs_staleness_limit = limit, rs_revoked = {}, rs_bloom = bf_new bl, rs_since_seq = 0,
      rs_last_pull_at = None, rs_subscribe_task = False, rs_pull_task = False, rs_closed = False\<rparr>"

definition rs_is_revoked :: "'f bloom_lib \<Rightarrow> 'f redis_set \<Rightarrow> instant \<Rightarrow> revocation_oracle" where
  "rs_is_revoked bl s now_t r =
     (case rs_last_pull_at s of
        None \<Rightarrow> None
      | Some t \<Rightarrow>
          (if now_t - t \<ge> rs_staleness_limit s then None
           else if \<not> bf_contains bl (rs_bloom s) r then Some False
           else Some (r \<in> rs_revoked s)))"

definition rs_add :: "'f bloom_lib \<Rightarrow> string \<Rightarrow> 'f redis_set \<Rightarrow> 'f redis_set" where
  "rs_add bl r s = s\<lparr>rs_revoked := insert r (rs_revoked s), rs_bloom := bf_add bl r (rs_bloom s)\<rparr>"

fun rs_merge :: "'f bloom_lib \<Rightarrow> (string option) list \<Rightarrow> 'f redis_set \<Rightarrow> 'f redis_set \<times> unit py" where
  "rs_merge bl [] s = (s, Inr ())"
| "rs_merge bl (None # es) s = (s, Inl KeyError)"
| "rs_merge bl (Some r # es) s = rs_merge bl es (rs_add bl r s)"

text \<open>
  \<open>_pull_once\<close>: a request that fails (\<open>None\<close>) is logged and changes nothing; a body without one
  of its keys raises \<open>KeyError\<close> out of the function, after what was merged so far.
\<close>

definition rs_pull_once :: "'f bloom_lib \<Rightarrow> pull_body option \<Rightarrow> instant \<Rightarrow> 'f redis_set \<Rightarrow> 'f redis_set \<times> unit py" where
  "rs_pull_once bl response now_t s =
     (case response of
        None \<Rightarrow> (s, Inr ())
      | Some body \<Rightarrow>
          (case pb_entries body of
             None \<Rightarrow> (s, Inl KeyError)
           | Some es \<Rightarrow>
               (case rs_merge bl es s of
                  (s', Inl e) \<Rightarrow> (s', Inl e)
                | (s', Inr _) \<Rightarrow>
                    (case pb_next_seq body of
                       None \<Rightarrow> (s', Inl KeyError)
                     | Some n \<Rightarrow> (s'\<lparr>rs_since_seq := n, rs_last_pull_at := Some now_t\<rparr>, Inr ())))))"

definition rs_start :: "'f bloom_lib \<Rightarrow> pull_body option \<Rightarrow> instant \<Rightarrow> 'f redis_set \<Rightarrow> 'f redis_set \<times> unit py" where
  "rs_start bl response now_t s =
     (case rs_pull_once bl response now_t s of
        (s', Inl e) \<Rightarrow> (s', Inl e)
      | (s', Inr _) \<Rightarrow> (s'\<lparr>rs_subscribe_task := True, rs_pull_task := True\<rparr>, Inr ()))"

text \<open>One turn of \<open>_pull_loop\<close>: an exception ends the task for good.\<close>

definition rs_pull_tick :: "'f bloom_lib \<Rightarrow> pull_body option \<Rightarrow> instant \<Rightarrow> 'f redis_set \<Rightarrow> 'f redis_set" where
  "rs_pull_tick bl response now_t s =
     (if \<not> rs_pull_task s then s
      else (case rs_pull_once bl response now_t s of
              (s', Inl _) \<Rightarrow> s'\<lparr>rs_pull_task := False\<rparr>
            | (s', Inr _) \<Rightarrow> s'))"

text \<open>A pushed message is the block id it carries, or \<open>None\<close> when it cannot be read.\<close>

definition rs_handle_push :: "'f bloom_lib \<Rightarrow> string option \<Rightarrow> 'f redis_set \<Rightarrow> 'f redis_set" where
  "rs_handle_push bl raw s = (case raw of Some r \<Rightarrow> rs_add bl r s | None \<Rightarrow> s)"

definition rs_aclose :: "'f redis_set \<Rightarrow> 'f redis_set" where
  "rs_aclose s =
     (if rs_closed s then s
      else s\<lparr>rs_closed := True, rs_subscribe_task := False, rs_pull_task := False\<rparr>)"

section \<open>Runs\<close>

text \<open>
  A control plane and one enforcement point.  A revocation is one atomic step, so rows appear in
  the order of their \<open>seq\<close>; pulls, pushes, lost messages and restarts of the enforcement
  point happen in any order around it.
\<close>

type_synonym 'f rev_state = "revocation_db \<times> 'f redis_set"

inductive rev_step :: "'f bloom_lib \<Rightarrow> 'f rev_state \<Rightarrow> 'f rev_state \<Rightarrow> bool" for bl where
  revoke: "revoke fresh block scope reason revoked_by expires now_t announce db = (db', res, msg)
           \<Longrightarrow> rev_step bl (db, s) (db', s)"
| push: "r \<in> set (rv_rows db) \<Longrightarrow> rev_step bl (db, s) (db, rs_handle_push bl (Some (rv_block_id r)) s)"
| push_unreadable: "rev_step bl (db, s) (db, rs_handle_push bl None s)"
| pull: "rev_step bl (db, s) (db, rs_pull_tick bl (Some (list_revocations (rs_since_seq s) db)) now_t s)"
| pull_failed: "rev_step bl (db, s) (db, rs_pull_tick bl None now_t s)"
| restart: "rs_start bl (if reached then Some (list_revocations 0 db) else None) now_t (rs_new bl limit)
              = (s', res) \<Longrightarrow> rev_step bl (db, s) (db, s')"
| close: "rev_step bl (db, s) (db, rs_aclose s)"

inductive rev_reachable :: "'f bloom_lib \<Rightarrow> 'f rev_state \<Rightarrow> bool" for bl where
  init: "0 < k \<Longrightarrow> rev_reachable bl (\<lparr>rv_rows = [], rv_identity = k\<rparr>, rs_new bl limit)"
| step: "rev_reachable bl x \<Longrightarrow> rev_step bl x y \<Longrightarrow> rev_reachable bl y"

inductive_cases rev_stepE: "rev_step bl x y"

text \<open>
  The invariant: sequence numbers are positive and below the identity, the cursor too; every row
  up to the cursor is in the set; the set holds only revoked ids; the filter contains the set.
\<close>

definition rev_inv :: "'f bloom_lib \<Rightarrow> 'f rev_state \<Rightarrow> bool" where
  "rev_inv bl x = (case x of (db, s) \<Rightarrow>
     0 \<le> rs_since_seq s \<and> rs_since_seq s < rv_identity db
     \<and> (\<forall>r \<in> set (rv_rows db). 0 < rv_seq r \<and> rv_seq r < rv_identity db)
     \<and> (\<forall>r \<in> set (rv_rows db). rv_seq r \<le> rs_since_seq s \<longrightarrow> rv_block_id r \<in> rs_revoked s)
     \<and> rs_revoked s \<subseteq> rv_block_id ` set (rv_rows db)
     \<and> (\<forall>r \<in> rs_revoked s. bf_contains bl (rs_bloom s) r))"

section \<open>Lemmas\<close>

lemma sorted_key_last: "sorted (map f ys) \<Longrightarrow> y \<in> set ys \<Longrightarrow> f y \<le> (f (last ys) :: 'a :: linorder)"
  by (induction ys) auto

lemma find_append: "find P (xs @ ys) = (case find P xs of None \<Rightarrow> find P ys | Some x \<Rightarrow> Some x)"
  by (induction xs) auto

lemma set_pull [simp]: "set (pull since db) = {r \<in> set (rv_rows db). since < rv_seq r}"
  by (auto simp: pull_def)

lemma pull_last: "r \<in> set (pull since db) \<Longrightarrow> rv_seq r \<le> rv_seq (last (pull since db))"
  by (rule sorted_key_last) (simp_all add: pull_def)

lemma fold_rs_add [simp]:
  "rs_revoked (fold (rs_add bl) ids s) = set ids \<union> rs_revoked s"
  "rs_since_seq (fold (rs_add bl) ids s) = rs_since_seq s"
  "rs_last_pull_at (fold (rs_add bl) ids s) = rs_last_pull_at s"
  "rs_staleness_limit (fold (rs_add bl) ids s) = rs_staleness_limit s"
  "rs_pull_task (fold (rs_add bl) ids s) = rs_pull_task s"
  by (induction ids arbitrary: s) (auto simp: rs_add_def)

text \<open>The filter covers the set, and adding to both keeps that.\<close>

definition mirrors :: "'f bloom_lib \<Rightarrow> 'f redis_set \<Rightarrow> bool" where
  "mirrors bl s = (\<forall>r \<in> rs_revoked s. bf_contains bl (rs_bloom s) r)"

lemma mirrors_add: "bloom_ok bl \<Longrightarrow> mirrors bl s \<Longrightarrow> mirrors bl (rs_add bl r s)"
  by (auto simp: mirrors_def rs_add_def bloom_ok_def)

lemma mirrors_fold: "bloom_ok bl \<Longrightarrow> mirrors bl s \<Longrightarrow> mirrors bl (fold (rs_add bl) ids s)"
  by (induction ids arbitrary: s) (auto simp: mirrors_add)

lemma mirrors_cong:
  "rs_revoked s' = rs_revoked s \<Longrightarrow> rs_bloom s' = rs_bloom s \<Longrightarrow> mirrors bl s' = mirrors bl s"
  by (simp add: mirrors_def)

lemma merge_ids: "rs_merge bl (map (\<lambda>r. Some (f r)) rs) s = (fold (rs_add bl) (map f rs) s, Inr ())"
  by (induction rs arbitrary: s) auto

definition next_cursor :: "int \<Rightarrow> revocation_db \<Rightarrow> int" where
  "next_cursor since db = (if pull since db = [] then since else rv_seq (last (pull since db)))"

lemma pull_once_list:
  "rs_pull_once bl (Some (list_revocations since db)) t s =
     ((fold (rs_add bl) (map rv_block_id (pull since db)) s)
        \<lparr>rs_since_seq := next_cursor since db, rs_last_pull_at := Some t\<rparr>, Inr ())"
  by (simp add: rs_pull_once_def list_revocations_def next_cursor_def merge_ids Let_def)

lemma next_cursor_bounds:
  assumes "\<forall>r \<in> set (rv_rows db). 0 < rv_seq r \<and> rv_seq r < rv_identity db"
    and "0 \<le> since" "since < rv_identity db"
  shows "since \<le> next_cursor since db" "next_cursor since db < rv_identity db"
    "\<forall>r \<in> set (rv_rows db). rv_seq r \<le> next_cursor since db"
proof -
  have mem: "last (pull since db) \<in> set (pull since db)" if "pull since db \<noteq> []"
    using that by (rule last_in_set)
  show "since \<le> next_cursor since db" "next_cursor since db < rv_identity db"
    using mem assms by (auto simp: next_cursor_def)
  show "\<forall>r \<in> set (rv_rows db). rv_seq r \<le> next_cursor since db"
  proof
    fix r assume r: "r \<in> set (rv_rows db)"
    show "rv_seq r \<le> next_cursor since db"
    proof (cases "since < rv_seq r")
      case True
      then have mem_r: "r \<in> set (pull since db)" using r by simp
      then have "pull since db \<noteq> []" by (metis list.set_intros(1) empty_iff list.set(1))
      then show ?thesis using pull_last[OF mem_r] by (simp add: next_cursor_def)
    next
      case False
      then show ?thesis using \<open>since \<le> next_cursor since db\<close> by simp
    qed
  qed
qed

lemma revoke_effect:
  assumes "revoke fresh block scope reason who expires t announce db = (db', res, msg)"
  shows "db' = db \<or> db' = db\<lparr>rv_identity := rv_identity db + 1\<rparr>
    \<or> (\<exists>r. db' = db\<lparr>rv_identity := rv_identity db + 1, rv_rows := rv_rows db @ [r]\<rparr>
           \<and> rv_seq r = rv_identity db \<and> rv_block_id r = block \<and> rv_revoked_by r = who \<and> res = Inr r)"
  using assms by (auto simp: revoke_def Let_def split: if_splits option.splits)

lemma rev_inv_mirrors: "rev_inv bl (db, s) \<Longrightarrow> mirrors bl s"
  by (simp add: rev_inv_def mirrors_def)

lemma rev_inv_pull:
  assumes ok: "bloom_ok bl" and inv: "rev_inv bl (db, s)"
    and s': "rs_pull_once bl (Some (list_revocations (rs_since_seq s) db)) t s = (s', res)"
  shows "rev_inv bl (db, s')" "rv_block_id ` set (rv_rows db) = rs_revoked s'"
proof -
  note b = next_cursor_bounds[of db "rs_since_seq s"]
  have inv': "0 \<le> rs_since_seq s" "rs_since_seq s < rv_identity db"
    "\<forall>r \<in> set (rv_rows db). 0 < rv_seq r \<and> rv_seq r < rv_identity db"
    "\<forall>r \<in> set (rv_rows db). rv_seq r \<le> rs_since_seq s \<longrightarrow> rv_block_id r \<in> rs_revoked s"
    "rs_revoked s \<subseteq> rv_block_id ` set (rv_rows db)"
    using inv by (simp_all add: rev_inv_def)
  have rev': "rs_revoked s' = rv_block_id ` set (pull (rs_since_seq s) db) \<union> rs_revoked s"
    and since': "rs_since_seq s' = next_cursor (rs_since_seq s) db"
    and m: "mirrors bl s'"
    using s' mirrors_fold[OF ok rev_inv_mirrors[OF inv]] by (auto simp: pull_once_list mirrors_def)
  show eq: "rv_block_id ` set (rv_rows db) = rs_revoked s'"
    unfolding rev' using inv'(4,5) by (auto simp: not_less)
  show "rev_inv bl (db, s')"
    using b[OF inv'(3,1,2)] inv' m since' eq by (auto simp: rev_inv_def mirrors_def)
qed

lemma rev_inv_cong:
  "rev_inv bl (db, s) \<Longrightarrow> rs_revoked s' = rs_revoked s \<Longrightarrow> rs_bloom s' = rs_bloom s
   \<Longrightarrow> rs_since_seq s' = rs_since_seq s \<Longrightarrow> rev_inv bl (db, s')"
  by (simp add: rev_inv_def)

lemma rev_inv_new:
  "rev_inv bl (db, s) \<Longrightarrow> rev_inv bl (db, rs_new bl limit)"
  by (fastforce simp: rev_inv_def rs_new_def)

text \<open>A pull never raises on the control plane's own answers, so a tick is the pull.\<close>

lemma pull_tick_cases:
  obtains "rs_pull_tick bl (Some (list_revocations since db)) t s = s" "\<not> rs_pull_task s"
  | "rs_pull_task s"
    "rs_pull_once bl (Some (list_revocations since db)) t s
       = (rs_pull_tick bl (Some (list_revocations since db)) t s, Inr ())"
  by (cases "rs_pull_task s") (auto simp: rs_pull_tick_def pull_once_list)

lemma pull_tick_None [simp]: "rs_pull_tick bl None t s = s"
  by (simp add: rs_pull_tick_def rs_pull_once_def)

lemma rs_aclose_fields [simp]:
  "rs_revoked (rs_aclose s) = rs_revoked s" "rs_bloom (rs_aclose s) = rs_bloom s"
  "rs_since_seq (rs_aclose s) = rs_since_seq s" "rs_last_pull_at (rs_aclose s) = rs_last_pull_at s"
  by (simp_all add: rs_aclose_def)

lemma rev_inv_restart:
  assumes ok: "bloom_ok bl" and inv: "rev_inv bl (db, s)"
    and s': "rs_start bl (if reached then Some (list_revocations 0 db) else None) t (rs_new bl limit) = (s', res)"
  shows "rev_inv bl (db, s')"
    "rs_last_pull_at s' = None \<or> rv_block_id ` set (rv_rows db) = rs_revoked s'"
proof -
  have new: "rev_inv bl (db, rs_new bl limit)" "rs_since_seq (rs_new bl limit) = 0"
    using rev_inv_new[OF inv] by (simp_all add: rs_new_def)
  have "rev_inv bl (db, s') \<and> (rs_last_pull_at s' = None \<or> rv_block_id ` set (rv_rows db) = rs_revoked s')"
  proof (cases reached)
    case True
    obtain s1 where s1: "rs_pull_once bl (Some (list_revocations 0 db)) t (rs_new bl limit) = (s1, Inr ())"
      by (simp add: pull_once_list)
    then have "s' = s1\<lparr>rs_subscribe_task := True, rs_pull_task := True\<rparr>"
      using s' True by (simp add: rs_start_def)
    then show ?thesis
      using rev_inv_pull[OF ok new(1), of t s1 "Inr ()"] s1 new(2) rev_inv_cong[of bl db s1 s'] by simp
  next
    case False
    then have "s' = (rs_new bl limit)\<lparr>rs_subscribe_task := True, rs_pull_task := True\<rparr>"
      using s' by (simp add: rs_start_def rs_pull_once_def)
    then show ?thesis using new rev_inv_cong[of bl db "rs_new bl limit" s'] by (simp add: rs_new_def)
  qed
  then show "rev_inv bl (db, s')"
    "rs_last_pull_at s' = None \<or> rv_block_id ` set (rv_rows db) = rs_revoked s'" by simp_all
qed

text \<open>What an enforcement point vouches for: it has no pull to answer from, or it holds the id.\<close>

definition covered :: "string \<Rightarrow> 'f redis_set \<Rightarrow> bool" where
  "covered b s = (rs_last_pull_at s = None \<or> b \<in> rs_revoked s)"

lemma rev_step_inv:
  assumes ok: "bloom_ok bl" and step: "rev_step bl x y" and inv: "rev_inv bl x"
  shows "rev_inv bl y"
  using step
proof (cases rule: rev_step.cases)
  case (revoke fresh block scope reason who expires t announce db db' res msg s)
  then show ?thesis using revoke_effect[OF revoke(3)] inv by (fastforce simp: rev_inv_def)
next
  case (push r db s)
  then show ?thesis using inv mirrors_add[OF ok rev_inv_mirrors, of db s "rv_block_id r"]
    by (auto simp: rev_inv_def rs_handle_push_def rs_add_def mirrors_def)
next
  case (push_unreadable db s)
  then show ?thesis using inv by (simp add: rs_handle_push_def)
next
  case (pull db s t)
  then show ?thesis using inv rev_inv_pull(1)[OF ok, of db s t]
    by (cases rule: pull_tick_cases[of bl "rs_since_seq s" db t s]) auto
next
  case (pull_failed db s t)
  then show ?thesis using inv by simp
next
  case (restart reached db t limit s' res s)
  then show ?thesis using rev_inv_restart(1)[OF ok _ restart(3), of s] inv by simp
next
  case (close db s)
  then show ?thesis using inv rev_inv_cong[of bl db s "rs_aclose s"] by simp
qed

lemma rev_step_covered:
  assumes ok: "bloom_ok bl" and step: "rev_step bl (db, s) (db', s')" and inv: "rev_inv bl (db, s)"
    and b: "b \<in> rv_block_id ` set (rv_rows db)" and cov: "covered b s"
  shows "b \<in> rv_block_id ` set (rv_rows db') \<and> covered b s'"
  using step
proof (cases rule: rev_step.cases)
  case (revoke fresh block scope reason who expires t announce res msg)
  then show ?thesis using revoke_effect[OF revoke(2)] b cov by auto
next
  case (push r)
  then show ?thesis using b cov by (auto simp: covered_def rs_handle_push_def rs_add_def)
next
  case push_unreadable
  then show ?thesis using b cov by (simp add: rs_handle_push_def)
next
  case (pull t)
  show ?thesis
  proof (cases rule: pull_tick_cases[of bl "rs_since_seq s" db t s])
    case 1
    then show ?thesis using pull b cov by simp
  next
    case 2
    then show ?thesis using pull b rev_inv_pull(2)[OF ok inv] by (auto simp: covered_def)
  qed
next
  case (pull_failed t)
  then show ?thesis using b cov by simp
next
  case (restart reached t limit res)
  then show ?thesis using rev_inv_restart(2)[OF ok inv restart(2)] b by (auto simp: covered_def)
next
  case close
  then show ?thesis using b cov by (simp add: covered_def)
qed

lemma rev_reachable_inv: "rev_reachable bl x \<Longrightarrow> bloom_ok bl \<Longrightarrow> rev_inv bl x"
proof (induction rule: rev_reachable.induct)
  case (init k limit)
  then show ?case by (simp add: rev_inv_def rs_new_def)
next
  case (step x y)
  then show ?case using rev_step_inv by blast
qed

lemma rev_steps_covered:
  assumes "(rev_step bl)\<^sup>*\<^sup>* x y" "bloom_ok bl" "rev_inv bl x"
    and "b \<in> rv_block_id ` set (rv_rows (fst x))" "covered b (snd x)"
  shows "rev_inv bl y \<and> b \<in> rv_block_id ` set (rv_rows (fst y)) \<and> covered b (snd y)"
  using assms(1)
proof (induction rule: rtranclp_induct)
  case base
  then show ?case using assms by simp
next
  case (step y z)
  obtain db s db' s' where "y = (db, s)" "z = (db', s')" by (cases y; cases z) auto
  then show ?case
    using step rev_step_inv[OF assms(2) step(2)] rev_step_covered[OF assms(2), of db s db' s' b] by simp
qed

section \<open>The oracles keep the contract of the decision\<close>

interpretation im: revocation_provider "im_is_revoked s" "\<lambda>r. r \<in> im_revoked s" for s
  by unfold_locales (simp add: im_is_revoked_def)

lemma rs_provider: "mirrors bl s \<Longrightarrow> revocation_provider (rs_is_revoked bl s t) (\<lambda>r. covered r s)"
  by unfold_locales (auto simp: rs_is_revoked_def covered_def mirrors_def split: option.splits)

text \<open>An id the in-memory set was told about is denied from then on, whatever else is asked.\<close>

lemma im_revoke_denies:
  assumes "r \<in> set (vt_revocation_ids tok)"
  shows "\<exists>d. decide lib tok ctx caveats (im_is_revoked (im_revoke r s)) policy budget drift = Inr d
    \<and> de_outcome d = DENY
    \<and> de_reason_code d \<in> {TOKEN_REVOKED, ANCESTOR_REVOKED, CONTROL_PLANE_UNAVAILABLE_FAIL_CLOSED}"
  using im.revoked_chain_denied[OF assms, of "im_revoke r s"] by (simp add: im_revoke_def)

text \<open>A pull skips every row at or below the cursor, however often it is repeated.\<close>

lemma pulls_skip_below_cursor:
  assumes "\<forall>r \<in> set (rv_rows db). rv_block_id r = b \<longrightarrow> rv_seq r \<le> rs_since_seq s"
    and "rs_pull_task s" "b \<notin> rs_revoked s"
  shows "let s' = foldl (\<lambda>s t. rs_pull_tick bl (Some (list_revocations (rs_since_seq s) db)) t s) s ts in
    b \<notin> rs_revoked s' \<and> rs_staleness_limit s' = rs_staleness_limit s
    \<and> rs_last_pull_at s' = (if ts = [] then rs_last_pull_at s else Some (last ts))"
  using assms
proof (induction ts arbitrary: s)
  case Nil
  then show ?case by simp
next
  case (Cons t ts)
  let ?s1 = "rs_pull_tick bl (Some (list_revocations (rs_since_seq s) db)) t s"
  have s1: "?s1 = (fold (rs_add bl) (map rv_block_id (pull (rs_since_seq s) db)) s)
        \<lparr>rs_since_seq := next_cursor (rs_since_seq s) db, rs_last_pull_at := Some t\<rparr>"
    using Cons.prems(2) by (simp add: rs_pull_tick_def pull_once_list)
  have "rs_since_seq s \<le> next_cursor (rs_since_seq s) db"
    using last_in_set[of "pull (rs_since_seq s) db"] by (auto simp: next_cursor_def)
  moreover have "b \<notin> rv_block_id ` set (pull (rs_since_seq s) db)" using Cons.prems(1) by force
  ultimately have "let s' = foldl (\<lambda>s t. rs_pull_tick bl (Some (list_revocations (rs_since_seq s) db)) t s) ?s1 ts in
      b \<notin> rs_revoked s' \<and> rs_staleness_limit s' = rs_staleness_limit ?s1
      \<and> rs_last_pull_at s' = (if ts = [] then rs_last_pull_at ?s1 else Some (last ts))"
    using Cons.prems by (intro Cons.IH) (force simp: s1)+
  moreover have "rs_staleness_limit ?s1 = rs_staleness_limit s" "rs_last_pull_at ?s1 = Some t"
    by (simp_all add: s1)
  ultimately show ?case by (simp add: Let_def)
qed

section \<open>Properties\<close>

text \<open>
  C8: No resurrection.  Once an enforcement point has pulled a revoked block id, then after any
  further pushes, pulls, failed pulls, restarts and revocations every request whose token
  chain contains the id is denied, as revoked or because the set is too stale to answer; and
  an id is reported revoked only if the control plane holds it.
\<close>
theorem revoked_id_denied_after_pull:
  assumes bl: "bloom_ok bl" and reach: "rev_reachable bl (db, s)" and running: "rs_pull_task s"
    and row: "row \<in> set (rv_rows db)" "rv_block_id row \<in> set (vt_revocation_ids tok)"
    and steps: "(rev_step bl)\<^sup>*\<^sup>* (db, rs_pull_tick bl (Some (list_revocations (rs_since_seq s) db)) t s) (db', s')"
  shows "(\<exists>d. decide lib tok ctx caveats (rs_is_revoked bl s' now_t) policy budget drift = Inr d
           \<and> de_outcome d = DENY
           \<and> de_reason_code d \<in> {TOKEN_REVOKED, ANCESTOR_REVOKED, CONTROL_PLANE_UNAVAILABLE_FAIL_CLOSED})
    \<and> (\<forall>r. rs_is_revoked bl s' now_t r = Some True \<longrightarrow> r \<in> rv_block_id ` set (rv_rows db'))"
proof -
  let ?s1 = "rs_pull_tick bl (Some (list_revocations (rs_since_seq s) db)) t s"
  note inv = rev_reachable_inv[OF reach bl]
  have once: "rs_pull_once bl (Some (list_revocations (rs_since_seq s) db)) t s = (?s1, Inr ())"
    using running by (cases rule: pull_tick_cases[of bl "rs_since_seq s" db t s]) simp_all
  have "covered (rv_block_id row) ?s1"
    using rev_inv_pull(2)[OF bl inv once] row(1) by (auto simp: covered_def)
  then have end_state: "rev_inv bl (db', s')" "covered (rv_block_id row) s'"
    using rev_steps_covered[OF steps bl, of "rv_block_id row"] rev_inv_pull(1)[OF bl inv once] row(1) by auto
  have "revocation_provider (rs_is_revoked bl s' now_t) (\<lambda>r. covered r s')"
    using rs_provider rev_inv_mirrors end_state(1) by blast
  note denied = revocation_provider.revoked_chain_denied[OF this row(2) end_state(2)]
  have "r \<in> rv_block_id ` set (rv_rows db')" if "rs_is_revoked bl s' now_t r = Some True" for r
    using that end_state(1) by (auto simp: rev_inv_def rs_is_revoked_def split: option.splits if_splits)
  then show ?thesis using denied by blast
qed

text \<open>
  The cursor can pass a row that is not there yet.  A revocation whose \<open>seq\<close> was drawn
  before, but committed after, a row the enforcement point has already pulled is never
  delivered by the pull path: after any number of successful pulls the id is still answered
  as not revoked.
\<close>
theorem late_commit_never_pulled:
  assumes "\<forall>r \<in> set (rv_rows db). rv_block_id r = b \<longrightarrow> rv_seq r \<le> rs_since_seq s"
    and "rs_pull_task s" "b \<notin> rs_revoked s" "ts \<noteq> []" "now_t - last ts < rs_staleness_limit s"
  shows "rs_is_revoked bl
    (foldl (\<lambda>s t. rs_pull_tick bl (Some (list_revocations (rs_since_seq s) db)) t s) s ts) now_t b = Some False"
  using pulls_skip_below_cursor[OF assms(1-3), of bl ts] assms(4,5)
  by (auto simp: rs_is_revoked_def Let_def)

text \<open>
  The revoke route adds a row only for an authenticated approver, recorded as the one who
  revoked, and only for an id that was not revoked yet; once it has answered with a row, any
  further revocation of that id changes no row and answers with the same row or an error.
\<close>
theorem revoke_route_authenticated_idempotent:
  assumes "revoke_route settings sp auth fresh block scope reason expires t announce db = (db', res)"
  shows "(rv_rows db' \<noteq> rv_rows db \<longrightarrow>
            (\<exists>p row. acting_principal settings sp auth = Some p \<and> p \<in> op_approvers settings
               \<and> res = Inr row \<and> rv_rows db' = rv_rows db @ [row] \<and> rv_block_id row = block
               \<and> rv_revoked_by row = p \<and> block \<notin> rv_block_id ` set (rv_rows db)))
    \<and> (\<forall>row. res = Inr row \<longrightarrow>
         (\<forall>sp2 auth2 fresh2 scope2 reason2 expires2 t2 announce2 db2 res2.
            revoke_route settings sp2 auth2 fresh2 block scope2 reason2 expires2 t2 announce2 db' = (db2, res2)
            \<longrightarrow> rv_rows db2 = rv_rows db' \<and> (res2 = Inr row \<or> (\<exists>st. res2 = Inl st))))"
proof (intro conjI allI impI)
  assume "rv_rows db' \<noteq> rv_rows db"
  then show "\<exists>p row. acting_principal settings sp auth = Some p \<and> p \<in> op_approvers settings
      \<and> res = Inr row \<and> rv_rows db' = rv_rows db @ [row] \<and> rv_block_id row = block
      \<and> rv_revoked_by row = p \<and> block \<notin> rv_block_id ` set (rv_rows db)"
    using assms
    by (auto simp: revoke_route_def revoke_def Let_def find_None_iff image_iff
             split: if_splits option.splits)
next
  fix row sp2 auth2 fresh2 scope2 reason2 expires2 t2 announce2 db2 res2
  assume res: "res = Inr row" and again: "revoke_route settings sp2 auth2 fresh2 block scope2 reason2 expires2
    t2 announce2 db' = (db2, res2)"
  have "find (\<lambda>r. rv_block_id r = block) (rv_rows db') = Some row"
    using assms unfolding res
    by (auto simp: revoke_route_def revoke_def Let_def find_append split: if_splits option.splits)
  then show "rv_rows db2 = rv_rows db'" "res2 = Inr row \<or> (\<exists>st. res2 = Inl st)"
    using again by (auto simp: revoke_route_def revoke_def Let_def split: if_splits option.splits)
qed

section \<open>Witnesses\<close>

abbreviation set_filter :: "(string set) bloom_lib" where
  "set_filter \<equiv> \<lparr>bf_new = {}, bf_add = insert, bf_contains = (\<lambda>f x. x \<in> f)\<rparr>"

lemma set_filter_ok: "bloom_ok set_filter"
  by (simp add: bloom_ok_def)

abbreviation demo_revocation :: "string \<Rightarrow> int \<Rightarrow> revocation_row" where
  "demo_revocation block seq \<equiv>
     \<lparr>rv_id = nat seq, rv_seq = seq, rv_block_id = block, rv_scope = ''token'', rv_reason = ''leaked'',
      rv_revoked_by = ''bob'', rv_revoked_at = 0, rv_expires_at = seconds 900\<rparr>"

abbreviation demo_started :: "(string set) redis_set" where
  "demo_started \<equiv> (rs_new set_filter (seconds 9))\<lparr>rs_subscribe_task := True, rs_pull_task := True\<rparr>"

lemma demo_revoke:
  "revoke 1 ''rid'' ''token'' ''leaked'' ''bob'' (seconds 900) 0 None \<lparr>rv_rows = [], rv_identity = 1\<rparr>
     = (\<lparr>rv_rows = [demo_revocation ''rid'' 1], rv_identity = 2\<rparr>, Inr (demo_revocation ''rid'' 1), None)"
  by (simp add: revoke_def VALID_SCOPES_def Let_def)

lemma demo_rev_reachable:
  "rev_reachable set_filter (\<lparr>rv_rows = [demo_revocation ''rid'' 1], rv_identity = 2\<rparr>, demo_started)"
proof -
  let ?db = "\<lparr>rv_rows = [], rv_identity = 1\<rparr>"
  have "rev_step set_filter (?db, rs_new set_filter (seconds 9)) (?db, demo_started)"
    by (rule rev_step.restart[where reached = False and now_t = 0 and limit = "seconds 9"])
       (simp add: rs_start_def rs_pull_once_def)
  then have "rev_reachable set_filter (?db, demo_started)"
    using rev_reachable.step[OF rev_reachable.init[of 1]] by simp
  then show ?thesis using rev_reachable.step rev_step.revoke[OF demo_revoke] by blast
qed

theorem revoked_id_denied_after_pull_witness:
  "\<exists>d. decide demo_lib demo_token granted_context []
         (rs_is_revoked set_filter
            (rs_pull_tick set_filter
               (Some (list_revocations 0 \<lparr>rv_rows = [demo_revocation ''rid'' 1], rv_identity = 2\<rparr>))
               0 demo_started) (seconds 1))
         open_policy ample_budget None = Inr d \<and> de_outcome d = DENY"
proof -
  have "rs_pull_task demo_started" "rs_since_seq demo_started = 0" by (simp_all add: rs_new_def)
  then show ?thesis
    using revoked_id_denied_after_pull[OF set_filter_ok demo_rev_reachable _ _ _ rtranclp.rtrancl_refl,
        of "demo_revocation ''rid'' 1" demo_token demo_lib granted_context "[]" 0 "seconds 1"
          open_policy ample_budget None]
    by (auto simp: granted_fields)
qed

text \<open>
  Two revocations in flight: \<open>rid\<close> draws \<open>seq\<close> 1, \<open>other\<close> draws 2 and commits first, a pull
  moves the cursor to 2, then \<open>rid\<close> commits.
\<close>

theorem late_commit_never_pulled_witness:
  "rs_is_revoked set_filter
    (foldl (\<lambda>s t. rs_pull_tick set_filter (Some (list_revocations (rs_since_seq s)
              \<lparr>rv_rows = [demo_revocation ''other'' 2, demo_revocation ''rid'' 1], rv_identity = 3\<rparr>)) t s)
       (rs_pull_tick set_filter (Some (list_revocations 0
              \<lparr>rv_rows = [demo_revocation ''other'' 2], rv_identity = 3\<rparr>)) 0 demo_started)
       [seconds 3, seconds 6]) (seconds 7) ''rid'' = Some False"
proof -
  let ?s = "rs_pull_tick set_filter (Some (list_revocations 0
              \<lparr>rv_rows = [demo_revocation ''other'' 2], rv_identity = 3\<rparr>)) 0 demo_started"
  have "rs_since_seq ?s = 2" "rs_pull_task ?s" "rs_revoked ?s = {''other''}" "rs_staleness_limit ?s = seconds 9"
    by (simp_all add: rs_pull_tick_def pull_once_list next_cursor_def pull_def rs_new_def rs_add_def)
  then show ?thesis by (intro late_commit_never_pulled) simp_all
qed

theorem revoke_route_authenticated_idempotent_witness:
  "revoke_route \<lparr>op_approvers = {''bob''}, op_tokens = [(''s3cret'', ''bob'')]\<rparr> None ''Bearer s3cret'' 1 ''rid''
     ''token'' ''leaked'' (seconds 900) 0 None \<lparr>rv_rows = [], rv_identity = 1\<rparr>
     = (\<lparr>rv_rows = [demo_revocation ''rid'' 1], rv_identity = 2\<rparr>, Inr (demo_revocation ''rid'' 1))
   \<and> acting_principal \<lparr>op_approvers = {''bob''}, op_tokens = [(''s3cret'', ''bob'')]\<rparr> None ''Bearer s3cret''
     = Some ''bob''"
proof -
  let ?settings = "\<lparr>op_approvers = {''bob''}, op_tokens = [(''s3cret'', ''bob'')]\<rparr>"
  have "bearer_operator [(''s3cret'', ''bob'')] ''Bearer s3cret'' = Some ''bob''" by code_simp
  then have route: "revoke_route ?settings None ''Bearer s3cret'' 1 ''rid'' ''token'' ''leaked'' (seconds 900) 0 None
      \<lparr>rv_rows = [], rv_identity = 1\<rparr>
     = (\<lparr>rv_rows = [demo_revocation ''rid'' 1], rv_identity = 2\<rparr>, Inr (demo_revocation ''rid'' 1))"
    using demo_revoke by (simp add: revoke_route_def acting_principal_def VALID_SCOPES_def)
  show ?thesis using revoke_route_authenticated_idempotent[OF route] route by auto
qed

end
