(* ===== verification/Escalation.thy ===== *)
theory Escalation
  imports Tokens
begin

text \<open>
  Human approval: \<open>agentiam_core/escalation.py\<close> (the rules), the store of
  \<open>agentiam_controlplane/db/escalations.py\<close> over \<open>EscalationRow\<close>, and the handlers of
  \<open>escalations_api.py\<close> that mint the elevated token.

  The table is the list of its rows.  \<open>resolve_approve\<close> and \<open>resolve_deny\<close> hold the row's lock
  from the read to the write, so each is one atomic step; racing callers are interleavings of
  steps, and \<open>esc_step\<close> also remembers every grant an approval handed out.  The lemmas show
  that over any such interleaving an escalation resolves at most once, that every grant stays
  within its request, and that the token minted from it verifies to no more than that.
\<close>

section \<open>The rules\<close>

datatype escalation_state = PENDING | APPROVED | DENIED | ESC_EXPIRED

datatype escalation_error =
    EscalationExpired | EscalationNotPending escalation_state | ApproverNotAuthorized string
  | NarrowingWidensRequest | EscalationValueError
  | EscalationNotFoundError | DuplicateEscalationError uuid uuid
  | EscalationIntegrityError | EscalationDataError

record elevation_grant =
  eg_escalation_id :: uuid
  eg_task_id :: uuid
  eg_principal_id :: string
  eg_agent_id :: string
  eg_intent_hash :: string
  eg_scopes :: "string set"
  eg_amount :: decimal
  eg_not_before :: instant
  eg_expires_at :: instant
  eg_approved_by :: string

record escalation =
  es_id :: uuid
  es_decision_id :: uuid
  es_task_id :: uuid
  es_agent_id :: string
  es_principal_id :: string
  es_intent_hash :: string
  es_requested_scopes :: "string set"
  es_requested_amount :: decimal
  es_reason :: string
  es_created_at :: instant
  es_expires_at :: instant
  es_state :: escalation_state
  es_resolved_by :: "string option"
  es_resolved_at :: "instant option"
  es_resolution_reason :: "string option"

definition is_expired :: "escalation \<Rightarrow> instant \<Rightarrow> bool" where
  "is_expired e now_t = (now_t \<ge> es_expires_at e)"

definition state_at :: "escalation \<Rightarrow> instant \<Rightarrow> escalation_state" where
  "state_at e now_t =
     (if es_state e = PENDING \<and> is_expired e now_t then ESC_EXPIRED else es_state e)"

definition request_escalation ::
  "uuid \<Rightarrow> uuid \<Rightarrow> uuid \<Rightarrow> string \<Rightarrow> string \<Rightarrow> string \<Rightarrow> string set \<Rightarrow> decimal \<Rightarrow> string \<Rightarrow> instant \<Rightarrow> int
   \<Rightarrow> escalation_error + escalation" where
  "request_escalation fresh did tid agent pid ihash scopes amount reason now_t ttl =
     (if scopes = {} then Inl EscalationValueError
      else if amount < 0 then Inl EscalationValueError
      else Inr \<lparr>es_id = fresh, es_decision_id = did, es_task_id = tid,
                es_agent_id = agent, es_principal_id = pid, es_intent_hash = ihash,
                es_requested_scopes = scopes, es_requested_amount = amount, es_reason = reason,
                es_created_at = now_t, es_expires_at = now_t + ttl, es_state = PENDING,
                es_resolved_by = None, es_resolved_at = None, es_resolution_reason = None\<rparr>)"

definition check_resolvable ::
  "escalation \<Rightarrow> string \<Rightarrow> string set \<Rightarrow> instant \<Rightarrow> escalation_error + unit" where
  "check_resolvable e approver authorized now_t =
     bindE (guardE (approver \<in> authorized) (ApproverNotAuthorized approver)) (\<lambda>_.
     bindE (guardE (approver \<noteq> es_principal_id e) (ApproverNotAuthorized approver)) (\<lambda>_.
     bindE (guardE (es_state e = PENDING) (EscalationNotPending (es_state e))) (\<lambda>_.
       guardE (\<not> is_expired e now_t) EscalationExpired)))"

definition approve ::
  "escalation \<Rightarrow> string \<Rightarrow> string set \<Rightarrow> instant \<Rightarrow> int \<Rightarrow> string set option \<Rightarrow> decimal option
   \<Rightarrow> escalation_error + (escalation \<times> elevation_grant)" where
  "approve e approver authorized now_t elevation_ttl narrowed_scopes max_amount =
     bindE (check_resolvable e approver authorized now_t) (\<lambda>_.
       (let scopes = (case narrowed_scopes of None \<Rightarrow> es_requested_scopes e | Some s \<Rightarrow> s) in
        if scopes = {} then Inl EscalationValueError
        else if scopes - es_requested_scopes e \<noteq> {} then Inl NarrowingWidensRequest
        else
         (let amount = (case max_amount of None \<Rightarrow> es_requested_amount e | Some a \<Rightarrow> a) in
          if amount > es_requested_amount e then Inl NarrowingWidensRequest
          else Inr
            (e\<lparr>es_state := APPROVED, es_resolved_by := Some approver, es_resolved_at := Some now_t\<rparr>,
             \<lparr>eg_escalation_id = es_id e, eg_task_id = es_task_id e,
              eg_principal_id = es_principal_id e, eg_agent_id = es_agent_id e,
              eg_intent_hash = es_intent_hash e, eg_scopes = scopes, eg_amount = amount,
              eg_not_before = now_t, eg_expires_at = now_t + elevation_ttl,
              eg_approved_by = approver\<rparr>))))"

definition deny_with_reason ::
  "escalation \<Rightarrow> string \<Rightarrow> string set \<Rightarrow> instant \<Rightarrow> string \<Rightarrow> escalation_error + escalation" where
  "deny_with_reason e approver authorized now_t reason =
     bindE (check_resolvable e approver authorized now_t) (\<lambda>_.
       (if strip reason = [] then Inl EscalationValueError
        else Inr (e\<lparr>es_state := DENIED, es_resolved_by := Some approver,
                    es_resolved_at := Some now_t, es_resolution_reason := Some reason\<rparr>)))"

section \<open>The store\<close>

text \<open>
  A row has the columns of an escalation, with its scopes as a JSON array.  \<open>NUMERIC(20,4)\<close>
  rounds an inserted amount to four places, half away from zero, and refuses one of more than
  sixteen integer digits; \<open>VARCHAR(64)\<close> refuses a longer text.  Both are \<open>DataError\<close>s, which
  the store does not catch.
\<close>

record escalation_row =
  er_id :: uuid
  er_decision_id :: uuid
  er_task_id :: uuid
  er_agent_id :: string
  er_principal_id :: string
  er_intent_hash :: string
  er_requested_scopes :: "string list"
  er_requested_amount :: decimal
  er_reason :: string
  er_created_at :: instant
  er_expires_at :: instant
  er_state :: escalation_state
  er_resolved_by :: "string option"
  er_resolved_at :: "instant option"
  er_resolution_reason :: "string option"

definition numeric_20_4 :: "decimal \<Rightarrow> decimal option" where
  "numeric_20_4 v =
     (let r = (if v \<ge> 0 then of_int \<lfloor>v * 10000 + 1/2\<rfloor> / 10000
               else - (of_int \<lfloor>1/2 - v * 10000\<rfloor> / 10000))
      in if \<bar>r\<bar> < 10 ^ 16 then Some r else None)"

definition to_domain :: "escalation_row \<Rightarrow> escalation" where
  "to_domain r =
     \<lparr>es_id = er_id r, es_decision_id = er_decision_id r, es_task_id = er_task_id r,
      es_agent_id = er_agent_id r, es_principal_id = er_principal_id r,
      es_intent_hash = er_intent_hash r, es_requested_scopes = set (er_requested_scopes r),
      es_requested_amount = er_requested_amount r, es_reason = er_reason r,
      es_created_at = er_created_at r, es_expires_at = er_expires_at r, es_state = er_state r,
      es_resolved_by = er_resolved_by r, es_resolved_at = er_resolved_at r,
      es_resolution_reason = er_resolution_reason r\<rparr>"

definition new_row :: "escalation \<Rightarrow> escalation_row option" where
  "new_row e =
     (case numeric_20_4 (es_requested_amount e) of
        None \<Rightarrow> None
      | Some amount \<Rightarrow>
          (if length (es_intent_hash e) > 64 then None
           else Some \<lparr>er_id = es_id e, er_decision_id = es_decision_id e, er_task_id = es_task_id e,
                      er_agent_id = es_agent_id e, er_principal_id = es_principal_id e,
                      er_intent_hash = es_intent_hash e,
                      er_requested_scopes = sorted_list_of_set (es_requested_scopes e),
                      er_requested_amount = amount, er_reason = es_reason e,
                      er_created_at = es_created_at e, er_expires_at = es_expires_at e,
                      er_state = es_state e, er_resolved_by = None, er_resolved_at = None,
                      er_resolution_reason = None\<rparr>))"

text \<open>The primary key, \<open>uq_escalations_decision_id\<close> and \<open>ck_escalations_amount_nonneg\<close>.\<close>

definition escalations_ok :: "escalation_row list \<Rightarrow> bool" where
  "escalations_ok rows =
     (distinct (map er_id rows) \<and> distinct (map er_decision_id rows)
      \<and> list_all (\<lambda>r. er_requested_amount r \<ge> 0) rows)"

definition by_decision :: "escalation_row list \<Rightarrow> uuid \<Rightarrow> escalation option" where
  "by_decision rows did = map_option to_domain (find (\<lambda>r. er_decision_id r = did) rows)"

type_synonym 'a store_result = "escalation_row list \<times> (escalation_error + 'a)"

definition create_escalation ::
  "uuid \<Rightarrow> uuid \<Rightarrow> uuid \<Rightarrow> string \<Rightarrow> string \<Rightarrow> string \<Rightarrow> string set \<Rightarrow> decimal \<Rightarrow> string \<Rightarrow> instant \<Rightarrow> int
   \<Rightarrow> escalation_row list \<Rightarrow> escalation store_result" where
  "create_escalation fresh did tid agent pid ihash scopes amount reason now_t ttl rows =
     (case request_escalation fresh did tid agent pid ihash scopes amount reason now_t ttl of
        Inl e \<Rightarrow> (rows, Inl e)
      | Inr esc \<Rightarrow>
          (case new_row esc of
             None \<Rightarrow> (rows, Inl EscalationDataError)
           | Some r \<Rightarrow>
               (if escalations_ok (rows @ [r]) then (rows @ [r], Inr esc)
                else (case by_decision rows did of
                        None \<Rightarrow> (rows, Inl EscalationIntegrityError)
                      | Some existing \<Rightarrow> (rows, Inl (DuplicateEscalationError (es_id existing) did))))))"

definition get_escalation :: "escalation_row list \<Rightarrow> uuid \<Rightarrow> escalation option" where
  "get_escalation rows i = map_option to_domain (find (\<lambda>r. er_id r = i) rows)"

text \<open>Rows with equal \<open>created_at\<close> come in an order the query leaves open; here it is the table's.\<close>

definition list_by_state :: "escalation_state \<Rightarrow> instant \<Rightarrow> escalation_row list \<Rightarrow> escalation list" where
  "list_by_state st now_t rows =
     map to_domain (sort_key er_created_at
       (if st = PENDING then filter (\<lambda>r. er_state r = st \<and> er_expires_at r > now_t) rows
        else filter (\<lambda>r. er_state r = st) rows))"

definition load_for_update :: "escalation_row list \<Rightarrow> uuid \<Rightarrow> escalation_error + escalation_row" where
  "load_for_update rows i =
     (case find (\<lambda>r. er_id r = i) rows of None \<Rightarrow> Inl EscalationNotFoundError | Some r \<Rightarrow> Inr r)"

definition write_row :: "uuid \<Rightarrow> (escalation_row \<Rightarrow> escalation_row) \<Rightarrow> escalation_row list \<Rightarrow> escalation_row list" where
  "write_row i f rows = map (\<lambda>r. if er_id r = i then f r else r) rows"

definition resolve_approve ::
  "uuid \<Rightarrow> string \<Rightarrow> string set \<Rightarrow> instant \<Rightarrow> int \<Rightarrow> string set option \<Rightarrow> decimal option
   \<Rightarrow> escalation_row list \<Rightarrow> (escalation \<times> elevation_grant) store_result" where
  "resolve_approve i approver authorized now_t elevation_ttl narrowed_scopes max_amount rows =
     (case bindE (load_for_update rows i) (\<lambda>r.
             approve (to_domain r) approver authorized now_t elevation_ttl narrowed_scopes max_amount) of
        Inl e \<Rightarrow> (rows, Inl e)
      | Inr (resolved, grant) \<Rightarrow>
          (write_row i (\<lambda>r. r\<lparr>er_state := es_state resolved, er_resolved_by := es_resolved_by resolved,
                              er_resolved_at := es_resolved_at resolved\<rparr>) rows,
           Inr (resolved, grant)))"

definition resolve_deny ::
  "uuid \<Rightarrow> string \<Rightarrow> string set \<Rightarrow> instant \<Rightarrow> string \<Rightarrow> escalation_row list \<Rightarrow> escalation store_result" where
  "resolve_deny i approver authorized now_t reason rows =
     (case bindE (load_for_update rows i) (\<lambda>r.
             deny_with_reason (to_domain r) approver authorized now_t reason) of
        Inl e \<Rightarrow> (rows, Inl e)
      | Inr resolved \<Rightarrow>
          (write_row i (\<lambda>r. r\<lparr>er_state := es_state resolved, er_resolved_by := es_resolved_by resolved,
                              er_resolved_at := es_resolved_at resolved,
                              er_resolution_reason := es_resolution_reason resolved\<rparr>) rows,
           Inr resolved))"

section \<open>The handlers\<close>

fun status_for :: "escalation_error \<Rightarrow> nat" where
  "status_for EscalationNotFoundError = 404"
| "status_for (ApproverNotAuthorized _) = 403"
| "status_for EscalationExpired = 410"
| "status_for (EscalationNotPending _) = 409"
| "status_for (DuplicateEscalationError _ _) = 409"
| "status_for NarrowingWidensRequest = 400"
| "status_for EscalationValueError = 400"
| "status_for _ = 500"

record 'k cp_settings =
  cp_approvers :: "string set"
  cp_elevation_max_depth :: int
  cp_root_private_key :: 'k

record elevated =
  el_token :: string
  el_expires_at :: instant
  el_scopes :: "string list"
  el_amount :: decimal

text \<open>
  \<open>Inl\<close> is an HTTP error status.  The session's principal is \<open>None\<close> when nobody is signed in; a
  duration is \<open>None\<close> when \<open>_seconds\<close> refuses it; 422 is the request model's own validation, 500
  an exception no handler catches.  The mandate is built and signed after the store's
  transaction has committed.
\<close>

definition open_escalation ::
  "uuid \<Rightarrow> uuid \<Rightarrow> uuid \<Rightarrow> string \<Rightarrow> string \<Rightarrow> string \<Rightarrow> string list \<Rightarrow> decimal \<Rightarrow> string \<Rightarrow> int option \<Rightarrow> instant
   \<Rightarrow> escalation_row list \<Rightarrow> escalation_row list \<times> (nat + escalation)" where
  "open_escalation fresh did tid agent pid ihash scopes amount reason ttl now_t rows =
     (if scopes = [] \<or> amount < 0 then (rows, Inl 422)
      else (case ttl of
              None \<Rightarrow> (rows, Inl 400)
            | Some d \<Rightarrow>
                (case create_escalation fresh did tid agent pid ihash (set scopes) amount reason now_t d rows of
                   (rows', Inl e) \<Rightarrow> (rows', Inl (status_for e))
                 | (rows', Inr esc) \<Rightarrow> (rows', Inr esc))))"

fun escalation_state_of_value :: "string \<Rightarrow> escalation_state option" where
  "escalation_state_of_value v =
     (if v = ''pending'' then Some PENDING else if v = ''approved'' then Some APPROVED
      else if v = ''denied'' then Some DENIED else if v = ''expired'' then Some ESC_EXPIRED else None)"

text \<open>Each listed escalation is shown with its state as of the same instant.\<close>

definition list_escalations ::
  "string \<Rightarrow> instant \<Rightarrow> escalation_row list \<Rightarrow> nat + (escalation \<times> escalation_state) list" where
  "list_escalations state now_t rows =
     (case escalation_state_of_value state of
        None \<Rightarrow> Inl 400
      | Some st \<Rightarrow> Inr (map (\<lambda>e. (e, state_at e now_t)) (list_by_state st now_t rows)))"

definition elevation_mandate :: "'k cp_settings \<Rightarrow> uuid \<Rightarrow> elevation_grant \<Rightarrow> mandate py" where
  "elevation_mandate settings fresh g =
     bindE (mk_budget \<lparr>spend_bdt = eg_amount g, tool_calls = 0, rows_read = 0, external_emails = 0,
                       wall_clock_s = 0\<rparr>) (\<lambda>b.
       mk_mandate fresh (eg_task_id g) (eg_principal_id g) (eg_intent_hash g) (eg_scopes g) b
         (cp_elevation_max_depth settings) (Aware (eg_not_before g)) (Aware (eg_expires_at g)))"

definition approve_escalation ::
  "('b, 'k) biscuit_lib \<Rightarrow> 'k cp_settings \<Rightarrow> uuid \<Rightarrow> string option \<Rightarrow> uuid \<Rightarrow> int option \<Rightarrow> string list option
   \<Rightarrow> decimal option \<Rightarrow> instant \<Rightarrow> escalation_row list \<Rightarrow> escalation_row list \<times> (nat + elevated)" where
  "approve_escalation lib settings fresh session_principal i ttl narrowed max_amount now_t rows =
     (case session_principal of
        None \<Rightarrow> (rows, Inl 401)
      | Some approver \<Rightarrow>
          (if approver = [] then (rows, Inl 401)
           else if \<not> within_opt (\<lambda>a. 0 \<le> a) max_amount then (rows, Inl 422)
           else (case ttl of
             None \<Rightarrow> (rows, Inl 400)
           | Some d \<Rightarrow>
               (case resolve_approve i approver (cp_approvers settings) now_t d (map_option set narrowed)
                       max_amount rows of
                  (rows', Inl e) \<Rightarrow> (rows', Inl (status_for e))
                | (rows', Inr (_, grant)) \<Rightarrow>
                    (case elevation_mandate settings fresh grant of
                       Inl _ \<Rightarrow> (rows', Inl 500)
                     | Inr m \<Rightarrow>
                         (case mint_root lib m (cp_root_private_key settings) of
                            Inl err \<Rightarrow> (rows', Inl (if err = TokenTooLargeError then 400 else 500))
                          | Inr tok \<Rightarrow>
                              (rows', Inr \<lparr>el_token = tok, el_expires_at = eg_expires_at grant,
                                           el_scopes = sorted_list_of_set (eg_scopes grant),
                                           el_amount = eg_amount grant\<rparr>)))))))"

definition deny_escalation ::
  "'k cp_settings \<Rightarrow> string option \<Rightarrow> uuid \<Rightarrow> string \<Rightarrow> instant \<Rightarrow> escalation_row list
   \<Rightarrow> escalation_row list \<times> (nat + escalation)" where
  "deny_escalation settings session_principal i reason now_t rows =
     (case session_principal of
        None \<Rightarrow> (rows, Inl 401)
      | Some approver \<Rightarrow>
          (if approver = [] then (rows, Inl 401)
           else (case resolve_deny i approver (cp_approvers settings) now_t reason rows of
                   (rows', Inl e) \<Rightarrow> (rows', Inl (status_for e))
                 | (rows', Inr esc) \<Rightarrow> (rows', Inr esc))))"

section \<open>Runs\<close>

text \<open>
  The transactions any callers run, in any order, under one approver allowlist; the second
  component is the history of grants handed out.
\<close>

type_synonym esc_state = "escalation_row list \<times> elevation_grant list"

inductive esc_step :: "string set \<Rightarrow> esc_state \<Rightarrow> esc_state \<Rightarrow> bool" for authorized where
  create: "create_escalation fresh did tid agent pid ihash scopes amount reason now_t ttl rows = (rows', r)
           \<Longrightarrow> finite scopes \<Longrightarrow> esc_step authorized (rows, gs) (rows', gs)"
| approve: "resolve_approve i approver authorized now_t ttl narrowed max_amount rows = (rows', Inr (e, g))
            \<Longrightarrow> esc_step authorized (rows, gs) (rows', gs @ [g])"
| approve_refused: "resolve_approve i approver authorized now_t ttl narrowed max_amount rows = (rows', Inl err)
            \<Longrightarrow> esc_step authorized (rows, gs) (rows', gs)"
| deny: "resolve_deny i approver authorized now_t reason rows = (rows', r)
         \<Longrightarrow> esc_step authorized (rows, gs) (rows', gs)"

inductive esc_reachable :: "string set \<Rightarrow> esc_state \<Rightarrow> bool" for authorized where
  init: "esc_reachable authorized ([], [])"
| step: "esc_reachable authorized s \<Longrightarrow> esc_step authorized s s' \<Longrightarrow> esc_reachable authorized s'"

inductive_cases esc_stepE: "esc_step authorized s s'"

text \<open>What an approval may hand out for a row.\<close>

definition grant_within :: "string set \<Rightarrow> escalation_row \<Rightarrow> elevation_grant \<Rightarrow> bool" where
  "grant_within authorized r g =
     (eg_scopes g \<noteq> {} \<and> eg_scopes g \<subseteq> set (er_requested_scopes r)
      \<and> eg_amount g \<le> er_requested_amount r
      \<and> eg_approved_by g \<in> authorized \<and> eg_approved_by g \<noteq> er_principal_id r
      \<and> eg_not_before g < er_expires_at r
      \<and> er_state r = APPROVED \<and> er_resolved_by r = Some (eg_approved_by g)
      \<and> er_resolved_at r = Some (eg_not_before g))"

definition esc_inv :: "string set \<Rightarrow> esc_state \<Rightarrow> bool" where
  "esc_inv authorized s = (case s of (rows, gs) \<Rightarrow>
     escalations_ok rows \<and> distinct (map eg_escalation_id gs)
     \<and> (\<forall>g \<in> set gs. \<exists>r \<in> set rows. er_id r = eg_escalation_id g \<and> grant_within authorized r g)
     \<and> (\<forall>r \<in> set rows. er_state r = APPROVED \<longrightarrow> er_id r \<in> eg_escalation_id ` set gs)
     \<and> (\<forall>r \<in> set rows. er_state r \<noteq> ESC_EXPIRED \<and> er_requested_scopes r \<noteq> []))"

section \<open>Lemmas\<close>

lemma to_domain_fields [simp]:
  "es_id (to_domain r) = er_id r" "es_state (to_domain r) = er_state r"
  "es_principal_id (to_domain r) = er_principal_id r" "es_expires_at (to_domain r) = er_expires_at r"
  "es_requested_scopes (to_domain r) = set (er_requested_scopes r)"
  "es_requested_amount (to_domain r) = er_requested_amount r"
  "es_intent_hash (to_domain r) = er_intent_hash r" "es_task_id (to_domain r) = er_task_id r"
  by (simp_all add: to_domain_def)

lemma load_Inr: "load_for_update rows i = Inr r \<Longrightarrow> r \<in> set rows \<and> er_id r = i"
  by (auto simp: load_for_update_def find_Some_iff split: option.splits)

lemma check_resolvable_iff [res_simps]:
  "check_resolvable e approver authorized now_t = Inr u \<longleftrightarrow>
     approver \<in> authorized \<and> approver \<noteq> es_principal_id e \<and> es_state e = PENDING
     \<and> now_t < es_expires_at e"
  by (auto simp: check_resolvable_def is_expired_def)

lemma approve_Inr:
  assumes "approve e approver authorized now_t ttl narrowed max_amount = Inr (e', g)"
  shows "check_resolvable e approver authorized now_t = Inr ()"
    "e' = e\<lparr>es_state := APPROVED, es_resolved_by := Some approver, es_resolved_at := Some now_t\<rparr>"
    "eg_escalation_id g = es_id e" "eg_task_id g = es_task_id e"
    "eg_principal_id g = es_principal_id e" "eg_intent_hash g = es_intent_hash e"
    "eg_scopes g \<noteq> {}" "eg_scopes g \<subseteq> es_requested_scopes e" "eg_amount g \<le> es_requested_amount e"
    "eg_not_before g = now_t" "eg_expires_at g = now_t + ttl" "eg_approved_by g = approver"
    "eg_amount g = (case max_amount of None \<Rightarrow> es_requested_amount e | Some a \<Rightarrow> a)"
  using assms by (auto simp: approve_def Let_def not_less split: if_splits)

lemma deny_Inr:
  assumes "deny_with_reason e approver authorized now_t reason = Inr e'"
  shows "check_resolvable e approver authorized now_t = Inr ()" "es_state e' = DENIED"
  using assms by (auto simp: deny_with_reason_def split: if_splits)

lemma write_row_ok:
  assumes "escalations_ok rows"
    and "\<And>r. er_id (f r) = er_id r" "\<And>r. er_decision_id (f r) = er_decision_id r"
    and "\<And>r. er_requested_amount (f r) = er_requested_amount r"
  shows "escalations_ok (write_row i f rows)"
proof -
  have "map er_id (write_row i f rows) = map er_id rows"
    "map er_decision_id (write_row i f rows) = map er_decision_id rows"
    using assms(2,3) by (auto simp: write_row_def)
  moreover have "list_all (\<lambda>r. 0 \<le> er_requested_amount r) (write_row i f rows)"
    using assms(1,4) by (auto simp: escalations_ok_def write_row_def list_all_iff)
  ultimately show ?thesis using assms(1) by (simp add: escalations_ok_def)
qed

text \<open>The rows of the table are determined by their ids.\<close>

lemma row_by_id:
  assumes "escalations_ok rows" "r \<in> set rows" "r' \<in> set rows" "er_id r = er_id r'"
  shows "r = r'"
  using assms by (metis escalations_ok_def distinct_map inj_onD)

lemma approve_effect:
  assumes "resolve_approve i approver authorized now_t ttl narrowed max_amount rows = (rows', Inr (e, g))"
  obtains r where "r \<in> set rows" "er_id r = i" "er_state r = PENDING" "now_t < er_expires_at r"
    "approve (to_domain r) approver authorized now_t ttl narrowed max_amount = Inr (e, g)"
    "rows' = write_row i (\<lambda>r. r\<lparr>er_state := APPROVED, er_resolved_by := Some approver,
                                er_resolved_at := Some now_t\<rparr>) rows"
    "grant_within authorized (r\<lparr>er_state := APPROVED, er_resolved_by := Some approver,
                                er_resolved_at := Some now_t\<rparr>) g"
    "eg_escalation_id g = i"
proof -
  obtain r where r: "load_for_update rows i = Inr r"
    and ap: "approve (to_domain r) approver authorized now_t ttl narrowed max_amount = Inr (e, g)"
    and rows': "rows' = write_row i (\<lambda>r. r\<lparr>er_state := es_state e, er_resolved_by := es_resolved_by e,
                              er_resolved_at := es_resolved_at e\<rparr>) rows"
    using assms by (auto simp: resolve_approve_def split: sum.splits)
  note ap' = approve_Inr[OF ap]
  show ?thesis
    by (rule that[of r])
       (use load_Inr[OF r] ap ap' rows' in \<open>auto simp: grant_within_def check_resolvable_iff\<close>)
qed

lemma deny_effect:
  assumes "resolve_deny i approver authorized now_t reason rows = (rows', Inr e)"
  obtains r where "r \<in> set rows" "er_id r = i" "er_state r = PENDING" "es_state e = DENIED"
    "rows' = write_row i (\<lambda>r. r\<lparr>er_state := es_state e, er_resolved_by := es_resolved_by e,
                              er_resolved_at := es_resolved_at e,
                              er_resolution_reason := es_resolution_reason e\<rparr>) rows"
proof -
  obtain r where r: "load_for_update rows i = Inr r"
    and d: "deny_with_reason (to_domain r) approver authorized now_t reason = Inr e"
    and rows': "rows' = write_row i (\<lambda>r. r\<lparr>er_state := es_state e, er_resolved_by := es_resolved_by e,
                              er_resolved_at := es_resolved_at e,
                              er_resolution_reason := es_resolution_reason e\<rparr>) rows"
    using assms by (auto simp: resolve_deny_def split: sum.splits)
  show ?thesis
    by (rule that[of r]) (use load_Inr[OF r] deny_Inr[OF d] rows' in \<open>auto simp: check_resolvable_iff\<close>)
qed

lemma refused_approve_keeps:
  "resolve_approve i approver authorized now_t ttl narrowed max_amount rows = (rows', Inl err) \<Longrightarrow> rows' = rows"
  by (auto simp: resolve_approve_def split: sum.splits)

lemma refused_deny_keeps:
  "resolve_deny i approver authorized now_t reason rows = (rows', Inl err) \<Longrightarrow> rows' = rows"
  by (auto simp: resolve_deny_def split: sum.splits)

lemma create_effect:
  assumes "create_escalation fresh did tid agent pid ihash scopes amount reason now_t ttl rows = (rows', res)"
    and "finite scopes"
  shows "rows' = rows \<or> (\<exists>r. rows' = rows @ [r] \<and> escalations_ok rows' \<and> er_state r = PENDING
    \<and> er_requested_scopes r \<noteq> [])"
  using assms
  by (auto simp: create_escalation_def new_row_def request_escalation_def Let_def
             sorted_list_of_set_eq_Nil_iff
           split: sum.splits option.splits if_splits)

text \<open>Rewriting the row of a pending escalation leaves every other row and its grant alone.\<close>

lemma write_row_other:
  "r \<in> set rows \<Longrightarrow> er_id r \<noteq> i \<Longrightarrow> r \<in> set (write_row i f rows)"
  by (auto simp: write_row_def image_iff intro!: bexI[of _ r])

lemma write_row_hit:
  "r \<in> set rows \<Longrightarrow> er_id r = i \<Longrightarrow> f r \<in> set (write_row i f rows)"
  by (auto simp: write_row_def image_iff intro!: bexI[of _ r])

lemma write_row_cases:
  assumes "r' \<in> set (write_row i f rows)"
  obtains "r' \<in> set rows" "er_id r' \<noteq> i" | r where "r \<in> set rows" "er_id r = i" "r' = f r"
  using assms by (auto simp: write_row_def split: if_splits)

lemma esc_inv_resolved_row:
  assumes "esc_inv authorized (rows, gs)" "r \<in> set rows" "er_state r = PENDING"
  shows "er_id r \<notin> eg_escalation_id ` set gs"
proof
  assume "er_id r \<in> eg_escalation_id ` set gs"
  then obtain g r' where "g \<in> set gs" "r' \<in> set rows" "er_id r' = er_id r" "grant_within authorized r' g"
    using assms(1) by (auto simp: esc_inv_def)
  moreover have "r' = r"
    using row_by_id[of rows r' r] calculation assms(1,2) by (simp add: esc_inv_def)
  ultimately show False using assms(3) by (simp add: grant_within_def)
qed

lemma esc_inv_approve:
  assumes inv: "esc_inv authorized (rows, gs)"
    and ap: "resolve_approve i approver authorized now_t ttl narrowed max_amount rows = (rows', Inr (e, g))"
  shows "esc_inv authorized (rows', gs @ [g])"
proof -
  let ?f = "\<lambda>r. r\<lparr>er_state := APPROVED, er_resolved_by := Some approver, er_resolved_at := Some now_t\<rparr>"
  obtain r where r: "r \<in> set rows" "er_id r = i" "er_state r = PENDING" and rows': "rows' = write_row i ?f rows"
    and g: "grant_within authorized (?f r) g" "eg_escalation_id g = i"
    using approve_effect[OF ap] by metis
  have fresh: "i \<notin> eg_escalation_id ` set gs" using esc_inv_resolved_row[OF inv r(1,3)] r(2) by simp
  have "escalations_ok rows'" using inv unfolding rows' by (intro write_row_ok) (auto simp: esc_inv_def)
  moreover have "\<forall>h \<in> set (gs @ [g]). \<exists>r' \<in> set rows'. er_id r' = eg_escalation_id h \<and> grant_within authorized r' h"
  proof
    fix h assume "h \<in> set (gs @ [g])"
    then consider "h = g" | "h \<in> set gs" by auto
    then show "\<exists>r' \<in> set rows'. er_id r' = eg_escalation_id h \<and> grant_within authorized r' h"
    proof cases
      case 1
      then show ?thesis using write_row_hit[OF r(1,2), of ?f] g r(2) rows'
        by (intro bexI[of _ "?f r"]) auto
    next
      case 2
      then obtain r' where "r' \<in> set rows" "er_id r' = eg_escalation_id h" "grant_within authorized r' h"
        using inv by (auto simp: esc_inv_def)
      moreover have "eg_escalation_id h \<noteq> i" using 2 fresh by auto
      ultimately show ?thesis using write_row_other rows' by metis
    qed
  qed
  moreover have "\<forall>r' \<in> set rows'. er_state r' = APPROVED \<longrightarrow> er_id r' \<in> eg_escalation_id ` set (gs @ [g])"
    using inv g(2) unfolding rows' by (auto simp: esc_inv_def elim!: write_row_cases)
  moreover have "\<forall>r' \<in> set rows'. er_state r' \<noteq> ESC_EXPIRED \<and> er_requested_scopes r' \<noteq> []"
    using inv unfolding rows' by (auto simp: esc_inv_def elim!: write_row_cases)
  ultimately show ?thesis using inv fresh g(2) by (auto simp: esc_inv_def)
qed

lemma esc_inv_deny:
  assumes inv: "esc_inv authorized (rows, gs)"
    and d: "resolve_deny i approver authorized now_t reason rows = (rows', Inr e)"
  shows "esc_inv authorized (rows', gs)"
proof -
  let ?f = "\<lambda>r. r\<lparr>er_state := es_state e, er_resolved_by := es_resolved_by e,
                 er_resolved_at := es_resolved_at e, er_resolution_reason := es_resolution_reason e\<rparr>"
  obtain r where r: "r \<in> set rows" "er_id r = i" "er_state r = PENDING" "es_state e = DENIED"
    and rows': "rows' = write_row i ?f rows"
    using deny_effect[OF d] by metis
  have fresh: "i \<notin> eg_escalation_id ` set gs" using esc_inv_resolved_row[OF inv r(1,3)] r(2) by simp
  have "escalations_ok rows'" using inv unfolding rows' by (intro write_row_ok) (auto simp: esc_inv_def)
  moreover have "\<forall>h \<in> set gs. \<exists>r' \<in> set rows'. er_id r' = eg_escalation_id h \<and> grant_within authorized r' h"
  proof
    fix h assume h: "h \<in> set gs"
    then obtain r' where "r' \<in> set rows" "er_id r' = eg_escalation_id h" "grant_within authorized r' h"
      using inv by (auto simp: esc_inv_def)
    moreover have "eg_escalation_id h \<noteq> i" using h fresh by auto
    ultimately show "\<exists>r' \<in> set rows'. er_id r' = eg_escalation_id h \<and> grant_within authorized r' h"
      using write_row_other rows' by metis
  qed
  moreover have "\<forall>r' \<in> set rows'. er_state r' = APPROVED \<longrightarrow> er_id r' \<in> eg_escalation_id ` set gs"
    using inv r(4) unfolding rows' by (auto simp: esc_inv_def elim!: write_row_cases)
  moreover have "\<forall>r' \<in> set rows'. er_state r' \<noteq> ESC_EXPIRED \<and> er_requested_scopes r' \<noteq> []"
    using inv r(4) unfolding rows' by (auto simp: esc_inv_def elim!: write_row_cases)
  ultimately show ?thesis using inv by (simp add: esc_inv_def)
qed

lemma esc_inv_create:
  assumes "esc_inv authorized (rows, gs)"
    and "rows' = rows \<or> (\<exists>r. rows' = rows @ [r] \<and> escalations_ok rows' \<and> er_state r = PENDING
    \<and> er_requested_scopes r \<noteq> [])"
  shows "esc_inv authorized (rows', gs)"
  using assms by (auto simp: esc_inv_def)

lemma esc_reachable_inv: "esc_reachable authorized s \<Longrightarrow> esc_inv authorized s"
proof (induction rule: esc_reachable.induct)
  case init
  then show ?case by (simp add: esc_inv_def escalations_ok_def)
next
  case (step s s')
  from step.hyps(2) show ?case
  proof (cases rule: esc_step.cases)
    case (create fresh did tid agent pid ihash scopes amount reason now_t ttl rows rows' r gs)
    then show ?thesis using step.IH esc_inv_create create_effect by metis
  next
    case (approve i approver now_t ttl narrowed max_amount rows rows' e g gs)
    then show ?thesis using step.IH esc_inv_approve by metis
  next
    case (approve_refused i approver now_t ttl narrowed max_amount rows rows' err gs)
    then show ?thesis using step.IH refused_approve_keeps by metis
  next
    case (deny i approver now_t reason rows rows' r gs)
    then show ?thesis using step.IH esc_inv_deny refused_deny_keeps by (cases r) metis+
  qed
qed

text \<open>A resolved row stays as it is: both resolutions refuse it before they write.\<close>

lemma resolved_row_refuses:
  assumes "escalations_ok rows" "r \<in> set rows" "er_id r = i" "er_state r \<noteq> PENDING"
  shows "\<exists>err. resolve_approve i approver authorized now_t ttl narrowed max_amount rows = (rows, Inl err)"
    "\<exists>err. resolve_deny i approver authorized now_t reason rows = (rows, Inl err)"
proof -
  have unique: "r' = r" if "r' \<in> set rows" "er_id r' = i" for r'
    using row_by_id[OF assms(1) that(1) assms(2)] that(2) assms(3) by simp
  show "\<exists>err. resolve_approve i approver authorized now_t ttl narrowed max_amount rows = (rows, Inl err)"
  proof (cases "resolve_approve i approver authorized now_t ttl narrowed max_amount rows")
    case (Pair rows' res)
    show ?thesis
    proof (cases res)
      case (Inr p)
      then obtain e g where "res = Inr (e, g)" by (cases p) simp
      then show ?thesis using approve_effect[of i approver authorized now_t ttl narrowed max_amount rows rows' e g]
          Pair unique assms(4) by metis
    qed (use Pair refused_approve_keeps in blast)
  qed
  show "\<exists>err. resolve_deny i approver authorized now_t reason rows = (rows, Inl err)"
  proof (cases "resolve_deny i approver authorized now_t reason rows")
    case (Pair rows' res)
    show ?thesis
    proof (cases res)
      case (Inr e)
      then show ?thesis using deny_effect[of i approver authorized now_t reason rows rows' e]
          Pair unique assms(4) by metis
    qed (use Pair refused_deny_keeps in blast)
  qed
qed

lemma elevation_mandate_Inr:
  assumes "elevation_mandate settings fresh g = Inr m"
  shows "mandate_wf m" "md_scopes m = eg_scopes g" "spend_bdt (md_budget m) = eg_amount g"
    "tool_calls (md_budget m) = 0" "rows_read (md_budget m) = 0" "external_emails (md_budget m) = 0"
    "wall_clock_s (md_budget m) = 0" "md_task_id m = eg_task_id g" "md_principal_id m = eg_principal_id g"
    "md_intent_hash m = eg_intent_hash g" "md_max_depth m = cp_elevation_max_depth settings"
    "md_not_before m = eg_not_before g" "md_expires_at m = eg_expires_at g"
  using assms
  by (auto simp: elevation_mandate_def mk_budget_def mk_mandate_def Let_def split: if_splits)

lemma approve_escalation_Inr:
  assumes "approve_escalation lib settings fresh sp i ttl narrowed max_amount now_t rows = (rows', Inr el)"
  obtains approver d e g m where "sp = Some approver" "ttl = Some d"
    "resolve_approve i approver (cp_approvers settings) now_t d (map_option set narrowed) max_amount rows
       = (rows', Inr (e, g))"
    "elevation_mandate settings fresh g = Inr m"
    "mint_root lib m (cp_root_private_key settings) = Inr (el_token el)"
  using assms
  by (auto simp: approve_escalation_def split: option.splits if_splits prod.splits sum.splits)

section \<open>Properties\<close>

text \<open>
  C9: Over any interleaving of requests, approvals and denials, each escalation yields at most
  one grant; every grant belongs to one approved row, was given in time by an authorized
  approver other than the agent's principal, and is within what that row asked for; and a row
  is approved only when it has such a grant.
\<close>
theorem escalation_resolves_once:
  assumes "esc_reachable authorized (rows, gs)"
  shows "distinct (map eg_escalation_id gs)
    \<and> (\<forall>g \<in> set gs. \<exists>!r. r \<in> set rows \<and> er_id r = eg_escalation_id g \<and> grant_within authorized r g)
    \<and> (\<forall>r \<in> set rows. er_state r = APPROVED \<longleftrightarrow> er_id r \<in> eg_escalation_id ` set gs)"
proof (intro conjI)
  note inv = esc_reachable_inv[OF assms]
  then show "distinct (map eg_escalation_id gs)" by (simp add: esc_inv_def)
  show "\<forall>g \<in> set gs. \<exists>!r. r \<in> set rows \<and> er_id r = eg_escalation_id g \<and> grant_within authorized r g"
  proof
    fix g assume "g \<in> set gs"
    then obtain r where r: "r \<in> set rows" "er_id r = eg_escalation_id g" "grant_within authorized r g"
      using inv by (auto simp: esc_inv_def)
    show "\<exists>!r. r \<in> set rows \<and> er_id r = eg_escalation_id g \<and> grant_within authorized r g"
    proof (rule ex1I[of _ r])
      fix r' assume r': "r' \<in> set rows \<and> er_id r' = eg_escalation_id g \<and> grant_within authorized r' g"
      show "r' = r" by (rule row_by_id[of rows]) (use r r' inv in \<open>simp_all add: esc_inv_def\<close>)
    qed (use r in simp)
  qed
  show "\<forall>r \<in> set rows. er_state r = APPROVED \<longleftrightarrow> er_id r \<in> eg_escalation_id ` set gs"
  proof
    fix r assume r: "r \<in> set rows"
    show "er_state r = APPROVED \<longleftrightarrow> er_id r \<in> eg_escalation_id ` set gs"
    proof
      assume "er_id r \<in> eg_escalation_id ` set gs"
      then obtain g r' where "g \<in> set gs" "r' \<in> set rows" "er_id r' = er_id r" "grant_within authorized r' g"
        using inv by (auto simp: esc_inv_def)
      moreover have "r' = r" using row_by_id[of rows r' r] calculation r inv by (simp add: esc_inv_def)
      ultimately show "er_state r = APPROVED" by (simp add: grant_within_def)
    qed (use inv r in \<open>auto simp: esc_inv_def\<close>)
  qed
qed

text \<open>
  C28: An approval that answers with a token has minted it from a grant within the request, and
  with a library that reads back what it signed the token verifies, at any instant of its
  window, to scopes the request named, at most the amount it asked for and nothing in any other
  dimension, for the same task, principal and intent.
\<close>
theorem elevated_token_within_request:
  assumes "approve_escalation lib settings fresh sp i ttl narrowed max_amount now_t rows = (rows', Inr el)"
    and "escalations_ok rows"
  shows "\<exists>r approver d e g m. r \<in> set rows \<and> er_id r = i \<and> er_state r = PENDING \<and> now_t < er_expires_at r
    \<and> sp = Some approver \<and> ttl = Some d
    \<and> resolve_approve i approver (cp_approvers settings) now_t d (map_option set narrowed) max_amount rows
        = (rows', Inr (e, g))
    \<and> elevation_mandate settings fresh g = Inr m
    \<and> mint_root lib m (cp_root_private_key settings) = Inr (el_token el)
    \<and> (\<forall>facts checks pk t.
         authority_facts m = Inr facts \<and> authority_checks m = Inr checks
         \<and> reads_back lib (cp_root_private_key settings) pk (facts @ checks)
         \<and> seconds (md_not_before m div 1000000) \<le> t \<and> t < seconds (md_expires_at m div 1000000) \<longrightarrow>
         (\<exists>vt. verify lib (el_token el) [pk] (Aware t) = Inr vt
            \<and> vt_scopes vt \<subseteq> set (er_requested_scopes r)
            \<and> budget_covers \<lparr>spend_bdt = er_requested_amount r, tool_calls = 0, rows_read = 0,
                             external_emails = 0, wall_clock_s = 0\<rparr> (vt_budget vt)
            \<and> vt_task_id vt = er_task_id r \<and> vt_principal_id vt = er_principal_id r
            \<and> vt_intent_hash vt = er_intent_hash r
            \<and> vt_max_depth vt = cp_elevation_max_depth settings \<and> vt_depth vt = 0))"
proof -
  obtain approver d e g m where h: "sp = Some approver" "ttl = Some d"
    "resolve_approve i approver (cp_approvers settings) now_t d (map_option set narrowed) max_amount rows
       = (rows', Inr (e, g))"
    "elevation_mandate settings fresh g = Inr m"
    "mint_root lib m (cp_root_private_key settings) = Inr (el_token el)"
    using approve_escalation_Inr[OF assms(1)] by metis
  obtain r where r: "r \<in> set rows" "er_id r = i" "er_state r = PENDING" "now_t < er_expires_at r"
    "approve (to_domain r) approver (cp_approvers settings) now_t d (map_option set narrowed) max_amount = Inr (e, g)"
    using approve_effect[OF h(3)] by metis
  note g = approve_Inr[OF r(5)] and m = elevation_mandate_Inr[OF h(4)]
  have "finite (md_scopes m)" using m(2) g(8) by (simp add: finite_subset)
  then have "\<exists>vt. verify lib (el_token el) [pk] (Aware t) = Inr vt \<and> vt = minted_token lib m
        (bl_build lib (facts @ checks) (cp_root_private_key settings)) (el_token el)"
    if "authority_facts m = Inr facts" "authority_checks m = Inr checks"
      "reads_back lib (cp_root_private_key settings) pk (facts @ checks)"
      "seconds (md_not_before m div 1000000) \<le> t" "t < seconds (md_expires_at m div 1000000)"
    for facts checks pk t
    using mint_verify_exact[OF m(1) _ that(1-3) h(5) that(4,5)] by blast
  moreover have "budget_covers \<lparr>spend_bdt = er_requested_amount r, tool_calls = 0, rows_read = 0,
      external_emails = 0, wall_clock_s = 0\<rparr> (md_budget m)"
    unfolding budget_covers_iff
  proof
    fix k show "budget_get (md_budget m) k \<le> budget_get \<lparr>spend_bdt = er_requested_amount r, tool_calls = 0,
        rows_read = 0, external_emails = 0, wall_clock_s = 0\<rparr> k"
      using m g(9) by (cases k) simp_all
  qed
  ultimately show ?thesis
    using r h m g
    by (intro exI[of _ r] exI[of _ approver] exI[of _ d] exI[of _ e] exI[of _ g] exI[of _ m])
       (fastforce simp: minted_token_def to_domain_def)
qed

text \<open>
  The approval handler commits the resolution before it builds the mandate: when the mandate
  is refused (a malformed intent hash, a principal that is no label, an elevation that ends
  before it starts), the caller gets a 500 and no token, the row is approved, and no later
  approval or denial of it can succeed.
\<close>
theorem refused_mandate_consumes_escalation:
  assumes ok: "escalations_ok rows"
    and ap: "resolve_approve i approver (cp_approvers settings) now_t d (map_option set narrowed) max_amount rows
               = (rows1, Inr (e, g))"
    and refused: "elevation_mandate settings fresh g = Inl err"
    and caller: "approver \<noteq> []" "within_opt (\<lambda>a. 0 \<le> a) max_amount"
  shows "approve_escalation lib settings fresh (Some approver) i (Some d) narrowed max_amount now_t rows
           = (rows1, Inl 500)
    \<and> (\<forall>fresh' sp ttl' narrowed' max' t'. \<exists>st.
         approve_escalation lib settings fresh' sp i ttl' narrowed' max' t' rows1 = (rows1, Inl st))
    \<and> (\<forall>sp reason t'. \<exists>st. deny_escalation settings sp i reason t' rows1 = (rows1, Inl st))"
proof -
  let ?f = "\<lambda>r. r\<lparr>er_state := APPROVED, er_resolved_by := Some approver, er_resolved_at := Some now_t\<rparr>"
  obtain r where r: "r \<in> set rows" "er_id r = i" and rows1: "rows1 = write_row i ?f rows"
    using approve_effect[OF ap] by metis
  have ok1: "escalations_ok rows1" unfolding rows1 by (intro write_row_ok ok) simp_all
  have r1: "?f r \<in> set rows1" "er_id (?f r) = i" "er_state (?f r) \<noteq> PENDING"
    using write_row_hit[OF r, of ?f] r(2) rows1 by simp_all
  note refuses = resolved_row_refuses[OF ok1 r1]
  have "\<exists>st. approve_escalation lib settings fresh' sp i ttl' narrowed' max' t' rows1 = (rows1, Inl st)"
    for fresh' sp ttl' narrowed' max' t'
  proof (cases sp; cases ttl')
    fix a d' assume "sp = Some a" "ttl' = Some d'"
    then show ?thesis
      using refuses(1)[of a "cp_approvers settings" t' d' "map_option set narrowed'" max']
      by (auto simp: approve_escalation_def)
  qed (auto simp: approve_escalation_def)
  moreover have "\<exists>st. deny_escalation settings sp i reason t' rows1 = (rows1, Inl st)" for sp reason t'
  proof (cases sp)
    case (Some a)
    then show ?thesis using refuses(2)[of a "cp_approvers settings" t' reason]
      by (auto simp: deny_escalation_def)
  qed (simp add: deny_escalation_def)
  ultimately show ?thesis using ap refused caller by (simp add: approve_escalation_def)
qed

text \<open>
  The queue agrees with \<open>state_at\<close>: listing by a state other than expired gives exactly the
  escalations that report it, oldest first, and whatever the pending list shows an authorized
  approver other than its principal can approve.  Listing by expired gives nothing, though
  \<open>state_at\<close> reports that state for every pending row past its window.
\<close>
theorem queue_agrees_with_state_at:
  assumes "esc_reachable authorized (rows, gs)"
  shows "(\<forall>st. st \<noteq> ESC_EXPIRED \<longrightarrow>
            set (list_by_state st t rows) = {e \<in> to_domain ` set rows. state_at e t = st}
            \<and> sorted (map es_created_at (list_by_state st t rows)))
    \<and> (\<forall>e \<in> set (list_by_state PENDING t rows). \<forall>approver \<in> authorized.
         approver \<noteq> es_principal_id e \<longrightarrow>
         (\<exists>g. approve e approver authorized t ttl None None = Inr g))
    \<and> list_by_state ESC_EXPIRED t rows = []"
proof (intro conjI)
  note inv = esc_reachable_inv[OF assms]
  then have st: "\<forall>r \<in> set rows. er_state r \<noteq> ESC_EXPIRED \<and> er_requested_scopes r \<noteq> []"
    by (simp add: esc_inv_def)
  have created: "map es_created_at (map to_domain rs) = map er_created_at rs" for rs
    by (simp add: to_domain_def)
  show "\<forall>st. st \<noteq> ESC_EXPIRED \<longrightarrow>
            set (list_by_state st t rows) = {e \<in> to_domain ` set rows. state_at e t = st}
            \<and> sorted (map es_created_at (list_by_state st t rows))"
    unfolding list_by_state_def created
    by (auto simp: state_at_def is_expired_def not_le)
  show "list_by_state ESC_EXPIRED t rows = []"
    using st by (auto simp: list_by_state_def filter_empty_conv)
  show "\<forall>e \<in> set (list_by_state PENDING t rows). \<forall>approver \<in> authorized.
         approver \<noteq> es_principal_id e \<longrightarrow> (\<exists>g. approve e approver authorized t ttl None None = Inr g)"
    using st by (auto simp: list_by_state_def approve_def check_resolvable_def is_expired_def guardE_def)
qed

section \<open>Witnesses\<close>

definition demo_esc :: escalation_row where
  "demo_esc =
     \<lparr>er_id = 5, er_decision_id = 6, er_task_id = 7, er_agent_id = ''agent'', er_principal_id = ''alice'',
      er_intent_hash = replicate 64 CHR ''a'', er_requested_scopes = [''orders:read''],
      er_requested_amount = 50, er_reason = ''refund'', er_created_at = 0, er_expires_at = seconds 900,
      er_state = PENDING, er_resolved_by = None, er_resolved_at = None, er_resolution_reason = None\<rparr>"

definition demo_settings :: "nat cp_settings" where
  "demo_settings = \<lparr>cp_approvers = {''bob''}, cp_elevation_max_depth = 1, cp_root_private_key = 3\<rparr>"

definition demo_grant :: "int \<Rightarrow> elevation_grant" where
  "demo_grant ttl =
     \<lparr>eg_escalation_id = 5, eg_task_id = 7, eg_principal_id = ''alice'', eg_agent_id = ''agent'',
      eg_intent_hash = replicate 64 CHR ''a'', eg_scopes = {''orders:read''}, eg_amount = 50,
      eg_not_before = seconds 10, eg_expires_at = seconds 10 + ttl, eg_approved_by = ''bob''\<rparr>"

abbreviation demo_resolved :: escalation_row where
  "demo_resolved \<equiv> demo_esc\<lparr>er_state := APPROVED, er_resolved_by := Some ''bob'',
                            er_resolved_at := Some (seconds 10)\<rparr>"

lemma demo_escalations_ok: "escalations_ok [demo_esc]"
  by (simp add: escalations_ok_def demo_esc_def)

lemma demo_approve:
  "\<exists>e. resolve_approve 5 ''bob'' {''bob''} (seconds 10) ttl None None [demo_esc]
       = ([demo_resolved], Inr (e, demo_grant ttl))"
  by (simp add: resolve_approve_def load_for_update_def approve_def check_resolvable_def is_expired_def
      write_row_def demo_esc_def to_domain_def demo_grant_def Let_def)

lemma demo_esc_created:
  "\<exists>e. create_escalation 5 6 7 ''agent'' ''alice'' (replicate 64 CHR ''a'') {''orders:read''} 50 ''refund'' 0
       (seconds 900) [] = ([demo_esc], Inr e)"
proof -
  have "\<lfloor>(50::decimal) * 10000 + 1/2\<rfloor> = 500000" by (intro floor_unique) simp_all
  then show ?thesis
    by (simp add: create_escalation_def request_escalation_def new_row_def numeric_20_4_def demo_esc_def
        escalations_ok_def)
qed

lemma demo_esc_reachable: "esc_reachable {''bob''} ([demo_esc], [])"
  "esc_reachable {''bob''} ([demo_resolved], [demo_grant ttl])"
proof -
  obtain e where "create_escalation 5 6 7 ''agent'' ''alice'' (replicate 64 CHR ''a'') {''orders:read''} 50
      ''refund'' 0 (seconds 900) [] = ([demo_esc], Inr e)" using demo_esc_created by blast
  then show 1: "esc_reachable {''bob''} ([demo_esc], [])"
    by (rule esc_reachable.step[OF esc_reachable.init esc_step.create]) simp
  obtain e' where "resolve_approve 5 ''bob'' {''bob''} (seconds 10) ttl None None [demo_esc]
      = ([demo_resolved], Inr (e', demo_grant ttl))" using demo_approve by blast
  then have "esc_step {''bob''} ([demo_esc], []) ([demo_resolved], [] @ [demo_grant ttl])"
    by (rule esc_step.approve)
  then show "esc_reachable {''bob''} ([demo_resolved], [demo_grant ttl])"
    using esc_reachable.step[OF 1] by simp
qed

theorem escalation_resolves_once_witness:
  "\<exists>!r. r \<in> set [demo_resolved] \<and> er_id r = 5 \<and> grant_within {''bob''} r (demo_grant (seconds 300))"
  using escalation_resolves_once[OF demo_esc_reachable(2)[of "seconds 300"]]
  by (simp add: demo_grant_def)

theorem queue_agrees_with_state_at_witness:
  "set (list_by_state PENDING (seconds 10) [demo_esc]) = {to_domain demo_esc}
   \<and> list_by_state ESC_EXPIRED (seconds 1000) [demo_esc] = []
   \<and> state_at (to_domain demo_esc) (seconds 1000) = ESC_EXPIRED"
  using queue_agrees_with_state_at[OF demo_esc_reachable(1), of "seconds 10"]
    queue_agrees_with_state_at[OF demo_esc_reachable(1), of "seconds 1000"]
  by (auto simp: state_at_def is_expired_def demo_esc_def)

lemma demo_elevation_refused: "elevation_mandate demo_settings 9 (demo_grant 0) = Inl ValueError"
  by (simp add: elevation_mandate_def mk_budget_def mk_mandate_def mandate_wf_def demo_grant_def
      bindE_Inl_iff Let_def)

theorem refused_mandate_consumes_escalation_witness:
  "approve_escalation demo_lib demo_settings 9 (Some ''bob'') 5 (Some 0) None None (seconds 10) [demo_esc]
     = ([demo_resolved], Inl 500)"
proof -
  obtain e where "resolve_approve 5 ''bob'' (cp_approvers demo_settings) (seconds 10) 0 (map_option set None)
      None [demo_esc] = ([demo_resolved], Inr (e, demo_grant 0))"
    using demo_approve[of 0] by (auto simp: demo_settings_def)
  from refused_mandate_consumes_escalation[OF demo_escalations_ok this demo_elevation_refused, of demo_lib]
  show ?thesis by simp
qed

text \<open>A library that reads back the one block it is given.\<close>

definition echo_lib :: "dl_stmt list \<Rightarrow> (dl_stmt list list, nat) biscuit_lib" where
  "echo_lib stmts = demo_lib\<lparr>bl_from_base64 := (\<lambda>t k. if t = ''token'' \<and> k = 7 then Some [stmts] else None)\<rparr>"

definition elevated_mandate :: mandate where
  "elevated_mandate =
     \<lparr>mandate_id = 9, md_task_id = 7, md_principal_id = ''alice'', md_intent_hash = replicate 64 CHR ''a'',
      md_scopes = {''orders:read''},
      md_budget = \<lparr>spend_bdt = 50, tool_calls = 0, rows_read = 0, external_emails = 0, wall_clock_s = 0\<rparr>,
      md_max_depth = 1, md_not_before = seconds 10, md_expires_at = seconds 310\<rparr>"

lemma elevated_mandate_wf: "mandate_wf elevated_mandate"
proof -
  have "whole (50 * 10000)" using whole_of_int[of 500000] by simp
  then show ?thesis
    using demo_mandate_wf by (auto simp: mandate_wf_def demo_mandate_def elevated_mandate_def uuid_ok_def
        budget_wf_def money_def)
qed

lemma demo_elevation: "elevation_mandate demo_settings 9 (demo_grant (seconds 300)) = Inr elevated_mandate"
proof -
  have "budget_wf (md_budget elevated_mandate)" using elevated_mandate_wf by (simp add: mandate_wf_def)
  then show ?thesis
    using elevated_mandate_wf
    by (simp add: elevation_mandate_def mk_budget_def mk_mandate_def demo_grant_def demo_settings_def
        elevated_mandate_def Let_def)
qed

lemma echo_reads_back: "reads_back (echo_lib stmts) 3 7 stmts"
proof -
  have "strip ''token'' \<noteq> []" by code_simp
  then show ?thesis by (simp add: reads_back_def echo_lib_def demo_lib_def)
qed

lemma demo_elevated:
  assumes "authority_facts elevated_mandate = Inr facts" "authority_checks elevated_mandate = Inr checks"
  shows "approve_escalation (echo_lib (facts @ checks)) demo_settings 9 (Some ''bob'') 5 (Some (seconds 300))
     None None (seconds 10) [demo_esc] =
       ([demo_resolved], Inr \<lparr>el_token = ''token'', el_expires_at = seconds 310,
                              el_scopes = [''orders:read''], el_amount = 50\<rparr>)"
proof -
  obtain e where "resolve_approve 5 ''bob'' (cp_approvers demo_settings) (seconds 10) (seconds 300) None None
      [demo_esc] = ([demo_resolved], Inr (e, demo_grant (seconds 300)))"
    using demo_approve[of "seconds 300"] by (auto simp: demo_settings_def)
  then show ?thesis
    using assms demo_elevation
    by (simp add: approve_escalation_def mint_root_def echo_lib_def demo_lib_def HARD_SIZE_LIMIT_B64_def
        Let_def demo_grant_def)
qed

theorem elevated_token_within_request_witness:
  "\<exists>lib vt. verify lib ''token'' [7 :: nat] (Aware (seconds 20)) = Inr vt \<and> vt_scopes vt \<subseteq> {''orders:read''}
     \<and> vt_depth (vt :: (dl_stmt list list) verified_token) = 0"
proof -
  obtain facts checks where blk: "authority_facts elevated_mandate = Inr facts"
      "authority_checks elevated_mandate = Inr checks"
    using authority_ok[OF elevated_mandate_wf] by blast
  let ?lib = "echo_lib (facts @ checks)"
  obtain e0 where ap: "resolve_approve 5 ''bob'' (cp_approvers demo_settings) (seconds 10) (seconds 300)
      (map_option set None) None [demo_esc] = ([demo_resolved], Inr (e0, demo_grant (seconds 300)))"
    using demo_approve[of "seconds 300"] by (auto simp: demo_settings_def)
  obtain r m where "r \<in> set [demo_esc]" and m: "m = elevated_mandate"
    and v: "\<forall>facts checks pk t.
         authority_facts m = Inr facts \<and> authority_checks m = Inr checks
         \<and> reads_back ?lib (cp_root_private_key demo_settings) pk (facts @ checks)
         \<and> seconds (md_not_before m div 1000000) \<le> t \<and> t < seconds (md_expires_at m div 1000000) \<longrightarrow>
         (\<exists>vt. verify ?lib ''token'' [pk] (Aware t) = Inr vt
            \<and> vt_scopes vt \<subseteq> set (er_requested_scopes r) \<and> vt_depth vt = 0)"
    using elevated_token_within_request[OF demo_elevated[OF blk] demo_escalations_ok] ap demo_elevation
    by fastforce
  then have "\<exists>vt. verify ?lib ''token'' [7] (Aware (seconds 20)) = Inr vt
      \<and> vt_scopes vt \<subseteq> set (er_requested_scopes demo_esc) \<and> vt_depth vt = 0"
    using blk echo_reads_back[of "facts @ checks"]
    by (simp add: demo_settings_def elevated_mandate_def)
  then show ?thesis by (auto simp: demo_esc_def)
qed

end
