(* ===== verification/Tasks.thy ===== *)
theory Tasks
  imports Attenuation Hashing "HOL-Library.AList"
begin

text \<open>
  \<open>agentiam_controlplane/tasks.py\<close>: the tasks an operator starts from the console, and the agents
  spawned under them.

  The registry is a dictionary in insertion order, from task ids to tasks, each with a dictionary
  of its agents.  An operation that raises leaves it as it was, so an operation returns the new
  registry or an error.  The biscuit library, SHA-256, the clock and the random task id are
  arguments.
\<close>

section \<open>State\<close>

definition DEMO_MANDATE_ID :: uuid where "DEMO_MANDATE_ID = 0xd0d0d0d0000040008000000000000001"

definition GRANTABLE_SCOPES :: "string list" where
  "GRANTABLE_SCOPES = [''invoice:read'', ''vendor:read'', ''payment:initiate'', ''email:send'']"

definition DEFAULT_TTL :: int where "DEFAULT_TTL = seconds (8 * 3600)"
definition DEFAULT_MAX_DEPTH :: int where "DEFAULT_MAX_DEPTH = 4"

datatype task_error = TaskRegistryError | TaskRaised exc

record agent_record =
  ag_agent_id :: string
  ag_role :: string
  ag_depth :: int
  ag_scopes :: "string set"
  ag_ceiling :: "decimal option"
  ag_token :: string
  ag_parent_id :: "string option"

record task_record =
  tk_task_id :: uuid
  tk_description :: string
  tk_budget :: decimal
  tk_scopes :: "string set"
  tk_principal_id :: string
  tk_created_at :: instant
  tk_expires_at :: instant
  tk_agents :: "(string \<times> agent_record) list"

type_synonym task_registry = "(uuid \<times> task_record) list"

definition root :: "task_record \<Rightarrow> agent_record option" where
  "root t = map_of (tk_agents t) ''root''"

text \<open>\<open>as_dict\<close>, before its values are rendered as text: the tokens are left out.\<close>

record agent_view =
  av_agent_id :: string
  av_role :: string
  av_depth :: int
  av_scopes :: "string list"
  av_ceiling :: "decimal option"
  av_parent_id :: "string option"

record task_view =
  tv_task_id :: uuid
  tv_description :: string
  tv_budget :: decimal
  tv_scopes :: "string list"
  tv_principal_id :: string
  tv_created_at :: instant
  tv_expires_at :: instant
  tv_agents :: "agent_view list"

definition agent_view_of :: "agent_record \<Rightarrow> agent_view" where
  "agent_view_of a =
     \<lparr>av_agent_id = ag_agent_id a, av_role = ag_role a, av_depth = ag_depth a,
      av_scopes = sorted_list_of_set (ag_scopes a), av_ceiling = ag_ceiling a, av_parent_id = ag_parent_id a\<rparr>"

text \<open>Sorting by \<open>(depth, agent_id)\<close> is sorting by the id and then, stably, by the depth.\<close>

definition as_dict :: "task_record \<Rightarrow> task_view" where
  "as_dict t =
     \<lparr>tv_task_id = tk_task_id t, tv_description = tk_description t, tv_budget = tk_budget t,
      tv_scopes = sorted_list_of_set (tk_scopes t), tv_principal_id = tk_principal_id t,
      tv_created_at = tk_created_at t, tv_expires_at = tk_expires_at t,
      tv_agents = map agent_view_of (sort_key ag_depth (sort_key ag_agent_id (map snd (tk_agents t))))\<rparr>"

section \<open>Reads\<close>

text \<open>\<open>reverse=True\<close> keeps equal keys in their order.\<close>

definition list_tasks :: "task_registry \<Rightarrow> task_record list" where
  "list_tasks reg = rev (sort_key tk_created_at (rev (map snd reg)))"

definition get_task :: "uuid \<Rightarrow> task_registry \<Rightarrow> task_error + task_record" where
  "get_task task_id reg = (case map_of reg task_id of None \<Rightarrow> Inl TaskRegistryError | Some t \<Rightarrow> Inr t)"

definition token_for :: "uuid \<Rightarrow> string \<Rightarrow> task_registry \<Rightarrow> task_error + string" where
  "token_for task_id agent_id reg =
     bindE (get_task task_id reg) (\<lambda>t.
       case map_of (tk_agents t) agent_id of None \<Rightarrow> Inl TaskRegistryError | Some a \<Rightarrow> Inr (ag_token a))"

section \<open>Writes\<close>

definition raised :: "'a py \<Rightarrow> task_error + 'a" where
  "raised r = (case r of Inl e \<Rightarrow> Inl (TaskRaised e) | Inr x \<Rightarrow> Inr x)"

definition task_mandate ::
  "hasher \<Rightarrow> uuid \<Rightarrow> instant \<Rightarrow> string \<Rightarrow> decimal \<Rightarrow> string set \<Rightarrow> string \<Rightarrow> int \<Rightarrow> mandate py" where
  "task_mandate sha task_id now_t description budget scopes principal_id ttl =
     bindE (intent_hash_of sha description) (\<lambda>h.
     bindE (mk_budget \<lparr>spend_bdt = budget, tool_calls = 1000, rows_read = 100000, external_emails = 0,
                       wall_clock_s = 0\<rparr>) (\<lambda>b.
       mk_mandate DEMO_MANDATE_ID task_id principal_id h scopes b DEFAULT_MAX_DEPTH
         (Aware (now_t - seconds 60)) (Aware (now_t + ttl))))"

definition create_task ::
  "('b, 'k) biscuit_lib \<Rightarrow> hasher \<Rightarrow> 'k \<Rightarrow> uuid \<Rightarrow> instant \<Rightarrow> string \<Rightarrow> decimal \<Rightarrow> string set \<Rightarrow> string \<Rightarrow> int
    \<Rightarrow> task_registry \<Rightarrow> task_error + task_record \<times> task_registry" where
  "create_task lib sha private_key fresh now_t description budget scopes principal_id ttl reg =
     (let d = strip description in
      if d = [] then Inl TaskRegistryError
      else if budget \<le> 0 then Inl TaskRegistryError
      else if scopes = {} then Inl TaskRegistryError
      else if \<not> scopes \<subseteq> set GRANTABLE_SCOPES then Inl TaskRegistryError
      else bindE (raised (task_mandate sha fresh now_t d budget scopes principal_id ttl)) (\<lambda>m.
           bindE (raised (mint_root lib m private_key)) (\<lambda>token.
             let t = \<lparr>tk_task_id = fresh, tk_description = d, tk_budget = budget, tk_scopes = scopes,
                      tk_principal_id = principal_id, tk_created_at = now_t, tk_expires_at = md_expires_at m,
                      tk_agents = [(''root'', \<lparr>ag_agent_id = ''root'', ag_role = ''principal'', ag_depth = 0,
                         ag_scopes = scopes, ag_ceiling = None, ag_token = token, ag_parent_id = None\<rparr>)]\<rparr>
             in Inr (t, AList.update fresh t reg))))"

text \<open>Whatever is raised inside the \<open>try\<close> becomes a \<open>TaskRegistryError\<close>.\<close>

definition child_caveats :: "string set \<Rightarrow> decimal \<Rightarrow> (caveat list) py" where
  "child_caveats scopes limit =
     bindE (mk_caveat (ScopeSubset scopes)) (\<lambda>a. bindE (mk_caveat (BudgetCeiling SPEND_BDT limit)) (\<lambda>b. Inr [a, b]))"

definition spawn_agent ::
  "('b, 'k) biscuit_lib \<Rightarrow> 'k \<Rightarrow> instant \<Rightarrow> uuid \<Rightarrow> string \<Rightarrow> string \<Rightarrow> string \<Rightarrow> string set \<Rightarrow> decimal
    \<Rightarrow> task_registry \<Rightarrow> task_error + agent_record \<times> task_registry" where
  "spawn_agent lib public_key now_t task_id parent_id agent_id role scopes limit reg =
     bindE (get_task task_id reg) (\<lambda>t.
       let a = strip agent_id in
       if a = [] then Inl TaskRegistryError
       else if map_of (tk_agents t) a \<noteq> None then Inl TaskRegistryError
       else (case map_of (tk_agents t) parent_id of
               None \<Rightarrow> Inl TaskRegistryError
             | Some parent \<Rightarrow>
                 if scopes = {} then Inl TaskRegistryError
                 else if limit < 0 then Inl TaskRegistryError
                 else bindE (raised (bindE (mk_root_key_set [public_key]) (\<lambda>keys. verify lib (ag_token parent) keys (Aware now_t)))) (\<lambda>verified.
                   case bindE (child_caveats scopes limit) (\<lambda>cs. attenuate lib verified cs a role []) of
                     Inl _ \<Rightarrow> Inl TaskRegistryError
                   | Inr token \<Rightarrow>
                       let r = \<lparr>ag_agent_id = a, ag_role = role, ag_depth = ag_depth parent + 1, ag_scopes = scopes,
                                ag_ceiling = Some limit, ag_token = token, ag_parent_id = Some parent_id\<rparr>
                       in Inr (r, AList.update task_id (t\<lparr>tk_agents := AList.update a r (tk_agents t)\<rparr>) reg))))"

definition forget :: "uuid \<Rightarrow> task_registry \<Rightarrow> task_registry" where
  "forget task_id reg = AList.delete task_id reg"

inductive registry_step :: "('b, 'k) biscuit_lib \<Rightarrow> hasher \<Rightarrow> 'k \<Rightarrow> 'k \<Rightarrow> task_registry \<Rightarrow> task_registry \<Rightarrow> bool"
  for lib sha sk pk where
  created: "create_task lib sha sk fresh now_t description budget scopes principal_id ttl reg = Inr (t, reg')
    \<Longrightarrow> fresh \<notin> dom (map_of reg) \<Longrightarrow> registry_step lib sha sk pk reg reg'"
| spawned: "spawn_agent lib pk now_t task_id parent_id agent_id role scopes limit reg = Inr (a, reg')
    \<Longrightarrow> registry_step lib sha sk pk reg reg'"
| forgotten: "registry_step lib sha sk pk reg (forget task_id reg)"

abbreviation registry_run :: "('b, 'k) biscuit_lib \<Rightarrow> hasher \<Rightarrow> 'k \<Rightarrow> 'k \<Rightarrow> task_registry \<Rightarrow> bool" where
  "registry_run lib sha sk pk reg \<equiv> (registry_step lib sha sk pk)\<^sup>*\<^sup>* [] reg"

section \<open>What the tokens carry\<close>

text \<open>
  What biscuit documents of blocks: a token answers queries from its authority block alone, a
  block more changes the count and no answer, and a token that parses is the one that was printed.
\<close>

definition keeps_authority :: "('b, 'k) biscuit_lib \<Rightarrow> bool" where
  "keeps_authority lib =
     ((\<forall>stmts k. answers_with lib (bl_build lib stmts k) stmts \<and> bl_block_count lib (bl_build lib stmts k) = 1)
      \<and> (\<forall>b stmts p. bl_query lib (bl_append lib b stmts) p = bl_query lib b p)
      \<and> (\<forall>b stmts. bl_block_count lib (bl_append lib b stmts) = bl_block_count lib b + 1)
      \<and> (\<forall>b b' k. bl_from_base64 lib (bl_to_base64 lib b) k = Some b' \<longrightarrow>
           (\<forall>p. bl_query lib b' p = bl_query lib b p) \<and> bl_block_count lib b' = bl_block_count lib b)
      \<and> (\<forall>s. bl_str lib (TStr s) = s))"

definition token_of :: "('b, 'k) biscuit_lib \<Rightarrow> mandate \<Rightarrow> int \<Rightarrow> string \<Rightarrow> bool" where
  "token_of lib m depth tok =
     (\<exists>b facts checks. authority_facts m = Inr facts \<and> authority_checks m = Inr checks
        \<and> answers_with lib b (facts @ checks) \<and> bl_block_count lib b = depth + 1 \<and> tok = bl_to_base64 lib b)"

lemma token_verifies:
  assumes lib: "keeps_authority lib" and m: "mandate_wf m" "finite (md_scopes m)" and tok: "token_of lib m depth tok"
    and v: "verify lib tok keys dt = Inr vt"
  shows "vt = granted_token lib m (vt_biscuit vt) tok" "bl_block_count lib (vt_biscuit vt) = depth + 1"
    "\<exists>facts checks. authority_facts m = Inr facts \<and> authority_checks m = Inr checks \<and> answers_with lib (vt_biscuit vt) (facts @ checks)"
proof -
  obtain b facts checks where b: "authority_facts m = Inr facts" "authority_checks m = Inr checks"
    "answers_with lib b (facts @ checks)" "bl_block_count lib b = depth + 1" "tok = bl_to_base64 lib b"
    using tok by (auto simp: token_of_def)
  obtain t k where s: "dt = Aware t" "length tok \<le> HARD_SIZE_LIMIT_B64" "k \<in> set keys" "bl_from_base64 lib tok k = Some (vt_biscuit vt)"
    using verify_accepts[OF v] by auto
  have same: "answers_with lib (vt_biscuit vt) (facts @ checks)" "bl_block_count lib (vt_biscuit vt) = depth + 1"
    using lib b s(4) unfolding keeps_authority_def answers_with_def by metis+
  have parse: "parse_biscuit lib tok keys = Inr (vt_biscuit vt)"
    using v by (auto simp: verify_def Let_def)
  have str: "bl_str lib (TStr s) = s" for s using lib by (simp add: keeps_authority_def)
  have "verify lib tok keys (Aware t) = Inr vt" using v s(1) by simp
  then show "vt = granted_token lib m (vt_biscuit vt) tok"
    unfolding verify_exact[OF m b(1,2) same(1) str parse s(2)] by (simp split: if_splits)
  show "bl_block_count lib (vt_biscuit vt) = depth + 1" by (rule same(2))
  show "\<exists>facts checks. authority_facts m = Inr facts \<and> authority_checks m = Inr checks \<and> answers_with lib (vt_biscuit vt) (facts @ checks)"
    using b same by blast
qed

lemma minted_token_of:
  assumes "keeps_authority lib" "mint_root lib m sk = Inr tok"
  shows "token_of lib m 0 tok"
  using assms by (auto simp: token_of_def mint_root_def keeps_authority_def Let_def split: if_splits)

lemma child_token_of:
  assumes lib: "keeps_authority lib" and m: "mandate_wf m" "finite (md_scopes m)" and tok: "token_of lib m depth tok"
    and v: "verify lib tok keys dt = Inr vt" and a: "attenuate lib vt cs agent_id role anc = Inr child"
  shows "token_of lib m (depth + 1) child"
proof -
  note vt = token_verifies(2,3)[OF lib m tok v]
  obtain stmts where child: "child = bl_to_base64 lib (bl_append lib (vt_biscuit vt) stmts)"
    using a by (auto simp: attenuate_def Let_def split: if_splits)
  have "bl_query lib (bl_append lib (vt_biscuit vt) stmts) p = bl_query lib (vt_biscuit vt) p" for p
    using lib unfolding keeps_authority_def by blast
  moreover have "bl_block_count lib (bl_append lib (vt_biscuit vt) stmts) = bl_block_count lib (vt_biscuit vt) + 1"
    using lib unfolding keeps_authority_def by blast
  ultimately show ?thesis using vt child unfolding token_of_def answers_with_def
    by (intro exI[of _ "bl_append lib (vt_biscuit vt) stmts"]) simp
qed

section \<open>Registries\<close>

definition agent_wf :: "task_record \<Rightarrow> string \<times> agent_record \<Rightarrow> bool" where
  "agent_wf t x = (case x of (i, a) \<Rightarrow> ag_agent_id a = i \<and>
     (case ag_parent_id a of
        None \<Rightarrow> i = ''root'' \<and> ag_depth a = 0 \<and> ag_scopes a = tk_scopes t \<and> ag_ceiling a = None
      | Some p \<Rightarrow> (\<exists>b. map_of (tk_agents t) p = Some b \<and> ag_depth a = ag_depth b + 1)
          \<and> ag_scopes a \<noteq> {} \<and> ag_scopes a \<subseteq> tk_scopes t
          \<and> (\<exists>c. ag_ceiling a = Some c \<and> 0 \<le> c \<and> c \<le> tk_budget t)))"

definition mandate_of :: "task_record \<Rightarrow> mandate \<Rightarrow> bool" where
  "mandate_of t m =
     (mandate_wf m \<and> finite (md_scopes m) \<and> mandate_id m = DEMO_MANDATE_ID \<and> md_task_id m = tk_task_id t
      \<and> md_principal_id m = tk_principal_id t \<and> md_scopes m = tk_scopes t \<and> spend_bdt (md_budget m) = tk_budget t
      \<and> md_expires_at m = tk_expires_at t)"

definition task_inv :: "('b, 'k) biscuit_lib \<Rightarrow> uuid \<times> task_record \<Rightarrow> bool" where
  "task_inv lib x = (case x of (i, t) \<Rightarrow>
     tk_task_id t = i \<and> root t \<noteq> None \<and> (\<forall>j a. map_of (tk_agents t) j = Some a \<longrightarrow> agent_wf t (j, a))
     \<and> (\<exists>m. mandate_of t m \<and> (\<forall>j a. map_of (tk_agents t) j = Some a \<longrightarrow> token_of lib m (ag_depth a) (ag_token a))))"

definition registry_inv :: "('b, 'k) biscuit_lib \<Rightarrow> task_registry \<Rightarrow> bool" where
  "registry_inv lib reg = (\<forall>i t. map_of reg i = Some t \<longrightarrow> task_inv lib (i, t))"

lemma create_task_Inr:
  assumes "create_task lib sha sk fresh now_t description budget scopes principal_id ttl reg = Inr (t, reg')"
  obtains m token where "task_mandate sha fresh now_t (strip description) budget scopes principal_id ttl = Inr m"
    "mint_root lib m sk = Inr token" "reg' = AList.update fresh t reg" "0 < budget" "scopes \<noteq> {}" "scopes \<subseteq> set GRANTABLE_SCOPES"
    "t = \<lparr>tk_task_id = fresh, tk_description = strip description, tk_budget = budget, tk_scopes = scopes,
        tk_principal_id = principal_id, tk_created_at = now_t, tk_expires_at = md_expires_at m,
        tk_agents = [(''root'', \<lparr>ag_agent_id = ''root'', ag_role = ''principal'', ag_depth = 0,
           ag_scopes = scopes, ag_ceiling = None, ag_token = token, ag_parent_id = None\<rparr>)]\<rparr>"
proof -
  have "\<exists>m token. task_mandate sha fresh now_t (strip description) budget scopes principal_id ttl = Inr m
    \<and> mint_root lib m sk = Inr token \<and> reg' = AList.update fresh t reg \<and> 0 < budget \<and> scopes \<noteq> {} \<and> scopes \<subseteq> set GRANTABLE_SCOPES
    \<and> t = \<lparr>tk_task_id = fresh, tk_description = strip description, tk_budget = budget, tk_scopes = scopes,
        tk_principal_id = principal_id, tk_created_at = now_t, tk_expires_at = md_expires_at m,
        tk_agents = [(''root'', \<lparr>ag_agent_id = ''root'', ag_role = ''principal'', ag_depth = 0,
           ag_scopes = scopes, ag_ceiling = None, ag_token = token, ag_parent_id = None\<rparr>)]\<rparr>"
    using assms by (auto simp: create_task_def raised_def Let_def not_le split: if_splits sum.splits)
  then show thesis using that by blast
qed

lemma task_mandate_Inr:
  assumes "task_mandate sha fresh now_t d budget scopes principal_id ttl = Inr m"
  shows "mandate_wf m" "mandate_id m = DEMO_MANDATE_ID" "md_task_id m = fresh" "md_principal_id m = principal_id"
    "md_scopes m = scopes" "spend_bdt (md_budget m) = budget" "md_max_depth m = DEFAULT_MAX_DEPTH"
    "intent_hash_of sha d = Inr (md_intent_hash m)" "md_not_before m = now_t - seconds 60" "md_expires_at m = now_t + ttl"
  using assms by (auto simp: task_mandate_def mk_budget_def mk_mandate_def Let_def split: if_splits)

lemma created_inv:
  assumes lib: "keeps_authority lib"
    and run: "create_task lib sha sk fresh now_t description budget scopes principal_id ttl reg = Inr (t, reg')"
  shows "task_inv lib (fresh, t)"
proof -
  obtain m token where m: "task_mandate sha fresh now_t (strip description) budget scopes principal_id ttl = Inr m"
    and tok: "mint_root lib m sk = Inr token" and sc: "scopes \<subseteq> set GRANTABLE_SCOPES"
    and t: "t = \<lparr>tk_task_id = fresh, tk_description = strip description, tk_budget = budget, tk_scopes = scopes,
        tk_principal_id = principal_id, tk_created_at = now_t, tk_expires_at = md_expires_at m,
        tk_agents = [(''root'', \<lparr>ag_agent_id = ''root'', ag_role = ''principal'', ag_depth = 0,
           ag_scopes = scopes, ag_ceiling = None, ag_token = token, ag_parent_id = None\<rparr>)]\<rparr>"
    using create_task_Inr[OF run] by metis
  note mm = task_mandate_Inr[OF m]
  have "finite scopes" using sc finite_subset by blast
  then have "mandate_of t m" using mm by (simp add: mandate_of_def t)
  then show ?thesis using minted_token_of[OF lib tok] by (auto simp: task_inv_def t root_def agent_wf_def)
qed

lemma spawn_agent_Inr:
  assumes "spawn_agent lib pk now_t i p agent_id role scopes limit reg = Inr (a, reg')"
  obtains t parent vt token where "map_of reg i = Some t" "map_of (tk_agents t) (strip agent_id) = None"
    "map_of (tk_agents t) p = Some parent" "scopes \<noteq> {}" "0 \<le> limit"
    "verify lib (ag_token parent) [pk] (Aware now_t) = Inr vt"
    "caveat_wf (ScopeSubset scopes)" "caveat_wf (BudgetCeiling SPEND_BDT limit)"
    "attenuate lib vt [ScopeSubset scopes, BudgetCeiling SPEND_BDT limit] (strip agent_id) role [] = Inr token"
    "a = \<lparr>ag_agent_id = strip agent_id, ag_role = role, ag_depth = ag_depth parent + 1, ag_scopes = scopes,
          ag_ceiling = Some limit, ag_token = token, ag_parent_id = Some p\<rparr>"
    "reg' = AList.update i (t\<lparr>tk_agents := AList.update (strip agent_id) a (tk_agents t)\<rparr>) reg"
proof -
  have "\<exists>t parent vt token. map_of reg i = Some t \<and> map_of (tk_agents t) (strip agent_id) = None
    \<and> map_of (tk_agents t) p = Some parent \<and> scopes \<noteq> {} \<and> 0 \<le> limit
    \<and> verify lib (ag_token parent) [pk] (Aware now_t) = Inr vt
    \<and> caveat_wf (ScopeSubset scopes) \<and> caveat_wf (BudgetCeiling SPEND_BDT limit)
    \<and> attenuate lib vt [ScopeSubset scopes, BudgetCeiling SPEND_BDT limit] (strip agent_id) role [] = Inr token
    \<and> a = \<lparr>ag_agent_id = strip agent_id, ag_role = role, ag_depth = ag_depth parent + 1, ag_scopes = scopes,
          ag_ceiling = Some limit, ag_token = token, ag_parent_id = Some p\<rparr>
    \<and> reg' = AList.update i (t\<lparr>tk_agents := AList.update (strip agent_id) a (tk_agents t)\<rparr>) reg"
    using assms
    by (auto simp: spawn_agent_def get_task_def raised_def child_caveats_def mk_caveat_def mk_root_key_set_def Let_def not_less
        split: if_splits sum.splits option.splits)
  then show thesis using that by blast
qed

lemma spawned_inv:
  assumes lib: "keeps_authority lib" and inv: "task_inv lib (i, t)"
    and parent: "map_of (tk_agents t) p = Some parent" and new: "map_of (tk_agents t) j = None"
    and v: "verify lib (ag_token parent) keys dt = Inr vt"
    and cs: "caveat_wf (ScopeSubset S)" "caveat_wf (BudgetCeiling SPEND_BDT c)" "S \<noteq> {}" "0 \<le> c"
    and a: "attenuate lib vt [ScopeSubset S, BudgetCeiling SPEND_BDT c] j role [] = Inr token"
  shows "task_inv lib (i, t\<lparr>tk_agents := AList.update j
    \<lparr>ag_agent_id = j, ag_role = role, ag_depth = ag_depth parent + 1, ag_scopes = S, ag_ceiling = Some c,
     ag_token = token, ag_parent_id = Some p\<rparr> (tk_agents t)\<rparr>)"
proof -
  obtain m where m: "mandate_of t m" "\<forall>j a. map_of (tk_agents t) j = Some a \<longrightarrow> token_of lib m (ag_depth a) (ag_token a)"
    using inv by (auto simp: task_inv_def)
  have mw: "mandate_wf m" "finite (md_scopes m)" using m(1) unfolding mandate_of_def by blast+
  have pt: "token_of lib m (ag_depth parent) (ag_token parent)" using m(2) parent by blast
  have vt: "vt = granted_token lib m (vt_biscuit vt) (ag_token parent)" by (rule token_verifies(1)[OF lib mw pt v])
  have fields: "vt_scopes vt = tk_scopes t" "spend_bdt (vt_budget vt) = tk_budget t"
    using m(1) by (subst vt, simp add: granted_token_def minted_token_def mandate_of_def)+
  have "within_grant vt (ScopeSubset S)" "within_grant vt (BudgetCeiling SPEND_BDT c)"
    using attenuate_grants[OF a] cs by auto
  then have within: "S \<subseteq> tk_scopes t" "c \<le> tk_budget t" using fields by simp_all
  have jp: "j \<noteq> p" using parent new by auto
  have "mandate_of (t\<lparr>tk_agents := as\<rparr>) m" for as using m(1) by (auto simp: mandate_of_def)
  moreover have "token_of lib m (ag_depth parent + 1) token" by (rule child_token_of[OF lib mw pt v a])
  moreover have "agent_wf (t\<lparr>tk_agents := AList.update j r (tk_agents t)\<rparr>) (k, b)"
    if "map_of (tk_agents t) k = Some b" for k b r
  proof -
    have "agent_wf t (k, b)" using inv that by (simp add: task_inv_def)
    then show ?thesis using new by (fastforce simp: agent_wf_def update_conv' split: option.splits)
  qed
  ultimately show ?thesis using inv m(2) parent new within cs(3,4) jp
    by (auto simp: task_inv_def root_def update_conv' agent_wf_def intro!: exI[of _ m])
qed

lemma step_registry_inv:
  assumes lib: "keeps_authority lib" and step: "registry_step lib sha sk pk reg reg'" and inv: "registry_inv lib reg"
  shows "registry_inv lib reg'"
  using step
proof cases
  case (created fresh now_t description budget scopes principal_id ttl t)
  have "reg' = AList.update fresh t reg" using create_task_Inr[OF created(1)] by metis
  then show ?thesis using inv created_inv[OF lib created(1)] by (simp add: registry_inv_def update_conv')
next
  case (spawned now_t i p agent_id role scopes limit a)
  obtain t parent vt token where s: "map_of reg i = Some t" "map_of (tk_agents t) (strip agent_id) = None"
    "map_of (tk_agents t) p = Some parent" "scopes \<noteq> {}" "0 \<le> limit"
    "verify lib (ag_token parent) [pk] (Aware now_t) = Inr vt"
    "caveat_wf (ScopeSubset scopes)" "caveat_wf (BudgetCeiling SPEND_BDT limit)"
    "attenuate lib vt [ScopeSubset scopes, BudgetCeiling SPEND_BDT limit] (strip agent_id) role [] = Inr token"
    "a = \<lparr>ag_agent_id = strip agent_id, ag_role = role, ag_depth = ag_depth parent + 1, ag_scopes = scopes,
          ag_ceiling = Some limit, ag_token = token, ag_parent_id = Some p\<rparr>"
    "reg' = AList.update i (t\<lparr>tk_agents := AList.update (strip agent_id) a (tk_agents t)\<rparr>) reg"
    using spawn_agent_Inr[OF spawned] by metis
  have "task_inv lib (i, t)" using inv s(1) by (simp add: registry_inv_def)
  from spawned_inv[OF lib this s(3,2,6,7,8,4,5,9)] show ?thesis
    using inv by (simp add: registry_inv_def s(10,11) update_conv')
next
  case (forgotten i)
  then show ?thesis using inv by (simp add: registry_inv_def forget_def delete_conv')
qed

lemma run_registry_inv:
  assumes "keeps_authority lib" "registry_run lib sha sk pk reg"
  shows "registry_inv lib reg"
  using assms(2) by (induction rule: rtranclp_induct) (auto simp: registry_inv_def[of _ "[]"] intro: step_registry_inv[OF assms(1)])

section \<open>Properties\<close>

text \<open>
  C23: Every agent of the console stays inside its task.  In every registry that creating,
  spawning and forgetting can produce, an agent is the root or has a parent one level above it,
  its recorded scopes and ceiling are within those the operator granted, and its token, whenever
  and wherever it verifies, carries the identity, scopes and budget of the task at the agent's depth.
\<close>
theorem agents_stay_within_task:
  assumes "keeps_authority lib" "registry_run lib sha sk pk reg"
    and "get_task i reg = Inr t" "map_of (tk_agents t) j = Some a"
  shows "tk_task_id t = i \<and> root t \<noteq> None \<and> agent_wf t (j, a)
    \<and> (\<forall>dt vt. verify lib (ag_token a) [pk] dt = Inr vt \<longrightarrow>
         vt_task_id vt = i \<and> vt_mandate_id vt = DEMO_MANDATE_ID \<and> vt_principal_id vt = tk_principal_id t
       \<and> vt_scopes vt = tk_scopes t \<and> spend_bdt (vt_budget vt) = tk_budget t \<and> vt_depth vt = ag_depth a)"
proof -
  have inv: "task_inv lib (i, t)" using run_registry_inv[OF assms(1,2)] assms(3)
    by (simp add: registry_inv_def get_task_def split: option.splits)
  then obtain m where m: "mandate_of t m" "token_of lib m (ag_depth a) (ag_token a)"
    using assms(4) by (auto simp: task_inv_def)
  have mw: "mandate_wf m" "finite (md_scopes m)" using m(1) unfolding mandate_of_def by blast+
  have "vt_task_id vt = i \<and> vt_mandate_id vt = DEMO_MANDATE_ID \<and> vt_principal_id vt = tk_principal_id t
       \<and> vt_scopes vt = tk_scopes t \<and> spend_bdt (vt_budget vt) = tk_budget t \<and> vt_depth vt = ag_depth a"
    if v: "verify lib (ag_token a) [pk] dt = Inr vt" for dt vt
    using m(1) inv token_verifies(2)[OF assms(1) mw m(2) v]
    by (subst (1 2 3 4 5 6) token_verifies(1)[OF assms(1) mw m(2) v])
       (simp add: granted_token_def minted_token_def mandate_of_def task_inv_def)
  then show ?thesis using inv assms(4) by (simp add: task_inv_def)
qed

section \<open>Witnesses\<close>

definition console_mandate :: mandate where
  "console_mandate =
     \<lparr>mandate_id = DEMO_MANDATE_ID, md_task_id = 12, md_principal_id = ''alice'',
      md_intent_hash = replicate 64 CHR ''a'', md_scopes = {''invoice:read'', ''vendor:read''},
      md_budget = \<lparr>spend_bdt = 100, tool_calls = 1000, rows_read = 100000, external_emails = 0, wall_clock_s = 0\<rparr>,
      md_max_depth = DEFAULT_MAX_DEPTH, md_not_before = seconds 40, md_expires_at = seconds 3700\<rparr>"

definition console_block :: "dl_stmt list" where
  "console_block =
     (case (authority_facts console_mandate, authority_checks console_mandate) of (Inr f, Inr c) \<Rightarrow> f @ c | _ \<Rightarrow> [])"

text \<open>A biscuit is its authority block and the number of further blocks; the library prints one chain.\<close>

definition console_lib :: "(dl_stmt list \<times> nat, nat) biscuit_lib" where
  "console_lib =
     \<lparr>bl_build = (\<lambda>stmts k. (stmts, 0)), bl_append = (\<lambda>b stmts. (fst b, Suc (snd b))),
      bl_to_base64 = (\<lambda>b. if fst b = console_block then replicate (Suc (snd b)) CHR ''t'' else []),
      bl_from_base64 = (\<lambda>t k. if t \<noteq> [] \<and> k = 7 then Some (console_block, length t - 1) else None),
      bl_query = (\<lambda>b p. Some (fact_rows p (fst b))), bl_block_count = (\<lambda>b. int (snd b) + 1),
      bl_revocation_ids = (\<lambda>b. []), bl_authorize = (\<lambda>b F. Authorized_ok),
      bl_str = (\<lambda>t. case t of TStr s \<Rightarrow> s | _ \<Rightarrow> [])\<rparr>"

lemma console_keeps_authority: "keeps_authority console_lib"
  by (auto simp: keeps_authority_def console_lib_def answers_with_def)

lemma console_mandate_wf: "mandate_wf console_mandate"
proof -
  have "label_ok ''alice''" "hex64_re (replicate 64 CHR ''a'')"
    using demo_mandate_wf by (simp_all add: mandate_wf_def demo_mandate_def)
  moreover have "scope_re ''invoice:read''" "scope_re ''vendor:read''" by code_simp+
  moreover have "whole (100 * 10000)" using whole_of_int[of 1000000] by simp
  ultimately show ?thesis
    by (simp add: mandate_wf_def console_mandate_def uuid_ok_def DEMO_MANDATE_ID_def DEFAULT_MAX_DEPTH_def
        MAX_DELEGATION_DEPTH_def budget_wf_def money_def)
qed

definition console_token :: "nat \<Rightarrow> (dl_stmt list \<times> nat) verified_token" where
  "console_token n = granted_token console_lib console_mandate (console_block, n) (replicate (Suc n) CHR ''t'')"

lemma console_verifies:
  assumes "n < 4"
  shows "verify console_lib (replicate (Suc n) CHR ''t'') [7] (Aware (seconds 200)) = Inr (console_token n)"
proof -
  obtain facts checks where blk: "authority_facts console_mandate = Inr facts" "authority_checks console_mandate = Inr checks"
    using authority_ok[OF console_mandate_wf] by metis
  have q: "answers_with console_lib (console_block, n) (facts @ checks)"
    by (simp add: answers_with_def console_lib_def console_block_def blk)
  have "\<not> space_char CHR ''t''" by code_simp
  then have "strip (replicate (Suc n) CHR ''t'') \<noteq> []" by (simp add: strip_def)
  then have parse: "parse_biscuit console_lib (replicate (Suc n) CHR ''t'') [7] = Inr (console_block, n)"
    by (simp add: parse_biscuit_def console_lib_def)
  show ?thesis
    using verify_exact[OF console_mandate_wf _ blk q _ parse, of "seconds 200"] assms
    by (simp add: console_mandate_def console_lib_def console_token_def DEFAULT_MAX_DEPTH_def HARD_SIZE_LIMIT_B64_def)
qed

lemma console_token_fields:
  "vt_scopes (console_token n) = {''invoice:read'', ''vendor:read''}" "vt_max_depth (console_token n) = 4"
  "vt_intent_hash (console_token n) = replicate 64 CHR ''a''" "vt_budget (console_token n) = md_budget console_mandate"
  "vt_not_before (console_token n) = seconds 40" "vt_expires_at (console_token n) = seconds 3700"
  "vt_biscuit (console_token n) = (console_block, n)"
  by (simp_all add: console_token_def granted_token_def minted_token_def console_mandate_def DEFAULT_MAX_DEPTH_def)

lemma console_grant: "traverseE mk_caveat (grant_caveats (console_token n)) = Inr (grant_caveats (console_token n))"
proof -
  have "hex64_re (replicate 64 CHR ''a'')" "scope_re ''invoice:read''" "scope_re ''vendor:read''"
    using console_mandate_wf by (simp_all add: mandate_wf_def console_mandate_def)
  then have "list_all caveat_wf (grant_caveats (console_token n))"
    by (simp add: grant_caveats_def console_token_fields all_dimensions_def MAX_DELEGATION_DEPTH_def money_def whole_def
        console_mandate_def)
  then show ?thesis by (simp add: traverseE_Inr_iff list_all2_same mk_caveat_def list_all_iff)
qed

text \<open>Whatever lies between, the token of any agent takes any block inside the grant of the root.\<close>

lemma console_attenuates:
  assumes "n < 4" "label_ok x" "label_ok role" "S \<subseteq> {''invoice:read'', ''vendor:read''}" "c \<le> 100"
    and "is_ok (block_datalog [ScopeSubset S, BudgetCeiling SPEND_BDT c])"
  shows "attenuate console_lib (console_token n) [ScopeSubset S, BudgetCeiling SPEND_BDT c] x role []
    = Inr (replicate (Suc (Suc n)) CHR ''t'')"
proof -
  have "check_narrowing [ScopeSubset S, BudgetCeiling SPEND_BDT c] (grant_caveats (console_token n) @ []) = Inr ()"
    using assms(4,5) by (simp add: check_narrowing_def by_slot_def grant_caveats_def console_token_fields all_dimensions_def
        console_mandate_def)
  then show ?thesis using assms(1-3,6) console_grant
    by (auto simp: attenuate_def is_ok_iff console_token_fields HARD_SIZE_LIMIT_B64_def console_lib_def Let_def)
qed

definition console_agent :: "string \<Rightarrow> nat \<Rightarrow> string set \<Rightarrow> decimal \<Rightarrow> string \<Rightarrow> agent_record" where
  "console_agent i n S c p =
     \<lparr>ag_agent_id = i, ag_role = ''clerk'', ag_depth = int n, ag_scopes = S, ag_ceiling = Some c,
      ag_token = replicate (Suc n) CHR ''t'', ag_parent_id = Some p\<rparr>"

definition console_task :: "(string \<times> agent_record) list \<Rightarrow> task_record" where
  "console_task agents =
     \<lparr>tk_task_id = 12, tk_description = ''pay'', tk_budget = 100, tk_scopes = {''invoice:read'', ''vendor:read''},
      tk_principal_id = ''alice'', tk_created_at = seconds 100, tk_expires_at = seconds 3700,
      tk_agents = (''root'', \<lparr>ag_agent_id = ''root'', ag_role = ''principal'', ag_depth = 0,
        ag_scopes = {''invoice:read'', ''vendor:read''}, ag_ceiling = None, ag_token = ''t'', ag_parent_id = None\<rparr>) # agents\<rparr>"

abbreviation console_sha :: hasher where
  "console_sha \<equiv> \<lparr>hs_nfc = latin_nfc, hs_sha = \<lambda>_. replicate 64 CHR ''a''\<rparr>"

definition narrow_agent :: agent_record where
  "narrow_agent = console_agent ''reader'' 1 {''invoice:read''} 10 ''root''"
definition wide_agent :: agent_record where
  "wide_agent = console_agent ''helper'' 2 {''invoice:read'', ''vendor:read''} 100 ''reader''"

lemma console_created:
  "create_task console_lib console_sha 3 12 (seconds 100) ''pay'' 100 {''invoice:read'', ''vendor:read''} ''alice'' (seconds 3600) []
     = Inr (console_task [], [(12, console_task [])])"
proof -
  have "strip ''pay'' = ''pay''" by code_simp
  moreover have "task_mandate console_sha 12 (seconds 100) ''pay'' 100 {''invoice:read'', ''vendor:read''} ''alice'' (seconds 3600)
      = Inr console_mandate"
    using console_mandate_wf
    by (simp add: task_mandate_def intent_hash_of_def hash_object_def canonical_json_def mk_budget_def mk_mandate_def
        mandate_wf_def console_mandate_def Let_def)
  moreover have "mint_root console_lib console_mandate 3 = Inr ''t''"
  proof -
    obtain facts checks where blk: "authority_facts console_mandate = Inr facts" "authority_checks console_mandate = Inr checks"
      using authority_ok[OF console_mandate_wf] by metis
    then have "facts @ checks = console_block" by (simp add: console_block_def)
    then show ?thesis by (simp add: mint_root_def blk console_lib_def HARD_SIZE_LIMIT_B64_def)
  qed
  ultimately show ?thesis
    by (simp add: create_task_def raised_def GRANTABLE_SCOPES_def console_task_def console_mandate_def Let_def)
qed

lemma console_spawned:
  assumes parent: "map_of (tk_agents (console_task agents)) p = Some parent" "ag_token parent = replicate (Suc n) CHR ''t''"
      "ag_depth parent = int n" "n < 4"
    and new: "strip x = x" "x \<noteq> []" "map_of (tk_agents (console_task agents)) x = None"
    and S: "S \<noteq> {}" "S \<subseteq> {''invoice:read'', ''vendor:read''}" "0 \<le> c" "c \<le> 100" "money c"
    and ok: "label_ok x" "is_ok (block_datalog [ScopeSubset S, BudgetCeiling SPEND_BDT c])"
  shows "spawn_agent console_lib 7 (seconds 200) 12 p x ''clerk'' S c [(12, console_task agents)]
     = Inr (console_agent x (Suc n) S c p, [(12, console_task (AList.update x (console_agent x (Suc n) S c p) agents))])"
proof -
  have sc: "scope_re ''invoice:read''" "scope_re ''vendor:read''" by code_simp+
  have cs: "child_caveats S c = Inr [ScopeSubset S, BudgetCeiling SPEND_BDT c]"
    using sc S by (auto simp: child_caveats_def mk_caveat_def)
  have "label_ok ''clerk''" by (simp add: validate_label_def code_points_def unsafe_label_code_def MAX_LABEL_LENGTH_def)
  note a = console_attenuates[OF parent(4) ok(1) this S(2,4) ok(2)]
  have "x \<noteq> ''root''" using new(3) by (auto simp: console_task_def)
  then have u: "(console_task agents)\<lparr>tk_agents := AList.update x r (tk_agents (console_task agents))\<rparr>
      = console_task (AList.update x r agents)" for r by (simp add: console_task_def)
  show ?thesis
    using parent new S cs a console_verifies[OF parent(4)] u
    by (simp add: spawn_agent_def get_task_def raised_def mk_root_key_set_def Let_def not_less console_agent_def add.commute)
qed

abbreviation console_registry :: "task_registry" where
  "console_registry \<equiv> [(12, console_task [(''reader'', narrow_agent), (''helper'', wide_agent)])]"

lemma console_run: "registry_run console_lib console_sha 3 7 console_registry"
proof -
  have labels: "label_ok ''reader''" "label_ok ''helper''"
    by (simp_all add: validate_label_def code_points_def unsafe_label_code_def MAX_LABEL_LENGTH_def)
  have strips: "strip ''reader'' = ''reader''" "strip ''helper'' = ''helper''" by code_simp+
  have "whole (10 * 10000)" "whole (100 * 10000)" using whole_of_int[of 100000] whole_of_int[of 1000000] by simp_all
  then have money: "money 10" "money 100" by (simp_all add: money_def)
  have blocks: "is_ok (block_datalog [ScopeSubset {''invoice:read''}, BudgetCeiling SPEND_BDT 10])"
    "is_ok (block_datalog [ScopeSubset {''invoice:read'', ''vendor:read''}, BudgetCeiling SPEND_BDT 100])"
    using \<open>whole (10 * 10000)\<close> \<open>whole (100 * 10000)\<close> by (simp_all add: block_datalog_def scale_def BUDGET_SCALE_def is_ok_iff)
  have 1: "spawn_agent console_lib 7 (seconds 200) 12 ''root'' ''reader'' ''clerk'' {''invoice:read''} 10 [(12, console_task [])]
      = Inr (narrow_agent, [(12, console_task [(''reader'', narrow_agent)])])"
    using console_spawned[of "[]" "''root''" _ 0 "''reader''" "{''invoice:read''}" 10] strips labels money blocks
    by (simp add: console_task_def narrow_agent_def)
  have 2: "spawn_agent console_lib 7 (seconds 200) 12 ''reader'' ''helper'' ''clerk'' {''invoice:read'', ''vendor:read''} 100
        [(12, console_task [(''reader'', narrow_agent)])]
      = Inr (wide_agent, [(12, console_task [(''reader'', narrow_agent), (''helper'', wide_agent)])])"
    using console_spawned[of "[(''reader'', narrow_agent)]" "''reader''" narrow_agent 1 "''helper''"
        "{''invoice:read'', ''vendor:read''}" 100] strips labels money blocks
    by (simp add: console_task_def narrow_agent_def wide_agent_def console_agent_def numeral_2_eq_2)
  have "registry_step console_lib console_sha 3 7 [] [(12, console_task [])]"
    by (rule registry_step.created[OF console_created]) simp
  then show ?thesis
    using registry_step.spawned[OF 1, of console_sha 3] registry_step.spawned[OF 2, of console_sha 3]
    by (rule converse_rtranclp_into_rtranclp[OF _ converse_rtranclp_into_rtranclp[OF _ r_into_rtranclp]])
qed

text \<open>
  A spawned agent can be granted more than its parent.  A task is started for two scopes and
  100, an agent is spawned under the root for one scope and 10, and that agent is then given a
  child with both scopes and 100: each child is checked against the grant in block 0 only, so the
  registry accepts it and records authority its parent does not hold.
\<close>
theorem sub_agent_wider_than_parent:
  "\<exists>t reg. registry_run console_lib console_sha 3 7 reg \<and> get_task 12 reg = Inr t
     \<and> map_of (tk_agents t) ''reader'' = Some narrow_agent \<and> map_of (tk_agents t) ''helper'' = Some wide_agent
     \<and> ag_parent_id wide_agent = Some ''reader'' \<and> \<not> ag_scopes wide_agent \<subseteq> ag_scopes narrow_agent
     \<and> ag_ceiling narrow_agent = Some 10 \<and> ag_ceiling wide_agent = Some 100"
proof -
  have "get_task 12 console_registry = Inr (console_task [(''reader'', narrow_agent), (''helper'', wide_agent)])"
    by (simp add: get_task_def)
  moreover have "map_of (tk_agents (console_task [(''reader'', narrow_agent), (''helper'', wide_agent)])) ''reader'' = Some narrow_agent"
    "map_of (tk_agents (console_task [(''reader'', narrow_agent), (''helper'', wide_agent)])) ''helper'' = Some wide_agent"
    by (simp_all add: console_task_def)
  moreover have "ag_parent_id wide_agent = Some ''reader''" "\<not> ag_scopes wide_agent \<subseteq> ag_scopes narrow_agent"
    "ag_ceiling narrow_agent = Some 10" "ag_ceiling wide_agent = Some 100"
    by (simp_all add: narrow_agent_def wide_agent_def console_agent_def)
  ultimately show ?thesis using console_run by blast
qed

theorem agents_stay_within_task_witness:
  "\<exists>t. get_task 12 console_registry = Inr t \<and> agent_wf t (''helper'', wide_agent)
     \<and> (\<exists>vt. verify console_lib (ag_token wide_agent) [7] (Aware (seconds 200)) = Inr vt \<and> vt_task_id vt = 12 \<and> vt_depth vt = 2)"
proof -
  let ?t = "console_task [(''reader'', narrow_agent), (''helper'', wide_agent)]"
  have t: "get_task 12 console_registry = Inr ?t" "map_of (tk_agents ?t) ''helper'' = Some wide_agent"
    by (simp_all add: get_task_def console_task_def)
  note safe = agents_stay_within_task[OF console_keeps_authority console_run t]
  have v: "verify console_lib (ag_token wide_agent) [7] (Aware (seconds 200)) = Inr (console_token 2)"
    using console_verifies[of 2] by (simp add: wide_agent_def console_agent_def)
  have "ag_depth wide_agent = 2" by (simp add: wide_agent_def console_agent_def)
  then show ?thesis using safe v t(1) by auto
qed

end
