(* ===== verification/JsonRecord.thy ===== *)
theory JsonRecord
  imports AuditChain PyText Tokens "HOL-Library.AList"
begin

text \<open>
  How the console reads a stored decision record: a JSON object of which nothing is assumed.
  Shared by \<open>Tree\<close> and \<open>Console\<close>.

  \<open>repr\<close> gives the text Python shows for a list, an object or a float.  A float is taken not to be
  zero, and a signaling NaN is not told from a quiet one.  A sum or difference of decimals is
  rounded in the default context; where that overflows, \<open>decimal.Overflow\<close> counts as
  \<open>InvalidOperation\<close>.
\<close>

section \<open>Values\<close>

definition rec_get :: "pvalue \<Rightarrow> string \<Rightarrow> pvalue option" where
  "rec_get r k = (case r of PyMap m \<Rightarrow> map_of m k | _ \<Rightarrow> None)"

definition get_or :: "pvalue \<Rightarrow> string \<Rightarrow> pvalue \<Rightarrow> pvalue" where
  "get_or r k d = (case rec_get r k of None \<Rightarrow> d | Some v \<Rightarrow> v)"

fun falsy :: "pvalue \<Rightarrow> bool" where
  "falsy PyNone = True"
| "falsy (PyBool b) = (\<not> b)"
| "falsy (PyInt i) = (i = 0)"
| "falsy (PyStr s) = (s = [])"
| "falsy (PyMap m) = (m = [])"
| "falsy (PyList xs) = (xs = [])"
| "falsy _ = False"

text \<open>\<open>record.get(k, default) or other\<close>.\<close>

definition or_else :: "pvalue \<Rightarrow> pvalue \<Rightarrow> pvalue" where
  "or_else v d = (if falsy v then d else v)"

fun py_str :: "(pvalue \<Rightarrow> string) \<Rightarrow> pvalue \<Rightarrow> string" where
  "py_str repr PyNone = ''None''"
| "py_str repr (PyBool b) = (if b then ''True'' else ''False'')"
| "py_str repr (PyInt i) = int_str i"
| "py_str repr (PyStr s) = s"
| "py_str repr v = repr v"

definition str_field :: "(pvalue \<Rightarrow> string) \<Rightarrow> pvalue \<Rightarrow> string \<Rightarrow> string" where
  "str_field repr r k = py_str repr (get_or r k (PyStr []))"

text \<open>\<open>int(str(record.get("depth", 0) or 0))\<close>.\<close>

definition depth_field :: "(pvalue \<Rightarrow> string) \<Rightarrow> pvalue \<Rightarrow> int py" where
  "depth_field repr r = py_int (TStr (py_str repr (or_else (get_or r ''depth'' (PyInt 0)) (PyInt 0))))"

text \<open>\<open>record ->> key\<close>; the text of a list, an object or a float is taken to equal no filter.\<close>

fun sql_text :: "pvalue option \<Rightarrow> string option" where
  "sql_text (Some (PyStr s)) = Some s"
| "sql_text (Some (PyInt i)) = Some (int_str i)"
| "sql_text (Some (PyBool b)) = Some (if b then ''true'' else ''false'')"
| "sql_text _ = None"

section \<open>Decimals\<close>

definition in_context :: "decimal \<Rightarrow> dec py" where
  "in_context x = (let r = ctx_round x in if adjusted r > 999999 then Inl InvalidOperation else Inr (Fin r))"

fun dec_add :: "dec \<Rightarrow> dec \<Rightarrow> dec py" where
  "dec_add NaN _ = Inr NaN"
| "dec_add _ NaN = Inr NaN"
| "dec_add PosInf NegInf = Inl InvalidOperation"
| "dec_add NegInf PosInf = Inl InvalidOperation"
| "dec_add PosInf _ = Inr PosInf"
| "dec_add _ PosInf = Inr PosInf"
| "dec_add NegInf _ = Inr NegInf"
| "dec_add _ NegInf = Inr NegInf"
| "dec_add (Fin x) (Fin y) = in_context (x + y)"

fun dec_neg :: "dec \<Rightarrow> dec" where
  "dec_neg NaN = NaN"
| "dec_neg PosInf = NegInf"
| "dec_neg NegInf = PosInf"
| "dec_neg (Fin x) = Fin (- x)"

definition dec_sub :: "dec \<Rightarrow> dec \<Rightarrow> dec py" where
  "dec_sub x y = dec_add x (dec_neg y)"

text \<open>\<open>decimal_field\<close>: a key that is absent reads as \<open>None\<close>.\<close>

definition decimal_field :: "(pvalue \<Rightarrow> string) \<Rightarrow> pvalue option \<Rightarrow> dec" where
  "decimal_field repr v =
     (case decimal_of_string (py_str repr (case v of None \<Rightarrow> PyNone | Some x \<Rightarrow> x)) of
        Inl _ \<Rightarrow> Fin 0 | Inr d \<Rightarrow> d)"

section \<open>Exact sums\<close>

text \<open>A whole number of ten-thousandths below \<open>10 ^ 24\<close> is not rounded.\<close>

definition exact_money :: "decimal \<Rightarrow> bool" where
  "exact_money x = (whole (x * 10 ^ 4) \<and> \<bar>x\<bar> < 10 ^ 24)"

lemma exact_in_context:
  assumes "exact_money x"
  shows "in_context x = Inr (Fin x)"
proof -
  have w: "whole (x * 10 ^ 4)" and b: "\<bar>x\<bar> < 10 ^ 24" using assms by (simp_all add: exact_money_def)
  obtain n where n: "x * 10 ^ 4 = of_int n" using w whole_iff by blast
  then have x: "x = of_int n / 10 ^ 4" by (simp add: field_simps)
  have "\<bar>of_int n :: decimal\<bar> < 10 ^ 24 * 10 ^ 4" using b unfolding n[symmetric] by (simp add: abs_mult)
  then have "of_int \<bar>n\<bar> < (of_int (10 ^ 28) :: decimal)" by simp
  then have nb: "\<bar>n\<bar> < 10 ^ 28" by (simp only: of_int_less_iff)
  have r: "ctx_round x = x" unfolding x by (rule ctx_round_four_places[OF nb])
  have "adjusted x \<le> 999999"
  proof (cases "x = 0")
    case False
    have "1 \<le> \<bar>of_int n :: decimal\<bar>" using False x by (cases "n = 0") (auto simp: linorder_not_le abs_if)
    then have "1 / 10 ^ 4 \<le> \<bar>x\<bar>" by (simp add: x abs_divide divide_right_mono)
    then show ?thesis using adjusted_bounds[of x] b False by simp
  qed (simp add: adjusted_def)
  then show ?thesis by (simp add: in_context_def r)
qed

end
