(* ===== verification/Tree.thy ===== *)
theory Tree
  imports JsonRecord Ledger Escalation Revocation
begin

text \<open>
  \<open>agentiam_controlplane/db/tree.py\<close> and the folds of \<open>tree_api.py\<close>: the delegation tree the
  console draws, rebuilt from the audit records of a task and the budget, revocation and escalation
  tables, and the differences between two such trees.

  A query without an order returns the rows in the order of the table.  The routes and the polling
  of the event stream are not modelled.
\<close>

section \<open>Nodes\<close>

record tree_budget =
  tb_dimension :: string
  tb_total :: decimal
  tb_available :: decimal

record tree_node =
  tn_agent_id :: string
  tn_role :: string
  tn_depth :: int
  tn_task_id :: string
  tn_principal_id :: string
  tn_block_ids :: "string list"
  tn_scopes :: "string list"
  tn_budget :: "tree_budget list"
  tn_revoked :: bool
  tn_revocation_reason :: "string option"
  tn_has_pending_escalation :: bool
  tn_last_outcome :: string
  tn_last_reason_code :: string
  tn_last_seen :: instant

definition is_principal :: "tree_node \<Rightarrow> bool" where
  "is_principal n = (tn_depth n = 0)"

text \<open>The validated constructor refuses a decimal that is not finite.\<close>

definition mk_tree_budget :: "string \<Rightarrow> dec \<Rightarrow> dec \<Rightarrow> tree_budget py" where
  "mk_tree_budget d tot avail =
     (case (tot, avail) of
        (Fin t, Fin a) \<Rightarrow> Inr \<lparr>tb_dimension = d, tb_total = t, tb_available = a\<rparr>
      | _ \<Rightarrow> Inl ValueError)"

text \<open>\<open>sorted(..., key=_budget_order)\<close>: by name and then, stably, the money dimension first.\<close>

definition sort_budgets :: "tree_budget list \<Rightarrow> tree_budget list" where
  "sort_budgets bs =
     sort_key (\<lambda>b. if tb_dimension b = dimension_value SPEND_BDT then 0 else 1 :: nat) (sort_key tb_dimension bs)"

section \<open>Spend\<close>

type_synonym spend_table = "dec strmap strmap"

text \<open>The loop over the dimensions of one record.\<close>

fun spend_dimensions ::
  "(pvalue \<Rightarrow> string) \<Rightarrow> pvalue \<Rightarrow> (string \<times> pvalue) list \<Rightarrow> dec strmap \<Rightarrow> dec strmap py" where
  "spend_dimensions repr after [] per = Inr per"
| "spend_dimensions repr after ((d, v) # bs) per =
     bindE (dec_sub (decimal_field repr (Some v)) (decimal_field repr (rec_get after d))) (\<lambda>delta.
       if delta = Fin 0 then spend_dimensions repr after bs per
       else bindE (dec_add (case map_of per d of None \<Rightarrow> Fin 0 | Some x \<Rightarrow> x) delta) (\<lambda>s.
              spend_dimensions repr after bs (AList.update d s per)))"

definition budgets_of :: "pvalue \<Rightarrow> pvalue \<times> pvalue" where
  "budgets_of r =
     (or_else (get_or r ''budget_before'' PyNone) (PyMap []), or_else (get_or r ''budget_after'' PyNone) (PyMap []))"

definition spend_record :: "(pvalue \<Rightarrow> string) \<Rightarrow> pvalue \<Rightarrow> spend_table \<Rightarrow> spend_table py" where
  "spend_record repr r spent =
     (case budgets_of r of
        (PyMap before, PyMap after) \<Rightarrow>
          (let a = str_field repr r ''agent_id'' in
           bindE (spend_dimensions repr (PyMap after) before (case map_of spent a of None \<Rightarrow> [] | Some per \<Rightarrow> per)) (\<lambda>per.
             Inr (AList.update a per spent)))
      | _ \<Rightarrow> Inr spent)"

fun spend_by_agent :: "(pvalue \<Rightarrow> string) \<Rightarrow> pvalue list \<Rightarrow> spend_table \<Rightarrow> spend_table py" where
  "spend_by_agent repr [] spent = Inr spent"
| "spend_by_agent repr (r # rs) spent = bindE (spend_record repr r spent) (\<lambda>s. spend_by_agent repr rs s)"

section \<open>The tree\<close>

text \<open>\<open>record ->> 'task_id'\<close> is the text of the id, newest first.\<close>

definition task_rows :: "string \<Rightarrow> audit_row list \<Rightarrow> audit_row list" where
  "task_rows task_id rows =
     rev (sort_key ar_seq (filter (\<lambda>r. sql_text (rec_get (ar_record r) ''task_id'') = Some task_id) rows))"

definition chain_of :: "(pvalue \<Rightarrow> string) \<Rightarrow> pvalue \<Rightarrow> string list option" where
  "chain_of repr r =
     (case get_or r ''token_chain_ids'' (PyList []) of PyList xs \<Rightarrow> Some (map (py_str repr) xs) | _ \<Rightarrow> None)"

definition chain_key :: "(pvalue \<Rightarrow> string) \<Rightarrow> audit_row \<Rightarrow> (string \<times> string list) option" where
  "chain_key repr row =
     map_option (\<lambda>c. (str_field repr (ar_record row) ''agent_id'', c)) (chain_of repr (ar_record row))"

fun latest_records :: "(pvalue \<Rightarrow> string) \<Rightarrow> (string \<times> string list) set \<Rightarrow> audit_row list \<Rightarrow> audit_row list" where
  "latest_records repr seen [] = []"
| "latest_records repr seen (row # rows) =
     (case chain_key repr row of
        None \<Rightarrow> latest_records repr seen rows
      | Some k \<Rightarrow> if k \<in> seen then latest_records repr seen rows
                  else row # latest_records repr (insert k seen) rows)"

definition agent_of :: "(pvalue \<Rightarrow> string) \<Rightarrow> audit_row \<Rightarrow> string" where
  "agent_of repr row = str_field repr (ar_record row) ''agent_id''"

definition block_ids_of :: "(pvalue \<Rightarrow> string) \<Rightarrow> audit_row \<Rightarrow> string list" where
  "block_ids_of repr row = (case chain_of repr (ar_record row) of None \<Rightarrow> [] | Some c \<Rightarrow> c)"

definition mandate_uuids :: "(pvalue \<Rightarrow> string) \<Rightarrow> audit_row list \<Rightarrow> uuid list" where
  "mandate_uuids repr latest =
     List.map_filter (\<lambda>r. case rec_get (ar_record r) ''mandate_id'' of
                            None \<Rightarrow> None
                          | Some v \<Rightarrow> if falsy v then None else uuid_of_string (py_str repr v)) latest"

text \<open>The agent of the first record of depth 0, found by a loop that stops there.\<close>

fun root_agent :: "(pvalue \<Rightarrow> string) \<Rightarrow> audit_row list \<Rightarrow> string option py" where
  "root_agent repr [] = Inr None"
| "root_agent repr (r # rs) =
     bindE (depth_field repr (ar_record r)) (\<lambda>d. if d = 0 then Inr (Some (agent_of repr r)) else root_agent repr rs)"

definition target_agent :: "string option \<Rightarrow> budget_row \<Rightarrow> string option" where
  "target_agent root_id b = (case br_agent_id b of Some a \<Rightarrow> if a = [] then root_id else Some a | None \<Rightarrow> root_id)"

definition ledger_budgets ::
  "(pvalue \<Rightarrow> string) \<Rightarrow> budget_row list \<Rightarrow> audit_row list \<Rightarrow> (string \<Rightarrow> tree_budget list) py" where
  "ledger_budgets repr budget_rows latest =
     (let ids = mandate_uuids repr latest in
      if ids = [] then Inr (\<lambda>_. [])
      else bindE (root_agent repr latest) (\<lambda>root_id.
        Inr (\<lambda>a. if a = [] then []
                  else map (\<lambda>b. \<lparr>tb_dimension = br_dimension b, tb_total = br_total b, tb_available = available b\<rparr>)
                    (filter (\<lambda>b. br_mandate_id b \<in> set ids \<and> target_agent root_id b = Some a) budget_rows))))"

text \<open>A block id revoked twice keeps the reason of its last row.\<close>

definition revoked_blocks :: "revocation_row list \<Rightarrow> (string \<times> string) list" where
  "revoked_blocks revs = rev (map (\<lambda>r. (rv_block_id r, rv_reason r)) revs)"

definition first_revoked :: "revocation_row list \<Rightarrow> string list \<Rightarrow> string option" where
  "first_revoked revs ids =
     (case find (\<lambda>i. map_of (revoked_blocks revs) i \<noteq> None) ids of
        None \<Rightarrow> None | Some i \<Rightarrow> map_of (revoked_blocks revs) i)"

definition pending_for :: "escalation_row list \<Rightarrow> uuid \<Rightarrow> instant \<Rightarrow> string \<Rightarrow> bool" where
  "pending_for escs task_id now_t a =
     list_ex (\<lambda>e. er_task_id e = task_id \<and> er_state e = PENDING \<and> er_expires_at e > now_t \<and> er_agent_id e = a) escs"

fun ceiling_budgets ::
  "(pvalue \<Rightarrow> string) \<Rightarrow> dec strmap \<Rightarrow> (string \<times> pvalue) list \<Rightarrow> tree_budget strmap \<Rightarrow> tree_budget strmap py" where
  "ceiling_budgets repr consumed [] acc = Inr acc"
| "ceiling_budgets repr consumed ((d, v) # cs) acc =
     (let t = decimal_field repr (Some v) in
      bindE (dec_sub t (case map_of consumed d of None \<Rightarrow> Fin 0 | Some x \<Rightarrow> x)) (\<lambda>a.
      bindE (mk_tree_budget d t a) (\<lambda>b. ceiling_budgets repr consumed cs (AList.update d b acc))))"

definition authority_of :: "pvalue \<Rightarrow> string \<Rightarrow> pvalue option" where
  "authority_of r k = (case rec_get r ''authority'' of Some (PyMap m) \<Rightarrow> map_of m k | _ \<Rightarrow> None)"

definition node_budgets ::
  "(pvalue \<Rightarrow> string) \<Rightarrow> spend_table \<Rightarrow> tree_budget list \<Rightarrow> audit_row \<Rightarrow> (tree_budget list) py" where
  "node_budgets repr spent ledger row =
     bindE (case authority_of (ar_record row) ''ceilings'' of
              Some (PyMap cs) \<Rightarrow>
                ceiling_budgets repr (case map_of spent (agent_of repr row) of None \<Rightarrow> [] | Some per \<Rightarrow> per) cs []
            | _ \<Rightarrow> Inr []) (\<lambda>own.
       Inr (sort_budgets (map snd (fold (\<lambda>b m. AList.update (tb_dimension b) b m) ledger own))))"

definition make_node ::
  "(pvalue \<Rightarrow> string) \<Rightarrow> uuid \<Rightarrow> instant \<Rightarrow> revocation_row list \<Rightarrow> escalation_row list \<Rightarrow> spend_table
    \<Rightarrow> (string \<Rightarrow> tree_budget list) \<Rightarrow> audit_row \<Rightarrow> tree_node py" where
  "make_node repr task_id now_t revs escs spent ledger row =
     (let r = ar_record row; a = agent_of repr row; ids = block_ids_of repr row in
      bindE (node_budgets repr spent (ledger a) row) (\<lambda>bs.
      bindE (depth_field repr r) (\<lambda>depth.
        Inr \<lparr>tn_agent_id = a,
             tn_role = (let role = py_str repr (or_else (get_or r ''role'' PyNone) (PyStr [])) in
                        if role = [] then ''unknown'' else role),
             tn_depth = depth, tn_task_id = uuid_str task_id, tn_principal_id = str_field repr r ''principal_id'',
             tn_block_ids = ids,
             tn_scopes = (case authority_of r ''scopes'' of Some (PyList xs) \<Rightarrow> sort (map (py_str repr) xs) | _ \<Rightarrow> []),
             tn_budget = bs, tn_revoked = (first_revoked revs ids \<noteq> None), tn_revocation_reason = first_revoked revs ids,
             tn_has_pending_escalation = pending_for escs task_id now_t a,
             tn_last_outcome = str_field repr r ''outcome'', tn_last_reason_code = str_field repr r ''reason_code'',
             tn_last_seen = ar_created_at row\<rparr>)))"

text \<open>\<open>datetime.min\<close>; and \<open>max\<close>, which keeps the first of equal keys.\<close>

definition EPOCH :: instant where "EPOCH = seconds (- 62135596800)"

fun latest_seen :: "tree_node list \<Rightarrow> instant strmap \<Rightarrow> instant strmap" where
  "latest_seen [] m = m"
| "latest_seen (n # ns) m =
     (case tn_block_ids n of
        [] \<Rightarrow> latest_seen ns m
      | b # _ \<Rightarrow> latest_seen ns
          (if tn_last_seen n > (case map_of m b of None \<Rightarrow> EPOCH | Some t \<Rightarrow> t) then AList.update b (tn_last_seen n) m else m))"

fun first_max :: "string \<times> instant \<Rightarrow> instant strmap \<Rightarrow> string" where
  "first_max best [] = fst best"
| "first_max best (x # xs) = first_max (if snd x > snd best then x else best) xs"

definition current_generation :: "tree_node list \<Rightarrow> tree_node list" where
  "current_generation nodes =
     (case latest_seen nodes [] of
        [] \<Rightarrow> nodes
      | x # xs \<Rightarrow> filter (\<lambda>n. tn_block_ids n = [] \<or> hd (tn_block_ids n) = first_max x xs) nodes)"

definition build_tree ::
  "(pvalue \<Rightarrow> string) \<Rightarrow> audit_row list \<Rightarrow> budget_row list \<Rightarrow> revocation_row list \<Rightarrow> escalation_row list
    \<Rightarrow> uuid \<Rightarrow> instant \<Rightarrow> bool \<Rightarrow> (tree_node list) py" where
  "build_tree repr rows budget_rows revs escs task_id now_t include_superseded =
     (let recs = task_rows (uuid_str task_id) rows; latest = latest_records repr {} recs in
      bindE (ledger_budgets repr budget_rows latest) (\<lambda>ledger.
      bindE (spend_by_agent repr (map ar_record recs) []) (\<lambda>spent.
      bindE (traverseE (make_node repr task_id now_t revs escs spent ledger) latest) (\<lambda>nodes.
        Inr (sort_key tn_depth (sort_key tn_agent_id
              (if include_superseded then nodes else current_generation nodes)))))))"

section \<open>Differences\<close>

record tree_diff =
  td_added :: "tree_node list"
  td_changed :: "tree_node list"
  td_removed :: "tree_node list"

definition node_key :: "tree_node \<Rightarrow> string \<times> string" where
  "node_key n = (tn_agent_id n, if tn_block_ids n = [] then [] else last (tn_block_ids n))"

text \<open>A dict comprehension: the first place and the last value of a key.\<close>

definition by_key :: "tree_node list \<Rightarrow> ((string \<times> string) \<times> tree_node) list" where
  "by_key ns = fold (\<lambda>n m. AList.update (node_key n) n m) ns []"

definition build_tree_diff :: "tree_node list \<Rightarrow> tree_node list \<Rightarrow> tree_diff" where
  "build_tree_diff old new =
     \<lparr>td_added = map snd (filter (\<lambda>(k, n). map_of (by_key old) k = None) (by_key new)),
      td_changed = map snd (filter (\<lambda>(k, n). case map_of (by_key old) k of None \<Rightarrow> False | Some m \<Rightarrow> m \<noteq> n) (by_key new)),
      td_removed = map snd (filter (\<lambda>(k, n). map_of (by_key new) k = None) (by_key old))\<rparr>"

section \<open>The caveat panel\<close>

record agent_authority_view =
  vw_principal_id :: "string option"
  vw_role :: string
  vw_depth :: int
  vw_scopes :: "string list option"
  vw_ceilings :: "decimal strmap option"
  vw_expires_at :: "instant option"
  vw_max_depth :: "int option"
  vw_spent :: decimal
  vw_decisions :: nat

definition spend_view :: "(pvalue \<Rightarrow> string) \<Rightarrow> pvalue \<Rightarrow> dec \<Rightarrow> dec py" where
  "spend_view repr r spent =
     (case budgets_of r of
        (PyMap before, PyMap after) \<Rightarrow>
          bindE (dec_sub (decimal_field repr (map_of before ''spend_bdt'')) (decimal_field repr (map_of after ''spend_bdt'')))
            (\<lambda>delta. dec_add spent delta)
      | _ \<Rightarrow> Inr spent)"

fun spend_views :: "(pvalue \<Rightarrow> string) \<Rightarrow> pvalue list \<Rightarrow> dec \<Rightarrow> dec py" where
  "spend_views repr [] spent = Inr spent"
| "spend_views repr (r # rs) spent = bindE (spend_view repr r spent) (\<lambda>s. spend_views repr rs s)"

definition newest_authority :: "pvalue list \<Rightarrow> pvalue option" where
  "newest_authority rs =
     (case find (\<lambda>r. case rec_get r ''authority'' of Some (PyMap _) \<Rightarrow> True | _ \<Rightarrow> False) rs of
        None \<Rightarrow> None | Some r \<Rightarrow> rec_get r ''authority'')"

text \<open>A decimal field of a model refuses a decimal that is not finite.\<close>

fun finite_dec :: "dec \<Rightarrow> decimal py" where
  "finite_dec (Fin x) = Inr x"
| "finite_dec _ = Inl ValueError"

definition ceilings_view :: "(pvalue \<Rightarrow> string) \<Rightarrow> pvalue \<Rightarrow> decimal strmap option py" where
  "ceilings_view repr au =
     (case rec_get au ''ceilings'' of
        Some (PyMap cs) \<Rightarrow>
          bindE (traverseE (\<lambda>(k, v). bindE (finite_dec (decimal_field repr (Some v))) (\<lambda>x. Inr (k, x))) cs) (\<lambda>m. Inr (Some m))
      | _ \<Rightarrow> Inr None)"

text \<open>\<open>fromisoformat\<close> is an argument: \<open>None\<close> where it raises \<open>ValueError\<close>.\<close>

definition authority_view ::
  "(pvalue \<Rightarrow> string) \<Rightarrow> (string \<Rightarrow> instant option) \<Rightarrow> pvalue list \<Rightarrow> agent_authority_view option py" where
  "authority_view repr isoformat rs =
     bindE (spend_views repr rs (Fin 0)) (\<lambda>spent.
       case newest_authority rs of
         None \<Rightarrow> Inr None
       | Some au \<Rightarrow>
           let newest = hd rs in
           bindE (depth_field repr newest) (\<lambda>depth.
           bindE (case rec_get au ''not_after'' of
                    Some (PyStr s) \<Rightarrow> (case isoformat s of None \<Rightarrow> Inl ValueError | Some t \<Rightarrow> Inr (Some t))
                  | _ \<Rightarrow> Inr None) (\<lambda>expires.
           bindE (case rec_get au ''max_depth'' of
                    None \<Rightarrow> Inr None
                  | Some v \<Rightarrow> if v = PyNone then Inr None
                              else bindE (py_int (TStr (py_str repr v))) (\<lambda>n. Inr (Some n))) (\<lambda>max_d.
           bindE (ceilings_view repr au) (\<lambda>ceilings.
           bindE (finite_dec spent) (\<lambda>sum.
             Inr (Some
               \<lparr>vw_principal_id = (case rec_get newest ''principal_id'' of
                    None \<Rightarrow> None | Some v \<Rightarrow> if falsy v then None else Some (py_str repr v)),
                vw_role = py_str repr (or_else (get_or newest ''role'' PyNone) (PyStr [])), vw_depth = depth,
                vw_scopes = (case rec_get au ''scopes'' of Some (PyList xs) \<Rightarrow> Some (map (py_str repr) xs) | _ \<Rightarrow> None),
                vw_ceilings = ceilings, vw_expires_at = expires, vw_max_depth = max_d, vw_spent = sum,
                vw_decisions = length rs\<rparr>)))))))"

record block_source_item =
  bs_index :: nat
  bs_source :: string
  bs_block_id :: string

text \<open>\<open>get_block_source\<close>: 404 without a record.\<close>

definition block_source ::
  "(pvalue \<Rightarrow> string) \<Rightarrow> (string \<Rightarrow> instant option) \<Rightarrow> audit_row list \<Rightarrow> uuid \<Rightarrow> string
    \<Rightarrow> (nat + (block_source_item list \<times> agent_authority_view option) py)" where
  "block_source repr isoformat rows task_id agent_id =
     (case filter (\<lambda>r. sql_text (rec_get (ar_record r) ''agent_id'') = Some agent_id) (task_rows (uuid_str task_id) rows) of
        [] \<Rightarrow> Inl 404
      | row # older \<Rightarrow>
          Inr (bindE (authority_view repr isoformat (map ar_record (row # older))) (\<lambda>v.
            Inr (map (\<lambda>(i, b). \<lparr>bs_index = i, bs_source = ''Block ID: '' @ b, bs_block_id = b\<rparr>)
                  (enumerate 0 (block_ids_of repr row)), v))))"

section \<open>Spend is a sum\<close>

text \<open>A record whose budgets are money, as every record the enforcement point writes.\<close>

definition plain_budgets :: "(pvalue \<Rightarrow> string) \<Rightarrow> pvalue \<Rightarrow> bool" where
  "plain_budgets repr r =
     (\<exists>b a. budgets_of r = (PyMap b, PyMap a) \<and> distinct (map fst b)
        \<and> (\<forall>(d, v) \<in> set b. \<exists>x y. decimal_field repr (Some v) = Fin x \<and> decimal_field repr (map_of a d) = Fin y \<and> money x \<and> money y))"

fun finite_part :: "dec \<Rightarrow> decimal" where
  "finite_part (Fin x) = x"
| "finite_part _ = 0"

definition record_spend :: "(pvalue \<Rightarrow> string) \<Rightarrow> string \<Rightarrow> pvalue \<Rightarrow> decimal" where
  "record_spend repr d r =
     (case budgets_of r of
        (PyMap b, PyMap a) \<Rightarrow>
          (case map_of b d of None \<Rightarrow> 0
           | Some v \<Rightarrow> finite_part (decimal_field repr (Some v)) - finite_part (decimal_field repr (map_of a d)))
      | _ \<Rightarrow> 0)"

definition dim_at :: "dec strmap \<Rightarrow> string \<Rightarrow> dec" where
  "dim_at per d = (case map_of per d of None \<Rightarrow> Fin 0 | Some x \<Rightarrow> x)"

definition spent_at :: "spend_table \<Rightarrow> string \<Rightarrow> string \<Rightarrow> dec" where
  "spent_at s a d = dim_at (case map_of s a of None \<Rightarrow> [] | Some per \<Rightarrow> per) d"

text \<open>A sum of at most \<open>n\<close> differences of money.\<close>

definition small_sum :: "nat \<Rightarrow> decimal \<Rightarrow> bool" where
  "small_sum n x = (whole (x * 10 ^ 4) \<and> \<bar>x\<bar> \<le> of_nat n * 10 ^ 16)"

lemma whole_add: "whole x \<Longrightarrow> whole y \<Longrightarrow> whole (x + y)" "whole x \<Longrightarrow> whole y \<Longrightarrow> whole (x - y)"
  unfolding whole_iff by (metis of_int_add, metis of_int_diff)

lemma small_sum_exact: "small_sum n x \<Longrightarrow> n \<le> 10 ^ 7 \<Longrightarrow> exact_money x"
proof -
  assume x: "small_sum n x" and n: "n \<le> 10 ^ 7"
  have "(of_nat n :: decimal) \<le> of_nat (10 ^ 7)" using n by (rule of_nat_mono)
  then have "(of_nat n :: decimal) * 10 ^ 16 \<le> 10 ^ 7 * 10 ^ 16" by (intro mult_right_mono) simp_all
  then show "exact_money x" using x by (auto simp: small_sum_def exact_money_def)
qed

lemma money_delta:
  assumes "money x" "money y"
  shows "small_sum 1 (x - y)"
proof -
  have "whole (x * 10 ^ 4)" "whole (y * 10 ^ 4)" using assms by (simp_all add: money_def)
  from whole_add(2)[OF this] have "whole ((x - y) * 10 ^ 4)" by (simp add: left_diff_distrib)
  moreover have "\<bar>x - y\<bar> \<le> 10 ^ 16" using assms by (auto simp: money_def)
  ultimately show ?thesis by (simp add: small_sum_def)
qed

lemma small_sum_add: "small_sum m x \<Longrightarrow> small_sum n y \<Longrightarrow> small_sum (m + n) (x + y)"
  using whole_add(1)[of "x * 10 ^ 4" "y * 10 ^ 4"] abs_triangle_ineq[of x y]
  by (auto simp: small_sum_def distrib_right)

lemma small_sum_mono: "small_sum m x \<Longrightarrow> m \<le> n \<Longrightarrow> small_sum n x"
proof -
  assume x: "small_sum m x" and le: "m \<le> n"
  have "of_nat m * 10 ^ 16 \<le> (of_nat n * 10 ^ 16 :: decimal)" using le by (intro mult_right_mono) simp_all
  then show "small_sum n x" using x by (auto simp: small_sum_def)
qed

lemma dec_sub_exact: "exact_money (x - y) \<Longrightarrow> dec_sub (Fin x) (Fin y) = Inr (Fin (x - y))"
  using exact_in_context by (simp add: dec_sub_def)

lemma spend_dimensions_exact:
  assumes "distinct (map fst bs)"
    and "\<forall>(d, v) \<in> set bs. \<exists>x y. decimal_field repr (Some v) = Fin x \<and> decimal_field repr (rec_get after d) = Fin y \<and> money x \<and> money y"
    and "\<And>d. dim_at per d = Fin (p d)" "\<And>d. d \<in> fst ` set bs \<Longrightarrow> small_sum n (p d)" "Suc n \<le> 10 ^ 7"
  shows "\<exists>per'. spend_dimensions repr after bs per = Inr per' \<and> (\<forall>d. dim_at per' d = Fin (p d + (case map_of bs d of None \<Rightarrow> 0
      | Some v \<Rightarrow> finite_part (decimal_field repr (Some v)) - finite_part (decimal_field repr (rec_get after d)))))"
  using assms
proof (induction bs arbitrary: per p)
  case (Cons b bs)
  obtain d v where b: "b = (d, v)" by fastforce
  obtain x y where xy: "decimal_field repr (Some v) = Fin x" "decimal_field repr (rec_get after d) = Fin y" "money x" "money y"
    using Cons.prems(2) b by auto
  have delta: "small_sum 1 (x - y)" by (rule money_delta[OF xy(3,4)])
  have sub: "dec_sub (Fin x) (Fin y) = Inr (Fin (x - y))"
    by (rule dec_sub_exact, rule small_sum_exact[OF delta]) simp
  have new: "d \<notin> fst ` set bs" using Cons.prems(1) b by simp
  show ?case
  proof (cases "x - y = 0")
    case True
    have "dec_sub (Fin x) (Fin y) = Inr (Fin 0)" using sub unfolding True .
    then have run: "spend_dimensions repr after (b # bs) per = spend_dimensions repr after bs per" by (simp add: b xy)
    obtain per' where "spend_dimensions repr after bs per = Inr per'"
      "\<forall>e. dim_at per' e = Fin (p e + (case map_of bs e of None \<Rightarrow> 0
      | Some v \<Rightarrow> finite_part (decimal_field repr (Some v)) - finite_part (decimal_field repr (rec_get after e))))"
      using Cons.IH[of per p] Cons.prems by auto
    moreover have "map_of bs d = None" using new by (simp add: map_of_eq_None_iff)
    ultimately show ?thesis unfolding run using True by (auto simp: b xy)
  next
    case False
    let ?s = "p d + (x - y)"
    have "exact_money ?s" using small_sum_exact[OF small_sum_add[OF Cons.prems(4)[of d] delta]] Cons.prems(5) b by simp
    then have "dec_add (Fin (p d)) (Fin (x - y)) = Inr (Fin ?s)" using exact_in_context by simp
    then have run: "spend_dimensions repr after (b # bs) per = spend_dimensions repr after bs (AList.update d (Fin ?s) per)"
      using False Cons.prems(3)[of d] by (simp add: b xy sub dim_at_def)
    have "\<exists>per'. spend_dimensions repr after bs (AList.update d (Fin ?s) per) = Inr per' \<and> (\<forall>e. dim_at per' e =
      Fin ((p(d := ?s)) e + (case map_of bs e of None \<Rightarrow> 0
        | Some v \<Rightarrow> finite_part (decimal_field repr (Some v)) - finite_part (decimal_field repr (rec_get after e)))))"
    proof (rule Cons.IH)
      show "dim_at (AList.update d (Fin ?s) per) e = Fin ((p(d := ?s)) e)" for e
        using Cons.prems(3)[of e] by (simp add: dim_at_def update_conv')
      show "small_sum n ((p(d := ?s)) e)" if "e \<in> fst ` set bs" for e
        using Cons.prems(4)[of e] that new by auto
    qed (use Cons.prems in auto)
    moreover have "map_of bs d = None" using new by (simp add: map_of_eq_None_iff)
    ultimately show ?thesis unfolding run by (auto simp: b xy)
  qed
qed (simp add: dim_at_def)

lemma spent_at_update: "spent_at (AList.update a per s) b d = (if a = b then dim_at per d else spent_at s b d)"
  by (simp add: spent_at_def update_conv')

lemma record_spend_small: "plain_budgets repr r \<Longrightarrow> small_sum 1 (record_spend repr d r)"
proof -
  assume "plain_budgets repr r"
  then obtain b a where ba: "budgets_of r = (PyMap b, PyMap a)"
    "\<forall>(d, v) \<in> set b. \<exists>x y. decimal_field repr (Some v) = Fin x \<and> decimal_field repr (map_of a d) = Fin y \<and> money x \<and> money y"
    by (auto simp: plain_budgets_def)
  have zero: "small_sum 1 0" using whole_of_int[of 0] by (simp add: small_sum_def)
  show ?thesis
  proof (cases "map_of b d")
    case (Some v)
    then have "(d, v) \<in> set b" by (rule map_of_SomeD)
    then obtain x y where "decimal_field repr (Some v) = Fin x" "decimal_field repr (map_of a d) = Fin y" "money x" "money y"
      using ba(2) by auto
    then show ?thesis using Some ba(1) money_delta by (simp add: record_spend_def)
  qed (use zero in \<open>simp add: record_spend_def ba\<close>)
qed

lemma spend_record_exact:
  assumes plain: "plain_budgets repr r" and at: "\<And>a d. spent_at s a d = Fin (q a d)" "\<And>a d. small_sum n (q a d)" "Suc n \<le> 10 ^ 7"
  shows "\<exists>s'. spend_record repr r s = Inr s' \<and>
    (\<forall>a d. spent_at s' a d = Fin (q a d + (if str_field repr r ''agent_id'' = a then record_spend repr d r else 0)))"
proof -
  let ?a = "str_field repr r ''agent_id''"
  let ?per = "case map_of s ?a of None \<Rightarrow> [] | Some per \<Rightarrow> per"
  obtain b a where ba: "budgets_of r = (PyMap b, PyMap a)" "distinct (map fst b)"
    "\<forall>(d, v) \<in> set b. \<exists>x y. decimal_field repr (Some v) = Fin x \<and> decimal_field repr (rec_get (PyMap a) d) = Fin y \<and> money x \<and> money y"
    using plain by (auto simp: plain_budgets_def rec_get_def)
  have per: "dim_at ?per d = Fin (q ?a d)" for d using at(1)[of ?a d] by (simp add: spent_at_def)
  obtain per' where per': "spend_dimensions repr (PyMap a) b ?per = Inr per'"
    "\<forall>d. dim_at per' d = Fin (q ?a d + (case map_of b d of None \<Rightarrow> 0
      | Some v \<Rightarrow> finite_part (decimal_field repr (Some v)) - finite_part (decimal_field repr (rec_get (PyMap a) d))))"
    using spend_dimensions_exact[OF ba(2,3) per at(2) at(3)] by blast
  have "spend_record repr r s = Inr (AList.update ?a per' s)" using per'(1) by (simp add: spend_record_def ba(1) Let_def)
  moreover have "spent_at (AList.update ?a per' s) c d = Fin (q c d + (if ?a = c then record_spend repr d r else 0))" for c d
    using per'(2) at(1)[of c d] by (simp add: spent_at_update record_spend_def ba(1) rec_get_def split: option.split)
  ultimately show ?thesis by blast
qed

lemma spend_exact:
  assumes "list_all (plain_budgets repr) rs" "\<And>a d. spent_at s a d = Fin (q a d)" "\<And>a d. small_sum n (q a d)" "n + length rs \<le> 10 ^ 7"
  shows "\<exists>s'. spend_by_agent repr rs s = Inr s' \<and>
    (\<forall>a d. spent_at s' a d = Fin (q a d + (\<Sum>r\<leftarrow>filter (\<lambda>r. str_field repr r ''agent_id'' = a) rs. record_spend repr d r)))"
  using assms
proof (induction rs arbitrary: s q n)
  case (Cons r rs)
  let ?q = "\<lambda>a d. q a d + (if str_field repr r ''agent_id'' = a then record_spend repr d r else 0)"
  have r: "plain_budgets repr r" "Suc n \<le> 10 ^ 7" using Cons.prems(1,4) by simp_all
  obtain s1 where s1: "spend_record repr r s = Inr s1" "\<forall>a d. spent_at s1 a d = Fin (?q a d)"
    using spend_record_exact[OF r(1) Cons.prems(2,3) r(2)] by blast
  have "small_sum (Suc n) (?q a d)" for a d
    using small_sum_add[OF Cons.prems(3)[of a d] record_spend_small[OF r(1), of d]] small_sum_mono[OF Cons.prems(3)[of a d]] by simp
  then have "\<exists>s'. spend_by_agent repr rs s1 = Inr s' \<and>
      (\<forall>a d. spent_at s' a d = Fin (?q a d + (\<Sum>r\<leftarrow>filter (\<lambda>r. str_field repr r ''agent_id'' = a) rs. record_spend repr d r)))"
    using Cons.prems(1,4) s1(2) by (intro Cons.IH[of s1 ?q "Suc n"]) auto
  then show ?case using s1(1) by (auto simp: algebra_simps)
qed simp

lemma spend_view_exact:
  assumes "plain_budgets repr r" "\<exists>b a v. budgets_of r = (PyMap b, PyMap a) \<and> map_of b ''spend_bdt'' = Some v"
    and "small_sum n x" "Suc n \<le> 10 ^ 7"
  shows "spend_view repr r (Fin x) = Inr (Fin (x + record_spend repr ''spend_bdt'' r))"
proof -
  obtain b a v where b: "budgets_of r = (PyMap b, PyMap a)" "map_of b ''spend_bdt'' = Some v" using assms(2) by blast
  then have "(''spend_bdt'', v) \<in> set b" by (auto dest: map_of_SomeD)
  then obtain y z where f: "decimal_field repr (Some v) = Fin y" "decimal_field repr (map_of a ''spend_bdt'') = Fin z" "money y" "money z"
    using assms(1) b(1) by (auto simp: plain_budgets_def)
  note d = money_delta[OF f(3,4)]
  have "dec_sub (Fin y) (Fin z) = Inr (Fin (y - z))" by (rule dec_sub_exact, rule small_sum_exact[OF d]) simp
  moreover have "in_context (x + (y - z)) = Inr (Fin (x + (y - z)))"
    by (rule exact_in_context, rule small_sum_exact[OF small_sum_add[OF assms(3) d]]) (use assms(4) in simp)
  ultimately show ?thesis by (simp add: spend_view_def b f record_spend_def)
qed

lemma spend_views_exact:
  assumes "list_all (plain_budgets repr) rs" "\<forall>r \<in> set rs. \<exists>b a v. budgets_of r = (PyMap b, PyMap a) \<and> map_of b ''spend_bdt'' = Some v"
    and "small_sum n x" "n + length rs \<le> 10 ^ 7"
  shows "spend_views repr rs (Fin x) = Inr (Fin (x + (\<Sum>r\<leftarrow>rs. record_spend repr ''spend_bdt'' r)))"
  using assms
proof (induction rs arbitrary: n x)
  case (Cons r rs)
  have "small_sum (Suc n) (x + record_spend repr ''spend_bdt'' r)"
    using small_sum_add[OF Cons.prems(3) record_spend_small[of repr r "''spend_bdt''"]] Cons.prems(1) by simp
  then show ?case using Cons.IH[of "Suc n"] Cons.prems spend_view_exact[OF _ _ Cons.prems(3), of repr r]
    by (simp add: algebra_simps)
qed simp

section \<open>One node for each chain\<close>

lemma latest_records_spec:
  assumes "sorted_wrt (\<lambda>x y. ar_seq y \<le> ar_seq x) rows"
  shows "distinct (map (chain_key repr) (latest_records repr seen rows))"
    "row \<in> set (latest_records repr seen rows) \<Longrightarrow> row \<in> set rows \<and> (\<exists>k. chain_key repr row = Some k \<and> k \<notin> seen
       \<and> (\<forall>row' \<in> set rows. chain_key repr row' = Some k \<longrightarrow> ar_seq row' \<le> ar_seq row))"
    "row' \<in> set rows \<Longrightarrow> chain_key repr row' = Some k \<Longrightarrow> k \<notin> seen
       \<Longrightarrow> Some k \<in> chain_key repr ` set (latest_records repr seen rows)"
proof -
  let ?first = "\<lambda>rows row k. chain_key repr row = Some k \<and> (\<forall>row' \<in> set rows. chain_key repr row' = Some k \<longrightarrow> ar_seq row' \<le> ar_seq row)"
  have "distinct (map (chain_key repr) (latest_records repr seen rows))
    \<and> (\<forall>row \<in> set (latest_records repr seen rows). row \<in> set rows \<and> (\<exists>k. k \<notin> seen \<and> ?first rows row k))
    \<and> (\<forall>row' \<in> set rows. \<forall>k. chain_key repr row' = Some k \<longrightarrow> k \<notin> seen
       \<longrightarrow> Some k \<in> chain_key repr ` set (latest_records repr seen rows))"
    using assms
  proof (induction rows arbitrary: seen)
    case (Cons r rows)
    have sorted: "sorted_wrt (\<lambda>x y. ar_seq y \<le> ar_seq x) rows" "\<forall>row \<in> set rows. ar_seq row \<le> ar_seq r" using Cons.prems by auto
    consider (skip) "latest_records repr seen (r # rows) = latest_records repr seen rows" "\<forall>k. chain_key repr r = Some k \<longrightarrow> k \<in> seen"
      | (new) k where "chain_key repr r = Some k" "k \<notin> seen" "latest_records repr seen (r # rows) = r # latest_records repr (insert k seen) rows"
      by (cases "chain_key repr r") auto
    then show ?case
    proof cases
      case skip
      have "?first (r # rows) row k" if "k \<notin> seen" "?first rows row k" for row k using that skip(2) by (metis set_ConsD)
      note first = this
      note IH = Cons.IH[OF sorted(1), of seen]
      have "\<forall>row \<in> set (latest_records repr seen rows). row \<in> set (r # rows) \<and> (\<exists>k. k \<notin> seen \<and> ?first (r # rows) row k)"
        using IH first by (meson list.set_intros(2))
      moreover have "\<forall>row' \<in> set (r # rows). \<forall>k. chain_key repr row' = Some k \<longrightarrow> k \<notin> seen
          \<longrightarrow> Some k \<in> chain_key repr ` set (latest_records repr seen rows)"
        using IH skip(2) by (metis set_ConsD)
      ultimately show ?thesis unfolding skip(1) using IH by blast
    next
      case (new k)
      note IH = Cons.IH[OF sorted(1), of "insert k seen"]
      have "Some k \<notin> chain_key repr ` set (latest_records repr (insert k seen) rows)" using IH by fastforce
      moreover have "?first (r # rows) r k" using new(1) sorted(2) by auto
      moreover have "?first (r # rows) row j" if "j \<noteq> k" "?first rows row j" for row j using that new(1) by auto
      ultimately have "distinct (map (chain_key repr) (r # latest_records repr (insert k seen) rows))"
        "\<forall>row \<in> set (r # latest_records repr (insert k seen) rows). row \<in> set (r # rows) \<and> (\<exists>k. k \<notin> seen \<and> ?first (r # rows) row k)"
        using IH new(1,2) by (simp, metis (no_types, lifting) insert_iff list.simps(15))
      moreover have "\<forall>row' \<in> set (r # rows). \<forall>j. chain_key repr row' = Some j \<longrightarrow> j \<notin> seen
          \<longrightarrow> Some j \<in> chain_key repr ` set (r # latest_records repr (insert k seen) rows)"
        using IH new(1) by (metis (no_types, lifting) image_insert insert_iff list.simps(15) set_ConsD)
      ultimately show ?thesis unfolding new(3) by blast
    qed
  qed simp
  then show "distinct (map (chain_key repr) (latest_records repr seen rows))"
    "row \<in> set (latest_records repr seen rows) \<Longrightarrow> row \<in> set rows \<and> (\<exists>k. chain_key repr row = Some k \<and> k \<notin> seen
       \<and> (\<forall>row' \<in> set rows. chain_key repr row' = Some k \<longrightarrow> ar_seq row' \<le> ar_seq row))"
    "row' \<in> set rows \<Longrightarrow> chain_key repr row' = Some k \<Longrightarrow> k \<notin> seen
       \<Longrightarrow> Some k \<in> chain_key repr ` set (latest_records repr seen rows)"
    by blast+
qed

lemma task_rows_sorted:
  "sorted_wrt (\<lambda>x y. ar_seq y \<le> ar_seq x) (task_rows t rows)"
  "set (task_rows t rows) = {r \<in> set rows. sql_text (rec_get (ar_record r) ''task_id'') = Some t}"
proof -
  have "sorted (map ar_seq (sort_key ar_seq xs))" for xs :: "audit_row list" by simp
  then show "sorted_wrt (\<lambda>x y. ar_seq y \<le> ar_seq x) (task_rows t rows)"
    unfolding task_rows_def sorted_wrt_rev sorted_map by (simp add: sorted_wrt_map)
qed (auto simp: task_rows_def)

definition node_chain :: "tree_node \<Rightarrow> string \<times> string list" where
  "node_chain n = (tn_agent_id n, tn_block_ids n)"

lemma first_revoked_iff: "first_revoked revs ids \<noteq> None \<longleftrightarrow> (\<exists>v \<in> set revs. rv_block_id v \<in> set ids)"
proof -
  have k: "map_of (revoked_blocks revs) i \<noteq> None \<longleftrightarrow> i \<in> rv_block_id ` set revs" for i
    by (simp add: map_of_eq_None_iff revoked_blocks_def image_image)
  show ?thesis
  proof (cases "find (\<lambda>i. map_of (revoked_blocks revs) i \<noteq> None) ids")
    case None
    then have "first_revoked revs ids = None" by (simp only: first_revoked_def option.case)
    moreover have "i \<notin> rv_block_id ` set revs" if "i \<in> set ids" for i
      using None that k[of i] unfolding find_None_iff by blast
    ultimately show ?thesis by blast
  next
    case (Some i)
    then have "first_revoked revs ids = map_of (revoked_blocks revs) i" by (simp only: first_revoked_def option.case)
    moreover have "map_of (revoked_blocks revs) i \<noteq> None" "i \<in> set ids" using Some by (auto simp: find_Some_iff)
    ultimately show ?thesis using k[of i] by auto
  qed
qed

lemma make_node_fields:
  assumes "make_node repr task_id now_t revs escs spent ledger row = Inr n"
  shows "chain_key repr row = Some k \<Longrightarrow> node_chain n = k" "tn_last_outcome n = str_field repr (ar_record row) ''outcome''"
    "tn_last_seen n = ar_created_at row" "tn_revoked n \<longleftrightarrow> (\<exists>v \<in> set revs. rv_block_id v \<in> set (tn_block_ids n))"
    "tn_has_pending_escalation n = pending_for escs task_id now_t (tn_agent_id n)"
  using assms
  by (auto simp: make_node_def Let_def node_chain_def chain_key_def agent_of_def block_ids_of_def first_revoked_iff[symmetric]
      split: option.splits)

lemma traverseE_map:
  "traverseE f xs = Inr ys \<Longrightarrow> (\<And>x y. x \<in> set xs \<Longrightarrow> f x = Inr y \<Longrightarrow> g x = h y) \<Longrightarrow> map g xs = map h ys"
  by (induction xs arbitrary: ys) auto

text \<open>
  The tree shows each chain once, as its newest record left it.  The nodes of the tree of a
  task, superseded ones included, are the chains of its records, none twice; each carries the
  outcome of the newest record of its chain, is revoked exactly when a block of the chain is, and
  is escalating exactly when an unexpired request of that agent is pending.
\<close>
theorem tree_shows_each_chain:
  assumes run: "build_tree repr rows budget_rows revs escs task_id now_t True = Inr nodes"
  shows "distinct (map node_chain nodes)
    \<and> (k \<in> node_chain ` set nodes \<longleftrightarrow> (\<exists>row \<in> set (task_rows (uuid_str task_id) rows). chain_key repr row = Some k))
    \<and> (\<forall>n \<in> set nodes. \<exists>row \<in> set (task_rows (uuid_str task_id) rows). chain_key repr row = Some (node_chain n)
         \<and> (\<forall>row' \<in> set (task_rows (uuid_str task_id) rows). chain_key repr row' = Some (node_chain n) \<longrightarrow> ar_seq row' \<le> ar_seq row)
         \<and> tn_last_outcome n = str_field repr (ar_record row) ''outcome'' \<and> tn_last_seen n = ar_created_at row
         \<and> (tn_revoked n \<longleftrightarrow> (\<exists>v \<in> set revs. rv_block_id v \<in> set (tn_block_ids n)))
         \<and> (tn_has_pending_escalation n \<longleftrightarrow> pending_for escs task_id now_t (tn_agent_id n)))"
proof -
  let ?recs = "task_rows (uuid_str task_id) rows"
  let ?latest = "latest_records repr {} ?recs"
  obtain ledger spent ns where tr: "traverseE (make_node repr task_id now_t revs escs spent ledger) ?latest = Inr ns"
    and nodes: "nodes = sort_key tn_depth (sort_key tn_agent_id ns)"
    using run by (auto simp: build_tree_def Let_def)
  note spec = latest_records_spec[OF task_rows_sorted(1), where rows1 = rows and t1 = "uuid_str task_id" and repr = repr and seen = "{}"]
  have key: "chain_key repr row = Some (node_chain n)"
    if "row \<in> set ?latest" "make_node repr task_id now_t revs escs spent ledger row = Inr n" for row n
    using spec(2)[OF that(1)] make_node_fields(1)[OF that(2)] by auto
  have "map (chain_key repr) ?latest = map (\<lambda>n. Some (node_chain n)) ns"
    by (rule traverseE_map[OF tr key])
  then have "distinct (map (\<lambda>n. Some (node_chain n)) ns)" and keys: "chain_key repr ` set ?latest = (\<lambda>n. Some (node_chain n)) ` set ns"
    using spec(1) by (simp, metis list.set_map)
  then have "distinct (map node_chain ns)" by (simp add: distinct_map inj_on_def)
  then have d: "distinct (map node_chain nodes)" by (simp add: nodes distinct_map)
  have set: "set nodes = set ns" by (simp add: nodes)
  have mem: "k \<in> node_chain ` set nodes \<longleftrightarrow> (\<exists>row \<in> set ?recs. chain_key repr row = Some k)"
  proof -
    have "k \<in> node_chain ` set nodes \<longleftrightarrow> Some k \<in> chain_key repr ` set ?latest" unfolding keys set by auto
    also have "\<dots> \<longleftrightarrow> (\<exists>row \<in> set ?recs. chain_key repr row = Some k)" using spec(2,3) by (fastforce simp: image_iff)
    finally show ?thesis .
  qed
  have each: "\<exists>row \<in> set ?recs. chain_key repr row = Some (node_chain n)
         \<and> (\<forall>row' \<in> set ?recs. chain_key repr row' = Some (node_chain n) \<longrightarrow> ar_seq row' \<le> ar_seq row)
         \<and> tn_last_outcome n = str_field repr (ar_record row) ''outcome'' \<and> tn_last_seen n = ar_created_at row
         \<and> (tn_revoked n \<longleftrightarrow> (\<exists>v \<in> set revs. rv_block_id v \<in> set (tn_block_ids n)))
         \<and> (tn_has_pending_escalation n \<longleftrightarrow> pending_for escs task_id now_t (tn_agent_id n))" if n: "n \<in> set nodes" for n
  proof -
    obtain row where row: "row \<in> set ?latest" "make_node repr task_id now_t revs escs spent ledger row = Inr n"
      using n unfolding set traverseE_set[OF tr] by blast
    have "row \<in> set ?recs" "\<forall>row' \<in> set ?recs. chain_key repr row' = Some (node_chain n) \<longrightarrow> ar_seq row' \<le> ar_seq row"
      using spec(2)[OF row(1)] key[OF row] by (blast, metis option.inject)
    then show ?thesis using key[OF row] make_node_fields(2-5)[OF row(2)] by (intro bexI[of _ row] conjI)
  qed
  show ?thesis using d mem each by blast
qed

section \<open>Generations\<close>

definition seen_since :: "tree_node list \<Rightarrow> instant strmap \<Rightarrow> instant strmap \<Rightarrow> bool" where
  "seen_since ns m m' =
     ((distinct (map fst m) \<longrightarrow> distinct (map fst m'))
      \<and> (\<forall>b t. map_of m b = Some t \<longrightarrow> (\<exists>t'. map_of m' b = Some t' \<and> t \<le> t'))
      \<and> (\<forall>b t. map_of m' b = Some t \<longrightarrow>
           map_of m b = Some t \<or> (\<exists>n \<in> set ns. tn_block_ids n \<noteq> [] \<and> hd (tn_block_ids n) = b \<and> tn_last_seen n = t))
      \<and> (\<forall>n \<in> set ns. tn_block_ids n \<noteq> [] \<longrightarrow> (\<exists>t. map_of m' (hd (tn_block_ids n)) = Some t \<and> tn_last_seen n \<le> t)))"

lemma seen_sinceD:
  assumes "seen_since ns m m'"
  shows "distinct (map fst m) \<Longrightarrow> distinct (map fst m')"
    "map_of m b = Some t \<Longrightarrow> \<exists>t'. map_of m' b = Some t' \<and> t \<le> t'"
    "map_of m' b = Some t \<Longrightarrow>
       map_of m b = Some t \<or> (\<exists>n \<in> set ns. tn_block_ids n \<noteq> [] \<and> hd (tn_block_ids n) = b \<and> tn_last_seen n = t)"
    "n \<in> set ns \<Longrightarrow> tn_block_ids n \<noteq> [] \<Longrightarrow> \<exists>t. map_of m' (hd (tn_block_ids n)) = Some t \<and> tn_last_seen n \<le> t"
  using assms unfolding seen_since_def by blast+

lemma seen_since_trans:
  assumes "seen_since [x] m m'" "seen_since ns m' m''"
  shows "seen_since (x # ns) m m''"
  unfolding seen_since_def
proof (intro conjI allI impI ballI)
  show "distinct (map fst m) \<Longrightarrow> distinct (map fst m'')" using assms by (simp add: seen_since_def)
  show later: "\<exists>t'. map_of m'' b = Some t' \<and> t \<le> t'" if "map_of m b = Some t" for b t
    using seen_sinceD(2)[OF assms(1) that] seen_sinceD(2)[OF assms(2)] by (metis order.trans)
  show "map_of m b = Some t \<or> (\<exists>n \<in> set (x # ns). tn_block_ids n \<noteq> [] \<and> hd (tn_block_ids n) = b \<and> tn_last_seen n = t)"
    if "map_of m'' b = Some t" for b t
    using seen_sinceD(3)[OF assms(2) that] seen_sinceD(3)[OF assms(1)] by (metis list.set_intros(1,2) set_ConsD empty_iff list.set(1))
  show "\<exists>t. map_of m'' (hd (tn_block_ids n)) = Some t \<and> tn_last_seen n \<le> t"
    if n: "n \<in> set (x # ns)" "tn_block_ids n \<noteq> []" for n
  proof (cases "n = x")
    case True
    then have "n \<in> set [x]" by simp
    from seen_sinceD(4)[OF assms(1) this n(2)] show ?thesis using seen_sinceD(2)[OF assms(2)] by (metis order.trans)
  next
    case False
    then have "n \<in> set ns" using n(1) by simp
    from seen_sinceD(4)[OF assms(2) this n(2)] show ?thesis .
  qed
qed

lemma latest_seen_spec: "\<forall>n \<in> set ns. EPOCH < tn_last_seen n \<Longrightarrow> seen_since ns m (latest_seen ns m)"
proof (induction ns arbitrary: m)
  case (Cons x ns)
  show ?case
  proof (cases "tn_block_ids x")
    case Nil
    then show ?thesis using Cons seen_since_trans[of x m m] by (simp add: seen_since_def[of "[x]"])
  next
    case ids: (Cons b bs)
    let ?m = "if tn_last_seen x > (case map_of m b of None \<Rightarrow> EPOCH | Some t \<Rightarrow> t) then AList.update b (tn_last_seen x) m else m"
    have run: "latest_seen (x # ns) m = latest_seen ns ?m" by (simp add: ids)
    have "EPOCH < tn_last_seen x" using Cons.prems by simp
    then have "seen_since [x] m ?m"
      by (auto simp: seen_since_def ids update_conv' distinct_update split: option.splits)
    moreover have "seen_since ns ?m (latest_seen ns ?m)" using Cons.IH[of ?m] Cons.prems by simp
    ultimately show ?thesis unfolding run by (rule seen_since_trans)
  qed
qed (simp add: seen_since_def)

lemma first_max_spec:
  "\<exists>t. (first_max x xs, t) \<in> set (x # xs) \<and> (\<forall>y \<in> set (x # xs). snd y \<le> t)"
proof (induction xs arbitrary: x)
  case (Cons y xs)
  let ?z = "if snd y > snd x then y else x"
  obtain t where t: "(first_max ?z xs, t) \<in> set (?z # xs)" "\<forall>w \<in> set (?z # xs). snd w \<le> t" using Cons.IH[of ?z] by blast
  have "snd x \<le> snd ?z" "snd y \<le> snd ?z" by auto
  then have "snd x \<le> t" "snd y \<le> t" using t(2) by (auto split: if_splits)
  moreover have "(first_max ?z xs, t) \<in> set (x # y # xs)" using t(1) by (cases "snd y > snd x") auto
  ultimately show ?case using t(2) by (intro exI[of _ t]) simp
qed (use surjective_pairing in \<open>auto intro: exI[of _ "snd x" for x]\<close>)

text \<open>
  Of the generations of a task the tree keeps the one seen last.  Among the nodes with a chain,
  those kept are exactly those under the authority block of a node none was seen after; a node
  without a chain is always kept.
\<close>
theorem current_generation_is_newest:
  assumes "\<forall>n \<in> set nodes. EPOCH < tn_last_seen n" and some: "n0 \<in> set nodes" "tn_block_ids n0 \<noteq> []"
  shows "\<exists>n \<in> set nodes. tn_block_ids n \<noteq> [] \<and> (\<forall>m \<in> set nodes. tn_block_ids m \<noteq> [] \<longrightarrow> tn_last_seen m \<le> tn_last_seen n)
    \<and> current_generation nodes = filter (\<lambda>m. tn_block_ids m = [] \<or> hd (tn_block_ids m) = hd (tn_block_ids n)) nodes"
proof -
  let ?l = "latest_seen nodes []"
  have s: "seen_since nodes [] ?l" by (rule latest_seen_spec[OF assms(1)])
  obtain t0 where "map_of ?l (hd (tn_block_ids n0)) = Some t0" using seen_sinceD(4)[OF s some] by blast
  then obtain x xs where l: "?l = x # xs" by (cases ?l) auto
  obtain t where t: "(first_max x xs, t) \<in> set ?l" "\<forall>y \<in> set ?l. snd y \<le> t" using first_max_spec[of x xs] l by auto
  have "distinct (map fst ?l)" using seen_sinceD(1)[OF s] by simp
  then have "map_of ?l (first_max x xs) = Some t" using t(1) by simp
  then obtain n where n: "n \<in> set nodes" "tn_block_ids n \<noteq> []" "hd (tn_block_ids n) = first_max x xs" "tn_last_seen n = t"
    using seen_sinceD(3)[OF s] by fastforce
  have "tn_last_seen m \<le> t" if m: "m \<in> set nodes" "tn_block_ids m \<noteq> []" for m
  proof -
    obtain t' where "map_of ?l (hd (tn_block_ids m)) = Some t'" "tn_last_seen m \<le> t'"
      using seen_sinceD(4)[OF s m] by blast
    then show ?thesis using t(2) by (fastforce dest: map_of_SomeD)
  qed
  moreover have "current_generation nodes = filter (\<lambda>m. tn_block_ids m = [] \<or> hd (tn_block_ids m) = first_max x xs) nodes"
    by (simp add: current_generation_def l)
  ultimately show ?thesis using n by (intro bexI[of _ n] conjI ballI impI) simp_all
qed

section \<open>Differences are enough\<close>

lemma by_key_distinct:
  assumes "distinct (map node_key ns)"
  shows "by_key ns = map (\<lambda>n. (node_key n, n)) ns"
proof -
  have "distinct (map node_key ns) \<Longrightarrow> set (map fst m) \<inter> node_key ` set ns = {}
      \<Longrightarrow> fold (\<lambda>n m. AList.update (node_key n) n m) ns m = m @ map (\<lambda>n. (node_key n, n)) ns" for m
  proof (induction ns arbitrary: m)
    case (Cons n ns)
    have "AList.update (node_key n) n m = m @ [(node_key n, n)]"
      using Cons.prems(2) by (induction m) auto
    then show ?case using Cons.IH[of "m @ [(node_key n, n)]"] Cons.prems by auto
  qed simp
  from this[of "[]"] show ?thesis using assms by (simp add: by_key_def)
qed

lemma by_key_lookup:
  assumes "distinct (map node_key ns)"
  shows "map_of (by_key ns) k = Some n \<longleftrightarrow> n \<in> set ns \<and> node_key n = k"
    "map_of (by_key ns) k = None \<longleftrightarrow> k \<notin> node_key ` set ns"
  using assms by (auto simp: by_key_distinct map_of_eq_Some_iff comp_def map_of_eq_None_iff image_image)

lemma keyed_filter: "set (map snd (filter P (map (\<lambda>n. (f n, n)) ns))) = {n \<in> set ns. P (f n, n)}"
  by (induction ns) auto

lemma diff_parts:
  assumes "distinct (map node_key old)" "distinct (map node_key new)"
  shows "set (td_added (build_tree_diff old new)) = {n \<in> set new. node_key n \<notin> node_key ` set old}"
    "set (td_changed (build_tree_diff old new)) = {n \<in> set new. \<exists>a \<in> set old. node_key a = node_key n \<and> a \<noteq> n}"
    "set (td_removed (build_tree_diff old new)) = {n \<in> set old. node_key n \<notin> node_key ` set new}"
proof -
  have differs: "(case x of None \<Rightarrow> False | Some m \<Rightarrow> m \<noteq> n) \<longleftrightarrow> (\<exists>m. x = Some m \<and> m \<noteq> n)" for x and n :: tree_node
    by (cases x) auto
  have "set (td_added (build_tree_diff old new)) = {n \<in> set new. map_of (by_key old) (node_key n) = None}"
    "set (td_changed (build_tree_diff old new)) = {n \<in> set new. case map_of (by_key old) (node_key n) of None \<Rightarrow> False | Some m \<Rightarrow> m \<noteq> n}"
    by (simp_all only: build_tree_diff_def tree_diff.simps by_key_distinct[OF assms(2)] keyed_filter prod.case)
  then show "set (td_added (build_tree_diff old new)) = {n \<in> set new. node_key n \<notin> node_key ` set old}"
    "set (td_changed (build_tree_diff old new)) = {n \<in> set new. \<exists>a \<in> set old. node_key a = node_key n \<and> a \<noteq> n}"
    unfolding differs by_key_lookup[OF assms(1)] by blast+
  have "set (td_removed (build_tree_diff old new)) = {n \<in> set old. map_of (by_key new) (node_key n) = None}"
    by (simp only: build_tree_diff_def tree_diff.simps by_key_distinct[OF assms(1)] keyed_filter prod.case)
  then show "set (td_removed (build_tree_diff old new)) = {n \<in> set old. node_key n \<notin> node_key ` set new}"
    unfolding by_key_lookup[OF assms(2)] by blast
qed

text \<open>What the console does with a difference: it drops what was removed or changed and draws the rest.\<close>

definition apply_diff :: "tree_diff \<Rightarrow> tree_node list \<Rightarrow> tree_node list" where
  "apply_diff d ns =
     filter (\<lambda>n. node_key n \<notin> node_key ` set (td_removed d @ td_changed d)) ns @ td_added d @ td_changed d"

text \<open>
  The differences rebuild the tree.  Where no two nodes of a tree share an agent and a terminal
  block, applying the difference of two trees to the old one gives the nodes of the new one, and
  the difference is minimal: nothing in it is in both.
\<close>
theorem tree_diff_roundtrip:
  assumes "distinct (map node_key old)" "distinct (map node_key new)"
  shows "set (apply_diff (build_tree_diff old new) old) = set new
    \<and> (let d = build_tree_diff old new in set (td_added d @ td_changed d) \<subseteq> set new - set old \<and> set (td_removed d) \<subseteq> set old - set new)"
proof -
  have keys: "\<And>a b. a \<in> set old \<Longrightarrow> b \<in> set old \<Longrightarrow> node_key a = node_key b \<Longrightarrow> a = b"
    "\<And>a b. a \<in> set new \<Longrightarrow> b \<in> set new \<Longrightarrow> node_key a = node_key b \<Longrightarrow> a = b"
    using assms by (auto simp: distinct_map inj_on_def)
  note parts = diff_parts[OF assms]
  let ?d = "build_tree_diff old new"
  have "set (td_added ?d @ td_changed ?d) \<subseteq> set new - set old" "set (td_removed ?d) \<subseteq> set old - set new"
    unfolding set_append parts using keys(1) by blast+
  moreover have "set (apply_diff ?d old) = set new"
  proof
    show "set (apply_diff ?d old) \<subseteq> set new"
    proof
      fix n
      assume "n \<in> set (apply_diff ?d old)"
      then consider "n \<in> set old" "node_key n \<notin> node_key ` set (td_removed ?d @ td_changed ?d)" | "n \<in> set (td_added ?d @ td_changed ?d)"
        unfolding apply_diff_def by auto
      then show "n \<in> set new"
      proof cases
        case 1
        then obtain m where "m \<in> set new" "node_key m = node_key n" unfolding set_append parts by blast
        then show ?thesis using 1 unfolding set_append parts by blast
      qed (auto simp: parts)
    qed
    show "set new \<subseteq> set (apply_diff ?d old)"
    proof
      fix n
      assume n: "n \<in> set new"
      show "n \<in> set (apply_diff ?d old)"
      proof (cases "n \<in> set (td_added ?d @ td_changed ?d)")
        case False
        then have new: "n \<notin> set (td_added ?d)" "n \<notin> set (td_changed ?d)" by simp_all
        then have "node_key n \<in> node_key ` set old" using n unfolding parts by simp
        then obtain a where a: "a \<in> set old" "node_key a = node_key n" by auto
        then have "a = n" using new(2) n unfolding parts by simp
        then have "n \<in> set old" using a by simp
        moreover have "node_key m \<noteq> node_key n" if m: "m \<in> set (td_removed ?d @ td_changed ?d)" for m
        proof
          assume k: "node_key m = node_key n"
          then have "m \<notin> set (td_removed ?d)" using n unfolding parts by blast
          then have c: "m \<in> set (td_changed ?d)" using m by simp
          then have "m = n" using k n keys(2)[of m n] unfolding parts by blast
          then show False using False c by simp
        qed
        ultimately show ?thesis unfolding apply_diff_def by force
      qed (simp add: apply_diff_def)
    qed
  qed
  ultimately show ?thesis by (simp add: Let_def)
qed

section \<open>A generation pays for the ones before\<close>

definition tree_record :: "string \<Rightarrow> string \<Rightarrow> string \<Rightarrow> string \<Rightarrow> pvalue" where
  "tree_record chain before after limit =
     PyMap [(''task_id'', PyStr (uuid_str 7)), (''agent_id'', PyStr ''payer''), (''depth'', PyInt 1),
            (''token_chain_ids'', PyList [PyStr chain, PyStr (chain @ ''x'')]), (''outcome'', PyStr ''allow''),
            (''reason_code'', PyStr ''OK''), (''role'', PyStr ''agent''), (''principal_id'', PyStr ''alice''),
            (''budget_before'', PyMap [(''spend_bdt'', PyStr before)]), (''budget_after'', PyMap [(''spend_bdt'', PyStr after)]),
            (''authority'', PyMap [(''scopes'', PyList []), (''ceilings'', PyMap [(''spend_bdt'', PyStr limit)])])]"

definition tree_audit :: "int \<Rightarrow> pvalue \<Rightarrow> audit_row" where
  "tree_audit n r =
     \<lparr>ar_seq = n, ar_decision_id = nat n, ar_record = r, ar_prev_hash = None, ar_record_hash = [], ar_created_at = seconds n\<rparr>"

definition two_mintings :: "audit_row list" where
  "two_mintings = [tree_audit 1 (tree_record ''a'' ''100'' ''40'' ''100''), tree_audit 2 (tree_record ''b'' ''50'' ''50'' ''50'')]"

text \<open>
  A new minting of a mandate is charged with what an older one spent.  An agent of the first
  minting spends 60 of 100; the mandate is minted again and the agent of the same name, with a new
  token of 50, spends nothing.  The tree shows the new agent alone, with 50 in all and minus 10
  available: the sum over an agent's records does not stop at the generation the node belongs to.
\<close>
theorem superseded_spend_charged_to_current:
  "\<exists>n b. build_tree (\<lambda>_. []) two_mintings [] [] [] 7 (seconds 9) False = Inr [n]
     \<and> tn_block_ids n = [''b'', ''bx''] \<and> tn_budget n = [b] \<and> tb_total b = 50 \<and> tb_available b = - 10
     \<and> record_spend (\<lambda>_. []) ''spend_bdt'' (ar_record (two_mintings ! 1)) = 0"
proof -
  have "(case build_tree (\<lambda>_. []) two_mintings [] [] [] 7 (seconds 9) False of
      Inr [n] \<Rightarrow> tn_block_ids n = [''b'', ''bx''] \<and> map (\<lambda>b. (tb_total b, tb_available b)) (tn_budget n) = [(50, - 10)] | _ \<Rightarrow> False)"
    by code_simp
  moreover have "record_spend (\<lambda>_. []) ''spend_bdt'' (ar_record (two_mintings ! 1)) = 0" by code_simp
  ultimately show ?thesis by (auto split: sum.splits list.splits)
qed

section \<open>The panel agrees with the tree\<close>

definition records_spend :: "pvalue \<Rightarrow> bool" where
  "records_spend r = (\<exists>b a v. budgets_of r = (PyMap b, PyMap a) \<and> map_of b ''spend_bdt'' = Some v)"

text \<open>
  The caveat panel and the tree report the same spend: over up to ten million records with money
  budgets, what the tree sums for an agent is what the panel sums over that agent's records, and
  both are the exact sum of what the records show.
\<close>
theorem panel_and_tree_agree:
  assumes plain: "list_all (plain_budgets repr) rs" "\<forall>r \<in> set rs. records_spend r" "length rs \<le> 10 ^ 7"
    and tree: "spend_by_agent repr rs [] = Inr s"
    and panel: "authority_view repr isoformat (filter (\<lambda>r. str_field repr r ''agent_id'' = a) rs) = Inr (Some v)"
  shows "spent_at s a ''spend_bdt'' = Fin (vw_spent v)
    \<and> vw_spent v = (\<Sum>r\<leftarrow>filter (\<lambda>r. str_field repr r ''agent_id'' = a) rs. record_spend repr ''spend_bdt'' r)"
proof -
  let ?mine = "filter (\<lambda>r. str_field repr r ''agent_id'' = a) rs"
  have zero: "small_sum 0 0" using whole_of_int[of 0] by (simp add: small_sum_def)
  have "spent_at [] a d = Fin 0" for a d by (simp add: spent_at_def dim_at_def)
  from spend_exact[OF plain(1) this zero] plain(3) tree
  have t: "spent_at s a ''spend_bdt'' = Fin (\<Sum>r\<leftarrow>?mine. record_spend repr ''spend_bdt'' r)" by simp
  have len: "length ?mine \<le> 10 ^ 7" using plain(3) length_filter_le[of "\<lambda>r. str_field repr r ''agent_id'' = a" rs] by linarith
  have "list_all (plain_budgets repr) ?mine" using plain(1) by (auto simp: list_all_iff)
  moreover have "\<forall>r \<in> set ?mine. \<exists>b a v. budgets_of r = (PyMap b, PyMap a) \<and> map_of b ''spend_bdt'' = Some v"
    using plain(2) by (simp add: records_spend_def)
  ultimately have "spend_views repr ?mine (Fin 0) = Inr (Fin (\<Sum>r\<leftarrow>?mine. record_spend repr ''spend_bdt'' r))"
    using spend_views_exact[OF _ _ zero, of repr ?mine] len by simp
  then have "vw_spent v = (\<Sum>r\<leftarrow>?mine. record_spend repr ''spend_bdt'' r)"
    using panel by (auto simp: authority_view_def Let_def split: option.splits)
  then show ?thesis using t by simp
qed

section \<open>Witnesses\<close>

definition plain_node :: "string \<Rightarrow> string list \<Rightarrow> instant \<Rightarrow> tree_node" where
  "plain_node a ids t =
     \<lparr>tn_agent_id = a, tn_role = ''unknown'', tn_depth = 1, tn_task_id = [], tn_principal_id = [], tn_block_ids = ids,
      tn_scopes = [], tn_budget = [], tn_revoked = False, tn_revocation_reason = None, tn_has_pending_escalation = False,
      tn_last_outcome = ''allow'', tn_last_reason_code = ''OK'', tn_last_seen = t\<rparr>"

theorem tree_shows_each_chain_witness:
  "\<exists>nodes. build_tree (\<lambda>_. []) two_mintings [] [] [] 7 (seconds 9) True = Inr nodes
     \<and> (''payer'', [''a'', ''ax'']) \<in> node_chain ` set nodes \<and> distinct (map node_chain nodes)"
proof -
  have "is_ok (build_tree (\<lambda>_. []) two_mintings [] [] [] 7 (seconds 9) True)" by code_simp
  then obtain nodes where run: "build_tree (\<lambda>_. []) two_mintings [] [] [] 7 (seconds 9) True = Inr nodes" by (auto simp: is_ok_iff)
  have "\<exists>row \<in> set (task_rows (uuid_str 7) two_mintings). chain_key (\<lambda>_. []) row = Some (''payer'', [''a'', ''ax''])" by code_simp
  then show ?thesis using tree_shows_each_chain[OF run, of "(''payer'', [''a'', ''ax''])"] run by blast
qed

theorem current_generation_is_newest_witness:
  "current_generation [plain_node ''x'' [''a''] 1, plain_node ''y'' [''b''] 2, plain_node ''z'' [] 0]
     = [plain_node ''y'' [''b''] 2, plain_node ''z'' [] 0]"
proof -
  let ?ns = "[plain_node ''x'' [''a''] 1, plain_node ''y'' [''b''] 2, plain_node ''z'' [] 0]"
  have e: "\<forall>n \<in> set ?ns. EPOCH < tn_last_seen n" by (simp add: EPOCH_def plain_node_def)
  have x: "plain_node ''x'' [''a''] 1 \<in> set ?ns" "tn_block_ids (plain_node ''x'' [''a''] 1) \<noteq> []" by (simp_all add: plain_node_def)
  obtain n where n: "n \<in> set ?ns" "tn_block_ids n \<noteq> []" "\<forall>m \<in> set ?ns. tn_block_ids m \<noteq> [] \<longrightarrow> tn_last_seen m \<le> tn_last_seen n"
    "current_generation ?ns = filter (\<lambda>m. tn_block_ids m = [] \<or> hd (tn_block_ids m) = hd (tn_block_ids n)) ?ns"
    using current_generation_is_newest[OF e x] by blast
  have "n = plain_node ''y'' [''b''] 2" using n(1-3) unfolding plain_node_def by force
  then show ?thesis unfolding n(4) by (simp add: plain_node_def)
qed

theorem tree_diff_roundtrip_witness:
  "set (apply_diff (build_tree_diff [plain_node ''x'' [''a''] 1, plain_node ''y'' [''b''] 2] [plain_node ''y'' [''b''] 3]) 
      [plain_node ''x'' [''a''] 1, plain_node ''y'' [''b''] 2]) = {plain_node ''y'' [''b''] 3}"
  using tree_diff_roundtrip[of "[plain_node ''x'' [''a''] 1, plain_node ''y'' [''b''] 2]" "[plain_node ''y'' [''b''] 3]"]
  by (simp add: node_key_def plain_node_def)

theorem panel_and_tree_agree_witness:
  "\<exists>s v. spend_by_agent (\<lambda>_. []) (map ar_record two_mintings) [] = Inr s
     \<and> authority_view (\<lambda>_. []) (\<lambda>_. None) (map ar_record two_mintings) = Inr (Some v) \<and> vw_spent v = 60
     \<and> spent_at s ''payer'' ''spend_bdt'' = Fin 60"
proof -
  let ?rs = "map ar_record two_mintings"
  have "is_ok (spend_by_agent (\<lambda>_. []) ?rs [])" by code_simp
  then obtain s where s: "spend_by_agent (\<lambda>_. []) ?rs [] = Inr s" by (auto simp: is_ok_iff)
  have "(case authority_view (\<lambda>_. []) (\<lambda>_. None) ?rs of Inr (Some v) \<Rightarrow> vw_spent v = 60 | _ \<Rightarrow> False)" by code_simp
  then obtain v where v: "authority_view (\<lambda>_. []) (\<lambda>_. None) ?rs = Inr (Some v)" "vw_spent v = 60"
    by (auto split: sum.splits option.splits)
  have mine: "filter (\<lambda>r. str_field (\<lambda>_. []) r ''agent_id'' = ''payer'') ?rs = ?rs"
    by (simp add: two_mintings_def tree_audit_def tree_record_def str_field_def get_or_def rec_get_def)
  have numbers: "decimal_of_string ''100'' = Inr (Fin 100)" "decimal_of_string ''40'' = Inr (Fin 40)" "decimal_of_string ''50'' = Inr (Fin 50)"
    by code_simp+
  have "whole (100 * 10000)" "whole (40 * 10000)" "whole (50 * 10000)"
    using whole_of_int[of 1000000] whole_of_int[of 400000] whole_of_int[of 500000] by simp_all
  then have money: "money 100" "money 40" "money 50" by (simp_all add: money_def)
  have plain: "list_all (plain_budgets (\<lambda>_. [])) ?rs" "\<forall>r \<in> set ?rs. records_spend r"
    using money by (auto simp: two_mintings_def tree_audit_def tree_record_def plain_budgets_def records_spend_def budgets_of_def
        get_or_def rec_get_def or_else_def decimal_field_def numbers)
  have "length ?rs \<le> 10 ^ 7" by (simp add: two_mintings_def)
  from panel_and_tree_agree[OF plain this s, of "\<lambda>_. None" "''payer''" v, unfolded mine, OF v(1)] show ?thesis using s v by auto
qed

end
