(* ===== verification/Console.thy ===== *)
theory Console
  imports JsonRecord Invariants "HOL-Library.Sublist"
begin

text \<open>
  The two read models the console polls: the decision stream of \<open>db/decisions.py\<close>, which pages
  through the audit records behind a cursor, and the dashboard of \<open>db/budget_dashboard.py\<close>, a
  picture of the ledger next to the verdict of its checker.

  \<open>fint\<close> is \<open>int\<close> of a float.  Rendering numbers and instants as text, and rates in floating point,
  is not modelled.
\<close>

section \<open>Decisions\<close>

record decision_filter =
  df_outcome :: "string option"
  df_agent_id :: "string option"
  df_scope :: "string option"

definition no_filter :: decision_filter where
  "no_filter = \<lparr>df_outcome = None, df_agent_id = None, df_scope = None\<rparr>"

definition matches_nothing :: "decision_filter \<Rightarrow> bool" where
  "matches_nothing f = list_ex (\<lambda>v. v = Some []) [df_outcome f, df_agent_id f, df_scope f]"

record decision_event =
  ev_seq :: int
  ev_decision_id :: uuid
  ev_task_id :: "uuid option"
  ev_timestamp :: instant
  ev_outcome :: string
  ev_reason_code :: string
  ev_agent_id :: string
  ev_principal_id :: string
  ev_scope :: string
  ev_tool_id :: string
  ev_depth :: int
  ev_latency_us :: int
  ev_explanation :: string
  ev_failing_caveat_kind :: "string option"
  ev_failing_caveat_block :: "int option"
  ev_drift_score :: "string option"

text \<open>\<open>str(record.get(k, "") or "").strip()\<close>, and \<open>x or y\<close> of texts.\<close>

definition stripped :: "(pvalue \<Rightarrow> string) \<Rightarrow> pvalue \<Rightarrow> string \<Rightarrow> string" where
  "stripped repr r k = strip (py_str repr (or_else (get_or r k (PyStr [])) (PyStr [])))"

definition or_text :: "string \<Rightarrow> string \<Rightarrow> string" where
  "or_text s t = (if s = [] then t else s)"

text \<open>\<open>isinstance(v, int)\<close>, which a boolean is too.\<close>

fun is_int :: "pvalue option \<Rightarrow> int option" where
  "is_int (Some (PyInt i)) = Some i"
| "is_int (Some (PyBool b)) = Some (if b then 1 else 0)"
| "is_int _ = None"

definition explain :: "(pvalue \<Rightarrow> string) \<Rightarrow> pvalue \<Rightarrow> string" where
  "explain repr r =
     (let outcome = lower_case (str_field repr r ''outcome'');
          reason_code = or_text (str_field repr r ''reason_code'') ''UNKNOWN'';
          detail = stripped repr r ''reason_detail'' in
      if outcome = ''allow'' then or_text detail ''allowed''
      else (case rec_get r ''failing_caveat'' of
          Some (PyMap c) \<Rightarrow>
            (let caveat = PyMap c;
                 kind = py_str repr (or_else (get_or caveat ''kind'' (PyStr [])) (PyStr ''caveat''));
                 where' = (case is_int (rec_get caveat ''block_index'') of
                             None \<Rightarrow> ''the token chain'' | Some _ \<Rightarrow> ''block '' @ py_str repr (get_or caveat ''block_index'' PyNone));
                 caveat_detail = stripped repr caveat ''detail'';
                 verb = (if outcome = ''escalate'' then ''held it for a human'' else ''refused it'');
                 sentence = where' @ [CHR 0x27] @ ''s '' @ kind @ '' caveat '' @ verb in
             if caveat_detail \<noteq> [] then sentence @ '': '' @ caveat_detail
             else if detail \<noteq> [] then sentence @ '': '' @ detail
             else sentence)
        | _ \<Rightarrow> or_text detail reason_code))"

definition py_int_of :: "int \<Rightarrow> pvalue \<Rightarrow> int py" where
  "py_int_of fint v =
     (case v of
        PyInt i \<Rightarrow> Inr i | PyBool b \<Rightarrow> Inr (if b then 1 else 0) | PyStr s \<Rightarrow> py_int (TStr s) | PyFloat \<Rightarrow> Inr fint
      | _ \<Rightarrow> Inl TypeError)"

definition int_field :: "int \<Rightarrow> pvalue \<Rightarrow> string \<Rightarrow> int py" where
  "int_field fint r k = py_int_of fint (or_else (get_or r k (PyInt 0)) (PyInt 0))"

definition task_id_of :: "(pvalue \<Rightarrow> string) \<Rightarrow> pvalue \<Rightarrow> uuid option" where
  "task_id_of repr r =
     (case get_or r ''task_id'' PyNone of PyNone \<Rightarrow> None | v \<Rightarrow> uuid_of_string (py_str repr v))"

definition optional_text :: "(pvalue \<Rightarrow> string) \<Rightarrow> pvalue \<Rightarrow> string option" where
  "optional_text repr v = (case v of PyNone \<Rightarrow> None | _ \<Rightarrow> Some (py_str repr v))"

definition project_record :: "(pvalue \<Rightarrow> string) \<Rightarrow> int \<Rightarrow> audit_row \<Rightarrow> decision_event py" where
  "project_record repr fint row =
     (let r = ar_record row;
          caveat = (case rec_get r ''failing_caveat'' of Some (PyMap c) \<Rightarrow> PyMap c | _ \<Rightarrow> PyMap []) in
      bindE (int_field fint r ''depth'') (\<lambda>depth.
      bindE (int_field fint r ''latency_us'') (\<lambda>latency.
        Inr \<lparr>ev_seq = ar_seq row, ev_decision_id = ar_decision_id row, ev_task_id = task_id_of repr r,
             ev_timestamp = ar_created_at row,
             ev_outcome = py_str repr (get_or r ''outcome'' (PyStr ''unknown'')),
             ev_reason_code = py_str repr (get_or r ''reason_code'' (PyStr ''UNKNOWN'')),
             ev_agent_id = str_field repr r ''agent_id'', ev_principal_id = str_field repr r ''principal_id'',
             ev_scope = str_field repr r ''scope'',
             ev_tool_id = py_str repr (or_else (get_or r ''tool_id'' (PyStr [])) (PyStr [])),
             ev_depth = depth, ev_latency_us = latency, ev_explanation = explain repr r,
             ev_failing_caveat_kind = optional_text repr (get_or caveat ''kind'' PyNone),
             ev_failing_caveat_block = is_int (rec_get caveat ''block_index''),
             ev_drift_score = optional_text repr (get_or r ''drift_score'' PyNone)\<rparr>)))"

definition matches :: "decision_filter \<Rightarrow> audit_row \<Rightarrow> bool" where
  "matches f row =
     (let ok = (\<lambda>want k. case want of None \<Rightarrow> True | Some v \<Rightarrow> sql_text (rec_get (ar_record row) k) = Some v) in
      ok (df_outcome f) ''outcome'' \<and> ok (df_agent_id f) ''agent_id'' \<and> ok (df_scope f) ''scope'')"

definition page_after :: "decision_filter \<Rightarrow> nat \<Rightarrow> int \<Rightarrow> audit_row list \<Rightarrow> audit_row list" where
  "page_after f limit cursor rows =
     take limit (sort_key ar_seq (filter (\<lambda>r. ar_seq r > cursor \<and> matches f r) rows))"

definition read_since ::
  "(pvalue \<Rightarrow> string) \<Rightarrow> int \<Rightarrow> decision_filter \<Rightarrow> nat \<Rightarrow> int \<Rightarrow> audit_row list \<Rightarrow> (decision_event list) py" where
  "read_since repr fint f limit cursor rows =
     (if matches_nothing f then Inr []
      else traverseE (project_record repr fint) (page_after f limit cursor rows))"

section \<open>A reader\<close>

text \<open>
  A console holds a cursor, polls, appends what it is given and moves the cursor to the last
  element; meanwhile decisions are appended, each with a \<open>seq\<close> above all before.
\<close>

record stream =
  str_rows :: "audit_row list"
  str_cursor :: int
  str_seen :: "decision_event list"

text \<open>\<open>next_seq\<close> of a page.\<close>

definition next_seq :: "int \<Rightarrow> decision_event list \<Rightarrow> int" where
  "next_seq cursor page = (if page = [] then cursor else ev_seq (last page))"

definition poll :: "(pvalue \<Rightarrow> string) \<Rightarrow> int \<Rightarrow> decision_filter \<Rightarrow> nat \<Rightarrow> stream \<Rightarrow> stream py" where
  "poll repr fint f limit s =
     bindE (read_since repr fint f limit (str_cursor s) (str_rows s)) (\<lambda>page.
       Inr (s\<lparr>str_cursor := (if page = [] then str_cursor s else ev_seq (last page)), str_seen := str_seen s @ page\<rparr>))"

primrec polls :: "(pvalue \<Rightarrow> string) \<Rightarrow> int \<Rightarrow> decision_filter \<Rightarrow> nat \<Rightarrow> nat \<Rightarrow> stream \<Rightarrow> stream py" where
  "polls repr fint f limit 0 s = Inr s"
| "polls repr fint f limit (Suc n) s = bindE (poll repr fint f limit s) (polls repr fint f limit n)"

inductive stream_step :: "(pvalue \<Rightarrow> string) \<Rightarrow> int \<Rightarrow> decision_filter \<Rightarrow> nat \<Rightarrow> stream \<Rightarrow> stream \<Rightarrow> bool"
  for repr fint f limit where
  appended: "sorted_wrt (<) (map ar_seq (str_rows s @ new))
    \<Longrightarrow> stream_step repr fint f limit s (s\<lparr>str_rows := str_rows s @ new\<rparr>)"
| polled: "poll repr fint f limit s = Inr s' \<Longrightarrow> stream_step repr fint f limit s s'"

inductive_cases stream_stepE: "stream_step repr fint f limit s s'"

inductive stream_run :: "(pvalue \<Rightarrow> string) \<Rightarrow> int \<Rightarrow> decision_filter \<Rightarrow> nat \<Rightarrow> stream \<Rightarrow> stream \<Rightarrow> bool"
  for repr fint f limit s where
  here: "stream_run repr fint f limit s s"
| onward: "stream_run repr fint f limit s s' \<Longrightarrow> stream_step repr fint f limit s' s'' \<Longrightarrow> stream_run repr fint f limit s s''"

text \<open>What is left to read past a cursor, and a reader that starts at one.\<close>

definition pending :: "decision_filter \<Rightarrow> int \<Rightarrow> audit_row list \<Rightarrow> audit_row list" where
  "pending f cursor rows = filter (\<lambda>r. cursor < ar_seq r \<and> matches f r) rows"

definition stream_from :: "int \<Rightarrow> audit_row list \<Rightarrow> stream" where
  "stream_from c rows = \<lparr>str_rows = rows, str_cursor = c, str_seen = []\<rparr>"

section \<open>The dashboard\<close>

record mandate_gauge =
  mg_budget_id :: uuid
  mg_mandate_id :: uuid
  mg_dimension :: string
  mg_total :: decimal
  mg_committed :: decimal
  mg_leased :: decimal
  mg_allocated :: decimal
  mg_available :: decimal
  mg_active_leases :: nat
  mg_lease_granted :: decimal
  mg_lease_settled :: decimal

record dashboard =
  db_generated_at :: instant
  db_gauges :: "mandate_gauge list"
  db_topups_in_window :: nat
  db_window :: int
  db_invariants_ok :: bool
  db_budgets_checked :: nat
  db_violations :: "violation list"

text \<open>\<open>_ratio\<close>, before it is rendered: divided in the context, then rounded to four places.\<close>

definition ratio :: "decimal \<Rightarrow> decimal \<Rightarrow> decimal" where
  "ratio part tot =
     (if tot = 0 then 0 else of_int (round_half_even (ctx_round (part / tot) * 10 ^ 4)) / 10 ^ 4)"

definition spend_fraction :: "mandate_gauge \<Rightarrow> decimal" where
  "spend_fraction g = ratio (mg_committed g) (mg_total g)"

definition lease_utilization :: "mandate_gauge \<Rightarrow> decimal" where
  "lease_utilization g = ratio (mg_lease_settled g) (mg_lease_granted g)"

definition active_leases :: "ledger_db \<Rightarrow> uuid \<Rightarrow> lease_row list" where
  "active_leases db i = filter (\<lambda>l. lr_state l = ACTIVE \<and> lr_budget_id l = i) (leases db)"

definition gauge_of :: "ledger_db \<Rightarrow> budget_row \<Rightarrow> mandate_gauge" where
  "gauge_of db b =
     (let ls = active_leases db (br_id b) in
      \<lparr>mg_budget_id = br_id b, mg_mandate_id = br_mandate_id b, mg_dimension = br_dimension b,
       mg_total = br_total b, mg_committed = br_committed b, mg_leased = br_leased b, mg_allocated = br_allocated b,
       mg_available = available b, mg_active_leases = length ls,
       mg_lease_granted = sum_list (map lr_granted ls), mg_lease_settled = sum_list (map lr_settled ls)\<rparr>)"

definition build_dashboard :: "instant \<Rightarrow> int \<Rightarrow> ledger_db \<Rightarrow> dashboard" where
  "build_dashboard now_t window db =
     (let pools = sort_key br_mandate_id (sort_key br_dimension (filter (\<lambda>b. br_parent_budget_id b = None) (budgets db)));
          report = check_in_session db in
      \<lparr>db_generated_at = now_t, db_gauges = map (gauge_of db) pools,
       db_topups_in_window = length (filter (\<lambda>l. lr_granted_at l \<ge> now_t - window) (leases db)), db_window = window,
       db_invariants_ok = (violations report = []), db_budgets_checked = budgets_checked report,
       db_violations = violations report\<rparr>)"

section \<open>Pages\<close>

lemma strict_sorted_sort_key:
  "sorted_wrt (<) (map ar_seq rows) \<Longrightarrow> sort_key ar_seq (filter P rows) = filter P rows"
  by (intro sort_key_id_if_sorted) (auto intro: sorted_wrt_filter sorted_wrt_mono_rel[rotated] simp: sorted_map sorted_wrt_map)

lemma page_after_pending:
  "sorted_wrt (<) (map ar_seq rows) \<Longrightarrow> page_after f n c rows = take n (pending f c rows)"
  by (simp add: page_after_def pending_def strict_sorted_sort_key)

lemma projected_seq: "project_record repr fint row = Inr e \<Longrightarrow> ev_seq e = ar_seq row"
  by (auto simp: project_record_def Let_def bindE_Inr_iff)

lemma sorted_pending: "sorted_wrt (<) (map ar_seq rows) \<Longrightarrow> sorted_wrt (<) (map ar_seq (pending f c rows))"
  by (simp add: pending_def sorted_wrt_map sorted_wrt_filter)

text \<open>Moving the cursor to the last row of a page drops exactly that page from what is pending.\<close>

lemma pending_after_page:
  assumes "sorted_wrt (<) (map ar_seq rows)" "take n (pending f c rows) = ps" "ps \<noteq> []"
  shows "pending f (ar_seq (last ps)) rows = drop n (pending f c rows)"
proof -
  let ?p = "pending f c rows"
  have srt: "sorted_wrt (<) (map ar_seq (ps @ drop n ?p))"
    using sorted_pending[OF assms(1), of f c] assms(2) append_take_drop_id[of n ?p] by metis
  have le: "ar_seq r \<le> ar_seq (last ps)" if "r \<in> set ps" for r
    using srt that assms(3) by (cases ps rule: rev_cases) (auto simp: sorted_wrt_append)
  have gt: "ar_seq (last ps) < ar_seq r" if "r \<in> set (drop n ?p)" for r
    using srt that assms(3) last_in_set[OF assms(3)] by (auto simp: sorted_wrt_append)
  have c: "c < ar_seq (last ps)"
  proof -
    have "last ps \<in> set ?p" using last_in_set[OF assms(3)] assms(2) in_set_takeD by metis
    then show ?thesis by (simp add: pending_def)
  qed
  have "pending f (ar_seq (last ps)) rows = filter (\<lambda>r. ar_seq (last ps) < ar_seq r) ?p"
    using c by (auto simp: pending_def intro!: filter_cong)
  also have "\<dots> = filter (\<lambda>r. ar_seq (last ps) < ar_seq r) (ps @ drop n ?p)"
    using assms(2) append_take_drop_id[of n ?p] by metis
  also have "\<dots> = drop n ?p" using le gt by (auto simp: filter_empty_conv not_less intro!: filter_True)
  finally show ?thesis .
qed

section \<open>Reading the stream\<close>

definition reading :: "(pvalue \<Rightarrow> string) \<Rightarrow> int \<Rightarrow> decision_filter \<Rightarrow> int \<Rightarrow> audit_row list \<Rightarrow> stream \<Rightarrow> bool" where
  "reading repr fint f c rows s \<longleftrightarrow>
     sorted_wrt (<) (map ar_seq (str_rows s)) \<and> (\<exists>new. str_rows s = rows @ new)
     \<and> (str_cursor s = c \<or> c < str_cursor s \<and> str_cursor s \<in> ar_seq ` set (str_rows s))
     \<and> (\<exists>read. pending f c (str_rows s) = read @ pending f (str_cursor s) (str_rows s)
          \<and> traverseE (project_record repr fint) read = Inr (str_seen s))"

lemma traverse_append:
  "traverseE g xs = Inr as \<Longrightarrow> traverseE g ys = Inr bs \<Longrightarrow> traverseE g (xs @ ys) = Inr (as @ bs)"
  by (simp add: traverseE_Inr_iff list_all2_appendI)

lemma pending_append: "pending f c (xs @ ys) = pending f c xs @ pending f c ys"
  by (simp add: pending_def)

lemma pending_all: "(\<And>r. r \<in> set rows \<Longrightarrow> c < ar_seq r) \<Longrightarrow> pending f c rows = filter (matches f) rows"
  by (auto simp: pending_def intro: filter_cong)

lemma read_since_page:
  assumes "read_since repr fint f limit c rows = Inr page" "sorted_wrt (<) (map ar_seq rows)"
  obtains "page = []" | ps where "take limit (pending f c rows) = ps" "ps \<noteq> []" "page \<noteq> []"
    "traverseE (project_record repr fint) ps = Inr page" "ev_seq (last page) = ar_seq (last ps)"
proof (cases "page = []")
  case False
  let ?ps = "take limit (pending f c rows)"
  have t: "traverseE (project_record repr fint) ?ps = Inr page"
    using assms False by (simp add: read_since_def page_after_pending split: if_splits)
  then have l: "list_all2 (\<lambda>r e. project_record repr fint r = Inr e) ?ps page" by (simp add: traverseE_Inr_iff)
  then have n: "length ?ps = length page" by (rule list_all2_lengthD)
  then have ne: "?ps \<noteq> []" using False by (metis length_0_conv)
  have "project_record repr fint (?ps ! (length page - 1)) = Inr (page ! (length page - 1))"
    using list_all2_nthD2[OF l, of "length page - 1"] False by simp
  then have "ev_seq (last page) = ar_seq (last ?ps)"
    using projected_seq n by (metis False ne last_conv_nth)
  then show ?thesis using that(2) ne False t by blast
qed (rule that(1))

lemma reading_poll:
  assumes "reading repr fint f c rows s" "poll repr fint f limit s = Inr s'"
  shows "reading repr fint f c rows s'"
proof -
  obtain page where page: "read_since repr fint f limit (str_cursor s) (str_rows s) = Inr page"
    and s': "s' = s\<lparr>str_cursor := (if page = [] then str_cursor s else ev_seq (last page)), str_seen := str_seen s @ page\<rparr>"
    using assms(2) by (auto simp: poll_def next_seq_def)
  have srt: "sorted_wrt (<) (map ar_seq (str_rows s))" using assms(1) by (simp add: reading_def)
  from page srt show ?thesis
  proof (cases rule: read_since_page)
    case 1
    then show ?thesis using assms(1) s' by simp
  next
    case (2 ps)
    let ?p = "pending f (str_cursor s) (str_rows s)"
    obtain read where r: "pending f c (str_rows s) = read @ ?p"
      "traverseE (project_record repr fint) read = Inr (str_seen s)" using assms(1) by (auto simp: reading_def)
    have cur: "str_cursor s' = ar_seq (last ps)" and rows: "str_rows s' = str_rows s" and seen: "str_seen s' = str_seen s @ page"
      using 2 s' by simp_all
    have "last ps \<in> set ?p" using 2(1,2) last_in_set in_set_takeD by metis
    then have lp: "last ps \<in> set (str_rows s)" "str_cursor s < ar_seq (last ps)" by (simp_all add: pending_def)
    have "?p = ps @ pending f (ar_seq (last ps)) (str_rows s)"
      using pending_after_page[OF srt 2(1,2)] append_take_drop_id[of limit ?p] 2(1) by metis
    then have "pending f c (str_rows s') = (read @ ps) @ pending f (str_cursor s') (str_rows s')"
      unfolding cur rows r(1) by simp
    moreover have "traverseE (project_record repr fint) (read @ ps) = Inr (str_seen s')"
      unfolding seen by (rule traverse_append[OF r(2) 2(4)])
    moreover have "c < str_cursor s'" using assms(1) lp(2) cur by (auto simp: reading_def)
    moreover have "str_cursor s' \<in> ar_seq ` set (str_rows s')" unfolding cur rows using lp(1) by blast
    ultimately show ?thesis using assms(1) rows unfolding reading_def by metis
  qed
qed

lemma reading_appended:
  assumes "reading repr fint f c rows s" "sorted_wrt (<) (map ar_seq (str_rows s @ new))"
  shows "reading repr fint f c rows (s\<lparr>str_rows := str_rows s @ new\<rparr>)"
proof -
  obtain read where r: "pending f c (str_rows s) = read @ pending f (str_cursor s) (str_rows s)"
    "traverseE (project_record repr fint) read = Inr (str_seen s)" using assms(1) by (auto simp: reading_def)
  have "pending f c new = pending f (str_cursor s) new"
  proof (cases "str_cursor s = c")
    case False
    then obtain x where x: "x \<in> set (str_rows s)" "str_cursor s = ar_seq x" "c < str_cursor s"
      using assms(1) by (auto simp: reading_def)
    have gt: "str_cursor s < ar_seq r" if "r \<in> set new" for r
      using assms(2) x that by (auto simp: sorted_wrt_append)
    then have "c < ar_seq r" if "r \<in> set new" for r using x(3) that less_trans by blast
    then show ?thesis using gt by (simp add: pending_all)
  qed simp
  then have "pending f c (str_rows s @ new) = read @ pending f (str_cursor s) (str_rows s @ new)"
    by (simp add: pending_append r(1))
  moreover obtain old where "str_rows s = rows @ old" using assms(1) by (auto simp: reading_def)
  ultimately show ?thesis using assms r(2) unfolding reading_def by auto
qed

lemma reading_run:
  assumes "stream_run repr fint f limit (stream_from c rows) s" "sorted_wrt (<) (map ar_seq rows)"
  shows "reading repr fint f c rows s"
  using assms
proof (induction rule: stream_run.induct)
  case here
  then show ?case by (simp add: reading_def stream_from_def)
next
  case (onward s' s'')
  then have "reading repr fint f c rows s'" by blast
  with onward.hyps(2) show ?case
    by (elim stream_stepE) (simp_all add: reading_poll reading_appended)
qed

text \<open>
  C32: However appends and polls interleave, a reader that started at cursor \<open>c\<close> has been given
  each decision between \<open>c\<close> and its cursor that its filter wants, once and in the order of the
  chain, and what it has not been given is what lies past its cursor: advancing to the last element
  loses nothing.
\<close>
theorem stream_loses_nothing:
  assumes "stream_run repr fint f limit (stream_from c rows) s" "sorted_wrt (<) (map ar_seq rows)"
  shows "\<exists>read. pending f c (str_rows s) = read @ pending f (str_cursor s) (str_rows s)
    \<and> traverseE (project_record repr fint) read = Inr (str_seen s)"
  using reading_run[OF assms] by (simp add: reading_def)

lemma poll_progress:
  assumes "sorted_wrt (<) (map ar_seq (str_rows s))" "0 < limit" "\<not> matches_nothing f"
    and ok: "traverseE (project_record repr fint) (pending f (str_cursor s) (str_rows s)) = Inr es" and "es \<noteq> []"
  obtains s' where "poll repr fint f limit s = Inr s'" "str_rows s' = str_rows s" "str_seen s' = str_seen s @ take limit es"
    "traverseE (project_record repr fint) (pending f (str_cursor s') (str_rows s')) = Inr (drop limit es)"
proof -
  let ?p = "pending f (str_cursor s) (str_rows s)"
  have l: "list_all2 (\<lambda>r e. project_record repr fint r = Inr e) ?p es" using ok by (simp add: traverseE_Inr_iff)
  then have t: "traverseE (project_record repr fint) (take limit ?p) = Inr (take limit es)"
    "traverseE (project_record repr fint) (drop limit ?p) = Inr (drop limit es)"
    by (simp_all add: traverseE_Inr_iff list_all2_takeI list_all2_dropI)
  have page: "read_since repr fint f limit (str_cursor s) (str_rows s) = Inr (take limit es)"
    using t(1) assms(1,3) by (simp add: read_since_def page_after_pending)
  have ne: "take limit es \<noteq> []" using assms(2) \<open>es \<noteq> []\<close> by simp
  let ?s = "s\<lparr>str_cursor := ev_seq (last (take limit es)), str_seen := str_seen s @ take limit es\<rparr>"
  have "poll repr fint f limit s = Inr ?s" using page ne by (simp add: poll_def next_seq_def)
  moreover from page assms(1) have "pending f (ev_seq (last (take limit es))) (str_rows s) = drop limit ?p"
  proof (cases rule: read_since_page)
    case (2 ps)
    then show ?thesis using pending_after_page[OF assms(1) 2(1,2)] by simp
  qed (use ne in simp)
  ultimately show ?thesis using t(2) by (intro that[of ?s]) simp_all
qed

lemma polls_catch_up:
  assumes "sorted_wrt (<) (map ar_seq (str_rows s))" "0 < limit" "\<not> matches_nothing f"
    "traverseE (project_record repr fint) (pending f (str_cursor s) (str_rows s)) = Inr es" "length es \<le> n"
  shows "\<exists>s'. polls repr fint f limit n s = Inr s' \<and> str_seen s' = str_seen s @ es
    \<and> pending f (str_cursor s') (str_rows s') = []"
  using assms
proof (induction n arbitrary: s es)
  case 0
  then show ?case by (auto simp: traverseE_Inr_iff)
next
  case (Suc n)
  show ?case
  proof (cases "es = []")
    case True
    then have p: "pending f (str_cursor s) (str_rows s) = []" using Suc.prems(4) by (auto simp: traverseE_Inr_iff)
    then have "poll repr fint f limit s = Inr s"
      using Suc.prems(1) by (simp add: poll_def next_seq_def read_since_def page_after_pending)
    then show ?thesis using Suc.IH[of s "[]"] Suc.prems True by simp
  next
    case False
    obtain s' where s': "poll repr fint f limit s = Inr s'" "str_rows s' = str_rows s" "str_seen s' = str_seen s @ take limit es"
      "traverseE (project_record repr fint) (pending f (str_cursor s') (str_rows s')) = Inr (drop limit es)"
      using poll_progress[OF Suc.prems(1-4) False] .
    have "length (drop limit es) \<le> n" using Suc.prems(2,5) False by (cases es) auto
    from Suc.IH[OF _ Suc.prems(2,3) s'(4) this] s'(1-3) Suc.prems(1) show ?thesis by auto
  qed
qed

text \<open>
  A reader catches up: when every pending record can be shown, as many polls as there are pending
  records, of pages of any size but 0, give it all of them and leave nothing pending.
\<close>
theorem reader_catches_up:
  assumes "sorted_wrt (<) (map ar_seq rows)" "0 < limit" "\<not> matches_nothing f"
    and "traverseE (project_record repr fint) (pending f c rows) = Inr es"
  shows "\<exists>s. polls repr fint f limit (length es) (stream_from c rows) = Inr s \<and> str_seen s = es
    \<and> pending f (str_cursor s) (str_rows s) = []"
  using polls_catch_up[of "stream_from c rows" limit f repr fint es "length es"] assms by (simp add: stream_from_def)

text \<open>
  One record that cannot be shown (its \<open>depth\<close> is text, say) holds the stream for good: no reader
  ever gets past it, whatever is appended behind it.
\<close>
theorem malformed_record_holds_the_stream:
  assumes run: "stream_run repr fint f limit (stream_from c rows) s" and srt: "sorted_wrt (<) (map ar_seq rows)"
    and r: "r \<in> set rows" "c < ar_seq r" "matches f r" "project_record repr fint r = Inl e"
  shows "str_cursor s < ar_seq r"
proof -
  have R: "reading repr fint f c rows s" by (rule reading_run[OF run srt])
  obtain read where read: "pending f c (str_rows s) = read @ pending f (str_cursor s) (str_rows s)"
    "traverseE (project_record repr fint) read = Inr (str_seen s)" using R by (auto simp: reading_def)
  have "r \<in> set (pending f c (str_rows s))" using R r(1-3) by (auto simp: reading_def pending_def)
  moreover have "r \<notin> set read" using traverseE_total[OF read(2)] r(4) by fastforce
  ultimately show ?thesis unfolding read(1) by (simp add: pending_def)
qed

section \<open>The explanation\<close>

lemma sublist_middle:
  "sublist k (a @ b @ c @ k @ r)" "sublist k ((a @ b @ c @ k @ r) @ z)"
  by (metis append.assoc sublist_appendI)+

lemma explain_caveat:
  assumes "rec_get r ''failing_caveat'' = Some (PyMap c)" "lower_case (str_field repr r ''outcome'') \<noteq> ''allow''"
  shows "sublist (py_str repr (or_else (get_or (PyMap c) ''kind'' (PyStr [])) (PyStr ''caveat''))) (explain repr r)"
  unfolding explain_def Let_def assms(1) option.case pvalue.case if_not_P[OF assms(2)]
  by (simp only: sublist_middle if_True split: if_split) simp

text \<open>
  The explanation of a decision is never empty, and when a caveat failed and the outcome is not an
  allow it names the caveat's kind.
\<close>
theorem explanation_names_the_caveat:
  "explain repr r \<noteq> []
   \<and> (case rec_get r ''failing_caveat'' of
        Some (PyMap c) \<Rightarrow> lower_case (str_field repr r ''outcome'') = ''allow''
          \<or> sublist (py_str repr (or_else (get_or (PyMap c) ''kind'' (PyStr [])) (PyStr ''caveat''))) (explain repr r)
      | _ \<Rightarrow> True)"
proof
  show "explain repr r \<noteq> []"
    by (simp add: explain_def or_text_def Let_def split: option.split pvalue.split)
qed (use explain_caveat in \<open>auto split: option.split pvalue.split\<close>)

section \<open>The dashboard shows the books\<close>

lemma round_half_even_between: "of_int a \<le> x \<Longrightarrow> x \<le> of_int b \<Longrightarrow> a \<le> round_half_even x \<and> round_half_even x \<le> b"
  by (auto simp: round_half_even_def Let_def le_floor_iff floor_le_iff) linarith+

lemma adjusted_unit:
  assumes "0 < y" "y \<le> 1"
  shows "adjusted y \<le> 0"
proof (cases "y = 1")
  case True
  then show ?thesis using adjusted_power[of 0] by simp
qed (use assms in \<open>simp add: adjusted_def\<close>)

lemma ctx_round_unit:
  assumes "0 \<le> y" "y \<le> (1 :: decimal)"
  shows "0 \<le> ctx_round y \<and> ctx_round y \<le> 1"
proof (cases "y = 0")
  case False
  then have a: "adjusted y \<le> 0" using assms by (simp add: adjusted_unit)
  define k where "k = nat (- max (adjusted y - 27) (- 1000026))"
  have q: "power10 (max (adjusted y - 27) (- 1000026)) = 1 / 10 ^ k"
    using a by (simp add: power10_def k_def max_def)
  have "of_int 0 \<le> y / (1 / 10 ^ k)" using assms(1) by simp
  moreover have "y / (1 / 10 ^ k) \<le> of_int (10 ^ k)" using assms(2) by simp
  ultimately have r: "0 \<le> round_half_even (y / (1 / 10 ^ k))" "round_half_even (y / (1 / 10 ^ k)) \<le> 10 ^ k"
    using round_half_even_between by blast+
  have "of_int (round_half_even (y / (1 / 10 ^ k))) \<le> (of_int (10 ^ k) :: decimal)" using r(2) by (simp only: of_int_le_iff)
  then have "of_int (round_half_even (y / (1 / 10 ^ k))) \<le> (10 :: decimal) ^ k" by simp
  then show ?thesis using r(1) False unfolding ctx_round_def q Let_def by (simp add: divide_le_eq)
qed (simp add: ctx_round_def)

lemma ratio_unit:
  assumes "0 \<le> p" "p \<le> t"
  shows "0 \<le> ratio p t \<and> ratio p t \<le> 1"
proof (cases "t = 0")
  case False
  then have "0 \<le> p / t" "p / t \<le> 1" using assms by simp_all
  then have "0 \<le> ctx_round (p / t)" "ctx_round (p / t) \<le> 1" using ctx_round_unit by blast+
  then have r: "0 \<le> round_half_even (ctx_round (p / t) * 10 ^ 4)" "round_half_even (ctx_round (p / t) * 10 ^ 4) \<le> 10 ^ 4"
    using round_half_even_between[of 0 "ctx_round (p / t) * 10 ^ 4" "10 ^ 4"] by simp_all
  have "of_int (round_half_even (ctx_round (p / t) * 10 ^ 4)) \<le> (of_int (10 ^ 4) :: decimal)" using r(2) by (simp only: of_int_le_iff)
  then show ?thesis using r(1) False by (simp add: ratio_def)
qed (simp add: ratio_def)

lemma active_leases_total:
  "sum_list (map lr_granted (active_leases db i)) - sum_list (map lr_settled (active_leases db i)) = active_total db i"
proof -
  have "sum_list (map lr_granted (filter (\<lambda>l. lr_state l = ACTIVE \<and> lr_budget_id l = i) ls))
      - sum_list (map lr_settled (filter (\<lambda>l. lr_state l = ACTIVE \<and> lr_budget_id l = i) ls))
    = sum_list (map (\<lambda>l. if lr_budget_id l = i \<and> lr_state l = ACTIVE then outstanding l else 0) ls)" for ls
    by (induction ls) (auto simp: outstanding_def)
  then show ?thesis by (simp add: active_leases_def active_total_def)
qed

lemma sums_between:
  "(\<And>l. l \<in> set ls \<Longrightarrow> 0 \<le> lr_settled l \<and> lr_settled l \<le> lr_granted l)
    \<Longrightarrow> 0 \<le> sum_list (map lr_settled ls) \<and> sum_list (map lr_settled ls) \<le> sum_list (map lr_granted ls)"
  by (auto intro!: sum_list_mono sum_list_nonneg)

text \<open>
  On a ledger its code has produced the dashboard reports the check as passed over every budget, and
  each gauge splits its pool's total into spent, held, carved out and a rest that is never negative; what
  is held is what its active leases were granted and have not settled, and no rate exceeds 1.
\<close>
theorem dashboard_of_the_books:
  assumes "ledger_reachable db"
  shows "db_invariants_ok (build_dashboard now_t window db)
    \<and> db_budgets_checked (build_dashboard now_t window db) = length (budgets db)
    \<and> (\<forall>g \<in> set (db_gauges (build_dashboard now_t window db)).
        mg_total g = mg_committed g + mg_leased g + mg_allocated g + mg_available g \<and> 0 \<le> mg_available g
        \<and> mg_leased g = mg_lease_granted g - mg_lease_settled g
        \<and> 0 \<le> spend_fraction g \<and> spend_fraction g \<le> 1 \<and> 0 \<le> lease_utilization g \<and> lease_utilization g \<le> 1)"
proof (intro conjI ballI)
  have bk: "books db" using assms by (rule reachable_books)
  have "report_holds (check_in_session db) \<and> budgets_checked (check_in_session db) = length (budgets db)"
    using booksD[OF bk] check_holds_iff
    by (simp add: check_in_session_def sweep_def Let_def db_ok_def list_all_iff)
  then show "db_invariants_ok (build_dashboard now_t window db)"
    "db_budgets_checked (build_dashboard now_t window db) = length (budgets db)"
    by (simp_all add: build_dashboard_def Let_def report_holds_def)
  fix g assume "g \<in> set (db_gauges (build_dashboard now_t window db))"
  then obtain b where b: "b \<in> set (budgets db)" and g: "g = gauge_of db b" by (auto simp: build_dashboard_def Let_def)
  have ck: "ck_budgets_invariant b" and bal: "budget_balanced db b"
    using booksD[OF bk] b by (auto simp: db_ok_def list_all_iff)
  have ls: "0 \<le> lr_settled l \<and> lr_settled l \<le> lr_granted l" if "l \<in> set (active_leases db (br_id b))" for l
    using booksD(1)[OF bk] that by (auto simp: db_ok_def list_all_iff ck_leases_outstanding_def active_leases_def)
  show "mg_total g = mg_committed g + mg_leased g + mg_allocated g + mg_available g" "0 \<le> mg_available g"
    using ck by (simp_all add: g gauge_of_def Let_def available_def ck_budgets_invariant_def)
  show "mg_leased g = mg_lease_granted g - mg_lease_settled g"
    using bal by (simp add: g gauge_of_def Let_def budget_balanced_def active_leases_total)
  have "0 \<le> br_committed b" "br_committed b \<le> br_total b" using ck by (simp_all add: ck_budgets_invariant_def)
  then show "0 \<le> spend_fraction g" "spend_fraction g \<le> 1"
    using ratio_unit by (simp_all add: spend_fraction_def g gauge_of_def Let_def)
  show "0 \<le> lease_utilization g" "lease_utilization g \<le> 1"
    using ratio_unit sums_between[OF ls] by (simp_all add: lease_utilization_def g gauge_of_def Let_def)
qed

section \<open>Witnesses\<close>

definition demo_decision :: "int \<Rightarrow> pvalue \<Rightarrow> audit_row" where
  "demo_decision n depth =
     \<lparr>ar_seq = n, ar_decision_id = nat n, ar_record = PyMap [(''outcome'', PyStr ''deny''), (''depth'', depth)],
      ar_prev_hash = None, ar_record_hash = [], ar_created_at = 0\<rparr>"

definition demo_rows :: "audit_row list" where
  "demo_rows = [demo_decision 1 (PyInt 0), demo_decision 2 (PyStr ''deep''), demo_decision 3 (PyInt 1)]"

lemma demo_rows_sorted: "sorted_wrt (<) (map ar_seq demo_rows)" "sorted_wrt (<) (map ar_seq (take 1 demo_rows))"
  by (simp_all add: demo_rows_def demo_decision_def)

lemma demo_first_page:
  "\<exists>s. poll (\<lambda>_. []) 0 no_filter 1 (stream_from 0 demo_rows) = Inr s \<and> str_cursor s = 1 \<and> length (str_seen s) = 1
     \<and> str_rows s = demo_rows"
proof -
  have "(case poll (\<lambda>_. []) 0 no_filter 1 (stream_from 0 demo_rows) of
      Inr s \<Rightarrow> str_cursor s = 1 \<and> length (str_seen s) = 1 \<and> str_rows s = demo_rows | _ \<Rightarrow> False)" by code_simp
  then show ?thesis by (auto split: sum.splits)
qed

lemma demo_stream_run:
  "poll (\<lambda>_. []) 0 no_filter 1 (stream_from 0 demo_rows) = Inr s
    \<Longrightarrow> stream_run (\<lambda>_. []) 0 no_filter 1 (stream_from 0 demo_rows) s"
  by (intro stream_run.onward[OF stream_run.here] stream_step.polled)

theorem stream_loses_nothing_witness:
  "\<exists>(s :: stream) read. str_cursor s = 1 \<and> length (str_seen s) = 1
     \<and> pending no_filter 0 demo_rows = read @ pending no_filter 1 demo_rows
     \<and> traverseE (project_record (\<lambda>_. []) 0) read = Inr (str_seen s)"
proof -
  obtain s where s: "poll (\<lambda>_. []) 0 no_filter 1 (stream_from 0 demo_rows) = Inr s" "str_cursor s = 1"
    "length (str_seen s) = 1" "str_rows s = demo_rows" using demo_first_page by blast
  obtain read where "pending no_filter 0 demo_rows = read @ pending no_filter 1 demo_rows"
    "traverseE (project_record (\<lambda>_. []) 0) read = Inr (str_seen s)"
    using stream_loses_nothing[OF demo_stream_run[OF s(1)] demo_rows_sorted(1)] unfolding s(2,4) by blast
  then show ?thesis using s(2,3) by blast
qed

theorem reader_catches_up_witness:
  "\<exists>es s. length es = 1 \<and> polls (\<lambda>_. []) 0 no_filter 5 (length es) (stream_from 0 (take 1 demo_rows)) = Inr s \<and> str_seen s = es"
proof -
  have "(case traverseE (project_record (\<lambda>_. []) 0) (pending no_filter 0 (take 1 demo_rows)) of
      Inr es \<Rightarrow> length es = 1 | _ \<Rightarrow> False)" by code_simp
  then obtain es where "traverseE (project_record (\<lambda>_. []) 0) (pending no_filter 0 (take 1 demo_rows)) = Inr es" "length es = 1"
    by (auto split: sum.splits)
  then show ?thesis using reader_catches_up[OF demo_rows_sorted(2), of 5 no_filter] 
    by (simp add: matches_nothing_def no_filter_def) metis
qed

theorem malformed_record_holds_the_stream_witness:
  "\<exists>s. stream_run (\<lambda>_. []) 0 no_filter 1 (stream_from 0 demo_rows) s \<and> str_cursor s = 1 \<and> str_cursor s < 2"
proof -
  obtain s where s: "poll (\<lambda>_. []) 0 no_filter 1 (stream_from 0 demo_rows) = Inr s" "str_cursor s = 1"
    using demo_first_page by blast
  let ?r = "demo_decision 2 (PyStr ''deep'')"
  have "\<not> is_ok (project_record (\<lambda>_. []) 0 ?r)" by code_simp
  then obtain e where e: "project_record (\<lambda>_. []) 0 ?r = Inl e" by (cases "project_record (\<lambda>_. []) 0 ?r") auto
  have "?r \<in> set demo_rows" "0 < ar_seq ?r" "matches no_filter ?r"
    by (simp_all add: demo_rows_def demo_decision_def matches_def no_filter_def)
  then show ?thesis
    using malformed_record_holds_the_stream[OF demo_stream_run[OF s(1)] demo_rows_sorted(1) _ _ _ e] demo_stream_run[OF s(1)] s(2)
    by (auto simp: demo_decision_def)
qed

theorem dashboard_of_the_books_witness:
  "db_invariants_ok (build_dashboard 0 60 demo_leased) \<and> length (db_gauges (build_dashboard 0 60 demo_leased)) = 1"
proof -
  have "length (db_gauges (build_dashboard 0 60 demo_leased)) = 1" by code_simp
  then show ?thesis using dashboard_of_the_books[OF demo_reachable(2), of 0 60] by simp
qed

end
