(* ===== verification/Explorer.thy ===== *)
theory Explorer
  imports Console
begin

text \<open>
  The audit explorer and the scrape: \<open>db/audit_search.py\<close>, the custody narrative of
  \<open>audit_api.py\<close> over \<open>custody\<close> of \<open>AuditChain\<close>, \<open>db/decision_metrics.py\<close> and the decision
  gauge of \<open>metrics_api.py\<close>.  A grouped query is taken to answer its groups in the order of
  their first rows.
\<close>

section \<open>Search\<close>

record audit_search_filter =
  sf_decision_id :: "uuid option"
  sf_task_id :: "uuid option"
  sf_agent_id :: "string option"
  sf_principal_id :: "string option"
  sf_scope :: "string option"
  sf_outcome :: "string option"

record audit_search_result =
  sr_events :: "decision_event list"
  sr_total :: nat

definition MAX_LIMIT :: nat where "MAX_LIMIT = 200"

definition text_condition :: "audit_row \<Rightarrow> string option \<Rightarrow> string \<Rightarrow> bool" where
  "text_condition row want k = within_opt (\<lambda>v. sql_text (rec_get (ar_record row) k) = Some v) want"

definition search_matches :: "audit_search_filter \<Rightarrow> audit_row \<Rightarrow> bool" where
  "search_matches f row =
     (within_opt (\<lambda>d. ar_decision_id row = d) (sf_decision_id f)
      \<and> text_condition row (map_option uuid_str (sf_task_id f)) ''task_id''
      \<and> text_condition row (sf_agent_id f) ''agent_id''
      \<and> text_condition row (sf_principal_id f) ''principal_id''
      \<and> text_condition row (sf_scope f) ''scope''
      \<and> text_condition row (sf_outcome f) ''outcome'')"

definition hits :: "audit_search_filter \<Rightarrow> audit_row list \<Rightarrow> audit_row list" where
  "hits f rows = rev (sort_key ar_seq (filter (search_matches f) rows))"

definition search ::
  "(pvalue \<Rightarrow> string) \<Rightarrow> int \<Rightarrow> audit_search_filter \<Rightarrow> nat \<Rightarrow> nat \<Rightarrow> audit_row list \<Rightarrow> audit_search_result py" where
  "search repr fint f limit offset rows =
     bindE (traverseE (project_record repr fint) (take (min limit MAX_LIMIT) (drop offset (hits f rows)))) (\<lambda>es.
       Inr \<lparr>sr_events = es, sr_total = length (hits f rows)\<rparr>)"

section \<open>Custody\<close>

record narrative_entry =
  ne_seq :: int
  ne_decision_id :: pvalue
  ne_timestamp :: pvalue
  ne_principal_id :: pvalue
  ne_agent_id :: string
  ne_depth :: int
  ne_scope :: string
  ne_tool_id :: pvalue
  ne_outcome :: string
  ne_reason_code :: string
  ne_elevated_by :: pvalue
  ne_explanation :: string

definition narrate :: "(pvalue \<Rightarrow> string) \<Rightarrow> int \<Rightarrow> int \<times> pvalue \<Rightarrow> narrative_entry py" where
  "narrate repr fint e =
     (let r = snd e in
      bindE (py_int_of fint (get_or r ''depth'' (PyInt 0))) (\<lambda>depth.
        Inr \<lparr>ne_seq = fst e, ne_decision_id = get_or r ''decision_id'' PyNone, ne_timestamp = get_or r ''timestamp'' PyNone,
             ne_principal_id = get_or r ''principal_id'' PyNone, ne_agent_id = str_field repr r ''agent_id'',
             ne_depth = depth, ne_scope = str_field repr r ''scope'', ne_tool_id = get_or r ''tool_id'' PyNone,
             ne_outcome = str_field repr r ''outcome'', ne_reason_code = str_field repr r ''reason_code'',
             ne_elevated_by = get_or r ''elevated_by'' PyNone, ne_explanation = explain repr r\<rparr>))"

definition principals_of :: "(pvalue \<Rightarrow> string) \<Rightarrow> narrative_entry list \<Rightarrow> string list" where
  "principals_of repr es =
     sort (remdups (map (\<lambda>e. py_str repr (ne_principal_id e)) (filter (\<lambda>e. ne_principal_id e \<noteq> PyNone) es)))"

text \<open>404 without a record of the task.\<close>

definition get_custody ::
  "(pvalue \<Rightarrow> string) \<Rightarrow> int \<Rightarrow> uuid \<Rightarrow> audit_db \<Rightarrow> (nat + string list \<times> narrative_entry list) py" where
  "get_custody repr fint t db =
     bindE (traverseE (narrate repr fint) (custody t db)) (\<lambda>es.
       if es = [] then Inr (Inl 404) else Inr (Inr (principals_of repr es, es)))"

section \<open>Counts\<close>

record outcome_count =
  oc_outcome :: string
  oc_reason_code :: string
  oc_count :: nat

definition outcome_key :: "audit_row \<Rightarrow> string option \<times> string option" where
  "outcome_key row = (sql_text (rec_get (ar_record row) ''outcome''), sql_text (rec_get (ar_record row) ''reason_code''))"

definition text_or :: "string option \<Rightarrow> string \<Rightarrow> string" where
  "text_or v d = (case v of None \<Rightarrow> d | Some s \<Rightarrow> or_text s d)"

definition count_by_outcome_reason :: "audit_row list \<Rightarrow> outcome_count list" where
  "count_by_outcome_reason rows =
     map (\<lambda>k. \<lparr>oc_outcome = text_or (fst k) ''unknown'', oc_reason_code = text_or (snd k) ''UNKNOWN'',
               oc_count = length (filter (\<lambda>r. outcome_key r = k) rows)\<rparr>)
       (remdups (map outcome_key rows))"

text \<open>\<open>decisions_total.labels(...).set(count)\<close>, group by group.\<close>

definition decisions_total :: "audit_row list \<Rightarrow> ((string \<times> string) \<times> nat) list" where
  "decisions_total rows =
     fold (\<lambda>c m. AList.update (oc_outcome c, oc_reason_code c) (oc_count c) m) (count_by_outcome_reason rows) []"

section \<open>Search shows every hit\<close>

lemma traverse_slice:
  "traverseE g xs = Inr ys \<Longrightarrow> traverseE g (take n (drop k xs)) = Inr (take n (drop k ys))"
  by (simp add: traverseE_Inr_iff list_all2_takeI list_all2_dropI)

lemma pages_cover: "0 < n \<Longrightarrow> length xs \<le> m * n \<Longrightarrow> concat (map (\<lambda>k. take n (drop (k * n) xs)) [0..<m]) = xs"
proof (induction m arbitrary: xs)
  case (Suc m)
  have "concat (map (\<lambda>k. take n (drop (k * n) xs)) [0..<Suc m])
      = take n xs @ concat (map (\<lambda>k. take n (drop (Suc k * n) xs)) [0..<m])"
    by (simp only: upt_conv_Cons[of 0 "Suc m"] map_Suc_upt[symmetric] map_map comp_def zero_less_Suc list.map concat.simps) simp
  also have "\<dots> = take n xs @ concat (map (\<lambda>k. take n (drop (k * n) (drop n xs))) [0..<m])"
    by (simp add: add.commute)
  also have "\<dots> = xs" using Suc.IH[of "drop n xs"] Suc.prems by simp
  finally show ?case .
qed simp

text \<open>
  Walking the pages of a search, of any size the route admits, shows every record that matches,
  newest first and none twice, and each page carries the number of all hits.
\<close>
theorem search_pages_cover_hits:
  assumes "traverseE (project_record repr fint) (hits f rows) = Inr es" "0 < n" "n \<le> MAX_LIMIT" "length es \<le> m * n"
  shows "\<exists>pages. traverseE (\<lambda>k. search repr fint f n (k * n) rows) [0..<m] = Inr pages
    \<and> concat (map sr_events pages) = es \<and> map ev_seq es = map ar_seq (hits f rows)"
proof -
  have len: "length (hits f rows) = length es" using assms(1) by (simp add: traverseE_Inr_iff list_all2_lengthD)
  let ?page = "\<lambda>k. \<lparr>sr_events = take n (drop (k * n) es), sr_total = length es\<rparr>"
  have "search repr fint f n k rows = Inr \<lparr>sr_events = take n (drop k es), sr_total = length es\<rparr>" for k
    using traverse_slice[OF assms(1)] assms(3) by (simp add: search_def min_def len)
  then have "traverseE (\<lambda>k. search repr fint f n (k * n) rows) [0..<m] = Inr (map ?page [0..<m])"
    by (simp add: traverseE_Inr_iff list_all2_map2 list_all2_same)
  moreover have "concat (map sr_events (map ?page [0..<m])) = es"
    using pages_cover[OF assms(2,4)] by (simp add: comp_def)
  moreover have "map ev_seq es = map ar_seq (hits f rows)"
  proof -
    have "list_all2 (\<lambda>r e. ar_seq r = ev_seq e) (hits f rows) es"
      using assms(1) unfolding traverseE_Inr_iff by (rule list.rel_mono_strong) (simp add: projected_seq)
    then show ?thesis by (induction rule: list_all2_induct) simp_all
  qed
  ultimately show ?thesis by blast
qed

section \<open>Custody names everyone\<close>

text \<open>
  The custody of a task tells each of its records once, in the order of the chain, with an explanation
  that is never empty, and leads with exactly the principals those records name; a task without records
  is a 404.
\<close>
theorem custody_names_everyone:
  assumes "get_custody repr fint t db = Inr res"
  shows "(custody t db = [] \<longrightarrow> res = Inl 404)
    \<and> (custody t db \<noteq> [] \<longrightarrow> (\<exists>who es. res = Inr (who, es) \<and> map ne_seq es = map fst (custody t db)
        \<and> (\<forall>e \<in> set es. ne_explanation e \<noteq> [])
        \<and> set who = (\<lambda>r. py_str repr (get_or r ''principal_id'' PyNone))
            ` {r. r \<in> snd ` set (custody t db) \<and> get_or r ''principal_id'' PyNone \<noteq> PyNone}))"
proof -
  obtain es where es: "traverseE (narrate repr fint) (custody t db) = Inr es"
    and res: "res = (if es = [] then Inl 404 else Inr (principals_of repr es, es))"
    using assms by (auto simp: get_custody_def split: if_splits)
  have l: "list_all2 (\<lambda>c e. narrate repr fint c = Inr e) (custody t db) es" using es by (simp add: traverseE_Inr_iff)
  have n: "ne_seq e = fst c \<and> ne_principal_id e = get_or (snd c) ''principal_id'' PyNone \<and> ne_explanation e \<noteq> []"
    if "narrate repr fint c = Inr e" for c e
    using that explanation_names_the_caveat[of repr "snd c"] by (auto simp: narrate_def Let_def)
  have "list_all2 (\<lambda>c e. fst c = ne_seq e \<and> get_or (snd c) ''principal_id'' PyNone = ne_principal_id e \<and> ne_explanation e \<noteq> [])
      (custody t db) es"
    using l by (rule list.rel_mono_strong) (simp add: n)
  then have "map fst (custody t db) = map ne_seq es"
    and "map (\<lambda>c. get_or (snd c) ''principal_id'' PyNone) (custody t db) = map ne_principal_id es"
    and "\<forall>e \<in> set es. ne_explanation e \<noteq> []"
    by (induction rule: list_all2_induct) simp_all
  note facts = this
  have "set (principals_of repr es) = py_str repr ` {p. p \<in> set (map ne_principal_id es) \<and> p \<noteq> PyNone}"
    by (auto simp: principals_of_def)
  also have "\<dots> = (\<lambda>r. py_str repr (get_or r ''principal_id'' PyNone))
      ` {r. r \<in> snd ` set (custody t db) \<and> get_or r ''principal_id'' PyNone \<noteq> PyNone}"
    unfolding facts(2)[symmetric] by force
  finally have who: "set (principals_of repr es) = \<dots>" .
  have "es = [] \<longleftrightarrow> custody t db = []" using facts(1) by (metis map_is_Nil_conv)
  then show ?thesis using res facts(1,3) who by auto
qed

section \<open>The counts add up\<close>

lemma sum_of_groups:
  assumes "finite S" "k ` set xs \<subseteq> S"
  shows "(\<Sum>g \<in> S. length (filter (\<lambda>x. k x = g) xs)) = length xs"
  using assms(2)
proof (induction xs)
  case (Cons x xs)
  have "(\<Sum>g \<in> S. length (filter (\<lambda>y. k y = g) (x # xs)))
      = (\<Sum>g \<in> S. (if k x = g then 1 else 0) + length (filter (\<lambda>y. k y = g) xs))"
    by (intro sum.cong) simp_all
  then show ?case using Cons assms(1) by (simp add: sum.distrib)
qed simp

text \<open>The counts of all groups add up to the number of records.\<close>

theorem outcome_counts_add_up: "sum_list (map oc_count (count_by_outcome_reason rows)) = length rows"
  using sum_of_groups[of "set (map outcome_key rows)" outcome_key rows]
  by (simp add: count_by_outcome_reason_def comp_def sum_list_distinct_conv_sum_set)

text \<open>
  The scrape does not: a record without an outcome and one whose outcome is the word \<open>unknown\<close> are two
  groups with one label, and the gauge keeps the count of one of them.
\<close>
theorem unlabelled_counts_overwritten:
  "\<exists>rows. sum_list (map oc_count (count_by_outcome_reason rows)) = 3 \<and> map snd (decisions_total rows) = [1]"
proof -
  let ?row = "\<lambda>n r. \<lparr>ar_seq = n, ar_decision_id = 0, ar_record = PyMap r, ar_prev_hash = None, ar_record_hash = [], ar_created_at = 0\<rparr>"
  let ?rows = "[?row 1 [], ?row 2 [], ?row 3 [(''outcome'', PyStr ''unknown'')]]"
  have "map snd (decisions_total ?rows) = [1]" by code_simp
  then show ?thesis using outcome_counts_add_up[of ?rows] by (intro exI[of _ ?rows]) simp
qed

section \<open>Witnesses\<close>

definition everything :: audit_search_filter where
  "everything = \<lparr>sf_decision_id = None, sf_task_id = None, sf_agent_id = None, sf_principal_id = None, sf_scope = None, sf_outcome = None\<rparr>"

definition three_rows :: "audit_row list" where
  "three_rows = map (\<lambda>n. demo_decision n (PyInt 0)) [1, 2, 3]"

theorem search_pages_cover_hits_witness:
  "\<exists>pages. traverseE (\<lambda>k. search (\<lambda>_. []) 0 everything 2 (k * 2) three_rows) [0..<2] = Inr pages
     \<and> map ev_seq (concat (map sr_events pages)) = [3, 2, 1]"
proof -
  have "(case traverseE (project_record (\<lambda>_. []) 0) (hits everything three_rows) of Inr es \<Rightarrow> length es = 3 | _ \<Rightarrow> False)"
    by code_simp
  then obtain es where es: "traverseE (project_record (\<lambda>_. []) 0) (hits everything three_rows) = Inr es" "length es \<le> 2 * 2"
    by (auto split: sum.splits)
  have "map ar_seq (hits everything three_rows) = [3, 2, 1]" by code_simp
  then show ?thesis using search_pages_cover_hits[OF es(1) _ _ es(2)] by (auto simp: MAX_LIMIT_def)
qed

definition told_audit :: audit_db where
  "told_audit = \<lparr>ad_rows = map (\<lambda>n. \<lparr>ar_seq = n, ar_decision_id = nat n,
      ar_record = PyMap [(''task_id'', PyStr (uuid_str 7)), (''principal_id'', PyStr ''alice''), (''outcome'', PyStr ''deny'')],
      ar_prev_hash = None, ar_record_hash = [], ar_created_at = 0\<rparr>) [1, 2], ad_head = None\<rparr>"

theorem custody_names_everyone_witness:
  "\<exists>es. get_custody (\<lambda>_. []) 0 7 told_audit = Inr (Inr ([''alice''], es)) \<and> map ne_seq es = [1, 2]"
proof -
  have "(case get_custody (\<lambda>_. []) 0 7 told_audit of Inr (Inr (who, _)) \<Rightarrow> who = [''alice''] | _ \<Rightarrow> False)" by code_simp
  then obtain es where es: "get_custody (\<lambda>_. []) 0 7 told_audit = Inr (Inr ([''alice''], es))"
    by (auto split: sum.splits prod.splits)
  have "map fst (custody 7 told_audit) = [1, 2]" by code_simp
  then show ?thesis using custody_names_everyone[OF es] es by auto
qed

end
