(* ===== verification/Sdk.thy ===== *)
theory Sdk
  imports Tasks
begin

text \<open>
  The client library of an agent: \<open>agentiam_sdk/identity.py\<close> (the grant folded against the caveats
  the holder knows), \<open>client.py\<close> (verify, delegate, headers), \<open>context.py\<close> (which identity is
  current) and \<open>decorators.py\<close> (the local scope check).

  A constructor verifies at the instant its clock gives, so each reading of the clock is an
  argument.  The size warning, the conversion of budget values by pydantic and the thread-pool
  helpers, which install and remove a scope around one call, are not modelled.
\<close>

section \<open>Identity\<close>

record 'b agent_identity =
  id_token :: string
  id_verified :: "'b verified_token"
  id_agent_id :: string
  id_role :: string
  id_known_caveats :: "caveat list"
  id_authority :: effective_authority
  id_budget :: budget

definition or_bound :: "('a \<Rightarrow> 'a \<Rightarrow> 'a) \<Rightarrow> 'a \<Rightarrow> 'a option \<Rightarrow> 'a" where
  "or_bound f g b = (case b of None \<Rightarrow> g | Some v \<Rightarrow> f g v)"

definition fold_grant :: "'b verified_token \<Rightarrow> budget \<Rightarrow> effective_authority \<Rightarrow> effective_authority" where
  "fold_grant grant b bound =
     bound\<lparr>ea_scopes := Some (or_bound (\<inter>) (vt_scopes grant) (ea_scopes bound)),
           ea_max_depth := Some (or_bound min (vt_max_depth grant) (ea_max_depth bound)),
           ea_intent_hash := Some (or_bound (\<lambda>_ h. h) (vt_intent_hash grant) (ea_intent_hash bound)),
           ea_not_before := Some (or_bound max (vt_not_before grant) (ea_not_before bound)),
           ea_not_after := Some (or_bound min (vt_expires_at grant) (ea_not_after bound)),
           ea_budget := (\<lambda>d. Some (budget_get b d))\<rparr>"

definition mk_identity ::
  "string \<Rightarrow> 'b verified_token \<Rightarrow> string \<Rightarrow> string \<Rightarrow> caveat list \<Rightarrow> 'b agent_identity py" where
  "mk_identity tok grant agent_id role known =
     (let bound = effective_bound known in
      bindE (effective_budget known (vt_budget grant)) (\<lambda>b.
        Inr \<lparr>id_token = tok, id_verified = grant, id_agent_id = agent_id, id_role = role,
             id_known_caveats = known, id_authority = fold_grant grant b bound, id_budget = b\<rparr>))"

text \<open>The scopes of a constructed identity are never \<open>None\<close>.\<close>

definition id_scopes :: "'b agent_identity \<Rightarrow> string set" where
  "id_scopes i = (case ea_scopes (id_authority i) of Some S \<Rightarrow> S | None \<Rightarrow> {})"

definition id_granted_scopes :: "'b agent_identity \<Rightarrow> string set" where
  "id_granted_scopes i = vt_scopes (id_verified i)"

definition id_depth :: "'b agent_identity \<Rightarrow> int" where
  "id_depth i = vt_depth (id_verified i)"

definition id_expires_at :: "'b agent_identity \<Rightarrow> instant" where
  "id_expires_at i = (case ea_not_after (id_authority i) of Some t \<Rightarrow> t | None \<Rightarrow> vt_expires_at (id_verified i))"

section \<open>Client\<close>

record ('b, 'k) agentiam =
  ai_identity :: "'b agent_identity"
  ai_key_set :: "'k list"
  ai_task_intent :: "string option"

text \<open>\<open>x or default\<close> of an optional text.\<close>

definition text_default :: "string option \<Rightarrow> string \<Rightarrow> string" where
  "text_default v d = (case v of None \<Rightarrow> d | Some s \<Rightarrow> if s = [] then d else s)"

definition mk_agentiam ::
  "('b, 'k) biscuit_lib \<Rightarrow> instant \<Rightarrow> string \<Rightarrow> 'k list \<Rightarrow> string \<Rightarrow> string option \<Rightarrow> caveat list \<Rightarrow> string option
    \<Rightarrow> ('b, 'k) agentiam py" where
  "mk_agentiam lib now_t tok key_set role agent_id known task_intent =
     bindE (verify lib tok key_set (Aware now_t)) (\<lambda>grant.
     bindE (mk_identity tok grant (text_default agent_id (''agent:'' @ uuid_str (vt_mandate_id grant))) role known) (\<lambda>i.
       Inr \<lparr>ai_identity = i, ai_key_set = key_set, ai_task_intent = task_intent\<rparr>))"

definition headers :: "('b, 'k) agentiam \<Rightarrow> string option \<Rightarrow> (string \<times> string) list" where
  "headers c action_intent =
     (let optional = (\<lambda>k v. case v of None \<Rightarrow> [] | Some s \<Rightarrow> if s = [] then [] else [(k, s)]) in
      (''Authorization'', ''Bearer '' @ id_token (ai_identity c))
      # optional ''AgentIAM-Task-Intent'' (ai_task_intent c) @ optional ''AgentIAM-Action-Intent'' action_intent)"

record delegation =
  dr_scopes :: "string set option"
  dr_budget :: "(string \<times> decimal) list option"
  dr_ttl_s :: "int option"
  dr_tools_allow :: "string set option"
  dr_tools_deny :: "string set option"

definition when_given :: "'a option \<Rightarrow> ('a \<Rightarrow> (caveat list) py) \<Rightarrow> (caveat list) py" where
  "when_given v f = (case v of None \<Rightarrow> Inr [] | Some x \<Rightarrow> f x)"

definition one_caveat :: "caveat \<Rightarrow> (caveat list) py" where
  "one_caveat c = bindE (mk_caveat c) (\<lambda>c. Inr [c])"

definition keyword_caveats :: "instant \<Rightarrow> delegation \<Rightarrow> (caveat list) py" where
  "keyword_caveats now_t dr =
     bindE (when_given (dr_scopes dr) (\<lambda>S. one_caveat (ScopeSubset S))) (\<lambda>a.
     bindE (when_given (dr_budget dr) (traverseE (\<lambda>(k, v). bindE (dimension_of_value k) (\<lambda>d. mk_caveat (BudgetCeiling d v))))) (\<lambda>b.
     bindE (when_given (dr_ttl_s dr) (\<lambda>s. if s \<le> 0 then Inl ValueError else one_caveat (TimeWindow None (Some (now_t + seconds s))))) (\<lambda>c.
     bindE (when_given (dr_tools_allow dr) (\<lambda>S. one_caveat (ToolAllow S))) (\<lambda>d.
     bindE (when_given (dr_tools_deny dr) (\<lambda>S. one_caveat (ToolDeny S))) (\<lambda>e.
       Inr (a @ b @ c @ d @ e))))))"

text \<open>\<open>AgentIAM.attenuate\<close>, with one reading of the clock for the window and one for the child.\<close>

definition delegate ::
  "('b, 'k) biscuit_lib \<Rightarrow> instant \<Rightarrow> instant \<Rightarrow> string \<Rightarrow> string option \<Rightarrow> delegation \<Rightarrow> caveat list \<Rightarrow> ('b, 'k) agentiam
    \<Rightarrow> ('b, 'k) agentiam py" where
  "delegate lib now_t now_v role agent_id dr caveats c =
     bindE (keyword_caveats now_t dr) (\<lambda>kws.
       let proposed = kws @ caveats; parent = ai_identity c; grant = id_verified parent in
       if proposed = [] then Inl ValueError
       else if id_depth parent + 1 > vt_max_depth grant then Inl DepthExceededError
       else
         let child_id = text_default agent_id (''agent:'' @ uuid_str (vt_mandate_id grant) @ '':'' @ int_str (id_depth parent + 1)) in
         bindE (attenuate lib grant proposed child_id role (id_known_caveats parent)) (\<lambda>tok.
           mk_agentiam lib now_v tok (ai_key_set c) role (Some child_id) (id_known_caveats parent @ proposed) (ai_task_intent c)))"

section \<open>The current identity\<close>

datatype sdk_error = NoIdentityError | IdentityContextError | ScopeDeniedError reason_code "string set"

text \<open>
  Each context (a thread, a task) has its own value of the variable.  A scope object remembers, while
  it is active, the context it was entered in and the value it replaced.
\<close>

record 'i ambient =
  am_current :: "nat \<Rightarrow> 'i option"
  am_scopes :: "nat \<Rightarrow> (nat \<times> 'i option) option"

definition current_identity :: "nat \<Rightarrow> 'i ambient \<Rightarrow> sdk_error + 'i" where
  "current_identity x am = (case am_current am x of None \<Rightarrow> Inl NoIdentityError | Some i \<Rightarrow> Inr i)"

definition scope_enter :: "nat \<Rightarrow> nat \<Rightarrow> 'i \<Rightarrow> 'i ambient \<Rightarrow> sdk_error + 'i ambient" where
  "scope_enter x s i am =
     (if am_scopes am s \<noteq> None then Inl IdentityContextError
      else Inr (am\<lparr>am_current := (am_current am)(x := Some i), am_scopes := (am_scopes am)(s := Some (x, am_current am x))\<rparr>))"

text \<open>The scope forgets its token before the reset, which refuses another context.\<close>

definition scope_exit :: "nat \<Rightarrow> nat \<Rightarrow> 'i ambient \<Rightarrow> 'i ambient \<times> (sdk_error + unit)" where
  "scope_exit x s am =
     (case am_scopes am s of
        None \<Rightarrow> (am, Inr ())
      | Some (y, before) \<Rightarrow>
          (let am' = am\<lparr>am_scopes := (am_scopes am)(s := None)\<rparr> in
           if y \<noteq> x then (am', Inl IdentityContextError)
           else (am'\<lparr>am_current := (am_current am)(x := before)\<rparr>, Inr ())))"

text \<open>A task copies the context it is created in.\<close>

definition fork_context :: "nat \<Rightarrow> nat \<Rightarrow> 'i ambient \<Rightarrow> 'i ambient" where
  "fork_context x y am = am\<lparr>am_current := (am_current am)(y := am_current am x)\<rparr>"

section \<open>The local scope check\<close>

definition requires_scope :: "string list \<Rightarrow> (string set) py" where
  "requires_scope scopes =
     (if scopes = [] then Inl ValueError
      else if list_ex (\<lambda>s. strip s = []) scopes then Inl ValueError
      else Inr (set scopes))"

definition check_scopes :: "string set \<Rightarrow> nat \<Rightarrow> 'b agent_identity ambient \<Rightarrow> sdk_error + unit" where
  "check_scopes required x am =
     bindE (current_identity x am) (\<lambda>i.
       let missing = required - id_scopes i; never = missing - id_granted_scopes i in
       if missing = {} then Inr ()
       else Inl (ScopeDeniedError (if never \<noteq> {} then SCOPE_NOT_GRANTED else SCOPE_ATTENUATED_AWAY) missing))"

section \<open>What the fold keeps\<close>

lemma fold_scopes:
  "within_opt (\<lambda>S. x \<in> S) (ea_scopes (fold fold_caveat cs ea)) \<longleftrightarrow>
     within_opt (\<lambda>S. x \<in> S) (ea_scopes ea) \<and> (\<forall>K. ScopeSubset K \<in> set cs \<longrightarrow> x \<in> K)"
proof (induction cs arbitrary: ea)
  case (Cons c cs)
  show ?case by (cases c) (auto simp: Cons.IH)
qed simp

lemma fold_budget:
  "within_opt (\<lambda>w. v \<le> w) (ea_budget (fold fold_caveat cs ea) d) \<longleftrightarrow>
     within_opt (\<lambda>w. v \<le> w) (ea_budget ea d) \<and> (\<forall>w. BudgetCeiling d w \<in> set cs \<longrightarrow> v \<le> w)"
proof (induction cs arbitrary: ea)
  case (Cons c cs)
  show ?case by (cases c) (auto simp: Cons.IH)
qed simp

lemma fold_not_after:
  "within_opt (\<lambda>t'. t \<le> t') (ea_not_after (fold fold_caveat cs ea)) \<longleftrightarrow>
     within_opt (\<lambda>t'. t \<le> t') (ea_not_after ea) \<and> (\<forall>nb t'. TimeWindow nb (Some t') \<in> set cs \<longrightarrow> t \<le> t')"
proof (induction cs arbitrary: ea)
  case (Cons c cs)
  show ?case by (cases c) (auto simp: Cons.IH split: option.split)
qed simp

lemma or_bound_in: "x \<in> or_bound (\<inter>) G b \<longleftrightarrow> x \<in> G \<and> within_opt (\<lambda>S. x \<in> S) b"
  by (cases b) (auto simp: or_bound_def)

lemma or_bound_min: "(t :: 'a :: linorder) \<le> or_bound min g b \<longleftrightarrow> t \<le> g \<and> within_opt (\<lambda>t'. t \<le> t') b"
  by (cases b) (auto simp: or_bound_def)

lemma from_scaled_get:
  assumes "budget_from_scaled vals = Inr b" "vals d = Some s"
  shows "budget_get b d * 10000 = of_int s"
proof -
  have count: "of_int n * 10000 = (of_int s :: decimal)" if "scaled_count vals d = Inr n" for n
    using that assms(2) by (auto simp: scaled_count_def BUDGET_SCALE_def whole_def Let_def split: if_splits)
  show ?thesis
    using assms count by (cases d) (auto simp: budget_from_scaled_def mk_budget_def BUDGET_SCALE_def split: if_splits)
qed

lemma effective_budget_spec:
  assumes "effective_budget cs start = Inr b"
  shows "v \<le> budget_get b d \<longleftrightarrow> v \<le> budget_get start d \<and> (\<forall>w. BudgetCeiling d w \<in> set cs \<longrightarrow> v \<le> w)"
proof -
  let ?f = "\<lambda>d. bindE (budget_scaled start d) (\<lambda>c. case ea_budget (effective_bound cs) d of
      None \<Rightarrow> Inr c | Some v \<Rightarrow> bindE (scale v) (\<lambda>s. Inr (min c s)))"
  obtain vals where vals: "scaled_dict ?f = Inr vals" and b: "budget_from_scaled vals = Inr b"
    using assms by (auto simp: effective_budget_def Let_def)
  obtain kvs where kvs: "traverseE (\<lambda>d. bindE (?f d) (\<lambda>v. Inr (d, v))) all_dimensions = Inr kvs" and m: "vals = map_of kvs"
    using vals by (auto simp: scaled_dict_def)
  have keys: "list_all2 (\<lambda>d kv. bindE (?f d) (\<lambda>v. Inr (d, v)) = Inr kv) all_dimensions kvs"
    using kvs by (simp add: traverseE_Inr_iff)
  have "\<exists>s. ?f d = Inr s" using traverseE_total[OF kvs, of d] by auto
  then obtain s where s: "?f d = Inr s" by blast
  have "map fst kvs = all_dimensions"
    using keys by (induction rule: list_all2_induct) auto
  then have dist: "distinct (map fst kvs)" by simp
  have "(d, s) \<in> set kvs" using traverseE_set[OF kvs, of "(d, s)"] s by auto
  then have "vals d = Some s" using dist m by simp
  then have g: "budget_get b d * 10000 = of_int s" by (rule from_scaled_get[OF b])
  obtain c where c: "budget_scaled start d = Inr c"
    and r: "(case ea_budget (effective_bound cs) d of None \<Rightarrow> Inr c | Some v \<Rightarrow> bindE (scale v) (\<lambda>s. Inr (min c s))) = Inr s"
    using s by auto
  have c': "budget_get start d * 10000 = of_int c" using c by (simp add: budget_scaled_def to_scaled_Inr_iff)
  have "v \<le> budget_get b d \<longleftrightarrow> v \<le> budget_get start d \<and> within_opt (\<lambda>w. v \<le> w) (ea_budget (effective_bound cs) d)"
  proof (cases "ea_budget (effective_bound cs) d")
    case None
    then have "budget_get b d * 10000 = budget_get start d * 10000" using r g c' by simp
    then have "budget_get b d = budget_get start d" by simp
    then show ?thesis by (simp add: None)
  next
    case (Some w)
    then obtain n where n: "w * 10000 = of_int n" "s = min c n" using r by (auto simp: scale_Inr_iff)
    then have "budget_get b d * 10000 = min (budget_get start d * 10000) (w * 10000)"
      using g c' by (simp add: of_int_min)
    then have "budget_get b d = min (budget_get start d) w" by (simp add: min_def split: if_splits)
    then show ?thesis by (simp add: Some)
  qed
  then show ?thesis by (simp add: effective_bound_def fold_budget unbounded_def)
qed

text \<open>An identity in terms of the grant and the caveats its holder knows.\<close>

definition identity_ok :: "'b agent_identity \<Rightarrow> bool" where
  "identity_ok i = (mk_identity (id_token i) (id_verified i) (id_agent_id i) (id_role i) (id_known_caveats i) = Inr i)"

lemma mk_identity_fields:
  assumes "mk_identity tok grant aid role known = Inr i"
  shows "id_token i = tok" "id_verified i = grant" "id_known_caveats i = known" "identity_ok i"
    "effective_budget known (vt_budget grant) = Inr (id_budget i)"
    "id_authority i = fold_grant grant (id_budget i) (effective_bound known)"
  using assms by (auto simp: mk_identity_def Let_def identity_ok_def)

lemma identity_scopes:
  assumes "identity_ok i"
  shows "x \<in> id_scopes i \<longleftrightarrow> x \<in> vt_scopes (id_verified i) \<and> (\<forall>K. ScopeSubset K \<in> set (id_known_caveats i) \<longrightarrow> x \<in> K)"
  using mk_identity_fields(6)[OF assms[unfolded identity_ok_def]]
  by (simp add: id_scopes_def fold_grant_def or_bound_in effective_bound_def fold_scopes unbounded_def)

lemma identity_budget:
  assumes "identity_ok i"
  shows "v \<le> budget_get (id_budget i) d \<longleftrightarrow>
    v \<le> budget_get (vt_budget (id_verified i)) d \<and> (\<forall>w. BudgetCeiling d w \<in> set (id_known_caveats i) \<longrightarrow> v \<le> w)"
  by (rule effective_budget_spec[OF mk_identity_fields(5)[OF assms[unfolded identity_ok_def]]])

lemma identity_expiry:
  assumes "identity_ok i"
  shows "t \<le> id_expires_at i \<longleftrightarrow>
    t \<le> vt_expires_at (id_verified i) \<and> (\<forall>nb t'. TimeWindow nb (Some t') \<in> set (id_known_caveats i) \<longrightarrow> t \<le> t')"
  using mk_identity_fields(6)[OF assms[unfolded identity_ok_def]]
  by (simp add: id_expires_at_def fold_grant_def or_bound_min effective_bound_def fold_not_after unbounded_def)

section \<open>Clients of one mandate\<close>

text \<open>
  The clients that can exist under a mandate: opened on a token of its chain, with whatever caveats
  the holder was told, or delegated by such a client.
\<close>

inductive sdk_client :: "('b, 'k) biscuit_lib \<Rightarrow> mandate \<Rightarrow> ('b, 'k) agentiam \<Rightarrow> bool" for lib m where
  opened: "token_of lib m depth tok \<Longrightarrow> mk_agentiam lib now_t tok keys role agent_id known intent = Inr c \<Longrightarrow> sdk_client lib m c"
| delegated: "sdk_client lib m c \<Longrightarrow> delegate lib now_t now_v role agent_id dr caveats c = Inr c' \<Longrightarrow> sdk_client lib m c'"

definition client_inv :: "('b, 'k) biscuit_lib \<Rightarrow> mandate \<Rightarrow> ('b, 'k) agentiam \<Rightarrow> bool" where
  "client_inv lib m c =
     (let i = ai_identity c in
      identity_ok i \<and> token_of lib m (id_depth i) (id_token i) \<and> id_depth i \<le> md_max_depth m
      \<and> id_verified i = granted_token lib m (vt_biscuit (id_verified i)) (id_token i)
      \<and> (\<exists>t. verify lib (id_token i) (ai_key_set c) (Aware t) = Inr (id_verified i)))"

lemma opened_inv:
  assumes lib: "keeps_authority lib" and m: "mandate_wf m" "finite (md_scopes m)" and tok: "token_of lib m depth tok"
    and c: "mk_agentiam lib now_t tok keys role agent_id known intent = Inr c"
  shows "client_inv lib m c" "id_known_caveats (ai_identity c) = known" "id_depth (ai_identity c) = depth"
proof -
  obtain vt aid i where v: "verify lib tok keys (Aware now_t) = Inr vt" and i: "mk_identity tok vt aid role known = Inr i"
    and c': "c = \<lparr>ai_identity = i, ai_key_set = keys, ai_task_intent = intent\<rparr>"
    using c by (auto simp: mk_agentiam_def)
  note f = mk_identity_fields[OF i]
  note g = token_verifies[OF lib m tok v]
  have d: "vt_depth vt = depth" "vt_max_depth vt = md_max_depth m"
    by (subst g(1), simp add: granted_token_def minted_token_def g(2))+
  have "vt_depth vt \<le> vt_max_depth vt" using verify_accepts[OF v] by auto
  then have "depth \<le> md_max_depth m" using d by simp
  then show "client_inv lib m c" using f g(1) tok v d by (auto simp: client_inv_def Let_def c' id_depth_def)
  show "id_known_caveats (ai_identity c) = known" "id_depth (ai_identity c) = depth" using f d by (simp_all add: c' id_depth_def)
qed

lemma delegate_Inr:
  assumes "delegate lib now_t now_v role agent_id dr caveats c = Inr c'"
  obtains kws tok aid where "keyword_caveats now_t dr = Inr kws"
    "attenuate lib (id_verified (ai_identity c)) (kws @ caveats) aid role (id_known_caveats (ai_identity c)) = Inr tok"
    "mk_agentiam lib now_v tok (ai_key_set c) role (Some aid) (id_known_caveats (ai_identity c) @ kws @ caveats) (ai_task_intent c) = Inr c'"
  using assms by (auto simp: delegate_def Let_def split: if_splits)

lemma delegated_inv:
  assumes lib: "keeps_authority lib" and m: "mandate_wf m" "finite (md_scopes m)" and c: "client_inv lib m c"
    and run: "delegate lib now_t now_v role agent_id dr caveats c = Inr c'"
  shows "client_inv lib m c'" "id_depth (ai_identity c') = id_depth (ai_identity c) + 1"
proof -
  obtain kws tok aid where
    a: "attenuate lib (id_verified (ai_identity c)) (kws @ caveats) aid role (id_known_caveats (ai_identity c)) = Inr tok"
    and c': "mk_agentiam lib now_v tok (ai_key_set c) role (Some aid) (id_known_caveats (ai_identity c) @ kws @ caveats) (ai_task_intent c) = Inr c'"
    using delegate_Inr[OF run] .
  obtain t where t: "token_of lib m (id_depth (ai_identity c)) (id_token (ai_identity c))"
    "verify lib (id_token (ai_identity c)) (ai_key_set c) (Aware t) = Inr (id_verified (ai_identity c))"
    using c by (auto simp: client_inv_def Let_def)
  note opened_inv[OF lib m child_token_of[OF lib m t a] c']
  then show "client_inv lib m c'" "id_depth (ai_identity c') = id_depth (ai_identity c) + 1" by blast+
qed

lemma sdk_client_inv:
  assumes "sdk_client lib m c" "keeps_authority lib" "mandate_wf m" "finite (md_scopes m)"
  shows "client_inv lib m c"
  using assms by (induction rule: sdk_client.induct) (blast intro: opened_inv(1) delegated_inv(1))+

lemma client_grant:
  assumes "client_inv lib m c"
  shows "vt_scopes (id_verified (ai_identity c)) = md_scopes m" "vt_budget (id_verified (ai_identity c)) = md_budget m"
    "vt_expires_at (id_verified (ai_identity c)) = seconds (md_expires_at m div 1000000)"
    "identity_ok (ai_identity c)"
proof -
  have g: "id_verified (ai_identity c) = granted_token lib m (vt_biscuit (id_verified (ai_identity c))) (id_token (ai_identity c))"
    using assms by (simp add: client_inv_def Let_def)
  show "vt_scopes (id_verified (ai_identity c)) = md_scopes m" "vt_budget (id_verified (ai_identity c)) = md_budget m"
    "vt_expires_at (id_verified (ai_identity c)) = seconds (md_expires_at m div 1000000)"
    by (subst g, simp add: granted_token_def minted_token_def)+
  show "identity_ok (ai_identity c)" using assms by (simp add: client_inv_def Let_def)
qed

lemma dimension_of_value_Inr: "dimension_of_value k = Inr d \<Longrightarrow> k = dimension_value d"
  by (auto simp: find_Some_iff split: option.splits)

text \<open>What the keyword forms put into the block.\<close>

lemma keyword_caveats_members:
  assumes "keyword_caveats now_t dr = Inr kws"
  shows "ScopeSubset K \<in> set kws \<longleftrightarrow> dr_scopes dr = Some K"
    "BudgetCeiling d v \<in> set kws \<longleftrightarrow> (\<exists>bs k. dr_budget dr = Some bs \<and> (k, v) \<in> set bs \<and> dimension_of_value k = Inr d)"
proof -
  obtain a b c d e where parts: "kws = a @ b @ c @ d @ e"
    "when_given (dr_scopes dr) (\<lambda>S. one_caveat (ScopeSubset S)) = Inr a"
    "when_given (dr_budget dr) (traverseE (\<lambda>(k, v). bindE (dimension_of_value k) (\<lambda>d. mk_caveat (BudgetCeiling d v)))) = Inr b"
    "when_given (dr_ttl_s dr) (\<lambda>s. if s \<le> 0 then Inl ValueError else one_caveat (TimeWindow None (Some (now_t + seconds s)))) = Inr c"
    "when_given (dr_tools_allow dr) (\<lambda>S. one_caveat (ToolAllow S)) = Inr d"
    "when_given (dr_tools_deny dr) (\<lambda>S. one_caveat (ToolDeny S)) = Inr e"
    using assms by (auto simp: keyword_caveats_def)
  have a: "a = (case dr_scopes dr of None \<Rightarrow> [] | Some S \<Rightarrow> [ScopeSubset S])"
    using parts(2) by (auto simp: when_given_def one_caveat_def mk_caveat_def split: option.splits if_splits)
  have c: "c = (case dr_ttl_s dr of None \<Rightarrow> [] | Some s \<Rightarrow> [TimeWindow None (Some (now_t + seconds s))])"
    using parts(4) by (auto simp: when_given_def one_caveat_def mk_caveat_def split: option.splits if_splits)
  have d: "d = (case dr_tools_allow dr of None \<Rightarrow> [] | Some S \<Rightarrow> [ToolAllow S])"
    using parts(5) by (auto simp: when_given_def one_caveat_def mk_caveat_def split: option.splits if_splits)
  have e: "e = (case dr_tools_deny dr of None \<Rightarrow> [] | Some S \<Rightarrow> [ToolDeny S])"
    using parts(6) by (auto simp: when_given_def one_caveat_def mk_caveat_def split: option.splits if_splits)
  have b: "x \<in> set b \<longleftrightarrow> (\<exists>bs k d v. dr_budget dr = Some bs \<and> (k, v) \<in> set bs \<and> dimension_of_value k = Inr d \<and> x = BudgetCeiling d v)" for x
  proof (cases "dr_budget dr")
    case None
    then show ?thesis using parts(3) by (simp add: when_given_def)
  next
    case (Some bs)
    then have t: "traverseE (\<lambda>(k, v). bindE (dimension_of_value k) (\<lambda>d. mk_caveat (BudgetCeiling d v))) bs = Inr b"
      using parts(3) by (simp add: when_given_def)
    have ok: "\<exists>d. dimension_of_value k = Inr d \<and> money v" if "(k, v) \<in> set bs" for k v
      using traverseE_total[OF t that] by (auto simp: mk_caveat_def split: if_splits)
    show ?thesis
    proof
      assume "x \<in> set b"
      then obtain k v where kv: "(k, v) \<in> set bs" "bindE (dimension_of_value k) (\<lambda>d. mk_caveat (BudgetCeiling d v)) = Inr x"
        unfolding traverseE_set[OF t] by auto
      then obtain d where "dimension_of_value k = Inr d" "x = BudgetCeiling d v" by (auto simp: mk_caveat_def split: if_splits)
      then show "\<exists>bs k d v. dr_budget dr = Some bs \<and> (k, v) \<in> set bs \<and> dimension_of_value k = Inr d \<and> x = BudgetCeiling d v"
        using Some kv(1) by blast
    next
      assume "\<exists>bs k d v. dr_budget dr = Some bs \<and> (k, v) \<in> set bs \<and> dimension_of_value k = Inr d \<and> x = BudgetCeiling d v"
      then obtain k d v where kv: "(k, v) \<in> set bs" "dimension_of_value k = Inr d" "x = BudgetCeiling d v" using Some by auto
      then have "(case (k, v) of (k, v) \<Rightarrow> bindE (dimension_of_value k) (\<lambda>d. mk_caveat (BudgetCeiling d v))) = Inr x"
        using ok[OF kv(1)] by (simp add: mk_caveat_def)
      then show "x \<in> set b" unfolding traverseE_set[OF t] using kv(1) by (rule bexI)
    qed
  qed
  show "ScopeSubset K \<in> set kws \<longleftrightarrow> dr_scopes dr = Some K"
    unfolding parts(1) by (auto simp: a b c d e split: option.splits)
  show "BudgetCeiling dd v \<in> set kws \<longleftrightarrow> (\<exists>bs k. dr_budget dr = Some bs \<and> (k, v) \<in> set bs \<and> dimension_of_value k = Inr dd)" for dd
    unfolding parts(1) by (auto simp: a b c d e split: option.splits)
qed

text \<open>The check against every ancestor, for the two restrictions that fold by value.\<close>

lemma proposed_within_ancestors:
  assumes "attenuate lib grant cs aid role known = Inr tok"
  shows "ScopeSubset S \<in> set cs \<Longrightarrow> S \<subseteq> vt_scopes grant \<and> (\<forall>K. ScopeSubset K \<in> set known \<longrightarrow> S \<subseteq> K)"
    "BudgetCeiling d v \<in> set cs \<Longrightarrow> v \<le> budget_get (vt_budget grant) d \<and> (\<forall>w. BudgetCeiling d w \<in> set known \<longrightarrow> v \<le> w)"
proof -
  obtain g where g: "traverseE mk_caveat (grant_caveats grant) = Inr g" "check_narrowing cs (g @ known) = Inr ()"
    using assms by (auto simp: attenuate_def)
  have chk: "check_narrowing cs (grant_caveats grant @ known) = Inr ()"
    using g traverse_mk_caveat[OF g(1)] by simp
  have nar: "narrows x y = Inr True" if "c \<in> set cs" "x \<in> set (atoms c)" "a \<in> set (grant_caveats grant) \<union> set known"
    "y \<in> set (atoms a)" "comparability_slot y = comparability_slot x" for c x a y
    using chk that unfolding check_narrowing_Inr_iff by fastforce
  have scope: "S \<subseteq> K" if "ScopeSubset S \<in> set cs" "ScopeSubset K \<in> set (grant_caveats grant) \<union> set known" for K
    using nar[OF that(1) _ that(2), of "ScopeSubset S" "ScopeSubset K"] by simp
  have ceiling: "v \<le> w" if "BudgetCeiling d v \<in> set cs" "BudgetCeiling d w \<in> set (grant_caveats grant) \<union> set known" for w
    using nar[OF that(1) _ that(2), of "BudgetCeiling d v" "BudgetCeiling d w"] by simp
  show "S \<subseteq> vt_scopes grant \<and> (\<forall>K. ScopeSubset K \<in> set known \<longrightarrow> S \<subseteq> K)" if "ScopeSubset S \<in> set cs"
    using scope[OF that] grant_in(1)[of grant] by blast
  show "v \<le> budget_get (vt_budget grant) d \<and> (\<forall>w. BudgetCeiling d w \<in> set known \<longrightarrow> v \<le> w)" if "BudgetCeiling d v \<in> set cs"
    using ceiling[OF that] grant_in(5)[of d grant] by blast
qed

section \<open>Delegation\<close>

text \<open>
  C27: What an agent delegates is what it names, and never more than it has.  The client of a child
  holds no scope, no budget and no lifetime its parent lacks, one level deeper and within the depth
  of the mandate; with the keyword forms alone it holds exactly the scopes named and exactly each
  ceiling named, because every restriction the parent already gave up is checked as well.
\<close>
theorem delegated_client_exact:
  assumes lib: "keeps_authority lib" and m: "mandate_wf m" "finite (md_scopes m)"
    and c: "sdk_client lib m c" and run: "delegate lib now_t now_v role agent_id dr caveats c = Inr c'"
  shows "id_scopes (ai_identity c') \<subseteq> id_scopes (ai_identity c)
    \<and> (\<forall>d. budget_get (id_budget (ai_identity c')) d \<le> budget_get (id_budget (ai_identity c)) d)
    \<and> id_expires_at (ai_identity c') \<le> id_expires_at (ai_identity c)
    \<and> id_depth (ai_identity c') = id_depth (ai_identity c) + 1 \<and> id_depth (ai_identity c') \<le> md_max_depth m
    \<and> (caveats = [] \<longrightarrow> (\<forall>S. dr_scopes dr = Some S \<longrightarrow> id_scopes (ai_identity c') = S))
    \<and> (caveats = [] \<longrightarrow> (\<forall>bs k v d. dr_budget dr = Some bs \<longrightarrow> distinct (map fst bs) \<longrightarrow> (k, v) \<in> set bs
         \<longrightarrow> dimension_of_value k = Inr d \<longrightarrow> budget_get (id_budget (ai_identity c')) d = v))"
proof (intro conjI allI impI)
  let ?i = "ai_identity c" and ?j = "ai_identity c'"
  have inv: "client_inv lib m c" by (rule sdk_client_inv[OF c lib m])
  note inv' = delegated_inv[OF lib m inv run]
  obtain kws tok aid where kws: "keyword_caveats now_t dr = Inr kws"
    and a: "attenuate lib (id_verified ?i) (kws @ caveats) aid role (id_known_caveats ?i) = Inr tok"
    and mk: "mk_agentiam lib now_v tok (ai_key_set c) role (Some aid) (id_known_caveats ?i @ kws @ caveats) (ai_task_intent c) = Inr c'"
    using delegate_Inr[OF run] .
  have tok: "token_of lib m (id_depth ?i + 1) tok"
    using child_token_of[OF lib m _ _ a] inv by (auto simp: client_inv_def Let_def)
  have known: "id_known_caveats ?j = id_known_caveats ?i @ kws @ caveats" by (rule opened_inv(2)[OF lib m tok mk])
  note g = client_grant[OF inv] and g' = client_grant[OF inv'(1)]
  note mem = identity_scopes[OF g(4)] identity_scopes[OF g'(4)] identity_budget[OF g(4)] identity_budget[OF g'(4)]
    identity_expiry[OF g(4)] identity_expiry[OF g'(4)]
  show "id_scopes ?j \<subseteq> id_scopes ?i" using g(1) g'(1) by (auto simp: mem known)
  show "budget_get (id_budget ?j) d \<le> budget_get (id_budget ?i) d" for d
    using mem(4)[of "budget_get (id_budget ?j) d" d] unfolding mem(3) known g(2) g'(2) by auto
  show "id_expires_at ?j \<le> id_expires_at ?i"
    using mem(6)[of "id_expires_at ?j"] unfolding mem(5) known g(3) g'(3) by auto
  show "id_depth ?j = id_depth ?i + 1" by (rule inv'(2))
  show "id_depth ?j \<le> md_max_depth m" using inv'(1) by (simp add: client_inv_def Let_def)
  note anc = proposed_within_ancestors[OF a]
  note kmem = keyword_caveats_members[OF kws]
  show "id_scopes ?j = S" if "caveats = []" "dr_scopes dr = Some S" for S
  proof -
    have S: "S \<subseteq> vt_scopes (id_verified ?i)" "\<And>K. ScopeSubset K \<in> set (id_known_caveats ?i) \<Longrightarrow> S \<subseteq> K"
      using anc(1)[of S] kmem(1)[of S] that by auto
    have "x \<in> id_scopes ?j \<longleftrightarrow> x \<in> S" for x
      using S that kmem(1) unfolding mem(2) known g'(1) g(1) by auto
    then show ?thesis by blast
  qed
  show "budget_get (id_budget ?j) d = v"
    if "caveats = []" "dr_budget dr = Some bs" "distinct (map fst bs)" "(k, v) \<in> set bs" "dimension_of_value k = Inr d" for bs k v d
  proof (rule antisym)
    have v: "BudgetCeiling d v \<in> set kws" unfolding kmem(2) using that by blast
    then show "budget_get (id_budget ?j) d \<le> v"
      using mem(4)[of "budget_get (id_budget ?j) d" d] unfolding known by auto
    have "w = v" if w: "BudgetCeiling d w \<in> set kws" for w
    proof -
      obtain k' where k': "(k', w) \<in> set bs" "dimension_of_value k' = Inr d"
        using w \<open>dr_budget dr = Some bs\<close> unfolding kmem(2) by auto
      then have "k' = k" using that \<open>dimension_of_value k = Inr d\<close> dimension_of_value_Inr by metis
      then show ?thesis using k'(1) \<open>(k, v) \<in> set bs\<close> \<open>distinct (map fst bs)\<close> by (meson eq_key_imp_eq_value)
    qed
    moreover have "v \<le> budget_get (md_budget m) d \<and> (\<forall>w. BudgetCeiling d w \<in> set (id_known_caveats ?i) \<longrightarrow> v \<le> w)"
      using anc(2)[of d v] v unfolding g(2) by simp
    ultimately show "v \<le> budget_get (id_budget ?j) d"
      unfolding mem(4) known g'(2) using \<open>caveats = []\<close> by fastforce
  qed
qed

section \<open>The local check agrees with the token\<close>

definition within_token :: "'b verified_token \<Rightarrow> request_context \<Rightarrow> bool" where
  "within_token vt ctx \<longleftrightarrow> operation ctx \<in> vt_scopes vt \<and> current_depth ctx \<le> vt_max_depth vt
     \<and> request_intent ctx = vt_intent_hash vt \<and> vt_not_before vt \<le> now ctx \<and> now ctx < vt_expires_at vt
     \<and> (\<forall>d. requested ctx d \<le> budget_get (vt_budget vt) d)"

lemma folded_grant_admits:
  assumes "admits bound ctx" "within_token grant ctx" "\<And>d. requested ctx d \<le> budget_get b d"
  shows "admits (fold_grant grant b bound) ctx"
  using assms by (auto simp: admits_def fold_grant_def or_bound_def within_token_def split: option.splits)

text \<open>
  C30: The client never refuses what the enforcement point would allow: a request inside the grant that
  every known caveat permits is inside the folded authority of the identity, and the local check lets
  its scope pass; what the check does refuse is reported as given up or as never granted, correctly.
\<close>
theorem local_check_sound:
  assumes i: "mk_identity tok grant aid role known = Inr i" and cur: "am_current am x = Some i"
    and ctx: "within_token grant ctx" "list_all (\<lambda>c. permits c ctx) known"
  shows "admits (id_authority i) ctx \<and> check_scopes {operation ctx} x am = Inr ()
    \<and> (check_scopes required x am = Inr () \<longleftrightarrow> required \<subseteq> id_scopes i)
    \<and> (check_scopes required x am = Inl (ScopeDeniedError SCOPE_NOT_GRANTED (required - id_scopes i))
        \<longleftrightarrow> \<not> required \<subseteq> vt_scopes grant)"
proof -
  note f = mk_identity_fields[OF i]
  have adm: "admits (effective_bound known) ctx"
    using admits_fold_sound_list[OF ctx(2) admits_unbounded] by (simp add: effective_bound_def)
  have "requested ctx d \<le> budget_get (id_budget i) d" for d
  proof -
    have "requested ctx d \<le> w" if "BudgetCeiling d w \<in> set known" for w
      using adm that fold_budget[of "requested ctx d" known unbounded d] by (auto simp: admits_def effective_bound_def)
    then show ?thesis using ctx(1) unfolding effective_budget_spec[OF f(5)] within_token_def by blast
  qed
  then have a: "admits (id_authority i) ctx" unfolding f(6) using folded_grant_admits[OF adm ctx(1)] by blast
  then have op: "operation ctx \<in> id_scopes i" by (simp add: admits_def id_scopes_def f(6) fold_grant_def)
  have sub: "id_scopes i \<subseteq> vt_scopes grant" using identity_scopes[OF f(4)] f(2) by auto
  have chk: "check_scopes S x am = (if S - id_scopes i = {} then Inr ()
      else Inl (ScopeDeniedError (if S - id_scopes i - vt_scopes grant \<noteq> {} then SCOPE_NOT_GRANTED else SCOPE_ATTENUATED_AWAY) (S - id_scopes i)))" for S
    using cur f(2) by (simp add: check_scopes_def current_identity_def id_granted_scopes_def Let_def)
  have "check_scopes {operation ctx} x am = Inr ()" using op by (simp add: chk)
  moreover have "check_scopes required x am = Inr () \<longleftrightarrow> required \<subseteq> id_scopes i" by (auto simp: chk)
  moreover have "check_scopes required x am = Inl (ScopeDeniedError SCOPE_NOT_GRANTED (required - id_scopes i))
      \<longleftrightarrow> \<not> required \<subseteq> vt_scopes grant"
    using sub unfolding chk by auto
  ultimately show ?thesis using a by blast
qed

section \<open>Whose identity is current\<close>

text \<open>
  Programs that use the scopes as blocks: every context leaves the scope it entered last.  The stack
  of open blocks and the identity a context started with are kept beside the variable.
\<close>

record 'i scoped =
  sc_ambient :: "'i ambient"
  sc_open :: "nat \<Rightarrow> (nat \<times> 'i) list"
  sc_inherited :: "nat \<Rightarrow> 'i option"

inductive scoped_step :: "'i scoped \<Rightarrow> 'i scoped \<Rightarrow> bool" where
  enters: "scope_enter x s i (sc_ambient p) = Inr am
    \<Longrightarrow> scoped_step p (p\<lparr>sc_ambient := am, sc_open := (sc_open p)(x := (s, i) # sc_open p x)\<rparr>)"
| leaves: "sc_open p x = (s, i) # rest \<Longrightarrow> scope_exit x s (sc_ambient p) = (am, r)
    \<Longrightarrow> scoped_step p (p\<lparr>sc_ambient := am, sc_open := (sc_open p)(x := rest)\<rparr>)"
| forks: "sc_open p y = []
    \<Longrightarrow> scoped_step p (p\<lparr>sc_ambient := fork_context x y (sc_ambient p),
                        sc_inherited := (sc_inherited p)(y := am_current (sc_ambient p) x)\<rparr>)"

definition no_scopes :: "(nat \<Rightarrow> 'i option) \<Rightarrow> 'i scoped" where
  "no_scopes cur = \<lparr>sc_ambient = \<lparr>am_current = cur, am_scopes = Map.empty\<rparr>, sc_open = (\<lambda>_. []), sc_inherited = cur\<rparr>"

definition innermost :: "'i option \<Rightarrow> (nat \<times> 'i) list \<Rightarrow> 'i option" where
  "innermost base st = (case st of [] \<Rightarrow> base | (s, i) # _ \<Rightarrow> Some i)"

fun stacked :: "nat \<Rightarrow> 'i option \<Rightarrow> (nat \<Rightarrow> (nat \<times> 'i option) option) \<Rightarrow> (nat \<times> 'i) list \<Rightarrow> bool" where
  "stacked x base scopes [] = True"
| "stacked x base scopes ((s, i) # st) = (scopes s = Some (x, innermost base st) \<and> s \<notin> fst ` set st \<and> stacked x base scopes st)"

definition scoped_inv :: "'i scoped \<Rightarrow> bool" where
  "scoped_inv p \<longleftrightarrow> (\<forall>x. am_current (sc_ambient p) x = innermost (sc_inherited p x) (sc_open p x)
     \<and> stacked x (sc_inherited p x) (am_scopes (sc_ambient p)) (sc_open p x))"

lemma stacked_open: "stacked x base scopes st \<Longrightarrow> s \<in> fst ` set st \<Longrightarrow> \<exists>v. scopes s = Some (x, v)"
  by (induction st) force+

lemma stacked_other: "s \<notin> fst ` set st \<Longrightarrow> stacked x base (scopes(s := v)) st = stacked x base scopes st"
  by (induction st) auto

lemma scoped_step_inv:
  assumes "scoped_step p q" "scoped_inv p"
  shows "scoped_inv q"
  using assms
proof (induction rule: scoped_step.induct)
  case (enters x s i p am)
  have free: "am_scopes (sc_ambient p) s = None" and am: "am = (sc_ambient p)\<lparr>am_current := (am_current (sc_ambient p))(x := Some i),
      am_scopes := (am_scopes (sc_ambient p))(s := Some (x, am_current (sc_ambient p) x))\<rparr>"
    using enters(1) by (auto simp: scope_enter_def simp del: not_None_eq split: if_splits)
  have out: "s \<notin> fst ` set (sc_open p y)" for y
    using stacked_open[of y "sc_inherited p y" "am_scopes (sc_ambient p)"] enters(2) free unfolding scoped_inv_def by fastforce
  show ?case using enters(2) out by (auto simp: scoped_inv_def am innermost_def stacked_other)
next
  case (leaves p x s i rest am r)
  have top: "am_scopes (sc_ambient p) s = Some (x, innermost (sc_inherited p x) rest)" "s \<notin> fst ` set rest"
    "stacked x (sc_inherited p x) (am_scopes (sc_ambient p)) rest"
  proof -
    have "stacked x (sc_inherited p x) (am_scopes (sc_ambient p)) ((s, i) # rest)"
      using leaves(1,3) unfolding scoped_inv_def by metis
    then show "am_scopes (sc_ambient p) s = Some (x, innermost (sc_inherited p x) rest)" "s \<notin> fst ` set rest"
      "stacked x (sc_inherited p x) (am_scopes (sc_ambient p)) rest" by simp_all
  qed
  have am: "am = (sc_ambient p)\<lparr>am_scopes := (am_scopes (sc_ambient p))(s := None),
      am_current := (am_current (sc_ambient p))(x := innermost (sc_inherited p x) rest)\<rparr>"
    using leaves(2) top(1) by (simp add: scope_exit_def)
  have out: "s \<notin> fst ` set (sc_open p y)" if "y \<noteq> x" for y
    using stacked_open[of y "sc_inherited p y" "am_scopes (sc_ambient p)"] leaves(3) top(1) that unfolding scoped_inv_def by fastforce
  show ?case using leaves(3) out top(2,3) by (auto simp: scoped_inv_def am stacked_other)
next
  case (forks p y x)
  then show ?case by (auto simp: scoped_inv_def fork_context_def innermost_def)
qed

text \<open>
  C31: An agent never acts under another's identity.  However tasks are forked and blocks of different
  tasks interleave, the identity a context reads is the one of the innermost block it is inside of, and
  outside of every block the one it inherited when it was created; leaving a block never fails.
\<close>
theorem identity_is_the_innermost:
  assumes "scoped_step\<^sup>*\<^sup>* (no_scopes cur) p"
  shows "current_identity x (sc_ambient p) = (case innermost (sc_inherited p x) (sc_open p x) of None \<Rightarrow> Inl NoIdentityError | Some i \<Rightarrow> Inr i)
    \<and> (case sc_open p x of [] \<Rightarrow> True | (s, i) # rest \<Rightarrow>
         \<exists>am. scope_exit x s (sc_ambient p) = (am, Inr ()) \<and> am_current am x = innermost (sc_inherited p x) rest)"
proof -
  have "scoped_inv p"
    using assms
  proof (induction rule: rtranclp_induct)
    case base
    show ?case by (simp add: scoped_inv_def no_scopes_def innermost_def)
  next
    case (step p q)
    then show ?case using scoped_step_inv by blast
  qed
  then show ?thesis by (auto simp: scoped_inv_def current_identity_def scope_exit_def split: list.split dest: spec[of _ x])
qed

text \<open>A scope left in another context fails, and the identity stays installed where it was entered.\<close>

theorem foreign_exit_leaks:
  assumes "scope_enter x s i am = Inr am1" "y \<noteq> x"
  shows "\<exists>am2. scope_exit y s am1 = (am2, Inl IdentityContextError) \<and> am_current am2 x = Some i \<and> scope_exit x s am2 = (am2, Inr ())"
  using assms by (auto simp: scope_enter_def scope_exit_def split: if_splits)

section \<open>Witnesses\<close>

definition reader_order :: delegation where
  "reader_order = \<lparr>dr_scopes = Some {''invoice:read''}, dr_budget = Some [(''spend_bdt'', 10)], dr_ttl_s = None,
     dr_tools_allow = None, dr_tools_deny = None\<rparr>"

definition fraction_order :: delegation where
  "fraction_order = reader_order\<lparr>dr_budget := Some [(''tool_calls'', 5 / 2)]\<rparr>"

lemma effective_budget_ok:
  assumes wf: "budget_wf b" "budget_wf start"
    and get: "\<And>d. budget_get b d = (case ea_budget (effective_bound cs) d of None \<Rightarrow> budget_get start d | Some v \<Rightarrow> min (budget_get start d) v)"
    and w: "\<And>d v. ea_budget (effective_bound cs) d = Some v \<Longrightarrow> whole (v * 10000)"
  shows "effective_budget cs start = Inr b"
proof -
  have floor_min: "min \<lfloor>x * 10000\<rfloor> \<lfloor>y * 10000\<rfloor> = \<lfloor>min x y * 10000\<rfloor>" for x y :: decimal
    by (cases "x \<le> y") (simp_all add: min_def floor_mono antisym)
  have "bindE (budget_scaled start d) (\<lambda>c. case ea_budget (effective_bound cs) d of
      None \<Rightarrow> Inr c | Some v \<Rightarrow> bindE (scale v) (\<lambda>s. Inr (min c s))) = Inr \<lfloor>budget_get b d * 10000\<rfloor>" for d
    using w[of d] by (simp add: budget_scaled_ok[OF wf(2)] get scale_def BUDGET_SCALE_def floor_min split: option.split)
  then have "scaled_dict (\<lambda>d. bindE (budget_scaled start d) (\<lambda>c. case ea_budget (effective_bound cs) d of
      None \<Rightarrow> Inr c | Some v \<Rightarrow> bindE (scale v) (\<lambda>s. Inr (min c s)))) = Inr (\<lambda>d. Some \<lfloor>budget_get b d * 10000\<rfloor>)"
    by (rule scaled_dict_ok)
  then show ?thesis by (simp add: effective_budget_def Let_def budget_from_scaled_ok[OF wf(1)])
qed

lemma console_budgets:
  "effective_budget [] (md_budget console_mandate) = Inr (md_budget console_mandate)"
  "effective_budget [ScopeSubset S, BudgetCeiling SPEND_BDT 10] (md_budget console_mandate)
     = Inr ((md_budget console_mandate)\<lparr>spend_bdt := 10\<rparr>)"
proof -
  have wf: "budget_wf (md_budget console_mandate)" using console_mandate_wf by (simp add: mandate_wf_def)
  show "effective_budget [] (md_budget console_mandate) = Inr (md_budget console_mandate)"
    by (rule effective_budget_ok[OF wf wf]) (simp_all add: effective_bound_def unbounded_def)
  have w: "whole (10 * 10000)" using whole_of_int[of 100000] by simp
  then have "budget_wf ((md_budget console_mandate)\<lparr>spend_bdt := 10\<rparr>)"
    using wf by (simp add: budget_wf_def money_def)
  then show "effective_budget [ScopeSubset S, BudgetCeiling SPEND_BDT 10] (md_budget console_mandate)
     = Inr ((md_budget console_mandate)\<lparr>spend_bdt := 10\<rparr>)"
  proof (rule effective_budget_ok[OF _ wf])
    fix d
    have e: "ea_budget (effective_bound [ScopeSubset S, BudgetCeiling SPEND_BDT 10]) = [SPEND_BDT \<mapsto> 10]"
      by (simp add: effective_bound_def unbounded_def combine_def)
    show "budget_get ((md_budget console_mandate)\<lparr>spend_bdt := 10\<rparr>) d
        = (case ea_budget (effective_bound [ScopeSubset S, BudgetCeiling SPEND_BDT 10]) d of
            None \<Rightarrow> budget_get (md_budget console_mandate) d | Some v \<Rightarrow> min (budget_get (md_budget console_mandate) d) v)"
      unfolding e by (cases d) (simp_all add: console_mandate_def)
    show "whole (v * 10000)" if "ea_budget (effective_bound [ScopeSubset S, BudgetCeiling SPEND_BDT 10]) d = Some v" for v
      using that w unfolding e by (simp split: if_splits)
  qed
qed

lemma console_token_of: "token_of console_lib console_mandate 0 ''t''"
proof -
  obtain facts checks where blk: "authority_facts console_mandate = Inr facts" "authority_checks console_mandate = Inr checks"
    using authority_ok[OF console_mandate_wf] by metis
  then have "answers_with console_lib (console_block, 0) (facts @ checks)"
    by (simp add: answers_with_def console_lib_def console_block_def)
  then show ?thesis unfolding token_of_def
    by (intro exI[of _ "(console_block, 0)"] exI[of _ facts] exI[of _ checks]) (simp add: blk console_lib_def)
qed

lemma console_opens:
  assumes "n < 4" "is_ok (effective_budget known (md_budget console_mandate))"
  shows "\<exists>c. mk_agentiam console_lib (seconds 200) (replicate (Suc n) CHR ''t'') [7] role (Some x) known intent = Inr c
    \<and> id_verified (ai_identity c) = console_token n \<and> id_known_caveats (ai_identity c) = known \<and> ai_key_set c = [7]
    \<and> ai_task_intent c = intent"
  using assms console_verifies[OF assms(1)]
  by (auto simp: mk_agentiam_def mk_identity_def is_ok_iff Let_def console_token_fields)

lemma demo_client:
  obtains c where "mk_agentiam console_lib (seconds 200) ''t'' [7] ''root'' (Some ''boss'') [] None = Inr c"
    "id_verified (ai_identity c) = console_token 0" "id_known_caveats (ai_identity c) = []" "ai_key_set c = [7]"
    "ai_task_intent c = None"
proof -
  have "is_ok (effective_budget [] (md_budget console_mandate))" by (simp add: console_budgets)
  then show ?thesis using console_opens[of 0 "[]" "''root''" "''boss''" None] that by auto
qed

lemma reader_facts:
  "keyword_caveats (seconds 200) reader_order = Inr [ScopeSubset {''invoice:read''}, BudgetCeiling SPEND_BDT 10]"
  "label_ok ''reader''" "label_ok ''clerk''"
  "is_ok (block_datalog [ScopeSubset {''invoice:read''}, BudgetCeiling SPEND_BDT 10])"
proof -
  have w: "whole (10 * 10000)" using whole_of_int[of 100000] by simp
  have "scope_re ''invoice:read''" by code_simp
  then show "keyword_caveats (seconds 200) reader_order = Inr [ScopeSubset {''invoice:read''}, BudgetCeiling SPEND_BDT 10]"
    using w by (simp add: keyword_caveats_def reader_order_def when_given_def one_caveat_def mk_caveat_def money_def all_dimensions_def)
  show "label_ok ''reader''" "label_ok ''clerk''"
    by (simp_all add: validate_label_def code_points_def unsafe_label_code_def MAX_LABEL_LENGTH_def)
  show "is_ok (block_datalog [ScopeSubset {''invoice:read''}, BudgetCeiling SPEND_BDT 10])"
    using w by (simp add: block_datalog_def scale_def BUDGET_SCALE_def is_ok_iff)
qed

theorem delegated_client_exact_witness:
  "\<exists>c c'. sdk_client console_lib console_mandate c
     \<and> delegate console_lib (seconds 200) (seconds 200) ''clerk'' (Some ''reader'') reader_order [] c = Inr c'
     \<and> id_scopes (ai_identity c') = {''invoice:read''} \<and> budget_get (id_budget (ai_identity c')) SPEND_BDT = 10"
proof -
  obtain c where c: "mk_agentiam console_lib (seconds 200) ''t'' [7] ''root'' (Some ''boss'') [] None = Inr c"
    "id_verified (ai_identity c) = console_token 0" "id_known_caveats (ai_identity c) = []" "ai_key_set c = [7]"
    "ai_task_intent c = None" by (rule demo_client)
  have sdk: "sdk_client console_lib console_mandate c" by (rule sdk_client.opened[OF console_token_of c(1)])
  have a: "attenuate console_lib (console_token 0) [ScopeSubset {''invoice:read''}, BudgetCeiling SPEND_BDT 10] ''reader'' ''clerk'' []
      = Inr ''tt''"
    using console_attenuates[OF _ reader_facts(2,3) _ _ reader_facts(4), of 0] by simp
  have "is_ok (effective_budget [ScopeSubset {''invoice:read''}, BudgetCeiling SPEND_BDT 10] (md_budget console_mandate))" by (simp add: console_budgets)
  then obtain c' where "mk_agentiam console_lib (seconds 200) ''tt'' [7] ''clerk'' (Some ''reader'')
      [ScopeSubset {''invoice:read''}, BudgetCeiling SPEND_BDT 10] None = Inr c'"
    using console_opens[of 1 "[ScopeSubset {''invoice:read''}, BudgetCeiling SPEND_BDT 10]" "''clerk''" "''reader''" None] by auto
  moreover have "id_depth (ai_identity c) = 0" using c(2) by (simp add: id_depth_def console_token_def granted_token_def console_lib_def)
  ultimately have run: "delegate console_lib (seconds 200) (seconds 200) ''clerk'' (Some ''reader'') reader_order [] c = Inr c'"
    using a c reader_facts(1) by (simp add: delegate_def Let_def text_default_def console_token_fields)
  have "finite (md_scopes console_mandate)" by (simp add: console_mandate_def)
  note safe = delegated_client_exact[OF console_keeps_authority console_mandate_wf this sdk run]
  have "id_scopes (ai_identity c') = {''invoice:read''}" using safe by (simp add: reader_order_def)
  moreover have "budget_get (id_budget (ai_identity c')) SPEND_BDT = 10"
    using safe by (simp add: reader_order_def all_dimensions_def)
  ultimately show ?thesis using sdk run by blast
qed

theorem local_check_sound_witness:
  "\<exists>i (am :: (dl_stmt list \<times> nat) agent_identity ambient). mk_identity ''t'' (console_token 0) ''reader'' ''clerk'' [ScopeSubset {''invoice:read''}, BudgetCeiling SPEND_BDT 10] = Inr i
     \<and> check_scopes {''invoice:read''} 0 am = Inr ()
     \<and> check_scopes {''payment:initiate''} 0 am \<noteq> Inr ()"
proof -
  let ?known = "[ScopeSubset {''invoice:read''}, BudgetCeiling SPEND_BDT 10]"
  obtain i where i: "mk_identity ''t'' (console_token 0) ''reader'' ''clerk'' ?known = Inr i"
    by (simp add: mk_identity_def Let_def console_token_fields console_budgets)
  let ?am = "\<lparr>am_current = (\<lambda>_. Some i), am_scopes = (\<lambda>_. None)\<rparr>"
  let ?ctx = "demo_context\<lparr>operation := ''invoice:read'', requested := (\<lambda>_. 0), current_depth := 0,
      request_intent := replicate 64 CHR ''a'', now := seconds 200\<rparr>"
  have w: "within_token (console_token 0) ?ctx"
  proof -
    have "0 \<le> budget_get (md_budget console_mandate) d" for d by (cases d) (simp_all add: console_mandate_def)
    then show ?thesis by (simp add: within_token_def console_token_fields)
  qed
  have p: "list_all (\<lambda>c. permits c ?ctx) ?known" by (simp add: permits_def)
  have "am_current ?am 0 = Some i" by simp
  note s = local_check_sound[OF i this w p]
  have "\<not> {''payment:initiate''} \<subseteq> id_scopes i"
    using identity_scopes[OF mk_identity_fields(4)[OF i]] mk_identity_fields(2)[OF i] by (auto simp: console_token_fields)
  then show ?thesis using i s[of "{''payment:initiate''}"] by (intro exI[of _ i] exI[of _ ?am]) simp
qed

theorem identity_is_the_innermost_witness:
  "\<exists>p :: string scoped. current_identity 0 (sc_ambient p) = Inr ''a'' \<and> current_identity 1 (sc_ambient p) = Inr ''b''"
proof -
  let ?p0 = "no_scopes (\<lambda>_. None) :: string scoped"
  obtain am1 where am1: "scope_enter 0 1 ''a'' (sc_ambient ?p0) = Inr am1"
    by (simp add: scope_enter_def no_scopes_def)
  let ?p1 = "?p0\<lparr>sc_ambient := am1, sc_open := (sc_open ?p0)(0 := (1, ''a'') # sc_open ?p0 0)\<rparr>"
  let ?p2 = "?p1\<lparr>sc_ambient := fork_context 0 1 (sc_ambient ?p1),
      sc_inherited := (sc_inherited ?p1)(1 := am_current (sc_ambient ?p1) 0)\<rparr>"
  obtain am3 where am3: "scope_enter 1 2 ''b'' (sc_ambient ?p2) = Inr am3"
    using am1 by (auto simp: scope_enter_def no_scopes_def fork_context_def)
  let ?p3 = "?p2\<lparr>sc_ambient := am3, sc_open := (sc_open ?p2)(1 := (2, ''b'') # sc_open ?p2 1)\<rparr>"
  have "scoped_step ?p0 ?p1" by (rule scoped_step.enters[OF am1])
  moreover have "scoped_step ?p1 ?p2" by (rule scoped_step.forks) (simp add: no_scopes_def)
  moreover have "scoped_step ?p2 ?p3" by (rule scoped_step.enters[OF am3])
  ultimately have run: "scoped_step\<^sup>*\<^sup>* ?p0 ?p3" by (meson converse_rtranclp_into_rtranclp r_into_rtranclp)
  have "innermost (sc_inherited ?p3 0) (sc_open ?p3 0) = Some ''a''" "innermost (sc_inherited ?p3 1) (sc_open ?p3 1) = Some ''b''"
    by (simp_all add: innermost_def no_scopes_def)
  then have "current_identity 0 (sc_ambient ?p3) = Inr ''a''" "current_identity 1 (sc_ambient ?p3) = Inr ''b''"
    by (simp_all only: identity_is_the_innermost[OF run, THEN conjunct1] option.case)
  then show ?thesis by blast
qed

text \<open>
  A ceiling of two and a half tool calls is a valid caveat and the core mints the child, but the
  identity of the client cannot be folded: the delegation raises after the token was made.
\<close>

theorem fractional_count_unusable:
  "\<exists>c kws. sdk_client console_lib console_mandate c \<and> keyword_caveats (seconds 200) fraction_order = Inr kws
     \<and> attenuate console_lib (id_verified (ai_identity c)) kws ''reader'' ''clerk'' [] = Inr ''tt''
     \<and> delegate console_lib (seconds 200) (seconds 200) ''clerk'' (Some ''reader'') fraction_order [] c = Inl ScaleError"
proof -
  obtain c where c: "mk_agentiam console_lib (seconds 200) ''t'' [7] ''root'' (Some ''boss'') [] None = Inr c"
    "id_verified (ai_identity c) = console_token 0" "id_known_caveats (ai_identity c) = []" "ai_key_set c = [7]"
    "ai_task_intent c = None" by (rule demo_client)
  have sdk: "sdk_client console_lib console_mandate c" by (rule sdk_client.opened[OF console_token_of c(1)])
  let ?kws = "[ScopeSubset {''invoice:read''}, BudgetCeiling TOOL_CALLS (5 / 2)]"
  have w: "whole (5 / 2 * 10000 :: decimal)" using whole_of_int[of 25000] by simp
  have nw: "\<not> whole (5 / 2 :: decimal)" by code_simp
  have "scope_re ''invoice:read''" by code_simp
  then have kws: "keyword_caveats (seconds 200) fraction_order = Inr ?kws"
    using w by (simp add: keyword_caveats_def fraction_order_def reader_order_def when_given_def one_caveat_def mk_caveat_def
        money_def all_dimensions_def)
  have "is_ok (block_datalog ?kws)" using w by (simp add: block_datalog_def scale_def BUDGET_SCALE_def is_ok_iff)
  moreover have "check_narrowing ?kws (grant_caveats (console_token 0) @ []) = Inr ()"
    by (simp add: check_narrowing_def by_slot_def grant_caveats_def console_token_fields all_dimensions_def console_mandate_def)
  ultimately have a: "attenuate console_lib (console_token 0) ?kws ''reader'' ''clerk'' [] = Inr ''tt''"
    using reader_facts(2,3) console_grant
    by (auto simp: attenuate_def is_ok_iff console_token_fields HARD_SIZE_LIMIT_B64_def console_lib_def Let_def)
  have b: "effective_budget ?kws (md_budget console_mandate) = Inl ScaleError"
    using w nw by (simp add: effective_budget_def Let_def effective_bound_def unbounded_def combine_def budget_scaled_def to_scaled_def
        scale_def BUDGET_SCALE_def scaled_dict_def all_dimensions_def console_mandate_def budget_from_scaled_def scaled_count_def)
  have "verify console_lib ''tt'' [7] (Aware (seconds 200)) = Inr (console_token 1)"
    using console_verifies[of 1] by simp
  moreover have "id_depth (ai_identity c) = 0" using c(2) by (simp add: id_depth_def console_token_def granted_token_def console_lib_def)
  ultimately have "delegate console_lib (seconds 200) (seconds 200) ''clerk'' (Some ''reader'') fraction_order [] c = Inl ScaleError"
    using a c kws b by (simp add: delegate_def Let_def text_default_def console_token_fields mk_agentiam_def mk_identity_def)
  then show ?thesis using sdk kws a c(2) by auto
qed

end
