(* ===== verification/Corpus.thy ===== *)
theory Corpus
  imports Policy BlockReader
begin

text \<open>
  \<open>agentiam_core/corpus.py\<close>: the organization's policy, its tool catalogue and the test cases both
  activation gates run.

  A case is written as in the source, by what differs from the defaults; its description is prose
  that no operation reads and is left empty.  \<open>source_permits\<close> reads the seven Cedar statements of the
  policy: what they permit of a request, a forbid winning.
\<close>

section \<open>The policy and the catalogue\<close>

definition CORPUS_SOURCE :: string where
  "CORPUS_SOURCE = (let q = [CHR 0x22] in concat (map (\<lambda>l. l @ [newline])
     [''permit(principal, action == Action::'' @ q @ ''invoice:read'' @ q @ '', resource);'',
      ''permit(principal, action == Action::'' @ q @ ''vendor:read'' @ q @ '', resource);'',
      [],
      ''permit(principal, action == Action::'' @ q @ ''invoice:write'' @ q @ '', resource)'',
      ''when { principal.role == '' @ q @ ''senior'' @ q @ '' };'',
      [],
      ''permit(principal, action == Action::'' @ q @ ''payment:initiate'' @ q @ '', resource)'',
      ''when {'',
      ''  context.amount.lessThanOrEqual(decimal('' @ q @ ''500000.0'' @ q @ '')) && principal.depth <= 2'',
      ''};'',
      [],
      ''permit(principal, action == Action::'' @ q @ ''email:send'' @ q @ '', resource)'',
      ''when { !resource.is_external };'',
      [],
      ''forbid(principal, action, resource)'',
      ''when { resource.sensitivity == '' @ q @ ''critical'' @ q @ '' && principal.role != '' @ q @ ''senior'' @ q @ '' };'',
      [],
      ''forbid(principal, action == Action::'' @ q @ ''payment:initiate'' @ q @ '', resource)'',
      ''when { decimal('' @ q @ ''1000000.0'' @ q @ '').lessThan(context.amount) };'']))"

definition CORPUS_TOOLS :: "(string \<times> (string \<times> pvalue) list) list" where
  "CORPUS_TOOLS =
     [(''invoice_api'', [(''tool_id'', PyStr ''invoice_api''), (''server'', PyStr ''erp''), (''sensitivity'', PyStr ''low'')]),
      (''vendor_api'', [(''tool_id'', PyStr ''vendor_api''), (''server'', PyStr ''erp''), (''sensitivity'', PyStr ''low'')]),
      (''payment_api'', [(''tool_id'', PyStr ''payment_api''), (''server'', PyStr ''bank''), (''sensitivity'', PyStr ''critical''),
         (''is_external'', PyBool True)]),
      (''email_internal'', [(''tool_id'', PyStr ''email_internal''), (''server'', PyStr ''mail''), (''sensitivity'', PyStr ''low'')]),
      (''email_external'', [(''tool_id'', PyStr ''email_external''), (''server'', PyStr ''mail''), (''sensitivity'', PyStr ''medium''),
         (''is_external'', PyBool True)])]"

text \<open>The five permits and the two forbids.\<close>

definition source_permits :: "string \<Rightarrow> string \<Rightarrow> tool_facts \<Rightarrow> decimal \<Rightarrow> int \<Rightarrow> bool" where
  "source_permits action role facts amount depth =
     ((action = ''invoice:read'' \<or> action = ''vendor:read''
       \<or> (action = ''invoice:write'' \<and> role = ''senior'')
       \<or> (action = ''payment:initiate'' \<and> amount \<le> 500000 \<and> depth \<le> 2)
       \<or> (action = ''email:send'' \<and> \<not> tf_is_external facts))
      \<and> \<not> (tf_sensitivity facts = ''critical'' \<and> role \<noteq> ''senior'')
      \<and> \<not> (action = ''payment:initiate'' \<and> 1000000 < amount))"

section \<open>The cases\<close>

definition corpus_case :: "string \<Rightarrow> string \<Rightarrow> bool \<Rightarrow> policy_test_case" where
  "corpus_case name attempted expected =
     \<lparr>tc_name = name, tc_description = [], tc_operation = attempted, tc_expected = expected, tc_role = ''worker'',
      tc_tool = Some ''invoice_api'', tc_amount = 0, tc_depth = 1, tc_agent_id = ''agt-1'', tc_principal_id = ''kc:alice'',
      tc_task_id = ''00000000-0000-0000-0000-000000000000'', tc_tags = [], tc_elevated = False,
      tc_environment = ''production''\<rparr>"

definition CORPUS_BEAT1 :: "policy_test_case list" where
  "CORPUS_BEAT1 =
     [(corpus_case ''beat1_worker_reads_invoices'' ''invoice:read'' True)\<lparr>tc_tags := [''beat-1'', ''unconditional'']\<rparr>,
      (corpus_case ''beat1_worker_reads_vendors'' ''vendor:read'' True)\<lparr>tc_tool := Some ''vendor_api'', tc_tags := [''beat-1'', ''unconditional'']\<rparr>,
      (corpus_case ''beat1_senior_reads_invoices'' ''invoice:read'' True)\<lparr>tc_role := ''senior'', tc_tags := [''beat-1'', ''unconditional'']\<rparr>,
      (corpus_case ''beat1_deep_agent_reads_invoices'' ''invoice:read'' True)\<lparr>tc_depth := 8, tc_tags := [''beat-1'', ''unconditional'']\<rparr>]"

definition CORPUS_BEAT2 :: "policy_test_case list" where
  "CORPUS_BEAT2 =
     [(corpus_case ''beat2_senior_writes_invoices'' ''invoice:write'' True)\<lparr>tc_role := ''senior'', tc_tags := [''beat-2'', ''role-conditioned'']\<rparr>,
      (corpus_case ''beat2_worker_cannot_write_invoices'' ''invoice:write'' False)\<lparr>tc_tags := [''beat-2'', ''role-conditioned'']\<rparr>,
      (corpus_case ''beat2_empty_role_cannot_write'' ''invoice:write'' False)\<lparr>tc_role := [], tc_tags := [''beat-2'', ''role-conditioned'']\<rparr>,
      (corpus_case ''beat2_admin_role_cannot_write'' ''invoice:write'' False)\<lparr>tc_role := ''admin'', tc_tags := [''beat-2'', ''role-conditioned'']\<rparr>,
      (corpus_case ''beat2_senior_reads_vendors'' ''vendor:read'' True)\<lparr>tc_role := ''senior'', tc_tool := Some ''vendor_api'', tc_tags := [''beat-2'', ''role-conditioned'']\<rparr>]"

definition CORPUS_BEAT3 :: "policy_test_case list" where
  "CORPUS_BEAT3 =
     [(corpus_case ''beat3_worker_cannot_admin'' ''admin:write'' False)\<lparr>tc_tags := [''beat-3'', ''default-deny'']\<rparr>,
      (corpus_case ''beat3_senior_cannot_admin'' ''admin:write'' False)\<lparr>tc_role := ''senior'', tc_tags := [''beat-3'', ''default-deny'']\<rparr>,
      (corpus_case ''beat3_worker_cannot_negotiate'' ''vendor:negotiate'' False)\<lparr>tc_tool := Some ''vendor_api'', tc_tags := [''beat-3'', ''default-deny'']\<rparr>,
      (corpus_case ''beat3_worker_cannot_delete'' ''invoice:delete'' False)\<lparr>tc_tags := [''beat-3'', ''default-deny'']\<rparr>]"

definition CORPUS_BEAT4 :: "policy_test_case list" where
  "CORPUS_BEAT4 =
     [(corpus_case ''beat4_payment_under_ceiling'' ''payment:initiate'' True)\<lparr>tc_amount := 1000, tc_tags := [''beat-4'', ''amount-bounded'']\<rparr>,
      (corpus_case ''beat4_payment_at_ceiling'' ''payment:initiate'' True)\<lparr>tc_amount := 500000, tc_tags := [''beat-4'', ''boundary'']\<rparr>,
      (corpus_case ''beat4_payment_one_over_ceiling'' ''payment:initiate'' False)\<lparr>tc_amount := 500001, tc_tags := [''beat-4'', ''boundary'']\<rparr>,
      (corpus_case ''beat4_payment_well_over_ceiling'' ''payment:initiate'' False)\<lparr>tc_amount := 750000, tc_tags := [''beat-4'', ''amount-bounded'']\<rparr>,
      (corpus_case ''beat4_payment_at_max_depth'' ''payment:initiate'' True)\<lparr>tc_depth := 2, tc_tags := [''beat-4'', ''boundary'']\<rparr>,
      (corpus_case ''beat4_payment_one_past_max_depth'' ''payment:initiate'' False)\<lparr>tc_depth := 3, tc_tags := [''beat-4'', ''boundary'']\<rparr>,
      (corpus_case ''beat4_payment_far_past_max_depth'' ''payment:initiate'' False)\<lparr>tc_depth := 8, tc_tags := [''beat-4'', ''depth-bounded'']\<rparr>,
      (corpus_case ''beat4_senior_payment_under_ceiling'' ''payment:initiate'' True)\<lparr>tc_role := ''senior'', tc_amount := 1000, tc_tags := [''beat-4'', ''amount-bounded'']\<rparr>,
      (corpus_case ''beat4_senior_payment_over_ceiling'' ''payment:initiate'' False)\<lparr>tc_role := ''senior'', tc_amount := 500001, tc_tags := [''beat-4'', ''amount-bounded'']\<rparr>,
      (corpus_case ''beat4_payment_zero_amount'' ''payment:initiate'' True)\<lparr>tc_amount := 0, tc_tags := [''beat-4'', ''edge-case'']\<rparr>,
      (corpus_case ''beat4_payment_fractional_amount'' ''payment:initiate'' True)\<lparr>tc_amount := 4999999999 / 10000, tc_tags := [''beat-4'', ''edge-case'']\<rparr>]"

definition CORPUS_BEAT5 :: "policy_test_case list" where
  "CORPUS_BEAT5 =
     [(corpus_case ''beat5_senior_depth1_under_ceiling'' ''payment:initiate'' True)\<lparr>tc_role := ''senior'', tc_amount := 100000, tc_depth := 1, tc_tags := [''beat-5'', ''multi-condition'']\<rparr>,
      (corpus_case ''beat5_worker_depth1_at_ceiling'' ''payment:initiate'' True)\<lparr>tc_amount := 500000, tc_depth := 1, tc_tags := [''beat-5'', ''multi-condition'']\<rparr>,
      (corpus_case ''beat5_worker_deep_under_ceiling'' ''payment:initiate'' False)\<lparr>tc_amount := 1000, tc_depth := 4, tc_tags := [''beat-5'', ''multi-condition'']\<rparr>,
      (corpus_case ''beat5_worker_shallow_over_ceiling'' ''payment:initiate'' False)\<lparr>tc_amount := 600000, tc_depth := 1, tc_tags := [''beat-5'', ''multi-condition'']\<rparr>]"

definition CORPUS_BEAT7 :: "policy_test_case list" where
  "CORPUS_BEAT7 =
     [(corpus_case ''beat7_internal_email_allowed'' ''email:send'' True)\<lparr>tc_tool := Some ''email_internal'', tc_tags := [''beat-7'', ''resource-conditioned'']\<rparr>,
      (corpus_case ''beat7_external_email_denied'' ''email:send'' False)\<lparr>tc_tool := Some ''email_external'', tc_tags := [''beat-7'', ''resource-conditioned'']\<rparr>,
      (corpus_case ''beat7_senior_external_email_denied'' ''email:send'' False)\<lparr>tc_role := ''senior'', tc_tool := Some ''email_external'', tc_tags := [''beat-7'', ''resource-conditioned'']\<rparr>]"

definition CORPUS_FORBID :: "policy_test_case list" where
  "CORPUS_FORBID =
     [(corpus_case ''forbid_critical_tool_worker'' ''invoice:read'' False)\<lparr>tc_tool := Some ''payment_api'', tc_tags := [''beat-3'', ''forbid-wins'']\<rparr>,
      (corpus_case ''forbid_critical_tool_senior_allowed'' ''invoice:read'' True)\<lparr>tc_role := ''senior'', tc_tool := Some ''payment_api'', tc_tags := [''beat-8'', ''forbid-wins'']\<rparr>,
      (corpus_case ''forbid_critical_tool_payment_worker'' ''payment:initiate'' False)\<lparr>tc_tool := Some ''payment_api'', tc_amount := 1000, tc_tags := [''beat-3'', ''forbid-wins'']\<rparr>,
      (corpus_case ''forbid_critical_tool_payment_senior'' ''payment:initiate'' True)\<lparr>tc_role := ''senior'', tc_tool := Some ''payment_api'', tc_amount := 1000, tc_tags := [''beat-8'', ''forbid-wins'']\<rparr>,
      (corpus_case ''forbid_amount_over_million'' ''payment:initiate'' False)\<lparr>tc_role := ''senior'', tc_tool := Some ''payment_api'', tc_amount := 1000001, tc_tags := [''beat-4'', ''forbid-amount'']\<rparr>,
      (corpus_case ''forbid_amount_over_million_non_critical_tool'' ''payment:initiate'' False)\<lparr>tc_role := ''senior'', tc_amount := 1000001, tc_tags := [''beat-4'', ''forbid-amount'']\<rparr>,
      (corpus_case ''forbid_amount_at_million_boundary'' ''payment:initiate'' False)\<lparr>tc_role := ''senior'', tc_amount := 1000000, tc_tags := [''beat-4'', ''boundary'']\<rparr>,
      (corpus_case ''forbid_amount_just_under_million'' ''payment:initiate'' False)\<lparr>tc_role := ''senior'', tc_amount := 999999, tc_tags := [''beat-4'', ''boundary'']\<rparr>]"

definition CORPUS_SAFETY :: "policy_test_case list" where
  "CORPUS_SAFETY =
     [(corpus_case ''unknown_tool_defaults_safe'' ''invoice:read'' True)\<lparr>tc_tool := Some ''unknown_tool'', tc_tags := [''safety'', ''unknown-tool'']\<rparr>,
      (corpus_case ''no_tool_at_all'' ''invoice:read'' True)\<lparr>tc_tool := None, tc_tags := [''safety'', ''unknown-tool'']\<rparr>,
      (corpus_case ''unknown_tool_vendor_read'' ''vendor:read'' True)\<lparr>tc_tool := Some ''unknown_tool'', tc_tags := [''safety'', ''unknown-tool'']\<rparr>,
      (corpus_case ''amount_irrelevant_for_read'' ''vendor:read'' True)\<lparr>tc_tool := Some ''vendor_api'', tc_amount := 999999, tc_tags := [''safety'', ''edge-case'']\<rparr>,
      (corpus_case ''sensitivity_forbid_on_vendor_read'' ''vendor:read'' False)\<lparr>tc_tool := Some ''payment_api'', tc_tags := [''safety'', ''forbid-wins'']\<rparr>]"

definition CORPUS_DEPTH :: "policy_test_case list" where
  "CORPUS_DEPTH =
     [(corpus_case ''depth8_invoice_read'' ''invoice:read'' True)\<lparr>tc_depth := 8, tc_tags := [''safety'', ''depth-irrelevant'']\<rparr>,
      (corpus_case ''depth1_payment_zero_amount'' ''payment:initiate'' True)\<lparr>tc_depth := 1, tc_amount := 0, tc_tags := [''safety'', ''edge-case'']\<rparr>,
      (corpus_case ''depth2_payment_exact_ceiling'' ''payment:initiate'' True)\<lparr>tc_depth := 2, tc_amount := 500000, tc_tags := [''safety'', ''boundary'']\<rparr>,
      (corpus_case ''depth2_payment_one_over'' ''payment:initiate'' False)\<lparr>tc_depth := 2, tc_amount := 500001, tc_tags := [''safety'', ''boundary'']\<rparr>,
      (corpus_case ''depth3_payment_zero'' ''payment:initiate'' False)\<lparr>tc_depth := 3, tc_amount := 0, tc_tags := [''safety'', ''boundary'']\<rparr>]"

definition CORPUS_UNRECOGNIZED :: "policy_test_case list" where
  "CORPUS_UNRECOGNIZED =
     [(corpus_case ''unrecognized_action_worker'' ''system:shutdown'' False)\<lparr>tc_tags := [''safety'', ''default-deny'']\<rparr>,
      (corpus_case ''unrecognized_action_senior'' ''system:shutdown'' False)\<lparr>tc_role := ''senior'', tc_tags := [''safety'', ''default-deny'']\<rparr>]"

definition CORPUS :: "policy_test_case list" where
  "CORPUS = CORPUS_BEAT1 @ CORPUS_BEAT2 @ CORPUS_BEAT3 @ CORPUS_BEAT4 @ CORPUS_BEAT5 @ CORPUS_BEAT7 @ CORPUS_FORBID @ CORPUS_SAFETY @ CORPUS_DEPTH @ CORPUS_UNRECOGNIZED"

end
