(* ===== verification/Access.thy ===== *)
theory Access
  imports Revocation Escalation BlockReader "HOL-Library.AList"
begin

text \<open>
  Who may act on the control plane: the configuration read from the environment
  (\<open>agentiam_controlplane/settings.py\<close>), the two ways of signing in (\<open>auth.py\<close>, \<open>demo_auth.py\<close>), what
  \<open>create_app\<close> mounts of them (\<open>app.py\<close>), and the routes of the escalation and revocation components
  behind the session they write.

  The environment is the function \<open>os.environ.get\<close>.  Making a key from its bytes is a record of the
  library's two constructors.  A session cookie is signed by the middleware and kept by the browser:
  a caller presents no session or any one that was ever issued, an old one included.  What OpenID
  Connect answers a callback is a parameter; the fields the library keeps in the session are left out,
  and so is the percent-encoding of a redirect target.
\<close>

section \<open>The environment\<close>

type_synonym environ = "string \<Rightarrow> string option"

definition ENV_PREFIX :: string where
  "ENV_PREFIX = ''AGENTIAM_CONTROLPLANE_''"

definition env_text :: "environ \<Rightarrow> string \<Rightarrow> string" where
  "env_text env name = (case env (ENV_PREFIX @ name) of None \<Rightarrow> [] | Some v \<Rightarrow> v)"

definition env_required :: "environ \<Rightarrow> string \<Rightarrow> string py" where
  "env_required env name = (let v = env_text env name in if v = [] then Inl ValueError else Inr v)"

text \<open>The parts of a comma-separated text that are not blank.\<close>

definition entries_of :: "string \<Rightarrow> string list" where
  "entries_of raw = filter (\<lambda>e. e \<noteq> []) (map strip (split_on CHR '','' raw))"

text \<open>\<open>bytes.fromhex\<close> skips ASCII white space between the pairs of digits.\<close>

definition ascii_space :: "char \<Rightarrow> bool" where
  "ascii_space c = (let n = of_char c :: nat in (9 \<le> n \<and> n \<le> 13) \<or> n = 32)"

fun from_hex :: "string \<Rightarrow> (nat list) option" where
  "from_hex [] = Some []"
| "from_hex (c # cs) =
     (if ascii_space c then from_hex cs
      else (case cs of
              [] \<Rightarrow> None
            | d # ds \<Rightarrow>
                (case (hex_value c, hex_value d) of
                   (Some a, Some b) \<Rightarrow> map_option (\<lambda>bs. (16 * a + b) # bs) (from_hex ds)
                 | _ \<Rightarrow> None)))"

definition key_bytes :: "string \<Rightarrow> (nat list) py" where
  "key_bytes s =
     (case from_hex s of None \<Rightarrow> Inl ValueError | Some bs \<Rightarrow> if length bs \<noteq> 32 then Inl ValueError else Inr bs)"

text \<open>One entry of the operator tokens: the principal and its secret.\<close>

definition operator_entry :: "string \<Rightarrow> (string \<times> string) py" where
  "operator_entry e =
     (case partition_at CHR ''='' e of (who, secret) \<Rightarrow>
        if CHR ''='' \<notin> set e \<or> strip who = [] \<or> strip secret = [] then Inl ValueError
        else Inr (strip who, strip secret))"

primrec operator_entries :: "string set \<Rightarrow> string list \<Rightarrow> (string \<times> string) list \<Rightarrow> ((string \<times> string) list) py" where
  "operator_entries approvers [] tokens = Inr tokens"
| "operator_entries approvers (e # es) tokens =
     bindE (operator_entry e) (\<lambda>(who, secret).
       if who \<notin> approvers then Inl ValueError
       else if map_of tokens secret \<noteq> None \<and> map_of tokens secret \<noteq> Some who then Inl ValueError
       else operator_entries approvers es (AList.update secret who tokens))"

definition parse_operator_tokens :: "string \<Rightarrow> string set \<Rightarrow> ((string \<times> string) list) py" where
  "parse_operator_tokens raw approvers = operator_entries approvers (entries_of raw) []"

record ('k, 'pk) key_lib =
  kl_private :: "nat list \<Rightarrow> 'k py"
  kl_public :: "nat list \<Rightarrow> 'pk py"

record ('k, 'pk) control_plane_settings = "'k cp_settings" +
  ct_session_secret_key :: string
  ct_operator_tokens :: "(string \<times> string) list"
  ct_root_public_key :: "'pk option"
  ct_pep_url :: string

definition strip_right :: "char \<Rightarrow> string \<Rightarrow> string" where
  "strip_right c s = rev (dropWhile (\<lambda>x. x = c) (rev s))"

definition control_plane_from_env :: "('k, 'pk) key_lib \<Rightarrow> environ \<Rightarrow> ('k, 'pk) control_plane_settings py" where
  "control_plane_from_env keys env =
     bindE (env_required env ''ROOT_PRIVATE_KEY'') (\<lambda>key_hex.
     bindE (key_bytes key_hex) (\<lambda>bs.
     bindE (kl_private keys bs) (\<lambda>private.
       let approvers = set (entries_of (env_text env ''APPROVERS'')) in
       if approvers = {} then Inl ValueError
       else
         bindE (env_required env ''SESSION_SECRET_KEY'') (\<lambda>secret.
           let public_hex = strip (env_text env ''ROOT_PUBLIC_KEY'') in
           bindE (if public_hex = [] then Inr None
                  else bindE (key_bytes public_hex) (\<lambda>bs. bindE (kl_public keys bs) (\<lambda>k. Inr (Some k)))) (\<lambda>public.
           bindE (parse_operator_tokens (env_text env ''OPERATOR_TOKENS'') approvers) (\<lambda>tokens.
             Inr \<lparr>cp_approvers = approvers, cp_elevation_max_depth = 1, cp_root_private_key = private,
                  ct_session_secret_key = secret, ct_operator_tokens = tokens, ct_root_public_key = public,
                  ct_pep_url = strip_right CHR ''/'' (case env (ENV_PREFIX @ ''PEP_URL'') of
                    None \<Rightarrow> ''http://pep:8080'' | Some u \<Rightarrow> u)\<rparr>))))))"

record oidc_settings =
  os_issuer :: string
  os_client_id :: string
  os_client_secret :: string

definition oidc_from_env :: "environ \<Rightarrow> oidc_settings py" where
  "oidc_from_env env =
     bindE (env_required env ''OIDC_ISSUER'') (\<lambda>i.
     bindE (env_required env ''OIDC_CLIENT_ID'') (\<lambda>c.
     bindE (env_required env ''OIDC_CLIENT_SECRET'') (\<lambda>s.
       Inr \<lparr>os_issuer = i, os_client_id = c, os_client_secret = s\<rparr>)))"

record persona =
  pn_principal_id :: string
  pn_display_name :: string
  pn_title :: string

definition persona_of :: "string \<Rightarrow> persona py" where
  "persona_of e =
     (case partition_at CHR ''='' e of (who, described) \<Rightarrow>
        if strip who = [] then Inl ValueError
        else (case partition_at CHR ''|'' described of (name, title) \<Rightarrow>
          Inr \<lparr>pn_principal_id = strip who,
               pn_display_name = (if strip name = [] then strip who else strip name),
               pn_title = strip title\<rparr>))"

definition parse_personas :: "string \<Rightarrow> (persona list) py" where
  "parse_personas raw = traverseE persona_of (entries_of raw)"

definition TRUTHY :: "string set" where
  "TRUTHY = {''1'', ''true'', ''yes'', ''on''}"

definition DEFAULT_PERSONAS :: "persona list" where
  "DEFAULT_PERSONAS =
     [\<lparr>pn_principal_id = ''kc:11111111-1111-1111-1111-111111111111'', pn_display_name = ''Farhana Rahman'', pn_title = ''Finance Manager''\<rparr>,
      \<lparr>pn_principal_id = ''kc:22222222-2222-2222-2222-222222222222'', pn_display_name = ''Tanvir Ahmed'', pn_title = ''Chief Financial Officer''\<rparr>,
      \<lparr>pn_principal_id = ''kc:33333333-3333-3333-3333-333333333333'', pn_display_name = ''Nusrat Jahan'', pn_title = ''Procurement Analyst''\<rparr>]"

text \<open>\<open>None\<close> when passwordless sign-in is off.\<close>

definition demo_from_env :: "environ \<Rightarrow> (persona list option) py" where
  "demo_from_env env =
     (if lower_case (strip (env_text env ''DEMO_LOGIN'')) \<notin> TRUTHY then Inr None
      else
        let raw = strip (env_text env ''DEMO_PERSONAS'') in
        bindE (if raw \<noteq> [] then parse_personas raw else Inr DEFAULT_PERSONAS) (\<lambda>personas.
          if personas = [] then Inl ValueError else Inr (Some personas)))"

section \<open>What the application mounts\<close>

record ('k, 'pk) wiring =
  wi_database :: "string option"
  wi_settings :: "('k, 'pk) control_plane_settings option"
  wi_oidc :: "oidc_settings option"
  wi_demo :: "persona list option"
  wi_redis :: "string option"

definition env_given :: "environ \<Rightarrow> string \<Rightarrow> string option" where
  "env_given env name = (case env name of None \<Rightarrow> None | Some v \<Rightarrow> if v = [] then None else Some v)"

definition create_app_from_env :: "('k, 'pk) key_lib \<Rightarrow> environ \<Rightarrow> ('k, 'pk) wiring py" where
  "create_app_from_env keys env =
     bindE (control_plane_from_env keys env) (\<lambda>settings.
       let database = (case env_given env (ENV_PREFIX @ ''DATABASE_URL'') of
                         Some u \<Rightarrow> Some u | None \<Rightarrow> env_given env ''DATABASE_URL'') in
       bindE (if list_ex (\<lambda>n. env_text env (''OIDC_'' @ n) \<noteq> []) [''ISSUER'', ''CLIENT_ID'', ''CLIENT_SECRET'']
              then bindE (oidc_from_env env) (\<lambda>s. Inr (Some s)) else Inr None) (\<lambda>oidc.
       bindE (demo_from_env env) (\<lambda>demo.
         Inr \<lparr>wi_database = database, wi_settings = Some settings, wi_oidc = oidc, wi_demo = demo,
              wi_redis = env_given env (ENV_PREFIX @ ''REDIS_URL'')\<rparr>)))"

text \<open>The session middleware and the routers behind it need a database and the settings.\<close>

definition session_wired :: "('k, 'pk) wiring \<Rightarrow> bool" where
  "session_wired w = (wi_database w \<noteq> None \<and> wi_settings w \<noteq> None)"

datatype login_routes = NoLogin | OIDCLogin oidc_settings | DemoLogin "persona list"

definition mounted_login :: "('k, 'pk) wiring \<Rightarrow> login_routes" where
  "mounted_login w =
     (if \<not> session_wired w then NoLogin
      else (case wi_oidc w of
              Some s \<Rightarrow> OIDCLogin s
            | None \<Rightarrow> (case wi_demo w of Some d \<Rightarrow> DemoLogin d | None \<Rightarrow> NoLogin)))"

definition login_mode :: "('k, 'pk) wiring \<Rightarrow> string option" where
  "login_mode w =
     (if wi_oidc w \<noteq> None then Some ''oidc''
      else if wi_demo w \<noteq> None \<and> wi_database w \<noteq> None then Some ''demo'' else None)"

definition readyz :: "('k, 'pk) wiring \<Rightarrow> (string \<times> bool) list" where
  "readyz w =
     [(''database'', wi_database w \<noteq> None),
      (''escalations'', wi_database w \<noteq> None \<and> wi_settings w \<noteq> None),
      (''auth'', wi_oidc w \<noteq> None),
      (''demo_login'', wi_demo w \<noteq> None \<and> wi_oidc w = None),
      (''revocation_publisher'', wi_redis w \<noteq> None)]"

section \<open>Sessions\<close>

record web_session =
  ws_principal_id :: "string option"
  ws_display_name :: "string option"
  ws_demo_login :: bool
  ws_post_login_redirect :: "string option"
  ws_last_call :: "string option"

definition no_session :: web_session where
  "no_session = \<lparr>ws_principal_id = None, ws_display_name = None, ws_demo_login = False,
                 ws_post_login_redirect = None, ws_last_call = None\<rparr>"

definition DEFAULT_DESTINATION :: string where
  "DEFAULT_DESTINATION = ''/escalations''"

definition oidc_login :: "string \<Rightarrow> web_session \<Rightarrow> web_session" where
  "oidc_login next_url s =
     s\<lparr>ws_post_login_redirect := Some (if take 1 next_url = ''/'' then next_url else DEFAULT_DESTINATION)\<rparr>"

record userinfo =
  ui_sub :: "string option"
  ui_preferred_username :: "string option"
  ui_name :: "string option"

text \<open>\<open>x or y\<close> of a text that may be absent.\<close>

definition given :: "string option \<Rightarrow> string option" where
  "given v = (case v of None \<Rightarrow> None | Some s \<Rightarrow> if s = [] then None else Some s)"

text \<open>
  The callback.  \<open>answer\<close> is \<open>None\<close> when the library raises, else the claims of the verified token, if
  it carries any.
\<close>

definition oidc_callback :: "(userinfo option) option \<Rightarrow> web_session \<Rightarrow> web_session \<times> (nat + string)" where
  "oidc_callback answer s =
     (case answer of
        None \<Rightarrow> (s, Inl 401)
      | Some claims \<Rightarrow>
          (case (case claims of None \<Rightarrow> None | Some ui \<Rightarrow> map_option (\<lambda>sub. (ui, sub)) (given (ui_sub ui))) of
             None \<Rightarrow> (s, Inl 401)
           | Some (ui, sub) \<Rightarrow>
               (let name = (case given (ui_preferred_username ui) of
                              Some n \<Rightarrow> n
                            | None \<Rightarrow> (case given (ui_name ui) of Some n \<Rightarrow> n | None \<Rightarrow> sub)) in
                (s\<lparr>ws_principal_id := Some (''kc:'' @ sub), ws_display_name := Some name, ws_post_login_redirect := None\<rparr>,
                 Inr (case ws_post_login_redirect s of None \<Rightarrow> DEFAULT_DESTINATION | Some d \<Rightarrow> d)))))"

text \<open>Signing out: \<open>metadata\<close> is the end-session endpoint the issuer publishes, if any.\<close>

definition oidc_logout :: "string option \<Rightarrow> web_session \<Rightarrow> web_session \<times> string" where
  "oidc_logout metadata s = (no_session, case given metadata of Some u \<Rightarrow> u | None \<Rightarrow> DEFAULT_DESTINATION)"

definition safe_destination :: "string \<Rightarrow> string" where
  "safe_destination v = (if take 1 v = ''/'' \<and> take 2 v \<noteq> ''//'' then v else DEFAULT_DESTINATION)"

record persona_choice =
  pc_persona :: persona
  pc_is_approver :: bool

definition demo_login :: "persona list \<Rightarrow> string set \<Rightarrow> string \<Rightarrow> web_session \<Rightarrow> persona_choice list \<times> string \<times> string option" where
  "demo_login personas approvers next_url s =
     (map (\<lambda>p. \<lparr>pc_persona = p, pc_is_approver = (pn_principal_id p \<in> approvers)\<rparr>) personas,
      safe_destination next_url, ws_principal_id s)"

definition signin :: "persona list \<Rightarrow> string \<Rightarrow> string \<Rightarrow> web_session \<Rightarrow> web_session \<times> string" where
  "signin personas principal_id next_url s =
     (case find (\<lambda>p. pn_principal_id p = principal_id) personas of
        None \<Rightarrow> (s, ''/auth/login?error=unknown'')
      | Some p \<Rightarrow>
          (s\<lparr>ws_principal_id := Some (pn_principal_id p), ws_display_name := Some (pn_display_name p), ws_demo_login := True\<rparr>,
           safe_destination next_url))"

definition demo_logout :: "web_session \<Rightarrow> web_session \<times> string" where
  "demo_logout s = (no_session, ''/auth/login'')"

definition require_session_principal :: "web_session \<Rightarrow> nat + string" where
  "require_session_principal s = (case given (ws_principal_id s) of None \<Rightarrow> Inl 401 | Some p \<Rightarrow> Inr p)"

section \<open>The console\<close>

record console_state =
  co_cookies :: "web_session set"
  co_revocations :: revocation_db
  co_escalations :: "escalation_row list"

definition fresh_console :: console_state where
  "fresh_console = \<lparr>co_cookies = {}, co_revocations = \<lparr>rv_rows = [], rv_identity = 1\<rparr>, co_escalations = []\<rparr>"

text \<open>The settings as the routes of the two components read them.\<close>

definition operator_view :: "('k, 'pk) control_plane_settings \<Rightarrow> operator_settings" where
  "operator_view s = \<lparr>op_approvers = cp_approvers s, op_tokens = ct_operator_tokens s\<rparr>"

definition presents :: "console_state \<Rightarrow> web_session \<Rightarrow> bool" where
  "presents st c \<longleftrightarrow> c = no_session \<or> c \<in> co_cookies st"

definition issue :: "web_session \<Rightarrow> console_state \<Rightarrow> console_state" where
  "issue c st = st\<lparr>co_cookies := insert c (co_cookies st)\<rparr>"

text \<open>
  A request of any caller against an application wired as \<open>w\<close>, with settings \<open>s\<close>.  \<open>idp\<close> are the
  subjects the OpenID issuer vouches for.
\<close>

inductive console_step ::
  "('b, 'k) biscuit_lib \<Rightarrow> ('k, 'pk) wiring \<Rightarrow> ('k, 'pk) control_plane_settings \<Rightarrow> string set
    \<Rightarrow> console_state \<Rightarrow> console_state \<Rightarrow> bool"
  for lib w s idp where
  oidc_login: "mounted_login w = OIDCLogin os \<Longrightarrow> presents st c
    \<Longrightarrow> console_step lib w s idp st (issue (oidc_login next_url c) st)"
| oidc_callback: "mounted_login w = OIDCLogin os \<Longrightarrow> presents st c \<Longrightarrow> oidc_callback answer c = (c', r)
    \<Longrightarrow> (\<And>ui sub. answer = Some (Some ui) \<Longrightarrow> ui_sub ui = Some sub \<Longrightarrow> sub \<in> idp)
    \<Longrightarrow> console_step lib w s idp st (issue c' st)"
| oidc_logout: "mounted_login w = OIDCLogin os \<Longrightarrow> oidc_logout metadata c = (c', loc)
    \<Longrightarrow> console_step lib w s idp st (issue c' st)"
| demo_signin: "mounted_login w = DemoLogin personas \<Longrightarrow> presents st c \<Longrightarrow> signin personas who next_url c = (c', loc)
    \<Longrightarrow> console_step lib w s idp st (issue c' st)"
| demo_logout: "mounted_login w = DemoLogin personas \<Longrightarrow> demo_logout c = (c', loc)
    \<Longrightarrow> console_step lib w s idp st (issue c' st)"
| noted: "session_wired w \<Longrightarrow> presents st c
    \<Longrightarrow> console_step lib w s idp st (issue (c\<lparr>ws_last_call := Some call\<rparr>) st)"
| revokes: "session_wired w \<Longrightarrow> presents st c
    \<Longrightarrow> revoke_route (operator_view s) (ws_principal_id c) authorization fresh block scope reason expires now_t announce
          (co_revocations st) = (db, r)
    \<Longrightarrow> console_step lib w s idp st (st\<lparr>co_revocations := db\<rparr>)"
| opens: "session_wired w
    \<Longrightarrow> open_escalation fresh did tid agent pid ihash scopes amount reason ttl now_t (co_escalations st) = (rows, opened)
    \<Longrightarrow> console_step lib w s idp st (st\<lparr>co_escalations := rows\<rparr>)"
| approves: "session_wired w \<Longrightarrow> presents st c
    \<Longrightarrow> approve_escalation lib (cp_settings.truncate s) fresh (ws_principal_id c) i ttl narrowed max_amount now_t
          (co_escalations st) = (rows, answered)
    \<Longrightarrow> console_step lib w s idp st (st\<lparr>co_escalations := rows\<rparr>)"
| denies: "session_wired w \<Longrightarrow> presents st c
    \<Longrightarrow> deny_escalation (cp_settings.truncate s) (ws_principal_id c) i reason now_t (co_escalations st) = (rows, denied)
    \<Longrightarrow> console_step lib w s idp st (st\<lparr>co_escalations := rows\<rparr>)"

text \<open>Who a session can be of.\<close>

definition vouched :: "login_routes \<Rightarrow> string set \<Rightarrow> string set" where
  "vouched routes idp =
     (case routes of
        NoLogin \<Rightarrow> {}
      | OIDCLogin _ \<Rightarrow> (\<lambda>sub. ''kc:'' @ sub) ` idp
      | DemoLogin personas \<Rightarrow> set (map pn_principal_id personas))"

section \<open>Operator tokens\<close>

text \<open>What a text binds: the pairs its entries read as.\<close>

definition binds :: "string list \<Rightarrow> string \<Rightarrow> string \<Rightarrow> bool" where
  "binds es secret who \<longleftrightarrow> (\<exists>e \<in> set es. operator_entry e = Inr (who, secret))"

lemma alist_update_same: "map_of al k = Some v \<Longrightarrow> AList.update k v al = al"
  by (induction al) (auto split: if_splits)

lemma alist_update_fresh: "map_of al k = None \<Longrightarrow> AList.update k v al = al @ [(k, v)]"
  by (induction al) (auto split: if_splits)

lemma operator_step_iff:
  assumes "distinct (map fst tokens)" "map_of tokens secret = None \<or> map_of tokens secret = Some who"
  shows "distinct (map fst (AList.update secret who tokens))"
    "set (AList.update secret who tokens) = insert (secret, who) (set tokens)"
proof -
  show "distinct (map fst (AList.update secret who tokens))" by (rule distinct_update[OF assms(1)])
  show "set (AList.update secret who tokens) = insert (secret, who) (set tokens)"
  proof (cases "map_of tokens secret")
    case None
    then show ?thesis by (simp add: alist_update_fresh)
  next
    case (Some v)
    then have "map_of tokens secret = Some who" using assms(2) by simp
    then show ?thesis using map_of_SomeD[of tokens secret who] by (auto simp: alist_update_same)
  qed
qed

lemma operator_entries_spec:
  assumes "operator_entries approvers es tokens = Inr tokens'" "distinct (map fst tokens)"
  shows "distinct (map fst tokens')" "(s, p) \<in> set tokens' \<longleftrightarrow> (s, p) \<in> set tokens \<or> binds es s p"
    "\<forall>e \<in> set es. \<exists>p s. operator_entry e = Inr (p, s) \<and> p \<in> approvers"
proof -
  have "distinct (map fst tokens') \<and> (\<forall>s p. (s, p) \<in> set tokens' \<longleftrightarrow> (s, p) \<in> set tokens \<or> binds es s p)
    \<and> (\<forall>e \<in> set es. \<exists>p s. operator_entry e = Inr (p, s) \<and> p \<in> approvers)"
    using assms
  proof (induction es arbitrary: tokens)
    case Nil
    then show ?case by (simp add: binds_def)
  next
    case (Cons e es)
    obtain who secret where e: "operator_entry e = Inr (who, secret)" "who \<in> approvers"
      and ok: "map_of tokens secret = None \<or> map_of tokens secret = Some who"
      and rest: "operator_entries approvers es (AList.update secret who tokens) = Inr tokens'"
      using Cons.prems(1) by (auto split: if_splits)
    note step = operator_step_iff[OF Cons.prems(2) ok]
    have ih: "distinct (map fst tokens')"
      "\<forall>s p. (s, p) \<in> set tokens' \<longleftrightarrow> (s, p) \<in> set (AList.update secret who tokens) \<or> binds es s p"
      "\<forall>e \<in> set es. \<exists>p s. operator_entry e = Inr (p, s) \<and> p \<in> approvers"
      using Cons.IH[OF rest step(1)] by simp_all
    show ?case using ih e step(2) by (auto simp: binds_def)
  qed
  then show "distinct (map fst tokens')" "(s, p) \<in> set tokens' \<longleftrightarrow> (s, p) \<in> set tokens \<or> binds es s p"
    "\<forall>e \<in> set es. \<exists>p s. operator_entry e = Inr (p, s) \<and> p \<in> approvers" by simp_all
qed

lemma operator_entries_ok:
  assumes "\<forall>e \<in> set es. \<exists>p s. operator_entry e = Inr (p, s) \<and> p \<in> approvers"
    "\<And>s p q. (s, p) \<in> set tokens \<or> binds es s p \<Longrightarrow> (s, q) \<in> set tokens \<or> binds es s q \<Longrightarrow> p = q"
    "distinct (map fst tokens)"
  shows "\<exists>tokens'. operator_entries approvers es tokens = Inr tokens'"
  using assms
proof (induction es arbitrary: tokens)
  case (Cons e es)
  obtain who secret where e: "operator_entry e = Inr (who, secret)" "who \<in> approvers" using Cons.prems(1) by auto
  have b: "binds (e # es) s p \<longleftrightarrow> (s = secret \<and> p = who) \<or> binds es s p" for s p using e by (auto simp: binds_def)
  have ok: "map_of tokens secret = None \<or> map_of tokens secret = Some who"
  proof (cases "map_of tokens secret")
    case (Some q)
    then have "(secret, q) \<in> set tokens" by (rule map_of_SomeD)
    then show ?thesis using Cons.prems(2)[of secret q who] b Some by simp
  qed simp
  note step = operator_step_iff[OF Cons.prems(3) ok]
  have uniq: "p = q" if "(s, p) \<in> set (AList.update secret who tokens) \<or> binds es s p"
    "(s, q) \<in> set (AList.update secret who tokens) \<or> binds es s q" for s p q
    using Cons.prems(2)[of s p q] that unfolding step(2) b by blast
  have well: "\<forall>e \<in> set es. \<exists>p s. operator_entry e = Inr (p, s) \<and> p \<in> approvers" using Cons.prems(1) by simp
  show ?case using Cons.IH[OF well uniq step(1)] e ok by auto
qed simp

lemma foldl_last_match:
  "distinct (map fst tokens) \<Longrightarrow>
    foldl (\<lambda>matched (secret, operator). if presented = secret then Some operator else matched) acc tokens
      = (case map_of tokens presented of None \<Rightarrow> acc | Some p \<Rightarrow> Some p)"
proof (induction tokens arbitrary: acc)
  case (Cons t ts)
  then show ?case by (cases t) (auto simp: map_of_eq_None_iff image_iff split: option.splits dest: map_of_SomeD)
qed simp

text \<open>The secret a bearer header presents.\<close>

definition bearer_secret :: "string \<Rightarrow> string option" where
  "bearer_secret authorization =
     (let scheme = takeWhile (\<lambda>c. c \<noteq> CHR '' '') authorization;
          presented = strip (drop (Suc (length scheme)) authorization)
      in if lower_case scheme \<noteq> ''bearer'' \<or> presented = [] then None else Some presented)"

lemma bearer_operator_dict:
  "distinct (map fst tokens) \<Longrightarrow>
    bearer_operator tokens h = (case bearer_secret h of None \<Rightarrow> None | Some s \<Rightarrow> map_of tokens s)"
  by (auto simp: bearer_operator_def bearer_secret_def Let_def foldl_last_match split: option.split)

lemma bearer_operator_binds:
  assumes "parse_operator_tokens raw approvers = Inr tokens"
  shows "bearer_operator tokens h = Some p \<longleftrightarrow> (\<exists>s. bearer_secret h = Some s \<and> binds (entries_of raw) s p)"
    "binds (entries_of raw) s p \<Longrightarrow> p \<in> approvers"
proof -
  note spec = operator_entries_spec[OF assms[unfolded parse_operator_tokens_def], simplified]
  have "map_of tokens s = Some p \<longleftrightarrow> binds (entries_of raw) s p" for s p
    using spec(1,2) by simp
  then show "bearer_operator tokens h = Some p \<longleftrightarrow> (\<exists>s. bearer_secret h = Some s \<and> binds (entries_of raw) s p)"
    using spec(1) by (auto simp: bearer_operator_dict split: option.split)
  show "binds (entries_of raw) s p \<Longrightarrow> p \<in> approvers" using spec(3) by (auto simp: binds_def)
qed

text \<open>
  A presented secret names one principal.  The operator tokens are accepted exactly when every
  entry is well formed, names an approver and no secret is bound to two principals; a bearer header
  then stands for a principal exactly when some entry binds its secret to that principal, whatever
  the order or repetition of the entries.
\<close>
theorem operator_secret_names_one:
  "is_ok (parse_operator_tokens raw approvers) = ((\<forall>e \<in> set (entries_of raw). \<exists>p s. operator_entry e = Inr (p, s) \<and> p \<in> approvers)
      \<and> (\<forall>s p q. binds (entries_of raw) s p \<longrightarrow> binds (entries_of raw) s q \<longrightarrow> p = q))
    \<and> (\<forall>tokens h p. parse_operator_tokens raw approvers = Inr tokens \<longrightarrow>
         (bearer_operator tokens h = Some p) = (\<exists>s. bearer_secret h = Some s \<and> binds (entries_of raw) s p))"
proof (intro conjI allI impI)
  show "is_ok (parse_operator_tokens raw approvers) = ((\<forall>e \<in> set (entries_of raw). \<exists>p s. operator_entry e = Inr (p, s) \<and> p \<in> approvers)
      \<and> (\<forall>s p q. binds (entries_of raw) s p \<longrightarrow> binds (entries_of raw) s q \<longrightarrow> p = q))"
  proof
    assume "is_ok (parse_operator_tokens raw approvers)"
    then obtain tokens where t: "operator_entries approvers (entries_of raw) [] = Inr tokens"
      by (auto simp: is_ok_iff parse_operator_tokens_def)
    have d: "distinct (map fst ([] :: (string \<times> string) list))" by simp
    note spec = operator_entries_spec[OF t d]
    show "(\<forall>e \<in> set (entries_of raw). \<exists>p s. operator_entry e = Inr (p, s) \<and> p \<in> approvers)
      \<and> (\<forall>s p q. binds (entries_of raw) s p \<longrightarrow> binds (entries_of raw) s q \<longrightarrow> p = q)"
    proof (intro conjI allI impI)
      show "\<forall>e \<in> set (entries_of raw). \<exists>p s. operator_entry e = Inr (p, s) \<and> p \<in> approvers" by (rule spec(3))
      fix s p q assume "binds (entries_of raw) s p" "binds (entries_of raw) s q"
      then have "(s, p) \<in> set tokens" "(s, q) \<in> set tokens" by (simp_all add: spec(2))
      then show "p = q" using map_of_is_SomeI[OF spec(1), of s p] map_of_is_SomeI[OF spec(1), of s q] by simp
    qed
  next
    assume a: "(\<forall>e \<in> set (entries_of raw). \<exists>p s. operator_entry e = Inr (p, s) \<and> p \<in> approvers)
      \<and> (\<forall>s p q. binds (entries_of raw) s p \<longrightarrow> binds (entries_of raw) s q \<longrightarrow> p = q)"
    have "\<exists>tokens. operator_entries approvers (entries_of raw) [] = Inr tokens"
      by (rule operator_entries_ok) (use a in auto)
    then show "is_ok (parse_operator_tokens raw approvers)" by (simp add: is_ok_iff parse_operator_tokens_def)
  qed
  fix tokens h p assume "parse_operator_tokens raw approvers = Inr tokens"
  then show "(bearer_operator tokens h = Some p) = (\<exists>s. bearer_secret h = Some s \<and> binds (entries_of raw) s p)"
    by (rule bearer_operator_binds(1))
qed

section \<open>Who acted\<close>

lemma settings_tokens:
  assumes "create_app_from_env keys env = Inr w" "wi_settings w = Some s"
  shows "parse_operator_tokens (env_text env ''OPERATOR_TOKENS'') (cp_approvers s) = Inr (ct_operator_tokens s)"
proof -
  have "control_plane_from_env keys env = Inr s"
    using assms by (auto simp: create_app_from_env_def Let_def)
  then show ?thesis by (auto simp: control_plane_from_env_def Let_def split: if_splits)
qed

lemma view_fields [simp]:
  "op_approvers (operator_view s) = cp_approvers s" "op_tokens (operator_view s) = ct_operator_tokens s"
  "cp_approvers (cp_settings.truncate s) = cp_approvers s"
  by (simp_all add: operator_view_def cp_settings.truncate_def)

text \<open>A resolved row names its approver, who is on the allowlist and is not the requester.\<close>

definition resolved_ok :: "string set \<Rightarrow> string set \<Rightarrow> escalation_row list \<Rightarrow> bool" where
  "resolved_ok approvers people rows \<longleftrightarrow> escalations_ok rows
     \<and> (\<forall>r \<in> set rows. \<forall>p. er_resolved_by r = Some p \<longrightarrow> p \<in> approvers \<and> p \<in> people \<and> p \<noteq> er_principal_id r)"

lemma open_keeps_resolved:
  assumes "open_escalation fresh did tid agent pid ihash scopes amount reason ttl now_t rows = (rows', r)"
    "resolved_ok approvers people rows"
  shows "resolved_ok approvers people rows'"
proof -
  have "rows' = rows \<or> (\<exists>x. rows' = rows @ [x] \<and> escalations_ok rows' \<and> er_resolved_by x = None)"
    using assms(1)
    by (auto simp: open_escalation_def create_escalation_def new_row_def split: if_splits option.splits sum.splits prod.splits)
  then show ?thesis using assms(2) by (auto simp: resolved_ok_def)
qed

lemma resolve_keeps_resolved:
  assumes "resolved_ok approvers people rows" "load_for_update rows i = Inr r" "p \<in> approvers" "p \<in> people"
    "p \<noteq> er_principal_id r"
    and f: "\<And>r. er_id (f r) = er_id r" "\<And>r. er_decision_id (f r) = er_decision_id r"
      "\<And>r. er_requested_amount (f r) = er_requested_amount r" "\<And>r. er_principal_id (f r) = er_principal_id r"
      "\<And>r. er_resolved_by (f r) = Some p"
  shows "resolved_ok approvers people (write_row i f rows)"
proof -
  have ok: "escalations_ok rows" and rows: "\<And>x q. x \<in> set rows \<Longrightarrow> er_resolved_by x = Some q
      \<Longrightarrow> q \<in> approvers \<and> q \<in> people \<and> q \<noteq> er_principal_id x"
    using assms(1) by (auto simp: resolved_ok_def)
  have "escalations_ok (write_row i f rows)" by (rule write_row_ok[OF ok f(1-3)])
  moreover have "x = r" if "x \<in> set rows" "er_id x = i" for x
    using row_by_id[OF ok that(1), of r] load_Inr[OF assms(2)] that(2) by simp
  ultimately show ?thesis using rows assms(3-5) f(4,5) by (auto simp: resolved_ok_def write_row_def)
qed

lemma approve_keeps_resolved:
  assumes "resolve_approve i p approvers now_t ttl narrowed max_amount rows = (rows', x)"
    "resolved_ok approvers people rows" "p \<in> people"
  shows "resolved_ok approvers people rows'"
proof (cases x)
  case (Inl err)
  then show ?thesis using refused_approve_keeps assms(1,2) by blast
next
  case (Inr eg)
  then obtain e g r where r: "load_for_update rows i = Inr r"
    and ap: "approve (to_domain r) p approvers now_t ttl narrowed max_amount = Inr (e, g)"
    and rows': "rows' = write_row i (\<lambda>r. r\<lparr>er_state := es_state e, er_resolved_by := es_resolved_by e,
                              er_resolved_at := es_resolved_at e\<rparr>) rows"
    using assms(1) by (auto simp: resolve_approve_def split: sum.splits)
  have "p \<in> approvers" "p \<noteq> er_principal_id r" "es_resolved_by e = Some p"
    using approve_Inr(1,2)[OF ap] by (simp_all add: check_resolvable_iff)
  then show ?thesis unfolding rows' by (intro resolve_keeps_resolved[OF assms(2) r _ assms(3)]) simp_all
qed

lemma deny_keeps_resolved:
  assumes "resolve_deny i p approvers now_t reason rows = (rows', x)" "resolved_ok approvers people rows" "p \<in> people"
  shows "resolved_ok approvers people rows'"
proof (cases x)
  case (Inl err)
  then show ?thesis using assms(1,2) by (auto simp: resolve_deny_def split: sum.splits)
next
  case (Inr e)
  then obtain r where r: "load_for_update rows i = Inr r"
    and d: "deny_with_reason (to_domain r) p approvers now_t reason = Inr e"
    and rows': "rows' = write_row i (\<lambda>r. r\<lparr>er_state := es_state e, er_resolved_by := es_resolved_by e,
                              er_resolved_at := es_resolved_at e, er_resolution_reason := es_resolution_reason e\<rparr>) rows"
    using assms(1) by (auto simp: resolve_deny_def split: sum.splits)
  have "p \<in> approvers" "p \<noteq> er_principal_id r" "es_resolved_by e = Some p"
    using deny_Inr(1)[OF d] d by (auto simp: check_resolvable_iff deny_with_reason_def split: if_splits)
  then show ?thesis unfolding rows' by (intro resolve_keeps_resolved[OF assms(2) r _ assms(3)]) simp_all
qed

lemma approval_rows:
  "fst (approve_escalation lib settings fresh sp i ttl narrowed max_amount now_t rows)
     = (case sp of None \<Rightarrow> rows | Some p \<Rightarrow>
          if p = [] \<or> \<not> within_opt (\<lambda>a. 0 \<le> a) max_amount then rows
          else (case ttl of None \<Rightarrow> rows | Some d \<Rightarrow>
            fst (resolve_approve i p (cp_approvers settings) now_t d (map_option set narrowed) max_amount rows)))"
  by (simp add: approve_escalation_def split: option.split sum.split prod.split)

lemma denial_rows:
  "fst (deny_escalation settings sp i reason now_t rows)
     = (case sp of None \<Rightarrow> rows | Some p \<Rightarrow>
          if p = [] then rows else fst (resolve_deny i p (cp_approvers settings) now_t reason rows))"
  by (simp add: deny_escalation_def split: option.split sum.split prod.split)

lemma approval_keeps_resolved:
  assumes "approve_escalation lib settings fresh sp i ttl narrowed max_amount now_t rows = (rows', x)"
    "resolved_ok (cp_approvers settings) people rows" "\<And>p. sp = Some p \<Longrightarrow> p \<in> people"
  shows "resolved_ok (cp_approvers settings) people rows'"
proof -
  have "resolved_ok (cp_approvers settings) people
      (fst (resolve_approve i p (cp_approvers settings) now_t d (map_option set narrowed) max_amount rows))"
    if "sp = Some p" for p d
    using approve_keeps_resolved[OF prod.collapse[symmetric] assms(2) assms(3)[OF that]] .
  then show ?thesis
    using approval_rows[of lib settings fresh sp i ttl narrowed max_amount now_t rows] assms(1,2)
    by (simp split: option.splits if_splits)
qed

lemma denial_keeps_resolved:
  assumes "deny_escalation settings sp i reason now_t rows = (rows', x)"
    "resolved_ok (cp_approvers settings) people rows" "\<And>p. sp = Some p \<Longrightarrow> p \<in> people"
  shows "resolved_ok (cp_approvers settings) people rows'"
proof -
  have "resolved_ok (cp_approvers settings) people (fst (resolve_deny i p (cp_approvers settings) now_t reason rows))"
    if "sp = Some p" for p
    using deny_keeps_resolved[OF prod.collapse[symmetric] assms(2) assms(3)[OF that]] .
  then show ?thesis
    using denial_rows[of settings sp i reason now_t rows] assms(1,2)
    by (simp split: option.splits if_splits)
qed

definition console_inv :: "('k, 'pk) wiring \<Rightarrow> ('k, 'pk) control_plane_settings \<Rightarrow> string set \<Rightarrow> string list \<Rightarrow> console_state \<Rightarrow> bool" where
  "console_inv w s idp es st \<longleftrightarrow>
     (\<forall>c \<in> co_cookies st. \<forall>p. ws_principal_id c = Some p \<longrightarrow> p \<in> vouched (mounted_login w) idp)
   \<and> (\<forall>r \<in> set (rv_rows (co_revocations st)). rv_revoked_by r \<in> cp_approvers s
        \<and> (rv_revoked_by r \<in> vouched (mounted_login w) idp \<or> (\<exists>secret. binds es secret (rv_revoked_by r))))
   \<and> resolved_ok (cp_approvers s) (vouched (mounted_login w) idp) (co_escalations st)"

lemma issue_keeps:
  "console_inv w s idp es st \<Longrightarrow> (\<And>p. ws_principal_id c = Some p \<Longrightarrow> p \<in> vouched (mounted_login w) idp)
    \<Longrightarrow> console_inv w s idp es (issue c st)"
  by (simp add: console_inv_def issue_def)

lemma presented_principal:
  "console_inv w s idp es st \<Longrightarrow> presents st c \<Longrightarrow> ws_principal_id c = Some p \<Longrightarrow> p \<in> vouched (mounted_login w) idp"
  by (auto simp: console_inv_def presents_def no_session_def)

lemma console_step_keeps:
  assumes tokens: "parse_operator_tokens raw (cp_approvers s) = Inr (ct_operator_tokens s)"
  shows "console_step lib w s idp st st' \<Longrightarrow> console_inv w s idp (entries_of raw) st \<Longrightarrow> console_inv w s idp (entries_of raw) st'"
proof (induction rule: console_step.induct)
  case (oidc_login os st c next_url)
  show ?case using presented_principal[OF oidc_login(3,2)]
    by (intro issue_keeps[OF oidc_login(3)]) (simp add: oidc_login_def)
next
  case (oidc_callback os st c answer c' r)
  show ?case
  proof (rule issue_keeps[OF oidc_callback(5)])
    fix p assume p: "ws_principal_id c' = Some p"
    show "p \<in> vouched (mounted_login w) idp"
    proof (cases "c' = c")
      case True
      then show ?thesis using presented_principal[OF oidc_callback(5,2)] p by simp
    next
      case False
      then obtain ui sub where "answer = Some (Some ui)" "ui_sub ui = Some sub" "ws_principal_id c' = Some (''kc:'' @ sub)"
        using oidc_callback(3) by (auto simp: oidc_callback_def given_def Let_def split: option.splits if_splits)
      then show ?thesis using oidc_callback(1,4) p by (simp add: vouched_def)
    qed
  qed
next
  case (oidc_logout os metadata c c' loc st)
  show ?case using oidc_logout(2)
    by (intro issue_keeps[OF oidc_logout(3)]) (auto simp: oidc_logout_def no_session_def)
next
  case (demo_signin personas st c who next_url c' loc)
  show ?case
  proof (rule issue_keeps[OF demo_signin(4)])
    fix p assume p: "ws_principal_id c' = Some p"
    show "p \<in> vouched (mounted_login w) idp"
    proof (cases "find (\<lambda>p. pn_principal_id p = who) personas")
      case None
      then show ?thesis using presented_principal[OF demo_signin(4,2)] demo_signin(3) p by (simp add: signin_def)
    next
      case (Some x)
      then have "x \<in> set personas" by (auto simp: find_Some_iff)
      moreover have "p = pn_principal_id x" using demo_signin(3) p Some by (auto simp: signin_def)
      ultimately have "p = pn_principal_id x" "x \<in> set personas" by simp_all
      then show ?thesis using demo_signin(1) by (simp add: vouched_def)
    qed
  qed
next
  case (demo_logout personas c c' loc st)
  show ?case using demo_logout(2)
    by (intro issue_keeps[OF demo_logout(3)]) (auto simp: demo_logout_def no_session_def)
next
  case (noted st c call)
  show ?case using presented_principal[OF noted(3,2)] by (intro issue_keeps[OF noted(3)]) simp
next
  case (revokes st c authorization fresh block scope reason expires now_t announce db r)
  have "rv_revoked_by x \<in> cp_approvers s \<and> (rv_revoked_by x \<in> vouched (mounted_login w) idp
      \<or> (\<exists>secret. binds (entries_of raw) secret (rv_revoked_by x)))" if x: "x \<in> set (rv_rows db)" for x
  proof (cases "x \<in> set (rv_rows (co_revocations st))")
    case True
    then show ?thesis using revokes(4) by (simp add: console_inv_def)
  next
    case False
    then obtain p where p: "acting_principal (operator_view s) (ws_principal_id c) authorization = Some p"
      "p \<in> cp_approvers s" "rv_revoked_by x = p"
      using revoke_route_authenticated_idempotent[OF revokes(3)] x by fastforce
    from p(1) have "ws_principal_id c = Some p \<or> bearer_operator (ct_operator_tokens s) authorization = Some p"
      by (auto simp: acting_principal_def split: option.splits if_splits)
    then show ?thesis
      using presented_principal[OF revokes(4,2)] bearer_operator_binds(1)[OF tokens] p(2,3) by blast
  qed
  then show ?case using revokes(4) by (simp add: console_inv_def)
next
  case (opens fresh did tid agent pid ihash scopes amount reason ttl now_t st rows opened)
  then show ?case using open_keeps_resolved[OF opens(2)] by (simp add: console_inv_def)
next
  case (approves st c fresh i ttl narrowed max_amount now_t rows answered)
  have "resolved_ok (cp_approvers s) (vouched (mounted_login w) idp) rows"
    using approval_keeps_resolved[OF approves(3)] presented_principal[OF approves(4,2)] approves(4)
    by (simp add: console_inv_def)
  then show ?case using approves(4) by (simp add: console_inv_def)
next
  case (denies st c i reason now_t rows denied)
  have "resolved_ok (cp_approvers s) (vouched (mounted_login w) idp) rows"
    using denial_keeps_resolved[OF denies(3)] presented_principal[OF denies(4,2)] denies(4)
    by (simp add: console_inv_def)
  then show ?case using denies(4) by (simp add: console_inv_def)
qed

text \<open>
  C26: Every act on the console has a name behind it.  In a control plane configured from its
  environment, whatever its callers send, each revocation was made by an approver who was signed in
  or whose secret the environment binds to that name, and each resolved escalation by an approver who
  was signed in and is not the one asking; without a mounted login no escalation is ever resolved.
\<close>
theorem console_acts_have_names:
  assumes app: "create_app_from_env keys env = Inr w" "wi_settings w = Some s"
    and run: "(console_step lib w s idp)\<^sup>*\<^sup>* fresh_console st"
  shows "(\<forall>r \<in> set (rv_rows (co_revocations st)). rv_revoked_by r \<in> cp_approvers s
        \<and> (rv_revoked_by r \<in> vouched (mounted_login w) idp
           \<or> (\<exists>secret. binds (entries_of (env_text env ''OPERATOR_TOKENS'')) secret (rv_revoked_by r))))
    \<and> (\<forall>r \<in> set (co_escalations st). \<forall>p. er_resolved_by r = Some p \<longrightarrow>
         p \<in> cp_approvers s \<and> p \<in> vouched (mounted_login w) idp \<and> p \<noteq> er_principal_id r)
    \<and> (mounted_login w = NoLogin \<longrightarrow> (\<forall>r \<in> set (co_escalations st). er_resolved_by r = None))"
proof -
  have "console_inv w s idp (entries_of (env_text env ''OPERATOR_TOKENS'')) st"
    using run
  proof (induction rule: rtranclp_induct)
    case base
    show ?case by (simp add: console_inv_def fresh_console_def resolved_ok_def escalations_ok_def)
  next
    case (step y z)
    then show ?case using console_step_keeps[OF settings_tokens[OF app]] by blast
  qed
  then have i: "\<forall>r \<in> set (rv_rows (co_revocations st)). rv_revoked_by r \<in> cp_approvers s
        \<and> (rv_revoked_by r \<in> vouched (mounted_login w) idp
           \<or> (\<exists>secret. binds (entries_of (env_text env ''OPERATOR_TOKENS'')) secret (rv_revoked_by r)))"
    "\<forall>r \<in> set (co_escalations st). \<forall>p. er_resolved_by r = Some p \<longrightarrow>
         p \<in> cp_approvers s \<and> p \<in> vouched (mounted_login w) idp \<and> p \<noteq> er_principal_id r"
    by (simp_all add: console_inv_def resolved_ok_def)
  have "er_resolved_by r = None" if "mounted_login w = NoLogin" "r \<in> set (co_escalations st)" for r
    using i(2) that by (cases "er_resolved_by r") (auto simp: vouched_def)
  then show ?thesis using i by blast
qed

section \<open>Reading operator tokens back\<close>

definition clean_text :: "char set \<Rightarrow> string \<Rightarrow> bool" where
  "clean_text stops t \<longleftrightarrow> t \<noteq> [] \<and> strip t = t \<and> set t \<inter> stops = {}"

definition operator_line :: "(string \<times> string) list \<Rightarrow> string" where
  "operator_line ps = join_text '','' (map (\<lambda>(who, secret). who @ ''='' @ secret) ps)"

lemma strip_fixed_edges:
  assumes "strip t = t" "t \<noteq> []" shows "\<not> space_char (hd t)" "\<not> space_char (last t)"
proof -
  have len: "length (dropWhile space_char (rev (dropWhile space_char t))) = length t"
    using assms(1) by (metis length_rev strip_def)
  have le: "length (dropWhile space_char t) \<le> length t" by (rule length_dropWhile_le)
  have le2: "length (dropWhile space_char (rev (dropWhile space_char t))) \<le> length (rev (dropWhile space_char t))"
    by (rule length_dropWhile_le)
  have l: "length (dropWhile space_char t) = length t" using le le2 len by simp
  have whole: "dropWhile P xs = xs" if "length (dropWhile P xs) = length xs" for P and xs :: string
    using that takeWhile_dropWhile_id[of P xs] by (metis append_self_conv2 length_0_conv length_append add_cancel_right_left)
  have d: "dropWhile space_char t = t" by (rule whole[OF l])
  then show "\<not> space_char (hd t)" using assms(2) by (metis hd_dropWhile)
  have "length (dropWhile space_char (rev t)) = length (rev t)" using len d by simp
  then have "dropWhile space_char (rev t) = rev t" by (rule whole)
  then show "\<not> space_char (last t)" using assms(2) by (metis hd_dropWhile hd_rev rev_is_Nil_conv)
qed

lemma split_on_join:
  "ts \<noteq> [] \<Longrightarrow> \<forall>t \<in> set ts. c \<notin> set t \<Longrightarrow> split_on c (join_text [c] ts) = ts"
  by (induction ts rule: join_text.induct[of "\<lambda>_ ts. P ts" for P]) (auto simp: split_on_absent split_on_append)

lemma clean_entry:
  assumes "clean_text {CHR '','', CHR ''=''} who" "clean_text {CHR '',''} secret"
  shows "strip (who @ ''='' @ secret) = who @ ''='' @ secret" "CHR '','' \<notin> set (who @ ''='' @ secret)"
    "operator_entry (who @ ''='' @ secret) = Inr (who, secret)"
proof -
  have w: "\<not> space_char (hd who)" and s: "\<not> space_char (last secret)" and n: "who \<noteq> []" "secret \<noteq> []"
    and e: "CHR ''='' \<notin> set who"
    using assms strip_fixed_edges by (auto simp: clean_text_def)
  show "strip (who @ ''='' @ secret) = who @ ''='' @ secret" by (rule strip_edges) (use w s n in simp_all)
  show "CHR '','' \<notin> set (who @ ''='' @ secret)" using assms by (auto simp: clean_text_def)
  have t: "takeWhile (\<lambda>x. x \<noteq> CHR ''='') (who @ ''='' @ secret) = who"
    "dropWhile (\<lambda>x. x \<noteq> CHR ''='') (who @ ''='' @ secret) = ''='' @ secret"
    using e by (simp_all add: takeWhile_append2 dropWhile_append2 takeWhile_append dropWhile_append)
  show "operator_entry (who @ ''='' @ secret) = Inr (who, secret)"
    using assms n by (simp add: operator_entry_def partition_at_def t[simplified] clean_text_def)
qed

lemma operator_entries_fresh:
  assumes "\<forall>(who, secret) \<in> set ps. clean_text {CHR '','', CHR ''=''} who \<and> clean_text {CHR '',''} secret \<and> who \<in> approvers"
    "distinct (map snd ps)" "snd ` set ps \<inter> fst ` set tokens = {}"
  shows "operator_entries approvers (map (\<lambda>(who, secret). who @ ''='' @ secret) ps) tokens
    = Inr (tokens @ map (\<lambda>(who, secret). (secret, who)) ps)"
  using assms
proof (induction ps arbitrary: tokens)
  case (Cons p ps)
  obtain who secret where p: "p = (who, secret)" by (cases p)
  have c: "clean_text {CHR '','', CHR ''=''} who" "clean_text {CHR '',''} secret" "who \<in> approvers"
    using Cons.prems(1) by (simp_all add: p)
  have n: "map_of tokens secret = None" using Cons.prems(3) by (auto simp: p map_of_eq_None_iff)
  have "operator_entries approvers (map (\<lambda>(who, secret). who @ ''='' @ secret) ps) (tokens @ [(secret, who)])
      = Inr ((tokens @ [(secret, who)]) @ map (\<lambda>(who, secret). (secret, who)) ps)"
    by (rule Cons.IH) (use Cons.prems in \<open>auto simp: p\<close>)
  then show ?case using n c(3) clean_entry(3)[OF c(1,2)] by (simp add: p alist_update_fresh)
qed simp

text \<open>
  Operator tokens written in the documented syntax, \<open>principal=secret\<close> joined by commas, are
  read back as exactly the map from each secret to its principal, in order.
\<close>
theorem operator_tokens_read_back:
  assumes "\<forall>(who, secret) \<in> set ps. clean_text {CHR '','', CHR ''=''} who \<and> clean_text {CHR '',''} secret \<and> who \<in> approvers"
    "distinct (map snd ps)"
  shows "parse_operator_tokens (operator_line ps) approvers = Inr (map (\<lambda>(who, secret). (secret, who)) ps)"
proof -
  have "entries_of (operator_line ps) = map (\<lambda>(who, secret). who @ ''='' @ secret) ps"
  proof (cases "ps = []")
    case True
    then show ?thesis by (simp add: operator_line_def entries_of_def strip_def)
  next
    case False
    let ?es = "map (\<lambda>(who, secret). who @ ''='' @ secret) ps"
    have clean: "strip e = e \<and> CHR '','' \<notin> set e \<and> e \<noteq> []" if "e \<in> set ?es" for e
      using that assms(1) clean_entry(1,2) by fastforce
    have "split_on CHR '','' (operator_line ps) = ?es"
      unfolding operator_line_def by (rule split_on_join) (use False clean in blast)+
    moreover have "map strip ?es = ?es" using clean by (intro map_idI) blast
    moreover have "filter (\<lambda>e. e \<noteq> []) ?es = ?es" using clean by (intro filter_True) blast
    ultimately show ?thesis unfolding entries_of_def by metis
  qed
  then show ?thesis using operator_entries_fresh[OF assms, of "[]"] by (simp add: parse_operator_tokens_def)
qed

section \<open>Where a sign-in ends\<close>

definition same_origin :: "string \<Rightarrow> bool" where
  "same_origin loc \<longleftrightarrow> take 1 loc = ''/'' \<and> take 2 loc \<noteq> ''//''"

text \<open>The demo sign-in never leaves the site, and the login mounted beside no issuer is the only one.\<close>

theorem demo_signin_stays_on_site:
  "same_origin (snd (signin personas who next_url c)) \<and> same_origin (snd (demo_logout c))
    \<and> (mounted_login w = DemoLogin personas \<longrightarrow> wi_oidc w = None \<and> session_wired w)"
  by (auto simp: signin_def demo_logout_def safe_destination_def same_origin_def DEFAULT_DESTINATION_def
      mounted_login_def split: option.splits if_splits)

text \<open>The OpenID login takes the protocol-relative form, so a sign-in ends on another site.\<close>

theorem oidc_signin_leaves_site:
  "\<exists>next_url c'. oidc_callback (Some (Some \<lparr>ui_sub = Some ''alice'', ui_preferred_username = None, ui_name = None\<rparr>))
      (oidc_login next_url no_session) = (c', Inr next_url) \<and> take 1 next_url = ''/'' \<and> \<not> same_origin next_url"
  by (rule exI[of _ "''//evil.example''"])
    (simp add: oidc_callback_def oidc_login_def no_session_def given_def same_origin_def Let_def)

text \<open>Without a database no login is mounted, and yet the probe reports \<open>auth\<close> and the pages offer it.\<close>

theorem readyz_reports_unmounted_login:
  assumes "wi_database w = None" "wi_oidc w = Some os"
  shows "mounted_login w = NoLogin \<and> map_of (readyz w) ''auth'' = Some True \<and> login_mode w = Some ''oidc''"
  using assms by (simp add: mounted_login_def session_wired_def readyz_def login_mode_def)

section \<open>Witnesses\<close>

definition demo_keys :: "(nat, nat) key_lib" where
  "demo_keys = \<lparr>kl_private = (\<lambda>bs. Inr (length bs)), kl_public = (\<lambda>bs. Inr (length bs))\<rparr>"

definition demo_environ :: environ where
  "demo_environ = map_of
     [(''AGENTIAM_CONTROLPLANE_ROOT_PRIVATE_KEY'', replicate 64 CHR ''0''),
      (''AGENTIAM_CONTROLPLANE_APPROVERS'', ''kc:bob, kc:ann''),
      (''AGENTIAM_CONTROLPLANE_SESSION_SECRET_KEY'', ''salt''),
      (''AGENTIAM_CONTROLPLANE_OPERATOR_TOKENS'', ''kc:ann=s3, kc:ann=s4''),
      (''AGENTIAM_CONTROLPLANE_DEMO_LOGIN'', ''True''),
      (''AGENTIAM_CONTROLPLANE_DEMO_PERSONAS'', ''kc:bob=Bob|CFO,kc:eve''),
      (''DATABASE_URL'', ''db'')]"

definition demo_ct :: "(nat, nat) control_plane_settings" where
  "demo_ct = \<lparr>cp_approvers = {''kc:bob'', ''kc:ann''}, cp_elevation_max_depth = 1, cp_root_private_key = 32,
     ct_session_secret_key = ''salt'', ct_operator_tokens = [(''s3'', ''kc:ann''), (''s4'', ''kc:ann'')],
     ct_root_public_key = None, ct_pep_url = ''http://pep:8080''\<rparr>"

definition demo_wiring :: "(nat, nat) wiring" where
  "demo_wiring = \<lparr>wi_database = Some ''db'', wi_settings = Some demo_ct, wi_oidc = None,
     wi_demo = Some [\<lparr>pn_principal_id = ''kc:bob'', pn_display_name = ''Bob'', pn_title = ''CFO''\<rparr>,
                     \<lparr>pn_principal_id = ''kc:eve'', pn_display_name = ''kc:eve'', pn_title = []\<rparr>],
     wi_redis = None\<rparr>"

lemma demo_app: "create_app_from_env demo_keys demo_environ = Inr demo_wiring"
  by code_simp

theorem operator_secret_names_one_witness:
  "is_ok (parse_operator_tokens ''kc:ann=s3, kc:ann=s4'' {''kc:ann''})
   \<and> \<not> is_ok (parse_operator_tokens ''kc:ann=s3,kc:bob=s3'' {''kc:ann'', ''kc:bob''})"
proof -
  have e: "entries_of ''kc:ann=s3,kc:bob=s3'' = [''kc:ann=s3'', ''kc:bob=s3'']"
    "operator_entry ''kc:ann=s3'' = Inr (''kc:ann'', ''s3'')" "operator_entry ''kc:bob=s3'' = Inr (''kc:bob'', ''s3'')" by code_simp+
  have "binds (entries_of ''kc:ann=s3,kc:bob=s3'') ''s3'' ''kc:ann''" "binds (entries_of ''kc:ann=s3,kc:bob=s3'') ''s3'' ''kc:bob''"
    unfolding binds_def e(1) by (simp_all add: e)
  moreover have "''kc:ann'' \<noteq> ''kc:bob''" by simp
  ultimately have "\<not> (\<forall>s p q. binds (entries_of ''kc:ann=s3,kc:bob=s3'') s p \<longrightarrow> binds (entries_of ''kc:ann=s3,kc:bob=s3'') s q \<longrightarrow> p = q)"
    by blast
  then have "\<not> is_ok (parse_operator_tokens ''kc:ann=s3,kc:bob=s3'' {''kc:ann'', ''kc:bob''})"
    by (simp only: operator_secret_names_one[THEN conjunct1] simp_thms)
  moreover have "is_ok (parse_operator_tokens ''kc:ann=s3, kc:ann=s4'' {''kc:ann''})" by code_simp
  ultimately show ?thesis by simp
qed

theorem operator_tokens_read_back_witness:
  "parse_operator_tokens ''kc:ann=s=3,kc:bob=s 4'' {''kc:ann'', ''kc:bob''} = Inr [(''s=3'', ''kc:ann''), (''s 4'', ''kc:bob'')]"
proof -
  have c: "clean_text {CHR '','', CHR ''=''} ''kc:ann''" "clean_text {CHR '','', CHR ''=''} ''kc:bob''"
    "clean_text {CHR '',''} ''s=3''" "clean_text {CHR '',''} ''s 4''" by code_simp+
  show ?thesis
    using operator_tokens_read_back[of "[(''kc:ann'', ''s=3''), (''kc:bob'', ''s 4'')]" "{''kc:ann'', ''kc:bob''}"] c
    by (simp add: operator_line_def)
qed

lemma demo_console_revokes:
  "console_step lib demo_wiring demo_ct {} fresh_console
     (fresh_console\<lparr>co_revocations := \<lparr>rv_rows = [\<lparr>rv_id = 1, rv_seq = 1, rv_block_id = ''rid'', rv_scope = ''token'',
        rv_reason = ''leaked'', rv_revoked_by = ''kc:ann'', rv_revoked_at = 0, rv_expires_at = seconds 900\<rparr>], rv_identity = 2\<rparr>\<rparr>)"
proof (rule console_step.revokes)
  show "session_wired demo_wiring" by (simp add: session_wired_def demo_wiring_def)
  show "presents fresh_console no_session" by (simp add: presents_def)
  have "bearer_operator (ct_operator_tokens demo_ct) ''Bearer s4'' = Some ''kc:ann''" by code_simp
  then have "acting_principal (operator_view demo_ct) None ''Bearer s4'' = Some ''kc:ann''" by (simp add: acting_principal_def)
  then show "revoke_route (operator_view demo_ct) (ws_principal_id no_session) ''Bearer s4'' 1 ''rid'' ''token'' ''leaked'' (seconds 900) 0 None
      (co_revocations fresh_console) = (\<lparr>rv_rows = [\<lparr>rv_id = 1, rv_seq = 1, rv_block_id = ''rid'', rv_scope = ''token'',
        rv_reason = ''leaked'', rv_revoked_by = ''kc:ann'', rv_revoked_at = 0, rv_expires_at = seconds 900\<rparr>], rv_identity = 2\<rparr>,
        Inr \<lparr>rv_id = 1, rv_seq = 1, rv_block_id = ''rid'', rv_scope = ''token'',
        rv_reason = ''leaked'', rv_revoked_by = ''kc:ann'', rv_revoked_at = 0, rv_expires_at = seconds 900\<rparr>)"
    by (simp add: revoke_route_def revoke_def VALID_SCOPES_def fresh_console_def no_session_def demo_ct_def Let_def)
qed

theorem console_acts_have_names_witness:
  "\<exists>st r. (console_step (echo_lib []) demo_wiring demo_ct {})\<^sup>*\<^sup>* fresh_console st \<and> rv_rows (co_revocations st) = [r]
     \<and> rv_revoked_by r \<in> {''kc:bob'', ''kc:ann''} \<and> rv_revoked_by r \<notin> vouched (mounted_login demo_wiring) {}"
proof -
  let ?st = "fresh_console\<lparr>co_revocations := \<lparr>rv_rows = [\<lparr>rv_id = 1, rv_seq = 1, rv_block_id = ''rid'', rv_scope = ''token'',
        rv_reason = ''leaked'', rv_revoked_by = ''kc:ann'', rv_revoked_at = 0, rv_expires_at = seconds 900\<rparr>], rv_identity = 2\<rparr>\<rparr>"
  have run: "(console_step (echo_lib []) demo_wiring demo_ct {})\<^sup>*\<^sup>* fresh_console ?st"
    by (rule r_into_rtranclp[of "console_step (echo_lib []) demo_wiring demo_ct {}"]) (rule demo_console_revokes)
  have "wi_settings demo_wiring = Some demo_ct" by (simp add: demo_wiring_def)
  note safe = console_acts_have_names[OF demo_app this run]
  have "vouched (mounted_login demo_wiring) {} = {''kc:bob'', ''kc:eve''}"
    by (simp add: mounted_login_def session_wired_def demo_wiring_def vouched_def)
  then show ?thesis using run safe by (intro exI[of _ ?st]) (simp add: demo_ct_def)
qed

theorem readyz_reports_unmounted_login_witness:
  "login_mode (demo_wiring\<lparr>wi_database := None, wi_oidc := Some \<lparr>os_issuer = ''i'', os_client_id = ''c'', os_client_secret = ''s''\<rparr>\<rparr>)
     = Some ''oidc''"
  by (simp add: readyz_reports_unmounted_login)

end
