(* ===== verification/Authoring.thy ===== *)
theory Authoring
  imports Corpus Tasks Access
begin

text \<open>
  The pages of the control plane that act (\<open>agentiam_controlplane/app.py\<close>): testing, compiling and
  activating a policy, and the task driver.

  Cedar is the parameter of the policy component; what the natural-language compiler answers is an
  argument.  The current policy is the one text \<open>DummyBundleStore\<close> holds, the tasks are the registry of
  the task component.  A rendered page is the data its template shows.
\<close>

section \<open>Evaluating a case\<close>

text \<open>The attributes the console gives a tool; \<open>str\<close> and \<open>bool\<close> of the catalogue's values.\<close>

definition as_text :: "pvalue option \<Rightarrow> string \<Rightarrow> string" where
  "as_text v d = (case v of Some (PyStr s) \<Rightarrow> s | _ \<Rightarrow> d)"

definition console_facts :: "string option \<Rightarrow> tool_facts" where
  "console_facts t =
     (case map_of CORPUS_TOOLS (case t of None \<Rightarrow> [] | Some s \<Rightarrow> s) of
        None \<Rightarrow> \<lparr>tf_tool_id = [], tf_server = [], tf_sensitivity = ''low'', tf_is_external = False\<rparr>
      | Some m \<Rightarrow> \<lparr>tf_tool_id = as_text (map_of m ''tool_id'') [], tf_server = as_text (map_of m ''server'') [],
                   tf_sensitivity = as_text (map_of m ''sensitivity'') ''low'',
                   tf_is_external = (map_of m ''is_external'' = Some (PyBool True))\<rparr>)"

text \<open>\<open>quantize\<close> to four places, half to even; a coefficient of more than 28 digits is refused.\<close>

definition as_cedar_decimal :: "decimal \<Rightarrow> string option" where
  "as_cedar_decimal v =
     (let n = round_half_even (v * 10000) in
      if 10 ^ 28 \<le> \<bar>n\<bar> then None else Some (fixed4 (of_int n / 10000)))"

definition console_request :: "policy_test_case \<Rightarrow> string \<Rightarrow> cedar_request" where
  "console_request tc amount =
     (let q = [CHR 0x22]; t = (case tc_tool tc of None \<Rightarrow> [] | Some t \<Rightarrow> t) in
      \<lparr>cr_principal = ''Agent::'' @ q @ ''agent-1'' @ q, cr_action = ''Action::'' @ q @ tc_operation tc @ q,
       cr_resource = ''Tool::'' @ q @ t @ q, cr_amount = amount,
       cr_elevated = tc_elevated tc, cr_environment = tc_environment tc\<rparr>)"

definition console_entities :: "policy_test_case \<Rightarrow> cedar_entities" where
  "console_entities tc =
     \<lparr>ce_agent_id = ''agent-1'', ce_role = tc_role tc, ce_depth = tc_depth tc,
      ce_task_id = ''00000000-0000-0000-0000-000000000000'', ce_principal_id = ''test-principal'',
      ce_tool_uid = (case tc_tool tc of None \<Rightarrow> [] | Some t \<Rightarrow> t), ce_tool = console_facts (tc_tool tc)\<rparr>"

definition console_verdict :: "'ps cedar_lib \<Rightarrow> 'ps \<Rightarrow> policy_test_case \<Rightarrow> string \<Rightarrow> policy_verdict" where
  "console_verdict cedar ps tc amount =
     (case cl_is_authorized cedar (console_request tc amount) ps (console_entities tc) of
        (d, reasons) \<Rightarrow> \<lparr>pv_allowed = (d = CedarAllow), pv_statement = (case reasons of [] \<Rightarrow> None | r # _ \<Rightarrow> Some r),
                         pv_version = [], pv_stale = False\<rparr>)"

text \<open>\<open>None\<close> is an exception, which the test runner counts as an error.\<close>

definition console_case :: "'ps cedar_lib \<Rightarrow> 'ps \<Rightarrow> policy_test_case \<Rightarrow> policy_verdict option" where
  "console_case cedar ps tc = map_option (console_verdict cedar ps tc) (as_cedar_decimal (tc_amount tc))"

section \<open>The policy pages\<close>

record case_diff =
  cd_case :: policy_test_case
  cd_passed :: bool
  cd_candidate_allowed :: bool
  cd_current_allowed :: "bool option"
  cd_changed :: bool

text \<open>
  The difference to the current policy, if that parses.  \<open>None\<close> is an exception of the current
  policy's evaluation, which nothing catches.
\<close>

definition diff_of :: "'ps cedar_lib \<Rightarrow> 'ps option \<Rightarrow> policy_test_result \<Rightarrow> case_diff option" where
  "diff_of cedar current r =
     (case current of
        None \<Rightarrow> Some \<lparr>cd_case = tr_case r, cd_passed = tr_passed r, cd_candidate_allowed = tr_actual r,
                    cd_current_allowed = None, cd_changed = True\<rparr>
      | Some ps \<Rightarrow>
          map_option (\<lambda>v. \<lparr>cd_case = tr_case r, cd_passed = tr_passed r, cd_candidate_allowed = tr_actual r,
                           cd_current_allowed = Some (pv_allowed v), cd_changed = (pv_allowed v \<noteq> tr_actual r)\<rparr>)
            (console_case cedar ps (tr_case r)))"

fun diffs_of :: "'ps cedar_lib \<Rightarrow> 'ps option \<Rightarrow> policy_test_result list \<Rightarrow> (case_diff list) option" where
  "diffs_of cedar current [] = Some []"
| "diffs_of cedar current (r # rs) =
     (case diff_of cedar current r of
        None \<Rightarrow> None | Some d \<Rightarrow> map_option (\<lambda>ds. d # ds) (diffs_of cedar current rs))"

definition corpus_results :: "'ps cedar_lib \<Rightarrow> 'ps \<Rightarrow> policy_test_result list" where
  "corpus_results cedar ps = run_policy_tests CORPUS (console_case cedar ps)"

datatype tested = TestError | Tested policy_test_summary "case_diff list" | TestRaised

definition test_policy :: "'ps cedar_lib \<Rightarrow> string \<Rightarrow> string \<Rightarrow> tested" where
  "test_policy cedar current_source source =
     (case cl_parse cedar source of
        None \<Rightarrow> TestError
      | Some ps \<Rightarrow>
          (let results = corpus_results cedar ps in
           case diffs_of cedar (cl_parse cedar current_source) results of
             None \<Rightarrow> TestRaised | Some ds \<Rightarrow> Tested (summarize results) ds))"

text \<open>What the compiler answers: a question, or a source with tests.\<close>

record compiler_test_case =
  ck_name :: string
  ck_description :: string
  ck_expected :: bool
  ck_role :: string
  ck_operation :: string
  ck_tool :: string
  ck_amount :: string
  ck_depth :: int
  ck_elevated :: bool
  ck_environment :: string

record compiler_output =
  cu_clarifying_question :: "string option"
  cu_cedar_source :: "string option"
  cu_tests :: "compiler_test_case list"

definition as_policy_test_case :: "compiler_test_case \<Rightarrow> decimal \<Rightarrow> policy_test_case" where
  "as_policy_test_case t amount =
     \<lparr>tc_name = ck_name t, tc_description = ck_description t, tc_operation = ck_operation t, tc_expected = ck_expected t,
      tc_role = ck_role t, tc_tool = Some (ck_tool t), tc_amount = amount, tc_depth = ck_depth t, tc_agent_id = ''agt-1'',
      tc_principal_id = ''kc:alice'', tc_task_id = ''00000000-0000-0000-0000-000000000000'', tc_tags = [],
      tc_elevated = ck_elevated t, tc_environment = ck_environment t\<rparr>"

text \<open>
  A generated test: an amount that is no number or infinite raises and fails the test, a NaN keeps its
  text through \<open>quantize\<close> and reaches Cedar.
\<close>

definition auto_test_passes :: "'ps cedar_lib \<Rightarrow> 'ps \<Rightarrow> compiler_test_case \<Rightarrow> bool" where
  "auto_test_passes cedar ps t =
     (case (case decimal_of_string (if ck_amount t = [] then ''0'' else ck_amount t) of
              Inr (Fin v) \<Rightarrow> console_case cedar ps (as_policy_test_case t v)
            | Inr NaN \<Rightarrow> Some (console_verdict cedar ps (as_policy_test_case t 0) ''NaN'')
            | _ \<Rightarrow> None) of
        None \<Rightarrow> False | Some v \<Rightarrow> pv_allowed v = ck_expected t)"

record compile_page =
  np_cedar_source :: string
  np_auto_results :: "bool list"
  np_auto_tests_passed :: bool
  np_summary :: policy_test_summary
  np_diffs :: "case_diff list"
  np_corpus_passed :: bool
  np_can_activate :: bool

datatype compiled = CompileError | ClarifyingQuestion string | InvalidCedar | Compiled compile_page | CompileRaised

definition compile_policy :: "'ps cedar_lib \<Rightarrow> string \<Rightarrow> compiler_output option \<Rightarrow> compiled" where
  "compile_policy cedar current_source answer =
     (case answer of
        None \<Rightarrow> CompileError
      | Some out \<Rightarrow>
          (case given (cu_clarifying_question out) of
             Some question \<Rightarrow> ClarifyingQuestion question
           | None \<Rightarrow>
               (let source = (case cu_cedar_source out of None \<Rightarrow> [] | Some s \<Rightarrow> s) in
                case cl_parse cedar source of
                  None \<Rightarrow> InvalidCedar
                | Some ps \<Rightarrow>
                    (let auto = map (auto_test_passes cedar ps) (cu_tests out);
                         results = corpus_results cedar ps; summary = summarize results;
                         corpus_passed = (ts_failures summary = []) in
                     case diffs_of cedar (cl_parse cedar current_source) results of
                       None \<Rightarrow> CompileRaised
                     | Some ds \<Rightarrow>
                         Compiled \<lparr>np_cedar_source = source, np_auto_results = auto,
                           np_auto_tests_passed = list_all id auto, np_summary = summary, np_diffs = ds,
                           np_corpus_passed = corpus_passed,
                           np_can_activate = (list_all id auto \<and> corpus_passed)\<rparr>))))"

text \<open>The new current source, the status and the counts the answer shows.\<close>

definition activate_policy ::
  "'ps cedar_lib \<Rightarrow> string \<Rightarrow> string \<Rightarrow> string \<times> nat \<times> policy_test_summary option" where
  "activate_policy cedar current_source source =
     (case cl_parse cedar source of
        None \<Rightarrow> (current_source, 409, None)
      | Some ps \<Rightarrow>
          (let summary = summarize (corpus_results cedar ps) in
           if \<not> ts_all_passed summary then (current_source, 409, Some summary)
           else (source, 200, Some summary)))"

section \<open>The task driver\<close>

text \<open>
  The application is wired as \<open>w\<close>; the registry exists when both halves of the root key are
  configured.  The page shows the session once there is a registry, which raises when no session
  middleware was mounted.
\<close>

definition registry_ready :: "('k, 'pk) wiring \<Rightarrow> bool" where
  "registry_ready w = (case wi_settings w of None \<Rightarrow> False | Some s \<Rightarrow> ct_root_public_key s \<noteq> None)"

record run_view =
  rv_tasks :: "task_view list"
  rv_error :: bool
  rv_active_task :: string
  rv_shown_call :: "string option"

definition run_page :: "('k, 'pk) wiring \<Rightarrow> task_registry \<Rightarrow> bool \<Rightarrow> string \<Rightarrow> web_session \<Rightarrow> nat + run_view" where
  "run_page w reg failed active_task c =
     (if registry_ready w \<and> \<not> session_wired w then Inl 500
      else Inr \<lparr>rv_tasks = (if registry_ready w then map as_dict (list_tasks reg) else []), rv_error = failed,
                rv_active_task = active_task, rv_shown_call = (if registry_ready w then ws_last_call c else None)\<rparr>)"

text \<open>
  The budget is read as a number: a text that is none, and a NaN, which no comparison takes, are the
  errors the page shows; an infinity passes the checks of the registry and is refused by the model of
  the budget, which is not caught.
\<close>

definition post_run_task ::
  "('k, 'pk) wiring \<Rightarrow> ('b, 'k) biscuit_lib \<Rightarrow> hasher \<Rightarrow> 'k \<Rightarrow> uuid \<Rightarrow> instant \<Rightarrow> string \<Rightarrow> string
    \<Rightarrow> string set \<Rightarrow> string \<Rightarrow> web_session \<Rightarrow> task_registry \<Rightarrow> task_registry \<times> (nat + run_view)" where
  "post_run_task w lib sha sk fresh now_t description budget scopes principal_id c reg =
     (if \<not> registry_ready w then (reg, run_page w reg True [] c)
      else (case decimal_of_string budget of
              Inr (Fin b) \<Rightarrow>
                (case create_task lib sha sk fresh now_t description b scopes principal_id DEFAULT_TTL reg of
                   Inl TaskRegistryError \<Rightarrow> (reg, run_page w reg True [] c)
                 | Inl (TaskRaised _) \<Rightarrow> (reg, Inl 500)
                 | Inr (t, reg') \<Rightarrow> (reg', run_page w reg' False (uuid_str (tk_task_id t)) c))
            | Inr PosInf \<Rightarrow>
                if strip description = [] \<or> scopes = {} \<or> \<not> scopes \<subseteq> set GRANTABLE_SCOPES
                then (reg, run_page w reg True [] c) else (reg, Inl 500)
            | _ \<Rightarrow> (reg, run_page w reg True [] c)))"

text \<open>
  Of the exceptions that leave the registry only a \<open>ValueError\<close> is caught.  An infinite ceiling is refused
  where one beyond the range of the caveat is.
\<close>

definition post_run_agent ::
  "('k, 'pk) wiring \<Rightarrow> ('b, 'k) biscuit_lib \<Rightarrow> 'k \<Rightarrow> instant \<Rightarrow> string \<Rightarrow> string \<Rightarrow> string \<Rightarrow> string \<Rightarrow> string
    \<Rightarrow> string set \<Rightarrow> web_session \<Rightarrow> task_registry \<Rightarrow> task_registry \<times> (nat + run_view)" where
  "post_run_agent w lib pk now_t task_id parent_id agent_id role limit scopes c reg =
     (if \<not> registry_ready w then (reg, run_page w reg True [] c)
      else (case (uuid_of_string task_id,
                  case decimal_of_string limit of Inr (Fin v) \<Rightarrow> Some v | Inr PosInf \<Rightarrow> Some (10 ^ 16) | _ \<Rightarrow> None) of
              (Some t, Some v) \<Rightarrow>
                (case spawn_agent lib pk now_t t parent_id agent_id role scopes v reg of
                   Inl TaskRegistryError \<Rightarrow> (reg, run_page w reg True task_id c)
                 | Inl (TaskRaised e) \<Rightarrow> if e = ValueError then (reg, run_page w reg True task_id c) else (reg, Inl 500)
                 | Inr (_, reg') \<Rightarrow> (reg', run_page w reg' False task_id c))
            | _ \<Rightarrow> (reg, run_page w reg True task_id c)))"

record pep_call =
  pq_method :: string
  pq_url :: string
  pq_token :: string
  pq_amount :: "string option"

text \<open>
  What the enforcement point answers: unreachable, a body that is no JSON, JSON that is no object, or
  an object with its reason code, if it has one.
\<close>

datatype pep_answer = Unreachable | NotJson nat | JsonNoObject nat | JsonObject nat "string option"

definition outcome_text :: "pep_answer \<Rightarrow> string option" where
  "outcome_text a =
     (case a of
        Unreachable \<Rightarrow> Some ''could not reach the enforcement point''
      | NotJson st \<Rightarrow> Some (nat_str st @ '' OK'')
      | JsonNoObject st \<Rightarrow> None
      | JsonObject st reason \<Rightarrow> Some (nat_str st @ '' '' @ (case reason of None \<Rightarrow> ''OK'' | Some r \<Rightarrow> r)))"

definition call_for :: "string \<Rightarrow> string \<Rightarrow> string \<Rightarrow> string \<Rightarrow> pep_call option" where
  "call_for pep_url token action amount =
     (if action = ''pay'' then Some \<lparr>pq_method = ''POST'', pq_url = pep_url @ ''/proxy/payments'', pq_token = token, pq_amount = Some amount\<rparr>
      else if action = ''read-invoice'' then Some \<lparr>pq_method = ''GET'', pq_url = pep_url @ ''/proxy/invoices/inv_001'', pq_token = token, pq_amount = None\<rparr>
      else if action = ''read-vendor'' then Some \<lparr>pq_method = ''GET'', pq_url = pep_url @ ''/proxy/vendors/ven_01'', pq_token = token, pq_amount = None\<rparr>
      else None)"

text \<open>The calls sent, the session after, and the answer.\<close>

definition post_run_call ::
  "('k, 'pk) wiring \<Rightarrow> (pep_call \<Rightarrow> pep_answer) \<Rightarrow> string \<Rightarrow> string \<Rightarrow> string \<Rightarrow> string \<Rightarrow> web_session \<Rightarrow> task_registry
    \<Rightarrow> pep_call list \<times> web_session \<times> (nat + run_view)" where
  "post_run_call w upstream task_id agent_id action amount c reg =
     (case wi_settings w of
        None \<Rightarrow> ([], c, run_page w reg True [] c)
      | Some s \<Rightarrow>
          if \<not> registry_ready w then ([], c, run_page w reg True [] c)
          else (case (case uuid_of_string task_id of None \<Rightarrow> None
                        | Some t \<Rightarrow> (case token_for t agent_id reg of Inl _ \<Rightarrow> None | Inr tok \<Rightarrow> Some tok)) of
                  None \<Rightarrow> ([], c, run_page w reg True task_id c)
                | Some token \<Rightarrow>
                    (case call_for (ct_pep_url s) token action amount of
                       None \<Rightarrow> ([], c, run_page w reg True task_id c)
                     | Some call \<Rightarrow>
                         (case outcome_text (upstream call) of
                            None \<Rightarrow> ([call], c, Inl 500)
                          | Some outcome \<Rightarrow>
                              if \<not> session_wired w then ([call], c, Inl 500)
                              else (let c' = c\<lparr>ws_last_call := Some (agent_id @ '' '' @ action @ '' '' @ outcome)\<rparr> in
                                    ([call], c', run_page w reg False task_id c'))))))"

section \<open>The corpus and the policy\<close>

lemma corpus_verdicts:
  "list_all (\<lambda>c. tc_expected c
       = source_permits (tc_operation c) (tc_role c) (console_facts (tc_tool c)) (tc_amount c) (tc_depth c)) CORPUS"
  by code_simp

lemma corpus_agrees_length: "length CORPUS = 51" "distinct (map tc_name CORPUS)"
  by code_simp+

text \<open>
  The shipped corpus says what the shipped policy says: every one of its 51 cases expects exactly
  what the policy's statements permit of its action, role, tool, amount and depth, so the policy in
  force at the start passes its own tests, and no two cases can contradict each other.
\<close>
theorem corpus_agrees_with_source:
  "list_all (\<lambda>c. tc_expected c
       = source_permits (tc_operation c) (tc_role c) (console_facts (tc_tool c)) (tc_amount c) (tc_depth c)) CORPUS
    \<and> length CORPUS = 51 \<and> distinct (map tc_name CORPUS)"
  using corpus_verdicts corpus_agrees_length by blast

lemma corpus_wf:
  "list_all (\<lambda>c. money (tc_amount c) \<and> 0 \<le> tc_depth c \<and> uuid_of_string (tc_task_id c) = Some 0
      \<and> \<not> tc_elevated c \<and> tc_environment c = ''production'') CORPUS"
  by code_simp

section \<open>What Cedar documents of the policy\<close>

text \<open>
  Cedar parses the shipped policy and allows a request over it exactly when the statements permit
  it; amounts reach it as text with four places.
\<close>

definition reads_source :: "'ps cedar_lib \<Rightarrow> bool" where
  "reads_source cedar \<longleftrightarrow>
     (\<exists>ps. cl_parse cedar CORPUS_SOURCE = Some ps
        \<and> (\<forall>r e action amount. cr_action r = ''Action::'' @ [CHR 0x22] @ action @ [CHR 0x22] \<and> cr_amount r = fixed4 amount
             \<and> money amount \<longrightarrow>
               (fst (cl_is_authorized cedar r ps e) = CedarAllow)
                 = source_permits action (ce_role e) (ce_tool e) amount (ce_depth e)))"

lemma as_cedar_decimal_money:
  assumes "money v" shows "as_cedar_decimal v = Some (fixed4 v)"
proof -
  obtain n where n: "v * 10000 = of_int n" using assms by (auto simp: money_def whole_iff)
  have v: "of_int n / 10000 = v" using n by (simp add: divide_eq_eq)
  have "0 \<le> v * 10000" "v * 10000 < 10 ^ 16 * 10000" using assms by (auto simp: money_def)
  then have "0 \<le> n" and "(of_int n :: decimal) < of_int (10 ^ 16 * 10000)" unfolding n by simp_all
  then have "0 \<le> n" "n < 10 ^ 16 * 10000" by (simp_all only: of_int_less_iff)
  then have "\<not> 10 ^ 28 \<le> \<bar>n\<bar>" by simp
  then show ?thesis by (simp add: as_cedar_decimal_def n v)
qed

lemma console_case_money:
  "money (tc_amount c) \<Longrightarrow> console_case cedar ps c
     = (case cl_is_authorized cedar (console_request c (fixed4 (tc_amount c))) ps (console_entities c) of (d, reasons) \<Rightarrow>
         Some \<lparr>pv_allowed = (d = CedarAllow), pv_statement = (case reasons of [] \<Rightarrow> None | r # _ \<Rightarrow> Some r),
               pv_version = [], pv_stale = False\<rparr>)"
  by (simp add: console_case_def console_verdict_def as_cedar_decimal_money split: prod.split)

text \<open>A policy passes when every case of the corpus gets the verdict it expects.\<close>

definition passes_corpus :: "'ps cedar_lib \<Rightarrow> string \<Rightarrow> bool" where
  "passes_corpus cedar source \<longleftrightarrow>
     (\<exists>ps. cl_parse cedar source = Some ps
        \<and> (\<forall>c \<in> set CORPUS. \<exists>v. console_case cedar ps c = Some v \<and> pv_allowed v = tc_expected c))"

lemma run_one_passed: "tr_passed (run_one f c) \<longleftrightarrow> (\<exists>v. f c = Some v \<and> pv_allowed v = tc_expected c)"
  by (simp add: run_one_def split: option.splits)

lemma corpus_all_passed:
  "ts_all_passed (summarize (corpus_results cedar ps))
     \<longleftrightarrow> (\<forall>c \<in> set CORPUS. \<exists>v. console_case cedar ps c = Some v \<and> pv_allowed v = tc_expected c)"
  by (simp add: summarize_all_passed corpus_results_def run_policy_tests_def run_one_passed)

lemma no_failures: "ts_failures (summarize rs) = [] \<longleftrightarrow> ts_all_passed (summarize rs)"
  by (simp add: summarize_all_passed) (simp add: summarize_def Let_def filter_empty_conv)

lemma source_passes:
  assumes "reads_source cedar" shows "passes_corpus cedar CORPUS_SOURCE"
proof -
  obtain ps where ps: "cl_parse cedar CORPUS_SOURCE = Some ps"
    and reads: "\<And>r e action amount. cr_action r = ''Action::'' @ [CHR 0x22] @ action @ [CHR 0x22] \<Longrightarrow> cr_amount r = fixed4 amount
       \<Longrightarrow> money amount \<Longrightarrow> (fst (cl_is_authorized cedar r ps e) = CedarAllow)
         = source_permits action (ce_role e) (ce_tool e) amount (ce_depth e)"
    using assms by (auto simp: reads_source_def)
  have "\<exists>v. console_case cedar ps c = Some v \<and> pv_allowed v = tc_expected c" if c: "c \<in> set CORPUS" for c
  proof -
    have m: "money (tc_amount c)" using corpus_wf c by (simp add: list_all_iff)
    have e: "tc_expected c = source_permits (tc_operation c) (tc_role c) (console_facts (tc_tool c)) (tc_amount c) (tc_depth c)"
      using corpus_verdicts c by (simp add: list_all_iff)
    have "(fst (cl_is_authorized cedar (console_request c (fixed4 (tc_amount c))) ps (console_entities c)) = CedarAllow)
        = source_permits (tc_operation c) (ce_role (console_entities c)) (ce_tool (console_entities c)) (tc_amount c)
            (ce_depth (console_entities c))"
      by (rule reads[OF _ _ m]) (simp_all add: console_request_def Let_def)
    then show ?thesis using e by (simp add: console_case_money[OF m] console_entities_def case_prod_beta)
  qed
  then show ?thesis using ps by (auto simp: passes_corpus_def)
qed

text \<open>The texts the store can come to hold.\<close>

inductive activations :: "'ps cedar_lib \<Rightarrow> string \<Rightarrow> bool" for cedar where
  shipped: "activations cedar CORPUS_SOURCE"
| posted: "activations cedar current \<Longrightarrow> activate_policy cedar current source = (next_source, status, shown)
    \<Longrightarrow> activations cedar next_source"

lemma activate_accepts:
  "activate_policy cedar current source =
     (if passes_corpus cedar source then (source, 200, Some (summarize (corpus_results cedar (the (cl_parse cedar source)))))
      else (current, 409, map_option (\<lambda>ps. summarize (corpus_results cedar ps)) (cl_parse cedar source)))"
  by (auto simp: activate_policy_def passes_corpus_def corpus_all_passed Let_def split: option.split)

lemma diffs_total:
  assumes "\<And>ps. current = Some ps \<Longrightarrow> (\<forall>r \<in> set rs. \<exists>v. console_case cedar ps (tr_case r) = Some v)"
  shows "\<exists>ds. diffs_of cedar current rs = Some ds \<and> map cd_case ds = map tr_case rs
    \<and> list_all (\<lambda>d. cd_changed d = (cd_current_allowed d \<noteq> Some (cd_candidate_allowed d))) ds"
  using assms
proof (induction rs)
  case (Cons r rs)
  obtain ds where ds: "diffs_of cedar current rs = Some ds" "map cd_case ds = map tr_case rs"
    "list_all (\<lambda>d. cd_changed d = (cd_current_allowed d \<noteq> Some (cd_candidate_allowed d))) ds"
    using Cons.IH Cons.prems by auto
  have "\<exists>d. diff_of cedar current r = Some d \<and> cd_case d = tr_case r
      \<and> cd_changed d = (cd_current_allowed d \<noteq> Some (cd_candidate_allowed d))"
    using Cons.prems by (cases current) (auto simp: diff_of_def)
  then show ?case using ds by auto
qed simp

text \<open>
  C20: The console serves only a policy that parses and passes every test.  Starting from the shipped
  policy, whatever sources are posted, the current one gives every case of the corpus the verdict it
  expects; a post answers 200 and replaces it exactly when the new source does so too, and otherwise
  409 and leaves it; whatever the compile page offers to activate is accepted; and testing a source
  that parses always shows one difference per case, marked as changed exactly when the verdicts differ.
\<close>
theorem console_policy_passes_corpus:
  assumes "reads_source cedar" "activations cedar current"
  shows "passes_corpus cedar current
    \<and> (\<forall>source. fst (activate_policy cedar current source) = (if passes_corpus cedar source then source else current)
         \<and> fst (snd (activate_policy cedar current source)) = (if passes_corpus cedar source then 200 else 409))
    \<and> (\<forall>answer page. compile_policy cedar current answer = Compiled page \<and> np_can_activate page \<longrightarrow>
         activate_policy cedar current (np_cedar_source page) = (np_cedar_source page, 200, Some (np_summary page)))
    \<and> (\<forall>source ps. cl_parse cedar source = Some ps \<longrightarrow>
         (\<exists>ds. test_policy cedar current source = Tested (summarize (corpus_results cedar ps)) ds \<and> map cd_case ds = CORPUS
            \<and> list_all (\<lambda>d. cd_changed d = (cd_current_allowed d \<noteq> Some (cd_candidate_allowed d))) ds))"
proof (intro conjI allI impI)
  have start: "passes_corpus cedar CORPUS_SOURCE" by (rule source_passes[OF assms(1)])
  from assms(2) show cur: "passes_corpus cedar current"
  proof induction
    case (posted current source next_source status shown)
    then show ?case by (simp add: activate_accepts split: if_splits)
  qed (rule start)
  fix source
  show "fst (activate_policy cedar current source) = (if passes_corpus cedar source then source else current)"
    "fst (snd (activate_policy cedar current source)) = (if passes_corpus cedar source then 200 else 409)"
    by (simp_all add: activate_accepts)
next
  fix answer page assume a: "compile_policy cedar current answer = Compiled page \<and> np_can_activate page"
  then obtain ps where "cl_parse cedar (np_cedar_source page) = Some ps" "ts_failures (np_summary page) = []"
      "np_summary page = summarize (corpus_results cedar ps)"
    by (auto simp: compile_policy_def Let_def split: option.splits)
  then show "activate_policy cedar current (np_cedar_source page) = (np_cedar_source page, 200, Some (np_summary page))"
    by (simp add: activate_policy_def no_failures)
next
  fix source ps assume p: "cl_parse cedar source = Some ps"
  have cases: "map tr_case (corpus_results cedar ps) = CORPUS"
    by (auto simp: corpus_results_def run_policy_tests_def run_one_def intro: map_idI split: option.split)
  have "passes_corpus cedar current"
    using assms(2) source_passes[OF assms(1)]
    by (induction) (auto simp: activate_accepts split: if_splits)
  then have "\<exists>v. console_case cedar qs (tr_case r) = Some v"
    if "cl_parse cedar current = Some qs" "r \<in> set (corpus_results cedar ps)" for qs r
    using that cases by (auto simp: passes_corpus_def) (metis image_eqI list.set_map)
  then obtain ds where "diffs_of cedar (cl_parse cedar current) (corpus_results cedar ps) = Some ds"
      "map cd_case ds = CORPUS" "list_all (\<lambda>d. cd_changed d = (cd_current_allowed d \<noteq> Some (cd_candidate_allowed d))) ds"
    using diffs_total[of "cl_parse cedar current" "corpus_results cedar ps" cedar] unfolding cases by blast
  then show "\<exists>ds. test_policy cedar current source = Tested (summarize (corpus_results cedar ps)) ds \<and> map cd_case ds = CORPUS
      \<and> list_all (\<lambda>d. cd_changed d = (cd_current_allowed d \<noteq> Some (cd_candidate_allowed d))) ds"
    using p by (simp add: test_policy_def Let_def)
qed

section \<open>The two activation gates\<close>

text \<open>
  The enforcement point's gate runs the same cases with the identity each case names, the console's
  always as one fixed agent: they agree on a policy that does not look at who the agent is.
\<close>

definition ignores_identity :: "'ps cedar_lib \<Rightarrow> 'ps \<Rightarrow> bool" where
  "ignores_identity cedar ps \<longleftrightarrow>
     (\<forall>r e p a t i. fst (cl_is_authorized cedar (r\<lparr>cr_principal := p\<rparr>) ps
         (e\<lparr>ce_agent_id := a, ce_task_id := t, ce_principal_id := i\<rparr>)) = fst (cl_is_authorized cedar r ps e))"

definition corpus_catalogue :: "tool_facts strmap" where
  "corpus_catalogue = map (\<lambda>(t, _). (t, console_facts (Some t))) CORPUS_TOOLS"

lemma corpus_catalogue_read:
  "tool_catalogue str_of (Some (map (\<lambda>(t, m). (t, PyMap m)) CORPUS_TOOLS)) = Some corpus_catalogue"
  by (simp add: tool_catalogue_def CORPUS_TOOLS_def catalogue_entry_def TOOL_ATTRIBUTES_def corpus_catalogue_def
      console_facts_def as_text_def Let_def)

lemma map_of_keyed: "map_of (map (\<lambda>(t, _). (t, g t)) xs) s = (if s \<in> fst ` set xs then Some (g s) else None)"
  by (induction xs) auto

lemma catalogue_facts:
  assumes "cg_tools e = corpus_catalogue" shows "facts_for e t = console_facts t"
proof -
  have "map_of corpus_catalogue s = (if s \<in> fst ` set CORPUS_TOOLS then Some (console_facts (Some s)) else None)" for s
    unfolding corpus_catalogue_def by (rule map_of_keyed)
  moreover have "map_of CORPUS_TOOLS s = None" if "s \<notin> fst ` set CORPUS_TOOLS" for s
    using that by (simp add: map_of_eq_None_iff)
  moreover have "map_of CORPUS_TOOLS [] = None" by (simp add: CORPUS_TOOLS_def)
  ultimately show ?thesis
    using assms by (cases t) (auto simp: facts_for_def console_facts_def UNKNOWN_TOOL_def)
qed

lemma console_case_agrees:
  assumes "cg_tools e = corpus_catalogue" "cg_policy_set e = Some ps" "ignores_identity cedar ps"
    and c: "money (tc_amount c)" "0 \<le> tc_depth c" "uuid_of_string (tc_task_id c) = Some tid" "\<not> tc_elevated c"
      "tc_environment c = ''production''"
  shows "map_option pv_allowed (evaluate_case cedar e now_t c) = map_option pv_allowed (console_case cedar ps c)"
proof -
  let ?p = "\<lparr>ap_agent_id = tc_agent_id c, ap_role = tc_role c, ap_principal_id = tc_principal_id c, ap_task_id = tid, ap_declared_role = []\<rparr>"
  let ?ctx = "\<lparr>operation = tc_operation c, requested = (\<lambda>d. 0)(SPEND_BDT := tc_amount c), current_depth = tc_depth c,
      request_intent = replicate 64 CHR ''a'', now = now_t, tool = tc_tool c, args = [], task_intent_text = None,
      action_intent_text = None, drift_mode_of = DRIFT_STRICT\<rparr>"
  have w: "request_context_wf ?ctx"
  proof -
    have "money 0" by (simp add: money_def whole_def)
    then show ?thesis using c(1,2) by (simp add: request_context_wf_def all_dimensions_def)
  qed
  let ?r = "cedar_request_for ?p ?ctx" and ?e = "entities_for e ?p ?ctx"
  have r: "console_request c (fixed4 (tc_amount c)) = ?r\<lparr>cr_principal := ''Agent::'' @ [CHR 0x22] @ ''agent-1'' @ [CHR 0x22]\<rparr>"
    using c(4,5) by (simp add: console_request_def cedar_request_for_def Let_def)
  have en: "console_entities c = ?e\<lparr>ce_agent_id := ''agent-1'', ce_task_id := ''00000000-0000-0000-0000-000000000000'',
      ce_principal_id := ''test-principal''\<rparr>"
    by (simp add: console_entities_def entities_for_def catalogue_facts[OF assms(1)])
  have "fst (cl_is_authorized cedar (console_request c (fixed4 (tc_amount c))) ps (console_entities c))
      = fst (cl_is_authorized cedar ?r ps ?e)"
    unfolding r en using assms(3) by (simp only: ignores_identity_def)
  moreover have "evaluate_case cedar e now_t c = bound_evaluate cedar e ?p ?ctx"
    using w c(3) by (simp add: evaluate_case_def Let_def)
  ultimately show ?thesis
    by (simp add: bound_evaluate_def assms(2) verdict_from_def console_case_money[OF c(1)] case_prod_beta)
qed

text \<open>
  C33: The two activation gates agree.  For a signed bundle that advances the serial and a catalogue that is
  the corpus's, the enforcement point activates it on the corpus exactly when the console would
  activate its source, as long as the policy does not depend on who the agent is; a refusal there is
  the failing of a test.
\<close>
theorem activation_gates_agree:
  assumes "cc_tools c = corpus_catalogue" "candidate cedar str_of check b sig c = Inr e"
    "\<And>ps. cl_parse cedar (pb_cedar_source b) = Some ps \<Longrightarrow> ignores_identity cedar ps"
  shows "if fst (snd (activate_policy cedar current (pb_cedar_source b))) = 200
    then \<exists>summary. activate_bundle cedar str_of check now_t b sig CORPUS c = (make_current e (pb_serial b) now_t c, Inr summary)
      \<and> ts_total summary = 51 \<and> ts_failures summary = []
    else activate_bundle cedar str_of check now_t b sig CORPUS c = (c, Inl ActivationFailed)"
proof -
  note cand = candidate_Inr[OF assms(2)]
  then obtain ps where ps: "cl_parse cedar (pb_cedar_source b) = Some ps" "cg_policy_set e = Some ps"
    by (metis option.exhaust)
  have tools: "cg_tools e = corpus_catalogue" using cand assms(1) by simp
  have agree: "map_option pv_allowed (evaluate_case cedar e now_t x) = map_option pv_allowed (console_case cedar ps x)"
    if "x \<in> set CORPUS" for x
    using corpus_wf that by (intro console_case_agrees[OF tools ps(2) assms(3)[OF ps(1)]]) (simp_all add: list_all_iff)
  have one: "(\<exists>v. evaluate_case cedar e now_t x = Some v \<and> pv_allowed v = tc_expected x)
      \<longleftrightarrow> (\<exists>v. console_case cedar ps x = Some v \<and> pv_allowed v = tc_expected x)" if "x \<in> set CORPUS" for x
  proof -
    have m: "(\<exists>v. y = Some v \<and> pv_allowed v = tc_expected x) \<longleftrightarrow> map_option pv_allowed y = Some (tc_expected x)" for y
      by (cases y) simp_all
    show ?thesis unfolding m agree[OF that] ..
  qed
  let ?rs = "run_policy_tests CORPUS (evaluate_case cedar e now_t)"
  have pass: "ts_all_passed (summarize ?rs) \<longleftrightarrow> passes_corpus cedar (pb_cedar_source b)"
    using one by (simp add: summarize_all_passed run_policy_tests_def run_one_passed passes_corpus_def ps(1))
  have total: "ts_total (summarize ?rs) = 51"
    using corpus_agrees_length by (simp add: summarize_def Let_def run_policy_tests_def)
  show ?thesis
    using pass total assms(2) no_failures[of ?rs]
    by (simp add: activate_accepts activate_bundle_def Let_def)
qed

section \<open>A call without a session\<close>

text \<open>
  With both halves of the root key but no database there is a registry and no session: a payment posted
  from the task page is sent to the enforcement point and then the page fails.
\<close>

theorem call_sent_then_page_fails:
  assumes "wi_settings w = Some s" "ct_root_public_key s \<noteq> None" "wi_database w = None"
    "uuid_of_string task_id = Some t" "token_for t agent_id reg = Inr token"
  shows "post_run_call w upstream task_id agent_id ''pay'' amount c reg
      = ([\<lparr>pq_method = ''POST'', pq_url = ct_pep_url s @ ''/proxy/payments'', pq_token = token, pq_amount = Some amount\<rparr>], c, Inl 500)
    \<and> run_page w reg failed shown c = Inl 500"
proof -
  have "\<not> session_wired w" "registry_ready w" using assms(1-3) by (simp_all add: session_wired_def registry_ready_def)
  then show ?thesis using assms(1,4,5) by (simp add: post_run_call_def call_for_def run_page_def split: option.split)
qed

text \<open>What the task pages do to the registry is what the registry's own operations do.\<close>

theorem run_pages_step_the_registry:
  "post_run_task w lib sha sk fresh now_t description budget scopes principal_id c reg = (reg', r)
     \<Longrightarrow> fresh \<notin> dom (map_of reg) \<Longrightarrow> reg' = reg \<or> registry_step lib sha sk pk reg reg'"
  "post_run_agent w lib pk now_t task_id parent_id agent_id role limit scopes c reg = (reg', r)
     \<Longrightarrow> reg' = reg \<or> registry_step lib sha sk pk reg reg'"
  by (auto simp: post_run_task_def post_run_agent_def split: if_splits sum.splits dec.splits task_error.splits option.splits
      intro: registry_step.intros)

section \<open>Witnesses\<close>

definition read4 :: "string \<Rightarrow> decimal" where
  "read4 t = of_int (digits_value (filter (\<lambda>c. c \<noteq> CHR ''.'') t)) / 10000"

lemma read4_fixed4:
  assumes "money v" shows "read4 (fixed4 v) = v"
proof -
  obtain n where n: "v * 10000 = of_int n" using assms by (auto simp: money_def whole_iff)
  have "0 \<le> v * 10000" using assms by (simp add: money_def)
  then have "0 \<le> n" by (simp add: n)
  then obtain k where k: "n = int k" by (metis nonneg_int_cases)
  have v: "v = of_nat k / 10000" using n k by (simp add: eq_divide_eq)
  have f: "nat \<lfloor>\<bar>v\<bar> * 10000\<rfloor> = k" using n k assms by (simp add: money_def)
  have dot: "CHR ''.'' \<notin> set (nat_str m)" for m using nat_str_reads(1)[of m] by (auto simp: list_all_iff digit_char_def)
  have dig: "char_of (48 + m mod 10) \<noteq> CHR ''.''" for m :: nat
  proof -
    have "\<forall>j \<in> set [0..<10]. char_of (48 + j) \<noteq> CHR ''.''" by code_simp
    then show ?thesis by simp
  qed
  have t: "fixed4 v = nat_str (k div 10000) @ ''.'' @ map (\<lambda>j. char_of (48 + k div 10 ^ j mod 10)) [3, 2, 1, 0]"
    using f assms by (simp add: fixed4_def Let_def money_def)
  have r: "filter (\<lambda>c. c \<noteq> CHR ''.'') (fixed4 v)
      = nat_str (k div 10000) @ map (\<lambda>j. char_of (48 + k div 10 ^ j mod 10)) [3, 2, 1, 0]"
    unfolding t using dot[of "k div 10000"] dig by (simp add: filter_id_conv) (auto simp: filter_id_conv)
  have snoc: "digits_value (xs @ [c]) = 10 * digits_value xs + (of_char c - 48)" for xs c
    by (simp add: digits_value_def)
  have d: "of_char (char_of (48 + m mod 10)) - 48 = int (m mod 10)" for m :: nat
    using digit_char_facts(2)[of "m mod 10"] by simp
  have step: "digits_value xs = int (m div 10) \<Longrightarrow> digits_value (xs @ [char_of (48 + m mod 10)]) = int m" for xs m
    unfolding snoc d by presburger
  have "digits_value (nat_str (k div 10000) @ [char_of (48 + k div 1000 mod 10)]) = int (k div 1000)"
    by (rule step) (simp add: nat_str_reads(2) div_mult2_eq[symmetric])
  then have "digits_value ((nat_str (k div 10000) @ [char_of (48 + k div 1000 mod 10)]) @ [char_of (48 + k div 100 mod 10)]) = int (k div 100)"
    by (intro step) (simp only: div_mult2_eq[symmetric], simp)
  then have "digits_value (((nat_str (k div 10000) @ [char_of (48 + k div 1000 mod 10)]) @ [char_of (48 + k div 100 mod 10)])
      @ [char_of (48 + k div 10 mod 10)]) = int (k div 10)"
    by (intro step) (simp only: div_mult2_eq[symmetric], simp)
  then have "digits_value ((((nat_str (k div 10000) @ [char_of (48 + k div 1000 mod 10)]) @ [char_of (48 + k div 100 mod 10)])
      @ [char_of (48 + k div 10 mod 10)]) @ [char_of (48 + k mod 10)]) = int k"
    by (rule step)
  then have "digits_value (filter (\<lambda>c. c \<noteq> CHR ''.'') (fixed4 v)) = int k" unfolding r by simp
  then show ?thesis by (simp add: read4_def v)
qed

definition source_cedar :: "unit cedar_lib" where
  "source_cedar =
     \<lparr>cl_parse = (\<lambda>s. if s = CORPUS_SOURCE then Some () else None),
      cl_is_authorized = (\<lambda>r ps e. (if source_permits (butlast (drop 9 (cr_action r))) (ce_role e) (ce_tool e)
          (read4 (cr_amount r)) (ce_depth e) then CedarAllow else CedarDeny, []))\<rparr>"

lemma source_cedar_reads: "reads_source source_cedar"
  unfolding reads_source_def by (rule exI[of _ "()"]) (auto simp: source_cedar_def read4_fixed4)

theorem console_policy_passes_corpus_witness:
  "passes_corpus source_cedar CORPUS_SOURCE
    \<and> fst (activate_policy source_cedar CORPUS_SOURCE ''permit'') = CORPUS_SOURCE
    \<and> fst (snd (activate_policy source_cedar CORPUS_SOURCE CORPUS_SOURCE)) = 200"
proof -
  note safe = console_policy_passes_corpus[OF source_cedar_reads activations.shipped]
  have "''permit'' \<noteq> CORPUS_SOURCE" by code_simp
  then have "\<not> passes_corpus source_cedar ''permit''" by (simp add: passes_corpus_def source_cedar_def)
  then show ?thesis using safe by simp
qed

definition corpus_bundle :: policy_bundle where
  "corpus_bundle = demo_bundle\<lparr>pb_cedar_source := CORPUS_SOURCE\<rparr>"

definition corpus_cache :: "(unit, unit) policy_cache" where
  "corpus_cache = new_cache () (Some corpus_catalogue) (seconds 60)"

lemma corpus_payload: "\<exists>p. signing_payload latin_nfc corpus_bundle = Inr p"
  using small_int[of 3] canonical_json_ok[of latin_nfc "bundle_body corpus_bundle"]
  by (simp add: signing_payload_def bundle_body_def corpus_bundle_def demo_bundle_def opt_value_def)

lemma corpus_candidate:
  assumes "cl_parse cedar CORPUS_SOURCE = Some ps"
  obtains e where "candidate cedar demo_str demo_check corpus_bundle [] corpus_cache = Inr e" "cg_tools e = corpus_catalogue"
    "cg_policy_set e = Some ps"
  using corpus_payload assms
  by (auto simp: candidate_def verify_bundle_def does_not_advance_def corpus_cache_def new_cache_def mk_engine_def
      corpus_bundle_def demo_bundle_def)

theorem activation_gates_agree_witness:
  "\<exists>e summary. activate_bundle source_cedar demo_str demo_check 0 corpus_bundle [] CORPUS corpus_cache
      = (make_current e 3 0 corpus_cache, Inr summary) \<and> ts_total summary = 51"
proof -
  have p: "cl_parse source_cedar CORPUS_SOURCE = Some ()" by (simp add: source_cedar_def)
  obtain e where e: "candidate source_cedar demo_str demo_check corpus_bundle [] corpus_cache = Inr e"
    by (rule corpus_candidate[OF p])
  have tools: "cc_tools corpus_cache = corpus_catalogue" by (simp add: corpus_cache_def new_cache_def)
  have "ignores_identity source_cedar ps" for ps by (simp add: ignores_identity_def source_cedar_def)
  note agree = activation_gates_agree[OF tools e this, of CORPUS_SOURCE 0]
  have "pb_cedar_source corpus_bundle = CORPUS_SOURCE" "pb_serial corpus_bundle = 3"
    by (simp_all add: corpus_bundle_def demo_bundle_def)
  then show ?thesis using agree source_passes[OF source_cedar_reads] by (auto simp: activate_accepts)
qed

text \<open>A policy that names an agent: the console accepts it, the enforcement point refuses it.\<close>

definition naming_cedar :: "unit cedar_lib" where
  "naming_cedar = source_cedar\<lparr>cl_is_authorized := (\<lambda>r ps e.
     if ce_agent_id e = ''agent-1'' then cl_is_authorized source_cedar r ps e else (CedarDeny, []))\<rparr>"

theorem gates_differ_on_identity:
  "fst (snd (activate_policy naming_cedar CORPUS_SOURCE CORPUS_SOURCE)) = 200
    \<and> activate_bundle naming_cedar demo_str demo_check 0 corpus_bundle [] CORPUS corpus_cache = (corpus_cache, Inl ActivationFailed)"
proof
  have same: "console_case naming_cedar () c = console_case source_cedar () c" for c
    by (simp add: console_case_def console_verdict_def naming_cedar_def console_entities_def cong: map_option_cong)
  have "cl_parse naming_cedar = cl_parse source_cedar" by (simp add: naming_cedar_def)
  then have "passes_corpus naming_cedar CORPUS_SOURCE"
    using source_passes[OF source_cedar_reads] same by (auto simp: passes_corpus_def)
  then show "fst (snd (activate_policy naming_cedar CORPUS_SOURCE CORPUS_SOURCE)) = 200" by (simp add: activate_accepts)
  have p: "cl_parse naming_cedar CORPUS_SOURCE = Some ()" by (simp add: naming_cedar_def source_cedar_def)
  obtain e where e: "candidate naming_cedar demo_str demo_check corpus_bundle [] corpus_cache = Inr e" "cg_policy_set e = Some ()"
    by (rule corpus_candidate[OF p])
  let ?c = "hd CORPUS"
  have c: "?c \<in> set CORPUS" "tc_expected ?c" "tc_agent_id ?c = ''agt-1''"
    by (simp_all add: CORPUS_def CORPUS_BEAT1_def corpus_case_def)
  have "\<not> (\<exists>v. evaluate_case naming_cedar e 0 ?c = Some v \<and> pv_allowed v = tc_expected ?c)"
    using c(2,3) e(2)
    by (auto simp: evaluate_case_def Let_def bound_evaluate_def naming_cedar_def entities_for_def verdict_from_def
        split: option.splits if_splits)
  then have "\<not> ts_all_passed (summarize (run_policy_tests CORPUS (evaluate_case naming_cedar e 0)))"
    using c(1) by (auto simp: summarize_all_passed run_policy_tests_def run_one_passed)
  then show "activate_bundle naming_cedar demo_str demo_check 0 corpus_bundle [] CORPUS corpus_cache = (corpus_cache, Inl ActivationFailed)"
    using e(1) by (simp add: activate_bundle_def Let_def)
qed

theorem call_sent_then_page_fails_witness:
  "\<exists>reg task_id. fst (post_run_call (demo_wiring\<lparr>wi_database := None, wi_settings := Some (demo_ct\<lparr>ct_root_public_key := Some 7\<rparr>)\<rparr>)
      (\<lambda>_. JsonObject 200 None) task_id ''root'' ''pay'' ''1'' no_session reg) \<noteq> []"
proof -
  let ?t = "''00000000-0000-0000-0000-000000000000''"
  let ?reg = "[(0, \<lparr>tk_task_id = 0, tk_description = ''d'', tk_budget = 1, tk_scopes = {}, tk_principal_id = ''p'', tk_created_at = 0,
      tk_expires_at = 1, tk_agents = [(''root'', \<lparr>ag_agent_id = ''root'', ag_role = ''principal'', ag_depth = 0, ag_scopes = {},
        ag_ceiling = None, ag_token = ''tok'', ag_parent_id = None\<rparr>)]\<rparr>)] :: task_registry"
  have "uuid_of_string ?t = Some 0" by code_simp
  moreover have "token_for 0 ''root'' ?reg = Inr ''tok''" by (simp add: token_for_def get_task_def)
  ultimately have "fst (post_run_call (demo_wiring\<lparr>wi_database := None, wi_settings := Some (demo_ct\<lparr>ct_root_public_key := Some 7\<rparr>)\<rparr>)
      (\<lambda>_. JsonObject 200 None) ?t ''root'' ''pay'' ''1'' no_session ?reg) \<noteq> []"
    using call_sent_then_page_fails[of "demo_wiring\<lparr>wi_database := None, wi_settings := Some (demo_ct\<lparr>ct_root_public_key := Some 7\<rparr>)\<rparr>"]
    by simp
  then show ?thesis by blast
qed

end
