(* ===== verification/Compiler.thy ===== *)
theory Compiler
  imports Access JsonRecord
begin

text \<open>
  The natural-language policy compiler (\<open>agentiam_controlplane/nl_compiler\<close>): choosing a backend, the
  retry loop of the hosted ones, and reading a model's reply.

  Parameters: \<open>to_float\<close> is \<open>float\<close> of a text, \<open>None\<close> where it raises \<open>ValueError\<close>; \<open>loads\<close> is \<open>json.loads\<close>;
  \<open>post\<close> gives what the request of each attempt meets.  A delay is the exact number, not rounded to a
  double, and so is the power of two of the backoff.  Logging, the prompt and the name a model alias
  resolved to are left out.
\<close>

section \<open>Delays\<close>

definition MAX_BACKOFF_S :: decimal where "MAX_BACKOFF_S = 30"
definition DEFAULT_MAX_RETRIES :: int where "DEFAULT_MAX_RETRIES = 5"
definition RETRYABLE :: "nat set" where "RETRYABLE = {429, 500, 502, 503, 504}"

text \<open>\<open>min(x, 30.0)\<close>: a comparison with a NaN is false, so a NaN stays.\<close>

fun clamp :: "dec \<Rightarrow> dec" where
  "clamp (Fin x) = Fin (min x MAX_BACKOFF_S)"
| "clamp PosInf = Fin MAX_BACKOFF_S"
| "clamp d = d"

text \<open>\<open>_RETRY_IN_RE\<close> at the start of a text: \<open>retry in\<close>, digits, perhaps a point and digits, and an \<open>s\<close>, in any case.\<close>

definition hint_at :: "string \<Rightarrow> string option" where
  "hint_at s =
     (if lower_case (take 9 s) \<noteq> ''retry in '' then None
      else
        let ds = takeWhile digit_char (drop 9 s); rest = dropWhile digit_char (drop 9 s) in
        if ds = [] then None
        else if take 1 rest = ''.'' then
          (let fs = takeWhile digit_char (tl rest); rest' = dropWhile digit_char (tl rest) in
           if fs \<noteq> [] \<and> lower_case (take 1 rest') = ''s'' then Some (ds @ ''.'' @ fs) else None)
        else if lower_case (take 1 rest) = ''s'' then Some ds else None)"

fun retry_hint :: "string \<Rightarrow> string option" where
  "retry_hint [] = None"
| "retry_hint (c # cs) = (case hint_at (c # cs) of Some t \<Rightarrow> Some t | None \<Rightarrow> retry_hint cs)"

fun plus_one :: "dec \<Rightarrow> dec" where
  "plus_one (Fin x) = Fin (x + 1)"
| "plus_one d = d"

definition retry_delay :: "(string \<Rightarrow> dec option) \<Rightarrow> string option \<Rightarrow> nat \<Rightarrow> string \<Rightarrow> dec" where
  "retry_delay to_float retry_after attempt body =
     (case (case given retry_after of None \<Rightarrow> None | Some t \<Rightarrow> to_float t) of
        Some d \<Rightarrow> clamp d
      | None \<Rightarrow>
          (case (case retry_hint body of None \<Rightarrow> None | Some t \<Rightarrow> to_float t) of
             Some d \<Rightarrow> clamp (plus_one d)
           | None \<Rightarrow> clamp (Fin (2 ^ attempt))))"

section \<open>The retry loop\<close>

datatype http_answer = TimedOut | NetworkError | Answered nat "string option" string

text \<open>\<open>LLMRaised\<close> is any other exception.\<close>

datatype llm_error = LLMError | LLMRaised

definition succeeded :: "nat \<Rightarrow> bool" where
  "succeeded status = (200 \<le> status \<and> status < 300)"

text \<open>The delays slept, in order, and the result; \<open>left\<close> counts the attempts left.\<close>

fun post_from ::
  "(string \<Rightarrow> dec option) \<Rightarrow> (string \<Rightarrow> pvalue option) \<Rightarrow> (nat \<Rightarrow> http_answer) \<Rightarrow> nat \<Rightarrow> nat
    \<Rightarrow> dec list \<times> (llm_error + pvalue)" where
  "post_from to_float loads post 0 attempt = ([], Inl LLMError)"
| "post_from to_float loads post (Suc left) attempt =
     (case post attempt of
        TimedOut \<Rightarrow> ([], Inl LLMError)
      | NetworkError \<Rightarrow> ([], Inl LLMError)
      | Answered status retry_after body \<Rightarrow>
          if status \<in> RETRYABLE then
            (if left = 0 then ([], Inl LLMError)
             else (case post_from to_float loads post left (Suc attempt) of
                     (ds, r) \<Rightarrow> (retry_delay to_float retry_after attempt body # ds, r)))
          else if \<not> succeeded status then ([], Inl LLMError)
          else (case loads body of None \<Rightarrow> ([], Inl LLMRaised) | Some v \<Rightarrow> ([], Inr v)))"

definition post_with_retry ::
  "(string \<Rightarrow> dec option) \<Rightarrow> (string \<Rightarrow> pvalue option) \<Rightarrow> (nat \<Rightarrow> http_answer) \<Rightarrow> int
    \<Rightarrow> dec list \<times> (llm_error + pvalue)" where
  "post_with_retry to_float loads post max_retries = post_from to_float loads post (nat (max_retries + 1)) 0"

section \<open>Reading the reply\<close>

datatype seg = Key string | First

fun subscript :: "pvalue \<Rightarrow> seg \<Rightarrow> pvalue option" where
  "subscript (PyMap m) (Key k) = map_of m k"
| "subscript (PyList (x # _)) First = Some x"
| "subscript (PyStr (c # _)) First = Some (PyStr [c])"
| "subscript _ _ = None"

fun walk :: "pvalue \<Rightarrow> seg list \<Rightarrow> pvalue option" where
  "walk v [] = Some v"
| "walk v (s # ss) = (case subscript v s of None \<Rightarrow> None | Some u \<Rightarrow> walk u ss)"

definition read_content :: "(string \<Rightarrow> pvalue option) \<Rightarrow> pvalue option \<Rightarrow> llm_error + pvalue" where
  "read_content loads v =
     (case v of
        None \<Rightarrow> Inl LLMError
      | Some c \<Rightarrow>
          if falsy c then Inl LLMError
          else (case c of
                  PyStr t \<Rightarrow> (case loads t of Some (PyMap m) \<Rightarrow> Inr (PyMap m) | _ \<Rightarrow> Inl LLMError)
                | _ \<Rightarrow> Inl LLMRaised))"

definition groq_generate ::
  "(string \<Rightarrow> dec option) \<Rightarrow> (string \<Rightarrow> pvalue option) \<Rightarrow> int \<Rightarrow> (nat \<Rightarrow> http_answer) \<Rightarrow> llm_error + pvalue" where
  "groq_generate to_float loads max_retries post =
     bindE (snd (post_with_retry to_float loads post max_retries)) (\<lambda>data.
       read_content loads (walk data [Key ''choices'', First, Key ''message'', Key ''content'']))"

definition gemini_generate ::
  "(string \<Rightarrow> dec option) \<Rightarrow> (string \<Rightarrow> pvalue option) \<Rightarrow> int \<Rightarrow> (nat \<Rightarrow> http_answer) \<Rightarrow> llm_error + pvalue" where
  "gemini_generate to_float loads max_retries post =
     bindE (snd (post_with_retry to_float loads post max_retries)) (\<lambda>data.
       case data of
         PyMap m \<Rightarrow> read_content loads (walk data [Key ''candidates'', First, Key ''content'', Key ''parts'', First, Key ''text''])
       | _ \<Rightarrow> Inl LLMRaised)"

text \<open>The local backend tries once, and what it reads need not be an object.\<close>

definition ollama_generate :: "(string \<Rightarrow> pvalue option) \<Rightarrow> http_answer \<Rightarrow> llm_error + pvalue" where
  "ollama_generate loads answer =
     (case answer of
        Answered status _ body \<Rightarrow>
          if \<not> succeeded status then Inl LLMError
          else (case loads body of
                  None \<Rightarrow> Inl LLMError
                | Some (PyMap m) \<Rightarrow>
                    (case map_of m ''response'' of
                       None \<Rightarrow> Inl LLMError
                     | Some v \<Rightarrow>
                         if falsy v then Inl LLMError
                         else (case v of
                                 PyStr t \<Rightarrow> (case loads t of None \<Rightarrow> Inl LLMError | Some x \<Rightarrow> Inr x)
                               | _ \<Rightarrow> Inl LLMRaised))
                | Some _ \<Rightarrow> Inl LLMRaised)
      | _ \<Rightarrow> Inl LLMError)"

text \<open>\<open>warm\<close> of every client: \<open>None\<close> is an exception that leaves it.\<close>

definition warm :: "llm_error + pvalue \<Rightarrow> bool option" where
  "warm r = (case r of Inr _ \<Rightarrow> Some True | Inl LLMError \<Rightarrow> Some False | Inl LLMRaised \<Rightarrow> None)"

section \<open>Choosing a backend\<close>

text \<open>One line of the environment file.\<close>

definition quote_mark :: "char \<Rightarrow> bool" where
  "quote_mark c = (c = CHR 0x22 \<or> c = CHR 0x27)"

definition dotenv_line :: "string \<Rightarrow> (string \<times> string) option" where
  "dotenv_line raw =
     (let line = strip raw in
      if line = [] \<or> take 1 line = ''#'' \<or> CHR ''='' \<notin> set line then None
      else (case partition_at CHR ''='' line of (k, v) \<Rightarrow>
        Some (strip k, rev (dropWhile quote_mark (rev (dropWhile quote_mark (strip v)))))))"

text \<open>Setting a variable without a name is an \<open>OSError\<close>.\<close>

fun load_dotenv :: "string list \<Rightarrow> environ \<Rightarrow> llm_error + environ" where
  "load_dotenv [] env = Inr env"
| "load_dotenv (l # ls) env =
     (case dotenv_line l of
        None \<Rightarrow> load_dotenv ls env
      | Some (k, v) \<Rightarrow>
          if env k \<noteq> None then load_dotenv ls env
          else if k = [] then Inl LLMRaised
          else load_dotenv ls (env(k := Some v)))"

datatype llm_backend = OllamaClient | GroqClient string | GeminiClient string

definition with_key :: "environ \<Rightarrow> string \<Rightarrow> (string \<Rightarrow> llm_backend) \<Rightarrow> llm_error + llm_backend" where
  "with_key env name f = (case given (env name) of None \<Rightarrow> Inl LLMError | Some k \<Rightarrow> Inr (f k))"

definition client_from_env :: "string list \<Rightarrow> environ \<Rightarrow> llm_error + llm_backend" where
  "client_from_env dotenv env0 =
     bindE (load_dotenv dotenv env0) (\<lambda>env.
       let backend = lower_case (strip (case env ''AGENTIAM_LLM_BACKEND'' of None \<Rightarrow> [] | Some v \<Rightarrow> v)) in
       if backend = ''ollama'' then Inr OllamaClient
       else if backend = ''groq'' then with_key env ''GROQ_API_KEY'' GroqClient
       else if backend = ''gemini'' then with_key env ''GEMINI_API_KEY'' GeminiClient
       else if backend \<noteq> [] then Inl LLMError
       else (case (given (env ''GEMINI_API_KEY''), given (env ''GROQ_API_KEY'')) of
               (Some k, _) \<Rightarrow> Inr (GeminiClient k)
             | (None, Some k) \<Rightarrow> Inr (GroqClient k)
             | (None, None) \<Rightarrow> Inr OllamaClient))"

section \<open>Properties\<close>

fun at_most :: "decimal \<Rightarrow> dec \<Rightarrow> bool" where
  "at_most b (Fin x) = (x \<le> b)"
| "at_most b PosInf = False"
| "at_most b d = True"

lemma clamp_capped: "at_most MAX_BACKOFF_S (clamp d)"
  by (cases d) simp_all

lemma retry_delay_capped: "at_most MAX_BACKOFF_S (retry_delay to_float ra a body)"
  by (simp add: retry_delay_def clamp_capped split: option.split)

definition retryable :: "http_answer \<Rightarrow> bool" where
  "retryable a = (case a of Answered status _ _ \<Rightarrow> status \<in> RETRYABLE | _ \<Rightarrow> False)"

text \<open>What one answer decides when it is not retried.\<close>

definition final_result :: "(string \<Rightarrow> pvalue option) \<Rightarrow> http_answer \<Rightarrow> llm_error + pvalue" where
  "final_result loads a =
     (case a of
        Answered status _ body \<Rightarrow>
          if status \<in> RETRYABLE \<or> \<not> succeeded status then Inl LLMError
          else (case loads body of None \<Rightarrow> Inl LLMRaised | Some v \<Rightarrow> Inr v)
      | _ \<Rightarrow> Inl LLMError)"

lemma post_from_spec:
  "0 < left \<Longrightarrow> post_from to_float loads post left a = (ds, r) \<Longrightarrow>
     length ds < left \<and> list_all (at_most MAX_BACKOFF_S) ds
     \<and> (\<forall>i < length ds. retryable (post (a + i)))
     \<and> r = final_result loads (post (a + length ds))
     \<and> (retryable (post (a + length ds)) \<longrightarrow> Suc (length ds) = left)"
proof (induction left arbitrary: a ds)
  case (Suc left)
  show ?case
  proof (cases "retryable (post a) \<and> left \<noteq> 0")
    case True
    then obtain st ra body where p: "post a = Answered st ra body" "st \<in> RETRYABLE"
      by (auto simp: retryable_def split: http_answer.splits)
    obtain ds' where ds: "post_from to_float loads post left (Suc a) = (ds', r)"
      "ds = retry_delay to_float ra a body # ds'"
      using Suc.prems(2) p True by (cases "post_from to_float loads post left (Suc a)") auto
    have left: "0 < left" using True by simp
    note ih = Suc.IH[OF left ds(1)]
    have "retryable (post (a + i))" if "i < length ds" for i
      using that ih True ds(2) by (cases i) auto
    then show ?thesis using ih ds(2) retry_delay_capped by simp
  next
    case False
    then have "ds = [] \<and> r = final_result loads (post a) \<and> (retryable (post a) \<longrightarrow> left = 0)"
      using Suc.prems(2)
      by (auto simp: final_result_def retryable_def split: http_answer.splits if_splits option.splits)
    then show ?thesis by simp
  qed
qed simp

text \<open>
  A compile never hangs on its backend.  Whatever the provider answers, at most one request more
  than the retries configured is sent, every wait between two requests is capped at thirty seconds,
  a request is repeated only after a rate limit or a transient failure, and the last answer alone
  decides the result; a wait no header and no hint asks for is the capped power of two.
\<close>
theorem retries_bounded:
  assumes "0 \<le> max_retries" "post_with_retry to_float loads post max_retries = (ds, r)"
  shows "int (length ds) \<le> max_retries \<and> list_all (at_most MAX_BACKOFF_S) ds
    \<and> (\<forall>i < length ds. retryable (post i)) \<and> r = final_result loads (post (length ds))
    \<and> (retryable (post (length ds)) \<longrightarrow> int (length ds) = max_retries)
    \<and> (\<forall>a body. retry_hint body = None \<longrightarrow> retry_delay to_float None a body = Fin (min (2 ^ a) 30))"
proof -
  have "0 < nat (max_retries + 1)" using assms(1) by simp
  note p = post_from_spec[OF this assms(2)[unfolded post_with_retry_def]]
  have "retry_delay to_float None a body = Fin (min (2 ^ a) 30)" if "retry_hint body = None" for a body
    using that by (simp add: retry_delay_def given_def MAX_BACKOFF_S_def)
  then show ?thesis using p assms(1) by auto
qed

text \<open>A variable that is set is never overridden by the file, and the first line that names one wins.\<close>

theorem real_environment_wins:
  assumes "load_dotenv ls env = Inr env'"
  shows "(env k \<noteq> None \<longrightarrow> env' k = env k)
    \<and> (env k = None \<longrightarrow> env' k = map_of (List.map_filter dotenv_line ls) k)"
  using assms
proof (induction ls arbitrary: env)
  case (Cons l ls)
  show ?case
  proof (cases "dotenv_line l")
    case None
    then show ?thesis using Cons by (simp add: List.map_filter_simps)
  next
    case (Some kv)
    obtain x v where kv: "kv = (x, v)" by (cases kv)
    show ?thesis
    proof (cases "env x = None")
      case True
      then have "load_dotenv ls (env(x := Some v)) = Inr env'"
        using Cons.prems Some kv by (auto split: if_splits)
      from Cons.IH[OF this] show ?thesis using True Some kv by (auto simp: List.map_filter_simps)
    next
      case False
      then have "load_dotenv ls env = Inr env'" using Cons.prems Some kv by auto
      from Cons.IH[OF this] show ?thesis using False Some kv by (auto simp: List.map_filter_simps)
    qed
  qed
qed (simp add: List.map_filter_simps)

text \<open>
  A body that is no JSON under a 200 leaves every hosted client as another exception than \<open>LLMError\<close>, and
  \<open>warm\<close>, which promises never to raise, with it.
\<close>

theorem warm_raises_on_no_json:
  assumes "loads ''<html>'' = None" "0 \<le> max_retries" "post 0 = Answered 200 None ''<html>''"
  shows "warm (groq_generate to_float loads max_retries post) = None
    \<and> warm (gemini_generate to_float loads max_retries post) = None"
proof -
  obtain n where n: "nat (max_retries + 1) = Suc n" using assms(2) by (cases "nat (max_retries + 1)") simp_all
  show ?thesis
    using assms by (simp add: groq_generate_def gemini_generate_def post_with_retry_def n warm_def RETRYABLE_def succeeded_def)
qed

text \<open>With both keys set Gemini is chosen, whatever the rule for a present Groq key says.\<close>

theorem gemini_key_wins:
  "given (env ''GEMINI_API_KEY'') = Some k \<Longrightarrow> env ''AGENTIAM_LLM_BACKEND'' = None
    \<Longrightarrow> client_from_env [] env = Inr (GeminiClient k)"
proof -
  have "strip [] = []" "lower_case [] = []" by code_simp+
  then show "given (env ''GEMINI_API_KEY'') = Some k \<Longrightarrow> env ''AGENTIAM_LLM_BACKEND'' = None
    \<Longrightarrow> client_from_env [] env = Inr (GeminiClient k)"
    by (simp add: client_from_env_def)
qed

section \<open>Witnesses\<close>

definition no_numbers :: "string \<Rightarrow> dec option" where "no_numbers t = (if t = ''7'' then Some (Fin 7) else if t = ''1e9'' then Some (Fin (10 ^ 9)) else None)"
definition empty_object :: "string \<Rightarrow> pvalue option" where "empty_object t = (if t = ''{}'' then Some (PyMap []) else None)"

definition throttled :: "nat \<Rightarrow> http_answer" where
  "throttled i = (if i = 0 then Answered 429 (Some ''1e9'') [] else if i = 1 then Answered 503 None ''Retry in 7s'' else Answered 200 None ''{}'')"

theorem retries_bounded_witness:
  "post_with_retry no_numbers empty_object throttled 5 = ([Fin 30, Fin 8], Inr (PyMap []))
    \<and> list_all (at_most MAX_BACKOFF_S) [Fin 30, Fin 8] \<and> final_result empty_object (throttled 2) = Inr (PyMap [])"
proof -
  have run: "post_with_retry no_numbers empty_object throttled 5 = ([Fin 30, Fin 8], Inr (PyMap []))" by code_simp
  then show ?thesis using retries_bounded[OF _ run] by (simp add: numeral_2_eq_2)
qed

end
