(* ===== verification/Drift.thy ===== *)
theory Drift
  imports Decision PyText "HOL-Library.List_Lexorder"
begin

text \<open>
  Intent drift: the cached embeddings, the rule-based score \<open>decide\<close> escalates on and the recorded
  features (\<open>agentiam_pep/drift.py\<close>, \<open>agentiam_core/drift_features.py\<close>).

  A float is the decimal its text shows and the arithmetic of the score is exact; \<open>ratio\<close> is the
  float the dot product over the product of the norms comes to, for vectors that have a direction.
  Texts are ASCII, on which NFKC is the identity and case folding is \<open>lower\<close>.  A numeric argument is
  the scaled integer the extractor makes of it.  \<open>model\<close> is what the embedding service answers.
\<close>

section \<open>Embeddings\<close>

type_synonym vec = "decimal list"

text \<open>
  An error status, no connection or no JSON; JSON that is no object; an object without a vector; a
  vector with an element \<open>float\<close> refuses; a vector.
\<close>

datatype embed_answer = EmbFailed | EmbNoObject | EmbNoVector | EmbBadVector | EmbVector vec

text \<open>\<open>OracleUnavailable\<close> and any other exception.\<close>

datatype drift_error = Unavailable | DriftRaised

definition embed_post :: "embed_answer \<Rightarrow> drift_error + vec" where
  "embed_post a =
     (case a of
        EmbFailed \<Rightarrow> Inl Unavailable
      | EmbNoObject \<Rightarrow> Inl DriftRaised
      | EmbNoVector \<Rightarrow> Inl Unavailable
      | EmbBadVector \<Rightarrow> Inl DriftRaised
      | EmbVector v \<Rightarrow> if v = [] then Inl Unavailable else Inr v)"

definition CACHE_MAX :: nat where "CACHE_MAX = 2048"

text \<open>Inserting a new key into a bounded dictionary drops the oldest; there is none to drop at a bound of zero.\<close>

definition remember :: "nat \<Rightarrow> 'k \<Rightarrow> 'v \<Rightarrow> ('k \<times> 'v) list \<Rightarrow> drift_error + ('k \<times> 'v) list" where
  "remember bound k v cache =
     (if bound \<le> length cache then (if cache = [] then Inl DriftRaised else Inr (tl cache @ [(k, v)]))
      else Inr (cache @ [(k, v)]))"

definition embed ::
  "nat \<Rightarrow> (string \<Rightarrow> embed_answer) \<Rightarrow> string \<Rightarrow> (string \<times> vec) list \<Rightarrow> (drift_error + vec) \<times> (string \<times> vec) list" where
  "embed bound model t cache =
     (case map_of cache t of
        Some v \<Rightarrow> (Inr v, cache)
      | None \<Rightarrow>
          (case bindE (embed_post (model t)) (\<lambda>v. bindE (remember bound t v cache) (\<lambda>c. Inr (v, c))) of
             Inl e \<Rightarrow> (Inl e, cache)
           | Inr (v, c) \<Rightarrow> (Inr v, c)))"

text \<open>\<open>warm\<close> asks once, past the cache: \<open>None\<close> is an exception that leaves it.\<close>

definition embed_warm :: "embed_answer \<Rightarrow> bool option" where
  "embed_warm a = (case embed_post a of Inr _ \<Rightarrow> Some True | Inl Unavailable \<Rightarrow> Some False | Inl DriftRaised \<Rightarrow> None)"

definition cosine_similarity :: "(vec \<Rightarrow> vec \<Rightarrow> decimal) \<Rightarrow> vec \<Rightarrow> vec \<Rightarrow> drift_error + decimal" where
  "cosine_similarity ratio a b =
     (if length a \<noteq> length b then Inl DriftRaised
      else if list_all (\<lambda>x. x = 0) a \<or> list_all (\<lambda>x. x = 0) b then Inr 0
      else Inr (ratio a b))"

section \<open>The score\<close>

definition DRIFT_THRESHOLD :: decimal where "DRIFT_THRESHOLD = 7 / 10"
definition SIMILARITY_THRESHOLD :: decimal where "SIMILARITY_THRESHOLD = 3 / 10"

text \<open>\<open>str.split()\<close> on white space.\<close>

fun split_words :: "string \<Rightarrow> string \<Rightarrow> string list" where
  "split_words current [] = (if current = [] then [] else [current])"
| "split_words current (c # cs) =
     (if space_char c then (if current = [] then split_words [] cs else current # split_words [] cs)
      else split_words (current @ [c]) cs)"

definition words_of :: "string \<Rightarrow> string set" where
  "words_of t = set (split_words [] (lower_case t))"

definition quantized :: "decimal \<Rightarrow> decimal" where
  "quantized v = of_int (round_half_even (v * 10000)) / 10000"

definition score_of_similarity :: "decimal \<Rightarrow> decimal" where
  "score_of_similarity s =
     (if s < SIMILARITY_THRESHOLD then DRIFT_THRESHOLD + 1 / 10
      else quantized (min (7 / 10) (max 0 (1 - (s - SIMILARITY_THRESHOLD) / (1 - SIMILARITY_THRESHOLD)))))"

definition is_rephrasing :: "string \<Rightarrow> string \<Rightarrow> bool" where
  "is_rephrasing task action = (words_of action \<noteq> {} \<and> words_of action \<subseteq> words_of task)"

record drift_oracle_state =
  do_vectors :: "(string \<times> vec) list"
  do_scores :: "((string \<times> string) \<times> decimal) list"

definition compute_score ::
  "(vec \<Rightarrow> vec \<Rightarrow> decimal) \<Rightarrow> (string \<Rightarrow> embed_answer) \<Rightarrow> string \<Rightarrow> string \<Rightarrow> (string \<times> vec) list
    \<Rightarrow> (drift_error + decimal) \<times> (string \<times> vec) list" where
  "compute_score ratio model task action cache =
     (if task = action then (Inr 0, cache)
      else if is_rephrasing task action then (Inr (1 / 10), cache)
      else (case embed CACHE_MAX model task cache of
              (Inl e, c) \<Rightarrow> (Inl e, c)
            | (Inr a, c) \<Rightarrow>
                (case embed CACHE_MAX model action c of
                   (Inl e, c') \<Rightarrow> (Inl e, c')
                 | (Inr b, c') \<Rightarrow>
                     (bindE (cosine_similarity ratio a b) (\<lambda>s. Inr (score_of_similarity s)), c'))))"

definition cached_score ::
  "(vec \<Rightarrow> vec \<Rightarrow> decimal) \<Rightarrow> (string \<Rightarrow> embed_answer) \<Rightarrow> string \<Rightarrow> string \<Rightarrow> drift_oracle_state
    \<Rightarrow> (drift_error + decimal) \<times> drift_oracle_state" where
  "cached_score ratio model task action st =
     (case map_of (do_scores st) (task, action) of
        Some s \<Rightarrow> (Inr s, st)
      | None \<Rightarrow>
          (case compute_score ratio model task action (do_vectors st) of
             (Inl e, c) \<Rightarrow> (Inl e, st\<lparr>do_vectors := c\<rparr>)
           | (Inr s, c) \<Rightarrow>
               (case remember CACHE_MAX (task, action) s (do_scores st) of
                  Inl e \<Rightarrow> (Inl e, st\<lparr>do_vectors := c\<rparr>)
                | Inr scores \<Rightarrow> (Inr s, \<lparr>do_vectors = c, do_scores = scores\<rparr>))))"

definition given_text :: "string option \<Rightarrow> string option" where
  "given_text v = (case v of None \<Rightarrow> None | Some s \<Rightarrow> if s = [] then None else Some s)"

text \<open>\<open>Inr None\<close>: drift cannot be assessed.\<close>

definition score_for ::
  "(vec \<Rightarrow> vec \<Rightarrow> decimal) \<Rightarrow> (string \<Rightarrow> embed_answer) \<Rightarrow> request_context \<Rightarrow> drift_oracle_state
    \<Rightarrow> (drift_error + decimal option) \<times> drift_oracle_state" where
  "score_for ratio model ctx st =
     (case (given_text (task_intent_text ctx), given_text (action_intent_text ctx)) of
        (Some task, Some action) \<Rightarrow>
          (case cached_score ratio model task action st of (r, st') \<Rightarrow> (bindE r (\<lambda>s. Inr (Some s)), st'))
      | _ \<Rightarrow> (Inr None, st))"

section \<open>The features\<close>

definition action_template :: "string \<Rightarrow> string option \<Rightarrow> string" where
  "action_template scope t = (case given_text t of None \<Rightarrow> scope | Some u \<Rightarrow> scope @ '' using '' @ u)"

definition unscaled :: "decimal \<Rightarrow> decimal" where
  "unscaled n = ctx_round (n / 10000)"

text \<open>\<open>format(value.normalize(), "f")\<close> of a value with at most four places.\<close>

definition plain_decimal :: "decimal \<Rightarrow> string" where
  "plain_decimal v =
     (let t = rev (dropWhile (\<lambda>c. c = CHR ''0'') (rev (fixed4 v))) in
      if t \<noteq> [] \<and> last t = CHR ''.'' then butlast t else t)"

definition short_key :: "string \<Rightarrow> string" where
  "short_key k = rev (takeWhile (\<lambda>c. c \<noteq> CHR ''.'') (rev k))"

fun render_value :: "arg_value \<Rightarrow> string" where
  "render_value (VNum n) = plain_decimal (unscaled n)"
| "render_value (VStr s) = s"

fun join_parts :: "string list \<Rightarrow> string" where
  "join_parts [] = []"
| "join_parts [x] = x"
| "join_parts (x # xs) = x @ '', '' @ join_parts xs"

definition rendered_action :: "string \<Rightarrow> string option \<Rightarrow> arg_value strmap \<Rightarrow> string" where
  "rendered_action scope t values =
     (if values = [] then action_template scope t
      else action_template scope t @ '' with ''
        @ join_parts (map (\<lambda>(k, v). short_key k @ ''='' @ render_value v) (sort_key fst values)))"

text \<open>The numbers of a text: digits with commas among them, and perhaps a point and digits.\<close>

definition number_char :: "char \<Rightarrow> bool" where
  "number_char c = (digit_char c \<or> c = CHR '','')"

function numbers_in :: "string \<Rightarrow> decimal list" where
  "numbers_in s =
     (case s of
        [] \<Rightarrow> []
      | c # cs \<Rightarrow>
          if \<not> digit_char c then numbers_in cs
          else
            let ds = filter digit_char (takeWhile number_char s); rest = dropWhile number_char cs;
                fs = (if take 1 rest = ''.'' then takeWhile digit_char (tl rest) else []) in
            (if fs = [] then of_int (digits_value ds) # numbers_in rest
             else (of_int (digits_value (ds @ fs)) * power10 (- int (length fs))) # numbers_in (dropWhile digit_char (tl rest))))"
  by pat_completeness auto

termination numbers_in
proof (relation "measure length")
  fix s c cs ds rest fs
  assume s: "s = c # cs" and r: "rest = dropWhile number_char cs"
  have le: "length rest \<le> length cs" unfolding r by (rule length_dropWhile_le)
  then show "(rest, s) \<in> measure length" by (simp add: s)
  have "length (dropWhile digit_char (tl rest)) \<le> length (tl rest)" by (rule length_dropWhile_le)
  then show "(dropWhile digit_char (tl rest), s) \<in> measure length" using le by (simp add: s)
qed simp_all

declare numbers_in.simps [simp del]

fun contains_text :: "string \<Rightarrow> string \<Rightarrow> bool" where
  "contains_text p [] = (p = [])"
| "contains_text p (c # cs) = (take (length p) (c # cs) = p \<or> contains_text p cs)"

fun appears :: "string \<Rightarrow> decimal list \<Rightarrow> arg_value \<Rightarrow> bool" where
  "appears haystack numbers (VNum n) = (unscaled n \<in> set numbers)"
| "appears haystack numbers (VStr s) = (s \<noteq> [] \<and> contains_text (lower_case s) haystack)"

definition argument_entity_overlap :: "string \<Rightarrow> arg_value strmap \<Rightarrow> decimal" where
  "argument_entity_overlap task values =
     (if values = [] then 1
      else
        let matched = length (filter (appears (lower_case task) (numbers_in task)) (map snd values)) in
        quantized (ctx_round (of_nat matched / of_nat (length values))))"

record drift_features =
  df_f1 :: "decimal option"
  df_f2 :: "decimal option"
  df_f5 :: "decimal option"

definition features_dict :: "drift_features \<Rightarrow> (string \<times> decimal) list" where
  "features_dict f =
     concat (map (\<lambda>(k, v). case v of None \<Rightarrow> [] | Some x \<Rightarrow> [(k, x)])
       [(''f1'', df_f1 f), (''f2'', df_f2 f), (''f5'', df_f5 f)])"

text \<open>The similarity of two cached texts, as a recorded score.\<close>

definition similarity_feature ::
  "(vec \<Rightarrow> vec \<Rightarrow> decimal) \<Rightarrow> nat \<Rightarrow> (string \<Rightarrow> embed_answer) \<Rightarrow> vec \<Rightarrow> string \<Rightarrow> (string \<times> vec) list
    \<Rightarrow> (drift_error + decimal) \<times> (string \<times> vec) list" where
  "similarity_feature ratio bound model task_vector t cache =
     (case embed bound model t cache of
        (Inl e, c) \<Rightarrow> (Inl e, c)
      | (Inr v, c) \<Rightarrow> (bindE (cosine_similarity ratio task_vector v) (\<lambda>s. Inr (quantized s)), c))"

definition embedding_features ::
  "(vec \<Rightarrow> vec \<Rightarrow> decimal) \<Rightarrow> nat \<Rightarrow> (string \<Rightarrow> embed_answer) \<Rightarrow> string \<Rightarrow> request_context \<Rightarrow> (string \<times> vec) list
    \<Rightarrow> (decimal option \<times> decimal option) \<times> (string \<times> vec) list" where
  "embedding_features ratio bound model task ctx cache =
     (case embed bound model task cache of
        (Inl e, c) \<Rightarrow> ((None, None), c)
      | (Inr tv, c) \<Rightarrow>
          (case similarity_feature ratio bound model tv (action_template (operation ctx) (tool ctx)) c of
             (Inl e, c1) \<Rightarrow> ((None, None), c1)
           | (Inr f1, c1) \<Rightarrow>
               (case similarity_feature ratio bound model tv (rendered_action (operation ctx) (tool ctx) (args ctx)) c1 of
                  (Inl e, c2) \<Rightarrow> ((None, None), c2)
                | (Inr f2, c2) \<Rightarrow> ((Some f1, Some f2), c2))))"

text \<open>Without a client only \<open>f5\<close> is computed, without a task text nothing is.\<close>

definition extract_features ::
  "(vec \<Rightarrow> vec \<Rightarrow> decimal) \<Rightarrow> nat option \<Rightarrow> (string \<Rightarrow> embed_answer) \<Rightarrow> request_context \<Rightarrow> (string \<times> vec) list
    \<Rightarrow> drift_features \<times> (string \<times> vec) list" where
  "extract_features ratio client model ctx cache =
     (case given_text (task_intent_text ctx) of
        None \<Rightarrow> (\<lparr>df_f1 = None, df_f2 = None, df_f5 = None\<rparr>, cache)
      | Some task \<Rightarrow>
          (let f5 = argument_entity_overlap task (args ctx) in
           case client of
             None \<Rightarrow> (\<lparr>df_f1 = None, df_f2 = None, df_f5 = Some f5\<rparr>, cache)
           | Some bound \<Rightarrow>
               (case embedding_features ratio bound model task ctx cache of
                  ((f1, f2), c) \<Rightarrow> (\<lparr>df_f1 = f1, df_f2 = f2, df_f5 = Some f5\<rparr>, c))))"

section \<open>Caching changes nothing\<close>

text \<open>
  A model that may be unreachable at any time but answers a text with one vector, and the vectors and
  scores the caches may hold of it.
\<close>

definition answers_as :: "(string \<Rightarrow> vec) \<Rightarrow> (string \<Rightarrow> embed_answer) \<Rightarrow> bool" where
  "answers_as vectors model \<longleftrightarrow> (\<forall>t. model t = EmbFailed \<or> model t = EmbVector (vectors t))"

definition true_score :: "(vec \<Rightarrow> vec \<Rightarrow> decimal) \<Rightarrow> (string \<Rightarrow> vec) \<Rightarrow> string \<Rightarrow> string \<Rightarrow> drift_error + decimal" where
  "true_score ratio vectors task action =
     (if task = action then Inr 0 else if is_rephrasing task action then Inr (1 / 10)
      else bindE (cosine_similarity ratio (vectors task) (vectors action)) (\<lambda>s. Inr (score_of_similarity s)))"

definition oracle_inv :: "(vec \<Rightarrow> vec \<Rightarrow> decimal) \<Rightarrow> (string \<Rightarrow> vec) \<Rightarrow> drift_oracle_state \<Rightarrow> bool" where
  "oracle_inv ratio vectors st \<longleftrightarrow>
     (\<forall>x \<in> set (do_vectors st). snd x = vectors (fst x))
   \<and> (\<forall>x \<in> set (do_scores st). true_score ratio vectors (fst (fst x)) (snd (fst x)) = Inr (snd x))
   \<and> length (do_vectors st) \<le> CACHE_MAX \<and> length (do_scores st) \<le> CACHE_MAX
   \<and> distinct (map fst (do_vectors st)) \<and> distinct (map fst (do_scores st))"

lemma remember_keeps:
  assumes "remember bound k v cache = Inr c" "map_of cache k = None" "length cache \<le> bound"
    "distinct (map fst cache)" "\<forall>x \<in> set cache. P x" "P (k, v)"
  shows "length c \<le> bound" "distinct (map fst c)" "\<forall>x \<in> set c. P x"
proof -
  have n: "k \<notin> fst ` set cache" using assms(2) by (simp add: map_of_eq_None_iff)
  have "fst ` set (tl cache) \<subseteq> fst ` set cache" by (cases cache) auto
  moreover have "distinct (map fst (tl cache))" using assms(4) by (cases cache) auto
  ultimately show "length c \<le> bound" "distinct (map fst c)" "\<forall>x \<in> set c. P x"
    using assms n by (auto simp: remember_def split: if_splits dest: list.set_sel(2))
qed

lemma remember_total: "0 < bound \<Longrightarrow> \<exists>c. remember bound k v cache = Inr c"
  by (auto simp: remember_def)

definition vectors_ok :: "(string \<Rightarrow> vec) \<Rightarrow> (string \<times> vec) list \<Rightarrow> bool" where
  "vectors_ok vectors c \<longleftrightarrow> (\<forall>x \<in> set c. snd x = vectors (fst x)) \<and> length c \<le> CACHE_MAX \<and> distinct (map fst c)"

lemma embed_keeps:
  assumes "answers_as vectors model" "vectors_ok vectors cache" "embed CACHE_MAX model t cache = (r, c)"
  shows "vectors_ok vectors c \<and> (r = Inr (vectors t) \<or> r = Inl Unavailable)"
proof (cases "map_of cache t")
  case (Some v)
  then have "(t, v) \<in> set cache" by (rule map_of_SomeD)
  then show ?thesis using assms Some by (auto simp: embed_def vectors_ok_def)
next
  case None
  show ?thesis
  proof (cases "embed_post (model t)")
    case (Inl e)
    moreover have "model t = EmbFailed \<or> model t = EmbVector (vectors t)" using assms(1) by (simp add: answers_as_def)
    ultimately have "e = Unavailable" by (auto simp: embed_post_def split: if_splits)
    then show ?thesis using Inl None assms(2,3) by (simp add: embed_def)
  next
    case (Inr v)
    have v: "v = vectors t"
    proof (cases "model t = EmbFailed")
      case True
      then show ?thesis using Inr by (simp add: embed_post_def)
    next
      case False
      then have "model t = EmbVector (vectors t)" using assms(1) by (auto simp: answers_as_def)
      then show ?thesis using Inr by (simp add: embed_post_def split: if_splits)
    qed
    obtain c' where c': "remember CACHE_MAX t v cache = Inr c'" using remember_total[of CACHE_MAX t v cache] by (auto simp: CACHE_MAX_def)
    then have rc: "r = Inr v" "c = c'" using assms(3) None Inr by (simp_all add: embed_def)
    have "length c' \<le> CACHE_MAX" "distinct (map fst c')" "\<forall>x \<in> set c'. snd x = vectors (fst x)"
      by (rule remember_keeps[OF c' None]; use assms(2) v in \<open>simp add: vectors_ok_def\<close>)+
    then show ?thesis using rc v by (simp add: vectors_ok_def)
  qed
qed

lemma compute_score_keeps:
  assumes "answers_as vectors model" "vectors_ok vectors cache" "compute_score ratio model task action cache = (r, c)"
  shows "vectors_ok vectors c \<and> (r = true_score ratio vectors task action \<or> r = Inl Unavailable)"
proof (cases "task = action \<or> is_rephrasing task action")
  case True
  then show ?thesis using assms(2,3) by (auto simp: compute_score_def true_score_def split: if_splits)
next
  case False
  obtain ra c1 where a: "embed CACHE_MAX model task cache = (ra, c1)" by fastforce
  obtain rb c2 where b: "embed CACHE_MAX model action c1 = (rb, c2)" by fastforce
  have a': "vectors_ok vectors c1 \<and> (ra = Inr (vectors task) \<or> ra = Inl Unavailable)" by (rule embed_keeps[OF assms(1,2) a])
  then have b': "vectors_ok vectors c2 \<and> (rb = Inr (vectors action) \<or> rb = Inl Unavailable)" using embed_keeps[OF assms(1) _ b] by blast
  show ?thesis using False a b a' b' assms(3) by (auto simp: compute_score_def true_score_def)
qed

lemma cached_score_keeps:
  assumes "answers_as vectors model" "oracle_inv ratio vectors st" "cached_score ratio model task action st = (r, st')"
  shows "oracle_inv ratio vectors st' \<and> (r = true_score ratio vectors task action \<or> r = Inl Unavailable)"
proof (cases "map_of (do_scores st) (task, action)")
  case (Some s)
  then have "((task, action), s) \<in> set (do_scores st)" by (rule map_of_SomeD)
  then show ?thesis using assms Some by (auto simp: cached_score_def oracle_inv_def)
next
  case None
  obtain x c where x: "compute_score ratio model task action (do_vectors st) = (x, c)" by fastforce
  have "vectors_ok vectors (do_vectors st)" using assms(2) by (simp add: oracle_inv_def vectors_ok_def)
  from compute_score_keeps[OF assms(1) this x] have k: "vectors_ok vectors c"
    "x = true_score ratio vectors task action \<or> x = Inl Unavailable" by simp_all
  have keep: "oracle_inv ratio vectors (st\<lparr>do_vectors := c\<rparr>)" using assms(2) k(1) by (simp add: oracle_inv_def vectors_ok_def)
  show ?thesis
  proof (cases x)
    case (Inl e)
    then show ?thesis using None x k(2) keep assms(3) by (auto simp: cached_score_def)
  next
    case (Inr s)
    obtain scores where scores: "remember CACHE_MAX (task, action) s (do_scores st) = Inr scores"
      using remember_total[of CACHE_MAX "(task, action)" s "do_scores st"] by (auto simp: CACHE_MAX_def)
    have st': "st' = \<lparr>do_vectors = c, do_scores = scores\<rparr>" "r = Inr s"
      using None x Inr scores assms(3) by (simp_all add: cached_score_def)
    have t: "true_score ratio vectors task action = Inr s" using k(2) Inr by auto
    have "length scores \<le> CACHE_MAX" "distinct (map fst scores)"
      "\<forall>x \<in> set scores. true_score ratio vectors (fst (fst x)) (snd (fst x)) = Inr (snd x)"
      by (rule remember_keeps[OF scores None]; use assms(2) t in \<open>simp add: oracle_inv_def\<close>)+
    then show ?thesis using st' t k(1) by (simp add: oracle_inv_def vectors_ok_def)
  qed
qed

text \<open>The oracle over a history of requests, each with what the model answers at the time.\<close>

inductive oracle_run :: "(vec \<Rightarrow> vec \<Rightarrow> decimal) \<Rightarrow> (string \<Rightarrow> vec) \<Rightarrow> drift_oracle_state \<Rightarrow> bool" for ratio vectors where
  opened: "oracle_run ratio vectors \<lparr>do_vectors = [], do_scores = []\<rparr>"
| asked: "oracle_run ratio vectors st \<Longrightarrow> answers_as vectors model \<Longrightarrow> score_for ratio model ctx st = (r, st')
    \<Longrightarrow> oracle_run ratio vectors st'"

lemma score_for_keeps:
  assumes "answers_as vectors model" "oracle_inv ratio vectors st" "score_for ratio model ctx st = (r, st')"
  shows "oracle_inv ratio vectors st'
    \<and> (case (given_text (task_intent_text ctx), given_text (action_intent_text ctx)) of
         (Some task, Some action) \<Rightarrow> r = bindE (true_score ratio vectors task action) (\<lambda>s. Inr (Some s)) \<or> r = Inl Unavailable
       | _ \<Rightarrow> r = Inr None)"
proof (cases "given_text (task_intent_text ctx)"; cases "given_text (action_intent_text ctx)")
  fix task action assume g: "given_text (task_intent_text ctx) = Some task" "given_text (action_intent_text ctx) = Some action"
  obtain x st1 where x: "cached_score ratio model task action st = (x, st1)" by fastforce
  show ?thesis using cached_score_keeps[OF assms(1,2) x] assms(3) g x by (auto simp: score_for_def)
qed (use assms in \<open>simp_all add: score_for_def\<close>)

text \<open>What \<open>decide\<close> is given; it answers an oracle that is unavailable as it does no score.\<close>

definition as_oracle :: "(vec \<Rightarrow> vec \<Rightarrow> decimal) \<Rightarrow> (string \<Rightarrow> embed_answer) \<Rightarrow> drift_oracle_state \<Rightarrow> drift_oracle" where
  "as_oracle ratio model st ctx = (case fst (score_for ratio model ctx st) of Inl _ \<Rightarrow> None | Inr s \<Rightarrow> Some s)"

lemma score_bounds: "0 \<le> score_of_similarity s \<and> (score_of_similarity s > 7 / 10 \<longleftrightarrow> s < 3 / 10)"
proof (cases "s < 3 / 10")
  case True
  then show ?thesis by (simp add: score_of_similarity_def SIMILARITY_THRESHOLD_def DRIFT_THRESHOLD_def)
next
  case False
  define v where "v = min (7 / 10) (max 0 (1 - (s - SIMILARITY_THRESHOLD) / (1 - SIMILARITY_THRESHOLD)))"
  have "v \<le> 7 / 10" unfolding v_def by (rule min.cobounded1)
  moreover have "0 \<le> v" unfolding v_def by (intro min.boundedI max.cobounded1) simp
  ultimately have v: "0 \<le> v * 10000" "v * 10000 \<le> 7000" by simp_all
  have r: "0 \<le> round_half_even x \<and> round_half_even x \<le> 7000" if "0 \<le> x" "x \<le> 7000" for x
  proof (cases "x = 7000")
    case True
    then show ?thesis by (simp add: round_half_even_def)
  next
    case False
    with that have "0 \<le> \<lfloor>x\<rfloor>" "\<lfloor>x\<rfloor> < 7000" by (simp_all add: floor_less_iff)
    then show ?thesis by (simp add: round_half_even_def Let_def)
  qed
  have sc: "score_of_similarity s = quantized v"
    using False unfolding score_of_similarity_def v_def by (simp add: SIMILARITY_THRESHOLD_def)
  show ?thesis using r[OF v] False by (simp add: sc quantized_def divide_le_eq)
qed

text \<open>
  C34: The drift score is that of the two texts and nothing else.  Whatever was asked before and however
  the model came and went, the oracle answers the score of the pair or that it is unavailable, its two
  caches hold at most 2048 entries, and drift alone escalates a decision only for two texts given by
  the caller that differ, of which the action is no rephrasing of the task and whose similarity is below
  the threshold.  While the model keeps to one number of dimensions, nothing else is raised.
\<close>
theorem drift_scores_are_the_texts:
  assumes "oracle_run ratio vectors st" "answers_as vectors model" "\<And>t. length (vectors t) = n"
  shows "fst (score_for ratio model ctx st) \<noteq> Inl DriftRaised
    \<and> length (do_vectors st) \<le> CACHE_MAX \<and> length (do_scores st) \<le> CACHE_MAX
    \<and> (\<forall>task action. given_text (task_intent_text ctx) = Some task \<and> given_text (action_intent_text ctx) = Some action \<longrightarrow>
         fst (score_for ratio model ctx st) \<in> {bindE (true_score ratio vectors task action) (\<lambda>s. Inr (Some s)), Inl Unavailable})
    \<and> (drift_escalates ctx (drift_score_of (Some (as_oracle ratio model st)) ctx) \<longrightarrow>
         (\<exists>task action s. given_text (task_intent_text ctx) = Some task \<and> given_text (action_intent_text ctx) = Some action
            \<and> task \<noteq> action \<and> \<not> is_rephrasing task action
            \<and> cosine_similarity ratio (vectors task) (vectors action) = Inr s \<and> s < SIMILARITY_THRESHOLD))"
proof -
  have inv: "oracle_inv ratio vectors st"
    using assms(1)
  proof induction
    case opened
    show ?case by (simp add: oracle_inv_def)
  next
    case (asked st model ctx r st')
    then show ?case using score_for_keeps by blast
  qed
  obtain r st' where r: "score_for ratio model ctx st = (r, st')" by fastforce
  note k = score_for_keeps[OF assms(2) inv r]
  have esc: "\<exists>task action s. given_text (task_intent_text ctx) = Some task \<and> given_text (action_intent_text ctx) = Some action
            \<and> task \<noteq> action \<and> \<not> is_rephrasing task action
            \<and> cosine_similarity ratio (vectors task) (vectors action) = Inr s \<and> s < SIMILARITY_THRESHOLD"
    if e: "drift_escalates ctx (drift_score_of (Some (as_oracle ratio model st)) ctx)"
  proof -
    obtain d where d: "r = Inr (Some d)" "d > 7 / 10"
      using e by (auto simp: drift_escalates_def drift_score_of_def as_oracle_def r DRIFT_ESCALATION_THRESHOLD_def
          split: option.splits if_splits sum.splits)
    obtain task action where g: "given_text (task_intent_text ctx) = Some task" "given_text (action_intent_text ctx) = Some action"
      using k d(1) by (auto split: option.splits)
    have "Inr (Some d) = bindE (true_score ratio vectors task action) (\<lambda>s. Inr (Some s))" using k d(1) g by simp
    then have t: "true_score ratio vectors task action = Inr d"
      by (cases "true_score ratio vectors task action") simp_all
    have n: "task \<noteq> action" "\<not> is_rephrasing task action" using t d(2) by (auto simp: true_score_def split: if_splits)
    then obtain s where s: "cosine_similarity ratio (vectors task) (vectors action) = Inr s" "d = score_of_similarity s"
      using t by (auto simp: true_score_def)
    then have "s < 3 / 10" using score_bounds[of s] d(2) by simp
    then show ?thesis using g n s(1) by (auto simp: SIMILARITY_THRESHOLD_def)
  qed
  have "fst (score_for ratio model ctx st) \<in> {bindE (true_score ratio vectors task action) (\<lambda>s. Inr (Some s)), Inl Unavailable}"
    if "given_text (task_intent_text ctx) = Some task" "given_text (action_intent_text ctx) = Some action" for task action
    using k that r by auto
  moreover have "r \<noteq> Inl DriftRaised"
    using k assms(3) by (auto simp: true_score_def cosine_similarity_def split: option.splits if_splits)
  ultimately show ?thesis using inv esc r by (auto simp: oracle_inv_def)
qed

text \<open>A caller whose two texts are orthogonal, at an oracle just opened.\<close>

definition two_texts :: request_context where
  "two_texts =
     \<lparr>operation = ''payments:write'', requested = (\<lambda>_. 0), current_depth = 0, request_intent = [], now = 0,
      tool = None, args = [], task_intent_text = Some ''pay the invoice'', action_intent_text = Some ''delete it'',
      drift_mode_of = DRIFT_STRICT\<rparr>"

theorem drift_scores_are_the_texts_witness:
  "fst (score_for (\<lambda>_ _. 0) (\<lambda>_. EmbVector [1]) two_texts \<lparr>do_vectors = [], do_scores = []\<rparr>) \<noteq> Inl DriftRaised
   \<and> drift_escalates two_texts
       (drift_score_of (Some (as_oracle (\<lambda>_ _. 0) (\<lambda>_. EmbVector [1]) \<lparr>do_vectors = [], do_scores = []\<rparr>)) two_texts)"
  by (intro conjI drift_scores_are_the_texts[of _ "\<lambda>_. [1]" _ _ 1, THEN conjunct1]; (simp add: oracle_run.opened answers_as_def; fail)?)
    code_simp

text \<open>The comment promises a line from 0.7 at a similarity of 0.3: up to 0.51 the score is flat at 0.7.\<close>

theorem score_is_flat_below_half: "score_of_similarity (3 / 10) = 7 / 10 \<and> score_of_similarity (1 / 2) = 7 / 10"
  by (simp add: score_of_similarity_def SIMILARITY_THRESHOLD_def quantized_def) (code_simp)

end
