(* ===== verification/Startup.thy ===== *)
theory Startup
  imports Service Access Deployment Drift
begin

text \<open>
  How the enforcement point starts and stops: its settings (\<open>agentiam_pep/config.py\<close> and
  \<open>ServiceSettings\<close> of \<open>scripts/pep_service.py\<close>), what \<open>build_service\<close> and \<open>main\<close> make of them,
  and the lifespan that primes the first lease and, at the end, settles before it releases.

  \<open>float\<close> of a text is a parameter, and so is making a key from its bytes; a float
  may be infinite or no number.  Files are what \<open>Service\<close> reads them as.  The lifespan acts on the
  deployment of \<open>Deployment\<close>; the emitter, the revocation loops and closing the connections are
  left to their own theories.
\<close>

section \<open>The gateway's settings\<close>

text \<open>\<open>ValueError\<close> and \<open>ServiceConfigError\<close>, which \<open>main\<close> reports, and any other exception.\<close>

datatype boot_error = BootRefused | BootRaised

definition as_boot :: "exc + 'a \<Rightarrow> boot_error + 'a" where
  "as_boot x = (case x of Inl e \<Rightarrow> Inl (if e = ValueError then BootRefused else BootRaised) | Inr v \<Rightarrow> Inr v)"

definition as_boot_service :: "service_error + 'a \<Rightarrow> boot_error + 'a" where
  "as_boot_service x =
     (case x of Inl ServiceConfigError \<Rightarrow> Inl BootRefused | Inl (ServiceRaised e) \<Rightarrow> as_boot (Inl e) | Inr v \<Rightarrow> Inr v)"

definition PEP_PREFIX :: string where "PEP_PREFIX = ''AGENTIAM_PEP_''"

record pep_config =
  pc_upstream_base_url :: string
  pc_connect_timeout :: dec
  pc_read_timeout :: dec
  pc_write_timeout :: dec
  pc_pool_timeout :: dec
  pc_connect_retries :: int
  pc_max_connections :: int
  pc_max_keepalive :: int
  pc_otel_endpoint :: "string option"

text \<open>\<open>value <= 0\<close> is false of a NaN.\<close>

fun at_most_zero :: "dec \<Rightarrow> bool" where
  "at_most_zero (Fin x) = (x \<le> 0)"
| "at_most_zero NegInf = True"
| "at_most_zero PosInf = False"
| "at_most_zero NaN = False"

definition positive :: "dec \<Rightarrow> boot_error + unit" where
  "positive v = guardE (\<not> at_most_zero v) BootRefused"

definition mk_pep_config :: "pep_config \<Rightarrow> boot_error + pep_config" where
  "mk_pep_config c =
     bindE (guardE (pc_upstream_base_url c \<noteq> []) BootRefused) (\<lambda>_.
     bindE (positive (pc_connect_timeout c)) (\<lambda>_.
     bindE (positive (pc_read_timeout c)) (\<lambda>_.
     bindE (positive (pc_write_timeout c)) (\<lambda>_.
     bindE (positive (pc_pool_timeout c)) (\<lambda>_.
     bindE (guardE (pc_connect_retries c \<ge> 0) BootRefused) (\<lambda>_. Inr c))))))"

text \<open>\<open>connect_timeout_s * (connect_retries + 1)\<close>, for a positive factor.\<close>

definition worst_case_connect :: "pep_config \<Rightarrow> dec" where
  "worst_case_connect c =
     (case pc_connect_timeout c of Fin x \<Rightarrow> Fin (x * of_int (pc_connect_retries c + 1)) | d \<Rightarrow> d)"

text \<open>\<open>int(x)\<close> truncates; of a NaN it is a \<open>ValueError\<close> and of an infinity an \<open>OverflowError\<close>.\<close>

fun int_of_float :: "dec \<Rightarrow> boot_error + int" where
  "int_of_float (Fin x) = Inr (if 0 \<le> x then \<lfloor>x\<rfloor> else \<lceil>x\<rceil>)"
| "int_of_float NaN = Inl BootRefused"
| "int_of_float PosInf = Inl BootRaised"
| "int_of_float NegInf = Inl BootRaised"

definition env_number :: "(string \<Rightarrow> dec option) \<Rightarrow> environ \<Rightarrow> string \<Rightarrow> decimal \<Rightarrow> boot_error + dec" where
  "env_number to_float env name dflt =
     (case env (PEP_PREFIX @ name) of
        None \<Rightarrow> Inr (Fin dflt)
      | Some raw \<Rightarrow> (case to_float raw of None \<Rightarrow> Inl BootRefused | Some d \<Rightarrow> Inr d))"

definition pep_config_from_env :: "(string \<Rightarrow> dec option) \<Rightarrow> environ \<Rightarrow> boot_error + pep_config" where
  "pep_config_from_env to_float env =
     (case env_given env (PEP_PREFIX @ ''UPSTREAM_BASE_URL'') of
        None \<Rightarrow> Inl BootRefused
      | Some upstream \<Rightarrow>
          bindE (env_number to_float env ''CONNECT_TIMEOUT_S'' 1) (\<lambda>connect_t.
          bindE (env_number to_float env ''READ_TIMEOUT_S'' 30) (\<lambda>read_t.
          bindE (env_number to_float env ''WRITE_TIMEOUT_S'' 10) (\<lambda>write_t.
          bindE (env_number to_float env ''POOL_TIMEOUT_S'' 5) (\<lambda>pool_t.
          bindE (bindE (env_number to_float env ''CONNECT_RETRIES'' 2) int_of_float) (\<lambda>retries.
          bindE (bindE (env_number to_float env ''MAX_CONNECTIONS'' 100) int_of_float) (\<lambda>connections.
          bindE (bindE (env_number to_float env ''MAX_KEEPALIVE_CONNECTIONS'' 20) int_of_float) (\<lambda>keepalive.
            mk_pep_config
              \<lparr>pc_upstream_base_url = upstream, pc_connect_timeout = connect_t, pc_read_timeout = read_t,
               pc_write_timeout = write_t, pc_pool_timeout = pool_t, pc_connect_retries = retries,
               pc_max_connections = connections, pc_max_keepalive = keepalive,
               pc_otel_endpoint = env_given env (PEP_PREFIX @ ''OTEL_EXPORTER_ENDPOINT'')\<rparr>))))))))"

section \<open>The service's settings\<close>

definition DEFAULT_LEASE_SIZE :: decimal where "DEFAULT_LEASE_SIZE = 5000"
definition DEFAULT_LEASE_TTL :: int where "DEFAULT_LEASE_TTL = seconds 60"
definition DEFAULT_LOW_WATER :: decimal where "DEFAULT_LOW_WATER = 1 / 4"
definition DEFAULT_ROLE :: string where "DEFAULT_ROLE = ''agent''"

text \<open>\<open>os.environ.get(name, "").strip()\<close>.\<close>

definition setting :: "environ \<Rightarrow> string \<Rightarrow> string" where
  "setting env name = (case env (PEP_PREFIX @ name) of None \<Rightarrow> [] | Some v \<Rightarrow> strip v)"

definition required_setting :: "environ \<Rightarrow> string \<Rightarrow> boot_error + string" where
  "required_setting env name = (if setting env name = [] then Inl BootRefused else Inr (setting env name))"

definition optional :: "environ \<Rightarrow> string \<Rightarrow> string option" where
  "optional env name = (if setting env name = [] then None else Some (setting env name))"

text \<open>Comparing a NaN with zero raises, past the handler around the conversion.\<close>

definition decimal_env :: "environ \<Rightarrow> string \<Rightarrow> decimal \<Rightarrow> boot_error + dec" where
  "decimal_env env name dflt =
     (if setting env name = [] then Inr (Fin dflt)
      else (case decimal_of_string (setting env name) of
              Inl _ \<Rightarrow> Inl BootRefused
            | Inr NaN \<Rightarrow> Inl BootRaised
            | Inr d \<Rightarrow> if at_most_zero d then Inl BootRefused else Inr d))"

definition optional_positive_float :: "(string \<Rightarrow> dec option) \<Rightarrow> environ \<Rightarrow> string \<Rightarrow> boot_error + dec option" where
  "optional_positive_float to_float env name =
     (if setting env name = [] then Inr None
      else (case to_float (setting env name) of
              None \<Rightarrow> Inl BootRefused
            | Some d \<Rightarrow> if at_most_zero d \<or> d = NaN \<or> d = PosInf then Inl BootRefused else Inr (Some d)))"

definition mandate_setting :: "environ \<Rightarrow> boot_error + uuid" where
  "mandate_setting env =
     bindE (required_setting env ''MANDATE_ID'') (\<lambda>raw.
       case uuid_of_string raw of None \<Rightarrow> Inl BootRefused | Some u \<Rightarrow> Inr u)"

definition key_digit :: "char \<Rightarrow> bool" where
  "key_digit c = (digit_char c \<or> c \<in> set ''abcdefABCDEF'')"

definition root_key_ok :: "string \<Rightarrow> bool" where
  "root_key_ok k = (length k = 64 \<and> list_all key_digit k)"

record startup_settings =
  su_pep :: pep_config
  su_pep_id :: string
  su_database_url :: string
  su_redis_url :: string
  su_control_plane_url :: string
  su_mandate_id :: uuid
  su_root_keys :: "string list"
  su_bundle_path :: string
  su_bundle_sig_path :: string
  su_policy_key :: string
  su_routes_path :: string
  su_roles_path :: "string option"
  su_role_default :: string
  su_ollama_url :: "string option"
  su_lease_size :: dec
  su_escalation_ttl :: "dec option"

definition settings_from_env ::
  "(string \<Rightarrow> dec option) \<Rightarrow> environ \<Rightarrow> boot_error + startup_settings" where
  "settings_from_env to_float env =
     bindE (required_setting env ''ROOT_PUBLIC_KEYS'') (\<lambda>raw.
       let keys = entries_of raw in
       bindE (guardE (list_all root_key_ok keys) BootRefused) (\<lambda>_.
       bindE (pep_config_from_env to_float env) (\<lambda>pep.
       bindE (required_setting env ''DATABASE_URL'') (\<lambda>database.
       bindE (required_setting env ''REDIS_URL'') (\<lambda>redis.
       bindE (required_setting env ''CONTROL_PLANE_URL'') (\<lambda>control.
       bindE (mandate_setting env) (\<lambda>mid.
       bindE (required_setting env ''POLICY_BUNDLE_PATH'') (\<lambda>bundle.
       bindE (required_setting env ''POLICY_BUNDLE_SIG_PATH'') (\<lambda>sig.
       bindE (required_setting env ''POLICY_PUBLIC_KEY'') (\<lambda>policy_key.
       bindE (required_setting env ''ROUTES_PATH'') (\<lambda>routes.
       bindE (decimal_env env ''LEASE_SIZE'' DEFAULT_LEASE_SIZE) (\<lambda>lease.
       bindE (optional_positive_float to_float env ''ESCALATION_TTL_S'') (\<lambda>ttl.
         Inr \<lparr>su_pep = pep, su_pep_id = (case optional env ''ID'' of None \<Rightarrow> ''pep-1'' | Some i \<Rightarrow> i),
              su_database_url = database, su_redis_url = redis, su_control_plane_url = control, su_mandate_id = mid,
              su_root_keys = keys, su_bundle_path = bundle, su_bundle_sig_path = sig, su_policy_key = policy_key,
              su_routes_path = routes, su_roles_path = optional env ''ROLE_ASSIGNMENTS_PATH'',
              su_role_default = (case optional env ''DEFAULT_ROLE'' of None \<Rightarrow> DEFAULT_ROLE | Some r \<Rightarrow> r),
              su_ollama_url = optional env ''OLLAMA_URL'', su_lease_size = lease, su_escalation_ttl = ttl\<rparr>)))))))))))))"

section \<open>Building the service\<close>

text \<open>
  The files at the configured paths: the bundle with its signature, the role map and the routes.
\<close>

record boot_files =
  bf_bundle :: "(policy_bundle \<times> string) file_read"
  bf_roles :: "jval file_read"
  bf_routes :: "pvalue file_read"

record ('ps, 'pk) built_service =
  bt_settings :: startup_settings
  bt_policy :: "'ps cedar_engine"
  bt_roles :: "string strmap"
  bt_routes :: route_table
  bt_keys :: "'pk list"
  bt_drift :: bool

definition root_keys :: "('k, 'pk) key_lib \<Rightarrow> startup_settings \<Rightarrow> boot_error + 'pk list" where
  "root_keys keys s = traverseE (\<lambda>h. as_boot (bindE (key_bytes h) (kl_public keys))) (su_root_keys s)"

text \<open>\<open>RouteTable.from_file\<close>: an \<open>OSError\<close> is no \<open>ValueError\<close>.\<close>

definition routes_from_file :: "hasher \<Rightarrow> path_compiler \<Rightarrow> pvalue file_read \<Rightarrow> boot_error + route_table" where
  "routes_from_file sha compile file =
     (case file of
        Unreadable \<Rightarrow> Inl BootRaised
      | NotJson \<Rightarrow> Inl BootRefused
      | FileValue (PyMap config) \<Rightarrow> as_boot (from_config sha compile config)
      | FileValue _ \<Rightarrow> Inl BootRefused)"

definition lease_size_ok :: "dec \<Rightarrow> boot_error + unit" where
  "lease_size_ok d = guardE (\<not> at_most_zero d) BootRefused"

definition build_service ::
  "('k, 'pk) key_lib \<Rightarrow> 'vk verifier \<Rightarrow> (string \<Rightarrow> 'vk option) \<Rightarrow> 'ps cedar_lib \<Rightarrow> (pvalue \<Rightarrow> string)
    \<Rightarrow> hasher \<Rightarrow> path_compiler \<Rightarrow> boot_files \<Rightarrow> startup_settings \<Rightarrow> boot_error + ('ps, 'pk) built_service" where
  "build_service keys check policy_key cedar str_of sha compile files s =
     bindE (as_boot_service (load_policy check cedar str_of (policy_key (su_policy_key s)) (bf_bundle files))) (\<lambda>policy.
     bindE (as_boot_service (load_role_assignments (map_option (\<lambda>_. bf_roles files) (su_roles_path s)))) (\<lambda>roles.
     bindE (lease_size_ok (su_lease_size s)) (\<lambda>_.
     bindE (routes_from_file sha compile (bf_routes files)) (\<lambda>routes.
     bindE (root_keys keys s) (\<lambda>ks.
     bindE (as_boot (mk_root_key_set ks)) (\<lambda>ks.
       Inr \<lparr>bt_settings = s, bt_policy = policy, bt_roles = roles, bt_routes = routes, bt_keys = ks,
            bt_drift = (su_ollama_url s \<noteq> None)\<rparr>))))))"

text \<open>\<open>main\<close>: \<open>BootRefused\<close> is exit code 2, \<open>BootRaised\<close> a traceback; otherwise it serves.\<close>

definition service_main ::
  "('k, 'pk) key_lib \<Rightarrow> 'vk verifier \<Rightarrow> (string \<Rightarrow> 'vk option) \<Rightarrow> 'ps cedar_lib \<Rightarrow> (pvalue \<Rightarrow> string)
    \<Rightarrow> hasher \<Rightarrow> path_compiler \<Rightarrow> (string \<Rightarrow> dec option) \<Rightarrow> boot_files \<Rightarrow> environ
    \<Rightarrow> boot_error + ('ps, 'pk) built_service" where
  "service_main keys check policy_key cedar str_of sha compile to_float files env =
     bindE (settings_from_env to_float env) (build_service keys check policy_key cedar str_of sha compile files)"

section \<open>The lifespan\<close>

definition DEFAULT_SETTLEMENT :: settlement_settings where
  "DEFAULT_SETTLEMENT = \<lparr>st_capacity = 8192, st_flush_interval = 1 / 4, st_batch_max = 64, st_retry_pause = 1 / 2\<rparr>"

text \<open>The pool and the queue \<open>build_service\<close> makes, over a ledger, for a finite lease size.\<close>

definition service_deployment :: "startup_settings \<Rightarrow> decimal \<Rightarrow> ledger_db \<Rightarrow> deployment" where
  "service_deployment s amount db =
     \<lparr>dp_mandate_id = su_mandate_id s,
      dp_pool = new_pool \<lparr>ps_pep_id = su_pep_id s, ps_lease_size = amount, ps_ttl = DEFAULT_LEASE_TTL, ps_skew = seconds 5,
                         ps_low_water = DEFAULT_LOW_WATER\<rparr>,
      dp_queue = new_queue DEFAULT_SETTLEMENT, dp_sink = \<lparr>ss_db = db, ss_rejected_leases = 0\<rparr>, dp_open = [], dp_spent = 0\<rparr>"

text \<open>\<open>prime\<close> acts once; whatever it raises is logged.\<close>

definition prime_pool :: "bool \<Rightarrow> uuid \<Rightarrow> instant \<Rightarrow> deployment \<Rightarrow> deployment" where
  "prime_pool up fresh t dp =
     (if pl_held (dp_pool dp) SPEND_BDT \<noteq> None \<or> \<not> up then dp else pool_topup True fresh t dp)"

text \<open>
  The first pull of the revocations may raise, and so may warming the drift model (\<open>None\<close>: no model
  is configured); either ends the start.
\<close>

definition lifespan_start ::
  "bool \<Rightarrow> bool \<Rightarrow> uuid \<Rightarrow> instant \<Rightarrow> embed_answer option \<Rightarrow> deployment \<Rightarrow> boot_error + deployment" where
  "lifespan_start pulled up fresh t warmed dp =
     (let dp1 = dp\<lparr>dp_queue := start_queue (dp_queue dp)\<rparr> in
      if \<not> pulled then Inl BootRaised
      else
        let dp2 = prime_pool up fresh t (dp1\<lparr>dp_pool := pool_start (dp_pool dp1)\<rparr>) in
        case warmed of
          None \<Rightarrow> Inr dp2
        | Some a \<Rightarrow> (case embed_warm a of None \<Rightarrow> Inl BootRaised | Some _ \<Rightarrow> Inr dp2))"

definition close_queue :: "bool \<Rightarrow> deployment \<Rightarrow> deployment" where
  "close_queue up dp =
     (case aclose_queue (ledger_sink up) (dp_queue dp, dp_sink dp) of (q, w) \<Rightarrow> dp\<lparr>dp_queue := q, dp_sink := w\<rparr>)"

text \<open>With the database down the first release raises.\<close>

definition close_pool :: "bool \<Rightarrow> deployment \<Rightarrow> deployment" where
  "close_pool up dp =
     (case pool_aclose (dp_pool dp) of (p, ids) \<Rightarrow>
        if up then fold (pool_release True) ids (dp\<lparr>dp_pool := p\<rparr>) else dp\<lparr>dp_pool := p\<rparr>)"

definition lifespan_stop :: "bool \<Rightarrow> deployment \<Rightarrow> deployment" where
  "lifespan_stop up dp = close_pool up (close_queue up dp)"

section \<open>What a started service has\<close>

definition REQUIRED :: "string list" where
  "REQUIRED = [''ROOT_PUBLIC_KEYS'', ''DATABASE_URL'', ''REDIS_URL'', ''CONTROL_PLANE_URL'', ''MANDATE_ID'',
     ''POLICY_BUNDLE_PATH'', ''POLICY_BUNDLE_SIG_PATH'', ''POLICY_PUBLIC_KEY'', ''ROUTES_PATH'']"

lemma as_boot_Inr: "as_boot x = Inr v \<longleftrightarrow> x = Inr v"
  by (auto simp: as_boot_def split: sum.splits)

lemma as_boot_service_Inr: "as_boot_service x = Inr v \<longleftrightarrow> x = Inr v"
  by (auto simp: as_boot_service_def as_boot_def split: sum.splits service_error.splits)

lemma required_setting_Inr: "required_setting env n = Inr v \<longleftrightarrow> setting env n \<noteq> [] \<and> v = setting env n"
  by (auto simp: required_setting_def)

lemma positive_Inr: "positive v = Inr u \<longleftrightarrow> \<not> at_most_zero v"
  by (simp add: positive_def guardE_def)

lemma mk_pep_config_Inr:
  "mk_pep_config c = Inr p \<longleftrightarrow>
     p = c \<and> pc_upstream_base_url c \<noteq> [] \<and> 0 \<le> pc_connect_retries c
     \<and> list_all (\<lambda>d. \<not> at_most_zero d) [pc_connect_timeout c, pc_read_timeout c, pc_write_timeout c, pc_pool_timeout c]"
  by (auto simp: mk_pep_config_def positive_def guardE_def split: if_splits)

definition pep_config_ok :: "pep_config \<Rightarrow> bool" where
  "pep_config_ok c =
     (pc_upstream_base_url c \<noteq> [] \<and> 0 \<le> pc_connect_retries c
     \<and> list_all (\<lambda>d. \<not> at_most_zero d)
         [pc_connect_timeout c, pc_read_timeout c, pc_write_timeout c, pc_pool_timeout c, worst_case_connect c])"

lemma pep_config_from_env_ok:
  assumes "pep_config_from_env to_float env = Inr c"
  shows "pep_config_ok c"
proof -
  obtain c' where "mk_pep_config c' = Inr c"
    using assms by (auto simp: pep_config_from_env_def split: option.splits sum.splits)
  then have c: "pc_upstream_base_url c \<noteq> []" "0 \<le> pc_connect_retries c"
    "list_all (\<lambda>d. \<not> at_most_zero d) [pc_connect_timeout c, pc_read_timeout c, pc_write_timeout c, pc_pool_timeout c]"
    by (simp_all add: mk_pep_config_Inr)
  then have "\<not> at_most_zero (worst_case_connect c)"
    by (auto simp: worst_case_connect_def mult_le_0_iff split: dec.splits)
  then show ?thesis using c by (simp add: pep_config_ok_def)
qed

lemma settings_complete:
  assumes "settings_from_env to_float env = Inr s"
  shows "list_all (\<lambda>n. setting env n \<noteq> []) REQUIRED" "list_all root_key_ok (su_root_keys s)"
    "pep_config_ok (su_pep s)" "uuid_of_string (setting env ''MANDATE_ID'') = Some (su_mandate_id s)"
    "su_policy_key s = setting env ''POLICY_PUBLIC_KEY''"
    "su_roles_path s = optional env ''ROLE_ASSIGNMENTS_PATH''"
  using assms
  by (auto simp: settings_from_env_def REQUIRED_def required_setting_Inr mandate_setting_def guardE_def Let_def
      split: sum.splits if_splits option.splits dest: pep_config_from_env_ok)

text \<open>
  C24: An enforcement point that starts has everything it enforces with.  If \<open>main\<close> reaches the point
  of serving, every required variable is set, the mandate is a UUID, at least one root key is
  accepted and all are, the policy enforced is a bundle whose signature verifies under the
  configured key and whose Cedar parses, with the tool catalogue inside the signature, no
  assigned role widens that of a configured ancestor, the routes compile, and the lease size, every
  timeout and the worst case of a connection are not zero or below.
\<close>
theorem started_service_is_complete:
  assumes "service_main keys check policy_key cedar str_of sha compile to_float files env = Inr b"
  shows "list_all (\<lambda>n. setting env n \<noteq> []) REQUIRED
    \<and> uuid_of_string (setting env ''MANDATE_ID'') = Some (su_mandate_id (bt_settings b))
    \<and> bt_keys b \<noteq> [] \<and> length (bt_keys b) = length (su_root_keys (bt_settings b)) \<and> list_all root_key_ok (su_root_keys (bt_settings b))
    \<and> (\<exists>bundle sig k payload. bf_bundle files = FileValue (bundle, sig) \<and> policy_key (setting env ''POLICY_PUBLIC_KEY'') = Some k
         \<and> signing_payload (vf_nfc check) bundle = Inr payload \<and> vf_check check k sig payload \<and> cg_bundle (bt_policy b) = bundle
         \<and> tool_catalogue str_of (pb_tools bundle) = Some (cg_tools (bt_policy b))
         \<and> cg_policy_set (bt_policy b) = cl_parse cedar (pb_cedar_source bundle) \<and> cg_policy_set (bt_policy b) \<noteq> None)
    \<and> (\<forall>P Q r r'. P \<noteq> [] \<and> map_of (bt_roles b) (join_text ''/'' P) = Some r
         \<and> map_of (bt_roles b) (join_text ''/'' (P @ Q)) = Some r' \<longrightarrow> r' = r)
    \<and> (\<exists>config. bf_routes files = FileValue (PyMap config) \<and> from_config sha compile config = Inr (bt_routes b))
    \<and> \<not> at_most_zero (su_lease_size (bt_settings b)) \<and> pep_config_ok (su_pep (bt_settings b))"
proof -
  obtain s where s: "settings_from_env to_float env = Inr s"
    and built: "build_service keys check policy_key cedar str_of sha compile files s = Inr b"
    using assms by (auto simp: service_main_def split: sum.splits)
  note given = settings_complete[OF s]
  obtain policy roles routes ks where p: "load_policy check cedar str_of (policy_key (su_policy_key s)) (bf_bundle files) = Inr policy"
    and r: "load_role_assignments (map_option (\<lambda>_. bf_roles files) (su_roles_path s)) = Inr roles"
    and l: "lease_size_ok (su_lease_size s) = Inr ()"
    and t: "routes_from_file sha compile (bf_routes files) = Inr routes"
    and k: "root_keys keys s = Inr ks" "mk_root_key_set ks = Inr (bt_keys b)"
    and b: "bt_settings b = s" "bt_policy b = policy" "bt_roles b = roles" "bt_routes b = routes"
    using built by (auto simp: build_service_def as_boot_Inr as_boot_service_Inr split: sum.splits)
  have ks: "bt_keys b = ks" "ks \<noteq> []" using k(2) by (auto simp: mk_root_key_set_def split: if_splits)
  have "length ks = length (su_root_keys s)" using k(1) unfolding root_keys_def by (rule traverseE_length)
  moreover have "\<not> at_most_zero (su_lease_size s)" using l by (simp add: lease_size_ok_def guardE_def split: if_splits)
  moreover have "\<exists>config. bf_routes files = FileValue (PyMap config) \<and> from_config sha compile config = Inr routes"
    using t by (auto simp: routes_from_file_def as_boot_Inr split: file_read.splits pvalue.splits)
  moreover have "\<forall>P Q x x'. P \<noteq> [] \<and> map_of roles (join_text ''/'' P) = Some x
      \<and> map_of roles (join_text ''/'' (P @ Q)) = Some x' \<longrightarrow> x' = x"
    using accepted_roles[OF r] by blast
  moreover have "\<exists>bundle sig kk payload. bf_bundle files = FileValue (bundle, sig) \<and> policy_key (su_policy_key s) = Some kk
      \<and> signing_payload (vf_nfc check) bundle = Inr payload \<and> vf_check check kk sig payload \<and> cg_bundle policy = bundle
      \<and> tool_catalogue str_of (pb_tools bundle) = Some (cg_tools policy)
      \<and> cg_policy_set policy = cl_parse cedar (pb_cedar_source bundle) \<and> cg_policy_set policy \<noteq> None"
    using booted_policy_is_signed[OF p] by blast
  ultimately show ?thesis using given b ks by simp
qed

section \<open>What a stopped service leaves\<close>

definition held_only :: "lease_pool \<Rightarrow> bool" where
  "held_only p = (\<forall>d. case pl_held p d of None \<Rightarrow> True | Some h \<Rightarrow> d = SPEND_BDT \<and> ll_state (hd_lease h) = ACTIVE)"

lemma held_only_set: "held_only p \<Longrightarrow> ll_state (hd_lease h) = ACTIVE \<Longrightarrow> held_only (set_held SPEND_BDT h p)"
  by (simp add: held_only_def set_held_def)

lemma held_only_get: "held_only p \<Longrightarrow> pl_held p SPEND_BDT = Some h \<Longrightarrow> ll_state (hd_lease h) = ACTIVE"
  unfolding held_only_def by (drule spec[of _ SPEND_BDT]) simp

lemma held_only_schedule:
  "held_only p \<Longrightarrow> ll_state (hd_lease h) = ACTIVE \<Longrightarrow> held_only (maybe_schedule_topup loop t SPEND_BDT h p)"
  by (simp add: maybe_schedule_topup_def schedule_topup_def Let_def held_only_set)

lemma reserve_local_state: "ll_state (fst (reserve_local fresh l amount t skew)) = ll_state l"
  by (simp add: reserve_local_def)

lemma commit_local_state: "ll_state (fst (commit_local l r actual t skew)) = ll_state l"
  using reserve_local_state[of 0 l "actual - rz_amount r" t skew]
  by (auto simp: commit_local_def Let_def split: prod.splits sum.splits if_splits)

lemma held_only_reserve:
  assumes "held_only p" "pool_reserve fresh loop t SPEND_BDT amount p = (p', y)"
  shows "held_only p'"
proof (cases "pl_held p SPEND_BDT")
  case (Some h)
  obtain l z where l: "reserve_local fresh (hd_lease h) amount t (ps_skew (pl_settings p)) = (l, z)" by fastforce
  have "ll_state l = ACTIVE"
    using reserve_local_state[of fresh "hd_lease h" amount t "ps_skew (pl_settings p)"] held_only_get[OF assms(1) Some] l by simp
  then show ?thesis using assms Some l
    by (auto simp: pool_reserve_def Let_def split: if_splits sum.splits intro!: held_only_schedule held_only_set)
qed (use assms in \<open>simp add: pool_reserve_def\<close>)

lemma held_only_commit:
  assumes "held_only p" "pool_commit t SPEND_BDT r actual p = (p', y)"
  shows "held_only p'"
proof (cases "pl_held p SPEND_BDT")
  case (Some h)
  obtain l z where l: "commit_local (hd_lease h) r actual t (ps_skew (pl_settings p)) = (l, z)" by fastforce
  have "ll_state l = ACTIVE"
    using commit_local_state[of "hd_lease h" r actual t "ps_skew (pl_settings p)"] held_only_get[OF assms(1) Some] l by simp
  then show ?thesis using assms Some l by (auto simp: pool_commit_def intro!: held_only_set)
qed (use assms in \<open>simp add: pool_commit_def\<close>)

lemma held_only_acquire: "held_only p \<Longrightarrow> pool_acquire SPEND_BDT answer p = (p', old, got) \<Longrightarrow> held_only p'"
  by (auto simp: pool_acquire_def new_lease_def split: option.splits intro!: held_only_set dest: held_only_get)

lemma release_pool: "dp_pool (pool_release up i dp) = dp_pool dp"
  by (simp add: pool_release_def split: prod.splits)

lemma held_only_topup: "held_only (dp_pool dp) \<Longrightarrow> held_only (dp_pool (pool_topup up fresh t dp))"
  by (auto simp: pool_topup_def Let_def release_pool split: prod.splits sum.splits option.splits dest: held_only_acquire)

lemma flush_closed: "sq_closed (fst (flush sink (q, w))) = sq_closed q"
  by (auto simp: flush_def Let_def split: prod.splits option.splits)

lemma drain_closed: "sq_closed (fst (drain sink (q, w))) = sq_closed q"
proof (induction "length (sq_pending q)" arbitrary: q w rule: less_induct)
  case less
  then show ?case using flush_closed[of sink q w] by (cases "flush sink (q, w)") (simp add: Let_def)
qed

lemma release_closed: "sq_closed (dp_queue (pool_release up i dp)) = sq_closed (dp_queue dp)"
  using drain_closed[of "ledger_sink up" "dp_queue dp" "dp_sink dp"] by (cases "drain (ledger_sink up) (dp_queue dp, dp_sink dp)") (simp add: pool_release_def del: drain.simps)

lemma topup_closed: "sq_closed (dp_queue (pool_topup up fresh t dp)) = sq_closed (dp_queue dp)"
  by (simp add: pool_topup_def Let_def release_closed split: prod.splits sum.splits option.splits)

lemma held_only_step:
  assumes "deployment_step q dp dp'" "held_only (dp_pool dp)"
  shows "held_only (dp_pool dp') \<and> sq_closed (dp_queue dp') = sq_closed (dp_queue dp)"
  using assms
proof (cases rule: deployment_step.cases)
  case reserve
  then show ?thesis using assms(2) by (auto simp: reserve_spend_def split: prod.splits sum.splits dest: held_only_reserve)
next
  case settled
  then show ?thesis using assms(2)
    by (auto simp: settle_spend_def enqueue_def split: prod.splits sum.splits dest: held_only_commit)
next
  case (flushed up)
  then show ?thesis using assms(2) flush_closed[of "ledger_sink up" "dp_queue dp" "dp_sink dp"]
    by (simp add: flush_queue_def split: prod.splits)
next
  case topup
  then show ?thesis using assms(2) held_only_topup topup_closed by simp
qed

lemma close_queue_settles:
  assumes inv: "deployment_inv bid T dp" and live: "\<not> sq_closed (dp_queue dp)"
  shows "deployment_inv bid T (close_queue True dp) \<and> sq_pending (dp_queue (close_queue True dp)) = []
    \<and> dp_pool (close_queue True dp) = dp_pool dp \<and> dp_open (close_queue True dp) = dp_open dp
    \<and> dp_spent (close_queue True dp) = dp_spent dp \<and> dp_mandate_id (close_queue True dp) = dp_mandate_id dp"
proof -
  let ?q = "dp_queue dp\<lparr>sq_closed := True\<rparr>"
  obtain q w where d: "drain (ledger_sink True) (?q, dp_sink dp) = (q, w)" by fastforce
  have cl: "close_queue True dp = dp\<lparr>dp_queue := q\<lparr>sq_drain_task := False\<rparr>, dp_sink := w\<rparr>"
    using d live by (simp add: close_queue_def aclose_queue_def)
  have settings: "sq_settings q = sq_settings (dp_queue dp)"
    using drain_settings[of "ledger_sink True" ?q "dp_sink dp"] d by simp
  have max: "0 < st_batch_max (sq_settings (dp_queue dp))" using inv by (simp add: deployment_inv_def)
  show ?thesis
  proof (cases "held_id (dp_pool dp)")
    case None
    then have "sq_pending (dp_queue dp) = []" using inv by (simp add: deployment_inv_def unprimed_def)
    then have "q = ?q" "w = dp_sink dp" using d by simp_all
    then show ?thesis using inv None \<open>sq_pending (dp_queue dp) = []\<close> by (simp add: cl deployment_inv_def unprimed_def)
  next
    case (Some i)
    then have a: "accounts bid T i dp" using inv by (simp add: deployment_inv_def)
    have "\<forall>x \<in> set (sq_pending ?q). 0 < pd_amount x \<and> pd_lease_id x \<in> lr_id ` set (leases (ss_db (dp_sink dp)))"
      using accounts_items(2)[OF a] by simp
    then have p: "sq_pending q = []" "ss_db w = fold settle_one (sq_pending (dp_queue dp)) (ss_db (dp_sink dp))"
      using drain_settles[of "dp_sink dp" ?q] accounts_items(1)[OF a] max d by auto
    have "accounts bid T i (dp\<lparr>dp_queue := q\<lparr>sq_drain_task := False\<rparr>, dp_sink := w\<rparr>)"
      by (rule accounts_flushed[OF a, where k = "length (sq_pending (dp_queue dp))"]) (use p in simp_all)
    then show ?thesis using p(1) settings max Some by (simp add: cl deployment_inv_def)
  qed
qed

lemma release_ends_lease:
  assumes "books db" "lease_at db bid i g s" "l \<in> set (leases (fst (session_release i db)))" "lr_id l = i"
  shows "lr_state l = RELEASED"
proof -
  obtain k where k: "k \<in> set (leases db)" "lr_id k = i" "lr_state k = ACTIVE" using assms(2) by (auto simp: lease_at_def)
  have "fst (session_release i db) = update_lease i (\<lambda>r. r\<lparr>lr_state := RELEASED\<rparr>)
      (update_budget (lr_budget_id k) (\<lambda>c. c\<lparr>br_leased := br_leased c - outstanding k\<rparr>) db)"
    using retire_active[OF assms(1) k, of RELEASED] by (simp add: session_release_def release_def)
  then have "leases (fst (session_release i db)) = map (\<lambda>r. if lr_id r = i then r\<lparr>lr_state := RELEASED\<rparr> else r) (leases db)"
    by (simp only: update_lease_def update_budget_def) simp
  then have "l \<in> (\<lambda>r. if lr_id r = i then r\<lparr>lr_state := RELEASED\<rparr> else r) ` set (leases db)"
    using assms(3) by (simp only: set_map)
  then obtain r where "l = (if lr_id r = i then r\<lparr>lr_state := RELEASED\<rparr> else r)" by (rule imageE)
  then show ?thesis using assms(4) by (cases "lr_id r = i") simp_all
qed

lemma close_pool_ids:
  assumes "held_only p"
  shows "snd (pool_aclose p) = (case held_id p of None \<Rightarrow> [] | Some i \<Rightarrow> [i])"
proof -
  have none: "pl_held p d = None" if "d \<noteq> SPEND_BDT" for d
    using assms[unfolded held_only_def, rule_format, of d] that by (cases "pl_held p d") simp_all
  have "pl_held p TOOL_CALLS = None" "pl_held p ROWS_READ = None" "pl_held p EXTERNAL_EMAILS = None" "pl_held p WALL_CLOCK_S = None"
    by (rule none, simp)+
  moreover have "pl_held p SPEND_BDT = Some h \<Longrightarrow> ll_state (hd_lease h) = ACTIVE" for h by (rule held_only_get[OF assms])
  ultimately show ?thesis
    by (cases "pl_held p SPEND_BDT") (simp_all add: pool_aclose_def held_id_def all_dimensions_def List.map_filter_def)
qed

text \<open>
  C25: Stopping in the order of the lifespan loses nothing.  A service that starts, primes its first
  lease or fails to, serves any number of quiet calls with the database up and down between them,
  and is stopped with no call in flight and the database up, leaves a ledger whose committed amount
  is exactly what the tools charged; nothing is queued, the lease it held is released, so the rest
  of its grant is the mandate's again, and the pool reserves no more.
\<close>
theorem orderly_shutdown_settles:
  assumes start: "lifespan_start pulled up fresh t warmed (service_deployment s amount db) = Inr dp"
    and run: "deployment_run True dp dp'" and quiet: "dp_open dp' = []"
    and ledger: "ledger_init db" "0 < amount" "fresh \<notin> lr_id ` set (leases db)"
    and b: "b \<in> set (budgets db)" "pool_row (su_mandate_id s) b"
  shows "sq_pending (dp_queue (lifespan_stop True dp')) = [] \<and> pl_closed (dp_pool (lifespan_stop True dp'))
    \<and> (\<exists>b' \<in> set (budgets (dp_db (lifespan_stop True dp'))). br_id b' = br_id b \<and> br_total b' = br_total b
         \<and> br_committed b' = dp_spent dp')
    \<and> (\<forall>i l. held_id (dp_pool dp') = Some i \<and> l \<in> set (leases (dp_db (lifespan_stop True dp'))) \<and> lr_id l = i
         \<longrightarrow> lr_state l = RELEASED)"
proof -
  let ?dp0 = "service_deployment s amount db"
  let ?dp1 = "?dp0\<lparr>dp_queue := start_queue (dp_queue ?dp0), dp_pool := pool_start (dp_pool ?dp0)\<rparr>"
  have fresh1: "fresh_deployment ?dp1" "dp_mandate_id ?dp1 = su_mandate_id s" "dp_db ?dp1 = db" "held_only (dp_pool ?dp1)"
    "\<not> sq_closed (dp_queue ?dp1)" "dp_open ?dp1 = []"
    using ledger(1,2)
    by (simp_all add: fresh_deployment_def service_deployment_def start_queue_def new_queue_def pool_start_def new_pool_def
        DEFAULT_SETTLEMENT_def held_only_def)
  have inv1: "deployment_inv (br_id b) (br_total b) ?dp1"
    using fresh_inv[OF fresh1(1), of b] b fresh1(2,3) by simp
  have dp: "dp = prime_pool up fresh t ?dp1"
    using start by (auto simp: lifespan_start_def Let_def split: if_splits option.splits)
  have inv: "deployment_inv (br_id b) (br_total b) dp \<and> held_only (dp_pool dp) \<and> \<not> sq_closed (dp_queue dp)"
    using inv1 inv_topup[OF inv1 _ fresh1(6)] held_only_topup[OF fresh1(4)] fresh1 ledger(3) topup_closed
    by (simp add: dp prime_pool_def)
  have "deployment_inv (br_id b) (br_total b) dp' \<and> held_only (dp_pool dp') \<and> \<not> sq_closed (dp_queue dp')"
    using run by (induction rule: rtranclp_induct) (use inv step_inv held_only_step in blast)+
  then have inv': "deployment_inv (br_id b) (br_total b) dp'" "held_only (dp_pool dp')" "\<not> sq_closed (dp_queue dp')" by simp_all
  let ?c = "close_queue True dp'"
  have c: "deployment_inv (br_id b) (br_total b) ?c" "sq_pending (dp_queue ?c) = []" "dp_pool ?c = dp_pool dp'"
    "dp_open ?c = []" "dp_spent ?c = dp_spent dp'"
    using close_queue_settles[OF inv'(1,3)] quiet by simp_all
  obtain p where p: "pool_aclose (dp_pool dp') = (p, case held_id (dp_pool dp') of None \<Rightarrow> [] | Some i \<Rightarrow> [i])" "pl_closed p"
    using close_pool_ids[OF inv'(2)] by (cases "pool_aclose (dp_pool dp')") (auto simp: pool_aclose_def)
  show ?thesis
  proof (cases "held_id (dp_pool dp')")
    case None
    then have stop: "lifespan_stop True dp' = ?c\<lparr>dp_pool := p\<rparr>" using p(1) c(3) by (simp add: lifespan_stop_def close_pool_def)
    obtain R where "pool_view (dp_db ?c) (dp_mandate_id ?c) (br_id b) (dp_spent ?c) (br_total b) R"
      using c(1,3) None by (auto simp: deployment_inv_def unprimed_def)
    then show ?thesis using None p(2) c by (auto simp: stop pool_view_def)
  next
    case (Some i)
    let ?db = "fst (session_release i (dp_db ?c))"
    have stop: "lifespan_stop True dp' = ?c\<lparr>dp_pool := p, dp_sink := (dp_sink ?c)\<lparr>ss_db := ?db\<rparr>\<rparr>"
      using Some p(1) c(2,3) by (simp add: lifespan_stop_def close_pool_def pool_release_def)
    have "accounts (br_id b) (br_total b) i ?c" using c(1,3) Some by (simp add: deployment_inv_def)
    then obtain g x y R where v: "pool_view (dp_db ?c) (dp_mandate_id ?c) (br_id b) y (br_total b) R" "lease_at (dp_db ?c) (br_id b) i g x"
      and spent: "dp_spent ?c = y + pending_total ?c" by (rule accountsE)
    have bk: "books (dp_db ?c)" using v(1) reachable_books by (auto simp: pool_view_def)
    have "y = dp_spent dp'" using spent c(2,5) by (simp add: pending_total_def)
    then have "\<exists>b' \<in> set (budgets ?db). br_id b' = br_id b \<and> br_total b' = br_total b \<and> br_committed b' = dp_spent dp'"
      using release_view(1)[OF v] by (auto simp: pool_view_def)
    moreover have "\<forall>l \<in> set (leases ?db). lr_id l = i \<longrightarrow> lr_state l = RELEASED"
      using release_ends_lease[OF bk v(2)] by blast
    ultimately show ?thesis using Some p(2) c(2) by (simp add: stop)
  qed
qed

section \<open>Settings that slip through\<close>

text \<open>
  A timeout that is no number passes for positive, an infinite lease size for a size, and a lease
  size that is no number leaves as an exception \<open>main\<close> does not report.
\<close>

theorem odd_numbers_pass:
  "positive NaN = Inr () \<and> positive PosInf = Inr ()
   \<and> decimal_env (\<lambda>_. Some ''Infinity'') ''LEASE_SIZE'' DEFAULT_LEASE_SIZE = Inr PosInf
   \<and> decimal_env (\<lambda>_. Some ''nan'') ''LEASE_SIZE'' DEFAULT_LEASE_SIZE = Inl BootRaised"
  by (intro conjI) code_simp+

text \<open>A drift model that answers JSON which is no object stops the service, although drift is optional.\<close>

theorem odd_model_stops_the_start: "lifespan_start True up fresh t (Some EmbNoObject) dp = Inl BootRaised"
  by (simp add: lifespan_start_def embed_warm_def embed_post_def Let_def)

section \<open>Witnesses\<close>

definition boot_env :: environ where
  "boot_env = map_of
     [(''AGENTIAM_PEP_ROOT_PUBLIC_KEYS'', replicate 64 CHR ''a'' @ '', ''), (''AGENTIAM_PEP_UPSTREAM_BASE_URL'', ''http://tools''),
      (''AGENTIAM_PEP_DATABASE_URL'', ''db''), (''AGENTIAM_PEP_REDIS_URL'', ''redis''),
      (''AGENTIAM_PEP_CONTROL_PLANE_URL'', ''http://cp''), (''AGENTIAM_PEP_MANDATE_ID'', ''00000000-0000-0000-0000-00000000000b''),
      (''AGENTIAM_PEP_POLICY_BUNDLE_PATH'', ''b''), (''AGENTIAM_PEP_POLICY_BUNDLE_SIG_PATH'', ''s''),
      (''AGENTIAM_PEP_POLICY_PUBLIC_KEY'', ''k''), (''AGENTIAM_PEP_ROUTES_PATH'', ''r''),
      (''AGENTIAM_PEP_ROLE_ASSIGNMENTS_PATH'', ''a''), (''AGENTIAM_PEP_LEASE_SIZE'', ''50'')]"

definition boot_config :: pep_config where
  "boot_config =
     \<lparr>pc_upstream_base_url = ''http://tools'', pc_connect_timeout = Fin 1, pc_read_timeout = Fin 30, pc_write_timeout = Fin 10,
      pc_pool_timeout = Fin 5, pc_connect_retries = 2, pc_max_connections = 100, pc_max_keepalive = 20, pc_otel_endpoint = None\<rparr>"

definition boot_settings :: startup_settings where
  "boot_settings =
     \<lparr>su_pep = boot_config, su_pep_id = ''pep-1'', su_database_url = ''db'', su_redis_url = ''redis'', su_control_plane_url = ''http://cp'',
      su_mandate_id = 11, su_root_keys = [replicate 64 CHR ''a''], su_bundle_path = ''b'', su_bundle_sig_path = ''s'',
      su_policy_key = ''k'', su_routes_path = ''r'', su_roles_path = Some ''a'', su_role_default = ''agent'',
      su_ollama_url = None, su_lease_size = Fin 50, su_escalation_ttl = None\<rparr>"

lemma boot_settings_read: "settings_from_env (\<lambda>_. None) boot_env = Inr boot_settings"
  by code_simp

definition demo_files :: boot_files where
  "demo_files = \<lparr>bf_bundle = FileValue (demo_bundle, ''sig''), bf_roles = FileValue (JObj [(''agt-payer'', JStr ''senior'')]),
     bf_routes = FileValue (PyMap [])\<rparr>"

theorem started_service_is_complete_witness:
  "\<exists>b. service_main demo_keys demo_check (\<lambda>_. Some ()) demo_cedar (\<lambda>_. []) plain_sha (\<lambda>_. Inl ValueError) (\<lambda>_. None)
      demo_files boot_env = Inr b
     \<and> bt_keys b = [32] \<and> bt_roles b = [(''agt-payer'', ''senior'')] \<and> cg_bundle (bt_policy b) = demo_bundle
     \<and> pep_config_ok (su_pep (bt_settings b))"
proof -
  obtain payload where payload: "signing_payload latin_nfc demo_bundle = Inr payload" using demo_payload by blast
  have "tool_catalogue demo_str (pb_tools demo_bundle) \<noteq> None" by code_simp
  then obtain g where g: "load_policy demo_check demo_cedar (\<lambda>_. []) (Some ()) (bf_bundle demo_files) = Inr g"
    using payload by (auto simp: demo_files_def load_policy_def verify_bundle_def mk_engine_def demo_cedar_def)
  have r: "load_role_assignments (map_option (\<lambda>_. bf_roles demo_files) (su_roles_path boot_settings)) = Inr [(''agt-payer'', ''senior'')]"
    by code_simp
  have k: "root_keys demo_keys boot_settings = Inr [32]" by code_simp
  have "\<exists>j. canonical_json latin_nfc (PyMap [(''default'', PyStr ''deny''), (''max_extract_body_bytes'', PyInt (2 ^ 20)), (''routes'', PyList [])]) = Inr j"
    by (rule exI, rule canonical_json_ok) (use small_int[of "2 ^ 20"] in simp)
  then obtain t where t: "routes_from_file plain_sha (\<lambda>_. Inl ValueError) (bf_routes demo_files) = Inr t"
    by (auto simp: demo_files_def routes_from_file_def plain_sha_def as_boot_def from_config_def get_or_def mapping_version_def hash_object_def
        DEFAULT_MAX_EXTRACT_BODY_BYTES_def)
  have l: "lease_size_ok (su_lease_size boot_settings) = Inr ()" by code_simp
  obtain b where b: "service_main demo_keys demo_check (\<lambda>_. Some ()) demo_cedar (\<lambda>_. []) plain_sha (\<lambda>_. Inl ValueError) (\<lambda>_. None)
      demo_files boot_env = Inr b" "bt_keys b = [32]" "bt_roles b = [(''agt-payer'', ''senior'')]"
    by (simp add: service_main_def boot_settings_read build_service_def g r k t l as_boot_service_def as_boot_def mk_root_key_set_def)
  have files: "bf_bundle demo_files = FileValue (demo_bundle, ''sig'')" by (simp add: demo_files_def)
  note complete = started_service_is_complete[OF b(1), unfolded files]
  have "cg_bundle (bt_policy b) = demo_bundle" using complete by (elim conjE exE) (simp only: file_read.inject prod.inject)
  moreover have "pep_config_ok (su_pep (bt_settings b))" using complete by (elim conjE)
  ultimately show ?thesis using b by blast
qed

definition booted_deployment :: deployment where
  "booted_deployment = prime_pool True 5 (seconds 1)
     ((service_deployment boot_settings 50 demo_ledger)\<lparr>dp_queue := start_queue (new_queue DEFAULT_SETTLEMENT),
        dp_pool := pool_start (dp_pool (service_deployment boot_settings 50 demo_ledger))\<rparr>)"
definition demo_paying :: deployment where "demo_paying = fst (reserve_spend 101 (seconds 2) 40 booted_deployment)"
definition demo_paid :: deployment where "demo_paid = settle_spend (seconds 3) (seconds 3) (hd (dp_open demo_paying)) 30 demo_paying"

theorem orderly_shutdown_settles_witness:
  "deployment_run True booted_deployment demo_paid \<and> length (sq_pending (dp_queue demo_paid)) = 1
   \<and> (\<exists>b' \<in> set (budgets (dp_db (lifespan_stop True demo_paid))). br_id b' = br_id demo_pool \<and> br_committed b' = 30)"
proof -
  have start: "lifespan_start True True 5 (seconds 1) None (service_deployment boot_settings 50 demo_ledger) = Inr booted_deployment"
    by (simp add: lifespan_start_def Let_def booted_deployment_def service_deployment_def)
  have "deployment_step True booted_deployment demo_paying" unfolding demo_paying_def by (rule deployment_step.reserve[OF prod.collapse[symmetric]]) code_simp+
  moreover have "deployment_step True demo_paying demo_paid" unfolding demo_paid_def by (rule deployment_step.settled) code_simp+
  ultimately have run: "deployment_run True booted_deployment demo_paid" by (meson rtranclp.rtrancl_refl rtranclp.rtrancl_into_rtrancl)
  have quiet: "dp_open demo_paid = []" and one: "length (sq_pending (dp_queue demo_paid)) = 1" and spent: "dp_spent demo_paid = 30"
    by code_simp+
  have ledger: "ledger_init demo_ledger" "5 \<notin> lr_id ` set (leases demo_ledger)" by code_simp+
  have b: "demo_pool \<in> set (budgets demo_ledger)" "pool_row (su_mandate_id boot_settings) demo_pool"
    by (simp_all add: boot_settings_def demo_ledger_def demo_pool_def pool_row_def)
  from orderly_shutdown_settles[OF start run quiet ledger(1) _ ledger(2) b] show ?thesis using run one spent by auto
qed

end
