(* ===== verification/Watch.thy ===== *)
theory Watch
  imports Invariants Access
begin

text \<open>
  The two loops that watch the ledger: the reaper the control plane schedules
  (\<open>_reaper_interval_s\<close> and \<open>_reaper_lifespan\<close> of \<open>agentiam_controlplane/app.py\<close>) and the invariant
  checker command (\<open>scripts/run_invariant_checker.py\<close>).

  A pass that fails has retired some of its candidates, each in a transaction of its own.  The
  checker is the sequence of what its sweeps are answered, each with whether it was told to stop
  while it waited; what it prints is left out.  \<open>float\<close> of a text is a parameter.
\<close>

section \<open>The reaper\<close>

definition DEFAULT_REAPER_INTERVAL :: decimal where "DEFAULT_REAPER_INTERVAL = 15"

fun negative :: "dec \<Rightarrow> bool" where
  "negative (Fin x) = (x < 0)"
| "negative NegInf = True"
| "negative PosInf = False"
| "negative NaN = False"

text \<open>\<open>value or None\<close>: zero disables.\<close>

definition reaper_interval :: "(string \<Rightarrow> dec option) \<Rightarrow> environ \<Rightarrow> dec option py" where
  "reaper_interval to_float env =
     (let raw = strip (env_text env ''REAPER_INTERVAL_S'') in
      if raw = [] then Inr (Some (Fin DEFAULT_REAPER_INTERVAL))
      else (case to_float raw of
              None \<Rightarrow> Inl ValueError
            | Some d \<Rightarrow> if negative d then Inl ValueError else Inr (if d = Fin 0 then None else Some d)))"

text \<open>\<open>interval > 0\<close> is false of a NaN.\<close>

fun above_zero :: "dec \<Rightarrow> bool" where
  "above_zero (Fin x) = (x > 0)"
| "above_zero PosInf = True"
| "above_zero NegInf = False"
| "above_zero NaN = False"

definition reaper_scheduled :: "bool \<Rightarrow> dec option \<Rightarrow> bool" where
  "reaper_scheduled database interval =
     (database \<and> (case interval of None \<Rightarrow> False | Some d \<Rightarrow> above_zero d))"

text \<open>A pass at an instant: it completes, or fails after so many retirements and the loop goes on.\<close>

datatype tick = Swept instant | Failed nat instant

fun reaper_tick :: "tick \<Rightarrow> ledger_db \<Rightarrow> ledger_db" where
  "reaper_tick (Swept t) db = fst (reap t db)"
| "reaper_tick (Failed k t) db = fst (reap_each (take k (reap_candidates t db)) [] db)"

section \<open>The checker\<close>

datatype sweep_answer = Unreachable_db | Swept_report check_report

fun violated :: "sweep_answer \<Rightarrow> bool" where
  "violated Unreachable_db = False"
| "violated (Swept_report r) = (\<not> report_holds r)"

record checker_args =
  ca_once :: bool
  ca_fail_fast :: bool

text \<open>\<open>None\<close>: still sweeping.\<close>

fun check_loop :: "checker_args \<Rightarrow> bool \<Rightarrow> (sweep_answer \<times> bool) list \<Rightarrow> int option" where
  "check_loop opts ever [] = None"
| "check_loop opts ever ((a, stopped) # xs) =
     (let ever' = (ever \<or> violated a) in
      if (ca_fail_fast opts \<and> violated a) \<or> ca_once opts \<or> stopped then Some (if ever' then 1 else 0)
      else check_loop opts ever' xs)"

definition run_checker :: "checker_args \<Rightarrow> bool \<Rightarrow> (sweep_answer \<times> bool) list \<Rightarrow> int option" where
  "run_checker opts stopped xs = (if stopped then Some 0 else check_loop opts False xs)"

section \<open>Both beside the ledger\<close>

text \<open>
  Any transactions of the ledger, reaper passes that complete or fail, sweeps and sweeps that
  find no database, in any order; the sweeps answered so far are kept.
\<close>

inductive watched :: "ledger_db \<Rightarrow> (sweep_answer \<times> bool) list \<Rightarrow> bool" where
  fresh: "ledger_init db \<Longrightarrow> watched db []"
| operated: "watched db xs \<Longrightarrow> ledger_step db db' \<Longrightarrow> watched db' xs"
| reaped: "watched db xs \<Longrightarrow> watched (reaper_tick k db) xs"
| swept: "watched db xs \<Longrightarrow> watched db (xs @ [(Swept_report (check_in_session db), stopped)])"
| unreachable: "watched db xs \<Longrightarrow> watched db (xs @ [(Unreachable_db, stopped)])"

lemma reap_each_reachable: "ledger_reachable db \<Longrightarrow> ledger_reachable (fst (reap_each is acc db))"
proof (induction "is" arbitrary: acc db)
  case (Cons i "is")
  obtain db' r where r: "retire i EXPIRED db = (db', r)" by fastforce
  have "ledger_reachable db'" using ledger_reachable.step[OF Cons.prems ledger_step.retire[OF r]] by simp
  then show ?case using Cons.IH r by (auto split: sum.splits bool.splits)
qed simp

lemma tick_reachable: "ledger_reachable db \<Longrightarrow> ledger_reachable (reaper_tick k db)"
  by (cases k) (simp_all add: reap_def reap_each_reachable)

lemma watched_green: "watched db xs \<Longrightarrow> ledger_reachable db \<and> \<not> list_ex (\<lambda>x. violated (fst x)) xs"
proof (induction rule: watched.induct)
  case (swept db xs stopped)
  then show ?case using reachable_ledger_passes_check[of db] by simp
qed (auto intro: ledger_reachable.intros tick_reachable)

lemma loop_exit: "check_loop opts ever xs = Some c \<Longrightarrow> \<not> list_ex (\<lambda>x. violated (fst x)) xs \<Longrightarrow> c = (if ever then 1 else 0)"
  by (induction opts ever xs rule: check_loop.induct) (auto simp: Let_def split: if_splits)

lemma loop_exits_early:
  "list_all (\<lambda>x. \<not> snd x) xs \<Longrightarrow> \<not> ca_once opts \<Longrightarrow> \<not> ca_fail_fast opts
    \<Longrightarrow> check_loop opts ever (xs @ [(a, True)]) = Some (if ever \<or> violated a \<or> list_ex (\<lambda>x. violated (fst x)) xs then 1 else 0)"
  by (induction xs arbitrary: ever) (auto simp: Let_def)

lemma loop_fail_fast:
  "list_all (\<lambda>x. \<not> snd x \<and> \<not> violated (fst x)) xs \<Longrightarrow> \<not> ca_once opts \<Longrightarrow> ca_fail_fast opts \<Longrightarrow> violated a
    \<Longrightarrow> check_loop opts ever (xs @ (a, stopped) # ys) = Some 1"
  by (induction xs arbitrary: ever) (auto simp: Let_def)

text \<open>
  The verdict of the checker.  Left running until it is stopped, its exit code is 1 exactly when some
  sweep was answered with a violation, whatever came after; told to fail fast it ends with 1 at
  the first; a single sweep ends with the verdict of that sweep.
\<close>
theorem checker_verdict:
  assumes "list_all (\<lambda>x. \<not> snd x) xs" "\<not> ca_once opts"
  shows "(\<not> ca_fail_fast opts \<longrightarrow>
      check_loop opts False (xs @ [(a, True)]) = Some (if violated a \<or> list_ex (\<lambda>x. violated (fst x)) xs then 1 else 0))
    \<and> (ca_fail_fast opts \<and> \<not> list_ex (\<lambda>x. violated (fst x)) xs \<and> violated a \<longrightarrow>
      check_loop opts False (xs @ (a, stopped) # ys) = Some 1)
    \<and> check_loop (opts\<lparr>ca_once := True\<rparr>) False ((Swept_report r, stopped) # ys) = Some (exit_code r)"
  using loop_exits_early[OF assms(1,2), of False a] loop_fail_fast[of xs opts a False stopped ys] assms
  by (auto simp: exit_code_def list_all_iff list_ex_iff Let_def)

text \<open>
  C35: The ledger is watched soundly.  From a fresh ledger, under any interleaving of its
  transactions, reaper passes that complete or fail half way, sweeps and outages, the checker never
  ends with anything but 0; and a pass that completes at some instant leaves no lease active that
  expired before that instant less the skew allowance, leaves every other lease as it was, and the
  ledger passes the check.
\<close>
theorem watched_ledger_stays_green:
  assumes "watched db xs"
  shows "(run_checker opts stopped xs = Some c \<longrightarrow> c = 0)
    \<and> leases (reaper_tick (Swept t) db) =
        map (\<lambda>l. if lr_state l = ACTIVE \<and> lr_expires_at l < t - SKEW_ALLOWANCE then l\<lparr>lr_state := EXPIRED\<rparr> else l) (leases db)
    \<and> report_holds (check_in_session (reaper_tick k db))"
proof -
  note g = watched_green[OF assms]
  have "run_checker opts stopped xs = Some c \<longrightarrow> c = 0"
    using g loop_exit[of opts False xs c] by (auto simp: run_checker_def split: if_splits)
  moreover obtain db' where "reap t db = (db', Inr (reap_candidates t db))"
    "leases db' = map (\<lambda>l. if lr_state l = ACTIVE \<and> lr_expires_at l < t - SKEW_ALLOWANCE then l\<lparr>lr_state := EXPIRED\<rparr> else l) (leases db)"
    using reap_exact[OF reachable_books[OF conjunct1[OF g]], of t] by blast
  moreover have "report_holds (check_in_session (reaper_tick k db))"
    using reachable_ledger_passes_check[OF tick_reachable[OF conjunct1[OF g]]] by simp
  ultimately show ?thesis by simp
qed

text \<open>A single sweep that finds no database ends with 0, although nothing was checked.\<close>

theorem once_without_database_passes: "check_loop \<lparr>ca_once = True, ca_fail_fast = ff\<rparr> False [(Unreachable_db, s)] = Some 0"
  by simp

text \<open>An interval that is no number is accepted, and then no reaper runs.\<close>

theorem nan_interval_disables_reaper:
  "reaper_interval (\<lambda>_. Some NaN) (\<lambda>_. Some ''nan'') = Inr (Some NaN) \<and> \<not> reaper_scheduled True (Some NaN)"
  by code_simp

section \<open>Witnesses\<close>

theorem checker_verdict_witness:
  "check_loop \<lparr>ca_once = False, ca_fail_fast = False\<rparr> False
     [(Swept_report (check_in_session (demo_leased\<lparr>leases := []\<rparr>)), False), (Unreachable_db, True)] = Some 1"
proof -
  have "violated (Swept_report (check_in_session (demo_leased\<lparr>leases := []\<rparr>)))" by code_simp
  then show ?thesis
    using checker_verdict[of "[(Swept_report (check_in_session (demo_leased\<lparr>leases := []\<rparr>)), False)]"
        "\<lparr>ca_once = False, ca_fail_fast = False\<rparr>" Unreachable_db] by simp
qed

lemma demo_watched: "watched demo_ledger [(Swept_report (check_in_session demo_ledger), True)]"
proof -
  have "ledger_init demo_ledger" by code_simp
  from watched.swept[OF watched.fresh[OF this], of True] show ?thesis by simp
qed

theorem watched_ledger_stays_green_witness:
  "run_checker \<lparr>ca_once = False, ca_fail_fast = False\<rparr> False [(Swept_report (check_in_session demo_ledger), True)] = Some 0
   \<and> report_holds (check_in_session (reaper_tick (Swept 0) demo_ledger))"
proof -
  obtain c where "run_checker \<lparr>ca_once = False, ca_fail_fast = False\<rparr> False [(Swept_report (check_in_session demo_ledger), True)] = Some c"
    by (simp add: run_checker_def Let_def)
  then show ?thesis
    using watched_ledger_stays_green[OF demo_watched, of "\<lparr>ca_once = False, ca_fail_fast = False\<rparr>" False c 0 "Swept 0"] by simp
qed

end
