(* ===== verification/Demo.thy ===== *)
theory Demo
  imports Startup Authoring
begin

text \<open>
  The demonstration the repository ships: the credentials and configuration of
  \<open>scripts/bootstrap_demo_secrets.py\<close> with the routes of \<open>scripts/serve_pep.py\<close>, the delegation tree of
  \<open>scripts/seed_demo.py\<close> with the traffic it sends, and the sibling race of \<open>scripts/demo_concurrency.py\<close>.

  A directory maps file names to what was written there.  Key generation, the hexadecimal text of a
  key and Ed25519 are parameters; a bundle and a role map are read back from JSON as they were
  written.  What is printed and the pauses between calls are left out.
\<close>

section \<open>Routes and roles\<close>

definition demo_route :: "string \<Rightarrow> string \<Rightarrow> string \<Rightarrow> string \<Rightarrow> (string \<times> string) list \<Rightarrow> pvalue" where
  "demo_route verb path scope tool_id sources =
     PyMap [(''method'', PyStr verb), (''path'', PyStr path), (''scope'', PyStr scope), (''tool'', PyStr tool_id),
            (''args'', PyMap (map (\<lambda>(k, v). (k, PyStr v)) sources)), (''drift_mode'', PyStr ''off'')]"

definition ROUTES :: "(string \<times> pvalue) list" where
  "ROUTES =
     [(''routes'', PyList
        [demo_route ''GET'' ''/invoices/{id}'' ''invoice:read'' ''invoice_api'' [(''invoice.id'', ''path.id'')],
         demo_route ''GET'' ''/vendors/{id}'' ''vendor:read'' ''vendor_api'' [(''vendor.id'', ''path.id'')],
         demo_route ''POST'' ''/email/send'' ''email:send'' ''email_internal'' [(''email.to'', ''body.to'')],
         demo_route ''POST'' ''/email/send-external'' ''email:send'' ''email_external'' [(''email.to'', ''body.to'')],
         demo_route ''POST'' ''/payments'' ''payment:initiate'' ''payment_api''
           [(''payment.amount'', ''body.amount:number''), (''payment.to'', ''body.recipient.account_id'')]]),
      (''default'', PyMap [(''action'', PyStr ''deny'')])]"

definition ROLE_ASSIGNMENTS :: "string strmap" where
  "ROLE_ASSIGNMENTS =
     map (\<lambda>p. (p, ''senior''))
       [''agt-payer'', ''agt-payer/agt-settlement'', ''agt-payer/agt-settlement/agt-subcontractor'', ''agt-treasury'',
        ''agt-treasury/agt-reconciler'', ''agt-treasury/agt-bulk-buyer'', ''agt-supplier-a'', ''agt-supplier-b'', ''agt-supplier-c'']"

section \<open>The credentials\<close>

datatype secret_file =
    SecretText string | BundleJson policy_bundle | Signature string | RoutesJson "(string \<times> pvalue) list" | RolesJson "string strmap"

type_synonym secret_dir = "string \<Rightarrow> secret_file option"

definition SECRET_FILES :: "string list" where
  "SECRET_FILES = [''root_private_key.hex'', ''root_public_key.hex'', ''policy_bundle.json'', ''policy_bundle.sig'',
     ''policy_public_key.hex'', ''routes.json'', ''role_assignments.json'']"

definition is_complete :: "secret_dir \<Rightarrow> bool" where
  "is_complete dir = list_all (\<lambda>n. dir n \<noteq> None) SECRET_FILES"

definition demo_policy_bundle :: policy_bundle where
  "demo_policy_bundle =
     \<lparr>pb_version = ''demo-1'', pb_cedar_source = CORPUS_SOURCE, pb_serial = 1, pb_entity_schema = None, pb_created_at = None,
      pb_tools = Some (map (\<lambda>(t, m). (t, PyMap m)) CORPUS_TOOLS)\<rparr>"

definition write_role_assignments :: "secret_dir \<Rightarrow> secret_dir" where
  "write_role_assignments dir = dir(''role_assignments.json'' \<mapsto> RolesJson ROLE_ASSIGNMENTS)"

text \<open>A fresh root key pair, as text, and a fresh signing key.\<close>

record 'sk fresh_keys =
  fk_root_private :: string
  fk_root_public :: string
  fk_signing :: 'sk

definition generate_secrets ::
  "normalizer \<Rightarrow> ('sk \<Rightarrow> string) \<Rightarrow> ('sk \<Rightarrow> string \<Rightarrow> string) \<Rightarrow> 'sk fresh_keys \<Rightarrow> secret_dir \<Rightarrow> secret_dir py" where
  "generate_secrets u public_hex sign fk dir =
     bindE (signing_payload u demo_policy_bundle) (\<lambda>payload.
       Inr (write_role_assignments (dir(
         ''root_private_key.hex'' \<mapsto> SecretText (fk_root_private fk), ''root_public_key.hex'' \<mapsto> SecretText (fk_root_public fk),
         ''policy_bundle.json'' \<mapsto> BundleJson demo_policy_bundle, ''policy_bundle.sig'' \<mapsto> Signature (sign (fk_signing fk) payload),
         ''policy_public_key.hex'' \<mapsto> SecretText (public_hex (fk_signing fk)), ''routes.json'' \<mapsto> RoutesJson ROUTES))))"

definition bootstrap_main ::
  "normalizer \<Rightarrow> ('sk \<Rightarrow> string) \<Rightarrow> ('sk \<Rightarrow> string \<Rightarrow> string) \<Rightarrow> bool \<Rightarrow> 'sk fresh_keys \<Rightarrow> secret_dir \<Rightarrow> secret_dir py" where
  "bootstrap_main u public_hex sign force fk dir =
     (if is_complete dir \<and> \<not> force then Inr (write_role_assignments dir) else generate_secrets u public_hex sign fk dir)"

text \<open>The directory as the service reads it.\<close>

definition files_of :: "secret_dir \<Rightarrow> boot_files" where
  "files_of dir =
     \<lparr>bf_bundle = (case (dir ''policy_bundle.json'', dir ''policy_bundle.sig'') of
        (Some (BundleJson b), Some (Signature s)) \<Rightarrow> FileValue (b, s) | _ \<Rightarrow> Unreadable),
      bf_roles = (case dir ''role_assignments.json'' of
        Some (RolesJson r) \<Rightarrow> FileValue (JObj (map (\<lambda>(p, x). (p, JStr x)) r)) | _ \<Rightarrow> Unreadable),
      bf_routes = (case dir ''routes.json'' of Some (RoutesJson m) \<Rightarrow> FileValue (PyMap m) | _ \<Rightarrow> Unreadable)\<rparr>"

section \<open>The delegation tree\<close>

definition SEED_POOL_TOTAL :: decimal where "SEED_POOL_TOTAL = 500000"
definition SEED_SCOPES :: "string set" where "SEED_SCOPES = {''invoice:read'', ''vendor:read'', ''payment:initiate''}"

text \<open>Parent, agent, role, scopes and ceiling; the root's children first.\<close>

definition CHILDREN :: "(string \<times> string \<times> string set \<times> decimal) list" where
  "CHILDREN =
     [(''agt-doc-reader'', ''reader'', {''invoice:read'', ''vendor:read''}, 0),
      (''agt-negotiator'', ''worker'', {''vendor:read''}, 50000),
      (''agt-payer'', ''payer'', {''payment:initiate''}, 200000),
      (''agt-auditor'', ''reader'', {''invoice:read''}, 0),
      (''agt-treasury'', ''payer'', {''invoice:read'', ''payment:initiate''}, 100000)]"

definition DESCENDANTS :: "(string \<times> string \<times> string \<times> string set \<times> decimal) list" where
  "DESCENDANTS =
     [(''agt-doc-reader'', ''agt-ocr-scanner'', ''reader'', {''invoice:read''}, 0),
      (''agt-doc-reader'', ''agt-invoice-classifier'', ''reader'', {''invoice:read''}, 0),
      (''agt-negotiator'', ''agt-quote-collector'', ''worker'', {''vendor:read''}, 10000),
      (''agt-negotiator'', ''agt-price-checker'', ''worker'', {''vendor:read''}, 10000),
      (''agt-payer'', ''agt-settlement'', ''payer'', {''payment:initiate''}, 25000),
      (''agt-treasury'', ''agt-reconciler'', ''payer'', {''payment:initiate''}, 20000),
      (''agt-treasury'', ''agt-bulk-buyer'', ''payer'', {''invoice:read'', ''payment:initiate''}, 80000),
      (''agt-settlement'', ''agt-subcontractor'', ''payer'', {''payment:initiate''}, 5000)]"

definition SEED_APPROVALS :: "string \<rightharpoonup> string set" where
  "SEED_APPROVALS = [''agt-bulk-buyer'' \<mapsto> {''payment:initiate''}]"

definition seed_caveats :: "string \<Rightarrow> string set \<Rightarrow> decimal \<Rightarrow> caveat list" where
  "seed_caveats agent scopes bound =
     [ScopeSubset scopes, BudgetCeiling SPEND_BDT bound]
     @ (case SEED_APPROVALS agent of None \<Rightarrow> [] | Some S \<Rightarrow> [RequiresApproval S])"

definition seed_mandate :: "hasher \<Rightarrow> uuid \<Rightarrow> uuid \<Rightarrow> instant \<Rightarrow> mandate py" where
  "seed_mandate sha mid tid now_t =
     bindE (intent_hash_of sha ''Procure 500 units of packaging stock, budget BDT 500,000.'') (\<lambda>h.
     bindE (mk_budget \<lparr>spend_bdt = SEED_POOL_TOTAL, tool_calls = 1000, rows_read = 100000, external_emails = 0, wall_clock_s = 0\<rparr>)
       (\<lambda>b. mk_mandate mid tid ''kc:11111111-1111-1111-1111-111111111111'' h SEED_SCOPES b 4
              (Aware (now_t - seconds 300)) (Aware (now_t + seconds 28800))))"

fun mint_children ::
  "('b, 'k) biscuit_lib \<Rightarrow> 'b verified_token \<Rightarrow> string strmap \<Rightarrow> (string \<times> string \<times> string set \<times> decimal) list \<Rightarrow> string strmap py" where
  "mint_children lib top_tok tokens [] = Inr tokens"
| "mint_children lib top_tok tokens ((agent, role, scopes, bound) # rest) =
     bindE (attenuate lib top_tok [ScopeSubset scopes, BudgetCeiling SPEND_BDT bound] agent role []) (\<lambda>tok.
       mint_children lib top_tok (tokens @ [(agent, tok)]) rest)"

fun mint_descendants ::
  "('b, 'k) biscuit_lib \<Rightarrow> 'k list \<Rightarrow> instant \<Rightarrow> string strmap \<Rightarrow> (string \<times> string \<times> string \<times> string set \<times> decimal) list
    \<Rightarrow> string strmap py" where
  "mint_descendants lib keys now_t tokens [] = Inr tokens"
| "mint_descendants lib keys now_t tokens ((parent, agent, role, scopes, bound) # rest) =
     (case map_of tokens parent of
        None \<Rightarrow> Inl KeyError
      | Some t \<Rightarrow>
          bindE (verify lib t keys (Aware now_t)) (\<lambda>p.
          bindE (attenuate lib p (seed_caveats agent scopes bound) agent role []) (\<lambda>tok.
            mint_descendants lib keys now_t (tokens @ [(agent, tok)]) rest)))"

definition mint_chain ::
  "('b, 'k) biscuit_lib \<Rightarrow> mandate \<Rightarrow> 'k \<Rightarrow> 'k list \<Rightarrow> instant \<Rightarrow> string strmap py" where
  "mint_chain lib m private_key keys now_t =
     bindE (mint_root lib m private_key) (\<lambda>top_tok.
     bindE (verify lib top_tok keys (Aware now_t)) (\<lambda>verified.
     bindE (mint_children lib verified [(''root'', top_tok)] CHILDREN) (\<lambda>tokens.
       mint_descendants lib keys now_t tokens DESCENDANTS)))"

text \<open>\<open>_ensure_budget\<close>: the pool row, unless there is one.\<close>

definition ensure_budget :: "uuid \<Rightarrow> decimal \<Rightarrow> uuid \<Rightarrow> ledger_db \<Rightarrow> bool ledger_result" where
  "ensure_budget mid pool_total fresh db =
     (case filter (\<lambda>b. br_mandate_id b = mid \<and> br_dimension b = dimension_value SPEND_BDT \<and> br_parent_budget_id b = None) (budgets db) of
        [] \<Rightarrow> commit_tx db (db\<lparr>budgets := budgets db @
               [\<lparr>br_id = fresh, br_mandate_id = mid, br_dimension = dimension_value SPEND_BDT, br_total = pool_total, br_committed = 0,
                 br_leased = 0, br_allocated = 0, br_parent_budget_id = None, br_agent_id = None, br_version = 0\<rparr>]\<rparr>) True
      | [_] \<Rightarrow> (db, Inr False)
      | _ \<Rightarrow> (db, Inl MultipleResultsFound))"

section \<open>The traffic\<close>

text \<open>A payment's body is its amount and its account.\<close>

record traffic_call =
  dc_label :: string
  dc_who :: string
  dc_method :: string
  dc_path :: string
  dc_body :: "(string \<times> string) option"

definition read_invoice :: "string \<Rightarrow> string \<Rightarrow> string \<Rightarrow> traffic_call" where
  "read_invoice label who invoice =
     \<lparr>dc_label = label, dc_who = who, dc_method = ''GET'', dc_path = ''/proxy/invoices/'' @ invoice, dc_body = None\<rparr>"

definition read_vendor :: "string \<Rightarrow> string \<Rightarrow> string \<Rightarrow> traffic_call" where
  "read_vendor label who vendor =
     \<lparr>dc_label = label, dc_who = who, dc_method = ''GET'', dc_path = ''/proxy/vendors/'' @ vendor, dc_body = None\<rparr>"

definition pay_call :: "string \<Rightarrow> string \<Rightarrow> string \<Rightarrow> string \<Rightarrow> traffic_call" where
  "pay_call label who amount account =
     \<lparr>dc_label = label, dc_who = who, dc_method = ''POST'', dc_path = ''/proxy/payments'', dc_body = Some (amount, account)\<rparr>"

definition spawn_calls :: "traffic_call list" where
  "spawn_calls =
     [read_invoice ''root reads an invoice'' ''root'' ''inv_001'',
      read_invoice ''doc-reader reads an invoice'' ''agt-doc-reader'' ''inv_001'',
      read_vendor ''negotiator looks up a vendor'' ''agt-negotiator'' ''ven_01'',
      pay_call ''payer settles a small invoice'' ''agt-payer'' ''1250.0000'' ''acct_9001'',
      read_invoice ''auditor checks an invoice'' ''agt-auditor'' ''inv_003'',
      read_invoice ''treasury reads an invoice'' ''agt-treasury'' ''inv_002'',
      read_invoice ''ocr scanner reads an invoice'' ''agt-ocr-scanner'' ''inv_001'',
      read_invoice ''classifier reads an invoice'' ''agt-invoice-classifier'' ''inv_002'',
      read_vendor ''quote collector looks up a vendor'' ''agt-quote-collector'' ''ven_01'',
      read_vendor ''price checker looks up a vendor'' ''agt-price-checker'' ''ven_02'',
      pay_call ''settlement agent pays within its slice'' ''agt-settlement'' ''900.0000'' ''acct_9002'',
      pay_call ''reconciler clears a balance'' ''agt-reconciler'' ''450.0000'' ''acct_9005'',
      read_invoice ''bulk buyer reads an invoice'' ''agt-bulk-buyer'' ''inv_002'']"

definition work_round :: "nat \<Rightarrow> traffic_call list" where
  "work_round n =
     (let invoices = [''inv_001'', ''inv_002'', ''inv_003'']; vendors = [''ven_01'', ''ven_02''];
          inv = invoices ! (n mod 3); inv_next = invoices ! ((n + 1) mod 3);
          ven = vendors ! (n mod 2); ven_next = vendors ! ((n + 1) mod 2);
          whole_bdt = (\<lambda>k. nat_str k @ ''.0000'')
      in [read_invoice ''root reviews an invoice'' ''root'' inv,
          read_invoice ''doc-reader reads an invoice'' ''agt-doc-reader'' inv_next,
          read_invoice ''ocr scanner reads an invoice'' ''agt-ocr-scanner'' inv,
          read_vendor ''quote collector looks up a vendor'' ''agt-quote-collector'' ven,
          pay_call ''payer settles an invoice'' ''agt-payer'' (whole_bdt (1100 + 75 * n)) ''acct_9001'',
          read_invoice ''classifier reads an invoice'' ''agt-invoice-classifier'' inv_next,
          read_vendor ''price checker looks up a vendor'' ''agt-price-checker'' ven_next,
          read_invoice ''auditor checks an invoice'' ''agt-auditor'' inv,
          pay_call ''settlement agent pays a vendor'' ''agt-settlement'' (whole_bdt (600 + 40 * n)) ''acct_9002'',
          read_vendor ''negotiator looks up a vendor'' ''agt-negotiator'' ven,
          read_invoice ''treasury reads an invoice'' ''agt-treasury'' inv,
          pay_call ''treasury pays an invoice'' ''agt-treasury'' (whole_bdt (1400 + 50 * n)) ''acct_9003'',
          read_vendor ''doc-reader checks a vendor'' ''agt-doc-reader'' ven_next,
          read_invoice ''bulk buyer checks an invoice'' ''agt-bulk-buyer'' inv_next,
          pay_call ''reconciler clears a balance'' ''agt-reconciler'' (whole_bdt (350 + 25 * n)) ''acct_9005''])"

definition refusal_calls :: "(nat \<times> traffic_call) list" where
  "refusal_calls =
     [(20, pay_call ''doc-reader attempts a payment'' ''agt-doc-reader'' ''1500.0000'' ''acct_9001''),
      (45, pay_call ''settlement agent exceeds its ceiling'' ''agt-settlement'' ''30000.0000'' ''acct_9002''),
      (70, pay_call ''root attempts more than the mandate grants'' ''root'' ''600000.0000'' ''acct_9003''),
      (95, pay_call ''sub-contractor is too deep for the policy'' ''agt-subcontractor'' ''100.0000'' ''acct_9004'')]"

definition held_call :: "nat \<times> traffic_call" where
  "held_call = (57, pay_call ''bulk buyer places a large order'' ''agt-bulk-buyer'' ''75000.0000'' ''acct_1001'')"

text \<open>\<open>list.insert\<close>, and the insertions in order of position, each shifted by those before it.\<close>

definition py_insert :: "nat \<Rightarrow> 'a \<Rightarrow> 'a list \<Rightarrow> 'a list" where
  "py_insert i x xs = take i xs @ x # drop i xs"

definition build_traffic :: "traffic_call list" where
  "build_traffic =
     spawn_calls
     @ fold (\<lambda>(offset, pos, c). py_insert (pos + offset) c)
         (List.enumerate 0 (sort_key fst (refusal_calls @ [held_call]))) (concat (map work_round [0..<8]))"

text \<open>\<open>drive\<close>: what the gateway answered is its status, its reason and the escalation it opened.\<close>

record demo_answer =
  da_success :: bool
  da_reason :: string
  da_escalation :: "string option"

record drive_state =
  dv_outcomes :: "(string \<times> nat) list"
  dv_spawned :: "string list"
  dv_escalations :: "(string \<times> string) list"
  dv_unqueued :: "string list"

definition count_outcome :: "string \<Rightarrow> (string \<times> nat) list \<Rightarrow> (string \<times> nat) list" where
  "count_outcome reason outcomes =
     AList.update reason ((case map_of outcomes reason of None \<Rightarrow> 0 | Some n \<Rightarrow> n) + 1) outcomes"

definition drive_call :: "traffic_call \<Rightarrow> demo_answer \<Rightarrow> drive_state \<Rightarrow> drive_state" where
  "drive_call call answer st =
     (let st = st\<lparr>dv_spawned := (if dc_who call \<in> set (dv_spawned st) then dv_spawned st else dv_spawned st @ [dc_who call])\<rparr>;
          st = (if da_reason answer = ''APPROVAL_REQUIRED''
                then (case da_escalation answer of
                        Some i \<Rightarrow> if i \<noteq> [] then st\<lparr>dv_escalations := dv_escalations st @ [(dc_label call, i)]\<rparr>
                                  else st\<lparr>dv_unqueued := dv_unqueued st @ [dc_label call]\<rparr>
                      | None \<Rightarrow> st\<lparr>dv_unqueued := dv_unqueued st @ [dc_label call]\<rparr>)
                else st)
      in st\<lparr>dv_outcomes := count_outcome (da_reason answer) (dv_outcomes st)\<rparr>)"

text \<open>The gateway answers with the token of the caller; a name with no token raises.\<close>

fun drive_calls :: "string strmap \<Rightarrow> (nat \<Rightarrow> string \<Rightarrow> traffic_call \<Rightarrow> demo_answer) \<Rightarrow> nat \<Rightarrow> traffic_call list \<Rightarrow> drive_state \<Rightarrow> drive_state py" where
  "drive_calls tokens gateway i [] st = Inr st"
| "drive_calls tokens gateway i (c # cs) st =
     (case map_of tokens (dc_who c) of
        None \<Rightarrow> Inl KeyError
      | Some t \<Rightarrow> drive_calls tokens gateway (i + 1) cs (drive_call c (gateway i t c) st))"

definition drive_demo :: "string strmap \<Rightarrow> (nat \<Rightarrow> string \<Rightarrow> traffic_call \<Rightarrow> demo_answer) \<Rightarrow> (drive_state \<times> int) py" where
  "drive_demo tokens gateway =
     bindE (drive_calls tokens gateway 0 build_traffic
              \<lparr>dv_outcomes = [], dv_spawned = [], dv_escalations = [], dv_unqueued = []\<rparr>)
       (\<lambda>st. Inr (st, if dv_unqueued st \<noteq> [] then 1 else 0))"

section \<open>The sibling race\<close>

definition RACE_POOL :: decimal where "RACE_POOL = 15000"
definition PAYMENT :: decimal where "PAYMENT = 500"
definition PAYMENTS_PER_SIBLING :: nat where "PAYMENTS_PER_SIBLING = 20"
definition SIBLINGS :: "string list" where "SIBLINGS = [''agt-supplier-a'', ''agt-supplier-b'', ''agt-supplier-c'']"
definition MAX_ATTEMPTS :: nat where "MAX_ATTEMPTS = 40"

datatype race_outcome = RaceAllowed | RaceRetry | RaceFinal

text \<open>The run's mandate and task: those of the last seeding, unless new ones are asked for.\<close>

type_synonym run_ids = "uuid \<times> uuid"

definition resolve_ids :: "run_ids option \<Rightarrow> bool \<Rightarrow> run_ids \<Rightarrow> run_ids" where
  "resolve_ids state new fresh = (case state of Some ids \<Rightarrow> if new then fresh else ids | None \<Rightarrow> fresh)"

definition race_mandate :: "hasher \<Rightarrow> run_ids \<Rightarrow> instant \<Rightarrow> mandate py" where
  "race_mandate sha ids now_t =
     bindE (intent_hash_of sha ''Negotiate with three suppliers in parallel, budget BDT 15,000.'') (\<lambda>h.
     bindE (mk_budget \<lparr>spend_bdt = RACE_POOL, tool_calls = 100000, rows_read = 0, external_emails = 0, wall_clock_s = 0\<rparr>) (\<lambda>b.
       mk_mandate (fst ids) (snd ids) ''kc:11111111-1111-1111-1111-111111111111'' h {''payment:initiate''} b 2
         (Aware (now_t - seconds 300)) (Aware (now_t + seconds 28800))))"

definition mint_tokens ::
  "('b, 'k) biscuit_lib \<Rightarrow> hasher \<Rightarrow> 'k \<Rightarrow> 'k list \<Rightarrow> run_ids \<Rightarrow> instant \<Rightarrow> string strmap py" where
  "mint_tokens lib sha private_key keys ids now_t =
     bindE (race_mandate sha ids now_t) (\<lambda>m.
     bindE (mint_root lib m private_key) (\<lambda>tok.
     bindE (verify lib tok keys (Aware now_t)) (\<lambda>top_tok.
       traverseE (\<lambda>agent.
         bindE (attenuate lib top_tok [ScopeSubset {''payment:initiate''}, BudgetCeiling SPEND_BDT RACE_POOL] agent ''senior'' [])
           (\<lambda>t. Inr (agent, t))) SIBLINGS)))"

definition classify :: "int \<Rightarrow> string \<Rightarrow> race_outcome" where
  "classify status reason =
     (if 200 \<le> status \<and> status < 300 then RaceAllowed
      else if reason = ''LEASE_UNAVAILABLE'' then RaceRetry else RaceFinal)"

definition requested_total :: decimal where
  "requested_total = of_nat (length SIBLINGS) * of_nat PAYMENTS_PER_SIBLING * PAYMENT"

record race_summary =
  rc_allowed :: "string list"
  rc_refusals :: "string list"
  rc_retries :: nat
  rc_gave_up :: nat

text \<open>One payment: the answers its attempts get, of which it uses at most so many.\<close>

fun pay_from :: "nat \<Rightarrow> string \<Rightarrow> (nat \<Rightarrow> int \<times> string) \<Rightarrow> nat \<Rightarrow> race_summary \<Rightarrow> race_summary" where
  "pay_from 0 agent answers attempt s = s\<lparr>rc_gave_up := rc_gave_up s + 1\<rparr>"
| "pay_from (Suc n) agent answers attempt s =
     (case answers attempt of (status, reason) \<Rightarrow>
        (case classify status reason of
           RaceAllowed \<Rightarrow> s\<lparr>rc_allowed := agent # rc_allowed s\<rparr>
         | RaceFinal \<Rightarrow> s\<lparr>rc_refusals := reason # rc_refusals s\<rparr>
         | RaceRetry \<Rightarrow> pay_from n agent answers (attempt + 1) (s\<lparr>rc_retries := rc_retries s + 1\<rparr>)))"

definition all_payments :: "(string \<times> nat) list" where
  "all_payments = List.product SIBLINGS [0..<PAYMENTS_PER_SIBLING]"

text \<open>The payments run at once; their counts commute, so they are taken in order.\<close>

definition burst :: "(string \<times> nat \<Rightarrow> nat \<Rightarrow> int \<times> string) \<Rightarrow> race_summary" where
  "burst answers =
     fold (\<lambda>x. pay_from MAX_ATTEMPTS (fst x) (answers x) 0) all_payments
       \<lparr>rc_allowed = [], rc_refusals = [], rc_retries = 0, rc_gave_up = 0\<rparr>"

definition total_allowed :: "race_summary \<Rightarrow> decimal" where
  "total_allowed s = of_nat (length (rc_allowed s)) * PAYMENT"

definition held_within :: "race_summary \<Rightarrow> bool" where
  "held_within s = (total_allowed s \<le> RACE_POOL)"

text \<open>
  The control plane's books, polled until the settlements have landed: the answer is none when the
  request fails, else the checker's verdict and what the mandate's gauge has committed.  The
  deadline allows so many polls after the first.
\<close>

fun ledger_view ::
  "decimal \<Rightarrow> nat \<Rightarrow> (nat \<Rightarrow> (bool \<times> decimal option) option) \<Rightarrow> nat \<Rightarrow> decimal option \<times> bool option" where
  "ledger_view expected 0 poll i = (case poll i of None \<Rightarrow> (None, None) | Some (ok, gauge) \<Rightarrow> (gauge, Some ok))"
| "ledger_view expected (Suc n) poll i =
     (case poll i of
        None \<Rightarrow> (None, None)
      | Some (ok, gauge) \<Rightarrow>
          (case gauge of
             Some c \<Rightarrow> if expected \<le> c then (gauge, Some ok) else ledger_view expected n poll (i + 1)
           | None \<Rightarrow> ledger_view expected n poll (i + 1)))"

definition race_exit :: "race_summary \<Rightarrow> bool option \<Rightarrow> int" where
  "race_exit s invariants_ok = (if held_within s \<and> invariants_ok \<noteq> Some False then 0 else 1)"

definition drive_race ::
  "(string \<times> nat \<Rightarrow> nat \<Rightarrow> int \<times> string) \<Rightarrow> nat \<Rightarrow> (nat \<Rightarrow> (bool \<times> decimal option) option) \<Rightarrow> int" where
  "drive_race answers polls poll =
     (let s = burst answers; (_, ok) = ledger_view (total_allowed s) polls poll 0 in race_exit s ok)"

section \<open>The tree narrows\<close>

definition agent_names :: "string list" where
  "agent_names = ''root'' # map fst CHILDREN @ map (\<lambda>(_, agent, _). agent) DESCENDANTS"

text \<open>The scopes and the ceiling an agent of the tree was given.\<close>

definition seeded :: "string \<Rightarrow> (string set \<times> decimal) option" where
  "seeded who =
     map_of ((''root'', SEED_SCOPES, SEED_POOL_TOTAL) # map (\<lambda>(a, _, S, v). (a, S, v)) CHILDREN
             @ map (\<lambda>(_, a, _, S, v). (a, S, v)) DESCENDANTS) who"

definition narrower :: "string \<Rightarrow> string \<Rightarrow> bool" where
  "narrower agent parent =
     (case (seeded agent, seeded parent) of (Some (S, v), Some (S', v')) \<Rightarrow> S \<subseteq> S' \<and> v \<le> v' \<and> (S, v) \<noteq> (S', v') | _ \<Rightarrow> False)"

theorem seeded_tree_narrows:
  "list_all (\<lambda>(agent, _). narrower agent ''root'') CHILDREN
   \<and> list_all (\<lambda>(parent, agent, _). narrower agent parent) DESCENDANTS \<and> distinct agent_names"
  by code_simp

lemma minted_children: "mint_children lib g tokens cs = Inr tokens' \<Longrightarrow> map fst tokens' = map fst tokens @ map fst cs"
  by (induction lib g tokens cs rule: mint_children.induct) auto

lemma minted_descendants:
  "mint_descendants lib keys now_t tokens ds = Inr tokens' \<Longrightarrow> map fst tokens' = map fst tokens @ map (\<lambda>(_, agent, _). agent) ds"
  by (induction lib keys now_t tokens ds rule: mint_descendants.induct) (auto split: option.splits)

lemma minted_names: "mint_chain lib m k keys now_t = Inr tokens \<Longrightarrow> map fst tokens = agent_names"
  by (auto simp: mint_chain_def agent_names_def dest!: minted_children minted_descendants)

lemma ensure_budget_once:
  "ensure_budget mid v i db = (db', Inr made) \<Longrightarrow> ensure_budget mid v' i' db' = (db', Inr False)"
  by (auto simp: ensure_budget_def commit_tx_def split: list.splits if_splits)

section \<open>What the traffic does\<close>

definition call_scope :: "traffic_call \<Rightarrow> string" where
  "call_scope c =
     (if dc_body c \<noteq> None then ''payment:initiate''
      else if take 16 (dc_path c) = ''/proxy/invoices/'' then ''invoice:read'' else ''vendor:read'')"

definition call_amount :: "traffic_call \<Rightarrow> decimal" where
  "call_amount c = (case dc_body c of None \<Rightarrow> 0
     | Some (amount, _) \<Rightarrow> (case decimal_of_string amount of Inr (Fin v) \<Rightarrow> v | _ \<Rightarrow> 0))"

definition beyond_grant :: "traffic_call \<Rightarrow> bool" where
  "beyond_grant c = (case seeded (dc_who c) of None \<Rightarrow> True | Some (S, v) \<Rightarrow> call_scope c \<notin> S \<or> v < call_amount c)"

definition first_seen :: "string list \<Rightarrow> string list \<Rightarrow> string list" where
  "first_seen acc xs = fold (\<lambda>x acc. if x \<in> set acc then acc else acc @ [x]) xs acc"

text \<open>Which calls there are, whatever their order.\<close>

lemma inserted: "mset (fold (\<lambda>(offset, pos, c). py_insert (pos + offset) c) (List.enumerate n xs) ys) = mset (map snd xs) + mset ys"
proof (induction xs arbitrary: n ys)
  case (Cons x xs)
  obtain pos c where x: "x = (pos, c)" by (cases x)
  have "mset (py_insert i c ys) = add_mset c (mset ys)" for i
    using mset_append[of "take i ys" "drop i ys"] by (simp add: py_insert_def)
  then show ?case using Cons by (simp add: x)
qed simp

lemma traffic_multiset:
  "mset build_traffic = mset spawn_calls + mset (map snd (refusal_calls @ [held_call])) + mset (concat (map work_round [0..<8]))"
proof -
  have "mset (map snd (sort_key fst (refusal_calls @ [held_call]))) = mset (map snd (refusal_calls @ [held_call]))"
    by (simp only: mset_map mset_sort)
  then show ?thesis unfolding build_traffic_def mset_append inserted by simp
qed

lemma traffic_calls:
  "set build_traffic = set spawn_calls \<union> (\<Union>n \<in> {0..<8}. set (work_round n)) \<union> set (map snd (refusal_calls @ [held_call]))"
  using arg_cong[OF traffic_multiset, of set_mset] by auto

lemma traffic_length: "length build_traffic = 138"
proof -
  have w: "length (work_round n) = 15" for n by (simp add: work_round_def Let_def)
  have "length build_traffic = size (mset build_traffic)" by simp
  also have "\<dots> = 138" unfolding traffic_multiset
    by (simp add: spawn_calls_def refusal_calls_def w length_concat comp_def upt_rec)
  finally show ?thesis .
qed

lemma seeded_at:
  "seeded ''root'' = Some (SEED_SCOPES, 500000)" "seeded ''agt-doc-reader'' = Some ({''invoice:read'', ''vendor:read''}, 0)"
  "seeded ''agt-negotiator'' = Some ({''vendor:read''}, 50000)" "seeded ''agt-payer'' = Some ({''payment:initiate''}, 200000)"
  "seeded ''agt-auditor'' = Some ({''invoice:read''}, 0)" "seeded ''agt-treasury'' = Some ({''invoice:read'', ''payment:initiate''}, 100000)"
  "seeded ''agt-ocr-scanner'' = Some ({''invoice:read''}, 0)" "seeded ''agt-invoice-classifier'' = Some ({''invoice:read''}, 0)"
  "seeded ''agt-quote-collector'' = Some ({''vendor:read''}, 10000)" "seeded ''agt-price-checker'' = Some ({''vendor:read''}, 10000)"
  "seeded ''agt-settlement'' = Some ({''payment:initiate''}, 25000)" "seeded ''agt-reconciler'' = Some ({''payment:initiate''}, 20000)"
  "seeded ''agt-bulk-buyer'' = Some ({''invoice:read'', ''payment:initiate''}, 80000)"
  "seeded ''agt-subcontractor'' = Some ({''payment:initiate''}, 5000)"
  by (simp_all add: seeded_def CHILDREN_def DESCENDANTS_def SEED_POOL_TOTAL_def)

lemma digit_is_plain: "digit_char c \<Longrightarrow> c \<noteq> CHR ''_'' \<and> \<not> (CHR ''A'' \<le> c \<and> c \<le> CHR ''Z'') \<and> \<not> space_char c \<and> c \<notin> set ''-+ins''"
proof -
  assume d: "digit_char c"
  have "\<not> CHR ''A'' \<le> c" using d order_trans[of "CHR ''A''" c "CHR ''9''"] by (auto simp: digit_char_def less_eq_char_def)
  moreover have "\<not> space_char c" using d by (auto simp: space_char_def digit_char_def less_eq_char_def)
  ultimately show ?thesis using d by (auto simp: digit_char_def less_eq_char_def)
qed

lemma amount_reads: "decimal_of_string (nat_str k @ ''.0000'') = Inr (Fin (of_nat k))"
proof -
  let ?t = "nat_str k @ ''.0000''"
  obtain x xs where x: "nat_str k = x # xs" "digit_char x" and xs: "list_all digit_char xs"
    using nat_str_nonempty[of k] nat_str_reads(1)[of k] by (cases "nat_str k") auto
  have plain: "c \<noteq> CHR ''_'' \<and> \<not> (CHR ''A'' \<le> c \<and> c \<le> CHR ''Z'') \<and> \<not> space_char c" if "c \<in> set ?t" for c
    using that digit_is_plain[of c] nat_str_reads(1)[of k] by (auto simp: list_all_iff less_eq_char_def space_char_def)
  have keep: "(if CHR ''A'' \<le> c \<and> c \<le> CHR ''Z'' then char_of (of_char c + (32 :: nat)) else c) = c" if "c \<in> set ?t" for c
    using plain[OF that] by (subst if_not_P; blast)
  have clean: "filter (\<lambda>c. c \<noteq> CHR ''_'') ?t = ?t" "lower_case ?t = ?t"
    unfolding filter_id_conv lower_case_def by (use plain in blast, rule map_idI, erule keep)
  have s: "strip ?t = ?t"
    using digit_is_plain[OF x(2)] x(1) by (simp add: strip_def space_char_def)
  have sign: "split_sign ?t = (False, ?t)" "?t \<noteq> ''inf'' \<and> ?t \<noteq> ''infinity'' \<and> \<not> is_nan_text ?t"
    using digit_is_plain[OF x(2)] unfolding x(1) by (simp_all add: is_nan_text_def)
  have zero: "digit_char CHR ''0''" and "list_all digit_char ''0000''" "\<not> digit_char CHR ''.''" by code_simp+
  then have scan: "takeWhile digit_char ?t = nat_str k" "dropWhile digit_char ?t = ''.0000''"
    "takeWhile digit_char ''0000'' = ''0000''" "dropWhile digit_char ''0000'' = []"
    using nat_str_reads(1)[of k] by (simp_all add: takeWhile_append2 dropWhile_append2 list_all_iff)
  have "digits_value (nat_str k @ ''0000'') = int k * 10000"
    using nat_str_reads(2)[of k] by (simp add: digits_value_def)
  then have "parse_unsigned ?t = Some (of_nat k)"
    by (simp add: parse_unsigned_def scan Let_def power10_def nat_str_nonempty zero)
  then show ?thesis using s clean sign by (simp add: decimal_of_string_def)
qed

lemma amounts_read:
  "call_amount \<lparr>dc_label = l, dc_who = w, dc_method = v, dc_path = p, dc_body = Some (nat_str k @ ''.0000'', a)\<rparr> = of_nat k"
  "call_amount \<lparr>dc_label = l, dc_who = w, dc_method = v, dc_path = p, dc_body = None\<rparr> = 0"
  by (simp_all add: call_amount_def amount_reads)

lemma written_amounts:
  "''100.0000'' = nat_str 100 @ ''.0000''" "''450.0000'' = nat_str 450 @ ''.0000''" "''900.0000'' = nat_str 900 @ ''.0000''"
  "''1250.0000'' = nat_str 1250 @ ''.0000''" "''1500.0000'' = nat_str 1500 @ ''.0000''" "''30000.0000'' = nat_str 30000 @ ''.0000''"
  "''75000.0000'' = nat_str 75000 @ ''.0000''" "''600000.0000'' = nat_str 600000 @ ''.0000''"
proof -
  have digits: "char_of (48 :: nat) = CHR ''0''" "char_of (49 :: nat) = CHR ''1''" "char_of (50 :: nat) = CHR ''2''"
    "char_of (51 :: nat) = CHR ''3''" "char_of (52 :: nat) = CHR ''4''" "char_of (53 :: nat) = CHR ''5''"
    "char_of (54 :: nat) = CHR ''6''" "char_of (55 :: nat) = CHR ''7''" "char_of (57 :: nat) = CHR ''9''"
    by code_simp+
  show "''100.0000'' = nat_str 100 @ ''.0000''" "''450.0000'' = nat_str 450 @ ''.0000''" "''900.0000'' = nat_str 900 @ ''.0000''"
    "''1250.0000'' = nat_str 1250 @ ''.0000''" "''1500.0000'' = nat_str 1500 @ ''.0000''" "''30000.0000'' = nat_str 30000 @ ''.0000''"
    "''75000.0000'' = nat_str 75000 @ ''.0000''" "''600000.0000'' = nat_str 600000 @ ''.0000''"
    by (simp_all add: nat_str.simps digits)
qed

lemma literal_amounts:
  "decimal_of_string ''100.0000'' = Inr (Fin 100)" "decimal_of_string ''450.0000'' = Inr (Fin 450)"
  "decimal_of_string ''900.0000'' = Inr (Fin 900)" "decimal_of_string ''1250.0000'' = Inr (Fin 1250)"
  "decimal_of_string ''1500.0000'' = Inr (Fin 1500)" "decimal_of_string ''30000.0000'' = Inr (Fin 30000)"
  "decimal_of_string ''75000.0000'' = Inr (Fin 75000)" "decimal_of_string ''600000.0000'' = Inr (Fin 600000)"
  unfolding written_amounts amount_reads by simp_all

lemma beyond_reads:
  "beyond_grant (read_invoice l w i) = (case seeded w of None \<Rightarrow> True | Some (S, v) \<Rightarrow> ''invoice:read'' \<notin> S \<or> v < 0)"
  "beyond_grant (read_vendor l w i) = (case seeded w of None \<Rightarrow> True | Some (S, v) \<Rightarrow> ''vendor:read'' \<notin> S \<or> v < 0)"
  "beyond_grant (pay_call l w t a) = (case seeded w of None \<Rightarrow> True | Some (S, v) \<Rightarrow> ''payment:initiate'' \<notin> S
     \<or> v < (case decimal_of_string t of Inr (Fin x) \<Rightarrow> x | _ \<Rightarrow> 0))"
  by (cases "seeded w"; simp add: beyond_grant_def read_invoice_def read_vendor_def pay_call_def call_scope_def call_amount_def
      split: prod.split)+

text \<open>
  The scenario: 138 calls, each by an agent of the tree; every agent calls; three calls go beyond
  what their caller was given, and only one payment within a grant needs more than a lease.
\<close>

lemma round_within:
  assumes "n < 8" "c \<in> set (work_round n)"
  shows "\<not> beyond_grant c" "dc_who c \<in> set agent_names"
proof -
  have "(of_nat n :: decimal) \<le> 7" using assms(1) of_nat_le_iff[of n 7, where 'a = decimal] by simp
  then show "\<not> beyond_grant c" using assms(2)
    by (auto simp: work_round_def Let_def beyond_reads seeded_at SEED_SCOPES_def amount_reads)
  show "dc_who c \<in> set agent_names" using assms(2)
    by (auto simp: work_round_def Let_def read_invoice_def read_vendor_def pay_call_def agent_names_def CHILDREN_def DESCENDANTS_def)
qed

lemma spawn_within: "\<forall>c \<in> set spawn_calls. \<not> beyond_grant c"
  by (simp add: spawn_calls_def beyond_reads seeded_at SEED_SCOPES_def literal_amounts)

theorem traffic_refusals:
  "{c \<in> set build_traffic. beyond_grant c} =
     {pay_call ''doc-reader attempts a payment'' ''agt-doc-reader'' ''1500.0000'' ''acct_9001'',
      pay_call ''settlement agent exceeds its ceiling'' ''agt-settlement'' ''30000.0000'' ''acct_9002'',
      pay_call ''root attempts more than the mandate grants'' ''root'' ''600000.0000'' ''acct_9003''}"
proof -
  have "{c \<in> set build_traffic. beyond_grant c} = {c \<in> set (map snd (refusal_calls @ [held_call])). beyond_grant c}"
    unfolding traffic_calls using round_within(1) spawn_within by auto
  also have "\<dots> = {pay_call ''doc-reader attempts a payment'' ''agt-doc-reader'' ''1500.0000'' ''acct_9001'',
      pay_call ''settlement agent exceeds its ceiling'' ''agt-settlement'' ''30000.0000'' ''acct_9002'',
      pay_call ''root attempts more than the mandate grants'' ''root'' ''600000.0000'' ''acct_9003''}"
    by (auto simp: refusal_calls_def held_call_def beyond_reads seeded_at literal_amounts SEED_SCOPES_def)
  finally show ?thesis .
qed

theorem traffic_by_the_tree: "dc_who ` set build_traffic = set agent_names"
proof
  have "\<forall>c \<in> set spawn_calls \<union> set (map snd (refusal_calls @ [held_call])). dc_who c \<in> set agent_names"
    by (simp add: spawn_calls_def refusal_calls_def held_call_def read_invoice_def read_vendor_def pay_call_def agent_names_def
        CHILDREN_def DESCENDANTS_def)
  then show "dc_who ` set build_traffic \<subseteq> set agent_names"
    unfolding traffic_calls using round_within(2) by fastforce
  show "set agent_names \<subseteq> dc_who ` set build_traffic"
    unfolding traffic_calls
    by (auto simp: agent_names_def CHILDREN_def DESCENDANTS_def spawn_calls_def refusal_calls_def read_invoice_def read_vendor_def
        pay_call_def image_Un)
qed

section \<open>What a drive reports\<close>

lemma counted: "sum_list (map snd (count_outcome r os)) = Suc (sum_list (map snd os))"
proof -
  have "sum_list (map snd (AList.update r n os)) + (case map_of os r of None \<Rightarrow> 0 | Some k \<Rightarrow> k) = sum_list (map snd os) + n" for n
    by (induction os) (auto split: option.splits)
  from this[of "(case map_of os r of None \<Rightarrow> 0 | Some k \<Rightarrow> k) + 1"] show ?thesis by (simp add: count_outcome_def)
qed

definition unasked :: "demo_answer \<Rightarrow> bool" where
  "unasked a = (da_reason a = ''APPROVAL_REQUIRED'' \<and> (da_escalation a = None \<or> da_escalation a = Some []))"

lemma drive_call_fields:
  "sum_list (map snd (dv_outcomes (drive_call c a st))) = Suc (sum_list (map snd (dv_outcomes st)))"
  "dv_unqueued (drive_call c a st) = dv_unqueued st @ (if unasked a then [dc_label c] else [])"
  by (auto simp: drive_call_def counted unasked_def Let_def split: option.splits)

lemma drive_calls_run:
  assumes "dc_who ` set cs \<subseteq> set (map fst tokens)"
  shows "\<exists>st'. drive_calls tokens gateway i cs st = Inr st'
    \<and> sum_list (map snd (dv_outcomes st')) = sum_list (map snd (dv_outcomes st)) + length cs
    \<and> dv_unqueued st' = dv_unqueued st @ concat (map (\<lambda>(n, c). if unasked (gateway n (the (map_of tokens (dc_who c))) c)
         then [dc_label c] else []) (List.enumerate i cs))"
  using assms
proof (induction cs arbitrary: i st)
  case (Cons c cs)
  then obtain t where t: "map_of tokens (dc_who c) = Some t" by (cases "map_of tokens (dc_who c)") (auto simp: map_of_eq_None_iff)
  obtain st' where "drive_calls tokens gateway (i + 1) cs (drive_call c (gateway i t c) st) = Inr st'"
    "sum_list (map snd (dv_outcomes st')) = sum_list (map snd (dv_outcomes (drive_call c (gateway i t c) st))) + length cs"
    "dv_unqueued st' = dv_unqueued (drive_call c (gateway i t c) st) @ concat (map (\<lambda>(n, c).
       if unasked (gateway n (the (map_of tokens (dc_who c))) c) then [dc_label c] else []) (List.enumerate (i + 1) cs))"
    using Cons.IH[of "i + 1" "drive_call c (gateway i t c) st"] Cons.prems by auto
  then show ?case using t by (simp add: drive_call_fields)
qed simp

text \<open>
  The tokens a seeding leaves are those the drive needs: no call lacks one, every answer is counted,
  and the command succeeds exactly when each call held for approval came with its escalation.
\<close>

theorem seeded_demo_drives:
  assumes "mint_chain lib m k keys now_t = Inr tokens"
  shows "\<exists>st code. drive_demo tokens gateway = Inr (st, code) \<and> sum_list (map snd (dv_outcomes st)) = 138
    \<and> (code = 0 \<longleftrightarrow> (\<forall>(n, c) \<in> set (List.enumerate 0 build_traffic). \<not> unasked (gateway n (the (map_of tokens (dc_who c))) c)))"
proof -
  have "dc_who ` set build_traffic \<subseteq> set (map fst tokens)"
    unfolding traffic_by_the_tree minted_names[OF assms] by (rule subset_refl)
  from drive_calls_run[OF this, of gateway 0 "\<lparr>dv_outcomes = [], dv_spawned = [], dv_escalations = [], dv_unqueued = []\<rparr>"]
  obtain st where st: "drive_calls tokens gateway 0 build_traffic
      \<lparr>dv_outcomes = [], dv_spawned = [], dv_escalations = [], dv_unqueued = []\<rparr> = Inr st"
    and counts: "sum_list (map snd (dv_outcomes st)) = 138"
    and q: "dv_unqueued st = concat (map (\<lambda>(n, c). if unasked (gateway n (the (map_of tokens (dc_who c))) c)
       then [dc_label c] else []) (List.enumerate 0 build_traffic))"
    by (auto simp: traffic_length)
  have "drive_demo tokens gateway = Inr (st, if dv_unqueued st \<noteq> [] then 1 else 0)" by (simp add: drive_demo_def st)
  moreover have "dv_unqueued st = [] \<longleftrightarrow>
      (\<forall>(n, c) \<in> set (List.enumerate 0 build_traffic). \<not> unasked (gateway n (the (map_of tokens (dc_who c))) c))"
    unfolding q by (fastforce split: if_splits)
  ultimately show ?thesis using counts by (cases "dv_unqueued st = []") auto
qed

section \<open>What the race reports\<close>

lemma pay_from_counts:
  "length (rc_allowed (pay_from n a ans i s)) + length (rc_refusals (pay_from n a ans i s)) + rc_gave_up (pay_from n a ans i s)
     = Suc (length (rc_allowed s) + length (rc_refusals s) + rc_gave_up s)
   \<and> rc_retries (pay_from n a ans i s) \<le> rc_retries s + n \<and> rc_gave_up s \<le> rc_gave_up (pay_from n a ans i s)
   \<and> set (rc_allowed (pay_from n a ans i s)) \<subseteq> insert a (set (rc_allowed s))"
proof (induction n arbitrary: i s)
  case (Suc n)
  show ?case using Suc[of "i + 1" "s\<lparr>rc_retries := rc_retries s + 1\<rparr>"]
    by (cases "ans i"; cases "classify (fst (ans i)) (snd (ans i))") auto
qed auto

text \<open>Each payment is allowed, refused or given up, after at most so many attempts.\<close>

theorem burst_accounts:
  "length (rc_allowed (burst answers)) + length (rc_refusals (burst answers)) + rc_gave_up (burst answers) = 60
   \<and> rc_retries (burst answers) \<le> 60 * MAX_ATTEMPTS \<and> set (rc_allowed (burst answers)) \<subseteq> set SIBLINGS"
proof -
  have fold: "length (rc_allowed (fold f xs s)) + length (rc_refusals (fold f xs s)) + rc_gave_up (fold f xs s)
       = length xs + (length (rc_allowed s) + length (rc_refusals s) + rc_gave_up s)
     \<and> rc_retries (fold f xs s) \<le> rc_retries s + length xs * MAX_ATTEMPTS
     \<and> set (rc_allowed (fold f xs s)) \<subseteq> fst ` set xs \<union> set (rc_allowed s)"
    if "f = (\<lambda>x. pay_from MAX_ATTEMPTS (fst x) (answers x) 0)" for f xs s
  proof (induction xs arbitrary: s)
    case (Cons x xs)
    show ?case using Cons[of "f x s"] pay_from_counts[of MAX_ATTEMPTS "fst x" "answers x" 0 s] unfolding that by auto
  qed simp
  have "length all_payments = 60" "fst ` set all_payments \<subseteq> set SIBLINGS"
    by (auto simp: all_payments_def SIBLINGS_def PAYMENTS_PER_SIBLING_def)
  then show ?thesis using fold[OF refl, of all_payments "\<lparr>rc_allowed = [], rc_refusals = [], rc_retries = 0, rc_gave_up = 0\<rparr>"]
    unfolding burst_def by auto
qed

text \<open>The siblings ask for twice the pool, so a run that holds leaves half of the payments unpaid.\<close>

theorem race_over_asks: "requested_total = 2 * RACE_POOL \<and> (held_within s \<longleftrightarrow> length (rc_allowed s) \<le> 30)"
proof -
  have "held_within s \<longleftrightarrow> of_nat (length (rc_allowed s)) \<le> (of_nat 30 :: decimal)"
    by (simp add: held_within_def total_allowed_def PAYMENT_def RACE_POOL_def)
  then show ?thesis unfolding of_nat_le_iff
    by (simp add: requested_total_def SIBLINGS_def PAYMENTS_PER_SIBLING_def PAYMENT_def RACE_POOL_def)
qed

text \<open>A drive that succeeds allowed at most what the pool holds, and no poll it ended on was red.\<close>

lemma ledger_view_polled:
  "ledger_view expected n poll i = (g, ok) \<Longrightarrow>
     \<exists>j. i \<le> j \<and> j \<le> i + n \<and> (case poll j of None \<Rightarrow> g = None \<and> ok = None | Some (v, c) \<Rightarrow> g = c \<and> ok = Some v)"
proof (induction n arbitrary: i)
  case (Suc n)
  show ?case
  proof (cases "poll i = None \<or> ledger_view expected (Suc n) poll i \<noteq> ledger_view expected n poll (i + 1)")
    case True
    then show ?thesis using Suc.prems by (intro exI[of _ i]) (auto split: option.splits prod.splits if_splits)
  next
    case False
    then obtain j where "i + 1 \<le> j \<and> j \<le> i + 1 + n \<and> (case poll j of None \<Rightarrow> g = None \<and> ok = None | Some (v, c) \<Rightarrow> g = c \<and> ok = Some v)"
      using Suc.IH[of "i + 1"] Suc.prems by auto
    then show ?thesis by (intro exI[of _ j]) auto
  qed
qed (auto split: option.splits)

theorem successful_race_holds:
  assumes "drive_race answers polls poll = 0"
  shows "length (rc_allowed (burst answers)) \<le> 30 \<and> (\<exists>j \<le> polls. poll j = None \<or> (\<exists>c. poll j = Some (True, c)))"
proof -
  obtain g ok where v: "ledger_view (total_allowed (burst answers)) polls poll 0 = (g, ok)" by fastforce
  then have h: "held_within (burst answers)" "ok \<noteq> Some False"
    using assms by (auto simp: drive_race_def race_exit_def Let_def split: if_splits)
  obtain j where "j \<le> polls" "case poll j of None \<Rightarrow> g = None \<and> ok = None | Some (w, c) \<Rightarrow> g = c \<and> ok = Some w"
    using ledger_view_polled[OF v] by auto
  then have "\<exists>j \<le> polls. poll j = None \<or> (\<exists>c. poll j = Some (True, c))"
    using h(2) by (intro exI[of _ j]) (auto split: option.splits)
  then show ?thesis using h(1) race_over_asks by blast
qed

section \<open>A bootstrapped service\<close>

text \<open>What path compilation has to give: the parameters written in braces.\<close>

definition demo_paths :: "(string \<times> string set) list" where
  "demo_paths = [(''/invoices/{id}'', {''id''}), (''/vendors/{id}'', {''id''}), (''/email/send'', {}), (''/email/send-external'', {}),
     (''/payments'', {})]"

text \<open>Labels that normalization leaves apart.\<close>

definition plain_labels :: "source strmap \<Rightarrow> bool" where
  "plain_labels ss \<longleftrightarrow> distinct (map fst ss) \<and> list_all ascii_text (map fst ss)"

lemma demo_labels [simp]:
  "plain_labels [(''invoice.id'', s)]" "plain_labels [(''vendor.id'', s)]" "plain_labels [(''email.to'', s)]"
  "plain_labels [(''payment.amount'', s), (''payment.to'', t)]"
  by (simp_all add: plain_labels_def ascii_text_def less_char_def)

lemma ascii_keys:
  assumes "\<forall>x \<in> set items. ascii_text (fst x)" shows "map (nfc u \<circ> fst) items = map fst items"
  using assms nfc_ascii by simp

lemma json_rule_shape:
  assumes "plain_labels (rr_sources r)" shows "json u (rule_shape r)"
proof -
  let ?args = "map (\<lambda>(label, s). (label, PyStr (source_text s))) (sort_key fst (rr_sources r))"
  have "mset (map fst (sort_key fst (rr_sources r))) = mset (map fst (rr_sources r))" by (simp only: mset_map mset_sort)
  then have "distinct (map fst (sort_key fst (rr_sources r)))"
    using assms mset_eq_imp_distinct_iff unfolding plain_labels_def by blast
  moreover have "map (nfc u \<circ> fst) ?args = map fst ?args"
    using assms by (intro ascii_keys) (auto simp: plain_labels_def list_all_iff)
  moreover have "map fst ?args = map fst (sort_key fst (rr_sources r))" by auto
  ultimately have "distinct (map (nfc u \<circ> fst) ?args)" by (simp only:)
  then have "json u (PyMap ?args)" unfolding json.simps by (auto simp: list_all_iff)
  moreover have "map (nfc u) [''method'', ''path'', ''scope'', ''tool'', ''args''] = [''method'', ''path'', ''scope'', ''tool'', ''args'']"
    by (rule map_idI, rule nfc_ascii) (auto simp: ascii_text_def less_char_def)
  ultimately show ?thesis by (simp add: rule_shape_def)
qed

lemma demo_route_compiles:
  assumes "compile path = Inr (m, params)" "path \<noteq> []" "hd path = CHR ''/''" "verb \<noteq> []" "scope \<noteq> []" "tool_id \<noteq> []"
    and "traverseE (compile_source params) (map (\<lambda>(k, v). (k, PyStr v)) sources) = Inr ss" "plain_labels ss"
  shows "\<exists>r. compile_rule compile (demo_route verb path scope tool_id sources) = Inr r \<and> plain_labels (rr_sources r)"
  using assms by (simp add: compile_rule_def demo_route_def get_or_def guardE_def)

lemma demo_sources:
  "parse_source ''path.id'' = Inr \<lparr>sc_kind = KPath, sc_keys = [''id''], sc_numeric = False\<rparr>"
  "parse_source ''body.to'' = Inr \<lparr>sc_kind = KBody, sc_keys = [''to''], sc_numeric = False\<rparr>"
  "parse_source ''body.amount:number'' = Inr \<lparr>sc_kind = KBody, sc_keys = [''amount''], sc_numeric = True\<rparr>"
  "parse_source ''body.recipient.account_id'' = Inr \<lparr>sc_kind = KBody, sc_keys = [''recipient'', ''account_id''], sc_numeric = False\<rparr>"
  by code_simp+

lemma one_source_compiles:
  assumes "parse_source e = Inr s" "sc_kind s = KPath \<longrightarrow> sc_name s \<in> params" "label \<noteq> []"
  shows "traverseE (compile_source params) (map (\<lambda>(k, v). (k, PyStr v)) [(label, e)]) = Inr [(label, s)]"
  using assms by (simp add: compile_source_def)

lemma demo_routes_compile:
  assumes "list_all (\<lambda>(p, params). \<exists>m. compile p = Inr (m, params)) demo_paths"
  shows "\<exists>t. from_config sha compile ROUTES = Inr t"
proof -
  obtain m1 m2 m3 m4 m5 where m: "compile ''/invoices/{id}'' = Inr (m1, {''id''})" "compile ''/vendors/{id}'' = Inr (m2, {''id''})"
    "compile ''/email/send'' = Inr (m3, {})" "compile ''/email/send-external'' = Inr (m4, {})" "compile ''/payments'' = Inr (m5, {})"
    using assms by (auto simp: demo_paths_def)
  note compiled = demo_route_compiles[where compile = compile]
  have pay: "traverseE (compile_source {}) (map (\<lambda>(k, v). (k, PyStr v))
      [(''payment.amount'', ''body.amount:number''), (''payment.to'', ''body.recipient.account_id'')])
    = Inr [(''payment.amount'', \<lparr>sc_kind = KBody, sc_keys = [''amount''], sc_numeric = True\<rparr>),
           (''payment.to'', \<lparr>sc_kind = KBody, sc_keys = [''recipient'', ''account_id''], sc_numeric = False\<rparr>)]"
    by (simp add: compile_source_def demo_sources)
  obtain r1 where r1: "compile_rule compile (demo_route ''GET'' ''/invoices/{id}'' ''invoice:read'' ''invoice_api'' [(''invoice.id'', ''path.id'')])
      = Inr r1" "plain_labels (rr_sources r1)"
    using compiled[OF m(1) _ _ _ _ _ one_source_compiles[OF demo_sources(1)], of "''GET''" "''invoice:read''" "''invoice_api''" "''invoice.id''"]
    by (simp add: sc_name_def) blast
  obtain r2 where r2: "compile_rule compile (demo_route ''GET'' ''/vendors/{id}'' ''vendor:read'' ''vendor_api'' [(''vendor.id'', ''path.id'')])
      = Inr r2" "plain_labels (rr_sources r2)"
    using compiled[OF m(2) _ _ _ _ _ one_source_compiles[OF demo_sources(1)], of "''GET''" "''vendor:read''" "''vendor_api''" "''vendor.id''"]
    by (simp add: sc_name_def) blast
  obtain r3 where r3: "compile_rule compile (demo_route ''POST'' ''/email/send'' ''email:send'' ''email_internal'' [(''email.to'', ''body.to'')])
      = Inr r3" "plain_labels (rr_sources r3)"
    using compiled[OF m(3) _ _ _ _ _ one_source_compiles[OF demo_sources(2)], of "''POST''" "''email:send''" "''email_internal''" "''email.to''"]
    by (simp add: sc_name_def) blast
  obtain r4 where r4: "compile_rule compile (demo_route ''POST'' ''/email/send-external'' ''email:send'' ''email_external'' [(''email.to'', ''body.to'')])
      = Inr r4" "plain_labels (rr_sources r4)"
    using compiled[OF m(4) _ _ _ _ _ one_source_compiles[OF demo_sources(2)], of "''POST''" "''email:send''" "''email_external''" "''email.to''"]
    by (simp add: sc_name_def) blast
  obtain r5 where r5: "compile_rule compile (demo_route ''POST'' ''/payments'' ''payment:initiate'' ''payment_api''
      [(''payment.amount'', ''body.amount:number''), (''payment.to'', ''body.recipient.account_id'')]) = Inr r5"
      "plain_labels (rr_sources r5)"
    using compiled[OF m(5) _ _ _ _ _ pay, of "''POST''" "''payment:initiate''" "''payment_api''"] by simp blast
  have keys: "map (nfc u) [''default'', ''max_extract_body_bytes'', ''routes''] = [''default'', ''max_extract_body_bytes'', ''routes'']" for u
    by (rule map_idI, rule nfc_ascii) (auto simp: ascii_text_def less_char_def)
  have "json (hs_nfc sha) (PyMap [(''default'', PyStr ''deny''), (''max_extract_body_bytes'', PyInt DEFAULT_MAX_EXTRACT_BODY_BYTES),
      (''routes'', PyList (map rule_shape [r1, r2, r3, r4, r5]))])"
    using r1(2) r2(2) r3(2) r4(2) r5(2) small_int[of DEFAULT_MAX_EXTRACT_BODY_BYTES]
      keys[of "hs_nfc sha"]
    by (simp add: json_rule_shape DEFAULT_MAX_EXTRACT_BODY_BYTES_def)
  note hashed = canonical_json_ok[OF this]
  have "\<not> DEFAULT_MAX_EXTRACT_BODY_BYTES \<le> 0" by (simp add: DEFAULT_MAX_EXTRACT_BODY_BYTES_def)
  then show ?thesis
    using hashed by (simp add: from_config_def ROUTES_def get_or_def r1(1) r2(1) r3(1) r4(1) r5(1) mapping_version_def hash_object_def)
qed

lemma demo_bundle_payload: "\<exists>payload. signing_payload u demo_policy_bundle = Inr payload"
proof -
  have "json u (bundle_body demo_policy_bundle)"
    using small_int[of 1] by (simp add: bundle_body_def demo_policy_bundle_def opt_value_def CORPUS_TOOLS_def nfc_ascii ascii_text_def less_char_def)
  then show ?thesis using canonical_json_ok by (auto simp: signing_payload_def)
qed

lemma demo_roles_load:
  "load_role_assignments (Some (FileValue (JObj (map (\<lambda>(p, x). (p, JStr x)) ROLE_ASSIGNMENTS)))) = Inr ROLE_ASSIGNMENTS"
proof -
  have "roles_of (py_dict (map (\<lambda>(p, x). (p, JStr x)) ROLE_ASSIGNMENTS)) = Some ROLE_ASSIGNMENTS" by code_simp
  moreover have "refuse_widening_roles ROLE_ASSIGNMENTS = Inr ()" by code_simp
  ultimately show ?thesis by (simp add: load_role_assignments_def)
qed

text \<open>
  Bootstrapping rotates nothing that is complete and leaves a complete directory; what it generates
  is what the service accepts: the bundle's signature verifies under the public key written beside
  it, no assigned role widens an ancestor's, and the routes compile.
\<close>

theorem bootstrap_keeps_credentials:
  assumes "bootstrap_main u public_hex sign force fk dir = Inr dir'"
  shows "is_complete dir'"
    and "is_complete dir \<and> \<not> force \<Longrightarrow> \<forall>n. n \<noteq> ''role_assignments.json'' \<longrightarrow> dir' n = dir n"
  using assms
  by (auto simp: bootstrap_main_def generate_secrets_def write_role_assignments_def is_complete_def SECRET_FILES_def split: if_splits)

theorem bootstrapped_files_are_accepted:
  assumes gen: "generate_secrets (vf_nfc check) public_hex sign fk dir = Inr dir'"
    and crypto: "\<And>m. vf_check check (public_key k) (sign k m) m" and key: "k = fk_signing fk"
    and cedar: "cl_parse cedar CORPUS_SOURCE = Some ps"
    and paths: "list_all (\<lambda>(p, params). \<exists>m. compile p = Inr (m, params)) demo_paths"
  shows "\<exists>g t. load_policy check cedar str_of (Some (public_key k)) (bf_bundle (files_of dir')) = Inr g
    \<and> load_role_assignments (Some (bf_roles (files_of dir'))) = Inr ROLE_ASSIGNMENTS
    \<and> routes_from_file sha compile (bf_routes (files_of dir')) = Inr t"
proof -
  obtain payload where payload: "signing_payload (vf_nfc check) demo_policy_bundle = Inr payload" using demo_bundle_payload by blast
  have files: "bf_bundle (files_of dir') = FileValue (demo_policy_bundle, sign k payload)"
    "bf_roles (files_of dir') = FileValue (JObj (map (\<lambda>(p, x). (p, JStr x)) ROLE_ASSIGNMENTS))"
    "bf_routes (files_of dir') = FileValue (PyMap ROUTES)"
    using gen key by (auto simp: generate_secrets_def payload write_role_assignments_def files_of_def)
  have "tool_catalogue str_of (pb_tools demo_policy_bundle) = Some corpus_catalogue"
    by (simp add: demo_policy_bundle_def corpus_catalogue_read)
  moreover have "pb_cedar_source demo_policy_bundle = CORPUS_SOURCE" by (simp add: demo_policy_bundle_def)
  ultimately have "\<exists>g. load_policy check cedar str_of (Some (public_key k)) (bf_bundle (files_of dir')) = Inr g"
    using crypto cedar by (simp add: files load_policy_def verify_bundle_def payload mk_engine_def)
  moreover have "\<exists>t. routes_from_file sha compile (bf_routes (files_of dir')) = Inr t"
    using demo_routes_compile[OF paths, of sha] by (auto simp: files routes_from_file_def as_boot_def)
  ultimately show ?thesis using demo_roles_load by (auto simp: files)
qed

end
