(* ===== verification/Handover.thy ===== *)
theory Handover
  imports Pipeline Escalation AuditChain
begin

text \<open>
  Two places where one part's output is another part's table.

  \<open>db/escalation_sink.py\<close> (the protocol is \<open>agentiam_pep/escalation_sink.py\<close>) opens the escalation of a
  request the pipeline held: one session over the store of theory Escalation, any error of which the
  pipeline sees as no escalation.  \<open>scripts/demo_tamper.py\<close> edits one row of the audit table of theory
  AuditChain, keeps the original beside it, and puts it back; each direction is one transaction.

  The lemmas show that an escalation the gateway answers is in the store, and that the chain locates the
  edit and is whole again once it is undone.
\<close>

section \<open>The escalation sink\<close>

text \<open>\<open>up\<close> is false when no session can be had; \<open>fresh\<close> is the id the store would draw.\<close>

definition escalation_sink_create :: "bool \<Rightarrow> uuid \<Rightarrow> escalation_call \<Rightarrow> escalation_row list \<Rightarrow> escalation_row list \<times> uuid option" where
  "escalation_sink_create up fresh c rows =
     (if \<not> up then (rows, None)
      else (case create_escalation fresh (ec_decision_id c) (ec_task_id c) (ec_agent_id c) (ec_principal_id c) (ec_intent_hash c)
                   (ec_requested_scopes c) (ec_requested_amount c) (ec_reason c) (ec_now c) (seconds (ec_ttl_s c)) rows of
              (rows', Inl _) \<Rightarrow> (rows', None)
            | (rows', Inr e) \<Rightarrow> (rows', Some (es_id e))))"

text \<open>The sink as the pipeline calls it, over the rows it finds.\<close>

definition escalation_sink_over :: "bool \<Rightarrow> uuid \<Rightarrow> escalation_row list \<Rightarrow> escalation_sink" where
  "escalation_sink_over up fresh rows = (\<lambda>c st. (st, snd (escalation_sink_create up fresh c rows)))"

section \<open>The tamper\<close>

definition TARGET_AGENT :: string where "TARGET_AGENT = ''agt-settlement''"
definition TARGET_REASON :: string where "TARGET_REASON = ''BUDGET_EXHAUSTED_CAVEAT''"

text \<open>\<open>record->>'key' = text\<close>: for these texts only a JSON string can match.\<close>

definition field_is :: "string \<Rightarrow> string \<Rightarrow> pvalue \<Rightarrow> bool" where
  "field_is key t v = (case v of PyMap items \<Rightarrow> map_of items key = Some (PyStr t) | _ \<Rightarrow> False)"

definition jsonb_set :: "string \<Rightarrow> pvalue \<Rightarrow> pvalue \<Rightarrow> pvalue" where
  "jsonb_set key x v = (case v of PyMap items \<Rightarrow> PyMap (AList.update key x items) | _ \<Rightarrow> v)"

definition altered :: "pvalue \<Rightarrow> pvalue" where
  "altered v = jsonb_set ''reason_code'' (PyStr ''OK'') (jsonb_set ''outcome'' (PyStr ''allow'') v)"

definition tamper_target :: "audit_db \<Rightarrow> audit_row option" where
  "tamper_target db =
     (case rev (filter (\<lambda>r. field_is ''agent_id'' TARGET_AGENT (ar_record r) \<and> field_is ''reason_code'' TARGET_REASON (ar_record r))
                  (ordered_rows db)) of [] \<Rightarrow> None | r # _ \<Rightarrow> Some r)"

record tamper_db =
  tp_audit :: audit_db
  tp_backup :: "(int \<times> pvalue) list option"

definition tamper :: "tamper_db \<Rightarrow> tamper_db \<times> int" where
  "tamper db =
     (if tp_backup db \<noteq> None then (db, 1)
      else (case tamper_target (tp_audit db) of
              None \<Rightarrow> (db, 1)
            | Some t \<Rightarrow>
                (let rows = ad_rows (tp_audit db) in
                 (\<lparr>tp_audit = (tp_audit db)\<lparr>ad_rows :=
                     map (\<lambda>r. if ar_seq r = ar_seq t then r\<lparr>ar_record := altered (ar_record r)\<rparr> else r) rows\<rparr>,
                   tp_backup = Some (map (\<lambda>r. (ar_seq r, ar_record r)) (filter (\<lambda>r. ar_seq r = ar_seq t) rows))\<rparr>, 0))))"

definition undo :: "tamper_db \<Rightarrow> tamper_db \<times> int" where
  "undo db =
     (case tp_backup db of
        None \<Rightarrow> (db, 0)
      | Some backup \<Rightarrow>
          (\<lparr>tp_audit = (tp_audit db)\<lparr>ad_rows :=
              map (\<lambda>r. case map_of backup (ar_seq r) of None \<Rightarrow> r | Some b \<Rightarrow> r\<lparr>ar_record := b\<rparr>) (ad_rows (tp_audit db))\<rparr>,
            tp_backup = None\<rparr>, 0))"

section \<open>A held request is in the queue\<close>

lemma created_row:
  assumes "escalation_sink_create up fresh c rows = (rows', Some i)" "escalations_ok rows"
  shows "i = fresh \<and> up \<and> (\<exists>r e. rows' = rows @ [r] \<and> escalations_ok rows' \<and> get_escalation rows' i = Some e \<and> es_state e = PENDING
    \<and> es_id e = fresh \<and> es_decision_id e = ec_decision_id c \<and> es_task_id e = ec_task_id c \<and> es_agent_id e = ec_agent_id c
    \<and> es_principal_id e = ec_principal_id c \<and> es_expires_at e = ec_now c + seconds (ec_ttl_s c)
    \<and> (finite (ec_requested_scopes c) \<longrightarrow> es_requested_scopes e = ec_requested_scopes c))"
proof -
  obtain e where up: "up" and e: "i = es_id e" "create_escalation fresh (ec_decision_id c) (ec_task_id c) (ec_agent_id c) (ec_principal_id c)
      (ec_intent_hash c) (ec_requested_scopes c) (ec_requested_amount c) (ec_reason c) (ec_now c) (seconds (ec_ttl_s c)) rows = (rows', Inr e)"
    using assms(1) by (auto simp: escalation_sink_create_def split: if_splits prod.splits sum.splits)
  let ?req = "request_escalation fresh (ec_decision_id c) (ec_task_id c) (ec_agent_id c) (ec_principal_id c) (ec_intent_hash c)
      (ec_requested_scopes c) (ec_requested_amount c) (ec_reason c) (ec_now c) (seconds (ec_ttl_s c))"
  obtain e0 where e0: "?req = Inr e0" using e(2) by (cases ?req) (simp_all add: create_escalation_def)
  obtain r where r0: "new_row e0 = Some r" using e(2) e0 by (cases "new_row e0") (simp_all add: create_escalation_def)
  have ok: "escalations_ok (rows @ [r])"
    using e(2) e0 r0 by (cases "by_decision rows (ec_decision_id c)") (simp_all add: create_escalation_def split: if_splits)
  then have same: "e0 = e" "rows' = rows @ [r]" using e(2) e0 r0 by (simp_all add: create_escalation_def)
  note r = r0[unfolded same(1)] ok same(2) and req = e0[unfolded same(1)]
  have id: "es_id e = fresh" using req by (auto simp: request_escalation_def split: if_splits)
  have row: "er_id r = fresh" using r(1) id by (auto simp: new_row_def split: option.splits if_splits)
  have "find (\<lambda>x. er_id x = fresh) rows = None"
    using r(2) row unfolding find_None_iff by (auto simp: escalations_ok_def) (metis image_eqI)
  moreover have "find (\<lambda>x. er_id x = fresh) (rows @ [r]) = Some r" using calculation row
    by (induction rows) (auto split: if_splits)
  ultimately have got: "get_escalation rows' i = Some (to_domain r)" by (simp add: get_escalation_def r(3) e(1) id)
  have "es_state e = PENDING" "es_decision_id e = ec_decision_id c" "es_task_id e = ec_task_id c" "es_agent_id e = ec_agent_id c"
      "es_principal_id e = ec_principal_id c" "es_expires_at e = ec_now c + seconds (ec_ttl_s c)"
      "es_requested_scopes e = ec_requested_scopes c"
    using req by (auto simp: request_escalation_def split: if_splits)
  moreover have "es_state (to_domain r) = es_state e" "es_id (to_domain r) = es_id e" "es_decision_id (to_domain r) = es_decision_id e"
      "es_task_id (to_domain r) = es_task_id e" "es_agent_id (to_domain r) = es_agent_id e"
      "es_principal_id (to_domain r) = es_principal_id e" "es_expires_at (to_domain r) = es_expires_at e"
      "finite (es_requested_scopes e) \<longrightarrow> es_requested_scopes (to_domain r) = es_requested_scopes e"
    using r(1) by (auto simp: new_row_def to_domain_def split: option.splits if_splits)
  ultimately show ?thesis using r(2,3) id up e(1) got
    by (intro conjI exI[of _ r] exI[of _ "to_domain r"]) simp_all
qed

lemma finish_escalation_id:
  "finish_authorize cfg ce x tok pr cs ctx d eid rv st = (st', Inr (Refused f)) \<Longrightarrow> rf_escalation_id f \<noteq> None \<Longrightarrow>
     rf_escalation_id f = eid \<and> rf_decision_id f = Some (cv_decision_id ce) \<and> rf_reason_code f = de_reason_code d"
  by (auto simp: finish_authorize_def refuse_def split: sum.splits option.splits prod.splits if_splits)

lemma record_and_refuse_id: "record_and_refuse cfg ce reason x tok pr st = (st', Inr (Refused f)) \<Longrightarrow> rf_escalation_id f = None"
  by (auto simp: record_and_refuse_def refuse_def split: sum.splits)

lemma refuse_id: "refuse reason trace = Inr (Refused f) \<Longrightarrow> rf_escalation_id f = None"
  by (auto simp: refuse_def split: sum.splits)

text \<open>
  C29: A refusal that names an escalation names one that is in the store.  It is the one row the request
  added, under the id the answer carries: pending, for the scope the request asked for and the task and
  principal of the token it verified under, tied to the decision the answer names and open for the
  configured time.  Without a session no request is answered so.
\<close>

theorem escalation_answer_is_queued:
  assumes sink: "pp_escalation_sink cfg = Some (escalation_sink_over up fresh rows)" and rows: "escalations_ok rows"
    and run: "authorize cfg ce req st = (st', Inr (Refused f))" and id: "rf_escalation_id f = Some i"
  shows "\<exists>x bt tok c r e. extract_request (pp_sha cfg) (pp_loads cfg) (pp_unquote cfg) (pp_routes cfg)
         (req\<lparr>hr_headers := header_map (hr_headers req)\<rparr>) = Inr x
    \<and> bearer_token (header_map (hr_headers req)) = Some bt
    \<and> verify (pp_lib cfg) bt (pp_key_set cfg) (Aware (cv_t_verify ce)) = Inr tok
    \<and> up \<and> escalation_sink_create up fresh c rows = (rows @ [r], Some i) \<and> escalations_ok (rows @ [r])
    \<and> get_escalation (rows @ [r]) i = Some e \<and> es_state e = PENDING \<and> es_requested_scopes e = {ex_scope x}
    \<and> es_task_id e = vt_task_id tok \<and> es_principal_id e = vt_principal_id tok
    \<and> es_decision_id e = cv_decision_id ce \<and> rf_decision_id f = Some (cv_decision_id ce)
    \<and> es_expires_at e = cv_t_escalate ce + seconds (pp_escalation_ttl_s cfg)"
  using run
proof (cases rule: authorize_stages)
  case early
  then show ?thesis using id by simp
next
  case (decided x bt tok ctx d pr cs)
  let ?c = "escalation_call_for cfg ce tok pr ctx d" and ?st = "st\<lparr>px_pool := pool_after_decide cfg ce tok pr cs ctx (px_pool st)\<rparr>"
  note d = decided(8)
  have "de_outcome d = ESCALATE"
    using d id by (auto simp: after_decision_def dest!: finish_escalation_id record_and_refuse_id
        split: if_splits prod.splits sum.splits pool_error.splits)
  then obtain i' where i': "snd (escalation_sink_create up fresh ?c rows) = Some i'"
    "finish_authorize cfg ce x tok pr cs ctx d (Some i') None ?st = (st', Inr (Refused f))"
    using d id by (auto simp: after_decision_def sink escalation_sink_over_def dest!: record_and_refuse_id split: option.splits)
  then have f: "i' = i" "rf_decision_id f = Some (cv_decision_id ce)" using finish_escalation_id[OF i'(2)] id by simp_all
  obtain rows' where made: "escalation_sink_create up fresh ?c rows = (rows', Some i)"
    using i'(1) f(1) by (cases "escalation_sink_create up fresh ?c rows") simp
  have "ec_decision_id ?c = cv_decision_id ce" "ec_now ?c = cv_t_escalate ce" "ec_ttl_s ?c = pp_escalation_ttl_s cfg"
      "ec_requested_scopes ?c = {ex_scope x}" "ec_task_id ?c = vt_task_id tok" "ec_principal_id ?c = vt_principal_id tok"
    using context_for_fields(1)[OF decided(4)] by (simp_all add: escalation_call_for_def)
  then show ?thesis using created_row[OF made rows] made f(2) decided(1-3) by auto
qed

section \<open>What the tamper does\<close>

lemma json_update:
  assumes "json u (PyMap items)" "json u x" "k \<in> fst ` set items" shows "json u (PyMap (AList.update k x items))"
proof -
  have "map (nfc u \<circ> fst) (AList.update k x items) = map (nfc u \<circ> fst) items"
    using assms(3) by (simp add: update_keys flip: map_map)
  moreover have "set (AList.update k x items) \<subseteq> insert (k, x) (set items)" by (induction items) auto
  ultimately show ?thesis using assms by (fastforce simp: list_all_iff)
qed

text \<open>Both keys that the tamper sets are in the body, so no key is added.\<close>

definition tamper_keys :: "pvalue \<Rightarrow> bool" where
  "tamper_keys v = (case v of PyMap items \<Rightarrow> {''reason_code'', ''outcome''} \<subseteq> fst ` set items | _ \<Rightarrow> True)"

lemma json_altered: "json u v \<Longrightarrow> tamper_keys v \<Longrightarrow> json u (altered v)"
proof (cases v)
  case (PyMap items)
  assume j: "json u v" "tamper_keys v"
  let ?o = "AList.update ''outcome'' (PyStr ''allow'') items"
  have "json u (PyMap ?o)" using j PyMap by (intro json_update) (simp_all add: tamper_keys_def)
  moreover have "''reason_code'' \<in> fst ` set ?o" using j PyMap by (simp add: tamper_keys_def dom_update)
  ultimately have "json u (PyMap (AList.update ''reason_code'' (PyStr ''OK'') ?o))" using json_update[of u ?o "PyStr ''OK''"] by simp
  then show ?thesis unfolding PyMap altered_def jsonb_set_def by simp
qed (simp_all add: altered_def jsonb_set_def)

lemma canon_entry:
  assumes "canon u (PyMap xs) = canon u (PyMap ys)" "distinct (map (nfc u \<circ> fst) ys)" "map_of xs k = Some a" "map_of ys k = Some b"
  shows "canon u a = canon u b"
proof -
  let ?f = "\<lambda>(k, v). (nfc u k, canon u v)"
  have "set (sort_key fst (map ?f xs)) = set (sort_key fst (map ?f ys))" using assms(1) by simp
  then have "?f ` set xs = ?f ` set ys" by simp
  moreover have "(nfc u k, canon u a) \<in> ?f ` set xs" using map_of_SomeD[OF assms(3)] by force
  ultimately obtain k' b' where b': "(k', b') \<in> set ys" "nfc u k' = nfc u k" "canon u b' = canon u a" by auto
  moreover have "(k, b) \<in> set ys" using assms(4) by (rule map_of_SomeD)
  ultimately have "(k', b') = (k, b)" using assms(2) unfolding distinct_map by (intro inj_onD[of "nfc u \<circ> fst" "set ys"]) simp_all
  then show ?thesis using b' by simp
qed

lemma altered_differs:
  assumes "json u v" "field_is ''reason_code'' TARGET_REASON v" shows "canon u (altered v) \<noteq> canon u v"
proof
  obtain items where v: "v = PyMap items" "map_of items ''reason_code'' = Some (PyStr TARGET_REASON)"
    using assms(2) by (auto simp: field_is_def split: pvalue.splits)
  assume "canon u (altered v) = canon u v"
  then have eq: "canon u (PyMap (AList.update ''reason_code'' (PyStr ''OK'') (AList.update ''outcome'' (PyStr ''allow'') items)))
      = canon u (PyMap items)" by (simp only: altered_def jsonb_set_def v(1) pvalue.case)
  have keys: "distinct (map (nfc u \<circ> fst) items)" using assms(1) v(1) by simp
  have "map_of (AList.update ''reason_code'' (PyStr ''OK'') (AList.update ''outcome'' (PyStr ''allow'') items)) ''reason_code''
      = Some (PyStr ''OK'')" by (simp add: update_conv')
  then have "canon u (PyStr ''OK'') = canon u (PyStr TARGET_REASON)" by (rule canon_entry[OF eq keys _ v(2)])
  moreover have "nfc u ''OK'' = ''OK''" "nfc u TARGET_REASON = TARGET_REASON" by (rule nfc_ascii, code_simp)+
  ultimately show False by (simp add: TARGET_REASON_def)
qed

lemma target_row:
  assumes "tamper_target db = Some t"
  shows "t \<in> set (ad_rows db)" "field_is ''reason_code'' TARGET_REASON (ar_record t)" "field_is ''agent_id'' TARGET_AGENT (ar_record t)"
proof -
  have "t \<in> set (rev (filter (\<lambda>r. field_is ''agent_id'' TARGET_AGENT (ar_record r) \<and> field_is ''reason_code'' TARGET_REASON (ar_record r))
      (ordered_rows db)))"
    using assms unfolding tamper_target_def by (metis (no_types, lifting) list.case_eq_if list.set_sel(1) option.distinct(1) option.inject)
  then show "t \<in> set (ad_rows db)" "field_is ''reason_code'' TARGET_REASON (ar_record t)" "field_is ''agent_id'' TARGET_AGENT (ar_record t)"
    by (auto simp: ordered_rows_def)
qed

text \<open>
  C40: The tamper is caught, guarded and undone.  On a table the code can have written, whose bodies have
  the fields of a decision record, tampering with the newest refusal of the target agent leaves a chain
  that is reported broken at exactly that row, given that SHA-256 tells the two bodies apart; a second
  tamper is refused and changes nothing; undoing restores the table itself, which verifies.
\<close>

theorem tamper_caught_and_undone:
  assumes reach: "stores_json sha dump jsonb" "audit_reachable sha dump jsonb db"
    and t: "tamper_target db = Some t" and keys: "tamper_keys (ar_record t)"
    and apart: "inj_on (hs_sha sha) (link_bytes sha [t, t\<lparr>ar_record := altered (ar_record t)\<rparr>])"
    and run: "tamper \<lparr>tp_audit = db, tp_backup = None\<rparr> = (db', code)"
  shows "code = 0 \<and> verify_chain sha (tp_audit db') = Inr (broken_at (ar_seq t - 1) (ar_seq t) RecordAltered)
    \<and> tamper db' = (db', 1)
    \<and> undo db' = (\<lparr>tp_audit = db, tp_backup = None\<rparr>, 0) \<and> (\<exists>v. verify_chain sha db = Inr v \<and> cv_ok v)"
proof -
  have inv: "linked sha None 0 (ad_rows db)" "json (hs_nfc sha) (ar_record t)"
    using reachable_inv[OF reach(2,1)] target_row(1)[OF t] by (auto simp: chain_inv_def list_all_iff)
  obtain xs ys where rows: "ad_rows db = xs @ t # ys" using target_row(1)[OF t] by (meson split_list)
  have seqs: "map ar_seq (xs @ t # ys) = [1..int (length (xs @ t # ys))]" using linked_seqs[OF inv(1)] rows by simp
  have distinct: "distinct (map ar_seq (xs @ t # ys))" unfolding seqs by simp
  have at: "ar_seq t = int (length xs) + 1" using inv(1) unfolding rows linked_append by simp
  have others: "ar_seq r \<noteq> ar_seq t" if "r \<in> set xs \<union> set ys" for r using distinct that by (auto simp: image_iff)
  let ?t = "t\<lparr>ar_record := altered (ar_record t)\<rparr>"
  have changed: "map (\<lambda>r. if ar_seq r = ar_seq t then r\<lparr>ar_record := altered (ar_record r)\<rparr> else r) (ad_rows db) = xs @ ?t # ys"
    and kept: "filter (\<lambda>r. ar_seq r = ar_seq t) (ad_rows db) = [t]"
    unfolding rows using others by (auto simp: filter_empty_conv intro!: map_idI)
  have db': "db' = \<lparr>tp_audit = db\<lparr>ad_rows := xs @ ?t # ys\<rparr>, tp_backup = Some [(ar_seq t, ar_record t)]\<rparr>" "code = 0"
    using run by (simp_all add: tamper_def t changed kept Let_def)
  have "verify_chain sha (db\<lparr>ad_rows := xs @ ?t # ys\<rparr>) = Inr (broken_at (int (length xs)) (int (length xs) + 1) RecordAltered)"
    using tampering_is_located[OF reach rows json_altered[OF inv(2) keys] altered_differs[OF inv(2) target_row(2)[OF t]] apart] by blast
  moreover have "map (\<lambda>r. case map_of [(ar_seq t, ar_record t)] (ar_seq r) of None \<Rightarrow> r | Some b \<Rightarrow> r\<lparr>ar_record := b\<rparr>) (xs @ ?t # ys)
      = ad_rows db"
    unfolding rows using others by (auto intro!: map_idI)
  then have "undo db' = (\<lparr>tp_audit = db, tp_backup = None\<rparr>, 0)" by (simp add: undo_def db'(1))
  moreover have "\<exists>v. verify_chain sha db = Inr v \<and> cv_ok v" using audit_chain_verifies[OF reach] by auto
  ultimately show ?thesis by (simp add: db' at tamper_def)
qed

section \<open>Witnesses\<close>

text \<open>A request whose token needs an approval, at a gateway whose store is empty.\<close>

definition held_pipeline :: "(dl_stmt list list, nat) pipeline" where
  "held_pipeline = (demo_pipeline [RequiresApproval {''orders:read''}])\<lparr>pp_escalation_sink := Some (escalation_sink_over True 50 [])\<rparr>"

definition demo_held :: decision where
  "demo_held = \<lparr>de_outcome = ESCALATE, de_reason_code = APPROVAL_REQUIRED,
     de_failing_caveat = Some (0, REQUIRES_APPROVAL), de_drift_score = None\<rparr>"

lemma held_decided:
  "run_decide held_pipeline demo_token demo_principal [RequiresApproval {''orders:read''}] demo_ctx b = Inr demo_held"
proof -
  have "vt_revocation_ids demo_token = [''rid'']" "operation demo_ctx \<in> vt_scopes demo_token"
    "request_intent demo_ctx = vt_intent_hash demo_token" "\<not> vt_max_depth demo_token < current_depth demo_ctx"
    using granted_fields(1) by (simp_all add: demo_token_fields demo_ctx_def)
  moreover have "evaluate_caveats [RequiresApproval {''orders:read''}] demo_ctx = Inr (Some demo_held)"
    by (simp add: evaluate_caveats_def demo_ctx_def demo_held_def)
  ultimately show ?thesis
    by (simp add: run_decide_def held_pipeline_def demo_pipeline_def demo_request_authorized decide_def decide_after_caveats_def
        check_policy_def drift_score_of_def drift_escalates_def demo_held_def)
qed

lemma held_fields:
  "pp_lib held_pipeline = pp_lib (demo_pipeline [])" "pp_sha held_pipeline = pp_sha (demo_pipeline [])"
  "pp_loads held_pipeline = pp_loads (demo_pipeline [])" "pp_unquote held_pipeline = pp_unquote (demo_pipeline [])"
  "pp_routes held_pipeline = pp_routes (demo_pipeline [])" "pp_key_set held_pipeline = pp_key_set (demo_pipeline [])"
  "pp_principal_for held_pipeline tok = Inr demo_principal" "pp_caveats_for held_pipeline tok = Inr [RequiresApproval {''orders:read''}]"
  "pp_escalation_sink held_pipeline = Some (escalation_sink_over True 50 [])" "context_for held_pipeline = context_for (demo_pipeline [])"
proof -
  have "pp_sha held_pipeline = pp_sha (demo_pipeline [])" by (simp add: held_pipeline_def demo_pipeline_def)
  then show "context_for held_pipeline = context_for (demo_pipeline [])"
    unfolding context_for_def[abs_def] by (simp only:)
qed (simp_all add: held_pipeline_def demo_pipeline_def)

lemma held_recorded:
  "\<exists>rec. build_record held_pipeline demo_env demo_extraction demo_token demo_principal APPROVAL_REQUIRED ESCALATE [] None None
     (Some \<lparr>ref_block_index = 0, ref_kind = REQUIRES_APPROVAL, ref_detail = None\<rparr>) (Some demo_ctx)
     (Some [RequiresApproval {''orders:read''}]) primed_pool = Inr rec"
proof -
  have "remaining SPEND_BDT primed_pool = 100" using primed_pool_held(1) by (simp add: remaining_def new_lease_def)
  moreover have "mk_budget (spend_budget 100) = Inr (spend_budget 100)" "budget_wf (spend_budget 100)" by code_simp+
  moreover have "hex64_re (replicate 64 CHR ''b'')"
    by (simp add: hex64_re_def dollar_def newline_def hex_char_def list_all_iff)
  ultimately show ?thesis
    by (simp add: build_record_def recorded_authority_of_def demo_grant_ok mk_decision_record_def
        decision_record_wf_def held_pipeline_def demo_pipeline_def demo_env_def trace_of_def demo_token_fields demo_extraction_def
        outcome_matches_reason_def demo_principal_def Let_def)
qed

lemma held_run:
  obtains st' f where "authorize held_pipeline demo_env demo_http demo_state = (st', Inr (Refused f))" "rf_escalation_id f = Some 50"
proof -
  have v: "verify (pp_lib (demo_pipeline [])) ''token'' (pp_key_set (demo_pipeline [])) (Aware (cv_t_verify demo_env)) = Inr demo_token"
    using demo_verifies by (simp add: demo_pipeline_def demo_env_def)
  have made: "snd (escalation_sink_create True 50 (escalation_call_for held_pipeline demo_env demo_token demo_principal demo_ctx demo_held) []) = Some 50"
    by (simp add: escalation_sink_create_def escalation_call_for_def create_escalation_def request_escalation_def new_row_def
        numeric_20_4_def escalations_ok_def demo_ctx_def)
  obtain rec where rec: "build_record held_pipeline demo_env demo_extraction demo_token demo_principal APPROVAL_REQUIRED ESCALATE [] None None
     (Some \<lparr>ref_block_index = 0, ref_kind = REQUIRES_APPROVAL, ref_detail = None\<rparr>) (Some demo_ctx)
     (Some [RequiresApproval {''orders:read''}]) primed_pool = Inr rec" using held_recorded by blast
  have "emit rec (new_emitter demo_emitter_settings) = Inr ((new_emitter demo_emitter_settings)\<lparr>em_queue := [rec]\<rparr>)"
    by (simp add: emit_def queue_full_def new_emitter_def demo_emitter_settings_def)
  moreover have "pp_detail held_pipeline d = []" "pp_ref_detail held_pipeline d = None" for d
    by (simp_all add: held_pipeline_def demo_pipeline_def)
  moreover have "pool_after_decide held_pipeline demo_env demo_token demo_principal [RequiresApproval {''orders:read''}] demo_ctx primed_pool = primed_pool"
    by (simp add: pool_after_decide_def held_decided)
  ultimately have "\<exists>st' f. authorize held_pipeline demo_env demo_http demo_state = (st', Inr (Refused f)) \<and> rf_escalation_id f = Some 50"
    using rec made
    by (simp add: authorize_def held_fields demo_headers demo_extracted v demo_context_built held_decided after_decision_def
        escalation_sink_over_def finish_authorize_def demo_state_def) (simp add: demo_held_def)
  then show ?thesis using that by blast
qed

theorem escalation_answer_is_queued_witness:
  "\<exists>st' f r e. authorize held_pipeline demo_env demo_http demo_state = (st', Inr (Refused f)) \<and> rf_escalation_id f = Some 50
     \<and> get_escalation [r] 50 = Some e \<and> es_state e = PENDING \<and> es_requested_scopes e = {''orders:read''} \<and> es_decision_id e = 31"
proof -
  obtain st' f where f: "authorize held_pipeline demo_env demo_http demo_state = (st', Inr (Refused f))" "rf_escalation_id f = Some 50"
    by (rule held_run)
  have "escalations_ok []" by (simp add: escalations_ok_def)
  from escalation_answer_is_queued[OF held_fields(9) this f] obtain x r e where
    "extract_request (pp_sha held_pipeline) (pp_loads held_pipeline) (pp_unquote held_pipeline) (pp_routes held_pipeline)
       (demo_http\<lparr>hr_headers := header_map (hr_headers demo_http)\<rparr>) = Inr x"
    "get_escalation [r] 50 = Some e" "es_state e = PENDING" "es_requested_scopes e = {ex_scope x}" "es_decision_id e = cv_decision_id demo_env"
    by auto
  moreover from this(1) have "ex_scope x = ''orders:read''" by (auto simp: held_fields demo_extracted demo_extraction_def)
  moreover have "cv_decision_id demo_env = 31" by (simp add: demo_env_def)
  ultimately show ?thesis using f by metis
qed

text \<open>An audit table with one refusal of the target agent in it.\<close>

definition refusal_body :: pvalue where
  "refusal_body = PyMap [(''agent_id'', PyStr TARGET_AGENT), (''outcome'', PyStr ''deny''), (''reason_code'', PyStr TARGET_REASON)]"

definition refusal_sha :: hasher where
  "refusal_sha =
     \<lparr>hs_nfc = latin_nfc,
      hs_sha = \<lambda>b. replicate 64 (if canonical_json latin_nfc (link_value None (altered refusal_body)) = Inr b then CHR ''1'' else CHR ''0'')\<rparr>"

definition refusal_row :: "string \<Rightarrow> audit_row" where
  "refusal_row h = \<lparr>ar_seq = 1, ar_decision_id = 2, ar_record = refusal_body, ar_prev_hash = None, ar_record_hash = h, ar_created_at = 0\<rparr>"

definition refusal_audit :: "string \<Rightarrow> audit_db" where
  "refusal_audit h = \<lparr>ad_rows = [refusal_row h], ad_head = Some \<lparr>ch_last_seq = 1, ch_last_hash = Some h\<rparr>\<rparr>"

lemma refusal_fields: "hs_nfc refusal_sha = latin_nfc" "json latin_nfc refusal_body" "tamper_keys refusal_body"
  "field_is ''reason_code'' TARGET_REASON refusal_body" "field_is ''agent_id'' TARGET_AGENT refusal_body"
  by (simp_all add: refusal_sha_def refusal_body_def tamper_keys_def field_is_def)

lemma refusal_target: "tamper_target (refusal_audit h) = Some (refusal_row h)"
  by (simp add: tamper_target_def refusal_audit_def refusal_row_def ordered_rows_def refusal_fields)

lemma refusal_reachable:
  obtains h where "audit_reachable refusal_sha (\<lambda>_. refusal_body) Some (refusal_audit h)"
proof -
  obtain h where h: "chain_hash refusal_sha None refusal_body = Inr h" using chain_hash_ok[of refusal_sha refusal_body] refusal_fields by auto
  then have "length h = 64" by (auto simp: chain_hash_def hash_object_def refusal_sha_def split: sum.splits)
  then have "append_records refusal_sha (\<lambda>_. refusal_body) Some 0 [demo_record 2] empty_audit = Inr ([h], refusal_audit h)"
    using h by (simp add: append_records_def head_row_def empty_audit_def insert_rows_def hash_fits_def audit_row_ok_def demo_record_def
        refusal_audit_def refusal_row_def Let_def)
  then show ?thesis using that audit_reachable.intros by blast
qed

lemma refusal_apart:
  "inj_on (hs_sha refusal_sha) (link_bytes refusal_sha [refusal_row h, (refusal_row h)\<lparr>ar_record := altered (ar_record (refusal_row h))\<rparr>])"
proof -
  let ?a = "canonical_json latin_nfc (link_value None refusal_body)" and ?b = "canonical_json latin_nfc (link_value None (altered refusal_body))"
  have "json latin_nfc (altered refusal_body)" by (rule json_altered[OF refusal_fields(2,3)])
  then have "?a \<noteq> ?b"
    using canonical_json_inj[of latin_nfc "link_value None refusal_body" "link_value None (altered refusal_body)"]
      altered_differs[OF refusal_fields(2,4)] refusal_fields(2) by (auto simp: canon_link)
  moreover have "link_bytes refusal_sha [refusal_row h, (refusal_row h)\<lparr>ar_record := altered (ar_record (refusal_row h))\<rparr>]
      = {b. ?a = Inr b \<or> ?b = Inr b}"
    by (auto simp: link_bytes_def refusal_row_def refusal_fields)
  ultimately show ?thesis by (auto simp: inj_on_def refusal_sha_def)
qed

theorem tamper_caught_and_undone_witness:
  "\<exists>h db'. tamper \<lparr>tp_audit = refusal_audit h, tp_backup = None\<rparr> = (db', 0)
     \<and> verify_chain refusal_sha (tp_audit db') = Inr (broken_at 0 1 RecordAltered)
     \<and> undo db' = (\<lparr>tp_audit = refusal_audit h, tp_backup = None\<rparr>, 0)"
proof -
  obtain h where h: "audit_reachable refusal_sha (\<lambda>_. refusal_body) Some (refusal_audit h)" by (rule refusal_reachable)
  have stores: "stores_json refusal_sha (\<lambda>_. refusal_body) Some" by (simp add: stores_json_def refusal_fields)
  have keys: "tamper_keys (ar_record (refusal_row h))" by (simp add: refusal_row_def refusal_fields)
  obtain db' code where run: "tamper \<lparr>tp_audit = refusal_audit h, tp_backup = None\<rparr> = (db', code)" by fastforce
  have "ar_seq (refusal_row h) = 1" by (simp add: refusal_row_def)
  then show ?thesis
    using tamper_caught_and_undone[OF stores h refusal_target keys refusal_apart run] run by auto
qed

end
