(* ===== verification/Spec2Isabelle.thy ===== *)
theory Spec2Isabelle
  imports Gateway Deployment Service Revocation Escalation Tasks Tree Explorer Sdk Authoring Compiler Startup Watch Demo Handover
begin

text \<open>
  AgentIAM: authorization and budgets for AI agents.

  A principal grants a task a \<^emph>\<open>mandate\<close>: scopes, a budget, a lifetime and a delegation depth, minted
  as a signed biscuit token.  An agent delegates by appending a block of caveats to its token, offline;
  a child may only narrow.  An enforcement point (PEP) stands in front of the tools as a proxy: it
  extracts what a request asks, verifies its token, decides, reserves budget from a lease it holds on the
  control plane's ledger, records the decision, forwards, and settles.  The control plane keeps the ledger,
  the hash-chained audit log, revocations and escalations to a human, and shows them on a console.

  \<^bold>\<open>The library\<close>, bottom up (sources under \<^verbatim>\<open>src/packages/agentiam-X/src/agentiam_X/\<close>, with \<^verbatim>\<open>X\<close> one
  of core, pep, controlplane and sdk, unless a path says otherwise):

  \<^item> \<open>Prelude\<close>: exceptions as sums (\<open>bindE\<close>, \<open>guardE\<close>, \<open>traverseE\<close>, \<open>forE\<close>), association lists, exact decimals,
    instants in microseconds, and the lemmas and automation the components share.
  \<^item> \<open>Models\<close>: \<^verbatim>\<open>core/models.py\<close>, \<^verbatim>\<open>core/errors.py\<close>.  Each class is a record or datatype, \<open>mk_x\<close> its
    validating constructor.
  \<^item> \<open>Caveats\<close>: \<^verbatim>\<open>core/caveats.py\<close>.  A caveat compiles to Datalog and is evaluated in Python; inside the
    locale \<open>datalog_engine\<close> the two readings agree.
  \<^item> \<open>Tokens\<close>, \<open>Attenuation\<close>: \<^verbatim>\<open>core/tokens.py\<close>, \<^verbatim>\<open>core/attenuation.py\<close>.  Minting, verifying, the narrowing
    algebra, attenuating, and folding a chain.  Locale \<open>narrowing_order\<close>, interpreted on \<open>narrows\<close>,
    gives that a chain of narrowing caveats allows no more at any link than before it.
  \<^item> \<open>Hashing\<close>, \<open>PyText\<close>, \<open>JsonRecord\<close>: canonical JSON (\<^verbatim>\<open>core/hashing.py\<close>) and what the readers of text and
    of stored records need of Python: splitting, decimal context, calendar, \<open>str\<close> and \<open>get\<close> of values.
  \<^item> \<open>Decision\<close>: \<^verbatim>\<open>core/decision.py\<close>.  \<open>decide\<close> over four oracles; the locales \<open>revocation_provider\<close> and
    \<open>budget_provider\<close> are what it needs of two of them, interpreted in \<open>Revocation\<close> and \<open>Pool\<close>.
  \<^item> \<open>Ledger\<close>, \<open>Invariants\<close>: \<^verbatim>\<open>controlplane/db/ledger.py\<close>, \<^verbatim>\<open>db/models.py\<close>, \<^verbatim>\<open>db/invariants.py\<close>.  Every transaction
    as a function of the tables, any interleaving as \<open>ledger_reachable\<close>; the books balance, and the
    checker is exact.
  \<^item> \<open>Pool\<close>, \<open>Settlement\<close>, \<open>Deployment\<close>: \<^verbatim>\<open>pep/lease.py\<close>, \<^verbatim>\<open>pep/pool.py\<close>, \<^verbatim>\<open>pep/settlement.py\<close>,
    \<^verbatim>\<open>db/settlement_sink.py\<close> and the ledger client of \<^verbatim>\<open>src/scripts/pep_service.py\<close>.  Local leases, the queue,
    and the two over the ledger as a step relation with the sum of what the tools charged as a ghost.
  \<^item> \<open>Revocation\<close>, \<open>Escalation\<close>: the stores, the routes, the oracle with its Bloom filter, and the
    approvals as interleaved steps over the table.
  \<^item> \<open>Emitter\<close>, \<open>AuditChain\<close>: \<^verbatim>\<open>pep/emitter.py\<close>, \<^verbatim>\<open>db/audit.py\<close>, \<^verbatim>\<open>db/audit_sink.py\<close> and
    \<^verbatim>\<open>src/scripts/verify_audit_chain.py\<close>.  The buffer with its retries, and the chain it is written to.
  \<^item> \<open>BlockReader\<close>, \<open>Extractor\<close>: \<^verbatim>\<open>core/datalog.py\<close>, \<^verbatim>\<open>pep/extractor.py\<close>, \<^verbatim>\<open>pep/headers.py\<close>.  Reading blocks back
    from their text (locale \<open>block_printer\<close>), and requests into arguments.
  \<^item> \<open>Policy\<close>, \<open>Corpus\<close>: \<^verbatim>\<open>core/bundles.py\<close>, \<^verbatim>\<open>core/policy_testing.py\<close>, \<^verbatim>\<open>core/corpus.py\<close>, \<^verbatim>\<open>pep/policy.py\<close>,
    \<^verbatim>\<open>pep/policy_cache.py\<close>, \<^verbatim>\<open>pep/activation.py\<close>.  Locale \<open>policy_provider\<close> is interpreted on the cache.
  \<^item> \<open>Drift\<close>: \<^verbatim>\<open>pep/drift.py\<close>, \<^verbatim>\<open>core/drift_features.py\<close>.  The advisory score, its two caches, the features.
  \<^item> \<open>Pipeline\<close>, \<open>Gateway\<close>: \<^verbatim>\<open>pep/pipeline.py\<close>, \<^verbatim>\<open>pep/app.py\<close>.  \<open>authorize\<close> and \<open>settle\<close> over all of the above,
    and the proxy as a step relation of requests that await the upstream.
  \<^item> \<open>Service\<close>, \<open>Startup\<close>, \<open>Watch\<close>: the rest of \<^verbatim>\<open>src/scripts/pep_service.py\<close>, \<^verbatim>\<open>pep/config.py\<close>, the reaper of
    \<^verbatim>\<open>controlplane/app.py\<close> and \<^verbatim>\<open>src/scripts/run_invariant_checker.py\<close>.  What a PEP is built from, how it starts
    and stops, and the two loops beside the ledger.
  \<^item> \<open>Tasks\<close>, \<open>Tree\<close>, \<open>Console\<close>, \<open>Explorer\<close>: \<^verbatim>\<open>controlplane/tasks.py\<close> and the read models of \<^verbatim>\<open>db/tree.py\<close>,
    \<^verbatim>\<open>db/decisions.py\<close>, \<^verbatim>\<open>db/budget_dashboard.py\<close>, \<^verbatim>\<open>db/audit_search.py\<close>, \<^verbatim>\<open>db/decision_metrics.py\<close> with their routes.
  \<^item> \<open>Access\<close>, \<open>Authoring\<close>, \<open>Compiler\<close>: \<^verbatim>\<open>controlplane/settings.py\<close>, \<^verbatim>\<open>auth.py\<close>, \<^verbatim>\<open>demo_auth.py\<close>, \<^verbatim>\<open>app.py\<close> and
    \<^verbatim>\<open>nl_compiler/\<close>.  Who may act on the console, its policy and task pages, and the model clients.
  \<^item> \<open>Handover\<close>: \<^verbatim>\<open>db/escalation_sink.py\<close> and \<^verbatim>\<open>src/scripts/demo_tamper.py\<close>.  A refusal that names an escalation
    names a row of the queue; an edited audit row is located, and undoing the edit restores the table.
  \<^item> \<open>Demo\<close>: \<^verbatim>\<open>src/scripts/bootstrap_demo_secrets.py\<close>, \<^verbatim>\<open>seed_demo.py\<close>, \<^verbatim>\<open>demo_concurrency.py\<close> and the routes of
    \<^verbatim>\<open>serve_pep.py\<close>.  What the demonstration grants, sends and reports; what it writes is what the service accepts.
  \<^item> \<open>Sdk\<close>: \<^verbatim>\<open>sdk/*.py\<close>.  The client of an agent, its delegation, the ambient identity and local checks.
\<close>

text \<open>
  \<^bold>\<open>What is shown.\<close>  Authority: a token is accepted only in its window and under an accepted key, a child
  never exceeds its parent, the SDK delegates exactly what it is asked, a block reads back as it was written,
  and an agent's role comes from its delegation path.  Decisions: \<open>decide\<close> allows exactly when every step
  passes; everything forwarded was authorized, reserved and recorded; a refusal spends nothing; drift alone
  escalates only orthogonal texts.  Budgets: the books balance in every reachable ledger, under the reaper
  and failing passes too; draining is one commit per settlement in order; a deployment that replaces leases
  between calls stays within its budget, and stopping it leaves exactly what was charged; replacing one
  under a call can overspend, as a run shows.  Records: the chain is tamper-evident, accepted
  decisions reach it through outages, the stream and the gauges the console shows are the records' and the
  ledger's.  People: an escalation resolves once, in time and within its request, and every act on the
  console has a name.  Policy: the enforced bundle is signed and never rolls back, both activation gates
  demand the corpus.  Configuration: a service that starts has everything it enforces with.

  \<^bold>\<open>Conventions.\<close>  A Python function that may raise returns \<open>error + value\<close>, every \<open>raise\<close> a branch.  A
  coroutine that awaits is cut where it awaits, and other steps may run there; a database transaction holds
  its row locks, so it is one step.  Clocks and random identifiers are arguments.  \<open>Decimal\<close> is exact where
  the amounts are \<open>NUMERIC(20,4)\<close>, and rounded by the 28-digit context (\<open>PyText.ctx_round\<close>) where the code
  relies on it; a number that may be infinite or no number is a \<open>dec\<close>.  Integers are unbounded, also as
  Datalog terms, where biscuit's are signed 64-bit.  Strings hold code points below U+0100; Unicode
  normalization is any idempotent map of texts that keeps ASCII (\<open>normalizer\<close>), applied where the code
  applies NFC, and no result depends on which texts it identifies.

  \<^bold>\<open>Parameters\<close> stand for code outside the repository: the biscuit library (record \<open>biscuit_lib\<close>), the Datalog
  engine, Cedar (\<open>cedar_lib\<close>), SHA-256 and NFC (\<open>hasher\<close>), Ed25519 (\<open>verifier\<close>), the Bloom filter (\<open>bloom_lib\<close>), PostgreSQL's \<open>JSONB\<close>, the path
  compiler of the web framework, the reader of JSON, \<open>float\<close> of a text, the language and embedding models and what OpenID Connect
  answers.  What is relied on is a locale or a named predicate with documented laws (\<open>datalog_engine\<close>,
  \<open>block_printer\<close>, \<open>bloom_ok\<close>, collision-freeness where tampering is concerned), and each has an instance.

  \<^bold>\<open>Loops.\<close>  \<open>drain\<close> ends because it repeats only while the queue shrinks; \<open>flush_emitter\<close> is a
  \<open>partial_function\<close>, proved to return for every sink once the batch size is positive, which the settings
  demand; the retries of the model clients end after the configured attempts; the readers of text shorten
  it at each step.  No fuel is used.

  \<^bold>\<open>Not modelled.\<close>  Rendering: HTML templates, log and detail texts, the framing of event streams, traces
  and histograms.  Wiring: routers, middleware, sessions beyond their content, schema migrations, HTTP
  clients, timers (a timer is when its step happens) and command lines.  Floating-point rates and the
  rounding of doubles.  The scripts that measure or generate reports (\<^verbatim>\<open>run_load_test\<close>, \<^verbatim>\<open>generate_*\<close>,
  \<^verbatim>\<open>evaluate_compiler\<close>), the benchmark gateway of \<^verbatim>\<open>serve_pep\<close> and the stub tools (\<^verbatim>\<open>agentiam_demo\<close>), which hold data
  and call what is modelled.  Each theory's own heading says what it leaves out.
\<close>

end
